(* ===== verification/Prelude.thy ===== *)
theory Prelude
  imports Main "HOL-Library.AList" "HOL-Library.List_Lexorder" "HOL-Library.Char_ord"
    "HOL-Library.Multiset"
begin

text \<open>
  Shared ground of the development: the parts of the JavaScript language and standard library
  the client uses (objects used as dictionaries, \<open>Array.prototype.sort\<close>, \<open>findIndex\<close>,
  \<open>at(-1)\<close>, \<open>localeCompare\<close>, \<open>Date.parse\<close>), the generic lemmas about them, and the
  interface locales that several components implement.
\<close>

named_theorems jsrec \<comment> \<open>lookup laws of dictionaries\<close>
named_theorems store_simps \<comment> \<open>how store operations act on the state's fields\<close>

section \<open>Identifiers, numbers and times\<close>

text \<open>
  Identifiers are ULIDs or UUIDs, times are RFC 3339 strings. Sequence numbers and milliseconds
  are JavaScript numbers that stay below \<open>2^53\<close>, where they behave as integers.
\<close>

type_synonym ident = string
type_synonym iso = string

definition localeCompare :: "string \<Rightarrow> string \<Rightarrow> int" where
  \<comment> \<open>\<open>a.localeCompare(b)\<close>. On the strings the code compares (ULIDs, UUIDs, RFC 3339 times, each in
    one letter case) the default collation is the code unit order.\<close>
  "localeCompare a b = (if a < b then -1 else if a = b then 0 else 1)"

lemma localeCompare_refl [simp]: "localeCompare a a = 0"
  by (simp add: localeCompare_def)

lemma localeCompare_le: "localeCompare a b \<le> 0 \<longleftrightarrow> a \<le> b"
  by (auto simp: localeCompare_def)

lemma localeCompare_eq0 [simp]: "localeCompare a b = 0 \<longleftrightarrow> a = b"
  by (simp add: localeCompare_def)

lemma localeCompare_flip: "localeCompare b a = - localeCompare a b"
  by (auto simp: localeCompare_def)

fun digits_val :: "int \<Rightarrow> string \<Rightarrow> int option" where
  "digits_val acc [] = Some acc"
| "digits_val acc (c # cs) =
     (if CHR ''0'' \<le> c \<and> c \<le> CHR ''9''
      then digits_val (10 * acc + (int (of_char c) - 48)) cs else None)"

definition num_at :: "nat \<Rightarrow> nat \<Rightarrow> string \<Rightarrow> int option" where
  "num_at i n s = (if length s < i + n then None else digits_val 0 (take n (drop i s)))"

definition days_from_civil :: "int \<Rightarrow> int \<Rightarrow> int \<Rightarrow> int" where
  \<comment> \<open>Days since 1970-01-01 of a date of the proleptic Gregorian calendar.\<close>
  "days_from_civil y m d =
     (let y' = (if m \<le> 2 then y - 1 else y);
          era = y' div 400;
          yoe = y' - era * 400;
          doy = (153 * (if m > 2 then m - 3 else m + 9) + 2) div 5 + d - 1;
          doe = yoe * 365 + yoe div 4 - yoe div 100 + doy
      in era * 146097 + doe - 719468)"

definition frac_ms :: "string \<Rightarrow> int option" where
  \<comment> \<open>Fraction digits, truncated to milliseconds.\<close>
  "frac_ms ds = (if ds = [] then None else
     case digits_val 0 ds of None \<Rightarrow> None
     | Some _ \<Rightarrow> digits_val 0 (take 3 (ds @ ''000'')))"

definition zone_ms :: "string \<Rightarrow> int option" where
  "zone_ms z = (if z = ''Z'' then Some 0
     else if length z = 6 \<and> z ! 3 = CHR '':'' \<and> (hd z = CHR ''+'' \<or> hd z = CHR ''-'') then
       (case (num_at 1 2 z, num_at 4 2 z) of
          (Some h, Some m) \<Rightarrow> Some ((if hd z = CHR ''+'' then 1 else -1) * (h * 60 + m) * 60000)
        | _ \<Rightarrow> None)
     else None)"

definition date_parse :: "iso \<Rightarrow> int option" where
  \<comment> \<open>\<open>Date.parse\<close> on RFC 3339 times, in milliseconds; \<open>None\<close> is NaN.\<close>
  "date_parse s =
     (case (num_at 0 4 s, num_at 5 2 s, num_at 8 2 s, num_at 11 2 s, num_at 14 2 s, num_at 17 2 s) of
        (Some y, Some mo, Some d, Some h, Some mi, Some se) \<Rightarrow>
          if s ! 4 = CHR ''-'' \<and> s ! 7 = CHR ''-'' \<and> s ! 10 = CHR ''T'' \<and> s ! 13 = CHR '':'' \<and> s ! 16 = CHR '':''
             \<and> 1 \<le> mo \<and> mo \<le> 12 \<and> 1 \<le> d \<and> d \<le> 31 \<and> h \<le> 23 \<and> mi \<le> 59 \<and> se \<le> 59 then
            let rest = drop 19 s;
                isfrac = (rest \<noteq> [] \<and> hd rest = CHR ''.'');
                ds = (if isfrac then takeWhile (\<lambda>c. CHR ''0'' \<le> c \<and> c \<le> CHR ''9'') (tl rest) else []);
                z = (if isfrac then drop (Suc (length ds)) rest else rest)
            in (case (if isfrac then frac_ms ds else Some 0, zone_ms z) of
                  (Some ms, Some off) \<Rightarrow>
                    Some (((days_from_civil y mo d * 24 + h) * 60 + mi) * 60000 + se * 1000 + ms - off)
                | _ \<Rightarrow> None)
          else None
      | _ \<Rightarrow> None)"

lemma date_parse_epoch: "date_parse ''1970-01-01T00:00:00Z'' = Some 0"
  by code_simp

section \<open>Objects used as dictionaries\<close>

text \<open>
  A \<open>Record<string, T | undefined>\<close> is an association list in insertion order. A key that was set to
  \<open>undefined\<close> keeps its place with the value \<open>None\<close>, as in JavaScript; reading it gives \<open>None\<close>, as
  reading a missing key does.
\<close>

type_synonym ('k, 'v) jsrec = "('k \<times> 'v option) list"

definition rget :: "('k, 'v) jsrec \<Rightarrow> 'k \<Rightarrow> 'v option" where
  "rget r k = (case map_of r k of Some ov \<Rightarrow> ov | None \<Rightarrow> None)"

definition rput :: "'k \<Rightarrow> 'v \<Rightarrow> ('k, 'v) jsrec \<Rightarrow> ('k, 'v) jsrec" where
  "rput k v r = AList.update k (Some v) r"

definition rclear :: "'k \<Rightarrow> ('k, 'v) jsrec \<Rightarrow> ('k, 'v) jsrec" where
  \<comment> \<open>\<open>{ ...r, [k]: undefined }\<close>\<close>
  "rclear k r = AList.update k None r"

definition rset :: "'k \<Rightarrow> 'v option \<Rightarrow> ('k, 'v) jsrec \<Rightarrow> ('k, 'v) jsrec" where
  "rset k ov r = AList.update k ov r"

fun rentries :: "('k, 'v) jsrec \<Rightarrow> ('k \<times> 'v) list" where
  "rentries [] = []"
| "rentries ((k, None) # r) = rentries r"
| "rentries ((k, Some v) # r) = (k, v) # rentries r"

definition rvals :: "('k, 'v) jsrec \<Rightarrow> 'v list" where
  "rvals r = map snd (rentries r)"

definition rmap :: "('k \<Rightarrow> 'v \<Rightarrow> 'v) \<Rightarrow> ('k, 'v) jsrec \<Rightarrow> ('k, 'v) jsrec" where
  "rmap f r = map (\<lambda>(k, ov). (k, map_option (f k) ov)) r"

definition rwf :: "('k, 'v) jsrec \<Rightarrow> bool" where
  "rwf r \<longleftrightarrow> distinct (map fst r)"

lemma rget_Nil [simp, jsrec]: "rget [] k = None"
  by (simp add: rget_def)

lemma rget_rput [simp, jsrec]: "rget (rput k v r) k' = (if k = k' then Some v else rget r k')"
  by (simp add: rget_def rput_def update_conv')

lemma rget_rclear [simp, jsrec]: "rget (rclear k r) k' = (if k = k' then None else rget r k')"
  by (simp add: rget_def rclear_def update_conv')

lemma rget_rset [simp, jsrec]: "rget (rset k ov r) k' = (if k = k' then ov else rget r k')"
  by (simp add: rget_def rset_def update_conv')

lemma rget_rmap [simp, jsrec]: "rget (rmap f r) k = map_option (f k) (rget r k)"
  by (induction r) (auto simp: rget_def rmap_def)

lemma rwf_Nil [simp]: "rwf []"
  by (simp add: rwf_def)

lemma rwf_rput [simp]: "rwf r \<Longrightarrow> rwf (rput k v r)"
  by (simp add: rwf_def rput_def distinct_update)

lemma rwf_rclear [simp]: "rwf r \<Longrightarrow> rwf (rclear k r)"
  by (simp add: rwf_def rclear_def distinct_update)

lemma rwf_rset [simp]: "rwf r \<Longrightarrow> rwf (rset k ov r)"
  by (simp add: rwf_def rset_def distinct_update)

lemma rwf_rmap [simp]: "rwf (rmap f r) = rwf r"
  by (simp add: rwf_def rmap_def case_prod_unfold comp_def)

lemma rentries_keys: "(k, v) \<in> set (rentries r) \<Longrightarrow> k \<in> fst ` set r"
  by (induction r rule: rentries.induct) auto

lemma rget_rentries: "rget r k = Some v \<Longrightarrow> (k, v) \<in> set (rentries r)"
  by (induction r rule: rentries.induct) (auto simp: rget_def split: if_splits)

lemma rentries_rget: "rwf r \<Longrightarrow> (k, v) \<in> set (rentries r) \<Longrightarrow> rget r k = Some v"
proof (induction r rule: rentries.induct)
  case (2 k' r)
  then show ?case
    by (auto simp: rget_def rwf_def dest: rentries_keys)
next
  case (3 k' v' r)
  then show ?case
    by (auto simp: rget_def rwf_def dest: rentries_keys)
qed auto

lemma rwf_rentries: "rwf r \<Longrightarrow> (k, v) \<in> set (rentries r) \<longleftrightarrow> rget r k = Some v"
  by (blast intro: rentries_rget rget_rentries)

section \<open>Arrays\<close>

definition at_first :: "'a list \<Rightarrow> 'a option" where
  \<comment> \<open>\<open>xs[0]\<close>\<close>
  "at_first xs = (case xs of [] \<Rightarrow> None | x # _ \<Rightarrow> Some x)"

definition at_last :: "'a list \<Rightarrow> 'a option" where
  \<comment> \<open>\<open>xs.at(-1)\<close>\<close>
  "at_last xs = (if xs = [] then None else Some (last xs))"

fun find_index :: "('a \<Rightarrow> bool) \<Rightarrow> 'a list \<Rightarrow> nat option" where
  "find_index P [] = None"
| "find_index P (x # xs) = (if P x then Some 0 else map_option Suc (find_index P xs))"

definition some_in :: "('a \<Rightarrow> bool) \<Rightarrow> 'a list \<Rightarrow> bool" where
  "some_in P xs = list_ex P xs"

lemma some_in_iff [simp]: "some_in P xs \<longleftrightarrow> (\<exists>x\<in>set xs. P x)"
  by (simp add: some_in_def list_ex_iff)

lemma find_index_Some:
  "find_index P xs = Some i \<Longrightarrow> i < length xs \<and> P (xs ! i) \<and> (\<forall>j<i. \<not> P (xs ! j))"
proof (induction xs arbitrary: i)
  case (Cons x xs)
  show ?case
  proof (cases "P x")
    case False
    with Cons.prems obtain j where j: "find_index P xs = Some j" "i = Suc j" by auto
    with Cons.IH[of j] False show ?thesis
      by (auto simp: nth_Cons split: nat.splits)
  qed (use Cons.prems in simp)
qed simp

lemma find_index_None: "find_index P xs = None \<longleftrightarrow> (\<forall>x\<in>set xs. \<not> P x)"
  by (induction xs) auto

lemma find_index_cong: "find_index P xs = Some i \<Longrightarrow> List.find P xs = Some (xs ! i)"
  by (induction xs arbitrary: i) (auto split: if_splits)

lemma find_Some_set: "List.find P xs = Some x \<Longrightarrow> x \<in> set xs \<and> P x"
  by (induction xs) (auto split: if_splits)

lemma find_None_iff: "List.find P xs = None \<longleftrightarrow> (\<forall>x\<in>set xs. \<not> P x)"
  by (induction xs) auto

lemma at_first_Some: "at_first xs = Some x \<Longrightarrow> x \<in> set xs \<and> x = hd xs \<and> xs \<noteq> []"
  by (auto simp: at_first_def split: list.splits)

lemma at_last_Some: "at_last xs = Some x \<Longrightarrow> x \<in> set xs \<and> x = last xs \<and> xs \<noteq> []"
  by (auto simp: at_last_def split: if_splits)

lemma at_first_None [simp]: "at_first xs = None \<longleftrightarrow> xs = []"
  by (auto simp: at_first_def split: list.splits)

lemma at_last_None [simp]: "at_last xs = None \<longleftrightarrow> xs = []"
  by (auto simp: at_last_def)

section \<open>Sorting with a comparator\<close>

text \<open>
  \<open>Array.prototype.sort\<close> is stable; for a consistent comparator its result is the one of insertion
  sort. The locale \<open>comparator\<close> is the contract a comparator has to keep on the elements it is used on.
\<close>

fun js_insert :: "('a \<Rightarrow> 'a \<Rightarrow> int) \<Rightarrow> 'a \<Rightarrow> 'a list \<Rightarrow> 'a list" where
  "js_insert cmp x [] = [x]"
| "js_insert cmp x (y # ys) = (if cmp x y \<le> 0 then x # y # ys else y # js_insert cmp x ys)"

definition js_sort :: "('a \<Rightarrow> 'a \<Rightarrow> int) \<Rightarrow> 'a list \<Rightarrow> 'a list" where
  "js_sort cmp xs = foldr (js_insert cmp) xs []"

lemma js_insert_key: "js_insert (\<lambda>a b. f a - f b) = insort_key f"
proof (intro ext)
  fix x xs
  show "js_insert (\<lambda>a b. f a - f b) x xs = insort_key f x xs"
    by (induction xs) auto
qed

lemma js_sort_key: "js_sort (\<lambda>a b. f a - f b) = sort_key f"
  by (auto simp: js_sort_def sort_key_def js_insert_key)

lemma mset_js_insert: "mset (js_insert cmp x xs) = add_mset x (mset xs)"
  by (induction xs) auto

lemma mset_js_sort [simp]: "mset (js_sort cmp xs) = mset xs"
  by (induction xs) (auto simp: js_sort_def mset_js_insert)

lemma set_js_insert [simp]: "set (js_insert cmp x xs) = insert x (set xs)"
  by (induction xs) auto

lemma set_js_sort [simp]: "set (js_sort cmp xs) = set xs"
  using mset_js_sort[of cmp xs] mset_eq_setD by blast

lemma distinct_map_js_sort [simp]: "distinct (map f (js_sort cmp xs)) = distinct (map f xs)"
  by (metis mset_js_sort mset_map mset_eq_imp_distinct_iff)

locale comparator =
  fixes cmp :: "'a \<Rightarrow> 'a \<Rightarrow> int"
    and ok :: "'a \<Rightarrow> bool"
  assumes flip: "ok a \<Longrightarrow> ok b \<Longrightarrow> cmp b a = - cmp a b"
    and trans: "ok a \<Longrightarrow> ok b \<Longrightarrow> ok c \<Longrightarrow> cmp a b \<le> 0 \<Longrightarrow> cmp b c \<le> 0 \<Longrightarrow> cmp a c \<le> 0"
begin

lemma insert_sorted:
  assumes "sorted_wrt (\<lambda>a b. cmp a b \<le> 0) xs" "\<forall>y\<in>set xs. ok y" "ok x"
  shows "sorted_wrt (\<lambda>a b. cmp a b \<le> 0) (js_insert cmp x xs)"
  using assms
proof (induction xs)
  case (Cons y ys)
  then show ?case using flip[of x y] trans[of x y] by auto
qed simp

lemma sort_sorted:
  assumes "\<forall>y\<in>set xs. ok y"
  shows "sorted_wrt (\<lambda>a b. cmp a b \<le> 0) (js_sort cmp xs)"
  using assms
proof (induction xs)
  case (Cons x xs)
  have "js_sort cmp (x # xs) = js_insert cmp x (js_sort cmp xs)"
    by (simp add: js_sort_def)
  with Cons show ?case by (simp add: insert_sorted)
qed (simp add: js_sort_def)

lemma insert_before_sorted:
  \<comment> \<open>Inserting at the first position whose element comes after \<open>x\<close> keeps the order.\<close>
  assumes "sorted_wrt (\<lambda>a b. cmp a b \<le> 0) xs" "\<forall>y\<in>set xs. ok y" "ok x"
  shows "sorted_wrt (\<lambda>a b. cmp a b \<le> 0)
    (takeWhile (\<lambda>y. \<not> cmp x y < 0) xs @ x # dropWhile (\<lambda>y. \<not> cmp x y < 0) xs)"
  using assms
proof (induction xs)
  case (Cons y ys)
  have yx: "\<not> cmp x y < 0 \<Longrightarrow> cmp y x \<le> 0"
    using Cons.prems flip[of x y] by simp
  have ys: "cmp x y \<le> 0 \<Longrightarrow> z \<in> set ys \<Longrightarrow> cmp x z \<le> 0" for z
    using Cons.prems trans[of x y z] by auto
  show ?case
    using Cons yx ys by (auto dest!: set_takeWhileD set_dropWhileD)
qed simp

end

lemma js_sort_id:
  "sorted_wrt (\<lambda>a b. cmp a b \<le> 0) xs \<Longrightarrow> js_sort cmp xs = xs"
proof (induction xs)
  case (Cons x xs)
  then have "js_sort cmp (x # xs) = js_insert cmp x xs"
    by (simp add: js_sort_def)
  with Cons.prems show ?case by (cases xs) auto
qed (simp add: js_sort_def)

lemma find_index_split:
  \<comment> \<open>Cutting a list at \<open>findIndex\<close>, as \<open>slice(0, i)\<close> and \<open>slice(i)\<close> do.\<close>
  "find_index P xs = Some i \<Longrightarrow>
     take i xs = takeWhile (\<lambda>x. \<not> P x) xs \<and> drop i xs = dropWhile (\<lambda>x. \<not> P x) xs"
  by (induction xs arbitrary: i) (auto split: if_splits)

lemma find_index_none_split:
  "find_index P xs = None \<Longrightarrow> takeWhile (\<lambda>x. \<not> P x) xs = xs \<and> dropWhile (\<lambda>x. \<not> P x) xs = []"
  by (simp add: find_index_None)

interpretation by_number: comparator "\<lambda>a b. f a - f b" "\<lambda>_. True"
  for f :: "'a \<Rightarrow> int"
  by unfold_locales auto

interpretation by_locale: comparator "localeCompare" "\<lambda>_. True"
  by unfold_locales (auto simp: localeCompare_le intro: localeCompare_flip)

end
