(* ===== verification/Wire.thy ===== *)
theory Wire
  imports Prelude
begin

text \<open>
  The values the API exchanges with the client (\<open>web/lib/api/types.gen.ts\<close>): the string unions as
  datatypes, the interfaces as records. A field that may be \<open>null\<close> or absent is an \<open>option\<close>; where the
  code tells \<open>undefined\<close> from a value (\<open>me\<close>, \<open>saved\<close>, \<open>member_count\<close>), \<open>None\<close> is \<open>undefined\<close>.
\<close>

datatype role = Owner | Admin | Member
datatype invite_policy = AdminsOnly | AllMembers
datatype room_kind = Public | Private | Dm
datatype invite_status = InvActive | InvExhausted | InvExpired | InvRevoked
datatype removal_reason = LeftSelf | RemovedByOther
datatype message_kind = UserMessage | SystemMessage
datatype mention_kind = MentionUser | MentionChannel | MentionHere
datatype presence = PrActive | PrIdle | PrOffline
datatype system_event_type = RoomCreated | MemberJoined | MemberLeft | MemberRemoved | RoomRenamed
  | MessagePinned | RoomArchived | RoomUnarchived | HuddleEvent
datatype huddle_left_reason = HlLeft | HlMoved | HlRemoved | HlExpired
datatype saved_state = SavInProgress | SavArchived | SavCompleted | SavRemoved
datatype item_status = ItemOk | ItemUnavailable
datatype notify_level = NlAll | NlMentions | NlNone
datatype activity_filter = AfAll | AfDm | AfMention | AfThread | AfReaction
datatype activity_item_type = AitMessage | AitReaction
datatype activity_reason = ArDm | ArMention | ArThread | ArChannel | ArReaction
datatype ack_error = AckInvalidMessage | AckNotFound | AckNotSubscribed | AckForbidden
  | AckTooManySubscriptions | AckInternal

text \<open>\<open>reasons.sort()\<close> orders the reasons by their names on the wire.\<close>

fun reason_name :: "activity_reason \<Rightarrow> string" where
  "reason_name ArDm = ''dm''"
| "reason_name ArMention = ''mention''"
| "reason_name ArThread = ''thread''"
| "reason_name ArChannel = ''channel''"
| "reason_name ArReaction = ''reaction''"

lemma reason_name_inj: "reason_name a = reason_name b \<longleftrightarrow> a = b"
  by (cases a; cases b) auto

instantiation activity_reason :: linorder
begin

definition less_eq_activity_reason :: "activity_reason \<Rightarrow> activity_reason \<Rightarrow> bool" where
  "less_eq_activity_reason a b \<longleftrightarrow> reason_name a \<le> reason_name b"

definition less_activity_reason :: "activity_reason \<Rightarrow> activity_reason \<Rightarrow> bool" where
  "less_activity_reason a b \<longleftrightarrow> reason_name a < reason_name b"

instance
  by standard (auto simp: less_eq_activity_reason_def less_activity_reason_def
    simp flip: reason_name_inj)

end

record user_profile =
  u_id :: ident
  u_handle :: string
  u_display_name :: string

record user_status =
  us_emoji :: string
  us_text :: string
  us_expires_at :: "iso option"

record workspace =
  w_id :: ident
  w_slug :: string
  w_name :: string
  w_invite_policy :: invite_policy
  w_my_role :: role
  w_member_count :: "int option"
  w_created_at :: iso
  w_updated_at :: iso

record member =
  mb_user :: user_profile
  mb_role :: role
  mb_joined_at :: iso
  mb_presence :: presence
  mb_away :: bool
  mb_status :: "user_status option"
  mb_in_huddle :: bool

record room_notifications =
  rn_level :: "notify_level option"
  rn_muted :: bool
  rn_muted_until :: "iso option"

record invite =
  iv_id :: ident
  iv_workspace_id :: ident
  iv_created_by :: user_profile
  iv_max_uses :: "int option"
  iv_use_count :: int
  iv_expires_at :: iso
  iv_revoked_at :: "iso option"
  iv_created_at :: iso
  iv_status :: invite_status
  iv_code :: "string option"

record dm_peer =
  dp_id :: ident
  dp_handle :: string
  dp_display_name :: string
  dp_presence :: presence

record system_event =
  se_type :: system_event_type
  se_old_name :: "string option"
  se_new_name :: "string option"
  se_message_id :: "ident option"
  se_huddle_id :: "ident option"

record last_message =
  lm_id :: ident
  lm_sender :: user_profile
  lm_kind :: message_kind
  lm_system :: "system_event option"
  lm_body :: string
  lm_created_at :: iso
  lm_deleted :: bool

record huddle_participant =
  hp_user_id :: ident
  hp_muted :: bool
  hp_camera :: bool
  hp_screen :: bool

record room_huddle =
  h_id :: ident
  h_room_id :: ident
  h_message_id :: ident
  h_started_at :: iso
  h_version :: int
  h_participants :: "huddle_participant list"
  h_joining_soon :: "ident list"

record room =
  r_id :: ident
  r_workspace_id :: ident
  r_kind :: room_kind
  r_name :: "string option"
  r_is_default :: bool
  r_is_member :: bool
  r_member_count :: "int option"
  r_dm_peer :: "dm_peer option"
  r_last_message_seq :: int
  r_last_message_at :: "iso option"
  r_last_read_seq :: "int option"
  r_last_user_seq :: int
  r_last_read_user_seq :: "int option"
  r_unread_count :: int
  r_mention_count :: int
  r_last_message :: "last_message option"
  r_notifications :: "room_notifications option"
  r_archived_at :: "iso option"
  r_huddle :: "room_huddle option"
  r_created_at :: iso

record message_huddle =
  mh_id :: ident
  mh_started_at :: iso
  mh_ended_at :: "iso option"
  mh_participant_ids :: "ident list"

record thread_summary =
  ts_reply_count :: int
  ts_last_thread_seq :: int
  ts_last_reply_at :: iso

record mention =
  mn_kind :: mention_kind
  mn_user :: "user_profile option"

record message_reaction =
  re_emoji :: string
  re_count :: int
  re_me :: "bool option"
  re_users :: "ident list"

record message_pin =
  pn_by :: user_profile
  pn_at :: iso

record message_attachment =
  at_id :: ident
  at_file_name :: string
  at_content_type :: string
  at_size_bytes :: int
  at_width :: "int option"
  at_height :: "int option"

record link_preview =
  lp_id :: ident
  lp_url :: string
  lp_site_name :: string
  lp_title :: string
  lp_description :: string
  lp_image :: "(int \<times> int) option"
  lp_has_icon :: bool

record message =
  m_id :: ident
  m_room_id :: ident
  m_seq :: int
  m_change_seq :: int
  m_user_seq :: int
  m_sender :: user_profile
  m_client_msg_id :: ident
  m_kind :: message_kind
  m_system :: "system_event option"
  m_huddle :: "message_huddle option"
  m_body :: string
  m_thread_root_id :: "ident option"
  m_thread_seq :: "int option"
  m_also_in_channel :: bool
  m_thread :: "thread_summary option"
  m_attachments :: "message_attachment list"
  m_mentions :: "mention list"
  m_reactions :: "message_reaction list"
  m_link_previews :: "link_preview list"
  m_pinned :: "message_pin option"
  m_saved :: "bool option"
  m_created_at :: iso
  m_edited_at :: "iso option"
  m_deleted_at :: "iso option"

record linked_room =
  lr_id :: ident
  lr_kind :: room_kind
  lr_name :: string
  lr_dm_peer :: "user_profile option"

record message_around =
  ma_seq :: int
  ma_thread_root_id :: "ident option"

record message_list =
  ml_messages :: "message list"
  ml_has_more :: bool
  ml_has_more_after :: bool
  ml_around :: "message_around option"
  ml_last_change_seq :: int

record read_state =
  rs_last_read_seq :: int
  rs_last_read_user_seq :: int
  rs_unread_count :: int
  rs_mention_count :: int

record saved_item =
  sv_id :: ident
  sv_workspace_id :: ident
  sv_message_id :: ident
  sv_room_id :: ident
  sv_state :: saved_state
  sv_change_seq :: int
  sv_saved_at :: iso
  sv_status :: item_status
  sv_room :: "linked_room option"
  sv_message :: "message option"

record saved_list =
  sl_items :: "saved_item list"
  sl_in_progress_count :: int
  sl_last_change_seq :: int
  sl_has_more :: bool

record activity_item =
  ac_id :: string
  ac_type :: activity_item_type
  ac_reasons :: "activity_reason list"
  ac_unread :: bool
  ac_occurred_at :: iso
  ac_room :: linked_room
  ac_message :: message
  ac_reaction :: "(string \<times> user_profile) option"

record activity_page =
  ap_items :: "activity_item list"
  ap_next_cursor :: "string option"

record thread_message_list =
  tm_root :: message
  tm_messages :: "message list"
  tm_has_more :: bool
  tm_has_more_after :: bool
  tm_around :: "message_around option"
  tm_last_change_seq :: int
  tm_last_read_thread_seq :: "int option"
  tm_notify_replies :: "bool option"

record thread_read_state =
  tr_following :: bool
  tr_last_read_thread_seq :: int
  tr_unread_count :: int

record thread_room =
  tr_room_id :: ident
  tr_room_kind :: room_kind
  tr_room_name :: "string option"
  tr_dm_peer :: "user_profile option"

record followed_thread =
  ft_room :: thread_room
  ft_root :: last_message
  ft_root_seq :: int
  ft_reply_count :: int
  ft_last_reply_at :: iso
  ft_last_thread_seq :: int
  ft_last_read_thread_seq :: int
  ft_unread_count :: int
  ft_notify_replies :: bool
  ft_mention_count :: int

text \<open>The events of the WebSocket (\<open>ServerEvent\<close>); \<open>type\<close> is the constructor.\<close>

datatype server_event =
    EvMessageCreated message
  | EvMessageUpdated message
  | EvMessageDeleted message
  | EvMemberJoined (ev_workspace: ident) (ev_room: ident) (ev_user: user_profile)
  | EvMemberLeft (ev_workspace: ident) (ev_room: ident) (ev_user_id: ident)
  | EvRoomUpdated (ev_workspace: ident) (ev_room: ident) string bool "iso option"
  | EvRoomMemberRemoved (ev_workspace: ident) (ev_room: ident) removal_reason
  | EvRoomRead (ev_workspace: ident) (ev_room: ident) read_state
  | EvWorkspaceUpdated (ev_workspace: ident) string invite_policy
  | EvWorkspaceMemberRemoved (ev_workspace: ident) (ev_user_id: ident) removal_reason
  | EvWorkspaceRoleChanged (ev_workspace: ident) (ev_user_id: ident) role
  | EvPresenceChanged (ev_user_id: ident) presence
  | EvMemberStatusChanged (ev_workspace: ident) (ev_user_id: ident) bool "user_status option"
  | EvMemberHuddleChanged (ev_workspace: ident) (ev_user_id: ident) bool
  | EvTypingStarted (ev_workspace: ident) (ev_room: ident) "ident option" (ev_user: user_profile)
  | EvThreadRead (ev_workspace: ident) (ev_room: ident) ident int
  | EvThreadFollowed (ev_workspace: ident) (ev_room: ident) ident int
  | EvSavedUpdated saved_item
  | EvNotificationsUpdated (ev_workspace: ident) notify_level
  | EvRoomNotificationsUpdated (ev_workspace: ident) (ev_room: ident) room_notifications
  | EvThreadNotificationsUpdated (ev_workspace: ident) (ev_room: ident) ident bool
  | EvActivityReactionAdded (ev_workspace: ident) activity_item
  | EvActivityReactionRemoved (ev_workspace: ident) string
  | EvRoomDeleted (ev_workspace: ident) (ev_room: ident)
  | EvHuddleUpdated (ev_room: ident) "room_huddle option"
  | EvHuddleRinging (ev_room: ident) ident ident
  | EvHuddleLeft (ev_room: ident) ident ident huddle_left_reason

text \<open>
  How a request of the API can fail: an \<open>ApiError\<close> with its HTTP status, or anything else (the network).
\<close>

datatype api_error = ApiError int | NetworkError

end
