(* ===== verification/Samples.thy ===== *)
theory Samples
  imports Wire
begin

text \<open>
  Small concrete values of the records of \<open>Wire\<close>: the inputs at which the properties that have
  hypotheses are evaluated.
\<close>

definition sample_user :: "ident \<Rightarrow> user_profile" where
  "sample_user i = \<lparr>u_id = i, u_handle = i, u_display_name = i\<rparr>"

definition sample_message :: "ident \<Rightarrow> int \<Rightarrow> int \<Rightarrow> message" where
  \<comment> \<open>A message of the channel, by id, place and change number, from user b.\<close>
  "sample_message i seq change = \<lparr>m_id = i, m_room_id = ''r'', m_seq = seq, m_change_seq = change, m_user_seq = seq,
     m_sender = sample_user ''b'', m_client_msg_id = i, m_kind = UserMessage, m_system = None, m_huddle = None,
     m_body = i, m_thread_root_id = None, m_thread_seq = None, m_also_in_channel = False, m_thread = None,
     m_attachments = [], m_mentions = [], m_reactions = [], m_link_previews = [], m_pinned = None, m_saved = None,
     m_created_at = ''2026-01-01T00:00:00Z'', m_edited_at = None, m_deleted_at = None\<rparr>"

definition sample_reply :: "ident \<Rightarrow> ident \<Rightarrow> int \<Rightarrow> int \<Rightarrow> message" where
  "sample_reply root i seq n = (sample_message i seq seq)\<lparr>m_thread_root_id := Some root, m_thread_seq := Some n\<rparr>"

definition sample_room :: "ident \<Rightarrow> room" where
  \<comment> \<open>A room of workspace w in which three messages were posted and one was read.\<close>
  "sample_room i = \<lparr>r_id = i, r_workspace_id = ''w'', r_kind = Public, r_name = Some i, r_is_default = False,
     r_is_member = True, r_member_count = None, r_dm_peer = None, r_last_message_seq = 3,
     r_last_message_at = Some ''2026-01-01T00:00:00Z'', r_last_read_seq = Some 1, r_last_user_seq = 3,
     r_last_read_user_seq = Some 1, r_unread_count = 2, r_mention_count = 0, r_last_message = None,
     r_notifications = None, r_archived_at = None, r_huddle = None, r_created_at = ''2026-01-01T00:00:00Z''\<rparr>"

definition sample_page :: "message list \<Rightarrow> bool \<Rightarrow> int \<Rightarrow> message_list" where
  "sample_page ms older n = \<lparr>ml_messages = ms, ml_has_more = older, ml_has_more_after = False, ml_around = None,
     ml_last_change_seq = n\<rparr>"

definition sample_thread :: "ident \<Rightarrow> int \<Rightarrow> int \<Rightarrow> followed_thread" where
  \<comment> \<open>A followed thread by root, number of replies and number of replies read.\<close>
  "sample_thread root n k = \<lparr>ft_room = \<lparr>tr_room_id = ''r'', tr_room_kind = Public, tr_room_name = Some ''r'', tr_dm_peer = None\<rparr>,
     ft_root = \<lparr>lm_id = root, lm_sender = sample_user ''b'', lm_kind = UserMessage, lm_system = None, lm_body = root,
       lm_created_at = ''2026-01-01T00:00:00Z'', lm_deleted = False\<rparr>,
     ft_root_seq = 1, ft_reply_count = n, ft_last_reply_at = ''2026-01-01T00:00:00Z'', ft_last_thread_seq = n,
     ft_last_read_thread_seq = k, ft_unread_count = max 0 (n - k), ft_notify_replies = True, ft_mention_count = 0\<rparr>"

definition sample_item :: "ident \<Rightarrow> iso \<Rightarrow> activity_item" where
  "sample_item i at' = \<lparr>ac_id = i, ac_type = AitMessage, ac_reasons = [ArMention], ac_unread = True, ac_occurred_at = at',
     ac_room = \<lparr>lr_id = ''r'', lr_kind = Public, lr_name = ''r'', lr_dm_peer = None\<rparr>,
     ac_message = sample_message i 1 1, ac_reaction = None\<rparr>"

definition sample_saved :: "ident \<Rightarrow> ident \<Rightarrow> saved_state \<Rightarrow> int \<Rightarrow> saved_item" where
  "sample_saved i m st n = \<lparr>sv_id = i, sv_workspace_id = ''w'', sv_message_id = m, sv_room_id = ''r'', sv_state = st,
     sv_change_seq = n, sv_saved_at = ''2026-01-01T00:00:00Z'', sv_status = ItemOk, sv_room = None, sv_message = None\<rparr>"

lemmas samples = sample_user_def sample_message_def sample_reply_def sample_room_def sample_page_def
  sample_thread_def sample_item_def sample_saved_def

lemma sample_message_keys [simp]:
  "m_id (sample_message i s c) = i" "m_seq (sample_message i s c) = s" "m_change_seq (sample_message i s c) = c"
  "m_thread_root_id (sample_message i s c) = None" "m_reactions (sample_message i s c) = []"
  "m_saved (sample_message i s c) = None" "m_room_id (sample_message i s c) = ''r''"
  by (simp_all add: sample_message_def)

lemma sample_times: "date_parse ''2026-01-01T00:00:00Z'' = Some 1767225600000"
  "date_parse ''2026-01-02T00:00:00Z'' = Some 1767312000000"
  by code_simp+

end
