(* ===== verification/Reactions.thy ===== *)
theory Reactions
  imports Samples
begin

text \<open>
  Emoji reactions (\<open>web/lib/chat/rules/reactions.ts\<close>): the optimistic toggle and the rule that keeps the
  viewer's own mark when a broadcast without marks arrives.
\<close>

definition MAX_REACTION_USERS :: nat where
  "MAX_REACTION_USERS = 8"

definition toggleReaction ::
  "message_reaction list \<Rightarrow> string \<Rightarrow> ident \<Rightarrow> bool \<Rightarrow> message_reaction list" where
  "toggleReaction reactions emoji userId add =
     (let current = List.find (\<lambda>r. re_emoji r = emoji) reactions;
          mine = (case Option.bind current re_me of None \<Rightarrow> False | Some b \<Rightarrow> b)
      in if mine = add then reactions
         else if add then
           (case current of
              None \<Rightarrow> reactions @ [\<lparr>re_emoji = emoji, re_count = 1, re_me = Some True, re_users = [userId]\<rparr>]
            | Some _ \<Rightarrow>
                map (\<lambda>r. if re_emoji r = emoji
                  then r\<lparr>re_count := re_count r + 1, re_me := Some True,
                         re_users := (if length (re_users r) < MAX_REACTION_USERS
                                      then re_users r @ [userId] else re_users r)\<rparr>
                  else r) reactions)
         else
           (case current of
              None \<Rightarrow> reactions
            | Some c \<Rightarrow>
                if re_count c \<le> 1 then filter (\<lambda>r. re_emoji r \<noteq> emoji) reactions
                else map (\<lambda>r. if re_emoji r = emoji
                  then r\<lparr>re_count := re_count r - 1, re_me := Some False,
                         re_users := filter (\<lambda>u. u \<noteq> userId) (re_users r)\<rparr>
                  else r) reactions))"

definition keepMyReactions ::
  "message_reaction list \<Rightarrow> message_reaction list \<Rightarrow> message_reaction list" where
  "keepMyReactions previous incoming =
     (if list_all (\<lambda>r. re_me r \<noteq> None) incoming then incoming
      else map (\<lambda>r. if re_me r = None
        then r\<lparr>re_me := Some (case Option.bind (List.find (\<lambda>p. re_emoji p = re_emoji r) previous) re_me of
                                None \<Rightarrow> False | Some b \<Rightarrow> b)\<rparr>
        else r) incoming)"

text \<open>
  \<open>wf_reactions\<close> is what the server sends to the viewer \<open>u\<close>: one entry per emoji, a count that covers the
  listed users and the viewer, at most eight names, and the viewer listed only under a mark.
\<close>

definition wf_reaction :: "ident \<Rightarrow> message_reaction \<Rightarrow> bool" where
  "wf_reaction u r \<longleftrightarrow> 1 \<le> re_count r \<and> int (length (re_users r)) \<le> re_count r
     \<and> length (re_users r) \<le> MAX_REACTION_USERS
     \<and> (re_me r = Some True \<longrightarrow> u \<notin> set (re_users r) \<longrightarrow> int (length (re_users r)) < re_count r)
     \<and> (re_me r \<noteq> Some True \<longrightarrow> u \<notin> set (re_users r))"

definition wf_reactions :: "ident \<Rightarrow> message_reaction list \<Rightarrow> bool" where
  "wf_reactions u rs \<longleftrightarrow> distinct (map re_emoji rs) \<and> list_all (wf_reaction u) rs"

definition marked :: "message_reaction list \<Rightarrow> string \<Rightarrow> bool" where
  \<comment> \<open>Whether the viewer's own mark is on an emoji.\<close>
  "marked rs e \<longleftrightarrow> Option.bind (List.find (\<lambda>r. re_emoji r = e) rs) re_me = Some True"

definition add_mine :: "ident \<Rightarrow> message_reaction \<Rightarrow> message_reaction" where
  "add_mine u r = r\<lparr>re_count := re_count r + 1, re_me := Some True,
     re_users := (if length (re_users r) < MAX_REACTION_USERS then re_users r @ [u] else re_users r)\<rparr>"

definition drop_mine :: "ident \<Rightarrow> message_reaction \<Rightarrow> message_reaction" where
  "drop_mine u r = r\<lparr>re_count := re_count r - 1, re_me := Some False,
     re_users := filter (\<lambda>x. x \<noteq> u) (re_users r)\<rparr>"

definition on_emoji :: "string \<Rightarrow> (message_reaction \<Rightarrow> message_reaction) \<Rightarrow> message_reaction list \<Rightarrow> message_reaction list" where
  "on_emoji e f rs = map (\<lambda>r. if re_emoji r = e then f r else r) rs"

lemma toggle_add_new:
  "List.find (\<lambda>r. re_emoji r = e) rs = None \<Longrightarrow>
   toggleReaction rs e u True = rs @ [\<lparr>re_emoji = e, re_count = 1, re_me = Some True, re_users = [u]\<rparr>]"
  by (simp add: toggleReaction_def)

lemma toggle_add_old:
  "List.find (\<lambda>r. re_emoji r = e) rs = Some c \<Longrightarrow> re_me c \<noteq> Some True \<Longrightarrow>
   toggleReaction rs e u True = on_emoji e (add_mine u) rs"
  by (auto simp: toggleReaction_def on_emoji_def add_mine_def split: option.splits)

lemma toggle_remove_last:
  "List.find (\<lambda>r. re_emoji r = e) rs = Some c \<Longrightarrow> re_me c = Some True \<Longrightarrow> re_count c \<le> 1 \<Longrightarrow>
   toggleReaction rs e u False = filter (\<lambda>r. re_emoji r \<noteq> e) rs"
  by (simp add: toggleReaction_def)

lemma toggle_remove_old:
  "List.find (\<lambda>r. re_emoji r = e) rs = Some c \<Longrightarrow> re_me c = Some True \<Longrightarrow> 1 < re_count c \<Longrightarrow>
   toggleReaction rs e u False = on_emoji e (drop_mine u) rs"
  by (simp add: toggleReaction_def on_emoji_def drop_mine_def)

lemma toggle_same:
  assumes "marked rs e = add"
  shows "toggleReaction rs e u add = rs"
proof -
  have "(case Option.bind (List.find (\<lambda>r. re_emoji r = e) rs) re_me of None \<Rightarrow> False | Some b \<Rightarrow> b) = add"
    using assms by (auto simp: marked_def split: option.splits)
  then show ?thesis by (simp add: toggleReaction_def Let_def)
qed

lemma filter_neq_id: "u \<notin> set xs \<Longrightarrow> filter (\<lambda>x. x \<noteq> u) xs = xs"
  by (induction xs) auto

lemma on_emoji_emojis [simp]:
  "(\<And>r. re_emoji (f r) = re_emoji r) \<Longrightarrow> map re_emoji (on_emoji e f rs) = map re_emoji rs"
  by (induction rs) (auto simp: on_emoji_def)

lemma emoji_mine [simp]:
  "re_emoji (add_mine u r) = re_emoji r" "re_emoji (drop_mine u r) = re_emoji r"
  by (simp_all add: add_mine_def drop_mine_def)

lemma find_on_emoji:
  "(\<And>r. re_emoji (f r) = re_emoji r) \<Longrightarrow>
   List.find (\<lambda>r. re_emoji r = e') (on_emoji e f rs)
     = map_option (\<lambda>r. if e' = e then f r else r) (List.find (\<lambda>r. re_emoji r = e') rs)"
  by (induction rs) (auto simp: on_emoji_def)

lemma find_emoji_append:
  "List.find P (xs @ ys) = (case List.find P xs of None \<Rightarrow> List.find P ys | Some x \<Rightarrow> Some x)"
  by (induction xs) auto

lemma find_emoji_filter:
  "List.find (\<lambda>r. re_emoji r = e') (filter (\<lambda>r. re_emoji r \<noteq> e) rs)
     = (if e' = e then None else List.find (\<lambda>r. re_emoji r = e') rs)"
  by (induction rs) auto

lemmas toggle_simps = toggle_add_new toggle_add_old toggle_remove_last toggle_remove_old

text \<open>The four ways a toggle that changes something can go, as a case rule.\<close>

lemma toggle_cases:
  assumes "marked rs e \<noteq> add"
  obtains (new) "add" "List.find (\<lambda>r. re_emoji r = e) rs = None"
    | (old) c where "add" "List.find (\<lambda>r. re_emoji r = e) rs = Some c" "re_me c \<noteq> Some True"
    | (last) c where "\<not> add" "List.find (\<lambda>r. re_emoji r = e) rs = Some c" "re_me c = Some True" "re_count c \<le> 1"
    | (dec) c where "\<not> add" "List.find (\<lambda>r. re_emoji r = e) rs = Some c" "re_me c = Some True" "1 < re_count c"
  using assms by (cases add; cases "List.find (\<lambda>r. re_emoji r = e) rs") (force simp: marked_def)+

lemma on_emoji_comp:
  "(\<And>r. re_emoji (g r) = re_emoji r) \<Longrightarrow> on_emoji e f (on_emoji e g rs) = on_emoji e (\<lambda>r. f (g r)) rs"
  by (simp add: on_emoji_def)

lemma on_emoji_id: "(\<And>r. r \<in> set rs \<Longrightarrow> re_emoji r = e \<Longrightarrow> f r = r) \<Longrightarrow> on_emoji e f rs = rs"
  by (simp add: on_emoji_def map_idI)

lemma wf_add_mine: "wf_reaction u r \<Longrightarrow> re_me r \<noteq> Some True \<Longrightarrow> wf_reaction u (add_mine u r)"
  by (auto simp: wf_reaction_def add_mine_def MAX_REACTION_USERS_def)

lemma wf_drop_mine:
  assumes "wf_reaction u r" "re_me r = Some True" "1 < re_count r"
  shows "wf_reaction u (drop_mine u r)"
proof -
  have "int (length (filter (\<lambda>x. x \<noteq> u) (re_users r))) \<le> re_count r - 1"
  proof (cases "u \<in> set (re_users r)")
    case True
    then have "length (filter (\<lambda>x. x \<noteq> u) (re_users r)) < length (re_users r)"
      by (metis (mono_tags, lifting) length_filter_less)
    with assms show ?thesis by (simp add: wf_reaction_def)
  next
    case False
    with assms show ?thesis by (simp add: wf_reaction_def filter_neq_id)
  qed
  moreover have "length (filter (\<lambda>x. x \<noteq> u) (re_users r)) \<le> MAX_REACTION_USERS"
    using assms by (auto simp: wf_reaction_def intro: order_trans[OF length_filter_le])
  ultimately show ?thesis
    using assms by (simp add: wf_reaction_def drop_mine_def)
qed

lemma wf_find: "wf_reactions u rs \<Longrightarrow> List.find P rs = Some c \<Longrightarrow> wf_reaction u c"
  by (auto simp: wf_reactions_def list_all_iff dest: find_Some_set)

lemma wf_emoji_unique:
  "distinct (map re_emoji rs) \<Longrightarrow> List.find (\<lambda>r. re_emoji r = e) rs = Some c \<Longrightarrow> r \<in> set rs \<Longrightarrow>
   re_emoji r = e \<Longrightarrow> r = c"
  by (induction rs) (auto split: if_splits)

lemma wf_on_emoji:
  assumes "wf_reactions u rs" "List.find (\<lambda>r. re_emoji r = e) rs = Some c" "wf_reaction u (f c)"
    "\<And>r. re_emoji (f r) = re_emoji r"
  shows "wf_reactions u (on_emoji e f rs)"
  using assms wf_emoji_unique[of rs e c]
  by (auto simp: wf_reactions_def list_all_iff on_emoji_def comp_def if_distrib cong: if_cong)

lemma toggle_wf:
  assumes "wf_reactions u rs"
  shows "wf_reactions u (toggleReaction rs e u add)"
proof (cases "marked rs e = add")
  case True
  with assms show ?thesis by (simp add: toggle_same)
next
  case False
  then show ?thesis
  proof (cases rule: toggle_cases)
    case new
    with assms show ?thesis
      by (auto simp: toggle_add_new wf_reactions_def wf_reaction_def MAX_REACTION_USERS_def find_None_iff)
  next
    case (old c)
    with assms show ?thesis
      by (simp add: toggle_add_old wf_on_emoji wf_add_mine wf_find)
  next
    case (last c)
    with assms show ?thesis
      by (auto simp: toggle_remove_last wf_reactions_def list_all_iff distinct_map_filter)
  next
    case (dec c)
    with assms show ?thesis
      by (simp add: toggle_remove_old wf_on_emoji wf_drop_mine wf_find)
  qed
qed

lemma toggle_marked:
  "marked (toggleReaction rs e u add) e' = (if e' = e then add else marked rs e')"
proof (cases "marked rs e = add")
  case True
  then show ?thesis by (auto simp: toggle_same)
next
  case False
  then show ?thesis
    by (cases rule: toggle_cases)
       (auto simp: toggle_simps marked_def find_on_emoji find_emoji_append find_emoji_filter
          option.map_ident add_mine_def drop_mine_def split: option.splits)
qed

lemma toggle_others:
  assumes "e' \<noteq> e"
  shows "List.find (\<lambda>r. re_emoji r = e') (toggleReaction rs e u add) = List.find (\<lambda>r. re_emoji r = e') rs"
proof (cases "marked rs e = add")
  case True
  then show ?thesis by (simp add: toggle_same)
next
  case False
  then show ?thesis using assms
    by (cases rule: toggle_cases)
       (auto simp: toggle_simps find_on_emoji find_emoji_append find_emoji_filter
          option.map_ident split: option.splits)
qed

lemma drop_add_mine:
  "u \<notin> set (re_users r) \<Longrightarrow> re_me r = Some False \<Longrightarrow> drop_mine u (add_mine u r) = r"
  by (cases r) (simp add: drop_mine_def add_mine_def filter_neq_id)

lemma toggle_undo:
  assumes "wf_reactions u rs" "\<not> marked rs e" "list_all (\<lambda>r. re_me r \<noteq> None) rs"
  shows "toggleReaction (toggleReaction rs e u True) e u False = rs"
proof (cases "List.find (\<lambda>r. re_emoji r = e) rs")
  case None
  let ?new = "\<lparr>re_emoji = e, re_count = 1, re_me = Some True, re_users = [u]\<rparr>"
  have "toggleReaction (rs @ [?new]) e u False = filter (\<lambda>r. re_emoji r \<noteq> e) (rs @ [?new])"
    using None by (intro toggle_remove_last[where c = ?new]) (simp_all add: find_emoji_append)
  then show ?thesis
    using None by (simp add: toggle_add_new find_None_iff filter_id_conv)
next
  case (Some c)
  have c: "wf_reaction u c" "c \<in> set rs" using assms Some by (auto simp: wf_find dest: find_Some_set)
  have me: "re_me c = Some False"
    using assms(2,3) Some c(2) by (cases "re_me c") (auto simp: marked_def list_all_iff)
  have one: "toggleReaction rs e u True = on_emoji e (add_mine u) rs"
    using Some me by (simp add: toggle_add_old)
  have "toggleReaction (on_emoji e (add_mine u) rs) e u False
      = on_emoji e (drop_mine u) (on_emoji e (add_mine u) rs)"
    using c Some by (intro toggle_remove_old[where c = "add_mine u c"])
      (auto simp: find_on_emoji add_mine_def wf_reaction_def)
  also have "\<dots> = rs"
  proof -
    have "r = c" if "r \<in> set rs" "re_emoji r = e" for r
      using wf_emoji_unique[OF _ Some that] assms(1) by (simp add: wf_reactions_def)
    moreover have "drop_mine u (add_mine u c) = c"
      using c(1) me by (simp add: wf_reaction_def drop_add_mine)
    ultimately have "\<And>r. r \<in> set rs \<Longrightarrow> re_emoji r = e \<Longrightarrow> drop_mine u (add_mine u r) = r" by metis
    then show ?thesis by (simp add: on_emoji_comp on_emoji_id)
  qed
  finally show ?thesis by (simp add: one)
qed

lemma keepMy_map:
  "keepMyReactions prev inc =
     map (\<lambda>r. if re_me r = None then r\<lparr>re_me := Some (marked prev (re_emoji r))\<rparr> else r) inc"
  by (auto simp: keepMyReactions_def marked_def list_all_iff split: option.splits intro!: map_idI[symmetric])

lemma keepMy_defined: "list_all (\<lambda>r. re_me r \<noteq> None) (keepMyReactions prev inc)"
  by (auto simp: keepMy_map list_all_iff)

lemma keepMy_find:
  "List.find (\<lambda>r. re_emoji r = e) (keepMyReactions prev inc) =
   map_option (\<lambda>r. if re_me r = None then r\<lparr>re_me := Some (marked prev e)\<rparr> else r)
     (List.find (\<lambda>r. re_emoji r = e) inc)"
  unfolding keepMy_map by (induction inc) auto

lemma keepMy_id: "list_all (\<lambda>r. re_me r \<noteq> None) inc \<Longrightarrow> keepMyReactions prev inc = inc"
  by (simp add: keepMyReactions_def)

lemma keepMy_broadcast:
  \<comment> \<open>A broadcast carries no marks: every mark of the viewer on an emoji that is still there survives.\<close>
  assumes "list_all (\<lambda>r. re_me r = None) inc"
  shows "marked (keepMyReactions prev inc) e \<longleftrightarrow> marked prev e \<and> (\<exists>r\<in>set inc. re_emoji r = e)"
proof (cases "List.find (\<lambda>r. re_emoji r = e) inc")
  case None
  then have "\<not> (\<exists>r\<in>set inc. re_emoji r = e)" by (auto simp: find_None_iff)
  moreover from None have "\<not> marked (keepMyReactions prev inc) e" by (simp add: marked_def keepMy_find)
  ultimately show ?thesis by blast
next
  case (Some r)
  then have "r \<in> set inc" "re_emoji r = e" by (auto dest: find_Some_set)
  with assms Some show ?thesis
    by (auto simp: marked_def[of "keepMyReactions prev inc"] keepMy_find list_all_iff)
qed

section \<open>Properties\<close>

text \<open>toggling a reaction keeps the shape the screen relies on: one entry per emoji, a positive count, at most
  eight names, and the viewer among the names only where their mark is set.\<close>

theorem toggle_keeps_reactions_wf:
  assumes "wf_reactions userId reactions"
  shows "wf_reactions userId (toggleReaction reactions emoji userId add)"
  using assms by (rule toggle_wf)

theorem toggle_keeps_reactions_wf_witness:
  "wf_reactions ''u'' (toggleReaction [\<lparr>re_emoji = ''ok'', re_count = 1, re_me = Some True, re_users = [''u'']\<rparr>] ''ok'' ''u'' False)"
  by (rule toggle_keeps_reactions_wf) (simp add: wf_reactions_def wf_reaction_def MAX_REACTION_USERS_def)

text \<open>afterwards the viewer's mark on that emoji is the one asked for and every other emoji is untouched, whatever
  it was before.\<close>

theorem toggle_sets_mark:
  "marked (toggleReaction reactions emoji userId add) e = (if e = emoji then add else marked reactions e)"
  by (rule toggle_marked)

text \<open>adding a reaction and taking it back restores the list.\<close>

theorem toggle_round_trip:
  assumes "wf_reactions userId reactions" "\<not> marked reactions emoji" "list_all (\<lambda>r. re_me r \<noteq> None) reactions"
  shows "toggleReaction (toggleReaction reactions emoji userId True) emoji userId False = reactions"
  using assms by (rule toggle_undo)

theorem toggle_round_trip_witness:
  "let rs = [\<lparr>re_emoji = ''ok'', re_count = 2, re_me = Some False, re_users = [''a'', ''b'']\<rparr>]
   in toggleReaction (toggleReaction rs ''ok'' ''u'' True) ''ok'' ''u'' False = rs"
  unfolding Let_def
  by (rule toggle_round_trip) (simp_all del: not_None_eq add: wf_reactions_def wf_reaction_def marked_def MAX_REACTION_USERS_def)

text \<open>a broadcast carries no viewer's marks. After it every emoji that is still there keeps the mark it had, and
  no emoji gains one.\<close>

theorem broadcast_keeps_marks:
  assumes "list_all (\<lambda>r. re_me r = None) incoming"
  shows "marked (keepMyReactions previous incoming) emoji \<longleftrightarrow>
    marked previous emoji \<and> emoji \<in> re_emoji ` set incoming"
  using keepMy_broadcast[OF assms] by auto

theorem broadcast_keeps_marks_witness:
  "marked (keepMyReactions [\<lparr>re_emoji = ''ok'', re_count = 1, re_me = Some True, re_users = [''u'']\<rparr>]
     [\<lparr>re_emoji = ''ok'', re_count = 2, re_me = None, re_users = [''u'', ''b'']\<rparr>]) ''ok'' \<longleftrightarrow>
   marked [\<lparr>re_emoji = ''ok'', re_count = 1, re_me = Some True, re_users = [''u'']\<rparr>] ''ok'' \<and>
   ''ok'' \<in> re_emoji ` set [\<lparr>re_emoji = ''ok'', re_count = 2, re_me = None, re_users = [''u'', ''b'']\<rparr>]"
  by (rule broadcast_keeps_marks) simp

end
