(* ===== verification/Messages.thy ===== *)
theory Messages
  imports Reactions
begin

text \<open>
  Messages and rooms (\<open>web/lib/chat/rules/messages.ts\<close>): merging fetched and delivered messages into
  what the client holds, the loaded window, the sync cursor, and the figures a room list shows.
\<close>

section \<open>Merging messages\<close>

definition inChannel :: "message \<Rightarrow> bool" where
  "inChannel message \<longleftrightarrow> m_thread_root_id message = None \<or> m_also_in_channel message"

definition takeUpdate :: "message \<Rightarrow> message \<Rightarrow> message" where
  \<comment> \<open>The message stored when a held one is replaced: its content, with \<open>me\<close> and \<open>saved\<close> carried over.\<close>
  "takeUpdate existing message =
     message\<lparr>m_reactions := keepMyReactions (m_reactions existing) (m_reactions message),
             m_saved := (if m_saved message = None \<and> m_saved existing \<noteq> None
                         then m_saved existing else m_saved message)\<rparr>"

definition indexById :: "message list \<Rightarrow> (ident \<times> message) list" where
  "indexById current = fold (\<lambda>m byId. AList.update (m_id m) m byId) current []"

definition mergeOne :: "message \<Rightarrow> (ident \<times> message) list \<Rightarrow> (ident \<times> message) list" where
  "mergeOne message byId =
     (case map_of byId (m_id message) of
        None \<Rightarrow> AList.update (m_id message) message byId
      | Some existing \<Rightarrow>
          if m_change_seq existing > m_change_seq message then byId
          else AList.update (m_id message) (takeUpdate existing message) byId)"

definition mergeMessages :: "message list \<Rightarrow> message list \<Rightarrow> message list" where
  "mergeMessages current incoming =
     js_sort (\<lambda>a b. m_seq a - m_seq b) (map snd (fold mergeOne incoming (indexById current)))"

definition inWindow :: "bool \<Rightarrow> bool \<Rightarrow> message list \<Rightarrow> message \<Rightarrow> bool" where
  "inWindow hasOlder hasNewer current m \<longleftrightarrow>
     (\<not> hasOlder \<or> (case at_first current of None \<Rightarrow> True | Some oldest \<Rightarrow> m_seq m \<ge> m_seq oldest)) \<and>
     (\<not> hasNewer \<or> (case at_last current of None \<Rightarrow> True | Some newest \<Rightarrow> m_seq m \<le> m_seq newest))"

definition mergeIntoWindow :: "message list \<Rightarrow> bool \<Rightarrow> bool \<Rightarrow> message list \<Rightarrow> message list" where
  "mergeIntoWindow current hasOlder hasNewer incoming =
     (let inside = filter (inWindow hasOlder hasNewer current) incoming
      in if inside = [] then current else mergeMessages current inside)"

function advance_loop :: "int list \<Rightarrow> int \<Rightarrow> int" where
  "advance_loop changes next = (if next + 1 \<in> set changes then advance_loop changes (next + 1) else next)"
  by pat_completeness auto
termination
proof (relation "measure (\<lambda>(changes, next). card {c \<in> set changes. next < c})", simp)
  fix changes and "next" :: int
  assume "next + 1 \<in> set changes"
  then have "{c \<in> set changes. next + 1 < c} \<subset> {c \<in> set changes. next < c}" by force
  then show "((changes, next + 1), changes, next) \<in> measure (\<lambda>(changes, next). card {c \<in> set changes. next < c})"
    by (simp add: psubset_card_mono)
qed

declare advance_loop.simps [simp del]

definition advanceCursor :: "int \<Rightarrow> message list \<Rightarrow> int" where
  "advanceCursor cursor messages = advance_loop (map m_change_seq messages) cursor"

section \<open>The contract of a versioned merge\<close>

text \<open>
  \<open>mergeMessages\<close> and \<open>mergeReplies\<close> share a contract: messages are kept by id, a change with a smaller
  \<open>change_seq\<close> never replaces a newer one, the result is ordered by \<open>seq\<close>. They differ in what a
  replacement keeps of the held message (\<open>pick\<close>); \<open>core\<close> is the part that depends on the version only.
\<close>

definition vstep :: "(message \<Rightarrow> message \<Rightarrow> message) \<Rightarrow> message \<Rightarrow> (ident \<times> message) list \<Rightarrow> (ident \<times> message) list" where
  "vstep pick m byId = AList.update (m_id m) (case map_of byId (m_id m) of None \<Rightarrow> m | Some e \<Rightarrow> pick e m) byId"

definition view :: "message list \<Rightarrow> ident \<Rightarrow> message option" where
  \<comment> \<open>The abstract content of a list: which message an id stands for.\<close>
  "view ms = map_of (map (\<lambda>m. (m_id m, m)) ms)"

definition view_step :: "(message \<Rightarrow> message \<Rightarrow> message) \<Rightarrow> message \<Rightarrow> (ident \<Rightarrow> message option) \<Rightarrow> ident \<Rightarrow> message option" where
  "view_step pick m v = v(m_id m \<mapsto> (case v (m_id m) of None \<Rightarrow> m | Some e \<Rightarrow> pick e m))"

definition ids :: "message list \<Rightarrow> ident set" where
  "ids ms = m_id ` set ms"

definition timeline_wf :: "message list \<Rightarrow> bool" where
  \<comment> \<open>What every list of messages in the store keeps: ordered by \<open>seq\<close>, one entry per id.\<close>
  "timeline_wf ms \<longleftrightarrow> sorted (map m_seq ms) \<and> distinct (map m_id ms)"

definition indexed :: "(ident \<times> message) list \<Rightarrow> bool" where
  "indexed al \<longleftrightarrow> distinct (map fst al) \<and> (\<forall>(k, m)\<in>set al. k = m_id m)"

lemma set_alist_update: "set (AList.update k v al) \<subseteq> insert (k, v) (set al)"
  by (induction al) auto

lemma indexed_update: "indexed al \<Longrightarrow> indexed (AList.update (m_id m) m al)"
  using set_alist_update[of "m_id m" m al] by (auto simp: indexed_def distinct_update)

lemma distinct_map_sort_key [simp]: "distinct (map f (sort_key g xs)) = distinct (map f xs)"
  by (metis mset_sort mset_map mset_eq_imp_distinct_iff)

lemma indexed_map_of: "indexed al \<Longrightarrow> map_of al k = Some m \<Longrightarrow> m_id m = k"
  by (auto simp: indexed_def dest: map_of_SomeD)

lemma indexed_view: "indexed al \<Longrightarrow> view (map snd al) = map_of al"
proof -
  assume "indexed al"
  then have "map (\<lambda>m. (m_id m, m)) (map snd al) = al"
    by (auto simp: indexed_def intro!: map_idI)
  then show ?thesis by (simp add: view_def)
qed

lemma indexed_distinct: "indexed al \<Longrightarrow> distinct (map m_id (map snd al))"
proof -
  assume i: "indexed al"
  then have "map m_id (map snd al) = map fst al"
    by (auto simp: indexed_def)
  with i show ?thesis unfolding indexed_def by presburger
qed

lemma view_Some_set: "view ms k = Some m \<Longrightarrow> m \<in> set ms \<and> m_id m = k"
  by (auto simp: view_def dest: map_of_SomeD)

lemma view_set: "distinct (map m_id ms) \<Longrightarrow> m \<in> set ms \<Longrightarrow> view ms (m_id m) = Some m"
  by (simp add: view_def comp_def)

lemma view_None: "view ms k = None \<longleftrightarrow> k \<notin> ids ms"
  by (force simp: view_def ids_def map_of_eq_None_iff)

lemma dom_view: "dom (view ms) = ids ms"
  using view_None[of ms] by (auto simp: dom_def)

lemma view_perm:
  assumes "mset xs = mset ys" "distinct (map m_id xs)"
  shows "view xs = view ys"
proof
  fix k
  have d: "distinct (map m_id ys)" using assms by (metis mset_map mset_eq_imp_distinct_iff)
  have s: "set xs = set ys" using assms(1) by (rule mset_eq_setD)
  show "view xs k = view ys k"
  proof (cases "view xs k")
    case None
    then show ?thesis using s by (metis view_None ids_def)
  next
    case (Some m)
    then show ?thesis using view_Some_set[OF Some] view_set[OF d] s by auto
  qed
qed

lemma indexed_indexById: "indexed (indexById ms)"
proof -
  have "indexed al \<Longrightarrow> indexed (fold (\<lambda>m byId. AList.update (m_id m) m byId) ms al)" for al
    by (induction ms arbitrary: al) (auto simp: indexed_update)
  moreover have "indexed []" by (simp add: indexed_def)
  ultimately show ?thesis unfolding indexById_def by blast
qed

lemma map_of_indexById:
  assumes "distinct (map m_id ms)"
  shows "map_of (indexById ms) = view ms"
proof -
  have "map_of (fold (\<lambda>m byId. AList.update (m_id m) m byId) ms al) = map_of al ++ view ms"
    if "distinct (map m_id ms)" for al
    using that
  proof (induction ms arbitrary: al)
    case (Cons m ms)
    then have "m_id m \<notin> dom (view ms)" by (auto simp: dom_view ids_def)
    with Cons show ?case
      by (auto simp: update_conv' view_def fun_eq_iff map_add_def split: option.splits)
  qed (simp add: view_def)
  from this[OF assms, of "[]"] show ?thesis by (simp add: indexById_def)
qed

lemma seq_list_unique:
  \<comment> \<open>Two lists in strictly ascending \<open>seq\<close> order with the same elements are equal.\<close>
  assumes "sorted (map m_seq xs)" "sorted (map m_seq ys)" "inj_on m_seq (set xs)" "distinct xs" "distinct ys"
    "set xs = set ys"
  shows "xs = ys"
proof -
  have eq: "map m_seq xs = map m_seq ys"
    using assms by (intro sorted_distinct_set_unique) (simp_all add: distinct_map)
  show ?thesis
    using map_inj_on[OF eq] assms(3,6) by simp
qed

definition versions_agree :: "(message \<Rightarrow> message) \<Rightarrow> message set \<Rightarrow> bool" where
  \<comment> \<open>What the server guarantees of everything it ever sends: an id and a \<open>seq\<close> belong to each other, and
    one version of a message has one content.\<close>
  "versions_agree core S \<longleftrightarrow> (\<forall>a\<in>S. \<forall>b\<in>S. (m_id a = m_id b \<longleftrightarrow> m_seq a = m_seq b) \<and>
     (m_id a = m_id b \<longrightarrow> m_change_seq a = m_change_seq b \<longrightarrow> core a = core b))"

locale versioned_merge =
  fixes merge :: "message list \<Rightarrow> message list \<Rightarrow> message list"
    and pick :: "message \<Rightarrow> message \<Rightarrow> message"
    and core :: "message \<Rightarrow> message"
  assumes merge_eq: "merge cur inc = sort_key m_seq (map snd (fold (vstep pick) inc (indexById cur)))"
    and pick_id: "m_id e = m_id m \<Longrightarrow> m_id (pick e m) = m_id m"
    and pick_old: "m_change_seq m < m_change_seq e \<Longrightarrow> pick e m = e"
    and pick_new: "m_change_seq e \<le> m_change_seq m \<Longrightarrow> core (pick e m) = core m"
    and core_keys: "m_id (core m) = m_id m" "m_seq (core m) = m_seq m" "m_change_seq (core m) = m_change_seq m"
begin

lemma pick_change: "m_change_seq (pick e m) = max (m_change_seq e) (m_change_seq m)"
proof (cases "m_change_seq e \<le> m_change_seq m")
  case True
  then show ?thesis using pick_new[of e m] core_keys(3) by (metis max.absorb2)
qed (simp add: pick_old)

lemma indexed_vstep: "indexed al \<Longrightarrow> indexed (vstep pick m al)"
proof -
  assume i: "indexed al"
  let ?x = "case map_of al (m_id m) of None \<Rightarrow> m | Some e \<Rightarrow> pick e m"
  have "m_id ?x = m_id m"
    using indexed_map_of[OF i] pick_id by (auto split: option.splits)
  with indexed_update[OF i, of ?x] show ?thesis by (simp add: vstep_def)
qed

lemma indexed_fold: "indexed al \<Longrightarrow> indexed (fold (vstep pick) inc al)"
  by (induction inc arbitrary: al) (auto simp: indexed_vstep)

lemma map_of_vstep: "map_of (vstep pick m al) = view_step pick m (map_of al)"
  by (simp add: vstep_def view_step_def update_conv')

lemma map_of_fold: "map_of (fold (vstep pick) inc al) = fold (view_step pick) inc (map_of al)"
  by (induction inc arbitrary: al) (auto simp: map_of_vstep)

lemma merge_wf: "timeline_wf (merge cur inc)"
  using indexed_distinct[OF indexed_fold[OF indexed_indexById]]
  by (simp add: timeline_wf_def merge_eq)

lemma merge_view:
  assumes "distinct (map m_id cur)"
  shows "view (merge cur inc) = fold (view_step pick) inc (view cur)"
proof -
  let ?al = "fold (vstep pick) inc (indexById cur)"
  have i: "indexed ?al" by (rule indexed_fold[OF indexed_indexById])
  have "view (sort_key m_seq (map snd ?al)) = view (map snd ?al)"
    using indexed_distinct[OF i] by (intro view_perm) simp_all
  also have "\<dots> = map_of ?al" by (rule indexed_view[OF i])
  finally show ?thesis
    using assms by (simp add: merge_eq map_of_fold map_of_indexById)
qed

lemma fold_step_newest:
  \<comment> \<open>What an id stands for after a merge: the newest version seen.\<close>
  assumes "fold (view_step pick) inc v k = Some x"
    and "\<And>j e. v j = Some e \<Longrightarrow> m_id e = j"
  shows "\<exists>y. ((v k = Some y) \<or> (y \<in> set inc \<and> m_id y = k)) \<and> core x = core y \<and>
     (\<forall>e. v k = Some e \<longrightarrow> m_change_seq e \<le> m_change_seq x) \<and>
     (\<forall>z\<in>set inc. m_id z = k \<longrightarrow> m_change_seq z \<le> m_change_seq x)"
  using assms
proof (induction inc arbitrary: v)
  case (Cons m inc)
  let ?v = "view_step pick m v"
  have idv: "\<And>j e. ?v j = Some e \<Longrightarrow> m_id e = j"
    using Cons.prems(2) pick_id by (auto simp: view_step_def split: if_splits option.splits)
  from Cons.IH[of ?v] Cons.prems(1) idv obtain y where
    y: "(?v k = Some y) \<or> (y \<in> set inc \<and> m_id y = k)" "core x = core y"
    and old: "\<And>e. ?v k = Some e \<Longrightarrow> m_change_seq e \<le> m_change_seq x"
    and new: "\<forall>z\<in>set inc. m_id z = k \<longrightarrow> m_change_seq z \<le> m_change_seq x"
    by auto
  show ?case
  proof (cases "k = m_id m")
    case False
    then show ?thesis using y old new by (auto simp: view_step_def)
  next
    case True
    show ?thesis
    proof (cases "v k")
      case None
      then have "?v k = Some m" using True by (simp add: view_step_def)
      then show ?thesis using y old new None True by auto
    next
      case (Some e)
      then have vk: "?v k = Some (pick e m)" using True by (simp add: view_step_def)
      have le: "m_change_seq e \<le> m_change_seq x" "m_change_seq m \<le> m_change_seq x"
        using old[OF vk] by (simp_all add: pick_change)
      have "core (pick e m) = core e \<or> core (pick e m) = core m"
        using pick_new[of e m] pick_old[of m e] by fastforce
      then show ?thesis using y vk le new Some True by auto
    qed
  qed
qed (auto simp: core_keys)

lemma merge_ids:
  assumes "distinct (map m_id cur)"
  shows "ids (merge cur inc) = ids cur \<union> ids inc"
proof -
  have "dom (fold (view_step pick) inc v) = dom v \<union> ids inc" for v
    by (induction inc arbitrary: v) (auto simp: view_step_def ids_def)
  then show ?thesis using merge_view[OF assms, of inc] dom_view by metis
qed

lemma merge_no_regress:
  assumes "distinct (map m_id cur)" "e \<in> set cur \<or> e \<in> set inc"
  shows "\<exists>x\<in>set (merge cur inc). m_id x = m_id e \<and> m_change_seq e \<le> m_change_seq x"
proof -
  have "m_id e \<in> ids (merge cur inc)"
    using assms merge_ids[OF assms(1), of inc] by (auto simp: ids_def)
  then obtain x where x: "view (merge cur inc) (m_id e) = Some x"
    by (metis view_None option.exhaust)
  have "m_change_seq e \<le> m_change_seq x"
    using fold_step_newest[of inc "view cur" "m_id e" x] x assms view_set[OF assms(1), of e]
    by (auto simp: merge_view dest: view_Some_set)
  then show ?thesis using view_Some_set[OF x] by auto
qed

lemma merge_newest:
  assumes "distinct (map m_id cur)" "x \<in> set (merge cur inc)"
  shows "\<exists>y\<in>set cur \<union> set inc. m_id y = m_id x \<and> core x = core y \<and>
    (\<forall>z\<in>set cur \<union> set inc. m_id z = m_id x \<longrightarrow> m_change_seq z \<le> m_change_seq x)"
proof -
  have "view (merge cur inc) (m_id x) = Some x"
    using merge_wf[of cur inc] assms(2) view_set by (auto simp: timeline_wf_def)
  then have f: "fold (view_step pick) inc (view cur) (m_id x) = Some x"
    using merge_view[OF assms(1)] by simp
  obtain y where y: "view cur (m_id x) = Some y \<or> (y \<in> set inc \<and> m_id y = m_id x)" "core x = core y"
    and old: "\<And>e. view cur (m_id x) = Some e \<Longrightarrow> m_change_seq e \<le> m_change_seq x"
    and new: "\<forall>z\<in>set inc. m_id z = m_id x \<longrightarrow> m_change_seq z \<le> m_change_seq x"
    using fold_step_newest[OF f] view_Some_set[of cur] by blast
  have "y \<in> set cur \<union> set inc" "m_id y = m_id x"
    using y(1) view_Some_set[of cur "m_id x" y] by auto
  moreover have "m_change_seq z \<le> m_change_seq x" if "z \<in> set cur \<union> set inc" "m_id z = m_id x" for z
    using that new old[of z] view_set[OF assms(1), of z] by auto
  ultimately show ?thesis using y(2) by blast
qed

lemma merge_window_lower:
  assumes "distinct (map m_id cur)" "\<forall>m\<in>set cur \<union> set inc. P (m_seq m)" "x \<in> set (merge cur inc)"
  shows "P (m_seq x)"
proof -
  obtain y where y: "y \<in> set cur \<union> set inc" "core x = core y"
    using merge_newest[OF assms(1,3)] by blast
  then have "m_seq x = m_seq y" using core_keys(2)[of x] core_keys(2)[of y] by simp
  with y(1) assms(2) show ?thesis by simp
qed

lemma merge_core_set:
  assumes "distinct (map m_id cur)" "versions_agree core (set cur \<union> set inc)"
  shows "core ` set (merge cur inc) =
    core ` {y \<in> set cur \<union> set inc. \<forall>z\<in>set cur \<union> set inc. m_id z = m_id y \<longrightarrow> m_change_seq z \<le> m_change_seq y}"
    (is "?L = core ` ?R")
proof (intro equalityI subsetI)
  fix c assume "c \<in> ?L"
  then obtain x where x: "x \<in> set (merge cur inc)" "c = core x" by auto
  obtain y where y: "y \<in> set cur \<union> set inc" "m_id y = m_id x" "core x = core y"
    "\<forall>z\<in>set cur \<union> set inc. m_id z = m_id x \<longrightarrow> m_change_seq z \<le> m_change_seq x"
    using merge_newest[OF assms(1) x(1)] by blast
  have "m_change_seq x = m_change_seq y" using y(3) core_keys(3) by metis
  with y x(2) show "c \<in> core ` ?R" by auto
next
  fix c assume "c \<in> core ` ?R"
  then obtain y where y: "y \<in> set cur \<union> set inc" "c = core y"
    "\<And>z. z \<in> set cur \<union> set inc \<Longrightarrow> m_id z = m_id y \<Longrightarrow> m_change_seq z \<le> m_change_seq y"
    by auto
  obtain x where x: "x \<in> set (merge cur inc)" "m_id x = m_id y" "m_change_seq y \<le> m_change_seq x"
    using merge_no_regress[OF assms(1), of y inc] y(1) by auto
  obtain w where w: "w \<in> set cur \<union> set inc" "m_id w = m_id x" "core x = core w"
    using merge_newest[OF assms(1) x(1)] by blast
  have "m_change_seq w = m_change_seq x" using w(3) core_keys(3) by metis
  then have "m_change_seq w = m_change_seq y" using y(3)[OF w(1)] w(2) x(2,3) by simp
  then have "core w = core y"
    using assms(2) w(1,2) y(1) x(2) unfolding versions_agree_def by metis
  then have "c = core x" using w(3) y(2) by simp
  with x(1) show "c \<in> ?L" by blast
qed

lemma merge_converges:
  \<comment> \<open>The merged content depends on the set of messages seen, not on how they were split into
    fetches and events, on their order or on repetitions.\<close>
  assumes "distinct (map m_id cur)" "distinct (map m_id cur')"
    and "set cur \<union> set inc = set cur' \<union> set inc'"
    and agree: "versions_agree core (set cur \<union> set inc)"
  shows "map core (merge cur inc) = map core (merge cur' inc')"
proof (rule seq_list_unique)
  have keys: "map m_seq (map core ms) = map m_seq ms" "map m_id (map core ms) = map m_id ms" for ms
    using core_keys by simp_all
  show "sorted (map m_seq (map core (merge cur inc)))" "sorted (map m_seq (map core (merge cur' inc')))"
    unfolding keys using merge_wf by (simp_all add: timeline_wf_def)
  show "distinct (map core (merge cur inc))" "distinct (map core (merge cur' inc'))"
    using merge_wf keys(2) by (metis timeline_wf_def distinct_map)+
  show eq: "set (map core (merge cur inc)) = set (map core (merge cur' inc'))"
    using merge_core_set[OF assms(1) agree] merge_core_set[OF assms(2), of inc'] assms(3) agree by simp
  have "core ` set (merge cur inc) \<subseteq> core ` (set cur \<union> set inc)"
    using merge_core_set[OF assms(1) agree] by auto
  moreover have "x = y" if "x \<in> core ` set (merge cur inc)" "y \<in> core ` set (merge cur inc)" "m_seq x = m_seq y" for x y
  proof -
    from that(1) obtain a where a: "x = core a" "a \<in> set cur \<union> set inc"
        "\<And>z. z \<in> set cur \<union> set inc \<Longrightarrow> m_id z = m_id a \<Longrightarrow> m_change_seq z \<le> m_change_seq a"
      using merge_core_set[OF assms(1) agree] by auto
    from that(2) obtain b where b: "y = core b" "b \<in> set cur \<union> set inc"
        "\<And>z. z \<in> set cur \<union> set inc \<Longrightarrow> m_id z = m_id b \<Longrightarrow> m_change_seq z \<le> m_change_seq b"
      using merge_core_set[OF assms(1) agree] by auto
    have s: "m_seq a = m_seq b" using that(3) a(1) b(1) core_keys(2) by simp
    then have i: "m_id a = m_id b" using agree a(2) b(2) unfolding versions_agree_def by metis
    then have "m_change_seq a = m_change_seq b" using a b by (metis order_antisym)
    then show ?thesis using agree a(1,2) b(1,2) i unfolding versions_agree_def by metis
  qed
  ultimately show "inj_on m_seq (set (map core (merge cur inc)))"
    by (auto simp: inj_on_def)
qed

end

text \<open>The merge of the timeline keeps the contract, up to what only the viewer's own responses carry.\<close>

definition stripViewer :: "message \<Rightarrow> message" where
  "stripViewer m = m\<lparr>m_reactions := map (\<lambda>r. r\<lparr>re_me := None\<rparr>) (m_reactions m), m_saved := None\<rparr>"

definition pickUpdate :: "message \<Rightarrow> message \<Rightarrow> message" where
  "pickUpdate e m = (if m_change_seq e > m_change_seq m then e else takeUpdate e m)"

lemma takeUpdate_keys [simp]:
  "m_id (takeUpdate e m) = m_id m" "m_seq (takeUpdate e m) = m_seq m"
  "m_change_seq (takeUpdate e m) = m_change_seq m" "m_thread_root_id (takeUpdate e m) = m_thread_root_id m"
  "m_also_in_channel (takeUpdate e m) = m_also_in_channel m"
  by (simp_all add: takeUpdate_def)

lemma alist_update_same: "map_of al k = Some v \<Longrightarrow> AList.update k v al = al"
  by (induction al) auto

lemma mergeOne_vstep: "mergeOne = vstep pickUpdate"
  by (auto simp: fun_eq_iff mergeOne_def vstep_def pickUpdate_def alist_update_same split: option.splits)

lemma strip_keepMy: "map (\<lambda>r. r\<lparr>re_me := None\<rparr>) (keepMyReactions p rs) = map (\<lambda>r. r\<lparr>re_me := None\<rparr>) rs"
  unfolding keepMy_map by (induction rs) auto

lemma strip_takeUpdate: "stripViewer (takeUpdate e m) = stripViewer m"
  by (simp add: stripViewer_def takeUpdate_def strip_keepMy)

interpretation mm: versioned_merge mergeMessages pickUpdate stripViewer
proof
  show "mergeMessages cur inc = sort_key m_seq (map snd (fold (vstep pickUpdate) inc (indexById cur)))" for cur inc
    by (simp add: mergeMessages_def js_sort_key mergeOne_vstep)
qed (auto simp: pickUpdate_def strip_takeUpdate, simp_all add: stripViewer_def)

lemmas mergeMessages_facts = mm.merge_wf mm.merge_ids mm.merge_no_regress

lemma takeUpdate_id: "list_all (\<lambda>r. re_me r \<noteq> None) (m_reactions m) \<Longrightarrow> m_saved m \<noteq> None \<Longrightarrow> takeUpdate e m = m"
  by (auto simp: takeUpdate_def keepMy_id)

lemma indexById_distinct: "distinct (map m_id ms) \<Longrightarrow> indexById ms = map (\<lambda>m. (m_id m, m)) ms"
proof (induction ms rule: rev_induct)
  case (snoc m ms)
  have new: "k \<notin> fst ` set al \<Longrightarrow> AList.update k v al = al @ [(k, v)]" for k :: ident and v :: message and al
    by (induction al) auto
  from snoc show ?case by (simp add: indexById_def new image_image)
qed (simp add: indexById_def)

lemma mergeMessages_Nil: "timeline_wf cur \<Longrightarrow> mergeMessages cur [] = cur"
  by (simp add: mergeMessages_def timeline_wf_def indexById_distinct comp_def sorted_map js_sort_id)

lemma mergeMessages_stale:
  \<comment> \<open>A version that is not newer in order is ignored.\<close>
  assumes "timeline_wf cur" "e \<in> set cur" "m_id e = m_id m" "m_change_seq m < m_change_seq e"
  shows "mergeMessages cur [m] = cur"
proof -
  have "map_of (indexById cur) (m_id m) = Some e"
    using assms view_set[of cur e] by (simp add: timeline_wf_def map_of_indexById)
  then have "fold mergeOne [m] (indexById cur) = indexById cur"
    using assms(4) by (simp add: mergeOne_def)
  then show ?thesis
    using mergeMessages_Nil[OF assms(1)] by (simp add: mergeMessages_def)
qed

section \<open>The window\<close>

definition windowed :: "(message list \<Rightarrow> message list \<Rightarrow> message list) \<Rightarrow> message list \<Rightarrow> bool \<Rightarrow> bool \<Rightarrow> message list \<Rightarrow> message list" where
  \<comment> \<open>A merge restricted to the loaded range; \<open>mergeIntoWindow\<close> and \<open>mergeRepliesIntoWindow\<close> are instances.\<close>
  "windowed merge cur o' n inc =
     (let inside = filter (inWindow o' n cur) inc in if inside = [] then cur else merge cur inside)"

lemma timeline_first_least: "timeline_wf ms \<Longrightarrow> m \<in> set ms \<Longrightarrow> m_seq (hd ms) \<le> m_seq m"
  by (cases ms) (auto simp: timeline_wf_def)

lemma timeline_last_greatest: "timeline_wf ms \<Longrightarrow> m \<in> set ms \<Longrightarrow> m_seq m \<le> m_seq (last ms)"
  by (induction ms rule: rev_induct) (auto simp: timeline_wf_def sorted_append)

lemma window_self: "timeline_wf ms \<Longrightarrow> m \<in> set ms \<Longrightarrow> inWindow o' n ms m"
  using timeline_first_least timeline_last_greatest
  by (auto simp: inWindow_def dest!: at_first_Some at_last_Some split: option.splits)

definition covers :: "message set \<Rightarrow> bool \<Rightarrow> bool \<Rightarrow> message list \<Rightarrow> bool" where
  \<comment> \<open>The loaded range has no hole: every message of the server in the range is held.\<close>
  "covers S o' n ms \<longleftrightarrow> (\<forall>m\<in>S. inWindow o' n ms m \<longrightarrow> m_id m \<in> ids ms)"

definition reflects :: "message set \<Rightarrow> int \<Rightarrow> bool \<Rightarrow> bool \<Rightarrow> message list \<Rightarrow> bool" where
  \<comment> \<open>A cursor tells the truth: every change up to it that falls in the loaded range is held, in that
    version or a newer one.\<close>
  "reflects S c o' n ms \<longleftrightarrow> (\<forall>m\<in>S. m_change_seq m \<le> c \<longrightarrow> inWindow o' n ms m \<longrightarrow>
     (\<exists>x\<in>set ms. m_id x = m_id m \<and> m_change_seq m \<le> m_change_seq x))"

context versioned_merge
begin

lemma windowed_wf: "timeline_wf cur \<Longrightarrow> timeline_wf (windowed merge cur o' n inc)"
  by (simp add: windowed_def Let_def merge_wf)

lemma windowed_ids:
  assumes "distinct (map m_id cur)"
  shows "ids (windowed merge cur o' n inc) = ids cur \<union> ids (filter (inWindow o' n cur) inc)"
proof (cases "filter (inWindow o' n cur) inc = []")
  case True
  then have "ids (filter (inWindow o' n cur) inc) = {}" by (simp only: True) (simp add: ids_def)
  with True show ?thesis by (simp add: windowed_def Let_def)
next
  case False
  then show ?thesis using assms by (simp add: windowed_def Let_def merge_ids)
qed

lemma windowed_inside:
  \<comment> \<open>Nothing outside the loaded range is added.\<close>
  assumes "timeline_wf cur" "x \<in> set (windowed merge cur o' n inc)"
  shows "inWindow o' n cur x"
proof (cases "filter (inWindow o' n cur) inc = []")
  case True
  then show ?thesis using assms window_self by (simp add: windowed_def Let_def)
next
  case False
  have "\<exists>P. \<forall>m. inWindow o' n cur m = P (m_seq m)"
    unfolding inWindow_def by (rule exI[where x = "\<lambda>s. (\<not> o' \<or> (case at_first cur of None \<Rightarrow> True | Some x \<Rightarrow> s \<ge> m_seq x)) \<and>
      (\<not> n \<or> (case at_last cur of None \<Rightarrow> True | Some x \<Rightarrow> s \<le> m_seq x))"]) simp
  then obtain P where P: "\<And>m. inWindow o' n cur m = P (m_seq m)" by blast
  let ?in = "filter (inWindow o' n cur) inc"
  have "\<forall>m\<in>set cur \<union> set ?in. P (m_seq m)"
    using window_self[OF assms(1)] unfolding P[symmetric] by auto
  moreover have "x \<in> set (merge cur ?in)"
    using False assms(2) by (simp add: windowed_def Let_def)
  moreover have "distinct (map m_id cur)"
    using assms(1) by (simp add: timeline_wf_def)
  ultimately have "P (m_seq x)" by (blast intro: merge_window_lower)
  then show ?thesis by (simp add: P)
qed

lemma windowed_bounds:
  \<comment> \<open>Merging never widens the range on a side that is still open.\<close>
  assumes "timeline_wf cur" "inWindow o' n (windowed merge cur o' n inc) m"
  shows "inWindow o' n cur m"
proof (cases "windowed merge cur o' n inc")
  case Nil
  have "ids cur \<subseteq> ids (windowed merge cur o' n inc)"
    using assms(1) by (simp add: windowed_ids timeline_wf_def)
  then have "cur = []" using Nil by (simp add: ids_def)
  then show ?thesis by (simp add: inWindow_def at_first_def at_last_def)
next
  case (Cons a as)
  let ?new = "windowed merge cur o' n inc"
  have "hd ?new \<in> set ?new" "last ?new \<in> set ?new" using Cons by simp_all
  then have "inWindow o' n cur (hd ?new)" "inWindow o' n cur (last ?new)"
    using windowed_inside[OF assms(1)] by blast+
  moreover have "at_first ?new = Some (hd ?new)" "at_last ?new = Some (last ?new)"
    using Cons by (simp_all add: at_first_def at_last_def)
  ultimately have "o' \<Longrightarrow> at_first cur = Some x \<Longrightarrow> m_seq x \<le> m_seq m"
    and "n \<Longrightarrow> at_last cur = Some x \<Longrightarrow> m_seq m \<le> m_seq x" for x
    using assms(2) by (simp_all add: inWindow_def)
  then show ?thesis by (auto simp: inWindow_def split: option.splits)
qed

lemma covers_windowed:
  assumes "timeline_wf cur" "covers S o' n cur"
  shows "covers (S \<union> set inc) o' n (windowed merge cur o' n inc)"
proof (unfold covers_def, intro ballI impI)
  fix m assume m: "m \<in> S \<union> set inc" "inWindow o' n (windowed merge cur o' n inc) m"
  have "inWindow o' n cur m" by (rule windowed_bounds[OF assms(1) m(2)])
  then have "m_id m \<in> ids cur \<union> ids (filter (inWindow o' n cur) inc)"
    using m(1) assms(2) by (auto simp: covers_def ids_def)
  then show "m_id m \<in> ids (windowed merge cur o' n inc)"
    using assms(1) by (simp add: windowed_ids timeline_wf_def)
qed

lemma windowed_no_regress:
  assumes "timeline_wf cur" "e \<in> set cur \<or> (e \<in> set inc \<and> inWindow o' n cur e)"
  shows "\<exists>x\<in>set (windowed merge cur o' n inc). m_id x = m_id e \<and> m_change_seq e \<le> m_change_seq x"
proof (cases "filter (inWindow o' n cur) inc = []")
  case True
  then have "e \<in> set cur" using assms(2) by (auto simp: filter_empty_conv)
  with True show ?thesis by (auto simp: windowed_def Let_def)
next
  case False
  then show ?thesis
    using merge_no_regress[of cur e "filter (inWindow o' n cur) inc"] assms
    by (auto simp: windowed_def Let_def timeline_wf_def)
qed

lemma reflects_windowed:
  assumes "timeline_wf cur" "reflects S c o' n cur"
  shows "reflects S c o' n (windowed merge cur o' n inc)"
proof (unfold reflects_def, intro ballI impI)
  fix m assume m: "m \<in> S" "m_change_seq m \<le> c" "inWindow o' n (windowed merge cur o' n inc) m"
  have "inWindow o' n cur m" by (rule windowed_bounds[OF assms(1) m(3)])
  with m assms(2) obtain x where x: "x \<in> set cur" "m_id x = m_id m" "m_change_seq m \<le> m_change_seq x"
    by (auto simp: reflects_def)
  from windowed_no_regress[OF assms(1), of x inc o' n] x(1)
  show "\<exists>x\<in>set (windowed merge cur o' n inc). m_id x = m_id m \<and> m_change_seq m \<le> m_change_seq x"
    using x(2,3) by force
qed

end

lemma mergeIntoWindow_windowed: "mergeIntoWindow = windowed mergeMessages"
  by (simp add: fun_eq_iff mergeIntoWindow_def windowed_def)

lemmas mergeIntoWindow_wf = mm.windowed_wf[folded mergeIntoWindow_windowed]
  and mergeIntoWindow_ids = mm.windowed_ids[folded mergeIntoWindow_windowed]
  and mergeIntoWindow_inside = mm.windowed_inside[folded mergeIntoWindow_windowed]
  and mergeIntoWindow_bounds = mm.windowed_bounds[folded mergeIntoWindow_windowed]
  and covers_mergeIntoWindow = mm.covers_windowed[folded mergeIntoWindow_windowed]
  and mergeIntoWindow_no_regress = mm.windowed_no_regress[folded mergeIntoWindow_windowed]
  and reflects_mergeIntoWindow = mm.reflects_windowed[folded mergeIntoWindow_windowed]

section \<open>The sync cursor\<close>

lemma advance_loop_spec:
  "next \<le> advance_loop cs next \<and> {next<..advance_loop cs next} \<subseteq> set cs \<and> advance_loop cs next + 1 \<notin> set cs"
proof (induction cs "next" rule: advance_loop.induct)
  case (1 cs "next")
  show ?case
  proof (cases "next + 1 \<in> set cs")
    case True
    moreover have "{next<..k} \<subseteq> insert (next + 1) {next + 1<..k}" for k by auto
    ultimately show ?thesis using 1 by (subst (1 2 3) advance_loop.simps) auto
  next
    case False
    then show ?thesis by (simp add: advance_loop.simps[of cs "next"])
  qed
qed

lemma advanceCursor_spec:
  "cursor \<le> advanceCursor cursor ms"
  "{cursor<..advanceCursor cursor ms} \<subseteq> m_change_seq ` set ms"
  "advanceCursor cursor ms + 1 \<notin> m_change_seq ` set ms"
  using advance_loop_spec[of cursor "map m_change_seq ms"] by (simp_all add: advanceCursor_def)

lemma advanceCursor_unique:
  assumes "cursor \<le> n" "{cursor<..n} \<subseteq> m_change_seq ` set ms" "n + 1 \<notin> m_change_seq ` set ms"
  shows "advanceCursor cursor ms = n"
proof -
  let ?a = "advanceCursor cursor ms"
  have "\<not> ?a < n"
    using advanceCursor_spec[of cursor ms] assms(2) by (metis greaterThanAtMost_iff subsetD zless_add1_eq add1_zle_eq less_le_trans le_less_trans order_le_less)
  moreover have "\<not> n < ?a"
    using advanceCursor_spec(1,2)[of cursor ms] assms by (metis greaterThanAtMost_iff subsetD add1_zle_eq le_less_trans zless_add1_eq)
  ultimately show ?thesis by simp
qed

lemma reflects_advance:
  \<comment> \<open>Counting a change as reflected because its number is held is sound when a number belongs to one
    message.\<close>
  assumes "reflects S c o' n ms"
    and one: "\<And>a b. a \<in> S \<Longrightarrow> b \<in> set ms \<Longrightarrow> m_change_seq a = m_change_seq b \<Longrightarrow> m_id a = m_id b"
  shows "reflects S (advanceCursor c ms) o' n ms"
proof (unfold reflects_def, intro ballI impI)
  fix m assume m: "m \<in> S" "m_change_seq m \<le> advanceCursor c ms" "inWindow o' n ms m"
  show "\<exists>x\<in>set ms. m_id x = m_id m \<and> m_change_seq m \<le> m_change_seq x"
  proof (cases "m_change_seq m \<le> c")
    case True
    then show ?thesis using assms(1) m by (auto simp: reflects_def)
  next
    case False
    then have "m_change_seq m \<in> m_change_seq ` set ms"
      using m(2) advanceCursor_spec(2)[of c ms] by (auto simp: subset_eq)
    then show ?thesis using one[OF m(1)] by force
  qed
qed

section \<open>The newest message of the channel\<close>

fun newest_from :: "message list \<Rightarrow> int option" where
  \<comment> \<open>The loop over a reversed list.\<close>
  "newest_from [] = None"
| "newest_from (m # ms) = (if inChannel m then Some (m_seq m) else newest_from ms)"

definition newestChannelSeq :: "message list \<Rightarrow> int option" where
  "newestChannelSeq messages = newest_from (rev messages)"

lemma newest_from_None: "newest_from ms = None \<longleftrightarrow> (\<forall>m\<in>set ms. \<not> inChannel m)"
  by (induction ms) auto

lemma newest_from_append:
  "newest_from (xs @ ys) = (case newest_from xs of None \<Rightarrow> newest_from ys | Some s \<Rightarrow> Some s)"
  by (induction xs) auto

lemma newestChannelSeq_None: "newestChannelSeq ms = None \<longleftrightarrow> (\<forall>m\<in>set ms. \<not> inChannel m)"
  by (simp add: newestChannelSeq_def newest_from_None)

lemma newestChannelSeq_Some:
  assumes "timeline_wf ms" "newestChannelSeq ms = Some s"
  shows "(\<exists>m\<in>set ms. inChannel m \<and> m_seq m = s) \<and> (\<forall>m\<in>set ms. inChannel m \<longrightarrow> m_seq m \<le> s)"
  using assms
proof (induction ms rule: rev_induct)
  case (snoc m ms)
  show ?case
  proof (cases "inChannel m")
    case True
    with snoc.prems show ?thesis
      by (auto simp: newestChannelSeq_def timeline_wf_def sorted_append)
  next
    case False
    with snoc show ?thesis
      by (auto simp: newestChannelSeq_def timeline_wf_def sorted_append)
  qed
qed (simp add: newestChannelSeq_def)

section \<open>Properties\<close>

text \<open>C16: what the timeline shows does not depend on how its messages arrived: two clients that saw the same set
  of versions, in any order, split and repeated in any way between the first page and later merges, show the
  same list, up to what only the viewer's own responses carry. It needs that two copies of one version agree.\<close>

theorem timeline_merge_order_independent:
  assumes "distinct (map m_id cur)" "distinct (map m_id cur')" "set cur \<union> set inc = set cur' \<union> set inc'"
    and "versions_agree stripViewer (set cur \<union> set inc)"
  shows "map stripViewer (mergeMessages cur inc) = map stripViewer (mergeMessages cur' inc')"
  by (rule mm.merge_converges) (use assms in auto)

theorem timeline_merge_order_independent_witness:
  "let a = sample_message ''a'' 1 1; b = sample_message ''b'' 2 2; a' = sample_message ''a'' 1 3
   in map stripViewer (mergeMessages [a] [a', b]) = map stripViewer (mergeMessages [] [b, a', a, b])"
  unfolding Let_def
  by (rule timeline_merge_order_independent) (auto simp: versions_agree_def)

text \<open>a merge shows each message once, in the order of \<open>seq\<close>, loses none of either side, and shows for each
  a version at least as new as every version it was given.\<close>

theorem timeline_merge_keeps_newest:
  assumes "distinct (map m_id cur)"
  shows "timeline_wf (mergeMessages cur inc) \<and> ids (mergeMessages cur inc) = ids cur \<union> ids inc \<and>
    (\<forall>e\<in>set cur \<union> set inc. \<exists>x\<in>set (mergeMessages cur inc). m_id x = m_id e \<and> m_change_seq e \<le> m_change_seq x)"
  using mm.merge_wf mm.merge_ids[OF assms] mm.merge_no_regress[OF assms] by auto

theorem timeline_merge_keeps_newest_witness:
  "let ms = mergeMessages [sample_message ''a'' 1 5] [sample_message ''b'' 2 2, sample_message ''a'' 1 3]
   in \<exists>x\<in>set ms. m_id x = ''a'' \<and> 5 \<le> m_change_seq x"
  using timeline_merge_keeps_newest[of "[sample_message ''a'' 1 5]" "[sample_message ''b'' 2 2, sample_message ''a'' 1 3]"]
  by (simp add: Let_def)

text \<open>a window without holes stays without holes, also when the edit of a message outside the loaded range
  arrives: such a message is not added, so paging on from either end skips nothing.\<close>

theorem window_has_no_hole:
  assumes "timeline_wf cur" "covers S hasOlder hasNewer cur"
  shows "covers (S \<union> set inc) hasOlder hasNewer (mergeIntoWindow cur hasOlder hasNewer inc) \<and>
    set (mergeIntoWindow cur hasOlder hasNewer inc) \<subseteq> {x. inWindow hasOlder hasNewer cur x}"
  using mm.covers_windowed[OF assms] mm.windowed_inside[OF assms(1)] by (auto simp: mergeIntoWindow_windowed)

theorem window_has_no_hole_witness:
  "let b = sample_message ''b'' 2 2; c = sample_message ''c'' 3 3; a' = sample_message ''a'' 1 4
   in covers ({b, c} \<union> set [a']) True False (mergeIntoWindow [b, c] True False [a']) \<and>
     set (mergeIntoWindow [b, c] True False [a']) \<subseteq> {x. inWindow True False [b, c] x}"
  unfolding Let_def
  by (rule window_has_no_hole) (auto simp: covers_def timeline_wf_def ids_def)

text \<open>C17: the cursor moves exactly past the unbroken run of change numbers that are held, and stops at the first
  gap. The equation characterises the loop, so it also terminates with this result.\<close>

theorem cursor_stops_at_first_gap:
  "advanceCursor cursor ms = n \<longleftrightarrow>
     cursor \<le> n \<and> {cursor<..n} \<subseteq> m_change_seq ` set ms \<and> n + 1 \<notin> m_change_seq ` set ms"
  using advanceCursor_spec[of cursor ms] advanceCursor_unique[of cursor n ms] by auto

text \<open>the newest message of the channel is the largest \<open>seq\<close> among those shown in the channel, thread-only
  replies apart; without one there is none.\<close>

theorem newest_channel_seq_is_max:
  assumes "timeline_wf ms"
  shows "newestChannelSeq ms = (if \<exists>m\<in>set ms. inChannel m then Some (Max (m_seq ` {m \<in> set ms. inChannel m})) else None)"
proof (cases "newestChannelSeq ms")
  case None
  then show ?thesis by (simp add: newestChannelSeq_None)
next
  case (Some s)
  from newestChannelSeq_Some[OF assms Some]
  have "(\<exists>m\<in>set ms. inChannel m)" "Max (m_seq ` {m \<in> set ms. inChannel m}) = s"
    by (auto intro!: Max_eqI)
  with Some show ?thesis by simp
qed

theorem newest_channel_seq_is_max_witness:
  "newestChannelSeq [sample_message ''a'' 1 1, sample_reply ''a'' ''b'' 2 1] =
     (if \<exists>m\<in>set [sample_message ''a'' 1 1, sample_reply ''a'' ''b'' 2 1]. inChannel m
      then Some (Max (m_seq ` {m \<in> set [sample_message ''a'' 1 1, sample_reply ''a'' ''b'' 2 1]. inChannel m})) else None)"
  by (rule newest_channel_seq_is_max) (simp add: timeline_wf_def sample_reply_def)

end
