(* ===== verification/RoomRules.thy ===== *)
theory RoomRules
  imports Messages
begin

text \<open>
  The figures of a room in the list (\<open>web/lib/chat/rules/messages.ts\<close>, second half): the last message,
  the unread and mention counts, the read position and the order by activity.
\<close>

definition mentionsUser :: "mention list \<Rightarrow> ident \<Rightarrow> bool" where
  "mentionsUser mentions userId = some_in (\<lambda>m. if mn_kind m = MentionUser
     then map_option u_id (mn_user m) = Some userId else True) mentions"

definition toLastMessage :: "message \<Rightarrow> last_message" where
  "toLastMessage message =
     \<lparr>lm_id = m_id message, lm_sender = m_sender message, lm_kind = m_kind message,
      lm_system = m_system message, lm_body = m_body message, lm_created_at = m_created_at message,
      lm_deleted = (m_deleted_at message \<noteq> None)\<rparr>"

definition applyMessageToRoom :: "room \<Rightarrow> message \<Rightarrow> ident \<Rightarrow> bool \<Rightarrow> room" where
  "applyMessageToRoom room message userId created =
     (if \<not> inChannel message then room
      else if \<not> created then
        (if map_option lm_id (r_last_message room) \<noteq> Some (m_id message) then room
         else if m_deleted_at message \<noteq> None then room\<lparr>r_last_message := None\<rparr>
         else room\<lparr>r_last_message := Some (toLastMessage message)\<rparr>)
      else if m_seq message \<le> r_last_message_seq room then room
      else
        let mine = (u_id (m_sender message) = userId \<and> m_kind message = UserMessage);
            lastReadSeq = (if r_last_read_seq room \<noteq> None \<and> mine then Some (m_seq message) else r_last_read_seq room);
            lastReadUserSeq = (if r_last_read_user_seq room \<noteq> None \<and> mine
                               then Some (m_user_seq message) else r_last_read_user_seq room)
        in room\<lparr>r_last_message_seq := m_seq message,
                r_last_user_seq := m_user_seq message,
                r_last_message_at := Some (m_created_at message),
                r_last_message := Some (toLastMessage message),
                r_last_read_seq := lastReadSeq,
                r_last_read_user_seq := lastReadUserSeq,
                r_unread_count := (case lastReadUserSeq of None \<Rightarrow> r_unread_count room
                                   | Some k \<Rightarrow> m_user_seq message - k),
                r_mention_count := (if \<not> mine \<and> mentionsUser (m_mentions message) userId
                                    then r_mention_count room + 1 else r_mention_count room)\<rparr>)"

definition applyReadToRoom :: "room \<Rightarrow> int \<Rightarrow> int \<Rightarrow> int \<Rightarrow> room" where
  "applyReadToRoom room lastReadSeq lastReadUserSeq mentionCount =
     (case (r_last_read_seq room, r_last_read_user_seq room) of
        (Some rs, Some ru) \<Rightarrow>
          let nextSeq = max rs lastReadSeq;
              nextUser = max ru lastReadUserSeq;
              unread = max 0 (r_last_user_seq room - nextUser);
              advanced = (nextSeq > rs \<or> nextUser > ru);
              mention = (if advanced then mentionCount else r_mention_count room)
          in if nextSeq = rs \<and> nextUser = ru \<and> unread = r_unread_count room \<and> mention = r_mention_count room
             then room
             else room\<lparr>r_last_read_seq := Some nextSeq, r_last_read_user_seq := Some nextUser,
                       r_unread_count := unread, r_mention_count := mention\<rparr>
      | _ \<Rightarrow> room)"

definition activity_at :: "(ident, room) jsrec \<Rightarrow> ident \<Rightarrow> int option" where
  \<comment> \<open>\<open>Date.parse(rooms[id]?.last_message_at ?? "1970-01-01T00:00:00Z")\<close>\<close>
  "activity_at rooms i =
     date_parse (case Option.bind (rget rooms i) r_last_message_at of
                   None \<Rightarrow> ''1970-01-01T00:00:00Z'' | Some t \<Rightarrow> t)"

definition before :: "int option \<Rightarrow> int option \<Rightarrow> bool" where
  \<comment> \<open>\<open><\<close> on numbers that may be NaN.\<close>
  "before a b = (case (a, b) of (Some x, Some y) \<Rightarrow> x < y | _ \<Rightarrow> False)"

definition insertByActivity :: "ident list \<Rightarrow> room \<Rightarrow> (ident, room) jsrec \<Rightarrow> ident list" where
  "insertByActivity is room rooms =
     (let without = filter (\<lambda>i. i \<noteq> r_id room) is;
          index = (case r_last_message_at room of None \<Rightarrow> None
                   | Some t \<Rightarrow> find_index (\<lambda>i. before (activity_at rooms i) (date_parse t)) without)
      in case index of None \<Rightarrow> without @ [r_id room]
         | Some i \<Rightarrow> take i without @ [r_id room] @ drop i without)"

section \<open>A read position\<close>

text \<open>
  Several parts of the store keep a read position that responses and events move: rooms, the list of
  followed threads, open threads. Their contract is that a position only moves forward; the lemmas
  are proved once from it.
\<close>

locale read_position =
  fixes advance :: "int \<Rightarrow> 's \<Rightarrow> 's"
    and position :: "'s \<Rightarrow> int option"
  assumes position_advance: "position (advance n s) = map_option (\<lambda>k. max k n) (position s)"
begin

lemma never_back: "position s = Some k \<Longrightarrow> \<exists>k'. position (advance n s) = Some k' \<and> k \<le> k'"
  by (simp add: position_advance)

lemma advance_order: "position (advance m (advance n s)) = position (advance n (advance m s))"
  by (cases "position s") (simp_all add: position_advance max.commute max.left_commute)

lemma advance_stale: "position s = Some k \<Longrightarrow> n \<le> k \<Longrightarrow> position (advance n s) = position s"
  by (simp add: position_advance)

lemma advance_all:
  "position (fold advance ns s) = map_option (\<lambda>k. fold (\<lambda>n k. max k n) ns k) (position s)"
  by (induction ns arbitrary: s) (simp_all add: position_advance option.map_comp option.map_id comp_def)

lemma advance_all_max:
  assumes "position s = Some k"
  shows "position (fold advance ns s) = Some (Max (set (k # ns)))"
proof -
  have "fold (\<lambda>n k. max k n) ns k = fold max ns k" for k
    by (induction ns arbitrary: k) (simp_all add: max.commute)
  then show ?thesis using assms by (simp add: advance_all Max.set_eq_fold del: list.set)
qed

end

section \<open>Messages and reads against a room\<close>

lemma applyMessage_keys [simp]:
  "r_id (applyMessageToRoom room m u c) = r_id room"
  "r_workspace_id (applyMessageToRoom room m u c) = r_workspace_id room"
  "r_kind (applyMessageToRoom room m u c) = r_kind room"
  by (simp_all add: applyMessageToRoom_def Let_def)

lemma applyRead_Some:
  \<comment> \<open>The test that keeps the old object writes nothing new.\<close>
  assumes "r_last_read_seq room = Some rs" "r_last_read_user_seq room = Some ru"
  shows "applyReadToRoom room a b c = room\<lparr>r_last_read_seq := Some (max rs a),
    r_last_read_user_seq := Some (max ru b), r_unread_count := max 0 (r_last_user_seq room - max ru b),
    r_mention_count := (if max rs a > rs \<or> max ru b > ru then c else r_mention_count room)\<rparr>"
  using assms unfolding applyReadToRoom_def by (cases room) (auto simp: Let_def)

lemma applyRead_None:
  "r_last_read_seq room = None \<Longrightarrow> applyReadToRoom room a b c = room"
  "r_last_read_user_seq room = None \<Longrightarrow> applyReadToRoom room a b c = room"
  by (simp_all add: applyReadToRoom_def split: option.splits)

lemma applyRead_cases:
  obtains (member) rs ru where "r_last_read_seq room = Some rs" "r_last_read_user_seq room = Some ru"
    | (other) "\<And>a b c. applyReadToRoom room a b c = room"
      "r_last_read_seq room = None \<or> r_last_read_user_seq room = None"
  by (cases "r_last_read_seq room"; cases "r_last_read_user_seq room") (auto simp: applyRead_None)

lemma applyRead_keys [simp]:
  "r_id (applyReadToRoom room a b c) = r_id room"
  "r_workspace_id (applyReadToRoom room a b c) = r_workspace_id room"
  "r_last_message_seq (applyReadToRoom room a b c) = r_last_message_seq room"
  "r_last_user_seq (applyReadToRoom room a b c) = r_last_user_seq room"
  by (cases room rule: applyRead_cases; simp add: applyRead_Some)+

lemma applyMessage_seq:
  "r_last_message_seq (applyMessageToRoom room m u c) =
     (if inChannel m \<and> c then max (r_last_message_seq room) (m_seq m) else r_last_message_seq room)"
  by (auto simp: applyMessageToRoom_def Let_def)

lemma applyMessage_redelivered:
  "applyMessageToRoom (applyMessageToRoom room m u True) m u True = applyMessageToRoom room m u True"
  by (simp add: applyMessageToRoom_def Let_def)

lemma applyMessage_late:
  "m_seq m \<le> r_last_message_seq room \<Longrightarrow> applyMessageToRoom room m u True = room"
  by (simp add: applyMessageToRoom_def)

lemma applyMessage_thread_only: "\<not> inChannel m \<Longrightarrow> applyMessageToRoom room m u c = room"
  by (simp add: applyMessageToRoom_def)

definition unread_ok :: "room \<Rightarrow> bool" where
  \<comment> \<open>The unread count is what the two counters say.\<close>
  "unread_ok room \<longleftrightarrow> (\<forall>k. r_last_read_user_seq room = Some k \<longrightarrow>
     r_unread_count room = max 0 (r_last_user_seq room - k))"

lemma unread_ok_message:
  assumes "unread_ok room" "\<And>k. r_last_read_user_seq room = Some k \<Longrightarrow> k \<le> m_user_seq m"
  shows "unread_ok (applyMessageToRoom room m u c)"
  using assms unfolding unread_ok_def applyMessageToRoom_def Let_def
  by (cases "r_last_read_user_seq room") simp_all

lemma unread_ok_read: "unread_ok room \<Longrightarrow> unread_ok (applyReadToRoom room a b c)"
  by (cases room rule: applyRead_cases) (auto simp: unread_ok_def applyRead_Some)

lemma unread_own_message:
  "inChannel m \<Longrightarrow> r_last_message_seq room < m_seq m \<Longrightarrow> u_id (m_sender m) = u \<Longrightarrow> m_kind m = UserMessage \<Longrightarrow>
   r_last_read_user_seq room \<noteq> None \<Longrightarrow> r_unread_count (applyMessageToRoom room m u True) = 0"
  by (auto simp: applyMessageToRoom_def Let_def)

lemma applyRead_position:
  assumes "r_last_read_seq room \<noteq> None"
  shows "r_last_read_user_seq (applyReadToRoom room a b c) = map_option (\<lambda>k. max k b) (r_last_read_user_seq room)"
  using assms by (cases "r_last_read_user_seq room") (auto simp: applyRead_Some applyRead_None)

lemma applyRead_seq:
  assumes "r_last_read_user_seq room \<noteq> None"
  shows "r_last_read_seq (applyReadToRoom room a b c) = map_option (\<lambda>k. max k a) (r_last_read_seq room)"
  using assms by (cases "r_last_read_seq room") (auto simp: applyRead_Some applyRead_None)

text \<open>
  As a read position: the pair of positions of a member's room, moved by a response whose two numbers
  are the same reading (the list only has to know the position it moves).
\<close>

definition read_seq_position :: "room \<Rightarrow> int option" where
  "read_seq_position room = (case r_last_read_user_seq room of None \<Rightarrow> None | Some _ \<Rightarrow> r_last_read_seq room)"

definition read_user_position :: "room \<Rightarrow> int option" where
  "read_user_position room = (case r_last_read_seq room of None \<Rightarrow> None | Some _ \<Rightarrow> r_last_read_user_seq room)"

lemma read_position_advance:
  "read_seq_position (applyReadToRoom s n b c) = map_option (\<lambda>k. max k n) (read_seq_position s)"
  "read_user_position (applyReadToRoom s a n c) = map_option (\<lambda>k. max k n) (read_user_position s)"
  by (cases s rule: applyRead_cases;
      auto simp: read_seq_position_def read_user_position_def applyRead_Some split: option.splits)+

interpretation room_seq: read_position "\<lambda>n room. applyReadToRoom room n b c" read_seq_position
  for b c
  by unfold_locales (rule read_position_advance)

interpretation room_user: read_position "\<lambda>n room. applyReadToRoom room a n c" read_user_position
  for a c
  by unfold_locales (rule read_position_advance)

lemma applyRead_stale:
  \<comment> \<open>A response older than what is known changes nothing in a consistent room.\<close>
  assumes "unread_ok room" "r_last_read_seq room = Some rs" "r_last_read_user_seq room = Some ru" "a \<le> rs" "b \<le> ru"
  shows "applyReadToRoom room a b c = room"
proof -
  have "r_unread_count room = max 0 (r_last_user_seq room - ru)"
    using assms(1,3) by (simp add: unread_ok_def)
  with assms(2-5) show ?thesis by (simp add: applyReadToRoom_def max_absorb1)
qed

lemma applyRead_idem:
  "applyReadToRoom (applyReadToRoom room a b c) a b c = applyReadToRoom room a b c"
  by (cases room rule: applyRead_cases) (simp_all add: applyRead_Some)

section \<open>Order by activity\<close>

definition by_activity :: "(ident, room) jsrec \<Rightarrow> ident \<Rightarrow> ident \<Rightarrow> int" where
  \<comment> \<open>Newest first.\<close>
  "by_activity rooms a b = the (activity_at rooms b) - the (activity_at rooms a)"

interpretation by_act: comparator "by_activity rooms" "\<lambda>_. True"
  for rooms
  by unfold_locales (auto simp: by_activity_def)

definition activity_sorted :: "(ident, room) jsrec \<Rightarrow> ident list \<Rightarrow> bool" where
  "activity_sorted rooms is \<longleftrightarrow> sorted_wrt (\<lambda>a b. by_activity rooms a b \<le> 0) is"

lemma insertByActivity_set: "set (insertByActivity is room rooms) = insert (r_id room) (set is)"
proof -
  have "set (take i xs) \<union> set (drop i xs) = set xs" for i and xs :: "ident list"
    by (metis append_take_drop_id set_append)
  then show ?thesis
    by (auto simp: insertByActivity_def Let_def split: option.splits)
qed

lemma insertByActivity_distinct: "distinct is \<Longrightarrow> distinct (insertByActivity is room rooms)"
proof -
  assume d: "distinct is"
  have cut: "distinct (take i xs @ x # drop i xs)" if "distinct xs" "x \<notin> set xs" for i x and xs :: "ident list"
    using that by (metis append_take_drop_id distinct_append distinct.simps(2) Un_iff
      set_append disjoint_insert(2) list.simps(15))
  have "distinct (filter (\<lambda>i. i \<noteq> r_id room) is)" "r_id room \<notin> set (filter (\<lambda>i. i \<noteq> r_id room) is)"
    using d by simp_all
  then show ?thesis
    using cut[of "filter (\<lambda>i. i \<noteq> r_id room) is" "r_id room"]
    by (simp add: insertByActivity_def Let_def split: option.splits)
qed

lemma insertByActivity_sorted:
  assumes "activity_sorted rooms is"
    and "rget rooms (r_id room) = Some room" "r_last_message_at room = Some t"
    and known: "\<forall>i\<in>insert (r_id room) (set is). activity_at rooms i \<noteq> None"
  shows "activity_sorted rooms (insertByActivity is room rooms)"
proof -
  let ?w = "filter (\<lambda>i. i \<noteq> r_id room) is"
  let ?P = "\<lambda>i. before (activity_at rooms i) (date_parse t)"
  have room: "activity_at rooms (r_id room) = date_parse t"
    using assms(2,3) by (simp add: activity_at_def)
  have less: "?P i \<longleftrightarrow> by_activity rooms (r_id room) i < 0" if "i \<in> set is" for i
    using that known room by (force simp: before_def by_activity_def split: option.splits)
  have "sorted_wrt (\<lambda>a b. by_activity rooms a b \<le> 0) ?w"
    using assms(1) by (simp add: activity_sorted_def sorted_wrt_filter)
  from by_act.insert_before_sorted[OF this, of "r_id room"]
  have s: "activity_sorted rooms (takeWhile (\<lambda>y. \<not> by_activity rooms (r_id room) y < 0) ?w
      @ r_id room # dropWhile (\<lambda>y. \<not> by_activity rooms (r_id room) y < 0) ?w)"
    by (simp add: activity_sorted_def)
  have cut: "takeWhile (\<lambda>i. \<not> ?P i) ?w = takeWhile (\<lambda>y. \<not> by_activity rooms (r_id room) y < 0) ?w"
    "dropWhile (\<lambda>i. \<not> ?P i) ?w = dropWhile (\<lambda>y. \<not> by_activity rooms (r_id room) y < 0) ?w"
    using less by (auto intro!: takeWhile_cong dropWhile_cong)
  have "insertByActivity is room rooms
      = takeWhile (\<lambda>i. \<not> ?P i) ?w @ r_id room # dropWhile (\<lambda>i. \<not> ?P i) ?w"
  proof (cases "find_index ?P ?w")
    case None
    with find_index_none_split[OF None] show ?thesis
      by (simp only: insertByActivity_def assms(3) Let_def option.case append_Nil2)
  next
    case (Some i)
    with find_index_split[OF Some] show ?thesis
      by (simp only: insertByActivity_def assms(3) Let_def option.case append.simps)
  qed
  with s show ?thesis by (simp only: cut)
qed

section \<open>Properties\<close>

text \<open>a message may be delivered twice (the answer to one's own send and its event): the second time changes
  nothing in the room's row.\<close>

theorem room_redelivery_ignored:
  "applyMessageToRoom (applyMessageToRoom room message userId True) message userId True =
     applyMessageToRoom room message userId True"
  by (rule applyMessage_redelivered)

text \<open>the unread count of a room stays the number of user messages after the read position when messages
  arrive and when reads are acknowledged, as long as no message is older than the read position.\<close>

theorem unread_count_invariant:
  assumes "unread_ok room" "\<And>k. r_last_read_user_seq room = Some k \<Longrightarrow> k \<le> m_user_seq message"
  shows "unread_ok (applyMessageToRoom room message userId created) \<and> unread_ok (applyReadToRoom room a b mentions)"
  using assms by (simp add: unread_ok_message unread_ok_read)

theorem unread_count_invariant_witness:
  "unread_ok (applyMessageToRoom (sample_room ''r'') (sample_message ''m'' 4 4) ''u'' True) \<and>
   unread_ok (applyReadToRoom (sample_room ''r'') 3 3 0)"
  by (rule unread_count_invariant) (simp_all add: samples unread_ok_def)

text \<open>without that the count goes below zero: a read acknowledged for a message that has not arrived yet,
  followed by that message's predecessor.\<close>

theorem unread_count_below_zero:
  "r_unread_count (applyMessageToRoom (applyReadToRoom (sample_room ''r'') 9 9 0) (sample_message ''m'' 4 4) ''u'' True) < 0"
  by (simp add: samples applyMessageToRoom_def applyReadToRoom_def inChannel_def mentionsUser_def some_in_def Let_def)

text \<open>the read position of a room is the largest position acknowledged, whatever the order, number and
  repetition of the acknowledgements (answers and events); it never goes back.\<close>

theorem read_position_is_max:
  assumes "r_last_read_seq room = Some k" "r_last_read_user_seq room \<noteq> None"
  shows "r_last_read_seq (fold (\<lambda>n room. applyReadToRoom room n b mentions) ns room) = Some (Max (set (k # ns)))"
proof -
  have "read_seq_position room = Some k" using assms by (auto simp: read_seq_position_def)
  from room_seq.advance_all_max[OF this, of b mentions ns] show ?thesis
    by (auto simp: read_seq_position_def split: option.splits)
qed

theorem read_position_is_max_witness:
  "r_last_read_seq (fold (\<lambda>n room. applyReadToRoom room n 2 0) [2, 3, 2] (sample_room ''r'')) = Some (Max (set [1, 2, 3, 2]))"
  by (rule read_position_is_max) (simp_all add: samples)

text \<open>a room that joins the sidebar is placed so that the list stays ordered by the last message, newest first,
  and stays without repetitions.\<close>

theorem sidebar_stays_sorted:
  assumes "activity_sorted rooms is" "distinct is" "rget rooms (r_id room) = Some room" "r_last_message_at room = Some t"
    and "\<forall>i\<in>insert (r_id room) (set is). activity_at rooms i \<noteq> None"
  shows "activity_sorted rooms (insertByActivity is room rooms) \<and> distinct (insertByActivity is room rooms) \<and>
    set (insertByActivity is room rooms) = insert (r_id room) (set is)"
  using assms insertByActivity_sorted insertByActivity_distinct insertByActivity_set by blast

theorem sidebar_stays_sorted_witness:
  "let x = sample_room ''x''; y = (sample_room ''y'')\<lparr>r_last_message_at := Some ''2026-01-02T00:00:00Z''\<rparr>;
       rooms = rput ''x'' x (rput ''y'' y [])
   in activity_sorted rooms (insertByActivity [''x''] y rooms) \<and> distinct (insertByActivity [''x''] y rooms) \<and>
      set (insertByActivity [''x''] y rooms) = insert (r_id y) (set [''x''])"
  unfolding Let_def
  by (rule sidebar_stays_sorted) (simp_all add: samples activity_at_def activity_sorted_def sample_times)

end
