(* ===== verification/ThreadRules.thy ===== *)
theory ThreadRules
  imports RoomRules
begin

text \<open>
  Threads (\<open>web/lib/chat/rules/threads.ts\<close>): merging replies, and the list of followed threads with its
  unread and mention counts, its order and the badge.
\<close>

definition mergeReply :: "message \<Rightarrow> (ident \<times> message) list \<Rightarrow> (ident \<times> message) list" where
  "mergeReply message byId =
     (case map_of byId (m_id message) of
        None \<Rightarrow> AList.update (m_id message) message byId
      | Some existing \<Rightarrow> if m_change_seq existing \<le> m_change_seq message
                         then AList.update (m_id message) message byId else byId)"

definition mergeReplies :: "message list \<Rightarrow> message list \<Rightarrow> message list" where
  "mergeReplies current incoming =
     js_sort (\<lambda>a b. m_seq a - m_seq b) (map snd (fold mergeReply incoming (indexById current)))"

definition mergeRepliesIntoWindow :: "message list \<Rightarrow> bool \<Rightarrow> bool \<Rightarrow> message list \<Rightarrow> message list" where
  "mergeRepliesIntoWindow current hasOlder hasNewer incoming =
     (let inside = filter (inWindow hasOlder hasNewer current) incoming
      in if inside = [] then current else mergeReplies current inside)"

definition withUnread :: "followed_thread \<Rightarrow> followed_thread" where
  "withUnread thread =
     (let unread = max 0 (ft_last_thread_seq thread - ft_last_read_thread_seq thread)
      in if unread = ft_unread_count thread then thread else thread\<lparr>ft_unread_count := unread\<rparr>)"

definition byLastReply :: "followed_thread \<Rightarrow> followed_thread \<Rightarrow> int" where
  \<comment> \<open>A difference with NaN makes the comparator return NaN, which a sort reads as 0.\<close>
  "byLastReply a b =
     (case (date_parse (ft_last_reply_at b), date_parse (ft_last_reply_at a)) of
        (Some x, Some y) \<Rightarrow> (let diff = x - y in if diff \<noteq> 0 then diff
                             else localeCompare (lm_id (ft_root b)) (lm_id (ft_root a)))
      | _ \<Rightarrow> 0)"

definition thread_index :: "followed_thread list \<Rightarrow> ident \<Rightarrow> nat option" where
  "thread_index threads rootId = find_index (\<lambda>t. lm_id (ft_root t) = rootId) threads"

definition applyRootToThreads :: "followed_thread list \<Rightarrow> message \<Rightarrow> followed_thread list" where
  "applyRootToThreads threads root =
     (case (thread_index threads (m_id root), m_thread root) of
        (Some index, Some summary) \<Rightarrow>
          let current = threads ! index in
          if ts_last_thread_seq summary < ft_last_thread_seq current then threads
          else
            let nxt = withUnread (current\<lparr>
                 ft_root := (ft_root current)\<lparr>lm_body := m_body root, lm_deleted := (m_deleted_at root \<noteq> None)\<rparr>,
                 ft_reply_count := ts_reply_count summary,
                 ft_last_thread_seq := ts_last_thread_seq summary,
                 ft_last_reply_at := ts_last_reply_at summary\<rparr>)
            in js_sort byLastReply (threads[index := nxt])
      | _ \<Rightarrow> threads)"

definition applyThreadRead :: "followed_thread list \<Rightarrow> ident \<Rightarrow> int \<Rightarrow> followed_thread list" where
  "applyThreadRead threads rootId lastReadThreadSeq =
     (case thread_index threads rootId of
        None \<Rightarrow> threads
      | Some index \<Rightarrow>
          let current = threads ! index in
          if ft_last_read_thread_seq current \<ge> lastReadThreadSeq then threads
          else
            let nxt = withUnread (current\<lparr>ft_last_read_thread_seq := lastReadThreadSeq\<rparr>);
                read = (if ft_unread_count nxt = 0 \<and> ft_mention_count nxt > 0
                        then nxt\<lparr>ft_mention_count := 0\<rparr> else nxt)
            in threads[index := read])"

definition applyReplyToThreads :: "followed_thread list \<Rightarrow> message \<Rightarrow> ident \<Rightarrow> followed_thread list" where
  "applyReplyToThreads threads reply userId =
     (case (Option.bind (m_thread_root_id reply) (thread_index threads), m_thread_seq reply) of
        (Some index, Some seq) \<Rightarrow>
          let current = threads ! index in
          if seq \<le> ft_last_thread_seq current then threads
          else
            let mentioned = (u_id (m_sender reply) \<noteq> userId \<and> mentionsUser (m_mentions reply) userId);
                nxt = withUnread (current\<lparr>ft_last_thread_seq := seq,
                        ft_mention_count := (if mentioned then ft_mention_count current + 1
                                             else ft_mention_count current)\<rparr>)
            in threads[index := nxt]
      | _ \<Rightarrow> threads)"

definition applyThreadNotify :: "followed_thread list \<Rightarrow> ident \<Rightarrow> bool \<Rightarrow> followed_thread list" where
  "applyThreadNotify threads rootId notify =
     (case thread_index threads rootId of
        None \<Rightarrow> threads
      | Some index \<Rightarrow>
          if ft_notify_replies (threads ! index) = notify then threads
          else threads[index := (threads ! index)\<lparr>ft_notify_replies := notify\<rparr>])"

definition countUnreadThreads :: "followed_thread list \<Rightarrow> nat" where
  "countUnreadThreads threads =
     length (filter (\<lambda>t. ft_unread_count t > 0 \<and> (ft_notify_replies t \<or> ft_mention_count t > 0)) threads)"

section \<open>Replies keep the versioned contract\<close>

definition pickReply :: "message \<Rightarrow> message \<Rightarrow> message" where
  "pickReply e m = (if m_change_seq e \<le> m_change_seq m then m else e)"

lemma mergeReply_vstep: "mergeReply = vstep pickReply"
  by (auto simp: fun_eq_iff mergeReply_def vstep_def pickReply_def alist_update_same split: option.splits)

interpretation mr: versioned_merge mergeReplies pickReply "\<lambda>m. m"
proof
  show "mergeReplies cur inc = sort_key m_seq (map snd (fold (vstep pickReply) inc (indexById cur)))" for cur inc
    by (simp add: mergeReplies_def js_sort_key mergeReply_vstep)
qed (auto simp: pickReply_def)

lemma mergeRepliesIntoWindow_windowed: "mergeRepliesIntoWindow = windowed mergeReplies"
  by (simp add: fun_eq_iff mergeRepliesIntoWindow_def windowed_def)

lemmas mergeRepliesIntoWindow_wf = mr.windowed_wf[folded mergeRepliesIntoWindow_windowed]
  and covers_mergeRepliesIntoWindow = mr.covers_windowed[folded mergeRepliesIntoWindow_windowed]
  and mergeRepliesIntoWindow_inside = mr.windowed_inside[folded mergeRepliesIntoWindow_windowed]
  and mergeRepliesIntoWindow_no_regress = mr.windowed_no_regress[folded mergeRepliesIntoWindow_windowed]

section \<open>The list of followed threads\<close>

definition thread_ok :: "followed_thread \<Rightarrow> bool" where
  "thread_ok t \<longleftrightarrow> ft_unread_count t = max 0 (ft_last_thread_seq t - ft_last_read_thread_seq t)"

definition roots :: "followed_thread list \<Rightarrow> ident list" where
  "roots threads = map (\<lambda>t. lm_id (ft_root t)) threads"

definition threads_ok :: "followed_thread list \<Rightarrow> bool" where
  "threads_ok threads \<longleftrightarrow> distinct (roots threads) \<and> list_all thread_ok threads"

lemma withUnread_eq: "withUnread t = t\<lparr>ft_unread_count := max 0 (ft_last_thread_seq t - ft_last_read_thread_seq t)\<rparr>"
  by (cases t) (auto simp: withUnread_def Let_def)

lemma withUnread_ok [simp]: "thread_ok (withUnread t)"
  by (simp add: withUnread_eq thread_ok_def)

lemma withUnread_root [simp]: "ft_root (withUnread t) = ft_root t"
  by (simp add: withUnread_eq)

lemma roots_update: "lm_id (ft_root x) = lm_id (ft_root (ts ! i)) \<Longrightarrow> roots (ts[i := x]) = roots ts"
  by (cases "i < length ts") (auto simp: roots_def map_update list_update_same_conv list_update_beyond)

lemma threads_ok_update:
  "threads_ok ts \<Longrightarrow> lm_id (ft_root x) = lm_id (ft_root (ts ! i)) \<Longrightarrow> thread_ok x \<Longrightarrow> threads_ok (ts[i := x])"
  by (auto simp: threads_ok_def roots_update list_all_iff dest: set_update_subset_insert[THEN subsetD])

lemma threads_ok_sort: "threads_ok (js_sort cmp ts) = threads_ok ts"
  by (simp add: threads_ok_def roots_def list_all_iff)

lemma applyRootToThreads_ok: "threads_ok ts \<Longrightarrow> threads_ok (applyRootToThreads ts m)"
  by (auto simp: applyRootToThreads_def Let_def threads_ok_sort split: option.splits intro!: threads_ok_update)

lemma applyThreadRead_ok: "threads_ok ts \<Longrightarrow> threads_ok (applyThreadRead ts r n)"
  by (auto simp: applyThreadRead_def Let_def withUnread_eq thread_ok_def split: option.splits intro!: threads_ok_update)

lemma applyReplyToThreads_ok: "threads_ok ts \<Longrightarrow> threads_ok (applyReplyToThreads ts m u)"
  by (auto simp: applyReplyToThreads_def Let_def split: option.splits intro!: threads_ok_update)

lemma applyThreadNotify_ok: "threads_ok ts \<Longrightarrow> threads_ok (applyThreadNotify ts r b)"
  by (auto simp: applyThreadNotify_def threads_ok_def list_all_iff thread_ok_def find_index_Some thread_index_def
      split: option.splits intro!: threads_ok_update[unfolded threads_ok_def list_all_iff, THEN conjunct1]
      dest: set_update_subset_insert[THEN subsetD] find_index_Some)

text \<open>The read position of one thread in the list.\<close>

definition find_thread :: "followed_thread list \<Rightarrow> ident \<Rightarrow> followed_thread option" where
  "find_thread ts rootId = map_option (\<lambda>i. ts ! i) (thread_index ts rootId)"

lemma thread_index_Some:
  "thread_index ts r = Some i \<Longrightarrow> i < length ts \<and> lm_id (ft_root (ts ! i)) = r"
  by (auto simp: thread_index_def dest: find_index_Some)

lemma thread_index_update:
  assumes "thread_index ts r = Some i" "lm_id (ft_root x) = r"
  shows "thread_index (ts[i := x]) r = Some i"
  using assms unfolding thread_index_def
  by (induction ts arbitrary: i) (auto split: if_splits nat.splits)

lemma find_thread_update:
  assumes "thread_index ts r = Some i" "lm_id (ft_root x) = r"
  shows "find_thread (ts[i := x]) r = Some x"
  using thread_index_update[OF assms] thread_index_Some[OF assms(1)] by (simp add: find_thread_def)

lemma find_thread_index: "find_thread ts r = Some t \<longleftrightarrow> (\<exists>i. thread_index ts r = Some i \<and> ts ! i = t)"
  by (auto simp: find_thread_def)

definition thread_position :: "ident \<Rightarrow> followed_thread list \<Rightarrow> int option" where
  "thread_position r ts = map_option ft_last_read_thread_seq (find_thread ts r)"

lemma applyThreadRead_find:
  "find_thread (applyThreadRead ts r n) r = map_option (\<lambda>t. if ft_last_read_thread_seq t \<ge> n then t else
     (let nxt = withUnread (t\<lparr>ft_last_read_thread_seq := n\<rparr>)
      in if ft_unread_count nxt = 0 \<and> ft_mention_count nxt > 0 then nxt\<lparr>ft_mention_count := 0\<rparr> else nxt))
     (find_thread ts r)"
proof (cases "thread_index ts r")
  case None
  then show ?thesis by (simp add: applyThreadRead_def find_thread_def)
next
  case (Some i)
  then have "lm_id (ft_root (ts ! i)) = r" by (simp add: thread_index_Some)
  with Some show ?thesis
    by (auto simp: applyThreadRead_def Let_def find_thread_update) (simp_all add: find_thread_def)
qed

interpretation thread_read: read_position "\<lambda>n ts. applyThreadRead ts r n" "thread_position r"
  for r
  by unfold_locales (auto simp: thread_position_def applyThreadRead_find option.map_comp comp_def
    withUnread_eq Let_def max_def intro!: option.map_cong)

lemma applyReply_redelivered:
  "applyReplyToThreads (applyReplyToThreads ts m u) m u = applyReplyToThreads ts m u"
proof (cases "Option.bind (m_thread_root_id m) (thread_index ts)")
  case None
  then show ?thesis by (simp add: applyReplyToThreads_def)
next
  case (Some i)
  then obtain r where r: "m_thread_root_id m = Some r" "thread_index ts r = Some i"
    by (auto simp: bind_eq_Some_conv)
  note ix = thread_index_Some[OF r(2)]
  have "thread_index (ts[i := x]) r = Some i" if "lm_id (ft_root x) = r" for x
    using thread_index_update[OF r(2) that] .
  with r ix show ?thesis
    by (cases "m_thread_seq m") (simp_all add: applyReplyToThreads_def Let_def withUnread_eq)
qed

lemma applyRoot_stale:
  "find_thread ts (m_id m) = Some t \<Longrightarrow> m_thread m = Some s \<Longrightarrow> ts_last_thread_seq s < ft_last_thread_seq t \<Longrightarrow>
   applyRootToThreads ts m = ts"
  by (auto simp: applyRootToThreads_def find_thread_index)

interpretation last_reply: comparator byLastReply "\<lambda>t. date_parse (ft_last_reply_at t) \<noteq> None"
proof
  fix a b :: followed_thread
  assume "date_parse (ft_last_reply_at a) \<noteq> None" "date_parse (ft_last_reply_at b) \<noteq> None"
  then show "byLastReply b a = - byLastReply a b"
    by (auto simp: byLastReply_def Let_def intro: localeCompare_flip)
next
  fix a b c :: followed_thread
  assume "date_parse (ft_last_reply_at a) \<noteq> None" "date_parse (ft_last_reply_at b) \<noteq> None"
    "date_parse (ft_last_reply_at c) \<noteq> None" "byLastReply a b \<le> 0" "byLastReply b c \<le> 0"
  then show "byLastReply a c \<le> 0"
    by (auto simp: byLastReply_def Let_def localeCompare_le split: if_splits)
qed

lemma applyRoot_sorted:
  assumes "\<forall>t\<in>set ts. date_parse (ft_last_reply_at t) \<noteq> None"
    and "\<And>s. m_thread m = Some s \<Longrightarrow> date_parse (ts_last_reply_at s) \<noteq> None"
    and "sorted_wrt (\<lambda>a b. byLastReply a b \<le> 0) ts"
  shows "sorted_wrt (\<lambda>a b. byLastReply a b \<le> 0) (applyRootToThreads ts m)"
proof -
  have "sorted_wrt (\<lambda>a b. byLastReply a b \<le> 0) (js_sort byLastReply (ts[i := x]))"
    if "date_parse (ft_last_reply_at x) \<noteq> None" for i x
    using that assms(1) by (intro last_reply.sort_sorted) (auto dest: set_update_subset_insert[THEN subsetD])
  then show ?thesis
    using assms(2,3) by (auto simp: applyRootToThreads_def Let_def withUnread_eq split: option.splits)
qed

section \<open>Properties\<close>

text \<open>the replies a thread shows depend only on the set of versions seen, not on the order or the way they were
  fetched and delivered.\<close>

theorem replies_merge_order_independent:
  assumes "distinct (map m_id cur)" "distinct (map m_id cur')" "set cur \<union> set inc = set cur' \<union> set inc'"
    and "versions_agree (\<lambda>m. m) (set cur \<union> set inc)"
  shows "mergeReplies cur inc = mergeReplies cur' inc'"
  using mr.merge_converges[OF assms] by simp

theorem replies_merge_order_independent_witness:
  "let a = sample_reply ''t'' ''a'' 2 1; b = sample_reply ''t'' ''b'' 3 2
   in mergeReplies [a] [b, a] = mergeReplies [] [b, a, b]"
  unfolding Let_def
  by (rule replies_merge_order_independent) (auto simp: versions_agree_def sample_reply_def)

text \<open>merging replies drops the viewer's own marks that a broadcast does not carry, which the merge of the
  channel keeps: an edit of a reply takes away the viewer's reaction mark.\<close>

theorem replies_merge_drops_marks:
  "let held = (sample_reply ''t'' ''a'' 2 1)\<lparr>m_reactions := [\<lparr>re_emoji = ''ok'', re_count = 1, re_me = Some True, re_users = []\<rparr>]\<rparr>;
       broadcast = held\<lparr>m_change_seq := 5, m_reactions := [\<lparr>re_emoji = ''ok'', re_count = 1, re_me = None, re_users = []\<rparr>]\<rparr>
   in map (\<lambda>m. marked (m_reactions m) ''ok'') (mergeReplies [held] [broadcast]) = [False] \<and>
      map (\<lambda>m. marked (m_reactions m) ''ok'') (mergeMessages [held] [broadcast]) = [True]"
  by (simp add: Let_def samples mergeReplies_def mergeReply_def mergeMessages_def mergeOne_def indexById_def js_sort_def
      marked_def takeUpdate_def keepMyReactions_def some_in_def)

text \<open>the list of followed threads keeps one row per thread and each unread count equal to the replies after the
  read position, at every change: a reply, a newer parent, a read position, a change of the notifications.\<close>

theorem followed_threads_invariant:
  assumes "threads_ok threads"
  shows "threads_ok (applyReplyToThreads threads reply userId) \<and> threads_ok (applyRootToThreads threads root) \<and>
    threads_ok (applyThreadRead threads rootId n) \<and> threads_ok (applyThreadNotify threads rootId notify)"
  using assms by (simp_all add: applyReplyToThreads_ok applyRootToThreads_ok applyThreadRead_ok applyThreadNotify_ok)

theorem followed_threads_invariant_witness:
  "threads_ok (applyReplyToThreads [sample_thread ''t'' 2 1] (sample_reply ''t'' ''x'' 9 3) ''u'') \<and>
   threads_ok (applyRootToThreads [sample_thread ''t'' 2 1] (sample_message ''t'' 1 4)) \<and>
   threads_ok (applyThreadRead [sample_thread ''t'' 2 1] ''t'' 2) \<and>
   threads_ok (applyThreadNotify [sample_thread ''t'' 2 1] ''t'' True)"
  by (rule followed_threads_invariant) (simp add: threads_ok_def thread_ok_def roots_def samples)

text \<open>a reply delivered twice counts once in its thread.\<close>

theorem reply_redelivery_ignored:
  "applyReplyToThreads (applyReplyToThreads threads reply userId) reply userId = applyReplyToThreads threads reply userId"
  by (rule applyReply_redelivered)

end
