(* ===== verification/PinRules.thy ===== *)
theory PinRules
  imports RoomRules
begin

text \<open>
  Pinned messages (\<open>web/lib/chat/rules/pins.ts\<close>): the list of a room's pins, newest pin first, kept right
  from the messages that arrive.
\<close>

definition pin_at :: "message \<Rightarrow> string" where
  \<comment> \<open>\<open>m.pinned?.at ?? ""\<close>\<close>
  "pin_at m = (case m_pinned m of None \<Rightarrow> '''' | Some p \<Rightarrow> pn_at p)"

definition comparePins :: "message \<Rightarrow> message \<Rightarrow> int" where
  "comparePins a b =
     (let t = localeCompare (pin_at b) (pin_at a)
      in if t \<noteq> 0 then t else localeCompare (m_id b) (m_id a))"

definition applyPinned :: "message \<Rightarrow> message list \<Rightarrow> message list" where
  "applyPinned message list =
     (let existing = List.find (\<lambda>m. m_id m = m_id message) list;
          pinned = (m_pinned message \<noteq> None \<and> m_deleted_at message = None)
      in if (\<exists>e\<in>set_option existing. m_change_seq e > m_change_seq message) then list
         else if \<not> pinned \<and> existing = None then list
         else let without = filter (\<lambda>m. m_id m \<noteq> m_id message) list
              in if pinned then js_sort comparePins (without @ [message]) else without)"

definition applyPinnedMessages :: "message list \<Rightarrow> message list \<Rightarrow> message list" where
  "applyPinnedMessages current incoming = fold applyPinned incoming current"

interpretation pins: comparator comparePins "\<lambda>_. True"
proof
  fix a b c
  show "comparePins b a = - comparePins a b"
    by (auto simp: comparePins_def Let_def localeCompare_flip[of "pin_at b"] localeCompare_flip[of "m_id b"])
  show "comparePins a b \<le> 0 \<Longrightarrow> comparePins b c \<le> 0 \<Longrightarrow> comparePins a c \<le> 0"
    by (auto simp: comparePins_def Let_def localeCompare_le split: if_splits)
qed

definition pins_wf :: "message list \<Rightarrow> bool" where
  \<comment> \<open>Not the order: a page is in the order of the times, and the code compares times as strings.\<close>
  "pins_wf ms \<longleftrightarrow> distinct (map m_id ms) \<and> (\<forall>m\<in>set ms. m_pinned m \<noteq> None \<and> m_deleted_at m = None)"

lemma applyPinned_wf: "pins_wf ms \<Longrightarrow> pins_wf (applyPinned m ms)"
  by (auto simp: pins_wf_def applyPinned_def Let_def distinct_map_filter)

lemma applyPinned_sorted:
  "sorted_wrt (\<lambda>a b. comparePins a b \<le> 0) ms \<Longrightarrow> sorted_wrt (\<lambda>a b. comparePins a b \<le> 0) (applyPinned m ms)"
  by (auto simp: applyPinned_def Let_def sorted_wrt_filter pins.sort_sorted)

lemma applyPinnedMessages_wf: "pins_wf cur \<Longrightarrow> pins_wf (applyPinnedMessages cur inc)"
  unfolding applyPinnedMessages_def by (induction inc arbitrary: cur) (auto simp: applyPinned_wf)

lemma applyPinned_other:
  "m_id x \<noteq> m_id m \<Longrightarrow> x \<in> set (applyPinned m ms) \<longleftrightarrow> x \<in> set ms"
  by (auto simp: applyPinned_def Let_def)

lemma applyPinned_this:
  assumes "distinct (map m_id ms)" "m_id x = m_id m"
  shows "x \<in> set (applyPinned m ms) \<longleftrightarrow>
    (if \<exists>e\<in>set ms. m_id e = m_id m \<and> m_change_seq e > m_change_seq m then x \<in> set ms
     else x = m \<and> m_pinned m \<noteq> None \<and> m_deleted_at m = None)"
proof (cases "List.find (\<lambda>y. m_id y = m_id m) ms")
  case None
  then have "\<forall>e\<in>set ms. m_id e \<noteq> m_id m" by (simp add: find_None_iff)
  with None assms(2) show ?thesis by (auto simp: applyPinned_def Let_def)
next
  case (Some e)
  then have e: "e \<in> set ms" "m_id e = m_id m" by (auto dest: find_Some_set)
  have one: "y = e" if "y \<in> set ms" "m_id y = m_id m" for y
    using that e assms(1) by (metis distinct_map inj_onD)
  have newer: "(\<exists>z\<in>set ms. m_id z = m_id m \<and> m_change_seq z > m_change_seq m) \<longleftrightarrow> m_change_seq e > m_change_seq m"
    using e one by blast
  show ?thesis
    unfolding newer using Some assms(2) by (simp add: applyPinned_def Let_def)
qed

section \<open>Properties\<close>

text \<open>the pinned messages of a room stay distinct, all pinned and not deleted, whatever messages arrive.\<close>

theorem pins_stay_wf:
  assumes "pins_wf current"
  shows "pins_wf (applyPinnedMessages current incoming)"
  using assms by (rule applyPinnedMessages_wf)

theorem pins_stay_wf_witness:
  "let pinned = (sample_message ''a'' 1 2)\<lparr>m_pinned := Some \<lparr>pn_by = sample_user ''b'', pn_at = ''2026-01-01T00:00:00Z''\<rparr>\<rparr>
   in pins_wf (applyPinnedMessages [pinned] [sample_message ''a'' 1 3])"
  unfolding Let_def
  by (rule pins_stay_wf) (simp add: pins_wf_def samples)

end
