(* ===== verification/SavedRules.thy ===== *)
theory SavedRules
  imports RoomRules
begin

text \<open>
  "Later" (\<open>web/lib/chat/rules/saved.ts\<close>): the tabs of saved messages, and the rule that moves one item
  between them.
\<close>

datatype saved_tab = TabInProgress | TabArchived | TabCompleted

datatype list_status = LsLoading | LsReady | LsError

fun tab_state :: "saved_tab \<Rightarrow> saved_state" where
  "tab_state TabInProgress = SavInProgress"
| "tab_state TabArchived = SavArchived"
| "tab_state TabCompleted = SavCompleted"

definition SAVED_TABS :: "saved_tab list" where
  "SAVED_TABS = [TabInProgress, TabArchived, TabCompleted]"

record saved_tab_state =
  tb_status :: list_status
  tb_items :: "saved_item list"
  tb_hasMore :: bool
  tb_loadingMore :: bool

type_synonym saved_tabs = "(saved_tab, saved_tab_state) jsrec"

definition compareSaved :: "saved_item \<Rightarrow> saved_item \<Rightarrow> int" where
  "compareSaved a b = localeCompare (sv_id b) (sv_id a)"

definition tabItems :: "saved_item \<Rightarrow> saved_tab \<Rightarrow> saved_tab_state \<Rightarrow> saved_item list" where
  \<comment> \<open>The items of one tab after the loop body, before the comparison with the old ones.\<close>
  "tabItems item tab current =
     (let existing = List.find (\<lambda>i. sv_message_id i = sv_message_id item) (tb_items current)
      in if (\<exists>e\<in>set_option existing. sv_change_seq e > sv_change_seq item) then tb_items current
         else
           let items = (if existing \<noteq> None
                        then filter (\<lambda>i. sv_message_id i \<noteq> sv_message_id item) (tb_items current)
                        else tb_items current)
           in if sv_state item = tab_state tab \<and>
                 (\<not> tb_hasMore current \<or> (case at_last items of None \<Rightarrow> True | Some oldest \<Rightarrow> sv_id item > sv_id oldest))
              then js_sort compareSaved (items @ [item]) else items)"

definition applySavedItem :: "saved_tabs \<Rightarrow> saved_item \<Rightarrow> saved_tabs" where
  "applySavedItem tabs item =
     fold (\<lambda>tab nxt. case rget tabs tab of
               None \<Rightarrow> nxt
             | Some current \<Rightarrow>
                 let items = tabItems item tab current
                 in if items \<noteq> tb_items current then rput tab (current\<lparr>tb_items := items\<rparr>) nxt else nxt)
       SAVED_TABS tabs"

interpretation saved_order: comparator compareSaved "\<lambda>_. True"
  by unfold_locales (auto simp: compareSaved_def localeCompare_le intro: localeCompare_flip)

lemma applySavedItem_get:
  "rget (applySavedItem tabs item) tab =
     map_option (\<lambda>t. t\<lparr>tb_items := tabItems item tab t\<rparr>) (rget tabs tab)"
proof -
  have same: "tb_items t = xs \<Longrightarrow> t\<lparr>tb_items := xs\<rparr> = t" for t :: saved_tab_state and xs
    by (cases t) simp
  show ?thesis
    by (cases tab) (auto simp: applySavedItem_def SAVED_TABS_def Let_def same split: option.splits)
qed

definition tab_wf :: "saved_tab \<Rightarrow> saved_tab_state \<Rightarrow> bool" where
  "tab_wf tab t \<longleftrightarrow> distinct (map sv_message_id (tb_items t)) \<and>
     sorted_wrt (\<lambda>a b. compareSaved a b \<le> 0) (tb_items t) \<and>
     (\<forall>i\<in>set (tb_items t). sv_state i = tab_state tab)"

definition saved_wf :: "saved_tabs \<Rightarrow> bool" where
  \<comment> \<open>Each tab is ordered and holds items of its own state, one per message.\<close>
  "saved_wf tabs \<longleftrightarrow> (\<forall>tab t. rget tabs tab = Some t \<longrightarrow> tab_wf tab t)"

definition in_tab :: "saved_tabs \<Rightarrow> saved_tab \<Rightarrow> ident \<Rightarrow> bool" where
  "in_tab tabs tab mid \<longleftrightarrow> (\<exists>t. rget tabs tab = Some t \<and> mid \<in> sv_message_id ` set (tb_items t))"

definition one_tab :: "saved_tabs \<Rightarrow> bool" where
  "one_tab tabs \<longleftrightarrow> (\<forall>a b mid. in_tab tabs a mid \<longrightarrow> in_tab tabs b mid \<longrightarrow> a = b)"

definition not_older :: "saved_tabs \<Rightarrow> saved_item \<Rightarrow> bool" where
  \<comment> \<open>No tab holds a newer version of the item's row.\<close>
  "not_older tabs item \<longleftrightarrow> (\<forall>tab t i. rget tabs tab = Some t \<longrightarrow> i \<in> set (tb_items t) \<longrightarrow>
     sv_message_id i = sv_message_id item \<longrightarrow> sv_change_seq i \<le> sv_change_seq item)"

lemma tab_state_inj: "tab_state a = tab_state b \<longleftrightarrow> a = b"
  by (cases a; cases b) simp_all

lemma tabItems_cases:
  fixes item :: saved_item and tab :: saved_tab and t :: saved_tab_state
  obtains (keep) "tabItems item tab t = tb_items t"
      "\<exists>e\<in>set (tb_items t). sv_message_id e = sv_message_id item \<and> sv_change_seq e > sv_change_seq item"
    | (put) "sv_state item = tab_state tab"
      "tabItems item tab t = js_sort compareSaved
         (filter (\<lambda>i. sv_message_id i \<noteq> sv_message_id item) (tb_items t) @ [item])"
    | (drop) "tabItems item tab t = filter (\<lambda>i. sv_message_id i \<noteq> sv_message_id item) (tb_items t)"
proof -
  have id: "List.find (\<lambda>i. sv_message_id i = sv_message_id item) (tb_items t) = None \<Longrightarrow>
      filter (\<lambda>i. sv_message_id i \<noteq> sv_message_id item) (tb_items t) = tb_items t"
    by (simp add: find_None_iff filter_id_conv)
  let ?rest = "filter (\<lambda>i. sv_message_id i \<noteq> sv_message_id item) (tb_items t)"
  let ?put = "sv_state item = tab_state tab \<and>
    (\<not> tb_hasMore t \<or> (case at_last ?rest of None \<Rightarrow> True | Some oldest \<Rightarrow> sv_id item > sv_id oldest))"
  have eq: "tabItems item tab t = (if ?put then js_sort compareSaved (?rest @ [item]) else ?rest)"
    if "\<not> (\<exists>e\<in>set_option (List.find (\<lambda>i. sv_message_id i = sv_message_id item) (tb_items t)).
      sv_change_seq e > sv_change_seq item)"
    using that id unfolding tabItems_def Let_def
    by (cases "List.find (\<lambda>i. sv_message_id i = sv_message_id item) (tb_items t)") auto
  show thesis
  proof (cases "\<exists>e\<in>set_option (List.find (\<lambda>i. sv_message_id i = sv_message_id item) (tb_items t)).
      sv_change_seq e > sv_change_seq item")
    case True
    then show thesis using that(1)
      by (auto simp: tabItems_def Let_def dest: find_Some_set)
  next
    case False
    show thesis
    proof (cases ?put)
      case True
      with eq[OF False] that(2) show thesis by simp
    next
      case no: False
      with eq[OF False] have "tabItems item tab t = ?rest" by (simp only: if_False)
      then show thesis by (rule that(3))
    qed
  qed
qed

lemma tabItems_wf: "tab_wf tab t \<Longrightarrow> tab_wf tab (t\<lparr>tb_items := tabItems item tab t\<rparr>)"
  by (cases rule: tabItems_cases[of item tab t])
     (auto simp: tab_wf_def distinct_map_filter sorted_wrt_filter saved_order.sort_sorted)

lemma applySavedItem_wf: "saved_wf tabs \<Longrightarrow> saved_wf (applySavedItem tabs item)"
  by (auto simp: saved_wf_def applySavedItem_get tabItems_wf)

lemma in_tab_other:
  assumes "mid \<noteq> sv_message_id item"
  shows "in_tab (applySavedItem tabs item) tab mid \<longleftrightarrow> in_tab tabs tab mid"
proof -
  have "mid \<in> sv_message_id ` set (tabItems item tab t) \<longleftrightarrow> mid \<in> sv_message_id ` set (tb_items t)" for t
    using assms by (cases rule: tabItems_cases[of item tab t]) auto
  then show ?thesis by (cases "rget tabs tab") (simp_all add: in_tab_def applySavedItem_get)
qed

lemma in_tab_this:
  assumes "not_older tabs item" "in_tab (applySavedItem tabs item) tab (sv_message_id item)"
  shows "tab_state tab = sv_state item"
proof -
  obtain t where t: "rget tabs tab = Some t" "sv_message_id item \<in> sv_message_id ` set (tabItems item tab t)"
    using assms(2) by (auto simp: in_tab_def applySavedItem_get)
  show ?thesis
  proof (cases rule: tabItems_cases[of item tab t])
    case keep
    with assms(1) t(1) show ?thesis by (force simp: not_older_def)
  qed (use t(2) in auto)
qed

lemma applySavedItem_one_tab:
  assumes "one_tab tabs" "not_older tabs item"
  shows "one_tab (applySavedItem tabs item)"
  unfolding one_tab_def
proof (intro allI impI)
  fix a b mid
  assume ab: "in_tab (applySavedItem tabs item) a mid" "in_tab (applySavedItem tabs item) b mid"
  show "a = b"
  proof (cases "mid = sv_message_id item")
    case True
    then show ?thesis using ab in_tab_this[OF assms(2)] tab_state_inj by metis
  next
    case False
    then show ?thesis using ab assms(1) by (auto simp: in_tab_other one_tab_def)
  qed
qed

section \<open>Properties\<close>

text \<open>applying the row of a saved message keeps every tab ordered, with items of its own state and at most one
  per message; and when no tab holds a newer version of the row, no message ends up in two tabs and this one is only in
  the tab of its state.\<close>

theorem saved_item_in_one_tab:
  assumes "saved_wf tabs" "one_tab tabs" "not_older tabs item"
  shows "saved_wf (applySavedItem tabs item) \<and> one_tab (applySavedItem tabs item) \<and>
    (\<forall>tab. in_tab (applySavedItem tabs item) tab (sv_message_id item) \<longrightarrow> tab_state tab = sv_state item)"
  using assms applySavedItem_wf applySavedItem_one_tab in_tab_this by blast

theorem saved_item_in_one_tab_witness:
  "let tabs = rput TabInProgress \<lparr>tb_status = LsReady, tb_items = [sample_saved ''i'' ''m'' SavInProgress 1], tb_hasMore = False, tb_loadingMore = False\<rparr>
        (rput TabArchived \<lparr>tb_status = LsReady, tb_items = [], tb_hasMore = False, tb_loadingMore = False\<rparr> []);
       item = sample_saved ''i'' ''m'' SavArchived 2
   in saved_wf (applySavedItem tabs item) \<and> one_tab (applySavedItem tabs item) \<and>
      (\<forall>tab. in_tab (applySavedItem tabs item) tab (sv_message_id item) \<longrightarrow> tab_state tab = sv_state item)"
  unfolding Let_def
  by (rule saved_item_in_one_tab)
     (simp_all add: saved_wf_def tab_wf_def one_tab_def in_tab_def not_older_def samples split: if_splits)

text \<open>a row that arrives late, older than the version one tab holds, is added to the tab of its old state: the
  message is then in two tabs.\<close>

theorem late_saved_item_in_two_tabs:
  "let held = sample_saved ''i'' ''m'' SavArchived 2; late = sample_saved ''i'' ''m'' SavInProgress 1;
       tabs = rput TabInProgress \<lparr>tb_status = LsReady, tb_items = [], tb_hasMore = False, tb_loadingMore = False\<rparr>
         (rput TabArchived \<lparr>tb_status = LsReady, tb_items = [held], tb_hasMore = False, tb_loadingMore = False\<rparr> [])
   in one_tab tabs \<and> \<not> one_tab (applySavedItem tabs late)"
proof -
  let ?tabs = "rput TabInProgress \<lparr>tb_status = LsReady, tb_items = [], tb_hasMore = False, tb_loadingMore = False\<rparr>
         (rput TabArchived \<lparr>tb_status = LsReady, tb_items = [sample_saved ''i'' ''m'' SavArchived 2], tb_hasMore = False, tb_loadingMore = False\<rparr> [])"
  have "one_tab ?tabs" by (simp add: one_tab_def in_tab_def)
  moreover have "in_tab (applySavedItem ?tabs (sample_saved ''i'' ''m'' SavInProgress 1)) TabInProgress ''m''"
    "in_tab (applySavedItem ?tabs (sample_saved ''i'' ''m'' SavInProgress 1)) TabArchived ''m''"
    by (simp_all add: in_tab_def applySavedItem_get tabItems_def samples Let_def js_sort_def)
  then have "\<not> one_tab (applySavedItem ?tabs (sample_saved ''i'' ''m'' SavInProgress 1))" unfolding one_tab_def by blast
  ultimately show ?thesis by (simp add: Let_def)
qed

end
