(* ===== verification/ActivityFeed.thy ===== *)
theory ActivityFeed
  imports SavedRules
begin

text \<open>
  The activity feed (\<open>web/lib/chat/rules/activity-feed.ts\<close>): the keys of its lists, which items a list
  shows, and the updates that keep a list right without fetching it again.
\<close>

record activity_list_state =
  al_status :: list_status
  al_items :: "activity_item list"
  al_nextCursor :: "string option"
  al_loadingMore :: bool

fun filter_name :: "activity_filter \<Rightarrow> string" where
  "filter_name AfAll = ''all''"
| "filter_name AfDm = ''dm''"
| "filter_name AfMention = ''mention''"
| "filter_name AfThread = ''thread''"
| "filter_name AfReaction = ''reaction''"

definition activityListKey :: "activity_filter \<Rightarrow> bool \<Rightarrow> string" where
  "activityListKey flt unreadOnly = filter_name flt @ '':'' @ (if unreadOnly then ''unread'' else ''all'')"

fun split_colon :: "string \<Rightarrow> string list" where
  \<comment> \<open>\<open>key.split(":")\<close>\<close>
  "split_colon [] = [[]]"
| "split_colon (c # cs) =
     (if c = CHR '':'' then [] # split_colon cs
      else (case split_colon cs of [] \<Rightarrow> [[c]] | w # ws \<Rightarrow> (c # w) # ws))"

definition parseActivityListKey :: "string \<Rightarrow> string \<times> bool" where
  \<comment> \<open>The filter is cast unchecked in the code: its name is kept as it was read.\<close>
  "parseActivityListKey key =
     (case split_colon key of
        flt # unread # _ \<Rightarrow> (flt, unread = ''unread'')
      | [flt] \<Rightarrow> (flt, False)
      | [] \<Rightarrow> ('''', False))"

definition belongsTo :: "activity_item \<Rightarrow> string \<Rightarrow> bool \<Rightarrow> bool" where
  "belongsTo item flt unreadOnly \<longleftrightarrow>
     (if unreadOnly \<and> \<not> ac_unread item then False
      else flt = ''all'' \<or> some_in (\<lambda>r. reason_name r = flt) (ac_reasons item))"

definition linkedRoomOf :: "room \<Rightarrow> linked_room" where
  "linkedRoomOf room =
     \<lparr>lr_id = r_id room, lr_kind = r_kind room,
      lr_name = (case r_name room of None \<Rightarrow> '''' | Some n \<Rightarrow> n),
      lr_dm_peer = map_option (\<lambda>p. \<lparr>u_id = dp_id p, u_handle = dp_handle p, u_display_name = dp_display_name p\<rparr>)
                     (r_dm_peer room)\<rparr>"

definition messageActivityItem :: "message \<Rightarrow> room \<Rightarrow> activity_reason list \<Rightarrow> bool \<Rightarrow> activity_item" where
  "messageActivityItem message room reasons unread =
     \<lparr>ac_id = ''m:'' @ m_id message, ac_type = AitMessage, ac_reasons = reasons, ac_unread = unread,
      ac_occurred_at = m_created_at message, ac_room = linkedRoomOf room, ac_message = message,
      ac_reaction = None\<rparr>"

definition sameItem :: "activity_item \<Rightarrow> activity_item \<Rightarrow> bool" where
  "sameItem a b \<longleftrightarrow>
     (if ac_type a = AitMessage \<and> ac_type b = AitMessage then m_id (ac_message a) = m_id (ac_message b)
      else ac_id a = ac_id b)"

definition compareNewestFirst :: "activity_item \<Rightarrow> activity_item \<Rightarrow> int" where
  "compareNewestFirst a b =
     (if ac_occurred_at a \<noteq> ac_occurred_at b then (if ac_occurred_at a > ac_occurred_at b then -1 else 1)
      else if ac_id a = ac_id b then 0 else if ac_id a > ac_id b then -1 else 1)"

definition insertActivity :: "activity_item list \<Rightarrow> activity_item \<Rightarrow> activity_item list" where
  "insertActivity items item =
     (let rest = filter (\<lambda>i. \<not> sameItem i item) items;
          index = find_index (\<lambda>i. compareNewestFirst item i < 0) rest;
          at = (case index of None \<Rightarrow> length rest | Some i \<Rightarrow> i)
      in take at rest @ [item] @ drop at rest)"

definition removeActivity :: "activity_item list \<Rightarrow> (activity_item \<Rightarrow> bool) \<Rightarrow> activity_item list" where
  "removeActivity items match = (if some_in match items then filter (\<lambda>i. \<not> match i) items else items)"

definition markRead :: "activity_item list \<Rightarrow> (activity_item \<Rightarrow> bool) \<Rightarrow> activity_item list" where
  "markRead items read =
     (if \<not> some_in (\<lambda>i. ac_unread i \<and> read i) items then items
      else map (\<lambda>i. if ac_unread i \<and> read i then i\<lparr>ac_unread := False\<rparr> else i) items)"

definition applyRoomReadToActivity :: "activity_item list \<Rightarrow> ident \<Rightarrow> int \<Rightarrow> activity_item list" where
  "applyRoomReadToActivity items roomId lastReadUserSeq =
     markRead items (\<lambda>i. lr_id (ac_room i) = roomId \<and> inChannel (ac_message i)
       \<and> m_user_seq (ac_message i) \<le> lastReadUserSeq)"

definition applyThreadReadToActivity :: "activity_item list \<Rightarrow> ident \<Rightarrow> int \<Rightarrow> activity_item list" where
  "applyThreadReadToActivity items rootId lastReadThreadSeq =
     markRead items (\<lambda>i. m_thread_root_id (ac_message i) = Some rootId \<and> \<not> inChannel (ac_message i)
       \<and> (case m_thread_seq (ac_message i) of None \<Rightarrow> False | Some k \<Rightarrow> k \<le> lastReadThreadSeq))"

section \<open>List keys\<close>

lemma split_colon_word: "CHR '':'' \<notin> set w \<Longrightarrow> split_colon (w @ CHR '':'' # v) = w # split_colon v"
  by (induction w) auto

lemma split_colon_plain: "CHR '':'' \<notin> set w \<Longrightarrow> split_colon w = [w]"
  by (induction w) auto

lemma parse_key: "parseActivityListKey (activityListKey f u) = (filter_name f, u)"
proof -
  have "CHR '':'' \<notin> set (filter_name f)" by (cases f) auto
  then have "split_colon (activityListKey f u) = [filter_name f, if u then ''unread'' else ''all'']"
    using split_colon_word[of "filter_name f"] by (simp add: activityListKey_def split_colon_plain)
  then show ?thesis by (simp add: parseActivityListKey_def)
qed

lemma filter_name_inj: "filter_name a = filter_name b \<longleftrightarrow> a = b"
  by (cases a; cases b) auto

section \<open>Order and uniqueness\<close>

interpretation newest_first: comparator compareNewestFirst "\<lambda>_. True"
proof
  fix a b c :: activity_item
  show "compareNewestFirst b a = - compareNewestFirst a b"
    by (auto simp: compareNewestFirst_def)
  show "compareNewestFirst a b \<le> 0 \<Longrightarrow> compareNewestFirst b c \<le> 0 \<Longrightarrow> compareNewestFirst a c \<le> 0"
    by (auto simp: compareNewestFirst_def split: if_splits)
qed

definition feed_wf :: "activity_item list \<Rightarrow> bool" where
  \<comment> \<open>No item stands twice. The order of a page is the server's, by time, and the code compares times as
    strings, whose fractions of a second have no fixed length: so the order is no part of what every list keeps.\<close>
  "feed_wf items \<longleftrightarrow> sorted_wrt (\<lambda>a b. \<not> sameItem a b) items"

definition feed_sorted :: "activity_item list \<Rightarrow> bool" where
  "feed_sorted items \<longleftrightarrow> sorted_wrt (\<lambda>a b. compareNewestFirst a b \<le> 0) items"

lemma sameItem_sym: "sameItem a b \<longleftrightarrow> sameItem b a"
  by (auto simp: sameItem_def)

lemma insertActivity_split:
  "insertActivity items item =
     (let rest = filter (\<lambda>i. \<not> sameItem i item) items
      in takeWhile (\<lambda>i. \<not> compareNewestFirst item i < 0) rest @ item
         # dropWhile (\<lambda>i. \<not> compareNewestFirst item i < 0) rest)"
proof -
  let ?P = "\<lambda>i. compareNewestFirst item i < 0"
  let ?rest = "filter (\<lambda>i. \<not> sameItem i item) items"
  show ?thesis
  proof (cases "find_index ?P ?rest")
    case None
    have cut: "takeWhile (\<lambda>i. \<not> ?P i) ?rest = ?rest" "dropWhile (\<lambda>i. \<not> ?P i) ?rest = []"
      using find_index_none_split[OF None] by blast+
    show ?thesis
      unfolding insertActivity_def Let_def None cut by simp
  next
    case (Some k)
    have cut: "takeWhile (\<lambda>i. \<not> ?P i) ?rest = take k ?rest" "dropWhile (\<lambda>i. \<not> ?P i) ?rest = drop k ?rest"
      using find_index_split[OF Some] by metis+
    show ?thesis
      unfolding insertActivity_def Let_def Some cut by simp
  qed
qed

lemma set_cut: "set (takeWhile P xs @ x # dropWhile P xs) = insert x (set xs)"
  by (induction xs) auto

lemma insertActivity_set:
  "set (insertActivity items item) = insert item {i \<in> set items. \<not> sameItem i item}"
  unfolding insertActivity_split Let_def set_cut by auto

lemma insertActivity_sorted:
  assumes "feed_sorted items"
  shows "feed_sorted (insertActivity items item)"
proof -
  have "sorted_wrt (\<lambda>a b. compareNewestFirst a b \<le> 0) (filter (\<lambda>i. \<not> sameItem i item) items)"
    using assms by (simp add: feed_sorted_def sorted_wrt_filter)
  from newest_first.insert_before_sorted[OF this] show ?thesis
    unfolding feed_sorted_def insertActivity_split Let_def by simp
qed

lemma insertActivity_wf:
  assumes "feed_wf items"
  shows "feed_wf (insertActivity items item)"
proof -
  let ?rest = "filter (\<lambda>i. \<not> sameItem i item) items"
  let ?a = "takeWhile (\<lambda>i. \<not> compareNewestFirst item i < 0) ?rest"
  let ?b = "dropWhile (\<lambda>i. \<not> compareNewestFirst item i < 0) ?rest"
  have r: "sorted_wrt (\<lambda>a b. \<not> sameItem a b) (?a @ ?b)"
    using assms unfolding feed_wf_def takeWhile_dropWhile_id by (rule sorted_wrt_filter)
  have other: "\<not> sameItem i item \<and> \<not> sameItem item i" if "i \<in> set ?a \<union> set ?b" for i
  proof -
    have "i \<in> set ?rest" using that set_takeWhileD set_dropWhileD by (metis (no_types, lifting) UnE)
    then show ?thesis by (simp add: sameItem_sym[of item])
  qed
  show ?thesis
    unfolding feed_wf_def insertActivity_split Let_def
    using r other unfolding sorted_wrt_append sorted_wrt.simps list.set by blast
qed

lemma insertActivity_again:
  assumes "feed_wf items"
  shows "set (insertActivity (insertActivity items item) item) = set (insertActivity items item)"
  by (auto simp: insertActivity_set sameItem_def)

lemma removeActivity_filter: "removeActivity items match = filter (\<lambda>i. \<not> match i) items"
  by (auto simp: removeActivity_def filter_id_conv)

lemma removeActivity_wf: "feed_wf items \<Longrightarrow> feed_wf (removeActivity items match)"
  by (simp add: removeActivity_filter feed_wf_def sorted_wrt_filter)

lemma markRead_map: "markRead items read = map (\<lambda>i. if ac_unread i \<and> read i then i\<lparr>ac_unread := False\<rparr> else i) items"
  by (auto simp: markRead_def intro!: map_idI[symmetric])

lemma unread_keeps_order:
  "compareNewestFirst (if P then a\<lparr>ac_unread := x\<rparr> else a) (if Q then b\<lparr>ac_unread := y\<rparr> else b) = compareNewestFirst a b"
  "sameItem (if P then a\<lparr>ac_unread := x\<rparr> else a) (if Q then b\<lparr>ac_unread := y\<rparr> else b) = sameItem a b"
  by (auto simp: compareNewestFirst_def sameItem_def)

lemma markRead_wf: "feed_wf items \<Longrightarrow> feed_wf (markRead items read)"
  by (simp add: markRead_map feed_wf_def sorted_wrt_map unread_keeps_order)

lemma markRead_set:
  assumes "\<And>i. read (i\<lparr>ac_unread := False\<rparr>) = read i"
  shows "{i \<in> set (markRead items read). ac_unread i} = {i \<in> set items. ac_unread i \<and> \<not> read i}"
  using assms by (auto simp: markRead_map split: if_splits)

section \<open>Properties\<close>

text \<open>the key of a list of the feed reads back to the filter and the flag it was made from.\<close>

theorem activity_key_round_trip:
  "parseActivityListKey (activityListKey flt unreadOnly) = (filter_name flt, unreadOnly)"
  by (rule parse_key)

text \<open>an item added to the feed replaces the one it repeats, and a feed in the order of the code, by the strings of
  the times, stays in it.\<close>

theorem feed_insert_keeps_order:
  assumes "feed_wf items" "feed_sorted items"
  shows "feed_wf (insertActivity items item) \<and> feed_sorted (insertActivity items item) \<and>
    set (insertActivity items item) = insert item {i \<in> set items. \<not> sameItem i item}"
  using assms insertActivity_wf insertActivity_sorted insertActivity_set by blast

theorem feed_insert_keeps_order_witness:
  "let a = sample_item ''a'' ''2026-01-02T00:00:00Z''; b = sample_item ''b'' ''2026-01-01T00:00:00Z''
   in feed_wf (insertActivity [a] b) \<and> feed_sorted (insertActivity [a] b) \<and>
      set (insertActivity [a] b) = insert b {i \<in> set [a]. \<not> sameItem i b}"
  unfolding Let_def
  by (rule feed_insert_keeps_order) (simp_all add: feed_wf_def feed_sorted_def)

text \<open>the order of the strings is not the order of the times: an item of the half second stands before the one of
  the same second that came after it.\<close>

theorem string_order_is_not_time:
  "let a = sample_item ''a'' ''2026-01-01T00:00:00.5Z''; b = sample_item ''b'' ''2026-01-01T00:00:00.51Z''
   in insertActivity [a] b = [a, b]"
  by code_simp

text \<open>reading a room up to a position leaves unread exactly the items that were unread and are not messages of
  that room's channel up to it.\<close>

theorem room_read_clears_feed:
  "{i \<in> set (applyRoomReadToActivity items roomId n). ac_unread i} =
     {i \<in> set items. ac_unread i \<and> (lr_id (ac_room i) \<noteq> roomId \<or> \<not> inChannel (ac_message i) \<or> n < m_user_seq (ac_message i))}"
  unfolding applyRoomReadToActivity_def by (subst markRead_set) auto

end
