(* ===== verification/NotifyRules.thy ===== *)
theory NotifyRules
  imports RoomRules
begin

text \<open>
  Muting (\<open>web/lib/chat/notifications/mute.ts\<close>) and the rule that decides which messages notify
  (\<open>web/lib/chat/notifications/desktop-notification.ts\<close>, shared by browser notifications and the
  activity feed).
\<close>

section \<open>Muting\<close>

definition isMuted :: "room_notifications option \<Rightarrow> int \<Rightarrow> bool" where
  "isMuted n now =
     (case n of None \<Rightarrow> False
      | Some n \<Rightarrow>
          if \<not> rn_muted n then False
          else (case rn_muted_until n of
                  None \<Rightarrow> True
                | Some until \<Rightarrow> (case date_parse until of None \<Rightarrow> False | Some t \<Rightarrow> t > now)))"

definition mute_expiry :: "room_notifications option \<Rightarrow> int option" where
  \<comment> \<open>The expiry the loop body looks at; \<open>None\<close> where it continues with the next room.\<close>
  "mute_expiry n =
     (case n of None \<Rightarrow> None
      | Some n \<Rightarrow> if \<not> rn_muted n then None else Option.bind (rn_muted_until n) date_parse)"

definition nextMuteExpiry :: "room_notifications option list \<Rightarrow> int \<Rightarrow> int option" where
  "nextMuteExpiry notifications now =
     fold (\<lambda>n nxt. case mute_expiry n of
               None \<Rightarrow> nxt
             | Some at \<Rightarrow>
                 if at > now \<and> (case nxt of None \<Rightarrow> True | Some x \<Rightarrow> at < x) then Some at else nxt)
       notifications None"

definition pending_expiries :: "room_notifications option list \<Rightarrow> int \<Rightarrow> int set" where
  "pending_expiries ns now = {at. now < at \<and> (\<exists>n\<in>set ns. mute_expiry n = Some at)}"

lemma nextMuteExpiry_spec:
  "(nextMuteExpiry ns now = None \<longleftrightarrow> pending_expiries ns now = {}) \<and>
   (\<forall>at. nextMuteExpiry ns now = Some at \<longrightarrow>
      at \<in> pending_expiries ns now \<and> (\<forall>x\<in>pending_expiries ns now. at \<le> x))"
proof (induction ns rule: rev_induct)
  case Nil
  then show ?case by (simp add: nextMuteExpiry_def pending_expiries_def)
next
  case (snoc n ns)
  have p: "pending_expiries (ns @ [n]) now =
      pending_expiries ns now \<union> {at. now < at \<and> mute_expiry n = Some at}"
    by (auto simp: pending_expiries_def)
  have s: "nextMuteExpiry (ns @ [n]) now =
      (case mute_expiry n of None \<Rightarrow> nextMuteExpiry ns now
       | Some at \<Rightarrow> if at > now \<and> (case nextMuteExpiry ns now of None \<Rightarrow> True | Some x \<Rightarrow> at < x)
           then Some at else nextMuteExpiry ns now)"
    by (simp only: nextMuteExpiry_def fold_append fold_simps comp_apply)
  show ?case
    using snoc unfolding p s by (cases "mute_expiry n"; cases "nextMuteExpiry ns now") auto
qed

lemma nextMuteExpiry_Some:
  "nextMuteExpiry ns now = Some at \<Longrightarrow> now < at \<and> (\<exists>n\<in>set ns. mute_expiry n = Some at)"
  using nextMuteExpiry_spec[of ns now] by (auto simp: pending_expiries_def)

lemma isMuted_expiry:
  "rn_muted n \<Longrightarrow> rn_muted_until n = Some u \<Longrightarrow> isMuted (Some n) t \<longleftrightarrow> (\<exists>at. mute_expiry (Some n) = Some at \<and> t < at)"
  by (auto simp: isMuted_def mute_expiry_def split: option.splits)

lemma isMuted_forever: "rn_muted n \<Longrightarrow> rn_muted_until n = None \<Longrightarrow> isMuted (Some n) t"
  by (simp add: isMuted_def)

lemma muted_until_next:
  \<comment> \<open>Between now and the next expiry no room's mute changes.\<close>
  assumes "n \<in> set ns" "now \<le> t" "\<And>at. nextMuteExpiry ns now = Some at \<Longrightarrow> t < at"
  shows "isMuted n t = isMuted n now"
proof -
  have "t < at" if "mute_expiry n = Some at" "now < at" for at
    using nextMuteExpiry_spec[of ns now] assms that
    by (cases "nextMuteExpiry ns now") (force simp: pending_expiries_def)+
  then show ?thesis
    using assms(2) by (force simp: isMuted_def mute_expiry_def split: option.splits)
qed

section \<open>What notifies\<close>

definition mentionsMe :: "message \<Rightarrow> ident \<Rightarrow> bool \<Rightarrow> bool" where
  "mentionsMe message userId countHere = some_in (\<lambda>m. if mn_kind m = MentionUser
     then map_option u_id (mn_user m) = Some userId
     else mn_kind m = MentionChannel \<or> (countHere \<and> mn_kind m = MentionHere)) (m_mentions message)"

record notify_input =
  ni_message :: message
  ni_userId :: ident
  ni_room :: "room option"
  ni_level :: "notify_level option"
  ni_thread :: "followed_thread option"
  ni_now :: int

definition notifyReasons :: "notify_input \<Rightarrow> bool \<Rightarrow> activity_reason list" where
  "notifyReasons i countHere =
     (let message = ni_message i; userId = ni_userId i in
      if m_kind message \<noteq> UserMessage \<or> u_id (m_sender message) = userId \<or> m_deleted_at message \<noteq> None then []
      else (case ni_room i of
        None \<Rightarrow> []
      | Some room \<Rightarrow>
        if r_notifications room = None then []
        else if isMuted (r_notifications room) (ni_now i) then []
        else
          let glob = (case ni_level i of None \<Rightarrow> NlMentions | Some l \<Rightarrow> l);
              reply = (m_thread_root_id message \<noteq> None);
              mentioned = mentionsMe message userId countHere;
              following = (reply \<and> (case ni_thread i of None \<Rightarrow> False | Some t \<Rightarrow> ft_notify_replies t));
              rest = (if mentioned then [ArMention] else []) @ (if following then [ArThread] else [])
          in if r_kind room = Dm then
               (if glob = NlNone then [] else sort (ArDm # rest))
             else
               let effective = (case Option.bind (r_notifications room) rn_level of None \<Rightarrow> glob | Some l \<Rightarrow> l)
               in if effective = NlNone then []
                  else
                    let threadOnly = (reply \<and> \<not> m_also_in_channel message)
                    in sort ((if effective = NlAll \<and> \<not> threadOnly then [ArChannel] else []) @ rest)))"

definition shouldNotify :: "notify_input \<Rightarrow> bool" where
  "shouldNotify i \<longleftrightarrow> notifyReasons i False \<noteq> []"

definition notify_gate :: "notify_input \<Rightarrow> bool" where
  \<comment> \<open>The conditions before any reason: someone else's live message, a room the viewer is in, not muted.\<close>
  "notify_gate i \<longleftrightarrow> m_kind (ni_message i) = UserMessage \<and> u_id (m_sender (ni_message i)) \<noteq> ni_userId i \<and>
     m_deleted_at (ni_message i) = None \<and>
     (\<exists>room. ni_room i = Some room \<and> r_notifications room \<noteq> None \<and> \<not> isMuted (r_notifications room) (ni_now i))"

definition effective_level :: "notify_input \<Rightarrow> room \<Rightarrow> notify_level" where
  "effective_level i room =
     (let glob = (case ni_level i of None \<Rightarrow> NlMentions | Some l \<Rightarrow> l)
      in if r_kind room = Dm then glob
         else case Option.bind (r_notifications room) rn_level of None \<Rightarrow> glob | Some l \<Rightarrow> l)"

text \<open>The rule as a table: when each reason applies.\<close>

definition reason_applies :: "notify_input \<Rightarrow> bool \<Rightarrow> activity_reason \<Rightarrow> bool" where
  "reason_applies i countHere r \<longleftrightarrow> notify_gate i \<and>
     (\<exists>room. ni_room i = Some room \<and> effective_level i room \<noteq> NlNone \<and>
       (case r of
          ArDm \<Rightarrow> r_kind room = Dm
        | ArChannel \<Rightarrow> r_kind room \<noteq> Dm \<and> effective_level i room = NlAll \<and> inChannel (ni_message i)
        | ArMention \<Rightarrow> mentionsMe (ni_message i) (ni_userId i) countHere
        | ArThread \<Rightarrow> m_thread_root_id (ni_message i) \<noteq> None \<and>
            (\<exists>t. ni_thread i = Some t \<and> ft_notify_replies t)
        | ArReaction \<Rightarrow> False))"

lemma notifyReasons_gate: "\<not> notify_gate i \<Longrightarrow> notifyReasons i c = []"
  by (auto simp: notify_gate_def notifyReasons_def Let_def split: option.splits)

lemma notifyReasons_open:
  assumes "notify_gate i" "ni_room i = Some room"
  shows "notifyReasons i c = (if effective_level i room = NlNone then [] else
    sort ((if r_kind room = Dm then [ArDm] else if effective_level i room = NlAll \<and> inChannel (ni_message i) then [ArChannel] else []) @
      (if mentionsMe (ni_message i) (ni_userId i) c then [ArMention] else []) @
      (if m_thread_root_id (ni_message i) \<noteq> None \<and> (case ni_thread i of None \<Rightarrow> False | Some t \<Rightarrow> ft_notify_replies t)
       then [ArThread] else [])))"
proof -
  obtain n where "r_notifications room = Some n"
    using assms by (auto simp: notify_gate_def)
  moreover have "\<not> (m_kind (ni_message i) \<noteq> UserMessage \<or> u_id (m_sender (ni_message i)) = ni_userId i
      \<or> m_deleted_at (ni_message i) \<noteq> None)" "r_notifications room \<noteq> None"
    "\<not> isMuted (r_notifications room) (ni_now i)"
    using assms by (auto simp: notify_gate_def)
  moreover have "inChannel (ni_message i) \<longleftrightarrow> \<not> (m_thread_root_id (ni_message i) \<noteq> None \<and> \<not> m_also_in_channel (ni_message i))"
    by (auto simp: inChannel_def)
  ultimately show ?thesis
    using assms(2) by (simp add: notifyReasons_def effective_level_def Let_def)
qed

lemma notifyReasons_set: "r \<in> set (notifyReasons i c) \<longleftrightarrow> reason_applies i c r"
proof (cases "notify_gate i")
  case False
  then show ?thesis by (simp add: notifyReasons_gate reason_applies_def)
next
  case True
  then obtain room where room: "ni_room i = Some room" by (auto simp: notify_gate_def)
  show ?thesis
    unfolding notifyReasons_open[OF True room] reason_applies_def
    using True room by (cases r) (auto split: option.splits)
qed

lemma notifyReasons_sorted: "sorted (notifyReasons i c) \<and> distinct (notifyReasons i c)"
proof (cases "notify_gate i")
  case False
  then show ?thesis by (simp add: notifyReasons_gate)
next
  case True
  then obtain room where room: "ni_room i = Some room" by (auto simp: notify_gate_def)
  show ?thesis unfolding notifyReasons_open[OF True room] by simp
qed

lemma mentionsMe_here: "mentionsMe m u False \<Longrightarrow> mentionsMe m u True"
  by (fastforce simp: mentionsMe_def split: if_splits)

lemma mentionsMe_user: "mentionsMe m u True = mentionsUser (m_mentions m) u"
proof -
  have "k = MentionUser \<or> k = MentionChannel \<or> k = MentionHere" for k by (cases k) auto
  then show ?thesis by (auto simp: mentionsMe_def mentionsUser_def)
qed

lemma reason_applies_here: "reason_applies i False r \<Longrightarrow> reason_applies i True r"
  by (cases r) (auto simp: reason_applies_def mentionsMe_here)

section \<open>Properties\<close>

text \<open>the reasons a message notifies are exactly those of the table \<open>reason_applies\<close>, sorted by name and
  without repetition.\<close>

theorem notify_reasons_table:
  "set (notifyReasons input countHere) = {r. reason_applies input countHere r} \<and>
     sorted (notifyReasons input countHere) \<and> distinct (notifyReasons input countHere)"
  using notifyReasons_set notifyReasons_sorted by blast

text \<open>what notifies on the desktop is in the activity feed too: the two places apply one rule, the feed counting
  here-mentions besides.\<close>

theorem notified_is_in_feed:
  assumes "shouldNotify input"
  shows "notifyReasons input True \<noteq> []"
  using assms notifyReasons_set reason_applies_here unfolding shouldNotify_def
  by (metis empty_set equals0D last_in_set)

theorem notified_is_in_feed_witness:
  "let input = \<lparr>ni_message = sample_message ''m'' 4 4, ni_userId = ''u'',
      ni_room = Some ((sample_room ''r'')\<lparr>r_notifications := Some \<lparr>rn_level = Some NlAll, rn_muted = False, rn_muted_until = None\<rparr>\<rparr>),
      ni_level = None, ni_thread = None, ni_now = 0\<rparr>
   in notifyReasons input True \<noteq> []"
  unfolding Let_def
  by (rule notified_is_in_feed)
     (simp add: shouldNotify_def notifyReasons_def samples isMuted_def mentionsMe_def some_in_def Let_def)

text \<open>the mute timer is set to the earliest expiry still ahead, and to none exactly when no mute will expire; until
  it fires no room's mute changes.\<close>

theorem mute_timer_is_earliest_expiry:
  "nextMuteExpiry notifications now = (if pending_expiries notifications now = {} then None
     else Some (Min (pending_expiries notifications now)))"
proof (cases "nextMuteExpiry notifications now")
  case None
  then show ?thesis using nextMuteExpiry_spec[of notifications now] by simp
next
  case (Some at)
  have "pending_expiries notifications now \<subseteq> the ` mute_expiry ` set notifications"
    by (force simp: pending_expiries_def)
  then have "finite (pending_expiries notifications now)" by (rule finite_subset) simp
  then have "Min (pending_expiries notifications now) = at"
    using nextMuteExpiry_spec[of notifications now] Some by (auto intro!: Min_eqI)
  then show ?thesis using nextMuteExpiry_spec[of notifications now] Some by simp
qed

end
