(* ===== verification/StoreState.thy ===== *)
theory StoreState
  imports ThreadRules PinRules SavedRules ActivityFeed NotifyRules
begin

text \<open>
  The state of the chat store (\<open>web/lib/chat/store/state.ts\<close>) and the tools every slice uses
  (\<open>web/lib/chat/store/core.ts\<close>).

  The store is one record: the immutable chat state, the variables the slices keep in closures, and the
  asynchronous machinery made explicit. An \<open>async\<close> function is cut at its awaits: the part up to a request
  adds the request to \<open>calls\<close>, the part after it is the function that settles that request; a part that
  awaits another task of the store is a \<open>cont\<close> in \<open>waiting\<close>, moved to \<open>ready\<close> when the task ends.
\<close>

section \<open>The chat state\<close>

datatype load_status = Loading | Ready | NotFound | LoadError

record 'a loaded =
  ld_status :: load_status
  ld_list :: "'a list"

record timeline_state =
  tl_status :: load_status
  tl_messages :: "message list"
  tl_hasOlder :: bool
  tl_loadingOlder :: bool
  tl_hasNewer :: bool
  tl_loadingNewer :: bool
  tl_unreadAfterSeq :: "int option"
  tl_unreadAtOpen :: int
  tl_changeSeq :: int

datatype outgoing_status = Pending | Failed

record outgoing_message =
  og_clientMsgId :: ident
  og_body :: string
  og_threadRootId :: "ident option"
  og_alsoInChannel :: bool
  og_attachments :: "message_attachment list"
  og_suppressed :: "string list option"
  og_status :: outgoing_status
  og_createdAt :: int \<comment> \<open>local time in milliseconds; the code stores its ISO form\<close>

record thread_state =
  th_status :: load_status
  th_roomId :: ident
  th_root :: "message option"
  th_replies :: "message list"
  th_hasOlder :: bool
  th_loadingOlder :: bool
  th_hasNewer :: bool
  th_loadingNewer :: bool
  th_lastReadThreadSeq :: "int option"

record typing_user =
  ty_user :: user_profile
  ty_expiresAt :: int

datatype connection_banner = BanReconnecting | BanSyncing | BanRestored

record connection_view =
  cv_banner :: "connection_banner option"
  cv_unavailable :: "(int \<times> int) option" \<comment> \<open>\<open>lastConnectedAt\<close>, \<open>retryCount\<close>\<close>

record room_focus =
  fo_roomId :: ident
  fo_caughtUp :: bool

record saved_ws =
  sw_tabs :: saved_tabs
  sw_inProgressCount :: int
  sw_cursor :: "int option"

record activity_ws =
  aw_lists :: "(string, activity_list_state) jsrec"
  aw_unreadCount :: "int option"

record huddle_ring =
  hr_roomId :: ident
  hr_huddleId :: ident
  hr_callerId :: ident

record chat_state =
  s_workspaces :: "workspace loaded"
  s_roomLists :: "(ident, ident loaded) jsrec"
  s_rooms :: "(ident, room) jsrec"
  s_timelines :: "(ident, timeline_state) jsrec"
  s_roomMembers :: "(ident, member loaded) jsrec"
  s_members :: "(ident, member loaded) jsrec"
  s_invites :: "(ident, invite loaded) jsrec"
  s_activeWorkspaceId :: "ident option"
  s_focus :: "room_focus option"
  s_typing :: "(ident, typing_user list) jsrec"
  s_threads :: "(ident, thread_state) jsrec"
  s_threadLists :: "(ident, followed_thread loaded) jsrec"
  s_unreadThreadCounts :: "(ident, int) jsrec"
  s_threadTyping :: "(ident, typing_user list) jsrec"
  s_pins :: "(ident, message loaded) jsrec"
  s_saved :: "(ident, saved_ws) jsrec"
  s_threadFocus :: "(ident \<times> ident) option"
  s_outgoing :: "(ident, outgoing_message list) jsrec"
  s_removedRooms :: "(ident, removal_reason) jsrec"
  s_removedWorkspaces :: "(ident, removal_reason \<times> workspace) jsrec"
  s_notificationLevels :: "(ident, notify_level) jsrec"
  s_activity :: "(ident, activity_ws) jsrec"
  s_connection :: connection_view
  s_huddleRing :: "huddle_ring option"
  s_huddleCallRoomId :: "ident option"
  s_features :: "bool option"

definition initialState :: chat_state where
  "initialState =
     \<lparr>s_workspaces = \<lparr>ld_status = Loading, ld_list = []\<rparr>, s_roomLists = [], s_rooms = [], s_timelines = [],
      s_roomMembers = [], s_members = [], s_invites = [], s_activeWorkspaceId = None, s_focus = None,
      s_typing = [], s_threads = [], s_threadLists = [], s_unreadThreadCounts = [], s_threadTyping = [],
      s_pins = [], s_saved = [], s_threadFocus = None, s_outgoing = [], s_removedRooms = [],
      s_removedWorkspaces = [], s_notificationLevels = [], s_activity = [],
      s_connection = \<lparr>cv_banner = None, cv_unavailable = None\<rparr>, s_huddleRing = None,
      s_huddleCallRoomId = None, s_features = None\<rparr>"

definition statusOf :: "api_error \<Rightarrow> load_status" where
  "statusOf err = (if err = ApiError 404 then NotFound else LoadError)"

definition MAX_UNREAD_ACTIVITY :: int where "MAX_UNREAD_ACTIVITY = 100"
definition HUDDLE_RING_MS :: int where "HUDDLE_RING_MS = 60000"
definition TYPING_TTL_MS :: int where "TYPING_TTL_MS = 6000"
definition SEND_TIMEOUT_MS :: int where "SEND_TIMEOUT_MS = 10000"

section \<open>Requests, tasks and continuations\<close>

text \<open>The keys of \<open>once\<close>: at most one run per key at a time.\<close>

datatype once_key =
    KWorkspaces | KRooms ident | KRoom ident | KRoomInfo ident | KJoined ident | KMembers ident
  | KWsMembers ident | KInvites ident | KNotificationLevel ident | KPins ident
  | KThreads ident | KThread ident | KThreadRead ident
  | KActivity ident string | KActivityCount ident | KActivityMore ident string
  | KSaved ident saved_tab | KSavedCount ident

text \<open>The promises the store itself awaits.\<close>

datatype task = TOnce once_key | TSync ident | TRead ident | TSavedSync ident | TSend ident

text \<open>Requests of the API in flight, by slice; the constructor says where the answer goes.\<close>

datatype timeline_call =
    CListChanges ident int "int option" \<comment> \<open>the cursor asked from, the newest message shown before\<close>
  | CListLatest ident "int option"
  | CGetRoomInfo ident
  | COpenCached ident
  | COpenFresh ident
  | CAround ident ident
  | CAfterUnread ident int
  | CNewer ident int
  | COlder ident int

datatype thread_call =
    CListThreads ident
  | CThreadPage ident ident
  | CThreadAround ident ident ident
  | CThreadNewer ident ident int
  | CThreadOlder ident ident int
  | CMarkThreadRead ident ident int
  | CSetThreadNotify ident ident ident bool "bool option"

datatype saved_call =
    CSavedCount ident
  | CSavedTab ident saved_tab
  | CSavedMore ident saved_tab "ident option"
  | CSavedChanges ident int
  | CSaveToggle ident ident
  | CSaveMessage ident ident
  | CMoveSaved ident ident saved_tab
  | CRemoveSaved ident ident "(ident \<times> bool) option"

datatype activity_call =
    CListActivity ident string
  | CMoreActivity ident string "string option"
  | CActivityCount ident

datatype message_call =
    CSend ident ident nat
  | CEditMessage ident ident string
  | CReact ident ident string bool message
  | CPin ident ident bool
  | CDeleteAttachment ident ident ident
  | CRemovePreview ident ident ident message
  | CDeleteMessage ident ident

datatype room_call =
    CListRooms ident
  | CListRoomMembers ident
  | CGetJoined ident ident
  | CCreateRoom ident
  | CUpdateRoom ident
  | CArchiveRoom ident
  | CUnarchiveRoom ident
  | CJoinRoom ident
  | CAddRoomMember ident ident
  | CRemoveRoomMember ident ident
  | CLeaveRoom ident
  | CDeleteRoom ident "ident option"
  | CListPins ident
  | CMarkRead ident int

datatype workspace_call =
    CListWorkspaces
  | CCreateWorkspace string
  | CUpdateWorkspace ident
  | CListMembers ident
  | CChangeRole ident ident role
  | CRemoveMember ident ident
  | CTransferOwnership ident ident
  | CListInvites ident
  | CCreateInvite ident
  | CRevokeInvite ident ident
  | CAcceptInvite string
  | CGetLevel ident
  | CSetLevel ident "notify_level option"
  | CSetRoomNotify ident room_notifications
  | CSetAway bool
  | CSetStatus ident "user_status option"
  | CJoiningSoon ident
  | CFeatures

datatype call =
    TimelineCall timeline_call
  | ThreadCall thread_call
  | SavedCall saved_call
  | ActivityCall activity_call
  | MessageCall message_call
  | RoomCall room_call
  | WorkspaceCall workspace_call

text \<open>The rest of an async function that waits for tasks of the store.\<close>

datatype cont =
    ContReloadRooms ident
  | ContReloadThreads ident
  | ContReloadThread ident ident
  | ContReloadMembers ident
  | ContOpenSynced ident
  | ContFinish once_key
  | ContJumpOpen ident ident
  | ContJumpAround ident ident
  | ContJumpThread ident ident ident
  | ContSavedFailed call api_error

datatype typing_key = TkRoom ident ident | TkThread ident ident

text \<open>What the promise of an action ended with, for the actions whose caller is told.\<close>

datatype outcome =
    Threw call api_error
  | JumpedTo ident ident bool "ident option"
  | JumpedToReply ident ident bool

section \<open>The store\<close>

record store =
  state :: chat_state
  userId :: ident
  now :: int
  calls :: "call list"
  inflight :: "once_key list"
  waiting :: "(task list \<times> cont) list"
  ready :: "cont list"
  outcomes :: "outcome list"
  typingTimers :: "(typing_key, int) jsrec" \<comment> \<open>the time a timer fires\<close>
  muteTimer :: "int option"
  ringTimer :: "int option"
  readTargets :: "(ident, int) jsrec"
  reading :: "ident list"
  syncing :: "(ident, bool) jsrec" \<comment> \<open>\<open>again\<close> of the running sync\<close>
  knownSavedStates :: "(ident, saved_state) jsrec"
  savedSyncing :: "(ident, bool) jsrec"
  countedActivity :: "ident list"
  sendQueues :: "(ident, nat) jsrec" \<comment> \<open>room to queue object\<close>
  queueHeap :: "(nat, ident list) jsrec" \<comment> \<open>the queue objects, which a running loop may still hold\<close>
  sendLoops :: "(ident, nat \<times> nat) jsrec" \<comment> \<open>the queue object and the request a loop waits for\<close>
  nextId :: nat

definition createStore :: "ident \<Rightarrow> int \<Rightarrow> store" where
  "createStore user t =
     \<lparr>state = initialState, userId = user, now = t, calls = [], inflight = [], waiting = [], ready = [],
      outcomes = [], typingTimers = [], muteTimer = None, ringTimer = None, readTargets = [], reading = [],
      syncing = [], knownSavedStates = [], savedSyncing = [], countedActivity = [], sendQueues = [],
      queueHeap = [], sendLoops = [], nextId = 0\<rparr>"

definition request :: "call \<Rightarrow> store \<Rightarrow> store" where
  "request c s = s\<lparr>calls := calls s @ [c]\<rparr>"

definition in_progress :: "store \<Rightarrow> task \<Rightarrow> bool" where
  "in_progress s t = (case t of
       TOnce k \<Rightarrow> k \<in> set (inflight s)
     | TSync r \<Rightarrow> rget (syncing s) r \<noteq> None
     | TRead r \<Rightarrow> r \<in> set (reading s)
     | TSavedSync w \<Rightarrow> rget (savedSyncing s) w \<noteq> None
     | TSend r \<Rightarrow> rget (sendLoops s) r \<noteq> None)"

definition await_tasks :: "task list \<Rightarrow> cont \<Rightarrow> store \<Rightarrow> store" where
  "await_tasks ts k s =
     (let open_ts = filter (in_progress s) ts
      in if open_ts = [] then s\<lparr>ready := ready s @ [k]\<rparr> else s\<lparr>waiting := waiting s @ [(open_ts, k)]\<rparr>)"

definition settle_task :: "task \<Rightarrow> store \<Rightarrow> store" where
  \<comment> \<open>A task ended: what waited for it alone becomes ready.\<close>
  "settle_task t s =
     (let rest = map (\<lambda>(ts, k). (filter (\<lambda>x. x \<noteq> t) ts, k)) (waiting s)
      in s\<lparr>waiting := filter (\<lambda>(ts, k). ts \<noteq> []) rest,
           ready := ready s @ map snd (filter (\<lambda>(ts, k). ts = []) rest)\<rparr>)"

definition once :: "once_key \<Rightarrow> (store \<Rightarrow> store) \<Rightarrow> store \<Rightarrow> store" where
  "once key run s =
     (if key \<in> set (inflight s) then s
      else let s' = run s in s'\<lparr>inflight := inflight s' @ [key]\<rparr>)"

definition finish_once :: "once_key \<Rightarrow> store \<Rightarrow> store" where
  "finish_once key s = settle_task (TOnce key) (s\<lparr>inflight := filter (\<lambda>k. k \<noteq> key) (inflight s)\<rparr>)"

definition throw :: "call \<Rightarrow> api_error \<Rightarrow> store \<Rightarrow> store" where
  "throw c e s = s\<lparr>outcomes := outcomes s @ [Threw c e]\<rparr>"

section \<open>Writing the state\<close>

definition scheduleMuteExpiry :: "store \<Rightarrow> store" where
  "scheduleMuteExpiry s =
     (let at = nextMuteExpiry (map r_notifications (rvals (s_rooms (state s)))) (now s)
      in if muteTimer s = at then s else s\<lparr>muteTimer := at\<rparr>)"

definition update :: "(chat_state \<Rightarrow> chat_state) \<Rightarrow> store \<Rightarrow> store" where
  "update recipe s =
     (let next_state = recipe (state s) in
      if next_state = state s then s
      else let s' = s\<lparr>state := next_state\<rparr>
           in if s_rooms next_state \<noteq> s_rooms (state s) then scheduleMuteExpiry s' else s')"

definition fireMuteTimer :: "store \<Rightarrow> store" where
  \<comment> \<open>The callback of the timer.\<close>
  "fireMuteTimer s =
     (let t = now s;
          unmute = (\<lambda>room. case r_notifications room of
              None \<Rightarrow> room
            | Some n \<Rightarrow> if \<not> rn_muted n \<or> isMuted (Some n) t then room
                        else room\<lparr>r_notifications := Some (n\<lparr>rn_muted := False, rn_muted_until := None\<rparr>)\<rparr>)
      in scheduleMuteExpiry
           (update (\<lambda>c. c\<lparr>s_rooms := rmap (\<lambda>_. unmute) (s_rooms c)\<rparr>) (s\<lparr>muteTimer := None\<rparr>)))"

definition putRoom :: "room \<Rightarrow> store \<Rightarrow> store" where
  "putRoom room = update (\<lambda>c.
     let existing = rget (s_rooms c) (r_id room);
         merged = room\<lparr>r_member_count := (case r_member_count room of
                     None \<Rightarrow> Option.bind existing r_member_count | Some n \<Rightarrow> Some n)\<rparr>
     in c\<lparr>s_rooms := rput (r_id room) merged (s_rooms c)\<rparr>)"

definition patchRec :: "ident \<Rightarrow> ('v \<Rightarrow> 'v) \<Rightarrow> (ident, 'v) jsrec \<Rightarrow> (ident, 'v) jsrec" where
  \<comment> \<open>The common shape of the patch functions: replace an entry that is there.\<close>
  "patchRec k recipe r = (case rget r k of None \<Rightarrow> r | Some v \<Rightarrow> rput k (recipe v) r)"

definition patchRoom :: "ident \<Rightarrow> (room \<Rightarrow> room) \<Rightarrow> store \<Rightarrow> store" where
  "patchRoom roomId recipe = update (\<lambda>c. c\<lparr>s_rooms := patchRec roomId recipe (s_rooms c)\<rparr>)"

definition patchTimeline :: "ident \<Rightarrow> (timeline_state \<Rightarrow> timeline_state) \<Rightarrow> store \<Rightarrow> store" where
  "patchTimeline roomId patch = update (\<lambda>c. c\<lparr>s_timelines := patchRec roomId patch (s_timelines c)\<rparr>)"

definition patchRoomList :: "ident \<Rightarrow> (ident list \<Rightarrow> ident list) \<Rightarrow> store \<Rightarrow> store" where
  "patchRoomList workspaceId recipe = update (\<lambda>c.
     c\<lparr>s_roomLists := patchRec workspaceId (\<lambda>l. l\<lparr>ld_list := recipe (ld_list l)\<rparr>) (s_roomLists c)\<rparr>)"

definition patchMembers :: "ident \<Rightarrow> (member list \<Rightarrow> member list) \<Rightarrow> store \<Rightarrow> store" where
  "patchMembers roomId recipe = update (\<lambda>c.
     c\<lparr>s_roomMembers := patchRec roomId (\<lambda>l. l\<lparr>ld_list := recipe (ld_list l)\<rparr>) (s_roomMembers c)\<rparr>)"

definition patchWorkspaceMembers :: "ident \<Rightarrow> (member list \<Rightarrow> member list) \<Rightarrow> store \<Rightarrow> store" where
  "patchWorkspaceMembers workspaceId recipe = update (\<lambda>c.
     c\<lparr>s_members := patchRec workspaceId (\<lambda>l. l\<lparr>ld_list := recipe (ld_list l)\<rparr>) (s_members c)\<rparr>)"

definition patchInvites :: "ident \<Rightarrow> (invite list \<Rightarrow> invite list) \<Rightarrow> store \<Rightarrow> store" where
  "patchInvites workspaceId recipe = update (\<lambda>c.
     c\<lparr>s_invites := patchRec workspaceId (\<lambda>l. l\<lparr>ld_list := recipe (ld_list l)\<rparr>) (s_invites c)\<rparr>)"

definition patchWorkspace :: "ident \<Rightarrow> (workspace \<Rightarrow> workspace) \<Rightarrow> store \<Rightarrow> store" where
  "patchWorkspace workspaceId recipe = update (\<lambda>c.
     (case List.find (\<lambda>w. w_id w = workspaceId) (ld_list (s_workspaces c)) of
        None \<Rightarrow> c
      | Some workspace \<Rightarrow>
          c\<lparr>s_workspaces := (s_workspaces c)\<lparr>ld_list :=
              map (\<lambda>w. if w_id w = workspaceId then recipe workspace else w) (ld_list (s_workspaces c))\<rparr>\<rparr>))"

definition addRoom :: "ident \<Rightarrow> room \<Rightarrow> store \<Rightarrow> store" where
  "addRoom workspaceId room s =
     (let s1 = putRoom room s
      in patchRoomList workspaceId
           (\<lambda>is. if r_id room \<in> set is then is else insertByActivity is room (s_rooms (state s1))) s1)"

definition patchOutgoing :: "ident \<Rightarrow> (outgoing_message list \<Rightarrow> outgoing_message list) \<Rightarrow> store \<Rightarrow> store" where
  "patchOutgoing roomId recipe = update (\<lambda>c.
     let current = (case rget (s_outgoing c) roomId of None \<Rightarrow> [] | Some l \<Rightarrow> l);
         nxt = recipe current
     in if nxt = current then c
        else c\<lparr>s_outgoing := rset roomId (if nxt \<noteq> [] then Some nxt else None) (s_outgoing c)\<rparr>)"

definition patchThread :: "ident \<Rightarrow> (thread_state \<Rightarrow> thread_state) \<Rightarrow> store \<Rightarrow> store" where
  "patchThread rootId recipe = update (\<lambda>c. c\<lparr>s_threads := patchRec rootId recipe (s_threads c)\<rparr>)"

definition patchThreadList :: "ident \<Rightarrow> (followed_thread list \<Rightarrow> followed_thread list) \<Rightarrow> store \<Rightarrow> store" where
  "patchThreadList workspaceId recipe = update (\<lambda>c.
     c\<lparr>s_threadLists := patchRec workspaceId (\<lambda>l. l\<lparr>ld_list := recipe (ld_list l)\<rparr>) (s_threadLists c)\<rparr>)"

definition patchMessage :: "ident \<Rightarrow> (message \<Rightarrow> message) \<Rightarrow> message list \<Rightarrow> message list" where
  "patchMessage messageId recipe ms = map (\<lambda>m. if m_id m = messageId then recipe m else m) ms"

definition patchMessageEverywhere :: "ident \<Rightarrow> ident \<Rightarrow> (message \<Rightarrow> message) \<Rightarrow> store \<Rightarrow> store" where
  "patchMessageEverywhere roomId messageId recipe s =
     (let s1 = (case rget (s_timelines (state s)) roomId of
                  None \<Rightarrow> s
                | Some timeline \<Rightarrow>
                    if some_in (\<lambda>m. m_id m = messageId) (tl_messages timeline)
                    then patchTimeline roomId (\<lambda>t. t\<lparr>tl_messages := patchMessage messageId recipe (tl_messages timeline)\<rparr>) s
                    else s)
      in fold (\<lambda>rootId. patchThread rootId (\<lambda>t.
                 t\<lparr>th_root := map_option (\<lambda>m. if m_id m = messageId then recipe m else m) (th_root t),
                   th_replies := patchMessage messageId recipe (th_replies t)\<rparr>))
           (map fst (s_threads (state s1))) s1)"

definition findInThread :: "ident \<Rightarrow> thread_state \<Rightarrow> message option" where
  "findInThread messageId thread =
     (case th_root thread of
        Some root \<Rightarrow> if m_id root = messageId then Some root
                     else List.find (\<lambda>m. m_id m = messageId) (th_replies thread)
      | None \<Rightarrow> List.find (\<lambda>m. m_id m = messageId) (th_replies thread))"

definition findMessage :: "store \<Rightarrow> ident \<Rightarrow> ident \<Rightarrow> message option" where
  "findMessage s roomId messageId =
     (case Option.bind (rget (s_timelines (state s)) roomId)
             (\<lambda>t. List.find (\<lambda>m. m_id m = messageId) (tl_messages t)) of
        Some m \<Rightarrow> Some m
      | None \<Rightarrow> fold (\<lambda>t found. case found of Some m \<Rightarrow> Some m | None \<Rightarrow> findInThread messageId t)
                  (rvals (s_threads (state s))) None)"

section \<open>Actions of the core\<close>

definition setActiveWorkspace :: "ident option \<Rightarrow> store \<Rightarrow> store" where
  "setActiveWorkspace workspaceId = update (\<lambda>c.
     if s_activeWorkspaceId c = workspaceId then c else c\<lparr>s_activeWorkspaceId := workspaceId\<rparr>)"

definition forgetRemovedWorkspace :: "ident \<Rightarrow> store \<Rightarrow> store" where
  "forgetRemovedWorkspace workspaceId = update (\<lambda>c.
     if rget (s_removedWorkspaces c) workspaceId \<noteq> None
     then c\<lparr>s_removedWorkspaces := rclear workspaceId (s_removedWorkspaces c)\<rparr> else c)"

definition setConnection :: "connection_view \<Rightarrow> store \<Rightarrow> store" where
  "setConnection connection = update (\<lambda>c.
     if s_connection c = connection then c else c\<lparr>s_connection := connection\<rparr>)"

definition disposeCore :: "store \<Rightarrow> store" where
  "disposeCore s = s\<lparr>typingTimers := [], muteTimer := None\<rparr>"

section \<open>What the writers do\<close>

text \<open>The writers change the state by their recipe, at most the mute timer beside it, and nothing else.\<close>

lemma schedule_same [simp]:
  "state (scheduleMuteExpiry s) = state s" "userId (scheduleMuteExpiry s) = userId s" "now (scheduleMuteExpiry s) = now s"
  "calls (scheduleMuteExpiry s) = calls s" "inflight (scheduleMuteExpiry s) = inflight s"
  "waiting (scheduleMuteExpiry s) = waiting s" "ready (scheduleMuteExpiry s) = ready s"
  "outcomes (scheduleMuteExpiry s) = outcomes s" "typingTimers (scheduleMuteExpiry s) = typingTimers s"
  "ringTimer (scheduleMuteExpiry s) = ringTimer s" "readTargets (scheduleMuteExpiry s) = readTargets s"
  "reading (scheduleMuteExpiry s) = reading s" "syncing (scheduleMuteExpiry s) = syncing s"
  "knownSavedStates (scheduleMuteExpiry s) = knownSavedStates s" "savedSyncing (scheduleMuteExpiry s) = savedSyncing s"
  "countedActivity (scheduleMuteExpiry s) = countedActivity s" "sendQueues (scheduleMuteExpiry s) = sendQueues s"
  "queueHeap (scheduleMuteExpiry s) = queueHeap s" "sendLoops (scheduleMuteExpiry s) = sendLoops s"
  "nextId (scheduleMuteExpiry s) = nextId s"
  by (simp_all add: scheduleMuteExpiry_def Let_def)

lemma update_state [simp, store_simps]: "state (update f s) = f (state s)"
  by (simp add: update_def Let_def)

lemma update_same [simp, store_simps]:
  "userId (update f s) = userId s" "now (update f s) = now s" "calls (update f s) = calls s"
  "inflight (update f s) = inflight s" "waiting (update f s) = waiting s" "ready (update f s) = ready s"
  "outcomes (update f s) = outcomes s" "typingTimers (update f s) = typingTimers s"
  "ringTimer (update f s) = ringTimer s" "readTargets (update f s) = readTargets s"
  "reading (update f s) = reading s" "syncing (update f s) = syncing s"
  "knownSavedStates (update f s) = knownSavedStates s" "savedSyncing (update f s) = savedSyncing s"
  "countedActivity (update f s) = countedActivity s" "sendQueues (update f s) = sendQueues s"
  "queueHeap (update f s) = queueHeap s" "sendLoops (update f s) = sendLoops s" "nextId (update f s) = nextId s"
  by (simp_all add: update_def Let_def)

lemma update_id: "f (state s) = state s \<Longrightarrow> update f s = s"
  by (simp add: update_def)

lemma update_muteTimer: "s_rooms (f (state s)) = s_rooms (state s) \<Longrightarrow> muteTimer (update f s) = muteTimer s"
  by (simp add: update_def Let_def)

lemma patchRec_get [simp, jsrec]:
  "rget (patchRec k f r) k' = (if k = k' then map_option f (rget r k) else rget r k')"
  by (auto simp: patchRec_def split: option.splits)

lemma patchRec_all:
  "\<forall>k v. rget r k = Some v \<longrightarrow> P k v \<Longrightarrow> (\<And>v. rget r k = Some v \<Longrightarrow> P k v \<Longrightarrow> P k (f v)) \<Longrightarrow>
   rget (patchRec k f r) k' = Some v' \<Longrightarrow> P k' v'"
  by (auto split: if_splits)

lemma request_same [simp, store_simps]:
  "state (request c s) = state s" "userId (request c s) = userId s" "now (request c s) = now s"
  "calls (request c s) = calls s @ [c]" "inflight (request c s) = inflight s" "waiting (request c s) = waiting s"
  "ready (request c s) = ready s" "outcomes (request c s) = outcomes s"
  "readTargets (request c s) = readTargets s" "reading (request c s) = reading s"
  "syncing (request c s) = syncing s" "savedSyncing (request c s) = savedSyncing s"
  "knownSavedStates (request c s) = knownSavedStates s" "sendQueues (request c s) = sendQueues s"
  "queueHeap (request c s) = queueHeap s" "sendLoops (request c s) = sendLoops s" "nextId (request c s) = nextId s"
  by (simp_all add: request_def)

lemma settle_task_same [simp, store_simps]:
  "state (settle_task t s) = state s" "userId (settle_task t s) = userId s" "now (settle_task t s) = now s"
  "calls (settle_task t s) = calls s" "inflight (settle_task t s) = inflight s"
  "readTargets (settle_task t s) = readTargets s" "reading (settle_task t s) = reading s"
  "syncing (settle_task t s) = syncing s" "savedSyncing (settle_task t s) = savedSyncing s"
  "knownSavedStates (settle_task t s) = knownSavedStates s" "sendQueues (settle_task t s) = sendQueues s"
  "queueHeap (settle_task t s) = queueHeap s" "sendLoops (settle_task t s) = sendLoops s" "nextId (settle_task t s) = nextId s"
  by (simp_all add: settle_task_def Let_def)

lemma await_same [simp, store_simps]:
  "state (await_tasks ts k s) = state s" "userId (await_tasks ts k s) = userId s" "now (await_tasks ts k s) = now s"
  "calls (await_tasks ts k s) = calls s" "inflight (await_tasks ts k s) = inflight s"
  "readTargets (await_tasks ts k s) = readTargets s" "reading (await_tasks ts k s) = reading s"
  "syncing (await_tasks ts k s) = syncing s" "savedSyncing (await_tasks ts k s) = savedSyncing s"
  "knownSavedStates (await_tasks ts k s) = knownSavedStates s" "sendQueues (await_tasks ts k s) = sendQueues s"
  "queueHeap (await_tasks ts k s) = queueHeap s" "sendLoops (await_tasks ts k s) = sendLoops s" "nextId (await_tasks ts k s) = nextId s"
  by (simp_all add: await_tasks_def Let_def)

lemma throw_same [simp, store_simps]:
  "state (throw c e s) = state s" "calls (throw c e s) = calls s" "inflight (throw c e s) = inflight s"
  "syncing (throw c e s) = syncing s" "reading (throw c e s) = reading s" "sendLoops (throw c e s) = sendLoops s"
  "sendQueues (throw c e s) = sendQueues s" "queueHeap (throw c e s) = queueHeap s" "userId (throw c e s) = userId s"
  by (simp_all add: throw_def)

lemma finish_once_same [simp, store_simps]:
  "state (finish_once k s) = state s" "calls (finish_once k s) = calls s" "userId (finish_once k s) = userId s"
  "inflight (finish_once k s) = filter (\<lambda>x. x \<noteq> k) (inflight s)" "syncing (finish_once k s) = syncing s"
  "reading (finish_once k s) = reading s" "sendLoops (finish_once k s) = sendLoops s"
  "sendQueues (finish_once k s) = sendQueues s" "queueHeap (finish_once k s) = queueHeap s"
  by (simp_all add: finish_once_def)

lemma once_state:
  "state (once k run s) = (if k \<in> set (inflight s) then state s else state (run s))"
  by (simp add: once_def Let_def)

end
