(* ===== verification/StoreInv.thy ===== *)
theory StoreInv
  imports StoreState
begin

text \<open>
  The invariant of the chat state that every part of the store keeps: lists of messages ordered and without
  repetition, pins, saved tabs, followed threads and activity lists well formed, room lists without
  repetition. Each component proves of its operations that they keep it, in the collection \<open>store_wf\<close>.
\<close>

named_theorems store_wf

section \<open>A property of every entry of a record\<close>

definition rec_all :: "('v \<Rightarrow> bool) \<Rightarrow> ('k, 'v) jsrec \<Rightarrow> bool" where
  "rec_all P r \<longleftrightarrow> rwf r \<and> (\<forall>k v. rget r k = Some v \<longrightarrow> P v)"

lemma rwf_patchRec [simp]: "rwf r \<Longrightarrow> rwf (patchRec k f r)"
  by (simp add: patchRec_def split: option.splits)

lemma rec_all_rwf: "rec_all P r \<Longrightarrow> rwf r"
  by (simp add: rec_all_def)

lemma rec_all_Nil [simp]: "rec_all P []"
  by (simp add: rec_all_def)

lemma rec_all_get: "rec_all P r \<Longrightarrow> rget r k = Some v \<Longrightarrow> P v"
  by (auto simp: rec_all_def)

lemma rec_all_rput [intro]: "rec_all P r \<Longrightarrow> P v \<Longrightarrow> rec_all P (rput k v r)"
  by (simp add: rec_all_def)

lemma rec_all_rclear [intro]: "rec_all P r \<Longrightarrow> rec_all P (rclear k r)"
  by (simp add: rec_all_def)

lemma rec_all_rset [intro]: "rec_all P r \<Longrightarrow> (\<And>v. ov = Some v \<Longrightarrow> P v) \<Longrightarrow> rec_all P (rset k ov r)"
  by (simp add: rec_all_def)

lemma rec_all_patch [intro]: "rec_all P r \<Longrightarrow> (\<And>v. rget r k = Some v \<Longrightarrow> P v \<Longrightarrow> P (f v)) \<Longrightarrow> rec_all P (patchRec k f r)"
  by (auto simp: rec_all_def)

lemma rec_all_rmap [intro]: "rec_all P r \<Longrightarrow> (\<And>k v. P v \<Longrightarrow> P (f k v)) \<Longrightarrow> rec_all P (rmap f r)"
  by (auto simp: rec_all_def)

section \<open>The invariant\<close>

definition activity_ok :: "activity_ws \<Rightarrow> bool" where
  "activity_ok a \<longleftrightarrow> rwf (aw_lists a) \<and> rec_all (\<lambda>l. feed_wf (al_items l)) (aw_lists a)"

definition saved_ok :: "saved_tabs \<Rightarrow> bool" where
  "saved_ok tabs \<longleftrightarrow> (\<forall>tab t. rget tabs tab = Some t \<longrightarrow>
     distinct (map sv_message_id (tb_items t)) \<and> (\<forall>i\<in>set (tb_items t). sv_state i = tab_state tab))"

lemma saved_ok_Nil [simp]: "saved_ok []"
  by (simp add: saved_ok_def)

lemma applySavedItem_ok: "saved_ok tabs \<Longrightarrow> saved_ok (applySavedItem tabs item)"
  unfolding saved_ok_def
proof (intro allI impI)
  fix tab t
  assume a: "\<forall>tab t. rget tabs tab = Some t \<longrightarrow>
      distinct (map sv_message_id (tb_items t)) \<and> (\<forall>i\<in>set (tb_items t). sv_state i = tab_state tab)"
    and "rget (applySavedItem tabs item) tab = Some t"
  then obtain u where u: "rget tabs tab = Some u" "t = u\<lparr>tb_items := tabItems item tab u\<rparr>"
    by (auto simp: applySavedItem_get)
  from a u(1) have "distinct (map sv_message_id (tb_items u))" "\<forall>i\<in>set (tb_items u). sv_state i = tab_state tab"
    by auto
  then show "distinct (map sv_message_id (tb_items t)) \<and> (\<forall>i\<in>set (tb_items t). sv_state i = tab_state tab)"
    by (cases rule: tabItems_cases[of item tab u]) (auto simp: u(2) distinct_map_filter)
qed

definition chat_wf :: "chat_state \<Rightarrow> bool" where
  "chat_wf c \<longleftrightarrow>
     rec_all (\<lambda>t. timeline_wf (tl_messages t)) (s_timelines c) \<and>
     rec_all (\<lambda>t. timeline_wf (th_replies t)) (s_threads c) \<and>
     rec_all (\<lambda>l. pins_wf (ld_list l)) (s_pins c) \<and>
     rec_all (\<lambda>w. saved_ok (sw_tabs w)) (s_saved c) \<and>
     rec_all (\<lambda>l. threads_ok (ld_list l)) (s_threadLists c) \<and>
     rec_all activity_ok (s_activity c) \<and>
     rec_all (\<lambda>l. distinct (ld_list l)) (s_roomLists c)"

lemma chat_wfD:
  assumes "chat_wf c"
  shows "rget (s_timelines c) r = Some t \<Longrightarrow> timeline_wf (tl_messages t)"
    and "rget (s_threads c) r = Some th \<Longrightarrow> timeline_wf (th_replies th)"
    and "rget (s_pins c) r = Some pl \<Longrightarrow> pins_wf (ld_list pl)"
    and "rget (s_saved c) r = Some w \<Longrightarrow> saved_ok (sw_tabs w)"
    and "rget (s_threadLists c) r = Some fl \<Longrightarrow> threads_ok (ld_list fl)"
    and "rget (s_activity c) r = Some a \<Longrightarrow> activity_ok a"
    and "rget (s_roomLists c) r = Some rl \<Longrightarrow> distinct (ld_list rl)"
  using assms by (auto simp: chat_wf_def dest: rec_all_get)

lemma initial_wf: "chat_wf initialState"
  by (simp add: chat_wf_def initialState_def)

abbreviation wf :: "store \<Rightarrow> bool" where
  "wf s \<equiv> chat_wf (state s)"

lemma update_wf:
  "wf s \<Longrightarrow> (\<And>c. c = state s \<Longrightarrow> chat_wf c \<Longrightarrow> chat_wf (f c)) \<Longrightarrow> wf (update f s)"
  by simp

lemma wf_state_eq: "state s' = state s \<Longrightarrow> wf s \<Longrightarrow> wf s'"
  by simp

lemma wf_fold [store_wf]: "wf s \<Longrightarrow> (\<And>x s. wf s \<Longrightarrow> wf (f x s)) \<Longrightarrow> wf (fold f xs s)"
  by (induction xs arbitrary: s) auto

lemma if_wf [store_wf]: "wf x \<Longrightarrow> wf y \<Longrightarrow> wf (if b then x else y)"
  by simp

lemma once_wf [store_wf]: "wf s \<Longrightarrow> (wf s \<Longrightarrow> wf (run s)) \<Longrightarrow> wf (once k run s)"
  by (simp add: once_state)

section \<open>The writers of the core keep it\<close>

lemma fireMuteTimer_wf [store_wf]: "wf s \<Longrightarrow> wf (fireMuteTimer s)"
  by (simp add: fireMuteTimer_def Let_def chat_wf_def)

lemma putRoom_wf [store_wf]: "wf s \<Longrightarrow> wf (putRoom room s)"
  by (simp add: putRoom_def Let_def chat_wf_def)

lemma patchRoom_wf [store_wf]: "wf s \<Longrightarrow> wf (patchRoom r f s)"
  by (simp add: patchRoom_def chat_wf_def)

lemma patchTimeline_wf [store_wf]:
  "wf s \<Longrightarrow> (\<And>t. rget (s_timelines (state s)) r = Some t \<Longrightarrow> timeline_wf (tl_messages t) \<Longrightarrow> timeline_wf (tl_messages (f t))) \<Longrightarrow>
   wf (patchTimeline r f s)"
  by (auto simp: patchTimeline_def chat_wf_def)

lemma patchRoomList_wf [store_wf]:
  "wf s \<Longrightarrow> (\<And>l. distinct l \<Longrightarrow> distinct (f l)) \<Longrightarrow> wf (patchRoomList r f s)"
  by (auto simp: patchRoomList_def chat_wf_def)

lemma patchMembers_wf [store_wf]: "wf s \<Longrightarrow> wf (patchMembers r f s)"
  by (simp add: patchMembers_def chat_wf_def)

lemma patchWorkspaceMembers_wf [store_wf]: "wf s \<Longrightarrow> wf (patchWorkspaceMembers r f s)"
  by (simp add: patchWorkspaceMembers_def chat_wf_def)

lemma patchInvites_wf [store_wf]: "wf s \<Longrightarrow> wf (patchInvites r f s)"
  by (simp add: patchInvites_def chat_wf_def)

lemma patchWorkspace_wf [store_wf]: "wf s \<Longrightarrow> wf (patchWorkspace r f s)"
  by (simp add: patchWorkspace_def chat_wf_def split: option.splits)

lemma addRoom_wf [store_wf]: "wf s \<Longrightarrow> wf (addRoom w room s)"
  unfolding addRoom_def Let_def by (rule patchRoomList_wf) (auto intro: putRoom_wf insertByActivity_distinct)

lemma patchOutgoing_wf [store_wf]: "wf s \<Longrightarrow> wf (patchOutgoing r f s)"
  by (simp add: patchOutgoing_def Let_def chat_wf_def)

lemma patchThread_wf [store_wf]:
  "wf s \<Longrightarrow> (\<And>t. rget (s_threads (state s)) r = Some t \<Longrightarrow> timeline_wf (th_replies t) \<Longrightarrow> timeline_wf (th_replies (f t))) \<Longrightarrow>
   wf (patchThread r f s)"
  by (auto simp: patchThread_def chat_wf_def)

lemma patchThreadList_wf [store_wf]:
  "wf s \<Longrightarrow> (\<And>l. threads_ok l \<Longrightarrow> threads_ok (f l)) \<Longrightarrow> wf (patchThreadList w f s)"
  by (auto simp: patchThreadList_def chat_wf_def)

lemma patchMessage_keys:
  assumes "\<And>m. m_id (f m) = m_id m" "\<And>m. m_seq (f m) = m_seq m"
  shows "map m_id (patchMessage i f ms) = map m_id ms" "map m_seq (patchMessage i f ms) = map m_seq ms"
  using assms by (simp_all add: patchMessage_def comp_def)

lemma patchMessage_wf:
  "(\<And>m. m_id (f m) = m_id m) \<Longrightarrow> (\<And>m. m_seq (f m) = m_seq m) \<Longrightarrow> timeline_wf ms \<Longrightarrow> timeline_wf (patchMessage i f ms)"
  by (simp add: timeline_wf_def patchMessage_keys)

lemma patchMessageEverywhere_wf [store_wf]:
  assumes "wf s" and f: "\<And>m. m_id (f m) = m_id m" "\<And>m. m_seq (f m) = m_seq m"
  shows "wf (patchMessageEverywhere r i f s)"
proof -
  have "wf (case rget (s_timelines (state s)) r of None \<Rightarrow> s | Some timeline \<Rightarrow>
     if some_in (\<lambda>m. m_id m = i) (tl_messages timeline)
     then patchTimeline r (\<lambda>t. t\<lparr>tl_messages := patchMessage i f (tl_messages timeline)\<rparr>) s else s)" (is "wf ?s")
    using assms(1) chat_wfD(1)[OF assms(1), of r]
    by (auto split: option.splits intro!: patchTimeline_wf patchMessage_wf f)
  then show ?thesis
    unfolding patchMessageEverywhere_def Let_def
    by (rule wf_fold) (auto intro!: patchThread_wf patchMessage_wf f)
qed

lemma setActiveWorkspace_wf [store_wf]: "wf s \<Longrightarrow> wf (setActiveWorkspace w s)"
  by (simp add: setActiveWorkspace_def chat_wf_def)

lemma forgetRemovedWorkspace_wf [store_wf]: "wf s \<Longrightarrow> wf (forgetRemovedWorkspace w s)"
  by (simp add: forgetRemovedWorkspace_def chat_wf_def)

lemma setConnection_wf [store_wf]: "wf s \<Longrightarrow> wf (setConnection w s)"
  by (simp add: setConnection_def chat_wf_def)

lemma createStore_wf: "wf (createStore u t)"
  by (simp add: createStore_def initial_wf)

end
