(* ===== verification/ActivityStore.thy ===== *)
theory ActivityStore
  imports StoreInv
begin

text \<open>
  The activity feeds the store holds (\<open>web/lib/chat/store/activity.ts\<close>): loading and reloading the lists,
  and keeping them and the badge right from what arrives.
\<close>

definition patchActivity :: "ident \<Rightarrow> (activity_ws \<Rightarrow> activity_ws) \<Rightarrow> store \<Rightarrow> store" where
  "patchActivity workspaceId recipe = update (\<lambda>c.
     let current = (case rget (s_activity c) workspaceId of
                      None \<Rightarrow> \<lparr>aw_lists = [], aw_unreadCount = None\<rparr> | Some a \<Rightarrow> a);
         nxt = recipe current
     in if nxt = current then c else c\<lparr>s_activity := rput workspaceId nxt (s_activity c)\<rparr>)"

definition patchLists :: "(activity_item list \<Rightarrow> string \<Rightarrow> activity_item list) \<Rightarrow> activity_ws \<Rightarrow> activity_ws" where
  \<comment> \<open>The loop of \<open>patchActivityItems\<close>.\<close>
  "patchLists recipe activity = activity\<lparr>aw_lists :=
     fold (\<lambda>(key, list) lists.
         if al_status list \<noteq> LsReady then lists
         else let items = recipe (al_items list) key
              in if items = al_items list then lists else rput key (list\<lparr>al_items := items\<rparr>) lists)
       (rentries (aw_lists activity)) (aw_lists activity)\<rparr>"

definition patchActivityItems :: "ident \<Rightarrow> (activity_item list \<Rightarrow> string \<Rightarrow> activity_item list) \<Rightarrow> store \<Rightarrow> store" where
  "patchActivityItems workspaceId recipe = patchActivity workspaceId (patchLists recipe)"

definition activity_key :: "string \<Rightarrow> bool \<Rightarrow> string" where
  \<comment> \<open>\<open>activityListKey\<close> on a filter read back from a key.\<close>
  "activity_key flt unreadOnly = flt @ '':'' @ (if unreadOnly then ''unread'' else ''all'')"

definition activity_list :: "chat_state \<Rightarrow> ident \<Rightarrow> string \<Rightarrow> activity_list_state option" where
  "activity_list c workspaceId key = Option.bind (rget (s_activity c) workspaceId) (\<lambda>a. rget (aw_lists a) key)"

definition loadActivityList :: "ident \<Rightarrow> string \<Rightarrow> bool \<Rightarrow> bool \<Rightarrow> store \<Rightarrow> store" where
  "loadActivityList workspaceId flt unreadOnly reload s =
     (let key = activity_key flt unreadOnly in
      if \<not> reload \<and> map_option al_status (activity_list (state s) workspaceId key) = Some LsReady then s
      else once (KActivity workspaceId key) (\<lambda>s.
        request (ActivityCall (CListActivity workspaceId key))
          (patchActivity workspaceId (\<lambda>a.
             if rget (aw_lists a) key \<noteq> None then a
             else a\<lparr>aw_lists := rput key \<lparr>al_status = LsLoading, al_items = [], al_nextCursor = None,
                                  al_loadingMore = False\<rparr> (aw_lists a)\<rparr>) s)) s)"

definition settleListActivity :: "ident \<Rightarrow> string \<Rightarrow> api_error + activity_page \<Rightarrow> store \<Rightarrow> store" where
  "settleListActivity workspaceId key res s = finish_once (KActivity workspaceId key)
     (case res of
        Inr page \<Rightarrow> patchActivity workspaceId (\<lambda>a. a\<lparr>aw_lists := rput key
            \<lparr>al_status = LsReady, al_items = ap_items page, al_nextCursor = ap_next_cursor page,
             al_loadingMore = False\<rparr> (aw_lists a)\<rparr>) s
      | Inl err \<Rightarrow> patchActivity workspaceId (\<lambda>a. a\<lparr>aw_lists := rput key
            \<lparr>al_status = LsError, al_items = (case rget (aw_lists a) key of None \<Rightarrow> [] | Some l \<Rightarrow> al_items l),
             al_nextCursor = None, al_loadingMore = False\<rparr> (aw_lists a)\<rparr>) s)"

definition loadActivityUnreadCount :: "ident \<Rightarrow> store \<Rightarrow> store" where
  "loadActivityUnreadCount workspaceId =
     once (KActivityCount workspaceId) (request (ActivityCall (CActivityCount workspaceId)))"

definition settleActivityCount :: "ident \<Rightarrow> api_error + int \<Rightarrow> store \<Rightarrow> store" where
  "settleActivityCount workspaceId res s = finish_once (KActivityCount workspaceId)
     (case res of
        Inr n \<Rightarrow> patchActivity workspaceId (\<lambda>a.
          if aw_unreadCount a = Some n then a else a\<lparr>aw_unreadCount := Some n\<rparr>) s
      | Inl err \<Rightarrow> s)"

definition reloadActivity :: "ident \<Rightarrow> store \<Rightarrow> store" where
  "reloadActivity workspaceId s =
     (case rget (s_activity (state s)) workspaceId of
        None \<Rightarrow> s
      | Some activity \<Rightarrow>
          let s1 = fold (\<lambda>key s. case parseActivityListKey key of (flt, unreadOnly) \<Rightarrow>
                      loadActivityList workspaceId flt unreadOnly True s)
                     (map fst (aw_lists activity)) s
          in if aw_unreadCount activity \<noteq> None then loadActivityUnreadCount workspaceId s1 else s1)"

definition activityRead :: "ident \<Rightarrow> (activity_item list \<Rightarrow> activity_item list) \<Rightarrow> store \<Rightarrow> store" where
  "activityRead workspaceId recipe s =
     (case rget (s_activity (state s)) workspaceId of
        None \<Rightarrow> s
      | Some activity \<Rightarrow>
          let s1 = patchActivityItems workspaceId (\<lambda>items key.
                     let read = recipe items
                     in if snd (parseActivityListKey key) then removeActivity read (\<lambda>i. \<not> ac_unread i) else read) s
          in if aw_unreadCount activity \<noteq> None then loadActivityUnreadCount workspaceId s1 else s1)"

definition workspaceOf :: "chat_state \<Rightarrow> ident \<Rightarrow> ident option" where
  \<comment> \<open>\<open>rooms[roomId]?.workspace_id\<close>, tested for truth.\<close>
  "workspaceOf c roomId = (case rget (s_rooms c) roomId of
     None \<Rightarrow> None | Some room \<Rightarrow> if r_workspace_id room = '''' then None else Some (r_workspace_id room))"

definition roomReadAdvanced :: "ident \<Rightarrow> int \<Rightarrow> store \<Rightarrow> store" where
  "roomReadAdvanced roomId lastReadUserSeq s =
     (case workspaceOf (state s) roomId of
        None \<Rightarrow> s
      | Some w \<Rightarrow> activityRead w (\<lambda>items. applyRoomReadToActivity items roomId lastReadUserSeq) s)"

definition threadOf :: "chat_state \<Rightarrow> ident \<Rightarrow> message \<Rightarrow> followed_thread option" where
  "threadOf c workspaceId message = (case m_thread_root_id message of
     None \<Rightarrow> None
   | Some root \<Rightarrow> Option.bind (rget (s_threadLists c) workspaceId)
                    (\<lambda>l. List.find (\<lambda>t. lm_id (ft_root t) = root) (ld_list l)))"

definition messageUnread :: "room \<Rightarrow> followed_thread option \<Rightarrow> message \<Rightarrow> bool" where
  "messageUnread room thread message =
     (if inChannel message
      then m_user_seq message > (case r_last_read_user_seq room of None \<Rightarrow> 0 | Some k \<Rightarrow> k)
      else (case thread of None \<Rightarrow> False | Some t \<Rightarrow>
        (case m_thread_seq message of None \<Rightarrow> 0 | Some k \<Rightarrow> k) > ft_last_read_thread_seq t))"

definition receiveActivityMessage :: "message \<Rightarrow> store \<Rightarrow> store" where
  "receiveActivityMessage message s =
     (case (rget (s_rooms (state s)) (m_room_id message), workspaceOf (state s) (m_room_id message)) of
        (Some room, Some workspaceId) \<Rightarrow>
          if rget (s_activity (state s)) workspaceId = None then s
          else
            let thread = threadOf (state s) workspaceId message;
                reasons = notifyReasons \<lparr>ni_message = message, ni_userId = userId s, ni_room = Some room,
                   ni_level = rget (s_notificationLevels (state s)) workspaceId, ni_thread = thread, ni_now = now s\<rparr> True
            in if reasons = [] then s
               else
                 let unread = messageUnread room thread message;
                     item = messageActivityItem message room reasons unread;
                     s1 = patchActivityItems workspaceId (\<lambda>items key.
                            case parseActivityListKey key of (flt, unreadOnly) \<Rightarrow>
                              if belongsTo item flt unreadOnly then insertActivity items item else items) s
                 in if unread \<and> m_id message \<notin> set (countedActivity s1)
                    then patchActivity workspaceId (\<lambda>a. case aw_unreadCount a of
                             None \<Rightarrow> a
                           | Some n \<Rightarrow> a\<lparr>aw_unreadCount := Some (min MAX_UNREAD_ACTIVITY (n + 1))\<rparr>)
                           (s1\<lparr>countedActivity := countedActivity s1 @ [m_id message]\<rparr>)
                    else s1
      | _ \<Rightarrow> s)"

definition changeItems :: "message \<Rightarrow> activity_item list \<Rightarrow> activity_item list" where
  "changeItems message items =
     (if \<not> some_in (\<lambda>i. m_id (ac_message i) = m_id message) items then items
      else if m_deleted_at message \<noteq> None then removeActivity items (\<lambda>i. m_id (ac_message i) = m_id message)
      else map (\<lambda>i. if m_id (ac_message i) = m_id message then i\<lparr>ac_message := message\<rparr> else i) items)"

definition removesUnread :: "message \<Rightarrow> activity_ws \<Rightarrow> bool" where
  \<comment> \<open>\<open>removedUnread\<close> after the recipe has run over the ready lists.\<close>
  "removesUnread message activity \<longleftrightarrow> m_deleted_at message \<noteq> None \<and>
     some_in (\<lambda>list. al_status list = LsReady \<and>
                some_in (\<lambda>i. m_id (ac_message i) = m_id message \<and> ac_unread i) (al_items list))
       (rvals (aw_lists activity))"

definition receiveActivityChange :: "message \<Rightarrow> store \<Rightarrow> store" where
  "receiveActivityChange message s =
     (case workspaceOf (state s) (m_room_id message) of
        None \<Rightarrow> s
      | Some workspaceId \<Rightarrow>
          (case rget (s_activity (state s)) workspaceId of
             None \<Rightarrow> s
           | Some activity \<Rightarrow>
               let s1 = patchActivityItems workspaceId (\<lambda>items key. changeItems message items) s
               in if removesUnread message activity \<and> aw_unreadCount activity \<noteq> None
                  then loadActivityUnreadCount workspaceId s1 else s1))"

definition loadActivity :: "ident \<Rightarrow> activity_filter \<Rightarrow> bool \<Rightarrow> store \<Rightarrow> store" where
  "loadActivity workspaceId flt unreadOnly = loadActivityList workspaceId (filter_name flt) unreadOnly False"

definition patchList :: "ident \<Rightarrow> string \<Rightarrow> (activity_list_state \<Rightarrow> activity_list_state) \<Rightarrow> store \<Rightarrow> store" where
  "patchList workspaceId key recipe = patchActivity workspaceId (\<lambda>a.
     case rget (aw_lists a) key of None \<Rightarrow> a | Some current \<Rightarrow> a\<lparr>aw_lists := rput key (recipe current) (aw_lists a)\<rparr>)"

definition loadMoreActivity :: "ident \<Rightarrow> activity_filter \<Rightarrow> bool \<Rightarrow> store \<Rightarrow> store" where
  "loadMoreActivity workspaceId flt unreadOnly s =
     (let key = activityListKey flt unreadOnly in
      case activity_list (state s) workspaceId key of
        None \<Rightarrow> s
      | Some list \<Rightarrow>
          if al_status list \<noteq> LsReady \<or> al_nextCursor list = None \<or> al_loadingMore list then s
          else once (KActivityMore workspaceId key) (\<lambda>s.
            request (ActivityCall (CMoreActivity workspaceId key (al_nextCursor list)))
              (patchList workspaceId key (\<lambda>l. l\<lparr>al_loadingMore := True\<rparr>) s)) s)"

definition settleMoreActivity :: "ident \<Rightarrow> string \<Rightarrow> api_error + activity_page \<Rightarrow> store \<Rightarrow> store" where
  "settleMoreActivity workspaceId key res s = finish_once (KActivityMore workspaceId key)
     (case res of
        Inr page \<Rightarrow> patchList workspaceId key (\<lambda>l. l\<lparr>
            al_items := fold (\<lambda>item items. insertActivity items item) (ap_items page) (al_items l),
            al_nextCursor := ap_next_cursor page, al_loadingMore := False\<rparr>) s
      | Inl err \<Rightarrow> patchList workspaceId key (\<lambda>l. l\<lparr>al_loadingMore := False\<rparr>) s)"

section \<open>The lists stay well formed\<close>

lemma activityListKey_name: "activityListKey f u = activity_key (filter_name f) u"
  by (simp add: activityListKey_def activity_key_def)

lemma patchActivity_wf:
  assumes "wf s" "\<And>a. activity_ok a \<Longrightarrow> activity_ok (f a)"
  shows "wf (patchActivity w f s)"
proof -
  have "activity_ok \<lparr>aw_lists = [], aw_unreadCount = None\<rparr>" by (simp add: activity_ok_def)
  then show ?thesis
    using assms chat_wfD(6)[OF assms(1), of w]
    by (auto simp: patchActivity_def Let_def chat_wf_def split: option.splits)
qed

lemma patchLists_ok:
  assumes "activity_ok a" "\<And>items key. feed_wf items \<Longrightarrow> feed_wf (f items key)"
  shows "activity_ok (patchLists f a)"
proof -
  let ?step = "\<lambda>(key, list) lists. if al_status list \<noteq> LsReady then lists
      else let items = f (al_items list) key
           in if items = al_items list then lists else rput key (list\<lparr>al_items := items\<rparr>) lists"
  let ?inv = "\<lambda>lists. rwf lists \<and> rec_all (\<lambda>l. feed_wf (al_items l)) lists"
  have "?inv (fold ?step (rentries (aw_lists a)) (aw_lists a))"
  proof (rule fold_invariant[where P = ?inv and Q = "\<lambda>(k, l). feed_wf (al_items l)"])
    show "case x of (k, l) \<Rightarrow> feed_wf (al_items l)" if "x \<in> set (rentries (aw_lists a))" for x
      using assms(1) that by (auto simp: activity_ok_def rwf_rentries dest: rec_all_get)
    show "?inv (aw_lists a)" using assms(1) by (simp add: activity_ok_def)
    show "?inv (?step x lists)" if "case x of (k, l) \<Rightarrow> feed_wf (al_items l)" "?inv lists" for x lists
      using that by (auto simp: Let_def assms(2) split: prod.splits)
  qed
  then show ?thesis by (simp add: activity_ok_def patchLists_def)
qed

lemma activity_put: "activity_ok a \<Longrightarrow> feed_wf (al_items l) \<Longrightarrow> activity_ok (a\<lparr>aw_lists := rput k l (aw_lists a)\<rparr>)"
  by (auto simp: activity_ok_def)

lemma activity_get: "activity_ok a \<Longrightarrow> rget (aw_lists a) k = Some l \<Longrightarrow> feed_wf (al_items l)"
  by (auto simp: activity_ok_def dest: rec_all_get)

lemma activity_count [simp]: "activity_ok (a\<lparr>aw_unreadCount := n\<rparr>) = activity_ok a"
  by (simp add: activity_ok_def)

lemma patchActivityItems_wf:
  "wf s \<Longrightarrow> (\<And>items key. feed_wf items \<Longrightarrow> feed_wf (f items key)) \<Longrightarrow> wf (patchActivityItems w f s)"
  unfolding patchActivityItems_def by (rule patchActivity_wf) (auto intro: patchLists_ok)

lemma patchList_wf:
  "wf s \<Longrightarrow> (\<And>l. feed_wf (al_items l) \<Longrightarrow> feed_wf (al_items (f l))) \<Longrightarrow> wf (patchList w k f s)"
  unfolding patchList_def by (rule patchActivity_wf) (auto split: option.splits intro: activity_put activity_get)

lemma feed_wf_Nil [simp]: "feed_wf []"
  by (simp add: feed_wf_def)

lemma loadActivityList_wf [store_wf]: "wf s \<Longrightarrow> wf (loadActivityList w f u r s)"
  by (auto simp: loadActivityList_def Let_def intro!: once_wf patchActivity_wf activity_put)

lemma settleListActivity_wf [store_wf]:
  "wf s \<Longrightarrow> (\<And>p. res = Inr p \<Longrightarrow> feed_wf (ap_items p)) \<Longrightarrow> wf (settleListActivity w k res s)"
  by (auto simp: settleListActivity_def split: sum.splits option.splits intro!: patchActivity_wf activity_put
      dest: activity_get)

lemma loadActivityUnreadCount_wf [store_wf]: "wf s \<Longrightarrow> wf (loadActivityUnreadCount w s)"
  by (auto simp: loadActivityUnreadCount_def intro!: once_wf)

lemma settleActivityCount_wf [store_wf]: "wf s \<Longrightarrow> wf (settleActivityCount w res s)"
  by (auto simp: settleActivityCount_def split: sum.splits intro!: patchActivity_wf)

lemma reloadActivity_wf [store_wf]: "wf s \<Longrightarrow> wf (reloadActivity w s)"
  by (auto simp: reloadActivity_def Let_def split: option.splits prod.splits
      intro!: loadActivityUnreadCount_wf wf_fold loadActivityList_wf)

lemma activityRead_wf:
  "wf s \<Longrightarrow> (\<And>items. feed_wf items \<Longrightarrow> feed_wf (f items)) \<Longrightarrow> wf (activityRead w f s)"
  by (auto simp: activityRead_def Let_def split: option.splits
      intro!: loadActivityUnreadCount_wf patchActivityItems_wf removeActivity_wf)

lemma roomReadAdvanced_wf [store_wf]: "wf s \<Longrightarrow> wf (roomReadAdvanced r n s)"
  by (auto simp: roomReadAdvanced_def applyRoomReadToActivity_def markRead_wf split: option.splits
      intro!: activityRead_wf)

lemma receiveActivityMessage_wf [store_wf]: "wf s \<Longrightarrow> wf (receiveActivityMessage m s)"
  by (auto simp: receiveActivityMessage_def Let_def split: option.splits prod.splits
      intro!: patchActivity_wf patchActivityItems_wf insertActivity_wf)

lemma changeItems_wf: "feed_wf items \<Longrightarrow> feed_wf (changeItems m items)"
proof -
  have same: "compareNewestFirst (if m_id (ac_message a) = i then a\<lparr>ac_message := m\<rparr> else a)
        (if m_id (ac_message b) = i then b\<lparr>ac_message := m\<rparr> else b) = compareNewestFirst a b"
    "sameItem (if m_id (ac_message a) = m_id m then a\<lparr>ac_message := m\<rparr> else a)
        (if m_id (ac_message b) = m_id m then b\<lparr>ac_message := m\<rparr> else b) = sameItem a b" for a b i
    by (auto simp: compareNewestFirst_def sameItem_def)
  show "feed_wf items \<Longrightarrow> feed_wf (changeItems m items)"
    by (auto simp: changeItems_def removeActivity_wf) (simp add: feed_wf_def sorted_wrt_map same)
qed

lemma receiveActivityChange_wf [store_wf]: "wf s \<Longrightarrow> wf (receiveActivityChange m s)"
  by (auto simp: receiveActivityChange_def Let_def split: option.splits
      intro!: loadActivityUnreadCount_wf patchActivityItems_wf changeItems_wf)

lemma loadActivity_wf [store_wf]: "wf s \<Longrightarrow> wf (loadActivity w f u s)"
  by (simp add: loadActivity_def loadActivityList_wf)

lemma loadMoreActivity_wf [store_wf]: "wf s \<Longrightarrow> wf (loadMoreActivity w f u s)"
  by (auto simp: loadMoreActivity_def Let_def split: option.splits intro!: once_wf patchList_wf)

lemma insert_page_wf: "feed_wf items \<Longrightarrow> feed_wf (fold (\<lambda>item items. insertActivity items item) page items)"
  by (induction page arbitrary: items) (auto simp: insertActivity_wf)

lemma settleMoreActivity_wf [store_wf]: "wf s \<Longrightarrow> wf (settleMoreActivity w k res s)"
  by (auto simp: settleMoreActivity_def split: sum.splits intro!: patchList_wf insert_page_wf)

end
