(* ===== verification/ReadStore.thy ===== *)
theory ReadStore
  imports ActivityStore
begin

text \<open>
  Marking the open room as read (\<open>web/lib/chat/store/read.ts\<close>). One request runs per room; what is asked
  for meanwhile is kept as the largest target and sent when it ends.
\<close>

definition markRoomRead :: "ident \<Rightarrow> read_state \<Rightarrow> store \<Rightarrow> store" where
  \<comment> \<open>\<open>markRead\<close> after its request.\<close>
  "markRoomRead roomId read s = roomReadAdvanced roomId (rs_last_read_user_seq read)
     (patchRoom roomId (\<lambda>room. applyReadToRoom room (rs_last_read_seq read) (rs_last_read_user_seq read)
        (rs_mention_count read)) s)"

definition endRead :: "ident \<Rightarrow> store \<Rightarrow> store" where
  "endRead roomId s = settle_task (TRead roomId) (s\<lparr>reading := filter (\<lambda>r. r \<noteq> roomId) (reading s)\<rparr>)"

definition readNext :: "ident \<Rightarrow> store \<Rightarrow> store" where
  \<comment> \<open>The head of the loop: the next target, or the end.\<close>
  "readNext roomId s =
     (case rget (readTargets s) roomId of
        None \<Rightarrow> endRead roomId s
      | Some target \<Rightarrow> request (RoomCall (CMarkRead roomId target))
                         (s\<lparr>readTargets := rclear roomId (readTargets s)\<rparr>))"

definition settleMarkRead :: "ident \<Rightarrow> api_error + read_state \<Rightarrow> store \<Rightarrow> store" where
  "settleMarkRead roomId res s =
     (case res of
        Inr read \<Rightarrow> readNext roomId (markRoomRead roomId read s)
      | Inl err \<Rightarrow> endRead roomId (s\<lparr>readTargets := rclear roomId (readTargets s)\<rparr>))"

definition requestMarkRead :: "ident \<Rightarrow> int \<Rightarrow> store \<Rightarrow> store" where
  "requestMarkRead roomId seq s =
     (case rget (s_rooms (state s)) roomId of
        None \<Rightarrow> s
      | Some room \<Rightarrow>
          (case r_last_read_seq room of
             None \<Rightarrow> s
           | Some k \<Rightarrow>
               if k \<ge> seq then s
               else
                 let s1 = s\<lparr>readTargets := rput roomId
                       (max (case rget (readTargets s) roomId of None \<Rightarrow> 0 | Some t \<Rightarrow> t) seq) (readTargets s)\<rparr>
                 in if roomId \<in> set (reading s1) then s1
                    else let s2 = readNext roomId s1 in s2\<lparr>reading := reading s2 @ [roomId]\<rparr>))"

definition needsRead :: "ident \<Rightarrow> int \<Rightarrow> store \<Rightarrow> bool" where
  \<comment> \<open>\<open>requestMarkRead\<close> returns the promise of the loop, not a resolved one.\<close>
  "needsRead roomId seq s \<longleftrightarrow> (case Option.bind (rget (s_rooms (state s)) roomId) r_last_read_seq of
     None \<Rightarrow> False | Some k \<Rightarrow> k < seq)"

definition setFocus :: "room_focus option \<Rightarrow> store \<Rightarrow> store" where
  "setFocus focus s =
     (let previous = s_focus (state s) in
      if previous = focus then s
      else
        let s1 = update (\<lambda>c. c\<lparr>s_focus := focus\<rparr>) s;
            s2 = (case previous of
                    None \<Rightarrow> s1
                  | Some p \<Rightarrow>
                      if map_option fo_roomId focus \<noteq> Some (fo_roomId p) \<and>
                         rget (s_removedRooms (state s1)) (fo_roomId p) \<noteq> None
                      then update (\<lambda>c. c\<lparr>s_removedRooms := rclear (fo_roomId p) (s_removedRooms c)\<rparr>) s1
                      else s1)
        in case focus of
             None \<Rightarrow> s2
           | Some f \<Rightarrow>
               if \<not> fo_caughtUp f then s2
               else (case rget (s_timelines (state s2)) (fo_roomId f) of
                       None \<Rightarrow> s2
                     | Some timeline \<Rightarrow>
                         (case newestChannelSeq (tl_messages timeline) of
                            None \<Rightarrow> s2
                          | Some latestSeq \<Rightarrow>
                              if tl_status timeline = Ready
                              then requestMarkRead (fo_roomId f) latestSeq s2 else s2)))"

lemma markRoomRead_wf [store_wf]: "wf s \<Longrightarrow> wf (markRoomRead r read s)"
  by (simp add: markRoomRead_def roomReadAdvanced_wf patchRoom_wf)

lemma endRead_state [simp]: "state (endRead r s) = state s"
  by (simp add: endRead_def)

lemma readNext_state [simp]: "state (readNext r s) = state s"
  by (simp add: readNext_def split: option.splits)

lemma requestMarkRead_state [simp]: "state (requestMarkRead r n s) = state s"
  by (simp add: requestMarkRead_def Let_def split: option.splits)

lemma settleMarkRead_wf [store_wf]: "wf s \<Longrightarrow> wf (settleMarkRead r res s)"
  by (simp add: settleMarkRead_def markRoomRead_wf split: sum.splits)

lemma setFocus_wf [store_wf]: "wf s \<Longrightarrow> wf (setFocus f s)"
  by (simp add: setFocus_def Let_def chat_wf_def split: option.splits)

section \<open>One request per room\<close>

definition mark_reads :: "store \<Rightarrow> ident \<Rightarrow> nat" where
  "mark_reads s roomId = length (filter (\<lambda>c. \<exists>t. c = RoomCall (CMarkRead roomId t)) (calls s))"

definition read_ok :: "store \<Rightarrow> bool" where
  \<comment> \<open>A room has one read request in flight exactly while its loop runs, and a target waits only then.\<close>
  "read_ok s \<longleftrightarrow> distinct (reading s) \<and>
     (\<forall>r. mark_reads s r = (if r \<in> set (reading s) then 1 else 0)) \<and>
     (\<forall>r. rget (readTargets s) r \<noteq> None \<longrightarrow> r \<in> set (reading s))"

lemma mark_reads_request [simp]:
  "mark_reads (request c s) r = mark_reads s r + (if \<exists>t. c = RoomCall (CMarkRead r t) then 1 else 0)"
  by (simp add: mark_reads_def)

definition same_reads :: "store \<Rightarrow> store \<Rightarrow> bool" where
  \<comment> \<open>What the rest of the store leaves alone.\<close>
  "same_reads s s' \<longleftrightarrow> mark_reads s' = mark_reads s \<and> reading s' = reading s \<and> readTargets s' = readTargets s"

lemma same_reads_refl [simp]: "same_reads s s"
  by (simp add: same_reads_def)

lemma same_reads_trans: "same_reads s t \<Longrightarrow> same_reads t u \<Longrightarrow> same_reads s u"
  by (simp add: same_reads_def)

lemma same_reads_update [simp]: "same_reads s (update f s)"
  by (simp add: same_reads_def mark_reads_def fun_eq_iff)

lemma same_reads_ok: "same_reads s s' \<Longrightarrow> read_ok s \<Longrightarrow> read_ok s'"
  by (simp add: same_reads_def read_ok_def)

lemma same_reads_activityRead: "same_reads s (activityRead w f s)"
proof (cases "rget (s_activity (state s)) w")
  case (Some a)
  then show ?thesis
    by (auto simp: activityRead_def Let_def loadActivityUnreadCount_def once_def patchActivityItems_def patchActivity_def
        same_reads_def mark_reads_def fun_eq_iff request_def)
qed (simp add: activityRead_def)

lemma same_reads_markRoomRead: "same_reads s (markRoomRead r read s)"
  by (auto simp: markRoomRead_def roomReadAdvanced_def patchRoom_def split: option.splits
      intro: same_reads_trans[OF same_reads_update same_reads_activityRead])

lemma endRead_reads [simp]:
  "mark_reads (endRead r s) = mark_reads s" "reading (endRead r s) = filter (\<lambda>x. x \<noteq> r) (reading s)"
  "readTargets (endRead r s) = readTargets s"
  by (simp_all add: endRead_def mark_reads_def fun_eq_iff)

lemma requestMarkRead_ok:
  assumes "read_ok s"
  shows "read_ok (requestMarkRead r n s)"
proof -
  have m [simp]: "mark_reads (s\<lparr>readTargets := x\<rparr>) = mark_reads s"
    "mark_reads (s'\<lparr>reading := y\<rparr>) = mark_reads s'" for x y s s'
    by (simp_all add: mark_reads_def fun_eq_iff)
  show ?thesis using assms
    by (auto simp: requestMarkRead_def readNext_def read_ok_def Let_def split: option.splits)
qed

definition drop_call :: "call \<Rightarrow> store \<Rightarrow> store" where
  \<comment> \<open>A request that was answered is no longer in flight.\<close>
  "drop_call c s = s\<lparr>calls := remove1 c (calls s)\<rparr>"

lemma mark_reads_drop:
  assumes "RoomCall (CMarkRead r t) \<in> set (calls s)"
  shows "mark_reads (drop_call (RoomCall (CMarkRead r t)) s) r' = (if r = r' then mark_reads s r' - 1 else mark_reads s r')"
proof -
  have "filter P (remove1 c xs) = (if P c then remove1 c (filter P xs) else filter P xs)" for P and c :: call and xs
    by (induction xs) auto
  then show ?thesis using assms by (auto simp: mark_reads_def drop_call_def length_remove1)
qed

lemma settleMarkRead_ok:
  assumes "read_ok s" "RoomCall (CMarkRead r t) \<in> set (calls s)"
  shows "read_ok (settleMarkRead r res (drop_call (RoomCall (CMarkRead r t)) s))"
proof -
  let ?d = "drop_call (RoomCall (CMarkRead r t)) s"
  have "mark_reads s r \<noteq> 0"
    using assms(2) by (auto simp: mark_reads_def filter_empty_conv)
  then have r: "r \<in> set (reading s)" using assms(1) by (auto simp: read_ok_def split: if_splits)
  have m [simp]: "mark_reads (s'\<lparr>readTargets := x\<rparr>) = mark_reads s'" for x s'
    by (simp add: mark_reads_def fun_eq_iff)
  have d: "reading ?d = reading s" "readTargets ?d = readTargets s" 
      "mark_reads ?d r' = (if r' = r then 0 else mark_reads s r')" for r'
    using assms r by (simp_all add: mark_reads_drop read_ok_def) (simp_all add: drop_call_def)
  have rest: "same_reads ?d x \<Longrightarrow> read_ok (readNext r x)" "read_ok (endRead r (?d\<lparr>readTargets := rclear r (readTargets ?d)\<rparr>))" for x
    using assms(1) r d by (auto simp: same_reads_def read_ok_def readNext_def split: option.splits)
  show ?thesis
    by (auto simp: settleMarkRead_def rest(2) split: sum.splits intro: rest(1)[OF same_reads_markRoomRead])
qed

lemma requestMarkRead_target:
  \<comment> \<open>What was asked for while a request runs is remembered: the largest position.\<close>
  assumes "rget (s_rooms (state s)) r = Some room" "r_last_read_seq room = Some k" "k < n" "r \<in> set (reading s)"
  shows "rget (readTargets (requestMarkRead r n s)) r =
    Some (max (case rget (readTargets s) r of None \<Rightarrow> 0 | Some t \<Rightarrow> t) n)"
  using assms by (simp add: requestMarkRead_def Let_def)

section \<open>Runs\<close>

inductive read_run :: "store \<Rightarrow> bool" where
  \<comment> \<open>Everything that touches the read requests, in any order, with any answer.\<close>
  start: "read_run (createStore user t)"
| requested: "read_run s \<Longrightarrow> read_run (requestMarkRead roomId seq s)"
| answered: "read_run s \<Longrightarrow> RoomCall (CMarkRead roomId seq) \<in> set (calls s) \<Longrightarrow>
    read_run (settleMarkRead roomId res (drop_call (RoomCall (CMarkRead roomId seq)) s))"
| other: "read_run s \<Longrightarrow> same_reads s s' \<Longrightarrow> read_run s'"

lemma createStore_read_ok: "read_ok (createStore user t)"
  by (simp add: read_ok_def mark_reads_def createStore_def)

lemma read_run_ok: "read_run s \<Longrightarrow> read_ok s"
  by (induction rule: read_run.induct) (auto intro: createStore_read_ok requestMarkRead_ok settleMarkRead_ok same_reads_ok)

section \<open>Properties\<close>

text \<open>in every run at most one read request per room is in flight, and a position is remembered only while one is:
  reads do not pile up, and none is forgotten when its loop ends.\<close>

theorem one_read_request_per_room:
  assumes "read_run s"
  shows "mark_reads s roomId \<le> 1 \<and> (rget (readTargets s) roomId \<noteq> None \<longrightarrow> mark_reads s roomId = 1)"
  using read_run_ok[OF assms] by (auto simp: read_ok_def)

theorem one_read_request_per_room_witness:
  "let s = requestMarkRead ''r'' 3 (putRoom (sample_room ''r'') (createStore ''u'' 0))
   in mark_reads s ''r'' \<le> 1 \<and> (rget (readTargets s) ''r'' \<noteq> None \<longrightarrow> mark_reads s ''r'' = 1)"
  unfolding Let_def
  by (rule one_read_request_per_room, rule read_run.requested, rule read_run.other[OF read_run.start[of "''u''" 0]])
     (simp add: putRoom_def)

text \<open>a read that is asked for is sent or remembered: a request up to at least that message is in flight, or waits
  for the one in flight.\<close>

theorem read_request_not_lost:
  assumes "rget (s_rooms (state s)) roomId = Some room" "r_last_read_seq room = Some k" "k < seq"
  shows "\<exists>t\<ge>seq. RoomCall (CMarkRead roomId t) \<in> set (calls (requestMarkRead roomId seq s)) \<or>
    rget (readTargets (requestMarkRead roomId seq s)) roomId = Some t"
  using assms
  by (auto simp: requestMarkRead_def readNext_def Let_def request_def intro: exI[of _ "max (case rget (readTargets s) roomId of None \<Rightarrow> 0 | Some t \<Rightarrow> t) seq"])

theorem read_request_not_lost_witness:
  "\<exists>t\<ge>3. RoomCall (CMarkRead ''r'' t) \<in> set (calls (requestMarkRead ''r'' 3 (putRoom (sample_room ''r'') (createStore ''u'' 0)))) \<or>
    rget (readTargets (requestMarkRead ''r'' 3 (putRoom (sample_room ''r'') (createStore ''u'' 0)))) ''r'' = Some t"
  by (rule read_request_not_lost[where k = 1 and room = "sample_room ''r''"])
     (simp_all add: putRoom_def createStore_def initialState_def samples)

end
