(* ===== verification/PinStore.thy ===== *)
theory PinStore
  imports StoreInv
begin

text \<open>The pins of the rooms that were opened (\<open>web/lib/chat/store/pins.ts\<close>).\<close>

definition groupByRoom :: "message list \<Rightarrow> (ident, message list) jsrec" where
  "groupByRoom messages = fold (\<lambda>m byRoom. rput (m_room_id m)
     ((case rget byRoom (m_room_id m) of None \<Rightarrow> [] | Some l \<Rightarrow> l) @ [m]) byRoom) messages []"

definition absorbRoomPins :: "ident \<Rightarrow> message list \<Rightarrow> store \<Rightarrow> store" where
  "absorbRoomPins roomId list = update (\<lambda>c.
     case rget (s_pins c) roomId of
       None \<Rightarrow> c
     | Some current \<Rightarrow>
         if ld_status current \<noteq> Ready then c
         else let nxt = applyPinnedMessages (ld_list current) list
              in if nxt = ld_list current then c
                 else c\<lparr>s_pins := rput roomId (current\<lparr>ld_list := nxt\<rparr>) (s_pins c)\<rparr>)"

definition absorbPins :: "message list \<Rightarrow> store \<Rightarrow> store" where
  "absorbPins messages s = fold (\<lambda>(roomId, list). absorbRoomPins roomId list) (rentries (groupByRoom messages)) s"

definition loadPins :: "ident \<Rightarrow> store \<Rightarrow> store" where
  "loadPins roomId = once (KPins roomId) (\<lambda>s. request (RoomCall (CListPins roomId))
     (update (\<lambda>c. c\<lparr>s_pins := rput roomId (case rget (s_pins c) roomId of
         None \<Rightarrow> \<lparr>ld_status = Loading, ld_list = []\<rparr> | Some p \<Rightarrow> p) (s_pins c)\<rparr>) s))"

definition settleListPins :: "ident \<Rightarrow> api_error + message list \<Rightarrow> store \<Rightarrow> store" where
  "settleListPins roomId res s = finish_once (KPins roomId)
     (case res of
        Inr messages \<Rightarrow> update (\<lambda>c. c\<lparr>s_pins := rput roomId \<lparr>ld_status = Ready, ld_list = messages\<rparr> (s_pins c)\<rparr>) s
      | Inl err \<Rightarrow> update (\<lambda>c. c\<lparr>s_pins := rput roomId \<lparr>ld_status = statusOf err,
          ld_list = (case rget (s_pins c) roomId of None \<Rightarrow> [] | Some p \<Rightarrow> ld_list p)\<rparr> (s_pins c)\<rparr>) s)"

definition openPins :: "ident \<Rightarrow> store \<Rightarrow> store" where
  \<comment> \<open>The action \<open>loadPins\<close>.\<close>
  "openPins roomId s =
     (case rget (s_pins (state s)) roomId of
        None \<Rightarrow> loadPins roomId s
      | Some current \<Rightarrow> if ld_status current \<noteq> LoadError then s else loadPins roomId s)"

lemma pins_wf_Nil [simp]: "pins_wf []"
  by (simp add: pins_wf_def)

lemma absorbRoomPins_wf: "wf s \<Longrightarrow> wf (absorbRoomPins r ms s)"
  using chat_wfD(3)[of "state s" r]
  by (auto simp: absorbRoomPins_def Let_def chat_wf_def applyPinnedMessages_wf split: option.splits)

lemma absorbPins_wf [store_wf]: "wf s \<Longrightarrow> wf (absorbPins ms s)"
  unfolding absorbPins_def by (rule wf_fold) (auto simp: absorbRoomPins_wf split: prod.splits)

lemma loadPins_wf [store_wf]: "wf s \<Longrightarrow> wf (loadPins r s)"
  using chat_wfD(3)[of "state s" r]
  by (auto simp: loadPins_def chat_wf_def once_state split: option.splits)

lemma settleListPins_wf [store_wf]:
  "wf s \<Longrightarrow> (\<And>ms. res = Inr ms \<Longrightarrow> pins_wf ms) \<Longrightarrow> wf (settleListPins r res s)"
  using chat_wfD(3)[of "state s" r]
  by (auto simp: settleListPins_def chat_wf_def split: sum.splits option.splits)

lemma openPins_wf [store_wf]: "wf s \<Longrightarrow> wf (openPins r s)"
  by (simp add: openPins_def loadPins_wf split: option.splits)

section \<open>What is absorbed\<close>

lemma groupByRoom_get:
  "rget (groupByRoom ms) r = (if \<exists>m\<in>set ms. m_room_id m = r then Some (filter (\<lambda>m. m_room_id m = r) ms) else None)"
proof -
  have "rget (fold (\<lambda>m byRoom. rput (m_room_id m)
      ((case rget byRoom (m_room_id m) of None \<Rightarrow> [] | Some l \<Rightarrow> l) @ [m]) byRoom) ms acc) r =
    (if \<exists>m\<in>set ms. m_room_id m = r
     then Some ((case rget acc r of None \<Rightarrow> [] | Some l \<Rightarrow> l) @ filter (\<lambda>m. m_room_id m = r) ms)
     else rget acc r)" for acc
    by (induction ms arbitrary: acc) auto
  from this[of "[]"] show ?thesis by (auto simp: groupByRoom_def)
qed

end
