(* ===== verification/ThreadStore.thy ===== *)
theory ThreadStore
  imports ActivityStore
begin

text \<open>
  Threads the viewer opened and the list of threads they follow (\<open>web/lib/chat/store/threads.ts\<close>).
\<close>

definition advanceThreadRead :: "ident \<Rightarrow> ident \<Rightarrow> int \<Rightarrow> store \<Rightarrow> store" where
  "advanceThreadRead roomId rootId lastReadThreadSeq s =
     (let s1 = patchThread rootId (\<lambda>t. case th_lastReadThreadSeq t of
                  None \<Rightarrow> t
                | Some k \<Rightarrow> if k \<ge> lastReadThreadSeq then t
                            else t\<lparr>th_lastReadThreadSeq := Some lastReadThreadSeq\<rparr>) s
      in case workspaceOf (state s1) roomId of
           None \<Rightarrow> s1
         | Some w \<Rightarrow> activityRead w (\<lambda>items. applyThreadReadToActivity items rootId lastReadThreadSeq)
                       (patchThreadList w (\<lambda>list. applyThreadRead list rootId lastReadThreadSeq) s1))"

definition removeThreadTyping :: "ident \<Rightarrow> ident \<Rightarrow> store \<Rightarrow> store" where
  "removeThreadTyping rootId typingUserId s =
     update (\<lambda>c. case rget (s_threadTyping c) rootId of
         None \<Rightarrow> c
       | Some current \<Rightarrow>
           if \<not> some_in (\<lambda>t. u_id (ty_user t) = typingUserId) current then c
           else let rest = filter (\<lambda>t. u_id (ty_user t) \<noteq> typingUserId) current
                in c\<lparr>s_threadTyping := rset rootId (if rest \<noteq> [] then Some rest else None) (s_threadTyping c)\<rparr>)
       (s\<lparr>typingTimers := rclear (TkThread rootId typingUserId) (typingTimers s)\<rparr>)"

definition receiveThreadTyping :: "ident \<Rightarrow> user_profile \<Rightarrow> store \<Rightarrow> store" where
  "receiveThreadTyping rootId user s =
     (if u_id user = userId s then s
      else update (\<lambda>c.
          let others = filter (\<lambda>t. u_id (ty_user t) \<noteq> u_id user)
                         (case rget (s_threadTyping c) rootId of None \<Rightarrow> [] | Some l \<Rightarrow> l)
          in c\<lparr>s_threadTyping := rput rootId (others @ [\<lparr>ty_user = user, ty_expiresAt = now s + TYPING_TTL_MS\<rparr>])
                 (s_threadTyping c)\<rparr>)
        (s\<lparr>typingTimers := rput (TkThread rootId (u_id user)) (now s + TYPING_TTL_MS) (typingTimers s)\<rparr>))"

definition absorbReply :: "message \<Rightarrow> ident \<Rightarrow> bool \<Rightarrow> store \<Rightarrow> store" where
  \<comment> \<open>The first half of the loop body: the message is a reply.\<close>
  "absorbReply message rootId created s =
     (let s1 = patchThread rootId (\<lambda>t. t\<lparr>th_replies :=
                 mergeRepliesIntoWindow (th_replies t) (th_hasOlder t) (th_hasNewer t) [message]\<rparr>) s;
          s2 = (if created then (case workspaceOf (state s1) (m_room_id message) of
                    None \<Rightarrow> s1
                  | Some w \<Rightarrow> patchThreadList w (\<lambda>list. applyReplyToThreads list message (userId s1)) s1)
                else s1);
          s3 = (case m_thread_seq message of
                  None \<Rightarrow> s2
                | Some k \<Rightarrow> if created \<and> u_id (m_sender message) = userId s2
                            then advanceThreadRead (m_room_id message) rootId k s2 else s2)
      in if created then removeThreadTyping rootId (u_id (m_sender message)) s3 else s3)"

definition absorbRoot :: "message \<Rightarrow> store \<Rightarrow> store" where
  \<comment> \<open>The second half: the message as the root of a thread.\<close>
  "absorbRoot message s =
     (let s1 = patchThread (m_id message) (\<lambda>t. case th_root t of
                  Some root \<Rightarrow> if m_change_seq root > m_change_seq message then t else t\<lparr>th_root := Some message\<rparr>
                | None \<Rightarrow> t\<lparr>th_root := Some message\<rparr>) s
      in if m_thread message \<noteq> None
         then (case workspaceOf (state s1) (m_room_id message) of
                 None \<Rightarrow> s1
               | Some w \<Rightarrow> patchThreadList w (\<lambda>list. applyRootToThreads list message) s1)
         else s1)"

definition absorbThreadMessages :: "message list \<Rightarrow> bool \<Rightarrow> store \<Rightarrow> store" where
  "absorbThreadMessages messages created s = fold (\<lambda>message s.
     absorbRoot message (case m_thread_root_id message of
        None \<Rightarrow> s | Some rootId \<Rightarrow> absorbReply message rootId created s)) messages s"

section \<open>The followed threads of a workspace\<close>

definition loadThreads :: "ident \<Rightarrow> store \<Rightarrow> store" where
  "loadThreads workspaceId = once (KThreads workspaceId) (\<lambda>s. request (ThreadCall (CListThreads workspaceId))
     (update (\<lambda>c. if rget (s_threadLists c) workspaceId \<noteq> None then c
                 else c\<lparr>s_threadLists := rput workspaceId \<lparr>ld_status = Loading, ld_list = []\<rparr> (s_threadLists c)\<rparr>) s))"

definition settleListThreads :: "ident \<Rightarrow> api_error + followed_thread list \<Rightarrow> store \<Rightarrow> store" where
  "settleListThreads workspaceId res s = finish_once (KThreads workspaceId)
     (case res of
        Inr list \<Rightarrow> update (\<lambda>c. c\<lparr>s_threadLists := rput workspaceId \<lparr>ld_status = Ready, ld_list = list\<rparr>
                      (s_threadLists c)\<rparr>) s
      | Inl err \<Rightarrow> update (\<lambda>c. c\<lparr>s_threadLists := rput workspaceId \<lparr>ld_status = statusOf err,
          ld_list = (case rget (s_threadLists c) workspaceId of None \<Rightarrow> [] | Some l \<Rightarrow> ld_list l)\<rparr>
          (s_threadLists c)\<rparr>) s)"

definition reloadThreads :: "ident \<Rightarrow> store \<Rightarrow> store" where
  "reloadThreads workspaceId = await_tasks [TOnce (KThreads workspaceId)] (ContReloadThreads workspaceId)"

section \<open>One thread\<close>

definition newThread :: "ident \<Rightarrow> thread_state" where
  "newThread roomId = \<lparr>th_status = Loading, th_roomId = roomId, th_root = None, th_replies = [],
     th_hasOlder = False, th_loadingOlder = False, th_hasNewer = False, th_loadingNewer = False,
     th_lastReadThreadSeq = None\<rparr>"

definition loadThread :: "ident \<Rightarrow> ident \<Rightarrow> store \<Rightarrow> store" where
  "loadThread roomId rootId = once (KThread rootId) (\<lambda>s. request (ThreadCall (CThreadPage roomId rootId))
     (update (\<lambda>c. if map_option th_roomId (rget (s_threads c) rootId) = Some roomId then c
                 else c\<lparr>s_threads := rput rootId (newThread roomId) (s_threads c)\<rparr>) s))"

definition threadFromPage :: "ident \<Rightarrow> thread_message_list \<Rightarrow> thread_state option \<Rightarrow> thread_state" where
  "threadFromPage roomId page current =
     (let arrived = filter (\<lambda>m. m_change_seq m > tm_last_change_seq page)
            (case current of None \<Rightarrow> [] | Some t \<Rightarrow> th_replies t);
          replies = mergeRepliesIntoWindow (mergeReplies [] (tm_messages page)) (tm_has_more page) False arrived;
          root = (case Option.bind current th_root of
                    Some r \<Rightarrow> if m_change_seq r > m_change_seq (tm_root page) then r else tm_root page
                  | None \<Rightarrow> tm_root page);
          lastRead = (case tm_last_read_thread_seq page of
                        None \<Rightarrow> None
                      | Some k \<Rightarrow> Some (max k (case Option.bind current th_lastReadThreadSeq of None \<Rightarrow> 0 | Some j \<Rightarrow> j)))
      in \<lparr>th_status = Ready, th_roomId = roomId, th_root = Some root, th_replies = replies,
          th_hasOlder = tm_has_more page, th_loadingOlder = False, th_hasNewer = False, th_loadingNewer = False,
          th_lastReadThreadSeq = lastRead\<rparr>)"

definition settleThreadPage :: "ident \<Rightarrow> ident \<Rightarrow> api_error + thread_message_list \<Rightarrow> store \<Rightarrow> store" where
  "settleThreadPage roomId rootId res s = finish_once (KThread rootId)
     (case res of
        Inr page \<Rightarrow> update (\<lambda>c. c\<lparr>s_threads := rput rootId
            (threadFromPage roomId page (rget (s_threads c) rootId)) (s_threads c)\<rparr>) s
      | Inl err \<Rightarrow> patchThread rootId (\<lambda>t. t\<lparr>th_status := statusOf err\<rparr>) s)"

definition loadThreadIfNeeded :: "ident \<Rightarrow> ident \<Rightarrow> store \<Rightarrow> store" where
  \<comment> \<open>Also the action \<open>openThread\<close>.\<close>
  "loadThreadIfNeeded roomId rootId s =
     (case rget (s_threads (state s)) rootId of
        None \<Rightarrow> loadThread roomId rootId s
      | Some current \<Rightarrow> if th_status current = Ready \<and> th_roomId current = roomId then s
                        else loadThread roomId rootId s)"

definition reloadThread :: "ident \<Rightarrow> ident \<Rightarrow> store \<Rightarrow> store" where
  "reloadThread roomId rootId = await_tasks [TOnce (KThread rootId)] (ContReloadThread roomId rootId)"

definition jumpToThreadMessage :: "ident \<Rightarrow> ident \<Rightarrow> ident \<Rightarrow> store \<Rightarrow> store" where
  "jumpToThreadMessage roomId rootId messageId s =
     await_tasks [TOnce (KThread rootId)] (ContJumpThread roomId rootId messageId) (loadThreadIfNeeded roomId rootId s)"

definition replied :: "ident \<Rightarrow> ident \<Rightarrow> bool \<Rightarrow> store \<Rightarrow> store" where
  "replied rootId messageId found s = s\<lparr>outcomes := outcomes s @ [JumpedToReply rootId messageId found]\<rparr>"

definition contJumpThread :: "ident \<Rightarrow> ident \<Rightarrow> ident \<Rightarrow> store \<Rightarrow> store" where
  "contJumpThread roomId rootId messageId s =
     (if map_option th_status (rget (s_threads (state s)) rootId) \<noteq> Some Ready
      then replied rootId messageId False s
      else request (ThreadCall (CThreadAround roomId rootId messageId)) s)"

definition settleThreadAround :: "ident \<Rightarrow> ident \<Rightarrow> api_error + thread_message_list \<Rightarrow> store \<Rightarrow> store" where
  "settleThreadAround rootId messageId res s =
     (case res of
        Inr page \<Rightarrow> replied rootId messageId (tm_around page \<noteq> None)
          (patchThread rootId (\<lambda>t. t\<lparr>th_replies := mergeReplies [] (tm_messages page),
             th_hasOlder := tm_has_more page, th_loadingOlder := False,
             th_hasNewer := tm_has_more_after page, th_loadingNewer := False\<rparr>) s)
      | Inl err \<Rightarrow> replied rootId messageId False s)"

definition loadNewerThread :: "ident \<Rightarrow> store \<Rightarrow> store" where
  "loadNewerThread rootId s =
     (case rget (s_threads (state s)) rootId of
        None \<Rightarrow> s
      | Some thread \<Rightarrow>
          if th_status thread \<noteq> Ready \<or> \<not> th_hasNewer thread \<or> th_loadingNewer thread then s
          else (case at_last (th_replies thread) of
                  None \<Rightarrow> s
                | Some newest \<Rightarrow> request (ThreadCall (CThreadNewer (th_roomId thread) rootId (m_seq newest)))
                    (patchThread rootId (\<lambda>t. t\<lparr>th_loadingNewer := True\<rparr>) s)))"

definition settleThreadNewer :: "ident \<Rightarrow> api_error + thread_message_list \<Rightarrow> store \<Rightarrow> store" where
  "settleThreadNewer rootId res s =
     (case res of
        Inr page \<Rightarrow> patchThread rootId (\<lambda>t. t\<lparr>th_replies := mergeReplies (th_replies t) (tm_messages page),
                      th_hasNewer := tm_has_more page, th_loadingNewer := False\<rparr>) s
      | Inl err \<Rightarrow> patchThread rootId (\<lambda>t. t\<lparr>th_loadingNewer := False\<rparr>) s)"

definition loadOlderThread :: "ident \<Rightarrow> store \<Rightarrow> store" where
  "loadOlderThread rootId s =
     (case rget (s_threads (state s)) rootId of
        None \<Rightarrow> s
      | Some thread \<Rightarrow>
          if th_status thread \<noteq> Ready \<or> \<not> th_hasOlder thread \<or> th_loadingOlder thread then s
          else (case at_first (th_replies thread) of
                  None \<Rightarrow> s
                | Some oldest \<Rightarrow> request (ThreadCall (CThreadOlder (th_roomId thread) rootId (m_seq oldest)))
                    (patchThread rootId (\<lambda>t. t\<lparr>th_loadingOlder := True\<rparr>) s)))"

definition settleThreadOlder :: "ident \<Rightarrow> api_error + thread_message_list \<Rightarrow> store \<Rightarrow> store" where
  "settleThreadOlder rootId res s =
     (case res of
        Inr page \<Rightarrow> patchThread rootId (\<lambda>t. t\<lparr>th_replies := mergeReplies (th_replies t) (tm_messages page),
                      th_hasOlder := tm_has_more page, th_loadingOlder := False\<rparr>) s
      | Inl err \<Rightarrow> patchThread rootId (\<lambda>t. t\<lparr>th_loadingOlder := False\<rparr>) s)"

definition markThreadRead :: "ident \<Rightarrow> store \<Rightarrow> store" where
  "markThreadRead rootId s =
     (case rget (s_threads (state s)) rootId of
        None \<Rightarrow> s
      | Some thread \<Rightarrow>
          (case (at_last (th_replies thread), th_lastReadThreadSeq thread) of
             (Some newest, Some position) \<Rightarrow>
               if th_status thread \<noteq> Ready then s
               else if (case m_thread_seq newest of None \<Rightarrow> 0 | Some k \<Rightarrow> k) \<le> position then s
               else once (KThreadRead rootId)
                 (request (ThreadCall (CMarkThreadRead (th_roomId thread) rootId (m_seq newest)))) s
           | _ \<Rightarrow> s))"

definition settleMarkThreadRead :: "ident \<Rightarrow> ident \<Rightarrow> api_error + thread_read_state \<Rightarrow> store \<Rightarrow> store" where
  "settleMarkThreadRead roomId rootId res s = finish_once (KThreadRead rootId)
     (case res of
        Inr read \<Rightarrow> if tr_following read then advanceThreadRead roomId rootId (tr_last_read_thread_seq read) s else s
      | Inl err \<Rightarrow> s)"

definition setThreadFocus :: "(ident \<times> ident) option \<Rightarrow> store \<Rightarrow> store" where
  "setThreadFocus focus = update (\<lambda>c. if s_threadFocus c = focus then c else c\<lparr>s_threadFocus := focus\<rparr>)"

definition setThreadNotifications :: "ident \<Rightarrow> ident \<Rightarrow> ident \<Rightarrow> bool \<Rightarrow> store \<Rightarrow> store" where
  "setThreadNotifications workspaceId roomId rootId notify s =
     (let known = map_option ft_notify_replies (Option.bind (rget (s_threadLists (state s)) workspaceId)
            (\<lambda>l. List.find (\<lambda>t. lm_id (ft_root t) = rootId) (ld_list l)))
      in request (ThreadCall (CSetThreadNotify workspaceId roomId rootId notify known))
           (patchThreadList workspaceId (\<lambda>list. applyThreadNotify list rootId notify) s))"

definition settleThreadNotify ::
  "ident \<Rightarrow> ident \<Rightarrow> ident \<Rightarrow> bool \<Rightarrow> bool option \<Rightarrow> api_error + unit \<Rightarrow> store \<Rightarrow> store" where
  "settleThreadNotify workspaceId roomId rootId notify known res s =
     (case res of
        Inl err \<Rightarrow> throw (ThreadCall (CSetThreadNotify workspaceId roomId rootId notify known)) err
          (case known of
             None \<Rightarrow> s
           | Some b \<Rightarrow> patchThreadList workspaceId (\<lambda>list. applyThreadNotify list rootId b) s)
      | Inr _ \<Rightarrow> if notify \<and> known = None then reloadThreads workspaceId s else s)"

section \<open>The invariant\<close>

lemma timeline_wf_Nil [simp]: "timeline_wf []"
  by (simp add: timeline_wf_def)

lemma applyThreadReadToActivity_wf: "feed_wf items \<Longrightarrow> feed_wf (applyThreadReadToActivity items r n)"
  by (simp add: applyThreadReadToActivity_def markRead_wf)

lemma advanceThreadRead_wf [store_wf]: "wf s \<Longrightarrow> wf (advanceThreadRead r t n s)"
  by (auto simp: advanceThreadRead_def Let_def split: option.splits
      intro!: activityRead_wf patchThreadList_wf patchThread_wf applyThreadRead_ok applyThreadReadToActivity_wf)

lemma removeThreadTyping_wf [store_wf]: "wf s \<Longrightarrow> wf (removeThreadTyping r u s)"
  by (simp add: removeThreadTyping_def chat_wf_def Let_def split: option.splits)

lemma receiveThreadTyping_wf [store_wf]: "wf s \<Longrightarrow> wf (receiveThreadTyping r u s)"
  by (simp add: receiveThreadTyping_def chat_wf_def Let_def)

lemma absorbReply_wf:
  assumes "wf s"
  shows "wf (absorbReply m r c s)"
proof -
  let ?s1 = "patchThread r (\<lambda>t. t\<lparr>th_replies := mergeRepliesIntoWindow (th_replies t) (th_hasOlder t) (th_hasNewer t) [m]\<rparr>) s"
  have 1: "wf ?s1" using assms by (rule patchThread_wf) (simp add: mergeRepliesIntoWindow_wf)
  define s2 where "s2 = (if c then (case workspaceOf (state ?s1) (m_room_id m) of None \<Rightarrow> ?s1
     | Some w \<Rightarrow> patchThreadList w (\<lambda>list. applyReplyToThreads list m (userId ?s1)) ?s1) else ?s1)"
  have 2: "wf s2" using 1
    by (auto simp: s2_def split: option.splits intro!: patchThreadList_wf applyReplyToThreads_ok)
  define s3 where "s3 = (case m_thread_seq m of None \<Rightarrow> s2
     | Some k \<Rightarrow> if c \<and> u_id (m_sender m) = userId s2 then advanceThreadRead (m_room_id m) r k s2 else s2)"
  have 3: "wf s3" using 2 by (auto simp: s3_def split: option.splits intro: advanceThreadRead_wf)
  have "absorbReply m r c s = (if c then removeThreadTyping r (u_id (m_sender m)) s3 else s3)"
    unfolding absorbReply_def Let_def s3_def s2_def ..
  with 3 show ?thesis by (simp add: removeThreadTyping_wf)
qed

lemma absorbRoot_wf: "wf s \<Longrightarrow> wf (absorbRoot m s)"
proof -
  assume "wf s"
  then have "wf (patchThread (m_id m) (\<lambda>t. case th_root t of
      Some root \<Rightarrow> if m_change_seq root > m_change_seq m then t else t\<lparr>th_root := Some m\<rparr>
    | None \<Rightarrow> t\<lparr>th_root := Some m\<rparr>) s)"
    by (rule patchThread_wf) (auto split: option.splits)
  then show ?thesis
    by (auto simp: absorbRoot_def Let_def split: option.splits intro!: patchThreadList_wf applyRootToThreads_ok)
qed

lemma absorbThreadMessages_wf [store_wf]: "wf s \<Longrightarrow> wf (absorbThreadMessages ms c s)"
  unfolding absorbThreadMessages_def
  by (rule wf_fold) (auto split: option.splits intro!: absorbRoot_wf absorbReply_wf)

lemma threads_ok_Nil [simp]: "threads_ok []"
  by (simp add: threads_ok_def roots_def)

lemma loadThreads_wf [store_wf]: "wf s \<Longrightarrow> wf (loadThreads w s)"
  by (auto simp: loadThreads_def once_state chat_wf_def)

lemma settleListThreads_wf [store_wf]:
  "wf s \<Longrightarrow> (\<And>l. res = Inr l \<Longrightarrow> threads_ok l) \<Longrightarrow> wf (settleListThreads w res s)"
  using chat_wfD(5)[of "state s" w]
  by (auto simp: settleListThreads_def chat_wf_def split: sum.splits option.splits)

lemma reloadThreads_wf [store_wf]: "wf s \<Longrightarrow> wf (reloadThreads w s)"
  by (simp add: reloadThreads_def)

lemma loadThread_wf [store_wf]: "wf s \<Longrightarrow> wf (loadThread r t s)"
  by (auto simp: loadThread_def once_state chat_wf_def newThread_def)

lemma threadFromPage_wf: "timeline_wf (th_replies (threadFromPage r page cur))"
  by (simp add: threadFromPage_def Let_def mergeRepliesIntoWindow_wf mr.merge_wf)

lemma settleThreadPage_wf [store_wf]: "wf s \<Longrightarrow> wf (settleThreadPage r t res s)"
  by (auto simp: settleThreadPage_def chat_wf_def threadFromPage_wf patchThread_def split: sum.splits)

lemma loadThreadIfNeeded_wf [store_wf]: "wf s \<Longrightarrow> wf (loadThreadIfNeeded r t s)"
  by (simp add: loadThreadIfNeeded_def loadThread_wf split: option.splits)

lemma reloadThread_wf [store_wf]: "wf s \<Longrightarrow> wf (reloadThread r t s)"
  by (simp add: reloadThread_def)

lemma jumpToThreadMessage_wf [store_wf]: "wf s \<Longrightarrow> wf (jumpToThreadMessage r t m s)"
  by (simp add: jumpToThreadMessage_def loadThreadIfNeeded_wf)

lemma replied_state [simp]: "state (replied r m f s) = state s"
  by (simp add: replied_def)

lemma contJumpThread_wf [store_wf]: "wf s \<Longrightarrow> wf (contJumpThread r t m s)"
  by (simp add: contJumpThread_def)

lemma settleThreadAround_wf [store_wf]: "wf s \<Longrightarrow> wf (settleThreadAround t m res s)"
  by (auto simp: settleThreadAround_def mr.merge_wf split: sum.splits intro!: patchThread_wf)

lemma loadNewerThread_wf [store_wf]: "wf s \<Longrightarrow> wf (loadNewerThread t s)"
  by (auto simp: loadNewerThread_def split: option.splits intro!: patchThread_wf)

lemma settleThreadNewer_wf [store_wf]: "wf s \<Longrightarrow> wf (settleThreadNewer t res s)"
  by (auto simp: settleThreadNewer_def mr.merge_wf split: sum.splits intro!: patchThread_wf)

lemma loadOlderThread_wf [store_wf]: "wf s \<Longrightarrow> wf (loadOlderThread t s)"
  by (auto simp: loadOlderThread_def split: option.splits intro!: patchThread_wf)

lemma settleThreadOlder_wf [store_wf]: "wf s \<Longrightarrow> wf (settleThreadOlder t res s)"
  by (auto simp: settleThreadOlder_def mr.merge_wf split: sum.splits intro!: patchThread_wf)

lemma markThreadRead_wf [store_wf]: "wf s \<Longrightarrow> wf (markThreadRead t s)"
  by (auto simp: markThreadRead_def once_state split: option.splits)

lemma settleMarkThreadRead_wf [store_wf]: "wf s \<Longrightarrow> wf (settleMarkThreadRead r t res s)"
  by (auto simp: settleMarkThreadRead_def split: sum.splits intro: advanceThreadRead_wf)

lemma setThreadFocus_wf [store_wf]: "wf s \<Longrightarrow> wf (setThreadFocus f s)"
  by (simp add: setThreadFocus_def chat_wf_def)

lemma setThreadNotifications_wf [store_wf]: "wf s \<Longrightarrow> wf (setThreadNotifications w r t n s)"
  by (auto simp: setThreadNotifications_def Let_def intro!: patchThreadList_wf applyThreadNotify_ok)

lemma settleThreadNotify_wf [store_wf]: "wf s \<Longrightarrow> wf (settleThreadNotify w r t n b res s)"
  by (auto simp: settleThreadNotify_def split: sum.splits option.splits
      intro!: patchThreadList_wf applyThreadNotify_ok reloadThreads_wf)

end
