(* ===== verification/TypingStore.thy ===== *)
theory TypingStore
  imports StoreInv
begin

text \<open>
  Who is typing in a room (\<open>web/lib/chat/store/typing.ts\<close>). A timer is the time at which it fires; the
  clock firing it calls the removal.
\<close>

definition removeTyping :: "ident \<Rightarrow> ident \<Rightarrow> store \<Rightarrow> store" where
  "removeTyping roomId typingUserId s =
     update (\<lambda>c. case rget (s_typing c) roomId of
         None \<Rightarrow> c
       | Some list \<Rightarrow>
           if \<not> some_in (\<lambda>t. u_id (ty_user t) = typingUserId) list then c
           else let rest = filter (\<lambda>t. u_id (ty_user t) \<noteq> typingUserId) list
                in c\<lparr>s_typing := rset roomId (if rest \<noteq> [] then Some rest else None) (s_typing c)\<rparr>)
       (s\<lparr>typingTimers := rclear (TkRoom roomId typingUserId) (typingTimers s)\<rparr>)"

definition receiveTyping :: "ident \<Rightarrow> user_profile \<Rightarrow> store \<Rightarrow> store" where
  "receiveTyping roomId user s =
     (if u_id user = userId s then s
      else update (\<lambda>c.
          let others = filter (\<lambda>t. u_id (ty_user t) \<noteq> u_id user)
                         (case rget (s_typing c) roomId of None \<Rightarrow> [] | Some l \<Rightarrow> l)
          in c\<lparr>s_typing := rput roomId (others @ [\<lparr>ty_user = user, ty_expiresAt = now s + TYPING_TTL_MS\<rparr>]) (s_typing c)\<rparr>)
        (s\<lparr>typingTimers := rput (TkRoom roomId (u_id user)) (now s + TYPING_TTL_MS) (typingTimers s)\<rparr>))"

lemma removeTyping_wf [store_wf]: "wf s \<Longrightarrow> wf (removeTyping r u s)"
  by (simp add: removeTyping_def chat_wf_def Let_def split: option.splits)

lemma receiveTyping_wf [store_wf]: "wf s \<Longrightarrow> wf (receiveTyping r u s)"
  by (simp add: receiveTyping_def chat_wf_def Let_def)

section \<open>A timer for everyone shown\<close>

definition typers :: "chat_state \<Rightarrow> ident \<Rightarrow> typing_user list" where
  "typers c roomId = (case rget (s_typing c) roomId of None \<Rightarrow> [] | Some l \<Rightarrow> l)"

definition typing_ok :: "store \<Rightarrow> bool" where
  \<comment> \<open>Everyone shown as typing is shown once, is not the viewer, and has a timer that will remove them at the
    time the entry says.\<close>
  "typing_ok s \<longleftrightarrow> (\<forall>r. distinct (map (\<lambda>t. u_id (ty_user t)) (typers (state s) r)) \<and>
     (\<forall>t\<in>set (typers (state s) r). u_id (ty_user t) \<noteq> userId s \<and>
        rget (typingTimers s) (TkRoom r (u_id (ty_user t))) = Some (ty_expiresAt t)))"

lemma typers_rset: "typers (c\<lparr>s_typing := rset r (if xs \<noteq> [] then Some xs else None) (s_typing c)\<rparr>) r' =
     (if r = r' then xs else typers c r')"
  by (simp add: typers_def)

lemma typers_timers [simp]: "state (s\<lparr>typingTimers := t\<rparr>) = state s"
  by simp

lemma typers_remove:
  "typers (state (removeTyping r u s)) r' =
     (if r = r' then filter (\<lambda>t. u_id (ty_user t) \<noteq> u) (typers (state s) r') else typers (state s) r')"
proof (cases "rget (s_typing (state s)) r")
  case None
  then show ?thesis by (cases "r = r'") (simp_all add: removeTyping_def typers_def)
next
  case (Some l)
  show ?thesis
  proof (cases "\<exists>t\<in>set l. u_id (ty_user t) = u")
    case True
    with Some show ?thesis by (cases "r = r'") (simp_all add: removeTyping_def Let_def typers_rset, simp_all add: typers_def)
  next
    case False
    then have "filter (\<lambda>t. u_id (ty_user t) \<noteq> u) l = l" by (auto intro: filter_True)
    with Some False show ?thesis by (cases "r = r'") (simp_all add: removeTyping_def, simp_all add: typers_def)
  qed
qed

lemma typers_receive:
  "typers (state (receiveTyping r u s)) r' =
     (if r = r' \<and> u_id u \<noteq> userId s
      then filter (\<lambda>t. u_id (ty_user t) \<noteq> u_id u) (typers (state s) r') @ [\<lparr>ty_user = u, ty_expiresAt = now s + TYPING_TTL_MS\<rparr>]
      else typers (state s) r')"
  by (simp add: receiveTyping_def typers_def Let_def)

lemma removeTyping_timers: "typingTimers (removeTyping r u s) = rclear (TkRoom r u) (typingTimers s)"
  by (simp add: removeTyping_def)

lemma receiveTyping_timers:
  "typingTimers (receiveTyping r u s) = (if u_id u = userId s then typingTimers s
     else rput (TkRoom r (u_id u)) (now s + TYPING_TTL_MS) (typingTimers s))"
  by (simp add: receiveTyping_def)

lemma removeTyping_user [simp]: "userId (removeTyping r u s) = userId s"
  by (simp add: removeTyping_def)

lemma receiveTyping_user [simp]: "userId (receiveTyping r u s) = userId s"
  by (simp add: receiveTyping_def)

lemma removeTyping_ok: "typing_ok s \<Longrightarrow> typing_ok (removeTyping r u s)"
  unfolding typing_ok_def typers_remove removeTyping_timers by (simp add: distinct_map_filter)

lemma receiveTyping_ok: "typing_ok s \<Longrightarrow> typing_ok (receiveTyping r u s)"
  unfolding typing_ok_def typers_receive receiveTyping_timers
  by (auto simp: distinct_map_filter)

section \<open>Properties\<close>

text \<open>at most one entry per person is shown as typing in a room, never the viewer, each with a running timer that
  takes it off at the time it says; a second notice only moves that time.\<close>

theorem typing_invariant:
  assumes "typing_ok s"
  shows "typing_ok (receiveTyping roomId user s)" "typing_ok (removeTyping roomId userId' s)"
  using assms by (simp_all add: receiveTyping_ok removeTyping_ok)

theorem typing_invariant_witness:
  "typing_ok (receiveTyping ''r'' (sample_user ''a'') (createStore ''u'' 0))"
  by (rule typing_invariant(1)) (simp add: typing_ok_def typers_def createStore_def initialState_def)

end
