(* ===== verification/TimelineStore.thy ===== *)
theory TimelineStore
  imports ReadStore PinStore ThreadStore TypingStore
begin

text \<open>
  The timeline of a room (\<open>web/lib/chat/store/timeline.ts\<close>): opening it, receiving messages, and catching
  up with the changes that were missed, from a cursor over the room's \<open>change_seq\<close>.
\<close>

section \<open>Reading and the unread line\<close>

definition allMine :: "ident \<Rightarrow> int \<Rightarrow> message list \<Rightarrow> bool" where
  "allMine user previousNewest added \<longleftrightarrow>
     (\<forall>m\<in>set (filter (\<lambda>m. m_seq m > previousNewest \<and> inChannel m) added). u_id (m_sender m) = user)"

definition afterNewMessages :: "ident \<Rightarrow> int option \<Rightarrow> message list \<Rightarrow> store \<Rightarrow> store" where
  "afterNewMessages roomId previousNewest added s =
     (case (rget (s_timelines (state s)) roomId, rget (s_rooms (state s)) roomId, previousNewest) of
        (Some timeline, Some room, Some previous) \<Rightarrow>
          (case newestChannelSeq (tl_messages timeline) of
             None \<Rightarrow> s
           | Some newest \<Rightarrow>
               if tl_status timeline \<noteq> Ready \<or> newest \<le> previous \<or> r_last_read_seq room = None then s
               else
                 let focused = (map_option fo_roomId (s_focus (state s)) = Some roomId);
                     caughtUp = (case s_focus (state s) of None \<Rightarrow> False | Some f \<Rightarrow> fo_roomId f = roomId \<and> fo_caughtUp f);
                     seen = (caughtUp \<or> allMine (userId s) previous added)
                 in if seen then
                      let s1 = (case tl_unreadAfterSeq timeline of
                                  None \<Rightarrow> s
                                | Some k \<Rightarrow> if k \<ge> previous
                                            then patchTimeline roomId (\<lambda>t. t\<lparr>tl_unreadAfterSeq := Some newest\<rparr>) s else s)
                      in if focused then requestMarkRead roomId newest s1 else s1
                    else if tl_unreadAfterSeq timeline = None
                    then patchTimeline roomId (\<lambda>t. t\<lparr>tl_unreadAfterSeq := Some previous\<rparr>) s
                    else s)
      | _ \<Rightarrow> s)"

section \<open>The room behind the timeline\<close>

definition refreshRoom :: "ident \<Rightarrow> store \<Rightarrow> store" where
  "refreshRoom roomId = once (KRoomInfo roomId) (request (TimelineCall (CGetRoomInfo roomId)))"

definition settleGetRoomInfo :: "ident \<Rightarrow> api_error + room \<Rightarrow> store \<Rightarrow> store" where
  "settleGetRoomInfo roomId res s = finish_once (KRoomInfo roomId)
     (case res of Inr room \<Rightarrow> putRoom room s | Inl err \<Rightarrow> s)"

definition reflectChangeInRoom :: "message \<Rightarrow> store \<Rightarrow> store" where
  "reflectChangeInRoom message s =
     (let prev = rget (s_rooms (state s)) (m_room_id message);
          s1 = patchRoom (m_room_id message) (\<lambda>room. applyMessageToRoom room message (userId s) False) s
      in if map_option lm_id (Option.bind prev r_last_message) = Some (m_id message) \<and> m_deleted_at message \<noteq> None
         then refreshRoom (m_room_id message) s1 else s1)"

section \<open>Catching up\<close>

definition endSync :: "ident \<Rightarrow> store \<Rightarrow> store" where
  "endSync roomId s = settle_task (TSync roomId) (s\<lparr>syncing := rclear roomId (syncing s)\<rparr>)"

definition syncOnce :: "ident \<Rightarrow> store \<Rightarrow> store" where
  \<comment> \<open>\<open>syncOnce\<close> up to its first request; a timeline that is not ready ends the loop.\<close>
  "syncOnce roomId s =
     (case rget (s_timelines (state s)) roomId of
        None \<Rightarrow> endSync roomId s
      | Some timeline \<Rightarrow>
          if tl_status timeline \<noteq> Ready then endSync roomId s
          else request (TimelineCall (CListChanges roomId (tl_changeSeq timeline)
                 (newestChannelSeq (tl_messages timeline)))) s)"

definition syncTimeline :: "ident \<Rightarrow> store \<Rightarrow> store" where
  "syncTimeline roomId s =
     (if rget (syncing s) roomId \<noteq> None
      then s\<lparr>syncing := rput roomId True (syncing s)\<rparr>
      else syncOnce roomId (s\<lparr>syncing := rput roomId False (syncing s)\<rparr>))"

definition syncAgain :: "ident \<Rightarrow> store \<Rightarrow> store" where
  \<comment> \<open>\<open>while (entry.again)\<close>\<close>
  "syncAgain roomId s =
     (if rget (syncing s) roomId = Some True
      then syncOnce roomId (s\<lparr>syncing := rput roomId False (syncing s)\<rparr>)
      else endSync roomId s)"

definition syncFailed :: "ident \<Rightarrow> api_error \<Rightarrow> store \<Rightarrow> store" where
  "syncFailed roomId err s = endSync roomId
     (if statusOf err = NotFound then patchTimeline roomId (\<lambda>t. t\<lparr>tl_status := NotFound\<rparr>) s else s)"

definition mergeChanges :: "message_list \<Rightarrow> timeline_state \<Rightarrow> timeline_state" where
  "mergeChanges page current =
     (let messages = mergeIntoWindow (tl_messages current) (tl_hasOlder current) (tl_hasNewer current) (ml_messages page)
      in current\<lparr>tl_messages := messages,
                 tl_changeSeq := advanceCursor (max (tl_changeSeq current) (ml_last_change_seq page)) messages\<rparr>)"

definition replaceByLatest :: "message_list \<Rightarrow> message list \<Rightarrow> message list" where
  \<comment> \<open>The newest page with what arrived after it was read.\<close>
  "replaceByLatest page held =
     mergeIntoWindow (mergeMessages [] (ml_messages page)) (ml_has_more page) False
       (filter (\<lambda>m. m_change_seq m > ml_last_change_seq page) held)"

definition takeLatest :: "message_list \<Rightarrow> timeline_state \<Rightarrow> timeline_state" where
  "takeLatest page current =
     (let messages = replaceByLatest page (tl_messages current)
      in current\<lparr>tl_messages := messages, tl_hasOlder := ml_has_more page, tl_hasNewer := False,
                 tl_changeSeq := advanceCursor (ml_last_change_seq page) messages\<rparr>)"

definition settleListChanges :: "ident \<Rightarrow> int option \<Rightarrow> api_error + message_list \<Rightarrow> store \<Rightarrow> store" where
  "settleListChanges roomId previousNewest res s =
     (case res of
        Inl err \<Rightarrow> syncFailed roomId err s
      | Inr page \<Rightarrow>
          let s1 = absorbThreadMessages (ml_messages page) False s;
              s2 = absorbPins (ml_messages page) s1;
              s3 = fold reflectChangeInRoom (ml_messages page) s2
          in if \<not> ml_has_more page
             then syncAgain roomId (afterNewMessages roomId previousNewest (ml_messages page)
                    (patchTimeline roomId (mergeChanges page) s3))
             else
               let s4 = (if rget (s_pins (state s3)) roomId \<noteq> None then loadPins roomId s3 else s3)
               in request (TimelineCall (CListLatest roomId previousNewest)) s4)"

definition settleListLatest :: "ident \<Rightarrow> int option \<Rightarrow> api_error + message_list \<Rightarrow> store \<Rightarrow> store" where
  "settleListLatest roomId previousNewest res s =
     (case res of
        Inl err \<Rightarrow> syncFailed roomId err s
      | Inr latest \<Rightarrow> syncAgain roomId (afterNewMessages roomId previousNewest (ml_messages latest)
          (patchTimeline roomId (takeLatest latest) s)))"

section \<open>A message arrives\<close>

definition roomToTop :: "message \<Rightarrow> bool \<Rightarrow> room option \<Rightarrow> store \<Rightarrow> store" where
  "roomToTop message created prev s =
     (case (prev, rget (s_rooms (state s)) (m_room_id message)) of
        (Some p, Some after) \<Rightarrow>
          if created \<and> after \<noteq> p
          then patchRoomList (r_workspace_id after) (\<lambda>rs.
                 if at_first rs = Some (m_room_id message) \<or> m_room_id message \<notin> set rs then rs
                 else m_room_id message # filter (\<lambda>i. i \<noteq> m_room_id message) rs) s
          else s
      | _ \<Rightarrow> s)"

definition receiveShared :: "message \<Rightarrow> bool \<Rightarrow> store \<Rightarrow> store" where
  \<comment> \<open>The part of \<open>receiveMessage\<close> before the timeline: what was being sent, the room, threads, pins.\<close>
  "receiveShared message created s =
     (let roomId = m_room_id message;
          s1 = (if created \<and> u_id (m_sender message) = userId s
                then patchOutgoing roomId (filter (\<lambda>o'. og_clientMsgId o' \<noteq> m_client_msg_id message)) s else s);
          prev = rget (s_rooms (state s1)) roomId;
          s2 = (if created then patchRoom roomId (\<lambda>room. applyMessageToRoom room message (userId s1) True) s1
                else reflectChangeInRoom message s1);
          s3 = roomToTop message created prev s2;
          s4 = (if created \<and> m_thread_root_id message = None
                then removeTyping roomId (u_id (m_sender message)) s3 else s3)
      in absorbPins [message] (absorbThreadMessages [message] created s4))"

definition takeMessage :: "message \<Rightarrow> timeline_state \<Rightarrow> timeline_state" where
  "takeMessage message timeline =
     (let messages = mergeIntoWindow (tl_messages timeline) (tl_hasOlder timeline) (tl_hasNewer timeline) [message];
          nxt = (if m_change_seq message = tl_changeSeq timeline + 1 then m_change_seq message else tl_changeSeq timeline)
      in timeline\<lparr>tl_messages := messages, tl_changeSeq := advanceCursor nxt messages\<rparr>)"

definition receiveMessage :: "message \<Rightarrow> bool \<Rightarrow> store \<Rightarrow> store" where
  "receiveMessage message created s =
     (let roomId = m_room_id message; s1 = receiveShared message created s in
      case rget (s_timelines (state s1)) roomId of
        None \<Rightarrow> s1
      | Some timeline \<Rightarrow>
          if tl_status timeline = Loading
          then patchTimeline roomId (\<lambda>t. t\<lparr>tl_messages := mergeMessages (tl_messages timeline) [message]\<rparr>) s1
          else if tl_status timeline \<noteq> Ready \<or> m_change_seq message \<le> tl_changeSeq timeline then s1
          else
            let s2 = patchTimeline roomId (takeMessage message) s1;
                s3 = afterNewMessages roomId (newestChannelSeq (tl_messages timeline)) [message] s2
            in if m_change_seq message > tl_changeSeq timeline + 1 \<and>
                  tl_changeSeq (takeMessage message timeline) < m_change_seq message
               then syncTimeline roomId s3 else s3)"

section \<open>Opening a room\<close>

definition loadingTimeline :: "timeline_state option \<Rightarrow> timeline_state" where
  "loadingTimeline current = \<lparr>tl_status = Loading,
     tl_messages = (case current of None \<Rightarrow> [] | Some t \<Rightarrow> if tl_status t = Loading then tl_messages t else []),
     tl_hasOlder = False, tl_loadingOlder = False, tl_hasNewer = False, tl_loadingNewer = False,
     tl_unreadAfterSeq = None, tl_unreadAtOpen = 0, tl_changeSeq = 0\<rparr>"

definition openRoom :: "ident \<Rightarrow> store \<Rightarrow> store" where
  "openRoom roomId = once (KRoom roomId) (\<lambda>s.
     if map_option tl_status (rget (s_timelines (state s)) roomId) = Some Ready
     then request (TimelineCall (COpenCached roomId)) s
     else request (TimelineCall (COpenFresh roomId))
            (update (\<lambda>c. c\<lparr>s_timelines := rput roomId (loadingTimeline (rget (s_timelines c) roomId)) (s_timelines c)\<rparr>) s))"

definition openedRoom :: "ident \<Rightarrow> store \<Rightarrow> store" where
  \<comment> \<open>The end of \<open>openRoom\<close>: what is shown was read.\<close>
  "openedRoom roomId s =
     (case Option.bind (rget (s_timelines (state s)) roomId) (\<lambda>t. newestChannelSeq (tl_messages t)) of
        None \<Rightarrow> finish_once (KRoom roomId) s
      | Some latestSeq \<Rightarrow>
          await_tasks (if needsRead roomId latestSeq s then [TRead roomId] else []) (ContFinish (KRoom roomId))
            (requestMarkRead roomId latestSeq s))"

definition openFailed :: "ident \<Rightarrow> api_error \<Rightarrow> store \<Rightarrow> store" where
  "openFailed roomId err s =
     finish_once (KRoom roomId) (patchTimeline roomId (\<lambda>t. t\<lparr>tl_status := statusOf err\<rparr>) s)"

definition settleOpenCached :: "ident \<Rightarrow> api_error + room \<Rightarrow> store \<Rightarrow> store" where
  "settleOpenCached roomId res s =
     (case res of
        Inl err \<Rightarrow> openFailed roomId err s
      | Inr room \<Rightarrow> await_tasks [TSync roomId] (ContOpenSynced roomId)
          (syncTimeline roomId
            (patchTimeline roomId (\<lambda>t. t\<lparr>tl_unreadAfterSeq := r_last_read_seq room, tl_unreadAtOpen := r_unread_count room\<rparr>)
              (putRoom room s))))"

definition openedTimeline :: "room \<Rightarrow> message_list \<Rightarrow> message list \<Rightarrow> timeline_state" where
  "openedTimeline room page held =
     (let messages = replaceByLatest page held
      in \<lparr>tl_status = Ready, tl_messages = messages, tl_hasOlder = ml_has_more page, tl_loadingOlder = False,
          tl_hasNewer = False, tl_loadingNewer = False, tl_unreadAfterSeq = r_last_read_seq room,
          tl_unreadAtOpen = r_unread_count room,
          tl_changeSeq = advanceCursor (ml_last_change_seq page) messages\<rparr>)"

definition settleOpenFresh :: "ident \<Rightarrow> api_error + room \<times> message_list \<Rightarrow> store \<Rightarrow> store" where
  "settleOpenFresh roomId res s =
     (case res of
        Inl err \<Rightarrow> openFailed roomId err s
      | Inr (room, page) \<Rightarrow> openedRoom roomId
          (update (\<lambda>c. c\<lparr>s_timelines := rput roomId
               (openedTimeline room page (case rget (s_timelines c) roomId of None \<Rightarrow> [] | Some t \<Rightarrow> tl_messages t))
               (s_timelines c)\<rparr>) (putRoom room s)))"

section \<open>The invariant\<close>

lemma afterNewMessages_wf [store_wf]: "wf s \<Longrightarrow> wf (afterNewMessages r p added s)"
  by (auto simp: afterNewMessages_def Let_def split: option.splits intro!: patchTimeline_wf)

lemma refreshRoom_wf [store_wf]: "wf s \<Longrightarrow> wf (refreshRoom r s)"
  by (simp add: refreshRoom_def once_state)

lemma settleGetRoomInfo_wf [store_wf]: "wf s \<Longrightarrow> wf (settleGetRoomInfo r res s)"
  by (simp add: settleGetRoomInfo_def putRoom_wf split: sum.splits)

lemma reflectChangeInRoom_wf [store_wf]: "wf s \<Longrightarrow> wf (reflectChangeInRoom m s)"
  by (simp add: reflectChangeInRoom_def Let_def refreshRoom_wf patchRoom_wf)

lemma endSync_state [simp]: "state (endSync r s) = state s"
  by (simp add: endSync_def)

lemma syncOnce_state [simp]: "state (syncOnce r s) = state s"
  by (simp add: syncOnce_def split: option.splits)

lemma syncTimeline_state [simp]: "state (syncTimeline r s) = state s"
  by (simp add: syncTimeline_def)

lemma syncAgain_state [simp]: "state (syncAgain r s) = state s"
  by (simp add: syncAgain_def)

lemma syncFailed_wf [store_wf]: "wf s \<Longrightarrow> wf (syncFailed r e s)"
  by (auto simp: syncFailed_def intro!: patchTimeline_wf)

lemma mergeChanges_wf: "timeline_wf (tl_messages t) \<Longrightarrow> timeline_wf (tl_messages (mergeChanges page t))"
  by (simp add: mergeChanges_def Let_def mergeIntoWindow_wf)

lemma replaceByLatest_wf: "timeline_wf (replaceByLatest page held)"
  by (simp add: replaceByLatest_def mergeIntoWindow_wf mm.merge_wf)

lemma takeLatest_wf: "timeline_wf (tl_messages (takeLatest page t))"
  by (simp add: takeLatest_def Let_def replaceByLatest_wf)

lemma takeMessage_wf: "timeline_wf (tl_messages t) \<Longrightarrow> timeline_wf (tl_messages (takeMessage m t))"
  by (simp add: takeMessage_def Let_def mergeIntoWindow_wf)

lemma settleListChanges_wf [store_wf]:
  assumes "wf s"
  shows "wf (settleListChanges r p res s)"
proof (cases res)
  case (Inl err)
  then show ?thesis using assms by (simp add: settleListChanges_def syncFailed_wf)
next
  case (Inr page)
  let ?s3 = "fold reflectChangeInRoom (ml_messages page) (absorbPins (ml_messages page) (absorbThreadMessages (ml_messages page) False s))"
  have "wf ?s3" using assms by (intro wf_fold absorbPins_wf absorbThreadMessages_wf reflectChangeInRoom_wf)
  then have "wf (afterNewMessages r p (ml_messages page) (patchTimeline r (mergeChanges page) ?s3))" "wf (loadPins r ?s3)"
    by (auto intro!: afterNewMessages_wf patchTimeline_wf mergeChanges_wf loadPins_wf)
  with \<open>wf ?s3\<close> show ?thesis by (simp add: settleListChanges_def Inr Let_def)
qed

lemma settleListLatest_wf [store_wf]: "wf s \<Longrightarrow> wf (settleListLatest r p res s)"
  by (auto simp: settleListLatest_def syncFailed_wf split: sum.splits
      intro!: afterNewMessages_wf patchTimeline_wf takeLatest_wf)

lemma roomToTop_wf [store_wf]: "wf s \<Longrightarrow> wf (roomToTop m c p s)"
  by (auto simp: roomToTop_def split: option.splits intro!: patchRoomList_wf)

lemma receiveShared_wf [store_wf]:
  assumes "wf s"
  shows "wf (receiveShared m c s)"
  unfolding receiveShared_def Let_def
  by (intro if_wf absorbPins_wf absorbThreadMessages_wf roomToTop_wf patchRoom_wf reflectChangeInRoom_wf
        patchOutgoing_wf removeTyping_wf assms)

lemma receiveMessage_wf [store_wf]:
  assumes "wf s"
  shows "wf (receiveMessage m c s)"
proof -
  have 1: "wf (receiveShared m c s)" using assms by (rule receiveShared_wf)
  have "wf (patchTimeline r (takeMessage m) (receiveShared m c s))" for r
    using 1 by (rule patchTimeline_wf) (rule takeMessage_wf)
  moreover have "wf (patchTimeline r (\<lambda>t. t\<lparr>tl_messages := mergeMessages ms [m]\<rparr>) (receiveShared m c s))" for r ms
    using 1 by (rule patchTimeline_wf) (simp add: mm.merge_wf)
  ultimately show ?thesis
    using 1 by (auto simp: receiveMessage_def Let_def afterNewMessages_wf split: option.splits)
qed

lemma openRoom_wf [store_wf]: "wf s \<Longrightarrow> wf (openRoom r s)"
  using chat_wfD(1)[of "state s" r]
  by (auto simp: openRoom_def once_state chat_wf_def loadingTimeline_def split: option.splits)

lemma openedRoom_wf [store_wf]: "wf s \<Longrightarrow> wf (openedRoom r s)"
  by (simp add: openedRoom_def split: option.splits)

lemma openFailed_wf [store_wf]: "wf s \<Longrightarrow> wf (openFailed r e s)"
  by (auto simp: openFailed_def intro!: patchTimeline_wf)

lemma settleOpenCached_wf [store_wf]: "wf s \<Longrightarrow> wf (settleOpenCached r res s)"
  by (auto simp: settleOpenCached_def openFailed_wf split: sum.splits intro!: patchTimeline_wf putRoom_wf)

lemma settleOpenFresh_wf [store_wf]:
  assumes "wf s"
  shows "wf (settleOpenFresh r res s)"
proof (cases res)
  case (Inl err)
  then show ?thesis using assms by (simp add: settleOpenFresh_def openFailed_wf)
next
  case (Inr p)
  obtain room page where p: "p = (room, page)" by (cases p)
  have "wf (update (\<lambda>c. c\<lparr>s_timelines := rput r
      (openedTimeline room page (case rget (s_timelines c) r of None \<Rightarrow> [] | Some t \<Rightarrow> tl_messages t)) (s_timelines c)\<rparr>) (putRoom room s))"
    using putRoom_wf[OF assms, of room]
    by (rule update_wf) (simp add: chat_wf_def rec_all_rput openedTimeline_def Let_def replaceByLatest_wf)
  then show ?thesis by (simp add: settleOpenFresh_def Inr p openedRoom_wf)
qed

end
