(* ===== verification/SendStore.thy ===== *)
theory SendStore
  imports TimelineStore
begin

text \<open>
  Sending messages (\<open>web/lib/chat/store/send.ts\<close>): one queue per room, sent one at a time in the order of
  input. A queue is an object that a running loop keeps hold of after the map has dropped it, so the map
  holds its address and the objects live in a heap. A request carries a number, so that an answer after the
  timeout is told from the answer the loop waits for.
\<close>

definition outgoing_of :: "store \<Rightarrow> ident \<Rightarrow> outgoing_message list" where
  "outgoing_of s roomId = (case rget (s_outgoing (state s)) roomId of None \<Rightarrow> [] | Some l \<Rightarrow> l)"

definition queue_at :: "store \<Rightarrow> nat \<Rightarrow> ident list" where
  "queue_at s q = (case rget (queueHeap s) q of None \<Rightarrow> [] | Some l \<Rightarrow> l)"

definition sendable :: "store \<Rightarrow> ident \<Rightarrow> ident \<Rightarrow> bool" where
  \<comment> \<open>There is an item and it is pending.\<close>
  "sendable s roomId clientMsgId =
     (map_option og_status (List.find (\<lambda>m. og_clientMsgId m = clientMsgId) (outgoing_of s roomId)) = Some Pending)"

definition runLoop :: "ident \<Rightarrow> store \<Rightarrow> store" where
  \<comment> \<open>The head of the loop: drop what needs no sending, then send the first, or end.\<close>
  "runLoop roomId s =
     (case rget (sendQueues s) roomId of
        None \<Rightarrow> settle_task (TSend roomId) (s\<lparr>sendLoops := rclear roomId (sendLoops s)\<rparr>)
      | Some q \<Rightarrow>
          let rest = dropWhile (\<lambda>i. \<not> sendable s roomId i) (queue_at s q);
              s1 = s\<lparr>queueHeap := rput q rest (queueHeap s)\<rparr>
          in case rest of
               [] \<Rightarrow> settle_task (TSend roomId) (s1\<lparr>sendLoops := rclear roomId (sendLoops s1)\<rparr>)
             | clientMsgId # _ \<Rightarrow>
                 request (MessageCall (CSend roomId clientMsgId (nextId s1)))
                   (s1\<lparr>sendLoops := rput roomId (q, nextId s1) (sendLoops s1), nextId := nextId s1 + 1\<rparr>))"

definition runSendQueue :: "ident \<Rightarrow> store \<Rightarrow> store" where
  "runSendQueue roomId s = (if rget (sendLoops s) roomId \<noteq> None then s else runLoop roomId s)"

definition failQueue :: "ident \<Rightarrow> store \<Rightarrow> store" where
  "failQueue roomId s =
     (let queued = (case rget (sendQueues s) roomId of None \<Rightarrow> [] | Some q \<Rightarrow> queue_at s q)
      in patchOutgoing roomId (map (\<lambda>m. if og_clientMsgId m \<in> set queued \<and> og_status m = Pending
                                         then m\<lparr>og_status := Failed\<rparr> else m))
           (s\<lparr>sendQueues := rclear roomId (sendQueues s)\<rparr>))"

definition loopWaits :: "ident \<Rightarrow> nat \<Rightarrow> store \<Rightarrow> bool" where
  \<comment> \<open>The loop of the room still waits for this request.\<close>
  "loopWaits roomId n s \<longleftrightarrow> map_option snd (rget (sendLoops s) roomId) = Some n"

definition shiftQueue :: "ident \<Rightarrow> store \<Rightarrow> store" where
  \<comment> \<open>\<open>queue.shift()\<close> on the object the loop holds.\<close>
  "shiftQueue roomId s = (case rget (sendLoops s) roomId of
     None \<Rightarrow> s | Some (q, _) \<Rightarrow> s\<lparr>queueHeap := rput q (tl (queue_at s q)) (queueHeap s)\<rparr>)"

definition settleSend :: "ident \<Rightarrow> nat \<Rightarrow> api_error + message \<Rightarrow> store \<Rightarrow> store" where
  "settleSend roomId n res s =
     (case res of
        Inr message \<Rightarrow>
          let s1 = receiveMessage message True s
          in if loopWaits roomId n s1 then runLoop roomId (shiftQueue roomId s1) else s1
      | Inl err \<Rightarrow> if loopWaits roomId n s then runLoop roomId (failQueue roomId s) else s)"

definition sendTimeout :: "ident \<Rightarrow> nat \<Rightarrow> store \<Rightarrow> store" where
  \<comment> \<open>The timer of \<open>sendOne\<close> fires; it is cleared when the request was answered first.\<close>
  "sendTimeout roomId n s = (if loopWaits roomId n s then runLoop roomId (failQueue roomId s) else s)"

definition enqueueSend :: "ident \<Rightarrow> ident \<Rightarrow> store \<Rightarrow> store" where
  "enqueueSend roomId clientMsgId s =
     (let s1 = (case rget (sendQueues s) roomId of
                  Some q \<Rightarrow> s\<lparr>queueHeap := rput q (queue_at s q @ [clientMsgId]) (queueHeap s)\<rparr>
                | None \<Rightarrow> s\<lparr>queueHeap := rput (nextId s) [clientMsgId] (queueHeap s),
                             sendQueues := rput roomId (nextId s) (sendQueues s), nextId := nextId s + 1\<rparr>)
      in runSendQueue roomId s1)"

definition dropOutgoing :: "ident \<Rightarrow> store \<Rightarrow> store" where
  "dropOutgoing roomId s =
     update (\<lambda>c. if rget (s_outgoing c) roomId \<noteq> None then c\<lparr>s_outgoing := rclear roomId (s_outgoing c)\<rparr> else c)
       (s\<lparr>sendQueues := rclear roomId (sendQueues s)\<rparr>)"

record send_input =
  si_body :: string
  si_attachments :: "message_attachment list option"
  si_threadRootId :: "ident option"
  si_alsoInChannel :: "bool option"
  si_suppressed :: "string list option"

definition newOutgoing :: "ident \<Rightarrow> send_input \<Rightarrow> int \<Rightarrow> outgoing_message" where
  "newOutgoing clientMsgId input t =
     \<lparr>og_clientMsgId = clientMsgId, og_body = si_body input, og_threadRootId = si_threadRootId input,
      og_alsoInChannel = (si_threadRootId input \<noteq> None \<and> si_alsoInChannel input = Some True),
      og_attachments = (case si_attachments input of None \<Rightarrow> [] | Some l \<Rightarrow> l),
      og_suppressed = (case si_suppressed input of None \<Rightarrow> None | Some [] \<Rightarrow> None | Some l \<Rightarrow> Some l),
      og_status = Pending, og_createdAt = t\<rparr>"

definition sendMessage :: "ident \<Rightarrow> send_input \<Rightarrow> ident \<Rightarrow> store \<Rightarrow> store" where
  \<comment> \<open>The new ULID is an argument: it comes from the clock and random bits.\<close>
  "sendMessage roomId input clientMsgId s =
     enqueueSend roomId clientMsgId
       (patchOutgoing roomId (\<lambda>list. list @ [newOutgoing clientMsgId input (now s)]) s)"

definition retryMessage :: "ident \<Rightarrow> ident \<Rightarrow> store \<Rightarrow> store" where
  "retryMessage roomId clientMsgId s =
     (if map_option og_status (List.find (\<lambda>m. og_clientMsgId m = clientMsgId) (outgoing_of s roomId)) \<noteq> Some Failed
      then s
      else enqueueSend roomId clientMsgId
        (patchOutgoing roomId (map (\<lambda>m. if og_clientMsgId m = clientMsgId then m\<lparr>og_status := Pending\<rparr> else m)) s))"

definition discardMessage :: "ident \<Rightarrow> ident \<Rightarrow> store \<Rightarrow> store" where
  "discardMessage roomId clientMsgId = patchOutgoing roomId (\<lambda>list.
     if some_in (\<lambda>m. og_clientMsgId m = clientMsgId \<and> og_status m = Failed) list
     then filter (\<lambda>m. og_clientMsgId m \<noteq> clientMsgId) list else list)"

section \<open>The invariant\<close>

lemma runLoop_state [simp]: "state (runLoop r s) = state s"
  by (simp add: runLoop_def Let_def split: option.splits list.splits)

lemma runSendQueue_state [simp]: "state (runSendQueue r s) = state s"
  by (simp add: runSendQueue_def)

lemma shiftQueue_state [simp]: "state (shiftQueue r s) = state s"
  by (simp add: shiftQueue_def split: option.splits)

lemma enqueueSend_state [simp]: "state (enqueueSend r i s) = state s"
  by (simp add: enqueueSend_def Let_def split: option.splits)

lemma failQueue_wf [store_wf]: "wf s \<Longrightarrow> wf (failQueue r s)"
  unfolding failQueue_def Let_def by (rule patchOutgoing_wf) simp

lemma settleSend_wf [store_wf]: "wf s \<Longrightarrow> wf (settleSend r n res s)"
  by (simp add: settleSend_def Let_def receiveMessage_wf failQueue_wf split: sum.splits)

lemma sendTimeout_wf [store_wf]: "wf s \<Longrightarrow> wf (sendTimeout r n s)"
  by (simp add: sendTimeout_def failQueue_wf)

lemma dropOutgoing_wf [store_wf]: "wf s \<Longrightarrow> wf (dropOutgoing r s)"
  by (simp add: dropOutgoing_def chat_wf_def)

lemma sendMessage_wf [store_wf]: "wf s \<Longrightarrow> wf (sendMessage r input i s)"
  by (simp add: sendMessage_def patchOutgoing_wf)

lemma retryMessage_wf [store_wf]: "wf s \<Longrightarrow> wf (retryMessage r i s)"
  by (simp add: retryMessage_def patchOutgoing_wf)

lemma discardMessage_wf [store_wf]: "wf s \<Longrightarrow> wf (discardMessage r i s)"
  by (simp add: discardMessage_def patchOutgoing_wf)

end
