(* ===== verification/SavedStore.thy ===== *)
theory SavedStore
  imports StoreInv
begin

text \<open>
  "Later" in the store (\<open>web/lib/chat/store/saved.ts\<close>): the tabs, the count in progress, the mark on the
  messages, and the cursor over the viewer's own \<open>change_seq\<close>.
\<close>

definition patchSaved :: "ident \<Rightarrow> (saved_ws \<Rightarrow> saved_ws option) \<Rightarrow> store \<Rightarrow> store" where
  \<comment> \<open>\<open>None\<close>: the recipe returned its argument.\<close>
  "patchSaved workspaceId recipe = update (\<lambda>c.
     let current = (case rget (s_saved c) workspaceId of
                      None \<Rightarrow> \<lparr>sw_tabs = [], sw_inProgressCount = 0, sw_cursor = None\<rparr> | Some w \<Rightarrow> w)
     in case recipe current of None \<Rightarrow> c | Some nxt \<Rightarrow> c\<lparr>s_saved := rput workspaceId nxt (s_saved c)\<rparr>)"

definition saved_cursor :: "store \<Rightarrow> ident \<Rightarrow> int option" where
  "saved_cursor s workspaceId = Option.bind (rget (s_saved (state s)) workspaceId) sw_cursor"

definition saved_tabs_of :: "store \<Rightarrow> ident \<Rightarrow> saved_tabs" where
  "saved_tabs_of s workspaceId = (case rget (s_saved (state s)) workspaceId of None \<Rightarrow> [] | Some w \<Rightarrow> sw_tabs w)"

definition markSaved :: "ident \<Rightarrow> ident \<Rightarrow> bool \<Rightarrow> store \<Rightarrow> store" where
  "markSaved roomId messageId saved s =
     update (\<lambda>c. case rget (s_pins c) roomId of
         None \<Rightarrow> c
       | Some pins \<Rightarrow>
           if \<not> some_in (\<lambda>m. m_id m = messageId \<and> m_saved m \<noteq> Some saved) (ld_list pins) then c
           else c\<lparr>s_pins := rput roomId (pins\<lparr>ld_list :=
                  map (\<lambda>m. if m_id m = messageId then m\<lparr>m_saved := Some saved\<rparr> else m) (ld_list pins)\<rparr>) (s_pins c)\<rparr>)
       (patchMessageEverywhere roomId messageId (\<lambda>m. m\<lparr>m_saved := Some saved\<rparr>) s)"

definition in_progress_delta :: "saved_state \<Rightarrow> saved_state option \<Rightarrow> int" where
  "in_progress_delta new previous = (case previous of
     None \<Rightarrow> 0
   | Some p \<Rightarrow> of_bool (new = SavInProgress) - of_bool (p = SavInProgress))"

definition refreshSavedCount :: "ident \<Rightarrow> store \<Rightarrow> store" where
  "refreshSavedCount workspaceId = once (KSavedCount workspaceId) (request (SavedCall (CSavedCount workspaceId)))"

definition settleSavedCount :: "ident \<Rightarrow> api_error + saved_list \<Rightarrow> store \<Rightarrow> store" where
  "settleSavedCount workspaceId res s = finish_once (KSavedCount workspaceId)
     (case res of
        Inr page \<Rightarrow> patchSaved workspaceId (\<lambda>w. Some (w\<lparr>sw_inProgressCount := sl_in_progress_count page\<rparr>)) s
      | Inl err \<Rightarrow> s)"

definition absorbSavedItem :: "saved_item \<Rightarrow> store \<Rightarrow> store" where
  "absorbSavedItem item s =
     (let previous = rget (knownSavedStates s) (sv_message_id item);
          s1 = s\<lparr>knownSavedStates := rput (sv_message_id item) (sv_state item) (knownSavedStates s)\<rparr>;
          s2 = patchSaved (sv_workspace_id item) (\<lambda>w.
                 let tabs = applySavedItem (sw_tabs w) item;
                     delta = in_progress_delta (sv_state item) previous
                 in if tabs = sw_tabs w \<and> delta = 0 then None
                    else Some (w\<lparr>sw_tabs := tabs, sw_inProgressCount := max 0 (sw_inProgressCount w + delta)\<rparr>)) s1;
          s3 = (if previous = None \<and> saved_cursor s2 (sv_workspace_id item) \<noteq> None
                then refreshSavedCount (sv_workspace_id item) s2 else s2)
      in markSaved (sv_room_id item) (sv_message_id item) (sv_state item \<noteq> SavRemoved) s3)"

section \<open>Catching up with the viewer's changes\<close>

definition endSavedSync :: "ident \<Rightarrow> store \<Rightarrow> store" where
  "endSavedSync workspaceId s =
     settle_task (TSavedSync workspaceId) (s\<lparr>savedSyncing := rclear workspaceId (savedSyncing s)\<rparr>)"

definition savedPage :: "ident \<Rightarrow> store \<Rightarrow> store" where
  \<comment> \<open>The head of the inner loop: the next page of changes, or \<open>return\<close> without a cursor.\<close>
  "savedPage workspaceId s =
     (case saved_cursor s workspaceId of
        None \<Rightarrow> endSavedSync workspaceId s
      | Some cursor \<Rightarrow> request (SavedCall (CSavedChanges workspaceId cursor)) s)"

definition syncSaved :: "ident \<Rightarrow> store \<Rightarrow> store" where
  "syncSaved workspaceId s =
     (if rget (savedSyncing s) workspaceId \<noteq> None
      then s\<lparr>savedSyncing := rput workspaceId True (savedSyncing s)\<rparr>
      else savedPage workspaceId (s\<lparr>savedSyncing := rput workspaceId False (savedSyncing s)\<rparr>))"

definition receiveSaved :: "saved_item \<Rightarrow> store \<Rightarrow> store" where
  "receiveSaved item s =
     (case saved_cursor s (sv_workspace_id item) of
        None \<Rightarrow> absorbSavedItem item s
      | Some cursor \<Rightarrow>
          if sv_change_seq item \<le> cursor then s
          else
            let s1 = absorbSavedItem item s
            in if sv_change_seq item = cursor + 1
               then patchSaved (sv_workspace_id item) (\<lambda>w. Some (w\<lparr>sw_cursor := Some (sv_change_seq item)\<rparr>)) s1
               else syncSaved (sv_workspace_id item) s1)"

definition savedNext :: "int \<Rightarrow> saved_list \<Rightarrow> int" where
  \<comment> \<open>The cursor after a page of changes.\<close>
  "savedNext cursor page =
     (let newest = fold max (map sv_change_seq (sl_items page)) cursor
      in if sl_has_more page then newest else max newest (sl_last_change_seq page))"

definition settleSavedChanges :: "ident \<Rightarrow> int \<Rightarrow> api_error + saved_list \<Rightarrow> store \<Rightarrow> store" where
  "settleSavedChanges workspaceId cursor res s =
     (case res of
        Inl err \<Rightarrow> endSavedSync workspaceId s
      | Inr page \<Rightarrow>
          let s1 = fold absorbSavedItem (sl_items page) s;
              s2 = patchSaved workspaceId (\<lambda>w. Some (w\<lparr>sw_cursor :=
                     Some (max (case sw_cursor w of None \<Rightarrow> 0 | Some k \<Rightarrow> k) (savedNext cursor page))\<rparr>)) s1
          in if sl_has_more page then savedPage workspaceId s2
             else if rget (savedSyncing s2) workspaceId = Some True
             then savedPage workspaceId (s2\<lparr>savedSyncing := rput workspaceId False (savedSyncing s2)\<rparr>)
             else endSavedSync workspaceId s2)"

section \<open>Loading the tabs\<close>

definition emptyTab :: "list_status \<Rightarrow> saved_item list \<Rightarrow> bool \<Rightarrow> saved_tab_state" where
  "emptyTab status items hasMore = \<lparr>tb_status = status, tb_items = items, tb_hasMore = hasMore, tb_loadingMore = False\<rparr>"

definition putTab :: "saved_tab \<Rightarrow> saved_tab_state \<Rightarrow> saved_ws \<Rightarrow> saved_ws" where
  "putTab tab t w = w\<lparr>sw_tabs := rput tab t (sw_tabs w)\<rparr>"

definition loadSavedTab :: "ident \<Rightarrow> saved_tab \<Rightarrow> store \<Rightarrow> store" where
  "loadSavedTab workspaceId tab = once (KSaved workspaceId tab) (\<lambda>s. request (SavedCall (CSavedTab workspaceId tab))
     (patchSaved workspaceId (\<lambda>w. if rget (sw_tabs w) tab \<noteq> None then None
                                   else Some (putTab tab (emptyTab LsLoading [] False) w)) s))"

definition knowItems :: "saved_item list \<Rightarrow> store \<Rightarrow> store" where
  "knowItems items s = s\<lparr>knownSavedStates :=
     fold (\<lambda>item. rput (sv_message_id item) (sv_state item)) items (knownSavedStates s)\<rparr>"

definition settleSavedTab :: "ident \<Rightarrow> saved_tab \<Rightarrow> api_error + saved_list \<Rightarrow> store \<Rightarrow> store" where
  "settleSavedTab workspaceId tab res s = finish_once (KSaved workspaceId tab)
     (case res of
        Inr page \<Rightarrow>
          let s1 = knowItems (sl_items page) s;
              cursor = saved_cursor s1 workspaceId;
              s2 = patchSaved workspaceId (\<lambda>w. Some ((putTab tab (emptyTab LsReady (sl_items page) (sl_has_more page)) w)
                     \<lparr>sw_inProgressCount := sl_in_progress_count page,
                      sw_cursor := (case sw_cursor w of None \<Rightarrow> Some (sl_last_change_seq page) | Some k \<Rightarrow> Some k)\<rparr>)) s1
          in (case cursor of
                None \<Rightarrow> s2
              | Some k \<Rightarrow> if sl_last_change_seq page > k then syncSaved workspaceId s2 else s2)
      | Inl err \<Rightarrow> patchSaved workspaceId (\<lambda>w. Some (putTab tab (emptyTab LsError
          (case rget (sw_tabs w) tab of None \<Rightarrow> [] | Some t \<Rightarrow> tb_items t) False) w)) s)"

definition findSavedItem :: "store \<Rightarrow> ident \<Rightarrow> ident \<Rightarrow> saved_item option" where
  "findSavedItem s workspaceId messageId =
     fold (\<lambda>tab found. case found of
             Some i \<Rightarrow> Some i
           | None \<Rightarrow> List.find (\<lambda>i. sv_message_id i = messageId) (tb_items tab))
       (rvals (saved_tabs_of s workspaceId)) None"

definition reloadSavedTabs :: "ident \<Rightarrow> store \<Rightarrow> store" where
  "reloadSavedTabs workspaceId s =
     fold (loadSavedTab workspaceId) (map fst (saved_tabs_of s workspaceId)) s"

definition savedTabTasks :: "store \<Rightarrow> ident \<Rightarrow> task list" where
  \<comment> \<open>What \<open>await reloadSavedTabs\<close> waits for.\<close>
  "savedTabTasks s workspaceId = map (\<lambda>tab. TOnce (KSaved workspaceId tab)) (map fst (saved_tabs_of s workspaceId))"

section \<open>The actions\<close>

definition loadSaved :: "ident \<Rightarrow> saved_tab \<Rightarrow> store \<Rightarrow> store" where
  "loadSaved workspaceId tab s =
     (case rget (saved_tabs_of s workspaceId) tab of
        None \<Rightarrow> loadSavedTab workspaceId tab s
      | Some current \<Rightarrow> if tb_status current \<noteq> LsError then s else loadSavedTab workspaceId tab s)"

definition setLoadingMore :: "ident \<Rightarrow> saved_tab \<Rightarrow> bool \<Rightarrow> store \<Rightarrow> store" where
  "setLoadingMore workspaceId tab loadingMore = patchSaved workspaceId (\<lambda>w.
     case rget (sw_tabs w) tab of None \<Rightarrow> None | Some t \<Rightarrow> Some (putTab tab (t\<lparr>tb_loadingMore := loadingMore\<rparr>) w))"

definition loadMoreSaved :: "ident \<Rightarrow> saved_tab \<Rightarrow> store \<Rightarrow> store" where
  "loadMoreSaved workspaceId tab s =
     (case rget (saved_tabs_of s workspaceId) tab of
        None \<Rightarrow> s
      | Some current \<Rightarrow>
          if tb_status current \<noteq> LsReady \<or> \<not> tb_hasMore current \<or> tb_loadingMore current then s
          else request (SavedCall (CSavedMore workspaceId tab (map_option sv_id (at_last (tb_items current)))))
                 (setLoadingMore workspaceId tab True s))"

definition settleSavedMore :: "ident \<Rightarrow> saved_tab \<Rightarrow> api_error + saved_list \<Rightarrow> store \<Rightarrow> store" where
  "settleSavedMore workspaceId tab res s =
     (case res of
        Inr page \<Rightarrow> patchSaved workspaceId (\<lambda>w. case rget (sw_tabs w) tab of
            None \<Rightarrow> None
          | Some t \<Rightarrow>
              let known = sv_message_id ` set (tb_items t);
                  items = tb_items t @ filter (\<lambda>i. sv_message_id i \<notin> known) (sl_items page)
              in Some (putTab tab (t\<lparr>tb_items := items, tb_hasMore := sl_has_more page, tb_loadingMore := False\<rparr>) w))
            (knowItems (sl_items page) s)
      | Inl err \<Rightarrow> setLoadingMore workspaceId tab False s)"

definition removeSavedNow :: "ident \<Rightarrow> ident \<Rightarrow> ident option \<Rightarrow> (ident \<times> bool) option \<Rightarrow> store \<Rightarrow> store" where
  \<comment> \<open>The last argument is what \<open>toggleSaved\<close> puts back when the removal fails.\<close>
  "removeSavedNow workspaceId messageId roomId revert s =
     request (SavedCall (CRemoveSaved workspaceId messageId revert))
       (case findSavedItem s workspaceId messageId of
          Some item \<Rightarrow> absorbSavedItem (item\<lparr>sv_state := SavRemoved, sv_room := None, sv_message := None,
                          sv_status := ItemUnavailable\<rparr>) s
        | None \<Rightarrow> (case roomId of None \<Rightarrow> s | Some r \<Rightarrow> markSaved r messageId False s))"

definition savedFailed :: "call \<Rightarrow> api_error \<Rightarrow> ident \<Rightarrow> store \<Rightarrow> store" where
  \<comment> \<open>\<open>await reloadSavedTabs; throw\<close>\<close>
  "savedFailed c err workspaceId s =
     await_tasks (savedTabTasks s workspaceId) (ContSavedFailed c err) (reloadSavedTabs workspaceId s)"

definition contSavedFailed :: "call \<Rightarrow> api_error \<Rightarrow> store \<Rightarrow> store" where
  "contSavedFailed c err s = throw c err
     (case c of
        SavedCall (CRemoveSaved w messageId (Some (roomId, wasSaved))) \<Rightarrow> markSaved roomId messageId wasSaved s
      | _ \<Rightarrow> s)"

definition settleRemoveSaved ::
  "ident \<Rightarrow> ident \<Rightarrow> (ident \<times> bool) option \<Rightarrow> api_error + unit \<Rightarrow> store \<Rightarrow> store" where
  "settleRemoveSaved workspaceId messageId revert res s =
     (case res of
        Inr _ \<Rightarrow> s
      | Inl err \<Rightarrow> savedFailed (SavedCall (CRemoveSaved workspaceId messageId revert)) err workspaceId s)"

definition toggleSaved :: "ident \<Rightarrow> ident \<Rightarrow> ident \<Rightarrow> store \<Rightarrow> store" where
  "toggleSaved workspaceId roomId messageId s =
     (case (case findMessage s roomId messageId of
              Some m \<Rightarrow> Some m
            | None \<Rightarrow> Option.bind (rget (s_pins (state s)) roomId)
                        (\<lambda>p. List.find (\<lambda>m. m_id m = messageId) (ld_list p))) of
        None \<Rightarrow> s
      | Some message \<Rightarrow>
          let wasSaved = (m_saved message = Some True);
              s1 = markSaved roomId messageId (\<not> wasSaved) s
          in if wasSaved
             then removeSavedNow workspaceId messageId (Some roomId) (Some (roomId, wasSaved)) s1
             else request (SavedCall (CSaveToggle roomId messageId)) s1)"

definition settleSaveToggle :: "ident \<Rightarrow> ident \<Rightarrow> api_error + saved_item \<Rightarrow> store \<Rightarrow> store" where
  "settleSaveToggle roomId messageId res s =
     (case res of
        Inr item \<Rightarrow> receiveSaved item s
      | Inl err \<Rightarrow> throw (SavedCall (CSaveToggle roomId messageId)) err (markSaved roomId messageId False s))"

definition moveSaved :: "ident \<Rightarrow> ident \<Rightarrow> saved_tab \<Rightarrow> store \<Rightarrow> store" where
  "moveSaved workspaceId messageId dest s =
     request (SavedCall (CMoveSaved workspaceId messageId dest))
       (case findSavedItem s workspaceId messageId of
          None \<Rightarrow> s
        | Some item \<Rightarrow> absorbSavedItem (item\<lparr>sv_state := tab_state dest\<rparr>) s)"

definition settleMoveSaved :: "ident \<Rightarrow> ident \<Rightarrow> saved_tab \<Rightarrow> api_error + saved_item \<Rightarrow> store \<Rightarrow> store" where
  "settleMoveSaved workspaceId messageId dest res s =
     (case res of
        Inr item \<Rightarrow> receiveSaved item s
      | Inl err \<Rightarrow> savedFailed (SavedCall (CMoveSaved workspaceId messageId dest)) err workspaceId s)"

definition saveMessage :: "ident \<Rightarrow> ident \<Rightarrow> store \<Rightarrow> store" where
  "saveMessage roomId messageId = request (SavedCall (CSaveMessage roomId messageId))"

definition settleSaveMessage :: "ident \<Rightarrow> ident \<Rightarrow> api_error + saved_item \<Rightarrow> store \<Rightarrow> store" where
  "settleSaveMessage roomId messageId res s =
     (case res of
        Inr item \<Rightarrow> markSaved roomId messageId True (receiveSaved item s)
      | Inl err \<Rightarrow> throw (SavedCall (CSaveMessage roomId messageId)) err s)"

definition removeSaved :: "ident \<Rightarrow> ident \<Rightarrow> store \<Rightarrow> store" where
  "removeSaved workspaceId messageId s =
     removeSavedNow workspaceId messageId (map_option sv_room_id (findSavedItem s workspaceId messageId)) None s"

section \<open>The invariant\<close>

lemma patchSaved_wf:
  assumes "wf s" "\<And>w w'. saved_ok (sw_tabs w) \<Longrightarrow> f w = Some w' \<Longrightarrow> saved_ok (sw_tabs w')"
  shows "wf (patchSaved ws f s)"
proof -
  let ?cur = "case rget (s_saved (state s)) ws of None \<Rightarrow> \<lparr>sw_tabs = [], sw_inProgressCount = 0, sw_cursor = None\<rparr> | Some w \<Rightarrow> w"
  have "saved_ok (sw_tabs ?cur)"
    using chat_wfD(4)[OF assms(1)] by (auto split: option.splits)
  then have "f ?cur = Some w' \<Longrightarrow> saved_ok (sw_tabs w')" for w' by (rule assms(2))
  then show ?thesis using assms(1)
    by (cases "f ?cur") (auto simp: patchSaved_def Let_def chat_wf_def)
qed

lemma pins_wf_mark:
  "pins_wf ms \<Longrightarrow> pins_wf (map (\<lambda>m. if m_id m = i then m\<lparr>m_saved := b\<rparr> else m) ms)"
proof -
  have same: "comparePins (if m_id x = i then x\<lparr>m_saved := b\<rparr> else x) (if m_id y = i then y\<lparr>m_saved := b\<rparr> else y) = comparePins x y" for x y
    by (simp add: comparePins_def pin_at_def)
  have k: "map m_id (map (\<lambda>m. if m_id m = i then m\<lparr>m_saved := b\<rparr> else m) ms) = map m_id ms" by simp
  show "pins_wf ms \<Longrightarrow> pins_wf (map (\<lambda>m. if m_id m = i then m\<lparr>m_saved := b\<rparr> else m) ms)"
    unfolding pins_wf_def k by (simp add: sorted_wrt_map same) auto
qed

lemma markSaved_wf [store_wf]:
  assumes "wf s"
  shows "wf (markSaved r m b s)"
proof -
  have "wf (patchMessageEverywhere r m (\<lambda>x. x\<lparr>m_saved := Some b\<rparr>) s)"
    using assms by (rule patchMessageEverywhere_wf) simp_all
  then show ?thesis
    unfolding markSaved_def
  proof (rule update_wf)
    fix c assume "chat_wf c"
    then show "chat_wf (case rget (s_pins c) r of None \<Rightarrow> c | Some pins \<Rightarrow>
        if \<not> some_in (\<lambda>x. m_id x = m \<and> m_saved x \<noteq> Some b) (ld_list pins) then c
        else c\<lparr>s_pins := rput r (pins\<lparr>ld_list := map (\<lambda>x. if m_id x = m then x\<lparr>m_saved := Some b\<rparr> else x) (ld_list pins)\<rparr>) (s_pins c)\<rparr>)"
      using chat_wfD(3)[of c r] pins_wf_mark
      by (cases "rget (s_pins c) r") (simp_all add: chat_wf_def rec_all_rput)
  qed
qed

lemma refreshSavedCount_wf [store_wf]: "wf s \<Longrightarrow> wf (refreshSavedCount w s)"
  by (simp add: refreshSavedCount_def once_state)

lemma settleSavedCount_wf [store_wf]: "wf s \<Longrightarrow> wf (settleSavedCount w res s)"
  by (auto simp: settleSavedCount_def split: sum.splits intro!: patchSaved_wf)

lemma absorbSavedItem_wf [store_wf]:
  assumes "wf s"
  shows "wf (absorbSavedItem item s)"
proof -
  have w: "wf (patchSaved (sv_workspace_id item) (\<lambda>w.
      let tabs = applySavedItem (sw_tabs w) item; delta = in_progress_delta (sv_state item) previous
      in if tabs = sw_tabs w \<and> delta = 0 then None
         else Some (w\<lparr>sw_tabs := tabs, sw_inProgressCount := max 0 (sw_inProgressCount w + delta)\<rparr>)) (s\<lparr>knownSavedStates := k\<rparr>))"
    for previous k
    using assms by (intro patchSaved_wf) (auto simp: Let_def applySavedItem_ok split: if_splits)
  then show ?thesis
    unfolding absorbSavedItem_def Let_def by (intro markSaved_wf if_wf refreshSavedCount_wf w[unfolded Let_def])
qed

lemma endSavedSync_state [simp]: "state (endSavedSync w s) = state s"
  by (simp add: endSavedSync_def)

lemma savedPage_state [simp]: "state (savedPage w s) = state s"
  by (simp add: savedPage_def split: option.splits)

lemma syncSaved_state [simp]: "state (syncSaved w s) = state s"
  by (simp add: syncSaved_def)

lemma receiveSaved_wf [store_wf]: "wf s \<Longrightarrow> wf (receiveSaved item s)"
  by (auto simp: receiveSaved_def Let_def split: option.splits intro!: patchSaved_wf absorbSavedItem_wf)

lemma settleSavedChanges_wf [store_wf]: "wf s \<Longrightarrow> wf (settleSavedChanges w k res s)"
  by (auto simp: settleSavedChanges_def Let_def split: sum.splits intro!: patchSaved_wf wf_fold absorbSavedItem_wf)

lemma saved_ok_put:
  "saved_ok (sw_tabs w) \<Longrightarrow> distinct (map sv_message_id (tb_items t)) \<Longrightarrow> (\<forall>i\<in>set (tb_items t). sv_state i = tab_state tab) \<Longrightarrow>
   saved_ok (sw_tabs (putTab tab t w))"
  by (simp add: saved_ok_def putTab_def)

lemma saved_ok_tab:
  "saved_ok tabs \<Longrightarrow> rget tabs tab = Some t \<Longrightarrow> distinct (map sv_message_id (tb_items t))"
  by (simp add: saved_ok_def)

lemma saved_ok_state:
  "saved_ok tabs \<Longrightarrow> rget tabs tab = Some t \<Longrightarrow> i \<in> set (tb_items t) \<Longrightarrow> sv_state i = tab_state tab"
  by (simp add: saved_ok_def)

lemma loadSavedTab_wf [store_wf]: "wf s \<Longrightarrow> wf (loadSavedTab w t s)"
  by (auto simp: loadSavedTab_def emptyTab_def split: if_splits intro!: once_wf patchSaved_wf saved_ok_put)

lemma knowItems_state [simp]: "state (knowItems items s) = state s"
  by (simp add: knowItems_def)

definition page_of_tab :: "saved_tab \<Rightarrow> saved_list \<Rightarrow> bool" where
  \<comment> \<open>What the list of a tab returns: rows of that tab, one per message.\<close>
  "page_of_tab tab page \<longleftrightarrow> distinct (map sv_message_id (sl_items page)) \<and>
     (\<forall>i\<in>set (sl_items page). sv_state i = tab_state tab)"

lemma settleSavedTab_wf [store_wf]:
  assumes "wf s" "\<And>p. res = Inr p \<Longrightarrow> page_of_tab tab p"
  shows "wf (settleSavedTab w tab res s)"
proof (cases res)
  case (Inl err)
  then show ?thesis using assms(1)
    by (auto simp: settleSavedTab_def emptyTab_def saved_ok_tab split: option.splits
        intro!: patchSaved_wf saved_ok_put dest: saved_ok_state saved_ok_state[OF _ sym])
next
  case (Inr page)
  have "wf (patchSaved w (\<lambda>x. Some ((putTab tab (emptyTab LsReady (sl_items page) (sl_has_more page)) x)
      \<lparr>sw_inProgressCount := n, sw_cursor := f x\<rparr>)) (knowItems (sl_items page) s))" for n f
    using assms Inr by (intro patchSaved_wf) (auto simp: page_of_tab_def emptyTab_def intro!: saved_ok_put)
  then show ?thesis by (auto simp: settleSavedTab_def Inr Let_def split: option.splits)
qed

lemma reloadSavedTabs_wf [store_wf]: "wf s \<Longrightarrow> wf (reloadSavedTabs w s)"
  unfolding reloadSavedTabs_def by (rule wf_fold) (auto intro: loadSavedTab_wf)

lemma loadSaved_wf [store_wf]: "wf s \<Longrightarrow> wf (loadSaved w t s)"
  by (simp add: loadSaved_def loadSavedTab_wf split: option.splits)

lemma setLoadingMore_wf [store_wf]: "wf s \<Longrightarrow> wf (setLoadingMore w t b s)"
  unfolding setLoadingMore_def
  by (rule patchSaved_wf) (auto simp: saved_ok_tab split: option.splits intro!: saved_ok_put dest: saved_ok_state)

lemma loadMoreSaved_wf [store_wf]: "wf s \<Longrightarrow> wf (loadMoreSaved w t s)"
  by (simp add: loadMoreSaved_def setLoadingMore_wf split: option.splits)

lemma settleSavedMore_wf [store_wf]:
  assumes "wf s" "\<And>p. res = Inr p \<Longrightarrow> page_of_tab tab p"
  shows "wf (settleSavedMore w tab res s)"
proof (cases res)
  case (Inl err)
  then show ?thesis using assms(1) by (simp add: settleSavedMore_def setLoadingMore_wf)
next
  case (Inr page)
  with assms have "page_of_tab tab page" by simp
  then show ?thesis using assms(1) unfolding settleSavedMore_def Inr sum.case
    by (intro patchSaved_wf)
       (auto simp: Let_def page_of_tab_def distinct_map_filter saved_ok_tab split: option.splits
         intro!: saved_ok_put dest: saved_ok_state, metis imageI)
qed

lemma removeSavedNow_wf [store_wf]: "wf s \<Longrightarrow> wf (removeSavedNow w m r v s)"
  by (simp add: removeSavedNow_def absorbSavedItem_wf markSaved_wf split: option.splits)

lemma savedFailed_wf [store_wf]: "wf s \<Longrightarrow> wf (savedFailed c e w s)"
  by (simp add: savedFailed_def reloadSavedTabs_wf)

lemma contSavedFailed_wf [store_wf]: "wf s \<Longrightarrow> wf (contSavedFailed c e s)"
  by (auto simp: contSavedFailed_def markSaved_wf split: call.splits saved_call.splits option.splits)

lemma settleRemoveSaved_wf [store_wf]: "wf s \<Longrightarrow> wf (settleRemoveSaved w m v res s)"
  by (simp add: settleRemoveSaved_def savedFailed_wf split: sum.splits)

lemma toggleSaved_wf [store_wf]: "wf s \<Longrightarrow> wf (toggleSaved w r m s)"
  unfolding toggleSaved_def Let_def by (auto simp: markSaved_wf removeSavedNow_wf split: option.splits)

lemma settleSaveToggle_wf [store_wf]: "wf s \<Longrightarrow> wf (settleSaveToggle r m res s)"
  by (simp add: settleSaveToggle_def receiveSaved_wf markSaved_wf split: sum.splits)

lemma moveSaved_wf [store_wf]: "wf s \<Longrightarrow> wf (moveSaved w m d s)"
  by (simp add: moveSaved_def absorbSavedItem_wf split: option.splits)

lemma settleMoveSaved_wf [store_wf]: "wf s \<Longrightarrow> wf (settleMoveSaved w m d res s)"
  by (simp add: settleMoveSaved_def receiveSaved_wf savedFailed_wf split: sum.splits)

lemma saveMessage_wf [store_wf]: "wf s \<Longrightarrow> wf (saveMessage r m s)"
  by (simp add: saveMessage_def)

lemma settleSaveMessage_wf [store_wf]: "wf s \<Longrightarrow> wf (settleSaveMessage r m res s)"
  by (simp add: settleSaveMessage_def receiveSaved_wf markSaved_wf split: sum.splits)

lemma removeSaved_wf [store_wf]: "wf s \<Longrightarrow> wf (removeSaved w m s)"
  by (simp add: removeSaved_def removeSavedNow_wf)

end
