(* ===== verification/RoomStore.thy ===== *)
theory RoomStore
  imports SendStore SavedStore
begin

text \<open>
  Rooms (\<open>web/lib/chat/store/rooms.ts\<close>): the list, creating and changing rooms, joining and leaving, and
  what is thrown away when the viewer is removed from a room or the room is deleted.
\<close>

definition loadRooms :: "ident \<Rightarrow> store \<Rightarrow> store" where
  "loadRooms workspaceId = once (KRooms workspaceId) (\<lambda>s. request (RoomCall (CListRooms workspaceId))
     (update (\<lambda>c. if rget (s_roomLists c) workspaceId \<noteq> None then c
                 else c\<lparr>s_roomLists := rput workspaceId \<lparr>ld_status = Loading, ld_list = []\<rparr> (s_roomLists c)\<rparr>) s))"

definition settleListRooms :: "ident \<Rightarrow> api_error + room list \<times> int \<Rightarrow> store \<Rightarrow> store" where
  "settleListRooms workspaceId res s = finish_once (KRooms workspaceId)
     (case res of
        Inr (rooms, unread) \<Rightarrow>
          update (\<lambda>c. c\<lparr>s_roomLists := rput workspaceId \<lparr>ld_status = Ready, ld_list = map r_id rooms\<rparr> (s_roomLists c),
                       s_unreadThreadCounts := rput workspaceId unread (s_unreadThreadCounts c)\<rparr>)
            (fold putRoom rooms s)
      | Inl err \<Rightarrow> update (\<lambda>c. c\<lparr>s_roomLists := rput workspaceId \<lparr>ld_status = statusOf err,
          ld_list = (case rget (s_roomLists c) workspaceId of None \<Rightarrow> [] | Some l \<Rightarrow> ld_list l)\<rparr> (s_roomLists c)\<rparr>) s)"

definition reloadRooms :: "ident \<Rightarrow> store \<Rightarrow> store" where
  "reloadRooms workspaceId = await_tasks [TOnce (KRooms workspaceId)] (ContReloadRooms workspaceId)"

definition reloadRoomMembers :: "ident \<Rightarrow> store \<Rightarrow> store" where
  "reloadRoomMembers roomId = once (KMembers roomId) (\<lambda>s. request (RoomCall (CListRoomMembers roomId))
     (update (\<lambda>c. c\<lparr>s_roomMembers := rput roomId (case rget (s_roomMembers c) roomId of
         None \<Rightarrow> \<lparr>ld_status = Loading, ld_list = []\<rparr> | Some e \<Rightarrow> e) (s_roomMembers c)\<rparr>) s))"

definition settleListRoomMembers :: "ident \<Rightarrow> api_error + member list \<Rightarrow> store \<Rightarrow> store" where
  "settleListRoomMembers roomId res s = finish_once (KMembers roomId)
     (case res of
        Inr list \<Rightarrow> update (\<lambda>c. c\<lparr>s_roomMembers := rput roomId \<lparr>ld_status = Ready, ld_list = list\<rparr> (s_roomMembers c)\<rparr>) s
      | Inl err \<Rightarrow> update (\<lambda>c. c\<lparr>s_roomMembers := rput roomId \<lparr>ld_status = statusOf err,
          ld_list = (case rget (s_roomMembers c) roomId of None \<Rightarrow> [] | Some e \<Rightarrow> ld_list e)\<rparr> (s_roomMembers c)\<rparr>) s)"

definition joinedRoom :: "ident \<Rightarrow> ident \<Rightarrow> store \<Rightarrow> store" where
  "joinedRoom workspaceId roomId = once (KJoined roomId) (request (RoomCall (CGetJoined workspaceId roomId)))"

definition settleGetJoined :: "ident \<Rightarrow> ident \<Rightarrow> api_error + room \<Rightarrow> store \<Rightarrow> store" where
  "settleGetJoined workspaceId roomId res s = finish_once (KJoined roomId)
     (case res of
        Inl err \<Rightarrow> s
      | Inr room \<Rightarrow>
          let s1 = update (\<lambda>c. if rget (s_removedRooms c) roomId = None then c
                               else c\<lparr>s_removedRooms := rclear roomId (s_removedRooms c)\<rparr>) (putRoom room s)
          in patchRoomList workspaceId
               (\<lambda>rs. if roomId \<in> set rs then rs else insertByActivity rs room (s_rooms (state s1))) s1)"

definition dropThreadsOf :: "ident \<Rightarrow> followed_thread list \<Rightarrow> followed_thread list" where
  "dropThreadsOf roomId = filter (\<lambda>t. tr_room_id (ft_room t) \<noteq> roomId)"

definition forgetThreads :: "ident \<Rightarrow> bool \<Rightarrow> (ident, thread_state) jsrec \<Rightarrow> (ident, thread_state) jsrec" where
  \<comment> \<open>The threads of a room: kept without a read position when the room stays readable, else thrown away.\<close>
  "forgetThreads roomId readable threads =
     fold (\<lambda>(i, t) acc. if th_roomId t \<noteq> roomId then acc
             else if readable then rput i (t\<lparr>th_lastReadThreadSeq := None\<rparr>) acc else rclear i acc)
       (rentries threads) threads"

definition removedFromRoom :: "ident \<Rightarrow> ident \<Rightarrow> removal_reason \<Rightarrow> store \<Rightarrow> store" where
  "removedFromRoom workspaceId roomId reason s =
     (let readable = (map_option r_kind (rget (s_rooms (state s)) roomId) = Some Public);
          s1 = update (\<lambda>c. c\<lparr>s_threads := forgetThreads roomId readable (s_threads c)\<rparr>)
                 (patchThreadList workspaceId (dropThreadsOf roomId) s)
      in if readable
         then patchTimeline roomId (\<lambda>t. t\<lparr>tl_unreadAfterSeq := None\<rparr>)
                (patchRoom roomId (\<lambda>r. r\<lparr>r_is_member := False, r_last_read_seq := None, r_unread_count := 0\<rparr>) s1)
         else patchRoomList workspaceId (filter (\<lambda>i. i \<noteq> roomId))
                (dropOutgoing roomId
                  (update (\<lambda>c. c\<lparr>s_removedRooms := rput roomId reason (s_removedRooms c),
                     s_timelines := rclear roomId (s_timelines c), s_roomMembers := rclear roomId (s_roomMembers c),
                     s_typing := rclear roomId (s_typing c)\<rparr>) s1)))"

definition roomDeleted :: "ident \<Rightarrow> ident \<Rightarrow> removal_reason \<Rightarrow> store \<Rightarrow> store" where
  "roomDeleted workspaceId roomId reason s =
     (let s1 = update (\<lambda>c. c\<lparr>s_threads := forgetThreads roomId False (s_threads c),
                 s_removedRooms := rput roomId (if rget (s_removedRooms c) roomId = Some LeftSelf then LeftSelf else reason)
                   (s_removedRooms c),
                 s_timelines := rclear roomId (s_timelines c), s_roomMembers := rclear roomId (s_roomMembers c),
                 s_typing := rclear roomId (s_typing c), s_pins := rclear roomId (s_pins c)\<rparr>)
               (patchThreadList workspaceId (dropThreadsOf roomId) s);
          s2 = patchRoomList workspaceId (filter (\<lambda>i. i \<noteq> roomId)) (dropOutgoing roomId s1);
          s3 = (if saved_cursor s2 workspaceId \<noteq> None
                then refreshSavedCount workspaceId (reloadSavedTabs workspaceId s2) else s2)
      in reloadActivity workspaceId s3)"

section \<open>The actions\<close>

definition createRoom :: "ident \<Rightarrow> store \<Rightarrow> store" where
  \<comment> \<open>Also \<open>openDm\<close>, which differs in the body of the request.\<close>
  "createRoom workspaceId = request (RoomCall (CCreateRoom workspaceId))"

definition settleCreateRoom :: "ident \<Rightarrow> api_error + room \<Rightarrow> store \<Rightarrow> store" where
  "settleCreateRoom workspaceId res s = (case res of
     Inr room \<Rightarrow> addRoom workspaceId room s | Inl err \<Rightarrow> throw (RoomCall (CCreateRoom workspaceId)) err s)"

definition settlePutRoom :: "room_call \<Rightarrow> api_error + room \<Rightarrow> store \<Rightarrow> store" where
  \<comment> \<open>The actions that end in \<open>putRoom(await ...)\<close>: update, archive, unarchive, join.\<close>
  "settlePutRoom c res s = (case res of Inr room \<Rightarrow> putRoom room s | Inl err \<Rightarrow> throw (RoomCall c) err s)"

definition updateRoom :: "ident \<Rightarrow> store \<Rightarrow> store" where
  "updateRoom roomId = request (RoomCall (CUpdateRoom roomId))"

definition archiveRoom :: "ident \<Rightarrow> store \<Rightarrow> store" where
  "archiveRoom roomId = request (RoomCall (CArchiveRoom roomId))"

definition unarchiveRoom :: "ident \<Rightarrow> store \<Rightarrow> store" where
  "unarchiveRoom roomId = request (RoomCall (CUnarchiveRoom roomId))"

definition joinRoom :: "ident \<Rightarrow> store \<Rightarrow> store" where
  "joinRoom roomId = request (RoomCall (CJoinRoom roomId))"

definition addRoomMember :: "ident \<Rightarrow> ident \<Rightarrow> store \<Rightarrow> store" where
  "addRoomMember roomId user = request (RoomCall (CAddRoomMember roomId user))"

definition settleAddRoomMember :: "ident \<Rightarrow> ident \<Rightarrow> api_error + unit \<Rightarrow> store \<Rightarrow> store" where
  "settleAddRoomMember roomId user res s = (case res of
     Inr _ \<Rightarrow> refreshRoom roomId (reloadRoomMembers roomId s)
   | Inl err \<Rightarrow> throw (RoomCall (CAddRoomMember roomId user)) err s)"

definition removeRoomMember :: "ident \<Rightarrow> ident \<Rightarrow> store \<Rightarrow> store" where
  "removeRoomMember roomId user = request (RoomCall (CRemoveRoomMember roomId user))"

definition settleRemoveRoomMember :: "ident \<Rightarrow> ident \<Rightarrow> api_error + unit \<Rightarrow> store \<Rightarrow> store" where
  "settleRemoveRoomMember roomId user res s = (case res of
     Inr _ \<Rightarrow> refreshRoom roomId (patchMembers roomId (filter (\<lambda>m. u_id (mb_user m) \<noteq> user)) s)
   | Inl err \<Rightarrow> throw (RoomCall (CRemoveRoomMember roomId user)) err s)"

definition leaveRoom :: "ident \<Rightarrow> store \<Rightarrow> store" where
  "leaveRoom roomId = request (RoomCall (CLeaveRoom roomId))"

definition settleLeaveRoom :: "ident \<Rightarrow> api_error + unit \<Rightarrow> store \<Rightarrow> store" where
  "settleLeaveRoom roomId res s = (case res of
     Inr _ \<Rightarrow> (case workspaceOf (state s) roomId of None \<Rightarrow> s | Some w \<Rightarrow> removedFromRoom w roomId LeftSelf s)
   | Inl err \<Rightarrow> throw (RoomCall (CLeaveRoom roomId)) err s)"

definition deleteRoom :: "ident \<Rightarrow> store \<Rightarrow> store" where
  "deleteRoom roomId s = request (RoomCall (CDeleteRoom roomId (workspaceOf (state s) roomId))) s"

definition settleDeleteRoom :: "ident \<Rightarrow> ident option \<Rightarrow> api_error + unit \<Rightarrow> store \<Rightarrow> store" where
  "settleDeleteRoom roomId workspaceId res s = (case res of
     Inr _ \<Rightarrow> (case workspaceId of None \<Rightarrow> s | Some w \<Rightarrow> roomDeleted w roomId LeftSelf s)
   | Inl err \<Rightarrow> throw (RoomCall (CDeleteRoom roomId workspaceId)) err s)"

section \<open>The invariant\<close>

lemma loadRooms_wf [store_wf]: "wf s \<Longrightarrow> wf (loadRooms w s)"
  by (auto simp: loadRooms_def once_state chat_wf_def)

lemma settleListRooms_wf [store_wf]:
  assumes "wf s" "\<And>rooms n. res = Inr (rooms, n) \<Longrightarrow> distinct (map r_id rooms)"
  shows "wf (settleListRooms w res s)"
proof (cases res)
  case (Inl err)
  then show ?thesis using assms(1) chat_wfD(7)[OF assms(1), of w]
    by (auto simp: settleListRooms_def chat_wf_def split: option.splits)
next
  case (Inr p)
  obtain rooms n where p: "p = (rooms, n)" by (cases p)
  have "wf (fold putRoom rooms s)" using assms(1) by (rule wf_fold) (rule putRoom_wf)
  then show ?thesis using assms(2) Inr p
    by (auto simp: settleListRooms_def chat_wf_def)
qed

lemma room_members_wf [store_wf]:
  "wf s \<Longrightarrow> wf (reloadRoomMembers r s)" "wf s \<Longrightarrow> wf (settleListRoomMembers r mres s)"
  "wf s \<Longrightarrow> wf (reloadRooms w s)" "wf s \<Longrightarrow> wf (joinedRoom w r s)"
  by (simp_all add: reloadRoomMembers_def settleListRoomMembers_def reloadRooms_def joinedRoom_def once_state chat_wf_def
      split: sum.splits)

lemma settleGetJoined_wf [store_wf]:
  assumes "wf s"
  shows "wf (settleGetJoined w r res s)"
proof (cases res)
  case (Inl err)
  then show ?thesis using assms by (simp add: settleGetJoined_def)
next
  case (Inr room)
  have "wf (update (\<lambda>c. if rget (s_removedRooms c) r = None then c
      else c\<lparr>s_removedRooms := rclear r (s_removedRooms c)\<rparr>) (putRoom room s))" (is "wf ?s1")
    using putRoom_wf[OF assms, of room] by (simp add: chat_wf_def)
  moreover have "r = r_id room \<Longrightarrow> distinct l \<Longrightarrow> distinct (if r \<in> set l then l else insertByActivity l room rooms)" for l rooms
    by (simp add: insertByActivity_distinct)
  ultimately have "wf (patchRoomList w (\<lambda>rs. if r \<in> set rs then rs else insertByActivity rs room (s_rooms (state ?s1))) ?s1)"
    by (intro patchRoomList_wf) (auto intro: insertByActivity_distinct)
  then show ?thesis unfolding settleGetJoined_def Inr Let_def by simp
qed

lemma forgetThreads_wf:
  assumes "rec_all (\<lambda>t. timeline_wf (th_replies t)) threads"
  shows "rec_all (\<lambda>t. timeline_wf (th_replies t)) (forgetThreads r b threads)"
  unfolding forgetThreads_def
proof (rule fold_invariant[where Q = "\<lambda>(i, t). timeline_wf (th_replies t)"])
  show "case x of (i, t) \<Rightarrow> timeline_wf (th_replies t)" if "x \<in> set (rentries threads)" for x
    using that assms rec_all_rwf[OF assms] by (auto simp: rwf_rentries dest: rec_all_get)
qed (auto simp: assms split: prod.splits)

lemma dropThreadsOf_ok: "threads_ok ts \<Longrightarrow> threads_ok (dropThreadsOf r ts)"
  by (auto simp: dropThreadsOf_def threads_ok_def roots_def list_all_iff distinct_map_filter)

lemma removedFromRoom_wf [store_wf]:
  assumes "wf s"
  shows "wf (removedFromRoom w r reason s)"
proof -
  have "wf (patchThreadList w (dropThreadsOf r) s)" (is "wf ?s0")
    using assms by (rule patchThreadList_wf) (rule dropThreadsOf_ok)
  then have 1: "wf (update (\<lambda>c. c\<lparr>s_threads := forgetThreads r b (s_threads c)\<rparr>) ?s0)" (is "wf (?s1 b)") for b
    by (simp add: chat_wf_def forgetThreads_wf)
  have "wf (patchTimeline r (\<lambda>t. t\<lparr>tl_unreadAfterSeq := None\<rparr>) (patchRoom r f (?s1 b)))" for f b
    using 1 by (auto intro!: patchTimeline_wf patchRoom_wf)
  moreover have "wf (patchRoomList w (filter (\<lambda>i. i \<noteq> r)) (dropOutgoing r (update (\<lambda>c. c\<lparr>
      s_removedRooms := rput r reason (s_removedRooms c), s_timelines := rclear r (s_timelines c),
      s_roomMembers := rclear r (s_roomMembers c), s_typing := rclear r (s_typing c)\<rparr>) (?s1 b))))" for b
  proof (intro patchRoomList_wf dropOutgoing_wf)
    show "wf (update (\<lambda>c. c\<lparr>s_removedRooms := rput r reason (s_removedRooms c), s_timelines := rclear r (s_timelines c),
        s_roomMembers := rclear r (s_roomMembers c), s_typing := rclear r (s_typing c)\<rparr>) (?s1 b))"
      using 1[of b] by (rule update_wf) (simp add: chat_wf_def rec_all_rclear)
  qed simp
  ultimately show ?thesis by (simp add: removedFromRoom_def Let_def)
qed

lemma roomDeleted_wf [store_wf]:
  assumes "wf s"
  shows "wf (roomDeleted w r reason s)"
proof -
  have "wf (patchThreadList w (dropThreadsOf r) s)" (is "wf ?s0")
    using assms by (rule patchThreadList_wf) (rule dropThreadsOf_ok)
  then have "wf (update (\<lambda>c. c\<lparr>s_threads := forgetThreads r False (s_threads c),
      s_removedRooms := rput r (if rget (s_removedRooms c) r = Some LeftSelf then LeftSelf else reason) (s_removedRooms c),
      s_timelines := rclear r (s_timelines c), s_roomMembers := rclear r (s_roomMembers c),
      s_typing := rclear r (s_typing c), s_pins := rclear r (s_pins c)\<rparr>) ?s0)" (is "wf ?s1")
    by (rule update_wf) (simp add: chat_wf_def forgetThreads_wf rec_all_rclear)
  then have "wf (patchRoomList w (filter (\<lambda>i. i \<noteq> r)) (dropOutgoing r ?s1))"
    by (intro patchRoomList_wf dropOutgoing_wf) simp_all
  then show ?thesis
    unfolding roomDeleted_def Let_def by (intro reloadActivity_wf if_wf refreshSavedCount_wf reloadSavedTabs_wf)
qed

lemma room_requests_wf [store_wf]:
  "wf s \<Longrightarrow> wf (createRoom w s)" "wf s \<Longrightarrow> wf (updateRoom r s)" "wf s \<Longrightarrow> wf (archiveRoom r s)"
  "wf s \<Longrightarrow> wf (unarchiveRoom r s)" "wf s \<Longrightarrow> wf (joinRoom r s)" "wf s \<Longrightarrow> wf (addRoomMember r u s)"
  "wf s \<Longrightarrow> wf (removeRoomMember r u s)" "wf s \<Longrightarrow> wf (leaveRoom r s)" "wf s \<Longrightarrow> wf (deleteRoom r s)"
  by (simp_all add: createRoom_def updateRoom_def archiveRoom_def unarchiveRoom_def joinRoom_def addRoomMember_def
      removeRoomMember_def leaveRoom_def deleteRoom_def)

lemma room_answers_wf [store_wf]:
  "wf s \<Longrightarrow> wf (settleCreateRoom w rres s)" "wf s \<Longrightarrow> wf (settlePutRoom c rres s)"
  "wf s \<Longrightarrow> wf (settleAddRoomMember r u ures s)" "wf s \<Longrightarrow> wf (settleRemoveRoomMember r u ures s)"
  "wf s \<Longrightarrow> wf (settleLeaveRoom r ures s)" "wf s \<Longrightarrow> wf (settleDeleteRoom r wo ures s)"
  by (simp_all add: settleCreateRoom_def addRoom_wf settlePutRoom_def putRoom_wf settleAddRoomMember_def refreshRoom_wf
      room_members_wf settleRemoveRoomMember_def patchMembers_wf settleLeaveRoom_def removedFromRoom_wf
      settleDeleteRoom_def roomDeleted_wf split: sum.splits option.splits)

end
