(* ===== verification/HistoryStore.thy ===== *)
theory HistoryStore
  imports TimelineStore
begin

text \<open>
  Reading the history (\<open>web/lib/chat/store/history.ts\<close>): jumping to a message or to the first unread one,
  and the pages before and after the loaded window.
\<close>

definition windowFromPage :: "message_list \<Rightarrow> timeline_state \<Rightarrow> timeline_state" where
  \<comment> \<open>The recipe of \<open>replaceWindow\<close>.\<close>
  "windowFromPage page current =
     (let messages = mergeMessages [] (ml_messages page)
      in current\<lparr>tl_status := Ready, tl_messages := messages, tl_hasOlder := ml_has_more page,
           tl_loadingOlder := False, tl_hasNewer := ml_has_more_after page, tl_loadingNewer := False,
           tl_changeSeq := advanceCursor (max (tl_changeSeq current) (ml_last_change_seq page)) messages\<rparr>)"

definition replaceWindow :: "ident \<Rightarrow> message_list \<Rightarrow> store \<Rightarrow> store" where
  "replaceWindow roomId page = patchTimeline roomId (windowFromPage page)"

definition timeline_ready :: "store \<Rightarrow> ident \<Rightarrow> bool" where
  "timeline_ready s roomId \<longleftrightarrow> map_option tl_status (rget (s_timelines (state s)) roomId) = Some Ready"

definition jumped :: "ident \<Rightarrow> ident \<Rightarrow> bool \<Rightarrow> ident option \<Rightarrow> store \<Rightarrow> store" where
  \<comment> \<open>The result of \<open>jumpToMessage\<close>.\<close>
  "jumped roomId messageId found threadRootId s =
     s\<lparr>outcomes := outcomes s @ [JumpedTo roomId messageId found threadRootId]\<rparr>"

definition jumpToMessage :: "ident \<Rightarrow> ident \<Rightarrow> store \<Rightarrow> store" where
  "jumpToMessage roomId messageId = await_tasks [TOnce (KRoom roomId)] (ContJumpOpen roomId messageId)"

definition contJumpAround :: "ident \<Rightarrow> ident \<Rightarrow> store \<Rightarrow> store" where
  "contJumpAround roomId messageId s =
     (if \<not> timeline_ready s roomId then jumped roomId messageId False None s
      else request (TimelineCall (CAround roomId messageId)) s)"

definition contJumpOpen :: "ident \<Rightarrow> ident \<Rightarrow> store \<Rightarrow> store" where
  "contJumpOpen roomId messageId s =
     (if \<not> timeline_ready s roomId
      then await_tasks [TOnce (KRoom roomId)] (ContJumpAround roomId messageId) (openRoom roomId s)
      else contJumpAround roomId messageId s)"

definition settleAround :: "ident \<Rightarrow> ident \<Rightarrow> api_error + message_list \<Rightarrow> store \<Rightarrow> store" where
  "settleAround roomId messageId res s =
     (case res of
        Inr page \<Rightarrow> jumped roomId messageId (ml_around page \<noteq> None) (Option.bind (ml_around page) ma_thread_root_id)
          (replaceWindow roomId page s)
      | Inl err \<Rightarrow> jumped roomId messageId False None s)"

definition jumpToUnread :: "ident \<Rightarrow> store \<Rightarrow> store" where
  "jumpToUnread roomId s =
     (case rget (s_timelines (state s)) roomId of
        None \<Rightarrow> s
      | Some timeline \<Rightarrow>
          (case tl_unreadAfterSeq timeline of
             None \<Rightarrow> s
           | Some afterSeq \<Rightarrow>
               if tl_status timeline \<noteq> Ready then s
               else request (TimelineCall (CAfterUnread roomId afterSeq)) s))"

definition settleAfterUnread :: "ident \<Rightarrow> int \<Rightarrow> api_error + message_list \<Rightarrow> store \<Rightarrow> store" where
  "settleAfterUnread roomId afterSeq res s =
     (case res of
        Inr page \<Rightarrow> replaceWindow roomId
          (page\<lparr>ml_has_more := afterSeq > 0, ml_has_more_after := ml_has_more page\<rparr>) s
      | Inl err \<Rightarrow> s)"

definition loadNewer :: "ident \<Rightarrow> store \<Rightarrow> store" where
  "loadNewer roomId s =
     (case rget (s_timelines (state s)) roomId of
        None \<Rightarrow> s
      | Some timeline \<Rightarrow>
          if tl_status timeline \<noteq> Ready \<or> \<not> tl_hasNewer timeline \<or> tl_loadingNewer timeline then s
          else (case at_last (tl_messages timeline) of
                  None \<Rightarrow> s
                | Some newest \<Rightarrow> request (TimelineCall (CNewer roomId (m_seq newest)))
                    (patchTimeline roomId (\<lambda>t. t\<lparr>tl_loadingNewer := True\<rparr>) s)))"

definition takeNewer :: "message_list \<Rightarrow> timeline_state \<Rightarrow> timeline_state" where
  "takeNewer page current =
     (let messages = mergeMessages (tl_messages current) (ml_messages page)
      in current\<lparr>tl_messages := messages, tl_hasNewer := ml_has_more page, tl_loadingNewer := False,
                 tl_changeSeq := advanceCursor (tl_changeSeq current) messages\<rparr>)"

definition settleNewer :: "ident \<Rightarrow> api_error + message_list \<Rightarrow> store \<Rightarrow> store" where
  "settleNewer roomId res s =
     (case res of
        Inr page \<Rightarrow>
          let s1 = patchTimeline roomId (takeNewer page) s
          in if \<not> ml_has_more page then syncTimeline roomId s1 else s1
      | Inl err \<Rightarrow> patchTimeline roomId (\<lambda>t. t\<lparr>tl_loadingNewer := False\<rparr>) s)"

definition loadOlder :: "ident \<Rightarrow> store \<Rightarrow> store" where
  "loadOlder roomId s =
     (case rget (s_timelines (state s)) roomId of
        None \<Rightarrow> s
      | Some timeline \<Rightarrow>
          if tl_status timeline \<noteq> Ready \<or> \<not> tl_hasOlder timeline \<or> tl_loadingOlder timeline then s
          else (case at_first (tl_messages timeline) of
                  None \<Rightarrow> s
                | Some oldest \<Rightarrow> request (TimelineCall (COlder roomId (m_seq oldest)))
                    (patchTimeline roomId (\<lambda>t. t\<lparr>tl_loadingOlder := True\<rparr>) s)))"

definition takeOlder :: "message_list \<Rightarrow> timeline_state \<Rightarrow> timeline_state" where
  "takeOlder page current =
     current\<lparr>tl_messages := mergeMessages (tl_messages current) (ml_messages page),
             tl_hasOlder := ml_has_more page, tl_loadingOlder := False\<rparr>"

definition settleOlder :: "ident \<Rightarrow> api_error + message_list \<Rightarrow> store \<Rightarrow> store" where
  "settleOlder roomId res s =
     (case res of
        Inr page \<Rightarrow> patchTimeline roomId (takeOlder page) s
      | Inl err \<Rightarrow> patchTimeline roomId (\<lambda>t. t\<lparr>tl_loadingOlder := False\<rparr>) s)"

definition dismissUnread :: "ident \<Rightarrow> store \<Rightarrow> store" where
  "dismissUnread roomId = patchTimeline roomId (\<lambda>t. t\<lparr>tl_unreadAfterSeq := None\<rparr>)"

section \<open>The invariant\<close>

lemma replaceWindow_wf [store_wf]: "wf s \<Longrightarrow> wf (replaceWindow r page s)"
  by (auto simp: replaceWindow_def windowFromPage_def Let_def mm.merge_wf intro!: patchTimeline_wf)

lemma jumped_state [simp]: "state (jumped r m f t s) = state s"
  by (simp add: jumped_def)

lemma jumpToMessage_wf [store_wf]: "wf s \<Longrightarrow> wf (jumpToMessage r m s)"
  by (simp add: jumpToMessage_def)

lemma contJumpAround_wf [store_wf]: "wf s \<Longrightarrow> wf (contJumpAround r m s)"
  by (simp add: contJumpAround_def)

lemma contJumpOpen_wf [store_wf]: "wf s \<Longrightarrow> wf (contJumpOpen r m s)"
  by (simp add: contJumpOpen_def contJumpAround_wf openRoom_wf)

lemma settleAround_wf [store_wf]: "wf s \<Longrightarrow> wf (settleAround r m res s)"
  by (simp add: settleAround_def replaceWindow_wf split: sum.splits)

lemma jumpToUnread_wf [store_wf]: "wf s \<Longrightarrow> wf (jumpToUnread r s)"
  by (simp add: jumpToUnread_def split: option.splits)

lemma settleAfterUnread_wf [store_wf]: "wf s \<Longrightarrow> wf (settleAfterUnread r n res s)"
  by (simp add: settleAfterUnread_def replaceWindow_wf split: sum.splits)

lemma loadNewer_wf [store_wf]: "wf s \<Longrightarrow> wf (loadNewer r s)"
  by (auto simp: loadNewer_def split: option.splits intro!: patchTimeline_wf)

lemma settleNewer_wf [store_wf]: "wf s \<Longrightarrow> wf (settleNewer r res s)"
  by (auto simp: settleNewer_def Let_def takeNewer_def mm.merge_wf split: sum.splits intro!: patchTimeline_wf)

lemma loadOlder_wf [store_wf]: "wf s \<Longrightarrow> wf (loadOlder r s)"
  by (auto simp: loadOlder_def split: option.splits intro!: patchTimeline_wf)

lemma settleOlder_wf [store_wf]: "wf s \<Longrightarrow> wf (settleOlder r res s)"
  by (auto simp: settleOlder_def takeOlder_def mm.merge_wf split: sum.splits intro!: patchTimeline_wf)

lemma dismissUnread_wf [store_wf]: "wf s \<Longrightarrow> wf (dismissUnread r s)"
  by (auto simp: dismissUnread_def intro!: patchTimeline_wf)

end
