(* ===== verification/MessageActions.thy ===== *)
theory MessageActions
  imports TimelineStore
begin

text \<open>
  Editing, reacting to, pinning and deleting a message (\<open>web/lib/chat/store/message-actions.ts\<close>).
\<close>

definition editMessage :: "ident \<Rightarrow> ident \<Rightarrow> string \<Rightarrow> store \<Rightarrow> store" where
  "editMessage roomId messageId body = request (MessageCall (CEditMessage roomId messageId body))"

definition settleMessage :: "message_call \<Rightarrow> api_error + message \<Rightarrow> store \<Rightarrow> store" where
  \<comment> \<open>The actions that end in \<open>receiveMessage(await ..., false)\<close>: edit, pin, delete an attachment.\<close>
  "settleMessage c res s = (case res of
     Inr message \<Rightarrow> receiveMessage message False s
   | Inl err \<Rightarrow> throw (MessageCall c) err s)"

definition hasMyReaction :: "message \<Rightarrow> string \<Rightarrow> bool" where
  "hasMyReaction m emoji \<longleftrightarrow> some_in (\<lambda>r. re_emoji r = emoji \<and> re_me r = Some True) (m_reactions m)"

definition reactTo :: "ident \<Rightarrow> ident \<Rightarrow> string \<Rightarrow> store \<Rightarrow> store" where
  \<comment> \<open>The action \<open>toggleReaction\<close>.\<close>
  "reactTo roomId messageId emoji s =
     (case findMessage s roomId messageId of
        None \<Rightarrow> s
      | Some prev \<Rightarrow>
          let add = (\<not> hasMyReaction prev emoji)
          in request (MessageCall (CReact roomId messageId emoji add prev))
               (patchMessageEverywhere roomId messageId
                  (\<lambda>m. m\<lparr>m_reactions := toggleReaction (m_reactions m) emoji (userId s) add\<rparr>) s))"

definition settleReact :: "ident \<Rightarrow> ident \<Rightarrow> string \<Rightarrow> bool \<Rightarrow> message \<Rightarrow> api_error + message \<Rightarrow> store \<Rightarrow> store" where
  "settleReact roomId messageId emoji add prev res s =
     (case res of
        Inr updated \<Rightarrow> receiveMessage updated False s
      | Inl err \<Rightarrow> throw (MessageCall (CReact roomId messageId emoji add prev)) err
          (patchMessageEverywhere roomId messageId
            (\<lambda>m. if m_change_seq m = m_change_seq prev then m\<lparr>m_reactions := m_reactions prev\<rparr> else m) s))"

definition togglePin :: "ident \<Rightarrow> ident \<Rightarrow> store \<Rightarrow> store" where
  "togglePin roomId messageId s =
     (case (case findMessage s roomId messageId of
              Some m \<Rightarrow> Some m
            | None \<Rightarrow> Option.bind (rget (s_pins (state s)) roomId)
                        (\<lambda>p. List.find (\<lambda>m. m_id m = messageId) (ld_list p))) of
        None \<Rightarrow> s
      | Some message \<Rightarrow> request (MessageCall (CPin roomId messageId (m_pinned message = None))) s)"

definition deleteAttachment :: "ident \<Rightarrow> ident \<Rightarrow> ident \<Rightarrow> store \<Rightarrow> store" where
  "deleteAttachment roomId messageId attachmentId =
     request (MessageCall (CDeleteAttachment roomId messageId attachmentId))"

definition removeLinkPreview :: "ident \<Rightarrow> ident \<Rightarrow> ident \<Rightarrow> store \<Rightarrow> store" where
  "removeLinkPreview roomId messageId previewId s =
     (case findMessage s roomId messageId of
        None \<Rightarrow> s
      | Some prev \<Rightarrow>
          request (MessageCall (CRemovePreview roomId messageId previewId prev))
            (patchMessageEverywhere roomId messageId
               (\<lambda>m. m\<lparr>m_link_previews := filter (\<lambda>p. lp_id p \<noteq> previewId) (m_link_previews m)\<rparr>) s))"

definition settleRemovePreview :: "ident \<Rightarrow> ident \<Rightarrow> ident \<Rightarrow> message \<Rightarrow> api_error + unit \<Rightarrow> store \<Rightarrow> store" where
  "settleRemovePreview roomId messageId previewId prev res s =
     (case res of
        Inr _ \<Rightarrow> s
      | Inl err \<Rightarrow> throw (MessageCall (CRemovePreview roomId messageId previewId prev)) err
          (patchMessageEverywhere roomId messageId
            (\<lambda>m. if m_change_seq m = m_change_seq prev then m\<lparr>m_link_previews := m_link_previews prev\<rparr> else m) s))"

definition deleteMessage :: "ident \<Rightarrow> ident \<Rightarrow> store \<Rightarrow> store" where
  "deleteMessage roomId messageId = request (MessageCall (CDeleteMessage roomId messageId))"

definition settleDeleteMessage :: "ident \<Rightarrow> ident \<Rightarrow> api_error + unit \<Rightarrow> store \<Rightarrow> store" where
  "settleDeleteMessage roomId messageId res s =
     (case res of
        Inr _ \<Rightarrow> syncTimeline roomId s
      | Inl err \<Rightarrow> throw (MessageCall (CDeleteMessage roomId messageId)) err s)"

lemma editMessage_wf [store_wf]: "wf s \<Longrightarrow> wf (editMessage r m b s)"
  by (simp add: editMessage_def)

lemma settleMessage_wf [store_wf]: "wf s \<Longrightarrow> wf (settleMessage c res s)"
  by (simp add: settleMessage_def receiveMessage_wf split: sum.splits)

lemma reactTo_wf [store_wf]: "wf s \<Longrightarrow> wf (reactTo r m e s)"
  by (auto simp: reactTo_def Let_def split: option.splits intro!: patchMessageEverywhere_wf)

lemma settleReact_wf [store_wf]: "wf s \<Longrightarrow> wf (settleReact r m e a p res s)"
  by (auto simp: settleReact_def receiveMessage_wf split: sum.splits intro!: patchMessageEverywhere_wf)

lemma togglePin_wf [store_wf]: "wf s \<Longrightarrow> wf (togglePin r m s)"
  by (simp add: togglePin_def split: option.splits)

lemma deleteAttachment_wf [store_wf]: "wf s \<Longrightarrow> wf (deleteAttachment r m a s)"
  by (simp add: deleteAttachment_def)

lemma removeLinkPreview_wf [store_wf]: "wf s \<Longrightarrow> wf (removeLinkPreview r m p s)"
  by (auto simp: removeLinkPreview_def split: option.splits intro!: patchMessageEverywhere_wf)

lemma settleRemovePreview_wf [store_wf]: "wf s \<Longrightarrow> wf (settleRemovePreview r m p q res s)"
  by (auto simp: settleRemovePreview_def split: sum.splits intro!: patchMessageEverywhere_wf)

lemma deleteMessage_wf [store_wf]: "wf s \<Longrightarrow> wf (deleteMessage r m s)"
  by (simp add: deleteMessage_def)

lemma settleDeleteMessage_wf [store_wf]: "wf s \<Longrightarrow> wf (settleDeleteMessage r m res s)"
  by (simp add: settleDeleteMessage_def split: sum.splits)

end
