(* ===== verification/WorkspaceStore.thy ===== *)
theory WorkspaceStore
  imports StoreInv
begin

text \<open>
  Workspaces (\<open>web/lib/chat/store/workspaces.ts\<close>), their members (\<open>members.ts\<close>), the viewer's own settings
  (\<open>my-settings.ts\<close>), invites (\<open>invites.ts\<close>) and notification settings (\<open>notifications.ts\<close>).
\<close>

section \<open>Workspaces\<close>

definition removedFromWorkspace :: "ident \<Rightarrow> removal_reason \<Rightarrow> store \<Rightarrow> store" where
  "removedFromWorkspace workspaceId reason = update (\<lambda>c.
     case List.find (\<lambda>w. w_id w = workspaceId) (ld_list (s_workspaces c)) of
       None \<Rightarrow> c
     | Some workspace \<Rightarrow> c\<lparr>
         s_workspaces := (s_workspaces c)\<lparr>ld_list := filter (\<lambda>w. w_id w \<noteq> workspaceId) (ld_list (s_workspaces c))\<rparr>,
         s_removedWorkspaces := rput workspaceId (reason, workspace) (s_removedWorkspaces c)\<rparr>)"

definition loadWorkspaces :: "store \<Rightarrow> store" where
  "loadWorkspaces = once KWorkspaces (request (WorkspaceCall CListWorkspaces))"

definition settleListWorkspaces :: "api_error + workspace list \<Rightarrow> store \<Rightarrow> store" where
  "settleListWorkspaces res s = finish_once KWorkspaces
     (case res of
        Inr ws \<Rightarrow> update (\<lambda>c. c\<lparr>s_workspaces := \<lparr>ld_status = Ready, ld_list = ws\<rparr>\<rparr>) s
      | Inl err \<Rightarrow> update (\<lambda>c. c\<lparr>s_workspaces := (s_workspaces c)\<lparr>ld_status := statusOf err\<rparr>\<rparr>) s)"

definition createWorkspace :: "string \<Rightarrow> store \<Rightarrow> store" where
  "createWorkspace name = request (WorkspaceCall (CCreateWorkspace name))"

definition settleCreateWorkspace :: "string \<Rightarrow> api_error + workspace \<Rightarrow> store \<Rightarrow> store" where
  "settleCreateWorkspace name res s = (case res of
     Inr w \<Rightarrow> update (\<lambda>c. c\<lparr>s_workspaces := \<lparr>ld_status = Ready, ld_list = ld_list (s_workspaces c) @ [w]\<rparr>\<rparr>) s
   | Inl err \<Rightarrow> throw (WorkspaceCall (CCreateWorkspace name)) err s)"

definition updateWorkspace :: "ident \<Rightarrow> store \<Rightarrow> store" where
  "updateWorkspace workspaceId = request (WorkspaceCall (CUpdateWorkspace workspaceId))"

definition settleUpdateWorkspace :: "ident \<Rightarrow> api_error + workspace \<Rightarrow> store \<Rightarrow> store" where
  "settleUpdateWorkspace workspaceId res s = (case res of
     Inr updated \<Rightarrow> patchWorkspace workspaceId (\<lambda>w. updated\<lparr>w_member_count :=
        (case w_member_count updated of None \<Rightarrow> w_member_count w | Some n \<Rightarrow> Some n)\<rparr>) s
   | Inl err \<Rightarrow> throw (WorkspaceCall (CUpdateWorkspace workspaceId)) err s)"

section \<open>Members\<close>

definition loadMembers :: "ident \<Rightarrow> store \<Rightarrow> store" where
  "loadMembers workspaceId = once (KWsMembers workspaceId) (\<lambda>s. request (WorkspaceCall (CListMembers workspaceId))
     (update (\<lambda>c. c\<lparr>s_members := rput workspaceId (case rget (s_members c) workspaceId of
         None \<Rightarrow> \<lparr>ld_status = Loading, ld_list = []\<rparr> | Some e \<Rightarrow> e) (s_members c)\<rparr>) s))"

definition settleListMembers :: "ident \<Rightarrow> api_error + member list \<Rightarrow> store \<Rightarrow> store" where
  "settleListMembers workspaceId res s = finish_once (KWsMembers workspaceId)
     (case res of
        Inr list \<Rightarrow> update (\<lambda>c. c\<lparr>s_members := rput workspaceId \<lparr>ld_status = Ready, ld_list = list\<rparr> (s_members c)\<rparr>) s
      | Inl err \<Rightarrow> update (\<lambda>c. c\<lparr>s_members := rput workspaceId \<lparr>ld_status = statusOf err,
          ld_list = (case rget (s_members c) workspaceId of None \<Rightarrow> [] | Some e \<Rightarrow> ld_list e)\<rparr> (s_members c)\<rparr>) s)"

definition reloadMembers :: "ident \<Rightarrow> store \<Rightarrow> store" where
  "reloadMembers workspaceId = await_tasks [TOnce (KWsMembers workspaceId)] (ContReloadMembers workspaceId)"

definition applySettings :: "member \<Rightarrow> bool \<Rightarrow> user_status option \<Rightarrow> bool \<Rightarrow> member" where
  "applySettings member away status sameWorkspace =
     member\<lparr>mb_away := away, mb_status := (if sameWorkspace then status else mb_status member)\<rparr>"

definition changed :: "member \<Rightarrow> bool \<Rightarrow> user_status option \<Rightarrow> bool \<Rightarrow> bool" where
  \<comment> \<open>\<open>JSON.stringify\<close> of two statuses differs when their fields do.\<close>
  "changed member away status sameWorkspace =
     (if mb_away member \<noteq> away then True
      else if \<not> sameWorkspace then False
      else mb_status member \<noteq> status)"

definition roomsOfWorkspace :: "chat_state \<Rightarrow> ident \<Rightarrow> ident set" where
  "roomsOfWorkspace c workspaceId = r_id ` {room \<in> set (rvals (s_rooms c)). r_workspace_id room = workspaceId}"

definition settingsEntry :: "ident \<Rightarrow> bool \<Rightarrow> user_status option \<Rightarrow> bool \<Rightarrow> member loaded \<Rightarrow> member loaded" where
  \<comment> \<open>One list of members: rebuilt when a row of the user changes.\<close>
  "settingsEntry user away status sameWorkspace entry =
     (if \<not> some_in (\<lambda>m. u_id (mb_user m) = user \<and> changed m away status sameWorkspace) (ld_list entry) then entry
      else entry\<lparr>ld_list := map (\<lambda>m. if u_id (mb_user m) = user then applySettings m away status sameWorkspace else m)
                              (ld_list entry)\<rparr>)"

definition patchMemberSettings :: "ident \<Rightarrow> ident \<Rightarrow> bool \<Rightarrow> user_status option \<Rightarrow> store \<Rightarrow> store" where
  "patchMemberSettings workspaceId user away status = update (\<lambda>c.
     c\<lparr>s_members := rmap (\<lambda>id. settingsEntry user away status (id = workspaceId)) (s_members c),
       s_roomMembers := rmap (\<lambda>roomId. settingsEntry user away status (roomId \<in> roomsOfWorkspace c workspaceId))
          (s_roomMembers c)\<rparr>)"

definition huddleEntry :: "ident \<Rightarrow> bool \<Rightarrow> member loaded \<Rightarrow> member loaded" where
  "huddleEntry user inHuddle entry =
     (if \<not> some_in (\<lambda>m. u_id (mb_user m) = user \<and> mb_in_huddle m \<noteq> inHuddle) (ld_list entry) then entry
      else entry\<lparr>ld_list := map (\<lambda>m. if u_id (mb_user m) = user then m\<lparr>mb_in_huddle := inHuddle\<rparr> else m) (ld_list entry)\<rparr>)"

definition patchMemberHuddle :: "ident \<Rightarrow> ident \<Rightarrow> bool \<Rightarrow> store \<Rightarrow> store" where
  "patchMemberHuddle workspaceId user inHuddle = update (\<lambda>c.
     c\<lparr>s_members := patchRec workspaceId (huddleEntry user inHuddle) (s_members c),
       s_roomMembers := rmap (\<lambda>roomId entry. if roomId \<in> roomsOfWorkspace c workspaceId
          then huddleEntry user inHuddle entry else entry) (s_roomMembers c)\<rparr>)"

definition changeMemberRole :: "ident \<Rightarrow> ident \<Rightarrow> role \<Rightarrow> store \<Rightarrow> store" where
  "changeMemberRole workspaceId target role = request (WorkspaceCall (CChangeRole workspaceId target role))"

definition settleChangeRole :: "ident \<Rightarrow> ident \<Rightarrow> role \<Rightarrow> api_error + member \<Rightarrow> store \<Rightarrow> store" where
  "settleChangeRole workspaceId target role res s = (case res of
     Inr member \<Rightarrow>
       let s1 = patchWorkspaceMembers workspaceId (map (\<lambda>m. if u_id (mb_user m) = target then member else m)) s
       in if target = userId s1 then patchWorkspace workspaceId (\<lambda>w. w\<lparr>w_my_role := role\<rparr>) s1 else s1
   | Inl err \<Rightarrow> throw (WorkspaceCall (CChangeRole workspaceId target role)) err s)"

definition removeMember :: "ident \<Rightarrow> ident \<Rightarrow> store \<Rightarrow> store" where
  "removeMember workspaceId target = request (WorkspaceCall (CRemoveMember workspaceId target))"

definition settleRemoveMember :: "ident \<Rightarrow> ident \<Rightarrow> api_error + unit \<Rightarrow> store \<Rightarrow> store" where
  "settleRemoveMember workspaceId target res s = (case res of
     Inr _ \<Rightarrow>
       let s1 = patchWorkspaceMembers workspaceId (filter (\<lambda>m. u_id (mb_user m) \<noteq> target)) s
       in if target = userId s1 then removedFromWorkspace workspaceId LeftSelf s1 else s1
   | Inl err \<Rightarrow> throw (WorkspaceCall (CRemoveMember workspaceId target)) err s)"

definition transferOwnership :: "ident \<Rightarrow> ident \<Rightarrow> store \<Rightarrow> store" where
  "transferOwnership workspaceId target = request (WorkspaceCall (CTransferOwnership workspaceId target))"

definition swapOwner :: "ident \<Rightarrow> member \<Rightarrow> member" where
  "swapOwner target m = (if u_id (mb_user m) = target then m\<lparr>mb_role := Owner\<rparr>
     else if mb_role m = Owner then m\<lparr>mb_role := Admin\<rparr> else m)"

definition settleTransferOwnership :: "ident \<Rightarrow> ident \<Rightarrow> api_error + unit \<Rightarrow> store \<Rightarrow> store" where
  "settleTransferOwnership workspaceId target res s = (case res of
     Inr _ \<Rightarrow> patchWorkspace workspaceId (\<lambda>w. w\<lparr>w_my_role := Admin\<rparr>)
       (patchWorkspaceMembers workspaceId (map (swapOwner target)) s)
   | Inl err \<Rightarrow> throw (WorkspaceCall (CTransferOwnership workspaceId target)) err s)"

section \<open>The viewer's own settings\<close>

definition myRow :: "store \<Rightarrow> member loaded \<Rightarrow> member option" where
  "myRow s entry = List.find (\<lambda>m. u_id (mb_user m) = userId s) (ld_list entry)"

definition myAway :: "store \<Rightarrow> bool" where
  "myAway s = (case fold (\<lambda>entry found. case found of Some m \<Rightarrow> Some m | None \<Rightarrow> myRow s entry)
                 (rvals (s_members (state s))) None of None \<Rightarrow> False | Some me \<Rightarrow> mb_away me)"

definition myStatus :: "store \<Rightarrow> ident \<Rightarrow> user_status option" where
  "myStatus s workspaceId =
     Option.bind (Option.bind (rget (s_members (state s)) workspaceId) (myRow s)) mb_status"

definition patchMyAway :: "bool \<Rightarrow> store \<Rightarrow> store" where
  \<comment> \<open>\<open>patchMySettings\<close> without a status.\<close>
  "patchMyAway nextAway s =
     fold (\<lambda>id s. patchMemberSettings id (userId s) nextAway (myStatus s id) s) (map fst (s_members (state s))) s"

definition patchMyStatus :: "user_status option \<Rightarrow> ident \<Rightarrow> store \<Rightarrow> store" where
  \<comment> \<open>\<open>patchMySettings\<close> with a status.\<close>
  "patchMyStatus status workspaceId s = patchMemberSettings workspaceId (userId s) (myAway s) status s"

definition setAway :: "bool \<Rightarrow> store \<Rightarrow> store" where
  \<comment> \<open>The request keeps what to put back.\<close>
  "setAway away s = request (WorkspaceCall (CSetAway (myAway s))) (patchMyAway away s)"

definition settleSetAway :: "bool \<Rightarrow> api_error + unit \<Rightarrow> store \<Rightarrow> store" where
  "settleSetAway prev res s = (case res of
     Inr _ \<Rightarrow> s | Inl err \<Rightarrow> throw (WorkspaceCall (CSetAway prev)) err (patchMyAway prev s))"

definition setStatus :: "ident \<Rightarrow> user_status option \<Rightarrow> store \<Rightarrow> store" where
  "setStatus workspaceId status s =
     request (WorkspaceCall (CSetStatus workspaceId (myStatus s workspaceId))) (patchMyStatus status workspaceId s)"

definition settleSetStatus :: "ident \<Rightarrow> user_status option \<Rightarrow> api_error + unit \<Rightarrow> store \<Rightarrow> store" where
  "settleSetStatus workspaceId prev res s = (case res of
     Inr _ \<Rightarrow> s | Inl err \<Rightarrow> throw (WorkspaceCall (CSetStatus workspaceId prev)) err (patchMyStatus prev workspaceId s))"

section \<open>Invites\<close>

definition civil_from_days :: "int \<Rightarrow> int \<times> int \<times> int" where
  \<comment> \<open>The proleptic Gregorian date of a number of days since 1970-01-01.\<close>
  "civil_from_days days =
     (let z = days + 719468; era = z div 146097; doe = z mod 146097;
          yoe = (doe - doe div 1460 + doe div 36524 - doe div 146096) div 365;
          doy = doe - (365 * yoe + yoe div 4 - yoe div 100);
          mp = (5 * doy + 2) div 153;
          m = (if mp < 10 then mp + 3 else mp - 9);
          y = yoe + era * 400 + (if m \<le> 2 then 1 else 0)
      in (y, m, doy - (153 * mp + 2) div 5 + 1))"

fun pad :: "nat \<Rightarrow> int \<Rightarrow> string" where
  "pad 0 n = []"
| "pad (Suc k) n = pad k (n div 10) @ [char_of (48 + nat (n mod 10))]"

definition toISOString :: "int \<Rightarrow> iso" where
  "toISOString t =
     (let days = t div 86400000; ms = t mod 86400000 in
      case civil_from_days days of (y, m, d) \<Rightarrow>
        (if 0 \<le> y \<and> y \<le> 9999 then pad 4 y
         else (if y < 0 then ''-'' else ''+'') @ pad 6 \<bar>y\<bar>) @ ''-'' @ pad 2 m @ ''-'' @ pad 2 d @ ''T'' @
        pad 2 (ms div 3600000) @ '':'' @ pad 2 (ms div 60000 mod 60) @ '':'' @ pad 2 (ms div 1000 mod 60) @ ''.'' @
        pad 3 (ms mod 1000) @ ''Z'')"

definition sortInvites :: "invite list \<Rightarrow> invite list" where
  "sortInvites list = js_sort (\<lambda>a b. localeCompare (iv_id b) (iv_id a)) list"

definition loadInvites :: "ident \<Rightarrow> store \<Rightarrow> store" where
  "loadInvites workspaceId = once (KInvites workspaceId) (\<lambda>s. request (WorkspaceCall (CListInvites workspaceId))
     (update (\<lambda>c. c\<lparr>s_invites := rput workspaceId (case rget (s_invites c) workspaceId of
         None \<Rightarrow> \<lparr>ld_status = Loading, ld_list = []\<rparr> | Some e \<Rightarrow> e) (s_invites c)\<rparr>) s))"

definition settleListInvites :: "ident \<Rightarrow> api_error + invite list \<Rightarrow> store \<Rightarrow> store" where
  "settleListInvites workspaceId res s = finish_once (KInvites workspaceId)
     (case res of
        Inr list \<Rightarrow> update (\<lambda>c. c\<lparr>s_invites := rput workspaceId \<lparr>ld_status = Ready, ld_list = sortInvites list\<rparr>
                      (s_invites c)\<rparr>) s
      | Inl err \<Rightarrow> update (\<lambda>c. c\<lparr>s_invites := rput workspaceId \<lparr>ld_status = statusOf err,
          ld_list = (case rget (s_invites c) workspaceId of None \<Rightarrow> [] | Some e \<Rightarrow> ld_list e)\<rparr> (s_invites c)\<rparr>) s)"

definition createInvite :: "ident \<Rightarrow> store \<Rightarrow> store" where
  "createInvite workspaceId = request (WorkspaceCall (CCreateInvite workspaceId))"

definition settleCreateInvite :: "ident \<Rightarrow> api_error + invite \<Rightarrow> store \<Rightarrow> store" where
  "settleCreateInvite workspaceId res s = (case res of
     Inr invite \<Rightarrow> patchInvites workspaceId (\<lambda>list. invite\<lparr>iv_code := None\<rparr> # list) s
   | Inl err \<Rightarrow> throw (WorkspaceCall (CCreateInvite workspaceId)) err s)"

definition revokeInvite :: "ident \<Rightarrow> ident \<Rightarrow> store \<Rightarrow> store" where
  "revokeInvite workspaceId inviteId = request (WorkspaceCall (CRevokeInvite workspaceId inviteId))"

definition settleRevokeInvite :: "ident \<Rightarrow> ident \<Rightarrow> api_error + unit \<Rightarrow> store \<Rightarrow> store" where
  "settleRevokeInvite workspaceId inviteId res s = (case res of
     Inr _ \<Rightarrow> patchInvites workspaceId (map (\<lambda>invite. if iv_id invite = inviteId
        then invite\<lparr>iv_status := InvRevoked, iv_revoked_at := Some (toISOString (now s))\<rparr> else invite)) s
   | Inl err \<Rightarrow> throw (WorkspaceCall (CRevokeInvite workspaceId inviteId)) err s)"

definition acceptInvite :: "string \<Rightarrow> store \<Rightarrow> store" where
  "acceptInvite code = request (WorkspaceCall (CAcceptInvite code))"

definition settleAcceptInvite :: "string \<Rightarrow> api_error + workspace \<Rightarrow> store \<Rightarrow> store" where
  "settleAcceptInvite code res s = (case res of
     Inr w \<Rightarrow> update (\<lambda>c. if some_in (\<lambda>x. w_id x = w_id w) (ld_list (s_workspaces c)) then c
        else c\<lparr>s_workspaces := (s_workspaces c)\<lparr>ld_list := ld_list (s_workspaces c) @ [w]\<rparr>\<rparr>) s
   | Inl err \<Rightarrow> throw (WorkspaceCall (CAcceptInvite code)) err s)"

section \<open>Notification settings\<close>

definition loadNotificationLevel :: "ident \<Rightarrow> store \<Rightarrow> store" where
  "loadNotificationLevel workspaceId =
     once (KNotificationLevel workspaceId) (request (WorkspaceCall (CGetLevel workspaceId)))"

definition putLevel :: "ident \<Rightarrow> notify_level option \<Rightarrow> store \<Rightarrow> store" where
  "putLevel workspaceId level = update (\<lambda>c.
     c\<lparr>s_notificationLevels := rset workspaceId level (s_notificationLevels c)\<rparr>)"

definition settleGetLevel :: "ident \<Rightarrow> api_error + notify_level \<Rightarrow> store \<Rightarrow> store" where
  "settleGetLevel workspaceId res s = finish_once (KNotificationLevel workspaceId)
     (case res of Inr level \<Rightarrow> putLevel workspaceId (Some level) s | Inl err \<Rightarrow> s)"

definition setNotificationLevel :: "ident \<Rightarrow> notify_level \<Rightarrow> store \<Rightarrow> store" where
  "setNotificationLevel workspaceId level s =
     request (WorkspaceCall (CSetLevel workspaceId (rget (s_notificationLevels (state s)) workspaceId)))
       (putLevel workspaceId (Some level) s)"

definition settleSetLevel :: "ident \<Rightarrow> notify_level option \<Rightarrow> api_error + unit \<Rightarrow> store \<Rightarrow> store" where
  "settleSetLevel workspaceId prev res s = (case res of
     Inr _ \<Rightarrow> s | Inl err \<Rightarrow> throw (WorkspaceCall (CSetLevel workspaceId prev)) err (putLevel workspaceId prev s))"

definition setRoomNotifications :: "ident \<Rightarrow> room_notifications \<Rightarrow> store \<Rightarrow> store" where
  "setRoomNotifications roomId nxt s =
     (case Option.bind (rget (s_rooms (state s)) roomId) r_notifications of
        None \<Rightarrow> s
      | Some prev \<Rightarrow> request (WorkspaceCall (CSetRoomNotify roomId prev))
          (patchRoom roomId (\<lambda>room. room\<lparr>r_notifications := Some nxt\<rparr>) s))"

definition settleSetRoomNotify :: "ident \<Rightarrow> room_notifications \<Rightarrow> api_error + room_notifications \<Rightarrow> store \<Rightarrow> store" where
  "settleSetRoomNotify roomId prev res s = (case res of
     Inr saved \<Rightarrow> patchRoom roomId (\<lambda>room. room\<lparr>r_notifications := Some saved\<rparr>) s
   | Inl err \<Rightarrow> throw (WorkspaceCall (CSetRoomNotify roomId prev)) err
       (patchRoom roomId (\<lambda>room. room\<lparr>r_notifications := Some prev\<rparr>) s))"

section \<open>The invariant\<close>

lemma removedFromWorkspace_wf [store_wf]: "wf s \<Longrightarrow> wf (removedFromWorkspace w r s)"
  by (simp add: removedFromWorkspace_def chat_wf_def split: option.splits)

lemma loadWorkspaces_wf [store_wf]: "wf s \<Longrightarrow> wf (loadWorkspaces s)"
  by (simp add: loadWorkspaces_def once_state)

lemma settleListWorkspaces_wf [store_wf]: "wf s \<Longrightarrow> wf (settleListWorkspaces res s)"
  by (simp add: settleListWorkspaces_def chat_wf_def split: sum.splits)

lemma settleCreateWorkspace_wf [store_wf]: "wf s \<Longrightarrow> wf (settleCreateWorkspace n res s)"
  by (simp add: settleCreateWorkspace_def chat_wf_def split: sum.splits)

lemma settleUpdateWorkspace_wf [store_wf]: "wf s \<Longrightarrow> wf (settleUpdateWorkspace w res s)"
  by (simp add: settleUpdateWorkspace_def patchWorkspace_wf split: sum.splits)

lemma workspace_requests_wf [store_wf]:
  "wf s \<Longrightarrow> wf (createWorkspace n s)" "wf s \<Longrightarrow> wf (updateWorkspace w s)" "wf s \<Longrightarrow> wf (changeMemberRole w u r s)"
  "wf s \<Longrightarrow> wf (removeMember w u s)" "wf s \<Longrightarrow> wf (transferOwnership w u s)" "wf s \<Longrightarrow> wf (createInvite w s)"
  "wf s \<Longrightarrow> wf (revokeInvite w i s)" "wf s \<Longrightarrow> wf (acceptInvite n s)" "wf s \<Longrightarrow> wf (reloadMembers w s)"
  by (simp_all add: createWorkspace_def updateWorkspace_def changeMemberRole_def removeMember_def transferOwnership_def
      createInvite_def revokeInvite_def acceptInvite_def reloadMembers_def)

lemma loadMembers_wf [store_wf]: "wf s \<Longrightarrow> wf (loadMembers w s)"
  by (simp add: loadMembers_def once_state chat_wf_def)

lemma settleListMembers_wf [store_wf]: "wf s \<Longrightarrow> wf (settleListMembers w res s)"
  by (simp add: settleListMembers_def chat_wf_def split: sum.splits)

lemma patchMemberSettings_wf [store_wf]: "wf s \<Longrightarrow> wf (patchMemberSettings w u a st s)"
  by (simp add: patchMemberSettings_def chat_wf_def)

lemma patchMemberHuddle_wf [store_wf]: "wf s \<Longrightarrow> wf (patchMemberHuddle w u b s)"
  by (simp add: patchMemberHuddle_def chat_wf_def)

lemma settleChangeRole_wf [store_wf]: "wf s \<Longrightarrow> wf (settleChangeRole w u r res s)"
  by (simp add: settleChangeRole_def Let_def patchWorkspace_wf patchWorkspaceMembers_wf split: sum.splits)

lemma settleRemoveMember_wf [store_wf]: "wf s \<Longrightarrow> wf (settleRemoveMember w u res s)"
  by (simp add: settleRemoveMember_def Let_def removedFromWorkspace_wf patchWorkspaceMembers_wf split: sum.splits)

lemma settleTransferOwnership_wf [store_wf]: "wf s \<Longrightarrow> wf (settleTransferOwnership w u res s)"
  by (simp add: settleTransferOwnership_def patchWorkspace_wf patchWorkspaceMembers_wf split: sum.splits)

lemma patchMyAway_wf [store_wf]: "wf s \<Longrightarrow> wf (patchMyAway a s)"
  unfolding patchMyAway_def by (rule wf_fold) (auto intro: patchMemberSettings_wf)

lemma my_settings_wf [store_wf]:
  "wf s \<Longrightarrow> wf (patchMyStatus st w s)" "wf s \<Longrightarrow> wf (setAway a s)" "wf s \<Longrightarrow> wf (settleSetAway a res2 s)"
  "wf s \<Longrightarrow> wf (setStatus w st s)" "wf s \<Longrightarrow> wf (settleSetStatus w st res2 s)"
  by (simp_all add: patchMyStatus_def setAway_def settleSetAway_def setStatus_def settleSetStatus_def
      patchMemberSettings_wf patchMyAway_wf split: sum.splits)

lemma loadInvites_wf [store_wf]: "wf s \<Longrightarrow> wf (loadInvites w s)"
  by (simp add: loadInvites_def once_state chat_wf_def)

lemma settleListInvites_wf [store_wf]: "wf s \<Longrightarrow> wf (settleListInvites w res s)"
  by (simp add: settleListInvites_def chat_wf_def split: sum.splits)

lemma settleCreateInvite_wf [store_wf]: "wf s \<Longrightarrow> wf (settleCreateInvite w res s)"
  by (simp add: settleCreateInvite_def patchInvites_wf split: sum.splits)

lemma settleRevokeInvite_wf [store_wf]: "wf s \<Longrightarrow> wf (settleRevokeInvite w i res s)"
  by (simp add: settleRevokeInvite_def patchInvites_wf split: sum.splits)

lemma settleAcceptInvite_wf [store_wf]: "wf s \<Longrightarrow> wf (settleAcceptInvite n res s)"
  by (simp add: settleAcceptInvite_def chat_wf_def split: sum.splits)

lemma putLevel_wf [store_wf]: "wf s \<Longrightarrow> wf (putLevel w l s)"
  by (simp add: putLevel_def chat_wf_def)

lemma notifications_wf [store_wf]:
  "wf s \<Longrightarrow> wf (loadNotificationLevel w s)" "wf s \<Longrightarrow> wf (settleGetLevel w lres s)"
  "wf s \<Longrightarrow> wf (setNotificationLevel w l s)" "wf s \<Longrightarrow> wf (settleSetLevel w ol ures s)"
  "wf s \<Longrightarrow> wf (setRoomNotifications r n s)" "wf s \<Longrightarrow> wf (settleSetRoomNotify r n nres s)"
  by (simp_all add: loadNotificationLevel_def once_state settleGetLevel_def setNotificationLevel_def settleSetLevel_def
      setRoomNotifications_def settleSetRoomNotify_def putLevel_wf patchRoom_wf split: sum.splits option.splits)

end
