(* ===== verification/HuddleStore.thy ===== *)
theory HuddleStore
  imports StoreInv
begin

text \<open>
  What the screen shows of voice huddles (\<open>web/lib/chat/store/huddles.ts\<close>): the huddle of each room by
  version, the ring of a call, the features of the server.
\<close>

definition newerHuddle :: "room_huddle option \<Rightarrow> room_huddle option \<Rightarrow> room_huddle option" where
  "newerHuddle current incoming =
     (case incoming of
        None \<Rightarrow> None
      | Some h \<Rightarrow> (case current of
            Some k \<Rightarrow> if h_id k = h_id h \<and> h_version k \<ge> h_version h then current else incoming
          | None \<Rightarrow> incoming))"

definition dismissHuddleRing :: "store \<Rightarrow> store" where
  "dismissHuddleRing s = update (\<lambda>c. if s_huddleRing c = None then c else c\<lparr>s_huddleRing := None\<rparr>)
     (s\<lparr>ringTimer := None\<rparr>)"

definition ringOver :: "ident \<Rightarrow> huddle_ring \<Rightarrow> room_huddle option \<Rightarrow> bool" where
  \<comment> \<open>The huddle ended, is another one, or the viewer is in it.\<close>
  "ringOver user ring current = (case current of
     None \<Rightarrow> True
   | Some h \<Rightarrow> h_id h \<noteq> hr_huddleId ring \<or> some_in (\<lambda>p. hp_user_id p = user) (h_participants h))"

definition receiveHuddleUpdated :: "ident \<Rightarrow> room_huddle option \<Rightarrow> store \<Rightarrow> store" where
  "receiveHuddleUpdated roomId huddle s =
     (let s1 = patchRoom roomId (\<lambda>room. room\<lparr>r_huddle := newerHuddle (r_huddle room) huddle\<rparr>) s
      in case s_huddleRing (state s1) of
           None \<Rightarrow> s1
         | Some ring \<Rightarrow>
             if hr_roomId ring = roomId \<and>
                ringOver (userId s1) ring (Option.bind (rget (s_rooms (state s1)) roomId) r_huddle)
             then dismissHuddleRing s1 else s1)"

definition receiveHuddleRinging :: "ident \<Rightarrow> ident \<Rightarrow> ident \<Rightarrow> store \<Rightarrow> store" where
  "receiveHuddleRinging roomId huddleId callerId s =
     (if callerId = userId s then s
      else if isMuted (Option.bind (rget (s_rooms (state s)) roomId) r_notifications) (now s) then s
      else update (\<lambda>c. c\<lparr>s_huddleRing := Some \<lparr>hr_roomId = roomId, hr_huddleId = huddleId, hr_callerId = callerId\<rparr>\<rparr>)
             (s\<lparr>ringTimer := Some (now s + HUDDLE_RING_MS)\<rparr>))"

definition huddleJoiningSoon :: "ident \<Rightarrow> store \<Rightarrow> store" where
  "huddleJoiningSoon huddleId s = request (WorkspaceCall (CJoiningSoon huddleId)) (dismissHuddleRing s)"

definition settleJoiningSoon :: "ident \<Rightarrow> api_error + unit \<Rightarrow> store \<Rightarrow> store" where
  "settleJoiningSoon huddleId res s = (case res of
     Inr _ \<Rightarrow> s | Inl err \<Rightarrow> throw (WorkspaceCall (CJoiningSoon huddleId)) err s)"

definition setHuddleCallRoom :: "ident option \<Rightarrow> store \<Rightarrow> store" where
  "setHuddleCallRoom roomId = update (\<lambda>c. if s_huddleCallRoomId c = roomId then c else c\<lparr>s_huddleCallRoomId := roomId\<rparr>)"

definition loadFeatures :: "store \<Rightarrow> store" where
  "loadFeatures s = (if s_features (state s) \<noteq> None then s else request (WorkspaceCall CFeatures) s)"

definition settleFeatures :: "api_error + bool \<Rightarrow> store \<Rightarrow> store" where
  "settleFeatures res = update (\<lambda>c. c\<lparr>s_features := Some (case res of Inr b \<Rightarrow> b | Inl err \<Rightarrow> False)\<rparr>)"

definition stopHuddles :: "store \<Rightarrow> store" where
  "stopHuddles s = s\<lparr>ringTimer := None\<rparr>"

definition dispose :: "store \<Rightarrow> store" where
  "dispose s = stopHuddles (disposeCore s)"

lemma newerHuddle_same: "newerHuddle c i = c \<or> newerHuddle c i = i"
  by (auto simp: newerHuddle_def split: option.splits)

lemma newerHuddle_version:
  \<comment> \<open>Of one huddle the version never goes back.\<close>
  "newerHuddle (Some k) (Some h) = Some x \<Longrightarrow> h_id k = h_id h \<Longrightarrow> h_id x = h_id k \<and> h_version x = max (h_version k) (h_version h)"
  by (auto simp: newerHuddle_def split: if_splits)

lemma dismissHuddleRing_wf [store_wf]: "wf s \<Longrightarrow> wf (dismissHuddleRing s)"
  by (simp add: dismissHuddleRing_def chat_wf_def)

lemma huddles_wf [store_wf]:
  "wf s \<Longrightarrow> wf (receiveHuddleUpdated r h s)" "wf s \<Longrightarrow> wf (receiveHuddleRinging r i u s)"
  "wf s \<Longrightarrow> wf (huddleJoiningSoon i s)" "wf s \<Longrightarrow> wf (settleJoiningSoon i ures s)"
  "wf s \<Longrightarrow> wf (setHuddleCallRoom ro s)" "wf s \<Longrightarrow> wf (loadFeatures s)" "wf s \<Longrightarrow> wf (settleFeatures bres s)"
  by (simp_all add: receiveHuddleUpdated_def Let_def dismissHuddleRing_wf patchRoom_wf split: option.splits)
     (simp_all add: receiveHuddleRinging_def huddleJoiningSoon_def settleJoiningSoon_def setHuddleCallRoom_def
       loadFeatures_def settleFeatures_def chat_wf_def dismissHuddleRing_def split: sum.splits)

lemma dispose_wf [store_wf]: "wf s \<Longrightarrow> wf (dispose s)"
  by (simp add: dispose_def stopHuddles_def disposeCore_def)

section \<open>The ring\<close>

definition ring_ok :: "store \<Rightarrow> bool" where
  \<comment> \<open>A call rings exactly while its timer runs, and never for a call of the viewer.\<close>
  "ring_ok s \<longleftrightarrow> (s_huddleRing (state s) = None \<longleftrightarrow> ringTimer s = None) \<and>
     (\<forall>ring. s_huddleRing (state s) = Some ring \<longrightarrow> hr_callerId ring \<noteq> userId s)"

lemma dismiss_ring_ok: "ring_ok (dismissHuddleRing s)"
  by (simp add: ring_ok_def dismissHuddleRing_def)

lemma ringing_ok: "ring_ok s \<Longrightarrow> ring_ok (receiveHuddleRinging r h u s)"
  by (auto simp: ring_ok_def receiveHuddleRinging_def)

lemma updated_ring_ok: "ring_ok s \<Longrightarrow> ring_ok (receiveHuddleUpdated r h s)"
proof -
  assume "ring_ok s"
  then have "ring_ok (patchRoom r f s)" for f by (simp add: ring_ok_def patchRoom_def)
  then show ?thesis by (simp add: receiveHuddleUpdated_def Let_def dismiss_ring_ok split: option.splits)
qed

section \<open>Properties\<close>

text \<open>a call rings exactly while its timer runs, so a ring always ends, and the viewer's own call never rings.\<close>

theorem ring_invariant:
  assumes "ring_ok s"
  shows "ring_ok (receiveHuddleRinging roomId huddleId callerId s) \<and>
    ring_ok (receiveHuddleUpdated roomId huddle s) \<and> ring_ok (dismissHuddleRing s)"
  using assms by (simp_all add: ringing_ok updated_ring_ok dismiss_ring_ok)

theorem ring_invariant_witness:
  "ring_ok (receiveHuddleRinging ''r'' ''h'' ''a'' (createStore ''u'' 0)) \<and>
   ring_ok (receiveHuddleUpdated ''r'' None (createStore ''u'' 0)) \<and> ring_ok (dismissHuddleRing (createStore ''u'' 0))"
  by (rule ring_invariant) (simp add: ring_ok_def createStore_def initialState_def)

text \<open>of one huddle the version shown never goes back, but the end of a huddle is not remembered: an older version
  that arrives after it brings the ended huddle back.\<close>

theorem huddle_versions:
  "newerHuddle (Some k) (Some h) =
     (if h_id k = h_id h \<and> h_version h \<le> h_version k then Some k else Some h) \<and>
   newerHuddle (newerHuddle (Some k) None) (Some k) = Some k"
  by (simp add: newerHuddle_def)

end
