(* ===== verification/EventStore.thy ===== *)
theory EventStore
  imports RoomStore HistoryStore MessageActions WorkspaceStore HuddleStore
begin

text \<open>
  The events of the WebSocket applied to the store (\<open>web/lib/chat/store/events.ts\<close>): one case per event
  type, in the order of the code.
\<close>

definition memberJoined :: "ident \<Rightarrow> ident \<Rightarrow> user_profile \<Rightarrow> store \<Rightarrow> store" where
  "memberJoined workspaceId roomId user s =
     (let s1 = (case rget (s_members (state s)) workspaceId of
                  None \<Rightarrow> s
                | Some e \<Rightarrow> if \<not> some_in (\<lambda>m. u_id (mb_user m) = u_id user) (ld_list e)
                            then reloadMembers workspaceId s else s)
      in if u_id user = userId s1 then joinedRoom workspaceId roomId s1
         else
           let s2 = (if rget (s_roomMembers (state s1)) roomId \<noteq> None then reloadRoomMembers roomId s1 else s1)
           in if Option.bind (rget (s_rooms (state s2)) roomId) r_member_count \<noteq> None
              then refreshRoom roomId s2 else s2)"

definition memberLeft :: "ident \<Rightarrow> ident \<Rightarrow> store \<Rightarrow> store" where
  "memberLeft roomId user s =
     (if user = userId s then s
      else
        let s1 = patchMembers roomId (filter (\<lambda>m. u_id (mb_user m) \<noteq> user)) s;
            s2 = (if Option.bind (rget (s_rooms (state s1)) roomId) r_member_count \<noteq> None
                  then refreshRoom roomId s1 else s1)
        in removeTyping roomId user s2)"

definition setRole :: "ident \<Rightarrow> role \<Rightarrow> member list \<Rightarrow> member list" where
  "setRole user role ms =
     (if some_in (\<lambda>m. u_id (mb_user m) = user \<and> mb_role m \<noteq> role) ms
      then map (\<lambda>m. if u_id (mb_user m) = user then m\<lparr>mb_role := role\<rparr> else m) ms else ms)"

definition roleChanged :: "ident \<Rightarrow> ident \<Rightarrow> role \<Rightarrow> store \<Rightarrow> store" where
  "roleChanged workspaceId user role s =
     update (\<lambda>c. c\<lparr>
         s_roomMembers := rmap (\<lambda>roomId entry.
             if map_option r_workspace_id (rget (s_rooms c) roomId) \<noteq> Some workspaceId then entry
             else entry\<lparr>ld_list := setRole user role (ld_list entry)\<rparr>) (s_roomMembers c),
         s_workspaces := (s_workspaces c)\<lparr>ld_list :=
             (if user = userId s
              then map (\<lambda>w. if w_id w = workspaceId then w\<lparr>w_my_role := role\<rparr> else w) (ld_list (s_workspaces c))
              else ld_list (s_workspaces c))\<rparr>\<rparr>)
       (patchWorkspaceMembers workspaceId (setRole user role) s)"

definition setPresence :: "ident \<Rightarrow> presence \<Rightarrow> member loaded \<Rightarrow> member loaded" where
  "setPresence user p entry =
     (if \<not> some_in (\<lambda>m. u_id (mb_user m) = user \<and> mb_presence m \<noteq> p) (ld_list entry) then entry
      else entry\<lparr>ld_list := map (\<lambda>m. if u_id (mb_user m) = user then m\<lparr>mb_presence := p\<rparr> else m) (ld_list entry)\<rparr>)"

definition presenceRooms :: "ident \<Rightarrow> presence \<Rightarrow> (ident, room) jsrec \<Rightarrow> (ident, room) jsrec" where
  "presenceRooms user p rooms = fold (\<lambda>room acc.
     case r_dm_peer room of
       None \<Rightarrow> acc
     | Some peer \<Rightarrow> if dp_id peer \<noteq> user \<or> dp_presence peer = p then acc
                    else rput (r_id room) (room\<lparr>r_dm_peer := Some (peer\<lparr>dp_presence := p\<rparr>)\<rparr>) acc)
     (rvals rooms) rooms"

definition presenceChanged :: "ident \<Rightarrow> presence \<Rightarrow> store \<Rightarrow> store" where
  "presenceChanged user p = update (\<lambda>c. c\<lparr>
     s_rooms := presenceRooms user p (s_rooms c),
     s_roomMembers := rmap (\<lambda>_. setPresence user p) (s_roomMembers c),
     s_members := rmap (\<lambda>_. setPresence user p) (s_members c)\<rparr>)"

definition reactionAdded :: "ident \<Rightarrow> activity_item \<Rightarrow> store \<Rightarrow> store" where
  "reactionAdded workspaceId item = patchActivityItems workspaceId (\<lambda>items key.
     case parseActivityListKey key of (flt, unreadOnly) \<Rightarrow>
       if belongsTo item flt unreadOnly then insertActivity items item else items)"

definition threadFollowed :: "ident \<Rightarrow> ident \<Rightarrow> int \<Rightarrow> store \<Rightarrow> store" where
  "threadFollowed workspaceId rootId position s = reloadThreads workspaceId
     (patchThread rootId (\<lambda>t. if th_lastReadThreadSeq t \<noteq> None then t
                              else t\<lparr>th_lastReadThreadSeq := Some position\<rparr>) s)"

fun applyEvent :: "server_event \<Rightarrow> store \<Rightarrow> store" where
  "applyEvent (EvMessageCreated m) s = receiveActivityMessage m (receiveMessage m True s)"
| "applyEvent (EvMessageUpdated m) s = receiveActivityChange m (receiveMessage m False s)"
| "applyEvent (EvMessageDeleted m) s = receiveActivityChange m (receiveMessage m False s)"
| "applyEvent (EvMemberJoined w r user) s = memberJoined w r user s"
| "applyEvent (EvMemberLeft w r user) s = memberLeft r user s"
| "applyEvent (EvRoomUpdated w r name isDefault archivedAt) s =
     patchRoom r (\<lambda>room. room\<lparr>r_name := Some name, r_is_default := isDefault, r_archived_at := archivedAt\<rparr>) s"
| "applyEvent (EvRoomDeleted w r) s = roomDeleted w r RemovedByOther s"
| "applyEvent (EvHuddleUpdated r huddle) s = receiveHuddleUpdated r huddle s"
| "applyEvent (EvHuddleRinging r huddleId callerId) s = receiveHuddleRinging r huddleId callerId s"
| "applyEvent (EvHuddleLeft r huddleId conn reason) s = s"
| "applyEvent (EvRoomMemberRemoved w r reason) s = reloadActivity w (removedFromRoom w r reason s)"
| "applyEvent (EvRoomRead w r read) s =
     roomReadAdvanced r (rs_last_read_user_seq read)
       (patchRoom r (\<lambda>room. applyReadToRoom room (rs_last_read_seq read) (rs_last_read_user_seq read) (rs_mention_count read)) s)"
| "applyEvent (EvWorkspaceUpdated w name policy) s =
     update (\<lambda>c. c\<lparr>s_workspaces := (s_workspaces c)\<lparr>ld_list :=
       map (\<lambda>x. if w_id x = w then x\<lparr>w_name := name, w_invite_policy := policy\<rparr> else x) (ld_list (s_workspaces c))\<rparr>\<rparr>) s"
| "applyEvent (EvWorkspaceMemberRemoved w user reason) s =
     (let s1 = patchWorkspaceMembers w (filter (\<lambda>m. u_id (mb_user m) \<noteq> user)) s
      in if user = userId s1 then removedFromWorkspace w reason s1 else s1)"
| "applyEvent (EvWorkspaceRoleChanged w user role) s = roleChanged w user role s"
| "applyEvent (EvPresenceChanged user p) s = presenceChanged user p s"
| "applyEvent (EvMemberStatusChanged w user away status) s = patchMemberSettings w user away status s"
| "applyEvent (EvMemberHuddleChanged w user inHuddle) s = patchMemberHuddle w user inHuddle s"
| "applyEvent (EvTypingStarted w r rootId user) s =
     (case rootId of Some root \<Rightarrow> receiveThreadTyping root user s | None \<Rightarrow> receiveTyping r user s)"
| "applyEvent (EvThreadRead w r root position) s = advanceThreadRead r root position s"
| "applyEvent (EvSavedUpdated item) s = receiveSaved item s"
| "applyEvent (EvThreadNotificationsUpdated w r root notify) s =
     reloadActivity w (patchThreadList w (\<lambda>list. applyThreadNotify list root notify) s)"
| "applyEvent (EvNotificationsUpdated w level) s = reloadActivity w (putLevel w (Some level) s)"
| "applyEvent (EvRoomNotificationsUpdated w r n) s =
     reloadActivity w (patchRoom r (\<lambda>room. room\<lparr>r_notifications := Some n\<rparr>) s)"
| "applyEvent (EvActivityReactionAdded w item) s = reactionAdded w item s"
| "applyEvent (EvActivityReactionRemoved w itemId) s =
     patchActivityItems w (\<lambda>items key. removeActivity items (\<lambda>i. ac_id i = itemId)) s"
| "applyEvent (EvThreadFollowed w r root position) s = threadFollowed w root position s"

section \<open>The invariant\<close>

lemma memberJoined_wf: "wf s \<Longrightarrow> wf (memberJoined w r u s)"
  by (auto simp: memberJoined_def Let_def workspace_requests_wf room_members_wf refreshRoom_wf split: option.splits)

lemma memberLeft_wf: "wf s \<Longrightarrow> wf (memberLeft r u s)"
  by (simp add: memberLeft_def Let_def removeTyping_wf patchMembers_wf refreshRoom_wf)

lemma roleChanged_wf: "wf s \<Longrightarrow> wf (roleChanged w u ro s)"
  using patchWorkspaceMembers_wf[of s w "setRole u ro"] by (simp add: roleChanged_def chat_wf_def)

lemma presenceChanged_wf: "wf s \<Longrightarrow> wf (presenceChanged u p s)"
  by (simp add: presenceChanged_def chat_wf_def)

lemma threadFollowed_wf: "wf s \<Longrightarrow> wf (threadFollowed w r n s)"
  by (auto simp: threadFollowed_def reloadThreads_wf intro!: reloadThreads_wf patchThread_wf)

lemma applyEvent_wf [store_wf]:
  assumes "wf s"
  shows "wf (applyEvent e s)"
proof (cases e)
  case (EvActivityReactionAdded w item)
  then show ?thesis using assms
    by (auto simp: reactionAdded_def split: prod.splits intro!: patchActivityItems_wf insertActivity_wf)
next
  case (EvActivityReactionRemoved w i)
  then show ?thesis using assms by (auto intro!: patchActivityItems_wf removeActivity_wf)
next
  case (EvThreadNotificationsUpdated w r root n)
  then show ?thesis using assms by (auto intro!: reloadActivity_wf patchThreadList_wf applyThreadNotify_ok)
next
  case (EvWorkspaceUpdated w n p)
  then show ?thesis using assms by (simp add: chat_wf_def)
qed (simp_all add: assms Let_def receiveActivityMessage_wf receiveActivityChange_wf receiveMessage_wf memberJoined_wf
    memberLeft_wf patchRoom_wf roomDeleted_wf huddles_wf reloadActivity_wf removedFromRoom_wf roomReadAdvanced_wf
    removedFromWorkspace_wf patchWorkspaceMembers_wf roleChanged_wf presenceChanged_wf patchMemberSettings_wf
    patchMemberHuddle_wf receiveThreadTyping_wf receiveTyping_wf advanceThreadRead_wf receiveSaved_wf putLevel_wf
    threadFollowed_wf split: option.splits)

end
