(* ===== verification/StoreSteps.thy ===== *)
theory StoreSteps
  imports EventStore
begin

text \<open>
  The store as a whole (\<open>web/lib/chat/store/chat-store.ts\<close>): everything that can happen to it as a step
  relation. A step is an action of the screen, an event of the WebSocket, the answer to any request in
  flight, a continuation whose tasks have ended, or a timer. Answers come in any order and with any outcome,
  so the relation covers every interleaving of the asynchronous functions.
\<close>

section \<open>Actions\<close>

inductive action :: "(store \<Rightarrow> store) \<Rightarrow> bool" where
  "action (setActiveWorkspace wo)" | "action (forgetRemovedWorkspace w)" | "action (setConnection v)"
| "action loadWorkspaces" | "action (createWorkspace n)" | "action (updateWorkspace w)"
| "action (loadMembers w)" | "action (reloadMembers w)" | "action (changeMemberRole w u ro)"
| "action (removeMember w u)" | "action (transferOwnership w u)"
| "action (setAway b)" | "action (setStatus w st)"
| "action (loadInvites w)" | "action (createInvite w)" | "action (revokeInvite w i)" | "action (acceptInvite code)"
| "action (loadNotificationLevel w)" | "action (setNotificationLevel w l)" | "action (setRoomNotifications r n)"
| "action (loadActivity w flt b)" | "action (loadMoreActivity w flt b)" | "action (loadActivityUnreadCount w)"
| "action (reloadActivity w)"
| "action (setFocus fo)" | "action (openPins r)"
| "action (loadSaved w tab)" | "action (loadMoreSaved w tab)" | "action (syncSaved w)" | "action (toggleSaved w r m)"
| "action (moveSaved w m tab)" | "action (saveMessage r m)" | "action (removeSaved w m)"
| "action (loadThreads w)" | "action (reloadThreads w)" | "action (loadThreadIfNeeded r root)" | "action (reloadThread r root)"
| "action (jumpToThreadMessage r root m)" | "action (loadNewerThread root)" | "action (loadOlderThread root)"
| "action (markThreadRead root)" | "action (setThreadFocus tf)" | "action (setThreadNotifications w r root b)"
| "action dismissHuddleRing" | "action (huddleJoiningSoon h)" | "action (setHuddleCallRoom ro')" | "action loadFeatures"
| "action (openRoom r)" | "action (syncTimeline r)"
| "action (jumpToMessage r m)" | "action (jumpToUnread r)" | "action (loadNewer r)" | "action (loadOlder r)"
| "action (dismissUnread r)"
| "action (sendMessage r input i)" | "action (retryMessage r i)" | "action (discardMessage r i)"
| "action (editMessage r m body)" | "action (reactTo r m emoji)" | "action (togglePin r m)"
| "action (deleteAttachment r m a)" | "action (removeLinkPreview r m p)" | "action (deleteMessage r m)"
| "action (loadRooms w)" | "action (reloadRooms w)" | "action (createRoom w)" | "action (updateRoom r)"
| "action (addRoomMember r u)" | "action (removeRoomMember r u)" | "action (leaveRoom r)" | "action (archiveRoom r)"
| "action (unarchiveRoom r)" | "action (deleteRoom r)" | "action (joinRoom r)" | "action (reloadRoomMembers r)"
| "action dispose"

section \<open>Answers\<close>

text \<open>
  What may follow a request. The premises are what the server documents of its lists, their order aside: each
  pin once and pinned, rows of one tab, one row per followed thread with its counts, each item of the feed
  once, each room once.
\<close>

inductive answers :: "call \<Rightarrow> (store \<Rightarrow> store) \<Rightarrow> bool" where
  "answers (TimelineCall (CListChanges r k p)) (settleListChanges r p res)"
| "answers (TimelineCall (CListLatest r p)) (settleListLatest r p res)"
| "answers (TimelineCall (CGetRoomInfo r)) (settleGetRoomInfo r rres)"
| "answers (TimelineCall (COpenCached r)) (settleOpenCached r rres)"
| "answers (TimelineCall (COpenFresh r)) (settleOpenFresh r pres)"
| "answers (TimelineCall (CAround r m)) (settleAround r m res)"
| "answers (TimelineCall (CAfterUnread r n)) (settleAfterUnread r n res)"
| "answers (TimelineCall (CNewer r n)) (settleNewer r res)"
| "answers (TimelineCall (COlder r n)) (settleOlder r res)"
| "(\<And>l. lres = Inr l \<Longrightarrow> threads_ok l) \<Longrightarrow> answers (ThreadCall (CListThreads w)) (settleListThreads w lres)"
| "answers (ThreadCall (CThreadPage r root)) (settleThreadPage r root tres)"
| "answers (ThreadCall (CThreadAround r root m)) (settleThreadAround root m tres)"
| "answers (ThreadCall (CThreadNewer r root n)) (settleThreadNewer root tres)"
| "answers (ThreadCall (CThreadOlder r root n)) (settleThreadOlder root tres)"
| "answers (ThreadCall (CMarkThreadRead r root n)) (settleMarkThreadRead r root mtres)"
| "answers (ThreadCall (CSetThreadNotify w r root b prev)) (settleThreadNotify w r root b prev ures)"
| "answers (SavedCall (CSavedCount w)) (settleSavedCount w sres)"
| "(\<And>p. sres = Inr p \<Longrightarrow> page_of_tab tab p) \<Longrightarrow> answers (SavedCall (CSavedTab w tab)) (settleSavedTab w tab sres)"
| "(\<And>p. sres = Inr p \<Longrightarrow> page_of_tab tab p) \<Longrightarrow> answers (SavedCall (CSavedMore w tab cur)) (settleSavedMore w tab sres)"
| "answers (SavedCall (CSavedChanges w k)) (settleSavedChanges w k sres)"
| "answers (SavedCall (CSaveToggle r m)) (settleSaveToggle r m ires)"
| "answers (SavedCall (CSaveMessage r m)) (settleSaveMessage r m ires)"
| "answers (SavedCall (CMoveSaved w m tab)) (settleMoveSaved w m tab ires)"
| "answers (SavedCall (CRemoveSaved w m v)) (settleRemoveSaved w m v ures)"
| "(\<And>p. ares = Inr p \<Longrightarrow> feed_wf (ap_items p)) \<Longrightarrow> answers (ActivityCall (CListActivity w key)) (settleListActivity w key ares)"
| "answers (ActivityCall (CMoreActivity w key cur')) (settleMoreActivity w key ares)"
| "answers (ActivityCall (CActivityCount w)) (settleActivityCount w nres)"
| "answers (MessageCall (CSend r i n')) (settleSend r n' msg)"
| "answers (MessageCall (CEditMessage r m body)) (settleMessage (CEditMessage r m body) msg)"
| "answers (MessageCall (CReact r m emoji b prevm)) (settleReact r m emoji b prevm msg)"
| "answers (MessageCall (CPin r m b)) (settleMessage (CPin r m b) msg)"
| "answers (MessageCall (CDeleteAttachment r m a)) (settleMessage (CDeleteAttachment r m a) msg)"
| "answers (MessageCall (CRemovePreview r m p' prevm)) (settleRemovePreview r m p' prevm ures)"
| "answers (MessageCall (CDeleteMessage r m)) (settleDeleteMessage r m ures)"
| "(\<And>rs n. rsres = Inr (rs, n) \<Longrightarrow> distinct (map r_id rs)) \<Longrightarrow> answers (RoomCall (CListRooms w)) (settleListRooms w rsres)"
| "answers (RoomCall (CListRoomMembers r)) (settleListRoomMembers r msres)"
| "answers (RoomCall (CGetJoined w r)) (settleGetJoined w r rres)"
| "answers (RoomCall (CCreateRoom w)) (settleCreateRoom w rres)"
| "answers (RoomCall (CUpdateRoom r)) (settlePutRoom (CUpdateRoom r) rres)"
| "answers (RoomCall (CArchiveRoom r)) (settlePutRoom (CArchiveRoom r) rres)"
| "answers (RoomCall (CUnarchiveRoom r)) (settlePutRoom (CUnarchiveRoom r) rres)"
| "answers (RoomCall (CJoinRoom r)) (settlePutRoom (CJoinRoom r) rres)"
| "answers (RoomCall (CAddRoomMember r u)) (settleAddRoomMember r u ures)"
| "answers (RoomCall (CRemoveRoomMember r u)) (settleRemoveRoomMember r u ures)"
| "answers (RoomCall (CLeaveRoom r)) (settleLeaveRoom r ures)"
| "answers (RoomCall (CDeleteRoom r wo)) (settleDeleteRoom r wo ures)"
| "(\<And>ms. psres = Inr ms \<Longrightarrow> pins_wf ms) \<Longrightarrow> answers (RoomCall (CListPins r)) (settleListPins r psres)"
| "answers (RoomCall (CMarkRead r n)) (settleMarkRead r rdres)"
| "answers (WorkspaceCall CListWorkspaces) (settleListWorkspaces wsres)"
| "answers (WorkspaceCall (CCreateWorkspace name)) (settleCreateWorkspace name wres)"
| "answers (WorkspaceCall (CUpdateWorkspace w)) (settleUpdateWorkspace w wres)"
| "answers (WorkspaceCall (CListMembers w)) (settleListMembers w msres)"
| "answers (WorkspaceCall (CChangeRole w u ro)) (settleChangeRole w u ro mres)"
| "answers (WorkspaceCall (CRemoveMember w u)) (settleRemoveMember w u ures)"
| "answers (WorkspaceCall (CTransferOwnership w u)) (settleTransferOwnership w u ures)"
| "answers (WorkspaceCall (CListInvites w)) (settleListInvites w isres)"
| "answers (WorkspaceCall (CCreateInvite w)) (settleCreateInvite w ivres)"
| "answers (WorkspaceCall (CRevokeInvite w iv)) (settleRevokeInvite w iv ures)"
| "answers (WorkspaceCall (CAcceptInvite code)) (settleAcceptInvite code wres)"
| "answers (WorkspaceCall (CGetLevel w)) (settleGetLevel w lvres)"
| "answers (WorkspaceCall (CSetLevel w lo)) (settleSetLevel w lo ures)"
| "answers (WorkspaceCall (CSetRoomNotify r nprev)) (settleSetRoomNotify r nprev rnres)"
| "answers (WorkspaceCall (CSetAway b)) (settleSetAway b ures)"
| "answers (WorkspaceCall (CSetStatus w sto)) (settleSetStatus w sto ures)"
| "answers (WorkspaceCall (CJoiningSoon h)) (settleJoiningSoon h ures)"
| "answers (WorkspaceCall CFeatures) (settleFeatures bres)"

section \<open>Continuations, timers, steps\<close>

fun runCont :: "cont \<Rightarrow> store \<Rightarrow> store" where
  "runCont (ContReloadRooms w) s = loadRooms w s"
| "runCont (ContReloadThreads w) s = loadThreads w s"
| "runCont (ContReloadThread r root) s = loadThread r root s"
| "runCont (ContReloadMembers w) s = loadMembers w s"
| "runCont (ContOpenSynced r) s = openedRoom r s"
| "runCont (ContFinish k) s = finish_once k s"
| "runCont (ContJumpOpen r m) s = contJumpOpen r m s"
| "runCont (ContJumpAround r m) s = contJumpAround r m s"
| "runCont (ContJumpThread r root m) s = contJumpThread r root m s"
| "runCont (ContSavedFailed c err) s = contSavedFailed c err s"

fun fireTyping :: "typing_key \<Rightarrow> store \<Rightarrow> store" where
  "fireTyping (TkRoom r u) s = removeTyping r u s"
| "fireTyping (TkThread root u) s = removeThreadTyping root u s"

inductive store_step :: "store \<Rightarrow> store \<Rightarrow> bool" where
  act: "action f \<Longrightarrow> store_step s (f s)"
| event: "store_step s (applyEvent e s)"
| answer: "c \<in> set (calls s) \<Longrightarrow> answers c f \<Longrightarrow> store_step s (f (drop_call c s))"
| resume: "ready s = k # ks \<Longrightarrow> store_step s (runCont k (s\<lparr>ready := ks\<rparr>))"
| tick: "now s \<le> t \<Longrightarrow> store_step s (s\<lparr>now := t\<rparr>)"
| typing_timer: "rget (typingTimers s) k = Some t \<Longrightarrow> t \<le> now s \<Longrightarrow> store_step s (fireTyping k s)"
| mute_timer: "muteTimer s = Some t \<Longrightarrow> t \<le> now s \<Longrightarrow> store_step s (fireMuteTimer s)"
| ring_timer: "ringTimer s = Some t \<Longrightarrow> t \<le> now s \<Longrightarrow> store_step s (dismissHuddleRing s)"
| send_timer: "rget (sendLoops s) r = Some (q, n) \<Longrightarrow> store_step s (sendTimeout r n s)"

inductive reachable :: "ident \<Rightarrow> store \<Rightarrow> bool" for user where
  start: "reachable user (createStore user t)"
| step: "reachable user s \<Longrightarrow> store_step s s' \<Longrightarrow> reachable user s'"

inductive_cases store_stepE: "store_step s s'"

section \<open>Every step keeps the invariant\<close>

lemma drop_call_state [simp]: "state (drop_call c s) = state s"
  by (simp add: drop_call_def)

lemma action_wf: "action f \<Longrightarrow> wf s \<Longrightarrow> wf (f s)"
  by (induction rule: action.induct) (auto intro: store_wf)

lemma answers_wf: "answers c f \<Longrightarrow> wf s \<Longrightarrow> wf (f s)"
  by (induction rule: answers.induct) (auto intro: store_wf)

lemma runCont_wf: "wf s \<Longrightarrow> wf (runCont k s)"
  by (cases k) (simp_all add: loadRooms_wf loadThreads_wf loadThread_wf loadMembers_wf openedRoom_wf contJumpOpen_wf
      contJumpAround_wf contJumpThread_wf contSavedFailed_wf)

lemma fireTyping_wf: "wf s \<Longrightarrow> wf (fireTyping k s)"
  by (cases k) (simp_all add: removeTyping_wf removeThreadTyping_wf)

lemma store_step_wf: "store_step s s' \<Longrightarrow> wf s \<Longrightarrow> wf s'"
  by (erule store_stepE)
     (auto intro: action_wf answers_wf applyEvent_wf runCont_wf fireTyping_wf fireMuteTimer_wf dismissHuddleRing_wf sendTimeout_wf)

lemma reachable_store_wf: "reachable user s \<Longrightarrow> wf s"
  by (induction rule: reachable.induct) (auto intro: createStore_wf store_step_wf)

section \<open>Properties\<close>

text \<open>C4: in every reachable state of the store, under every interleaving of actions, events, answers (also failed ones)
  and timers, each timeline and each thread is ordered by \<open>seq\<close> without repetitions; the pins of a room are distinct, all
  pinned and not deleted; each tab of the saved messages holds distinct rows of its own state; a followed thread has one
  row, whose count is the difference of its two positions; no feed of the activity holds an item twice; and no sidebar lists a room twice. The pages of the server are
  taken to have this themselves (the premises of \<open>answers\<close>); their order is not assumed, nor is it claimed of the lists.\<close>

theorem every_state_well_formed:
  assumes "reachable user s"
  shows "chat_wf (state s)"
  using assms by (rule reachable_store_wf)

theorem every_state_well_formed_witness:
  "chat_wf (state (applyEvent (EvMessageCreated (sample_message ''m'' 1 1)) (openRoom ''r'' (createStore ''u'' 0))))"
  by (rule every_state_well_formed[of "''u''"]) (blast intro: reachable.intros store_step.intros action.intros)

text \<open>whoever is shown as typing does not stay for good: once the time of the entry has come the step that takes them
  off is enabled.\<close>

theorem typing_entry_expires:
  assumes "typing_ok s" "t \<in> set (typers (state s) roomId)" "ty_expiresAt t \<le> now s"
  shows "\<exists>s'. store_step s s' \<and> typing_ok s' \<and> u_id (ty_user t) \<notin> (\<lambda>x. u_id (ty_user x)) ` set (typers (state s') roomId)"
proof (intro exI conjI)
  let ?k = "TkRoom roomId (u_id (ty_user t))"
  have "rget (typingTimers s) ?k = Some (ty_expiresAt t)" using assms(1,2) by (simp add: typing_ok_def)
  then show "store_step s (fireTyping ?k s)" using assms(3) by (rule store_step.typing_timer)
  show "typing_ok (fireTyping ?k s)" using assms(1) by (simp add: removeTyping_ok)
  show "u_id (ty_user t) \<notin> (\<lambda>x. u_id (ty_user x)) ` set (typers (state (fireTyping ?k s)) roomId)"
    by (auto simp: typers_remove)
qed

theorem typing_entry_expires_witness:
  "let s = (receiveTyping ''r'' (sample_user ''a'') (createStore ''u'' 0))\<lparr>now := 6000\<rparr>;
       t = \<lparr>ty_user = sample_user ''a'', ty_expiresAt = 6000\<rparr>
   in \<exists>s'. store_step s s' \<and> typing_ok s' \<and> u_id (ty_user t) \<notin> (\<lambda>x. u_id (ty_user x)) ` set (typers (state s') ''r'')"
proof -
  have "typing_ok (createStore ''u'' 0)" by (simp add: typing_ok_def typers_def createStore_def initialState_def)
  then have "typing_ok (receiveTyping ''r'' (sample_user ''a'') (createStore ''u'' 0))" by (rule receiveTyping_ok)
  then have "typing_ok ((receiveTyping ''r'' (sample_user ''a'') (createStore ''u'' 0))\<lparr>now := 6000\<rparr>)"
    by (simp add: typing_ok_def)
  then show ?thesis
    unfolding Let_def
    by (rule typing_entry_expires)
       (simp_all add: typers_receive, simp_all add: createStore_def sample_user_def TYPING_TTL_MS_def)
qed

end
