(* ===== verification/SendOrder.thy ===== *)
theory SendOrder
  imports SendStore
begin

text \<open>
  The send queue of a room never stalls: every pending message is in the queue of its room, and a queue with
  messages has a loop whose request for the first of them is in flight. First what the rest of the store
  leaves alone of it (\<open>same_send\<close>), then the invariant (\<open>send_ok\<close>) and its preservation.
\<close>

section \<open>What receiving a message leaves alone\<close>

definition sends :: "store \<Rightarrow> call list" where
  "sends s = filter (\<lambda>c. \<exists>r i n. c = MessageCall (CSend r i n)) (calls s)"

definition same_send :: "store \<Rightarrow> store \<Rightarrow> bool" where
  "same_send s s' \<longleftrightarrow> sendQueues s' = sendQueues s \<and> queueHeap s' = queueHeap s \<and> sendLoops s' = sendLoops s \<and>
     nextId s' = nextId s \<and> sends s' = sends s \<and> userId s' = userId s \<and>
     (\<forall>r. \<exists>P. outgoing_of s' r = filter P (outgoing_of s r))"

lemma same_send_refl: "same_send s s"
  by (auto simp: same_send_def intro: exI[of _ "\<lambda>_. True"])

lemma outgoing_update: "s_outgoing (f (state s)) = s_outgoing (state s) \<Longrightarrow> outgoing_of (update f s) r = outgoing_of s r"
  by (simp add: outgoing_of_def)

lemma same_send_update: "same_send a s \<Longrightarrow> s_outgoing (f (state s)) = s_outgoing (state s) \<Longrightarrow> same_send a (update f s)"
  by (simp add: same_send_def outgoing_update sends_def)

lemma same_send_request:
  "same_send a s \<Longrightarrow> (\<And>r i n. c \<noteq> MessageCall (CSend r i n)) \<Longrightarrow> same_send a (request c s)"
  by (auto simp: same_send_def sends_def outgoing_of_def)

lemma same_send_if: "same_send a x \<Longrightarrow> same_send a y \<Longrightarrow> same_send a (if b then x else y)"
  by simp

lemma same_send_once: "same_send a s \<Longrightarrow> (same_send a s \<Longrightarrow> same_send a (run s)) \<Longrightarrow> same_send a (once k run s)"
  by (auto simp: once_def Let_def same_send_def sends_def outgoing_of_def)

lemma same_send_fold: "same_send a s \<Longrightarrow> (\<And>x s. same_send a s \<Longrightarrow> same_send a (f x s)) \<Longrightarrow> same_send a (fold f xs s)"
  by (induction xs arbitrary: s) auto

lemma same_send_fields:
  "same_send a s \<Longrightarrow> same_send a (s\<lparr>typingTimers := tt\<rparr>)" "same_send a s \<Longrightarrow> same_send a (s\<lparr>readTargets := rt\<rparr>)"
  "same_send a s \<Longrightarrow> same_send a (s\<lparr>reading := rd\<rparr>)" "same_send a s \<Longrightarrow> same_send a (s\<lparr>syncing := sy\<rparr>)"
  "same_send a s \<Longrightarrow> same_send a (settle_task t s)"
  by (simp_all add: same_send_def sends_def outgoing_of_def)

lemma same_send_patches:
  assumes "same_send a s"
  shows "same_send a (patchRoom r f1 s)" "same_send a (patchTimeline r f2 s)" "same_send a (patchThread r f3 s)"
    "same_send a (patchThreadList r f4 s)" "same_send a (patchRoomList r f5 s)" "same_send a (patchActivity r f6 s)"
  using assms
  by (auto simp: patchRoom_def patchTimeline_def patchThread_def patchThreadList_def patchRoomList_def patchActivity_def
      Let_def intro!: same_send_update)

lemma same_send_read: "same_send a s \<Longrightarrow> same_send a (requestMarkRead r n s)"
  by (auto simp: requestMarkRead_def readNext_def endRead_def Let_def split: option.splits
      intro!: same_send_fields same_send_request)

lemma same_send_activityRead: "same_send a s \<Longrightarrow> same_send a (activityRead w f s)"
  by (auto simp: activityRead_def Let_def patchActivityItems_def loadActivityUnreadCount_def split: option.splits
      intro!: same_send_patches same_send_once same_send_request)

lemma same_send_thread_read: "same_send a s \<Longrightarrow> same_send a (advanceThreadRead r t n s)"
  by (auto simp: advanceThreadRead_def Let_def split: option.splits
      intro!: same_send_activityRead same_send_patches)

lemma same_send_typing:
  "same_send a s \<Longrightarrow> same_send a (removeTyping r u s)" "same_send a s \<Longrightarrow> same_send a (removeThreadTyping r u s)"
  unfolding removeTyping_def removeThreadTyping_def
  by (rule same_send_update[OF same_send_fields(1)]; simp add: Let_def split: option.splits)+

lemma same_send_absorbReply: "same_send a s \<Longrightarrow> same_send a (absorbReply m r c s)"
  unfolding absorbReply_def Let_def
  by (auto split: option.splits intro!: same_send_typing same_send_thread_read same_send_patches)

lemma same_send_absorbRoot: "same_send a s \<Longrightarrow> same_send a (absorbRoot m s)"
  unfolding absorbRoot_def Let_def by (auto split: option.splits intro!: same_send_patches)

lemma same_send_threads: "same_send a s \<Longrightarrow> same_send a (absorbThreadMessages ms c s)"
  unfolding absorbThreadMessages_def
  by (rule same_send_fold) (auto split: option.splits intro!: same_send_absorbRoot same_send_absorbReply)

lemma same_send_pins: "same_send a s \<Longrightarrow> same_send a (absorbPins ms s)"
  unfolding absorbPins_def absorbRoomPins_def
  by (rule same_send_fold) (auto simp: Let_def split: option.splits prod.splits intro!: same_send_update)

lemma same_send_reflect: "same_send a s \<Longrightarrow> same_send a (reflectChangeInRoom m s)"
  unfolding reflectChangeInRoom_def Let_def refreshRoom_def
  by (auto intro!: same_send_once same_send_request same_send_patches)

lemma same_send_top: "same_send a s \<Longrightarrow> same_send a (roomToTop m c p s)"
  by (auto simp: roomToTop_def split: option.splits intro!: same_send_patches)

lemma outgoing_patch:
  "outgoing_of (patchOutgoing r f s) r' = (if r = r' then f (outgoing_of s r) else outgoing_of s r')"
  by (auto simp: patchOutgoing_def outgoing_of_def Let_def split: option.splits)

lemma sends_patch [simp]: "sends (patchOutgoing r f s) = sends s"
  by (simp add: sends_def patchOutgoing_def)

lemma patchOutgoing_same [simp]:
  "sendQueues (patchOutgoing r f s) = sendQueues s" "queueHeap (patchOutgoing r f s) = queueHeap s"
  "sendLoops (patchOutgoing r f s) = sendLoops s" "nextId (patchOutgoing r f s) = nextId s"
  "calls (patchOutgoing r f s) = calls s" "userId (patchOutgoing r f s) = userId s"
  by (simp_all add: patchOutgoing_def)

lemma same_send_outgoing: "same_send a s \<Longrightarrow> same_send a (patchOutgoing r (filter Q) s)"
proof -
  assume a: "same_send a s"
  have "\<exists>P. outgoing_of (patchOutgoing r (filter Q) s) r' = filter P (outgoing_of a r')" for r'
  proof -
    obtain P where P: "outgoing_of s r' = filter P (outgoing_of a r')"
      using a unfolding same_send_def by blast
    have "filter Q (filter P xs) = filter (\<lambda>x. P x \<and> Q x) xs" for xs
      by (induction xs) auto
    with P show ?thesis by (auto simp: outgoing_patch)
  qed
  with a show ?thesis by (simp add: same_send_def)
qed

lemma same_send_shared: "same_send a s \<Longrightarrow> same_send a (receiveShared m c s)"
  unfolding receiveShared_def Let_def
  by (intro same_send_pins same_send_threads same_send_if same_send_typing same_send_top same_send_patches
      same_send_reflect same_send_outgoing) auto

lemma same_send_after: "same_send a s \<Longrightarrow> same_send a (afterNewMessages r p added s)"
  by (auto simp: afterNewMessages_def Let_def split: option.splits intro!: same_send_read same_send_patches)

lemma same_send_sync: "same_send a s \<Longrightarrow> same_send a (syncTimeline r s)"
  by (auto simp: syncTimeline_def syncOnce_def endSync_def split: option.splits
      intro!: same_send_fields same_send_request)

lemma same_send_receive: "same_send a s \<Longrightarrow> same_send a (receiveMessage m c s)"
proof -
  assume "same_send a s"
  then have 1: "same_send a (receiveShared m c s)" by (rule same_send_shared)
  show ?thesis
  proof (cases "rget (s_timelines (state (receiveShared m c s))) (m_room_id m)")
    case None
    with 1 show ?thesis by (simp add: receiveMessage_def Let_def)
  next
    case (Some t)
    with 1 show ?thesis
      by (auto simp: receiveMessage_def Let_def intro!: same_send_sync same_send_after same_send_patches)
  qed
qed

lemma receive_confirms:
  \<comment> \<open>The answer to one's own message takes it off the list of outgoing messages.\<close>
  assumes "u_id (m_sender m) = userId s" "i \<in> set (outgoing_of (receiveMessage m True s) (m_room_id m))"
  shows "og_clientMsgId i \<noteq> m_client_msg_id m"
proof -
  let ?p = "patchOutgoing (m_room_id m) (filter (\<lambda>o'. og_clientMsgId o' \<noteq> m_client_msg_id m)) s"
  have "same_send ?p (receiveShared m True s)"
    using assms(1) unfolding receiveShared_def Let_def
    by (simp add: same_send_pins same_send_threads same_send_typing same_send_top same_send_patches same_send_refl)
  then have "same_send ?p (receiveMessage m True s)"
    by (cases "rget (s_timelines (state (receiveShared m True s))) (m_room_id m)")
       (auto simp: receiveMessage_def Let_def intro!: same_send_sync same_send_after same_send_patches)
  then obtain P where "outgoing_of (receiveMessage m True s) (m_room_id m) = filter P (outgoing_of ?p (m_room_id m))"
    unfolding same_send_def by blast
  then have "i \<in> set (outgoing_of ?p (m_room_id m))" using assms(2) by simp
  then show ?thesis by (simp add: outgoing_patch)
qed

section \<open>The invariant\<close>

definition queues_ok :: "ident set \<Rightarrow> store \<Rightarrow> bool" where
  \<comment> \<open>A queue belongs to one room; when it holds messages the loop of the room runs, but for the rooms in \<open>R\<close>.\<close>
  "queues_ok R s \<longleftrightarrow> (\<forall>r q. rget (sendQueues s) r = Some q \<longrightarrow> q < nextId s \<and>
     (r \<notin> R \<longrightarrow> queue_at s q \<noteq> [] \<longrightarrow> rget (sendLoops s) r \<noteq> None) \<and>
     (\<forall>r'. rget (sendQueues s) r' = Some q \<longrightarrow> r' = r) \<and>
     (\<forall>r' n. r' \<notin> R \<longrightarrow> rget (sendLoops s) r' = Some (q, n) \<longrightarrow> r' = r))"

definition loops_ok :: "ident set \<Rightarrow> store \<Rightarrow> bool" where
  \<comment> \<open>The loop of a room waits for the request of the first message of the queue it holds.\<close>
  "loops_ok R s \<longleftrightarrow> (\<forall>r q n. r \<notin> R \<longrightarrow> rget (sendLoops s) r = Some (q, n) \<longrightarrow> q < nextId s \<and>
     (\<exists>i rest. queue_at s q = i # rest \<and> MessageCall (CSend r i n) \<in> set (calls s)) \<and>
     (\<forall>r' n'. r' \<notin> R \<longrightarrow> rget (sendLoops s) r' = Some (q, n') \<longrightarrow> r' = r))"

definition sends_ok :: "store \<Rightarrow> bool" where
  "sends_ok s \<longleftrightarrow> (\<forall>r i n. MessageCall (CSend r i n) \<in> set (calls s) \<longrightarrow> n < nextId s \<and>
     (\<forall>r' i'. MessageCall (CSend r' i' n) \<in> set (calls s) \<longrightarrow> r' = r \<and> i' = i))"

definition pending_ok :: "(ident \<times> ident) set \<Rightarrow> store \<Rightarrow> bool" where
  \<comment> \<open>A pending message is in the queue of its room, but for those in \<open>X\<close>.\<close>
  "pending_ok X s \<longleftrightarrow> (\<forall>r. distinct (map og_clientMsgId (outgoing_of s r)) \<and>
     (\<forall>i\<in>set (outgoing_of s r). og_status i = Pending \<longrightarrow> (r, og_clientMsgId i) \<notin> X \<longrightarrow>
        (\<exists>q. rget (sendQueues s) r = Some q \<and> og_clientMsgId i \<in> set (queue_at s q))))"

definition send_inv :: "ident set \<Rightarrow> (ident \<times> ident) set \<Rightarrow> store \<Rightarrow> bool" where
  "send_inv R X s \<longleftrightarrow> queues_ok R s \<and> loops_ok R s \<and> sends_ok s \<and> pending_ok X s"

abbreviation send_ok :: "store \<Rightarrow> bool" where
  "send_ok \<equiv> send_inv {} {}"

lemma sends_iff: "MessageCall (CSend r i n) \<in> set (calls s) \<longleftrightarrow> MessageCall (CSend r i n) \<in> set (sends s)"
  by (auto simp: sends_def)

lemma same_send_inv:
  assumes "same_send s s'" "send_inv R X s"
  shows "send_inv R X s'"
proof -
  have f: "sendQueues s' = sendQueues s" "sendLoops s' = sendLoops s" "nextId s' = nextId s" "queueHeap s' = queueHeap s"
    "sends s' = sends s" using assms(1) by (simp_all add: same_send_def)
  have q: "queue_at s' = queue_at s" by (simp add: queue_at_def f fun_eq_iff)
  have c: "MessageCall (CSend r i n) \<in> set (calls s') \<longleftrightarrow> MessageCall (CSend r i n) \<in> set (calls s)" for r i n
    by (simp add: sends_iff f)
  have "pending_ok X s'"
    unfolding pending_ok_def
  proof (intro allI conjI ballI impI)
    fix r
    obtain P where P: "outgoing_of s' r = filter P (outgoing_of s r)" using assms(1) unfolding same_send_def by blast
    have old: "distinct (map og_clientMsgId (outgoing_of s r))" using assms(2) by (simp add: send_inv_def pending_ok_def)
    then show "distinct (map og_clientMsgId (outgoing_of s' r))" by (simp add: P distinct_map_filter)
    fix i assume "i \<in> set (outgoing_of s' r)" "og_status i = Pending" "(r, og_clientMsgId i) \<notin> X"
    then show "\<exists>q. rget (sendQueues s') r = Some q \<and> og_clientMsgId i \<in> set (queue_at s' q)"
      using assms(2) by (auto simp: P f q send_inv_def pending_ok_def)
  qed
  then show ?thesis using assms(2) unfolding send_inv_def queues_ok_def loops_ok_def sends_ok_def f q c by blast
qed

lemma queue_at_put [simp]: "queue_at (s\<lparr>queueHeap := rput q l h\<rparr>) q' = (if q = q' then l else queue_at (s\<lparr>queueHeap := h\<rparr>) q')"
  by (simp add: queue_at_def)

lemma sendable_pending:
  assumes "distinct (map og_clientMsgId (outgoing_of s r))" "i \<in> set (outgoing_of s r)" "og_status i = Pending"
  shows "sendable s r (og_clientMsgId i)"
proof -
  have "List.find (\<lambda>m. og_clientMsgId m = og_clientMsgId i) xs = Some i"
    if "distinct (map og_clientMsgId xs)" "i \<in> set xs" for xs
    using that by (induction xs) auto
  with assms show ?thesis by (simp add: sendable_def)
qed

lemma dropWhile_keeps: "x \<in> set xs \<Longrightarrow> \<not> P x \<Longrightarrow> x \<in> set (dropWhile P xs)"
  by (induction xs) auto

lemma queues_okI:
  assumes "\<And>r q. rget (sendQueues s) r = Some q \<Longrightarrow> q < nextId s"
    and "\<And>r q. rget (sendQueues s) r = Some q \<Longrightarrow> r \<notin> R \<Longrightarrow> queue_at s q \<noteq> [] \<Longrightarrow> rget (sendLoops s) r \<noteq> None"
    and "\<And>r r' q. rget (sendQueues s) r = Some q \<Longrightarrow> rget (sendQueues s) r' = Some q \<Longrightarrow> r' = r"
    and "\<And>r r' q n. rget (sendQueues s) r = Some q \<Longrightarrow> r' \<notin> R \<Longrightarrow> rget (sendLoops s) r' = Some (q, n) \<Longrightarrow> r' = r"
  shows "queues_ok R s"
  using assms unfolding queues_ok_def by blast

lemma queues_okD:
  assumes "queues_ok R s" "rget (sendQueues s) r = Some q"
  shows "q < nextId s" "r \<notin> R \<Longrightarrow> queue_at s q \<noteq> [] \<Longrightarrow> rget (sendLoops s) r \<noteq> None"
    "rget (sendQueues s) r' = Some q \<Longrightarrow> r' = r" "r' \<notin> R \<Longrightarrow> rget (sendLoops s) r' = Some (q, n) \<Longrightarrow> r' = r"
  using assms unfolding queues_ok_def by blast+

lemma loops_okI:
  assumes "\<And>r q n. r \<notin> R \<Longrightarrow> rget (sendLoops s) r = Some (q, n) \<Longrightarrow> q < nextId s"
    and "\<And>r q n. r \<notin> R \<Longrightarrow> rget (sendLoops s) r = Some (q, n) \<Longrightarrow>
      \<exists>i rest. queue_at s q = i # rest \<and> MessageCall (CSend r i n) \<in> set (calls s)"
    and "\<And>r r' q n n'. r \<notin> R \<Longrightarrow> r' \<notin> R \<Longrightarrow> rget (sendLoops s) r = Some (q, n) \<Longrightarrow> rget (sendLoops s) r' = Some (q, n') \<Longrightarrow> r' = r"
  shows "loops_ok R s"
  using assms unfolding loops_ok_def by blast

lemma loops_okD:
  assumes "loops_ok R s" "r \<notin> R" "rget (sendLoops s) r = Some (q, n)"
  shows "q < nextId s" "\<exists>i rest. queue_at s q = i # rest \<and> MessageCall (CSend r i n) \<in> set (calls s)"
    "r' \<notin> R \<Longrightarrow> rget (sendLoops s) r' = Some (q, n') \<Longrightarrow> r' = r"
  using assms unfolding loops_ok_def by blast+

lemma pending_okI:
  assumes "\<And>r. distinct (map og_clientMsgId (outgoing_of s r))"
    and "\<And>r i. i \<in> set (outgoing_of s r) \<Longrightarrow> og_status i = Pending \<Longrightarrow> (r, og_clientMsgId i) \<notin> X \<Longrightarrow>
      \<exists>q. rget (sendQueues s) r = Some q \<and> og_clientMsgId i \<in> set (queue_at s q)"
  shows "pending_ok X s"
  using assms unfolding pending_ok_def by blast

lemma pending_okD:
  assumes "pending_ok X s"
  shows "distinct (map og_clientMsgId (outgoing_of s r))"
    "i \<in> set (outgoing_of s r) \<Longrightarrow> og_status i = Pending \<Longrightarrow> (r, og_clientMsgId i) \<notin> X \<Longrightarrow>
      \<exists>q. rget (sendQueues s) r = Some q \<and> og_clientMsgId i \<in> set (queue_at s q)"
  using assms unfolding pending_ok_def by blast+

lemma end_loop_ok:
  \<comment> \<open>The loop of a room ends when nothing is left in its queue.\<close>
  assumes "send_inv {r} {} s" "\<And>q. rget (sendQueues s) r = Some q \<Longrightarrow> queue_at s q = []"
  shows "send_ok (settle_task k (s\<lparr>sendLoops := rclear r (sendLoops s)\<rparr>))" (is "send_ok ?t")
proof -
  have f: "sendQueues ?t = sendQueues s" "nextId ?t = nextId s" "calls ?t = calls s"
    "queue_at ?t = queue_at s" "outgoing_of ?t = outgoing_of s"
    by (simp_all add: queue_at_def outgoing_of_def fun_eq_iff)
  have l: "rget (sendLoops ?t) x = Some y \<longleftrightarrow> x \<noteq> r \<and> rget (sendLoops s) x = Some y"
    "rget (sendLoops ?t) x = None \<longleftrightarrow> x = r \<or> rget (sendLoops s) x = None" for x y
    by auto
  have i: "queues_ok {r} s" "loops_ok {r} s" "sends_ok s" "pending_ok {} s" using assms(1) by (simp_all add: send_inv_def)
  have "queues_ok {} ?t"
  proof (rule queues_okI)
    show "rget (sendLoops ?t) x \<noteq> None" if "rget (sendQueues ?t) x = Some q" "queue_at ?t q \<noteq> []" for x q
      using queues_okD(2)[OF i(1), of x q] assms(2)[of q] that unfolding l f by auto
  qed (insert queues_okD[OF i(1)], unfold l f, simp, blast, blast)
  moreover have "loops_ok {} ?t"
  proof (rule loops_okI; unfold l f)
    show "q < nextId s" if "x \<noteq> r \<and> rget (sendLoops s) x = Some (q, n)" for x q n
      using loops_okD(1)[OF i(2), of x q n] that by simp
    show "\<exists>i rest. queue_at s q = i # rest \<and> MessageCall (CSend x i n) \<in> set (calls s)"
      if "x \<noteq> r \<and> rget (sendLoops s) x = Some (q, n)" for x q n
      using loops_okD(2)[OF i(2), of x q n] that by simp
    show "x' = x" if "x \<noteq> r \<and> rget (sendLoops s) x = Some (q, n)" "x' \<noteq> r \<and> rget (sendLoops s) x' = Some (q, n')" for x x' q n n'
      using loops_okD(3)[OF i(2), of x q n x' n'] that by simp
  qed
  moreover have "sends_ok ?t" "pending_ok {} ?t" using i(3,4) by (simp_all add: sends_ok_def pending_ok_def f)
  ultimately show ?thesis by (simp add: send_inv_def)
qed

lemma next_send_ok:
  \<comment> \<open>The loop sends the first message of what is left of the queue.\<close>
  assumes "send_inv {r} {} s" "rget (sendQueues s) r = Some q"
    and keep: "\<And>j. j \<in> set (outgoing_of s r) \<Longrightarrow> og_status j = Pending \<Longrightarrow> og_clientMsgId j \<in> set (i # rest)"
  shows "send_ok (request (MessageCall (CSend r i (nextId s)))
    (s\<lparr>queueHeap := rput q (i # rest) (queueHeap s), sendLoops := rput r (q, nextId s) (sendLoops s), nextId := nextId s + 1\<rparr>))"
    (is "send_ok ?t")
proof -
  have f: "sendQueues ?t = sendQueues s" "nextId ?t = nextId s + 1"
    "calls ?t = calls s @ [MessageCall (CSend r i (nextId s))]" "outgoing_of ?t = outgoing_of s"
    by (simp_all add: outgoing_of_def fun_eq_iff)
  have qa: "queue_at ?t x = (if x = q then i # rest else queue_at s x)" for x by (simp add: queue_at_def)
  have l: "rget (sendLoops ?t) x = (if x = r then Some (q, nextId s) else rget (sendLoops s) x)" for x by simp
  have i: "queues_ok {r} s" "loops_ok {r} s" "sends_ok s" "pending_ok {} s" using assms(1) by (simp_all add: send_inv_def)
  note own = queues_okD[OF i(1) assms(2)]
  have "queues_ok {} ?t"
  proof (rule queues_okI)
    show "x < nextId ?t" if "rget (sendQueues ?t) y = Some x" for x y
      using queues_okD(1)[OF i(1), of y x] that by (simp add: f)
    show "rget (sendLoops ?t) x \<noteq> None" if "rget (sendQueues ?t) x = Some y" "queue_at ?t y \<noteq> []" for x y
      using queues_okD(2)[OF i(1), of x y] own(3)[of x] that unfolding l qa f by (auto split: if_splits)
    show "x' = x" if "rget (sendQueues ?t) x = Some y" "rget (sendQueues ?t) x' = Some y" for x x' y
      using queues_okD(3)[OF i(1), of x y x'] that by (simp add: f)
    show "x' = x" if "rget (sendQueues ?t) x = Some y" "rget (sendLoops ?t) x' = Some (y, n)" for x x' y n
      using queues_okD(4)[OF i(1), of x y x' n] own(3)[of x] that unfolding l f by (auto split: if_splits)
  qed
  moreover have "loops_ok {} ?t"
  proof (rule loops_okI)
    show "x < nextId ?t" if "rget (sendLoops ?t) y = Some (x, n)" for x y n
      using loops_okD(1)[OF i(2), of y x n] own(1) that unfolding l f by (auto split: if_splits)
    show "\<exists>j js. queue_at ?t x = j # js \<and> MessageCall (CSend y j n) \<in> set (calls ?t)"
      if "rget (sendLoops ?t) y = Some (x, n)" for x y n
      using loops_okD(2)[OF i(2), of y x n] own(4)[of y n] that unfolding l f qa by (auto split: if_splits)
    show "y' = y" if "rget (sendLoops ?t) y = Some (x, n)" "rget (sendLoops ?t) y' = Some (x, n')" for x y y' n n'
      using loops_okD(3)[OF i(2), of y x n y' n'] own(4)[of y n] own(4)[of y' n'] that unfolding l
      by (auto split: if_splits)
  qed
  moreover have "sends_ok ?t" using i(3) unfolding sends_ok_def f by (auto simp: less_Suc_eq)
  moreover have "pending_ok {} ?t"
  proof (rule pending_okI)
    show "distinct (map og_clientMsgId (outgoing_of ?t x))" for x
      using pending_okD(1)[OF i(4)] unfolding f .
    show "\<exists>x. rget (sendQueues ?t) y = Some x \<and> og_clientMsgId j \<in> set (queue_at ?t x)"
      if "j \<in> set (outgoing_of ?t y)" "og_status j = Pending" for j y
      using pending_okD(2)[OF i(4), of j y] own(3)[of y] keep[of j] assms(2) that unfolding f qa by auto
  qed
  ultimately show ?thesis by (simp add: send_inv_def)
qed

lemma runLoop_ok:
  assumes "send_inv {r} {} s"
  shows "send_ok (runLoop r s)"
proof (cases "rget (sendQueues s) r")
  case None
  then show ?thesis using end_loop_ok[OF assms] by (simp add: runLoop_def)
next
  case (Some q)
  let ?rest = "dropWhile (\<lambda>i. \<not> sendable s r i) (queue_at s q)"
  let ?s1 = "s\<lparr>queueHeap := rput q ?rest (queueHeap s)\<rparr>"
  have p: "og_clientMsgId i \<in> set ?rest" if "i \<in> set (outgoing_of s r)" "og_status i = Pending" for i
  proof (rule dropWhile_keeps)
    have d: "distinct (map og_clientMsgId (outgoing_of s r))" using assms by (simp add: send_inv_def pending_ok_def)
    show "\<not> \<not> sendable s r (og_clientMsgId i)" using sendable_pending[OF d that] by simp
    show "og_clientMsgId i \<in> set (queue_at s q)"
      using assms that Some by (force simp: send_inv_def pending_ok_def)
  qed
  show ?thesis
  proof (cases ?rest)
    case (Cons i rest)
    have "send_ok (request (MessageCall (CSend r i (nextId s)))
      (s\<lparr>queueHeap := rput q (i # rest) (queueHeap s), sendLoops := rput r (q, nextId s) (sendLoops s), nextId := nextId s + 1\<rparr>))"
      using assms Some p unfolding Cons by (rule next_send_ok)
    then show ?thesis using Some Cons by (simp add: runLoop_def Let_def)
  next
    case Nil
    have i: "queues_ok {r} s" "loops_ok {r} s" "sends_ok s" "pending_ok {} s" using assms by (simp_all add: send_inv_def)
    note own = queues_okD[OF i(1) Some]
    have qa: "queue_at ?s1 x = (if x = q then [] else queue_at s x)" for x
    proof -
      have "queue_at ?s1 x = (if x = q then ?rest else queue_at s x)" by (simp add: queue_at_def)
      then show ?thesis by (simp only: Nil)
    qed
    have f: "sendQueues ?s1 = sendQueues s" "sendLoops ?s1 = sendLoops s" "nextId ?s1 = nextId s" "calls ?s1 = calls s"
      "outgoing_of ?s1 = outgoing_of s" by (simp_all add: outgoing_of_def fun_eq_iff)
    have "queues_ok {r} ?s1"
    proof (rule queues_okI)
      show "rget (sendLoops ?s1) x \<noteq> None"
        if "rget (sendQueues ?s1) x = Some y" "x \<notin> {r}" "queue_at ?s1 y \<noteq> []" for x y
      proof -
        have "queue_at s y \<noteq> []" using that(3) unfolding qa by (simp split: if_splits)
        then show ?thesis using queues_okD(2)[OF i(1), of x y] that unfolding f by blast
      qed
    qed (insert queues_okD[OF i(1)], unfold f, simp, blast, blast)
    moreover have "loops_ok {r} ?s1"
      by (rule loops_okI; unfold f qa) (insert loops_okD[OF i(2)] own(4), simp, fastforce, blast)
    moreover have "sends_ok ?s1" using i(3) by (simp add: sends_ok_def)
    moreover have "pending_ok {} ?s1"
    proof (rule pending_okI)
      show "distinct (map og_clientMsgId (outgoing_of ?s1 x))" for x
      using pending_okD(1)[OF i(4)] unfolding f .
      show "\<exists>x. rget (sendQueues ?s1) y = Some x \<and> og_clientMsgId j \<in> set (queue_at ?s1 x)"
        if "j \<in> set (outgoing_of ?s1 y)" "og_status j = Pending" for j y
        using pending_okD(2)[OF i(4), of j y] own(3)[of y] p[of j, unfolded Nil] that unfolding f qa by auto metis
    qed
    ultimately have inv: "send_inv {r} {} ?s1" by (simp add: send_inv_def)
    have e: "queue_at ?s1 q' = []" if "rget (sendQueues ?s1) r = Some q'" for q'
      using that Some unfolding f qa by simp
    have "send_ok (settle_task (TSend r) (?s1\<lparr>sendLoops := rclear r (sendLoops ?s1)\<rparr>))"
      using inv e by (rule end_loop_ok)
    then show ?thesis unfolding runLoop_def Some Let_def by (simp only: option.case Nil list.case)
  qed
qed

section \<open>Every operation of the send queue keeps it\<close>

lemma send_inv_mono: "send_inv R X s \<Longrightarrow> R \<subseteq> R' \<Longrightarrow> X \<subseteq> X' \<Longrightarrow> send_inv R' X' s"
  unfolding send_inv_def queues_ok_def loops_ok_def pending_ok_def by blast

lemma send_inv_queue:
  \<comment> \<open>A change of the outgoing messages of a room, its queue and the next address.\<close>
  assumes "send_inv R X s" "calls t = calls s" "sendLoops t = sendLoops s" "nextId s \<le> nextId t"
    and "queues_ok R t" "pending_ok Y t"
    and "\<And>q i rest. queue_at s q = i # rest \<Longrightarrow> q < nextId s \<Longrightarrow> \<exists>rest'. queue_at t q = i # rest'"
  shows "send_inv R Y t"
proof -
  have l: "loops_ok R s" "sends_ok s" using assms(1) by (simp_all add: send_inv_def)
  have "loops_ok R t"
  proof (rule loops_okI; unfold assms(2,3))
    show "q < nextId t" if "r \<notin> R" "rget (sendLoops s) r = Some (q, n)" for r q n
      using loops_okD(1)[OF l(1) that] assms(4) by simp
    show "\<exists>i rest. queue_at t q = i # rest \<and> MessageCall (CSend r i n) \<in> set (calls s)"
      if "r \<notin> R" "rget (sendLoops s) r = Some (q, n)" for r q n
      using loops_okD(1,2)[OF l(1) that] assms(7) by blast
    show "r' = r" if "r \<notin> R" "r' \<notin> R" "rget (sendLoops s) r = Some (q, n)" "rget (sendLoops s) r' = Some (q, n')" for r r' q n n'
      using loops_okD(3)[OF l(1)] that by blast
  qed
  moreover have "sends_ok t" using l(2) assms(4) unfolding sends_ok_def assms(2) by force
  ultimately show ?thesis using assms(5,6) by (simp add: send_inv_def)
qed

lemma enqueueSend_ok:
  assumes "send_inv {} {(r, i)} s"
  shows "send_ok (enqueueSend r i s)"
proof -
  have i: "queues_ok {} s" "loops_ok {} s" "pending_ok {(r, i)} s" using assms by (simp_all add: send_inv_def)
  define s1 where "s1 = (case rget (sendQueues s) r of
      Some q \<Rightarrow> s\<lparr>queueHeap := rput q (queue_at s q @ [i]) (queueHeap s)\<rparr>
    | None \<Rightarrow> s\<lparr>queueHeap := rput (nextId s) [i] (queueHeap s), sendQueues := rput r (nextId s) (sendQueues s), nextId := nextId s + 1\<rparr>)"
  define q where "q = (case rget (sendQueues s) r of Some q \<Rightarrow> q | None \<Rightarrow> nextId s)"
  have sq: "rget (sendQueues s1) x = (if x = r then Some q else rget (sendQueues s) x)" for x
    by (simp add: s1_def q_def split: option.splits)
  have fresh: "rget (sendQueues s) x \<noteq> Some (nextId s)" "rget (sendLoops s) x \<noteq> Some (nextId s, n)" for x n
    using queues_okD(1)[OF i(1)] loops_okD(1)[OF i(2)] by blast+
  have qa: "queue_at s1 x = (if x = q then (if rget (sendQueues s) r = None then [] else queue_at s x) @ [i] else queue_at s x)" for x
    by (simp add: s1_def q_def queue_at_def split: option.splits)
  have f: "calls s1 = calls s" "sendLoops s1 = sendLoops s" "outgoing_of s1 = outgoing_of s" "nextId s \<le> nextId s1" "q < nextId s1"
    using queues_okD(1)[OF i(1), of r] by (simp_all add: s1_def q_def outgoing_of_def fun_eq_iff split: option.splits)
  have own: "x = r" if "rget (sendQueues s) x = Some q" for x
    using that queues_okD(3)[OF i(1), of r q x] fresh(1)[of x] by (auto simp: q_def split: option.splits)
  have loop: "x = r" if "rget (sendLoops s) x = Some (q, n)" for x n
    using that queues_okD(4)[OF i(1), of r q x n] fresh(2)[of x n] by (auto simp: q_def split: option.splits)
  have queues: "queues_ok R s1" if R: "r \<notin> R \<longrightarrow> rget (sendLoops s) r \<noteq> None" for R
  proof (rule queues_okI)
    fix x y assume x: "rget (sendQueues s1) x = Some y"
    have xy: "x = r \<and> y = q \<or> x \<noteq> r \<and> rget (sendQueues s) x = Some y \<and> y \<noteq> q"
      using x own[of x] unfolding sq by (cases "x = r") auto
    show "y < nextId s1" using xy f(4,5) queues_okD(1)[OF i(1), of x y] by linarith
    show "rget (sendLoops s1) x \<noteq> None" if "x \<notin> R" "queue_at s1 y \<noteq> []"
      using xy that R queues_okD(2)[OF i(1), of x y] unfolding f(2) qa by (elim disjE) simp_all
    show "x' = x" if "rget (sendQueues s1) x' = Some y" for x'
    proof (cases "x' = r")
      case True
      then show ?thesis using that xy unfolding sq by auto
    next
      case False
      then have s': "rget (sendQueues s) x' = Some y" using that unfolding sq by simp
      then show ?thesis using xy own[of x'] queues_okD(3)[OF i(1), of x y x'] False by blast
    qed
    show "x' = x" if "x' \<notin> R" "rget (sendLoops s1) x' = Some (y, n)" for x' n
      using xy loop[of x' n] queues_okD(4)[OF i(1), of x y x' n] that unfolding f(2) by blast
  qed
  have pend: "pending_ok {} s1"
  proof (rule pending_okI)
    show "distinct (map og_clientMsgId (outgoing_of s1 x))" for x using pending_okD(1)[OF i(3)] unfolding f .
    show "\<exists>x. rget (sendQueues s1) y = Some x \<and> og_clientMsgId j \<in> set (queue_at s1 x)"
      if j: "j \<in> set (outgoing_of s1 y)" "og_status j = Pending" for j y
    proof (cases "(y, og_clientMsgId j) = (r, i)")
      case True
      then show ?thesis unfolding sq qa by simp
    next
      case False
      then obtain x where x: "rget (sendQueues s) y = Some x" "og_clientMsgId j \<in> set (queue_at s x)"
        using pending_okD(2)[OF i(3), of j y] j unfolding f by blast
      show ?thesis
      proof (cases "y = r")
        case True
        then have "rget (sendQueues s) r = Some x" using x(1) by simp
        then have "q = x" "rget (sendQueues s) r \<noteq> None" by (simp_all add: q_def)
        then show ?thesis using True x(2) unfolding sq qa by (auto simp del: not_None_eq)
      next
        case False
        then have "x \<noteq> q" using own[of y] x(1) by blast
        then show ?thesis using False x unfolding sq qa by simp
      qed
    qed
  qed
  have grow: "\<exists>rest'. queue_at s1 x = j # rest'" if "queue_at s x = j # rest" "x < nextId s" for x j rest
    using that unfolding qa by (auto simp: q_def split: option.splits)
  have s1: "send_inv R {} s1" if R: "r \<notin> R \<longrightarrow> rget (sendLoops s) r \<noteq> None" for R
  proof (rule send_inv_queue)
    show "send_inv R {(r, i)} s" by (rule send_inv_mono[OF assms]) simp_all
  qed (fact f(1) f(2) f(4) queues[OF R] pend grow)+
  have eq: "enqueueSend r i s = runSendQueue r s1"
    by (simp only: enqueueSend_def Let_def s1_def)
  show ?thesis
  proof (cases "rget (sendLoops s) r")
    case None
    then show ?thesis using runLoop_ok[OF s1, of r] f by (simp add: eq runSendQueue_def)
  next
    case (Some p)
    then show ?thesis using s1[of "{}"] f by (simp add: eq runSendQueue_def)
  qed
qed

lemma outgoing_only:
  \<comment> \<open>A change of outgoing messages alone.\<close>
  assumes "send_inv R X s" "pending_ok Y (patchOutgoing r f s)"
  shows "send_inv R Y (patchOutgoing r f s)"
proof -
  have "queue_at (patchOutgoing r f s) = queue_at s" by (simp add: queue_at_def fun_eq_iff)
  then show ?thesis using assms
    by (intro send_inv_queue[OF assms(1)]) (auto simp: send_inv_def queues_ok_def)
qed

lemma sendMessage_ok:
  assumes "send_ok s" "i \<notin> og_clientMsgId ` set (outgoing_of s r)"
  shows "send_ok (sendMessage r input i s)"
proof -
  let ?t = "patchOutgoing r (\<lambda>list. list @ [newOutgoing i input (now s)]) s"
  have p: "pending_ok {} s" using assms(1) by (simp add: send_inv_def)
  have q: "queue_at ?t = queue_at s" "sendQueues ?t = sendQueues s" by (simp_all add: queue_at_def fun_eq_iff)
  have new: "og_clientMsgId (newOutgoing i input n) = i" for n by (simp add: newOutgoing_def)
  have "pending_ok {(r, i)} ?t"
  proof (rule pending_okI; unfold outgoing_patch q)
    show "distinct (map og_clientMsgId (if r = x then outgoing_of s r @ [newOutgoing i input (now s)] else outgoing_of s x))" for x
      using pending_okD(1)[OF p] assms(2) by (auto simp: new)
    show "\<exists>q. rget (sendQueues s) x = Some q \<and> og_clientMsgId j \<in> set (queue_at s q)"
      if "j \<in> set (if r = x then outgoing_of s r @ [newOutgoing i input (now s)] else outgoing_of s x)"
        "og_status j = Pending" "(x, og_clientMsgId j) \<notin> {(r, i)}" for j x
      using pending_okD(2)[OF p, of j x] that by (auto simp: new split: if_splits)
  qed
  then show ?thesis unfolding sendMessage_def
    by (intro enqueueSend_ok outgoing_only[OF assms(1)])
qed

lemma retryMessage_ok:
  assumes "send_ok s"
  shows "send_ok (retryMessage r i s)"
proof -
  let ?f = "map (\<lambda>m. if og_clientMsgId m = i then m\<lparr>og_status := Pending\<rparr> else m)"
  let ?t = "patchOutgoing r ?f s"
  have p: "pending_ok {} s" using assms(1) by (simp add: send_inv_def)
  have q: "queue_at ?t = queue_at s" "sendQueues ?t = sendQueues s" by (simp_all add: queue_at_def fun_eq_iff)
  have k: "map og_clientMsgId (?f l) = map og_clientMsgId l" for l by simp
  have "pending_ok {(r, i)} ?t"
  proof (rule pending_okI; unfold outgoing_patch q)
    show "distinct (map og_clientMsgId (if r = x then ?f (outgoing_of s r) else outgoing_of s x))" for x
      using pending_okD(1)[OF p] by (cases "r = x") (simp_all only: k if_True if_False refl simp_thms)
    show "\<exists>q. rget (sendQueues s) x = Some q \<and> og_clientMsgId j \<in> set (queue_at s q)"
      if "j \<in> set (if r = x then ?f (outgoing_of s r) else outgoing_of s x)"
        "og_status j = Pending" "(x, og_clientMsgId j) \<notin> {(r, i)}" for j x
      using pending_okD(2)[OF p, of j x] that by (auto split: if_splits)
  qed
  then have "send_ok (enqueueSend r i ?t)"
    by (intro enqueueSend_ok outgoing_only[OF assms(1)])
  with assms show ?thesis by (simp add: retryMessage_def)
qed

lemma discardMessage_ok: "send_ok s \<Longrightarrow> send_ok (discardMessage r i s)"
proof -
  assume s: "send_ok s"
  have "same_send s (discardMessage r i s)"
  proof (cases "\<exists>m\<in>set (outgoing_of s r). og_clientMsgId m = i \<and> og_status m = Failed")
    case True
    then have "outgoing_of (discardMessage r i s) x = outgoing_of (patchOutgoing r (filter (\<lambda>m. og_clientMsgId m \<noteq> i)) s) x" for x
      by (auto simp: discardMessage_def outgoing_patch)
    with same_send_outgoing[OF same_send_refl, of s r "\<lambda>m. og_clientMsgId m \<noteq> i"] show ?thesis
      by (auto simp: same_send_def discardMessage_def)
  next
    case False
    then have "outgoing_of (discardMessage r i s) x = outgoing_of s x" for x
      by (auto simp: discardMessage_def outgoing_patch)
    with same_send_refl[of s] show ?thesis by (auto simp: same_send_def discardMessage_def)
  qed
  then show ?thesis using s by (rule same_send_inv)
qed

lemma drop_queue_ok:
  \<comment> \<open>The map drops the queue of a room, with the pending messages of the room gone.\<close>
  assumes "send_inv R {} s" "calls t = calls s" "sendLoops t = sendLoops s" "nextId t = nextId s" "queueHeap t = queueHeap s"
    and "sendQueues t = rclear r (sendQueues s)" "\<And>x. x \<noteq> r \<Longrightarrow> outgoing_of t x = outgoing_of s x"
    and "distinct (map og_clientMsgId (outgoing_of t r))" "\<And>i. i \<in> set (outgoing_of t r) \<Longrightarrow> og_status i \<noteq> Pending"
  shows "send_inv R {} t"
proof -
  have q: "queue_at t = queue_at s" by (simp add: queue_at_def fun_eq_iff assms(5))
  have i: "queues_ok R s" "pending_ok {} s" using assms(1) by (simp_all add: send_inv_def)
  have g: "rget (sendQueues t) x = Some y \<longleftrightarrow> x \<noteq> r \<and> rget (sendQueues s) x = Some y" for x y
    by (auto simp: assms(6))
  have "queues_ok R t"
  proof (rule queues_okI; unfold g q assms(3,4))
    show "y < nextId s" if "x \<noteq> r \<and> rget (sendQueues s) x = Some y" for x y
      using queues_okD(1)[OF i(1), of x y] that by blast
    show "rget (sendLoops s) x \<noteq> None"
      if "x \<noteq> r \<and> rget (sendQueues s) x = Some y" "x \<notin> R" "queue_at s y \<noteq> []" for x y
      using queues_okD(2)[OF i(1), of x y] that by blast
    show "x' = x" if "x \<noteq> r \<and> rget (sendQueues s) x = Some y" "x' \<noteq> r \<and> rget (sendQueues s) x' = Some y" for x x' y
      using queues_okD(3)[OF i(1), of x y x'] that by blast
    show "x' = x" if "x \<noteq> r \<and> rget (sendQueues s) x = Some y" "x' \<notin> R" "rget (sendLoops s) x' = Some (y, n)" for x x' y n
      using queues_okD(4)[OF i(1), of x y x' n] that by blast
  qed
  moreover have "pending_ok {} t"
  proof (rule pending_okI)
    show "distinct (map og_clientMsgId (outgoing_of t x))" for x
      using pending_okD(1)[OF i(2), of x] assms(7,8) by (cases "x = r") simp_all
    show "\<exists>y. rget (sendQueues t) x = Some y \<and> og_clientMsgId j \<in> set (queue_at t y)"
      if "j \<in> set (outgoing_of t x)" "og_status j = Pending" for j x
      using that pending_okD(2)[OF i(2), of j x] assms(7,9) unfolding g q by (cases "x = r") auto
  qed
  ultimately show ?thesis
    using assms(2-4) by (intro send_inv_queue[OF assms(1)]) (simp_all add: q)
qed

lemma dropOutgoing_ok:
  assumes "send_ok s"
  shows "send_ok (dropOutgoing r s)"
proof (rule drop_queue_ok[OF assms])
  show "x \<noteq> r \<Longrightarrow> outgoing_of (dropOutgoing r s) x = outgoing_of s x" for x by (simp add: dropOutgoing_def outgoing_of_def)
  have "outgoing_of (dropOutgoing r s) r = []" by (simp add: dropOutgoing_def outgoing_of_def)
  then show "distinct (map og_clientMsgId (outgoing_of (dropOutgoing r s) r))"
    "i \<in> set (outgoing_of (dropOutgoing r s) r) \<Longrightarrow> og_status i \<noteq> Pending" for i by simp_all
qed (simp_all add: dropOutgoing_def)

lemma failQueue_ok:
  assumes "send_inv R {} s"
  shows "send_inv R {} (failQueue r s)"
proof (rule drop_queue_ok[OF assms])
  let ?q = "case rget (sendQueues s) r of None \<Rightarrow> [] | Some q \<Rightarrow> queue_at s q"
  let ?f = "map (\<lambda>m. if og_clientMsgId m \<in> set ?q \<and> og_status m = Pending then m\<lparr>og_status := Failed\<rparr> else m)"
  have o': "outgoing_of (failQueue r s) x = (if x = r then ?f (outgoing_of s r) else outgoing_of s x)" for x
    by (simp add: failQueue_def outgoing_patch) (simp add: outgoing_of_def)
  have p: "pending_ok {} s" using assms(1) by (simp add: send_inv_def)
  show "x \<noteq> r \<Longrightarrow> outgoing_of (failQueue r s) x = outgoing_of s x" for x by (simp add: o')
  have k: "map og_clientMsgId (?f l) = map og_clientMsgId l" for l by simp
  then show "distinct (map og_clientMsgId (outgoing_of (failQueue r s) r))"
    using pending_okD(1)[OF p, of r] by (simp only: o' k if_True refl simp_thms)
  show "og_status i \<noteq> Pending" if "i \<in> set (outgoing_of (failQueue r s) r)" for i
    using that pending_okD(2)[OF p, of _ r] by (fastforce simp: o' split: if_splits)
qed (simp_all add: failQueue_def)

lemma exempt_own: "send_ok s \<Longrightarrow> send_inv {r} {} s"
  by (rule send_inv_mono) auto

lemma sendTimeout_ok: "send_ok s \<Longrightarrow> send_ok (sendTimeout r n s)"
  by (simp add: sendTimeout_def runLoop_ok failQueue_ok exempt_own)

lemma drop_call_send:
  assumes "send_ok s" "MessageCall (CSend r i n) \<in> set (calls s)"
  shows "send_inv {x. loopWaits x n s} {} (drop_call (MessageCall (CSend r i n)) s)" (is "send_inv ?R {} ?t")
proof -
  have k: "queues_ok {} s" "loops_ok {} s" "sends_ok s" "pending_ok {} s" using assms(1) by (simp_all add: send_inv_def)
  have f: "sendQueues ?t = sendQueues s" "sendLoops ?t = sendLoops s" "nextId ?t = nextId s"
    "queue_at ?t = queue_at s" "outgoing_of ?t = outgoing_of s"
    by (simp_all add: drop_call_def queue_at_def outgoing_of_def fun_eq_iff)
  have c: "MessageCall (CSend r' i' n') \<in> set (calls ?t) \<Longrightarrow> MessageCall (CSend r' i' n') \<in> set (calls s)" for r' i' n'
    by (simp add: drop_call_def) (meson notin_set_remove1)
  have c': "MessageCall (CSend r' i' n') \<in> set (calls s) \<Longrightarrow> n' \<noteq> n \<Longrightarrow> MessageCall (CSend r' i' n') \<in> set (calls ?t)" for r' i' n'
    by (simp add: drop_call_def in_set_remove1)
  have "queues_ok ?R ?t" using k(1) unfolding queues_ok_def f by blast
  moreover have "loops_ok ?R ?t"
  proof (rule loops_okI; unfold f)
    fix x q m assume x: "x \<notin> ?R" "rget (sendLoops s) x = Some (q, m)"
    show "q < nextId s" using loops_okD(1)[OF k(2) _ x(2)] by simp
    have "m \<noteq> n" using x by (auto simp: loopWaits_def)
    then show "\<exists>i rest. queue_at s q = i # rest \<and> MessageCall (CSend x i m) \<in> set (calls ?t)"
      using loops_okD(2)[OF k(2) _ x(2)] c' by blast
    show "x' = x" if "rget (sendLoops s) x' = Some (q, n')" for x' n'
      using loops_okD(3)[OF k(2) _ x(2) _ that] by simp
  qed
  moreover have "sends_ok ?t" using k(3) c unfolding sends_ok_def f by blast
  moreover have "pending_ok {} ?t" using k(4) unfolding pending_ok_def f .
  ultimately show ?thesis by (simp add: send_inv_def)
qed

lemma loopWaits_unique:
  assumes "send_ok s" "MessageCall (CSend r i n) \<in> set (calls s)" "loopWaits x n s"
  shows "x = r \<and> (\<exists>q rest. rget (sendLoops s) r = Some (q, n) \<and> queue_at s q = i # rest)"
proof -
  have k: "loops_ok {} s" "sends_ok s" using assms(1) by (simp_all add: send_inv_def)
  obtain q where q: "rget (sendLoops s) x = Some (q, n)" using assms(3) by (auto simp: loopWaits_def)
  obtain j rest where j: "queue_at s q = j # rest" "MessageCall (CSend x j n) \<in> set (calls s)"
    using loops_okD(2)[OF k(1) _ q] by auto
  have "x = r \<and> j = i" using k(2) assms(2) j(2) unfolding sends_ok_def by blast
  then show ?thesis using q j(1) by auto
qed

lemma shiftQueue_ok:
  \<comment> \<open>The first message was confirmed: it leaves the queue the loop holds.\<close>
  assumes "send_inv {r} {} s" "rget (sendLoops s) r = Some (q, n)" "queue_at s q = i # rest"
    and held: "\<And>r'. rget (sendQueues s) r' = Some q \<Longrightarrow> r' = r"
      "\<And>r' m. rget (sendLoops s) r' = Some (q, m) \<Longrightarrow> r' = r"
    and gone: "\<And>j. j \<in> set (outgoing_of s r) \<Longrightarrow> og_status j = Pending \<Longrightarrow> og_clientMsgId j \<noteq> i"
  shows "send_inv {r} {} (shiftQueue r s)"
proof -
  have k: "queues_ok {r} s" "loops_ok {r} s" "sends_ok s" "pending_ok {} s" using assms(1) by (simp_all add: send_inv_def)
  have f: "sendQueues (shiftQueue r s) = sendQueues s" "sendLoops (shiftQueue r s) = sendLoops s"
    "nextId (shiftQueue r s) = nextId s" "outgoing_of (shiftQueue r s) = outgoing_of s" "calls (shiftQueue r s) = calls s"
    using assms(2) by (simp_all add: shiftQueue_def outgoing_of_def fun_eq_iff)
  have qa: "queue_at (shiftQueue r s) x = (if x = q then rest else queue_at s x)" for x
    using assms(2,3) by (simp add: shiftQueue_def queue_at_def)
  have "queues_ok {r} (shiftQueue r s)"
  proof (rule queues_okI; unfold f)
    fix x y assume x: "rget (sendQueues s) x = Some y"
    show "y < nextId s" using queues_okD(1)[OF k(1) x] .
    show "rget (sendLoops s) x \<noteq> None" if "x \<notin> {r}" "queue_at (shiftQueue r s) y \<noteq> []"
    proof -
      have "y \<noteq> q" using held(1)[of x] x that(1) by auto
      then show ?thesis using queues_okD(2)[OF k(1) x] that unfolding qa by simp
    qed
    show "x' = x" if "rget (sendQueues s) x' = Some y" for x' using queues_okD(3)[OF k(1) x that] .
    show "x' = x" if "x' \<notin> {r}" "rget (sendLoops s) x' = Some (y, m)" for x' m using queues_okD(4)[OF k(1) x that] .
  qed
  moreover have "loops_ok {r} (shiftQueue r s)"
  proof (rule loops_okI; unfold f)
    fix x y m assume x: "x \<notin> {r}" "rget (sendLoops s) x = Some (y, m)"
    show "y < nextId s" using loops_okD(1)[OF k(2) x] .
    have "y \<noteq> q" using held(2)[of x m] x by auto
    then show "\<exists>j js. queue_at (shiftQueue r s) y = j # js \<and> MessageCall (CSend x j m) \<in> set (calls s)"
      using loops_okD(2)[OF k(2) x] unfolding qa by simp
    show "x' = x" if "x' \<notin> {r}" "rget (sendLoops s) x' = Some (y, m')" for x' m'
      using loops_okD(3)[OF k(2) x that] .
  qed
  moreover have "sends_ok (shiftQueue r s)" using k(3) unfolding sends_ok_def f .
  moreover have "pending_ok {} (shiftQueue r s)"
  proof (rule pending_okI; unfold f)
    show "distinct (map og_clientMsgId (outgoing_of s x))" for x using pending_okD(1)[OF k(4)] .
    fix x j assume j: "j \<in> set (outgoing_of s x)" "og_status j = Pending"
    obtain y where y: "rget (sendQueues s) x = Some y" "og_clientMsgId j \<in> set (queue_at s y)"
      using pending_okD(2)[OF k(4) j] by auto
    have "og_clientMsgId j \<in> set (queue_at (shiftQueue r s) y)"
      using y(2) held(1)[of x] gone[of j] j y(1) assms(3) unfolding qa by (cases "y = q") auto
    with y(1) show "\<exists>y. rget (sendQueues s) x = Some y \<and> og_clientMsgId j \<in> set (queue_at (shiftQueue r s) y)"
      by blast
  qed
  ultimately show ?thesis by (simp add: send_inv_def)
qed

definition confirms :: "store \<Rightarrow> ident \<Rightarrow> ident \<Rightarrow> api_error + message \<Rightarrow> bool" where
  \<comment> \<open>What the server answers to a send: the message of that client id, in that room, by the viewer.\<close>
  "confirms s r i res \<longleftrightarrow> (\<forall>m. res = Inr m \<longrightarrow> m_room_id m = r \<and> m_client_msg_id m = i \<and> u_id (m_sender m) = userId s)"

lemma settleSend_ok:
  assumes "send_ok s" "MessageCall (CSend r i n) \<in> set (calls s)" "confirms s r i res"
  shows "send_ok (settleSend r n res (drop_call (MessageCall (CSend r i n)) s))"
proof -
  let ?t = "drop_call (MessageCall (CSend r i n)) s"
  have w: "loopWaits x n ?t = loopWaits x n s" for x by (simp add: loopWaits_def drop_call_def)
  have inv: "send_inv {x. loopWaits x n s} {} ?t" by (rule drop_call_send[OF assms(1,2)])
  show ?thesis
  proof (cases "loopWaits r n s")
    case False
    have "{x. loopWaits x n s} = {}" using loopWaits_unique[OF assms(1,2)] False by blast
    with inv have ok: "send_ok ?t" by simp
    have same: "same_send ?t (receiveMessage m True ?t)" for m by (rule same_send_receive[OF same_send_refl])
    then have "\<not> loopWaits r n (receiveMessage m True ?t)" for m
      using False w by (simp add: loopWaits_def same_send_def)
    then show ?thesis using ok False w same_send_inv[OF same ok]
      by (auto simp: settleSend_def Let_def split: sum.splits)
  next
    case True
    obtain q rest where q: "rget (sendLoops s) r = Some (q, n)" "queue_at s q = i # rest"
      using loopWaits_unique[OF assms(1,2) True] by blast
    have k: "queues_ok {} s" "loops_ok {} s" using assms(1) by (simp_all add: send_inv_def)
    have "{x. loopWaits x n s} = {r}" using loopWaits_unique[OF assms(1,2)] True by blast
    with inv have ok: "send_inv {r} {} ?t" by simp
    show ?thesis
    proof (cases res)
      case (Inl err)
      then show ?thesis using True w ok by (simp add: settleSend_def runLoop_ok failQueue_ok)
    next
      case (Inr m)
      let ?u = "receiveMessage m True ?t"
      have same: "same_send ?t ?u" by (rule same_send_receive[OF same_send_refl])
      have f: "sendQueues ?u = sendQueues s" "sendLoops ?u = sendLoops s" "queueHeap ?u = queueHeap s"
        using same by (simp_all add: same_send_def drop_call_def)
      have m: "m_room_id m = r" "m_client_msg_id m = i" "u_id (m_sender m) = userId ?t"
        using assms(3) Inr by (simp_all add: confirms_def drop_call_def)
      have "send_inv {r} {} (shiftQueue r ?u)"
      proof (rule shiftQueue_ok[OF same_send_inv[OF same ok]])
        show "rget (sendLoops ?u) r = Some (q, n)" "queue_at ?u q = i # rest"
          using q by (simp_all add: f queue_at_def)
        show "r' = r" if "rget (sendQueues ?u) r' = Some q" for r'
          using queues_okD(4)[OF k(1), of r' q r n] that q(1) unfolding f by blast
        show "r' = r" if "rget (sendLoops ?u) r' = Some (q, m')" for r' m'
          using loops_okD(3)[OF k(2) _ q(1), of r' m'] that unfolding f by blast
        show "og_clientMsgId j \<noteq> i" if "j \<in> set (outgoing_of ?u r)" for j
          using receive_confirms[OF m(3), of j] that m(1,2) by simp
      qed
      then have "send_ok (runLoop r (shiftQueue r ?u))" by (rule runLoop_ok)
      moreover have "loopWaits r n ?u" using True by (simp add: loopWaits_def f)
      ultimately show ?thesis by (simp add: settleSend_def Inr Let_def)
    qed
  qed
qed

lemma createStore_send_ok: "send_ok (createStore u t)"
  by (simp add: send_inv_def queues_ok_def loops_ok_def sends_ok_def pending_ok_def createStore_def outgoing_of_def initialState_def)

lemma pending_in_flight:
  \<comment> \<open>What the invariant gives: a pending message never waits for nothing.\<close>
  assumes "send_ok s" "i \<in> set (outgoing_of s r)" "og_status i = Pending"
  shows "\<exists>j n. rget (sendLoops s) r \<noteq> None \<and> MessageCall (CSend r j n) \<in> set (calls s) \<and> loopWaits r n s"
proof -
  have k: "queues_ok {} s" "loops_ok {} s" "pending_ok {} s" using assms(1) by (simp_all add: send_inv_def)
  obtain q where "rget (sendQueues s) r = Some q" "og_clientMsgId i \<in> set (queue_at s q)"
    using pending_okD(2)[OF k(3) assms(2,3)] by auto
  moreover from this have "queue_at s q \<noteq> []" by auto
  ultimately have "rget (sendLoops s) r \<noteq> None"
    using queues_okD(2)[OF k(1), of r q] by simp
  then obtain q' n where "rget (sendLoops s) r = Some (q', n)" by auto
  with loops_okD(2)[OF k(2), of r q' n] show ?thesis by (auto simp: loopWaits_def)
qed

section \<open>Runs\<close>

inductive send_run :: "store \<Rightarrow> bool" where
  \<comment> \<open>Everything that touches the sending of messages, in any order; the client ids are fresh (ULIDs).\<close>
  start: "send_run (createStore user t)"
| sent: "send_run s \<Longrightarrow> i \<notin> og_clientMsgId ` set (outgoing_of s roomId) \<Longrightarrow> send_run (sendMessage roomId input i s)"
| retried: "send_run s \<Longrightarrow> send_run (retryMessage roomId i s)"
| discarded: "send_run s \<Longrightarrow> send_run (discardMessage roomId i s)"
| dropped: "send_run s \<Longrightarrow> send_run (dropOutgoing roomId s)"
| timed_out: "send_run s \<Longrightarrow> send_run (sendTimeout roomId n s)"
| answered: "send_run s \<Longrightarrow> MessageCall (CSend roomId i n) \<in> set (calls s) \<Longrightarrow> confirms s roomId i res \<Longrightarrow>
    send_run (settleSend roomId n res (drop_call (MessageCall (CSend roomId i n)) s))"
| received: "send_run s \<Longrightarrow> send_run (receiveMessage message created s)"
| other: "send_run s \<Longrightarrow> same_send s s' \<Longrightarrow> send_run s'"

lemma send_run_ok: "send_run s \<Longrightarrow> send_ok s"
  by (induction rule: send_run.induct)
     (auto intro: createStore_send_ok sendMessage_ok retryMessage_ok discardMessage_ok dropOutgoing_ok sendTimeout_ok
       settleSend_ok same_send_inv same_send_receive[OF same_send_refl])

section \<open>Properties\<close>

text \<open>C5: a message shown as being sent never waits for nothing: in every run, also after failures, timeouts, late
  answers and discarded messages, a request of its room is in flight and the loop of the room waits for it.\<close>

theorem pending_message_in_flight:
  assumes "send_run s" "item \<in> set (outgoing_of s roomId)" "og_status item = Pending"
  shows "\<exists>j n. MessageCall (CSend roomId j n) \<in> set (calls s) \<and> loopWaits roomId n s"
  using pending_in_flight[OF send_run_ok[OF assms(1)] assms(2,3)] by blast

theorem pending_message_in_flight_witness:
  "let input = \<lparr>si_body = ''hi'', si_attachments = None, si_threadRootId = None, si_alsoInChannel = None, si_suppressed = None\<rparr>;
       s = sendMessage ''r'' input ''i'' (createStore ''u'' 0)
   in \<exists>j n. MessageCall (CSend ''r'' j n) \<in> set (calls s) \<and> loopWaits ''r'' n s"
  unfolding Let_def
  by (rule pending_message_in_flight[where item = "newOutgoing ''i'' \<lparr>si_body = ''hi'', si_attachments = None,
        si_threadRootId = None, si_alsoInChannel = None, si_suppressed = None\<rparr> 0"], rule send_run.sent[OF send_run.start])
     (simp add: outgoing_of_def createStore_def initialState_def, code_simp, simp add: newOutgoing_def)

text \<open>C6: messages of a room are sent one at a time and in order: the request the loop waits for is that of the first
  message of the queue, and no two rooms share a queue.\<close>

theorem sends_first_of_queue:
  assumes "send_run s" "rget (sendLoops s) roomId = Some (q, n)"
  shows "(\<exists>i rest. queue_at s q = i # rest \<and> MessageCall (CSend roomId i n) \<in> set (calls s)) \<and>
    (\<forall>r' n'. rget (sendLoops s) r' = Some (q, n') \<longrightarrow> r' = roomId)"
proof -
  have k: "loops_ok {} s" using send_run_ok[OF assms(1)] by (simp add: send_inv_def)
  show ?thesis using loops_okD(2,3)[OF k _ assms(2)] by simp
qed

theorem sends_first_of_queue_witness:
  "let input = \<lparr>si_body = ''hi'', si_attachments = None, si_threadRootId = None, si_alsoInChannel = None, si_suppressed = None\<rparr>;
       s = sendMessage ''r'' input ''i'' (createStore ''u'' 0)
   in (\<exists>i rest. queue_at s 0 = i # rest \<and> MessageCall (CSend ''r'' i 1) \<in> set (calls s)) \<and>
      (\<forall>r' n'. rget (sendLoops s) r' = Some (0, n') \<longrightarrow> r' = ''r'')"
  unfolding Let_def
  by (rule sends_first_of_queue, rule send_run.sent[OF send_run.start])
     (simp add: outgoing_of_def createStore_def initialState_def, code_simp)

end
