(* ===== verification/SyncSound.thy ===== *)
theory SyncSound
  imports HistoryStore
begin

text \<open>
  What the cursor of a timeline promises. The server numbers the changes of a room without gaps; a change
  is one version of one message. The client may receive a change late, twice, out of order or never, and
  asks for what it missed from its cursor. The run below interleaves the server's changes with everything
  that writes a timeline in \<open>TimelineStore\<close> and \<open>HistoryStore\<close>: deliveries, the two answers of a catch-up,
  pages before and after the window, and jumps, with pages that may have been asked for a window that is no
  longer there and read at any earlier time. The code tests neither, and a page that comes too late does
  break the promise (\<open>older_page_stale\<close>, and the property on late pages). So the run carries a flag that the code does
  not have: whether every page that the window was made of came in time. As long as it did, the cursor
  claims no change of the loaded range that is not held; and a jump in time, a room opened again and a
  catch-up that reads the newest page make the promise good again.
\<close>

section \<open>The server's side\<close>

definition same_version :: "message \<Rightarrow> message \<Rightarrow> bool" where
  \<comment> \<open>Two copies of a version differ at most in what only the viewer's own responses carry.\<close>
  "same_version a b \<longleftrightarrow> stripViewer a = stripViewer b"

definition server_log :: "message list \<Rightarrow> bool" where
  \<comment> \<open>Change \<open>n\<close> is the \<open>n\<close>-th entry; a message keeps its place, counted from 1, and its place is its own.\<close>
  "server_log L \<longleftrightarrow> map m_change_seq L = map (\<lambda>i. int i + 1) [0..<length L] \<and>
     (\<forall>a\<in>set L. 0 < m_seq a \<and> (\<forall>b\<in>set L. m_id a = m_id b \<longleftrightarrow> m_seq a = m_seq b))"

definition channel_log :: "message list \<Rightarrow> message set" where
  "channel_log L = {m \<in> set L. inChannel m}"

definition from_server :: "message list \<Rightarrow> message list \<Rightarrow> bool" where
  "from_server L ms \<longleftrightarrow> (\<forall>m\<in>set ms. \<exists>v\<in>set L. same_version m v)"

definition newer_in :: "message list \<Rightarrow> message \<Rightarrow> bool" where
  "newer_in ms m \<longleftrightarrow> (\<exists>x\<in>set ms. m_id x = m_id m \<and> m_change_seq m \<le> m_change_seq x)"

definition changes_page :: "message list \<Rightarrow> int \<Rightarrow> message_list \<Rightarrow> bool" where
  \<comment> \<open>The last page of \<open>GET messages?after_change_seq=k\<close>. \<open>last_change_seq\<close> was read before the messages,
    so the page may hold later changes too.\<close>
  "changes_page L k page \<longleftrightarrow> from_server L (ml_messages page) \<and> ml_last_change_seq page \<le> int (length L) \<and>
     (\<forall>m\<in>channel_log L. k < m_change_seq m \<and> m_change_seq m \<le> ml_last_change_seq page \<longrightarrow> newer_in (ml_messages page) m)"

definition latest_page :: "message list \<Rightarrow> message_list \<Rightarrow> bool" where
  \<comment> \<open>The newest page of the channel, with older messages left out when \<open>has_more\<close>.\<close>
  "latest_page L page \<longleftrightarrow> from_server L (ml_messages page) \<and> ml_last_change_seq page \<le> int (length L) \<and>
     (ml_has_more page \<longrightarrow> ml_messages page \<noteq> []) \<and>
     (\<forall>m\<in>channel_log L. m_change_seq m \<le> ml_last_change_seq page \<longrightarrow>
        (ml_has_more page \<longrightarrow> (\<exists>p\<in>set (ml_messages page). m_seq p \<le> m_seq m)) \<longrightarrow> newer_in (ml_messages page) m)"

definition older_page :: "message list \<Rightarrow> int \<Rightarrow> message_list \<Rightarrow> bool" where
  \<comment> \<open>\<open>GET messages?before_seq=n\<close>\<close>
  "older_page L n page \<longleftrightarrow> from_server L (ml_messages page) \<and> ml_last_change_seq page \<le> int (length L) \<and>
     (ml_has_more page \<longrightarrow> ml_messages page \<noteq> []) \<and> (\<forall>p\<in>set (ml_messages page). m_seq p < n) \<and>
     (\<forall>m\<in>channel_log L. m_change_seq m \<le> ml_last_change_seq page \<longrightarrow> m_seq m < n \<longrightarrow>
        (ml_has_more page \<longrightarrow> (\<exists>p\<in>set (ml_messages page). m_seq p \<le> m_seq m)) \<longrightarrow> newer_in (ml_messages page) m)"

definition newer_page :: "message list \<Rightarrow> int \<Rightarrow> message_list \<Rightarrow> bool" where
  \<comment> \<open>\<open>GET messages?after_seq=n\<close>; \<open>has_more\<close> is about the newer side here.\<close>
  "newer_page L n page \<longleftrightarrow> from_server L (ml_messages page) \<and> ml_last_change_seq page \<le> int (length L) \<and>
     (\<forall>p\<in>set (ml_messages page). n < m_seq p) \<and>
     (\<forall>m\<in>channel_log L. m_change_seq m \<le> ml_last_change_seq page \<longrightarrow> n < m_seq m \<longrightarrow>
        (ml_has_more page \<longrightarrow> (\<exists>p\<in>set (ml_messages page). m_seq m \<le> m_seq p)) \<longrightarrow> newer_in (ml_messages page) m)"

definition around_page :: "message list \<Rightarrow> message_list \<Rightarrow> bool" where
  \<comment> \<open>\<open>GET messages?around_message_id=i\<close>: a stretch of the channel, with more before it, after it, or both.\<close>
  "around_page L page \<longleftrightarrow> from_server L (ml_messages page) \<and> ml_last_change_seq page \<le> int (length L) \<and>
     (\<forall>m\<in>channel_log L. m_change_seq m \<le> ml_last_change_seq page \<longrightarrow>
        (ml_has_more page \<longrightarrow> (\<exists>p\<in>set (ml_messages page). m_seq p \<le> m_seq m)) \<longrightarrow>
        (ml_has_more_after page \<longrightarrow> (\<exists>p\<in>set (ml_messages page). m_seq m \<le> m_seq p)) \<longrightarrow> newer_in (ml_messages page) m)"

definition sync_sound :: "message list \<Rightarrow> timeline_state \<Rightarrow> bool" where
  "sync_sound L t \<longleftrightarrow> timeline_wf (tl_messages t) \<and> from_server L (tl_messages t) \<and>
     tl_changeSeq t \<le> int (length L) \<and>
     reflects (channel_log L) (tl_changeSeq t) (tl_hasOlder t) (tl_hasNewer t) (tl_messages t)"

section \<open>Pages that come in time\<close>

text \<open>The three conditions are not tested by the code: they say which runs keep the promise.\<close>

definition older_in_time :: "int \<Rightarrow> message_list \<Rightarrow> timeline_state \<Rightarrow> bool" where
  \<comment> \<open>The window still starts where the page was asked from, and nothing after the page was read is counted.\<close>
  "older_in_time n page t \<longleftrightarrow>
     map_option m_seq (at_first (tl_messages t)) = Some n \<and> tl_changeSeq t \<le> ml_last_change_seq page"

definition newer_in_time :: "int \<Rightarrow> message_list \<Rightarrow> timeline_state \<Rightarrow> bool" where
  "newer_in_time n page t \<longleftrightarrow>
     map_option m_seq (at_last (tl_messages t)) = Some n \<and> tl_changeSeq t \<le> ml_last_change_seq page"

definition jump_in_time :: "message_list \<Rightarrow> timeline_state \<Rightarrow> bool" where
  \<comment> \<open>An empty window has no end to tell what lies beyond it.\<close>
  "jump_in_time page t \<longleftrightarrow> tl_changeSeq t \<le> ml_last_change_seq page \<and>
     (ml_has_more page \<or> ml_has_more_after page \<longrightarrow> ml_messages page \<noteq> [])"

abbreviation unread_window :: "int \<Rightarrow> message_list \<Rightarrow> message_list" where
  \<comment> \<open>The page as \<open>jumpToUnread\<close> passes it on.\<close>
  "unread_window n page \<equiv> page\<lparr>ml_has_more := n > 0, ml_has_more_after := ml_has_more page\<rparr>"

inductive sync_run :: "message list \<Rightarrow> timeline_state \<Rightarrow> int option \<Rightarrow> bool \<Rightarrow> bool" where
  \<comment> \<open>The log so far, the timeline, the cursor of the catch-up in flight, and whether every page came in time.
    A page of an earlier log is also one of the present log, so pages may be read at any time.\<close>
  opened: \<comment> \<open>For the first time, or again while a catch-up of before is still in flight.\<close>
    "server_log L \<Longrightarrow> latest_page L page \<Longrightarrow> from_server L held \<Longrightarrow>
     sync_run L (openedTimeline room page held) k True"
| changed: "sync_run L t k w \<Longrightarrow> server_log (L @ [m]) \<Longrightarrow> sync_run (L @ [m]) t k w"
| delivered: "sync_run L t k w \<Longrightarrow> v \<in> set L \<Longrightarrow> same_version m v \<Longrightarrow> sync_run L (takeMessage m t) k w"
| asked: "sync_run L t None w \<Longrightarrow> sync_run L t (Some (tl_changeSeq t)) w"
| failed: "sync_run L t k w \<Longrightarrow> sync_run L t None w"
| caught_up: "sync_run L t (Some k) w \<Longrightarrow> changes_page L k page \<Longrightarrow>
    sync_run L (mergeChanges page t) None (w \<and> k \<le> tl_changeSeq t)"
| replaced: "sync_run L t (Some k) w \<Longrightarrow> latest_page L page \<Longrightarrow> sync_run L (takeLatest page t) None True"
| older: "sync_run L t k w \<Longrightarrow> older_page L n page \<Longrightarrow>
    sync_run L (takeOlder page t) k (w \<and> older_in_time n page t)"
| newer: "sync_run L t k w \<Longrightarrow> newer_page L n page \<Longrightarrow>
    sync_run L (takeNewer page t) k (w \<and> newer_in_time n page t)"
| jumped: "sync_run L t k w \<Longrightarrow> around_page L page \<Longrightarrow>
    sync_run L (windowFromPage page t) k (jump_in_time page t)"
| jumped_to_unread: "sync_run L t k w \<Longrightarrow> newer_page L n page \<Longrightarrow>
    sync_run L (windowFromPage (unread_window n page) t) k (jump_in_time (unread_window n page) t)"

section \<open>Versions\<close>

lemma strip_keys: "m_id (stripViewer m) = m_id m" "m_seq (stripViewer m) = m_seq m"
  "m_change_seq (stripViewer m) = m_change_seq m" "inChannel (stripViewer m) = inChannel m"
  by (simp_all add: stripViewer_def inChannel_def)

lemma same_versionD: "same_version a b \<Longrightarrow> m_id a = m_id b \<and> m_seq a = m_seq b \<and> m_change_seq a = m_change_seq b"
  unfolding same_version_def using strip_keys by metis

lemma same_version_refl [simp]: "same_version a a"
  by (simp add: same_version_def)

lemma log_nth: "server_log L \<Longrightarrow> i < length L \<Longrightarrow> m_change_seq (L ! i) = int i + 1"
  unfolding server_log_def by (auto dest: arg_cong[where f = "\<lambda>xs. xs ! i"])

lemma log_range: "server_log L \<Longrightarrow> v \<in> set L \<Longrightarrow> 0 < m_change_seq v \<and> m_change_seq v \<le> int (length L)"
  using log_nth by (fastforce simp: in_set_conv_nth)

lemma log_unique: "server_log L \<Longrightarrow> a \<in> set L \<Longrightarrow> b \<in> set L \<Longrightarrow> m_change_seq a = m_change_seq b \<Longrightarrow> a = b"
  using log_nth by (fastforce simp: in_set_conv_nth)

lemma log_prefix: "server_log (L @ [m]) \<Longrightarrow> server_log L"
  by (auto simp: server_log_def)

lemma from_server_range: "server_log L \<Longrightarrow> from_server L ms \<Longrightarrow> m \<in> set ms \<Longrightarrow> m_change_seq m \<le> int (length L)"
  unfolding from_server_def using log_range same_versionD by metis

lemma from_server_append: "from_server L ms \<Longrightarrow> from_server (L @ L') ms"
  by (auto simp: from_server_def)

lemma from_server_id:
  assumes "server_log L" "from_server L ms" "a \<in> set L" "b \<in> set ms" "m_change_seq a = m_change_seq b"
  shows "m_id a = m_id b"
proof -
  obtain v where v: "v \<in> set L" "same_version b v" using assms(2,4) by (auto simp: from_server_def)
  then have "a = v" using assms same_versionD log_unique by metis
  then show ?thesis using same_versionD[OF v(2)] by simp
qed

lemma from_server_merge:
  assumes "distinct (map m_id cur)" "from_server L cur" "from_server L inc"
  shows "from_server L (mergeMessages cur inc)"
proof (unfold from_server_def, intro ballI)
  fix x assume "x \<in> set (mergeMessages cur inc)"
  from mm.merge_newest[OF assms(1) this] obtain y where "y \<in> set cur \<union> set inc" "stripViewer x = stripViewer y" by blast
  then show "\<exists>v\<in>set L. same_version x v" using assms(2,3) by (auto simp: from_server_def same_version_def)
qed

lemma from_server_window:
  assumes "timeline_wf cur" "from_server L cur" "from_server L inc"
  shows "from_server L (mergeIntoWindow cur o' n inc)"
proof -
  have "from_server L (filter P inc)" for P using assms(3) by (simp add: from_server_def)
  then show ?thesis
    using assms by (simp add: mergeIntoWindow_windowed windowed_def Let_def from_server_merge timeline_wf_def)
qed

lemma advance_range:
  assumes "server_log L" "from_server L ms" "c \<le> int (length L)"
  shows "advanceCursor c ms \<le> int (length L)"
proof (cases "advanceCursor c ms = c")
  case False
  then have "advanceCursor c ms \<in> m_change_seq ` set ms"
    using advanceCursor_spec(1,2)[of c ms] by (auto simp: subset_eq)
  then show ?thesis using from_server_range[OF assms(1,2)] by auto
qed (simp add: assms)

lemma newer_inI: "x \<in> set ms \<Longrightarrow> m_id x = m_id m \<Longrightarrow> m_change_seq m \<le> m_change_seq x \<Longrightarrow> newer_in ms m"
  by (auto simp: newer_in_def)

lemma reflects_newer: "reflects S c o' n ms \<longleftrightarrow>
  (\<forall>m\<in>S. m_change_seq m \<le> c \<longrightarrow> inWindow o' n ms m \<longrightarrow> newer_in ms m)"
  by (simp add: reflects_def newer_in_def)

lemma inWindow_seq: "m_seq a = m_seq b \<Longrightarrow> inWindow o' n ms a = inWindow o' n ms b"
  unfolding inWindow_def by (simp only:)

lemma newer_in_window:
  assumes "timeline_wf cur" "newer_in cur m \<or> (newer_in inc m \<and> inWindow o' n cur m \<and> (\<forall>x\<in>set inc. m_id x = m_id m \<longrightarrow> m_seq x = m_seq m))"
  shows "newer_in (mergeIntoWindow cur o' n inc) m"
proof -
  obtain e where e: "m_id e = m_id m" "m_change_seq m \<le> m_change_seq e"
    "e \<in> set cur \<or> (e \<in> set inc \<and> inWindow o' n cur e)"
    using assms(2)
  proof (elim disjE conjE)
    assume "newer_in cur m"
    then show thesis using that by (auto simp: newer_in_def)
  next
    assume w: "inWindow o' n cur m" "\<forall>x\<in>set inc. m_id x = m_id m \<longrightarrow> m_seq x = m_seq m" and "newer_in inc m"
    then obtain x where x: "x \<in> set inc" "m_id x = m_id m" "m_change_seq m \<le> m_change_seq x" by (auto simp: newer_in_def)
    then have "m_seq x = m_seq m" using w(2) by blast
    then have "inWindow o' n cur x" using w(1) inWindow_seq by blast
    then show thesis using that x by blast
  qed
  from mm.windowed_no_regress[OF assms(1) e(3)] obtain x where
    "x \<in> set (mergeIntoWindow cur o' n inc)" "m_id x = m_id e" "m_change_seq e \<le> m_change_seq x"
    by (auto simp: mergeIntoWindow_windowed)
  then show ?thesis using e by (auto intro: newer_inI)
qed

lemma server_seq:
  assumes "server_log L" "from_server L ms" "a \<in> set L" "b \<in> set ms"
  shows "m_id b = m_id a \<longleftrightarrow> m_seq b = m_seq a"
proof -
  obtain v where "v \<in> set L" "same_version b v" using assms(2,4) by (auto simp: from_server_def)
  then show ?thesis using assms(1,3) same_versionD[of b v] unfolding server_log_def by auto
qed

section \<open>Every transition keeps the promise\<close>

lemma sync_sound_advance:
  \<comment> \<open>The shape all transitions share: merge into the window, move the cursor, then past what is held.\<close>
  assumes log: "server_log L" and t: "timeline_wf cur" "from_server L cur" and inc: "from_server L inc"
    and c: "c \<le> int (length L)"
    and held: "\<And>m. m \<in> channel_log L \<Longrightarrow> m_change_seq m \<le> c \<Longrightarrow> inWindow o' n cur m \<Longrightarrow> newer_in cur m \<or> newer_in inc m"
    and eq: "tl_messages t' = mergeIntoWindow cur o' n inc" "tl_hasOlder t' = o'" "tl_hasNewer t' = n"
      "tl_changeSeq t' = advanceCursor c (mergeIntoWindow cur o' n inc)"
  shows "sync_sound L t'"
proof -
  let ?ms = "mergeIntoWindow cur o' n inc"
  have fs: "from_server L ?ms" using from_server_window[OF t inc] .
  have "reflects (channel_log L) c o' n ?ms"
  proof (unfold reflects_newer, intro ballI impI)
    fix m assume m: "m \<in> channel_log L" "m_change_seq m \<le> c" "inWindow o' n ?ms m"
    have w: "inWindow o' n cur m" using mm.windowed_bounds[OF t(1)] m(3) by (simp add: mergeIntoWindow_windowed)
    have "\<forall>x\<in>set inc. m_id x = m_id m \<longrightarrow> m_seq x = m_seq m"
      using server_seq[OF log inc, of m] m(1) by (auto simp: channel_log_def)
    then show "newer_in ?ms m" using newer_in_window[OF t(1)] held[OF m(1,2) w] w by blast
  qed
  moreover have "m_id a = m_id b" if "a \<in> channel_log L" "b \<in> set ?ms" "m_change_seq a = m_change_seq b" for a b
    using from_server_id[OF log fs _ that(2,3)] that(1) by (simp add: channel_log_def)
  ultimately have "reflects (channel_log L) (advanceCursor c ?ms) o' n ?ms"
    by (rule reflects_advance)
  then show ?thesis
    using t advance_range[OF log fs c] fs mergeIntoWindow_wf[OF t(1)] by (simp add: sync_sound_def eq)
qed

lemma takeMessage_sound:
  assumes "server_log L" "sync_sound L t" "v \<in> set L" "same_version m v"
  shows "sync_sound L (takeMessage m t)"
proof (rule sync_sound_advance[OF assms(1), where cur = "tl_messages t" and inc = "[m]"
      and c = "if m_change_seq m = tl_changeSeq t + 1 then m_change_seq m else tl_changeSeq t"])
  show "from_server L [m]" using assms(3,4) by (auto simp: from_server_def)
  show "(if m_change_seq m = tl_changeSeq t + 1 then m_change_seq m else tl_changeSeq t) \<le> int (length L)"
    using assms(2) log_range[OF assms(1,3)] same_versionD[OF assms(4)] by (auto simp: sync_sound_def)
  fix x assume x: "x \<in> channel_log L" "inWindow (tl_hasOlder t) (tl_hasNewer t) (tl_messages t) x"
    "m_change_seq x \<le> (if m_change_seq m = tl_changeSeq t + 1 then m_change_seq m else tl_changeSeq t)"
  show "newer_in (tl_messages t) x \<or> newer_in [m] x"
  proof (cases "m_change_seq x \<le> tl_changeSeq t")
    case True
    then show ?thesis using assms(2) x(1,2) by (simp add: sync_sound_def reflects_newer)
  next
    case False
    then have "m_change_seq x = m_change_seq v" using x(3) same_versionD[OF assms(4)] by (auto split: if_splits)
    then have "x = v" using log_unique[OF assms(1) _ assms(3)] x(1) by (simp add: channel_log_def)
    then show ?thesis using same_versionD[OF assms(4)] by (simp add: newer_in_def)
  qed
qed (use assms(2) in \<open>simp_all add: sync_sound_def takeMessage_def Let_def\<close>)

lemma mergeChanges_sound:
  assumes "server_log L" "sync_sound L t" "changes_page L k page" "k \<le> tl_changeSeq t"
  shows "sync_sound L (mergeChanges page t)"
proof (rule sync_sound_advance[OF assms(1), where cur = "tl_messages t" and inc = "ml_messages page"
      and c = "max (tl_changeSeq t) (ml_last_change_seq page)"])
  fix x assume x: "x \<in> channel_log L" "inWindow (tl_hasOlder t) (tl_hasNewer t) (tl_messages t) x"
    "m_change_seq x \<le> max (tl_changeSeq t) (ml_last_change_seq page)"
  show "newer_in (tl_messages t) x \<or> newer_in (ml_messages page) x"
  proof (cases "m_change_seq x \<le> tl_changeSeq t")
    case True
    then show ?thesis using assms(2) x(1,2) by (simp add: sync_sound_def reflects_newer)
  next
    case False
    then show ?thesis using assms(3,4) x(1,3) by (auto simp: changes_page_def)
  qed
qed (use assms in \<open>simp_all add: sync_sound_def changes_page_def mergeChanges_def Let_def\<close>)

lemma replaceByLatest_sound:
  assumes log: "server_log L" and page: "latest_page L page" and held: "from_server L held"
    and eq: "tl_messages t' = replaceByLatest page held" "tl_hasOlder t' = ml_has_more page" "\<not> tl_hasNewer t'"
      "tl_changeSeq t' = advanceCursor (ml_last_change_seq page) (replaceByLatest page held)"
  shows "sync_sound L t'"
proof (rule sync_sound_advance[OF log, where cur = "mergeMessages [] (ml_messages page)"
      and inc = "filter (\<lambda>m. m_change_seq m > ml_last_change_seq page) held" and c = "ml_last_change_seq page"])
  let ?base = "mergeMessages [] (ml_messages page)"
  show wf: "timeline_wf ?base" by (rule mm.merge_wf)
  show "from_server L (filter (\<lambda>m. m_change_seq m > ml_last_change_seq page) held)"
    using held by (simp add: from_server_def)
  show fs: "from_server L ?base"
    using page from_server_merge[of "[]" L "ml_messages page"] by (simp add: latest_page_def from_server_def)
  show "ml_last_change_seq page \<le> int (length L)" using page by (simp add: latest_page_def)
  fix x assume x: "x \<in> channel_log L" "m_change_seq x \<le> ml_last_change_seq page"
    "inWindow (ml_has_more page) False ?base x"
  have "newer_in (ml_messages page) x"
  proof (cases "ml_has_more page")
    case True
    then obtain p ps where p: "ml_messages page = p # ps" using page by (auto simp: latest_page_def neq_Nil_conv)
    have "ids ?base = ids (ml_messages page)" using mm.merge_ids[of "[]" "ml_messages page"] by (simp add: ids_def)
    then have "?base \<noteq> []" using p by (auto simp: ids_def)
    then obtain b bs where b: "?base = b # bs" by (cases ?base) auto
    then have "m_seq b \<le> m_seq x" using x(3) True by (simp add: inWindow_def at_first_def)
    moreover obtain y where "y \<in> set (ml_messages page)" "stripViewer b = stripViewer y"
      using mm.merge_newest[of "[]" b "ml_messages page"] b by auto
    ultimately have "\<exists>y\<in>set (ml_messages page). m_seq y \<le> m_seq x" using strip_keys(2) by metis
    then show ?thesis using page x(1,2) by (simp add: latest_page_def)
  qed (use page x in \<open>simp add: latest_page_def\<close>)
  then have "newer_in ?base x"
    using mm.merge_no_regress[of "[]" _ "ml_messages page"] by (fastforce simp: newer_in_def)
  then show "newer_in ?base x \<or> newer_in (filter (\<lambda>m. m_change_seq m > ml_last_change_seq page) held) x" by simp
qed (use eq in \<open>simp_all add: replaceByLatest_def\<close>)

lemma cursor_grows: "tl_changeSeq t \<le> tl_changeSeq (takeMessage m t)"
proof -
  have "c \<le> advanceCursor d ms" if "c \<le> d" for c d ms using advanceCursor_spec(1)[of d ms] that by simp
  then show ?thesis by (simp add: takeMessage_def Let_def)
qed

section \<open>Up to date\<close>

definition newest_version :: "message list \<Rightarrow> message \<Rightarrow> bool" where
  \<comment> \<open>No later change of the room is about this message.\<close>
  "newest_version L v \<longleftrightarrow> v \<in> set L \<and> (\<forall>w\<in>set L. m_id w = m_id v \<longrightarrow> m_change_seq w \<le> m_change_seq v)"

lemma sound_up_to_date:
  assumes log: "server_log L" and t: "sync_sound L t" "tl_changeSeq t = int (length L)"
    and v: "newest_version L v" "inChannel v" "inWindow (tl_hasOlder t) (tl_hasNewer t) (tl_messages t) v"
  shows "\<exists>x\<in>set (tl_messages t). same_version x v"
proof -
  have vL: "v \<in> set L" using v(1) by (simp add: newest_version_def)
  then have "newer_in (tl_messages t) v"
    using t v(2,3) log_range[OF log] by (simp add: sync_sound_def reflects_newer channel_log_def)
  then obtain x where x: "x \<in> set (tl_messages t)" "m_id x = m_id v" "m_change_seq v \<le> m_change_seq x"
    by (auto simp: newer_in_def)
  obtain w where w: "w \<in> set L" "same_version x w"
    using t(1) x(1) by (auto simp: sync_sound_def from_server_def)
  have "m_change_seq w \<le> m_change_seq v" using v(1) w(1) same_versionD[OF w(2)] x(2) by (simp add: newest_version_def)
  then have "m_change_seq w = m_change_seq v" using x(3) same_versionD[OF w(2)] by simp
  then have "w = v" using log_unique[OF log w(1) vL] by simp
  then show ?thesis using w(2) x(1) by blast
qed

lemma sound_no_hole:
  assumes "server_log L" "sync_sound L t" "tl_changeSeq t = int (length L)"
  shows "covers (channel_log L) (tl_hasOlder t) (tl_hasNewer t) (tl_messages t)"
proof (unfold covers_def, intro ballI impI)
  fix m assume m: "m \<in> channel_log L" "inWindow (tl_hasOlder t) (tl_hasNewer t) (tl_messages t) m"
  then have "m_change_seq m \<le> tl_changeSeq t" using assms(3) log_range[OF assms(1)] by (simp add: channel_log_def)
  then have "newer_in (tl_messages t) m" using assms(2) m by (simp add: sync_sound_def reflects_newer)
  then show "m_id m \<in> ids (tl_messages t)" by (auto simp: newer_in_def ids_def image_iff intro: sym)
qed

section \<open>Pages before the window\<close>

lemma newer_in_merge:
  assumes "distinct (map m_id cur)" "newer_in cur m \<or> newer_in inc m"
  shows "newer_in (mergeMessages cur inc) m"
proof -
  obtain e where e: "e \<in> set cur \<or> e \<in> set inc" "m_id e = m_id m" "m_change_seq m \<le> m_change_seq e"
    using assms(2) by (auto simp: newer_in_def)
  from mm.merge_no_regress[OF assms(1) e(1)] e show ?thesis by (force simp: newer_in_def)
qed

lemma merged_end:
  \<comment> \<open>A message at either end of a merge is a version of one of its inputs.\<close>
  assumes "distinct (map m_id cur)" "y \<in> set (mergeMessages cur inc)"
  obtains z where "z \<in> set cur \<union> set inc" "m_seq z = m_seq y"
  using mm.merge_newest[OF assms] strip_keys(2) by metis

lemma takeOlder_above:
  \<comment> \<open>What the merge holds at or after the old first message was inside the old window.\<close>
  assumes wf: "timeline_wf cur" "at_first cur = Some oldest"
    and page: "\<forall>p\<in>set inc. m_seq p < m_seq oldest"
    and m: "inWindow o2 n (mergeMessages cur inc) m" "m_seq oldest \<le> m_seq m"
  shows "inWindow o1 n cur m"
proof -
  have d: "distinct (map m_id cur)" using wf(1) by (simp add: timeline_wf_def)
  have old: "oldest \<in> set cur" using wf(2) by (auto simp: at_first_def split: list.splits)
  have "m_seq m \<le> m_seq (last cur)" if n: n
  proof -
    have "mergeMessages cur inc \<noteq> []" using mm.merge_ids[OF d, of inc] old by (auto simp: ids_def)
    then obtain y where y: "at_last (mergeMessages cur inc) = Some y" "y \<in> set (mergeMessages cur inc)"
      by (auto simp: at_last_def)
    obtain z where z: "z \<in> set cur \<union> set inc" "m_seq z = m_seq y" using merged_end[OF d y(2)] by blast
    have "m_seq z \<le> m_seq (last cur)"
      using z(1) page timeline_last_greatest[OF wf(1)] old by fastforce
    then show ?thesis using m(1) n y(1) z(2) by (simp add: inWindow_def)
  qed
  then show ?thesis using m(2) wf(2) by (auto simp: inWindow_def at_last_def)
qed

lemma takeOlder_below:
  assumes wf: "timeline_wf cur" "at_first cur = Some oldest"
    and m: "inWindow True n (mergeMessages cur inc) m" "m_seq m < m_seq oldest"
  shows "\<exists>p\<in>set inc. m_seq p \<le> m_seq m"
proof -
  have d: "distinct (map m_id cur)" using wf(1) by (simp add: timeline_wf_def)
  have old: "oldest \<in> set cur" "hd cur = oldest" using wf(2) by (auto simp: at_first_def split: list.splits)
  have "mergeMessages cur inc \<noteq> []" using mm.merge_ids[OF d, of inc] old by (auto simp: ids_def)
  then obtain b where b: "at_first (mergeMessages cur inc) = Some b" "b \<in> set (mergeMessages cur inc)"
    by (auto simp: at_first_def neq_Nil_conv)
  obtain z where z: "z \<in> set cur \<union> set inc" "m_seq z = m_seq b" using merged_end[OF d b(2)] by blast
  have "m_seq z \<le> m_seq m" using m(1) b(1) z(2) by (simp add: inWindow_def)
  moreover have "m_seq oldest \<le> m_seq z" if "z \<in> set cur"
    using timeline_first_least[OF wf(1) that] old(2) by simp
  ultimately show ?thesis using z(1) m(2) by auto
qed

lemma takeOlder_sound:
  \<comment> \<open>A page that ends where the window starts, read no earlier than the cursor.\<close>
  assumes log: "server_log L" and t: "sync_sound L t" "at_first (tl_messages t) = Some oldest"
    and page: "older_page L (m_seq oldest) page" "tl_changeSeq t \<le> ml_last_change_seq page"
  shows "sync_sound L (takeOlder page t)"
proof -
  let ?ms = "mergeMessages (tl_messages t) (ml_messages page)"
  have wf: "timeline_wf (tl_messages t)" "distinct (map m_id (tl_messages t))"
    using t(1) by (simp_all add: sync_sound_def timeline_wf_def)
  have fs: "from_server L ?ms"
    using from_server_merge[OF wf(2)] t(1) page(1) by (simp add: sync_sound_def older_page_def)
  have below: "\<forall>p\<in>set (ml_messages page). m_seq p < m_seq oldest" using page(1) by (simp add: older_page_def)
  have "newer_in ?ms m"
    if m: "m \<in> channel_log L" "m_change_seq m \<le> tl_changeSeq t" "inWindow (ml_has_more page) (tl_hasNewer t) ?ms m" for m
  proof (rule newer_in_merge[OF wf(2)], cases "m_seq oldest \<le> m_seq m")
    case True
    have "inWindow (tl_hasOlder t) (tl_hasNewer t) (tl_messages t) m"
      by (rule takeOlder_above[OF wf(1) t(2) below m(3) True])
    then show "newer_in (tl_messages t) m \<or> newer_in (ml_messages page) m"
      using t(1) m(1,2) by (simp add: sync_sound_def reflects_newer)
  next
    case False
    then have "ml_has_more page \<Longrightarrow> \<exists>p\<in>set (ml_messages page). m_seq p \<le> m_seq m"
      using takeOlder_below[OF wf(1) t(2), of "tl_hasNewer t" "ml_messages page" m] m(3) by simp
    then show "newer_in (tl_messages t) m \<or> newer_in (ml_messages page) m"
      using page m(1,2) False by (auto simp: older_page_def)
  qed
  then show ?thesis
    using t(1) fs mm.merge_wf by (simp add: sync_sound_def takeOlder_def reflects_newer)
qed

section \<open>Pages after the window, and windows made of one page\<close>

lemma takeNewer_below:
  \<comment> \<open>What the merge holds at or before the old last message was inside the old window.\<close>
  assumes wf: "timeline_wf cur" "at_last cur = Some newest"
    and page: "\<forall>p\<in>set inc. m_seq newest < m_seq p"
    and m: "inWindow o' n2 (mergeMessages cur inc) m" "m_seq m \<le> m_seq newest"
  shows "inWindow o' n1 cur m"
proof -
  have d: "distinct (map m_id cur)" using wf(1) by (simp add: timeline_wf_def)
  have new: "newest \<in> set cur" using wf(2) by (auto simp: at_last_def split: if_splits)
  have "m_seq (hd cur) \<le> m_seq m" if o: o'
  proof -
    have "mergeMessages cur inc \<noteq> []" using mm.merge_ids[OF d, of inc] new by (auto simp: ids_def)
    then obtain y where y: "at_first (mergeMessages cur inc) = Some y" "y \<in> set (mergeMessages cur inc)"
      by (auto simp: at_first_def neq_Nil_conv)
    obtain z where z: "z \<in> set cur \<union> set inc" "m_seq z = m_seq y" using merged_end[OF d y(2)] by blast
    have "m_seq (hd cur) \<le> m_seq z"
      using z(1) page timeline_first_least[OF wf(1)] new by fastforce
    then show ?thesis using m(1) o y(1) z(2) by (simp add: inWindow_def)
  qed
  then show ?thesis using m(2) wf(2) new by (auto simp: inWindow_def at_first_def split: list.splits)
qed

lemma takeNewer_above:
  assumes wf: "timeline_wf cur" "at_last cur = Some newest"
    and m: "inWindow o' True (mergeMessages cur inc) m" "m_seq newest < m_seq m"
  shows "\<exists>p\<in>set inc. m_seq m \<le> m_seq p"
proof -
  have d: "distinct (map m_id cur)" using wf(1) by (simp add: timeline_wf_def)
  have new: "newest \<in> set cur" "last cur = newest" using wf(2) by (auto simp: at_last_def split: if_splits)
  have "mergeMessages cur inc \<noteq> []" using mm.merge_ids[OF d, of inc] new by (auto simp: ids_def)
  then obtain b where b: "at_last (mergeMessages cur inc) = Some b" "b \<in> set (mergeMessages cur inc)"
    by (auto simp: at_last_def)
  obtain z where z: "z \<in> set cur \<union> set inc" "m_seq z = m_seq b" using merged_end[OF d b(2)] by blast
  have "m_seq m \<le> m_seq z" using m(1) b(1) z(2) by (simp add: inWindow_def)
  moreover have "m_seq z \<le> m_seq newest" if "z \<in> set cur"
    using timeline_last_greatest[OF wf(1) that] new(2) by simp
  ultimately show ?thesis using z(1) m(2) by auto
qed

lemma reflects_cursor:
  assumes "server_log L" "from_server L ms" "reflects (channel_log L) c o' n ms"
  shows "reflects (channel_log L) (advanceCursor c ms) o' n ms"
  using assms(3) by (rule reflects_advance) (use from_server_id[OF assms(1,2)] in \<open>auto simp: channel_log_def\<close>)

lemma takeNewer_sound:
  assumes log: "server_log L" and t: "sync_sound L t" and page: "newer_page L n page" "newer_in_time n page t"
  shows "sync_sound L (takeNewer page t)"
proof -
  let ?ms = "mergeMessages (tl_messages t) (ml_messages page)"
  obtain newest where last: "at_last (tl_messages t) = Some newest" "n = m_seq newest"
    using page(2) by (auto simp: newer_in_time_def)
  have c: "tl_changeSeq t \<le> ml_last_change_seq page" using page(2) by (simp add: newer_in_time_def)
  have wf: "timeline_wf (tl_messages t)" "distinct (map m_id (tl_messages t))"
    using t by (simp_all add: sync_sound_def timeline_wf_def)
  have fs: "from_server L ?ms"
    using from_server_merge[OF wf(2)] t page(1) by (simp add: sync_sound_def newer_page_def)
  have above: "\<forall>p\<in>set (ml_messages page). m_seq newest < m_seq p" using page(1) last(2) by (simp add: newer_page_def)
  have "newer_in ?ms m"
    if m: "m \<in> channel_log L" "m_change_seq m \<le> tl_changeSeq t" "inWindow (tl_hasOlder t) (ml_has_more page) ?ms m" for m
  proof (rule newer_in_merge[OF wf(2)], cases "m_seq m \<le> m_seq newest")
    case True
    have "inWindow (tl_hasOlder t) (tl_hasNewer t) (tl_messages t) m"
      by (rule takeNewer_below[OF wf(1) last(1) above m(3) True])
    then show "newer_in (tl_messages t) m \<or> newer_in (ml_messages page) m"
      using t m(1,2) by (simp add: sync_sound_def reflects_newer)
  next
    case False
    then have "ml_has_more page \<Longrightarrow> \<exists>p\<in>set (ml_messages page). m_seq m \<le> m_seq p"
      using takeNewer_above[OF wf(1) last(1), of "tl_hasOlder t" "ml_messages page" m] m(3) by simp
    then show "newer_in (tl_messages t) m \<or> newer_in (ml_messages page) m"
      using page(1) m(1,2) c last(2) False by (auto simp: newer_page_def)
  qed
  then have "reflects (channel_log L) (tl_changeSeq t) (tl_hasOlder t) (ml_has_more page) ?ms"
    by (simp add: reflects_newer)
  then show ?thesis
    using t fs mm.merge_wf reflects_cursor[OF log fs] advance_range[OF log fs]
    by (simp add: sync_sound_def takeNewer_def Let_def)
qed

lemma base_end:
  \<comment> \<open>The ends of a window made of one page are places of the page.\<close>
  assumes "ms \<noteq> []"
  obtains a b where "at_first (mergeMessages [] ms) = Some a" "at_last (mergeMessages [] ms) = Some b"
    "m_seq a \<in> m_seq ` set ms" "m_seq b \<in> m_seq ` set ms"
proof -
  have "ids (mergeMessages [] ms) = ids ms" using mm.merge_ids[of "[]" ms] by (simp add: ids_def)
  then have ne: "mergeMessages [] ms \<noteq> []" using assms by (auto simp: ids_def)
  have "m_seq y \<in> m_seq ` set ms" if y: "y \<in> set (mergeMessages [] ms)" for y
  proof -
    obtain z where "z \<in> set ms" "m_seq z = m_seq y" by (rule merged_end[of "[]" y ms]) (use y in auto)
    then show ?thesis by (auto simp: image_iff intro: sym)
  qed
  then show thesis using that[of "hd (mergeMessages [] ms)" "last (mergeMessages [] ms)"] ne
    by (simp add: at_first_def at_last_def list.case_eq_if)
qed

lemma windowFromPage_sound:
  assumes log: "server_log L" and page: "around_page L page" "jump_in_time page t"
  shows "sync_sound L (windowFromPage page t)"
proof -
  let ?base = "mergeMessages [] (ml_messages page)" and ?c = "max (tl_changeSeq t) (ml_last_change_seq page)"
  have fs: "from_server L ?base"
    using page(1) from_server_merge[of "[]" L "ml_messages page"] by (simp add: around_page_def from_server_def)
  have c: "?c = ml_last_change_seq page" using page(2) by (simp add: jump_in_time_def)
  have "newer_in ?base m"
    if m: "m \<in> channel_log L" "m_change_seq m \<le> ?c" "inWindow (ml_has_more page) (ml_has_more_after page) ?base m" for m
  proof (rule newer_in_merge)
    show "newer_in [] m \<or> newer_in (ml_messages page) m"
    proof (cases "ml_messages page = []")
      case True
      then show ?thesis using page m(1,2) c by (simp add: around_page_def jump_in_time_def)
    next
      case False
      then obtain a b where ends: "at_first ?base = Some a" "at_last ?base = Some b"
        "m_seq a \<in> m_seq ` set (ml_messages page)" "m_seq b \<in> m_seq ` set (ml_messages page)"
        by (rule base_end)
      have "ml_has_more page \<longrightarrow> m_seq a \<le> m_seq m" "ml_has_more_after page \<longrightarrow> m_seq m \<le> m_seq b"
        using m(3) ends(1,2) by (simp_all add: inWindow_def)
      then show ?thesis using page(1) m(1,2) c ends(3,4) by (fastforce simp: around_page_def)
    qed
  qed simp
  then have "reflects (channel_log L) ?c (ml_has_more page) (ml_has_more_after page) ?base"
    by (simp add: reflects_newer)
  then show ?thesis
    using page(1) c fs mm.merge_wf reflects_cursor[OF log fs] advance_range[OF log fs]
    by (simp add: sync_sound_def windowFromPage_def Let_def around_page_def)
qed

lemma unread_page:
  \<comment> \<open>The page of \<open>jumpToUnread\<close> is a stretch of the channel: places are counted from 1.\<close>
  assumes "server_log L" "newer_page L n page"
  shows "around_page L (unread_window n page)"
proof -
  have "n < m_seq m" if "m \<in> channel_log L" "n > 0 \<longrightarrow> (\<exists>p\<in>set (ml_messages page). m_seq p \<le> m_seq m)" for m
    using assms that by (cases "n > 0") (fastforce simp: newer_page_def server_log_def channel_log_def)+
  then show ?thesis using assms(2) by (auto simp: around_page_def newer_page_def)
qed

section \<open>Every run\<close>

definition held_real :: "message list \<Rightarrow> timeline_state \<Rightarrow> bool" where
  "held_real L t \<longleftrightarrow> timeline_wf (tl_messages t) \<and> from_server L (tl_messages t) \<and> tl_changeSeq t \<le> int (length L)"

lemma sync_sound_real: "sync_sound L t \<Longrightarrow> held_real L t"
  by (simp add: sync_sound_def held_real_def)

lemma merge_real:
  assumes "server_log L" "held_real L t" "from_server L inc" "c \<le> int (length L)"
  shows "timeline_wf (mergeMessages (tl_messages t) inc)" "from_server L (mergeMessages (tl_messages t) inc)"
    "advanceCursor c (mergeMessages (tl_messages t) inc) \<le> int (length L)"
proof -
  have d: "distinct (map m_id (tl_messages t))" using assms(2) by (simp add: held_real_def timeline_wf_def)
  then show fs: "from_server L (mergeMessages (tl_messages t) inc)"
    using assms(2,3) from_server_merge by (simp add: held_real_def)
  show "timeline_wf (mergeMessages (tl_messages t) inc)" by (rule mm.merge_wf)
  show "advanceCursor c (mergeMessages (tl_messages t) inc) \<le> int (length L)" by (rule advance_range[OF assms(1) fs assms(4)])
qed

lemma window_real:
  assumes "server_log L" "held_real L t" "from_server L inc" "c \<le> int (length L)"
  shows "timeline_wf (mergeIntoWindow (tl_messages t) o' n inc)" "from_server L (mergeIntoWindow (tl_messages t) o' n inc)"
    "advanceCursor c (mergeIntoWindow (tl_messages t) o' n inc) \<le> int (length L)"
proof -
  have t: "timeline_wf (tl_messages t)" "from_server L (tl_messages t)" using assms(2) by (simp_all add: held_real_def)
  show "timeline_wf (mergeIntoWindow (tl_messages t) o' n inc)" by (rule mergeIntoWindow_wf[OF t(1)])
  show fs: "from_server L (mergeIntoWindow (tl_messages t) o' n inc)" by (rule from_server_window[OF t assms(3)])
  show "advanceCursor c (mergeIntoWindow (tl_messages t) o' n inc) \<le> int (length L)" by (rule advance_range[OF assms(1) fs assms(4)])
qed

lemma windowFromPage_real:
  assumes "server_log L" "held_real L t" "around_page L page"
  shows "held_real L (windowFromPage page t)"
proof -
  have empty: "held_real L (t\<lparr>tl_messages := []\<rparr>)"
    using assms(2) by (simp add: held_real_def from_server_def timeline_wf_def)
  have page: "from_server L (ml_messages page)" "ml_last_change_seq page \<le> int (length L)"
    using assms(3) by (simp_all add: around_page_def)
  have "max (tl_changeSeq t) (ml_last_change_seq page) \<le> int (length L)"
    using assms(2) page(2) by (simp add: held_real_def)
  from merge_real[OF assms(1) empty page(1) this] show ?thesis
    by (simp add: held_real_def windowFromPage_def Let_def)
qed

lemma sync_run_sound: "sync_run L t k w \<Longrightarrow> server_log L \<and> held_real L t \<and> (w \<longrightarrow> sync_sound L t)"
proof (induction rule: sync_run.induct)
  case (opened L page held room k)
  then have "sync_sound L (openedTimeline room page held)"
    by (auto intro!: replaceByLatest_sound[where held = held and page = page] simp: openedTimeline_def Let_def)
  then show ?case using opened sync_sound_real by blast
next
  case (changed L t k w m)
  have m: "m_change_seq m = int (length L) + 1" using log_nth[OF changed.hyps(2), of "length L"] by simp
  have "channel_log (L @ [m]) \<subseteq> insert m (channel_log L)" by (auto simp: channel_log_def)
  then have "sync_sound L t \<Longrightarrow> sync_sound (L @ [m]) t"
    using m by (auto simp: sync_sound_def reflects_def from_server_append)
  then show ?case using changed by (auto simp: held_real_def from_server_append)
next
  case (delivered L t k w v m)
  have "from_server L [m]" using delivered.hyps by (auto simp: from_server_def)
  moreover have "m_change_seq m \<le> int (length L)"
    using delivered log_range same_versionD[OF delivered.hyps(3)] by fastforce
  ultimately have "held_real L (takeMessage m t)"
    using delivered.IH window_real[of L t "[m]"] by (auto simp: held_real_def takeMessage_def Let_def)
  then show ?case using delivered takeMessage_sound by blast
next
  case (caught_up L t k w page)
  then have "held_real L (mergeChanges page t)"
    using window_real[of L t "ml_messages page"] by (auto simp: held_real_def mergeChanges_def Let_def changes_page_def)
  then show ?case using caught_up mergeChanges_sound by blast
next
  case (replaced L t k w page)
  then have "sync_sound L (takeLatest page t)"
    by (intro replaceByLatest_sound[where held = "tl_messages t" and page = page]) (simp_all add: takeLatest_def Let_def held_real_def)
  then show ?case using replaced sync_sound_real by blast
next
  case (older L t k w n page)
  then have "held_real L (takeOlder page t)"
    using merge_real[of L t "ml_messages page" 0] by (auto simp: held_real_def takeOlder_def older_page_def)
  then show ?case using older takeOlder_sound[of L t _ page] by (auto simp: older_in_time_def)
next
  case (newer L t k w n page)
  then have "held_real L (takeNewer page t)"
    using merge_real[of L t "ml_messages page"] by (auto simp: held_real_def takeNewer_def Let_def newer_page_def)
  then show ?case using newer takeNewer_sound by blast
next
  case (jumped L t k w page)
  then show ?case using windowFromPage_real windowFromPage_sound by blast
next
  case (jumped_to_unread L t k w n page)
  then show ?case using windowFromPage_real windowFromPage_sound unread_page by blast
qed auto

section \<open>Noticing what was missed\<close>

lemma afterNewMessages_cursor:
  "map_option tl_changeSeq (rget (s_timelines (state (afterNewMessages r p added s))) r') =
     map_option tl_changeSeq (rget (s_timelines (state s)) r')" (is ?c)
  "map_option tl_status (rget (s_timelines (state (afterNewMessages r p added s))) r') =
     map_option tl_status (rget (s_timelines (state s)) r')" (is ?s)
proof -
  have patch: "map_option tl_changeSeq (rget (s_timelines (state (patchTimeline r (\<lambda>t. t\<lparr>tl_unreadAfterSeq := u\<rparr>) s))) r') =
      map_option tl_changeSeq (rget (s_timelines (state s)) r')"
    "map_option tl_status (rget (s_timelines (state (patchTimeline r (\<lambda>t. t\<lparr>tl_unreadAfterSeq := u\<rparr>) s))) r') =
      map_option tl_status (rget (s_timelines (state s)) r')" for u
    by (simp_all add: patchTimeline_def option.map_comp comp_def)
  show ?c ?s by (simp_all add: afterNewMessages_def Let_def patch split: option.splits)
qed

lemma syncTimeline_runs:
  \<comment> \<open>Asking for a catch-up of a ready timeline leaves one in progress.\<close>
  assumes "map_option tl_status (rget (s_timelines (state s)) r) = Some Ready"
  shows "rget (syncing (syncTimeline r s)) r \<noteq> None"
  using assms by (auto simp: syncTimeline_def syncOnce_def split: option.splits)

lemma receiveMessage_cases:
  obtains (shared) "receiveMessage m created s = receiveShared m created s"
      "\<And>t. rget (s_timelines (state (receiveShared m created s))) (m_room_id m) = Some t \<Longrightarrow>
         tl_status t \<noteq> Ready \<or> m_change_seq m \<le> tl_changeSeq t"
  | (loading) t where "rget (s_timelines (state (receiveShared m created s))) (m_room_id m) = Some t" "tl_status t = Loading"
      "receiveMessage m created s =
         patchTimeline (m_room_id m) (\<lambda>t'. t'\<lparr>tl_messages := mergeMessages (tl_messages t) [m]\<rparr>) (receiveShared m created s)"
  | (taken) t s3 where "rget (s_timelines (state (receiveShared m created s))) (m_room_id m) = Some t" "tl_status t = Ready"
      "tl_changeSeq t < m_change_seq m"
      "s3 = afterNewMessages (m_room_id m) (newestChannelSeq (tl_messages t)) [m]
         (patchTimeline (m_room_id m) (takeMessage m) (receiveShared m created s))"
      "receiveMessage m created s = (if m_change_seq m > tl_changeSeq t + 1 \<and> tl_changeSeq (takeMessage m t) < m_change_seq m
         then syncTimeline (m_room_id m) s3 else s3)"
proof (cases "rget (s_timelines (state (receiveShared m created s))) (m_room_id m)")
  case None
  then show ?thesis using shared by (simp add: receiveMessage_def Let_def)
next
  case (Some t)
  consider "tl_status t = Loading" | "tl_status t \<noteq> Loading" "tl_status t \<noteq> Ready \<or> m_change_seq m \<le> tl_changeSeq t"
    | "tl_status t = Ready" "tl_changeSeq t < m_change_seq m" by fastforce
  then show ?thesis
  proof cases
    case 1
    then show ?thesis using loading[OF Some] Some by (simp add: receiveMessage_def Let_def)
  next
    case 2
    then show ?thesis using shared Some by (auto simp: receiveMessage_def Let_def)
  next
    case 3
    then show ?thesis using taken[OF Some 3 refl] Some by (simp add: receiveMessage_def Let_def)
  qed
qed

lemma takeMessage_next: "m_change_seq m = tl_changeSeq t + 1 \<Longrightarrow> m_change_seq m \<le> tl_changeSeq (takeMessage m t)"
  using advanceCursor_spec(1) by (simp add: takeMessage_def Let_def)

lemma receiveMessage_gap:
  assumes "rget (s_timelines (state (receiveMessage m created s))) (m_room_id m) = Some t" "tl_status t = Ready"
    "tl_changeSeq t < m_change_seq m"
  shows "rget (syncing (receiveMessage m created s)) (m_room_id m) \<noteq> None"
proof (cases rule: receiveMessage_cases[of m created s])
  case shared
  then show ?thesis using assms shared(2)[of t] by simp
next
  case (loading t')
  then show ?thesis using assms by (auto simp: patchTimeline_def)
next
  case (taken t' s3)
  let ?cond = "m_change_seq m > tl_changeSeq t' + 1 \<and> tl_changeSeq (takeMessage m t') < m_change_seq m"
  have "map_option tl_changeSeq (rget (s_timelines (state s3)) (m_room_id m)) = Some (tl_changeSeq (takeMessage m t'))"
    "map_option tl_status (rget (s_timelines (state s3)) (m_room_id m)) = Some Ready"
    unfolding taken(4) afterNewMessages_cursor using taken(1,2) by (simp_all add: patchTimeline_def takeMessage_def Let_def)
  moreover have "rget (s_timelines (state s3)) (m_room_id m) = Some t"
    using assms(1) taken(5) by (cases ?cond) simp_all
  ultimately have c: "tl_changeSeq t = tl_changeSeq (takeMessage m t')"
    and ready: "map_option tl_status (rget (s_timelines (state s3)) (m_room_id m)) = Some Ready" by simp_all
  have "m_change_seq m \<noteq> tl_changeSeq t' + 1" using takeMessage_next[of m t'] assms(3) c by linarith
  then have ?cond using taken(3) assms(3) c by simp
  then have "receiveMessage m created s = syncTimeline (m_room_id m) s3" unfolding taken(5) by (rule if_P)
  then show ?thesis using syncTimeline_runs[OF ready] by simp
qed

section \<open>Counterexamples\<close>

definition demo_timeline :: "message list \<Rightarrow> bool \<Rightarrow> int \<Rightarrow> timeline_state" where
  "demo_timeline ms older cursor = \<lparr>tl_status = Ready, tl_messages = ms, tl_hasOlder = older, tl_loadingOlder = False,
     tl_hasNewer = False, tl_loadingNewer = False, tl_unreadAfterSeq = None, tl_unreadAtOpen = 0, tl_changeSeq = cursor\<rparr>"

lemma channel_log_filter: "channel_log L = set (filter inChannel L)"
  by (auto simp: channel_log_def)

lemma sample_inChannel: "inChannel (sample_message i s c)"
  by (simp add: inChannel_def)

lemmas evaluate = samples demo_timeline_def takeMessage_def takeOlder_def windowFromPage_def mergeIntoWindow_def
  inWindow_def at_first_def at_last_def advanceCursor_def advance_loop.simps mergeMessages_def indexById_def mergeOne_def
  takeUpdate_def keepMyReactions_def js_sort_def Let_def

lemmas sync_predicates = sync_sound_def from_server_def reflects_def channel_log_filter sample_inChannel timeline_wf_def
  older_page_def latest_page_def changes_page_def newer_in_def server_log_def same_version_def

lemma demo_edit: "takeMessage (sample_message ''a'' 1 3) (demo_timeline [sample_message ''b'' 2 2] True 2) =
    demo_timeline [sample_message ''b'' 2 2] True 3"
  by (simp add: evaluate)

lemma demo_older: "takeOlder (sample_page [sample_message ''a'' 1 1] False 2) (demo_timeline [sample_message ''b'' 2 2] True 3) =
    demo_timeline [sample_message ''a'' 1 1, sample_message ''b'' 2 2] False 3"
  by (simp add: evaluate)

lemma demo_jump: "windowFromPage (sample_page [sample_message ''a'' 1 1] False 1)
    (demo_timeline [sample_message ''a'' 1 1, sample_message ''b'' 2 2] False 2) =
    demo_timeline [sample_message ''a'' 1 1] False 2"
  by (simp add: evaluate)

lemma demo_fields [simp]: "tl_messages (demo_timeline ms b c) = ms" "tl_hasOlder (demo_timeline ms b c) = b"
  "tl_hasNewer (demo_timeline ms b c) = False" "tl_changeSeq (demo_timeline ms b c) = c"
  "tl_status (demo_timeline ms b c) = Ready"
  by (simp_all add: demo_timeline_def)

lemma demo_window: "inWindow b False (m # ms) x \<longleftrightarrow> (b \<longrightarrow> m_seq m \<le> m_seq x)"
  by (simp add: inWindow_def at_first_def)

text \<open>an older page read before an edit that the cursor has counted puts the old version in the window.\<close>

theorem older_page_stale:
  "let a = sample_message ''a'' 1 1; b = sample_message ''b'' 2 2; a' = sample_message ''a'' 1 3;
       t = takeMessage a' (demo_timeline [b] True 2)
   in server_log [a, b, a'] \<and> sync_sound [a, b, a'] t \<and> older_page [a, b] 2 (sample_page [a] False 2) \<and>
      \<not> sync_sound [a, b, a'] (takeOlder (sample_page [a] False 2) t)"
  unfolding Let_def demo_edit demo_older
  by (simp add: sync_predicates demo_window sample_page_def)

lemma not_newer_merge:
  assumes "distinct (map m_id cur)" "\<not> newer_in cur m" "\<not> newer_in inc m"
  shows "\<not> newer_in (mergeMessages cur inc) m"
proof
  assume "newer_in (mergeMessages cur inc) m"
  then obtain x where x: "x \<in> set (mergeMessages cur inc)" "m_id x = m_id m" "m_change_seq m \<le> m_change_seq x"
    by (auto simp: newer_in_def)
  from mm.merge_newest[OF assms(1) x(1)] obtain y where y: "y \<in> set cur \<union> set inc" "stripViewer x = stripViewer y" by blast
  then have "m_id y = m_id m" "m_change_seq m \<le> m_change_seq y" using x(2,3) strip_keys by metis+
  then show False using assms(2,3) y(1) by (auto simp: newer_in_def)
qed

lemma not_newer_window:
  assumes "timeline_wf cur" "\<not> newer_in cur m" "\<not> newer_in inc m"
  shows "\<not> newer_in (mergeIntoWindow cur o' n inc) m"
proof -
  have "\<not> newer_in (filter P inc) m" for P using assms(3) by (auto simp: newer_in_def)
  then show ?thesis
    using assms not_newer_merge by (simp add: mergeIntoWindow_windowed windowed_def Let_def timeline_wf_def)
qed

lemma not_fetched_again:
  \<comment> \<open>Changes after a version's number hold no version of that message, if it is the newest.\<close>
  assumes "newest_version L m" "from_server L ms" "\<forall>x\<in>set ms. m_change_seq m < m_change_seq x"
  shows "\<not> newer_in ms m"
proof
  assume "newer_in ms m"
  then obtain x where x: "x \<in> set ms" "m_id x = m_id m" by (auto simp: newer_in_def)
  then obtain v where v: "v \<in> set L" "same_version x v" using assms(2) by (auto simp: from_server_def)
  then have "m_change_seq x \<le> m_change_seq m" using assms(1) x(2) same_versionD[OF v(2)] by (simp add: newest_version_def)
  then show False using assms(3) x(1) by fastforce
qed

section \<open>Properties\<close>

text \<open>C1: the cursor of a timeline tells the truth as long as every page came in time. In every run of a room - changes
  delivered late, twice, out of order or never, catch-ups, older and newer pages, jumps, the room opened again, in any
  order; the viewer's own marks, shown before the server has them, are left out - what is held came from the server,
  in order and without repetition, and the cursor is not ahead of the server. And every change of the channel up to the
  cursor that falls in the loaded range is held in that version or a newer one, provided that each page that was taken
  still adjoined the window and was read no earlier than the last change that the cursor had counted (and a catch-up
  was asked from a cursor not beyond the present one). The code tests neither, and without this the truth may be lost
  (\<open>older_page_stale\<close> and the property on late pages); a jump in time, opening the room again and a catch-up that reads
  the newest page restore it.\<close>

theorem cursor_never_lies:
  assumes "sync_run L t asked in_time"
  shows "from_server L (tl_messages t) \<and> timeline_wf (tl_messages t) \<and> tl_changeSeq t \<le> int (length L) \<and>
    (in_time \<longrightarrow> reflects (channel_log L) (tl_changeSeq t) (tl_hasOlder t) (tl_hasNewer t) (tl_messages t))"
  using sync_run_sound[OF assms] by (simp add: sync_sound_def held_real_def)

abbreviation unread_room :: room where
  "unread_room \<equiv> (sample_room ''r'')\<lparr>r_last_read_seq := None, r_unread_count := 0\<rparr>"

lemma opened_demo: "openedTimeline unread_room (sample_page [sample_message ''b'' 2 2] True 2) [] =
    (demo_timeline [sample_message ''b'' 2 2] True 2)"
  by (simp add: evaluate openedTimeline_def replaceByLatest_def)

lemma demo_run:
  \<comment> \<open>A room opened with its newest message, an edit outside the window, and the older page read after it.\<close>
  "let a = sample_message ''a'' 1 1; b = sample_message ''b'' 2 2; a' = sample_message ''a'' 1 3
   in sync_run [a, b, a'] (takeOlder (sample_page [a'] False 3) (demo_timeline [b] True 3)) None True"
proof -
  let ?a = "sample_message ''a'' 1 1" and ?b = "sample_message ''b'' 2 2" and ?a' = "sample_message ''a'' 1 3"
  have "sync_run [?a, ?b] (openedTimeline unread_room (sample_page [?b] True 2) []) None True"
    by (rule sync_run.opened) (simp_all add: sync_predicates sample_page_def)
  then have "sync_run ([?a, ?b] @ [?a']) (demo_timeline [?b] True 2) None True"
    unfolding opened_demo by (rule sync_run.changed) (simp add: sync_predicates)
  then have "sync_run [?a, ?b, ?a'] (takeMessage ?a' (demo_timeline [?b] True 2)) None True"
    by (intro sync_run.delivered[where v = ?a']) simp_all
  then have "sync_run [?a, ?b, ?a'] (takeOlder (sample_page [?a'] False 3) (demo_timeline [?b] True 3)) None
      (True \<and> older_in_time 2 (sample_page [?a'] False 3) (demo_timeline [?b] True 3))"
    unfolding demo_edit by (rule sync_run.older) (simp add: sync_predicates sample_page_def)
  then show ?thesis by (simp add: older_in_time_def sample_page_def at_first_def)
qed

theorem cursor_never_lies_witness:
  "let a = sample_message ''a'' 1 1; b = sample_message ''b'' 2 2; a' = sample_message ''a'' 1 3; L = [a, b, a'];
       t = takeOlder (sample_page [a'] False 3) (demo_timeline [b] True 3)
   in from_server L (tl_messages t) \<and> timeline_wf (tl_messages t) \<and> tl_changeSeq t \<le> int (length L) \<and>
      reflects (channel_log L) (tl_changeSeq t) (tl_hasOlder t) (tl_hasNewer t) (tl_messages t)"
  using cursor_never_lies[OF demo_run[unfolded Let_def]] by (simp only: Let_def simp_thms)

text \<open>C2: once the cursor has reached the server's last change, the newest version of every message of the channel in
  the loaded range is shown, so the client has converged, without holes, in every run in which the pages of the window
  came in time: none was merged into a window that it no longer adjoined, and none was read before a change that the
  cursor had counted (a late page may leave a hole that nothing fills).\<close>

theorem caught_up_is_current:
  assumes "sync_run L t asked True" "tl_changeSeq t = int (length L)"
    and "newest_version L v" "inChannel v" "inWindow (tl_hasOlder t) (tl_hasNewer t) (tl_messages t) v"
  shows "\<exists>x\<in>set (tl_messages t). same_version x v"
  using sync_run_sound[OF assms(1)] sound_up_to_date assms by blast

theorem caught_up_is_current_witness:
  "let a' = sample_message ''a'' 1 3; t = takeOlder (sample_page [a'] False 3) (demo_timeline [sample_message ''b'' 2 2] True 3)
   in \<exists>x\<in>set (tl_messages t). same_version x a'"
  unfolding Let_def
  by (rule caught_up_is_current[OF demo_run[unfolded Let_def]])
     (simp_all add: newest_version_def sample_inChannel inWindow_def takeOlder_def sample_page_def)

text \<open>C18: a page that is taken late loses a change. If the newest version of a message is counted by the cursor but not
  in the page of a jump, or neither in the window nor in a newer page, then the window afterwards does not hold it, the
  cursor still counts it, no page of changes after the cursor brings it back, and where the message falls in the loaded
  range the promise of the cursor is broken. (The code drops what arrived while the page was on its way, and keeps the
  cursor.)\<close>

theorem late_page_loses_change:
  assumes "timeline_wf (tl_messages t)" "newest_version L m" "inChannel m" "m_change_seq m \<le> tl_changeSeq t"
    and "\<not> newer_in (ml_messages page) m"
    and "t' = windowFromPage page t \<or> (t' = takeNewer page t \<and> \<not> newer_in (tl_messages t) m)"
  shows "\<not> newer_in (tl_messages t') m \<and> m_change_seq m \<le> tl_changeSeq t' \<and>
    (\<forall>changes. from_server L (ml_messages changes) \<longrightarrow>
       (\<forall>x\<in>set (ml_messages changes). tl_changeSeq t' < m_change_seq x) \<longrightarrow>
       \<not> newer_in (tl_messages (mergeChanges changes t')) m) \<and>
    (inWindow (tl_hasOlder t') (tl_hasNewer t') (tl_messages t') m \<longrightarrow>
       \<not> reflects (channel_log L) (tl_changeSeq t') (tl_hasOlder t') (tl_hasNewer t') (tl_messages t'))"
proof -
  have t': "timeline_wf (tl_messages t') \<and> \<not> newer_in (tl_messages t') m"
    using assms(6)
  proof
    assume "t' = windowFromPage page t"
    then show ?thesis
      using not_newer_merge[of "[]" m "ml_messages page"] assms(5) mm.merge_wf
      by (simp add: windowFromPage_def Let_def newer_in_def)
  next
    assume "t' = takeNewer page t \<and> \<not> newer_in (tl_messages t) m"
    then show ?thesis
      using not_newer_merge[of "tl_messages t" m "ml_messages page"] assms(1,5) mm.merge_wf
      by (simp add: takeNewer_def Let_def timeline_wf_def)
  qed
  have c: "m_change_seq m \<le> tl_changeSeq t'"
    using assms(6)
  proof (elim disjE conjE)
    assume "t' = windowFromPage page t"
    then show ?thesis
      using assms(4) advanceCursor_spec(1)[of "max (tl_changeSeq t) (ml_last_change_seq page)" "mergeMessages [] (ml_messages page)"]
      by (simp add: windowFromPage_def Let_def)
  next
    assume "t' = takeNewer page t"
    then show ?thesis
      using assms(4) advanceCursor_spec(1)[of "tl_changeSeq t" "mergeMessages (tl_messages t) (ml_messages page)"]
      by (simp add: takeNewer_def Let_def)
  qed
  have "\<not> newer_in (tl_messages (mergeChanges changes t')) m"
    if "from_server L (ml_messages changes)" "\<forall>x\<in>set (ml_messages changes). tl_changeSeq t' < m_change_seq x" for changes
  proof -
    have "\<not> newer_in (ml_messages changes) m"
      using not_fetched_again[OF assms(2) that(1)] that(2) c by fastforce
    then show ?thesis using not_newer_window t' by (simp add: mergeChanges_def Let_def)
  qed
  moreover have "m \<in> channel_log L" using assms(2,3) by (simp add: newest_version_def channel_log_def)
  ultimately show ?thesis using t' c by (auto simp: reflects_newer)
qed

theorem late_page_loses_change_witness:
  "let a = sample_message ''a'' 1 1; b = sample_message ''b'' 2 2; t = demo_timeline [a, b] False 2;
       t' = windowFromPage (sample_page [a] False 1) t
   in \<not> newer_in (tl_messages t') b \<and> m_change_seq b \<le> tl_changeSeq t' \<and>
      \<not> reflects (channel_log [a, b]) (tl_changeSeq t') (tl_hasOlder t') (tl_hasNewer t') (tl_messages t')"
proof -
  let ?a = "sample_message ''a'' 1 1" and ?b = "sample_message ''b'' 2 2"
  let ?t' = "windowFromPage (sample_page [?a] False 1) (demo_timeline [?a, ?b] False 2)"
  have "inWindow (tl_hasOlder ?t') (tl_hasNewer ?t') (tl_messages ?t') ?b"
    by (simp add: inWindow_def windowFromPage_def sample_page_def Let_def)
  moreover have "\<not> newer_in (ml_messages (sample_page [?a] False 1)) ?b" by (simp add: newer_in_def sample_page_def)
  then have "\<not> newer_in (tl_messages ?t') ?b \<and> m_change_seq ?b \<le> tl_changeSeq ?t' \<and>
    (\<forall>changes. from_server [?a, ?b] (ml_messages changes) \<longrightarrow>
       (\<forall>x\<in>set (ml_messages changes). tl_changeSeq ?t' < m_change_seq x) \<longrightarrow>
       \<not> newer_in (tl_messages (mergeChanges changes ?t')) ?b) \<and>
    (inWindow (tl_hasOlder ?t') (tl_hasNewer ?t') (tl_messages ?t') ?b \<longrightarrow>
       \<not> reflects (channel_log [?a, ?b]) (tl_changeSeq ?t') (tl_hasOlder ?t') (tl_hasNewer ?t') (tl_messages ?t'))"
    by (intro late_page_loses_change[where t = "demo_timeline [?a, ?b] False 2" and page = "sample_page [?a] False 1"])
       (simp_all add: newest_version_def sample_inChannel timeline_wf_def)
  ultimately show ?thesis unfolding Let_def by blast
qed

text \<open>C3: a missed change is noticed. When a message arrives with a number beyond the cursor and the gap before it is not
  closed by it, a catch-up of the room is in progress afterwards.\<close>

theorem gap_starts_catch_up:
  assumes "rget (s_timelines (state (receiveMessage message created s))) (m_room_id message) = Some t" "tl_status t = Ready"
    and "tl_changeSeq t < m_change_seq message"
  shows "rget (syncing (receiveMessage message created s)) (m_room_id message) \<noteq> None"
  using assms by (rule receiveMessage_gap)

theorem gap_starts_catch_up_witness:
  "let s0 = createStore ''u'' 0; m = sample_message ''b'' 5 5;
       s = s0\<lparr>state := (state s0)\<lparr>s_timelines := rput ''r'' (demo_timeline [sample_message ''a'' 1 1] False 1) []\<rparr>\<rparr>
   in rget (syncing (receiveMessage m True s)) ''r'' \<noteq> None"
proof -
  let ?m = "sample_message ''b'' 5 5"
  let ?s = "(createStore ''u'' 0)\<lparr>state := (state (createStore ''u'' 0))\<lparr>s_timelines :=
      rput ''r'' (demo_timeline [sample_message ''a'' 1 1] False 1) []\<rparr>\<rparr>"
  let ?t = "the (rget (s_timelines (state (receiveMessage ?m True ?s))) ''r'')"
  have "rget (s_timelines (state (receiveMessage ?m True ?s))) ''r'' \<noteq> None \<and> tl_status ?t = Ready \<and> tl_changeSeq ?t < 5"
    by code_simp
  then have "rget (syncing (receiveMessage ?m True ?s)) (m_room_id ?m) \<noteq> None"
    by (intro gap_starts_catch_up[where t = ?t]) auto
  then show ?thesis by (simp add: Let_def)
qed

end
