(* ===== verification/PresenceActivity.thy ===== *)
theory PresenceActivity
  imports Prelude
begin

text \<open>
  Whether this device is looking at the screen (\<open>web/lib/chat/realtime/activity.ts\<close>, \<open>createActivity\<close>).

  The closure's variables are the record; every callback (a change of visibility, an input, the periodic check, the
  settle timer) is a function of the record, of the time at which it runs and of what the browser then says of the
  window. A timer is the time at which it is due. \<open>onChange\<close> is the option the settle timer returns.
\<close>

section \<open>Constants and state\<close>

definition IDLE_AFTER_MS :: int where "IDLE_AFTER_MS = 10 * 60 * 1000"
definition CHECK_INTERVAL_MS :: int where "CHECK_INTERVAL_MS = 60 * 1000"
definition SETTLE_MS :: int where "SETTLE_MS = 1000"

record activity_options =
  ao_idleAfterMs :: int
  ao_checkIntervalMs :: int
  ao_settleMs :: int

definition default_options :: activity_options where
  "default_options = \<lparr>ao_idleAfterMs = IDLE_AFTER_MS, ao_checkIntervalMs = CHECK_INTERVAL_MS, ao_settleMs = SETTLE_MS\<rparr>"

record presence_activity =
  ac_lastInputAt :: int
  ac_notified :: bool
  ac_settleTimer :: "int option"
  ac_checkTimer :: "int option"
  ac_watching :: bool \<comment> \<open>\<open>unwatch\<close> is not empty\<close>

definition createActivity :: "int \<Rightarrow> presence_activity" where
  "createActivity now = \<lparr>ac_lastInputAt = now, ac_notified = False, ac_settleTimer = None, ac_checkTimer = None,
     ac_watching = False\<rparr>"

section \<open>Operations\<close>

definition compute :: "activity_options \<Rightarrow> bool \<Rightarrow> int \<Rightarrow> presence_activity \<Rightarrow> bool" where
  "compute opts isVisible now a \<longleftrightarrow> isVisible \<and> now - ac_lastInputAt a < ao_idleAfterMs opts"

definition updateActivity :: "activity_options \<Rightarrow> bool \<Rightarrow> int \<Rightarrow> presence_activity \<Rightarrow> presence_activity" where
  "updateActivity opts isVisible now a =
     (if \<not> ac_watching a then a
      else if compute opts isVisible now a = ac_notified a then a\<lparr>ac_settleTimer := None\<rparr>
      else if ac_settleTimer a \<noteq> None then a
      else a\<lparr>ac_settleTimer := Some (now + ao_settleMs opts)\<rparr>)"

definition fireSettle ::
  "activity_options \<Rightarrow> bool \<Rightarrow> int \<Rightarrow> presence_activity \<Rightarrow> presence_activity \<times> bool option" where
  "fireSettle opts isVisible now a =
     (let a1 = a\<lparr>ac_settleTimer := None\<rparr>; value = compute opts isVisible now a1
      in if value = ac_notified a1 then (a1, None) else (a1\<lparr>ac_notified := value\<rparr>, Some value))"

definition inputActivity :: "activity_options \<Rightarrow> bool \<Rightarrow> int \<Rightarrow> presence_activity \<Rightarrow> presence_activity" where
  "inputActivity opts isVisible now a = updateActivity opts isVisible now (a\<lparr>ac_lastInputAt := now\<rparr>)"

definition checkActivity :: "activity_options \<Rightarrow> bool \<Rightarrow> int \<Rightarrow> presence_activity \<Rightarrow> presence_activity" where
  \<comment> \<open>\<open>setInterval\<close>: the callback, and the time of the next one.\<close>
  "checkActivity opts isVisible now a =
     (updateActivity opts isVisible now a)\<lparr>ac_checkTimer := Some (now + ao_checkIntervalMs opts)\<rparr>"

definition startActivity :: "activity_options \<Rightarrow> int \<Rightarrow> presence_activity \<Rightarrow> presence_activity" where
  "startActivity opts now a =
     (if ac_watching a then a
      else a\<lparr>ac_lastInputAt := now, ac_watching := True, ac_checkTimer := Some (now + ao_checkIntervalMs opts)\<rparr>)"

definition stopActivity :: "presence_activity \<Rightarrow> presence_activity" where
  "stopActivity a = a\<lparr>ac_watching := False, ac_checkTimer := None, ac_settleTimer := None\<rparr>"

definition currentActivity ::
  "activity_options \<Rightarrow> bool \<Rightarrow> int \<Rightarrow> presence_activity \<Rightarrow> presence_activity \<times> bool" where
  "currentActivity opts isVisible now a =
     (let value = compute opts isVisible now a in (a\<lparr>ac_notified := value\<rparr>, value))"

definition resetActivity :: "presence_activity \<Rightarrow> presence_activity" where
  "resetActivity a = a\<lparr>ac_notified := False\<rparr>"

section \<open>Runs\<close>

text \<open>
  What is said to the server: a change (\<open>onChange\<close>), the value sent on opening a connection (\<open>current\<close>), and the
  forgetting of it when the connection drops (\<open>reset\<close>: the server's side starts again from not looking).
\<close>

datatype said = Changed bool | Opened bool | Dropped

fun said_value :: "said list \<Rightarrow> bool" where
  "said_value [] = False"
| "said_value (Changed v # _) = v"
| "said_value (Opened v # _) = v"
| "said_value (Dropped # _) = False"

inductive activity_run ::
  "activity_options \<Rightarrow> presence_activity \<Rightarrow> int \<Rightarrow> said list \<Rightarrow> bool"
  for opts where
  \<comment> \<open>The activity, the time of its latest step, and what was said, the latest first.\<close>
  created: "activity_run opts (createActivity now) now []"
| started: "activity_run opts a t h \<Longrightarrow> t \<le> now \<Longrightarrow> activity_run opts (startActivity opts now a) now h"
| stopped: "activity_run opts a t h \<Longrightarrow> t \<le> now \<Longrightarrow> activity_run opts (stopActivity a) now h"
| looked: "activity_run opts a t h \<Longrightarrow> t \<le> now \<Longrightarrow> activity_run opts (updateActivity opts vis now a) now h"
| input: "activity_run opts a t h \<Longrightarrow> t \<le> now \<Longrightarrow> activity_run opts (inputActivity opts vis now a) now h"
| checked: "activity_run opts a t h \<Longrightarrow> ac_checkTimer a = Some due \<Longrightarrow> t \<le> now \<Longrightarrow> due \<le> now \<Longrightarrow>
    activity_run opts (checkActivity opts vis now a) now h"
| settled: "activity_run opts a t h \<Longrightarrow> ac_settleTimer a = Some due \<Longrightarrow> t \<le> now \<Longrightarrow> due \<le> now \<Longrightarrow>
    fireSettle opts vis now a = (a', out) \<Longrightarrow>
    activity_run opts a' now (case out of None \<Rightarrow> h | Some v \<Rightarrow> Changed v # h)"
| opened: "activity_run opts a t h \<Longrightarrow> t \<le> now \<Longrightarrow> currentActivity opts vis now a = (a', v) \<Longrightarrow>
    activity_run opts a' now (Opened v # h)"
| dropped: "activity_run opts a t h \<Longrightarrow> t \<le> now \<Longrightarrow> activity_run opts (resetActivity a) now (Dropped # h)"

definition activity_ok :: "presence_activity \<Rightarrow> bool" where
  \<comment> \<open>Timers run only between \<open>start\<close> and \<open>stop\<close>, and between them the periodic check always does.\<close>
  "activity_ok a \<longleftrightarrow> (ac_checkTimer a \<noteq> None \<longleftrightarrow> ac_watching a) \<and> (ac_settleTimer a \<noteq> None \<longrightarrow> ac_watching a)"

fun no_repeat :: "said list \<Rightarrow> bool" where
  "no_repeat [] \<longleftrightarrow> True"
| "no_repeat (Changed v # h) \<longleftrightarrow> v \<noteq> said_value h \<and> no_repeat h"
| "no_repeat (_ # h) \<longleftrightarrow> no_repeat h"

lemmas activity_defs = createActivity_def startActivity_def stopActivity_def updateActivity_def inputActivity_def
  checkActivity_def fireSettle_def currentActivity_def resetActivity_def Let_def

lemma run_invariant:
  assumes "activity_run opts a t h"
  shows "activity_ok a \<and> ac_notified a = said_value h \<and> no_repeat h"
  using assms
proof (induction rule: activity_run.induct)
  case (settled a t h due now vis a' out)
  then show ?case by (auto simp: activity_ok_def activity_defs split: if_splits option.splits)
next
  case (opened a t h now vis a' v)
  then show ?case by (auto simp: activity_ok_def activity_defs)
qed (auto simp: activity_ok_def activity_defs)

lemma update_armed:
  "ac_watching a \<Longrightarrow> ac_settleTimer (updateActivity opts vis now a) = None \<longleftrightarrow>
     compute opts vis now a = ac_notified a"
  by (auto simp: updateActivity_def compute_def)

section \<open>Properties\<close>

text \<open>what the client last told the server is what it takes it to know, and a change is announced only when it
  differs from that: no value is announced twice in a row, also over reconnects.\<close>

theorem presence_not_repeated:
  assumes "activity_run opts a t history"
  shows "ac_notified a = said_value history \<and> no_repeat history \<and> activity_ok a"
  using run_invariant[OF assms] by simp

theorem presence_not_repeated_witness:
  "let a = fst (fireSettle default_options True 1000 (updateActivity default_options True 0
     (startActivity default_options 0 (createActivity 0))))
   in ac_notified a = said_value [Changed True] \<and> no_repeat [Changed True] \<and> activity_ok a"
proof -
  let ?a = "updateActivity default_options True 0 (startActivity default_options 0 (createActivity 0))"
  have "activity_run default_options ?a 0 []"
    by (rule activity_run.looked[OF activity_run.started[OF activity_run.created]]) simp_all
  from activity_run.settled[OF this, of 1000 1000 True]
  have "activity_run default_options (fst (fireSettle default_options True 1000 ?a)) 1000 [Changed True]"
    by (simp add: activity_defs compute_def default_options_def IDLE_AFTER_MS_def SETTLE_MS_def)
  from presence_not_repeated[OF this] show ?thesis by (simp add: Let_def)
qed

text \<open>while the device is watched, every change of the value that a callback sees is either what the server knows,
  and then nothing is sent, or a settle timer runs; when that timer fires the server knows the value of that moment.\<close>

theorem presence_change_reaches_server:
  assumes "ac_watching a"
  shows "(ac_settleTimer (updateActivity opts vis now a) = None \<longleftrightarrow> compute opts vis now a = ac_notified a) \<and>
    ac_notified (fst (fireSettle opts vis' later (updateActivity opts vis now a))) =
      compute opts vis' later (updateActivity opts vis now a)"
  using update_armed[OF assms] by (simp add: fireSettle_def compute_def Let_def)

theorem presence_change_reaches_server_witness:
  "let a = startActivity default_options 0 (createActivity 0); o' = default_options in
   (ac_settleTimer (updateActivity o' True 5 a) = None \<longleftrightarrow> compute o' True 5 a = ac_notified a) \<and>
    ac_notified (fst (fireSettle o' False 1005 (updateActivity o' True 5 a))) = compute o' False 1005 (updateActivity o' True 5 a)"
  unfolding Let_def by (rule presence_change_reaches_server) (simp add: startActivity_def createActivity_def)

end
