(* ===== verification/Connection.thy ===== *)
theory Connection
  imports Complex_Main Wire
begin

text \<open>
  The WebSocket connection (\<open>web/lib/chat/realtime/connection.ts\<close>, \<open>createConnection\<close>).

  The closure's variables are one record. Timers are flags (the retry timer is its delay), sockets are numbered in the
  order of \<open>createSocket\<close>, and a promise that is awaited is kept with the number of its attempt: \<open>tickets\<close> are the calls
  of \<open>issueTicket\<close> and \<open>revalidations\<close> those of \<open>revalidateSession\<close> that have not settled. Every callback is a function
  of the record. What the connection does to the outside (the callbacks it calls, the frames it sends, the promises it
  settles) is appended to \<open>out\<close> in order. The callbacks do not call back into the connection before the handler ends,
  save for sending, which comes last in \<open>onopen\<close>; so treating the log after the handler is the same.
\<close>

section \<open>Data\<close>

datatype connection_status = Connecting | Open | Reconnecting | Closed

record connection_state =
  cs_status :: connection_status
  cs_lastOpenedAt :: "int option"
  cs_unreachableAttempts :: int

definition BACKOFF_BASE_MS :: int where "BACKOFF_BASE_MS = 1000"
definition BACKOFF_MAX_MS :: int where "BACKOFF_MAX_MS = 30000"
definition STABLE_CONNECTION_MS :: int where "STABLE_CONNECTION_MS = 30000"
definition HEARTBEAT_INTERVAL_MS :: int where "HEARTBEAT_INTERVAL_MS = 25000"
definition HEARTBEAT_TIMEOUT_MS :: int where "HEARTBEAT_TIMEOUT_MS = 10000"
definition CLOSE_SESSION_REVOKED :: int where "CLOSE_SESSION_REVOKED = 4001"

datatype client_message_type = CmSubscribe | CmUnsubscribe | CmTyping | CmActivity | CmPing | CmHuddleHeartbeat

record client_message =
  cm_type :: client_message_type
  cm_id :: "string option"
  cm_room_id :: "ident option"
  cm_workspace_id :: "ident option"
  cm_thread_root_id :: "ident option"
  cm_active :: "bool option"
  cm_huddle_id :: "ident option"
  cm_participant_id :: "ident option"

definition blank_message :: "client_message_type \<Rightarrow> client_message" where
  \<comment> \<open>A message with its type only; the others set the fields they give.\<close>
  "blank_message ty = \<lparr>cm_type = ty, cm_id = None, cm_room_id = None, cm_workspace_id = None, cm_thread_root_id = None,
     cm_active = None, cm_huddle_id = None, cm_participant_id = None\<rparr>"

record ack =
  ack_id :: "string option"
  ack_err :: "ack_error option"

datatype frame = NotJson | AckFrame ack | EventFrame server_event

datatype 'w waiter = HeartbeatPing | Caller 'w

datatype 'w conn_output =
    OutConnect string \<comment> \<open>\<open>createSocket\<close> with this ticket\<close>
  | OutClose nat
  | OutOpen
  | OutEvent server_event
  | OutState connection_state
  | OutSent client_message
  | OutAck 'w ack
  | OutRejected 'w

record 'w connection =
  cn_state :: connection_state
  cn_started :: bool
  cn_generation :: nat
  cn_socket :: "nat option"
  cn_openedAt :: "int option"
  cn_backoffAttempt :: nat
  cn_retryTimer :: "rat option"
  cn_heartbeatTimer :: bool
  cn_heartbeatTimeout :: bool
  cn_watching :: bool \<comment> \<open>\<open>unwatchNetwork\<close>\<close>
  cn_nextId :: nat
  cn_pending :: "(string \<times> 'w waiter) list"
  cn_tickets :: "nat list"
  cn_revalidations :: "nat list"
  cn_sockets :: nat
  cn_out :: "'w conn_output list"

definition createConnection :: "'w connection" where
  "createConnection =
     \<lparr>cn_state = \<lparr>cs_status = Closed, cs_lastOpenedAt = None, cs_unreachableAttempts = 0\<rparr>, cn_started = False,
      cn_generation = 0, cn_socket = None, cn_openedAt = None, cn_backoffAttempt = 0, cn_retryTimer = None,
      cn_heartbeatTimer = False, cn_heartbeatTimeout = False, cn_watching = False, cn_nextId = 0, cn_pending = [],
      cn_tickets = [], cn_revalidations = [], cn_sockets = 0, cn_out = []\<rparr>"

fun decimal :: "nat \<Rightarrow> string" where
  "decimal n = (if n < 10 then [char_of (48 + n)] else decimal (n div 10) @ [char_of (48 + n mod 10)])"

declare decimal.simps [simp del]

definition request_id :: "nat \<Rightarrow> string" where
  "request_id n = CHR ''c'' # decimal n"

section \<open>Operations\<close>

definition logOut :: "'w conn_output \<Rightarrow> 'w connection \<Rightarrow> 'w connection" where
  "logOut x c = c\<lparr>cn_out := cn_out c @ [x]\<rparr>"

definition setState :: "(connection_state \<Rightarrow> connection_state) \<Rightarrow> 'w connection \<Rightarrow> 'w connection" where
  "setState patch c = logOut (OutState (patch (cn_state c))) (c\<lparr>cn_state := patch (cn_state c)\<rparr>)"

definition clearTimers :: "'w connection \<Rightarrow> 'w connection" where
  "clearTimers c = c\<lparr>cn_retryTimer := None, cn_heartbeatTimer := False, cn_heartbeatTimeout := False\<rparr>"

definition callers :: "(string \<times> 'w waiter) list \<Rightarrow> 'w list" where
  "callers ps = List.map_filter (\<lambda>(_, w). case w of HeartbeatPing \<Rightarrow> None | Caller v \<Rightarrow> Some v) ps"

definition rejectPending :: "'w connection \<Rightarrow> 'w connection" where
  "rejectPending c = c\<lparr>cn_out := cn_out c @ map OutRejected (callers (cn_pending c)), cn_pending := []\<rparr>"

definition dropSocket :: "'w connection \<Rightarrow> 'w connection" where
  "dropSocket c =
     (case cn_socket c of None \<Rightarrow> c
      | Some s \<Rightarrow> rejectPending (logOut (OutClose s) (c\<lparr>cn_socket := None\<rparr>)))"

definition backoff_cap :: "nat \<Rightarrow> int" where
  "backoff_cap n = min BACKOFF_MAX_MS (BACKOFF_BASE_MS * 2 ^ n)"

definition scheduleRetry :: "rat \<Rightarrow> 'w connection \<Rightarrow> 'w connection" where
  \<comment> \<open>The first argument is the value of \<open>random()\<close>.\<close>
  "scheduleRetry random c =
     (if \<not> cn_started c then c
      else c\<lparr>cn_backoffAttempt := cn_backoffAttempt c + 1,
             cn_retryTimer := Some (random * of_int (backoff_cap (cn_backoffAttempt c)))\<rparr>)"

definition stop :: "'w connection \<Rightarrow> 'w connection" where
  "stop c =
     (if \<not> cn_started c then c
      else setState (\<lambda>st. st\<lparr>cs_status := Closed\<rparr>)
        ((dropSocket (clearTimers (c\<lparr>cn_started := False, cn_generation := cn_generation c + 1\<rparr>)))
           \<lparr>cn_watching := False, cn_openedAt := None\<rparr>))"

definition resetBackoff :: "int \<Rightarrow> 'w connection \<Rightarrow> 'w connection" where
  "resetBackoff now c =
     (case cn_openedAt c of
        Some t \<Rightarrow> if now - t \<ge> STABLE_CONNECTION_MS then c\<lparr>cn_backoffAttempt := 0\<rparr> else c
      | None \<Rightarrow> c)"

definition handleClose :: "int \<Rightarrow> int \<Rightarrow> rat \<Rightarrow> 'w connection \<Rightarrow> 'w connection" where
  "handleClose code now random c =
     (let c2 = dropSocket (clearTimers ((resetBackoff now c)\<lparr>cn_openedAt := None\<rparr>))
      in if \<not> cn_started c2 then c2
         else
           let c3 = setState (\<lambda>st. st\<lparr>cs_status := Reconnecting\<rparr>) c2
           in if code \<noteq> CLOSE_SESSION_REVOKED then scheduleRetry random c3
              else c3\<lparr>cn_generation := cn_generation c3 + 1,
                      cn_revalidations := cn_revalidations c3 @ [cn_generation c3 + 1]\<rparr>)"

definition settleRevalidation :: "nat \<Rightarrow> bool option \<Rightarrow> rat \<Rightarrow> 'w connection \<Rightarrow> 'w connection" where
  \<comment> \<open>The answer of \<open>revalidateSession\<close>; \<open>None\<close> when it was rejected.\<close>
  "settleRevalidation gen answer random c =
     (let c1 = c\<lparr>cn_revalidations := remove1 gen (cn_revalidations c)\<rparr> in
      if gen \<noteq> cn_generation c1 then c1
      else case answer of
             Some valid \<Rightarrow> if valid then scheduleRetry random c1 else stop c1
           | None \<Rightarrow> scheduleRetry random c1)"

definition send :: "client_message \<Rightarrow> 'w connection \<Rightarrow> 'w connection option" where
  \<comment> \<open>\<open>None\<close> is the \<open>ConnectionClosedError\<close>. \<open>WebSocket.send\<close> itself throws only while connecting.\<close>
  "send message c =
     (if cn_socket c = None \<or> cs_status (cn_state c) \<noteq> Open then None else Some (logOut (OutSent message) c))"

definition rejectWaiter :: "'w waiter \<Rightarrow> 'w connection \<Rightarrow> 'w connection" where
  "rejectWaiter w c = (case w of HeartbeatPing \<Rightarrow> c | Caller v \<Rightarrow> logOut (OutRejected v) c)"

definition request :: "client_message \<Rightarrow> 'w waiter \<Rightarrow> 'w connection \<Rightarrow> 'w connection" where
  "request message w c =
     (let key = request_id (cn_nextId c + 1);
          c1 = c\<lparr>cn_nextId := cn_nextId c + 1, cn_pending := AList.update key w (cn_pending c)\<rparr>
      in case send (message\<lparr>cm_id := Some key\<rparr>) c1 of
           Some c2 \<Rightarrow> c2
         | None \<Rightarrow> rejectWaiter w (c1\<lparr>cn_pending := AList.delete key (cn_pending c1)\<rparr>))"

definition notify :: "client_message \<Rightarrow> 'w connection \<Rightarrow> 'w connection" where
  "notify message c = (case send message c of None \<Rightarrow> c | Some c1 \<Rightarrow> c1)"

definition startHeartbeat :: "'w connection \<Rightarrow> 'w connection" where
  "startHeartbeat c = c\<lparr>cn_heartbeatTimer := True\<rparr>"

definition fireHeartbeat :: "'w connection \<Rightarrow> 'w connection" where
  "fireHeartbeat c =
     request (blank_message CmPing) HeartbeatPing (c\<lparr>cn_heartbeatTimer := False, cn_heartbeatTimeout := True\<rparr>)"

definition fireHeartbeatTimeout :: "int \<Rightarrow> rat \<Rightarrow> 'w connection \<Rightarrow> 'w connection" where
  "fireHeartbeatTimeout now random c = handleClose 1006 now random (c\<lparr>cn_heartbeatTimeout := False\<rparr>)"

definition resolveWaiter :: "'w waiter \<Rightarrow> ack \<Rightarrow> 'w connection \<Rightarrow> 'w connection" where
  \<comment> \<open>The continuation of a ping clears its timeout and starts the next interval.\<close>
  "resolveWaiter w a c =
     (case w of
        HeartbeatPing \<Rightarrow> startHeartbeat (c\<lparr>cn_heartbeatTimeout := False\<rparr>)
      | Caller v \<Rightarrow> logOut (OutAck v a) c)"

definition handleMessage :: "frame \<Rightarrow> 'w connection \<Rightarrow> 'w connection" where
  "handleMessage data c =
     (case data of
        NotJson \<Rightarrow> c
      | AckFrame a \<Rightarrow>
          (case ack_id a of
             None \<Rightarrow> c
           | Some i \<Rightarrow>
               let c1 = c\<lparr>cn_pending := AList.delete i (cn_pending c)\<rparr>
               in case map_of (cn_pending c) i of None \<Rightarrow> c1 | Some w \<Rightarrow> resolveWaiter w a c1)
      | EventFrame e \<Rightarrow> logOut (OutEvent e) c)"

definition attempt :: "'w connection \<Rightarrow> 'w connection" where
  \<comment> \<open>Up to the call of \<open>issueTicket\<close>.\<close>
  "attempt c =
     (if \<not> cn_started c then c
      else
        let c1 = c\<lparr>cn_retryTimer := None, cn_generation := cn_generation c + 1\<rparr>;
            c2 = (if cs_status (cn_state c1) = Closed then setState (\<lambda>st. st\<lparr>cs_status := Connecting\<rparr>) c1 else c1)
        in c2\<lparr>cn_tickets := cn_tickets c2 @ [cn_generation c2]\<rparr>)"

datatype ticket_answer = Ticket string | TicketApiError int | TicketNetworkError

fun unreachable_answer :: "ticket_answer \<Rightarrow> bool" where
  "unreachable_answer (Ticket _) = False"
| "unreachable_answer (TicketApiError status) = (status = 502 \<or> status = 503 \<or> status = 504)"
| "unreachable_answer TicketNetworkError = True"

definition ticketFailed :: "ticket_answer \<Rightarrow> bool \<Rightarrow> rat \<Rightarrow> 'w connection \<Rightarrow> 'w connection" where
  "ticketFailed answer isOnline random c =
     (if answer = TicketApiError 401 then stop c
      else scheduleRetry random
        (setState (\<lambda>st. st\<lparr>cs_status := Reconnecting,
             cs_unreachableAttempts := cs_unreachableAttempts st +
               (if unreachable_answer answer \<and> isOnline then 1 else 0)\<rparr>) c))"

definition settleTicket :: "nat \<Rightarrow> ticket_answer \<Rightarrow> bool \<Rightarrow> rat \<Rightarrow> 'w connection \<Rightarrow> 'w connection" where
  \<comment> \<open>The part of \<open>attempt\<close> after the ticket.\<close>
  "settleTicket gen answer isOnline random c =
     (let c1 = c\<lparr>cn_tickets := remove1 gen (cn_tickets c)\<rparr> in
      if gen \<noteq> cn_generation c1 then c1
      else case answer of
             Ticket ticket \<Rightarrow>
               let c2 = logOut (OutConnect ticket) (dropSocket c1)
               in c2\<lparr>cn_socket := Some (cn_sockets c2), cn_sockets := cn_sockets c2 + 1\<rparr>
           | _ \<Rightarrow> ticketFailed answer isOnline random c1)"

definition socketOpened :: "nat \<Rightarrow> int \<Rightarrow> 'w connection \<Rightarrow> 'w connection" where
  \<comment> \<open>\<open>onopen\<close>, \<open>onmessage\<close> and \<open>onclose\<close>: a dropped socket has lost its handlers.\<close>
  "socketOpened s now c =
     (if cn_socket c \<noteq> Some s then c
      else logOut OutOpen (startHeartbeat
        (setState (\<lambda>st. st\<lparr>cs_status := Open, cs_lastOpenedAt := Some now, cs_unreachableAttempts := 0\<rparr>)
           (c\<lparr>cn_openedAt := Some now\<rparr>))))"

definition socketMessage :: "nat \<Rightarrow> frame \<Rightarrow> 'w connection \<Rightarrow> 'w connection" where
  "socketMessage s data c = (if cn_socket c \<noteq> Some s then c else handleMessage data c)"

definition socketClosed :: "nat \<Rightarrow> int \<Rightarrow> int \<Rightarrow> rat \<Rightarrow> 'w connection \<Rightarrow> 'w connection" where
  "socketClosed s code now random c = (if cn_socket c \<noteq> Some s then c else handleClose code now random c)"

definition start :: "'w connection \<Rightarrow> 'w connection" where
  "start c =
     (if cn_started c then c
      else attempt (c\<lparr>cn_started := True, cn_backoffAttempt := 0, cn_watching := True\<rparr>))"

definition goOnline :: "'w connection \<Rightarrow> 'w connection" where
  "goOnline c = (if cn_started c \<and> cn_socket c = None then attempt c else c)"

definition goOffline :: "int \<Rightarrow> rat \<Rightarrow> 'w connection \<Rightarrow> 'w connection" where
  "goOffline now random c = (if cn_socket c \<noteq> None then handleClose 1006 now random c else c)"

definition retryNow :: "'w connection \<Rightarrow> 'w connection" where
  "retryNow c = (if \<not> cn_started c \<or> cn_socket c \<noteq> None then c else attempt c)"

definition fireRetry :: "'w connection \<Rightarrow> 'w connection" where
  "fireRetry c = attempt (c\<lparr>cn_retryTimer := None\<rparr>)"

definition webSocketUrl :: "string \<Rightarrow> string" where
  "webSocketUrl apiBaseUrl =
     (if take 4 apiBaseUrl = ''http'' then ''ws'' @ drop 4 apiBaseUrl else apiBaseUrl) @ ''/api/v1/ws''"

section \<open>Runs\<close>

text \<open>
  What the browser, the server, the timers and the user can do to a connection besides starting and stopping it, with
  the operation it runs. A socket opens at most once and messages reach it only while it is open (the WebSocket API).
\<close>

inductive conn_callback :: "'w connection \<Rightarrow> ('w connection \<Rightarrow> 'w connection) \<Rightarrow> bool" for c where
  retried: "conn_callback c retryNow"
| retry_due: "cn_retryTimer c \<noteq> None \<Longrightarrow> conn_callback c fireRetry"
| online: "cn_watching c \<Longrightarrow> conn_callback c goOnline"
| offline: "cn_watching c \<Longrightarrow> 0 \<le> random \<Longrightarrow> random < 1 \<Longrightarrow> conn_callback c (goOffline now random)"
| ticket: "gen \<in> set (cn_tickets c) \<Longrightarrow> 0 \<le> random \<Longrightarrow> random < 1 \<Longrightarrow>
    conn_callback c (settleTicket gen answer isOnline random)"
| revalidated: "gen \<in> set (cn_revalidations c) \<Longrightarrow> 0 \<le> random \<Longrightarrow> random < 1 \<Longrightarrow>
    conn_callback c (settleRevalidation gen valid random)"
| opened: "cs_status (cn_state c) \<noteq> Open \<Longrightarrow> conn_callback c (socketOpened s now)"
| message: "cs_status (cn_state c) = Open \<Longrightarrow> conn_callback c (socketMessage s data)"
| closed: "0 \<le> random \<Longrightarrow> random < 1 \<Longrightarrow> conn_callback c (socketClosed s code now random)"
| heartbeat: "cn_heartbeatTimer c \<Longrightarrow> conn_callback c fireHeartbeat"
| silent: "cn_heartbeatTimeout c \<Longrightarrow> 0 \<le> random \<Longrightarrow> random < 1 \<Longrightarrow>
    conn_callback c (fireHeartbeatTimeout now random)"

inductive conn_event :: "'w connection \<Rightarrow> ('w connection \<Rightarrow> 'w connection) \<Rightarrow> bool" for c where
  started: "conn_event c start"
| stopped: "conn_event c stop"
| called_back: "conn_callback c f \<Longrightarrow> conn_event c f"

text \<open>Every order of these and of the callers' messages. The second argument holds what was asked by \<open>request\<close>.\<close>

inductive conn_run :: "'w connection \<Rightarrow> 'w multiset \<Rightarrow> bool" where
  created: "conn_run createConnection {#}"
| happened: "conn_run c ws \<Longrightarrow> conn_event c f \<Longrightarrow> conn_run (f c) ws"
| requested: "conn_run c ws \<Longrightarrow> conn_run (request message (Caller w) c) (add_mset w ws)"
| notified: "conn_run c ws \<Longrightarrow> conn_run (notify message c) ws"

section \<open>The invariant\<close>

definition movers :: "'w connection \<Rightarrow> nat" where
  \<comment> \<open>What will move the connection on: a socket, the retry timer, or an answer of the current attempt.\<close>
  "movers c = of_bool (cn_socket c \<noteq> None) + of_bool (cn_retryTimer c \<noteq> None) +
     of_bool (cn_generation c \<in> set (cn_tickets c)) + of_bool (cn_generation c \<in> set (cn_revalidations c))"

definition moves_ok :: "'w connection \<Rightarrow> bool" where
  "moves_ok c \<longleftrightarrow> movers c = of_bool (cn_started c) \<and> cn_watching c = cn_started c \<and>
     (cs_status (cn_state c) = Closed \<longleftrightarrow> \<not> cn_started c) \<and>
     distinct (cn_tickets c) \<and> distinct (cn_revalidations c) \<and>
     (\<forall>g > cn_generation c. g \<notin> set (cn_tickets c) \<and> g \<notin> set (cn_revalidations c))"

definition pings :: "(string \<times> 'w waiter) list \<Rightarrow> nat" where
  "pings ps = length (filter (\<lambda>(_, w). case w of HeartbeatPing \<Rightarrow> True | Caller _ \<Rightarrow> False) ps)"

definition watch_ok :: "'w connection \<Rightarrow> bool" where
  \<comment> \<open>Just while it is open, a connection has a socket that can carry requests, and one of the two heartbeat timers
    runs: the interval, or the wait for the one ping that is outstanding.\<close>
  "watch_ok c \<longleftrightarrow>
     (if cs_status (cn_state c) = Open
      then cn_socket c \<noteq> None \<and> cn_openedAt c \<noteq> None \<and> cn_heartbeatTimer c \<noteq> cn_heartbeatTimeout c \<and>
           pings (cn_pending c) = of_bool (cn_heartbeatTimeout c)
      else cn_pending c = [] \<and> \<not> cn_heartbeatTimer c \<and> \<not> cn_heartbeatTimeout c \<and> cn_openedAt c = None)"

definition keys_ok :: "'w connection \<Rightarrow> bool" where
  "keys_ok c \<longleftrightarrow> distinct (map fst (cn_pending c)) \<and> fst ` set (cn_pending c) \<subseteq> request_id ` {1..cn_nextId c}"

definition bounds_ok :: "'w connection \<Rightarrow> bool" where
  "bounds_ok c \<longleftrightarrow> 0 \<le> cs_unreachableAttempts (cn_state c) \<and>
     (\<forall>d. cn_retryTimer c = Some d \<longrightarrow> 0 \<le> d \<and> d < of_int BACKOFF_MAX_MS)"

definition settled :: "'w conn_output list \<Rightarrow> 'w multiset" where
  \<comment> \<open>The requests whose promise was settled.\<close>
  "settled xs = mset (List.map_filter (\<lambda>x. case x of OutAck w _ \<Rightarrow> Some w | OutRejected w \<Rightarrow> Some w | _ \<Rightarrow> None) xs)"

definition requests :: "'w connection \<Rightarrow> 'w multiset" where
  "requests c = mset (callers (cn_pending c)) + settled (cn_out c)"

text \<open>What the small operations leave alone.\<close>

lemma resetBackoff_fields [simp]:
  "cn_state (resetBackoff now c) = cn_state c" "cn_started (resetBackoff now c) = cn_started c"
  "cn_generation (resetBackoff now c) = cn_generation c" "cn_socket (resetBackoff now c) = cn_socket c"
  "cn_watching (resetBackoff now c) = cn_watching c" "cn_nextId (resetBackoff now c) = cn_nextId c"
  "cn_pending (resetBackoff now c) = cn_pending c" "cn_tickets (resetBackoff now c) = cn_tickets c"
  "cn_revalidations (resetBackoff now c) = cn_revalidations c" "cn_out (resetBackoff now c) = cn_out c"
  by (simp_all add: resetBackoff_def split: option.split)

lemma dropSocket_fields [simp]:
  "cn_state (dropSocket c) = cn_state c" "cn_started (dropSocket c) = cn_started c"
  "cn_generation (dropSocket c) = cn_generation c" "cn_socket (dropSocket c) = None"
  "cn_retryTimer (dropSocket c) = cn_retryTimer c" "cn_heartbeatTimer (dropSocket c) = cn_heartbeatTimer c"
  "cn_heartbeatTimeout (dropSocket c) = cn_heartbeatTimeout c" "cn_openedAt (dropSocket c) = cn_openedAt c"
  "cn_watching (dropSocket c) = cn_watching c" "cn_nextId (dropSocket c) = cn_nextId c"
  "cn_tickets (dropSocket c) = cn_tickets c" "cn_revalidations (dropSocket c) = cn_revalidations c"
  "cn_pending (dropSocket c) = (if cn_socket c = None then cn_pending c else [])"
  by (simp_all add: dropSocket_def rejectPending_def logOut_def split: option.split)

lemma setState_fields [simp]:
  "cn_state (setState f c) = f (cn_state c)" "cn_started (setState f c) = cn_started c"
  "cn_generation (setState f c) = cn_generation c" "cn_socket (setState f c) = cn_socket c"
  "cn_retryTimer (setState f c) = cn_retryTimer c" "cn_heartbeatTimer (setState f c) = cn_heartbeatTimer c"
  "cn_heartbeatTimeout (setState f c) = cn_heartbeatTimeout c" "cn_openedAt (setState f c) = cn_openedAt c"
  "cn_watching (setState f c) = cn_watching c" "cn_nextId (setState f c) = cn_nextId c"
  "cn_tickets (setState f c) = cn_tickets c" "cn_revalidations (setState f c) = cn_revalidations c"
  "cn_pending (setState f c) = cn_pending c" "cn_backoffAttempt (setState f c) = cn_backoffAttempt c"
  by (simp_all add: setState_def logOut_def)

lemmas conn_ops = logOut_def clearTimers_def scheduleRetry_def stop_def
  handleClose_def settleRevalidation_def attempt_def startHeartbeat_def start_def goOnline_def
  goOffline_def retryNow_def fireRetry_def ticketFailed_def settleTicket_def socketOpened_def socketClosed_def
  fireHeartbeatTimeout_def Let_def

lemmas moves_defs = conn_ops moves_ok_def movers_def of_bool_def

end
