(* ===== verification/Subscriptions.thy ===== *)
theory Subscriptions
  imports StoreState PresenceActivity Connection
begin

text \<open>
  Subscriptions over the connection (\<open>web/lib/chat/realtime/subscriptions.ts\<close>, \<open>createRealtime\<close>).

  The record holds the closure's variables, the connection, the presence activity, and what is read of the outside: the
  store's snapshot, the clock and the visibility of the window. Sets of keys are lists in insertion order; the identity
  of the set \<open>subscribed\<close>, which the code compares to see that the connection was lost meanwhile, is \<open>rt_epoch\<close>.
  \<open>rt_queue\<close> holds the microtasks in their order: continuations of settled promises and the scheduled \<open>reconcile\<close>.
  Requests carry what waits for them. Calls of the store's actions, frames sent and answers of the heartbeat are logged.
  The store's own effects arrive as changes of the snapshot (\<open>storeChanged\<close>), which its listener hears.
\<close>

section \<open>Data\<close>

definition RESTORED_BANNER_MS :: int where "RESTORED_BANNER_MS = 3000"
definition UNAVAILABLE_AFTER_ATTEMPTS :: int where "UNAVAILABLE_AFTER_ATTEMPTS = 3"
definition TYPING_INTERVAL_MS :: int where "TYPING_INTERVAL_MS = 3000"

datatype target = WorkspaceTarget (target_id: ident) | RoomTarget (target_id: ident)

fun keyOf :: "target \<Rightarrow> string" where
  "keyOf (WorkspaceTarget i) = ''workspace:'' @ i"
| "keyOf (RoomTarget i) = ''room:'' @ i"

datatype subscribe_result = SubOk | SubNotFound | SubFailed

datatype heartbeat_result = BeatOk | BeatGone | BeatUnsent

datatype rt_waiter =
    SubscribeWait nat nat target \<comment> \<open>the batch, the position in it\<close>
  | UnsubscribeWait
  | HeartbeatWait nat

datatype micro = MAck rt_waiter ack | MReject rt_waiter | MReconcile | MBatch nat

datatype store_call =
    ReloadRooms ident | ReloadThreads ident | LoadMembers ident | SyncSaved ident | LoadNotificationLevel ident
  | ReloadActivity ident | SyncTimeline ident | LoadRoomMembers ident | ReloadThread ident ident

record sub_batch =
  sb_epoch :: nat
  sb_state :: chat_state
  sb_targets :: "target list"
  sb_results :: "subscribe_result option list"
  sb_syncing :: bool

record realtime =
  rt_conn :: "rt_waiter connection"
  rt_seen :: nat \<comment> \<open>how much of the connection's log has been heard\<close>
  rt_state :: chat_state
  rt_now :: int
  rt_visible :: bool
  rt_view :: connection_view \<comment> \<open>the last argument of \<open>store.setConnection\<close>\<close>
  rt_activity :: presence_activity
  rt_subscribed :: "string list"
  rt_epoch :: nat
  rt_subscribing :: "string list"
  rt_failed :: "string list"
  rt_batchCount :: int \<comment> \<open>\<open>batches\<close>\<close>
  rt_batches :: "(nat \<times> sub_batch) list" \<comment> \<open>the runs of \<open>reconcile\<close> that wait\<close>
  rt_nextBatch :: nat
  rt_everOpened :: bool
  rt_syncingAfterReconnect :: bool
  rt_reconcileScheduled :: bool
  rt_restoredTimer :: bool
  rt_listening :: bool \<comment> \<open>\<open>unsubscribeStore\<close>\<close>
  rt_connectionState :: connection_state
  rt_lastTypingAt :: "(string, int) jsrec"
  rt_queue :: "micro list"
  rt_calls :: "store_call list"
  rt_sent :: "(int \<times> client_message) list"
  rt_events :: "server_event list"
  rt_beats :: "(nat \<times> heartbeat_result) list"

definition createRealtime :: "chat_state \<Rightarrow> int \<Rightarrow> bool \<Rightarrow> realtime" where
  "createRealtime st t0 vis =
     \<lparr>rt_conn = createConnection, rt_seen = 0, rt_state = st, rt_now = t0, rt_visible = vis,
      rt_view = \<lparr>cv_banner = None, cv_unavailable = None\<rparr>, rt_activity = createActivity t0,
      rt_subscribed = [], rt_epoch = 0, rt_subscribing = [], rt_failed = [], rt_batchCount = 0, rt_batches = [],
      rt_nextBatch = 0, rt_everOpened = False, rt_syncingAfterReconnect = False, rt_reconcileScheduled = False,
      rt_restoredTimer = False, rt_listening = False,
      rt_connectionState = \<lparr>cs_status = Closed, cs_lastOpenedAt = None, cs_unreachableAttempts = 0\<rparr>,
      rt_lastTypingAt = [], rt_queue = [], rt_calls = [], rt_sent = [], rt_events = [], rt_beats = []\<rparr>"

section \<open>What to subscribe to\<close>

definition desiredTargets :: "chat_state \<Rightarrow> target list" where
  "desiredTargets st =
     (let removed = (\<lambda>i. rget (s_removedRooms st) i \<noteq> None);
          targets = (case s_activeWorkspaceId st of
             None \<Rightarrow> []
           | Some w \<Rightarrow>
               if w = [] \<or> rget (s_removedWorkspaces st) w \<noteq> None then []
               else WorkspaceTarget w #
                 (case rget (s_roomLists st) w of
                    None \<Rightarrow> []
                  | Some rooms \<Rightarrow>
                      if ld_status rooms = Ready then map RoomTarget (filter (\<lambda>i. \<not> removed i) (ld_list rooms)) else []))
      in case s_huddleCallRoomId st of
           None \<Rightarrow> targets
         | Some call \<Rightarrow>
             if call \<noteq> [] \<and> \<not> removed call \<and> RoomTarget call \<notin> set targets then targets @ [RoomTarget call] else targets)"

definition workspacesOf :: "chat_state \<Rightarrow> target list \<Rightarrow> ident list" where
  \<comment> \<open>\<open>[...new Set(ids)]\<close> keeps the first of equal ids.\<close>
  "workspacesOf st targets =
     rev (remdups (rev (concat (map (\<lambda>t. case t of
        WorkspaceTarget i \<Rightarrow> [i]
      | RoomTarget i \<Rightarrow> (case rget (s_rooms st) i of None \<Rightarrow> [] | Some room \<Rightarrow> [r_workspace_id room])) targets))))"

definition syncAfterSubscribe :: "chat_state \<Rightarrow> ident \<Rightarrow> target list \<Rightarrow> store_call list" where
  "syncAfterSubscribe st w targets =
     [ReloadRooms w, ReloadThreads w]
     @ (if rget (s_members st) w \<noteq> None then [LoadMembers w] else [])
     @ (if Option.bind (rget (s_saved st) w) sw_cursor \<noteq> None then [SyncSaved w] else [])
     @ (if rget (s_notificationLevels st) w \<noteq> None then [LoadNotificationLevel w] else [])
     @ (if rget (s_activity st) w \<noteq> None then [ReloadActivity w] else [])
     @ concat (map (\<lambda>t. case t of
          WorkspaceTarget i \<Rightarrow> []
        | RoomTarget i \<Rightarrow>
            if map_option r_workspace_id (rget (s_rooms st) i) \<noteq> Some w then []
            else (if map_option tl_status (rget (s_timelines st) i) = Some Ready then [SyncTimeline i] else [])
              @ (if map_option fo_roomId (s_focus st) = Some i \<and> rget (s_roomMembers st) i \<noteq> None
                 then [LoadRoomMembers i] else [])
              @ (case s_threadFocus st of
                   Some (roomId, rootId) \<Rightarrow> if roomId = i then [ReloadThread i rootId] else []
                 | None \<Rightarrow> [])) targets)"

section \<open>The banner and the connection's state\<close>

definition scheduleReconcile :: "realtime \<Rightarrow> realtime" where
  "scheduleReconcile r =
     (if rt_reconcileScheduled r then r
      else r\<lparr>rt_reconcileScheduled := True, rt_queue := rt_queue r @ [MReconcile]\<rparr>)"

definition storeChanged :: "chat_state \<Rightarrow> realtime \<Rightarrow> realtime" where
  "storeChanged st r =
     (let r1 = r\<lparr>rt_state := st\<rparr> in if rt_listening r1 then scheduleReconcile r1 else r1)"

definition setBanner :: "connection_view \<Rightarrow> realtime \<Rightarrow> realtime" where
  \<comment> \<open>\<open>store.setConnection\<close> tells its listeners when the view differs.\<close>
  "setBanner shown r =
     (let r1 = r\<lparr>rt_view := shown\<rparr>
      in if rt_view r \<noteq> shown \<and> rt_listening r then scheduleReconcile r1 else r1)"

definition unavailable_view :: "connection_state \<Rightarrow> connection_view" where
  "unavailable_view next =
     \<lparr>cv_banner = Some BanReconnecting,
      cv_unavailable = (case cs_lastOpenedAt next of
          None \<Rightarrow> None
        | Some t \<Rightarrow> if cs_unreachableAttempts next \<ge> UNAVAILABLE_AFTER_ATTEMPTS
                    then Some (t, cs_unreachableAttempts next) else None)\<rparr>"

definition banner_view :: "connection_banner option \<Rightarrow> connection_view" where
  "banner_view b = \<lparr>cv_banner = b, cv_unavailable = None\<rparr>"

definition handleConnectionState :: "connection_state \<Rightarrow> realtime \<Rightarrow> realtime" where
  "handleConnectionState next r =
     (if cs_status next = Open then r\<lparr>rt_connectionState := next\<rparr>
      else setBanner (if cs_status next = Reconnecting then unavailable_view next else banner_view None)
        (r\<lparr>rt_connectionState := next, rt_activity := resetActivity (rt_activity r), rt_restoredTimer := False,
           rt_syncingAfterReconnect := False, rt_subscribed := [], rt_epoch := rt_epoch r + 1,
           rt_subscribing := [], rt_failed := [], rt_batchCount := 0\<rparr>))"

definition finishReconnectSync :: "realtime \<Rightarrow> realtime" where
  "finishReconnectSync r =
     (if \<not> rt_syncingAfterReconnect r \<or> rt_batchCount r > 0 then r
      else (setBanner (banner_view (Some BanRestored)) (r\<lparr>rt_syncingAfterReconnect := False\<rparr>))
             \<lparr>rt_restoredTimer := True\<rparr>)"

definition fireRestored :: "realtime \<Rightarrow> realtime" where
  "fireRestored r = setBanner (banner_view None) (r\<lparr>rt_restoredTimer := False\<rparr>)"

section \<open>Subscribing\<close>

definition requestOver :: "client_message \<Rightarrow> rt_waiter \<Rightarrow> realtime \<Rightarrow> realtime" where
  "requestOver message w r = r\<lparr>rt_conn := Connection.request message (Caller w) (rt_conn r)\<rparr>"

definition notifyOver :: "client_message \<Rightarrow> realtime \<Rightarrow> realtime" where
  "notifyOver message r = r\<lparr>rt_conn := Connection.notify message (rt_conn r)\<rparr>"

definition target_message :: "client_message_type \<Rightarrow> target \<Rightarrow> client_message" where
  "target_message ty t =
     (case t of
        WorkspaceTarget i \<Rightarrow> (blank_message ty)\<lparr>cm_workspace_id := Some i\<rparr>
      | RoomTarget i \<Rightarrow> (blank_message ty)\<lparr>cm_room_id := Some i\<rparr>)"

definition parseKey :: "string \<Rightarrow> target" where
  \<comment> \<open>\<open>key.slice\<close> before and after the first colon.\<close>
  "parseKey key =
     (let kind = takeWhile (\<lambda>c. c \<noteq> CHR '':'') key; i = drop 1 (dropWhile (\<lambda>c. c \<noteq> CHR '':'') key)
      in if kind = ''workspace'' then WorkspaceTarget i else RoomTarget i)"

definition unsubscribe :: "string \<Rightarrow> realtime \<Rightarrow> realtime" where
  "unsubscribe key r =
     requestOver (target_message CmUnsubscribe (parseKey key)) UnsubscribeWait
       (r\<lparr>rt_subscribed := removeAll key (rt_subscribed r)\<rparr>)"

definition subscribe :: "nat \<Rightarrow> nat \<times> target \<Rightarrow> realtime \<Rightarrow> realtime" where
  "subscribe b it = requestOver (target_message CmSubscribe (snd it)) (SubscribeWait b (fst it) (snd it))"

definition set_add :: "'a \<Rightarrow> 'a list \<Rightarrow> 'a list" where
  \<comment> \<open>\<open>Set.prototype.add\<close>\<close>
  "set_add x xs = (if x \<in> set xs then xs else xs @ [x])"

definition startBatch :: "target list \<Rightarrow> realtime \<Rightarrow> realtime" where
  "startBatch added r =
     (let b = rt_nextBatch r;
          batch = \<lparr>sb_epoch = rt_epoch r, sb_state = rt_state r, sb_targets = added,
                   sb_results = replicate (length added) None, sb_syncing = False\<rparr>
      in fold (subscribe b) (enumerate 0 added)
           (r\<lparr>rt_batchCount := rt_batchCount r + 1, rt_nextBatch := b + 1, rt_batches := rt_batches r @ [(b, batch)],
              rt_subscribing := fold set_add (map keyOf added) (rt_subscribing r)\<rparr>))"

definition reconcile :: "realtime \<Rightarrow> realtime" where
  "reconcile r =
     (if cs_status (rt_connectionState r) \<noteq> Open then r
      else
        let desired = desiredTargets (rt_state r);
            gone = filter (\<lambda>k. k \<notin> keyOf ` set desired) (rt_subscribed r);
            r1 = fold unsubscribe gone r;
            added = filter (\<lambda>t. keyOf t \<notin> set (rt_subscribed r1) \<and> keyOf t \<notin> set (rt_subscribing r1) \<and>
                                keyOf t \<notin> set (rt_failed r1)) desired
        in if added = [] then finishReconnectSync r1 else startBatch added r1)"

definition handleOpen :: "realtime \<Rightarrow> realtime" where
  "handleOpen r =
     (let (activity, value) = currentActivity default_options (rt_visible r) (rt_now r) (rt_activity r);
          r1 = notifyOver ((blank_message CmActivity)\<lparr>cm_active := Some value\<rparr>)
                 (r\<lparr>rt_restoredTimer := False, rt_activity := activity\<rparr>);
          r2 = r1\<lparr>rt_syncingAfterReconnect := rt_everOpened r1, rt_everOpened := True\<rparr>
      in reconcile (setBanner (banner_view (if rt_syncingAfterReconnect r2 then Some BanSyncing else None)) r2))"

definition setResult :: "nat \<Rightarrow> nat \<Rightarrow> subscribe_result \<Rightarrow> realtime \<Rightarrow> realtime" where
  \<comment> \<open>A \<open>subscribe\<close> returns; the last one ends the \<open>Promise.all\<close>.\<close>
  "setResult b i res r =
     (case map_of (rt_batches r) b of
        None \<Rightarrow> r
      | Some sb \<Rightarrow>
          let results = (sb_results sb)[i := Some res];
              r1 = r\<lparr>rt_batches := AList.update b (sb\<lparr>sb_results := results\<rparr>) (rt_batches r)\<rparr>
          in if None \<notin> set results then r1\<lparr>rt_queue := rt_queue r1 @ [MBatch b]\<rparr> else r1)"

definition subscribeAnswered :: "nat \<Rightarrow> nat \<Rightarrow> target \<Rightarrow> ack \<Rightarrow> realtime \<Rightarrow> realtime" where
  "subscribeAnswered b i t a r =
     (let key = keyOf t; r1 = r\<lparr>rt_subscribing := removeAll key (rt_subscribing r)\<rparr>
      in case ack_err a of
           Some e \<Rightarrow> setResult b i (if e = AckNotFound then SubNotFound else SubFailed)
                       (r1\<lparr>rt_failed := set_add key (rt_failed r1)\<rparr>)
         | None \<Rightarrow> setResult b i SubOk (r1\<lparr>rt_subscribed := set_add key (rt_subscribed r1)\<rparr>))"

definition subscribeRejected :: "nat \<Rightarrow> nat \<Rightarrow> target \<Rightarrow> realtime \<Rightarrow> realtime" where
  "subscribeRejected b i t r =
     setResult b i SubFailed (r\<lparr>rt_subscribing := removeAll (keyOf t) (rt_subscribing r)\<rparr>)"

definition dropBatch :: "nat \<Rightarrow> realtime \<Rightarrow> realtime" where
  "dropBatch b r = r\<lparr>rt_batches := AList.delete b (rt_batches r)\<rparr>"

definition endBatch :: "nat \<Rightarrow> realtime \<Rightarrow> realtime" where
  \<comment> \<open>The end of \<open>reconcile\<close>, unless the connection was lost meanwhile.\<close>
  "endBatch b r =
     (case map_of (rt_batches r) b of
        None \<Rightarrow> r
      | Some sb \<Rightarrow>
          if sb_epoch sb \<noteq> rt_epoch r then dropBatch b r
          else scheduleReconcile (dropBatch b (r\<lparr>rt_batchCount := rt_batchCount r - 1\<rparr>)))"

definition batch_ok :: "sub_batch \<Rightarrow> target list" where
  "batch_ok sb = map fst (filter (\<lambda>(t, res). res = Some SubOk) (zip (sb_targets sb) (sb_results sb)))"

definition syncBatch :: "nat \<Rightarrow> sub_batch \<Rightarrow> store_call list \<Rightarrow> realtime \<Rightarrow> realtime" where
  "syncBatch b sb cs r =
     r\<lparr>rt_calls := rt_calls r @ cs, rt_batches := AList.update b (sb\<lparr>sb_syncing := True\<rparr>) (rt_batches r)\<rparr>"

definition continueBatch :: "nat \<Rightarrow> realtime \<Rightarrow> realtime" where
  \<comment> \<open>\<open>reconcile\<close> after the subscriptions were answered.\<close>
  "continueBatch b r =
     (case map_of (rt_batches r) b of
        None \<Rightarrow> r
      | Some sb \<Rightarrow>
          if sb_epoch sb \<noteq> rt_epoch r then dropBatch b r
          else if Some SubNotFound \<in> set (sb_results sb)
          then syncBatch b sb (map ReloadRooms (workspacesOf (sb_state sb) (sb_targets sb))) r
          else if batch_ok sb \<noteq> []
          then syncBatch b sb (concat (map (\<lambda>w. syncAfterSubscribe (rt_state r) w (batch_ok sb))
                                 (workspacesOf (sb_state sb) (batch_ok sb)))) r
          else endBatch b r)"

section \<open>Hearing the connection\<close>

definition collectOutput :: "rt_waiter conn_output \<Rightarrow> realtime \<Rightarrow> realtime" where
  "collectOutput x r =
     (case x of
        OutAck w a \<Rightarrow> r\<lparr>rt_queue := rt_queue r @ [MAck w a]\<rparr>
      | OutRejected w \<Rightarrow> r\<lparr>rt_queue := rt_queue r @ [MReject w]\<rparr>
      | OutSent m \<Rightarrow> r\<lparr>rt_sent := rt_sent r @ [(rt_now r, m)]\<rparr>
      | _ \<Rightarrow> r)"

definition handleOutput :: "rt_waiter conn_output \<Rightarrow> realtime \<Rightarrow> realtime" where
  "handleOutput x r =
     (case x of
        OutState st \<Rightarrow> handleConnectionState st r
      | OutOpen \<Rightarrow> handleOpen r
      | OutEvent e \<Rightarrow> r\<lparr>rt_events := rt_events r @ [e]\<rparr>
      | _ \<Rightarrow> collectOutput x r)"

definition hear :: "(rt_waiter conn_output \<Rightarrow> realtime \<Rightarrow> realtime) \<Rightarrow> realtime \<Rightarrow> realtime" where
  "hear f r = fold f (drop (rt_seen r) (cn_out (rt_conn r))) (r\<lparr>rt_seen := length (cn_out (rt_conn r))\<rparr>)"

definition settle :: "realtime \<Rightarrow> realtime" where
  \<comment> \<open>After code that only sends: the frames sent, the requests rejected at once.\<close>
  "settle = hear collectOutput"

definition overConnection :: "(rt_waiter connection \<Rightarrow> rt_waiter connection) \<Rightarrow> realtime \<Rightarrow> realtime" where
  \<comment> \<open>An operation or a callback of the connection, with the callbacks it makes.\<close>
  "overConnection f r = settle (hear handleOutput (r\<lparr>rt_conn := f (rt_conn r)\<rparr>))"

definition runMicro :: "micro \<Rightarrow> realtime \<Rightarrow> realtime" where
  "runMicro m r =
     settle (case m of
        MReconcile \<Rightarrow> reconcile (r\<lparr>rt_reconcileScheduled := False\<rparr>)
      | MBatch b \<Rightarrow> continueBatch b r
      | MAck w a \<Rightarrow>
          (case w of
             SubscribeWait b i t \<Rightarrow> subscribeAnswered b i t a r
           | UnsubscribeWait \<Rightarrow> r
           | HeartbeatWait n \<Rightarrow> r\<lparr>rt_beats := rt_beats r @ [(n, case ack_err a of
                 None \<Rightarrow> BeatOk | Some e \<Rightarrow> if e = AckNotFound then BeatGone else BeatUnsent)]\<rparr>)
      | MReject w \<Rightarrow>
          (case w of
             SubscribeWait b i t \<Rightarrow> subscribeRejected b i t r
           | UnsubscribeWait \<Rightarrow> r
           | HeartbeatWait n \<Rightarrow> r\<lparr>rt_beats := rt_beats r @ [(n, BeatUnsent)]\<rparr>))"

section \<open>Operations\<close>

definition startRealtime :: "realtime \<Rightarrow> realtime" where
  "startRealtime r =
     overConnection Connection.start
       (r\<lparr>rt_listening := True, rt_activity := startActivity default_options (rt_now r) (rt_activity r)\<rparr>)"

definition stopRealtime :: "realtime \<Rightarrow> realtime" where
  "stopRealtime r =
     overConnection Connection.stop
       (r\<lparr>rt_listening := False, rt_restoredTimer := False, rt_activity := stopActivity (rt_activity r)\<rparr>)"

definition typing_key :: "ident \<Rightarrow> ident option \<Rightarrow> string" where
  "typing_key roomId threadRootId = (case threadRootId of None \<Rightarrow> roomId | Some rootId \<Rightarrow> roomId @ '':'' @ rootId)"

definition sendTyping :: "ident \<Rightarrow> ident option \<Rightarrow> realtime \<Rightarrow> realtime" where
  "sendTyping roomId threadRootId r =
     (if cs_status (rt_connectionState r) \<noteq> Open \<or> keyOf (RoomTarget roomId) \<notin> set (rt_subscribed r) then r
      else
        let key = typing_key roomId threadRootId in
        if (case rget (rt_lastTypingAt r) key of None \<Rightarrow> False | Some t \<Rightarrow> rt_now r - t < TYPING_INTERVAL_MS) then r
        else settle (notifyOver
               ((blank_message CmTyping)\<lparr>cm_room_id := Some roomId, cm_thread_root_id := threadRootId\<rparr>)
               (r\<lparr>rt_lastTypingAt := rput key (rt_now r) (rt_lastTypingAt r)\<rparr>)))"

definition huddleHeartbeat :: "nat \<Rightarrow> ident \<Rightarrow> ident \<Rightarrow> realtime \<Rightarrow> realtime" where
  "huddleHeartbeat n huddleId participantId r =
     (if cs_status (rt_connectionState r) \<noteq> Open then r\<lparr>rt_beats := rt_beats r @ [(n, BeatUnsent)]\<rparr>
      else settle (requestOver
             ((blank_message CmHuddleHeartbeat)\<lparr>cm_huddle_id := Some huddleId, cm_participant_id := Some participantId\<rparr>)
             (HeartbeatWait n) r))"

definition activityFired :: "realtime \<Rightarrow> realtime" where
  \<comment> \<open>The settle timer of the presence activity: its \<open>onChange\<close> sends the value.\<close>
  "activityFired r =
     (let (a, change) = fireSettle default_options (rt_visible r) (rt_now r) (rt_activity r); r1 = r\<lparr>rt_activity := a\<rparr>
      in case change of
           None \<Rightarrow> r1
         | Some value \<Rightarrow> settle (notifyOver ((blank_message CmActivity)\<lparr>cm_active := Some value\<rparr>) r1))"

end
