(* ===== verification/ConnectionRuns.thy ===== *)
theory ConnectionRuns
  imports Connection
begin

text \<open>
  What holds in every run of the connection (\<open>conn_run\<close> of \<open>Connection\<close>): it is never stuck, an open connection is
  watched by the heartbeat, every request is settled once, the wait before a new attempt is bounded.
\<close>

section \<open>What the operations change\<close>

lemma rejectWaiter_fields [simp]:
  "cn_state (rejectWaiter w c) = cn_state c" "cn_started (rejectWaiter w c) = cn_started c"
  "cn_generation (rejectWaiter w c) = cn_generation c" "cn_socket (rejectWaiter w c) = cn_socket c"
  "cn_retryTimer (rejectWaiter w c) = cn_retryTimer c" "cn_heartbeatTimer (rejectWaiter w c) = cn_heartbeatTimer c"
  "cn_heartbeatTimeout (rejectWaiter w c) = cn_heartbeatTimeout c" "cn_openedAt (rejectWaiter w c) = cn_openedAt c"
  "cn_watching (rejectWaiter w c) = cn_watching c" "cn_nextId (rejectWaiter w c) = cn_nextId c"
  "cn_tickets (rejectWaiter w c) = cn_tickets c" "cn_revalidations (rejectWaiter w c) = cn_revalidations c"
  "cn_pending (rejectWaiter w c) = cn_pending c"
  by (simp_all add: rejectWaiter_def logOut_def split: waiter.split)

lemma send_Some: "send message c = Some c' \<Longrightarrow> c' = logOut (OutSent message) c"
  by (simp add: send_def split: if_splits)

lemma request_fields [simp]:
  "cn_state (request m w c) = cn_state c" "cn_started (request m w c) = cn_started c"
  "cn_generation (request m w c) = cn_generation c" "cn_socket (request m w c) = cn_socket c"
  "cn_retryTimer (request m w c) = cn_retryTimer c" "cn_heartbeatTimer (request m w c) = cn_heartbeatTimer c"
  "cn_heartbeatTimeout (request m w c) = cn_heartbeatTimeout c" "cn_openedAt (request m w c) = cn_openedAt c"
  "cn_watching (request m w c) = cn_watching c" "cn_nextId (request m w c) = cn_nextId c + 1"
  "cn_tickets (request m w c) = cn_tickets c" "cn_revalidations (request m w c) = cn_revalidations c"
  by (simp_all add: request_def Let_def logOut_def send_def)

lemma notify_fields [simp]:
  "cn_state (notify m c) = cn_state c" "cn_started (notify m c) = cn_started c"
  "cn_generation (notify m c) = cn_generation c" "cn_socket (notify m c) = cn_socket c"
  "cn_retryTimer (notify m c) = cn_retryTimer c" "cn_heartbeatTimer (notify m c) = cn_heartbeatTimer c"
  "cn_heartbeatTimeout (notify m c) = cn_heartbeatTimeout c" "cn_openedAt (notify m c) = cn_openedAt c"
  "cn_watching (notify m c) = cn_watching c" "cn_nextId (notify m c) = cn_nextId c"
  "cn_tickets (notify m c) = cn_tickets c" "cn_revalidations (notify m c) = cn_revalidations c"
  "cn_pending (notify m c) = cn_pending c"
  by (simp_all add: notify_def send_def logOut_def)

lemma handleMessage_fields [simp]:
  "cn_state (handleMessage d c) = cn_state c" "cn_started (handleMessage d c) = cn_started c"
  "cn_generation (handleMessage d c) = cn_generation c" "cn_socket (handleMessage d c) = cn_socket c"
  "cn_retryTimer (handleMessage d c) = cn_retryTimer c" "cn_openedAt (handleMessage d c) = cn_openedAt c"
  "cn_watching (handleMessage d c) = cn_watching c" "cn_nextId (handleMessage d c) = cn_nextId c"
  "cn_tickets (handleMessage d c) = cn_tickets c" "cn_revalidations (handleMessage d c) = cn_revalidations c"
  by (simp_all add: handleMessage_def Let_def logOut_def resolveWaiter_def startHeartbeat_def
        split: frame.split option.split waiter.split)

section \<open>What moves the connection on\<close>

lemma moves_same:
  assumes "moves_ok c" "cn_socket c' = cn_socket c" "cn_retryTimer c' = cn_retryTimer c"
    "cn_generation c' = cn_generation c" "cn_tickets c' = cn_tickets c" "cn_revalidations c' = cn_revalidations c"
    "cn_started c' = cn_started c" "cn_watching c' = cn_watching c"
    "cs_status (cn_state c') = Closed \<longleftrightarrow> cs_status (cn_state c) = Closed"
  shows "moves_ok c'"
  using assms by (simp add: moves_ok_def movers_def)

lemma attempt_moves: "moves_ok c \<Longrightarrow> cn_socket c = None \<Longrightarrow> moves_ok (attempt c)"
  by (auto simp: moves_defs split: if_splits)

lemma start_moves: "moves_ok c \<Longrightarrow> moves_ok (start c)"
  by (auto simp: moves_defs split: if_splits)

lemma fireRetry_moves: "moves_ok c \<Longrightarrow> cn_retryTimer c \<noteq> None \<Longrightarrow> moves_ok (fireRetry c)"
  by (auto simp: moves_defs split: if_splits)

lemma stop_moves: "moves_ok c \<Longrightarrow> moves_ok (stop c)"
  by (auto simp: moves_defs split: if_splits)

lemma close_moves: "moves_ok c \<Longrightarrow> cn_socket c \<noteq> None \<Longrightarrow> moves_ok (handleClose code now random c)"
  by (auto simp: moves_defs split: if_splits)

lemma ticket_moves:
  assumes "moves_ok c" "gen \<in> set (cn_tickets c)"
  shows "moves_ok (settleTicket gen answer isOnline random c)"
proof (cases "gen = cn_generation c")
  case True
  then show ?thesis using assms by (cases answer) (auto simp: moves_defs split: if_splits)
next
  case False
  then show ?thesis using assms by (auto simp: moves_ok_def movers_def settleTicket_def)
qed

lemma revalidation_moves:
  assumes "moves_ok c" "gen \<in> set (cn_revalidations c)"
  shows "moves_ok (settleRevalidation gen valid random c)"
proof (cases "gen = cn_generation c")
  case True
  then show ?thesis using assms by (cases valid) (auto simp: moves_defs split: if_splits)
next
  case False
  then show ?thesis using assms by (auto simp: moves_ok_def movers_def settleRevalidation_def)
qed

section \<open>Outstanding pings and the numbers of requests\<close>

lemma pings_delete:
  "distinct (map fst ps) \<Longrightarrow> pings (AList.delete k ps) =
     (if map_of ps k = Some HeartbeatPing then pings ps - 1 else pings ps)"
  "map_of ps k = Some HeartbeatPing \<Longrightarrow> 0 < pings ps"
proof (induction ps)
  case (Cons p ps)
  { case 1
    have nd: "k \<notin> fst ` set ps \<Longrightarrow> AList.delete k ps = ps" "k \<notin> fst ` set ps \<Longrightarrow> map_of ps k = None" for k
      by (simp_all add: delete_id map_of_eq_None_iff)
    show ?case using 1 Cons nd[of "fst p"]
      by (cases p) (auto simp: pings_def split: waiter.splits) }
  { case 2 then show ?case using Cons by (cases p) (auto simp: pings_def split: if_splits) }
qed (simp_all add: pings_def)

lemma digits_val_append:
  "digits_val acc (xs @ ys) = Option.bind (digits_val acc xs) (\<lambda>a. digits_val a ys)"
  by (induction xs arbitrary: acc) simp_all

lemma digit_char:
  assumes "d < 10"
  shows "CHR ''0'' \<le> (char_of (48 + d :: nat) :: char) \<and> (char_of (48 + d) :: char) \<le> CHR ''9'' \<and>
    of_char (char_of (48 + d) :: char) = (48 + d :: nat)"
proof -
  have "d \<in> {0,1,2,3,4,5,6,7,8,9}" using assms by auto
  then show ?thesis by (auto simp: less_eq_char_def)
qed

lemma digits_val_digit:
  assumes "d < 10"
  shows "digits_val acc [char_of (48 + d :: nat)] = Some (10 * acc + int d)"
proof -
  have "int (of_char (char_of (48 + d) :: char)) = int (48 + d)"
    using digit_char[OF assms] by (metis of_nat_of_char)
  then show ?thesis using digit_char[OF assms] by simp
qed

lemma digits_val_decimal: "digits_val 0 (decimal n) = Some (int n)"
proof (induction n rule: decimal.induct)
  case (1 n)
  show ?case
  proof (cases "n < 10")
    case True
    then show ?thesis using digits_val_digit[of n 0] by (simp add: decimal.simps[of n])
  next
    case False
    have e: "decimal n = decimal (n div 10) @ [char_of (48 + n mod 10)]"
      using False by (simp add: decimal.simps[of n])
    have i: "digits_val 0 (decimal (n div 10)) = Some (int (n div 10))" using 1 False by simp
    have d: "10 * int (n div 10) + int (n mod 10) = int n"
      by (metis mult_div_mod_eq of_nat_add of_nat_mult of_nat_numeral)
    show ?thesis unfolding e digits_val_append i by (simp add: digits_val_digit d del: digits_val.simps)
  qed
qed

lemma request_id_inj: "request_id m = request_id n \<longleftrightarrow> m = n"
  by (metis request_id_def list.inject digits_val_decimal of_nat_eq_iff option.inject)

lemma request_id_fresh: "keys_ok c \<Longrightarrow> cn_nextId c < n \<Longrightarrow> request_id n \<notin> fst ` set (cn_pending c)"
  by (auto simp: keys_ok_def request_id_inj)

lemma alist_update_new: "k \<notin> fst ` set ps \<Longrightarrow> AList.update k w ps = ps @ [(k, w)]"
  by (induction ps) auto

lemma alist_delete_append: "AList.delete k (ps @ qs) = AList.delete k ps @ AList.delete k qs"
  by (simp add: AList.delete_eq)

lemma request_outcome:
  assumes "keys_ok c"
  shows "cn_pending (request m w c) =
      (if cn_socket c = None \<or> cs_status (cn_state c) \<noteq> Open then cn_pending c
       else cn_pending c @ [(request_id (cn_nextId c + 1), w)]) \<and>
    cn_out (request m w c) = cn_out c @
      (if cn_socket c = None \<or> cs_status (cn_state c) \<noteq> Open then map OutRejected (callers [([], w)])
       else [OutSent (m\<lparr>cm_id := Some (request_id (cn_nextId c + 1))\<rparr>)])"
proof -
  have "request_id (cn_nextId c + 1) \<notin> fst ` set (cn_pending c)" by (rule request_id_fresh[OF assms]) simp
  then show ?thesis
    by (simp add: request_def send_def logOut_def Let_def alist_update_new alist_delete_append callers_def
          rejectWaiter_def split: waiter.split)
qed

lemma request_keys: "keys_ok c \<Longrightarrow> keys_ok (request m w c)"
  using request_id_fresh[of c "cn_nextId c + 1"] by (auto simp: keys_ok_def request_outcome)

lemma resolveWaiter_fields [simp]:
  "cn_pending (resolveWaiter w a c) = cn_pending c" "cn_nextId (resolveWaiter w a c) = cn_nextId c"
  by (simp_all add: resolveWaiter_def startHeartbeat_def logOut_def split: waiter.split)

lemma handleMessage_pending:
  "cn_pending (handleMessage data c) =
     (case data of AckFrame a \<Rightarrow> (case ack_id a of None \<Rightarrow> cn_pending c | Some i \<Rightarrow> AList.delete i (cn_pending c))
      | _ \<Rightarrow> cn_pending c)"
  by (simp add: handleMessage_def logOut_def Let_def split: frame.split option.split)

lemma keys_ok_same:
  assumes "keys_ok c" "cn_nextId c' = cn_nextId c" "cn_pending c' = cn_pending c \<or> cn_pending c' = []"
  shows "keys_ok c'"
  using assms(1,2) assms(3) by (elim disjE) (simp_all add: keys_ok_def)

lemma handleMessage_keys: 
  assumes "keys_ok c"
  shows "keys_ok (handleMessage data c)"
proof -
  have "keys_ok (c\<lparr>cn_pending := AList.delete i (cn_pending c)\<rparr>)" for i
    using assms dom_delete_subset[of i "cn_pending c"] by (auto simp: keys_ok_def distinct_delete)
  then show ?thesis using assms by (simp add: keys_ok_def handleMessage_pending split: frame.split option.split)
qed

section \<open>What was asked is outstanding or settled\<close>

lemma callers_simps [simp]:
  "callers [] = []" "callers (ps @ qs) = callers ps @ callers qs" "callers [(k, HeartbeatPing)] = []" "callers [(k, Caller w)] = [w]"
  by (simp_all add: callers_def List.map_filter_def)

lemma callers_Cons: "callers ((k, w) # ps) = (case w of HeartbeatPing \<Rightarrow> [] | Caller v \<Rightarrow> [v]) @ callers ps"
  by (simp add: callers_def List.map_filter_def split: waiter.split)

lemma callers_delete:
  "distinct (map fst ps) \<Longrightarrow> mset (callers ps) = mset (callers (AList.delete k ps)) +
     (case map_of ps k of Some (Caller w) \<Rightarrow> {#w#} | _ \<Rightarrow> {#})"
proof (induction ps)
  case (Cons p ps)
  obtain j w where p: "p = (j, w)" by (cases p)
  show ?case
  proof (cases "j = k")
    case True
    then have k: "k \<notin> fst ` set ps" using Cons.prems p by simp
    then show ?thesis using True by (cases w) (simp_all add: p callers_Cons)
  next
    case False
    then show ?thesis using Cons by (simp add: p callers_Cons)
  qed
qed simp

lemma settled_simps [simp]:
  "settled [] = {#}" "settled (xs @ ys) = settled xs + settled ys"
  "settled (OutAck w a # xs) = add_mset w (settled xs)" "settled (OutRejected w # xs) = add_mset w (settled xs)"
  "settled (OutConnect t # xs) = settled xs" "settled (OutClose n # xs) = settled xs"
  "settled (OutOpen # xs) = settled xs" "settled (OutEvent e # xs) = settled xs"
  "settled (OutState st # xs) = settled xs" "settled (OutSent m # xs) = settled xs"
  "settled (map OutRejected ws) = mset ws"
  by (simp_all add: settled_def List.map_filter_def comp_def)

lemma requests_fields [simp]:
  "requests (c\<lparr>cn_state := a0\<rparr>) = requests c" "requests (c\<lparr>cn_started := a1\<rparr>) = requests c"
  "requests (c\<lparr>cn_generation := a2\<rparr>) = requests c" "requests (c\<lparr>cn_socket := a3\<rparr>) = requests c"
  "requests (c\<lparr>cn_openedAt := a4\<rparr>) = requests c" "requests (c\<lparr>cn_backoffAttempt := a5\<rparr>) = requests c"
  "requests (c\<lparr>cn_retryTimer := a6\<rparr>) = requests c" "requests (c\<lparr>cn_heartbeatTimer := a7\<rparr>) = requests c"
  "requests (c\<lparr>cn_heartbeatTimeout := a8\<rparr>) = requests c" "requests (c\<lparr>cn_watching := a9\<rparr>) = requests c"
  "requests (c\<lparr>cn_tickets := b0\<rparr>) = requests c" "requests (c\<lparr>cn_revalidations := b1\<rparr>) = requests c"
  "requests (c\<lparr>cn_sockets := b2\<rparr>) = requests c" "requests (c\<lparr>cn_nextId := b3\<rparr>) = requests c"
  by (simp_all add: requests_def)

lemma requests_ops [simp]:
  "requests (dropSocket c) = requests c" "requests (setState f c) = requests c" "requests (resetBackoff now c) = requests c"
  "requests (logOut OutOpen c) = requests c" "requests (logOut (OutConnect t) c) = requests c"
  by (simp_all add: requests_def dropSocket_def rejectPending_def setState_def logOut_def resetBackoff_def
        split: option.split)

lemma requests_resolve:
  "requests (resolveWaiter w a c) = requests c + mset (callers [([], w)])"
  by (simp add: requests_def resolveWaiter_def startHeartbeat_def logOut_def split: waiter.split)

lemma requests_handle:
  assumes "keys_ok c"
  shows "requests (handleMessage data c) = requests c"
proof -
  have d: "distinct (map fst (cn_pending c))" using assms by (simp add: keys_ok_def)
  have "requests (handleMessage (AckFrame a) c) = requests c" if "ack_id a = Some i" for a i
  proof (cases "map_of (cn_pending c) i")
    case None
    then show ?thesis using that callers_delete[OF d, of i] by (simp add: handleMessage_def requests_def)
  next
    case (Some w)
    then have "mset (callers (cn_pending c)) = mset (callers (AList.delete i (cn_pending c))) + mset (callers [([], w)])"
      using callers_delete[OF d, of i] by (simp split: waiter.split)
    then show ?thesis using that Some by (simp add: handleMessage_def requests_resolve) (simp add: requests_def)
  qed
  then show ?thesis by (cases data) (auto simp: handleMessage_def requests_def logOut_def split: option.split)
qed

lemma requests_request:
  assumes "keys_ok c"
  shows "requests (request m w c) = requests c + (case w of HeartbeatPing \<Rightarrow> {#} | Caller v \<Rightarrow> {#v#})"
  using assms by (simp add: requests_def request_outcome split: waiter.split)

section \<open>The watch of an open connection\<close>

lemma moves_socket:
  assumes "moves_ok c" "cn_socket c \<noteq> None"
  shows "cn_started c" "cn_retryTimer c = None" "cn_generation c \<notin> set (cn_tickets c)"
    "cn_generation c \<notin> set (cn_revalidations c)"
  using assms by (auto simp: moves_ok_def movers_def of_bool_def split: if_splits)

lemma moves_current:
  assumes "moves_ok c" "cn_generation c \<in> set (cn_tickets c) \<or> cn_generation c \<in> set (cn_revalidations c)"
  shows "cn_socket c = None" "cn_started c"
  using assms by (auto simp: moves_ok_def movers_def of_bool_def split: if_splits)

lemma watch_idle:
  "watch_ok c \<Longrightarrow> cn_socket c = None \<Longrightarrow> cs_status (cn_state c) \<noteq> Open \<and> cn_pending c = [] \<and>
     \<not> cn_heartbeatTimer c \<and> \<not> cn_heartbeatTimeout c \<and> cn_openedAt c = None"
  by (auto simp: watch_ok_def split: if_splits)

lemma attempt_watch: "watch_ok c \<Longrightarrow> cn_socket c = None \<Longrightarrow> watch_ok (attempt c)"
  by (drule watch_idle) (auto simp: watch_ok_def conn_ops)

lemma stop_watch: "watch_ok c \<Longrightarrow> watch_ok (stop c)"
  by (auto simp: watch_ok_def conn_ops split: if_splits)

lemma close_watch: "moves_ok c \<Longrightarrow> cn_socket c \<noteq> None \<Longrightarrow> watch_ok (handleClose code now random c)"
  by (drule (1) moves_socket(1)) (auto simp: watch_ok_def conn_ops)

lemma scheduleRetry_watch: "watch_ok (scheduleRetry random c) \<longleftrightarrow> watch_ok c"
  by (simp add: watch_ok_def conn_ops)

lemma watch_same:
  assumes "watch_ok c" "cn_state c' = cn_state c" "cn_socket c' = cn_socket c" "cn_openedAt c' = cn_openedAt c"
    "cn_heartbeatTimer c' = cn_heartbeatTimer c" "cn_heartbeatTimeout c' = cn_heartbeatTimeout c" "cn_pending c' = cn_pending c"
  shows "watch_ok c'"
  using assms by (simp add: watch_ok_def)

lemma ticketFailed_watch:
  assumes "watch_ok c" "cn_socket c = None"
  shows "watch_ok (ticketFailed answer isOnline random c)"
proof (cases "answer = TicketApiError 401")
  case True
  then show ?thesis using stop_watch[OF assms(1)] by (simp add: ticketFailed_def)
next
  case False
  then show ?thesis using watch_idle[OF assms] by (simp add: ticketFailed_def scheduleRetry_watch) (simp add: watch_ok_def)
qed

lemma ticket_watch:
  assumes "watch_ok c" "moves_ok c" "gen \<in> set (cn_tickets c)"
  shows "watch_ok (settleTicket gen answer isOnline random c)"
proof -
  let ?c = "c\<lparr>cn_tickets := remove1 gen (cn_tickets c)\<rparr>"
  have w: "watch_ok ?c" using assms(1) by (simp add: watch_ok_def)
  show ?thesis
  proof (cases "gen = cn_generation c")
    case True
    then have s: "cn_socket c = None" using assms moves_current(1) by metis
    have f: "watch_ok (ticketFailed answer isOnline random ?c)" by (rule ticketFailed_watch[OF w]) (simp add: s)
    show ?thesis using watch_idle[OF assms(1) s] f s True
      by (cases answer) (simp_all add: settleTicket_def Let_def logOut_def, simp_all add: watch_ok_def)
  next
    case False
    then show ?thesis using w by (simp add: settleTicket_def)
  qed
qed

lemma revalidation_watch:
  assumes "watch_ok c"
  shows "watch_ok (settleRevalidation gen valid random c)"
proof -
  let ?c = "c\<lparr>cn_revalidations := remove1 gen (cn_revalidations c)\<rparr>"
  have w: "watch_ok ?c" using assms(1) by (simp add: watch_ok_def)
  show ?thesis using w stop_watch[OF w]
    by (auto simp: settleRevalidation_def scheduleRetry_watch Let_def split: option.split)
qed

lemma opened_watch: 
  assumes "watch_ok c" "cs_status (cn_state c) \<noteq> Open"
  shows "watch_ok (socketOpened s now c)"
  using assms by (auto simp: watch_ok_def socketOpened_def logOut_def startHeartbeat_def pings_def)

lemma pings_append [simp]:
  "pings (ps @ qs) = pings ps + pings qs" "pings [(k, HeartbeatPing)] = 1" "pings [(k, Caller w)] = 0" "pings [] = 0"
  by (simp_all add: pings_def)

lemma request_watch:
  assumes "watch_ok c" "keys_ok c"
  shows "watch_ok (request m (Caller w) c)"
  using assms by (auto simp: watch_ok_def request_outcome)

lemma heartbeat_watch:
  assumes "watch_ok c" "keys_ok c" "cn_heartbeatTimer c"
  shows "watch_ok (fireHeartbeat c)"
proof -
  let ?c = "c\<lparr>cn_heartbeatTimer := False, cn_heartbeatTimeout := True\<rparr>"
  have k: "keys_ok ?c" using assms(2) by (simp add: keys_ok_def)
  have "cs_status (cn_state c) = Open" using assms by (simp add: watch_ok_def split: if_splits)
  then show ?thesis using assms request_outcome[OF k, of "blank_message CmPing" HeartbeatPing]
    by (simp add: watch_ok_def fireHeartbeat_def)
qed

lemma resolve_watch_fields [simp]:
  "cn_state (resolveWaiter w a c) = cn_state c" "cn_socket (resolveWaiter w a c) = cn_socket c"
  "cn_openedAt (resolveWaiter w a c) = cn_openedAt c"
  "cn_heartbeatTimer (resolveWaiter w a c) = (w = HeartbeatPing \<or> cn_heartbeatTimer c)"
  "cn_heartbeatTimeout (resolveWaiter w a c) = (w \<noteq> HeartbeatPing \<and> cn_heartbeatTimeout c)"
  by (simp_all add: resolveWaiter_def startHeartbeat_def logOut_def split: waiter.split)

lemma message_watch:
  assumes "watch_ok c" "keys_ok c" "cs_status (cn_state c) = Open"
  shows "watch_ok (handleMessage data c)"
proof -
  have d: "distinct (map fst (cn_pending c))" using assms(2) by (simp add: keys_ok_def)
  have "watch_ok (handleMessage (AckFrame a) c)" if i: "ack_id a = Some i" for a i
  proof (cases "map_of (cn_pending c) i")
    case None
    then show ?thesis using assms i pings_delete(1)[OF d, of i]
      by (simp add: handleMessage_def watch_ok_def)
  next
    case (Some w)
    then show ?thesis using assms i pings_delete(1)[OF d, of i] pings_delete(2)[of "cn_pending c" i]
      by (cases "w = HeartbeatPing") (auto simp: handleMessage_def watch_ok_def of_bool_def split: if_splits)
  qed
  note ackn = this
  show ?thesis
  proof (cases data)
    case (AckFrame a)
    then show ?thesis using ackn[of a] assms(1) by (cases "ack_id a") (simp_all add: handleMessage_def)
  qed (use assms(1) in \<open>simp_all add: handleMessage_def logOut_def watch_ok_def\<close>)
qed

section \<open>Bounds\<close>

lemma backoff_cap_bounds: "0 < backoff_cap n" "backoff_cap n \<le> BACKOFF_MAX_MS"
  by (simp_all add: backoff_cap_def BACKOFF_MAX_MS_def BACKOFF_BASE_MS_def)

lemma retry_delay:
  assumes "0 \<le> random" "random < (1 :: rat)"
  shows "0 \<le> random * of_int (backoff_cap n) \<and> random * of_int (backoff_cap n) < of_int BACKOFF_MAX_MS"
proof -
  have "random * of_int (backoff_cap n) < 1 * of_int (backoff_cap n)"
    using assms(2) backoff_cap_bounds(1)[of n] by (intro mult_strict_right_mono) simp_all
  also have "\<dots> \<le> of_int BACKOFF_MAX_MS" using backoff_cap_bounds(2)[of n] by simp
  finally show ?thesis using assms(1) backoff_cap_bounds(1)[of n] by simp
qed

lemma bounds_ops:
  assumes "bounds_ok c"
  shows "bounds_ok (attempt c)" "bounds_ok (stop c)" "bounds_ok (start c)" "bounds_ok (fireRetry c)"
    "bounds_ok (socketOpened s now c)" "bounds_ok (handleMessage data c)" "bounds_ok (request m w c)"
    "bounds_ok (notify m c)"
  using assms by (simp_all add: bounds_ok_def conn_ops)

lemma bounds_retry:
  assumes "bounds_ok c" "0 \<le> random" "random < 1"
  shows "bounds_ok (handleClose code now random c)" "bounds_ok (settleTicket gen answer isOnline random c)"
    "bounds_ok (settleRevalidation gen valid random c)"
  using assms retry_delay[OF assms(2,3)]
  by (auto simp: bounds_ok_def conn_ops split: ticket_answer.split option.split)


section \<open>The invariant of every run\<close>

lemma pending_kept:
  "cn_nextId (attempt c) = cn_nextId c \<and> cn_pending (attempt c) = cn_pending c"
  "cn_nextId (start c) = cn_nextId c \<and> cn_pending (start c) = cn_pending c"
  "cn_nextId (stop c) = cn_nextId c \<and> (cn_pending (stop c) = cn_pending c \<or> cn_pending (stop c) = [])"
  "cn_nextId (fireRetry c) = cn_nextId c \<and> cn_pending (fireRetry c) = cn_pending c"
  "cn_nextId (handleClose code now random c) = cn_nextId c \<and>
     (cn_pending (handleClose code now random c) = cn_pending c \<or> cn_pending (handleClose code now random c) = [])"
  "cn_nextId (socketOpened s now c) = cn_nextId c \<and> cn_pending (socketOpened s now c) = cn_pending c"
  by (simp_all add: conn_ops)

lemma pending_answered:
  "cn_nextId (settleTicket gen answer isOnline random c) = cn_nextId c \<and>
     (cn_pending (settleTicket gen answer isOnline random c) = cn_pending c \<or>
      cn_pending (settleTicket gen answer isOnline random c) = [])"
  "cn_nextId (settleRevalidation gen valid random c) = cn_nextId c \<and>
     (cn_pending (settleRevalidation gen valid random c) = cn_pending c \<or>
      cn_pending (settleRevalidation gen valid random c) = [])"
  by (simp_all add: conn_ops split: ticket_answer.split option.split)

lemma requests_kept:
  "requests (attempt c) = requests c" "requests (start c) = requests c" "requests (stop c) = requests c"
  "requests (fireRetry c) = requests c" "requests (socketOpened s now c) = requests c"
  "requests (handleClose code now random c) = requests c"
  "requests (settleTicket gen answer isOnline random c) = requests c"
  "requests (settleRevalidation gen valid random c) = requests c" "requests (notify m c) = requests c"
  by (simp_all add: attempt_def start_def stop_def fireRetry_def socketOpened_def handleClose_def settleTicket_def
        settleRevalidation_def ticketFailed_def scheduleRetry_def startHeartbeat_def clearTimers_def Let_def
        notify_def send_def split: ticket_answer.split option.split)
     (simp_all add: requests_def logOut_def)

definition conn_inv :: "'w connection \<Rightarrow> 'w multiset \<Rightarrow> bool" where
  "conn_inv c ws \<longleftrightarrow> moves_ok c \<and> watch_ok c \<and> keys_ok c \<and> bounds_ok c \<and> requests c = ws"

lemma createConnection_inv: "conn_inv createConnection {#}"
  by (simp add: conn_inv_def moves_ok_def movers_def watch_ok_def keys_ok_def bounds_ok_def requests_def createConnection_def)

lemma attempt_inv: "conn_inv c ws \<Longrightarrow> cn_socket c = None \<Longrightarrow> conn_inv (attempt c) ws"
  using pending_kept(1)[of c]
  by (simp add: conn_inv_def attempt_moves attempt_watch bounds_ops requests_kept keys_ok_same[of c])

lemma close_inv:
  "conn_inv c ws \<Longrightarrow> cn_socket c \<noteq> None \<Longrightarrow> 0 \<le> random \<Longrightarrow> random < 1 \<Longrightarrow> conn_inv (handleClose code now random c) ws"
  using pending_kept(5)[of code now random c]
  by (simp add: conn_inv_def close_moves close_watch bounds_retry requests_kept keys_ok_same[of c])

lemma start_watch: "watch_ok c \<Longrightarrow> moves_ok c \<Longrightarrow> watch_ok (start c)"
  by (auto simp: watch_ok_def moves_ok_def movers_def conn_ops split: if_splits)

lemma conn_callback_inv:
  assumes "conn_callback c f" "conn_inv c ws"
  shows "conn_inv (f c) ws"
  using assms
proof (induction rule: conn_callback.induct)
  case retried
  then show ?case by (simp add: retryNow_def attempt_inv)
next
  case retry_due
  have s: "cn_socket c = None" using retry_due by (auto simp: conn_inv_def moves_ok_def movers_def of_bool_def split: if_splits)
  have "watch_ok (c\<lparr>cn_retryTimer := None\<rparr>)"
    by (rule watch_same[of c]) (use retry_due in \<open>simp_all add: conn_inv_def\<close>)
  then have "watch_ok (fireRetry c)" unfolding fireRetry_def using s by (intro attempt_watch) simp_all
  then show ?case using retry_due pending_kept(4)[of c]
    by (simp add: conn_inv_def fireRetry_moves bounds_ops requests_kept keys_ok_same[of c])
next
  case online
  then show ?case by (simp add: goOnline_def attempt_inv)
next
  case (offline random now)
  then show ?case by (simp add: goOffline_def close_inv)
next
  case (ticket gen random answer isOnline)
  then show ?case using pending_answered(1)[of gen answer isOnline random c]
    by (simp add: conn_inv_def ticket_moves ticket_watch bounds_retry requests_kept keys_ok_same[of c])
next
  case (revalidated gen random valid)
  then show ?case using pending_answered(2)[of gen valid random c]
    by (simp add: conn_inv_def revalidation_moves revalidation_watch bounds_retry requests_kept keys_ok_same[of c])
next
  case (opened s now)
  have m: "moves_ok (socketOpened s now c)"
  proof (cases "cn_socket c = Some s")
    case True
    then have "cn_started c" using opened moves_socket(1)[of c] by (simp add: conn_inv_def)
    then show ?thesis using opened
      by (auto simp: conn_inv_def socketOpened_def logOut_def startHeartbeat_def moves_ok_def movers_def)
  qed (use opened in \<open>simp add: socketOpened_def conn_inv_def\<close>)
  then show ?case using opened pending_kept(6)[of s now c]
    by (simp add: conn_inv_def opened_watch bounds_ops requests_kept keys_ok_same[of c])
next
  case (message s data)
  then show ?case
    using moves_same[of c "handleMessage data c"]
    by (simp add: socketMessage_def conn_inv_def message_watch bounds_ops handleMessage_keys requests_handle)
next
  case (closed random s code now)
  then show ?case by (simp add: socketClosed_def close_inv)
next
  case heartbeat
  let ?c = "c\<lparr>cn_heartbeatTimer := False, cn_heartbeatTimeout := True\<rparr>"
  have c: "keys_ok ?c" "bounds_ok ?c" "moves_ok ?c" "requests ?c = ws"
    using heartbeat by (simp_all add: conn_inv_def keys_ok_def bounds_ok_def moves_ok_def movers_def)
  have "moves_ok (fireHeartbeat c)" by (rule moves_same[OF c(3)]) (simp_all add: fireHeartbeat_def)
  then show ?case using heartbeat c heartbeat_watch[of c]
    by (simp add: conn_inv_def fireHeartbeat_def request_keys bounds_ops requests_request)
next
  case (silent random now)
  have s: "cn_socket c \<noteq> None" using silent watch_idle[of c] by (auto simp: conn_inv_def)
  let ?c = "c\<lparr>cn_heartbeatTimeout := False\<rparr>"
  have m: "moves_ok ?c" "bounds_ok ?c" "keys_ok ?c" "requests ?c = ws"
    using silent by (simp_all add: conn_inv_def moves_ok_def movers_def bounds_ok_def keys_ok_def)
  show ?case using silent m s pending_kept(5)[of 1006 now random ?c]
    by (simp add: fireHeartbeatTimeout_def conn_inv_def close_moves close_watch bounds_retry requests_kept
          keys_ok_same[OF m(3)])
qed

lemma conn_event_inv:
  assumes "conn_event c f" "conn_inv c ws"
  shows "conn_inv (f c) ws"
  using assms
proof (induction rule: conn_event.induct)
  case started
  then show ?case using pending_kept(2)[of c]
    by (simp add: conn_inv_def start_moves start_watch bounds_ops requests_kept keys_ok_same[of c])
next
  case stopped
  then show ?case using pending_kept(3)[of c]
    by (simp add: conn_inv_def stop_moves stop_watch bounds_ops requests_kept keys_ok_same[of c])
next
  case (called_back f)
  then show ?case by (simp add: conn_callback_inv)
qed

lemma conn_run_inv: "conn_run c ws \<Longrightarrow> conn_inv c ws"
proof (induction rule: conn_run.induct)
  case created
  show ?case by (rule createConnection_inv)
next
  case (happened c ws f)
  then show ?case by (simp add: conn_event_inv)
next
  case (requested c ws m w)
  then show ?case using moves_same[of c "request m (Caller w) c"]
    by (simp add: conn_inv_def request_watch request_keys bounds_ops requests_request)
next
  case (notified c ws m)
  then show ?case
    using moves_same[of c "notify m c"] watch_same[of c "notify m c"] keys_ok_same[of c "notify m c"]
    by (simp add: conn_inv_def bounds_ops requests_kept)
qed

section \<open>What an event tells the outside\<close>

fun quiet :: "'w conn_output \<Rightarrow> bool" where
  "quiet (OutConnect _) = True"
| "quiet (OutClose _) = True"
| "quiet (OutEvent _) = True"
| "quiet (OutSent _) = True"
| "quiet _ = False"

text \<open>
  An event does one of four things: it says nothing the promises or the state depend on; it answers one request; it
  gives up the connection, rejecting all that is outstanding before the new state is told; or it opens the connection.
\<close>

inductive told :: "'w connection \<Rightarrow> 'w connection \<Rightarrow> bool" for c c' where
  told_quiet: "cn_out c' = cn_out c @ outs \<Longrightarrow> list_all quiet outs \<Longrightarrow>
     callers (cn_pending c') = callers (cn_pending c) \<Longrightarrow> cn_state c' = cn_state c \<Longrightarrow> told c c'"
| told_answer: "cn_out c' = cn_out c @ [OutAck w a] \<Longrightarrow> callers (cn_pending c) = ps @ w # qs \<Longrightarrow>
     callers (cn_pending c') = ps @ qs \<Longrightarrow> cn_state c' = cn_state c \<Longrightarrow> told c c'"
| told_given_up: "cn_out c' = cn_out c @ outs @ map OutRejected (callers (cn_pending c)) @ [OutState (cn_state c')] \<Longrightarrow>
     list_all quiet outs \<Longrightarrow> cn_pending c' = [] \<Longrightarrow> cs_status (cn_state c') \<noteq> Open \<Longrightarrow> told c c'"
| told_open: "cn_out c' = cn_out c @ [OutState (cn_state c'), OutOpen] \<Longrightarrow> cs_status (cn_state c) \<noteq> Open \<Longrightarrow> cn_pending c = [] \<Longrightarrow> cn_pending c' = [] \<Longrightarrow>
     cs_status (cn_state c') = Open \<Longrightarrow> told c c'"

lemma told_nothing:
  "cn_out c' = cn_out c \<Longrightarrow> cn_pending c' = cn_pending c \<Longrightarrow> cn_state c' = cn_state c \<Longrightarrow> told c c'"
  by (rule told_quiet[of _ _ "[]"]) simp_all

lemma told_idle:
  "cn_out c' = cn_out c @ [OutState (cn_state c')] \<Longrightarrow> cn_pending c = [] \<Longrightarrow> cn_pending c' = [] \<Longrightarrow>
     cs_status (cn_state c') \<noteq> Open \<Longrightarrow> told c c'"
  by (rule told_given_up[of _ _ "[]"]) simp_all

lemma told_from:
  assumes "told c1 c'" "cn_out c1 = cn_out c" "cn_pending c1 = cn_pending c" "cn_state c1 = cn_state c"
  shows "told c c'"
  using assms(1)
  by cases (simp_all add: assms told_quiet told_answer told_given_up told_open)

lemma cn_out_setState [simp]: "cn_out (setState f c) = cn_out c @ [OutState (f (cn_state c))]"
  by (simp add: setState_def logOut_def)

lemma cn_out_drop:
  "cn_out (dropSocket c) = cn_out c @ (case cn_socket c of None \<Rightarrow> [] | Some s \<Rightarrow>
     OutClose s # map OutRejected (callers (cn_pending c)))"
  by (simp add: dropSocket_def rejectPending_def logOut_def split: option.split)

lemma attempt_told: "cn_pending c = [] \<Longrightarrow> cs_status (cn_state c) \<noteq> Open \<Longrightarrow> told c (attempt c)"
proof (cases "cn_started c \<and> cs_status (cn_state c) = Closed")
  case True
  then show "cn_pending c = [] \<Longrightarrow> told c (attempt c)" by (intro told_idle) (simp_all add: attempt_def)
qed (auto simp: attempt_def intro: told_nothing)

lemma given_up_told:
  assumes "watch_ok c" "cn_out c' = cn_out (dropSocket c) @ [OutState (cn_state c')]" "cn_pending c' = cn_pending (dropSocket c)"
    "cs_status (cn_state c') \<noteq> Open"
  shows "told c c'"
proof (cases "cn_socket c")
  case None
  then show ?thesis using assms watch_idle[OF assms(1) None] by (intro told_idle) (simp_all add: cn_out_drop)
next
  case (Some s)
  then show ?thesis using assms by (intro told_given_up[of _ _ "[OutClose s]"]) (simp_all add: cn_out_drop)
qed

lemma stop_told: "watch_ok c \<Longrightarrow> told c (stop c)"
proof (cases "cn_started c")
  case True
  then show "watch_ok c \<Longrightarrow> told c (stop c)"
    by (intro given_up_told) (simp_all add: stop_def clearTimers_def cn_out_drop split: option.split)
qed (simp add: stop_def told_nothing)

lemma scheduleRetry_fields [simp]:
  "cn_out (scheduleRetry random c) = cn_out c" "cn_pending (scheduleRetry random c) = cn_pending c"
  "cn_state (scheduleRetry random c) = cn_state c"
  by (simp_all add: scheduleRetry_def)

lemma close_told:
  assumes "watch_ok c" "moves_ok c" "cn_socket c \<noteq> None"
  shows "told c (handleClose code now random c)"
proof -
  have "cn_started c" using moves_socket(1)[OF assms(2,3)] .
  then show ?thesis using assms(1) 
    by (intro given_up_told) (simp_all add: handleClose_def Let_def clearTimers_def cn_out_drop split: option.split)
qed

lemma ticket_told:
  assumes "watch_ok c" "moves_ok c" "gen \<in> set (cn_tickets c)"
  shows "told c (settleTicket gen answer isOnline random c)"
proof (cases "gen = cn_generation c")
  case False
  then show ?thesis by (simp add: settleTicket_def told_nothing)
next
  case True
  let ?c = "c\<lparr>cn_tickets := remove1 gen (cn_tickets c)\<rparr>"
  have s: "cn_socket c = None" using assms True moves_current(1) by metis
  note i = watch_idle[OF assms(1) s]
  have st: "told c (stop ?c)"
    by (rule told_from[OF stop_told]) (use assms(1) in \<open>simp_all add: watch_ok_def\<close>)
  have f: "told c (ticketFailed answer isOnline random ?c)"
  proof (cases "answer = TicketApiError 401")
    case True
    then show ?thesis using st by (simp add: ticketFailed_def)
  next
    case False
    then show ?thesis using i by (intro told_idle) (simp_all add: ticketFailed_def)
  qed
  show ?thesis
  proof (cases answer)
    case (Ticket t)
    then show ?thesis using True s i
      by (intro told_quiet[of _ _ "[OutConnect t]"]) (simp_all add: settleTicket_def Let_def logOut_def cn_out_drop)
  qed (use f True in \<open>simp_all add: settleTicket_def\<close>)
qed

lemma revalidation_told:
  assumes "watch_ok c"
  shows "told c (settleRevalidation gen valid random c)"
proof -
  let ?c = "c\<lparr>cn_revalidations := remove1 gen (cn_revalidations c)\<rparr>"
  have st: "told c (stop ?c)"
    by (rule told_from[OF stop_told]) (use assms(1) in \<open>simp_all add: watch_ok_def\<close>)
  then show ?thesis by (auto simp: settleRevalidation_def Let_def intro: told_nothing split: option.split)
qed

lemma callers_delete_split:
  "distinct (map fst ps) \<Longrightarrow> map_of ps k = Some (Caller w) \<Longrightarrow>
     \<exists>xs ys. callers ps = xs @ w # ys \<and> callers (AList.delete k ps) = xs @ ys"
proof (induction ps)
  case (Cons p ps)
  obtain j v where p: "p = (j, v)" by (cases p)
  show ?case
  proof (cases "j = k")
    case True
    then have "k \<notin> fst ` set ps" using Cons.prems p by simp
    then have "callers (p # ps) = [] @ w # callers ps \<and> callers (AList.delete k (p # ps)) = [] @ callers ps"
      using Cons.prems p True by (simp add: callers_Cons)
    then show ?thesis by blast
  next
    case False
    then obtain xs ys where "callers ps = xs @ w # ys" "callers (AList.delete k ps) = xs @ ys"
      using Cons p by auto
    then have "callers (p # ps) = (callers [p] @ xs) @ w # ys \<and>
        callers (AList.delete k (p # ps)) = (callers [p] @ xs) @ ys"
      using False p by (simp add: callers_Cons)
    then show ?thesis by blast
  qed
qed simp

lemma callers_delete_other:
  "map_of ps k = None \<or> map_of ps k = Some HeartbeatPing \<Longrightarrow> distinct (map fst ps) \<Longrightarrow>
     callers (AList.delete k ps) = callers ps"
proof (induction ps)
  case (Cons p ps)
  then show ?case by (cases p) (auto simp: callers_Cons split: if_splits)
qed simp

lemma message_told:
  assumes "keys_ok c"
  shows "told c (handleMessage data c)"
proof -
  have d: "distinct (map fst (cn_pending c))" using assms by (simp add: keys_ok_def)
  have "told c (handleMessage (AckFrame a) c)" if i: "ack_id a = Some i" for a i
  proof (cases "map_of (cn_pending c) i")
    case None
    then show ?thesis using i callers_delete_other[OF _ d, of i]
      by (intro told_quiet[of _ _ "[]"]) (simp_all add: handleMessage_def)
  next
    case (Some w)
    show ?thesis
    proof (cases w)
      case HeartbeatPing
      then show ?thesis using i Some callers_delete_other[OF _ d, of i]
        by (intro told_quiet[of _ _ "[]"]) (simp_all add: handleMessage_def resolveWaiter_def startHeartbeat_def)
    next
      case (Caller v)
      then obtain xs ys where "callers (cn_pending c) = xs @ v # ys" "callers (AList.delete i (cn_pending c)) = xs @ ys"
        using callers_delete_split[OF d] Some by blast
      then show ?thesis using i Some Caller
        by (intro told_answer[of _ _ v a xs ys]) (simp_all add: handleMessage_def resolveWaiter_def logOut_def)
    qed
  qed
  note answered = this
  show ?thesis
  proof (cases data)
    case NotJson
    then show ?thesis by (simp add: handleMessage_def told_nothing)
  next
    case (AckFrame a)
    then show ?thesis using answered[of a]
      by (cases "ack_id a") (auto simp: handleMessage_def intro: told_nothing)
  next
    case (EventFrame e)
    then show ?thesis by (intro told_quiet[of _ _ "[OutEvent e]"]) (simp_all add: handleMessage_def logOut_def)
  qed
qed

lemma conn_callback_told:
  assumes "conn_callback c f" "conn_inv c ws"
  shows "told c (f c)"
  using assms
proof (induction rule: conn_callback.induct)
  case retried
  then show ?case using watch_idle[of c] attempt_told[of c] by (simp add: retryNow_def conn_inv_def told_nothing)
next
  case retry_due
  then have "cn_socket c = None"
    by (auto simp: conn_inv_def moves_ok_def movers_def of_bool_def split: if_splits)
  then have "told (c\<lparr>cn_retryTimer := None\<rparr>) (fireRetry c)"
    unfolding fireRetry_def using retry_due watch_idle[of c] by (intro attempt_told) (simp_all add: conn_inv_def)
  then show ?case by (rule told_from) simp_all
next
  case online
  then show ?case using watch_idle[of c] attempt_told[of c] by (simp add: goOnline_def conn_inv_def told_nothing)
next
  case (offline random now)
  then show ?case by (simp add: goOffline_def conn_inv_def close_told told_nothing)
next
  case (ticket gen random answer isOnline)
  then show ?case by (simp add: conn_inv_def ticket_told)
next
  case (revalidated gen random valid)
  then show ?case by (simp add: conn_inv_def revalidation_told)
next
  case (opened s now)
  have "watch_ok c" using opened by (simp add: conn_inv_def)
  then have "cn_pending c = []" using opened by (simp add: watch_ok_def)
  then have "told c (socketOpened s now c)" if "cn_socket c = Some s"
    using that opened(1) by (intro told_open) (simp_all add: socketOpened_def logOut_def startHeartbeat_def)
  then show ?case by (cases "cn_socket c = Some s") (simp_all add: socketOpened_def told_nothing)
next
  case (message s data)
  then show ?case by (simp add: socketMessage_def conn_inv_def message_told told_nothing)
next
  case (closed random s code now)
  then show ?case by (simp add: socketClosed_def conn_inv_def close_told told_nothing)
next
  case heartbeat
  let ?c = "c\<lparr>cn_heartbeatTimer := False, cn_heartbeatTimeout := True\<rparr>"
  have k: "keys_ok ?c" and w: "watch_ok c" using heartbeat by (simp_all add: conn_inv_def keys_ok_def)
  then have "cs_status (cn_state c) = Open" "cn_socket c \<noteq> None" using heartbeat by (simp_all add: watch_ok_def split: if_splits)
  then show ?case using request_outcome[OF k, of "blank_message CmPing" HeartbeatPing]
    by (intro told_quiet[of _ _ "[OutSent ((blank_message CmPing)\<lparr>cm_id := Some (request_id (cn_nextId c + 1))\<rparr>)]"])
       (simp_all add: fireHeartbeat_def)
next
  case (silent random now)
  have "cn_socket c \<noteq> None" using silent watch_idle[of c] by (auto simp: conn_inv_def)
  moreover have "watch_ok c" "moves_ok c" using silent by (simp_all add: conn_inv_def)
  moreover have "cn_started c" using moves_socket(1) calculation by blast
  ultimately show ?case
    by (intro given_up_told)
       (auto simp: fireHeartbeatTimeout_def handleClose_def Let_def clearTimers_def cn_out_drop split: option.split)
qed

lemma conn_event_told:
  assumes "conn_event c f" "conn_inv c ws"
  shows "told c (f c)"
  using assms
proof (induction rule: conn_event.induct)
  case started
  have "watch_ok c" "moves_ok c" using started by (simp_all add: conn_inv_def)
  show ?case
  proof (cases "cn_started c")
    case True
    then show ?thesis by (simp add: start_def told_nothing)
  next
    case False
    then have "cn_socket c = None" using \<open>moves_ok c\<close> moves_socket(1) by blast
    note i = watch_idle[OF \<open>watch_ok c\<close> this]
    have "told (c\<lparr>cn_started := True, cn_backoffAttempt := 0, cn_watching := True\<rparr>)
            (attempt (c\<lparr>cn_started := True, cn_backoffAttempt := 0, cn_watching := True\<rparr>))"
      by (rule attempt_told) (simp_all add: i)
    then show ?thesis using False by (simp add: start_def) (erule told_from, simp_all)
  qed
next
  case stopped
  then show ?case by (simp add: stop_told conn_inv_def)
next
  case (called_back f)
  then show ?case by (simp add: conn_callback_told)
qed

lemma callback_started:
  assumes "conn_callback c f"
  shows "cn_started (f c) \<longrightarrow> cn_started c"
  using assms
proof (induction rule: conn_callback.induct)
  case (ticket gen random answer isOnline)
  show ?case by (cases answer) (auto simp: conn_ops)
next
  case (revalidated gen random valid)
  show ?case by (cases valid) (auto simp: conn_ops)
qed (auto simp: conn_ops socketMessage_def fireHeartbeat_def)

section \<open>Properties\<close>

text \<open>C7: a started connection is never stuck and never doubled: at any time exactly one thing will move it on, which is
  its socket, the retry timer, the answer of the current attempt's ticket, or the check of the session; once it is
  stopped nothing will. It is shown as closed exactly while it is stopped.\<close>

theorem connection_never_stuck:
  assumes "conn_run c ws"
  shows "movers c = of_bool (cn_started c) \<and> (cs_status (cn_state c) = Closed \<longleftrightarrow> \<not> cn_started c)"
  using conn_run_inv[OF assms] by (simp add: conn_inv_def moves_ok_def)

theorem connection_never_stuck_witness:
  "let c = handleClose 4001 50000 (1/2) (socketOpened 0 1000 (settleTicket 1 (Ticket ''t'') True 0 (start createConnection)))
   in movers (c :: nat connection) = of_bool (cn_started c) \<and> (cs_status (cn_state c) = Closed \<longleftrightarrow> \<not> cn_started c)"
proof -
  let ?c1 = "settleTicket 1 (Ticket ''t'') True 0 (start createConnection) :: nat connection"
  have c1: "conn_run ?c1 {#}"
    by (rule conn_run.happened[OF conn_run.happened[OF conn_run.created conn_event.started] conn_event.called_back[OF conn_callback.ticket]])
       (simp_all add: start_def attempt_def createConnection_def Let_def)
  have e: "cs_status (cn_state ?c1) \<noteq> Open" "cn_socket ?c1 = Some 0"
    by (simp_all add: conn_ops createConnection_def dropSocket_def setState_def)
  have c2: "conn_run (socketOpened 0 1000 ?c1) {#}" by (rule conn_run.happened[OF c1 conn_event.called_back[OF conn_callback.opened[OF e(1)]]])
  have "conn_run (socketClosed 0 4001 50000 (1/2) (socketOpened 0 1000 ?c1)) {#}"
    by (rule conn_run.happened[OF c2 conn_event.called_back[OF conn_callback.closed]]) simp_all
  moreover have "cn_socket (socketOpened 0 1000 ?c1) = Some 0"
    using e(2) by (simp add: socketOpened_def logOut_def startHeartbeat_def)
  ultimately have "conn_run (handleClose 4001 50000 (1/2) (socketOpened 0 1000 ?c1)) {#}"
    by (simp add: socketClosed_def)
  from connection_never_stuck[OF this] show ?thesis by (simp add: Let_def)
qed

text \<open>C8: while it is open, a connection has a socket and exactly one heartbeat timer runs: the interval, or the wait for
  the one outstanding ping, which closes the connection when the answer does not come. While it is not open, no
  heartbeat timer runs and no request is outstanding.\<close>

theorem open_connection_is_watched:
  assumes "conn_run c ws"
  shows "if cs_status (cn_state c) = Open
    then cn_socket c \<noteq> None \<and> cn_heartbeatTimer c \<noteq> cn_heartbeatTimeout c \<and>
      pings (cn_pending c) = of_bool (cn_heartbeatTimeout c)
    else cn_pending c = [] \<and> \<not> cn_heartbeatTimer c \<and> \<not> cn_heartbeatTimeout c"
  using conn_run_inv[OF assms] by (auto simp: conn_inv_def watch_ok_def split: if_splits)

theorem open_connection_is_watched_witness:
  "let c = start createConnection :: nat connection in if cs_status (cn_state c) = Open
    then cn_socket c \<noteq> None \<and> cn_heartbeatTimer c \<noteq> cn_heartbeatTimeout c \<and>
      pings (cn_pending c) = of_bool (cn_heartbeatTimeout c)
    else cn_pending c = [] \<and> \<not> cn_heartbeatTimer c \<and> \<not> cn_heartbeatTimeout c"
  unfolding Let_def by (rule open_connection_is_watched[OF conn_run.happened[OF conn_run.created conn_event.started]])

text \<open>C9: every request made over the connection is answered once: it is outstanding, or its promise was resolved with the
  answer or rejected, never both and never twice; while the connection is not open, all have been settled.\<close>

theorem request_settled_once:
  assumes "conn_run c ws"
  shows "mset (callers (cn_pending c)) + settled (cn_out c) = ws \<and>
    (cs_status (cn_state c) \<noteq> Open \<longrightarrow> settled (cn_out c) = ws)"
  using conn_run_inv[OF assms] by (auto simp: conn_inv_def watch_ok_def requests_def split: if_splits)

theorem request_settled_once_witness:
  "let c = request (blank_message CmSubscribe) (Caller 7) (start createConnection) :: nat connection
   in mset (callers (cn_pending c)) + settled (cn_out c) = add_mset 7 {#} \<and>
    (cs_status (cn_state c) \<noteq> Open \<longrightarrow> settled (cn_out c) = add_mset 7 {#})"
  unfolding Let_def by (rule request_settled_once[OF conn_run.requested[OF conn_run.happened[OF conn_run.created conn_event.started]]])

text \<open>the wait before the next attempt is less than 30 seconds, and the upper limit of the random wait doubles with
  every attempt from one second until it reaches 30.\<close>

theorem retry_wait_bounded:
  assumes "conn_run c ws"
  shows "(\<forall>d. cn_retryTimer c \<noteq> Some d \<or> 0 \<le> d \<and> d < of_int BACKOFF_MAX_MS) \<and>
    backoff_cap (cn_backoffAttempt c) = (if cn_backoffAttempt c < 5 then 1000 * 2 ^ cn_backoffAttempt c else 30000) \<and>
    0 \<le> cs_unreachableAttempts (cn_state c)"
proof -
  have "backoff_cap n = (if n < 5 then 1000 * 2 ^ n else 30000)" for n
  proof (cases "n < 5")
    case True
    then have "n \<in> {0, 1, 2, 3, 4}" by auto
    then show ?thesis by (auto simp: backoff_cap_def BACKOFF_MAX_MS_def BACKOFF_BASE_MS_def)
  next
    case False
    then have "(2::int) ^ 5 \<le> 2 ^ n" by (intro power_increasing) simp_all
    then show ?thesis using False by (simp add: backoff_cap_def BACKOFF_MAX_MS_def BACKOFF_BASE_MS_def)
  qed
  then show ?thesis using conn_run_inv[OF assms] by (auto simp: conn_inv_def bounds_ok_def)
qed

theorem retry_wait_bounded_witness:
  "let c = settleTicket 1 TicketNetworkError True (1/2) (start createConnection) :: nat connection
   in (\<forall>d. cn_retryTimer c \<noteq> Some d \<or> 0 \<le> d \<and> d < of_int BACKOFF_MAX_MS) \<and>
    backoff_cap (cn_backoffAttempt c) = (if cn_backoffAttempt c < 5 then 1000 * 2 ^ cn_backoffAttempt c else 30000) \<and>
    0 \<le> cs_unreachableAttempts (cn_state c)"
  unfolding Let_def
  by (rule retry_wait_bounded[OF conn_run.happened[OF conn_run.happened[OF conn_run.created conn_event.started] conn_event.called_back[OF conn_callback.ticket]]])
     (simp_all add: start_def attempt_def createConnection_def Let_def)

end
