(* ===== verification/SubscriptionRuns.thy ===== *)
theory SubscriptionRuns
  imports Subscriptions ConnectionRuns
begin

text \<open>
  What holds in every run of the subscriptions over the connection: while it is open, the subscriptions move towards
  what the store shows and end there, and the banner tells the state of the connection.
\<close>

section \<open>Runs\<close>

text \<open>
  A task of the browser runs only when all microtasks have run. The store can change its snapshot at any time, and the
  promises of its actions, which a batch awaits, can end at any time.
\<close>

inductive rt_run :: "realtime \<Rightarrow> bool" where
  created: "rt_run (createRealtime st t0 vis)"
| clock: "rt_run r \<Longrightarrow> rt_now r \<le> t \<Longrightarrow> rt_run (r\<lparr>rt_now := t, rt_visible := vis\<rparr>)"
| store_changed: "rt_run r \<Longrightarrow> rt_run (storeChanged st r)"
| microtask: "rt_run r \<Longrightarrow> rt_queue r = m # rest \<Longrightarrow> rt_run (runMicro m (r\<lparr>rt_queue := rest\<rparr>))"
| synced: "rt_run r \<Longrightarrow> map_of (rt_batches r) b = Some sb \<Longrightarrow> sb_syncing sb \<Longrightarrow> rt_run (endBatch b r)"
| mounted: "rt_run r \<Longrightarrow> rt_queue r = [] \<Longrightarrow> rt_run (startRealtime r)"
| unmounted: "rt_run r \<Longrightarrow> rt_queue r = [] \<Longrightarrow> rt_run (stopRealtime r)"
| happened: "rt_run r \<Longrightarrow> rt_queue r = [] \<Longrightarrow> conn_callback (rt_conn r) f \<Longrightarrow> rt_run (overConnection f r)"
| restored: "rt_run r \<Longrightarrow> rt_queue r = [] \<Longrightarrow> rt_restoredTimer r \<Longrightarrow> rt_run (fireRestored r)"
| typing: "rt_run r \<Longrightarrow> rt_queue r = [] \<Longrightarrow> rt_run (sendTyping roomId threadRootId r)"
| beat: "rt_run r \<Longrightarrow> rt_queue r = [] \<Longrightarrow> rt_run (huddleHeartbeat n huddleId participantId r)"
| activity: "rt_run r \<Longrightarrow> rt_queue r = [] \<Longrightarrow>
    f \<in> {updateActivity, inputActivity, checkActivity} \<Longrightarrow>
    rt_run (r\<lparr>rt_activity := f default_options (rt_visible r) (rt_now r) (rt_activity r)\<rparr>)"
| activity_fired: "rt_run r \<Longrightarrow> rt_queue r = [] \<Longrightarrow> ac_settleTimer (rt_activity r) \<noteq> None \<Longrightarrow> rt_run (activityFired r)"

section \<open>The invariant\<close>

abbreviation isOpen :: "realtime \<Rightarrow> bool" where
  "isOpen r \<equiv> cs_status (rt_connectionState r) = Open"

fun sub_wait :: "rt_waiter \<Rightarrow> (nat \<times> nat \<times> target) option" where
  "sub_wait (SubscribeWait b i t) = Some (b, i, t)"
| "sub_wait _ = None"

definition acked :: "micro list \<Rightarrow> rt_waiter list" where
  "acked q = List.map_filter (\<lambda>m. case m of MAck w _ \<Rightarrow> Some w | _ \<Rightarrow> None) q"

definition waits :: "realtime \<Rightarrow> (nat \<times> nat \<times> target) list" where
  \<comment> \<open>The subscriptions whose answer has not been taken: still on the connection, or answered in the queue.\<close>
  "waits r = List.map_filter sub_wait (callers (cn_pending (rt_conn r)) @ acked (rt_queue r))"

definition open_slots :: "realtime \<Rightarrow> (nat \<times> nat \<times> target) set" where
  \<comment> \<open>The results the batches of this connection still wait for.\<close>
  "open_slots r = {(b, i, t). \<exists>sb. map_of (rt_batches r) b = Some sb \<and> sb_epoch sb = rt_epoch r \<and>
     i < length (sb_results sb) \<and> sb_results sb ! i = None \<and> t = sb_targets sb ! i}"

definition batches_ok :: "realtime \<Rightarrow> bool" where
  "batches_ok r \<longleftrightarrow> distinct (map fst (rt_batches r)) \<and>
     (\<forall>(b, sb) \<in> set (rt_batches r). b < rt_nextBatch r \<and> sb_epoch sb \<le> rt_epoch r \<and>
        length (sb_results sb) = length (sb_targets sb) \<and> (sb_syncing sb \<longrightarrow> None \<notin> set (sb_results sb)) \<and>
        (sb_epoch sb = rt_epoch r \<and> \<not> sb_syncing sb \<and> None \<notin> set (sb_results sb) \<longrightarrow> MBatch b \<in> set (rt_queue r)) \<and>
        (MBatch b \<in> set (rt_queue r) \<longrightarrow> None \<notin> set (sb_results sb))) \<and>
     (\<forall>b. MBatch b \<in> set (rt_queue r) \<longrightarrow> b < rt_nextBatch r) \<and>
     rt_batchCount r = int (length (filter (\<lambda>(b, sb). sb_epoch sb = rt_epoch r) (rt_batches r)))"

definition waits_ok :: "realtime \<Rightarrow> bool" where
  "waits_ok r \<longleftrightarrow> distinct (waits r) \<and> set (waits r) = open_slots r \<and>
     (\<forall>k \<in> set (rt_subscribing r). \<exists>(b, i, t) \<in> open_slots r. keyOf t = k)"

definition flow_ok :: "realtime \<Rightarrow> bool" where
  "flow_ok r \<longleftrightarrow> (rt_reconcileScheduled r \<longrightarrow> MReconcile \<in> set (rt_queue r)) \<and>
     (cn_started (rt_conn r) \<longrightarrow> rt_listening r) \<and>
     (if isOpen r then rt_listening r \<and> (\<forall>w. MReject w \<in> set (rt_queue r) \<longrightarrow> sub_wait w = None)
      else rt_subscribed r = [] \<and> rt_subscribing r = [] \<and> rt_failed r = [] \<and> rt_batchCount r = 0)"

definition matched :: "realtime \<Rightarrow> bool" where
  "matched r \<longleftrightarrow> set (rt_subscribed r) \<subseteq> keyOf ` set (desiredTargets (rt_state r)) \<and>
     keyOf ` set (desiredTargets (rt_state r)) \<subseteq> set (rt_subscribed r) \<union> set (rt_failed r)"

definition goal_ok :: "realtime \<Rightarrow> bool" where
  "goal_ok r \<longleftrightarrow> isOpen r \<longrightarrow> rt_reconcileScheduled r \<or> rt_batchCount r > 0 \<or> matched r"

definition banner_ok :: "realtime \<Rightarrow> bool" where
  "banner_ok r \<longleftrightarrow>
     (if isOpen r
      then rt_view r = banner_view (if rt_syncingAfterReconnect r then Some BanSyncing
             else if rt_restoredTimer r then Some BanRestored else None) \<and>
           \<not> (rt_syncingAfterReconnect r \<and> rt_restoredTimer r)
      else \<not> rt_syncingAfterReconnect r \<and> \<not> rt_restoredTimer r \<and>
           rt_view r = (if cs_status (rt_connectionState r) = Reconnecting
                        then unavailable_view (rt_connectionState r) else banner_view None))"

definition subs_ok :: "realtime \<Rightarrow> bool" where
  "subs_ok r \<longleftrightarrow> batches_ok r \<and> waits_ok r \<and> flow_ok r \<and> banner_ok r"

definition heard :: "realtime \<Rightarrow> bool" where
  \<comment> \<open>All that the connection said was heard, save for frames that were sent.\<close>
  "heard r \<longleftrightarrow> rt_connectionState r = cn_state (rt_conn r) \<and> (\<exists>ws. conn_run (rt_conn r) ws) \<and>
     rt_seen r \<le> length (cn_out (rt_conn r)) \<and>
     (\<forall>x \<in> set (drop (rt_seen r) (cn_out (rt_conn r))). \<exists>m. x = OutSent m)"

definition rt_inv :: "realtime \<Rightarrow> bool" where
  "rt_inv r \<longleftrightarrow> heard r \<and> rt_seen r = length (cn_out (rt_conn r)) \<and> subs_ok r \<and> goal_ok r"

section \<open>Sending\<close>

definition ask :: "(client_message \<times> rt_waiter) list \<Rightarrow> rt_waiter connection \<Rightarrow> rt_waiter connection" where
  "ask ms c = fold (\<lambda>(m, w). Connection.request m (Caller w)) ms c"

lemma conn_open:
  assumes "conn_run c ws" "cs_status (cn_state c) = Open"
  shows "cn_socket c \<noteq> None" "cn_started c" "keys_ok c"
proof -
  have i: "conn_inv c ws" using conn_run_inv[OF assms(1)] .
  show "cn_socket c \<noteq> None" using i assms(2) by (simp add: conn_inv_def watch_ok_def)
  then show "cn_started c" using i moves_socket(1) by (auto simp: conn_inv_def)
  show "keys_ok c" using i by (simp add: conn_inv_def)
qed

lemma ask_open:
  assumes "conn_run c ws" "cs_status (cn_state c) = Open"
  shows "\<exists>ws'. conn_run (ask ms c) ws'" "cn_state (ask ms c) = cn_state c" "cn_started (ask ms c) = cn_started c"
    "callers (cn_pending (ask ms c)) = callers (cn_pending c) @ map snd ms"
    "\<exists>outs. cn_out (ask ms c) = cn_out c @ outs \<and> (\<forall>x \<in> set outs. \<exists>m. x = OutSent m)"
proof -
  have "(\<exists>ws'. conn_run (ask ms c) ws') \<and> cn_state (ask ms c) = cn_state c \<and> cn_started (ask ms c) = cn_started c \<and>
    callers (cn_pending (ask ms c)) = callers (cn_pending c) @ map snd ms \<and>
    (\<exists>outs. cn_out (ask ms c) = cn_out c @ outs \<and> (\<forall>x \<in> set outs. \<exists>m. x = OutSent m))"
    using assms
  proof (induction ms arbitrary: c ws)
    case Nil
    then show ?case by (auto simp: ask_def)
  next
    case (Cons mw ms)
    obtain m w where mw: "mw = (m, w)" by (cases mw)
    let ?c = "Connection.request m (Caller w) c"
    have r: "conn_run ?c (add_mset w ws)" by (rule conn_run.requested[OF Cons.prems(1)])
    have o: "callers (cn_pending ?c) = callers (cn_pending c) @ [w]" "\<exists>x. cn_out ?c = cn_out c @ [OutSent x]"
      using request_outcome[OF conn_open(3)[OF Cons.prems], of m "Caller w"] conn_open(1)[OF Cons.prems] Cons.prems(2)
      by simp_all
    have s: "cs_status (cn_state ?c) = Open" using Cons.prems(2) by simp
    have a: "ask (mw # ms) c = ask ms ?c" by (simp add: ask_def mw)
    show ?case unfolding a using Cons.IH[OF r s] o by (auto simp: mw)
  qed
  then show "\<exists>ws'. conn_run (ask ms c) ws'" "cn_state (ask ms c) = cn_state c" "cn_started (ask ms c) = cn_started c"
    "callers (cn_pending (ask ms c)) = callers (cn_pending c) @ map snd ms"
    "\<exists>outs. cn_out (ask ms c) = cn_out c @ outs \<and> (\<forall>x \<in> set outs. \<exists>m. x = OutSent m)"
    by blast+
qed

lemma ask_heard:
  assumes "heard r" "isOpen r"
  shows "heard (r\<lparr>rt_conn := ask ms (rt_conn r)\<rparr>)"
proof -
  obtain ws where c: "conn_run (rt_conn r) ws" using assms(1) by (auto simp: heard_def)
  have s: "cs_status (cn_state (rt_conn r)) = Open" using assms by (simp add: heard_def)
  obtain outs where o: "cn_out (ask ms (rt_conn r)) = cn_out (rt_conn r) @ outs" "\<forall>x\<in>set outs. \<exists>m. x = OutSent m"
    using ask_open(5)[OF c s] by blast
  show ?thesis using assms(1) ask_open(1,2)[OF c s, of ms] o by (auto simp: heard_def)
qed

lemma ask_fields:
  assumes "heard r" "isOpen r"
  shows "cn_started (ask ms (rt_conn r)) = cn_started (rt_conn r)"
    "callers (cn_pending (ask ms (rt_conn r))) = callers (cn_pending (rt_conn r)) @ map snd ms"
  using assms ask_open(3,4)[of "rt_conn r"] by (auto simp: heard_def)

lemma notify_heard: "heard r \<Longrightarrow> heard (notifyOver m r)"
proof -
  assume h: "heard r"
  obtain outs where "cn_out (Connection.notify m (rt_conn r)) = cn_out (rt_conn r) @ outs" "\<forall>x\<in>set outs. \<exists>m. x = OutSent m"
    by (cases "send m (rt_conn r)") (auto simp: notify_def send_def logOut_def split: if_splits)
  then show ?thesis using h by (auto simp: heard_def notifyOver_def intro: conn_run.notified)
qed

lemma unsubscribe_all:
  "fold unsubscribe ks r = r\<lparr>rt_subscribed := fold removeAll ks (rt_subscribed r),
     rt_conn := ask (map (\<lambda>k. (target_message CmUnsubscribe (parseKey k), UnsubscribeWait)) ks) (rt_conn r)\<rparr>"
  by (induction ks arbitrary: r) (simp_all add: ask_def unsubscribe_def requestOver_def)

lemma subscribe_all:
  "fold (subscribe b) its r = r\<lparr>rt_conn := ask (map (\<lambda>it. (target_message CmSubscribe (snd it),
     SubscribeWait b (fst it) (snd it))) its) (rt_conn r)\<rparr>"
  by (induction its arbitrary: r) (simp_all add: ask_def subscribe_def requestOver_def)

lemma removeAll_fold: "set (fold removeAll ks xs) = set xs - set ks"
  by (induction ks arbitrary: xs) auto

text \<open>After code that only sends, hearing logs the frames and nothing else.\<close>

lemma settle_sent:
  assumes "\<forall>x \<in> set (drop (rt_seen r) (cn_out (rt_conn r))). \<exists>m. x = OutSent m"
  shows "\<exists>lg. settle r = r\<lparr>rt_seen := length (cn_out (rt_conn r)), rt_sent := lg\<rparr>"
proof -
  have collect: "collectOutput (OutSent m) r = r\<lparr>rt_sent := rt_sent r @ [(rt_now r, m)]\<rparr>" for m r
    by (simp add: collectOutput_def)
  have "\<exists>lg. fold collectOutput xs r = r\<lparr>rt_sent := lg\<rparr>" if "\<forall>x \<in> set xs. \<exists>m. x = OutSent m" for xs r
    using that
  proof (induction xs arbitrary: r)
    case Nil
    have "fold collectOutput [] r = r\<lparr>rt_sent := rt_sent r\<rparr>" by simp
    then show ?case by blast
  next
    case (Cons x xs)
    then obtain m where m: "x = OutSent m" by auto
    obtain lg where "fold collectOutput xs (collectOutput x r) = (collectOutput x r)\<lparr>rt_sent := lg\<rparr>"
      using Cons by fastforce
    then show ?case by (simp add: m collect) blast
  qed
  from this[OF assms] show ?thesis unfolding settle_def hear_def by blast
qed

lemma subs_ok_log [simp]:
  "subs_ok (r\<lparr>rt_seen := n, rt_sent := lg\<rparr>) = subs_ok r" "goal_ok (r\<lparr>rt_seen := n, rt_sent := lg\<rparr>) = goal_ok r"
  by (simp_all add: subs_ok_def batches_ok_def waits_ok_def flow_ok_def banner_ok_def goal_ok_def matched_def waits_def open_slots_def)

lemma settle_inv:
  assumes "heard r" "subs_ok r" "goal_ok r"
  shows "rt_inv (settle r)"
proof -
  obtain lg where "settle r = r\<lparr>rt_seen := length (cn_out (rt_conn r)), rt_sent := lg\<rparr>"
    using settle_sent[of r] assms(1) by (auto simp: heard_def)
  then show ?thesis using assms by (simp add: rt_inv_def heard_def)
qed

section \<open>Scheduling and the banner\<close>

lemma acked_simps [simp]:
  "acked [] = []" "acked (xs @ ys) = acked xs @ acked ys" "acked (MAck w a # q) = w # acked q"
  "acked (MReject w # q) = acked q" "acked (MReconcile # q) = acked q" "acked (MBatch b # q) = acked q"
  by (simp_all add: acked_def List.map_filter_def)

lemma map_filter_simps [simp]:
  "List.map_filter f [] = []" "List.map_filter f (xs @ ys) = List.map_filter f xs @ List.map_filter f ys"
  "List.map_filter f (x # xs) = (case f x of None \<Rightarrow> List.map_filter f xs | Some y \<Rightarrow> y # List.map_filter f xs)"
  by (auto simp: List.map_filter_def split: option.split)

text \<open>What the parts of the invariant depend on.\<close>

lemma slots_frame:
  "rt_batches r' = rt_batches r \<Longrightarrow> rt_epoch r' = rt_epoch r \<Longrightarrow> open_slots r' = open_slots r"
  by (simp add: open_slots_def)

lemma batches_frame:
  assumes "batches_ok r" "rt_batches r' = rt_batches r" "rt_nextBatch r' = rt_nextBatch r" "rt_epoch r' = rt_epoch r"
    "rt_batchCount r' = rt_batchCount r" "\<And>b. MBatch b \<in> set (rt_queue r') \<longleftrightarrow> MBatch b \<in> set (rt_queue r)"
  shows "batches_ok r'"
  using assms(1) unfolding batches_ok_def assms(2-6) .

lemma waits_frame:
  assumes "waits_ok r" "rt_batches r' = rt_batches r" "rt_epoch r' = rt_epoch r" "waits r' = waits r"
    "rt_subscribing r' = rt_subscribing r"
  shows "waits_ok r'"
  using assms(1) unfolding waits_ok_def assms(4,5) slots_frame[OF assms(2,3)] .

lemma flow_frame:
  assumes "flow_ok r" "rt_reconcileScheduled r' = rt_reconcileScheduled r" "rt_queue r' = rt_queue r"
    "cn_started (rt_conn r') = cn_started (rt_conn r)" "rt_listening r' = rt_listening r"
    "rt_connectionState r' = rt_connectionState r" "rt_subscribed r' = rt_subscribed r \<or> isOpen r"
    "rt_subscribing r' = rt_subscribing r" "rt_failed r' = rt_failed r \<or> isOpen r" "rt_batchCount r' = rt_batchCount r"
  shows "flow_ok r'"
  using assms by (auto simp: flow_ok_def)

lemma banner_frame:
  assumes "banner_ok r" "rt_connectionState r' = rt_connectionState r" "rt_view r' = rt_view r"
    "rt_syncingAfterReconnect r' = rt_syncingAfterReconnect r" "rt_restoredTimer r' = rt_restoredTimer r"
  shows "banner_ok r'"
  using assms by (simp add: banner_ok_def)

lemma goal_frame:
  assumes "goal_ok r" "rt_connectionState r' = rt_connectionState r" "rt_reconcileScheduled r' = rt_reconcileScheduled r"
    "rt_batchCount r' = rt_batchCount r" "rt_subscribed r' = rt_subscribed r" "rt_state r' = rt_state r" "rt_failed r' = rt_failed r"
  shows "goal_ok r'"
  using assms by (simp add: goal_ok_def matched_def)

lemma heard_frame:
  assumes "heard r" "rt_conn r' = rt_conn r" "rt_seen r' = rt_seen r" "rt_connectionState r' = rt_connectionState r"
  shows "heard r'"
  using assms by (simp add: heard_def)

lemma schedule_fields:
  "scheduleReconcile r = r\<lparr>rt_reconcileScheduled := True,
     rt_queue := (if rt_reconcileScheduled r then rt_queue r else rt_queue r @ [MReconcile])\<rparr>"
  by (simp add: scheduleReconcile_def)

lemma schedule_subs:
  assumes "subs_ok r"
  shows "subs_ok (scheduleReconcile r)"
proof -
  have "batches_ok (scheduleReconcile r)" "waits_ok (scheduleReconcile r)"
    using assms batches_frame[of r "scheduleReconcile r"] waits_frame[of r "scheduleReconcile r"]
    by (auto simp: subs_ok_def schedule_fields waits_def)
  moreover have "flow_ok (scheduleReconcile r)" "banner_ok (scheduleReconcile r)"
    using assms by (auto simp: subs_ok_def schedule_fields flow_ok_def banner_ok_def)
  ultimately show ?thesis by (simp add: subs_ok_def)
qed

lemma schedule_goal [simp]: "goal_ok (scheduleReconcile r)"
  by (simp add: schedule_fields goal_ok_def)

lemma schedule_heard [simp]: "heard (scheduleReconcile r) = heard r" "rt_conn (scheduleReconcile r) = rt_conn r"
    "rt_seen (scheduleReconcile r) = rt_seen r"
  by (simp_all add: schedule_fields heard_def)

lemma changed_subs: "subs_ok r \<Longrightarrow> subs_ok (r\<lparr>rt_state := st\<rparr>)"
  using batches_frame[of r "r\<lparr>rt_state := st\<rparr>"] waits_frame[of r "r\<lparr>rt_state := st\<rparr>"]
  by (simp add: subs_ok_def waits_def flow_ok_def banner_ok_def)

lemma storeChanged_inv:
  assumes "rt_inv r"
  shows "rt_inv (storeChanged st r)"
proof -
  have h: "heard (r\<lparr>rt_state := st\<rparr>)" "rt_seen r = length (cn_out (rt_conn r))" "subs_ok (r\<lparr>rt_state := st\<rparr>)"
    using assms by (simp_all add: rt_inv_def changed_subs heard_def)
  have "\<not> isOpen r" if "\<not> rt_listening r" using assms that by (auto simp: rt_inv_def subs_ok_def flow_ok_def split: if_splits)
  then show ?thesis using h schedule_subs[OF h(3)]
    by (simp add: storeChanged_def rt_inv_def Let_def) (simp add: goal_ok_def)
qed

text \<open>Changing the view schedules a run at most.\<close>

lemma setBanner_fields:
  "setBanner shown r = r\<lparr>rt_view := shown\<rparr> \<or> setBanner shown r = scheduleReconcile (r\<lparr>rt_view := shown\<rparr>)"
  by (simp add: setBanner_def Let_def)

lemma setBanner_subs: "subs_ok (r\<lparr>rt_view := shown\<rparr>) \<Longrightarrow> subs_ok (setBanner shown r)"
  using setBanner_fields[of shown r] schedule_subs by auto

lemma setBanner_goal: "goal_ok r \<Longrightarrow> goal_ok (setBanner shown r)"
  using setBanner_fields[of shown r] by (elim disjE) (simp_all add: goal_ok_def matched_def schedule_fields)

lemma setBanner_same [simp]:
  "rt_conn (setBanner v r) = rt_conn r" "rt_seen (setBanner v r) = rt_seen r"
  "rt_connectionState (setBanner v r) = rt_connectionState r" "rt_subscribed (setBanner v r) = rt_subscribed r"
  "rt_subscribing (setBanner v r) = rt_subscribing r" "rt_failed (setBanner v r) = rt_failed r"
  "rt_batchCount (setBanner v r) = rt_batchCount r" "rt_batches (setBanner v r) = rt_batches r"
  "rt_epoch (setBanner v r) = rt_epoch r" "rt_state (setBanner v r) = rt_state r" "rt_listening (setBanner v r) = rt_listening r"
  "heard (setBanner v r) = heard r"
  by (simp_all add: setBanner_def scheduleReconcile_def Let_def heard_def)

section \<open>Reconciling\<close>

lemma no_slots:
  assumes "batches_ok r" "rt_batchCount r \<le> 0"
  shows "open_slots r = {}"
proof -
  have c: "length (filter (\<lambda>(b, sb). sb_epoch sb = rt_epoch r) (rt_batches r)) = 0"
    using assms by (simp add: batches_ok_def)
  have "sb_epoch sb \<noteq> rt_epoch r" if "map_of (rt_batches r) b = Some sb" for b sb
    using map_of_SomeD[OF that] c by (auto simp: filter_empty_conv)
  then show ?thesis by (auto simp: open_slots_def)
qed

lemma asked_subs:
  assumes "heard r" "isOpen r" "subs_ok r" "\<forall>w \<in> snd ` set ms. sub_wait w = None"
  shows "subs_ok (r\<lparr>rt_subscribed := ks, rt_conn := ask ms (rt_conn r)\<rparr>)"
proof -
  let ?r = "r\<lparr>rt_subscribed := ks, rt_conn := ask ms (rt_conn r)\<rparr>"
  have f: "List.map_filter sub_wait (map snd ms) = []"
    using assms(4) by (induction ms) auto
  have w: "waits ?r = waits r" using ask_fields[OF assms(1,2), of ms] f by (simp add: waits_def)
  have "batches_ok ?r" "waits_ok ?r"
    using assms(3) batches_frame[of r ?r] waits_frame[OF _ _ _ w] by (simp_all add: subs_ok_def)
  moreover have "flow_ok ?r" "banner_ok ?r" using assms(2,3) ask_fields(1)[OF assms(1,2), of ms]
    by (simp_all add: subs_ok_def flow_ok_def banner_ok_def)
  ultimately show ?thesis by (simp add: subs_ok_def)
qed

lemma finish_ok:
  assumes "heard r" "subs_ok r" "goal_ok r" "isOpen r"
  shows "heard (finishReconnectSync r) \<and> subs_ok (finishReconnectSync r) \<and> goal_ok (finishReconnectSync r)"
proof (cases "rt_syncingAfterReconnect r \<and> \<not> rt_batchCount r > 0")
  case True
  let ?r1 = "r\<lparr>rt_syncingAfterReconnect := False\<rparr>"
  let ?v = "banner_view (Some BanRestored)"
  have h: "heard ?r1" using assms(1) by (simp add: heard_def)
  have g: "goal_ok (setBanner ?v ?r1)" using assms(3) by (intro setBanner_goal) (simp add: goal_ok_def matched_def)
  let ?r2 = "?r1\<lparr>rt_view := ?v, rt_restoredTimer := True\<rparr>"
  have "batches_ok ?r2" "waits_ok ?r2"
    using assms(2) batches_frame[of r ?r2] waits_frame[of r ?r2] by (simp_all add: subs_ok_def waits_def)
  moreover have "flow_ok ?r2" "banner_ok ?r2" using assms(2,4) by (simp_all add: subs_ok_def flow_ok_def banner_ok_def)
  ultimately have s: "subs_ok (?r1\<lparr>rt_view := ?v, rt_restoredTimer := True\<rparr>)" by (simp add: subs_ok_def)
  have e: "(setBanner ?v ?r1)\<lparr>rt_restoredTimer := True\<rparr> = ?r1\<lparr>rt_view := ?v, rt_restoredTimer := True\<rparr> \<or>
      (setBanner ?v ?r1)\<lparr>rt_restoredTimer := True\<rparr> = scheduleReconcile (?r1\<lparr>rt_view := ?v, rt_restoredTimer := True\<rparr>)"
    using setBanner_fields[of ?v ?r1] by (auto simp: schedule_fields)
  have "subs_ok ((setBanner ?v ?r1)\<lparr>rt_restoredTimer := True\<rparr>)" using e s schedule_subs[OF s] by metis
  moreover have "heard ((setBanner ?v ?r1)\<lparr>rt_restoredTimer := True\<rparr>)" using h by (simp add: heard_def)
  moreover have "goal_ok ((setBanner ?v ?r1)\<lparr>rt_restoredTimer := True\<rparr>)" using g by (simp add: goal_ok_def matched_def)
  ultimately show ?thesis using True by (simp add: finishReconnectSync_def)
qed (use assms in \<open>auto simp: finishReconnectSync_def\<close>)

lemma set_add_fold: "set (fold set_add ks xs) = set ks \<union> set xs"
  by (induction ks arbitrary: xs) (auto simp: set_add_def)

lemma startBatch_ok:
  assumes h: "heard r" and o: "isOpen r" and s: "subs_ok r" and a: "added \<noteq> []"
  shows "heard (startBatch added r) \<and> subs_ok (startBatch added r) \<and> goal_ok (startBatch added r)"
proof -
  let ?b = "rt_nextBatch r"
  let ?sb = "\<lparr>sb_epoch = rt_epoch r, sb_state = rt_state r, sb_targets = added,
     sb_results = replicate (length added) None, sb_syncing = False\<rparr>"
  let ?ms = "map (\<lambda>it. (target_message CmSubscribe (snd it), SubscribeWait ?b (fst it) (snd it))) (enumerate 0 added)"
  let ?r = "r\<lparr>rt_batchCount := rt_batchCount r + 1, rt_nextBatch := ?b + 1, rt_batches := rt_batches r @ [(?b, ?sb)],
     rt_subscribing := fold set_add (map keyOf added) (rt_subscribing r), rt_conn := ask ?ms (rt_conn r)\<rparr>"
  have e: "startBatch added r = ?r" by (simp add: startBatch_def subscribe_all Let_def)
  have b: "batches_ok r" "waits_ok r" "flow_ok r" "banner_ok r" using s by (simp_all add: subs_ok_def)
  have new: "?b \<notin> fst ` set (rt_batches r)" using b(1) by (fastforce simp: batches_ok_def)
  then have fresh: "map_of (rt_batches r) ?b = None" by (simp add: map_of_eq_None_iff)
  have slots: "open_slots ?r = open_slots r \<union> {(?b, i, added ! i) | i. i < length added}"
    using fresh by (auto simp: open_slots_def map_add_def split: option.splits if_splits)
  have old: "(b', i, t) \<in> open_slots r \<Longrightarrow> b' < ?b" for b' i t
    using b(1) by (auto simp: open_slots_def batches_ok_def dest: map_of_SomeD)
  have fil: "List.map_filter sub_wait (map snd ?ms) = map (\<lambda>it. (?b, it)) (enumerate 0 added)"
    by (simp add: List.map_filter_def comp_def)
  have w: "waits ?r = List.map_filter sub_wait (callers (cn_pending (rt_conn r))) @ map (\<lambda>it. (?b, it)) (enumerate 0 added)
      @ List.map_filter sub_wait (acked (rt_queue r))"
    unfolding waits_def using ask_fields(2)[OF h o, of ?ms] fil by simp
  have wr: "waits r = List.map_filter sub_wait (callers (cn_pending (rt_conn r))) @ List.map_filter sub_wait (acked (rt_queue r))"
    by (simp add: waits_def)
  have en: "set (map (\<lambda>it. (?b, it)) (enumerate 0 added)) = {(?b, i, added ! i) | i. i < length added}"
    by (auto simp: in_set_enumerate_eq image_iff)
  have sw: "set (waits ?r) = open_slots ?r" using b(2) unfolding w wr waits_ok_def slots en[symmetric] by auto
  have dn: "distinct (map (\<lambda>it. (?b, it)) (enumerate 0 added))" by (simp add: distinct_map inj_on_def distinct_enumerate)
  have dis: "set (waits r) \<inter> set (map (\<lambda>it. (?b, it)) (enumerate 0 added)) = {}"
    using b(2) old unfolding en waits_ok_def by fastforce
  have dw: "distinct (waits ?r)" using b(2) dn dis unfolding w wr waits_ok_def by auto
  have sub: "\<forall>k \<in> set (rt_subscribing ?r). \<exists>(b', i, t) \<in> open_slots ?r. keyOf t = k"
  proof
    fix k assume "k \<in> set (rt_subscribing ?r)"
    then consider "k \<in> set (rt_subscribing r)" | i where "i < length added" "k = keyOf (added ! i)"
      by (auto simp: set_add_fold in_set_conv_nth)
    then show "\<exists>(b', i, t) \<in> open_slots ?r. keyOf t = k"
    proof cases
      case 1
      then show ?thesis using b(2) unfolding slots waits_ok_def by blast
    next
      case (2 i)
      then show ?thesis unfolding slots by fastforce
    qed
  qed
  have bo: "batches_ok ?r" using b(1) new a by (fastforce simp: batches_ok_def)
  have fl: "flow_ok ?r" using b(3) o ask_fields(1)[OF h o, of ?ms] by (simp add: flow_ok_def)
  have ba: "banner_ok ?r" using b(4) by (simp add: banner_ok_def)
  have he: "heard ?r" using ask_heard[OF h o, of ?ms] by (simp add: heard_def)
  have "rt_batchCount ?r > 0" using b(1) by (simp add: batches_ok_def)
  then have "goal_ok ?r" by (simp add: goal_ok_def)
  then show ?thesis unfolding e using he bo sw dw sub fl ba by (simp add: subs_ok_def waits_ok_def)
qed

lemma reconcile_ok:
  assumes "heard r" "subs_ok r"
  shows "heard (reconcile r) \<and> subs_ok (reconcile r) \<and> goal_ok (reconcile r)"
proof (cases "isOpen r")
  case False
  then show ?thesis using assms by (simp add: reconcile_def goal_ok_def)
next
  case True
  let ?keys = "keyOf ` set (desiredTargets (rt_state r))"
  let ?gone = "filter (\<lambda>k. k \<notin> ?keys) (rt_subscribed r)"
  let ?ms = "map (\<lambda>k. (target_message CmUnsubscribe (parseKey k), UnsubscribeWait)) ?gone"
  let ?r1 = "r\<lparr>rt_subscribed := fold removeAll ?gone (rt_subscribed r), rt_conn := ask ?ms (rt_conn r)\<rparr>"
  let ?added = "filter (\<lambda>t. keyOf t \<notin> set (rt_subscribed ?r1) \<and> keyOf t \<notin> set (rt_subscribing ?r1) \<and>
     keyOf t \<notin> set (rt_failed ?r1)) (desiredTargets (rt_state r))"
  have r1: "fold unsubscribe ?gone r = ?r1" by (rule unsubscribe_all)
  have h: "heard ?r1" using ask_heard[OF assms(1) True, of ?ms] by (simp add: heard_def)
  have s: "subs_ok ?r1" by (rule asked_subs[OF assms(1) True assms(2)]) auto
  have o: "isOpen ?r1" using True by simp
  have d: "set (rt_subscribed ?r1) \<subseteq> ?keys" by (auto simp: removeAll_fold)
  show ?thesis
  proof (cases "?added = []")
    case a: True
    have "rt_subscribing ?r1 = []" if "rt_batchCount ?r1 \<le> 0"
      using no_slots[of ?r1] that s by (auto simp: subs_ok_def waits_ok_def)
    then have "goal_ok ?r1" using a d by (auto simp: goal_ok_def matched_def filter_empty_conv)
    then show ?thesis using finish_ok[OF h s _ o] True a by (simp add: reconcile_def r1 Let_def)
  next
    case False
    then show ?thesis using startBatch_ok[OF h o s False] True by (simp add: reconcile_def r1 Let_def)
  qed
qed

section \<open>Answers and batches\<close>

definition batches_but :: "nat set \<Rightarrow> realtime \<Rightarrow> bool" where
  \<comment> \<open>\<open>batches_ok\<close>, save that the batches of the set need not be queued.\<close>
  "batches_but X r \<longleftrightarrow> distinct (map fst (rt_batches r)) \<and>
     (\<forall>b sb. map_of (rt_batches r) b = Some sb \<longrightarrow> b < rt_nextBatch r \<and> sb_epoch sb \<le> rt_epoch r \<and>
        length (sb_results sb) = length (sb_targets sb) \<and> (sb_syncing sb \<longrightarrow> None \<notin> set (sb_results sb)) \<and>
        (b \<notin> X \<and> sb_epoch sb = rt_epoch r \<and> \<not> sb_syncing sb \<and> None \<notin> set (sb_results sb) \<longrightarrow> MBatch b \<in> set (rt_queue r)) \<and>
        (MBatch b \<in> set (rt_queue r) \<longrightarrow> None \<notin> set (sb_results sb))) \<and>
     (\<forall>b. MBatch b \<in> set (rt_queue r) \<longrightarrow> b < rt_nextBatch r) \<and>
     rt_batchCount r = int (length (filter (\<lambda>(b, sb). sb_epoch sb = rt_epoch r) (rt_batches r)))"

lemma batches_but_none: "batches_ok r \<longleftrightarrow> batches_but {} r"
proof (cases "distinct (map fst (rt_batches r))")
  case True
  then have "(\<forall>(b, sb) \<in> set (rt_batches r). P b sb) \<longleftrightarrow> (\<forall>b sb. map_of (rt_batches r) b = Some sb \<longrightarrow> P b sb)" for P
    using map_of_eq_Some_iff[OF True] by auto
  then show ?thesis by (simp add: batches_ok_def batches_but_def)
qed (simp add: batches_ok_def batches_but_def)

lemma length_filter_update:
  "map_of ps k = Some u \<Longrightarrow> distinct (map fst ps) \<Longrightarrow> P (k, v) = P (k, u) \<Longrightarrow>
     length (filter P (AList.update k v ps)) = length (filter P ps)"
  by (induction ps) auto

lemma length_filter_delete:
  "map_of ps k = Some u \<Longrightarrow> distinct (map fst ps) \<Longrightarrow>
     length (filter P ps) = length (filter P (AList.delete k ps)) + of_bool (P (k, u))"
proof (induction ps)
  case (Cons p ps)
  then show ?case by (cases p) (auto simp: delete_id)
qed simp

lemma map_of_update_alist: "map_of (AList.update k v ps) = (map_of ps)(k \<mapsto> v)"
  by (rule update_conv')

lemma map_of_delete_alist: "map_of (AList.delete k ps) = (map_of ps)(k := None)"
  by (rule delete_conv')

lemma update_batch:
  assumes "batches_but X r" "map_of (rt_batches r) b = Some sb" "sb_epoch sb' = sb_epoch sb"
    "length (sb_results sb') = length (sb_targets sb')" "sb_syncing sb' \<longrightarrow> None \<notin> set (sb_results sb')"
    "\<forall>b'. MBatch b' \<in> set q \<longleftrightarrow> MBatch b' \<in> set (rt_queue r) \<or> b' = b \<and> new"
    "new \<or> MBatch b \<in> set (rt_queue r) \<longrightarrow> None \<notin> set (sb_results sb')"
    "sb_epoch sb = rt_epoch r \<and> \<not> sb_syncing sb' \<and> None \<notin> set (sb_results sb') \<longrightarrow> new \<or> MBatch b \<in> set (rt_queue r)"
  shows "batches_but (X - {b}) (r\<lparr>rt_batches := AList.update b sb' (rt_batches r), rt_queue := q\<rparr>)"
proof -
  have d: "distinct (map fst (rt_batches r))" using assms(1) by (simp add: batches_but_def)
  have c: "length (filter (\<lambda>(b, sb). sb_epoch sb = rt_epoch r) (AList.update b sb' (rt_batches r))) =
      length (filter (\<lambda>(b, sb). sb_epoch sb = rt_epoch r) (rt_batches r))"
    by (rule length_filter_update[OF assms(2) d]) (simp add: assms(3))
  have lt: "b < rt_nextBatch r" "sb_epoch sb \<le> rt_epoch r" using assms(1,2) by (auto simp: batches_but_def)
  have q: "MBatch b' \<in> set q \<longleftrightarrow> MBatch b' \<in> set (rt_queue r) \<or> b' = b \<and> new" for b' using assms(6) by blast
  show ?thesis
    unfolding batches_but_def
  proof (intro conjI allI impI, goal_cases)
    case 1
    then show ?case by (simp add: distinct_update d)
  qed (use assms(1,3-5,7,8) lt c in \<open>auto simp: batches_but_def map_of_update_alist q split: if_splits\<close>)
qed

lemma delete_batch:
  assumes "batches_but X r" "map_of (rt_batches r) b = Some sb" "X \<subseteq> {b}"
  shows "batches_but {} (r\<lparr>rt_batches := AList.delete b (rt_batches r),
    rt_batchCount := rt_batchCount r - of_bool (sb_epoch sb = rt_epoch r)\<rparr>)"
proof -
  have d: "distinct (map fst (rt_batches r))" using assms(1) by (simp add: batches_but_def)
  have c: "length (filter (\<lambda>(b, sb). sb_epoch sb = rt_epoch r) (rt_batches r)) =
      length (filter (\<lambda>(b, sb). sb_epoch sb = rt_epoch r) (AList.delete b (rt_batches r))) + of_bool (sb_epoch sb = rt_epoch r)"
    using length_filter_delete[OF assms(2) d, of "\<lambda>(b, sb). sb_epoch sb = rt_epoch r"] by simp
  show ?thesis
    unfolding batches_but_def
  proof (intro conjI allI impI, goal_cases)
    case 1
    then show ?case by (simp add: distinct_delete d)
  qed (use assms(1,3) c in \<open>auto simp: batches_but_def map_of_delete_alist split: if_splits\<close>)
qed


lemma slot_batch:
  assumes "waits_ok r" "(b, i, t) \<in> set (waits r)"
  obtains sb where "map_of (rt_batches r) b = Some sb" "sb_epoch sb = rt_epoch r" "i < length (sb_results sb)"
    "sb_results sb ! i = None" "t = sb_targets sb ! i"
  using assms by (auto simp: waits_ok_def open_slots_def)

lemma slot_counted:
  assumes "subs_ok r" "open_slots r \<noteq> {}"
  shows "rt_batchCount r > 0" "isOpen r"
proof -
  show c: "rt_batchCount r > 0" using no_slots[of r] assms by (fastforce simp: subs_ok_def)
  then show "isOpen r" using assms(1) by (auto simp: subs_ok_def flow_ok_def split: if_splits)
qed

lemma result_ok:
  fixes A B :: "string list"
  assumes inv: "rt_inv r" and q: "rt_queue r = MAck (SubscribeWait b i t) a # rest"
  defines "r0 \<equiv> r\<lparr>rt_queue := rest, rt_subscribing := removeAll (keyOf t) (rt_subscribing r), rt_subscribed := A, rt_failed := B\<rparr>"
  shows "heard (setResult b i res r0) \<and> subs_ok (setResult b i res r0) \<and> goal_ok (setResult b i res r0)"
proof -
  have s: "subs_ok r" "waits_ok r" "batches_but {} r" "flow_ok r" "banner_ok r"
    using inv by (simp_all add: rt_inv_def subs_ok_def batches_but_none)
  have w: "waits r = List.map_filter sub_wait (callers (cn_pending (rt_conn r))) @ (b, i, t) # List.map_filter sub_wait (acked rest)"
    by (simp add: waits_def q)
  then have "(b, i, t) \<in> set (waits r)" by simp
  then obtain sb where sb: "map_of (rt_batches r) b = Some sb" "sb_epoch sb = rt_epoch r" "i < length (sb_results sb)"
    "sb_results sb ! i = None" "t = sb_targets sb ! i" using slot_batch[OF s(2)] by blast
  have "(b, i, t) \<in> open_slots r" using sb by (simp add: open_slots_def)
  then have c: "rt_batchCount r > 0" and o: "isOpen r" using slot_counted[OF s(1)] by blast+
  let ?results = "(sb_results sb)[i := Some res]"
  let ?sb = "sb\<lparr>sb_results := ?results\<rparr>"
  let ?q = "if None \<notin> set ?results then rest @ [MBatch b] else rest"
  let ?r = "r\<lparr>rt_batches := AList.update b ?sb (rt_batches r), rt_queue := ?q\<rparr>"
  let ?r' = "r0\<lparr>rt_batches := AList.update b ?sb (rt_batches r), rt_queue := ?q\<rparr>"
  have e: "setResult b i res r0 = ?r'" using sb(1) by (simp add: setResult_def r0_def Let_def)
  have none: "None \<in> set (sb_results sb)" using sb(3,4) nth_mem by metis
  then have nq: "MBatch b \<notin> set (rt_queue r)" "\<not> sb_syncing sb" using s(3) sb(1) by (auto simp: batches_but_def)
  have len: "length (sb_results sb) = length (sb_targets sb)" using s(3) sb(1) by (simp add: batches_but_def)
  have "batches_but ({} - {b}) ?r"
    by (rule update_batch[OF s(3) sb(1), where new = "None \<notin> set ?results"]) (use nq len q in auto)
  then have bo: "batches_ok ?r'" by (simp add: batches_but_none batches_but_def r0_def)
  have slots: "open_slots ?r' = open_slots r - {(b, i, t)}"
    using sb by (auto simp: open_slots_def map_of_update_alist r0_def nth_list_update split: if_splits)
  have wr: "waits ?r' = List.map_filter sub_wait (callers (cn_pending (rt_conn r))) @ List.map_filter sub_wait (acked rest)"
    by (simp add: waits_def r0_def)
  have dw: "distinct (waits r)" and ow: "open_slots r = set (waits r)" using s(2) by (simp_all add: waits_ok_def)
  have "distinct (waits ?r') \<and> set (waits ?r') = open_slots ?r'"
    using dw unfolding slots wr ow w by auto
  moreover have "\<exists>(b', i', t') \<in> open_slots ?r'. keyOf t' = k" if "k \<in> set (rt_subscribing ?r')" for k
  proof -
    have k: "k \<in> set (rt_subscribing r)" "k \<noteq> keyOf t" using that by (auto simp: r0_def)
    then obtain b' i' t' where "(b', i', t') \<in> open_slots r" "keyOf t' = k" using s(2) by (auto simp: waits_ok_def)
    then show ?thesis using k(2) unfolding slots by fastforce
  qed
  ultimately have wo: "waits_ok ?r'" by (simp add: waits_ok_def)
  have fo: "flow_ok ?r'" using s(4) o q by (auto simp: flow_ok_def r0_def)
  have bn: "banner_ok ?r'" using s(5) by (simp add: banner_ok_def r0_def)
  have g: "goal_ok ?r'" using c by (simp add: goal_ok_def r0_def)
  have "heard ?r'" using inv by (simp add: rt_inv_def heard_def r0_def)
  then show ?thesis unfolding e using bo wo fo bn g by (simp add: subs_ok_def)
qed

lemma answered_ok:
  assumes "rt_inv r" "rt_queue r = MAck (SubscribeWait b i t) a # rest"
  shows "heard (subscribeAnswered b i t a (r\<lparr>rt_queue := rest\<rparr>)) \<and>
    subs_ok (subscribeAnswered b i t a (r\<lparr>rt_queue := rest\<rparr>)) \<and> goal_ok (subscribeAnswered b i t a (r\<lparr>rt_queue := rest\<rparr>))"
proof (cases "ack_err a")
  case None
  then show ?thesis using result_ok[OF assms, where A = "set_add (keyOf t) (rt_subscribed r)" and B = "rt_failed r"]
    by (simp add: subscribeAnswered_def Let_def)
next
  case (Some e)
  then show ?thesis using result_ok[OF assms, where A = "rt_subscribed r" and B = "set_add (keyOf t) (rt_failed r)"]
    by (simp add: subscribeAnswered_def Let_def)
qed

lemma closed_slots:
  assumes "subs_ok r" "\<not> isOpen r"
  shows "open_slots r = {}" "waits r = []"
proof -
  show "open_slots r = {}" using assms slot_counted(2)[of r] by blast
  then show "waits r = []" using assms(1) by (simp add: subs_ok_def waits_ok_def)
qed

lemma rejected_ok:
  assumes inv: "rt_inv r" and q: "rt_queue r = MReject (SubscribeWait b i t) # rest"
  defines "r0 \<equiv> r\<lparr>rt_queue := rest\<rparr>"
  shows "heard (subscribeRejected b i t r0) \<and> subs_ok (subscribeRejected b i t r0) \<and> goal_ok (subscribeRejected b i t r0)"
proof -
  have s: "subs_ok r" "waits_ok r" "batches_but {} r" "flow_ok r" "banner_ok r"
    using inv by (simp_all add: rt_inv_def subs_ok_def batches_but_none)
  have o: "\<not> isOpen r" using s(4) q by (auto simp: flow_ok_def split: if_splits)
  note cl = closed_slots[OF s(1) o]
  have em: "rt_subscribing r = []" using s(4) o by (simp add: flow_ok_def)
  have w0: "waits r0 = []" using cl(2) by (simp add: waits_def r0_def q)
  show ?thesis
  proof (cases "map_of (rt_batches r) b")
    case None
    have sl: "open_slots r0 = open_slots r" by (rule slots_frame) (simp_all add: r0_def)
    have "batches_ok r0" using s(3) q by (auto simp: batches_but_none batches_but_def r0_def)
    moreover have "waits_ok r0" using cl(1) w0 em unfolding waits_ok_def sl by (simp add: r0_def)
    moreover have "flow_ok r0" "banner_ok r0" using s(4,5) o q by (auto simp: flow_ok_def banner_ok_def r0_def)
    moreover have "subscribeRejected b i t r0 = r0\<lparr>rt_subscribing := []\<rparr>"
      using None em by (simp add: subscribeRejected_def setResult_def r0_def)
    moreover have "r0\<lparr>rt_subscribing := []\<rparr> = r0" by (rule realtime.equality) (simp_all add: r0_def em)
    moreover have "heard r0" "goal_ok r0" using inv o by (simp_all add: rt_inv_def heard_def goal_ok_def r0_def)
    ultimately show ?thesis by (simp add: subs_ok_def)
  next
    case (Some sb)
    have ep: "sb_epoch sb \<noteq> rt_epoch r"
    proof
      assume e: "sb_epoch sb = rt_epoch r"
      have "0 < length (filter (\<lambda>(b, sb). sb_epoch sb = rt_epoch r) (rt_batches r))"
        using map_of_SomeD[OF Some] e by (auto simp: filter_empty_conv)
      then show False using s(3,4) o by (simp add: batches_but_def flow_ok_def)
    qed
    let ?results = "(sb_results sb)[i := Some SubFailed]"
    let ?sb = "sb\<lparr>sb_results := ?results\<rparr>"
    let ?q = "if None \<notin> set ?results then rest @ [MBatch b] else rest"
    let ?r' = "r\<lparr>rt_batches := AList.update b ?sb (rt_batches r), rt_queue := ?q\<rparr>"
    have e: "subscribeRejected b i t r0 = ?r'" using Some em
      by (simp add: subscribeRejected_def setResult_def r0_def Let_def)
    have len: "length (sb_results sb) = length (sb_targets sb)" "sb_syncing sb \<longrightarrow> None \<notin> set (sb_results sb)"
      "MBatch b \<in> set (rt_queue r) \<longrightarrow> None \<notin> set (sb_results sb)"
      using s(3) Some by (auto simp: batches_but_def)
    have up: "set ?results \<subseteq> insert (Some SubFailed) (set (sb_results sb))" by (rule set_update_subset_insert)
    have "batches_but ({} - {b}) ?r'"
      by (rule update_batch[OF s(3) Some, where new = "None \<notin> set ?results"]) (use ep len q up in auto)
    then have bo: "batches_ok ?r'" by (simp add: batches_but_none)
    have "open_slots ?r' = open_slots r" using Some ep by (auto simp: open_slots_def map_of_update_alist split: if_splits)
    moreover have "waits ?r' = []" using w0 by (simp add: waits_def r0_def)
    ultimately have "waits_ok ?r'" using cl(1) em by (simp add: waits_ok_def)
    moreover have "flow_ok ?r'" "banner_ok ?r'" using s(4,5) o q by (auto simp: flow_ok_def banner_ok_def)
    moreover have "heard ?r'" "goal_ok ?r'" using inv o by (simp_all add: rt_inv_def heard_def goal_ok_def)
    ultimately show ?thesis unfolding e using bo by (simp add: subs_ok_def)
  qed
qed

lemma end_batch_ok:
  assumes "heard r" "batches_but X r" "X \<subseteq> {b}" "waits_ok r" "flow_ok r" "banner_ok r" "goal_ok r"
    "map_of (rt_batches r) b = Some sb" "None \<notin> set (sb_results sb)"
  shows "heard (endBatch b r) \<and> subs_ok (endBatch b r) \<and> goal_ok (endBatch b r)"
proof -
  let ?r = "r\<lparr>rt_batches := AList.delete b (rt_batches r), rt_batchCount := rt_batchCount r - of_bool (sb_epoch sb = rt_epoch r)\<rparr>"
  have bo: "batches_ok ?r" using delete_batch[OF assms(2,8,3)] by (simp add: batches_but_none)
  have "open_slots ?r = open_slots r"
    using assms(8,9) by (auto simp: open_slots_def map_of_delete_alist split: if_splits) (metis nth_mem)
  then have wo: "waits_ok ?r" using assms(4) by (simp add: waits_ok_def waits_def)
  have "\<not> isOpen r \<Longrightarrow> sb_epoch sb \<noteq> rt_epoch r"
  proof
    assume o: "\<not> isOpen r" and e: "sb_epoch sb = rt_epoch r"
    have "0 < length (filter (\<lambda>(b, sb). sb_epoch sb = rt_epoch r) (rt_batches r))"
      using map_of_SomeD[OF assms(8)] e by (auto simp: filter_empty_conv)
    then show False using assms(2,5) o by (simp add: batches_but_def flow_ok_def)
  qed
  then have fo: "flow_ok ?r" "banner_ok ?r" using assms(5,6) by (auto simp: flow_ok_def banner_ok_def)
  have s: "subs_ok ?r" using bo wo fo by (simp add: subs_ok_def)
  have h: "heard ?r" using assms(1) by (simp add: heard_def)
  show ?thesis
  proof (cases "sb_epoch sb = rt_epoch r")
    case True
    have "?r = r\<lparr>rt_batchCount := rt_batchCount r - 1, rt_batches := AList.delete b (rt_batches r)\<rparr>"
      by (rule realtime.equality) (simp_all add: True)
    moreover have "endBatch b r =
        scheduleReconcile (r\<lparr>rt_batchCount := rt_batchCount r - 1, rt_batches := AList.delete b (rt_batches r)\<rparr>)"
      using assms(8) True by (simp add: endBatch_def dropBatch_def)
    ultimately have "endBatch b r = scheduleReconcile ?r" by (simp only:)
    then show ?thesis using h schedule_subs[OF s] by simp
  next
    case False
    have "?r = r\<lparr>rt_batches := AList.delete b (rt_batches r)\<rparr>" by (rule realtime.equality) (simp_all add: False)
    then have "endBatch b r = ?r" using assms(8) False by (simp add: endBatch_def dropBatch_def)
    moreover have "goal_ok ?r" using assms(7) False by (simp add: goal_ok_def matched_def)
    ultimately show ?thesis using h s by simp
  qed
qed


text \<open>The next microtask is taken off the queue.\<close>

lemma popped:
  assumes "rt_inv r" "rt_queue r = m # rest"
  shows "heard (r\<lparr>rt_queue := rest\<rparr>)" "batches_but {b. m = MBatch b} (r\<lparr>rt_queue := rest\<rparr>)"
    "waits_ok (r\<lparr>rt_queue := rest\<rparr>) \<or> (\<exists>w a. m = MAck w a \<and> sub_wait w \<noteq> None)"
    "flow_ok (r\<lparr>rt_queue := rest, rt_reconcileScheduled := (m \<noteq> MReconcile \<and> rt_reconcileScheduled r)\<rparr>)"
    "banner_ok (r\<lparr>rt_queue := rest\<rparr>)" "goal_ok (r\<lparr>rt_queue := rest\<rparr>)"
proof -
  have s: "batches_but {} r" "waits_ok r" "flow_ok r" "banner_ok r" "goal_ok r" "heard r"
    using assms(1) by (simp_all add: rt_inv_def subs_ok_def batches_but_none)
  show "heard (r\<lparr>rt_queue := rest\<rparr>)" using s by (simp add: heard_def)
  show "batches_but {b. m = MBatch b} (r\<lparr>rt_queue := rest\<rparr>)"
    using s(1) assms(2) by (cases m) (auto simp: batches_but_def simp del: map_of_eq_Some_iff)
  show "flow_ok (r\<lparr>rt_queue := rest, rt_reconcileScheduled := (m \<noteq> MReconcile \<and> rt_reconcileScheduled r)\<rparr>)"
    using s(3) assms(2) by (auto simp: flow_ok_def)
  show "banner_ok (r\<lparr>rt_queue := rest\<rparr>)" using s(4) by (simp add: banner_ok_def)
  show "goal_ok (r\<lparr>rt_queue := rest\<rparr>)" using s(5) by (simp add: goal_ok_def matched_def)
  have "waits (r\<lparr>rt_queue := rest\<rparr>) = waits r" if "\<not> (\<exists>w a. m = MAck w a \<and> sub_wait w \<noteq> None)"
    using that assms(2) by (cases m) (auto simp: waits_def split: option.split)
  then show "waits_ok (r\<lparr>rt_queue := rest\<rparr>) \<or> (\<exists>w a. m = MAck w a \<and> sub_wait w \<noteq> None)"
    using waits_frame[OF s(2), of "r\<lparr>rt_queue := rest\<rparr>"] by auto
qed

lemma continue_ok:
  assumes "rt_inv r" "rt_queue r = MBatch b # rest"
  shows "heard (continueBatch b (r\<lparr>rt_queue := rest\<rparr>)) \<and> subs_ok (continueBatch b (r\<lparr>rt_queue := rest\<rparr>)) \<and>
    goal_ok (continueBatch b (r\<lparr>rt_queue := rest\<rparr>))"
proof -
  let ?r = "r\<lparr>rt_queue := rest\<rparr>"
  note p = popped[OF assms]
  have w: "waits_ok ?r" using p(3) by simp
  have f: "flow_ok ?r" using p(4) by (auto simp: flow_ok_def split: if_splits)
  have bb: "batches_but {b} ?r" using p(2) by simp
  have ends: ?thesis if sb: "map_of (rt_batches r) b = Some sb" and e: "continueBatch b ?r = endBatch b ?r" for sb
  proof -
    have "MBatch b \<in> set (rt_queue r)" using assms(2) by simp
    then have "None \<notin> set (sb_results sb)"
      using assms(1) sb by (auto simp: rt_inv_def subs_ok_def batches_but_none batches_but_def)
    then show ?thesis using end_batch_ok[OF p(1) bb _ w f p(5,6), of b sb] sb unfolding e by simp
  qed
  show ?thesis
  proof (cases "map_of (rt_batches r) b")
    case None
    then have "map_of (rt_batches r) b' = Some sb \<Longrightarrow> b' \<noteq> b" for b' sb by auto
    then have "batches_ok ?r" using bb by (simp add: batches_but_none batches_but_def del: map_of_eq_Some_iff)
    then show ?thesis using None p(1,5,6) w f by (simp add: continueBatch_def subs_ok_def)
  next
    case (Some sb)
    have none: "None \<notin> set (sb_results sb)"
      using assms Some by (auto simp: rt_inv_def subs_ok_def batches_but_none batches_but_def)
    have syncs: ?thesis if "continueBatch b ?r = syncBatch b sb cs ?r" for cs
    proof -
      let ?sb = "sb\<lparr>sb_syncing := True\<rparr>"
      let ?r' = "?r\<lparr>rt_batches := AList.update b ?sb (rt_batches r), rt_queue := rest\<rparr>"
      have len: "length (sb_results sb) = length (sb_targets sb)" using bb Some by (simp add: batches_but_def)
      have "batches_but ({b} - {b}) ?r'"
        using update_batch[OF bb, of b sb ?sb rest False] Some none len by simp
      then have bo: "batches_ok (syncBatch b sb cs ?r)" by (simp add: batches_but_none batches_but_def syncBatch_def)
      have "open_slots (syncBatch b sb cs ?r) = open_slots ?r"
        using Some none by (auto simp: open_slots_def syncBatch_def map_of_update_alist split: if_splits)
      then have "waits_ok (syncBatch b sb cs ?r)" using w by (simp add: waits_ok_def waits_def syncBatch_def)
      moreover have "flow_ok (syncBatch b sb cs ?r)" "banner_ok (syncBatch b sb cs ?r)"
        "goal_ok (syncBatch b sb cs ?r)" "heard (syncBatch b sb cs ?r)"
        using flow_frame[OF f] banner_frame[OF p(5)] goal_frame[OF p(6)] heard_frame[OF p(1)]
        by (simp_all add: syncBatch_def)
      ultimately show ?thesis using bo that by (simp add: subs_ok_def)
    qed
    show ?thesis
    proof (cases "sb_epoch sb = rt_epoch r")
      case False
      then have "continueBatch b ?r = endBatch b ?r" using Some by (simp add: continueBatch_def endBatch_def)
      then show ?thesis using ends[OF Some] by simp
    next
      case True
      then show ?thesis using Some ends[OF Some] syncs
        by (auto simp: continueBatch_def split: if_splits)
    qed
  qed
qed

section \<open>Every microtask keeps the invariant\<close>

lemma popped_ok:
  assumes "rt_inv r" "rt_queue r = m # rest" "m \<noteq> MReconcile" "\<And>b. m \<noteq> MBatch b" "\<And>w a. m = MAck w a \<Longrightarrow> sub_wait w = None"
  shows "heard (r\<lparr>rt_queue := rest\<rparr>)" "subs_ok (r\<lparr>rt_queue := rest\<rparr>)" "goal_ok (r\<lparr>rt_queue := rest\<rparr>)"
proof -
  note p = popped[OF assms(1,2)]
  have "flow_ok (r\<lparr>rt_queue := rest\<rparr>)" by (rule flow_frame[OF p(4)]) (simp_all add: assms(3))
  then show "heard (r\<lparr>rt_queue := rest\<rparr>)" "subs_ok (r\<lparr>rt_queue := rest\<rparr>)" "goal_ok (r\<lparr>rt_queue := rest\<rparr>)"
    using p assms(4,5) by (auto simp: subs_ok_def batches_but_none)
qed

lemma beats_inv [simp]:
  "heard (r\<lparr>rt_beats := x\<rparr>) = heard r" "subs_ok (r\<lparr>rt_beats := x\<rparr>) = subs_ok r" "goal_ok (r\<lparr>rt_beats := x\<rparr>) = goal_ok r"
  by (simp_all add: heard_def subs_ok_def batches_ok_def waits_ok_def waits_def open_slots_def flow_ok_def banner_ok_def
        goal_ok_def matched_def)

lemma runMicro_inv:
  assumes "rt_inv r" "rt_queue r = m # rest"
  shows "rt_inv (runMicro m (r\<lparr>rt_queue := rest\<rparr>))"
proof (cases m)
  case (MAck w a)
  show ?thesis
  proof (cases w)
    case (SubscribeWait b i t)
    then show ?thesis using answered_ok[of r b i t a rest] assms MAck by (simp add: runMicro_def settle_inv)
  qed (use popped_ok[OF assms] MAck in \<open>simp_all add: runMicro_def settle_inv\<close>)
next
  case (MReject w)
  show ?thesis
  proof (cases w)
    case (SubscribeWait b i t)
    then show ?thesis using rejected_ok[of r b i t rest] assms MReject by (simp add: runMicro_def settle_inv)
  qed (use popped_ok[OF assms] MReject in \<open>simp_all add: runMicro_def settle_inv\<close>)
next
  case MReconcile
  note p = popped[OF assms]
  let ?r = "r\<lparr>rt_queue := rest, rt_reconcileScheduled := False\<rparr>"
  have "batches_ok ?r" using p(2) MReconcile by (simp add: batches_but_none batches_but_def)
  moreover have "waits_ok ?r" using p(3) MReconcile waits_frame[of "r\<lparr>rt_queue := rest\<rparr>" ?r] by (simp add: waits_def)
  moreover have "flow_ok ?r" "banner_ok ?r" using p(4) MReconcile banner_frame[OF p(5)] by simp_all
  moreover have "heard ?r" by (rule heard_frame[OF p(1)]) simp_all
  ultimately show ?thesis using reconcile_ok[of ?r] MReconcile by (simp add: runMicro_def subs_ok_def settle_inv)
next
  case (MBatch b)
  then show ?thesis using continue_ok[of r b rest] assms by (simp add: runMicro_def settle_inv)
qed

section \<open>Hearing an event\<close>

lemma heard_quiet:
  assumes "list_all quiet outs"
  shows "\<exists>ev sn. fold handleOutput outs r = r\<lparr>rt_events := ev, rt_sent := sn\<rparr>"
  using assms
proof (induction outs arbitrary: r)
  case Nil
  have "fold handleOutput [] r = r\<lparr>rt_events := rt_events r, rt_sent := rt_sent r\<rparr>" by simp
  then show ?case by blast
next
  case (Cons x outs)
  have "\<exists>ev sn. handleOutput x r = r\<lparr>rt_events := ev, rt_sent := sn\<rparr>"
  proof (cases x)
    case (OutEvent e)
    have "handleOutput x r = r\<lparr>rt_events := rt_events r @ [e], rt_sent := rt_sent r\<rparr>" by (simp add: OutEvent handleOutput_def)
    then show ?thesis by blast
  next
    case (OutSent m)
    have "handleOutput x r = r\<lparr>rt_events := rt_events r, rt_sent := rt_sent r @ [(rt_now r, m)]\<rparr>"
      by (simp add: OutSent handleOutput_def collectOutput_def)
    then show ?thesis by blast
  next
    case (OutConnect t)
    have "handleOutput x r = r\<lparr>rt_events := rt_events r, rt_sent := rt_sent r\<rparr>"
      by (simp add: OutConnect handleOutput_def collectOutput_def)
    then show ?thesis by blast
  next
    case (OutClose s)
    have "handleOutput x r = r\<lparr>rt_events := rt_events r, rt_sent := rt_sent r\<rparr>"
      by (simp add: OutClose handleOutput_def collectOutput_def)
    then show ?thesis by blast
  qed (use Cons.prems in simp_all)
  then obtain ev sn where e: "handleOutput x r = r\<lparr>rt_events := ev, rt_sent := sn\<rparr>" by blast
  obtain ev' sn' where "fold handleOutput outs (handleOutput x r) = (handleOutput x r)\<lparr>rt_events := ev', rt_sent := sn'\<rparr>"
    using Cons by fastforce
  then show ?case by (auto simp: e)
qed

lemma heard_rejected:
  "fold handleOutput (map OutRejected ws) r = r\<lparr>rt_queue := rt_queue r @ map MReject ws\<rparr>"
  by (induction ws arbitrary: r) (simp_all add: handleOutput_def collectOutput_def)

lemma logs_inv [simp]:
  "heard (r\<lparr>rt_events := ev, rt_sent := sn\<rparr>) = heard r" "subs_ok (r\<lparr>rt_events := ev, rt_sent := sn\<rparr>) = subs_ok r"
  "goal_ok (r\<lparr>rt_events := ev, rt_sent := sn\<rparr>) = goal_ok r"
  by (simp_all add: heard_def subs_ok_def batches_ok_def waits_ok_def waits_def open_slots_def flow_ok_def banner_ok_def
        goal_ok_def matched_def)

lemma quiet_ok:
  assumes "rt_inv r" "cn_out c' = cn_out (rt_conn r) @ outs" "list_all quiet outs"
    "callers (cn_pending c') = callers (cn_pending (rt_conn r))" "cn_state c' = cn_state (rt_conn r)"
    "conn_run c' ws" "cn_started c' \<longrightarrow> rt_listening r"
  shows "rt_inv (settle (hear handleOutput (r\<lparr>rt_conn := c'\<rparr>)))"
proof -
  let ?r = "r\<lparr>rt_conn := c', rt_seen := length (cn_out c')\<rparr>"
  have n: "rt_seen r = length (cn_out (rt_conn r))" using assms(1) by (simp add: rt_inv_def)
  obtain ev sn where e: "fold handleOutput outs ?r = ?r\<lparr>rt_events := ev, rt_sent := sn\<rparr>" using heard_quiet[OF assms(3)] by blast
  have h: "hear handleOutput (r\<lparr>rt_conn := c'\<rparr>) = ?r\<lparr>rt_events := ev, rt_sent := sn\<rparr>"
    using e by (simp add: hear_def assms(2) n)
  have s: "subs_ok r" "goal_ok r" "heard r" using assms(1) by (simp_all add: rt_inv_def)
  have "batches_ok ?r" "waits_ok ?r" "banner_ok ?r"
    using s(1) batches_frame[of r ?r] waits_frame[of r ?r] banner_frame[of r ?r] assms(4) by (simp_all add: subs_ok_def waits_def)
  moreover have "flow_ok ?r" using s(1) assms(7) by (simp add: subs_ok_def flow_ok_def)
  moreover have "goal_ok ?r" by (rule goal_frame[OF s(2)]) simp_all
  moreover have "heard ?r" using s(3) assms(5,6) by (auto simp: heard_def)
  ultimately have "heard ?r" "subs_ok ?r" "goal_ok ?r" by (simp_all add: subs_ok_def)
  then show ?thesis unfolding h by (intro settle_inv) simp_all
qed

lemma answer_ok:
  assumes "rt_inv r" "rt_queue r = []" "cn_out c' = cn_out (rt_conn r) @ [OutAck w a]"
    "callers (cn_pending (rt_conn r)) = ps @ w # qs" "callers (cn_pending c') = ps @ qs" "cn_state c' = cn_state (rt_conn r)"
    "conn_run c' ws" "cn_started c' \<longrightarrow> rt_listening r"
  shows "rt_inv (settle (hear handleOutput (r\<lparr>rt_conn := c'\<rparr>)))"
proof -
  let ?r = "r\<lparr>rt_conn := c', rt_seen := length (cn_out c'), rt_queue := [MAck w a]\<rparr>"
  have n: "rt_seen r = length (cn_out (rt_conn r))" using assms(1) by (simp add: rt_inv_def)
  have h: "hear handleOutput (r\<lparr>rt_conn := c'\<rparr>) = ?r"
    by (simp add: hear_def assms(2,3) n handleOutput_def collectOutput_def)
  have s: "subs_ok r" "goal_ok r" "heard r" using assms(1) by (simp_all add: rt_inv_def)
  have w: "waits r = List.map_filter sub_wait (ps @ w # qs)" "waits ?r = List.map_filter sub_wait (ps @ qs @ [w])"
    using assms(2,4,5) by (simp_all add: waits_def)
  have "distinct (waits ?r) = distinct (waits r)" "set (waits ?r) = set (waits r)"
    unfolding w by (auto split: option.splits)
  moreover have "open_slots ?r = open_slots r" by (rule slots_frame) simp_all
  ultimately have "waits_ok ?r" using s(1) by (simp add: subs_ok_def waits_ok_def)
  moreover have "batches_ok ?r" using s(1) assms(2) by (auto simp: subs_ok_def intro: batches_frame[of r])
  moreover have "banner_ok ?r" using s(1) banner_frame[of r ?r] by (simp add: subs_ok_def)
  moreover have "flow_ok ?r" using s(1) assms(2,8) by (auto simp: subs_ok_def flow_ok_def)
  moreover have "goal_ok ?r" by (rule goal_frame[OF s(2)]) simp_all
  moreover have "heard ?r" using s(3) assms(6,7) by (auto simp: heard_def)
  ultimately show ?thesis unfolding h by (intro settle_inv) (simp_all add: subs_ok_def)
qed

lemma given_up_ok:
  assumes "batches_ok r" "rt_queue r = []" "\<not> rt_reconcileScheduled r" "rt_seen r = length (cn_out (rt_conn r))"
    "cn_out c' = cn_out (rt_conn r) @ outs @ map OutRejected (callers (cn_pending (rt_conn r))) @ [OutState (cn_state c')]"
    "list_all quiet outs" "cn_pending c' = []" "cs_status (cn_state c') \<noteq> Open"
    "conn_run c' ws" "cn_started c' \<longrightarrow> rt_listening r"
  shows "rt_inv (settle (hear handleOutput (r\<lparr>rt_conn := c'\<rparr>)))"
proof -
  let ?r = "r\<lparr>rt_conn := c', rt_seen := length (cn_out c')\<rparr>"
  let ?st = "cn_state c'"
  let ?v = "if cs_status ?st = Reconnecting then unavailable_view ?st else banner_view None"
  obtain ev sn where e: "fold handleOutput outs ?r = ?r\<lparr>rt_events := ev, rt_sent := sn\<rparr>" using heard_quiet[OF assms(6)] by blast
  let ?q = "map MReject (callers (cn_pending (rt_conn r)))"
  let ?r2 = "?r\<lparr>rt_events := ev, rt_sent := sn, rt_queue := ?q\<rparr>"
  let ?r3 = "?r2\<lparr>rt_connectionState := ?st, rt_activity := resetActivity (rt_activity r), rt_restoredTimer := False,
     rt_syncingAfterReconnect := False, rt_subscribed := [], rt_epoch := rt_epoch r + 1,
     rt_subscribing := [], rt_failed := [], rt_batchCount := 0\<rparr>"
  have d: "drop (rt_seen r) (cn_out c') = outs @ map OutRejected (callers (cn_pending (rt_conn r))) @ [OutState ?st]"
    by (simp add: assms(4,5))
  have h: "hear handleOutput (r\<lparr>rt_conn := c'\<rparr>) = setBanner ?v ?r3"
    by (simp add: hear_def assms(2) d e heard_rejected handleOutput_def[of "OutState ?st"] handleConnectionState_def assms(8))
  let ?r4 = "?r3\<lparr>rt_view := ?v\<rparr>"
  have ep: "sb_epoch sb \<le> rt_epoch r" if "(b, sb) \<in> set (rt_batches r)" for b sb
    using assms(1) that by (auto simp: batches_ok_def)
  then have none: "filter (\<lambda>(b, sb). sb_epoch sb = Suc (rt_epoch r)) (rt_batches r) = []" by (fastforce simp: filter_empty_conv)
  have neq: "sb_epoch sb \<noteq> Suc (rt_epoch r)" if "(b, sb) \<in> set (rt_batches r)" for b sb using ep[OF that] by simp
  have bo: "batches_ok ?r4" using assms(1) none neq by (fastforce simp: batches_ok_def)
  have aq: "acked ?q = []" by (simp add: acked_def List.map_filter_def)
  have sl: "open_slots ?r4 = {}" using no_slots[OF bo] by simp
  have wt: "waits ?r4 = []" using aq assms(7) by (simp add: waits_def)
  have wo: "waits_ok ?r4" unfolding waits_ok_def sl wt by simp
  have fo: "flow_ok ?r4" using assms(3,8,10) by (simp add: flow_ok_def)
  have bn: "banner_ok ?r4" using assms(8) by (simp add: banner_ok_def)
  have so: "subs_ok (setBanner ?v ?r3)" by (rule setBanner_subs) (use bo wo fo bn in \<open>simp add: subs_ok_def\<close>)
  have he: "heard (setBanner ?v ?r3)" using assms(9) by (auto simp: heard_def)
  have go: "goal_ok (setBanner ?v ?r3)" using assms(8) by (simp add: goal_ok_def)
  show ?thesis unfolding h by (rule settle_inv[OF he so go])
qed

lemma open_ok:
  assumes "rt_inv r" "rt_queue r = []" "cn_out c' = cn_out (rt_conn r) @ [OutState (cn_state c'), OutOpen]"
    "\<not> isOpen r" "cn_pending c' = []" "cs_status (cn_state c') = Open" "conn_run c' ws" "cn_started c' \<longrightarrow> rt_listening r"
  shows "rt_inv (settle (hear handleOutput (r\<lparr>rt_conn := c'\<rparr>)))"
proof -
  let ?r = "r\<lparr>rt_conn := c', rt_seen := length (cn_out c'), rt_connectionState := cn_state c'\<rparr>"
  have s: "subs_ok r" "heard r" "rt_seen r = length (cn_out (rt_conn r))" using assms(1) by (simp_all add: rt_inv_def)
  have em: "rt_subscribed r = []" "rt_subscribing r = []" "rt_failed r = []" "rt_batchCount r = 0"
    using s(1) assms(4) by (simp_all add: subs_ok_def flow_ok_def)
  have li: "rt_listening r" using assms(8) conn_open(2)[OF assms(7,6)] by simp
  have d: "drop (rt_seen r) (cn_out c') = [OutState (cn_state c'), OutOpen]" by (simp add: s(3) assms(3))
  have h: "hear handleOutput (r\<lparr>rt_conn := c'\<rparr>) = handleOpen ?r"
    by (simp add: hear_def d handleOutput_def handleConnectionState_def assms(6))
  obtain act v where av: "currentActivity default_options (rt_visible ?r) (rt_now ?r) (rt_activity ?r) = (act, v)"
    by (cases "currentActivity default_options (rt_visible ?r) (rt_now ?r) (rt_activity ?r)")
  let ?m = "(blank_message CmActivity)\<lparr>cm_active := Some v\<rparr>"
  let ?r1 = "notifyOver ?m (?r\<lparr>rt_restoredTimer := False, rt_activity := act\<rparr>)"
  let ?r2 = "?r1\<lparr>rt_syncingAfterReconnect := rt_everOpened ?r1, rt_everOpened := True\<rparr>"
  let ?v = "banner_view (if rt_syncingAfterReconnect ?r2 then Some BanSyncing else None)"
  have o: "handleOpen ?r = reconcile (setBanner ?v ?r2)" using av by (simp add: handleOpen_def Let_def)
  have "heard (?r\<lparr>rt_restoredTimer := False, rt_activity := act\<rparr>)" using assms(7) by (auto simp: heard_def)
  from notify_heard[OF this, of ?m] have h2: "heard ?r2" by (auto simp: heard_def)
  have p: "cn_pending (rt_conn ?r2) = []" "cn_started (rt_conn ?r2) = cn_started c'"
    using assms(5) by (simp_all add: notifyOver_def)
  let ?r3 = "?r2\<lparr>rt_view := ?v\<rparr>"
  have bo: "batches_ok ?r3"
    by (rule batches_frame[of r]) (use s(1) in \<open>simp_all add: subs_ok_def notifyOver_def\<close>)
  have "waits ?r3 = []" using p assms(2) by (simp add: waits_def notifyOver_def)
  moreover have "open_slots ?r3 = {}" using no_slots[OF bo] em(4) by (simp add: notifyOver_def)
  ultimately have "waits_ok ?r3" using em(2) by (simp add: waits_ok_def notifyOver_def)
  moreover have "flow_ok ?r3" using s(1) assms(2,6) li by (simp add: subs_ok_def flow_ok_def notifyOver_def)
  moreover have "banner_ok ?r3" using assms(6) by (simp add: banner_ok_def notifyOver_def)
  ultimately have s3: "subs_ok (setBanner ?v ?r2)" using bo by (intro setBanner_subs) (simp add: subs_ok_def)
  have h3: "heard (setBanner ?v ?r2)" using h2 by simp
  show ?thesis unfolding h o using reconcile_ok[OF h3 s3] by (simp add: settle_inv)
qed

lemma told_ok:
  assumes "rt_inv r" "rt_queue r = []" "told (rt_conn r) c'" "conn_run c' ws" "cn_started c' \<longrightarrow> rt_listening r"
  shows "rt_inv (settle (hear handleOutput (r\<lparr>rt_conn := c'\<rparr>)))"
  using assms(3)
proof cases
  case (told_quiet outs)
  then show ?thesis using quiet_ok[OF assms(1)] assms(4,5) by blast
next
  case (told_answer w a ps qs)
  then show ?thesis using answer_ok[OF assms(1,2)] assms(4,5) by blast
next
  case (told_given_up outs)
  have "batches_ok r" "rt_seen r = length (cn_out (rt_conn r))" "\<not> rt_reconcileScheduled r"
    using assms(1,2) by (auto simp: rt_inv_def subs_ok_def flow_ok_def)
  then show ?thesis using given_up_ok[of r] told_given_up assms(2,4,5) by blast
next
  case told_open
  then have "\<not> isOpen r" using assms(1) by (simp add: rt_inv_def heard_def)
  then show ?thesis using open_ok[OF assms(1,2)] told_open assms(4,5) by blast
qed

lemma rt_conn_inv: "rt_inv r \<Longrightarrow> \<exists>ws. conn_run (rt_conn r) ws \<and> conn_inv (rt_conn r) ws"
  using conn_run_inv by (auto simp: rt_inv_def heard_def)

lemma callback_ok:
  assumes "rt_inv r" "rt_queue r = []" "conn_callback (rt_conn r) f"
  shows "rt_inv (overConnection f r)"
proof -
  obtain ws where c: "conn_run (rt_conn r) ws" "conn_inv (rt_conn r) ws" using rt_conn_inv[OF assms(1)] by blast
  have "conn_event (rt_conn r) f" using assms(3) by (rule conn_event.called_back)
  then have "told (rt_conn r) (f (rt_conn r))" "conn_run (f (rt_conn r)) ws"
    using conn_event_told c conn_run.happened by blast+
  moreover have "cn_started (f (rt_conn r)) \<longrightarrow> rt_listening r"
    using callback_started[OF assms(3)] assms(1) by (simp add: rt_inv_def subs_ok_def flow_ok_def)
  ultimately show ?thesis unfolding overConnection_def using told_ok[OF assms(1,2)] by blast
qed

lemma start_rt_ok:
  assumes "rt_inv r" "rt_queue r = []"
  shows "rt_inv (startRealtime r)"
proof -
  let ?r = "r\<lparr>rt_listening := True, rt_activity := startActivity default_options (rt_now r) (rt_activity r)\<rparr>"
  have "batches_ok ?r" "waits_ok ?r" "banner_ok ?r" "flow_ok ?r" "goal_ok ?r" "heard ?r" "rt_seen ?r = length (cn_out (rt_conn ?r))"
    using assms(1) batches_frame[of r ?r] waits_frame[of r ?r] banner_frame[of r ?r] goal_frame[of r ?r] heard_frame[of r ?r]
    by (simp_all add: rt_inv_def subs_ok_def waits_def flow_ok_def)
  then have i: "rt_inv ?r" by (simp add: rt_inv_def subs_ok_def)
  obtain ws where c: "conn_run (rt_conn r) ws" "conn_inv (rt_conn r) ws" using rt_conn_inv[OF assms(1)] by blast
  have "told (rt_conn r) (Connection.start (rt_conn r))" "conn_run (Connection.start (rt_conn r)) ws"
    using conn_event_told[OF conn_event.started c(2)] conn_run.happened[OF c(1) conn_event.started] by blast+
  then show ?thesis unfolding startRealtime_def overConnection_def using told_ok[OF i] assms(2) by simp
qed

lemma stop_rt_ok:
  assumes "rt_inv r" "rt_queue r = []"
  shows "rt_inv (stopRealtime r)"
proof -
  let ?r = "r\<lparr>rt_listening := False, rt_restoredTimer := False, rt_activity := stopActivity (rt_activity r)\<rparr>"
  let ?c = "Connection.stop (rt_conn r)"
  obtain ws where c: "conn_run (rt_conn r) ws" "conn_inv (rt_conn r) ws" using rt_conn_inv[OF assms(1)] by blast
  have t: "told (rt_conn r) ?c" "conn_run ?c ws"
    using conn_event_told[OF conn_event.stopped c(2)] conn_run.happened[OF c(1) conn_event.stopped] by blast+
  have ns: "\<not> cn_started ?c" by (simp add: stop_def clearTimers_def)
  have b: "batches_ok r" "waits_ok r" "flow_ok r" "banner_ok r" "heard r" "rt_seen r = length (cn_out (rt_conn r))"
    using assms(1) by (simp_all add: rt_inv_def subs_ok_def)
  have bo: "batches_ok ?r" "waits_ok ?r" using b batches_frame[of r ?r] waits_frame[of r ?r] by (simp_all add: waits_def)
  have sch: "\<not> rt_reconcileScheduled r" using b(3) assms(2) by (auto simp: flow_ok_def)
  show ?thesis
  proof (cases "cn_started (rt_conn r)")
    case False
    then have o: "\<not> isOpen r" using b(5) conn_open(2)[OF c(1)] by (auto simp: heard_def)
    have rr: "\<not> rt_restoredTimer r" using b(4) o by (simp add: banner_ok_def)
    have "flow_ok ?r" using b(3) False o by (simp add: flow_ok_def)
    moreover have "banner_ok ?r" by (rule banner_frame[OF b(4)]) (simp_all add: rr)
    moreover have "heard ?r" by (rule heard_frame[OF b(5)]) simp_all
    ultimately have "rt_inv ?r" using bo b(6) o by (simp add: rt_inv_def subs_ok_def goal_ok_def)
    then show ?thesis unfolding stopRealtime_def overConnection_def
      using told_ok[of ?r ?c ws] t ns assms(2) by simp
  next
    case True
    have st: "cs_status (cn_state ?c) = Closed" using True by (simp add: stop_def)
    have "cs_status (cn_state (rt_conn r)) \<noteq> Closed" using c(2) True by (simp add: conn_inv_def moves_ok_def)
    then have n: "cn_state ?c \<noteq> cn_state (rt_conn r)" using st by metis
    show ?thesis
      using t(1)
    proof cases
      case (told_given_up outs)
      then show ?thesis unfolding stopRealtime_def overConnection_def
        using given_up_ok[of ?r ?c outs ws] bo(1) assms(2) sch b(6) t(2) ns by simp
    qed (use n st in simp_all)
  qed
qed

lemma same_inv:
  assumes "rt_inv r" "rt_conn r' = rt_conn r" "rt_seen r' = rt_seen r" "rt_connectionState r' = rt_connectionState r"
    "rt_batches r' = rt_batches r" "rt_nextBatch r' = rt_nextBatch r" "rt_epoch r' = rt_epoch r"
    "rt_batchCount r' = rt_batchCount r" "rt_queue r' = rt_queue r" "rt_subscribing r' = rt_subscribing r"
    "rt_subscribed r' = rt_subscribed r" "rt_failed r' = rt_failed r" "rt_state r' = rt_state r"
    "rt_reconcileScheduled r' = rt_reconcileScheduled r" "rt_listening r' = rt_listening r" "rt_view r' = rt_view r"
    "rt_syncingAfterReconnect r' = rt_syncingAfterReconnect r" "rt_restoredTimer r' = rt_restoredTimer r"
  shows "rt_inv r'"
  using assms batches_frame[of r r'] waits_frame[of r r'] flow_frame[of r r'] banner_frame[of r r'] goal_frame[of r r']
    heard_frame[of r r']
  by (simp add: rt_inv_def subs_ok_def waits_def)

lemma notify_inv:
  assumes "rt_inv r"
  shows "rt_inv (settle (notifyOver m r))"
proof (rule settle_inv)
  have s: "heard r" "subs_ok r" "goal_ok r" using assms by (simp_all add: rt_inv_def)
  show "heard (notifyOver m r)" using notify_heard[OF s(1)] .
  let ?r = "notifyOver m r"
  have "batches_ok ?r" "waits_ok ?r" "flow_ok ?r" "banner_ok ?r"
    using s(2) batches_frame[of r ?r] waits_frame[of r ?r] flow_frame[of r ?r] banner_frame[of r ?r]
    by (simp_all add: subs_ok_def notifyOver_def waits_def)
  then show "subs_ok ?r" by (simp add: subs_ok_def)
  show "goal_ok ?r" by (rule goal_frame[OF s(3)]) (simp_all add: notifyOver_def)
qed

lemma request_inv:
  assumes "rt_inv r" "isOpen r" "sub_wait w = None"
  shows "rt_inv (settle (requestOver m w r))"
proof (rule settle_inv)
  have s: "heard r" "subs_ok r" "goal_ok r" using assms by (simp_all add: rt_inv_def)
  have e: "requestOver m w r = r\<lparr>rt_conn := ask [(m, w)] (rt_conn r)\<rparr>" by (simp add: requestOver_def ask_def)
  show "heard (requestOver m w r)" unfolding e by (rule ask_heard[OF s(1) assms(2)])
  have "r\<lparr>rt_subscribed := rt_subscribed r, rt_conn := ask [(m, w)] (rt_conn r)\<rparr> = r\<lparr>rt_conn := ask [(m, w)] (rt_conn r)\<rparr>" by simp
  then show "subs_ok (requestOver m w r)"
    unfolding e using asked_subs[OF s(1) assms(2) s(2), of "[(m, w)]" "rt_subscribed r"] assms(3) by simp
  show "goal_ok (requestOver m w r)" unfolding e by (rule goal_frame[OF s(3)]) simp_all
qed

lemma fireRestored_inv:
  assumes "rt_inv r" "rt_restoredTimer r"
  shows "rt_inv (fireRestored r)"
proof -
  let ?r = "r\<lparr>rt_restoredTimer := False\<rparr>"
  let ?r1 = "?r\<lparr>rt_view := banner_view None\<rparr>"
  have s: "batches_ok r" "waits_ok r" "flow_ok r" "banner_ok r" "heard r" "goal_ok r" "rt_seen r = length (cn_out (rt_conn r))"
    using assms(1) by (simp_all add: rt_inv_def subs_ok_def)
  have o: "isOpen r" "\<not> rt_syncingAfterReconnect r" using s(4) assms(2) by (auto simp: banner_ok_def split: if_splits)
  have "batches_ok ?r1" "waits_ok ?r1" "flow_ok ?r1"
    using s batches_frame[of r ?r1] waits_frame[of r ?r1] flow_frame[of r ?r1] by (simp_all add: waits_def)
  moreover have "banner_ok ?r1" using o by (simp add: banner_ok_def)
  ultimately have "subs_ok (setBanner (banner_view None) ?r)" by (intro setBanner_subs) (simp add: subs_ok_def)
  moreover have "goal_ok (setBanner (banner_view None) ?r)" by (rule setBanner_goal, rule goal_frame[OF s(6)]) simp_all
  moreover have "heard ?r" by (rule heard_frame[OF s(5)]) simp_all
  ultimately show ?thesis using s(7) by (simp add: fireRestored_def rt_inv_def)
qed

lemma created_inv: "rt_inv (createRealtime st t0 vis)"
proof -
  have "\<exists>ws. conn_run (createConnection :: rt_waiter connection) ws" using conn_run.created by blast
  then show ?thesis
    by (simp add: rt_inv_def heard_def subs_ok_def batches_ok_def waits_ok_def waits_def open_slots_def flow_ok_def banner_ok_def
        goal_ok_def createRealtime_def createConnection_def callers_def List.map_filter_def acked_def banner_view_def)
qed

lemma rt_run_inv: "rt_run r \<Longrightarrow> rt_inv r"
proof (induction rule: rt_run.induct)
  case (created st t0 vis)
  show ?case by (rule created_inv)
next
  case (clock r t vis)
  show ?case by (rule same_inv[OF clock.IH]) simp_all
next
  case (synced r b sb)
  have s: "heard r" "batches_but {} r" "waits_ok r" "flow_ok r" "banner_ok r" "goal_ok r" "rt_seen r = length (cn_out (rt_conn r))"
    using synced.IH by (simp_all add: rt_inv_def subs_ok_def batches_but_none)
  have n: "None \<notin> set (sb_results sb)" using s(2) synced by (simp add: batches_but_def)
  have "rt_seen (endBatch b r) = rt_seen r" "rt_conn (endBatch b r) = rt_conn r"
    using synced by (simp_all add: endBatch_def dropBatch_def schedule_fields)
  then show ?case using end_batch_ok[OF s(1,2) _ s(3-6) synced(2) n] s(7) by (simp add: rt_inv_def)
next
  case (typing r roomId threadRootId)
  have "rt_inv (r\<lparr>rt_lastTypingAt := x\<rparr>)" for x by (rule same_inv[OF typing.IH]) simp_all
  then show ?case using typing.IH by (simp add: sendTyping_def Let_def notify_inv)
next
  case (beat r n huddleId participantId)
  have "rt_inv (r\<lparr>rt_beats := x\<rparr>)" for x by (rule same_inv[OF beat.IH]) simp_all
  then show ?case using beat.IH by (simp add: huddleHeartbeat_def request_inv)
next
  case (activity r f)
  show ?case by (rule same_inv[OF activity.IH]) simp_all
next
  case (activity_fired r)
  have "rt_inv (r\<lparr>rt_activity := x\<rparr>)" for x by (rule same_inv[OF activity_fired.IH]) simp_all
  then show ?case by (auto simp: activityFired_def Let_def notify_inv split: prod.split option.split)
qed (simp_all add: storeChanged_inv runMicro_inv start_rt_ok stop_rt_ok callback_ok fireRestored_inv)

section \<open>Properties\<close>

definition batch_moves :: "realtime \<Rightarrow> nat \<Rightarrow> sub_batch \<Rightarrow> bool" where
  \<comment> \<open>A batch of this connection goes on: an answer is outstanding, its continuation is queued, or the store still syncs.\<close>
  "batch_moves r b sb \<longleftrightarrow> map_of (rt_batches r) b = Some sb \<and> sb_epoch sb = rt_epoch r \<and>
     ((\<exists>i t. (b, i, t) \<in> set (waits r)) \<or> MBatch b \<in> set (rt_queue r) \<or> sb_syncing sb)"

lemma counted_batch_moves:
  assumes "subs_ok r" "rt_batchCount r > 0"
  shows "\<exists>b sb. batch_moves r b sb"
proof -
  have bb: "batches_but {} r" "waits_ok r" using assms(1) by (simp_all add: subs_ok_def batches_but_none)
  then have d: "distinct (map fst (rt_batches r))" by (simp add: batches_but_def)
  have "0 < length (filter (\<lambda>(b, sb). sb_epoch sb = rt_epoch r) (rt_batches r))"
    using bb(1) assms(2) by (simp add: batches_but_def)
  then obtain b sb where "(b, sb) \<in> set (rt_batches r)" "sb_epoch sb = rt_epoch r"
    by (auto simp: filter_empty_conv)
  then have m: "map_of (rt_batches r) b = Some sb" "sb_epoch sb = rt_epoch r" using d by simp_all
  show ?thesis
  proof (cases "None \<in> set (sb_results sb)")
    case True
    then obtain i where "i < length (sb_results sb)" "sb_results sb ! i = None" by (auto simp: in_set_conv_nth)
    then have "(b, i, sb_targets sb ! i) \<in> open_slots r" using m by (simp add: open_slots_def)
    then have "(b, i, sb_targets sb ! i) \<in> set (waits r)" using bb(2) by (simp add: waits_ok_def)
    then show ?thesis using m by (auto simp: batch_moves_def)
  next
    case False
    then have "MBatch b \<in> set (rt_queue r) \<or> sb_syncing sb" using bb(1) m by (auto simp: batches_but_def)
    then show ?thesis using m by (auto simp: batch_moves_def)
  qed
qed

text \<open>C10: while the connection is open, the client always moves towards being subscribed to what the store shows: a
  reconciliation is queued, or a batch of subscriptions is under way (an answer outstanding, its continuation queued or
  the store syncing), or nothing waits and it is subscribed to exactly the shown targets, save those the server refused.
  The connection below it is one of the runs of the connection.\<close>

theorem subscriptions_converge:
  assumes "rt_run r"
  shows "(cs_status (rt_connectionState r) = Open \<longrightarrow>
      MReconcile \<in> set (rt_queue r) \<or> (\<exists>b sb. batch_moves r b sb) \<or>
      rt_subscribing r = [] \<and> set (rt_subscribed r) \<subseteq> keyOf ` set (desiredTargets (rt_state r)) \<and>
        keyOf ` set (desiredTargets (rt_state r)) \<subseteq> set (rt_subscribed r) \<union> set (rt_failed r)) \<and>
    rt_connectionState r = cn_state (rt_conn r) \<and> (\<exists>ws. conn_run (rt_conn r) ws)"
proof -
  have i: "heard r" "subs_ok r" "goal_ok r" using rt_run_inv[OF assms] by (simp_all add: rt_inv_def)
  have m: "0 < rt_batchCount r \<Longrightarrow> \<exists>b sb. batch_moves r b sb" by (rule counted_batch_moves[OF i(2)])
  have "rt_subscribing r = []" if "\<not> 0 < rt_batchCount r"
    using no_slots[of r] i(2) that by (auto simp: subs_ok_def waits_ok_def)
  then show ?thesis using i m by (auto simp: heard_def subs_ok_def flow_ok_def goal_ok_def matched_def)
qed

theorem subscriptions_converge_witness:
  "let r = startRealtime (createRealtime initialState 0 True) in
    (cs_status (rt_connectionState r) = Open \<longrightarrow>
      MReconcile \<in> set (rt_queue r) \<or> (\<exists>b sb. batch_moves r b sb) \<or>
      rt_subscribing r = [] \<and> set (rt_subscribed r) \<subseteq> keyOf ` set (desiredTargets (rt_state r)) \<and>
        keyOf ` set (desiredTargets (rt_state r)) \<subseteq> set (rt_subscribed r) \<union> set (rt_failed r)) \<and>
    rt_connectionState r = cn_state (rt_conn r) \<and> (\<exists>ws. conn_run (rt_conn r) ws)"
  unfolding Let_def
  by (rule subscriptions_converge[OF rt_run.mounted[OF rt_run.created]]) (simp add: createRealtime_def)

text \<open>C11: the banner tells the state of the connection. While it is open the screen of an unreachable server is never
  shown, "syncing" is shown exactly while a reconnection is being caught up with, and "restored" exactly while the timer
  that takes it away runs; while it is not open, "reconnecting" is shown exactly when it tries again, and the screen of
  an unreachable server only after three unreachable attempts of a client that had been connected.\<close>

theorem banner_tells_connection:
  assumes "rt_run r"
  shows "if cs_status (rt_connectionState r) = Open
    then rt_view r = banner_view (if rt_syncingAfterReconnect r then Some BanSyncing
             else if rt_restoredTimer r then Some BanRestored else None) \<and>
         \<not> (rt_syncingAfterReconnect r \<and> rt_restoredTimer r)
    else \<not> rt_syncingAfterReconnect r \<and> \<not> rt_restoredTimer r \<and>
         rt_view r = (if cs_status (rt_connectionState r) = Reconnecting
                      then unavailable_view (rt_connectionState r) else banner_view None)"
  using rt_run_inv[OF assms] by (simp add: rt_inv_def subs_ok_def banner_ok_def)

theorem banner_tells_connection_witness:
  "let r = startRealtime (createRealtime initialState 0 True) in
   if cs_status (rt_connectionState r) = Open
    then rt_view r = banner_view (if rt_syncingAfterReconnect r then Some BanSyncing
             else if rt_restoredTimer r then Some BanRestored else None) \<and>
         \<not> (rt_syncingAfterReconnect r \<and> rt_restoredTimer r)
    else \<not> rt_syncingAfterReconnect r \<and> \<not> rt_restoredTimer r \<and>
         rt_view r = (if cs_status (rt_connectionState r) = Reconnecting
                      then unavailable_view (rt_connectionState r) else banner_view None)"
  unfolding Let_def
  by (rule banner_tells_connection[OF rt_run.mounted[OF rt_run.created]]) (simp add: createRealtime_def)

text \<open>a failed re-read of the room list unsubscribes every room. The store keeps the ids of the list when a re-read
  fails, but the targets are taken from a list that is ready only; so the next reconciliation asks for nothing but the
  workspace and drops the subscriptions of all rooms, and their events are missed until the list is read again.\<close>

theorem failed_list_unsubscribes:
  "let failed = \<lparr>ld_status = LoadError, ld_list = [''r'']\<rparr>;
       st = initialState\<lparr>s_activeWorkspaceId := Some ''w'', s_roomLists := [(''w'', Some failed)]\<rparr>;
       r = (createRealtime st 0 True)\<lparr>rt_connectionState := \<lparr>cs_status = Open, cs_lastOpenedAt = Some 0, cs_unreachableAttempts = 0\<rparr>,
             rt_subscribed := [keyOf (WorkspaceTarget ''w''), keyOf (RoomTarget ''r'')]\<rparr>
   in desiredTargets st = [WorkspaceTarget ''w''] \<and> rt_subscribed (reconcile r) = [keyOf (WorkspaceTarget ''w'')] \<and>
      rt_calls (reconcile r) = []"
  by (simp add: Let_def desiredTargets_def initialState_def reconcile_def createRealtime_def unsubscribe_def requestOver_def
        finishReconnectSync_def rget_def)

end
