(* ===== verification/JsText.thy ===== *)
theory JsText
  imports Main
begin

text \<open>
  JavaScript strings for the components that read a text character by character (the body format,
  the search query): a text is the list of its UTF-16 code units, as integers, so that Japanese
  text is represented. This theory holds the string operations those components call
  (\<open>charAt\<close>, \<open>slice\<close>, \<open>startsWith\<close>, \<open>indexOf\<close>, \<open>split\<close>, \<open>join\<close>), the character classes of
  their regular expressions, and their laws.
\<close>

type_synonym utext = "int list"

definition units :: "string \<Rightarrow> utext" where
  \<comment> \<open>a literal of the source; also the embedding of the strings of the other theories\<close>
  "units s = map of_char s"

lemma units_Nil [simp]: "units [] = []"
  by (simp add: units_def)

lemma units_Cons [simp]: "units (c # s) = of_char c # units s"
  by (simp add: units_def)

lemma length_units [simp]: "length (units s) = length s"
  by (simp add: units_def)

section \<open>Positions\<close>

definition charAt :: "utext \<Rightarrow> nat \<Rightarrow> int option" where
  \<comment> \<open>\<open>text[i]\<close>, \<open>undefined\<close> out of range\<close>
  "charAt t i = (if i < length t then Some (t ! i) else None)"

definition charBefore :: "utext \<Rightarrow> nat \<Rightarrow> int option" where
  \<comment> \<open>\<open>text[i - 1]\<close>, \<open>undefined\<close> at the start\<close>
  "charBefore t i = (case i of 0 \<Rightarrow> None | Suc k \<Rightarrow> charAt t k)"

definition slice :: "utext \<Rightarrow> nat \<Rightarrow> nat \<Rightarrow> utext" where
  \<comment> \<open>\<open>text.slice(from, to)\<close> of nonnegative positions\<close>
  "slice t a b = take (b - a) (drop a t)"

fun prefix_of :: "utext \<Rightarrow> utext \<Rightarrow> bool" where
  "prefix_of [] t = True"
| "prefix_of (p # ps) [] = False"
| "prefix_of (p # ps) (c # cs) = (p = c \<and> prefix_of ps cs)"

definition startsAt :: "utext \<Rightarrow> utext \<Rightarrow> nat \<Rightarrow> bool" where
  \<comment> \<open>\<open>text.startsWith(p, i)\<close>\<close>
  "startsAt t p i = prefix_of p (drop i t)"

fun find_from :: "utext \<Rightarrow> utext \<Rightarrow> nat option" where
  \<comment> \<open>the first position of \<open>p\<close> in a text\<close>
  "find_from p [] = (if p = [] then Some 0 else None)"
| "find_from p (c # cs) = (if prefix_of p (c # cs) then Some 0 else map_option Suc (find_from p cs))"

definition indexOf :: "utext \<Rightarrow> utext \<Rightarrow> nat \<Rightarrow> nat option" where
  \<comment> \<open>\<open>text.indexOf(p, from)\<close>, \<open>None\<close> for \<open>-1\<close>\<close>
  "indexOf t p from = map_option ((+) from) (find_from p (drop from t))"

lemma prefix_of_iff: "prefix_of p t \<longleftrightarrow> take (length p) t = p"
  by (induction p t rule: prefix_of.induct) auto

lemma prefix_of_append: "prefix_of p t \<longleftrightarrow> (\<exists>r. t = p @ r)"
  by (induction p t rule: prefix_of.induct) auto

lemma prefix_of_single: "prefix_of [c] t \<longleftrightarrow> (\<exists>r. t = c # r)"
  by (cases t) auto

lemma slice_length: "b \<le> length t \<Longrightarrow> a \<le> b \<Longrightarrow> length (slice t a b) = b - a"
  by (simp add: slice_def)

lemma slice_split: "a \<le> b \<Longrightarrow> b \<le> c \<Longrightarrow> slice t a b @ slice t b c = slice t a c"
proof -
  assume "a \<le> b" "b \<le> c"
  then have "slice t a c = take ((b - a) + (c - b)) (drop a t)" by (simp add: slice_def)
  also have "\<dots> = take (b - a) (drop a t) @ take (c - b) (drop (b - a) (drop a t))"
    by (rule take_add)
  finally show ?thesis using \<open>a \<le> b\<close> by (simp add: slice_def)
qed

lemma drop_slice: "a \<le> b \<Longrightarrow> drop a t = slice t a b @ drop b t"
  by (metis append_take_drop_id drop_drop le_add_diff_inverse2 slice_def)

lemma slice_to_end: "length t \<le> b \<Longrightarrow> slice t a b = drop a t"
  by (simp add: slice_def)

lemma slice_Cons: "a < length t \<Longrightarrow> a < b \<Longrightarrow> slice t a b = t ! a # slice t (Suc a) b"
  by (simp add: slice_def Cons_nth_drop_Suc[symmetric] take_Cons')

lemma slice_same [simp]: "slice t a a = []"
  by (simp add: slice_def)

lemma find_from_Some:
  "find_from p t = Some k \<Longrightarrow>
    prefix_of p (drop k t) \<and> k + length p \<le> length t \<and> (\<forall>j<k. \<not> prefix_of p (drop j t))"
proof (induction p t arbitrary: k rule: find_from.induct)
  case (1 p)
  then show ?case by (auto split: if_splits)
next
  case (2 p c cs)
  show ?case
  proof (cases "prefix_of p (c # cs)")
    case True
    then have "length p \<le> length (c # cs)" by (metis append_take_drop_id prefix_of_iff length_take min.absorb_iff2 min.commute)
    then show ?thesis using True 2 by (auto simp: prefix_of_iff)
  next
    case False
    then obtain k' where "find_from p cs = Some k'" "k = Suc k'" using 2 by auto
    then show ?thesis using 2 False by (auto simp: less_Suc_eq_0_disj)
  qed
qed

lemma find_from_None: "find_from p t = None \<Longrightarrow> j \<le> length t \<Longrightarrow> \<not> prefix_of p (drop j t)"
proof (induction p t arbitrary: j rule: find_from.induct)
  case (2 p c cs)
  then show ?case by (cases j) (auto split: if_splits)
qed (auto elim: prefix_of.elims split: if_splits)

lemma indexOf_Some:
  "indexOf t p a = Some k \<Longrightarrow> a \<le> length t \<or> p \<noteq> [] \<Longrightarrow>
    a \<le> k \<and> k + length p \<le> max a (length t) \<and> prefix_of p (drop k t) \<and> (\<forall>j. a \<le> j \<and> j < k \<longrightarrow> \<not> prefix_of p (drop j t))"
proof -
  assume a: "indexOf t p a = Some k"
  then obtain k' where k: "find_from p (drop a t) = Some k'" "k = a + k'" by (auto simp: indexOf_def)
  from find_from_Some[OF k(1)]
  have f: "prefix_of p (drop k t)" "k' + length p \<le> length t - a"
    "\<forall>j<k'. \<not> prefix_of p (drop j (drop a t))" using k(2) by (auto simp: add.commute)
  have "\<not> prefix_of p (drop j t)" if "a \<le> j" "j < k" for j
    using f(3) that k(2) by (metis add.commute add_less_cancel_left drop_drop le_add_diff_inverse)
  then show ?thesis using f k(2) by auto
qed

lemma indexOf_bound: "indexOf t p a = Some k \<Longrightarrow> p \<noteq> [] \<Longrightarrow> a \<le> k \<and> k + length p \<le> length t"
proof -
  assume a: "indexOf t p a = Some k" "p \<noteq> []"
  then have "a \<le> k" "k + length p \<le> max a (length t)" "0 < length p" using indexOf_Some[of t p a k] by auto
  then show ?thesis by linarith
qed

lemma slice_nth: "c \<in> set (slice t a b) \<Longrightarrow> \<exists>j. a \<le> j \<and> j < b \<and> j < length t \<and> t ! j = c"
proof -
  assume "c \<in> set (slice t a b)"
  then obtain k where "k < length (slice t a b)" "slice t a b ! k = c" by (auto simp: in_set_conv_nth)
  then have "a + k < b" "a + k < length t" "t ! (a + k) = c" by (auto simp: slice_def)
  then show ?thesis by (metis le_add1)
qed

lemma prefix_single_nth: "j < length t \<Longrightarrow> prefix_of [c] (drop j t) \<longleftrightarrow> t ! j = c"
  by (auto simp: prefix_of_single Cons_nth_drop_Suc[symmetric])

lemma indexOf_none_in_slice: "indexOf t [c] a = Some k \<Longrightarrow> c \<notin> set (slice t a k)"
  using indexOf_Some[of t "[c]" a k] slice_nth[of c t a k] by (auto simp: prefix_single_nth)

lemma indexOf_None: "indexOf t [c] a = None \<Longrightarrow> c \<notin> set (drop a t)"
proof
  assume n: "indexOf t [c] a = None" and "c \<in> set (drop a t)"
  then obtain k where "k < length (drop a t)" "drop a t ! k = c" by (auto simp: in_set_conv_nth)
  then show False using n find_from_None[of "[c]" "drop a t" k] by (auto simp: indexOf_def prefix_single_nth add.commute)
qed

lemma indexOf_bound_slice:
  "case indexOf t [c] a of None \<Rightarrow> True | Some k \<Rightarrow> b < k \<Longrightarrow> c \<notin> set (slice t a b)"
proof (cases "indexOf t [c] a")
  case None
  then show ?thesis using indexOf_None[OF None] by (auto simp: slice_def dest: in_set_takeD)
next
  case (Some k)
  assume "case indexOf t [c] a of None \<Rightarrow> True | Some k \<Rightarrow> b < k"
  then have "b < k" using Some by simp
  then show ?thesis using indexOf_Some[OF Some] slice_nth[of c t a b] by (auto simp: prefix_single_nth)
qed

lemma find_from_first: "c \<notin> set x \<Longrightarrow> find_from [c] (x @ c # r) = Some (length x)"
  by (induction x) auto

lemma indexOf_first: "drop a t = x @ c # r \<Longrightarrow> c \<notin> set x \<Longrightarrow> indexOf t [c] a = Some (a + length x)"
  by (simp add: indexOf_def find_from_first)

lemma find_from_after: "c \<notin> set x \<Longrightarrow> find_from [c] (x @ r) = map_option ((+) (length x)) (find_from [c] r)"
  by (induction x; cases "find_from [c] r") auto

lemma indexOf_after:
  "drop a t = x @ d # r \<Longrightarrow> c \<notin> set x \<Longrightarrow> c \<noteq> d \<Longrightarrow> indexOf t [c] a = Some k \<Longrightarrow> a + length x < k"
  using find_from_after[of c x "d # r"] by (auto simp: indexOf_def)

section \<open>Character classes\<close>

abbreviation newline :: int where "newline \<equiv> 10"
abbreviation backtick :: int where "backtick \<equiv> 96"

definition is_digit :: "int \<Rightarrow> bool" where
  "is_digit c = (48 \<le> c \<and> c \<le> 57)"

definition is_alnum :: "int \<Rightarrow> bool" where
  \<comment> \<open>\<open>[A-Za-z0-9]\<close>\<close>
  "is_alnum c = (is_digit c \<or> (65 \<le> c \<and> c \<le> 90) \<or> (97 \<le> c \<and> c \<le> 122))"

definition is_space :: "int \<Rightarrow> bool" where
  \<comment> \<open>\<open>\s\<close>: white space and line terminators of ECMAScript\<close>
  "is_space c = ((9 \<le> c \<and> c \<le> 13) \<or> (0x2000 \<le> c \<and> c \<le> 0x200A)
     \<or> c \<in> set [0x20, 0xA0, 0x1680, 0x2028, 0x2029, 0x202F, 0x205F, 0x3000, 0xFEFF])"

definition is_line_end :: "int \<Rightarrow> bool" where
  \<comment> \<open>what \<open>.\<close> does not match\<close>
  "is_line_end c = (c \<in> set [10, 13, 0x2028, 0x2029])"

section \<open>Splitting and joining lines\<close>

fun split_lines :: "utext \<Rightarrow> utext list" where
  \<comment> \<open>\<open>text.split("\n")\<close>\<close>
  "split_lines [] = [[]]"
| "split_lines (c # cs) =
     (if c = newline then [] # split_lines cs
      else case split_lines cs of [] \<Rightarrow> [[c]] | l # ls \<Rightarrow> (c # l) # ls)"

fun join_lines :: "utext list \<Rightarrow> utext" where
  \<comment> \<open>\<open>lines.join("\n")\<close>\<close>
  "join_lines [] = []"
| "join_lines [l] = l"
| "join_lines (l # ls) = l @ newline # join_lines ls"

lemma split_lines_ne [simp]: "split_lines t \<noteq> []"
  by (induction t rule: split_lines.induct) (auto split: list.splits)

lemma split_lines_no_newline: "l \<in> set (split_lines t) \<Longrightarrow> newline \<notin> set l"
  by (induction t arbitrary: l rule: split_lines.induct) (auto split: list.splits if_splits)

lemma join_lines_Cons: "ls \<noteq> [] \<Longrightarrow> join_lines (l # ls) = l @ newline # join_lines ls"
  by (cases ls) auto

lemma join_split_lines [simp]: "join_lines (split_lines t) = t"
proof (induction t rule: split_lines.induct)
  case (2 c cs)
  obtain l ls where sl: "split_lines cs = l # ls" by (cases "split_lines cs") auto
  show ?case
  proof (cases "c = newline")
    case True
    then show ?thesis using 2 by (simp add: join_lines_Cons)
  next
    case False
    then have "join_lines (l # ls) = cs" using 2 sl by simp
    then show ?thesis using sl False by (cases ls) auto
  qed
qed simp

lemma drop_trailing_le: "length (rev (dropWhile P (rev t))) \<le> length t"
  by (metis length_dropWhile_le length_rev)

section \<open>Characters\<close>

fun code_points :: "utext \<Rightarrow> utext list" where
  \<comment> \<open>\<open>for (const ch of text)\<close>, \<open>Array.from(text)\<close>: a surrogate pair is one character\<close>
  "code_points [] = []"
| "code_points [u] = [[u]]"
| "code_points (u # v # us) =
     (if 0xD800 \<le> u \<and> u \<le> 0xDBFF \<and> 0xDC00 \<le> v \<and> v \<le> 0xDFFF then [u, v] # code_points us
      else [u] # code_points (v # us))"

lemma code_points_concat: "concat (code_points t) = t"
  by (induction t rule: code_points.induct) auto

end
