(* ===== verification/InlineFormat.thy ===== *)
theory InlineFormat
  imports JsText
begin

text \<open>
  \<open>web/lib/chat/format/body-format.ts\<close>, the inline half: a line of a message's body read as code,
  bold, italic, underline, strike, links, mentions and channel links (\<open>readAtom\<close>,
  \<open>findCloser\<close>, \<open>parseInline\<close>); the blocks are in the theory \<open>BodyFormat\<close>. Positions are natural numbers into the text, \<open>-1\<close> and \<open>null\<close> are
  \<open>None\<close>; a loop of the source is one function with the loop's variables as arguments.
\<close>

section \<open>The nodes\<close>

datatype emphasis = Bold | Italic | Underline | Strike

datatype mention_node = MUser utext | MChannel | MHere

datatype inline =
    Text utext
  | Emph emphasis "inline list"
  | Code utext
  | Link utext "utext option"
  | MentionN mention_node utext
  | ChannelN utext utext

section \<open>Constants\<close>

definition URL_CHAR :: "int \<Rightarrow> bool" where
  "URL_CHAR c = (33 \<le> c \<and> c \<le> 126)"

definition URL_EXCLUDED :: "int set" where
  "URL_EXCLUDED = set (units ''<>`'')"

definition URL_TRAILING :: "int \<Rightarrow> bool" where
  \<comment> \<open>one character of the class of the regular expression\<close>
  "URL_TRAILING c = (c \<in> set (units ''.,;:!?)]}'' @ [39, 34] @ units ''*_~''))"

definition UNDERLINE :: utext where
  "UNDERLINE = units ''__''"

definition EMPHASIS :: "utext \<Rightarrow> emphasis option" where
  "EMPHASIS m = (if m = units ''*'' then Some Bold else if m = units ''_'' then Some Italic
     else if m = units ''~'' then Some Strike else None)"

definition isWordChar :: "int option \<Rightarrow> bool" where
  "isWordChar c = (case c of None \<Rightarrow> False | Some u \<Rightarrow> is_alnum u)"

section \<open>The regular expressions\<close>

definition scheme :: "utext \<Rightarrow> (utext \<times> utext) option" where
  \<comment> \<open>\<open>https?://\<close> at the start: what it matches and the rest\<close>
  "scheme t = (if prefix_of (units ''https://'') t then Some (units ''https://'', drop 8 t)
     else if prefix_of (units ''http://'') t then Some (units ''http://'', drop 7 t) else None)"

definition label_url_char :: "int \<Rightarrow> bool" where
  \<comment> \<open>\<open>[^\s<>`|]\<close>\<close>
  "label_url_char c = (\<not> is_space c \<and> c \<notin> set (units ''<>`|''))"

definition label_char :: "int \<Rightarrow> bool" where
  \<comment> \<open>\<open>[^<>`\n]\<close>\<close>
  "label_char c = (c \<notin> set (units ''<>`'') \<and> c \<noteq> newline)"

definition LABELED_LINK :: "utext \<Rightarrow> (utext \<times> utext) option" where
  \<comment> \<open>the two groups of a match at the start\<close>
  "LABELED_LINK t =
     (if \<not> prefix_of (units ''<'') t then None else
      case scheme (drop 1 t) of None \<Rightarrow> None
      | Some (sch, r) \<Rightarrow>
         let u = takeWhile label_url_char r; r2 = dropWhile label_url_char r in
         if u = [] \<or> \<not> prefix_of (units ''|'') r2 then None else
         let l = takeWhile label_char (drop 1 r2); r3 = dropWhile label_char (drop 1 r2) in
         if l = [] \<or> \<not> prefix_of (units ''>'') r3 then None else Some (sch @ u, l))"

definition id_token :: "utext \<Rightarrow> utext \<Rightarrow> utext option" where
  \<comment> \<open>the opening, 26 alphanumeric characters and \<open>>\<close> at the start: the 26 characters\<close>
  "id_token p t =
     (let r = drop (length p) t; i = take 26 r in
      if prefix_of p t \<and> length i = 26 \<and> list_all is_alnum i \<and> prefix_of (units ''>'') (drop 26 r)
      then Some i else None)"

definition CHANNEL :: "utext \<Rightarrow> utext option" where
  "CHANNEL t = id_token (units ''<#'') t"

definition MENTION :: "utext \<Rightarrow> (mention_node \<times> utext) option" where
  \<comment> \<open>what is mentioned, and the whole match\<close>
  "MENTION t =
     (case id_token (units ''<@'') t of
        Some i \<Rightarrow> Some (MUser i, units ''<@'' @ i @ units ''>'')
      | None \<Rightarrow>
         if prefix_of (units ''<!channel>'') t then Some (MChannel, units ''<!channel>'')
         else if prefix_of (units ''<!here>'') t then Some (MHere, units ''<!here>'') else None)"

definition bare_url :: "utext \<Rightarrow> bool" where
  \<comment> \<open>\<open>/^https?:\/\/[^/]/\<close>\<close>
  "bare_url u = (case scheme u of None \<Rightarrow> False | Some (_, r) \<Rightarrow> r \<noteq> [] \<and> hd r \<noteq> 47)"

section \<open>Inlines\<close>

definition readAtom :: "utext \<Rightarrow> nat \<Rightarrow> (inline \<times> nat) option" where
  "readAtom t i =
     (case charAt t i of None \<Rightarrow> None
      | Some c \<Rightarrow>
        if c = backtick then
          (case indexOf t [backtick] (i + 1) of None \<Rightarrow> None
           | Some e \<Rightarrow>
              if e > i + 1 \<and> (case indexOf t [newline] (i + 1) of None \<Rightarrow> True | Some n \<Rightarrow> e < n)
              then Some (Code (slice t (i + 1) e), e + 1) else None)
        else if c = 60 then
          (case LABELED_LINK (drop i t) of
             Some (u, l) \<Rightarrow> Some (Link u (Some l), i + (length u + length l + 3))
           | None \<Rightarrow>
             (case CHANNEL (drop i t) of
                Some d \<Rightarrow> Some (ChannelN d (units ''<#'' @ d @ units ''>''), i + (length d + 3))
              | None \<Rightarrow>
                (case MENTION (drop i t) of
                   None \<Rightarrow> None
                 | Some (k, raw) \<Rightarrow> Some (MentionN k raw, i + length raw))))
        else if c = 104 \<and> (startsAt t (units ''https://'') i \<or> startsAt t (units ''http://'') i)
             \<and> \<not> isWordChar (charBefore t i) then
          let run = takeWhile (\<lambda>c. URL_CHAR c \<and> c \<notin> URL_EXCLUDED) (drop i t);
              u = rev (dropWhile URL_TRAILING (rev run))
          in if bare_url u then Some (Link u None, i + length u) else None
        else None)"

fun raw_inline :: "inline \<Rightarrow> utext" where
  \<comment> \<open>the characters of the body a node was read from\<close>
  "raw_inline (Text t) = t"
| "raw_inline (Emph k cs) =
     (let m = (case k of Bold \<Rightarrow> units ''*'' | Italic \<Rightarrow> units ''_'' | Underline \<Rightarrow> UNDERLINE | Strike \<Rightarrow> units ''~'')
      in m @ concat (map raw_inline cs) @ m)"
| "raw_inline (Code t) = [backtick] @ t @ [backtick]"
| "raw_inline (Link u None) = u"
| "raw_inline (Link u (Some l)) = units ''<'' @ u @ units ''|'' @ l @ units ''>''"
| "raw_inline (MentionN k raw) = raw"
| "raw_inline (ChannelN d raw) = raw"


lemma takeWhile_slice: "slice t i (i + length (takeWhile P (drop i t))) = takeWhile P (drop i t)"
  by (simp add: slice_def takeWhile_eq_take[symmetric])

lemma slice_prefix: "drop i t = p @ r \<Longrightarrow> slice t i (i + length p) = p \<and> (p \<noteq> [] \<longrightarrow> i + length p \<le> length t)"
proof -
  assume a: "drop i t = p @ r"
  then have "length t - i = length p + length r" by (metis length_append length_drop)
  moreover have "i + length p \<le> length t" if "p \<noteq> []"
  proof -
    have "0 < length p" using that by simp
    then show ?thesis using \<open>length t - i = length p + length r\<close> by linarith
  qed
  ultimately show ?thesis using a by (auto simp: slice_def)
qed

lemma scheme_Some: "scheme t = Some (s, r) \<Longrightarrow> t = s @ r \<and> s \<in> {units ''https://'', units ''http://''}"
  by (auto simp: scheme_def prefix_of_append split: if_splits)

lemma LABELED_LINK_Some:
  assumes "LABELED_LINK t = Some (u, l)"
  shows "\<exists>r. t = units ''<'' @ u @ units ''|'' @ l @ units ''>'' @ r"
proof -
  obtain s r where s: "scheme (drop 1 t) = Some (s, r)" and p: "prefix_of (units ''<'') t"
    using assms by (auto simp: LABELED_LINK_def split: if_splits option.splits)
  let ?u = "takeWhile label_url_char r" and ?r2 = "dropWhile label_url_char r"
  let ?l = "takeWhile label_char (drop 1 ?r2)" and ?r3 = "dropWhile label_char (drop 1 ?r2)"
  have e: "u = s @ ?u" "l = ?l" "prefix_of (units ''|'') ?r2" "prefix_of (units ''>'') ?r3"
    using assms s p by (auto simp: LABELED_LINK_def Let_def split: if_splits)
  obtain t' where t: "t = units ''<'' @ t'" using p prefix_of_append by blast
  then have "t' = s @ r" using scheme_Some[OF s] by simp
  moreover have "r = ?u @ ?r2" by simp
  moreover obtain r2' where "?r2 = units ''|'' @ r2'" using e(3) prefix_of_append by blast
  moreover from this have "r2' = ?l @ ?r3" by simp
  moreover obtain r3' where "?r3 = units ''>'' @ r3'" using e(4) prefix_of_append by blast
  ultimately have "t = units ''<'' @ u @ units ''|'' @ l @ units ''>'' @ r3'"
    using t e(1,2) by (metis append.assoc)
  then show ?thesis ..
qed

lemma id_token_Some:
  assumes "id_token p t = Some d"
  shows "\<exists>r. t = p @ d @ units ''>'' @ r"
proof -
  have "prefix_of p t" "d = take 26 (drop (length p) t)" "prefix_of (units ''>'') (drop 26 (drop (length p) t))"
    using assms by (auto simp: id_token_def Let_def split: if_splits)
  then show ?thesis by (metis append_take_drop_id prefix_of_append append_eq_conv_conj)
qed

lemma MENTION_Some: "MENTION t = Some (k, raw) \<Longrightarrow> raw \<noteq> [] \<and> (\<exists>r. t = raw @ r)"
  by (auto simp: MENTION_def prefix_of_append dest!: id_token_Some split: option.splits if_splits)

lemma stripped_prefix: "\<exists>r. t = rev (dropWhile Q (rev (takeWhile P t))) @ r"
proof -
  have "t = takeWhile P t @ dropWhile P t" by simp
  moreover have "takeWhile P t = rev (dropWhile Q (rev (takeWhile P t))) @ rev (takeWhile Q (rev (takeWhile P t)))"
    by (metis rev_append rev_rev_ident takeWhile_dropWhile_id)
  ultimately show ?thesis by (metis append_assoc)
qed

lemma bare_url_scheme: "bare_url u \<Longrightarrow> u \<noteq> [] \<and> scheme u \<noteq> None"
proof -
  assume b: "bare_url u"
  have "scheme [] = None" by (simp add: scheme_def)
  then show ?thesis using b by (auto simp: bare_url_def split: option.splits)
qed

text \<open>
  What an atom is made of: it covers at least one character, stays inside the text, and its raw
  form is the piece of the text it covers.
\<close>

lemma readAtom_raw:
  assumes "readAtom t i = Some (n, e)"
  shows "i < e \<and> e \<le> length t \<and> slice t i e = raw_inline n"
proof -
  obtain c where c: "charAt t i = Some c" using assms by (auto simp: readAtom_def split: option.splits)
  then have i: "i < length t" "t ! i = c" by (auto simp: charAt_def split: if_splits)
  have pre: ?thesis if "drop i t = raw_inline n @ r" "e = i + length (raw_inline n)" "raw_inline n \<noteq> []" for r
    using slice_prefix[OF that(1)] that(2,3) by auto
  consider (bt) "c = backtick" | (lt) "c = 60" | (h) "c = 104" | (no) "c \<notin> {96, 60, 104}" by auto
  then show ?thesis
  proof cases
    case bt
    then obtain e' where e': "indexOf t [backtick] (i + 1) = Some e'" "e' > i + 1"
        "n = Code (slice t (i + 1) e')" "e = e' + 1"
      using assms c by (auto simp: readAtom_def split: option.splits if_splits)
    have b: "e' + 1 \<le> length t" "prefix_of [backtick] (drop e' t)"
      using indexOf_Some[OF e'(1)] i e'(2) by auto
    then have "slice t e' (e' + 1) = [backtick]"
      by (auto simp: slice_def prefix_of_single)
    moreover have "slice t i (i + 1) = [backtick]" using i bt by (simp add: slice_Cons)
    moreover have "slice t i (i + 1) @ slice t (i + 1) e' = slice t i e'"
      using slice_split e'(2) by simp
    moreover have "slice t i e' @ slice t e' (e' + 1) = slice t i e"
      using slice_split e'(2,4) by simp
    ultimately have "slice t i e = [backtick] @ slice t (i + 1) e' @ [backtick]"
      by (metis append.assoc)
    then show ?thesis using e' b by simp
  next
    case lt
    consider (l) u l where "LABELED_LINK (drop i t) = Some (u, l)" "n = Link u (Some l)" "e = i + (length u + length l + 3)"
      | (ch) d where "CHANNEL (drop i t) = Some d" "n = ChannelN d (units ''<#'' @ d @ units ''>'')" "e = i + (length d + 3)"
      | (m) k raw where "MENTION (drop i t) = Some (k, raw)" "n = MentionN k raw" "e = i + length raw"
      using assms c lt by (auto simp: readAtom_def split: option.splits)
    then show ?thesis
    proof cases
      case l
      obtain r where "drop i t = units ''<'' @ u @ units ''|'' @ l @ units ''>'' @ r"
        using LABELED_LINK_Some[OF l(1)] by blast
      then show ?thesis using pre[of r] l by simp
    next
      case ch
      obtain r where "drop i t = units ''<#'' @ d @ units ''>'' @ r"
        using id_token_Some[of "units ''<#''" "drop i t" d] ch(1) by (auto simp: CHANNEL_def)
      then show ?thesis using pre[of r] ch by simp
    next
      case m
      obtain r where "drop i t = raw @ r" "raw \<noteq> []"
        using MENTION_Some[OF m(1)] by blast
      then show ?thesis using pre[of r] m by simp
    qed
  next
    case h
    let ?run = "takeWhile (\<lambda>c. URL_CHAR c \<and> c \<notin> URL_EXCLUDED) (drop i t)"
    let ?u = "rev (dropWhile URL_TRAILING (rev ?run))"
    have u: "bare_url ?u" "n = Link ?u None" "e = i + length ?u"
      using assms c h by (auto simp: readAtom_def Let_def split: if_splits)
    obtain r where d: "drop i t = ?u @ r" using stripped_prefix by blast
    have n: "raw_inline n = ?u" unfolding u(2) raw_inline.simps ..
    show ?thesis
    proof (rule pre)
      show "drop i t = raw_inline n @ r" unfolding n by (rule d)
      show "e = i + length (raw_inline n)" unfolding n by (rule u(3))
      show "raw_inline n \<noteq> []" unfolding n using bare_url_scheme[OF u(1)] by blast
    qed
  next
    case no
    then show ?thesis using assms c by (auto simp: readAtom_def)
  qed
qed

lemmas readAtom_progress = readAtom_raw[THEN conjunct1]
lemmas readAtom_bound = readAtom_raw[THEN conjunct2, THEN conjunct1]

function closer_from :: "utext \<Rightarrow> utext \<Rightarrow> nat \<Rightarrow> nat option" where
  \<comment> \<open>the \<open>while\<close> loop of \<open>findCloser\<close> from position \<open>j\<close>\<close>
  "closer_from t marker j =
     (if j < length t then
        if t ! j = newline then None else
        (case readAtom t j of
           Some (_, e) \<Rightarrow> closer_from t marker e
         | None \<Rightarrow>
            if marker = units ''_'' \<and> startsAt t UNDERLINE j then closer_from t marker (j + length UNDERLINE)
            else if startsAt t marker j
                 \<and> \<not> (case charBefore t j of None \<Rightarrow> False | Some c \<Rightarrow> is_space c)
                 \<and> \<not> isWordChar (charAt t (j + length marker))
                 \<and> charAt t (j + length marker) \<noteq> Some (hd marker) then Some j
            else closer_from t marker (j + 1))
      else None)"
  by pat_completeness auto
termination
  by (relation "measure (\<lambda>(t, m, j). length t - j)") (auto simp: UNDERLINE_def dest: readAtom_progress)

declare closer_from.simps [simp del]

definition findCloser :: "utext \<Rightarrow> nat \<Rightarrow> utext \<Rightarrow> nat option" where
  "findCloser t i marker =
     (case charAt t (i + length marker) of
        None \<Rightarrow> None
      | Some next_char \<Rightarrow>
          if isWordChar (charBefore t i) \<or> is_space next_char \<or> next_char = hd marker then None
          else closer_from t marker (i + length marker))"

lemma closer_from_bound:
  "closer_from t m j = Some k \<Longrightarrow> j \<le> k \<and> k < length t \<and> startsAt t m k"
proof (induction t m j rule: closer_from.induct)
  case (1 t m j)
  from 1(4) have j: "j < length t" "t ! j \<noteq> newline" by (auto simp: closer_from.simps[of t m j] split: if_splits)
  show ?case
  proof (cases "readAtom t j")
    case (Some p)
    then show ?thesis using 1(3)[OF j Some] 1(4) j readAtom_progress[of t j "fst p" "snd p"]
      by (cases p) (auto simp: closer_from.simps[of t m j])
  next
    case None
    show ?thesis
    proof (cases "m = units ''_'' \<and> startsAt t UNDERLINE j")
      case True
      then have "closer_from t m j = closer_from t m (j + length UNDERLINE)"
        using j None by (subst closer_from.simps) simp
      then show ?thesis using 1(1)[OF j None True] 1(4) by auto
    next
      case False
      show ?thesis using 1(2)[OF j None False] 1(4) j None False
        by (auto simp: closer_from.simps[of t m j] split: if_splits)
    qed
  qed
qed

lemma findCloser_bound:
  "findCloser t i m = Some k \<Longrightarrow> i + length m \<le> k \<and> k < length t \<and> startsAt t m k"
  by (auto simp: findCloser_def dest: closer_from_bound split: option.splits if_splits)

definition flush :: "utext \<Rightarrow> inline list" where
  "flush plain = (if plain = [] then [] else [Text plain])"

definition markerAt :: "utext \<Rightarrow> nat \<Rightarrow> utext" where
  "markerAt t i = (if startsAt t UNDERLINE i then UNDERLINE else [t ! i])"

definition kindOf :: "utext \<Rightarrow> emphasis option" where
  "kindOf marker = (if marker = UNDERLINE then Some Underline else EMPHASIS marker)"

function inline_loop :: "utext \<Rightarrow> nat \<Rightarrow> utext \<Rightarrow> inline list" where
  \<comment> \<open>the \<open>while\<close> loop of \<open>parseInline\<close>: what it pushes from position \<open>i\<close> on\<close>
  "inline_loop t i plain =
     (if i < length t then
        (case readAtom t i of
           Some (n, e) \<Rightarrow> flush plain @ n # inline_loop t e []
         | None \<Rightarrow>
            let marker = markerAt t i; kind = kindOf marker in
            (case (kind, findCloser t i marker) of
               (Some k, Some close) \<Rightarrow>
                 flush plain @ Emph k (inline_loop (slice t (i + length marker) close) 0 [])
                   # inline_loop t (close + length marker) []
             | _ \<Rightarrow> inline_loop t (i + 1) (plain @ [t ! i])))
      else flush plain)"
  by pat_completeness auto
termination
  apply (relation "measure (\<lambda>(t, i, p). length t - i)")
  apply (auto dest: readAtom_progress dest!: findCloser_bound[OF sym] simp: slice_def markerAt_def UNDERLINE_def
      split: if_splits)
  done

declare inline_loop.simps [simp del]

definition parseInline :: "utext \<Rightarrow> inline list" where
  "parseInline t = inline_loop t 0 []"


section \<open>The parser loses no character\<close>

definition raw_inlines :: "inline list \<Rightarrow> utext" where
  "raw_inlines ns = concat (map raw_inline ns)"

lemma raw_inlines_simps [simp]:
  "raw_inlines [] = []"
  "raw_inlines (n # ns) = raw_inline n @ raw_inlines ns"
  "raw_inlines (ms @ ns) = raw_inlines ms @ raw_inlines ns"
  by (simp_all add: raw_inlines_def)

lemma raw_flush [simp]: "raw_inlines (flush p) = p"
  by (simp add: flush_def)

lemma startsAt_bound: "startsAt t p i \<Longrightarrow> p \<noteq> [] \<Longrightarrow> i + length p \<le> length t"
  by (auto simp: startsAt_def prefix_of_append dest: slice_prefix)

lemma startsAt_slice: "startsAt t p i \<Longrightarrow> i + length p \<le> length t \<Longrightarrow> slice t i (i + length p) = p"
  by (auto simp: startsAt_def prefix_of_append slice_def)

lemma markerAt_slice: "i < length t \<Longrightarrow> slice t i (i + length (markerAt t i)) = markerAt t i"
  by (auto simp: markerAt_def startsAt_def prefix_of_append slice_def take_Suc_conv_app_nth hd_drop_conv_nth take_Suc)

definition marker_of :: "emphasis \<Rightarrow> utext" where
  "marker_of k = (case k of Bold \<Rightarrow> units ''*'' | Italic \<Rightarrow> units ''_'' | Underline \<Rightarrow> UNDERLINE | Strike \<Rightarrow> units ''~'')"

lemma raw_Emph [simp]: "raw_inline (Emph k cs) = marker_of k @ raw_inlines cs @ marker_of k"
  by (simp add: marker_of_def raw_inlines_def Let_def)

declare raw_inline.simps(2) [simp del]

lemma kindOf_marker: "kindOf m = Some k \<Longrightarrow> marker_of k = m"
  by (auto simp: kindOf_def EMPHASIS_def marker_of_def split: if_splits)

text \<open>One turn of the loop, as the three cases of the source.\<close>

lemma inline_loop_cases:
  assumes "i < length t"
  obtains (atom) n e where "readAtom t i = Some (n, e)"
      "\<And>plain. inline_loop t i plain = flush plain @ n # inline_loop t e []"
    | (emph) k c where "readAtom t i = None" "kindOf (markerAt t i) = Some k"
      "findCloser t i (markerAt t i) = Some c"
      "\<And>plain. inline_loop t i plain = flush plain @
         Emph k (inline_loop (slice t (i + length (markerAt t i)) c) 0 []) # inline_loop t (c + length (markerAt t i)) []"
    | (plain) "readAtom t i = None" "kindOf (markerAt t i) = None \<or> findCloser t i (markerAt t i) = None"
      "\<And>plain. inline_loop t i plain = inline_loop t (i + 1) (plain @ [t ! i])"
proof (cases "readAtom t i")
  case (Some p)
  then show ?thesis using atom[of "fst p" "snd p"] assms
    by (auto simp: inline_loop.simps[of t i] split: prod.splits)
next
  case None
  show ?thesis
  proof (cases "\<exists>k c. kindOf (markerAt t i) = Some k \<and> findCloser t i (markerAt t i) = Some c")
    case True
    then obtain k c where "kindOf (markerAt t i) = Some k" "findCloser t i (markerAt t i) = Some c" by blast
    then show ?thesis using emph None assms by (simp add: inline_loop.simps[of t i] Let_def)
  next
    case False
    then have "kindOf (markerAt t i) = None \<or> findCloser t i (markerAt t i) = None" by auto
    then show ?thesis using plain None assms
      by (auto simp: inline_loop.simps[of t i] Let_def split: option.splits)
  qed
qed

lemma inline_loop_end [simp]: "\<not> i < length t \<Longrightarrow> inline_loop t i p = flush p"
  by (simp add: inline_loop.simps[of t i])

lemma inline_loop_raw: "i \<le> length t \<Longrightarrow> raw_inlines (inline_loop t i p) = p @ drop i t"
proof (induction "length t - i" arbitrary: t i p rule: less_induct)
  case less
  show ?case
  proof (cases "i < length t")
    case False
    then show ?thesis using less.prems by simp
  next
    case True
    then show ?thesis
    proof (cases rule: inline_loop_cases)
      case (atom n e)
      have a: "i < e" "e \<le> length t" "slice t i e = raw_inline n" using readAtom_raw[OF atom(1)] by auto
      then show ?thesis using atom(2) less.hyps[of t e "[]"] drop_slice[of i e t] True by simp
    next
      case (emph k c)
      let ?m = "markerAt t i" let ?s = "slice t (i + length ?m) c"
      have b: "i + length ?m \<le> c" "c < length t" "startsAt t ?m c"
        using findCloser_bound[OF emph(3)] by auto
      have m: "?m \<noteq> []" by (simp add: markerAt_def UNDERLINE_def)
      then have m0: "0 < length ?m" by simp
      have ce: "c + length ?m \<le> length t" using startsAt_bound[OF b(3) m] .
      have "raw_inlines (inline_loop ?s 0 []) = ?s"
        using less.hyps[of ?s 0 "[]"] b m0 by (auto simp: slice_length)
      moreover have "length t - (c + length ?m) < length t - i" using b(1) m0 True by linarith
      then have "raw_inlines (inline_loop t (c + length ?m) []) = drop (c + length ?m) t"
        using less.hyps[of t "c + length ?m" "[]"] ce by simp
      moreover have "drop i t = ?m @ ?s @ ?m @ drop (c + length ?m) t"
        using drop_slice[of i "i + length ?m" t] drop_slice[of "i + length ?m" c t] drop_slice[of c "c + length ?m" t]
          markerAt_slice[OF True] startsAt_slice[OF b(3) ce] b(1) by simp
      ultimately show ?thesis using emph(4) kindOf_marker[OF emph(2)] by simp
    next
      case plain
      then show ?thesis using less.hyps[of t "i + 1" "p @ [t ! i]"] True
        by (simp add: Cons_nth_drop_Suc)
    qed
  qed
qed

text \<open>C28: reading a line as inlines loses nothing: putting back the markers of every node gives the
  text, character for character, whatever the text is.\<close>

theorem parseInline_lossless: "concat (map raw_inline (parseInline t)) = t"
  using inline_loop_raw[of 0 t "[]"] by (simp add: parseInline_def raw_inlines_def)


section \<open>What the nodes hold\<close>

fun inline_ok :: "inline \<Rightarrow> bool" where
  \<comment> \<open>the shape the drawing side relies on\<close>
  "inline_ok (Text t) = (t \<noteq> [])"
| "inline_ok (Emph k cs) = (cs \<noteq> [] \<and> list_all inline_ok cs \<and> newline \<notin> set (raw_inlines cs))"
| "inline_ok (Code t) = (t \<noteq> [] \<and> backtick \<notin> set t \<and> newline \<notin> set t)"
| "inline_ok (Link u l) = (scheme u \<noteq> None \<and> list_all (\<lambda>c. \<not> is_space c \<and> c \<notin> set (units ''<>`'')) u)"
| "inline_ok (MentionN k raw) = (case k of MUser d \<Rightarrow> length d = 26 \<and> list_all is_alnum d | _ \<Rightarrow> True)"
| "inline_ok (ChannelN d raw) = (length d = 26 \<and> list_all is_alnum d)"

fun no_adjacent_texts :: "inline list \<Rightarrow> bool" where
  "no_adjacent_texts (Text a # Text b # ns) = False"
| "no_adjacent_texts (n # ns) = no_adjacent_texts ns"
| "no_adjacent_texts [] = True"

definition is_code :: "inline \<Rightarrow> bool" where
  "is_code n = (case n of Code _ \<Rightarrow> True | _ \<Rightarrow> False)"

lemma id_token_chars: "id_token p t = Some d \<Longrightarrow> length d = 26 \<and> list_all is_alnum d"
  by (auto simp: id_token_def Let_def split: if_splits)

lemma alnum_no: "list_all is_alnum d \<Longrightarrow> newline \<notin> set d \<and> backtick \<notin> set d"
  by (auto simp: list_all_iff is_alnum_def is_digit_def)

lemma scheme_chars:
  "s \<in> {units ''https://'', units ''http://''} \<Longrightarrow>
    scheme (s @ r) \<noteq> None \<and> list_all (\<lambda>c. \<not> is_space c \<and> c \<notin> set (units ''<>`'')) s"
  by (elim insertE emptyE; hypsubst; simp add: scheme_def is_space_def)

lemma LABELED_LINK_chars:
  assumes "LABELED_LINK t = Some (u, l)"
  shows "scheme u \<noteq> None \<and> list_all (\<lambda>c. \<not> is_space c \<and> c \<notin> set (units ''<>`'')) u \<and> list_all label_char l"
proof -
  obtain s r where s: "scheme (drop 1 t) = Some (s, r)"
    using assms by (auto simp: LABELED_LINK_def split: if_splits option.splits)
  then have e: "u = s @ takeWhile label_url_char r" "l = takeWhile label_char (drop 1 (dropWhile label_url_char r))"
    using assms by (auto simp: LABELED_LINK_def Let_def split: if_splits)
  let ?P = "\<lambda>c. \<not> is_space c \<and> c \<notin> set (units ''<>`'')"
  have "s \<in> {units ''https://'', units ''http://''}" using scheme_Some[OF s] by simp
  then have "list_all ?P s" "scheme u \<noteq> None"
    using e(1) scheme_chars[of s "takeWhile label_url_char r"] by auto
  moreover have "list_all ?P (takeWhile label_url_char r)"
    by (auto simp: list_all_iff label_url_char_def dest!: set_takeWhileD)
  moreover have "list_all label_char l" unfolding e(2) list_all_iff by (meson set_takeWhileD)
  ultimately show ?thesis using e(1) by simp
qed

lemma trailing_set: "set (rev (dropWhile P (rev xs))) \<subseteq> set xs"
  by (metis set_dropWhileD set_rev subsetI)

lemma MENTION_chars:
  assumes "MENTION t = Some (k, raw)"
  shows "inline_ok (MentionN k raw) \<and> newline \<notin> set raw \<and> backtick \<notin> set raw"
proof (cases "id_token (units ''<@'') t")
  case None
  then show ?thesis using assms by (auto simp: MENTION_def split: if_splits)
next
  case (Some d)
  then have "length d = 26" "list_all is_alnum d" using id_token_chars by auto
  moreover have "k = MUser d" "raw = units ''<@'' @ d @ units ''>''"
    using assms Some by (auto simp: MENTION_def)
  ultimately show ?thesis using alnum_no[of d] by simp
qed

lemma URL_CHAR_chars:
  "URL_CHAR c \<Longrightarrow> c \<notin> URL_EXCLUDED \<Longrightarrow>
    \<not> is_space c \<and> c \<notin> set (units ''<>`'') \<and> c \<noteq> newline \<and> c \<noteq> backtick"
  by (auto simp: URL_CHAR_def URL_EXCLUDED_def is_space_def)

lemma readAtom_ok:
  assumes "readAtom t i = Some (n, e)"
  shows "inline_ok n \<and> newline \<notin> set (raw_inline n) \<and> (\<not> is_code n \<longrightarrow> backtick \<notin> set (raw_inline n))
    \<and> (\<forall>x. n \<noteq> Text x)"
proof -
  obtain c where c: "charAt t i = Some c" using assms by (auto simp: readAtom_def split: option.splits)
  consider (bt) "c = backtick" | (lt) "c = 60" | (h) "c = 104" | (no) "c \<notin> {96, 60, 104}" by auto
  then show ?thesis
  proof cases
    case bt
    then obtain e' where e': "indexOf t [backtick] (i + 1) = Some e'" "e' > i + 1"
        "n = Code (slice t (i + 1) e')" "(case indexOf t [newline] (i + 1) of None \<Rightarrow> True | Some k \<Rightarrow> e' < k)"
      using assms c by (auto simp: readAtom_def split: option.splits if_splits)
    have l: "e' < length t" using indexOf_Some[OF e'(1)] by auto
    have ne: "slice t (i + 1) e' \<noteq> []" using e'(2) l by (auto simp: slice_def)
    have "backtick \<notin> set (slice t (i + 1) e')" using indexOf_none_in_slice[OF e'(1)] by simp
    moreover have "newline \<notin> set (slice t (i + 1) e')" using indexOf_bound_slice[OF e'(4)] .
    ultimately show ?thesis using e' ne by (simp add: is_code_def)
  next
    case lt
    consider (l) u l' where "LABELED_LINK (drop i t) = Some (u, l')" "n = Link u (Some l')"
      | (ch) d where "CHANNEL (drop i t) = Some d" "n = ChannelN d (units ''<#'' @ d @ units ''>'')"
      | (m) k raw where "MENTION (drop i t) = Some (k, raw)" "n = MentionN k raw"
      using assms c lt by (auto simp: readAtom_def split: option.splits)
    then show ?thesis
    proof cases
      case l
      have "is_space newline" by (simp add: is_space_def)
      then have "newline \<notin> set u" "backtick \<notin> set u" "newline \<notin> set l'" "backtick \<notin> set l'"
        using LABELED_LINK_chars[OF l(1)] by (auto simp: list_all_iff label_char_def)
      then show ?thesis using l(2) LABELED_LINK_chars[OF l(1)] by (auto simp: is_code_def)
    next
      case ch
      then have "length d = 26" "list_all is_alnum d" using id_token_chars by (auto simp: CHANNEL_def)
      then show ?thesis using ch(2) alnum_no[of d] by (simp add: is_code_def)
    next
      case m
      show ?thesis using MENTION_chars[OF m(1)] m(2) by (simp add: is_code_def)
    qed
  next
    case h
    let ?run = "takeWhile (\<lambda>c. URL_CHAR c \<and> c \<notin> URL_EXCLUDED) (drop i t)"
    let ?u = "rev (dropWhile URL_TRAILING (rev ?run))"
    have u: "bare_url ?u" "n = Link ?u None"
      using assms c h by (auto simp: readAtom_def Let_def split: if_splits)
    have "set ?u \<subseteq> {c. URL_CHAR c \<and> c \<notin> URL_EXCLUDED}"
      using trailing_set[of URL_TRAILING ?run] set_takeWhileD[of _ _ "drop i t"] by blast
    then have s: "\<forall>c\<in>set ?u. URL_CHAR c \<and> c \<notin> URL_EXCLUDED" by blast
    have c: "list_all (\<lambda>c. \<not> is_space c \<and> c \<notin> set (units ''<>`'')) ?u" "newline \<notin> set ?u" "backtick \<notin> set ?u"
      using s URL_CHAR_chars unfolding list_all_iff by blast+
    show ?thesis unfolding u(2) raw_inline.simps inline_ok.simps
      using c bare_url_scheme[OF u(1)] by blast
  next
    case no
    then show ?thesis using assms c by (auto simp: readAtom_def)
  qed
qed


text \<open>
  What \<open>findCloser\<close> passes over on its way to the closing marker: whole atoms and single characters
  that are no newline.
\<close>

inductive passes :: "utext \<Rightarrow> nat \<Rightarrow> nat \<Rightarrow> bool" for t where
  passes_end: "passes t k k"
| passes_atom: "readAtom t j = Some (n, e) \<Longrightarrow> passes t e k \<Longrightarrow> passes t j k"
| passes_char: "readAtom t j = None \<Longrightarrow> j < length t \<Longrightarrow> t ! j \<noteq> newline \<Longrightarrow> passes t (j + 1) k \<Longrightarrow> passes t j k"

lemma passes_le: "passes t j k \<Longrightarrow> j \<le> k"
  by (induction rule: passes.induct) (auto dest: readAtom_progress)

lemma underline_chars:
  assumes "startsAt t UNDERLINE j"
  shows "j + 1 < length t" "t ! j = 95" "t ! (j + 1) = 95"
proof -
  obtain r where r: "drop j t = 95 # 95 # r" using assms by (auto simp: startsAt_def UNDERLINE_def prefix_of_append)
  then have "length t - j = length r + 2" by (metis length_Cons length_drop add_2_eq_Suc')
  then show l: "j + 1 < length t" by linarith
  show "t ! j = 95" "t ! (j + 1) = 95"
    using r l nth_drop[of j t 0] nth_drop[of j t 1] by auto
qed

lemma readAtom_underscore: "t ! j = 95 \<Longrightarrow> readAtom t j = None"
  by (auto simp: readAtom_def charAt_def)

lemma closer_from_passes: "closer_from t m j = Some k \<Longrightarrow> passes t j k"
proof (induction t m j rule: closer_from.induct)
  case (1 t m j)
  from 1(4) have j: "j < length t" "t ! j \<noteq> newline" by (auto simp: closer_from.simps[of t m j] split: if_splits)
  show ?case
  proof (cases "readAtom t j")
    case (Some p)
    then show ?thesis using 1(3)[OF j Some] 1(4) j passes_atom[of t j "fst p" "snd p"]
      by (cases p) (auto simp: closer_from.simps[of t m j])
  next
    case None
    show ?thesis
    proof (cases "m = units ''_'' \<and> startsAt t UNDERLINE j")
      case True
      then have "closer_from t m j = closer_from t m (j + length UNDERLINE)"
        using j None by (subst closer_from.simps) simp
      then have "passes t (j + 1 + 1) k" using 1(1)[OF j None True] 1(4) by (simp add: UNDERLINE_def)
      then have "passes t (j + 1) k"
        using underline_chars[of t j] True readAtom_underscore[of t "j + 1"] passes_char[of t "j + 1" k] by auto
      then show ?thesis using passes_char[of t j k] None j by simp
    next
      case False
      show ?thesis using 1(2)[OF j None False] 1(4) j None False passes_char[of t j k]
        by (auto simp: closer_from.simps[of t m j] intro: passes_end split: if_splits)
    qed
  qed
qed

lemma passes_no_newline: "passes t j k \<Longrightarrow> newline \<notin> set (slice t j k)"
proof (induction rule: passes.induct)
  case (passes_atom j n e k)
  then have "slice t j k = raw_inline n @ slice t e k"
    using readAtom_raw[OF passes_atom(1)] passes_le slice_split[of j e k t] by (metis less_imp_le)
  then show ?case using passes_atom readAtom_ok[OF passes_atom(1)] by simp
next
  case (passes_char j k)
  then show ?case using passes_le[OF passes_char(4)] by (auto simp: slice_Cons)
qed simp

lemma findCloser_inside:
  assumes "findCloser t i m = Some k"
  shows "newline \<notin> set (slice t (i + length m) k)" "passes t (i + length m) k" "m \<noteq> [] \<Longrightarrow> i + length m < k"
proof -
  have c: "closer_from t m (i + length m) = Some k" and
    n: "i + length m < length t" "t ! (i + length m) \<noteq> hd m"
    using assms by (auto simp: findCloser_def charAt_def split: option.splits if_splits)
  show p: "passes t (i + length m) k" by (rule closer_from_passes[OF c])
  show "newline \<notin> set (slice t (i + length m) k)" by (rule passes_no_newline[OF p])
  assume "m \<noteq> []"
  then obtain x xs where m: "m = x # xs" by (cases m) auto
  have "startsAt t m k" "i + length m \<le> k" using closer_from_bound[OF c] by auto
  moreover have "k \<noteq> i + length m"
  proof
    assume "k = i + length m"
    then have "prefix_of (x # xs) (drop (i + length m) t)" using \<open>startsAt t m k\<close> m by (simp add: startsAt_def)
    then have "t ! (i + length m) = x" using n(1) by (auto simp: Cons_nth_drop_Suc[symmetric])
    then show False using n(2) m by simp
  qed
  ultimately show "i + length m < k" by simp
qed

definition starts_with_text :: "inline list \<Rightarrow> bool" where
  "starts_with_text ns = (case ns of Text _ # _ \<Rightarrow> True | _ \<Rightarrow> False)"

lemma adjacent_Cons:
  "(\<forall>x. n \<noteq> Text x) \<Longrightarrow> no_adjacent_texts (flush p @ n # ns) = no_adjacent_texts ns"
  by (cases n) (auto simp: flush_def)

lemma inline_loop_shape:
  "i \<le> length t \<Longrightarrow> list_all inline_ok (inline_loop t i p) \<and> no_adjacent_texts (inline_loop t i p)"
proof (induction "length t - i" arbitrary: t i p rule: less_induct)
  case less
  show ?case
  proof (cases "i < length t")
    case False
    then show ?thesis by (simp add: flush_def)
  next
    case True
    then show ?thesis
    proof (cases rule: inline_loop_cases)
      case (atom n e)
      have a: "i < e" "e \<le> length t" using readAtom_raw[OF atom(1)] by auto
      then show ?thesis
        using less.hyps[of t e "[]"] readAtom_ok[OF atom(1)] True adjacent_Cons[of n p "inline_loop t e []"]
        by (simp add: atom(2) flush_def)
    next
      case (emph k c)
      let ?m = "markerAt t i" let ?s = "slice t (i + length ?m) c"
      have b: "i + length ?m < c" "c < length t" "newline \<notin> set ?s" and m: "?m \<noteq> []" and ce: "c + length ?m \<le> length t"
        using findCloser_inside[OF emph(3)] findCloser_bound[OF emph(3)] startsAt_bound[of t ?m c]
        by (auto simp: markerAt_def UNDERLINE_def)
      have "list_all inline_ok (inline_loop ?s 0 [])"
        using less.hyps[of ?s 0 "[]"] b by (auto simp: slice_length)
      moreover have r: "raw_inlines (inline_loop ?s 0 []) = ?s" using inline_loop_raw[of 0 ?s "[]"] by simp
      moreover have "?s \<noteq> []" using b slice_length[of c t "i + length ?m"] by fastforce
      then have "inline_loop ?s 0 [] \<noteq> []" using r by auto
      moreover have "length t - (c + length ?m) < length t - i" using b(1) True by linarith
      then have "list_all inline_ok (inline_loop t (c + length ?m) []) \<and> no_adjacent_texts (inline_loop t (c + length ?m) [])"
        using less.hyps ce by simp
      ultimately show ?thesis using b(3) adjacent_Cons by (simp add: emph(4) flush_def)
    next
      case plain
      then show ?thesis using less.hyps[of t "i + 1" "p @ [t ! i]"] True by simp
    qed
  qed
qed

text \<open>C27: the shape of every parsed line: no text node is empty and no two are side by side, an
  emphasis node has at least one child and stays on its line, a code node is neither empty nor
  holds a backtick or a newline, an id has 26 alphanumeric characters, and every link, labelled or
  not, has an \<open>http://\<close> or \<open>https://\<close> address without white space, angle brackets or backticks.\<close>

theorem parseInline_shape:
  "list_all inline_ok (parseInline t) \<and> no_adjacent_texts (parseInline t)"
  using inline_loop_shape[of 0 t "[]"] by (simp add: parseInline_def)

end
