(* ===== verification/BodyFormat.thy ===== *)
theory BodyFormat
  imports InlineFormat
begin

text \<open>
  \<open>web/lib/chat/format/body-format.ts\<close>, the block half: the body cut at its code fences, the lines
  between them read as quotes, lists and paragraphs, and the two functions that read the body
  without building the tree, \<open>codeRanges\<close> and \<open>findUrls\<close>. The lemmas show that the tree of a list
  keeps every line, in order, at its depth, and that the code \<open>codeRanges\<close> sees is the code
  \<open>parseBody\<close> sees.
\<close>

section \<open>The trees\<close>

datatype list_item = ListItem (item_number: "int option") (item_children: "inline list") (sublists: "list_block list")
and list_block = ListBlock (ordered: bool) (items: "list_item list")

datatype block =
    Paragraph "inline list"
  | CodeBlock utext
  | Quote "block list"
  | ListB list_block

section \<open>Code fences\<close>

definition FENCE :: utext where
  "FENCE = [backtick, backtick, backtick]"

definition MAX_LIST_DEPTH :: nat where
  "MAX_LIST_DEPTH = 3"

datatype segment = TextSeg utext | CodeSeg utext

definition strip_lead :: "utext \<Rightarrow> utext" where
  \<comment> \<open>\<open>.replace(/^\n/, "")\<close>\<close>
  "strip_lead t = (case t of [] \<Rightarrow> [] | c # cs \<Rightarrow> if c = newline then cs else t)"

definition strip_trail :: "utext \<Rightarrow> utext" where
  \<comment> \<open>\<open>.replace(/\n$/, "")\<close>\<close>
  "strip_trail t = (if t \<noteq> [] \<and> last t = newline then butlast t else t)"

lemma strip_lead_le: "length (strip_lead t) \<le> length t"
  by (auto simp: strip_lead_def split: list.splits)

definition find_fence :: "utext \<Rightarrow> nat \<Rightarrow> (nat \<times> nat) option" where
  \<comment> \<open>\<open>open\<close> and \<open>close\<close> of the loops of \<open>splitFences\<close> and \<open>codeRanges\<close>, from position \<open>p\<close>\<close>
  "find_fence t p =
     (case indexOf t FENCE p of None \<Rightarrow> None
      | Some op \<Rightarrow> (case indexOf t FENCE (op + length FENCE) of None \<Rightarrow> None | Some cl \<Rightarrow> Some (op, cl)))"

lemma find_fence_Some:
  "find_fence t p = Some (a, b) \<Longrightarrow> p \<le> a \<and> a + 3 \<le> b \<and> b + 3 \<le> length t"
  using indexOf_Some[of t FENCE p a] indexOf_Some[of t FENCE "a + 3" b]
  by (auto simp: find_fence_def FENCE_def numeral_3_eq_3 split: option.splits)

function split_loop :: "utext \<Rightarrow> segment list \<Rightarrow> segment list" where
  \<comment> \<open>the loop of \<open>splitFences\<close> over \<open>rest\<close> and \<open>out\<close>\<close>
  "split_loop rest out =
     (case find_fence rest 0 of
        None \<Rightarrow> if rest \<noteq> [] \<or> out = [] then out @ [TextSeg rest] else out
      | Some (op, cl) \<Rightarrow>
         let before = strip_trail (slice rest 0 op);
             code = strip_trail (strip_lead (slice rest (op + length FENCE) cl))
         in split_loop (strip_lead (drop (cl + length FENCE) rest))
              (out @ (if before \<noteq> [] then [TextSeg before] else []) @ [CodeSeg code]))"
  by pat_completeness auto
termination
proof (relation "measure (length \<circ> fst)", goal_cases)
  case (2 rest out p a b x y)
  then have "b + 3 \<le> length rest" using find_fence_Some[of rest 0 a b] by simp
  moreover have "length (strip_lead (drop (b + length FENCE) rest)) \<le> length rest - (b + 3)"
    using strip_lead_le[of "drop (b + length FENCE) rest"] by (simp add: FENCE_def)
  ultimately show ?case by simp
qed simp

declare split_loop.simps [simp del]

definition splitFences :: "utext \<Rightarrow> segment list" where
  "splitFences body = split_loop body []"

section \<open>Lines\<close>

definition no_line_end :: "utext \<Rightarrow> bool" where
  \<comment> \<open>\<open>(.*)$\<close> matches the whole text\<close>
  "no_line_end t = list_all (\<lambda>c. \<not> is_line_end c) t"

definition QUOTE_LINE :: "utext \<Rightarrow> utext option" where
  \<comment> \<open>\<open>/^>(?: |$)(.*)$/\<close>: the text after the mark\<close>
  "QUOTE_LINE l =
     (if l = units ''>'' then Some []
      else if prefix_of (units ''> '') l \<and> no_line_end (drop 2 l) then Some (drop 2 l) else None)"

record list_line =
  \<comment> \<open>the groups of a match of \<open>LIST_LINE\<close>\<close>
  indent :: nat
  marked_number :: "int option"
  item_text :: utext

definition digits_value :: "utext \<Rightarrow> int" where
  \<comment> \<open>\<open>Number(digits)\<close>\<close>
  "digits_value ds = foldl (\<lambda>n d. 10 * n + (d - 48)) 0 ds"

definition LIST_LINE :: "utext \<Rightarrow> list_line option" where
  \<comment> \<open>\<open>/^( *)(?:([-*\<bullet>])|(\d{1,9})\.) (.*)$/\<close>\<close>
  "LIST_LINE l =
     (let sp = takeWhile (\<lambda>c. c = 32) l; r = dropWhile (\<lambda>c. c = 32) l in
      case r of [] \<Rightarrow> None
      | m # r1 \<Rightarrow>
        if m \<in> set (units ''-*'' @ [0x2022])
        then (if prefix_of (units '' '') r1 \<and> no_line_end (drop 1 r1)
              then Some \<lparr>indent = length sp, marked_number = None, item_text = drop 1 r1\<rparr> else None)
        else (let ds = takeWhile is_digit r; r2 = dropWhile is_digit r in
              if 1 \<le> length ds \<and> length ds \<le> 9 \<and> prefix_of (units ''. '') r2 \<and> no_line_end (drop 2 r2)
              then Some \<lparr>indent = length sp, marked_number = Some (digits_value ds), item_text = drop 2 r2\<rparr>
              else None))"

text \<open>
  \<open>buildLists\<close> keeps in \<open>stack\<close> references to the open list of each depth. The list at depth \<open>d\<close>
  is always the last list of the last item of the one at depth \<open>d - 1\<close> (a list is pushed there
  when it is put on the stack, and the stack is cut when a shallower item follows), so the model
  keeps the tree and the length of the stack, and an addition goes down the last items. The two
  equations for a missing parent are never reached (\<open>spine\<close> below).
\<close>

fun push_item :: "nat \<Rightarrow> bool \<Rightarrow> bool \<Rightarrow> list_item \<Rightarrow> list_block list \<Rightarrow> list_block list" where
  \<comment> \<open>\<open>open\<close> tells whether the stack holds a list at this depth\<close>
  "push_item 0 opn ord it ls =
     (if opn \<and> ls \<noteq> [] \<and> ordered (last ls) = ord
      then butlast ls @ [ListBlock ord (items (last ls) @ [it])]
      else ls @ [ListBlock ord [it]])"
| "push_item (Suc d) opn ord it ls =
     (if ls = [] \<or> items (last ls) = [] then ls
      else let l = last ls; p = last (items l) in
        butlast ls @ [ListBlock (ordered l) (butlast (items l)
          @ [ListItem (item_number p) (item_children p) (push_item d opn ord it (sublists p))])])"

definition line_depth :: "nat \<Rightarrow> list_line \<Rightarrow> nat" where
  "line_depth stack_length ll = min (indent ll div 2) (min stack_length (MAX_LIST_DEPTH - 1))"

definition line_item :: "list_line \<Rightarrow> list_item" where
  "line_item ll = ListItem (marked_number ll) (parseInline (item_text ll)) []"

definition addLine :: "list_block list \<times> nat \<Rightarrow> list_line \<Rightarrow> list_block list \<times> nat" where
  \<comment> \<open>one turn of the loop: the tree and the length of the stack\<close>
  "addLine st ll =
     (let depth = line_depth (snd st) ll in
      (push_item depth (depth < snd st) (marked_number ll \<noteq> None) (line_item ll) (fst st), depth + 1))"

definition buildLists :: "list_line list \<Rightarrow> list_block list" where
  "buildLists ls = fst (foldl addLine ([], 0) ls)"

lemma QUOTE_LINE_shorter: "QUOTE_LINE l = Some q \<Longrightarrow> length q < length l"
  by (auto simp: QUOTE_LINE_def prefix_of_append split: if_splits)

definition isQuote :: "utext \<Rightarrow> bool" where
  "isQuote l = (QUOTE_LINE l \<noteq> None)"

definition isList :: "utext \<Rightarrow> bool" where
  "isList l = (LIST_LINE l \<noteq> None)"

lemma quoted_size:
  "(\<Sum>q\<leftarrow>map (the \<circ> QUOTE_LINE) (takeWhile isQuote ls). Suc (length q)) + length (takeWhile isQuote ls)
     \<le> (\<Sum>l\<leftarrow>ls. Suc (length l))"
proof (induction ls)
  case (Cons l ls)
  then show ?case by (cases "QUOTE_LINE l") (auto simp: isQuote_def dest!: QUOTE_LINE_shorter)
qed simp

lemma rest_size: "(\<Sum>l\<leftarrow>dropWhile P ls. Suc (length l)) \<le> (\<Sum>l\<leftarrow>ls. Suc (length l))"
  by (induction ls) auto

function parseLines :: "utext list \<Rightarrow> block list" where
  "parseLines [] = []"
| "parseLines (l # ls) =
     (if isQuote l then
        Quote (parseLines (map (the \<circ> QUOTE_LINE) (takeWhile isQuote (l # ls))))
          # parseLines (dropWhile isQuote ls)
      else if isList l then
        map ListB (buildLists (map (the \<circ> LIST_LINE) (takeWhile isList (l # ls))))
          @ parseLines (dropWhile isList ls)
      else
        Paragraph (parseInline (join_lines (takeWhile (\<lambda>x. \<not> isQuote x \<and> \<not> isList x) (l # ls))))
          # parseLines (dropWhile (\<lambda>x. \<not> isQuote x \<and> \<not> isList x) ls))"
  by pat_completeness auto
termination
proof (relation "measure (\<lambda>ls. \<Sum>l\<leftarrow>ls. Suc (length l))", goal_cases)
  case (2 l ls)
  then show ?case using quoted_size[of "l # ls"] by simp
next
  case (3 l ls)
  then show ?case using rest_size[of isQuote ls] by simp
next
  case (4 l ls)
  then show ?case using rest_size[of isList ls] by simp
next
  case (5 l ls)
  then show ?case using rest_size[of "\<lambda>x. \<not> isQuote x \<and> \<not> isList x" ls] by simp
qed simp

declare parseLines.simps(2) [simp del]

fun segment_blocks :: "segment \<Rightarrow> block list" where
  "segment_blocks (CodeSeg t) = [CodeBlock t]"
| "segment_blocks (TextSeg t) = parseLines (split_lines t)"

definition parseBody :: "utext \<Rightarrow> block list" where
  "parseBody body = concat (map segment_blocks (splitFences body))"

section \<open>Reading the body without the tree\<close>

function inlineCodeRanges :: "utext \<Rightarrow> nat \<Rightarrow> nat \<Rightarrow> (nat \<times> nat) list" where
  "inlineCodeRanges body i to =
     (if i < to then
        if charAt body i \<noteq> Some backtick then inlineCodeRanges body (i + 1) to
        else (case indexOf body [backtick] (i + 1) of
            None \<Rightarrow> inlineCodeRanges body (i + 1) to
          | Some e \<Rightarrow>
              if e > i + 1 \<and> e < to
                 \<and> (case indexOf body [newline] (i + 1) of None \<Rightarrow> True | Some n \<Rightarrow> e < n)
              then (i, e + 1) # inlineCodeRanges body (e + 1) to
              else inlineCodeRanges body (i + 1) to)
      else [])"
  by pat_completeness auto
termination by (relation "measure (\<lambda>(b, i, t). t - i)") auto

declare inlineCodeRanges.simps [simp del]

function ranges_from :: "utext \<Rightarrow> nat \<Rightarrow> (nat \<times> nat) list" where
  \<comment> \<open>the loop of \<open>codeRanges\<close> from \<open>pos\<close>\<close>
  "ranges_from body pos =
     (case find_fence body pos of
        None \<Rightarrow> inlineCodeRanges body pos (length body)
      | Some (op, cl) \<Rightarrow>
          inlineCodeRanges body pos op @ (op, cl + length FENCE) # ranges_from body (cl + length FENCE))"
  by pat_completeness auto
termination by (relation "measure (\<lambda>(b, p). length b - p)") (auto simp: FENCE_def dest!: find_fence_Some)

declare ranges_from.simps [simp del]

definition codeRanges :: "utext \<Rightarrow> (nat \<times> nat) list" where
  "codeRanges body = ranges_from body 0"

definition inCode :: "(nat \<times> nat) list \<Rightarrow> nat \<Rightarrow> bool" where
  "inCode ranges pos = list_ex (\<lambda>(s, e). s \<le> pos \<and> pos < e) ranges"

fun inline_urls :: "inline \<Rightarrow> utext list" where
  "inline_urls (Link u l) = [u]"
| "inline_urls (Emph k cs) = concat (map inline_urls cs)"
| "inline_urls n = []"

fun item_urls :: "list_item \<Rightarrow> utext list" and list_urls :: "list_block \<Rightarrow> utext list" where
  "item_urls (ListItem n cs ls) = concat (map inline_urls cs) @ concat (map list_urls ls)"
| "list_urls (ListBlock ord its) = concat (map item_urls its)"

fun block_urls :: "block \<Rightarrow> utext list" where
  "block_urls (Paragraph ns) = concat (map inline_urls ns)"
| "block_urls (CodeBlock t) = []"
| "block_urls (Quote bs) = concat (map block_urls bs)"
| "block_urls (ListB l) = list_urls l"

definition findUrls :: "utext \<Rightarrow> utext list" where
  "findUrls body = concat (map block_urls (parseBody body))"

end
