(* ===== verification/BodyScan.thy ===== *)
theory BodyScan
  imports BodyFormat
begin

text \<open>
  What the parse of a body holds of its code and its mentions, compared with a plain left-to-right
  reading of the characters (\<open>scan\<close>): emphasis, links and blocks never hide, move or split a
  piece of code or a mention. The functions that read the body without the tree, \<open>codeRanges\<close>
  here and \<open>mentionAll\<close> in the theory \<open>Mentions\<close>, are compared with the tree through it.
\<close>

section \<open>Tokens\<close>

fun mention_token :: "mention_node \<Rightarrow> utext" where
  "mention_token (MUser d) = units ''<@'' @ d @ units ''>''"
| "mention_token MChannel = units ''<!channel>''"
| "mention_token MHere = units ''<!here>''"

fun mention_valid :: "mention_node \<Rightarrow> bool" where
  "mention_valid (MUser d) = (length d = 26 \<and> list_all is_alnum d)"
| "mention_valid k = True"

lemma id_token_iff:
  "id_token p t = Some d \<longleftrightarrow> length d = 26 \<and> list_all is_alnum d \<and> prefix_of (p @ d @ units ''>'') t"
proof
  assume "id_token p t = Some d"
  then show "length d = 26 \<and> list_all is_alnum d \<and> prefix_of (p @ d @ units ''>'') t"
    using id_token_chars[of p t d] id_token_Some[of p t d] by (auto simp: prefix_of_append)
next
  assume a: "length d = 26 \<and> list_all is_alnum d \<and> prefix_of (p @ d @ units ''>'') t"
  then obtain r where "t = p @ d @ 62 # r" by (auto simp: prefix_of_append)
  then show "id_token p t = Some d" using a by (simp add: id_token_def prefix_of_append)
qed

lemma mention_token_head: "\<exists>c. c \<in> {64, 33} \<and> (\<exists>r. mention_token k = 60 # c # r)"
  by (cases k) auto

lemma MENTION_token:
  assumes "MENTION t = Some (k, raw)"
  shows "mention_valid k \<and> raw = mention_token k \<and> prefix_of (mention_token k) t"
proof (cases "id_token (units ''<@'') t")
  case None
  then show ?thesis using assms by (auto simp: MENTION_def simp del: units_Cons split: if_splits)
next
  case (Some d)
  then have "k = MUser d" "raw = mention_token k" using assms by (auto simp: MENTION_def)
  then show ?thesis using Some id_token_iff[of "units ''<@''" t d] by simp
qed

lemma MENTION_of_token:
  assumes "mention_valid k" "prefix_of (mention_token k) t"
  shows "MENTION t = Some (k, mention_token k)"
proof (cases k)
  case (MUser d)
  then have "id_token (units ''<@'') t = Some d" using assms id_token_iff[of "units ''<@''" t d] by simp
  then show ?thesis using MUser by (simp add: MENTION_def)
next
  case MChannel
  then obtain r where "t = units ''<!channel>'' @ r" using assms by (auto simp: prefix_of_append)
  then show ?thesis using MChannel by (simp add: MENTION_def id_token_def)
next
  case MHere
  then obtain r where "t = units ''<!here>'' @ r" using assms by (auto simp: prefix_of_append)
  then show ?thesis using MHere by (simp add: MENTION_def id_token_def)
qed

lemma MENTION_iff:
  "MENTION t = Some (k, raw) \<longleftrightarrow> mention_valid k \<and> raw = mention_token k \<and> prefix_of (mention_token k) t"
  using MENTION_token MENTION_of_token by blast

lemma prefix_mono: "prefix_of p xs \<Longrightarrow> prefix_of p (xs @ ys)"
  by (auto simp: prefix_of_append)

lemma prefix_newline:
  "newline \<notin> set p \<Longrightarrow> prefix_of p (xs @ newline # ys) \<longleftrightarrow> prefix_of p xs"
  by (induction p xs rule: prefix_of.induct) auto

lemma mention_token_chars: "mention_valid k \<Longrightarrow> newline \<notin> set (mention_token k) \<and> backtick \<notin> set (mention_token k)"
  using alnum_no by (cases k) auto

lemma MENTION_mono: "MENTION xs = Some p \<Longrightarrow> MENTION (xs @ ys) = Some p"
  by (cases p) (auto simp: MENTION_iff prefix_mono)

lemma MENTION_newline: "MENTION (xs @ newline # ys) = MENTION xs"
proof (cases "MENTION (xs @ newline # ys)")
  case None
  then show ?thesis using MENTION_mono[of xs _ "newline # ys"] by (cases "MENTION xs") auto
next
  case (Some p)
  then have "MENTION xs = Some p"
    using prefix_newline mention_token_chars by (cases p) (auto simp: MENTION_iff)
  then show ?thesis using Some by simp
qed

lemma MENTION_head: "c \<noteq> 60 \<Longrightarrow> MENTION (c # cs) = None"
proof (rule ccontr)
  assume c: "c \<noteq> 60" and "MENTION (c # cs) \<noteq> None"
  then obtain k raw where "MENTION (c # cs) = Some (k, raw)" by auto
  then have "prefix_of (mention_token k) (c # cs)" by (simp add: MENTION_iff)
  then show False using mention_token_head[of k] c by auto
qed

lemma MENTION_head2: "c \<noteq> 64 \<Longrightarrow> c \<noteq> 33 \<Longrightarrow> MENTION (d # c # cs) = None"
proof (rule ccontr)
  assume c: "c \<noteq> 64" "c \<noteq> 33" and "MENTION (d # c # cs) \<noteq> None"
  then obtain k raw where "MENTION (d # c # cs) = Some (k, raw)" by auto
  then have "prefix_of (mention_token k) (d # c # cs)" by (simp add: MENTION_iff)
  then show False using mention_token_head[of k] c by auto
qed

definition code_run :: "utext \<Rightarrow> utext option" where
  \<comment> \<open>after an opening backtick: the code up to the closing one on the same line\<close>
  "code_run cs =
     (let x = takeWhile (\<lambda>c. c \<noteq> backtick \<and> c \<noteq> newline) cs in
      if x \<noteq> [] \<and> prefix_of [backtick] (drop (length x) cs) then Some x else None)"

lemma code_run_iff:
  "code_run cs = Some x \<longleftrightarrow> x \<noteq> [] \<and> backtick \<notin> set x \<and> newline \<notin> set x \<and> prefix_of (x @ [backtick]) cs"
proof
  let ?P = "\<lambda>c. c \<noteq> backtick \<and> c \<noteq> newline"
  assume a: "code_run cs = Some x"
  then have x: "x = takeWhile ?P cs" "x \<noteq> []" "prefix_of [backtick] (drop (length x) cs)"
    by (auto simp: code_run_def Let_def split: if_splits)
  have "cs = x @ drop (length x) cs" unfolding x(1) by (simp add: dropWhile_eq_drop[symmetric])
  moreover have "\<forall>c\<in>set x. ?P c" unfolding x(1) by (auto dest: set_takeWhileD)
  ultimately show "x \<noteq> [] \<and> backtick \<notin> set x \<and> newline \<notin> set x \<and> prefix_of (x @ [backtick]) cs"
    using x(2,3) by (metis append_Cons append_Nil append_assoc prefix_of_append)
next
  assume a: "x \<noteq> [] \<and> backtick \<notin> set x \<and> newline \<notin> set x \<and> prefix_of (x @ [backtick]) cs"
  then obtain r where "cs = x @ backtick # r" by (auto simp: prefix_of_append)
  moreover from this a have "takeWhile (\<lambda>c. c \<noteq> backtick \<and> c \<noteq> newline) cs = x"
    by (auto intro!: takeWhile_eq_all_conv[THEN iffD2] simp: takeWhile_append)
  ultimately show "code_run cs = Some x" using a by (simp add: code_run_def)
qed

lemma code_run_mono: "code_run cs = Some x \<Longrightarrow> code_run (cs @ ys) = Some x"
  by (auto simp: code_run_iff prefix_mono)

lemma code_run_newline: "code_run (cs @ newline # ys) = code_run cs"
proof (cases "code_run (cs @ newline # ys)")
  case None
  then show ?thesis using code_run_mono[of cs _ "newline # ys"] by (cases "code_run cs") auto
next
  case (Some x)
  then have "code_run cs = Some x" using prefix_newline[of "x @ [backtick]" cs ys] by (auto simp: code_run_iff)
  then show ?thesis using Some by simp
qed

section \<open>The plain reading\<close>

function scan :: "utext \<Rightarrow> inline list" where
  "scan [] = []"
| "scan (c # cs) =
     (if c = backtick then
        (case code_run cs of Some x \<Rightarrow> Code x # scan (drop (length x + 1) cs) | None \<Rightarrow> scan cs)
      else
        (case MENTION (c # cs) of
           Some (k, raw) \<Rightarrow> MentionN k raw # scan (drop (length raw) (c # cs)) | None \<Rightarrow> scan cs))"
  by pat_completeness auto
termination
  by (relation "measure length") (auto dest!: MENTION_Some)

declare scan.simps(2) [simp del]

fun marks :: "inline \<Rightarrow> inline list" where
  "marks (Code t) = [Code t]"
| "marks (MentionN k raw) = [MentionN k raw]"
| "marks (Emph k cs) = concat (map marks cs)"
| "marks n = []"

definition all_marks :: "inline list \<Rightarrow> inline list" where
  "all_marks ns = concat (map marks ns)"

lemma all_marks_simps [simp]:
  "all_marks [] = []" "all_marks (n # ns) = marks n @ all_marks ns"
  "all_marks (ms @ ns) = all_marks ms @ all_marks ns" "all_marks (flush p) = []"
  by (simp_all add: all_marks_def flush_def)

lemma marks_Emph [simp]: "marks (Emph k cs) = all_marks cs"
  by (simp add: all_marks_def)

declare marks.simps(3) [simp del]

lemma scan_code: "code_run cs = Some x \<Longrightarrow> scan (backtick # cs) = Code x # scan (drop (length x + 1) cs)"
  by (simp add: scan.simps)

lemma scan_mention: "MENTION cs = Some (k, raw) \<Longrightarrow> scan cs = MentionN k raw # scan (drop (length raw) cs)"
proof (cases cs)
  case Nil
  assume "MENTION cs = Some (k, raw)"
  then show ?thesis using Nil mention_token_head[of k] by (auto simp: MENTION_iff)
next
  case (Cons c r)
  assume m: "MENTION cs = Some (k, raw)"
  then have "c = 60" using MENTION_head[of c r] Cons by auto
  then show ?thesis using m Cons by (simp add: scan.simps(2))
qed

definition no_mark :: "utext \<Rightarrow> bool" where
  \<comment> \<open>neither code nor a mention starts here\<close>
  "no_mark cs = (MENTION cs = None \<and> (\<forall>r. cs = backtick # r \<longrightarrow> code_run r = None))"

lemma scan_skip: "no_mark (c # cs) \<Longrightarrow> scan (c # cs) = scan cs"
  by (auto simp: no_mark_def scan.simps(2))

lemma no_mark_plain: "c \<noteq> backtick \<Longrightarrow> c \<noteq> 60 \<Longrightarrow> no_mark (c # cs)"
  by (auto simp: no_mark_def MENTION_head)

lemma scan_plain: "backtick \<notin> set xs \<Longrightarrow> 60 \<notin> set xs \<Longrightarrow> scan (xs @ ys) = scan ys"
  by (induction xs) (auto simp: scan_skip no_mark_plain)

lemma no_mark_prefix: "no_mark (xs @ ys) \<Longrightarrow> no_mark xs"
  unfolding no_mark_def
  by (metis MENTION_mono append_Cons code_run_mono not_None_eq option.distinct(1))

lemma scan_newline: "scan (xs @ newline # ys) = scan xs @ scan ys"
proof (induction xs rule: scan.induct)
  case 1
  show ?case by (simp add: scan_skip no_mark_plain)
next
  case (2 c cs)
  show ?case
  proof (cases "c = backtick")
    case True
    show ?thesis
    proof (cases "code_run cs")
      case None
      then show ?thesis using True 2(1)[OF True None] by (simp add: scan.simps(2) code_run_newline)
    next
      case (Some x)
      then have "length x + 1 \<le> length cs" by (auto simp: code_run_iff prefix_of_append)
      then show ?thesis using True Some 2(2)[OF True Some] by (simp add: scan.simps(2) code_run_newline)
    qed
  next
    case False
    show ?thesis
    proof (cases "MENTION (c # cs)")
      case None
      then show ?thesis using False 2(3)[OF False None] MENTION_newline[of "c # cs" ys] by (simp add: scan.simps(2))
    next
      case (Some p)
      obtain k raw where p: "p = (k, raw)" by (cases p)
      then obtain rr where r: "c # cs = raw @ rr" using Some MENTION_Some[of "c # cs" k raw] by auto
      have m: "MENTION ((c # cs) @ newline # ys) = Some (k, raw)" "MENTION (c # cs) = Some (k, raw)"
        using MENTION_newline[of "c # cs" ys] Some p by simp_all
      have "scan (rr @ newline # ys) = scan rr @ scan ys" using 2(4)[OF False Some p[symmetric]] r by simp
      then show ?thesis using scan_mention[OF m(1)] scan_mention[OF m(2)] by (simp add: r)
    qed
  qed
qed


section \<open>The tree of a line holds the marks of the plain reading\<close>

lemma readAtom_kinds:
  assumes "readAtom t i = Some (n, e)"
  shows "(\<exists>x. n = Code x) \<or> (\<exists>u l. LABELED_LINK (drop i t) = Some (u, l) \<and> n = Link u (Some l))
    \<or> (\<exists>d. n = ChannelN d (units ''<#'' @ d @ units ''>''))
    \<or> (\<exists>k raw. MENTION (drop i t) = Some (k, raw) \<and> n = MentionN k raw) \<or> (\<exists>u. n = Link u None)"
proof -
  obtain c where c: "charAt t i = Some c" using assms by (auto simp: readAtom_def split: option.splits)
  consider "c = backtick" | "c = 60" | "c \<notin> {96, 60}" by auto
  then show ?thesis
  proof cases
    case 1
    then show ?thesis using assms c by (auto simp: readAtom_def split: option.splits if_splits)
  next
    case 2
    then show ?thesis using assms c by (auto simp: readAtom_def split: option.splits)
  next
    case 3
    then show ?thesis using assms c by (auto simp: readAtom_def Let_def simp del: units_Cons split: if_splits)
  qed
qed

lemma atom_scan:
  assumes "readAtom t i = Some (n, e)"
  shows "scan (raw_inline n @ r) = marks n @ scan r"
proof -
  have ok: "inline_ok n" "newline \<notin> set (raw_inline n)" "\<not> is_code n \<Longrightarrow> backtick \<notin> set (raw_inline n)"
    using readAtom_ok[OF assms] by auto
  consider (code) x where "n = Code x"
    | (l) u l where "LABELED_LINK (drop i t) = Some (u, l)" "n = Link u (Some l)"
    | (ch) d where "n = ChannelN d (units ''<#'' @ d @ units ''>'')"
    | (m) k raw where "MENTION (drop i t) = Some (k, raw)" "n = MentionN k raw"
    | (u) u where "n = Link u None"
    using readAtom_kinds[OF assms] by blast
  then show ?thesis
  proof cases
    case code
    then have "code_run (x @ backtick # r) = Some x" using ok by (auto simp: code_run_iff prefix_of_append)
    then show ?thesis using code by (simp add: scan_code)
  next
    case l
    obtain s where "u = 104 # s"
      using ok(1) l(2) by (cases u) (auto simp: scheme_def prefix_of_append split: if_splits)
    moreover have "60 \<notin> set u" "60 \<notin> set l" using LABELED_LINK_chars[OF l(1)] by (auto simp: list_all_iff label_char_def)
    moreover have "backtick \<notin> set u" "backtick \<notin> set l" using ok(3) l(2) by (auto simp: is_code_def)
    ultimately show ?thesis
      using scan_plain[of "u @ 124 # l @ [62]" r] MENTION_head2[of 104 60 "s @ 124 # l @ 62 # r"] l(2)
      by (simp add: scan_skip no_mark_def)
  next
    case ch
    then have "60 \<notin> set d" "backtick \<notin> set d"
      using ok(1) by (auto simp: list_all_iff is_alnum_def is_digit_def)
    then show ?thesis
      using scan_plain[of "35 # d @ [62]" r] MENTION_head2[of 35 60 "d @ 62 # r"] ch
      by (simp add: scan_skip no_mark_def)
  next
    case m
    then have "MENTION (raw @ r) = Some (k, raw)" by (auto simp: MENTION_iff prefix_of_append)
    then show ?thesis using m by (simp add: scan_mention)
  next
    case u
    then have "60 \<notin> set u" "backtick \<notin> set u" using ok by (auto simp: list_all_iff)
    then show ?thesis using u scan_plain by simp
  qed
qed

lemma readAtom_None_mark:
  assumes "readAtom t i = None" "i < length t"
  shows "no_mark (drop i t)"
proof -
  have c: "charAt t i = Some (t ! i)" "drop i t = t ! i # drop (i + 1) t"
    using assms(2) by (simp_all add: charAt_def Cons_nth_drop_Suc)
  have "code_run (drop (i + 1) t) = None" if "t ! i = backtick"
  proof (rule ccontr)
    assume "code_run (drop (i + 1) t) \<noteq> None"
    then obtain x where "code_run (drop (i + 1) t) = Some x" by blast
    then have x: "x \<noteq> []" "backtick \<notin> set x" "newline \<notin> set x" "prefix_of (x @ [backtick]) (drop (i + 1) t)"
      unfolding code_run_iff by blast+
    then obtain r where r: "drop (i + 1) t = x @ backtick # r" by (auto simp: prefix_of_append)
    have b: "indexOf t [backtick] (i + 1) = Some (i + 1 + length x)"
      using indexOf_first[OF r x(2)] .
    have "case indexOf t [newline] (i + 1) of None \<Rightarrow> True | Some k \<Rightarrow> i + 1 + length x < k"
      using indexOf_after[OF r, of newline] x(3) by (auto split: option.splits)
    moreover have "i + 1 < i + 1 + length x" using x(1) by simp
    ultimately show False using assms(1) c that b by (auto simp: readAtom_def split: option.splits if_splits)
  qed
  moreover have "MENTION (drop i t) = None"
  proof (cases "t ! i = 60")
    case True
    then show ?thesis using assms(1) c(1) by (auto simp: readAtom_def split: option.splits)
  next
    case False
    then show ?thesis using c(2) MENTION_head by simp
  qed
  ultimately show ?thesis using c(2) by (auto simp: no_mark_def)
qed

lemma passes_scan:
  assumes "passes t j k" "k \<le> length t"
  shows "scan (drop j t) = scan (slice t j k) @ scan (drop k t)"
  using assms
proof (induction rule: passes.induct)
  case (passes_atom j n e k)
  have "e \<le> k" using passes_le[OF passes_atom(2)] .
  then have "slice t j k = raw_inline n @ slice t e k" "drop j t = raw_inline n @ drop e t"
    using readAtom_raw[OF passes_atom(1)] slice_split[of j e k t] drop_slice[of j e t] by auto
  then show ?case using passes_atom atom_scan[OF passes_atom(1)] by simp
next
  case (passes_char j k)
  have "j + 1 \<le> k" using passes_le[OF passes_char(4)] .
  then have s: "slice t j k = t ! j # slice t (j + 1) k" "drop j t = t ! j # drop (j + 1) t"
    using passes_char(2) by (simp_all add: slice_Cons Cons_nth_drop_Suc)
  have "no_mark (drop j t)" by (rule readAtom_None_mark[OF passes_char(1,2)])
  moreover from this have "no_mark (slice t j k)"
    using no_mark_prefix[of "slice t j k" "drop k t"] drop_slice[of j k t] \<open>j + 1 \<le> k\<close> by simp
  ultimately show ?case using s passes_char scan_skip by simp
qed (simp add: slice_def)

lemma marker_plain: "kindOf m = Some k \<Longrightarrow> backtick \<notin> set m \<and> 60 \<notin> set m"
  by (auto simp: kindOf_def EMPHASIS_def UNDERLINE_def split: if_splits)

lemma inline_loop_marks: "i \<le> length t \<Longrightarrow> all_marks (inline_loop t i p) = scan (drop i t)"
proof (induction "length t - i" arbitrary: t i p rule: less_induct)
  case less
  show ?case
  proof (cases "i < length t")
    case False
    then show ?thesis using less.prems by simp
  next
    case True
    then show ?thesis
    proof (cases rule: inline_loop_cases)
      case (atom n e)
      have a: "i < e" "e \<le> length t" "slice t i e = raw_inline n" using readAtom_raw[OF atom(1)] by auto
      then have "scan (drop i t) = marks n @ scan (drop e t)"
        using atom_scan[OF atom(1)] drop_slice[of i e t] by simp
      then show ?thesis using atom(2) less.hyps[of t e "[]"] a True by simp
    next
      case (emph k c)
      let ?m = "markerAt t i" let ?s = "slice t (i + length ?m) c"
      have b: "i + length ?m < c" "c < length t" "passes t (i + length ?m) c" and m: "?m \<noteq> []"
        and st: "startsAt t ?m c" and ce: "c + length ?m \<le> length t"
        using findCloser_inside[OF emph(3)] findCloser_bound[OF emph(3)] startsAt_bound[of t ?m c]
        by (auto simp: markerAt_def UNDERLINE_def)
      have pl: "backtick \<notin> set ?m" "60 \<notin> set ?m" using marker_plain[OF emph(2)] by auto
      have "drop i t = ?m @ drop (i + length ?m) t" "drop c t = ?m @ drop (c + length ?m) t"
        using drop_slice[of i "i + length ?m" t] drop_slice[of c "c + length ?m" t]
          markerAt_slice[OF True] startsAt_slice[OF st ce] by simp_all
      then have "scan (drop i t) = scan ?s @ scan (drop (c + length ?m) t)"
        using passes_scan[OF b(3)] b(2) scan_plain[OF pl] by (metis less_imp_le)
      moreover have "all_marks (inline_loop ?s 0 []) = scan ?s"
        using less.hyps[of ?s 0 "[]"] b by (auto simp: slice_length)
      moreover have "length t - (c + length ?m) < length t - i" using b(1) True by linarith
      then have "all_marks (inline_loop t (c + length ?m) []) = scan (drop (c + length ?m) t)"
        using less.hyps[of t "c + length ?m" "[]"] ce by simp
      ultimately show ?thesis using emph(4) by simp
    next
      case plain
      have "scan (drop i t) = scan (drop (i + 1) t)"
        using readAtom_None_mark[OF plain(1) True] scan_skip[of "t ! i" "drop (i + 1) t"] True
        by (simp add: Cons_nth_drop_Suc)
      then show ?thesis using less.hyps[of t "i + 1" "p @ [t ! i]"] True plain(3)[of p] by simp
    qed
  qed
qed

lemma parseInline_marks: "all_marks (parseInline t) = scan t"
  using inline_loop_marks[of 0 t "[]"] by (simp add: parseInline_def)


section \<open>The lists\<close>

text \<open>
  The outline of a tree of lists: for each item, in document order, its depth and what its line
  says. The stack of \<open>buildLists\<close> keeps the invariant \<open>spine\<close>: the list of every depth below its
  length is there, with at least one item.
\<close>

fun item_outline :: "nat \<Rightarrow> list_item \<Rightarrow> (nat \<times> int option \<times> inline list) list"
  and list_outline :: "nat \<Rightarrow> list_block \<Rightarrow> (nat \<times> int option \<times> inline list) list" where
  "item_outline d (ListItem n cs ls) = (d, n, cs) # concat (map (list_outline (d + 1)) ls)"
| "list_outline d (ListBlock ord its) = concat (map (item_outline d) its)"

definition outline :: "nat \<Rightarrow> list_block list \<Rightarrow> (nat \<times> int option \<times> inline list) list" where
  "outline d ls = concat (map (list_outline d) ls)"

lemma outline_simps [simp]:
  "outline d [] = []" "outline d (l # ls) = list_outline d l @ outline d ls"
  "outline d (ks @ ls) = outline d ks @ outline d ls"
  by (simp_all add: outline_def)

lemma item_outline_simp [simp]:
  "item_outline d (ListItem n cs ls) = (d, n, cs) # outline (d + 1) ls"
  by (simp add: outline_def)

declare item_outline.simps [simp del]

fun spine :: "nat \<Rightarrow> list_block list \<Rightarrow> bool" where
  "spine 0 ls = True"
| "spine (Suc d) ls = (ls \<noteq> [] \<and> items (last ls) \<noteq> [] \<and> spine d (sublists (last (items (last ls)))))"

fun item_ordered_ok :: "list_item \<Rightarrow> bool" and list_ordered_ok :: "list_block \<Rightarrow> bool" where
  \<comment> \<open>the items of a numbered list have a number, those of a bullet list have none, no list is empty\<close>
  "item_ordered_ok (ListItem n cs ls) = list_all list_ordered_ok ls"
| "list_ordered_ok (ListBlock ord its) =
     (its \<noteq> [] \<and> list_all (\<lambda>it. item_ordered_ok it \<and> (item_number it \<noteq> None \<longleftrightarrow> ord)) its)"

lemma last_list: "ls \<noteq> [] \<Longrightarrow> \<exists>ks ord its. ls = ks @ [ListBlock ord its]"
proof -
  assume "ls \<noteq> []"
  then have "ls = butlast ls @ [last ls]" by simp
  then show ?thesis by (cases "last ls") auto
qed

lemma last_item: "its \<noteq> [] \<Longrightarrow> \<exists>js m ds ss. its = js @ [ListItem m ds ss]"
proof -
  assume "its \<noteq> []"
  then have "its = butlast its @ [last its]" by simp
  then show ?thesis by (cases "last its") auto
qed

lemma push_item_spec:
  assumes "spine d ls" "opn \<longleftrightarrow> spine (Suc d) ls"
  shows "outline k (push_item d opn ord (ListItem n cs []) ls) = outline k ls @ [(k + d, n, cs)]
    \<and> spine (Suc d) (push_item d opn ord (ListItem n cs []) ls)
    \<and> \<not> spine (Suc (Suc d)) (push_item d opn ord (ListItem n cs []) ls)"
  using assms
proof (induction d arbitrary: ls k)
  case 0
  show ?case
  proof (cases "opn \<and> ls \<noteq> [] \<and> ordered (last ls) = ord")
    case True
    then obtain ks o' its where ls: "ls = ks @ [ListBlock o' its]"
      using last_list[of ls] by blast
    then show ?thesis using True by simp
  next
    case False
    then show ?thesis by auto
  qed
next
  case (Suc d)
  then obtain ks o' its where ls: "ls = ks @ [ListBlock o' its]"
    using last_list[of ls] by auto
  then have "its \<noteq> []" using Suc(2) by simp
  then obtain js m ds ss where its: "its = js @ [ListItem m ds ss]"
    using last_item[of its] by blast
  have "spine d ss" "opn \<longleftrightarrow> spine (Suc d) ss" using Suc(2,3) ls its by auto
  note IH = Suc.IH[OF this, of "k + 1"]
  let ?q = "push_item d opn ord (ListItem n cs []) ss"
  have p: "push_item (Suc d) opn ord (ListItem n cs []) ls = ks @ [ListBlock o' (js @ [ListItem m ds ?q])]"
    by (simp add: ls its)
  have "spine (Suc e) (ks @ [ListBlock o' (js @ [ListItem m ds ?q])]) = spine e ?q" for e by simp
  then show ?case unfolding p using IH by (simp add: ls its del: spine.simps)
qed

lemma push_item_ordered:
  "list_all list_ordered_ok ls \<Longrightarrow> (n \<noteq> None \<longleftrightarrow> ord) \<Longrightarrow>
    list_all list_ordered_ok (push_item d opn ord (ListItem n cs []) ls)"
proof (induction d arbitrary: ls)
  case 0
  show ?case
  proof (cases "opn \<and> ls \<noteq> [] \<and> ordered (last ls) = ord")
    case True
    then obtain ks o' its where ls: "ls = ks @ [ListBlock o' its]"
      using last_list[of ls] by blast
    then show ?thesis using True 0 by auto
  next
    case False
    then show ?thesis using 0 by auto
  qed
next
  case (Suc d)
  show ?case
  proof (cases "ls = [] \<or> items (last ls) = []")
    case True
    then show ?thesis using Suc(2) by auto
  next
    case False
    then obtain ks o' its where ls: "ls = ks @ [ListBlock o' its]"
      using last_list[of ls] by blast
    then obtain js m ds ss where its: "its = js @ [ListItem m ds ss]"
      using last_item[of its] False by auto
    have "list_all list_ordered_ok (push_item d opn ord (ListItem n cs []) ss)"
      using Suc ls its by auto
    then show ?thesis using Suc(2) by (auto simp: ls its Let_def)
  qed
qed

fun depths :: "nat \<Rightarrow> list_line list \<Rightarrow> nat list" where
  \<comment> \<open>two spaces are one depth, at most one below the line above, at most \<open>MAX_LIST_DEPTH\<close> in all\<close>
  "depths s [] = []"
| "depths s (ll # lls) = line_depth s ll # depths (line_depth s ll + 1) lls"

lemma foldl_addLine:
  assumes "spine n ls" "\<not> spine (Suc n) ls" "list_all list_ordered_ok ls"
  shows "outline 0 (fst (foldl addLine (ls, n) lls)) = outline 0 ls @
      map2 (\<lambda>d ll. (d, marked_number ll, parseInline (item_text ll))) (depths n lls) lls
    \<and> list_all list_ordered_ok (fst (foldl addLine (ls, n) lls))"
  using assms
proof (induction lls arbitrary: ls n)
  case (Cons ll lls)
  let ?d = "line_depth n ll"
  have le: "?d \<le> n" by (simp add: line_depth_def)
  have mono: "spine b ls \<Longrightarrow> a \<le> b \<Longrightarrow> spine a ls" for a b ls
  proof (induction a arbitrary: b ls)
    case (Suc a)
    then show ?case by (cases b) auto
  qed simp
  have sp: "spine ?d ls" "?d < n \<longleftrightarrow> spine (Suc ?d) ls"
  proof -
    show "spine ?d ls" by (rule mono[OF Cons(2) le])
    show "?d < n \<longleftrightarrow> spine (Suc ?d) ls"
    proof
      assume "?d < n"
      then show "spine (Suc ?d) ls" using mono[OF Cons(2)] Suc_leI by blast
    next
      assume "spine (Suc ?d) ls"
      then show "?d < n" using Cons(3) le by (metis le_neq_implies_less)
    qed
  qed
  let ?q = "push_item ?d (?d < n) (marked_number ll \<noteq> None) (line_item ll) ls"
  have "outline 0 ?q = outline 0 ls @ [(?d, marked_number ll, parseInline (item_text ll))]"
    "spine (Suc ?d) ?q" "\<not> spine (Suc (Suc ?d)) ?q"
    using push_item_spec[OF sp, of 0 "marked_number ll \<noteq> None" "marked_number ll" "parseInline (item_text ll)"]
    unfolding line_item_def by (simp_all del: spine.simps)
  moreover have "list_all list_ordered_ok ?q"
    unfolding line_item_def by (rule push_item_ordered[OF Cons(4)]) simp
  moreover have "foldl addLine (ls, n) (ll # lls) = foldl addLine (?q, Suc ?d) lls"
    by (simp add: addLine_def Let_def)
  ultimately show ?case using Cons.IH[of "Suc ?d" ?q] by (simp del: spine.simps)
qed simp

lemma depths_bound: "d \<in> set (depths s lls) \<Longrightarrow> d < MAX_LIST_DEPTH"
  by (induction lls arbitrary: s) (auto simp: line_depth_def MAX_LIST_DEPTH_def)

text \<open>C29: the tree of lists that \<open>buildLists\<close> makes of consecutive list lines has one item for each
  line, in the order of the lines, with its number and its text, at a depth that is half its
  indentation, at most one more than the line above and at most the third; no list of it is empty,
  and a list has either numbered items only or bullets only.\<close>

theorem buildLists_outline:
  "outline 0 (buildLists lls) =
     map2 (\<lambda>d ll. (d, marked_number ll, parseInline (item_text ll))) (depths 0 lls) lls
   \<and> list_all list_ordered_ok (buildLists lls) \<and> list_all (\<lambda>d. d < MAX_LIST_DEPTH) (depths 0 lls)"
  using foldl_addLine[of 0 "[]" lls] depths_bound[of _ 0 lls] by (simp add: buildLists_def list_all_iff)


section \<open>The marks of a body\<close>

fun item_marks :: "list_item \<Rightarrow> inline list" and list_marks :: "list_block \<Rightarrow> inline list" where
  "item_marks (ListItem n cs ls) = all_marks cs @ concat (map list_marks ls)"
| "list_marks (ListBlock ord its) = concat (map item_marks its)"

fun block_marks :: "block \<Rightarrow> inline list" where
  \<comment> \<open>the code and the mentions of a block, in document order\<close>
  "block_marks (Paragraph ns) = all_marks ns"
| "block_marks (CodeBlock t) = [Code t]"
| "block_marks (Quote bs) = concat (map block_marks bs)"
| "block_marks (ListB l) = list_marks l"

definition body_marks :: "block list \<Rightarrow> inline list" where
  "body_marks bs = concat (map block_marks bs)"

lemma body_marks_simps [simp]:
  "body_marks [] = []" "body_marks (b # bs) = block_marks b @ body_marks bs"
  "body_marks (as @ bs) = body_marks as @ body_marks bs"
  by (simp_all add: body_marks_def)

lemma block_marks_Quote [simp]: "block_marks (Quote bs) = body_marks bs"
  by (simp add: body_marks_def)

declare block_marks.simps(3) [simp del]

lemma outline_marks:
  "item_marks it = concat (map (\<lambda>(d, n, cs). all_marks cs) (item_outline k it))"
  "list_marks l = concat (map (\<lambda>(d, n, cs). all_marks cs) (list_outline k l))"
proof (induction it and l arbitrary: k and k rule: item_marks_list_marks.induct)
  case (1 n cs ls)
  have "concat (map list_marks ls) = concat (map (\<lambda>(d, n, cs). all_marks cs) (outline (k + 1) ls))"
    using 1 by (induction ls) auto
  then show ?case by simp
next
  case (2 ord its)
  then show ?case by (induction its) auto
qed

lemma buildLists_marks:
  "body_marks (map ListB (buildLists lls)) = concat (map (\<lambda>ll. scan (item_text ll)) lls)"
proof -
  have A: "body_marks (map ListB ls) = concat (map (\<lambda>(d, n, cs). all_marks cs) (outline 0 ls))" for ls
    using outline_marks(2) by (induction ls) auto
  have B: "concat (map (\<lambda>(d, n, cs). all_marks cs)
      (map2 (\<lambda>d ll. (d, marked_number ll, parseInline (item_text ll))) (depths s lls) lls))
      = concat (map (\<lambda>ll. scan (item_text ll)) lls)" for s
    by (induction lls arbitrary: s) (auto simp: parseInline_marks)
  have C: "outline 0 (buildLists lls) =
      map2 (\<lambda>d ll. (d, marked_number ll, parseInline (item_text ll))) (depths 0 lls) lls"
    using foldl_addLine[of 0 "[]" lls] by (simp add: buildLists_def)
  show ?thesis unfolding A C by (rule B)
qed

lemma QUOTE_LINE_scan: "QUOTE_LINE l = Some q \<Longrightarrow> scan q = scan l"
proof -
  assume "QUOTE_LINE l = Some q"
  then consider "l = units ''>''" "q = []" | "l = units ''> '' @ q"
    by (auto simp: QUOTE_LINE_def prefix_of_append split: if_splits)
  then show ?thesis
  proof cases
    case 1
    then show ?thesis by (simp add: scan_skip no_mark_plain)
  next
    case 2
    then show ?thesis using scan_plain[of "units ''> ''" q] by simp
  qed
qed

lemma LIST_LINE_split:
  assumes "LIST_LINE l = Some ll"
  shows "\<exists>p. l = p @ item_text ll \<and> set p \<subseteq> {32, 45, 42, 46, 0x2022} \<union> {c. is_digit c}"
proof -
  let ?sp = "takeWhile (\<lambda>c. c = 32) l" and ?r = "dropWhile (\<lambda>c. c = 32) l"
  have l: "l = ?sp @ ?r" by simp
  have sp: "set ?sp \<subseteq> {32}" by (auto dest: set_takeWhileD)
  obtain m r1 where r: "?r = m # r1" using assms by (auto simp: LIST_LINE_def Let_def split: list.splits)
  show ?thesis
  proof (cases "m \<in> set (units ''-*'' @ [0x2022])")
    case True
    then have "prefix_of [32] r1" "item_text ll = drop 1 r1"
      using assms r by (auto simp: LIST_LINE_def Let_def split: if_splits)
    then have "l = (?sp @ [m, 32]) @ item_text ll" using l r by (auto simp: prefix_of_append)
    moreover have "set (?sp @ [m, 32]) \<subseteq> {32, 45, 42, 46, 0x2022}" using sp True by auto
    ultimately show ?thesis by blast
  next
    case False
    let ?ds = "takeWhile is_digit ?r" and ?r2 = "dropWhile is_digit ?r"
    have p: "prefix_of [46, 32] ?r2" "item_text ll = drop 2 ?r2"
      using assms r False by (auto simp: LIST_LINE_def Let_def split: if_splits)
    then have "?r2 = [46, 32] @ item_text ll" by (auto simp: prefix_of_append)
    moreover have "?r = ?ds @ ?r2" by simp
    ultimately have "l = (?sp @ ?ds @ [46, 32]) @ item_text ll" using l by (metis append_assoc)
    moreover have "set (?sp @ ?ds @ [46, 32]) \<subseteq> {32, 45, 42, 46, 0x2022} \<union> {c. is_digit c}"
      using sp by (auto dest: set_takeWhileD)
    ultimately show ?thesis by blast
  qed
qed

lemma LIST_LINE_scan: "LIST_LINE l = Some ll \<Longrightarrow> scan (item_text ll) = scan l"
proof -
  assume "LIST_LINE l = Some ll"
  from LIST_LINE_split[OF this] obtain p where
    p: "l = p @ item_text ll" "set p \<subseteq> {32, 45, 42, 46, 0x2022} \<union> {c. is_digit c}" by blast
  then have "backtick \<notin> set p" "60 \<notin> set p" by (auto simp: is_digit_def)
  then show ?thesis using p(1) scan_plain by metis
qed

lemma scan_join: "scan (join_lines ls) = concat (map scan ls)"
  by (induction ls rule: join_lines.induct) (auto simp: scan_newline)

lemma scan_takeWhile:
  "\<forall>l\<in>set (takeWhile P ls). f l = scan l \<Longrightarrow>
    concat (map f (takeWhile P ls)) @ concat (map scan (dropWhile P ls)) = concat (map scan ls)"
proof -
  assume "\<forall>l\<in>set (takeWhile P ls). f l = scan l"
  then have "map f (takeWhile P ls) = map scan (takeWhile P ls)" by simp
  then show ?thesis by (metis concat_append map_append takeWhile_dropWhile_id)
qed

lemma parseLines_marks: "body_marks (parseLines ls) = concat (map scan ls)"
proof (induction ls rule: parseLines.induct)
  case (2 l ls)
  consider (q) "isQuote l" | (li) "\<not> isQuote l" "isList l" | (p) "\<not> isQuote l" "\<not> isList l" by blast
  then show ?case
  proof cases
    case q
    have "\<forall>x\<in>set (takeWhile isQuote (l # ls)). scan ((the \<circ> QUOTE_LINE) x) = scan x"
      using QUOTE_LINE_scan by (auto simp: isQuote_def dest!: set_takeWhileD)
    from scan_takeWhile[OF this] show ?thesis
      using 2(1,2)[OF q] q by (simp add: parseLines.simps(2) comp_def)
  next
    case li
    have "\<forall>x\<in>set (takeWhile isList (l # ls)). scan (item_text ((the \<circ> LIST_LINE) x)) = scan x"
      using LIST_LINE_scan by (auto simp: isList_def dest!: set_takeWhileD)
    from scan_takeWhile[OF this] show ?thesis
      using 2(3)[OF li] li buildLists_marks[of "map (the \<circ> LIST_LINE) (takeWhile isList (l # ls))"]
      by (simp add: parseLines.simps(2) comp_def)
  next
    case p
    let ?P = "\<lambda>x. \<not> isQuote x \<and> \<not> isList x"
    show ?thesis
      using 2(4)[OF p] p scan_takeWhile[of ?P "l # ls" scan]
      by (simp add: parseLines.simps(2) parseInline_marks scan_join)
  qed
qed simp

lemma segment_marks: "body_marks (segment_blocks (TextSeg t)) = scan t"
  using scan_join[of "split_lines t"] by (simp add: parseLines_marks)

end
