(* ===== verification/BodyCode.thy ===== *)
theory BodyCode
  imports BodyScan
begin

text \<open>
  The fences of a body: the segments \<open>splitFences\<close> cuts and the ranges \<open>codeRanges\<close> returns are
  the same code, and every mention of the tree is a token outside those ranges.
\<close>

section \<open>One segment\<close>

definition codes :: "inline list \<Rightarrow> inline list" where
  "codes ns = filter is_code ns"

lemma codes_simps [simp]:
  "codes [] = []" "codes (Code x # ns) = Code x # codes ns" "codes (MentionN k r # ns) = codes ns"
  "codes (ms @ ns) = codes ms @ codes ns"
  by (simp_all add: codes_def is_code_def)

lemma codes_scan_skip: "c \<noteq> backtick \<Longrightarrow> codes (scan (c # cs)) = codes (scan cs)"
proof (cases "MENTION (c # cs)")
  case None
  assume "c \<noteq> backtick"
  then show ?thesis using None by (simp add: scan_skip no_mark_def)
next
  case (Some p)
  then obtain k where k: "MENTION (c # cs) = Some (k, mention_token k)" "mention_valid k"
      "prefix_of (mention_token k) (c # cs)"
    by (cases p) (auto simp: MENTION_iff)
  then obtain xs r where x: "mention_token k = c # xs" "cs = xs @ r"
    using mention_token_head[of k] by (auto simp: prefix_of_append)
  have "60 \<notin> set xs" "backtick \<notin> set xs"
    using x(1) k(2) alnum_no[of "case k of MUser d \<Rightarrow> d | _ \<Rightarrow> []"]
    by (cases k; auto simp: list_all_iff is_alnum_def is_digit_def)+
  then have "scan cs = scan r" using x(2) scan_plain by simp
  moreover have "scan (c # cs) = MentionN k (mention_token k) # scan r" using scan_mention[OF k(1)] x by simp
  ultimately show ?thesis by simp
qed

lemma code_run_slice:
  assumes "to \<le> length t"
  shows "code_run (slice t i to) =
    (case indexOf t [backtick] i of None \<Rightarrow> None
     | Some e \<Rightarrow> if e > i \<and> e < to \<and> (case indexOf t [newline] i of None \<Rightarrow> True | Some n \<Rightarrow> e < n)
         then Some (slice t i e) else None)" (is "_ = ?R")
proof (cases "code_run (slice t i to)")
  case (Some x)
  then have x: "x \<noteq> []" "backtick \<notin> set x" "newline \<notin> set x" "prefix_of (x @ [backtick]) (slice t i to)"
    unfolding code_run_iff by blast+
  then obtain r where r: "slice t i to = x @ backtick # r" by (auto simp: prefix_of_append)
  have "i < to" using r by (cases "i < to") (auto simp: slice_def)
  then have d: "drop i t = x @ backtick # (r @ drop to t)" using drop_slice[of i to t] r by simp
  have "length (slice t i to) = to - i" using slice_length[OF assms] \<open>i < to\<close> by simp
  then have "i + length x < to" using r by simp
  moreover have "indexOf t [backtick] i = Some (i + length x)" by (rule indexOf_first[OF d x(2)])
  moreover have "case indexOf t [newline] i of None \<Rightarrow> True | Some n \<Rightarrow> i + length x < n"
    using indexOf_after[OF d x(3)] by (auto split: option.splits)
  moreover have "slice t i (i + length x) = x" using d by (simp add: slice_def)
  ultimately show ?thesis using Some x(1) by simp
next
  case None
  have "?R = None"
  proof (rule ccontr)
    assume "?R \<noteq> None"
    then obtain e where e: "indexOf t [backtick] i = Some e" "e > i" "e < to"
        "case indexOf t [newline] i of None \<Rightarrow> True | Some n \<Rightarrow> e < n"
      by (auto split: option.splits if_splits)
    have "slice t i e \<noteq> []" using e(2,3) assms by (auto simp: slice_def)
    moreover have "backtick \<notin> set (slice t i e)" by (rule indexOf_none_in_slice[OF e(1)])
    moreover have "newline \<notin> set (slice t i e)" by (rule indexOf_bound_slice[OF e(4)])
    moreover have "slice t e to = backtick # slice t (e + 1) to"
      using indexOf_Some[OF e(1)] e(3) assms by (auto simp: slice_Cons prefix_single_nth)
    then have "slice t i to = (slice t i e @ [backtick]) @ slice t (e + 1) to"
      using slice_split[of i e to t] e(2,3) by simp
    then have "prefix_of (slice t i e @ [backtick]) (slice t i to)" unfolding prefix_of_append by blast
    ultimately have "code_run (slice t i to) = Some (slice t i e)" unfolding code_run_iff by blast
    then show False using None by simp
  qed
  then show ?thesis using None by simp
qed

definition code_text :: "utext \<Rightarrow> nat \<times> nat \<Rightarrow> utext" where
  \<comment> \<open>what a code range holds between its marks\<close>
  "code_text t r =
     (if startsAt t FENCE (fst r) then strip_trail (strip_lead (slice t (fst r + 3) (snd r - 3)))
      else slice t (fst r + 1) (snd r - 1))"

lemma scan_slice_code:
  assumes "code_run (slice t (i + 1) to) = Some (slice t (i + 1) e)" "i < to" "to \<le> length t"
    "t ! i = backtick" "i + 1 < e" "e < to"
  shows "scan (slice t i to) = Code (slice t (i + 1) e) # scan (slice t (e + 1) to)"
proof -
  have "length (slice t (i + 1) e) = e - (i + 1)" using assms slice_length[of e t "i + 1"] by simp
  then have "length (slice t (i + 1) e) + 1 = e - i" using assms(5) by linarith
  then have "drop (length (slice t (i + 1) e) + 1) (slice t (i + 1) to) = slice t (e + 1) to"
    using assms(5,6) by (simp add: slice_def drop_take add.commute)
  then show ?thesis using assms slice_Cons[of i t to] by (simp add: scan_code)
qed

lemma inlineCodeRanges_codes:
  "to \<le> length t \<Longrightarrow> map (\<lambda>r. Code (code_text t r)) (inlineCodeRanges t i to) = codes (scan (slice t i to))"
proof (induction t i to rule: inlineCodeRanges.induct)
  case (1 t i to)
  show ?case
  proof (cases "i < to")
    case False
    then show ?thesis by (simp add: inlineCodeRanges.simps slice_def)
  next
    case True
    then have c: "charAt t i = Some (t ! i)" and s: "slice t i to = t ! i # slice t (i + 1) to"
      using 1(5) by (simp_all add: charAt_def slice_Cons)
    show ?thesis
    proof (cases "t ! i = backtick")
      case False
      then show ?thesis using 1(1)[OF True] 1(5) True c s
        by (simp add: inlineCodeRanges.simps[of t i] codes_scan_skip)
    next
      case bt: True
      note cr = code_run_slice[OF 1(5), of "i + 1"]
      show ?thesis
      proof (cases "code_run (slice t (i + 1) to)")
        case None
        have "inlineCodeRanges t i to = inlineCodeRanges t (i + 1) to"
          using None cr True c bt
          by (auto simp: inlineCodeRanges.simps[of t i] split: option.splits if_splits)
        moreover have "map (\<lambda>r. Code (code_text t r)) (inlineCodeRanges t (i + 1) to) = codes (scan (slice t (i + 1) to))"
        proof (cases "indexOf t [backtick] (i + 1)")
          case None
          then show ?thesis using 1(2)[OF True _ None] 1(5) c bt by simp
        next
          case (Some e)
          then show ?thesis using 1(4)[OF True _ Some] 1(5) c bt cr \<open>code_run _ = None\<close>
            by (auto split: option.splits if_splits)
        qed
        ultimately show ?thesis using s bt None by (simp add: scan.simps(2))
      next
        case (Some x)
        then obtain e where e: "indexOf t [backtick] (i + 1) = Some e" "x = slice t (i + 1) e"
            "e > i + 1 \<and> e < to \<and> (case indexOf t [newline] (i + 1) of None \<Rightarrow> True | Some n \<Rightarrow> e < n)"
          unfolding cr by (auto split: option.splits if_splits)
        have r: "inlineCodeRanges t i to = (i, e + 1) # inlineCodeRanges t (e + 1) to"
          using True c bt e by (simp add: inlineCodeRanges.simps[of t i])
        have "\<not> startsAt t FENCE i"
        proof
          assume "startsAt t FENCE i"
          then obtain z where "drop i t = backtick # backtick # z"
            by (auto simp: startsAt_def FENCE_def prefix_of_append)
          then have "t ! (i + 1) = backtick"
            by (metis Suc_eq_plus1 add.commute drop_Suc_Cons drop_drop hd_drop_conv_nth list.sel(1) drop_eq_Nil
                linorder_not_le list.distinct(1) drop0 plus_1_eq_Suc)
          moreover have "i + 1 < length t" using e(3) 1(5) by simp
          ultimately have "indexOf t [backtick] (i + 1) = Some (i + 1)"
            using indexOf_first[of "i + 1" t "[]" backtick "drop (i + 2) t"] by (simp add: Cons_nth_drop_Suc[symmetric])
          then show False using e by simp
        qed
        then have ct: "code_text t (i, e + 1) = x" using e(2) by (simp add: code_text_def)
        have "codes (scan (slice t i to)) = Code x # codes (scan (slice t (e + 1) to))"
          using scan_slice_code[OF _ True 1(5) bt] Some e by simp
        then show ?thesis using r ct 1(3)[OF True _ e(1) e(3)] 1(5) c bt by simp
      qed
    qed
  qed
qed


section \<open>The fences\<close>

lemma length_FENCE [simp]: "length FENCE = 3"
  by (simp add: FENCE_def)

function body_scan :: "utext \<Rightarrow> nat \<Rightarrow> inline list" where
  \<comment> \<open>the plain reading of a body with fences, from a position\<close>
  "body_scan t pos =
     (case find_fence t pos of
        None \<Rightarrow> scan (drop pos t)
      | Some (op, cl) \<Rightarrow>
          scan (slice t pos op) @ Code (strip_trail (strip_lead (slice t (op + 3) cl))) # body_scan t (cl + 3))"
  by pat_completeness auto
termination by (relation "measure (\<lambda>(b, p). length b - p)") (auto dest!: find_fence_Some)

declare body_scan.simps [simp del]

lemma scan_strip_trail [simp]: "scan (strip_trail t) = scan t"
proof (cases "t \<noteq> [] \<and> last t = newline")
  case True
  then have "t = butlast t @ newline # []" by (metis append_butlast_last_id)
  then have "scan t = scan (butlast t)" using scan_newline[of "butlast t" "[]"] by simp
  then show ?thesis using True by (simp add: strip_trail_def)
qed (auto simp: strip_trail_def)

lemma scan_strip_lead [simp]: "scan (strip_lead t) = scan t"
  by (cases t) (auto simp: strip_lead_def scan_skip no_mark_plain)

lemma indexOf_drop: "indexOf (drop p t) q a = map_option (\<lambda>k. k - p) (indexOf t q (p + a))"
  by (cases "find_from q (drop (p + a) t)") (auto simp: indexOf_def add.commute)

lemma indexOf_ge: "indexOf t q a = Some k \<Longrightarrow> a \<le> k"
  by (auto simp: indexOf_def)

lemma find_fence_drop:
  "find_fence (drop p t) 0 = map_option (\<lambda>(a, b). (a - p, b - p)) (find_fence t p)"
proof (cases "indexOf t FENCE p")
  case None
  then show ?thesis by (simp add: find_fence_def indexOf_drop)
next
  case (Some a)
  then have "p + (a - p + 3) = a + 3" using indexOf_ge[OF Some] by simp
  then show ?thesis using Some
    by (cases "indexOf t FENCE (a + 3)") (simp_all add: find_fence_def indexOf_drop)
qed

lemma find_from_skip: "\<not> prefix_of q (c # cs) \<Longrightarrow> find_from q (c # cs) = map_option Suc (find_from q cs)"
  by simp

lemma find_fence_newline:
  assumes "p < length t" "t ! p = newline"
  shows "find_fence t (p + 1) = find_fence t p"
proof -
  have "drop p t = newline # drop (p + 1) t" using assms by (simp add: Cons_nth_drop_Suc[symmetric])
  then have "indexOf t FENCE p = indexOf t FENCE (p + 1)"
    by (cases "find_from FENCE (drop (p + 1) t)") (auto simp: indexOf_def FENCE_def)
  then show ?thesis by (simp add: find_fence_def)
qed

lemma body_scan_newline:
  assumes "p < length t" "t ! p = newline"
  shows "body_scan t (p + 1) = body_scan t p"
proof (cases "find_fence t p")
  case None
  have "drop p t = newline # drop (p + 1) t" using assms by (simp add: Cons_nth_drop_Suc[symmetric])
  then show ?thesis using None find_fence_newline[OF assms]
    by (simp add: body_scan.simps[of t p] body_scan.simps[of t "Suc p"] scan_skip no_mark_plain)
next
  case (Some ab)
  obtain a b where ab: "ab = (a, b)" by (cases ab)
  have "p + 1 \<le> a" using find_fence_newline[OF assms] find_fence_Some[of t "p + 1" a b] Some ab by simp
  then have "slice t p a = newline # slice t (p + 1) a" using assms by (simp add: slice_Cons)
  then show ?thesis using Some ab find_fence_newline[OF assms]
    by (simp add: body_scan.simps[of t p] body_scan.simps[of t "Suc p"] scan_skip no_mark_plain)
qed

lemma strip_lead_drop:
  "strip_lead (drop p t) = drop (if p < length t \<and> t ! p = newline then p + 1 else p) t"
  by (cases "p < length t") (auto simp: strip_lead_def Cons_nth_drop_Suc[symmetric])

definition segment_marks_of :: "segment list \<Rightarrow> inline list" where
  "segment_marks_of segs = body_marks (concat (map segment_blocks segs))"

lemma segment_marks_of_simps [simp]:
  "segment_marks_of [] = []" "segment_marks_of (ss @ [CodeSeg t]) = segment_marks_of ss @ [Code t]"
  "segment_marks_of (ss @ [TextSeg t]) = segment_marks_of ss @ scan t"
  using segment_marks[of t] by (simp_all add: segment_marks_of_def)

lemma split_loop_marks:
  "p \<le> length t \<Longrightarrow> segment_marks_of (split_loop (drop p t) out) = segment_marks_of out @ body_scan t p"
proof (induction "length t - p" arbitrary: p out rule: less_induct)
  case less
  show ?case
  proof (cases "find_fence t p")
    case None
    then have "find_fence (drop p t) 0 = None" by (simp add: find_fence_drop)
    then show ?thesis using None
      by (auto simp: split_loop.simps[of "drop p t"] body_scan.simps[of t p])
  next
    case (Some ab)
    obtain a b where ab: "ab = (a, b)" by (cases ab)
    have ff: "p \<le> a" "a + 3 \<le> b" "b + 3 \<le> length t" using find_fence_Some Some ab by auto
    have f0: "find_fence (drop p t) 0 = Some (a - p, b - p)" using Some ab by (simp add: find_fence_drop)
    let ?p2 = "if b + 3 < length t \<and> t ! (b + 3) = newline then b + 3 + 1 else b + 3"
    have sl: "slice (drop p t) 0 (a - p) = slice t p a" "slice (drop p t) (a - p + 3) (b - p) = slice t (a + 3) b"
      "drop (b - p + 3) (drop p t) = drop (b + 3) t"
      using ff by (simp_all add: slice_def)
    have p2: "?p2 \<le> length t" "length t - ?p2 < length t - p" using ff by auto
    have bs: "body_scan t ?p2 = body_scan t (b + 3)" using body_scan_newline[of "b + 3" t] by simp
    let ?code = "strip_trail (strip_lead (slice t (a + 3) b))"
    let ?out = "out @ (if strip_trail (slice t p a) \<noteq> [] then [TextSeg (strip_trail (slice t p a))] else []) @ [CodeSeg ?code]"
    have "split_loop (drop p t) out = split_loop (drop ?p2 t) ?out"
      using f0 sl strip_lead_drop[of "b + 3" t] by (simp add: split_loop.simps[of "drop p t"])
    moreover have "segment_marks_of ?out = segment_marks_of out @ scan (slice t p a) @ [Code ?code]"
    proof (cases "strip_trail (slice t p a) = []")
      case True
      then have "scan (slice t p a) = []" using scan_strip_trail[of "slice t p a"] by simp
      then show ?thesis using True by simp
    next
      case False
      then show ?thesis using segment_marks_of_simps(2)[of "out @ [TextSeg (strip_trail (slice t p a))]" ?code]
        by (simp del: segment_marks_of_simps(2))
    qed
    ultimately show ?thesis using less.hyps[OF p2(2,1), of ?out] bs Some ab
      by (simp add: body_scan.simps[of t p])
  qed
qed

lemma parseBody_marks: "body_marks (parseBody t) = body_scan t 0"
  using split_loop_marks[of 0 t "[]"] by (simp add: parseBody_def splitFences_def segment_marks_of_def)

lemma ranges_from_codes:
  "p \<le> length t \<Longrightarrow> map (\<lambda>r. Code (code_text t r)) (ranges_from t p) = codes (body_scan t p)"
proof (induction t p rule: ranges_from.induct)
  case (1 t p)
  show ?case
  proof (cases "find_fence t p")
    case None
    then show ?thesis using inlineCodeRanges_codes[of "length t" t p]
      by (simp add: ranges_from.simps[of t p] body_scan.simps[of t p] slice_to_end)
  next
    case (Some ab)
    obtain a b where ab: "ab = (a, b)" by (cases ab)
    have ff: "p \<le> a" "a + 3 \<le> b" "b + 3 \<le> length t" using find_fence_Some Some ab by auto
    have "startsAt t FENCE a" using Some ab indexOf_Some[of t FENCE p a]
      by (auto simp: find_fence_def startsAt_def FENCE_def split: option.splits)
    then have "code_text t (a, b + 3) = strip_trail (strip_lead (slice t (a + 3) b))" by (simp add: code_text_def)
    then show ?thesis
      using 1(1)[OF Some ab[symmetric]] ff inlineCodeRanges_codes[of a t p] Some ab
      by (simp add: ranges_from.simps[of t p] body_scan.simps[of t p])
  qed
qed

text \<open>C30: \<open>codeRanges\<close>, which reads the body as a plain text, finds exactly the code of the tree that
  \<open>parseBody\<close> makes of it, in the same order: no emphasis, link, quote, list or fence makes the two
  disagree.\<close>

theorem codeRanges_agree:
  "map (\<lambda>r. Code (code_text body r)) (codeRanges body) = filter is_code (body_marks (parseBody body))"
  using ranges_from_codes[of 0 body] by (simp add: codeRanges_def parseBody_marks codes_def)


section \<open>The ranges are in order\<close>

definition ranges_ok :: "nat \<Rightarrow> nat \<Rightarrow> (nat \<times> nat) list \<Rightarrow> bool" where
  \<comment> \<open>within the two positions, none empty, one after the other\<close>
  "ranges_ok a b rs = (list_all (\<lambda>(s, e). a \<le> s \<and> s < e \<and> e \<le> b) rs \<and> sorted_wrt (\<lambda>(s, e) (s', e'). e \<le> s') rs)"

lemma ranges_ok_Nil [simp]: "ranges_ok a b []"
  by (simp add: ranges_ok_def)

lemma ranges_ok_Cons: "a \<le> s \<Longrightarrow> s < e \<Longrightarrow> e \<le> b \<Longrightarrow> ranges_ok e b rs \<Longrightarrow> ranges_ok a b ((s, e) # rs)"
  by (auto simp: ranges_ok_def list_all_iff)

lemma ranges_ok_append: "ranges_ok a m rs \<Longrightarrow> ranges_ok m b ss \<Longrightarrow> a \<le> m \<Longrightarrow> m \<le> b \<Longrightarrow> ranges_ok a b (rs @ ss)"
  by (fastforce simp: ranges_ok_def list_all_iff sorted_wrt_append)

lemma ranges_ok_mono: "ranges_ok a b rs \<Longrightarrow> a' \<le> a \<Longrightarrow> b \<le> b' \<Longrightarrow> ranges_ok a' b' rs"
  by (fastforce simp: ranges_ok_def list_all_iff)

lemma ranges_ok_inCode: "ranges_ok a b rs \<Longrightarrow> inCode rs p \<Longrightarrow> a \<le> p \<and> p < b"
  by (fastforce simp: ranges_ok_def list_all_iff inCode_def list_ex_iff)

lemma inlineCodeRanges_ok: "to \<le> length t \<Longrightarrow> ranges_ok i to (inlineCodeRanges t i to)"
proof (induction t i to rule: inlineCodeRanges.induct)
  case (1 t i to)
  show ?case
  proof (cases "i < to")
    case False
    then show ?thesis by (simp add: inlineCodeRanges.simps)
  next
    case True
    consider (rec) "inlineCodeRanges t i to = inlineCodeRanges t (i + 1) to"
        "ranges_ok (i + 1) to (inlineCodeRanges t (i + 1) to)"
      | (code) e where "inlineCodeRanges t i to = (i, e + 1) # inlineCodeRanges t (e + 1) to"
        "i + 1 < e" "e < to" "ranges_ok (e + 1) to (inlineCodeRanges t (e + 1) to)"
    proof (cases "charAt t i = Some backtick")
      case False
      then show ?thesis using rec 1(1)[OF True False] 1(5) True by (simp add: inlineCodeRanges.simps[of t i])
    next
      case bt: True
      show ?thesis
      proof (cases "indexOf t [backtick] (i + 1)")
        case None
        then show ?thesis using rec 1(2)[OF True _ None] 1(5) True bt by (simp add: inlineCodeRanges.simps[of t i])
      next
        case (Some e)
        show ?thesis
        proof (cases "e > i + 1 \<and> e < to \<and> (case indexOf t [newline] (i + 1) of None \<Rightarrow> True | Some n \<Rightarrow> e < n)")
          case c: True
          then show ?thesis using code[of e] 1(3)[OF True _ Some c] 1(5) True bt Some
            by (simp add: inlineCodeRanges.simps[of t i])
        next
          case c: False
          have "inlineCodeRanges t i to = inlineCodeRanges t (i + 1) to"
            using True bt Some c by (auto simp: inlineCodeRanges.simps[of t i] split: if_splits option.splits)
          then show ?thesis using rec 1(4)[OF True _ Some c] 1(5) bt by simp
        qed
      qed
    qed
    then show ?thesis
    proof cases
      case rec
      then show ?thesis using ranges_ok_mono[of "i + 1" to _ i to] by simp
    next
      case code
      then show ?thesis using ranges_ok_Cons[of i i "e + 1" to] by simp
    qed
  qed
qed

lemma ranges_from_ok: "p \<le> length t \<Longrightarrow> ranges_ok p (length t) (ranges_from t p)"
proof (induction t p rule: ranges_from.induct)
  case (1 t p)
  show ?case
  proof (cases "find_fence t p")
    case None
    then show ?thesis using inlineCodeRanges_ok[of "length t" t p] by (simp add: ranges_from.simps[of t p])
  next
    case (Some ab)
    obtain a b where ab: "ab = (a, b)" by (cases ab)
    have ff: "p \<le> a" "a + 3 \<le> b" "b + 3 \<le> length t" using find_fence_Some Some ab by auto
    have "ranges_ok a (length t) ((a, b + 3) # ranges_from t (b + 3))"
      using 1(1)[OF Some ab[symmetric]] ff by (intro ranges_ok_Cons) auto
    then show ?thesis using ranges_ok_append[OF inlineCodeRanges_ok[of a t p]] ff Some ab
      by (simp add: ranges_from.simps[of t p])
  qed
qed

text \<open>the code ranges of a body lie inside it, none is empty, and they follow one another without
  overlap, so that cutting the body at them is well defined.\<close>

theorem codeRanges_in_order: "ranges_ok 0 (length body) (codeRanges body)"
  using ranges_from_ok[of 0 body] by (simp add: codeRanges_def)

section \<open>Every line of a body has the shape of a parsed line\<close>

fun item_inlines :: "list_item \<Rightarrow> inline list list" and list_inlines :: "list_block \<Rightarrow> inline list list" where
  "item_inlines (ListItem n cs ls) = cs # concat (map list_inlines ls)"
| "list_inlines (ListBlock ord its) = concat (map item_inlines its)"

fun block_inlines :: "block \<Rightarrow> inline list list" where
  \<comment> \<open>the inline lists of a block, in document order\<close>
  "block_inlines (Paragraph ns) = [ns]"
| "block_inlines (CodeBlock t) = []"
| "block_inlines (Quote bs) = concat (map block_inlines bs)"
| "block_inlines (ListB l) = list_inlines l"

lemma outline_inlines:
  "item_inlines it = map (snd \<circ> snd) (item_outline k it)"
  "list_inlines l = map (snd \<circ> snd) (list_outline k l)"
proof (induction it and l arbitrary: k and k rule: item_inlines_list_inlines.induct)
  case (1 n cs ls)
  have "concat (map list_inlines ls) = map (snd \<circ> snd) (outline (k + 1) ls)"
    using 1 by (induction ls) auto
  then show ?case by simp
next
  case (2 ord its)
  then show ?case by (induction its) auto
qed

definition urls_in :: "inline list \<Rightarrow> utext list" where
  "urls_in cs = concat (map inline_urls cs)"

lemma list_urls_inlines:
  "item_urls it = concat (map urls_in (item_inlines it))"
  "list_urls l = concat (map urls_in (list_inlines l))"
proof (induction it and l rule: item_inlines_list_inlines.induct)
  case (1 n cs ls)
  then have "concat (map list_urls ls) = concat (map urls_in (concat (map list_inlines ls)))"
    by (induction ls) auto
  then show ?case by (simp add: urls_in_def[symmetric])
next
  case (2 ord its)
  then show ?case by (induction its) auto
qed

lemma block_urls_inlines: "block_urls b = concat (map urls_in (block_inlines b))"
proof (induction b rule: block_urls.induct)
  case (3 bs)
  then show ?case by (induction bs) auto
qed (simp_all add: list_urls_inlines urls_in_def[symmetric])

definition parsed_block :: "block \<Rightarrow> bool" where
  "parsed_block b = list_all (list_all inline_ok) (block_inlines b)"

lemma parsed_block_simps [simp]:
  "parsed_block (Paragraph ns) = list_all inline_ok ns" "parsed_block (CodeBlock t)"
  "parsed_block (Quote bs) = list_all parsed_block bs"
  by (auto simp: parsed_block_def list_all_iff)

lemma inline_ok_parse: "list_all inline_ok (parseInline t)"
  using inline_loop_shape[of 0 t "[]"] by (simp add: parseInline_def)

lemma parsed_lists: "list_all parsed_block (map ListB (buildLists lls))"
proof -
  have o: "concat (map block_inlines (map ListB ls)) = map (snd \<circ> snd) (outline 0 ls)" for ls
    using outline_inlines(2) by (induction ls) auto
  have "map (snd \<circ> snd) (outline 0 (buildLists lls)) =
      map2 (\<lambda>d ll. parseInline (item_text ll)) (depths 0 lls) lls"
    using foldl_addLine[of 0 "[]" lls] by (simp add: buildLists_def comp_def case_prod_unfold)
  then have "list_all (list_all inline_ok) (concat (map block_inlines (map ListB (buildLists lls))))"
    unfolding o using inline_ok_parse by (auto simp: set_zip list_all_iff[of "list_all inline_ok"])
  then show ?thesis by (auto simp: parsed_block_def list_all_iff[of "list_all inline_ok"] list_all_iff[of parsed_block])
qed

lemma parsed_parseLines: "list_all parsed_block (parseLines ls)"
proof (induction ls rule: parseLines.induct)
  case (2 l ls)
  then show ?case using parsed_lists
    by (cases "isQuote l"; cases "isList l") (auto simp: parseLines.simps(2) inline_ok_parse)
qed simp

lemma parsed_parseBody: "list_all parsed_block (parseBody t)"
proof -
  have "list_all parsed_block (segment_blocks s)" for s
    using parsed_parseLines by (cases s) simp_all
  then show ?thesis by (auto simp: parseBody_def list_all_iff)
qed

definition safe_url :: "utext \<Rightarrow> bool" where
  "safe_url u = (scheme u \<noteq> None \<and> list_all (\<lambda>c. \<not> is_space c \<and> c \<notin> set (units ''<>`'')) u)"

lemma inline_urls_safe: "inline_ok n \<Longrightarrow> list_all safe_url (inline_urls n)"
proof (induction n rule: inline_urls.induct)
  case (2 k cs)
  then have "\<forall>c\<in>set cs. list_all safe_url (inline_urls c)" by (auto simp: list_all_iff)
  then show ?case by (auto simp: list_all_iff)
qed (auto simp: safe_url_def)

text \<open>C31: whatever the body says, every address that is drawn as a link or looked up for a card starts
  with \<open>http://\<close> or \<open>https://\<close> (no \<open>javascript:\<close> link can come out of a message) and holds no white
  space, angle bracket or backtick.\<close>

theorem findUrls_safe: "list_all safe_url (findUrls body)"
proof -
  have "\<forall>b\<in>set (parseBody body). list_all safe_url (block_urls b)"
  proof
    fix b assume "b \<in> set (parseBody body)"
    then have "parsed_block b" using parsed_parseBody by (simp add: list_all_iff)
    then show "list_all safe_url (block_urls b)"
      using inline_urls_safe by (fastforce simp: block_urls_inlines urls_in_def parsed_block_def list_all_iff)
  qed
  then show ?thesis by (auto simp: findUrls_def list_all_iff)
qed

end
