(* ===== verification/Mentions.thy ===== *)
theory Mentions
  imports BodyCode
begin

text \<open>
  \<open>web/lib/chat/format/mentions.ts\<close>: the candidates of the completion of \<open>@\<close>, and whether a body about
  to be sent mentions everyone. The theorem shows that the confirmation before sending
  (\<open>mentionAll\<close>, a scan of the text) asks exactly when the message, once drawn, holds such a
  mention. The case mapping of ECMAScript (\<open>toLowerCase\<close>) is the parameter \<open>lower\<close>.
\<close>

section \<open>Candidates\<close>

datatype all_kind = AllChannel | AllHere

datatype mention_candidate =
    UserCandidate (candidate_id: utext) (candidate_handle: utext) (candidate_name: utext)
      (candidate_avatar: "utext option")
  | AllCandidate (candidate_kind: all_kind) (candidate_description: utext)

definition all_kind_text :: "all_kind \<Rightarrow> utext" where
  "all_kind_text k = (case k of AllChannel \<Rightarrow> units ''channel'' | AllHere \<Rightarrow> units ''here'')"

definition is_user :: "mention_candidate \<Rightarrow> bool" where
  "is_user c = (case c of UserCandidate _ _ _ _ \<Rightarrow> True | AllCandidate _ _ \<Rightarrow> False)"

definition filterCandidates ::
    "(utext \<Rightarrow> utext) \<Rightarrow> mention_candidate list \<Rightarrow> utext \<Rightarrow> nat \<Rightarrow> mention_candidate list" where
  "filterCandidates lower candidates query limit =
     (let q = lower query;
          users = filter is_user candidates;
          byHandle = filter (\<lambda>c. prefix_of q (lower (candidate_handle c))) users;
          seen = map candidate_id byHandle;
          byName = filter (\<lambda>c. candidate_id c \<notin> set seen \<and> prefix_of q (lower (candidate_name c))) users;
          alls = filter (\<lambda>c. \<not> is_user c \<and> prefix_of q (all_kind_text (candidate_kind c))) candidates
      in take limit (alls @ byHandle @ byName))"

definition candidateKey :: "mention_candidate \<Rightarrow> utext" where
  "candidateKey c = (case c of UserCandidate i _ _ _ \<Rightarrow> i | AllCandidate k _ \<Rightarrow> all_kind_text k)"

section \<open>Mentions of everyone\<close>

lemma MENTION_length: "Some (k, raw) = MENTION t \<Longrightarrow> 0 < length raw" "MENTION t = Some (k, raw) \<Longrightarrow> 0 < length raw"
  using MENTION_Some[of t k raw] by auto

function token_matches :: "utext \<Rightarrow> nat \<Rightarrow> (nat \<times> mention_node) list" where
  \<comment> \<open>\<open>body.matchAll(TOKEN)\<close> from a position: where each match starts and what it is\<close>
  "token_matches t i =
     (if i < length t then
        (case MENTION (drop i t) of
           Some (k, raw) \<Rightarrow> (i, k) # token_matches t (i + length raw)
         | None \<Rightarrow> token_matches t (i + 1))
      else [])"
  by pat_completeness auto
termination
proof (relation "measure (\<lambda>(t, i). length t - i)", goal_cases)
  case (3 t i p k raw)
  then have "0 < length raw" using MENTION_length by blast
  then have "length t - (i + length raw) < length t - i" using 3(1) by linarith
  then show ?case by simp
qed auto

declare token_matches.simps [simp del]

fun mention_loop :: "(nat \<times> nat) list \<Rightarrow> (nat \<times> mention_node) list \<Rightarrow> bool \<Rightarrow> all_kind option" where
  \<comment> \<open>the loop of \<open>mentionAll\<close> over the matches, with its variable \<open>here\<close>\<close>
  "mention_loop code [] here = (if here then Some AllHere else None)"
| "mention_loop code ((i, k) # ms) here =
     (if inCode code i then mention_loop code ms here
      else if k = MChannel then Some AllChannel
      else mention_loop code ms (here \<or> k = MHere))"

definition mentionAll :: "utext \<Rightarrow> all_kind option" where
  "mentionAll body = mention_loop (codeRanges body) (token_matches body 0) False"

section \<open>The scan of the text and the tree agree\<close>

fun kinds :: "inline list \<Rightarrow> mention_node list" where
  "kinds (MentionN k raw # ns) = k # kinds ns"
| "kinds (n # ns) = kinds ns"
| "kinds [] = []"

lemma kinds_append [simp]: "kinds (ms @ ns) = kinds ms @ kinds ns"
  by (induction ms rule: kinds.induct) auto

definition token_kind :: "utext \<Rightarrow> nat \<Rightarrow> mention_node option" where
  "token_kind t p = map_option fst (MENTION (drop p t))"

definition tokens_in :: "utext \<Rightarrow> (nat \<Rightarrow> bool) \<Rightarrow> nat \<Rightarrow> nat \<Rightarrow> (nat \<times> mention_node) list" where
  \<comment> \<open>every position of \<open>[a, b)\<close> with the property where a token starts\<close>
  "tokens_in t P a b = concat (map (\<lambda>p. case token_kind t p of Some k \<Rightarrow> if P p then [(p, k)] else [] | None \<Rightarrow> []) [a..<b])"

lemma tokens_in_split: "a \<le> m \<Longrightarrow> m \<le> b \<Longrightarrow> tokens_in t P a b = tokens_in t P a m @ tokens_in t P m b"
  using upt_add_eq_append[of a m "b - m"] by (simp add: tokens_in_def)

lemma tokens_in_cong: "(\<And>p. a \<le> p \<Longrightarrow> p < b \<Longrightarrow> P p = Q p) \<Longrightarrow> tokens_in t P a b = tokens_in t Q a b"
  by (auto simp: tokens_in_def intro!: arg_cong[where f = concat] map_cong split: option.splits)

lemma tokens_in_none: "(\<And>p. a \<le> p \<Longrightarrow> p < b \<Longrightarrow> P p \<Longrightarrow> token_kind t p = None) \<Longrightarrow> tokens_in t P a b = []"
  by (auto simp: tokens_in_def split: option.splits)

lemma tokens_in_same [simp]: "tokens_in t P a a = []"
  by (simp add: tokens_in_def)

lemma tokens_in_Cons:
  "a < b \<Longrightarrow> tokens_in t P a b =
    (case token_kind t a of Some k \<Rightarrow> if P a then [(a, k)] else [] | None \<Rightarrow> []) @ tokens_in t P (a + 1) b"
  using upt_conv_Cons[of a b] by (simp add: tokens_in_def)

lemma token_kind_head: "token_kind t p = Some k \<Longrightarrow> p < length t \<and> t ! p = 60"
proof -
  assume "token_kind t p = Some k"
  then obtain raw where m: "MENTION (drop p t) = Some (k, raw)" by (auto simp: token_kind_def)
  then obtain r where r: "drop p t = 60 # r"
    using mention_token_head[of k] by (auto simp: MENTION_iff prefix_of_append)
  then have "p < length t" by (metis drop_eq_Nil leI list.distinct(1))
  then show ?thesis using r by (simp add: Cons_nth_drop_Suc[symmetric])
qed

lemma token_inside:
  assumes "MENTION (drop p t) = Some (k, raw)" "p < q" "q < p + length raw"
  shows "token_kind t q = None \<and> q < length t \<and> t ! q \<noteq> backtick \<and> t ! q \<noteq> 60"
proof -
  have raw: "mention_valid k" "raw = mention_token k" "prefix_of raw (drop p t)"
    using assms(1) by (auto simp: MENTION_iff)
  then obtain r where r: "drop p t = raw @ r" by (auto simp: prefix_of_append)
  have l: "length raw \<le> length t - p" using r by (metis length_append length_drop le_add1)
  then have q: "q < length t" using assms(2,3) by linarith
  obtain c xs where x: "raw = 60 # xs" using raw(2) mention_token_head[of k] by auto
  have "60 \<notin> set xs" "backtick \<notin> set xs"
    using x raw(1,2) alnum_no[of "case k of MUser d \<Rightarrow> d | _ \<Rightarrow> []"]
    by (cases k; auto simp: list_all_iff is_alnum_def is_digit_def)+
  moreover have "q - p < length raw" using assms(2,3) by linarith
  then have "drop p t ! (q - p) = raw ! (q - p)" unfolding r using \<open>q - p < length raw\<close> by (simp add: nth_append)
  then have "t ! q = raw ! (q - p)" using assms(2) q by simp
  moreover have "raw ! (q - p) \<in> set xs" using x assms(2,3) by (cases "q - p") auto
  ultimately have "t ! q \<noteq> backtick \<and> t ! q \<noteq> 60" by metis
  then show ?thesis using q token_kind_head[of t q] by (cases "token_kind t q") auto
qed

lemma token_matches_in: "token_matches t i = tokens_in t (\<lambda>_. True) i (length t)"
proof (induction t i rule: token_matches.induct)
  case (1 t i)
  show ?case
  proof (cases "i < length t")
    case False
    then show ?thesis by (simp add: token_matches.simps tokens_in_def)
  next
    case True
    show ?thesis
    proof (cases "MENTION (drop i t)")
      case None
      then show ?thesis using 1(1)[OF True None] True
        by (simp add: token_matches.simps[of t i] tokens_in_Cons token_kind_def)
    next
      case (Some p)
      obtain k raw where p: "p = (k, raw)" by (cases p)
      then have m: "MENTION (drop i t) = Some (k, raw)" using Some by simp
      have b: "raw \<noteq> []" "i + length raw \<le> length t"
        using MENTION_Some[OF m] slice_prefix[of i t raw] by auto
      then have "1 \<le> length raw" by (cases raw) auto
      then have "tokens_in t (\<lambda>_. True) i (length t) =
          (i, k) # tokens_in t (\<lambda>_. True) (i + 1) (i + length raw) @ tokens_in t (\<lambda>_. True) (i + length raw) (length t)"
        using tokens_in_Cons[OF True] m b tokens_in_split[of "i + 1" "i + length raw" "length t"]
        by (simp add: token_kind_def)
      moreover have "tokens_in t (\<lambda>_. True) (i + 1) (i + length raw) = []"
        using token_inside[OF m] by (intro tokens_in_none) auto
      ultimately show ?thesis using 1(2)[OF True Some] True m p
        by (simp add: token_matches.simps[of t i])
    qed
  qed
qed


lemma kinds_scan_none: "c \<noteq> 60 \<Longrightarrow> c \<noteq> backtick \<Longrightarrow> kinds (scan (c # cs)) = kinds (scan cs)"
  by (simp add: scan_skip no_mark_plain)

text \<open>A token that starts before a fence or the end does not cross it.\<close>

lemma MENTION_slice:
  assumes "p < to" "to \<le> length t" "to = length t \<or> t ! to = backtick"
  shows "MENTION (slice t p to) = MENTION (drop p t)"
proof (cases "MENTION (drop p t)")
  case None
  have "drop p t = slice t p to @ drop to t" using drop_slice assms(1) by simp
  then show ?thesis using None MENTION_mono[of "slice t p to" _ "drop to t"]
    by (cases "MENTION (slice t p to)") auto
next
  case (Some kr)
  then obtain k raw where m: "MENTION (drop p t) = Some (k, raw)" "kr = (k, raw)" by (cases kr) auto
  have b: "p + length raw \<le> length t" "raw \<noteq> []"
    using MENTION_Some[OF m(1)] slice_prefix[of p t raw] by auto
  have "p + length raw \<le> to"
  proof (rule ccontr)
    assume "\<not> p + length raw \<le> to"
    then have "to < p + length raw" by simp
    then show False using token_inside[OF m(1) assms(1)] assms(3) b by auto
  qed
  then have "prefix_of raw (slice t p to)"
    using MENTION_iff[of "drop p t" k raw] m(1)
    by (auto simp: slice_def prefix_of_iff min_def)
  then show ?thesis using m MENTION_iff[of "drop p t" k raw] MENTION_of_token[of k "slice t p to"] by simp
qed

lemma kinds_slice:
  assumes "i < to" "to \<le> length t" "to = length t \<or> t ! to = backtick" "t ! i \<noteq> backtick"
  shows "kinds (scan (slice t i to)) =
    (case token_kind t i of Some k \<Rightarrow> [k] | None \<Rightarrow> []) @ kinds (scan (slice t (i + 1) to))"
proof (cases "MENTION (drop i t)")
  case None
  then have "no_mark (slice t i to)"
    using MENTION_slice[OF assms(1-3)] assms slice_Cons[of i t to] by (auto simp: no_mark_def)
  then show ?thesis using None assms(1,2) slice_Cons[of i t to] scan_skip by (simp add: token_kind_def)
next
  case (Some kr)
  then obtain k raw where m: "MENTION (drop i t) = Some (k, raw)" "kr = (k, raw)" by (cases kr) auto
  have ms: "MENTION (slice t i to) = Some (k, raw)" using MENTION_slice[OF assms(1-3)] m by simp
  obtain r where r: "slice t i to = raw @ r" using MENTION_Some[OF ms] by blast
  obtain c xs where x: "raw = c # xs" using MENTION_Some[OF m(1)] by (cases raw) auto
  have xs: "slice t (i + 1) to = xs @ r" using r x slice_Cons[of i t to] assms(1,2) by simp
  have "60 \<notin> set xs \<and> backtick \<notin> set xs"
  proof -
    have "raw = mention_token k" "mention_valid k" using m(1) by (auto simp: MENTION_iff)
    then show ?thesis using x alnum_no[of "case k of MUser d \<Rightarrow> d | _ \<Rightarrow> []"]
      by (cases k; auto simp: list_all_iff is_alnum_def is_digit_def)
  qed
  then have "scan (slice t (i + 1) to) = scan r" using xs scan_plain by simp
  moreover have "scan (slice t i to) = MentionN k raw # scan r" using scan_mention[OF ms] r by simp
  ultimately show ?thesis using m by (simp add: token_kind_def)
qed

lemma inCode_Cons: "inCode ((s, e) # rs) p = (s \<le> p \<and> p < e \<or> inCode rs p)"
  by (simp add: inCode_def)

lemma inCode_append: "inCode (rs @ ss) p = (inCode rs p \<or> inCode ss p)"
  by (auto simp: inCode_def)

text \<open>One segment: the tokens outside its inline code are the mentions of the plain reading.\<close>

lemma segment_tokens:
  "to \<le> length t \<Longrightarrow> to = length t \<or> t ! to = backtick \<Longrightarrow>
    map snd (tokens_in t (\<lambda>p. \<not> inCode (inlineCodeRanges t i to) p) i to) = kinds (scan (slice t i to))"
proof (induction t i to rule: inlineCodeRanges.induct)
  case (1 t i to)
  note to = 1(5,6)
  show ?case
  proof (cases "i < to")
    case False
    then show ?thesis by (simp add: tokens_in_def slice_def)
  next
    case True
    then have il: "i < length t" using to by simp
    have step: ?thesis if e: "inlineCodeRanges t i to = inlineCodeRanges t (i + 1) to"
      and ih: "map snd (tokens_in t (\<lambda>p. \<not> inCode (inlineCodeRanges t (i + 1) to) p) (i + 1) to) = kinds (scan (slice t (i + 1) to))"
      and bt: "t ! i = backtick \<Longrightarrow> code_run (slice t (i + 1) to) = None"
    proof -
      have "\<not> inCode (inlineCodeRanges t (i + 1) to) i"
        using ranges_ok_inCode[OF inlineCodeRanges_ok[OF to(1)], of "i + 1" i] by auto
      moreover have "kinds (scan (slice t i to)) =
          (case token_kind t i of Some k \<Rightarrow> [k] | None \<Rightarrow> []) @ kinds (scan (slice t (i + 1) to))"
      proof (cases "t ! i = backtick")
        case True
        then have "token_kind t i = None" using token_kind_head[of t i] by (cases "token_kind t i") auto
        then show ?thesis using True bt slice_Cons[of i t to] \<open>i < to\<close> il by (simp add: scan.simps(2))
      next
        case False
        then show ?thesis using kinds_slice True to by simp
      qed
      ultimately show ?thesis unfolding e using ih True
        by (simp add: tokens_in_Cons split: option.splits)
    qed
    show ?thesis
    proof (cases "t ! i = backtick")
      case False
      then show ?thesis
        using step 1(1)[OF True _ to] True il by (simp add: inlineCodeRanges.simps[of t i] charAt_def)
    next
      case bt: True
      then have c: "charAt t i = Some backtick" using il by (simp add: charAt_def)
      note cr = code_run_slice[OF to(1), of "i + 1"]
      let ?C = "\<lambda>e. e > i + 1 \<and> e < to \<and> (case indexOf t [newline] (i + 1) of None \<Rightarrow> True | Some n \<Rightarrow> e < n)"
      consider (none) "indexOf t [backtick] (i + 1) = None" | (code) e where "indexOf t [backtick] (i + 1) = Some e" "?C e"
        | (no) e where "indexOf t [backtick] (i + 1) = Some e" "\<not> ?C e" by fastforce
      then show ?thesis
      proof cases
        case none
        have "inlineCodeRanges t i to = inlineCodeRanges t (i + 1) to"
          using none True c by (simp add: inlineCodeRanges.simps[of t i])
        then show ?thesis using step 1(2)[OF True _ none to] c cr none by simp
      next
        case no
        have "inlineCodeRanges t i to = inlineCodeRanges t (i + 1) to"
          using no True c by (auto simp: inlineCodeRanges.simps[of t i] split: if_splits option.splits)
        moreover have "code_run (slice t (i + 1) to) = None" using cr no by (auto split: if_splits option.splits)
        ultimately show ?thesis using step 1(4)[OF True _ no(1) no(2) to] c by simp
      next
        case code
        have r: "inlineCodeRanges t i to = (i, e + 1) # inlineCodeRanges t (e + 1) to"
          using code True c by (simp add: inlineCodeRanges.simps[of t i])
        have ih: "map snd (tokens_in t (\<lambda>p. \<not> inCode (inlineCodeRanges t (e + 1) to) p) (e + 1) to) = kinds (scan (slice t (e + 1) to))"
          using 1(3)[OF True _ code to] c by simp
        have "tokens_in t (\<lambda>p. \<not> inCode (inlineCodeRanges t i to) p) i to =
            tokens_in t (\<lambda>p. \<not> inCode (inlineCodeRanges t i to) p) i (e + 1) @
            tokens_in t (\<lambda>p. \<not> inCode (inlineCodeRanges t i to) p) (e + 1) to"
          using code(2) by (intro tokens_in_split) auto
        moreover have "tokens_in t (\<lambda>p. \<not> inCode (inlineCodeRanges t i to) p) i (e + 1) = []"
          by (rule tokens_in_none) (auto simp: r inCode_Cons)
        moreover have "tokens_in t (\<lambda>p. \<not> inCode (inlineCodeRanges t i to) p) (e + 1) to =
            tokens_in t (\<lambda>p. \<not> inCode (inlineCodeRanges t (e + 1) to) p) (e + 1) to"
          by (rule tokens_in_cong) (auto simp: r inCode_Cons)
        moreover have "code_run (slice t (i + 1) to) = Some (slice t (i + 1) e)" using cr code by simp
        then have "scan (slice t i to) = Code (slice t (i + 1) e) # scan (slice t (e + 1) to)"
          using scan_slice_code[OF _ True to(1) bt] code(2) by simp
        ultimately show ?thesis using ih by simp
      qed
    qed
  qed
qed


lemma fence_backtick: "find_fence t p = Some (a, b) \<Longrightarrow> t ! a = backtick"
proof -
  assume "find_fence t p = Some (a, b)"
  then have "indexOf t FENCE p = Some a" "b + 3 \<le> length t" "a + 3 \<le> b"
    using find_fence_Some[of t p a b] by (auto simp: find_fence_def split: option.splits)
  then show ?thesis using indexOf_Some[of t FENCE p a]
    by (auto simp: FENCE_def prefix_of_append Cons_nth_drop_Suc[symmetric])
qed

lemma body_tokens:
  "p \<le> length t \<Longrightarrow>
    map snd (tokens_in t (\<lambda>q. \<not> inCode (ranges_from t p) q) p (length t)) = kinds (body_scan t p)"
proof (induction t p rule: ranges_from.induct)
  case (1 t p)
  show ?case
  proof (cases "find_fence t p")
    case None
    then show ?thesis using segment_tokens[of "length t" t p]
      by (simp add: ranges_from.simps[of t p] body_scan.simps[of t p] slice_to_end)
  next
    case (Some ab)
    obtain a b where ab: "ab = (a, b)" by (cases ab)
    then have f: "find_fence t p = Some (a, b)" using Some by simp
    have ff: "p \<le> a" "a + 3 \<le> b" "b + 3 \<le> length t" using find_fence_Some[OF f] by auto
    let ?R = "ranges_from t p" and ?I = "inlineCodeRanges t p a" and ?S = "ranges_from t (b + 3)"
    have R: "?R = ?I @ (a, b + 3) # ?S" using f by (simp add: ranges_from.simps[of t p])
    have okI: "ranges_ok p a ?I" using inlineCodeRanges_ok[of a t p] ff by simp
    have okS: "ranges_ok (b + 3) (length t) ?S" using ranges_from_ok[of "b + 3" t] ff by simp
    let ?P = "\<lambda>R q. \<not> inCode R q"
    have "tokens_in t (?P ?R) p (length t) =
        tokens_in t (?P ?R) p a @ tokens_in t (?P ?R) a (b + 3) @ tokens_in t (?P ?R) (b + 3) (length t)"
      using tokens_in_split[of p a "length t"] tokens_in_split[of a "b + 3" "length t"] ff by simp
    moreover have "tokens_in t (?P ?R) p a = tokens_in t (?P ?I) p a"
      using ranges_ok_inCode[OF okS] ff
      by (intro tokens_in_cong) (auto simp: R inCode_append inCode_Cons dest!: ranges_ok_inCode[OF okS])
    moreover have "tokens_in t (?P ?R) a (b + 3) = []"
      by (rule tokens_in_none) (auto simp: R inCode_append inCode_Cons)
    moreover have "tokens_in t (?P ?R) (b + 3) (length t) = tokens_in t (?P ?S) (b + 3) (length t)"
      using ff by (intro tokens_in_cong) (auto simp: R inCode_append inCode_Cons dest!: ranges_ok_inCode[OF okI])
    moreover have "map snd (tokens_in t (?P ?I) p a) = kinds (scan (slice t p a))"
      using segment_tokens[of a t p] fence_backtick[OF f] ff by simp
    moreover have "map snd (tokens_in t (?P ?S) (b + 3) (length t)) = kinds (body_scan t (b + 3))"
      using 1(1)[OF Some ab[symmetric]] ff by simp
    ultimately show ?thesis using f by (simp add: body_scan.simps[of t p])
  qed
qed

lemma mention_loop_spec:
  "mention_loop code ms here =
    (let ks = map snd (filter (\<lambda>m. \<not> inCode code (fst m)) ms) in
     if MChannel \<in> set ks then Some AllChannel
     else if here \<or> MHere \<in> set ks then Some AllHere else None)"
  by (induction code ms here rule: mention_loop.induct) (auto simp: Let_def simp del: set_map set_filter)

lemma filter_tokens: "filter (\<lambda>m. P (fst m)) (tokens_in t (\<lambda>_. True) a b) = tokens_in t P a b"
proof -
  have "filter (\<lambda>m. P (fst m)) (concat (map (\<lambda>p. case token_kind t p of Some k \<Rightarrow> if True then [(p, k)] else [] | None \<Rightarrow> []) xs)) =
      concat (map (\<lambda>p. case token_kind t p of Some k \<Rightarrow> if P p then [(p, k)] else [] | None \<Rightarrow> []) xs)" for xs
    by (induction xs) (auto split: option.splits)
  then show ?thesis unfolding tokens_in_def .
qed

definition drawn_mentions :: "utext \<Rightarrow> mention_node list" where
  \<comment> \<open>the mentions of the drawn message\<close>
  "drawn_mentions body = kinds (body_marks (parseBody body))"

text \<open>the confirmation before sending asks for what will be drawn: \<open>mentionAll\<close>, which looks for the
  tokens of everyone in the text outside its code ranges, answers \<open>channel\<close> when the parsed message
  mentions the channel, \<open>here\<close> when it mentions only those present, and nothing otherwise.\<close>

theorem mentionAll_drawn:
  "mentionAll body =
     (if MChannel \<in> set (drawn_mentions body) then Some AllChannel
      else if MHere \<in> set (drawn_mentions body) then Some AllHere else None)"
proof -
  have "map snd (filter (\<lambda>m. \<not> inCode (codeRanges body) (fst m)) (token_matches body 0)) = drawn_mentions body"
    unfolding token_matches_in filter_tokens[where P = "\<lambda>p. \<not> inCode (codeRanges body) p"]
    using body_tokens[of 0 body] by (simp add: codeRanges_def drawn_mentions_def parseBody_marks)
  then show ?thesis by (simp add: mentionAll_def mention_loop_spec Let_def)
qed

lemma filterCandidates_length: "length (filterCandidates lower cs q limit) \<le> limit"
  by (simp add: filterCandidates_def Let_def)

lemma filterCandidates_sound:
  "c \<in> set (filterCandidates lower cs q limit) \<Longrightarrow> c \<in> set cs \<and>
    (if is_user c then prefix_of (lower q) (lower (candidate_handle c)) \<or> prefix_of (lower q) (lower (candidate_name c))
     else prefix_of (lower q) (all_kind_text (candidate_kind c)))"
  by (auto simp: filterCandidates_def Let_def dest!: in_set_takeD)

end
