(* ===== verification/Highlight.thy ===== *)
theory Highlight
  imports Prelude JsText
begin

text \<open>
  \<open>web/lib/chat/format/highlight.ts\<close>: the parts of a message that matched a search, found in the
  normalised text and cut from the original one through a table of positions. NFKC and the case
  mapping (\<open>normalizeForSearch\<close>) are the parameter \<open>norm\<close>; nothing is assumed of it. The theorems
  show that highlighting never loses, adds or moves a character, and what a match inside a character
  that the normalisation expands gives.
\<close>

section \<open>Definitions\<close>

record highlight_part =
  part_text :: utext
  part_hit :: bool

fun norm_loop :: "(utext \<Rightarrow> utext) \<Rightarrow> nat \<Rightarrow> utext list \<Rightarrow> utext \<times> nat list" where
  \<comment> \<open>the loop of \<open>normalizedWithMap\<close> from the position \<open>at\<close>\<close>
  "norm_loop norm at [] = ([], [])"
| "norm_loop norm at (ch # chs) =
     (let n = norm ch; (r, m) = norm_loop norm (at + length ch) chs in (n @ r, replicate (length n) at @ m))"

definition normalizedWithMap :: "(utext \<Rightarrow> utext) \<Rightarrow> utext \<Rightarrow> utext \<times> nat list" where
  "normalizedWithMap norm t =
     (let (n, m) = norm_loop norm 0 (code_points t) in (n, m @ [length t]))"

definition compare_ranges :: "nat \<times> nat \<Rightarrow> nat \<times> nat \<Rightarrow> int" where
  "compare_ranges a b =
     (if fst a \<noteq> fst b then int (fst a) - int (fst b) else int (snd a) - int (snd b))"

fun merge_loop :: "nat \<times> nat \<Rightarrow> (nat \<times> nat) list \<Rightarrow> (nat \<times> nat) list" where
  \<comment> \<open>the loop of \<open>merge\<close>: the last range it has pushed, and those to come\<close>
  "merge_loop prev [] = [prev]"
| "merge_loop prev (r # rs) =
     (if fst r \<le> snd prev then merge_loop (fst prev, max (snd prev) (snd r)) rs
      else prev # merge_loop r rs)"

definition merge_ranges :: "(nat \<times> nat) list \<Rightarrow> (nat \<times> nat) list" where
  "merge_ranges rs = (case js_sort compare_ranges rs of [] \<Rightarrow> [] | r # rest \<Rightarrow> merge_loop r rest)"

function occurrences :: "utext \<Rightarrow> utext \<Rightarrow> nat \<Rightarrow> nat list" where
  \<comment> \<open>the search for one needle, one character on after each match\<close>
  "occurrences norm needle from =
     (if needle = [] then [] else
      case indexOf norm needle from of None \<Rightarrow> [] | Some p \<Rightarrow> p # occurrences norm needle (p + 1))"
  by pat_completeness auto
termination
proof (relation "measure (\<lambda>(n, d, f). length n + 1 - f)", goal_cases)
  case (2 n d f p)
  then have "f \<le> p" "p < length n" using indexOf_bound[of n d f p] by (cases d; auto)+
  then show ?case by auto
qed simp

declare occurrences.simps [simp del]

fun cut_parts :: "utext \<Rightarrow> nat \<Rightarrow> (nat \<times> nat) list \<Rightarrow> highlight_part list" where
  \<comment> \<open>the loop over the merged ranges, and what is left after the last one\<close>
  "cut_parts t at [] =
     (if at < length t then [\<lparr>part_text = drop at t, part_hit = False\<rparr>] else [])"
| "cut_parts t at (r # rs) =
     (if fst r > at then [\<lparr>part_text = slice t at (fst r), part_hit = False\<rparr>] else [])
     @ \<lparr>part_text = slice t (fst r) (snd r), part_hit = True\<rparr> # cut_parts t (snd r) rs"

definition highlightParts :: "(utext \<Rightarrow> utext) \<Rightarrow> utext \<Rightarrow> utext list \<Rightarrow> highlight_part list" where
  "highlightParts norm t terms =
     (let needles = filter (\<lambda>n. n \<noteq> []) (map norm terms) in
      if t = [] then []
      else if needles = [] then [\<lparr>part_text = t, part_hit = False\<rparr>]
      else
        let (normal, table) = normalizedWithMap norm t;
            found = concat (map (\<lambda>needle. map (\<lambda>p. (table ! p, table ! (p + length needle)))
                      (occurrences normal needle 0)) needles)
        in if found = [] then [\<lparr>part_text = t, part_hit = False\<rparr>]
           else cut_parts t 0 (merge_ranges found))"

section \<open>The table of positions\<close>

lemma norm_loop_map:
  "norm_loop norm p chs = (n, m) \<Longrightarrow>
    length m = length n \<and> sorted m \<and> (\<forall>x\<in>set m. p \<le> x \<and> x \<le> p + length (concat chs))"
proof (induction norm p chs arbitrary: n m rule: norm_loop.induct)
  case (2 norm p ch chs)
  obtain r k where rk: "norm_loop norm (p + length ch) chs = (r, k)" by fastforce
  have "length k = length r" "sorted k" "\<forall>x\<in>set k. p + length ch \<le> x \<and> x \<le> p + length ch + length (concat chs)"
    using 2(1)[OF refl rk] by auto
  moreover have "n = norm ch @ r" "m = replicate (length (norm ch)) p @ k" using 2(2) rk by (auto simp: Let_def)
  ultimately show ?case by (fastforce simp: sorted_append)
qed simp

lemma normalizedWithMap_table:
  assumes "normalizedWithMap norm t = (n, table)"
  shows "length table = length n + 1 \<and> sorted table \<and> (\<forall>x\<in>set table. x \<le> length t)"
proof -
  obtain r k where rk: "norm_loop norm 0 (code_points t) = (r, k)" by fastforce
  then have "n = r" "table = k @ [length t]" using assms by (auto simp: normalizedWithMap_def)
  then show ?thesis using norm_loop_map[OF rk] by (auto simp: code_points_concat sorted_append)
qed

lemma occurrences_bound: "p \<in> set (occurrences n d f) \<Longrightarrow> p + length d \<le> length n"
proof (induction n d f rule: occurrences.induct)
  case (1 n d f)
  have d: "d \<noteq> []" using 1(2) by (auto simp: occurrences.simps)
  obtain q where q: "indexOf n d f = Some q"
  proof (cases "indexOf n d f")
    case None
    then show ?thesis using 1(2) d by (auto simp: occurrences.simps[of n d f])
  next
    case (Some q)
    then show ?thesis using that by blast
  qed
  then have "p = q \<or> p \<in> set (occurrences n d (q + 1))" using 1(2) d by (auto simp: occurrences.simps[of n d f])
  then show ?case using 1(1)[OF d q] indexOf_bound[OF q d] by auto
qed

section \<open>Merging\<close>

definition ranges_in :: "nat \<Rightarrow> (nat \<times> nat) list \<Rightarrow> bool" where
  "ranges_in l rs = list_all (\<lambda>(a, b). a \<le> b \<and> b \<le> l) rs"

lemma compare_ranges_comparator: "comparator compare_ranges (\<lambda>_. True)"
  by unfold_locales (auto simp: compare_ranges_def split: if_splits)

interpretation range_order: comparator compare_ranges "\<lambda>_. True"
  by (rule compare_ranges_comparator)

lemma sorted_starts: "sorted_wrt (\<lambda>a b. fst a \<le> fst b) (js_sort compare_ranges rs)"
  by (rule sorted_wrt_mono_rel[OF _ range_order.sort_sorted]) (auto simp: compare_ranges_def split: if_splits)

lemma merge_loop_ok:
  assumes "sorted_wrt (\<lambda>a b. fst a \<le> fst b) (r # rs)" "ranges_in l (r # rs)"
  shows "ranges_in l (merge_loop r rs) \<and> sorted_wrt (\<lambda>a b. snd a < fst b) (merge_loop r rs)
    \<and> (\<forall>x\<in>set (merge_loop r rs). fst r \<le> fst x) \<and> merge_loop r rs \<noteq> []"
  using assms
proof (induction r rs rule: merge_loop.induct)
  case (1 r)
  then show ?case by simp
next
  case (2 r s rs)
  show ?case
  proof (cases "fst s \<le> snd r")
    case True
    have "sorted_wrt (\<lambda>a b. fst a \<le> fst b) ((fst r, max (snd r) (snd s)) # rs)"
      "ranges_in l ((fst r, max (snd r) (snd s)) # rs)"
      using 2(3,4) by (auto simp: ranges_in_def case_prod_unfold)
    then show ?thesis using 2(1)[OF True] True by simp
  next
    case False
    have "ranges_in l (merge_loop s rs) \<and> sorted_wrt (\<lambda>a b. snd a < fst b) (merge_loop s rs)
      \<and> (\<forall>x\<in>set (merge_loop s rs). fst s \<le> fst x)"
      using 2(2)[OF False] 2(3,4) by (auto simp: ranges_in_def)
    then show ?thesis using False 2(3,4) by (fastforce simp: ranges_in_def)
  qed
qed

lemma merge_ranges_ok:
  assumes "ranges_in l rs"
  shows "ranges_in l (merge_ranges rs) \<and> sorted_wrt (\<lambda>a b. snd a < fst b) (merge_ranges rs)"
proof (cases "js_sort compare_ranges rs")
  case Nil
  then show ?thesis by (simp add: merge_ranges_def ranges_in_def)
next
  case (Cons r rest)
  have "set (r # rest) = set rs" using set_js_sort[of compare_ranges rs] Cons by simp
  then have "ranges_in l (r # rest)" using assms unfolding ranges_in_def list_all_iff by metis
  then show ?thesis using merge_loop_ok[of r rest l] sorted_starts[of rs] Cons by (simp add: merge_ranges_def)
qed

section \<open>The parts\<close>

lemma cut_parts_text:
  assumes "ranges_in (length t) rs" "sorted_wrt (\<lambda>a b. snd a < fst b) rs" "\<forall>r\<in>set rs. p \<le> fst r" "p \<le> length t"
  shows "concat (map part_text (cut_parts t p rs)) = drop p t"
  using assms
proof (induction t p rs rule: cut_parts.induct)
  case (2 t p r rs)
  have r: "p \<le> fst r" "fst r \<le> snd r" "snd r \<le> length t" using 2(2,4) by (auto simp: ranges_in_def)
  have "concat (map part_text (cut_parts t (snd r) rs)) = drop (snd r) t"
    using 2(1) 2(2,3) r by (auto simp: ranges_in_def less_imp_le)
  moreover have "drop p t = slice t p (fst r) @ slice t (fst r) (snd r) @ drop (snd r) t"
    using r drop_slice[of p "fst r" t] drop_slice[of "fst r" "snd r" t] by simp
  moreover have "\<not> p < fst r \<Longrightarrow> slice t p (fst r) = []" by (simp add: slice_def)
  ultimately show ?case by simp
qed auto

lemma found_ranges:
  assumes "normalizedWithMap norm t = (n, table)" "p \<in> set (occurrences n d 0)"
  shows "table ! p \<le> table ! (p + length d) \<and> table ! (p + length d) \<le> length t"
proof -
  have "p + length d < length table" "sorted table" "\<forall>x\<in>set table. x \<le> length t"
    using occurrences_bound[OF assms(2)] normalizedWithMap_table[OF assms(1)] by auto
  then show ?thesis by (auto intro: sorted_nth_mono)
qed

fun no_adjacent_hits :: "highlight_part list \<Rightarrow> bool" where
  "no_adjacent_hits (a # b # ps) = (\<not> (part_hit a \<and> part_hit b) \<and> no_adjacent_hits (b # ps))"
| "no_adjacent_hits ps = True"

lemma cut_parts_adjacent:
  assumes "sorted_wrt (\<lambda>a b. snd a < fst b) rs"
  shows "no_adjacent_hits (cut_parts t p rs) \<and>
    (rs \<noteq> [] \<longrightarrow> p < fst (hd rs) \<longrightarrow> (\<exists>a ps. cut_parts t p rs = a # ps \<and> \<not> part_hit a))"
  using assms
proof (induction rs arbitrary: p)
  case (Cons r rs)
  have ih: "no_adjacent_hits (cut_parts t (snd r) rs)" using Cons by simp
  have "no_adjacent_hits (\<lparr>part_text = x, part_hit = True\<rparr> # cut_parts t (snd r) rs)" for x
  proof (cases rs)
    case Nil
    then show ?thesis by simp
  next
    case (Cons s ss)
    then obtain a ps where "cut_parts t (snd r) rs = a # ps" "\<not> part_hit a"
      using Cons.IH[of "snd r"] Cons.prems by auto
    then show ?thesis using ih by simp
  qed
  then show ?case by auto
qed simp

text \<open>highlighting a message never loses, adds or moves a character: whatever the normalisation, the
  message and the searched words are, the parts put one after the other are the message, and no two
  highlighted parts are side by side.\<close>

theorem highlight_lossless:
  "concat (map part_text (highlightParts norm t terms)) = t \<and> no_adjacent_hits (highlightParts norm t terms)"
proof -
  let ?ns = "filter (\<lambda>n. n \<noteq> []) (map norm terms)"
  obtain n table where nt: "normalizedWithMap norm t = (n, table)" by fastforce
  let ?f = "concat (map (\<lambda>d. map (\<lambda>p. (table ! p, table ! (p + length d))) (occurrences n d 0)) ?ns)"
  have "ranges_in (length t) ?f"
    using found_ranges[OF nt] by (auto simp: ranges_in_def list_all_iff)
  then have m: "ranges_in (length t) (merge_ranges ?f)" "sorted_wrt (\<lambda>a b. snd a < fst b) (merge_ranges ?f)"
    using merge_ranges_ok by auto
  have "concat (map part_text (cut_parts t 0 (merge_ranges ?f))) = t" using cut_parts_text[OF m, of 0] by simp
  then show ?thesis using cut_parts_adjacent[OF m(2)] nt by (auto simp: highlightParts_def Let_def)
qed

text \<open>a match inside one character that the normalisation expands is not shown. The server finds a
  message that holds U+3231 for the word U+682A (its normal form is that word in parentheses), but
  the match starts and ends at the same character of the original text, so the highlighted part is
  empty and nothing of the message is marked.\<close>

theorem expanded_match_unmarked:
  assumes "norm [0x3231] = [40, 0x682A, 41]" "norm [0x682A] = [0x682A]"
  shows "highlightParts norm [0x3231] [[0x682A]] =
    [\<lparr>part_text = [], part_hit = True\<rparr>, \<lparr>part_text = [0x3231], part_hit = False\<rparr>]"
proof -
  have o: "occurrences [40, 0x682A, 41] [0x682A] 0 = [1]"
    by (simp add: occurrences.simps[of _ _ 0] occurrences.simps[of _ _ "Suc 0"] occurrences.simps[of _ _ "Suc (Suc 0)"] indexOf_def)
  show ?thesis using assms
    by (simp add: highlightParts_def normalizedWithMap_def o merge_ranges_def js_sort_def slice_def)
qed

definition sample_norm :: "utext \<Rightarrow> utext" where
  "sample_norm t = concat (map (\<lambda>c. if c = 0x3231 then [40, 0x682A, 41] else [c]) t)"

theorem expanded_match_unmarked_witness:
  "highlightParts sample_norm [0x3231] [[0x682A]] =
    [\<lparr>part_text = [], part_hit = True\<rparr>, \<lparr>part_text = [0x3231], part_hit = False\<rparr>]"
  by (rule expanded_match_unmarked) (simp_all add: sample_norm_def)

end
