(* ===== verification/Session.thy ===== *)
theory Session
  imports Wire
begin

text \<open>
  The session of the web client (\<open>web/lib/auth/session/core.ts\<close>, \<open>account.ts\<close>, \<open>email.ts\<close>,
  \<open>profile.ts\<close>, \<open>web/lib/auth/single-flight.ts\<close>, \<open>web/lib/api/error.ts\<close>).

  The variables of the closures are one record. A promise that is awaited is data: \<open>waiting\<close> are the
  continuations that wait for the refresh in flight (in the order they asked for it), \<open>sent\<close> the
  requests whose answer has not arrived, with the continuation that waits for each, and \<open>signIns\<close>,
  \<open>logouts\<close>, \<open>publics\<close> the requests to the unauthenticated endpoints. What the session does to the
  outside is appended to \<open>log_out\<close>. When a promise settles, everything that runs before the next
  \<open>await\<close> on a request is one step: the code between only reads its own variables.
\<close>

section \<open>Data\<close>

record user =
  us_id :: ident
  us_handle :: string
  us_display_name :: string
  us_email :: string
  us_email_verified :: bool
  us_avatar_url :: "string option"
  us_created_at :: iso

record token_response =
  tr_user :: "user option"
  tr_access_token :: string
  tr_token_type :: string
  tr_expires_in :: int
  tr_refresh_token :: "string option"
  tr_refresh_token_expires_at :: "iso option"

record problem_field_error =
  pf_field :: string
  pf_reason :: string

record problem =
  pr_type :: string
  pr_title :: string
  pr_status :: int
  pr_detail :: "string option"
  pr_request_id :: "string option"
  pr_errors :: "problem_field_error list option"

record response =
  \<comment> \<open>what the code reads of a \<open>Response\<close>: its headers, and its body as each of the types it may be
    parsed to (\<open>None\<close> when the body is no such JSON)\<close>
  rs_status :: int
  rs_content_type :: "string option"
  rs_retry_after :: "int option"
  rs_problem :: "problem option"
  rs_user :: "user option"
  rs_tokens :: "token_response option"

definition PROBLEM_TYPE_PREFIX :: string where
  "PROBLEM_TYPE_PREFIX = ''tag:hibari,2026:problem:''"

record api_error =
  ae_status :: int
  ae_type :: "string option"
  ae_fieldErrors :: "problem_field_error list"
  ae_retryAfterSeconds :: "int option"
  ae_requestId :: "string option"

definition starts_with :: "string \<Rightarrow> string \<Rightarrow> bool" where
  "starts_with p s = (take (length p) s = p)"

definition new_api_error :: "int \<Rightarrow> problem option \<Rightarrow> int option \<Rightarrow> api_error" where
  \<comment> \<open>the constructor of \<open>ApiError\<close>\<close>
  "new_api_error status problem retry =
     \<lparr>ae_status = status,
      ae_type = (case problem of None \<Rightarrow> None
        | Some p \<Rightarrow> if starts_with PROBLEM_TYPE_PREFIX (pr_type p)
            then Some (drop (length PROBLEM_TYPE_PREFIX) (pr_type p)) else None),
      ae_fieldErrors = (case problem of None \<Rightarrow> []
        | Some p \<Rightarrow> (case pr_errors p of None \<Rightarrow> [] | Some es \<Rightarrow> es)),
      ae_retryAfterSeconds = retry,
      ae_requestId = (case problem of None \<Rightarrow> None | Some p \<Rightarrow> pr_request_id p)\<rparr>"

definition apiErrorFrom :: "response \<Rightarrow> api_error" where
  "apiErrorFrom r =
     new_api_error (rs_status r)
       (case rs_content_type r of None \<Rightarrow> None
        | Some ct \<Rightarrow> if starts_with ''application/problem+json'' ct then rs_problem r else None)
       (case rs_retry_after r of None \<Rightarrow> None | Some n \<Rightarrow> if n > 0 then Some n else None)"

definition ok_response :: "response \<Rightarrow> bool" where
  "ok_response r = (200 \<le> rs_status r \<and> rs_status r \<le> 299)"

datatype failure = EApi api_error | EOther | ENoToken
  \<comment> \<open>an \<open>ApiError\<close>; a rejected fetch or a body that is no JSON; reading \<open>accessToken!.value\<close> of \<open>undefined\<close>\<close>

datatype session_state = Loading | SignedOut | SignedIn "user option" bool
  \<comment> \<open>the user (\<open>undefined\<close> only if a sign-in answers without one) and \<open>emailUnverified\<close>\<close>

datatype attempt = First | Retry401 | RetryUnverified

datatype reload = Recheck nat | Verify nat \<comment> \<open>\<open>recheckEmailVerification\<close>, \<open>verifyEmail\<close>\<close>

datatype request_owner =
  \<comment> \<open>who awaits a \<open>request\<close>: a caller, \<open>restore\<close>, \<open>reloadVerification\<close>, or an operation of \<open>profile.ts\<close>\<close>
    App nat | OfRestore | OfReload reload | OfProfile nat

datatype refresh_waiter = WRequest request_owner attempt | WRestore | WRevalidate nat | WReload reload

datatype session_output =
    OutRefresh                          \<comment> \<open>the refresh runs (after taking the lock)\<close>
  | OutRefreshSettled
  | OutFetch request_owner string       \<comment> \<open>a request with this access token\<close>
  | OutAuth string                      \<comment> \<open>\<open>authRequest\<close> or \<open>publicRequest\<close> with this path\<close>
  | OutState session_state              \<comment> \<open>the listeners are called\<close>
  | OutDone request_owner response
  | OutFailed request_owner failure
  | OutRestored
  | OutRestoreFailed failure
  | OutRevalidated nat bool
  | OutRevalidateFailed nat failure
  | OutAuthDone nat
  | OutAuthFailed nat failure

datatype public_call = ResetPassword | VerifyEmail | OtherPublic

record session =
  sn_state :: session_state
  accessToken :: "(string \<times> int) option"
  restoring :: bool
  inflight :: bool
  waiting :: "refresh_waiter list"
  sent :: "(nat \<times> (request_owner \<times> attempt \<times> string)) list"
  nextFetch :: nat
  signIns :: "nat list"
  logouts :: "nat list"
  publics :: "(nat \<times> public_call) list"
  log_out :: "session_output list"

definition EXPIRY_MARGIN_MS :: int where
  "EXPIRY_MARGIN_MS = 30000"

definition createSessionCore :: session where
  "createSessionCore = \<lparr>sn_state = Loading, accessToken = None, restoring = False, inflight = False,
     waiting = [], sent = [], nextFetch = 0, signIns = [], logouts = [], publics = [], log_out = []\<rparr>"

section \<open>The core\<close>

definition tell :: "session_output \<Rightarrow> session \<Rightarrow> session" where
  "tell x s = s\<lparr>log_out := log_out s @ [x]\<rparr>"

definition setState :: "session_state \<Rightarrow> session \<Rightarrow> session" where
  "setState st s = tell (OutState st) (s\<lparr>sn_state := st\<rparr>)"

definition signOutLocally :: "session \<Rightarrow> session" where
  "signOutLocally s = setState SignedOut (s\<lparr>accessToken := None\<rparr>)"

definition markEmailUnverified :: "session \<Rightarrow> session" where
  "markEmailUnverified s =
     (case sn_state s of SignedIn u flag \<Rightarrow> if flag then s else setState (SignedIn u True) s | _ \<Rightarrow> s)"

definition acceptTokens :: "token_response \<Rightarrow> int \<Rightarrow> session \<Rightarrow> session" where
  "acceptTokens res now_ms s = s\<lparr>accessToken := Some (tr_access_token res, now_ms + tr_expires_in res * 1000)\<rparr>"

definition dropAccessToken :: "session \<Rightarrow> session" where
  "dropAccessToken s = s\<lparr>accessToken := None\<rparr>"

definition dropToken :: "string \<Rightarrow> session \<Rightarrow> session" where
  \<comment> \<open>\<open>if (accessToken?.value === token) accessToken = undefined\<close>\<close>
  "dropToken token s =
     (case accessToken s of Some (v, _) \<Rightarrow> if v = token then s\<lparr>accessToken := None\<rparr> else s | None \<Rightarrow> s)"

definition refresh :: "refresh_waiter \<Rightarrow> session \<Rightarrow> session" where
  \<comment> \<open>\<open>await refresh()\<close>: \<open>singleFlight\<close> shares the promise in flight\<close>
  "refresh w s =
     (if inflight s then s\<lparr>waiting := waiting s @ [w]\<rparr>
      else tell OutRefresh (s\<lparr>inflight := True, waiting := [w]\<rparr>))"

definition sendRequest :: "request_owner \<Rightarrow> attempt \<Rightarrow> session \<Rightarrow> session" where
  \<comment> \<open>\<open>accessToken!.value\<close> and \<open>send(token)\<close>\<close>
  "sendRequest own att s =
     (case accessToken s of
        Some (v, _) \<Rightarrow> tell (OutFetch own v)
          (s\<lparr>sent := sent s @ [(nextFetch s, (own, att, v))], nextFetch := nextFetch s + 1\<rparr>)
      | None \<Rightarrow> tell (OutFailed own ENoToken) s)"

definition validAccessToken :: "request_owner \<Rightarrow> attempt \<Rightarrow> int \<Rightarrow> session \<Rightarrow> session" where
  \<comment> \<open>\<open>await validAccessToken()\<close>, and the request that is sent with the token\<close>
  "validAccessToken own att now_ms s =
     (case accessToken s of
        None \<Rightarrow> refresh (WRequest own att) s
      | Some (_, expiresAt) \<Rightarrow>
          if expiresAt - now_ms < EXPIRY_MARGIN_MS then refresh (WRequest own att) s
          else sendRequest own att s)"

definition startRequest :: "request_owner \<Rightarrow> int \<Rightarrow> session \<Rightarrow> session" where
  \<comment> \<open>\<open>request\<close> up to its first wait\<close>
  "startRequest own now_ms s = validAccessToken own First now_ms s"

definition isEmailUnverified :: "response \<Rightarrow> bool" where
  "isEmailUnverified r = (rs_status r = 403 \<and> ae_type (apiErrorFrom r) = Some ''email-unverified'')"

definition failRequest :: "request_owner \<Rightarrow> failure \<Rightarrow> session \<Rightarrow> session" where
  \<comment> \<open>an exception out of \<open>request\<close>, as its caller handles it\<close>
  "failRequest own err s =
     (case own of
        OfRestore \<Rightarrow>
          (case err of EApi e \<Rightarrow>
              if ae_status e = 401 then tell OutRestored (signOutLocally s)
              else tell (OutRestoreFailed err) (s\<lparr>restoring := False\<rparr>)
           | _ \<Rightarrow> tell (OutRestoreFailed err) (s\<lparr>restoring := False\<rparr>))
      | OfReload (Verify k) \<Rightarrow> tell (OutAuthDone k) s
      | OfReload (Recheck k) \<Rightarrow> tell (OutAuthFailed k err) s
      | _ \<Rightarrow> tell (OutFailed own err) s)"

definition reloaded :: "user \<Rightarrow> session \<Rightarrow> session" where
  \<comment> \<open>the end of \<open>reloadVerification\<close>\<close>
  "reloaded u s =
     (case sn_state s of SignedIn _ flag \<Rightarrow> setState (SignedIn (Some u) (flag \<and> \<not> us_email_verified u)) s | _ \<Rightarrow> s)"

definition finishRequest :: "request_owner \<Rightarrow> response \<Rightarrow> session \<Rightarrow> session" where
  \<comment> \<open>the end of \<open>request\<close>, and of the function that awaits it; a success of the three endpoints that return
    the user has a body, and one that cannot be read throws\<close>
  "finishRequest own r s =
     (if \<not> ok_response r then failRequest own (EApi (apiErrorFrom r)) s
      else case own of
        App k \<Rightarrow> tell (OutDone own r) s
      | OfRestore \<Rightarrow>
          (case rs_user r of None \<Rightarrow> failRequest own EOther s
           | Some u \<Rightarrow> tell OutRestored (setState (SignedIn (Some u) False) s))
      | OfReload k \<Rightarrow>
          (case rs_user r of None \<Rightarrow> failRequest own EOther s
           | Some u \<Rightarrow> tell (OutAuthDone (case k of Recheck n \<Rightarrow> n | Verify n \<Rightarrow> n)) (reloaded u s))
      | OfProfile k \<Rightarrow>
          (case rs_user r of None \<Rightarrow> failRequest own EOther s
           | Some u \<Rightarrow> tell (OutDone own r) (setState (SignedIn (Some u) False) s)))"

definition checkVerified :: "request_owner \<Rightarrow> string \<Rightarrow> response \<Rightarrow> int \<Rightarrow> session \<Rightarrow> session" where
  \<comment> \<open>the second half of \<open>authorizedFetch\<close>, after the answer that is not retried for a 401\<close>
  "checkVerified own token r now_ms s =
     (if isEmailUnverified r then
        (case sn_state s of SignedIn _ True \<Rightarrow> finishRequest own r s
         | _ \<Rightarrow> validAccessToken own RetryUnverified now_ms (dropToken token s))
      else finishRequest own r s)"

definition answered :: "request_owner \<Rightarrow> attempt \<Rightarrow> string \<Rightarrow> response option \<Rightarrow> int \<Rightarrow> session \<Rightarrow> session" where
  \<comment> \<open>\<open>authorizedFetch\<close> from the answer of \<open>send(token)\<close> on; \<open>None\<close> is a rejected fetch\<close>
  "answered own att token res now_ms s =
     (case res of None \<Rightarrow> failRequest own EOther s
      | Some r \<Rightarrow>
         (case att of
            First \<Rightarrow>
              if rs_status r = 401 then validAccessToken own Retry401 now_ms (dropToken token s)
              else checkVerified own token r now_ms s
          | Retry401 \<Rightarrow>
              checkVerified own token r now_ms (if rs_status r = 401 then signOutLocally s else s)
          | RetryUnverified \<Rightarrow>
              finishRequest own r (if isEmailUnverified r then markEmailUnverified s else s)))"

definition settleFetch :: "nat \<Rightarrow> response option \<Rightarrow> int \<Rightarrow> session \<Rightarrow> session" where
  "settleFetch n res now_ms s =
     (case map_of (sent s) n of
        None \<Rightarrow> s
      | Some (own, att, token) \<Rightarrow>
          answered own att token res now_ms (s\<lparr>sent := filter (\<lambda>x. fst x \<noteq> n) (sent s)\<rparr>))"

section \<open>The refresh\<close>

definition resume :: "int \<Rightarrow> refresh_waiter \<Rightarrow> session \<Rightarrow> session" where
  \<comment> \<open>what a continuation does once the refresh has succeeded\<close>
  "resume now_ms w s =
     (case w of
        WRequest own att \<Rightarrow> sendRequest own att s
      | WRestore \<Rightarrow> startRequest OfRestore now_ms s
      | WRevalidate k \<Rightarrow> tell (OutRevalidated k True) s
      | WReload k \<Rightarrow> startRequest (OfReload k) now_ms s)"

definition abandon :: "failure \<Rightarrow> refresh_waiter \<Rightarrow> session \<Rightarrow> session" where
  \<comment> \<open>what a continuation does once the refresh has failed\<close>
  "abandon err w s =
     (case w of
        WRequest own att \<Rightarrow> failRequest own err s
      | WRestore \<Rightarrow> failRequest OfRestore err s
      | WRevalidate k \<Rightarrow>
          (case err of EApi e \<Rightarrow>
              if ae_status e = 401 then tell (OutRevalidated k False) s else tell (OutRevalidateFailed k err) s
           | _ \<Rightarrow> tell (OutRevalidateFailed k err) s)
      | WReload k \<Rightarrow> failRequest (OfReload k) err s)"

definition settleRefresh :: "response option \<Rightarrow> int \<Rightarrow> session \<Rightarrow> session" where
  \<comment> \<open>the refresh's answer: its \<open>run\<close>, the \<open>finally\<close> of \<open>singleFlight\<close>, and those who awaited it\<close>
  "settleRefresh res now_ms s =
     (if \<not> inflight s then s else
      let ws = waiting s; s1 = tell OutRefreshSettled (s\<lparr>inflight := False, waiting := []\<rparr>) in
      case res of
        None \<Rightarrow> fold (abandon EOther) ws s1
      | Some r \<Rightarrow>
          if rs_status r = 401 then fold (abandon (EApi (apiErrorFrom r))) ws (signOutLocally s1)
          else if \<not> ok_response r then fold (abandon (EApi (apiErrorFrom r))) ws s1
          else (case rs_tokens r of
              None \<Rightarrow> fold (abandon EOther) ws s1
            | Some t \<Rightarrow> fold (resume now_ms) ws (acceptTokens t now_ms s1)))"

section \<open>What the screens call\<close>

definition restore :: "session \<Rightarrow> session" where
  "restore s = (if restoring s then s else refresh WRestore (s\<lparr>restoring := True\<rparr>))"

definition revalidate :: "nat \<Rightarrow> session \<Rightarrow> session" where
  "revalidate k s = refresh (WRevalidate k) (s\<lparr>accessToken := None\<rparr>)"

definition signIn :: "nat \<Rightarrow> string \<Rightarrow> session \<Rightarrow> session" where
  "signIn k path s = tell (OutAuth path) (s\<lparr>signIns := signIns s @ [k]\<rparr>)"

definition settleSignIn :: "nat \<Rightarrow> response option \<Rightarrow> int \<Rightarrow> session \<Rightarrow> session" where
  "settleSignIn k res now_ms s =
     (if k \<notin> set (signIns s) then s else
      let s1 = s\<lparr>signIns := remove1 k (signIns s)\<rparr> in
      case res of None \<Rightarrow> tell (OutAuthFailed k EOther) s1
      | Some r \<Rightarrow>
          if \<not> ok_response r then tell (OutAuthFailed k (EApi (apiErrorFrom r))) s1
          else (case rs_tokens r of None \<Rightarrow> tell (OutAuthFailed k EOther) s1
            | Some t \<Rightarrow> tell (OutAuthDone k) (setState (SignedIn (tr_user t) False) (acceptTokens t now_ms s1))))"

definition logout :: "nat \<Rightarrow> session \<Rightarrow> session" where
  "logout k s = tell (OutAuth ''logout'') (s\<lparr>logouts := logouts s @ [k]\<rparr>)"

definition settleLogout :: "nat \<Rightarrow> session \<Rightarrow> session" where
  \<comment> \<open>whatever the answer is\<close>
  "settleLogout k s =
     (if k \<notin> set (logouts s) then s
      else tell (OutAuthDone k) (signOutLocally (s\<lparr>logouts := remove1 k (logouts s)\<rparr>)))"

definition publicRequest :: "nat \<Rightarrow> public_call \<Rightarrow> string \<Rightarrow> session \<Rightarrow> session" where
  "publicRequest k call path s = tell (OutAuth path) (s\<lparr>publics := publics s @ [(k, call)]\<rparr>)"

definition reloadVerification :: "reload \<Rightarrow> session \<Rightarrow> session" where
  "reloadVerification k s = refresh (WReload k) (dropAccessToken s)"

definition settlePublic :: "nat \<Rightarrow> response option \<Rightarrow> session \<Rightarrow> session" where
  "settlePublic k res s =
     (case map_of (publics s) k of
        None \<Rightarrow> s
      | Some call \<Rightarrow>
          let s1 = s\<lparr>publics := filter (\<lambda>x. fst x \<noteq> k) (publics s)\<rparr> in
          case res of None \<Rightarrow> tell (OutAuthFailed k EOther) s1
          | Some r \<Rightarrow>
              if \<not> ok_response r then tell (OutAuthFailed k (EApi (apiErrorFrom r))) s1
              else (case call of
                  ResetPassword \<Rightarrow> tell (OutAuthDone k) (signOutLocally s1)
                | VerifyEmail \<Rightarrow>
                    (case sn_state s1 of SignedIn _ _ \<Rightarrow> reloadVerification (Verify k) s1
                     | _ \<Rightarrow> tell (OutAuthDone k) s1)
                | OtherPublic \<Rightarrow> tell (OutAuthDone k) s1))"

definition recheckEmailVerification :: "nat \<Rightarrow> session \<Rightarrow> session" where
  "recheckEmailVerification k s = reloadVerification (Recheck k) s"

end
