(* ===== verification/SessionRuns.thy ===== *)
theory SessionRuns
  imports Session
begin

text \<open>
  The runs of a session: any sequence of calls, answers and failures. The lemmas give what the
  comments of \<open>core.ts\<close> and \<open>single-flight.ts\<close> promise: one refresh at a time, no answer lost or
  given twice, at most two retries of a request, no token read that is not there.
\<close>

section \<open>Events\<close>

datatype session_event =
    EvRequest nat | EvProfile nat | EvSettleFetch nat "response option" | EvSettleRefresh "response option"
  | EvRestore | EvRevalidate nat | EvSignIn nat string | EvSettleSignIn nat "response option"
  | EvLogout nat | EvSettleLogout nat | EvPublic nat public_call string
  | EvSettlePublic nat "response option" | EvRecheck nat

definition sessionStep :: "int \<times> session_event \<Rightarrow> session \<Rightarrow> session" where
  \<comment> \<open>one call or one answer, at a time\<close>
  "sessionStep te s =
     (case snd te of
        EvRequest k \<Rightarrow> startRequest (App k) (fst te) s
      | EvProfile k \<Rightarrow> startRequest (OfProfile k) (fst te) s
      | EvSettleFetch n r \<Rightarrow> settleFetch n r (fst te) s
      | EvSettleRefresh r \<Rightarrow> settleRefresh r (fst te) s
      | EvRestore \<Rightarrow> restore s
      | EvRevalidate k \<Rightarrow> revalidate k s
      | EvSignIn k p \<Rightarrow> signIn k p s
      | EvSettleSignIn k r \<Rightarrow> settleSignIn k r (fst te) s
      | EvLogout k \<Rightarrow> logout k s
      | EvSettleLogout k \<Rightarrow> settleLogout k s
      | EvPublic k c p \<Rightarrow> publicRequest k c p s
      | EvSettlePublic k r \<Rightarrow> settlePublic k r s
      | EvRecheck k \<Rightarrow> recheckEmailVerification k s)"

definition sessionRun :: "(int \<times> session_event) list \<Rightarrow> session" where
  "sessionRun es = fold sessionStep es createSessionCore"

lemma sessionRun_induct:
  assumes "P createSessionCore" "\<And>te s. P s \<Longrightarrow> P (sessionStep te s)"
  shows "P (sessionRun es)"
proof -
  have "P s \<Longrightarrow> P (fold sessionStep es s)" for s
    using assms(2) by (induction es arbitrary: s) auto
  then show ?thesis using assms(1) by (simp add: sessionRun_def)
qed

lemmas session_ops = tell_def setState_def signOutLocally_def markEmailUnverified_def acceptTokens_def
  dropAccessToken_def dropToken_def

text \<open>
  What every operation of a session has to keep, as an interface: an invariant of the record that the
  five primitive changes keep is kept by every step.
\<close>

locale session_invariant =
  fixes I :: "session \<Rightarrow> bool"
  assumes tell_I: "I s \<Longrightarrow> (\<forall>own v. x \<noteq> OutFetch own v) \<Longrightarrow> x \<noteq> OutRefresh \<Longrightarrow> x \<noteq> OutRefreshSettled \<Longrightarrow>
      (\<forall>own. x \<noteq> OutFailed own ENoToken) \<Longrightarrow> x \<noteq> OutRestoreFailed ENoToken \<Longrightarrow>
      (\<forall>k. x \<noteq> OutAuthFailed k ENoToken) \<Longrightarrow> (\<forall>k. x \<noteq> OutRevalidateFailed k ENoToken) \<Longrightarrow> I (tell x s)"
    and state_I: "I s \<Longrightarrow> I (s\<lparr>sn_state := st\<rparr>)"
    and token_I: "I s \<Longrightarrow> I (s\<lparr>accessToken := t\<rparr>)"
    and restoring_I: "I s \<Longrightarrow> I (s\<lparr>restoring := b\<rparr>)"
    and auth_I: "I s \<Longrightarrow> I (s\<lparr>signIns := xs\<rparr>)" "I s \<Longrightarrow> I (s\<lparr>logouts := xs\<rparr>)" "I s \<Longrightarrow> I (s\<lparr>publics := ps\<rparr>)"
    and refresh_I: "I s \<Longrightarrow> I (refresh w s)"
    and send_I: "I s \<Longrightarrow> accessToken s \<noteq> None \<Longrightarrow> I (sendRequest own att s)"
    and take_I: "I s \<Longrightarrow> I (s\<lparr>sent := filter P (sent s)\<rparr>)"
    and land_I: "I s \<Longrightarrow> inflight s \<Longrightarrow> I (tell OutRefreshSettled (s\<lparr>inflight := False, waiting := []\<rparr>))"
begin

lemma setState_I: "I s \<Longrightarrow> I (setState st s)"
  using state_I tell_I by (simp add: setState_def)

lemma signOut_I: "I s \<Longrightarrow> I (signOutLocally s)"
  using token_I setState_I by (simp add: signOutLocally_def)

lemma mark_I: "I s \<Longrightarrow> I (markEmailUnverified s)"
  using setState_I by (auto simp: markEmailUnverified_def split: session_state.splits)

lemma drop_I: "I s \<Longrightarrow> I (dropToken tok s)"
  using token_I by (auto simp: dropToken_def split: option.splits)

lemma valid_I: "I s \<Longrightarrow> I (validAccessToken own att t s)"
  using refresh_I send_I by (auto simp: validAccessToken_def split: option.splits)

lemma fail_I: "I s \<Longrightarrow> err \<noteq> ENoToken \<Longrightarrow> I (failRequest own err s)"
  using tell_I signOut_I restoring_I
  by (auto simp: failRequest_def split: request_owner.splits failure.splits reload.splits)

lemma finish_I: "I s \<Longrightarrow> I (finishRequest own r s)"
  using fail_I tell_I setState_I
  by (auto simp: finishRequest_def reloaded_def split: request_owner.splits option.splits session_state.splits)

lemma check_I: "I s \<Longrightarrow> I (checkVerified own tok r t s)"
  using finish_I valid_I drop_I by (auto simp: checkVerified_def split: session_state.splits bool.splits)

lemma answered_I: "I s \<Longrightarrow> I (answered own att tok res t s)"
  using fail_I valid_I drop_I check_I finish_I signOut_I mark_I
  by (auto simp: answered_def split: option.splits attempt.splits)

lemma settleFetch_I: "I s \<Longrightarrow> I (settleFetch n res t s)"
  using answered_I take_I by (auto simp: settleFetch_def split: option.splits)

lemma resume_I: "I s \<Longrightarrow> accessToken s \<noteq> None \<Longrightarrow> I (resume t w s)"
  using send_I valid_I tell_I by (auto simp: resume_def startRequest_def split: refresh_waiter.splits)

lemma resume_token: "accessToken s \<noteq> None \<Longrightarrow> accessToken (resume t w s) \<noteq> None"
  by (auto simp: resume_def startRequest_def validAccessToken_def sendRequest_def refresh_def tell_def
      split: refresh_waiter.splits option.splits)

lemma fold_resume_I: "I s \<Longrightarrow> accessToken s \<noteq> None \<Longrightarrow> I (fold (resume t) ws s)"
  using resume_I resume_token by (induction ws arbitrary: s) auto

lemma abandon_I: "I s \<Longrightarrow> err \<noteq> ENoToken \<Longrightarrow> I (abandon err w s)"
  using fail_I tell_I by (auto simp: abandon_def split: refresh_waiter.splits failure.splits)

lemma fold_abandon_I: "I s \<Longrightarrow> err \<noteq> ENoToken \<Longrightarrow> I (fold (abandon err) ws s)"
  using abandon_I by (induction ws arbitrary: s) auto

lemma settleRefresh_I: "I s \<Longrightarrow> I (settleRefresh res t s)"
proof -
  assume i: "I s"
  let ?s1 = "tell OutRefreshSettled (s\<lparr>inflight := False, waiting := []\<rparr>)"
  show ?thesis
  proof (cases "inflight s")
    case True
    then have s1: "I ?s1" using land_I i by simp
    have "I (fold (resume t) ws (acceptTokens tr t ?s1))" for ws tr
      using fold_resume_I token_I[OF s1] by (simp add: acceptTokens_def)
    then show ?thesis using True s1 fold_abandon_I signOut_I
      by (auto simp: settleRefresh_def Let_def split: option.splits)
  qed (simp add: settleRefresh_def i)
qed

lemma settlePublic_I: "I s \<Longrightarrow> I (settlePublic k res s)"
  using auth_I(3) tell_I signOut_I refresh_I token_I
  by (auto simp: settlePublic_def reloadVerification_def dropAccessToken_def Let_def
      split: option.splits public_call.splits session_state.splits)

lemma step_I: "I s \<Longrightarrow> I (sessionStep te s)"
proof -
  assume i: "I s"
  have "I (settleSignIn k r t s)" for k r t
    using i auth_I(1) tell_I setState_I token_I
    by (auto simp: settleSignIn_def acceptTokens_def Let_def split: option.splits)
  moreover have "I (settleLogout k s)" for k
    using i auth_I(2) tell_I signOut_I by (auto simp: settleLogout_def)
  moreover have "I (restore s)" using i refresh_I restoring_I by (auto simp: restore_def)
  moreover have "I (revalidate k s)" "I (recheckEmailVerification k s)" for k
    using i refresh_I token_I
    by (auto simp: revalidate_def recheckEmailVerification_def reloadVerification_def dropAccessToken_def)
  moreover have "I (signIn k p s)" "I (logout k s)" "I (publicRequest k c p s)" for k p c
    using i auth_I tell_I by (auto simp: signIn_def logout_def publicRequest_def)
  ultimately show ?thesis using i valid_I settleFetch_I settleRefresh_I settlePublic_I
    by (auto simp: sessionStep_def startRequest_def split: session_event.splits)
qed

lemma run_I: "I createSessionCore \<Longrightarrow> I (sessionRun es)"
  by (rule sessionRun_induct) (auto intro: step_I)

end

section \<open>One refresh at a time\<close>

fun one_flight :: "bool \<Rightarrow> session_output list \<Rightarrow> bool option" where
  \<comment> \<open>refreshes start and settle in turn; whether one is in flight at the end\<close>
  "one_flight b [] = Some b"
| "one_flight b (OutRefresh # xs) = (if b then None else one_flight True xs)"
| "one_flight b (OutRefreshSettled # xs) = (if b then one_flight False xs else None)"
| "one_flight b (x # xs) = one_flight b xs"

lemma one_flight_single:
  "x \<noteq> OutRefresh \<Longrightarrow> x \<noteq> OutRefreshSettled \<Longrightarrow> one_flight b [x] = Some b"
  by (cases x) auto

lemma one_flight_snoc:
  "one_flight b (xs @ [x]) =
     (case one_flight b xs of None \<Rightarrow> None
      | Some c \<Rightarrow> if x = OutRefresh then (if c then None else Some True)
          else if x = OutRefreshSettled then (if c then Some False else None) else Some c)"
  by (induction b xs rule: one_flight.induct) (auto simp: one_flight_single)

definition flight_ok :: "session \<Rightarrow> bool" where
  "flight_ok s = (one_flight False (log_out s) = Some (inflight s) \<and> (waiting s \<noteq> [] \<longleftrightarrow> inflight s))"

definition tokens_ok :: "session \<Rightarrow> bool" where
  "tokens_ok s = (\<forall>x\<in>set (log_out s). (\<forall>own. x \<noteq> OutFailed own ENoToken) \<and> x \<noteq> OutRestoreFailed ENoToken
     \<and> (\<forall>k. x \<noteq> OutAuthFailed k ENoToken \<and> x \<noteq> OutRevalidateFailed k ENoToken))"

definition numbers_ok :: "session \<Rightarrow> bool" where
  "numbers_ok s = (distinct (map fst (sent s)) \<and> (\<forall>x\<in>set (sent s). fst x < nextFetch s))"

interpretation flights: session_invariant flight_ok
  by unfold_locales
    (auto simp: flight_ok_def session_ops refresh_def sendRequest_def one_flight_snoc split: option.splits)

interpretation tokens: session_invariant tokens_ok
  by unfold_locales (auto simp: tokens_ok_def session_ops refresh_def sendRequest_def split: option.splits)

interpretation numbers: session_invariant numbers_ok
  by unfold_locales
    (auto simp: numbers_ok_def session_ops refresh_def sendRequest_def distinct_map inj_on_def split: option.splits)

text \<open>C19: a tab never has two refreshes in flight: in every run of a session, whatever is called and
  however the answers come, a refresh starts only when the one before it has settled, and everyone
  who waits for a refresh waits for one that is in flight. (The server takes a refresh token used
  twice for a stolen one and signs every tab out.)\<close>

theorem one_refresh_at_a_time:
  "one_flight False (log_out (sessionRun es)) = Some (inflight (sessionRun es))
   \<and> (waiting (sessionRun es) \<noteq> [] \<longleftrightarrow> inflight (sessionRun es))"
proof -
  have "flight_ok createSessionCore" by (simp add: flight_ok_def createSessionCore_def)
  then have "flight_ok (sessionRun es)" by (rule flights.run_I)
  then show ?thesis by (simp add: flight_ok_def)
qed

text \<open>the token read after a refresh is always there: no run ends a request, a restore or a
  revalidation with the exception of \<open>accessToken!.value\<close> on \<open>undefined\<close>.\<close>

theorem token_always_present:
  "list_all (\<lambda>x. (\<forall>own. x \<noteq> OutFailed own ENoToken) \<and> x \<noteq> OutRestoreFailed ENoToken
     \<and> (\<forall>k. x \<noteq> OutAuthFailed k ENoToken \<and> x \<noteq> OutRevalidateFailed k ENoToken)) (log_out (sessionRun es))"
proof -
  have "tokens_ok createSessionCore" by (simp add: tokens_ok_def createSessionCore_def)
  then have "tokens_ok (sessionRun es)" by (rule tokens.run_I)
  then show ?thesis by (simp add: tokens_ok_def list_all_iff)
qed


section \<open>Every request is answered once, after at most three attempts\<close>

fun is_request :: "nat \<Rightarrow> refresh_waiter \<Rightarrow> bool" where
  "is_request k (WRequest own att) = (own = App k)"
| "is_request k w = False"

fun settles :: "nat \<Rightarrow> session_output \<Rightarrow> bool" where
  "settles k (OutDone own r) = (own = App k)"
| "settles k (OutFailed own err) = (own = App k)"
| "settles k x = False"

definition tally :: "nat \<Rightarrow> session \<Rightarrow> nat" where
  \<comment> \<open>the places where the request \<open>k\<close> is: waiting for a refresh, sent, or settled\<close>
  "tally k s = length (filter (is_request k) (waiting s))
     + length (filter (\<lambda>x. fst (snd x) = App k) (sent s)) + length (filter (settles k) (log_out s))"

fun allowance :: "attempt \<Rightarrow> nat" where
  \<comment> \<open>how many times a request may still be sent when it is about to be sent for this attempt\<close>
  "allowance First = 3"
| "allowance Retry401 = 2"
| "allowance RetryUnverified = 1"

definition potential :: "nat \<Rightarrow> session \<Rightarrow> nat" where
  \<comment> \<open>the times the request \<open>k\<close> has been sent, and may still be\<close>
  "potential k s =
     (\<Sum>w\<leftarrow>waiting s. case w of WRequest own att \<Rightarrow> if own = App k then allowance att else 0 | _ \<Rightarrow> 0)
     + (\<Sum>x\<leftarrow>sent s. if fst (snd x) = App k then allowance (fst (snd (snd x))) - 1 else 0)
     + length (filter (\<lambda>x. \<exists>v. x = OutFetch (App k) v) (log_out s))"

definition for_app :: "nat \<Rightarrow> request_owner \<Rightarrow> nat" where
  "for_app k own = (if own = App k then 1 else 0)"

lemma tally_tell [simp]: "tally k (tell x s) = tally k s + (if settles k x then 1 else 0)"
  by (simp add: tally_def tell_def)

lemma potential_tell [simp]:
  "potential k (tell x s) = potential k s + (if \<exists>v. x = OutFetch (App k) v then 1 else 0)"
  by (simp add: potential_def tell_def)

lemma tally_frame [simp]:
  "tally k (s\<lparr>sn_state := st\<rparr>) = tally k s" "tally k (s\<lparr>accessToken := t\<rparr>) = tally k s"
  "tally k (s\<lparr>restoring := b\<rparr>) = tally k s" "tally k (s\<lparr>signIns := xs\<rparr>) = tally k s"
  "tally k (s\<lparr>logouts := xs\<rparr>) = tally k s" "tally k (s\<lparr>publics := ps\<rparr>) = tally k s"
  by (simp_all add: tally_def)

lemma potential_frame [simp]:
  "potential k (s\<lparr>sn_state := st\<rparr>) = potential k s" "potential k (s\<lparr>accessToken := t\<rparr>) = potential k s"
  "potential k (s\<lparr>restoring := b\<rparr>) = potential k s" "potential k (s\<lparr>signIns := xs\<rparr>) = potential k s"
  "potential k (s\<lparr>logouts := xs\<rparr>) = potential k s" "potential k (s\<lparr>publics := ps\<rparr>) = potential k s"
  by (simp_all add: potential_def)

definition counted :: "nat \<Rightarrow> nat \<Rightarrow> nat \<Rightarrow> session \<Rightarrow> session \<Rightarrow> bool" where
  \<comment> \<open>one session has one more place for \<open>k\<close>, and at most \<open>m\<close> more sends, than the other\<close>
  "counted k n m s s' = (tally k s' = tally k s + n \<and> potential k s' \<le> potential k s + m)"

lemma counted_refl [simp]: "counted k 0 0 s s"
  by (simp add: counted_def)

lemma counted_trans: "counted k n m s t \<Longrightarrow> counted k n' m' t u \<Longrightarrow> counted k (n + n') (m + m') s u"
  by (simp add: counted_def)

lemma setState_counted [simp]: "tally k (setState st s) = tally k s" "potential k (setState st s) = potential k s"
  by (simp_all add: setState_def)

lemma signOut_counted [simp]: "tally k (signOutLocally s) = tally k s" "potential k (signOutLocally s) = potential k s"
  by (simp_all add: signOutLocally_def)

lemma drop_counted [simp]: "tally k (dropToken v s) = tally k s" "potential k (dropToken v s) = potential k s"
  by (simp_all add: dropToken_def split: option.splits)

lemma mark_counted [simp]:
  "tally k (markEmailUnverified s) = tally k s" "potential k (markEmailUnverified s) = potential k s"
  by (simp_all add: markEmailUnverified_def split: session_state.splits)

lemma refresh_request_counted:
  "flight_ok s \<Longrightarrow> counted k (for_app k own) (for_app k own * allowance att) s (refresh (WRequest own att) s)"
  by (cases "inflight s")
    (auto simp: counted_def refresh_def tally_def potential_def tell_def for_app_def flight_ok_def)

lemma refresh_other_counted:
  "flight_ok s \<Longrightarrow> (\<forall>own att. w \<noteq> WRequest own att) \<Longrightarrow> counted k 0 0 s (refresh w s)"
  by (cases "inflight s"; cases w)
    (auto simp: counted_def refresh_def tally_def potential_def tell_def flight_ok_def)

lemma allowance_pos: "0 < allowance att"
  by (cases att) auto

lemma send_counted:
  "counted k (for_app k own) (for_app k own * allowance att) s (sendRequest own att s)"
  using allowance_pos[of att]
  by (auto simp: counted_def sendRequest_def tally_def potential_def tell_def for_app_def split: option.splits)

lemma valid_counted:
  "flight_ok s \<Longrightarrow> counted k (for_app k own) (for_app k own * allowance att) s (validAccessToken own att t s)"
  using refresh_request_counted send_counted
  by (auto simp: validAccessToken_def split: option.splits)

lemma fail_counted: "counted k (for_app k own) 0 s (failRequest own err s)"
  by (auto simp: counted_def failRequest_def for_app_def
      split: request_owner.splits failure.splits reload.splits)

lemma finish_counted: "counted k (for_app k own) 0 s (finishRequest own r s)"
  using fail_counted[of k own s]
  by (auto simp: finishRequest_def counted_def reloaded_def for_app_def
      split: request_owner.splits option.splits session_state.splits)

lemma counted_weaken: "counted k n m s s' \<Longrightarrow> m \<le> m' \<Longrightarrow> counted k n m' s s'"
  by (simp add: counted_def)

lemma check_counted:
  "flight_ok s \<Longrightarrow> counted k (for_app k own) (for_app k own) s (checkVerified own tok r t s)"
  using finish_counted[of k own s r] valid_counted[OF flights.drop_I[of s tok], of k own RetryUnverified t]
  by (auto simp: checkVerified_def counted_def split: session_state.splits bool.splits)

lemma answered_counted:
  assumes "flight_ok s"
  shows "counted k (for_app k own) (for_app k own * (allowance att - 1)) s (answered own att tok res t s)"
proof (cases res)
  case None
  then show ?thesis using fail_counted[of k own s EOther] by (auto simp: answered_def counted_def)
next
  case (Some r)
  have f: "counted k (for_app k own) (for_app k own * 2) s (validAccessToken own Retry401 t (dropToken tok s))"
    using valid_counted[OF flights.drop_I[OF assms], of k own Retry401 tok t] by (simp add: counted_def)
  have c: "counted k (for_app k own) (for_app k own) s (checkVerified own tok r t (signOutLocally s))"
    using check_counted[OF flights.signOut_I[OF assms], of k own tok r t] by (simp add: counted_def)
  have m: "counted k (for_app k own) 0 s (finishRequest own r (markEmailUnverified s))"
    using finish_counted[of k own "markEmailUnverified s" r] by (simp add: counted_def)
  have n: "counted k (for_app k own) (for_app k own * 2) s (checkVerified own tok r t s)"
    by (rule counted_weaken[OF check_counted[OF assms]]) simp
  show ?thesis using Some f c m n check_counted[OF assms, of k own tok r t] finish_counted[of k own s r]
    by (cases att) (auto simp: answered_def)
qed

lemma settleFetch_counted:
  assumes "flight_ok s" "numbers_ok s"
  shows "counted k 0 0 s (settleFetch n res t s)"
proof (cases "map_of (sent s) n")
  case None
  then show ?thesis by (simp add: settleFetch_def)
next
  case (Some x)
  obtain own att tok where x: "x = (own, att, tok)" by (cases x)
  obtain as bs where ab: "sent s = as @ (n, x) # bs" using map_of_SomeD[OF Some] by (metis split_list)
  then have "n \<notin> fst ` set as" "n \<notin> fst ` set bs"
    using assms(2) by (auto simp: numbers_ok_def)
  then have "filter (\<lambda>y. fst y \<noteq> n) as = as" "filter (\<lambda>y. fst y \<noteq> n) bs = bs"
    by (auto intro!: filter_True)
  then have f: "filter (\<lambda>y. fst y \<noteq> n) (sent s) = as @ bs" using ab by simp
  let ?s1 = "s\<lparr>sent := as @ bs\<rparr>"
  have "tally k s = tally k ?s1 + for_app k own" "potential k s = potential k ?s1 + for_app k own * (allowance att - 1)"
    using ab x by (auto simp: tally_def potential_def for_app_def)
  moreover have "flight_ok ?s1" using assms(1) by (simp add: flight_ok_def)
  from answered_counted[OF this, of k own att tok res t]
  have "counted k (for_app k own) (for_app k own * (allowance att - 1)) ?s1 (settleFetch n res t s)"
    using Some x f by (simp add: settleFetch_def)
  ultimately show ?thesis by (simp add: counted_def)
qed


definition request_weight :: "nat \<Rightarrow> refresh_waiter \<Rightarrow> nat \<times> nat" where
  "request_weight k w = (case w of WRequest own att \<Rightarrow> (for_app k own, for_app k own * allowance att) | _ \<Rightarrow> (0, 0))"

lemma resume_counted:
  "flight_ok s \<Longrightarrow> counted k (fst (request_weight k w)) (snd (request_weight k w)) s (resume t w s)"
proof -
  assume f: "flight_ok s"
  show ?thesis
  proof (cases w)
    case (WRequest own att)
    then show ?thesis using send_counted by (simp add: resume_def request_weight_def)
  next
    case WRestore
    then show ?thesis using valid_counted[OF f, of k OfRestore First t]
      by (simp add: resume_def startRequest_def request_weight_def for_app_def)
  next
    case (WRevalidate n)
    then show ?thesis by (simp add: resume_def request_weight_def counted_def)
  next
    case (WReload r)
    then show ?thesis using valid_counted[OF f, of k "OfReload r" First t]
      by (simp add: resume_def startRequest_def request_weight_def for_app_def)
  qed
qed

lemma abandon_counted: "counted k (fst (request_weight k w)) (snd (request_weight k w)) s (abandon err w s)"
proof (cases w)
  case (WRequest own att)
  then show ?thesis using fail_counted[of k own s err] by (simp add: abandon_def request_weight_def counted_def)
next
  case WRestore
  then show ?thesis using fail_counted[of k OfRestore s err]
    by (simp add: abandon_def request_weight_def for_app_def)
next
  case (WRevalidate n)
  then show ?thesis by (auto simp: abandon_def request_weight_def counted_def split: failure.splits)
next
  case (WReload r)
  then show ?thesis using fail_counted[of k "OfReload r" s err]
    by (simp add: abandon_def request_weight_def for_app_def)
qed

lemma fold_counted:
  assumes "\<And>w s. J s \<Longrightarrow> counted k (fst (g w)) (snd (g w)) s (f w s)" "\<And>w s. J s \<Longrightarrow> J (f w s)" "J s"
  shows "counted k (\<Sum>w\<leftarrow>ws. fst (g w)) (\<Sum>w\<leftarrow>ws. snd (g w)) s (fold f ws s)"
  using assms(3)
proof (induction ws arbitrary: s)
  case (Cons w ws)
  then show ?case using counted_trans[OF assms(1)[OF Cons.prems] Cons.IH[OF assms(2)[OF Cons.prems]]] by simp
qed simp

lemma waiting_weight:
  "length (filter (is_request k) ws) = (\<Sum>w\<leftarrow>ws. fst (request_weight k w))"
  "(\<Sum>w\<leftarrow>ws. case w of WRequest own att \<Rightarrow> if own = App k then allowance att else 0 | _ \<Rightarrow> 0)
     = (\<Sum>w\<leftarrow>ws. snd (request_weight k w))"
  by (induction ws) (auto simp: request_weight_def for_app_def split: refresh_waiter.splits)

lemma settleRefresh_counted:
  assumes "flight_ok s"
  shows "counted k 0 0 s (settleRefresh res t s)"
proof (cases "inflight s")
  case False
  then show ?thesis by (simp add: settleRefresh_def)
next
  case True
  let ?s1 = "tell OutRefreshSettled (s\<lparr>inflight := False, waiting := []\<rparr>)"
  let ?n = "\<Sum>w\<leftarrow>waiting s. fst (request_weight k w)" and ?m = "\<Sum>w\<leftarrow>waiting s. snd (request_weight k w)"
  have s1: "tally k s = tally k ?s1 + ?n" "potential k s = potential k ?s1 + ?m"
    using waiting_weight[of k "waiting s"] by (auto simp: tally_def potential_def tell_def)
  have a: "counted k ?n ?m u (fold (abandon err) (waiting s) u)" for u err
    by (rule fold_counted[where J = "\<lambda>_. True"]) (auto intro: abandon_counted)
  have r: "counted k ?n ?m u (fold (resume t) (waiting s) u)" if "flight_ok u" "accessToken u \<noteq> None" for u
  proof (rule fold_counted[where J = "\<lambda>u. flight_ok u \<and> accessToken u \<noteq> None"])
    show "flight_ok u \<and> accessToken u \<noteq> None" using that by simp
    show "flight_ok (resume t w x) \<and> accessToken (resume t w x) \<noteq> None"
      if "flight_ok x \<and> accessToken x \<noteq> None" for w x
      using that flights.resume_I flights.resume_token by blast
  qed (auto intro: resume_counted)
  have f: "flight_ok ?s1" using flights.land_I assms True by simp
  then have "counted k ?n ?m (acceptTokens tr t ?s1) (fold (resume t) (waiting s) (acceptTokens tr t ?s1))" for tr
    using r[of "acceptTokens tr t ?s1"] flights.token_I[OF f] by (simp add: acceptTokens_def)
  then have r': "counted k ?n ?m ?s1 (fold (resume t) (waiting s) (acceptTokens tr t ?s1))" for tr
    by (simp add: counted_def acceptTokens_def)
  have a': "counted k ?n ?m ?s1 (fold (abandon err) (waiting s) (signOutLocally ?s1))" for err
    using a[of "signOutLocally ?s1" err] by (simp add: counted_def)
  have "counted k ?n ?m ?s1 (settleRefresh res t s)"
    using True a r' a' by (auto simp: settleRefresh_def Let_def split: option.splits)
  then show ?thesis using s1 by (simp add: counted_def)
qed

definition asks :: "nat \<Rightarrow> session_event \<Rightarrow> bool" where
  "asks k e = (e = EvRequest k)"

lemma step_counted:
  assumes "flight_ok s" "numbers_ok s"
  shows "counted k (if asks k (snd te) then 1 else 0) (if asks k (snd te) then 3 else 0) s (sessionStep te s)"
proof (cases "snd te")
  case (EvRequest n)
  then show ?thesis using valid_counted[OF assms(1), of k "App n" First "fst te"]
    by (auto simp: sessionStep_def startRequest_def asks_def for_app_def)
next
  case (EvProfile n)
  then show ?thesis using valid_counted[OF assms(1), of k "OfProfile n" First "fst te"]
    by (auto simp: sessionStep_def startRequest_def asks_def for_app_def)
next
  case (EvSettleFetch n r)
  then show ?thesis using settleFetch_counted[OF assms] by (simp add: sessionStep_def asks_def)
next
  case (EvSettleRefresh r)
  then show ?thesis using settleRefresh_counted[OF assms(1)] by (simp add: sessionStep_def asks_def)
next
  case EvRestore
  have "flight_ok (s\<lparr>restoring := True\<rparr>)" by (rule flights.restoring_I[OF assms(1)])
  then show ?thesis using EvRestore refresh_other_counted[of "s\<lparr>restoring := True\<rparr>" WRestore k]
    by (auto simp: sessionStep_def asks_def restore_def counted_def)
next
  case (EvRevalidate n)
  have "flight_ok (s\<lparr>accessToken := None\<rparr>)" by (rule flights.token_I[OF assms(1)])
  then show ?thesis using EvRevalidate refresh_other_counted[of "s\<lparr>accessToken := None\<rparr>" "WRevalidate n" k]
    by (auto simp: sessionStep_def asks_def revalidate_def counted_def)
next
  case (EvRecheck n)
  have "flight_ok (s\<lparr>accessToken := None\<rparr>)" by (rule flights.token_I[OF assms(1)])
  then show ?thesis using EvRecheck refresh_other_counted[of "s\<lparr>accessToken := None\<rparr>" "WReload (Recheck n)" k]
    by (auto simp: sessionStep_def asks_def recheckEmailVerification_def reloadVerification_def dropAccessToken_def counted_def)
next
  case (EvSettlePublic n r)
  have "flight_ok (s\<lparr>publics := ps, accessToken := None\<rparr>)" for ps
    by (intro flights.token_I flights.auth_I assms(1))
  then have "counted k 0 0 (s\<lparr>publics := ps, accessToken := None\<rparr>) (refresh (WReload (Verify n)) (s\<lparr>publics := ps, accessToken := None\<rparr>))" for ps
    by (rule refresh_other_counted) simp
  then have "counted k 0 0 s (refresh (WReload (Verify n)) (s\<lparr>publics := ps, accessToken := None\<rparr>))" for ps
    by (simp add: counted_def)
  then show ?thesis using EvSettlePublic
    by (auto simp: sessionStep_def asks_def settlePublic_def reloadVerification_def dropAccessToken_def Let_def counted_def
        split: option.splits public_call.splits session_state.splits)
qed (auto simp: sessionStep_def asks_def settleSignIn_def acceptTokens_def settleLogout_def signIn_def logout_def
      publicRequest_def Let_def counted_def split: option.splits)

lemma run_counted:
  "flight_ok (sessionRun es) \<and> numbers_ok (sessionRun es)
    \<and> tally k (sessionRun es) = length (filter (asks k \<circ> snd) es)
    \<and> potential k (sessionRun es) \<le> 3 * length (filter (asks k \<circ> snd) es)"
proof -
  have "flight_ok s \<Longrightarrow> numbers_ok s \<Longrightarrow>
      counted k (length (filter (asks k \<circ> snd) es)) (3 * length (filter (asks k \<circ> snd) es)) s (fold sessionStep es s)" for s
  proof (induction es arbitrary: s)
    case (Cons e es)
    have "counted k (length (filter (asks k \<circ> snd) es)) (3 * length (filter (asks k \<circ> snd) es))
        (sessionStep e s) (fold sessionStep es (sessionStep e s))"
      using Cons.IH Cons.prems flights.step_I numbers.step_I by blast
    from counted_trans[OF step_counted[OF Cons.prems] this] show ?case
      by (auto simp: comp_def split: if_splits)
  qed simp
  moreover have "flight_ok createSessionCore" "numbers_ok createSessionCore"
    by (auto simp: flight_ok_def numbers_ok_def createSessionCore_def)
  moreover have "tally k createSessionCore = 0" "potential k createSessionCore = 0"
    by (auto simp: tally_def potential_def createSessionCore_def)
  ultimately show ?thesis using flights.run_I numbers.run_I
    by (fastforce simp: sessionRun_def counted_def)
qed

text \<open>C21: no request is lost, answered twice, or retried without end: at every moment of a run, each
  request asked for is in exactly one place (waiting for a refresh, sent, or settled), and it is sent
  at most three times (the first attempt, one retry after a 401 and one after an unverified email).\<close>

theorem session_request_settled:
  "length (filter (is_request k) (waiting (sessionRun es)))
     + length (filter (\<lambda>x. fst (snd x) = App k) (sent (sessionRun es)))
     + length (filter (settles k) (log_out (sessionRun es))) = length (filter (asks k \<circ> snd) es)
   \<and> length (filter (\<lambda>x. \<exists>v. x = OutFetch (App k) v) (log_out (sessionRun es)))
       \<le> 3 * length (filter (asks k \<circ> snd) es)"
  using run_counted[of es k] unfolding tally_def potential_def by linarith

text \<open>a late 401 does not throw away the token another request has just fetched: when the token it
  was sent with is no longer the one in memory, the request is sent again at once with the newer one,
  which stays, and no refresh starts.\<close>

theorem stale_401_keeps_token:
  assumes "map_of (sent s) n = Some (own, First, old)" "accessToken s = Some (v, expiresAt)" "v \<noteq> old"
    "expiresAt - t \<ge> EXPIRY_MARGIN_MS" "rs_status r = 401"
  shows "accessToken (settleFetch n (Some r) t s) = Some (v, expiresAt)
    \<and> log_out (settleFetch n (Some r) t s) = log_out s @ [OutFetch own v]
    \<and> inflight (settleFetch n (Some r) t s) = inflight s"
  using assms by (simp add: settleFetch_def answered_def dropToken_def validAccessToken_def sendRequest_def tell_def)

definition sample_response :: "int \<Rightarrow> response" where
  "sample_response status = \<lparr>rs_status = status, rs_content_type = None, rs_retry_after = None,
     rs_problem = None, rs_user = None, rs_tokens = None\<rparr>"

definition stale_sample :: session where
  \<comment> \<open>a request sent with the token \<open>a\<close>, and a newer token \<open>b\<close> in memory\<close>
  "stale_sample = createSessionCore\<lparr>accessToken := Some (''b'', 100000), sent := [(0, (App 1, First, ''a''))]\<rparr>"

theorem stale_401_keeps_token_witness:
  "accessToken (settleFetch 0 (Some (sample_response 401)) 5 stale_sample) = Some (''b'', 100000)"
  using stale_401_keeps_token[of stale_sample 0 "App 1" "''a''" "''b''" 100000 5 "sample_response 401"]
  by (simp add: stale_sample_def sample_response_def EXPIRY_MARGIN_MS_def)

text \<open>nothing remembers that the user has signed out: whatever the state is when the answer to a change
  of the profile comes, the session is shown as signed in afterwards, and as verified. When the user
  has logged out meanwhile, the screens are those of a signed-in user without an access token; when
  the chat has been stopped until the address is verified, that is forgotten. (\<open>email.ts\<close> looks at
  the state again after the same await.)\<close>

theorem late_profile_signs_in:
  assumes "map_of (sent (sessionRun es)) n = Some (OfProfile k, att, token)"
    "ok_response r" "rs_user r = Some u"
  shows "sn_state (sessionRun (es @ [(t, EvSettleFetch n (Some r))])) = SignedIn (Some u) False"
proof -
  have "rs_status r \<noteq> 401" "\<not> isEmailUnverified r" using assms(2) by (auto simp: ok_response_def isEmailUnverified_def)
  then show ?thesis using assms
    by (simp add: sessionRun_def sessionStep_def settleFetch_def answered_def checkVerified_def finishRequest_def
        setState_def tell_def split: attempt.split)
qed

definition sample_user :: user where
  "sample_user = \<lparr>us_id = ''U'', us_handle = ''u'', us_display_name = ''U'', us_email = ''u@example.com'',
     us_email_verified = True, us_avatar_url = None, us_created_at = ''2026-01-01T00:00:00Z''\<rparr>"

definition sample_tokens :: token_response where
  "sample_tokens = \<lparr>tr_user = Some sample_user, tr_access_token = ''a'', tr_token_type = ''Bearer'',
     tr_expires_in = 900, tr_refresh_token = None, tr_refresh_token_expires_at = None\<rparr>"

definition signed_out_run :: "(int \<times> session_event) list" where
  \<comment> \<open>a login, a change of the profile that is not answered yet, and a logout\<close>
  "signed_out_run = [(0, EvSignIn 0 ''login''), (1, EvSettleSignIn 0 (Some (sample_response 200\<lparr>rs_tokens := Some sample_tokens\<rparr>))),
     (2, EvProfile 1), (3, EvLogout 2), (4, EvSettleLogout 2)]"

theorem late_profile_signs_in_witness:
  "sn_state (sessionRun signed_out_run) = SignedOut \<and> accessToken (sessionRun signed_out_run) = None
   \<and> sn_state (sessionRun (signed_out_run @ [(5, EvSettleFetch 0 (Some (sample_response 200\<lparr>rs_user := Some sample_user\<rparr>)))]))
       = SignedIn (Some sample_user) False"
proof (intro conjI)
  show "sn_state (sessionRun signed_out_run) = SignedOut" by code_simp
  show "accessToken (sessionRun signed_out_run) = None" by code_simp
  show "sn_state (sessionRun (signed_out_run @ [(5, EvSettleFetch 0 (Some (sample_response 200\<lparr>rs_user := Some sample_user\<rparr>)))]))
       = SignedIn (Some sample_user) False"
    by (rule late_profile_signs_in[of signed_out_run 0 1 First "''a''"], code_simp) (simp_all add: ok_response_def sample_response_def)
qed

end
