(* ===== verification/SessionTabs.thy ===== *)
theory SessionTabs
  imports Main
begin

text \<open>
  Refreshes of several tabs (\<open>web/lib/auth/single-flight.ts\<close>). The tabs of a browser share the cookie
  with the refresh token; \<open>singleFlight\<close> runs a tab's refresh under the Web Lock \<open>hibari:refresh\<close>
  (\<open>locks.request\<close> grants it in the order of the requests and takes it back when the refresh has
  settled), or at once when the browser has no locks. A refresh sends the cookie's token when it
  starts and stores the new one when its answer arrives; it may also fail at any time, before the server
  has the request, after it, or after the server has exchanged the token, and the tab may be closed: then
  the lock is free although the cookie is the old one. The server is its documented contract: it
  exchanges the live token for a new one, and takes any other for a stolen one and revokes the
  session. Tokens are numbers, a new one is larger than all before.
\<close>

section \<open>The world\<close>

datatype run_phase = Presented nat \<comment> \<open>sent with this token\<close> | Exchanged nat \<comment> \<open>answered with this one\<close>

record world =
  cookie :: nat
  live :: nat
  revoked :: bool
  running :: "(nat \<times> run_phase) list"   \<comment> \<open>the tabs whose refresh runs\<close>
  queue :: "nat list"                    \<comment> \<open>the tabs that wait for the lock\<close>
  stray :: "nat list"                    \<comment> \<open>requests on their way that no tab waits for any more\<close>
  lost :: bool                           \<comment> \<open>no state of the code: some refresh ended without the answer of a request that had left\<close>

definition first_world :: world where
  "first_world = \<lparr>cookie = 0, live = 0, revoked = False, running = [], queue = [], stray = [], lost = False\<rparr>"

definition busy :: "world \<Rightarrow> nat \<Rightarrow> bool" where
  \<comment> \<open>the tab's \<open>inflight\<close> promise\<close>
  "busy w t = (t \<in> fst ` set (running w) \<or> t \<in> set (queue w))"

definition startRun :: "nat \<Rightarrow> world \<Rightarrow> world" where
  \<comment> \<open>\<open>run()\<close>: \<open>authRequest("refresh")\<close> with the cookie of the moment\<close>
  "startRun t w = w\<lparr>running := running w @ [(t, Presented (cookie w))]\<rparr>"

definition callRefresh :: "bool \<Rightarrow> nat \<Rightarrow> world \<Rightarrow> world" where
  \<comment> \<open>the returned function of \<open>singleFlight\<close>; the flag tells whether there are locks\<close>
  "callRefresh locks t w =
     (if busy w t then w
      else if locks \<and> (running w \<noteq> [] \<or> queue w \<noteq> []) then w\<lparr>queue := queue w @ [t]\<rparr>
      else startRun t w)"

definition releaseLock :: "bool \<Rightarrow> nat \<Rightarrow> world \<Rightarrow> world" where
  \<comment> \<open>the refresh of the tab has settled: the lock goes to the tab that has waited longest\<close>
  "releaseLock locks t w =
     (let w1 = w\<lparr>running := filter (\<lambda>x. fst x \<noteq> t) (running w)\<rparr> in
      case queue w1 of [] \<Rightarrow> w1 | n # ns \<Rightarrow> if locks then startRun n (w1\<lparr>queue := ns\<rparr>) else w1)"

definition exchange :: "nat \<Rightarrow> world \<Rightarrow> world" where
  \<comment> \<open>the server answers the tab's request\<close>
  "exchange t w =
     (case map_of (running w) t of
        Some (Presented n) \<Rightarrow>
          if n = live w
          then w\<lparr>live := Suc (live w), running := map (\<lambda>x. if fst x = t then (t, Exchanged (Suc (live w))) else x) (running w)\<rparr>
          else w\<lparr>revoked := True\<rparr>
      | _ \<Rightarrow> w)"

definition deliver :: "bool \<Rightarrow> nat \<Rightarrow> world \<Rightarrow> world" where
  \<comment> \<open>the answer arrives: the browser stores the cookie before the promise settles\<close>
  "deliver locks t w =
     (case map_of (running w) t of
        Some (Exchanged n) \<Rightarrow> releaseLock locks t (w\<lparr>cookie := n\<rparr>) | _ \<Rightarrow> w)"

definition unsent :: "bool \<Rightarrow> nat \<Rightarrow> world \<Rightarrow> world" where
  \<comment> \<open>the refresh fails and the token is not exchanged: the request never left, or the server answers with an error\<close>
  "unsent locks t w =
     (case map_of (running w) t of Some (Presented n) \<Rightarrow> releaseLock locks t w | _ \<Rightarrow> w)"

definition loseAnswer :: "bool \<Rightarrow> nat \<Rightarrow> world \<Rightarrow> world" where
  \<comment> \<open>\<open>fetch\<close> rejects after the request has left, or the tab is closed: the lock is taken back all the same\<close>
  "loseAnswer locks t w =
     (case map_of (running w) t of
        Some (Presented n) \<Rightarrow> releaseLock locks t (w\<lparr>lost := True, stray := stray w @ [n]\<rparr>)
      | Some (Exchanged n) \<Rightarrow> releaseLock locks t (w\<lparr>lost := True\<rparr>)
      | None \<Rightarrow> w)"

definition closeWaiting :: "nat \<Rightarrow> world \<Rightarrow> world" where
  \<comment> \<open>a tab that waits for the lock is closed\<close>
  "closeWaiting t w = w\<lparr>queue := filter (\<lambda>x. x \<noteq> t) (queue w)\<rparr>"

definition arriveStray :: "nat \<Rightarrow> world \<Rightarrow> world" where
  \<comment> \<open>the server gets a request whose answer nobody will read\<close>
  "arriveStray n w =
     (if n \<notin> set (stray w) then w
      else let w1 = w\<lparr>stray := remove1 n (stray w)\<rparr>
           in if n = live w then w1\<lparr>live := Suc (live w)\<rparr> else w1\<lparr>revoked := True\<rparr>)"

inductive world_step :: "bool \<Rightarrow> world \<Rightarrow> world \<Rightarrow> bool" for locks where
  step_call: "world_step locks w (callRefresh locks t w)"
| step_exchange: "world_step locks w (exchange t w)"
| step_deliver: "world_step locks w (deliver locks t w)"
| step_unsent: "world_step locks w (unsent locks t w)"
| step_lose: "world_step locks w (loseAnswer locks t w)"
| step_close: "world_step locks w (closeWaiting t w)"
| step_stray: "world_step locks w (arriveStray n w)"

inductive reachable_world :: "bool \<Rightarrow> world \<Rightarrow> bool" for locks where
  reach_first: "reachable_world locks first_world"
| reach_step: "reachable_world locks w \<Longrightarrow> world_step locks w w' \<Longrightarrow> reachable_world locks w'"

inductive_cases world_step_cases: "world_step locks w w'"

section \<open>The lock keeps the token from being used twice\<close>

definition lock_ok :: "world \<Rightarrow> bool" where
  "lock_ok w = (\<not> revoked w \<and> \<not> lost w \<and> stray w = [] \<and>
     (running w = [] \<and> cookie w = live w \<and> queue w = []
      \<or> (\<exists>t. running w = [(t, Presented (live w))] \<and> cookie w = live w)
      \<or> (\<exists>t. running w = [(t, Exchanged (live w))] \<and> cookie w < live w)))"

lemma lock_ok_cases:
  assumes "lock_ok w"
  obtains (free) "running w = []" "cookie w = live w" "queue w = []" "\<not> revoked w" "\<not> lost w" "stray w = []"
    | (presented) t where "running w = [(t, Presented (live w))]" "cookie w = live w" "\<not> revoked w" "\<not> lost w" "stray w = []"
    | (exchanged) t where "running w = [(t, Exchanged (live w))]" "cookie w < live w" "\<not> revoked w" "\<not> lost w" "stray w = []"
  using assms by (auto simp: lock_ok_def)

lemma lock_ok_release:
  "running w = [(t, p)] \<Longrightarrow> cookie w = live w \<Longrightarrow> \<not> revoked w \<Longrightarrow> \<not> lost w \<Longrightarrow> stray w = [] \<Longrightarrow> lock_ok (releaseLock True t w)"
  by (auto simp: lock_ok_def releaseLock_def startRun_def Let_def split: list.splits)

lemma lock_ok_call: "lock_ok w \<Longrightarrow> lock_ok (callRefresh True t w)"
  by (erule lock_ok_cases) (auto simp: callRefresh_def startRun_def lock_ok_def)

lemma lock_ok_exchange: "lock_ok w \<Longrightarrow> lock_ok (exchange t w)"
  by (erule lock_ok_cases) (auto simp: exchange_def lock_ok_def)

lemma lock_ok_deliver:
  assumes "lock_ok w"
  shows "lock_ok (deliver True t w)"
proof -
  have L: "lock_ok (releaseLock True t (w\<lparr>cookie := live w\<rparr>))" if "running w = [(t, Exchanged (live w))]"
    using that assms by (intro lock_ok_release) (auto simp: lock_ok_def)
  show ?thesis by (rule lock_ok_cases[OF assms]) (auto simp: deliver_def assms L)
qed

lemma lock_ok_unsent:
  assumes "lock_ok w"
  shows "lock_ok (unsent True t w)"
proof -
  have L: "lock_ok (releaseLock True t w)" if "running w = [(t, Presented (live w))]"
    using that assms by (intro lock_ok_release) (auto simp: lock_ok_def)
  show ?thesis by (rule lock_ok_cases[OF assms]) (auto simp: unsent_def assms L)
qed

lemma lock_ok_close: "lock_ok w \<Longrightarrow> lock_ok (closeWaiting t w)"
  by (erule lock_ok_cases) (auto simp: closeWaiting_def lock_ok_def)

lemma lock_ok_stray: "lock_ok w \<Longrightarrow> lock_ok (arriveStray n w)"
  by (erule lock_ok_cases) (auto simp: arriveStray_def lock_ok_def)

lemma lost_release [simp]: "lost (releaseLock locks t w) = lost w"
  by (simp add: releaseLock_def startRun_def Let_def split: list.splits)

lemma lost_lose: "loseAnswer locks t w = w \<or> lost (loseAnswer locks t w)"
  by (auto simp: loseAnswer_def split: option.splits run_phase.splits)

lemma lost_step: "world_step locks w w' \<Longrightarrow> lost w \<Longrightarrow> lost w'"
  by (erule world_step_cases)
     (auto simp: callRefresh_def startRun_def exchange_def deliver_def unsent_def loseAnswer_def closeWaiting_def
        arriveStray_def Let_def split: option.splits run_phase.splits)

lemma lock_ok_step: "lock_ok w \<Longrightarrow> world_step True w w' \<Longrightarrow> lost w' \<or> lock_ok w'"
proof (erule world_step_cases, goal_cases)
  case (5 t)
  then show ?case using lost_lose[of True t w] by auto
qed (auto intro: lock_ok_call lock_ok_exchange lock_ok_deliver lock_ok_unsent lock_ok_close lock_ok_stray)

lemma lock_ok_first: "lock_ok first_world"
  by (simp add: lock_ok_def first_world_def)

lemma reachable_lock: "reachable_world True w \<Longrightarrow> lost w \<or> lock_ok w"
proof (induction rule: reachable_world.induct)
  case reach_first
  show ?case using lock_ok_first by blast
next
  case (reach_step w w')
  then show ?case using lock_ok_step lost_step by blast
qed

lemma lost_answer_revokes:
  \<comment> \<open>The answer with the new token is lost, and some tab refreshes: the one that waited longest, or the next to ask.\<close>
  assumes "reachable_world True w" "\<not> lost w" "map_of (running w) t = Some (Exchanged n)"
  shows "case queue w of [] \<Rightarrow> revoked (exchange u (callRefresh True u (loseAnswer True t w)))
    | v # _ \<Rightarrow> revoked (exchange v (loseAnswer True t w))"
proof -
  have "lock_ok w" using reachable_lock[OF assms(1)] assms(2) by simp
  then have "running w = [(t, Exchanged (live w))]" "cookie w < live w"
    using assms(3) by (auto elim!: lock_ok_cases split: if_splits)
  then show ?thesis
    by (auto simp: loseAnswer_def releaseLock_def callRefresh_def busy_def startRun_def exchange_def split: list.splits)
qed

text \<open>C20: with the Web Lock, whatever the interleaving of the refreshes of any number of tabs, the session is
  revoked for a reuse only after a refresh ended without the answer of a request that had left (\<open>fetch\<close> rejected
  late, or its tab was closed), and as long as no answer was lost at most one tab refreshes at a time, with the live
  token. (A lost answer does revoke the session at the next refresh: \<open>lost_answer_revokes\<close>.)\<close>

theorem lock_prevents_reuse:
  assumes "reachable_world True w" "\<not> lost w"
  shows "\<not> revoked w \<and> length (running w) \<le> 1 \<and> (\<forall>(t, p)\<in>set (running w). p = Presented (live w) \<or> p = Exchanged (live w))"
  using reachable_lock[OF assms(1)] assms(2) by (auto elim!: lock_ok_cases)

theorem lock_prevents_reuse_witness:
  "let w = deliver True 1 (exchange 1 (callRefresh True 2 (callRefresh True 1 first_world)))
   in running w = [(2, Presented 1)] \<and>
      \<not> revoked w \<and> length (running w) \<le> 1 \<and> (\<forall>(t, p)\<in>set (running w). p = Presented (live w) \<or> p = Exchanged (live w))"
proof -
  let ?w = "deliver True 1 (exchange 1 (callRefresh True 2 (callRefresh True 1 first_world)))"
  have "reachable_world True ?w"
    by (intro reach_step[OF _ step_deliver] reach_step[OF _ step_exchange] reach_step[OF _ step_call] reach_first)
  moreover have "\<not> lost ?w" "running ?w = [(2, Presented 1)]" by code_simp+
  ultimately show ?thesis unfolding Let_def using lock_prevents_reuse[of ?w] by blast
qed

text \<open>Without locks (an old browser), two tabs that refresh at the same time do lose the session.\<close>

lemma no_lock_reuse: "\<exists>w. reachable_world False w \<and> revoked w"
proof
  let ?w = "exchange 2 (exchange 1 (callRefresh False 2 (callRefresh False 1 first_world)))"
  have "reachable_world False ?w"
    by (intro reach_step[OF _ step_exchange] reach_step[OF _ step_call] reach_first)
  then show "reachable_world False ?w \<and> revoked ?w"
    by (simp add: exchange_def callRefresh_def startRun_def busy_def first_world_def)
qed

end
