(* ===== verification/SearchQuery.thy ===== *)
theory SearchQuery
  imports JsText Wire
begin

text \<open>
  \<open>web/lib/chat/search/search-query.ts\<close>: the search box and the filter dialog edit one value; this
  theory holds both directions between the value and the text of the box, and the date choices.
  The theorems say when formatting and reading back is the identity. Texts are code units; the
  modifiers are ASCII, so the case mapping of the source is the ASCII one on them.
\<close>

section \<open>The value\<close>

record search_room =
  sr_id :: utext
  sr_kind :: room_kind
  sr_name :: utext

record search_person =
  sp_id :: utext
  sp_name :: utext

record search_query =
  sender :: "search_person option"
  in_room :: "search_room option"
  after :: "utext option"
  before :: "utext option"
  query_text :: utext

record search_lookup =
  rooms :: "search_room list"
  members :: "search_person list"

definition empty_query :: search_query where
  "empty_query = \<lparr>sender = None, in_room = None, after = None, before = None, query_text = []\<rparr>"

datatype modifier = ModIn | ModFrom | ModBefore | ModAfter | ModOn

definition modifier_text :: "modifier \<Rightarrow> utext" where
  "modifier_text m = (case m of ModIn \<Rightarrow> units ''in'' | ModFrom \<Rightarrow> units ''from'' | ModBefore \<Rightarrow> units ''before''
     | ModAfter \<Rightarrow> units ''after'' | ModOn \<Rightarrow> units ''on'')"

definition MODIFIERS :: "modifier list" where
  "MODIFIERS = [ModIn, ModFrom, ModBefore, ModAfter, ModOn]"

definition ascii_lower :: "int \<Rightarrow> int" where
  "ascii_lower c = (if 65 \<le> c \<and> c \<le> 90 then c + 32 else c)"

definition DATE_PATTERN :: "utext \<Rightarrow> bool" where
  "DATE_PATTERN t = (length t = 10 \<and>
     (\<forall>i\<in>set [0..<10]. if i = 4 \<or> i = 7 then t ! i = 45 else is_digit (t ! i)))"

section \<open>From the box to the value\<close>

definition unquote :: "utext \<Rightarrow> utext" where
  "unquote v = (case v of [] \<Rightarrow> [] | c # cs \<Rightarrow>
     if c = 34 then (if cs \<noteq> [] \<and> last cs = 34 then butlast cs else cs) else v)"

definition quote :: "utext \<Rightarrow> utext" where
  "quote v = (if list_ex is_space v then [34] @ v @ [34] else v)"

definition flush_token :: "utext \<Rightarrow> utext list" where
  "flush_token cur = (if cur = [] then [] else [cur])"

fun token_loop :: "utext \<Rightarrow> utext \<Rightarrow> bool \<Rightarrow> utext list" where
  \<comment> \<open>the loop of \<open>splitTokens\<close>: the characters to come, \<open>current\<close>, \<open>quoted\<close>\<close>
  "token_loop [] cur quoted = flush_token cur"
| "token_loop (c # cs) cur quoted =
     (if c = 34 then token_loop cs (cur @ [c]) (\<not> quoted)
      else if \<not> quoted \<and> is_space c then flush_token cur @ token_loop cs [] quoted
      else token_loop cs (cur @ [c]) quoted)"

definition splitTokens :: "utext \<Rightarrow> utext list" where
  "splitTokens input = token_loop input [] False"

definition strip_mark :: "int list \<Rightarrow> utext \<Rightarrow> utext" where
  \<comment> \<open>\<open>.replace(/^[...]/, "")\<close>\<close>
  "strip_mark marks v = (case v of [] \<Rightarrow> [] | c # cs \<Rightarrow> if c \<in> set marks then cs else v)"

definition applyModifier ::
    "search_query \<Rightarrow> modifier \<Rightarrow> utext \<Rightarrow> search_lookup \<Rightarrow> search_query option" where
  \<comment> \<open>\<open>None\<close> when the source returns \<open>false\<close>; it changes the query only when it returns \<open>true\<close>\<close>
  "applyModifier q m v lookup =
     (if v = [] then None else
      case m of
        ModIn \<Rightarrow>
          (case List.find (\<lambda>r. sr_name r = unquote (strip_mark (units ''#@'') v)) (rooms lookup) of
             None \<Rightarrow> None | Some r \<Rightarrow> Some (q\<lparr>in_room := Some r\<rparr>))
      | ModFrom \<Rightarrow>
          (case List.find (\<lambda>p. sp_name p = unquote (strip_mark (units ''@'') v)) (members lookup) of
             None \<Rightarrow> None | Some p \<Rightarrow> Some (q\<lparr>sender := Some p\<rparr>))
      | ModOn \<Rightarrow> if DATE_PATTERN v then Some (q\<lparr>after := Some v, before := Some v\<rparr>) else None
      | ModAfter \<Rightarrow> if DATE_PATTERN v then Some (q\<lparr>after := Some v\<rparr>) else None
      | ModBefore \<Rightarrow> if DATE_PATTERN v then Some (q\<lparr>before := Some v\<rparr>) else None)"

definition modifierOf :: "utext \<Rightarrow> modifier option" where
  "modifierOf token =
     List.find (\<lambda>m. prefix_of (modifier_text m @ [58]) (map ascii_lower token)) MODIFIERS"

definition join_spaces :: "utext list \<Rightarrow> utext" where
  \<comment> \<open>\<open>parts.join(" ")\<close>\<close>
  "join_spaces ts = concat (case ts of [] \<Rightarrow> [] | t # ts \<Rightarrow> t # map (\<lambda>x. 32 # x) ts)"

fun parse_loop :: "search_lookup \<Rightarrow> utext list \<Rightarrow> search_query \<Rightarrow> utext list \<Rightarrow> search_query" where
  \<comment> \<open>the loop of \<open>parseSearchQuery\<close> over the tokens, with \<open>query\<close> and \<open>rest\<close>\<close>
  "parse_loop lookup [] q rest = q\<lparr>query_text := join_spaces rest\<rparr>"
| "parse_loop lookup (t # ts) q rest =
     (case modifierOf t of
        None \<Rightarrow> parse_loop lookup ts q (rest @ [t])
      | Some m \<Rightarrow>
          (case applyModifier q m (unquote (drop (length (modifier_text m) + 1) t)) lookup of
             None \<Rightarrow> parse_loop lookup ts q (rest @ [t])
           | Some q' \<Rightarrow> parse_loop lookup ts q' rest))"

definition parseSearchQuery :: "utext \<Rightarrow> search_lookup \<Rightarrow> search_query" where
  "parseSearchQuery input lookup = parse_loop lookup (splitTokens input) empty_query []"

section \<open>From the value to the box\<close>

definition roomToken :: "search_room \<Rightarrow> utext" where
  "roomToken r = (if sr_kind r = Dm then units ''@'' else units ''#'') @ sr_name r"

definition format_filters :: "search_query \<Rightarrow> utext list" where
  \<comment> \<open>\<open>parts\<close> before the text\<close>
  "format_filters q =
     (case in_room q of None \<Rightarrow> [] | Some r \<Rightarrow> [units ''in:'' @ quote (roomToken r)])
     @ (case sender q of None \<Rightarrow> [] | Some p \<Rightarrow> [units ''from:'' @ quote (units ''@'' @ sp_name p)])
     @ (if after q \<noteq> None \<and> after q = before q then [units ''on:'' @ the (after q)]
        else (case after q of None \<Rightarrow> [] | Some d \<Rightarrow> [units ''after:'' @ d])
           @ (case before q of None \<Rightarrow> [] | Some d \<Rightarrow> [units ''before:'' @ d]))"

definition formatSearchQuery :: "search_query \<Rightarrow> utext" where
  "formatSearchQuery q = join_spaces (format_filters q @ (if query_text q \<noteq> [] then [query_text q] else []))"

section \<open>Dates\<close>

datatype date_choice = AnyDate | Today | Last7 | Last30

definition SEARCH_DATE_CHOICES :: "date_choice list" where
  "SEARCH_DATE_CHOICES = [AnyDate, Today, Last7, Last30]"

definition dateRangeOf :: "(utext \<Rightarrow> int \<Rightarrow> utext) \<Rightarrow> date_choice \<Rightarrow> utext \<Rightarrow> utext option \<times> utext option" where
  \<comment> \<open>\<open>after\<close> and \<open>before\<close>; the first argument is \<open>shiftDate\<close>\<close>
  "dateRangeOf shift choice today =
     (case choice of Today \<Rightarrow> (Some today, Some today) | Last7 \<Rightarrow> (Some (shift today (- 6)), None)
      | Last30 \<Rightarrow> (Some (shift today (- 29)), None) | AnyDate \<Rightarrow> (None, None))"

definition dateChoiceOf :: "(utext \<Rightarrow> int \<Rightarrow> utext) \<Rightarrow> utext option \<Rightarrow> utext option \<Rightarrow> utext \<Rightarrow> date_choice" where
  "dateChoiceOf shift aft bef today =
     (case List.find (\<lambda>v. v \<noteq> AnyDate \<and> dateRangeOf shift v today = (aft, bef)) SEARCH_DATE_CHOICES of
        Some v \<Rightarrow> v | None \<Rightarrow> AnyDate)"

lemma dateChoiceOf_range:
  assumes "shift today (- 6) \<noteq> shift today (- 29)"
  shows "dateRangeOf shift c today = (a, b) \<Longrightarrow> dateChoiceOf shift a b today = c"
  using assms by (cases c) (auto simp: dateChoiceOf_def dateRangeOf_def SEARCH_DATE_CHOICES_def)

section \<open>Splitting what was joined\<close>

fun quote_state :: "utext \<Rightarrow> bool \<Rightarrow> bool option" where
  \<comment> \<open>whether a text ends inside quotes; \<open>None\<close> when it has white space outside them\<close>
  "quote_state [] q = Some q"
| "quote_state (c # cs) q =
     (if c = 34 then quote_state cs (\<not> q) else if \<not> q \<and> is_space c then None else quote_state cs q)"

lemma quote_state_append:
  "quote_state (xs @ ys) q = (case quote_state xs q of None \<Rightarrow> None | Some r \<Rightarrow> quote_state ys r)"
  by (induction xs q rule: quote_state.induct) auto

lemma token_loop_word:
  "quote_state xs q = Some r \<Longrightarrow> token_loop (xs @ ys) cur q = token_loop ys (cur @ xs) r"
  by (induction xs q arbitrary: cur rule: quote_state.induct) (auto split: if_splits)

definition closed_word :: "utext \<Rightarrow> bool" where
  "closed_word t = (t \<noteq> [] \<and> quote_state t False = Some False)"

lemma is_space_32 [simp]: "is_space 32"
  by (simp add: is_space_def)

lemma splitTokens_word: "t \<noteq> [] \<Longrightarrow> quote_state t False = Some r \<Longrightarrow> splitTokens t = [t]"
  using token_loop_word[of t False r "[]" "[]"] by (simp add: splitTokens_def flush_token_def)

lemma splitTokens_Cons: "closed_word t \<Longrightarrow> splitTokens (t @ 32 # rest) = t # splitTokens rest"
  using token_loop_word[of t False False "32 # rest" "[]"]
  by (simp add: splitTokens_def closed_word_def flush_token_def)

lemma join_spaces_simps [simp]:
  "join_spaces [] = []" "join_spaces [t] = t"
  "join_spaces (t # u # us) = t @ 32 # join_spaces (u # us)"
  by (simp_all add: join_spaces_def)

lemma splitTokens_join:
  "list_all closed_word ts \<Longrightarrow> t \<noteq> [] \<Longrightarrow> splitTokens (join_spaces (ts @ [t])) = ts @ splitTokens t"
proof (induction ts)
  case (Cons u us)
  then have "splitTokens (join_spaces (us @ [t])) = us @ splitTokens t" by simp
  moreover have "join_spaces (u # us @ [t]) = u @ 32 # join_spaces (us @ [t])" by (cases us) auto
  ultimately show ?case using Cons.prems splitTokens_Cons by simp
qed simp

lemma splitTokens_join_closed: "list_all closed_word ts \<Longrightarrow> splitTokens (join_spaces ts) = ts"
proof (induction ts)
  case Nil
  show ?case by (simp add: splitTokens_def flush_token_def)
next
  case (Cons t ts)
  show ?case
  proof (cases ts)
    case Nil
    then show ?thesis using Cons.prems splitTokens_word[of t False] by (auto simp: closed_word_def)
  next
    case (Cons u us)
    then show ?thesis using Cons.IH Cons.prems splitTokens_Cons by simp
  qed
qed


section \<open>Reading back what was written\<close>

definition name_ok :: "utext \<Rightarrow> bool" where
  "name_ok n = (n \<noteq> [] \<and> 34 \<notin> set n)"

definition plain_text :: "search_lookup \<Rightarrow> utext \<Rightarrow> bool" where
  \<comment> \<open>the text alone is read as a text, without conditions\<close>
  "plain_text lookup t = (parseSearchQuery t lookup = empty_query\<lparr>query_text := t\<rparr>)"

definition opt_all :: "('a \<Rightarrow> bool) \<Rightarrow> 'a option \<Rightarrow> bool" where
  "opt_all P x = (case x of None \<Rightarrow> True | Some y \<Rightarrow> P y)"

lemma opt_all_simps [simp]: "opt_all P None" "opt_all P (Some y) = P y"
  by (simp_all add: opt_all_def)

definition query_ok :: "search_lookup \<Rightarrow> search_query \<Rightarrow> bool" where
  \<comment> \<open>the room and the sender are the ones their names are looked up to, the dates are dates\<close>
  "query_ok lookup q =
     (opt_all (\<lambda>r. name_ok (sr_name r) \<and> List.find (\<lambda>x. sr_name x = sr_name r) (rooms lookup) = Some r) (in_room q)
      \<and> opt_all (\<lambda>p. name_ok (sp_name p) \<and> List.find (\<lambda>x. sp_name x = sp_name p) (members lookup) = Some p) (sender q)
      \<and> opt_all DATE_PATTERN (after q) \<and> opt_all DATE_PATTERN (before q) \<and> plain_text lookup (query_text q))"

lemma quote_state_plain: "34 \<notin> set t \<Longrightarrow> list_all (\<lambda>c. \<not> is_space c) t \<Longrightarrow> quote_state t False = Some False"
  by (induction t) auto

lemma quote_state_inside: "34 \<notin> set t \<Longrightarrow> quote_state t True = Some True"
  by (induction t) auto

lemma quote_state_quote: "34 \<notin> set v \<Longrightarrow> quote_state (quote v) False = Some False"
  using quote_state_plain[of v] quote_state_inside[of v]
  by (auto simp: quote_def quote_state_append list_all_iff list_ex_iff)

lemma unquote_quote: "v \<noteq> [] \<Longrightarrow> hd v \<noteq> 34 \<Longrightarrow> unquote (quote v) = v"
  by (cases v) (auto simp: unquote_def quote_def)

lemma unquote_name: "34 \<notin> set n \<Longrightarrow> unquote n = n"
  by (cases n) (auto simp: unquote_def)

lemma is_space_ascii [simp]: "33 \<le> c \<Longrightarrow> c \<le> 126 \<Longrightarrow> \<not> is_space c"
  by (auto simp: is_space_def)

lemma roomToken_Cons: "\<exists>m. m \<in> {35, 64} \<and> roomToken r = m # sr_name r"
  by (simp add: roomToken_def)

lemma closed_room: "name_ok (sr_name r) \<Longrightarrow> closed_word (units ''in:'' @ quote (roomToken r))"
  using quote_state_quote[of "roomToken r"] roomToken_Cons[of r] by (auto simp: closed_word_def name_ok_def)

lemma closed_sender: "name_ok n \<Longrightarrow> closed_word (units ''from:'' @ quote (units ''@'' @ n))"
  using quote_state_quote[of "units ''@'' @ n"] by (auto simp: closed_word_def name_ok_def)

lemma DATE_chars: "DATE_PATTERN d \<Longrightarrow> c \<in> set d \<Longrightarrow> c = 45 \<or> is_digit c"
proof -
  assume d: "DATE_PATTERN d" "c \<in> set d"
  then obtain i where "i < 10" "d ! i = c" by (auto simp: DATE_PATTERN_def in_set_conv_nth)
  then show ?thesis using d(1) by (auto simp: DATE_PATTERN_def Ball_def split: if_splits)
qed

lemma closed_date:
  assumes "DATE_PATTERN d"
  shows "quote_state d False = Some False"
  by (rule quote_state_plain) (use DATE_chars[OF assms] in \<open>fastforce simp: list_all_iff is_digit_def\<close>)+

lemma closed_dates:
  "DATE_PATTERN d \<Longrightarrow> closed_word (units ''on:'' @ d)" "DATE_PATTERN d \<Longrightarrow> closed_word (units ''after:'' @ d)"
  "DATE_PATTERN d \<Longrightarrow> closed_word (units ''before:'' @ d)"
  using closed_date[of d] by (auto simp: closed_word_def)

lemma date_value: "DATE_PATTERN d \<Longrightarrow> unquote d = d \<and> d \<noteq> []"
  using DATE_chars[of d 34] by (cases d) (auto simp: unquote_def is_digit_def DATE_PATTERN_def)

lemmas modifier_evals = modifierOf_def MODIFIERS_def modifier_text_def ascii_lower_def

lemma parse_room:
  assumes "name_ok (sr_name r)" "List.find (\<lambda>x. sr_name x = sr_name r) (rooms lookup) = Some r"
  shows "parse_loop lookup ((units ''in:'' @ quote (roomToken r)) # ts) q rest = parse_loop lookup ts (q\<lparr>in_room := Some r\<rparr>) rest"
proof -
  obtain m where m: "m \<in> {35, 64}" "roomToken r = m # sr_name r" using roomToken_Cons by blast
  have v: "unquote (quote (roomToken r)) = m # sr_name r" using unquote_quote[of "roomToken r"] m by auto
  have "unquote (strip_mark (units ''#@'') (m # sr_name r)) = sr_name r"
    using m(1) assms(1) by (auto simp: strip_mark_def name_ok_def unquote_name)
  then show ?thesis using assms v by (simp add: modifier_evals applyModifier_def)
qed

lemma parse_sender:
  assumes "name_ok (sp_name p)" "List.find (\<lambda>x. sp_name x = sp_name p) (members lookup) = Some p"
  shows "parse_loop lookup ((units ''from:'' @ quote (units ''@'' @ sp_name p)) # ts) q rest
    = parse_loop lookup ts (q\<lparr>sender := Some p\<rparr>) rest"
proof -
  have v: "unquote (quote (units ''@'' @ sp_name p)) = 64 # sp_name p"
    using unquote_quote[of "units ''@'' @ sp_name p"] by simp
  have "unquote (strip_mark (units ''@'') (64 # sp_name p)) = sp_name p"
    using assms(1) by (simp add: strip_mark_def name_ok_def unquote_name)
  then show ?thesis using assms v by (simp add: modifier_evals applyModifier_def)
qed

lemma parse_dates:
  assumes "DATE_PATTERN d"
  shows "parse_loop lookup ((units ''on:'' @ d) # ts) q rest = parse_loop lookup ts (q\<lparr>after := Some d, before := Some d\<rparr>) rest"
    "parse_loop lookup ((units ''after:'' @ d) # ts) q rest = parse_loop lookup ts (q\<lparr>after := Some d\<rparr>) rest"
    "parse_loop lookup ((units ''before:'' @ d) # ts) q rest = parse_loop lookup ts (q\<lparr>before := Some d\<rparr>) rest"
  using assms date_value[OF assms] by (simp_all add: modifier_evals applyModifier_def)

declare parse_loop.simps(2) [simp del]

lemma parse_filters:
  assumes "query_ok lookup q"
  shows "parse_loop lookup (format_filters q @ ts) empty_query rest = parse_loop lookup ts (q\<lparr>query_text := []\<rparr>) rest
    \<and> list_all closed_word (format_filters q)"
proof -
  let ?r = "case in_room q of None \<Rightarrow> [] | Some r \<Rightarrow> [units ''in:'' @ quote (roomToken r)]"
  let ?s = "case sender q of None \<Rightarrow> [] | Some p \<Rightarrow> [units ''from:'' @ quote (units ''@'' @ sp_name p)]"
  let ?d = "if after q \<noteq> None \<and> after q = before q then [units ''on:'' @ the (after q)]
        else (case after q of None \<Rightarrow> [] | Some d \<Rightarrow> [units ''after:'' @ d])
           @ (case before q of None \<Rightarrow> [] | Some d \<Rightarrow> [units ''before:'' @ d])"
  have r: "parse_loop lookup (?r @ us) x rest = parse_loop lookup us (x\<lparr>in_room := in_room q\<rparr>) rest \<and> list_all closed_word ?r"
    if "in_room x = None" for us x
  proof (cases "in_room q")
    case None
    then show ?thesis using that by (cases x) simp
  next
    case (Some y)
    then show ?thesis using assms parse_room[of y lookup us x rest] closed_room[of y]
      by (simp add: query_ok_def del: units_Cons)
  qed
  have s: "parse_loop lookup (?s @ us) x rest = parse_loop lookup us (x\<lparr>sender := sender q\<rparr>) rest \<and> list_all closed_word ?s"
    if "sender x = None" for us x
  proof (cases "sender q")
    case None
    then show ?thesis using that by (cases x) simp
  next
    case (Some y)
    then show ?thesis using assms parse_sender[of y lookup us x rest] closed_sender[of "sp_name y"]
      by (simp add: query_ok_def del: units_Cons)
  qed
  have d: "parse_loop lookup (?d @ us) x rest = parse_loop lookup us (x\<lparr>after := after q, before := before q\<rparr>) rest \<and> list_all closed_word ?d"
    if "after x = None" "before x = None" for us x
  proof (cases "after q")
    case None
    then show ?thesis using that assms parse_dates(3) closed_dates(3)
      by (cases "before q"; cases x) (simp_all add: query_ok_def del: units_Cons)
  next
    case (Some d)
    then show ?thesis using that assms parse_dates closed_dates
      by (cases "before q"; cases x) (simp_all add: query_ok_def del: units_Cons)
  qed
  let ?x = "empty_query\<lparr>in_room := in_room q\<rparr>" let ?y = "?x\<lparr>sender := sender q\<rparr>"
  have e: "in_room empty_query = None" "sender ?x = None" "after ?y = None" "before ?y = None"
    by (simp_all add: empty_query_def)
  have "parse_loop lookup (?r @ ?s @ ?d @ ts) empty_query rest = parse_loop lookup ts (?y\<lparr>after := after q, before := before q\<rparr>) rest"
    using r[OF e(1), of "?s @ ?d @ ts"] s[OF e(2), of "?d @ ts"] d[OF e(3,4), of ts] by (simp only:)
  moreover have "?y\<lparr>after := after q, before := before q\<rparr> = q\<lparr>query_text := []\<rparr>" by (simp add: empty_query_def)
  moreover have "list_all closed_word (?r @ ?s @ ?d)"
    using r[OF e(1)] s[OF e(2)] d[OF e(3,4)] by (simp only: list_all_append)
  ultimately show ?thesis by (simp only: format_filters_def append_assoc)
qed



text \<open>
  Whether a token is taken as a modifier does not depend on the conditions found before it, so a
  text that is plain alone is plain after any of them.
\<close>

definition taken :: "search_lookup \<Rightarrow> utext \<Rightarrow> bool" where
  "taken lookup t = (case modifierOf t of None \<Rightarrow> False
     | Some m \<Rightarrow> applyModifier empty_query m (unquote (drop (length (modifier_text m) + 1) t)) lookup \<noteq> None)"

lemma apply_taken: "(applyModifier q m v lookup = None) = (applyModifier empty_query m v lookup = None)"
  by (auto simp: applyModifier_def split: modifier.splits option.splits)

lemma parse_not_taken: "\<not> taken lookup t \<Longrightarrow> parse_loop lookup (t # ts) q rest = parse_loop lookup ts q (rest @ [t])"
proof (cases "modifierOf t")
  case (Some m)
  assume "\<not> taken lookup t"
  then have "applyModifier q m (unquote (drop (length (modifier_text m) + 1) t)) lookup = None"
    using Some apply_taken[of q] by (simp add: taken_def)
  then show ?thesis using Some by (simp add: parse_loop.simps(2))
qed (simp add: parse_loop.simps(2))

lemma parse_none_taken:
  "list_all (\<lambda>t. \<not> taken lookup t) ts \<Longrightarrow> parse_loop lookup ts q rest = q\<lparr>query_text := join_spaces (rest @ ts)\<rparr>"
  by (induction ts arbitrary: rest) (auto simp: parse_not_taken)


definition filtered :: "search_query \<Rightarrow> bool" where
  "filtered q = (in_room q \<noteq> None \<or> sender q \<noteq> None \<or> after q \<noteq> None \<or> before q \<noteq> None)"

lemma apply_filtered: "applyModifier q m v lookup = Some q' \<Longrightarrow> filtered q'"
  by (auto simp: applyModifier_def filtered_def split: if_splits modifier.splits option.splits)

lemma parse_filtered: "filtered q \<Longrightarrow> filtered (parse_loop lookup ts q rest)"
proof (induction ts arbitrary: q rest)
  case Nil
  then show ?case by (simp add: filtered_def)
next
  case (Cons t ts)
  then show ?case using apply_filtered by (auto simp: parse_loop.simps(2) split: option.splits)
qed

lemma parse_taken_filtered: "\<not> list_all (\<lambda>t. \<not> taken lookup t) ts \<Longrightarrow> filtered (parse_loop lookup ts q rest)"
proof (induction ts arbitrary: q rest)
  case (Cons t ts)
  show ?case
  proof (cases "taken lookup t")
    case False
    then show ?thesis using Cons parse_not_taken by simp
  next
    case True
    then obtain m where m: "modifierOf t = Some m"
        "applyModifier empty_query m (unquote (drop (length (modifier_text m) + 1) t)) lookup \<noteq> None"
      by (auto simp: taken_def split: option.splits)
    then obtain q' where "applyModifier q m (unquote (drop (length (modifier_text m) + 1) t)) lookup = Some q'"
      using apply_taken[of q m _ lookup] by (metis not_None_eq)
    then show ?thesis using m(1) apply_filtered parse_filtered by (simp add: parse_loop.simps(2))
  qed
qed simp

lemma plain_text_tokens:
  assumes "plain_text lookup t"
  shows "list_all (\<lambda>x. \<not> taken lookup x) (splitTokens t) \<and> join_spaces (splitTokens t) = t"
proof -
  have p: "parse_loop lookup (splitTokens t) empty_query [] = empty_query\<lparr>query_text := t\<rparr>"
    using assms by (simp add: plain_text_def parseSearchQuery_def)
  then have n: "list_all (\<lambda>x. \<not> taken lookup x) (splitTokens t)"
    using parse_taken_filtered[of lookup "splitTokens t" empty_query "[]"] by (auto simp: filtered_def empty_query_def)
  then have "query_text (empty_query\<lparr>query_text := t\<rparr>) = join_spaces (splitTokens t)"
    using p parse_none_taken[OF n, of empty_query "[]"] by (simp add: empty_query_def)
  then show ?thesis using n by simp
qed

lemma search_back:
  assumes "query_ok lookup q"
  shows "parseSearchQuery (formatSearchQuery q) lookup = q"
proof (cases "query_text q = []")
  case True
  have "splitTokens (join_spaces (format_filters q)) = format_filters q"
    using parse_filters[OF assms] splitTokens_join_closed by blast
  then show ?thesis using True parse_filters[OF assms, of "[]" "[]"]
    by (simp add: parseSearchQuery_def formatSearchQuery_def)
next
  case False
  have p: "list_all (\<lambda>x. \<not> taken lookup x) (splitTokens (query_text q))" "join_spaces (splitTokens (query_text q)) = query_text q"
    using plain_text_tokens assms by (auto simp: query_ok_def)
  have "splitTokens (formatSearchQuery q) = format_filters q @ splitTokens (query_text q)"
    using False parse_filters[OF assms] splitTokens_join by (simp add: formatSearchQuery_def)
  then show ?thesis using parse_filters[OF assms] parse_none_taken[OF p(1), of "q\<lparr>query_text := []\<rparr>" "[]"] p(2)
    by (simp add: parseSearchQuery_def)
qed


definition sample_lookup :: search_lookup where
  "sample_lookup = \<lparr>rooms = [\<lparr>sr_id = units ''r1'', sr_kind = Public, sr_name = units ''dev team''\<rparr>,
       \<lparr>sr_id = units ''r2'', sr_kind = Dm, sr_name = units ''bob''\<rparr>],
     members = [\<lparr>sp_id = units ''u1'', sp_name = units ''bob''\<rparr>]\<rparr>"

definition sample_query :: search_query where
  "sample_query = \<lparr>sender = Some \<lparr>sp_id = units ''u1'', sp_name = units ''bob''\<rparr>,
     in_room = Some \<lparr>sr_id = units ''r1'', sr_kind = Public, sr_name = units ''dev team''\<rparr>,
     after = Some (units ''2026-09-01''), before = None, query_text = units ''hi: x''\<rparr>"

lemma sample_query_ok: "query_ok sample_lookup sample_query"
  by code_simp


section \<open>What came out of the box can be written back\<close>

lemma quote_state_snoc:
  "quote_state cur False = Some q \<Longrightarrow> c = 34 \<or> q \<or> \<not> is_space c \<Longrightarrow>
    quote_state (cur @ [c]) False = Some (if c = 34 then \<not> q else q)"
  by (auto simp: quote_state_append)

lemma token_loop_words:
  "quote_state cur False = Some q \<Longrightarrow>
    (case rev (token_loop cs cur q) of [] \<Rightarrow> True
     | t # ts \<Rightarrow> list_all closed_word ts \<and> t \<noteq> [] \<and> quote_state t False \<noteq> None)"
proof (induction cs cur q rule: token_loop.induct)
  case (1 cur quoted)
  then show ?case by (simp add: flush_token_def)
next
  case (2 c cs cur quoted)
  consider (q) "c = 34" | (s) "c \<noteq> 34" "\<not> quoted" "is_space c" | (o) "c \<noteq> 34" "quoted \<or> \<not> is_space c" by blast
  then show ?case
  proof cases
    case q
    then show ?thesis using 2(1)[OF q] 2(4) quote_state_snoc[of cur quoted c] by simp
  next
    case s
    have w: "cur \<noteq> [] \<Longrightarrow> closed_word cur" using 2(4) s by (simp add: closed_word_def)
    have "case rev (token_loop cs [] quoted) of [] \<Rightarrow> True
      | t # ts \<Rightarrow> list_all closed_word ts \<and> t \<noteq> [] \<and> quote_state t False \<noteq> None"
      using 2(2) s by simp
    then show ?thesis using s w
      by (cases "rev (token_loop cs [] quoted)") (auto simp: flush_token_def closed_word_def split: list.splits)
  next
    case o
    then show ?thesis using 2(3) 2(4) quote_state_snoc[of cur quoted c] by auto
  qed
qed

lemma splitTokens_words:
  assumes "splitTokens x = ts @ [t]"
  shows "list_all closed_word ts \<and> t \<noteq> [] \<and> quote_state t False \<noteq> None"
  using token_loop_words[of "[]" False x] assms by (auto simp: splitTokens_def list_all_iff)

text \<open>A sublist of the tokens of a text, joined, is split into the same tokens.\<close>

lemma splitTokens_filter: "splitTokens (join_spaces (filter P (splitTokens x))) = filter P (splitTokens x)"
proof (cases "splitTokens x" rule: rev_cases)
  case Nil
  then show ?thesis using splitTokens_join_closed[of "[]"] by simp
next
  case (snoc ts t)
  note w = splitTokens_words[OF snoc]
  then have c: "list_all closed_word (filter P ts)" by (auto simp: list_all_iff)
  have "splitTokens t = [t]" using w splitTokens_word by blast
  then show ?thesis using snoc c w splitTokens_join[OF c, of t] splitTokens_join_closed[OF c] by simp
qed


definition lookup_ok :: "search_lookup \<Rightarrow> bool" where
  "lookup_ok lookup = (list_all (\<lambda>r. name_ok (sr_name r)) (rooms lookup) \<and> list_all (\<lambda>p. name_ok (sp_name p)) (members lookup))"

definition filters_ok :: "search_lookup \<Rightarrow> search_query \<Rightarrow> bool" where
  "filters_ok lookup q =
     (opt_all (\<lambda>r. name_ok (sr_name r) \<and> List.find (\<lambda>x. sr_name x = sr_name r) (rooms lookup) = Some r) (in_room q)
      \<and> opt_all (\<lambda>p. name_ok (sp_name p) \<and> List.find (\<lambda>x. sp_name x = sp_name p) (members lookup) = Some p) (sender q)
      \<and> opt_all DATE_PATTERN (after q) \<and> opt_all DATE_PATTERN (before q))"

lemma find_by_name: "List.find (\<lambda>x. f x = n) xs = Some r \<Longrightarrow> r \<in> set xs \<and> List.find (\<lambda>x. f x = f r) xs = Some r"
proof -
  assume a: "List.find (\<lambda>x. f x = n) xs = Some r"
  then have "r \<in> set xs \<and> f r = n" by (induction xs) (auto split: if_splits)
  then show ?thesis using a by simp
qed

lemma apply_filters_ok:
  assumes "lookup_ok lookup" "filters_ok lookup q" "applyModifier q m v lookup = Some q'"
  shows "filters_ok lookup q'"
proof -
  have r: "filters_ok lookup (q\<lparr>in_room := Some r\<rparr>)" if "List.find (\<lambda>x. sr_name x = n) (rooms lookup) = Some r" for n r
    using find_by_name[OF that] assms(1,2) by (simp add: filters_ok_def lookup_ok_def list_all_iff)
  have p: "filters_ok lookup (q\<lparr>sender := Some r\<rparr>)" if "List.find (\<lambda>x. sp_name x = n) (members lookup) = Some r" for n r
    using find_by_name[OF that] assms(1,2) by (simp add: filters_ok_def lookup_ok_def list_all_iff)
  have d: "filters_ok lookup (q\<lparr>after := Some v\<rparr>)" "filters_ok lookup (q\<lparr>before := Some v\<rparr>)"
    "filters_ok lookup (q\<lparr>after := Some v, before := Some v\<rparr>)" if "DATE_PATTERN v"
    using that assms(2) by (simp_all add: filters_ok_def)
  show ?thesis using assms(3) r p d
    by (auto simp: applyModifier_def split: if_splits modifier.splits option.splits)
qed

lemma parse_loop_spec:
  assumes "lookup_ok lookup" "filters_ok lookup q"
  shows "filters_ok lookup (parse_loop lookup ts q rest)
    \<and> query_text (parse_loop lookup ts q rest) = join_spaces (rest @ filter (\<lambda>t. \<not> taken lookup t) ts)"
  using assms(2)
proof (induction ts arbitrary: q rest)
  case Nil
  then show ?case by (simp add: filters_ok_def)
next
  case (Cons t ts)
  show ?case
  proof (cases "taken lookup t")
    case False
    then show ?thesis using Cons parse_not_taken by simp
  next
    case True
    then obtain m where m: "modifierOf t = Some m"
        "applyModifier empty_query m (unquote (drop (length (modifier_text m) + 1) t)) lookup \<noteq> None"
      by (auto simp: taken_def split: option.splits)
    then obtain q' where q': "applyModifier q m (unquote (drop (length (modifier_text m) + 1) t)) lookup = Some q'"
      using apply_taken[of q m _ lookup] by (metis not_None_eq)
    then have "filters_ok lookup q'" using apply_filters_ok[OF assms(1) Cons.prems] by blast
    then show ?thesis using m(1) q' True Cons.IH by (simp add: parse_loop.simps(2))
  qed
qed

text \<open>a search that was typed survives the reload: whatever the text of the box, as long as the names
  of rooms and members hold no quotes, the conditions read from it, written back (the URL parameter)
  and read again are the same conditions.\<close>

theorem search_reload:
  assumes "lookup_ok lookup"
  shows "parseSearchQuery (formatSearchQuery (parseSearchQuery x lookup)) lookup = parseSearchQuery x lookup"
proof -
  let ?q = "parseSearchQuery x lookup" and ?rest = "filter (\<lambda>t. \<not> taken lookup t) (splitTokens x)"
  have "filters_ok lookup empty_query" by (simp add: filters_ok_def empty_query_def)
  from parse_loop_spec[OF assms this, of "splitTokens x" "[]"]
  have f: "filters_ok lookup ?q" "query_text ?q = join_spaces ?rest" by (simp_all add: parseSearchQuery_def)
  have "parseSearchQuery (join_spaces ?rest) lookup = empty_query\<lparr>query_text := join_spaces ?rest\<rparr>"
    using parse_none_taken[of lookup ?rest empty_query "[]"]
    by (simp add: parseSearchQuery_def splitTokens_filter list_all_iff)
  then have "query_ok lookup ?q" using f by (simp add: query_ok_def filters_ok_def plain_text_def)
  then show ?thesis by (rule search_back)
qed

theorem search_reload_witness:
  "parseSearchQuery (formatSearchQuery (parseSearchQuery (units ''in:@bob hi'') sample_lookup)) sample_lookup
     = parseSearchQuery (units ''in:@bob hi'') sample_lookup"
  by (rule search_reload) code_simp

text \<open>
  The kind of the room is not part of what is read: with a channel and a direct message of the same
  name, the token written for the direct message finds the channel.
\<close>

lemma dm_filter_reads_channel:
  "let channel = \<lparr>sr_id = units ''r1'', sr_kind = Public, sr_name = units ''bob''\<rparr>;
       dm = \<lparr>sr_id = units ''r2'', sr_kind = Dm, sr_name = units ''bob''\<rparr>;
       lookup = \<lparr>rooms = [channel, dm], members = []\<rparr>
   in formatSearchQuery (empty_query\<lparr>in_room := Some dm\<rparr>) = units ''in:@bob''
      \<and> in_room (parseSearchQuery (units ''in:@bob'') lookup) = Some channel"
  by code_simp

end
