(* ===== verification/SearchStore.thy ===== *)
theory SearchStore
  imports SearchQuery
begin

text \<open>
  \<open>web/lib/chat/search/search-store.ts\<close>: the results of the search, kept apart from the chat store.
  The closure's \<open>state\<close> and \<open>runId\<close> are one record; \<open>asked\<close> are the calls of \<open>searchMessages\<close> that
  have not settled, each with what its continuation remembers (\<open>id\<close>, and whether it is a
  \<open>loadMore\<close>) and the query it was asked with. The blank check of \<open>run\<close> is \<open>trim\<close>.
\<close>

record search_result =
  sx_id :: ident
  sx_room_id :: ident
  sx_seq :: int
  sx_room :: linked_room
  sx_sender :: user_profile
  sx_body :: string
  sx_thread_root_id :: "ident option"
  sx_created_at :: iso
  sx_edited_at :: "iso option"
  sx_attachment_count :: int

record search_page =
  pg_items :: "search_result list"
  pg_terms :: "string list"
  pg_next_cursor :: "string option"

datatype search_status = Idle | Searching | SearchingMore | SearchReady | SearchFailed

record search_state =
  ss_query :: "search_query option"
  ss_results :: "search_result list"
  ss_terms :: "string list"
  ss_cursor :: "string option"
  ss_status :: search_status

record search_call =
  sc_id :: nat
  sc_workspace :: ident
  sc_more :: bool
  sc_query :: search_query
  sc_cursor :: "string option"

record search_store =
  st_state :: search_state
  runId :: nat
  asked :: "search_call list"

definition EMPTY :: search_state where
  "EMPTY = \<lparr>ss_query = None, ss_results = [], ss_terms = [], ss_cursor = None, ss_status = Idle\<rparr>"

definition createSearchStore :: search_store where
  "createSearchStore = \<lparr>st_state = EMPTY, runId = 0, asked = []\<rparr>"

definition blank :: "utext \<Rightarrow> bool" where
  "blank t = list_all is_space t"

definition runSearch :: "ident \<Rightarrow> search_query \<Rightarrow> search_store \<Rightarrow> search_store" where
  "runSearch workspaceId q s =
     (let n = runId s + 1 in
      if blank (query_text q) then
        s\<lparr>runId := n, st_state := \<lparr>ss_query = Some q, ss_results = [], ss_terms = [], ss_cursor = None, ss_status = SearchReady\<rparr>\<rparr>
      else
        s\<lparr>runId := n, st_state := \<lparr>ss_query = Some q, ss_results = [], ss_terms = [], ss_cursor = None, ss_status = Searching\<rparr>,
          asked := asked s @ [\<lparr>sc_id = n, sc_workspace = workspaceId, sc_more = False, sc_query = q, sc_cursor = None\<rparr>]\<rparr>)"

definition loadMoreResults :: "ident \<Rightarrow> search_store \<Rightarrow> search_store" where
  "loadMoreResults workspaceId s =
     (case (ss_query (st_state s), ss_cursor (st_state s)) of
        (Some q, Some c) \<Rightarrow>
          if ss_status (st_state s) \<noteq> SearchReady then s
          else s\<lparr>st_state := (st_state s)\<lparr>ss_status := SearchingMore\<rparr>,
                 asked := asked s @ [\<lparr>sc_id = runId s, sc_workspace = workspaceId, sc_more = True, sc_query = q, sc_cursor = Some c\<rparr>]\<rparr>
      | _ \<Rightarrow> s)"

definition takePage :: "search_call \<Rightarrow> search_page option \<Rightarrow> search_state \<Rightarrow> search_state" where
  \<comment> \<open>the rest of \<open>run\<close> or \<open>loadMore\<close>; \<open>None\<close> is an exception\<close>
  "takePage c res st =
     (case res of
        None \<Rightarrow> if sc_more c then st\<lparr>ss_status := SearchReady\<rparr> else st\<lparr>ss_status := SearchFailed\<rparr>
      | Some p \<Rightarrow>
          st\<lparr>ss_results := (if sc_more c then ss_results st @ pg_items p else pg_items p),
             ss_terms := pg_terms p, ss_cursor := pg_next_cursor p, ss_status := SearchReady\<rparr>)"

definition settleSearch :: "nat \<Rightarrow> search_page option \<Rightarrow> search_store \<Rightarrow> search_store" where
  \<comment> \<open>the call at this place of \<open>asked\<close> settles\<close>
  "settleSearch i res s =
     (if i < length (asked s) then
        let c = asked s ! i; s1 = s\<lparr>asked := take i (asked s) @ drop (i + 1) (asked s)\<rparr> in
        if sc_id c \<noteq> runId s then s1 else s1\<lparr>st_state := takePage c res (st_state s1)\<rparr>
      else s)"

definition clearSearch :: "search_store \<Rightarrow> search_store" where
  "clearSearch s = s\<lparr>runId := runId s + 1, st_state := EMPTY\<rparr>"

section \<open>Runs\<close>

inductive search_step :: "search_store \<Rightarrow> search_store \<Rightarrow> bool" where
  search_run: "search_step s (runSearch w q s)"
| search_more: "search_step s (loadMoreResults w s)"
| search_settle: "search_step s (settleSearch i res s)"
| search_clear: "search_step s (clearSearch s)"

inductive search_reachable :: "search_store \<Rightarrow> bool" where
  search_first: "search_reachable createSearchStore"
| search_next: "search_reachable s \<Longrightarrow> search_step s s' \<Longrightarrow> search_reachable s'"

definition current_calls :: "search_store \<Rightarrow> search_call list" where
  \<comment> \<open>the calls whose answer will be taken\<close>
  "current_calls s = filter (\<lambda>c. sc_id c = runId s) (asked s)"

definition search_ok :: "search_store \<Rightarrow> bool" where
  "search_ok s =
     (list_all (\<lambda>c. sc_id c \<le> runId s) (asked s)
      \<and> (case ss_status (st_state s) of
           Searching \<Rightarrow> (\<exists>c. current_calls s = [c] \<and> \<not> sc_more c \<and> ss_query (st_state s) = Some (sc_query c))
         | SearchingMore \<Rightarrow> (\<exists>c. current_calls s = [c] \<and> sc_more c \<and> ss_query (st_state s) = Some (sc_query c)
               \<and> ss_cursor (st_state s) = sc_cursor c)
         | _ \<Rightarrow> current_calls s = []))"

lemma old_calls: "list_all (\<lambda>c. sc_id c \<le> n) cs \<Longrightarrow> filter (\<lambda>c. sc_id c = Suc n) cs = []"
  by (induction cs) auto

lemma older_calls: "list_all (\<lambda>c. sc_id c \<le> n) cs \<Longrightarrow> list_all (\<lambda>c. sc_id c \<le> Suc n) cs"
  by (induction cs) auto

lemma filter_without:
  assumes "i < length xs" "\<not> P (xs ! i)"
  shows "filter P (take i xs @ drop (i + 1) xs) = filter P xs"
proof -
  have "filter P xs = filter P (take i xs @ xs ! i # drop (Suc i) xs)" using assms(1) by (simp add: id_take_nth_drop[symmetric])
  then show ?thesis using assms(2) by simp
qed

lemma filter_only:
  assumes "i < length xs" "P (xs ! i)" "filter P xs = [c]"
  shows "xs ! i = c \<and> filter P (take i xs @ drop (i + 1) xs) = []"
proof -
  have "filter P (take i xs @ xs ! i # drop (Suc i) xs) = [c]" using assms(1,3) by (simp add: id_take_nth_drop[symmetric])
  then show ?thesis using assms(2) by (auto simp: append_eq_Cons_conv)
qed

lemma search_ok_settle: "search_ok s \<Longrightarrow> search_ok (settleSearch i res s)"
proof -
  assume s: "search_ok s"
  show ?thesis
  proof (cases "i < length (asked s)")
    case False
    then show ?thesis using s by (simp add: settleSearch_def)
  next
    case True
    let ?c = "asked s ! i" and ?rest = "take i (asked s) @ drop (i + 1) (asked s)"
    have le: "list_all (\<lambda>c. sc_id c \<le> runId s) ?rest"
      using s by (auto simp: search_ok_def list_all_iff dest: in_set_takeD in_set_dropD)
    show ?thesis
    proof (cases "sc_id ?c = runId s")
      case False
      then have "filter (\<lambda>c. sc_id c = runId s) ?rest = filter (\<lambda>c. sc_id c = runId s) (asked s)"
        using filter_without[OF True] by simp
      then have "current_calls (s\<lparr>asked := ?rest\<rparr>) = current_calls s" by (simp add: current_calls_def)
      then have "search_ok (s\<lparr>asked := ?rest\<rparr>)" using s le by (simp add: search_ok_def del: list_all_append cong: search_status.case_cong)
      then show ?thesis using False True by (simp add: settleSearch_def Let_def)
    next
      case cur: True
      have "\<exists>c. current_calls s = [c]"
      proof (rule ccontr)
        assume "\<not> ?thesis"
        then have "current_calls s = []" using s by (auto simp: search_ok_def split: search_status.splits)
        then show False using cur True by (auto simp: current_calls_def filter_empty_conv)
      qed
      then obtain c where "current_calls s = [c]" by blast
      then have "filter (\<lambda>c. sc_id c = runId s) ?rest = []"
        using filter_only[OF True, of "\<lambda>c. sc_id c = runId s" c] cur by (simp add: current_calls_def)
      then show ?thesis using cur True le
        by (auto simp: settleSearch_def search_ok_def current_calls_def takePage_def Let_def split: option.splits)
    qed
  qed
qed

lemma search_ok_step: "search_ok s \<Longrightarrow> search_step s s' \<Longrightarrow> search_ok s'"
  by (erule search_step.cases)
    (auto simp: search_ok_settle old_calls older_calls,
     auto simp: search_ok_def runSearch_def loadMoreResults_def clearSearch_def current_calls_def EMPTY_def Let_def
        old_calls older_calls split: option.splits)

text \<open>C33: the search never stays in its loading state and never shows the answer of another search: in
  every run, while the status is loading exactly one call is still to be taken, and it was asked with
  the query on screen (and, for the next page, with the cursor on screen); otherwise no answer that
  is still to come will be taken.\<close>

theorem search_answers_current:
  assumes "search_reachable s"
  shows "case ss_status (st_state s) of
      Searching \<Rightarrow> (\<exists>c. current_calls s = [c] \<and> \<not> sc_more c \<and> ss_query (st_state s) = Some (sc_query c))
    | SearchingMore \<Rightarrow> (\<exists>c. current_calls s = [c] \<and> sc_more c \<and> ss_query (st_state s) = Some (sc_query c)
          \<and> ss_cursor (st_state s) = sc_cursor c)
    | _ \<Rightarrow> current_calls s = []"
proof -
  have "search_ok s" using assms
    by (induction rule: search_reachable.induct)
      (auto simp: search_ok_step, simp add: search_ok_def createSearchStore_def EMPTY_def current_calls_def)
  then show ?thesis by (simp add: search_ok_def)
qed

theorem search_answers_current_witness:
  "\<exists>c. current_calls (runSearch ''w'' sample_query (runSearch ''w'' (sample_query\<lparr>before := None\<rparr>) createSearchStore)) = [c]"
proof -
  let ?s = "runSearch ''w'' sample_query (runSearch ''w'' (sample_query\<lparr>before := None\<rparr>) createSearchStore)"
  have "search_reachable ?s" by (intro search_next[OF _ search_run] search_first)
  moreover have "ss_status (st_state ?s) = Searching" by code_simp
  ultimately show ?thesis using search_answers_current[of ?s] by auto
qed

end
