(* ===== verification/Uploads.thy ===== *)
theory Uploads
  imports JsText Session
begin

text \<open>
  The attachments of a composer (\<open>web/lib/chat/media/uploads.ts\<close>). The closure's variables are one record. Every call of \<open>upload\<close> is a task, named by
  the number of its \<open>AbortController\<close>; its stage is the promise it awaits. \<open>running\<close> is the \<open>Map\<close> from
  the key of a draft to the controller of its current upload, so a task whose key is no longer mapped
  to it was cancelled and its results are dropped.
\<close>

section \<open>Files\<close>

record upload_file =
  fl_name :: utext
  fl_type :: utext
  fl_size :: int

definition MAX_ATTACHMENTS :: nat where
  "MAX_ATTACHMENTS = 10"

definition PREVIEW_IMAGE_TYPES :: "utext list" where
  "PREVIEW_IMAGE_TYPES = [units ''image/png'', units ''image/jpeg'', units ''image/gif'', units ''image/webp'']"

definition OCTET_STREAM :: utext where
  "OCTET_STREAM = units ''application/octet-stream''"

definition media_start :: "int \<Rightarrow> bool" where
  \<comment> \<open>\<open>[a-z0-9]\<close>\<close>
  "media_start c = (is_digit c \<or> (97 \<le> c \<and> c \<le> 122))"

definition media_char :: "int \<Rightarrow> bool" where
  \<comment> \<open>\<open>[a-z0-9!#$&^_.+-]\<close>\<close>
  "media_char c = (media_start c \<or> c \<in> set (units ''!#$&^_.+-''))"

definition MEDIA_TYPE :: "utext \<Rightarrow> bool" where
  "MEDIA_TYPE t =
     (let a = takeWhile (\<lambda>c. c \<noteq> 47) t; b = drop (length a + 1) t in
      a \<noteq> [] \<and> b \<noteq> [] \<and> media_start (hd a) \<and> media_start (hd b) \<and> list_all media_char a \<and> list_all media_char b)"

definition MAX_FILE_NAME_LENGTH :: nat where
  "MAX_FILE_NAME_LENGTH = 255"

definition MAX_IMAGE_SIDE :: int where
  "MAX_IMAGE_SIDE = 65535"

definition refused_char :: "int \<Rightarrow> bool" where
  \<comment> \<open>\<open>[/\\\u0000-\u001f\u007f-\u009f]\<close>\<close>
  "refused_char c = (c = 47 \<or> c = 92 \<or> (0 \<le> c \<and> c \<le> 31) \<or> (127 \<le> c \<and> c \<le> 159))"

definition uploadFileName :: "utext \<Rightarrow> utext" where
  "uploadFileName name =
     concat (take MAX_FILE_NAME_LENGTH (code_points (map (\<lambda>c. if refused_char c then 95 else c) name)))"

definition uploadContentType :: "upload_file \<Rightarrow> utext" where
  "uploadContentType f = (if MEDIA_TYPE (fl_type f) then fl_type f else OCTET_STREAM)"

definition isRejectedContentType :: "failure \<Rightarrow> bool" where
  "isRejectedContentType err =
     (case err of EApi e \<Rightarrow> ae_status e = 422
         \<and> list_ex (\<lambda>f. pf_field f = ''content_type'' \<and> pf_reason f = ''invalid_value'') (ae_fieldErrors e)
      | _ \<Rightarrow> False)"

lemma code_points_nonempty: "p \<in> set (code_points t) \<Longrightarrow> p \<noteq> []"
  by (induction t rule: code_points.induct) (auto split: if_splits)

lemma code_points_joined:
  "n \<le> length (code_points t) \<Longrightarrow> code_points (concat (take n (code_points t))) = take n (code_points t)"
proof (induction t arbitrary: n rule: code_points.induct)
  case (3 u v us)
  show ?case
  proof (cases "0xD800 \<le> u \<and> u \<le> 0xDBFF \<and> 0xDC00 \<le> v \<and> v \<le> 0xDFFF")
    case True
    then show ?thesis using 3(1)[OF True] 3(3) by (cases n) auto
  next
    case False
    show ?thesis
    proof (cases n)
      case (Suc m)
      have ih: "code_points (concat (take m (code_points (v # us)))) = take m (code_points (v # us))"
        using 3(2)[OF False, of m] 3(3) False Suc by (auto split: if_splits)
      have "code_points (v # us) \<noteq> []" by (cases us) auto
      moreover have "\<exists>ys. hd (code_points (v # us)) = v # ys" by (cases us) auto
      ultimately obtain ys ps where p: "code_points (v # us) = (v # ys) # ps" by (cases "code_points (v # us)") auto
      show ?thesis
      proof (cases m)
        case 0
        then show ?thesis using False Suc by simp
      next
        case (Suc k)
        then have "code_points (u # v # ys @ concat (take k ps)) = [u] # code_points (v # ys @ concat (take k ps))"
          using False by simp
        moreover have "code_points (u # v # us) = [u] # (v # ys) # ps" using False p by simp
        moreover have "code_points (v # ys @ concat (take k ps)) = (v # ys) # take k ps" using ih p Suc by simp
        ultimately show ?thesis using \<open>n = Suc m\<close> Suc by (simp del: code_points.simps)
      qed
    qed simp
  qed
qed (auto simp: take_Cons' split: if_splits)

text \<open>every file name is sent in the form the server accepts: at most 255 characters (code points),
  no slash, backslash or control character, whatever the name of the chosen file is.\<close>

theorem uploadFileName_accepted:
  "length (code_points (uploadFileName name)) \<le> MAX_FILE_NAME_LENGTH
   \<and> list_all (\<lambda>c. \<not> refused_char c) (uploadFileName name)"
proof -
  let ?m = "map (\<lambda>c. if refused_char c then 95 else c) name"
  let ?n = "min MAX_FILE_NAME_LENGTH (length (code_points ?m))"
  have t: "take MAX_FILE_NAME_LENGTH (code_points ?m) = take ?n (code_points ?m)"
    by (cases "MAX_FILE_NAME_LENGTH \<le> length (code_points ?m)") (auto simp: min_def)
  have "code_points (uploadFileName name) = take ?n (code_points ?m)"
    unfolding uploadFileName_def t by (rule code_points_joined) simp
  moreover have "set (uploadFileName name) \<subseteq> set ?m"
  proof -
    have "set (concat (take k ps)) \<subseteq> set (concat ps)" for k and ps :: "utext list"
      by (auto dest: in_set_takeD)
    then show ?thesis unfolding uploadFileName_def using code_points_concat[of ?m] by metis
  qed
  then have "list_all (\<lambda>c. \<not> refused_char c) (uploadFileName name)"
    by (auto simp: list_all_iff refused_char_def)
  ultimately show ?thesis by simp
qed

section \<open>State\<close>

datatype draft_status = Uploading | Failed | Uploaded

record attachment_draft =
  dr_key :: nat
  dr_file :: upload_file
  dr_fileName :: utext
  dr_status :: draft_status
  dr_progress :: int
  dr_attachment :: "message_attachment option"

datatype stage =
    Sizing utext \<comment> \<open>\<open>await imageSize(file)\<close>, with the content type\<close>
  | Creating utext "(int \<times> int) option" \<comment> \<open>\<open>await create(contentType)\<close>, with the dimensions\<close>
  | Putting ident
  | Completing ident

record task =
  tk_key :: nat
  tk_file :: upload_file
  tk_fileName :: utext
  tk_stage :: stage

datatype upload_output =
    OutCreate nat utext utext int "(int \<times> int) option"
  | OutPut nat ident
  | OutComplete nat ident
  | OutAbort nat

record uploader =
  drafts :: "attachment_draft list"
  running_uploads :: "(nat \<times> nat) list"
  nextKey :: nat
  nextController :: nat
  tasks :: "nat \<Rightarrow> task option"
  up_out :: "upload_output list"

definition createAttachmentUploader :: uploader where
  "createAttachmentUploader = \<lparr>drafts = [], running_uploads = [], nextKey = 0, nextController = 0,
     tasks = (\<lambda>_. None), up_out = []\<rparr>"

definition emit :: "upload_output \<Rightarrow> uploader \<Rightarrow> uploader" where
  "emit x s = s\<lparr>up_out := up_out s @ [x]\<rparr>"

definition patchDraft :: "nat \<Rightarrow> (attachment_draft \<Rightarrow> attachment_draft) \<Rightarrow> uploader \<Rightarrow> uploader" where
  \<comment> \<open>without the draft, nothing is set; mapping over the others changes nothing either\<close>
  "patchDraft k f s =
     (if \<not> list_ex (\<lambda>d. dr_key d = k) (drafts s) then s
      else s\<lparr>drafts := map (\<lambda>d. if dr_key d = k then f d else d) (drafts s)\<rparr>)"

definition currentTask :: "nat \<Rightarrow> task \<Rightarrow> uploader \<Rightarrow> bool" where
  \<comment> \<open>\<open>running.get(draft.key) === controller\<close>\<close>
  "currentTask c t s = (map_of (running_uploads s) (tk_key t) = Some c)"

definition setStage :: "nat \<Rightarrow> task \<Rightarrow> stage \<Rightarrow> uploader \<Rightarrow> uploader" where
  "setStage c t st s = s\<lparr>tasks := (tasks s)(c \<mapsto> t\<lparr>tk_stage := st\<rparr>)\<rparr>"

definition createRequest :: "nat \<Rightarrow> task \<Rightarrow> utext \<Rightarrow> (int \<times> int) option \<Rightarrow> uploader \<Rightarrow> uploader" where
  "createRequest c t ct dims s =
     emit (OutCreate c (tk_fileName t) ct (fl_size (tk_file t)) (if ct \<in> set PREVIEW_IMAGE_TYPES then dims else None))
       (setStage c t (Creating ct dims) s)"

definition upload :: "attachment_draft \<Rightarrow> uploader \<Rightarrow> uploader" where
  "upload d s =
     (let c = nextController s;
          ct = uploadContentType (dr_file d);
          t = \<lparr>tk_key = dr_key d, tk_file = dr_file d, tk_fileName = dr_fileName d, tk_stage = Sizing ct\<rparr>;
          s1 = s\<lparr>running_uploads := AList.update (dr_key d) c (running_uploads s), nextController := c + 1\<rparr>
      in if ct \<in> set PREVIEW_IMAGE_TYPES then setStage c t (Sizing ct) s1
         else createRequest c t ct None s1)"

definition endTask :: "nat \<Rightarrow> task \<Rightarrow> uploader \<Rightarrow> uploader" where
  \<comment> \<open>the \<open>finally\<close> of \<open>upload\<close>\<close>
  "endTask c t s =
     (let s1 = s\<lparr>tasks := (tasks s)(c := None)\<rparr> in
      if currentTask c t s then s1\<lparr>running_uploads := AList.delete (tk_key t) (running_uploads s)\<rparr> else s1)"

definition failTask :: "nat \<Rightarrow> task \<Rightarrow> uploader \<Rightarrow> uploader" where
  \<comment> \<open>the \<open>catch\<close>, then the \<open>finally\<close>\<close>
  "failTask c t s =
     endTask c t (if currentTask c t s then patchDraft (tk_key t) (\<lambda>d. d\<lparr>dr_status := Failed\<rparr>) s else s)"

section \<open>The steps of an upload\<close>

definition sizeRead :: "nat \<Rightarrow> (int \<times> int) option \<Rightarrow> uploader \<Rightarrow> uploader" where
  "sizeRead c dim s =
     (case tasks s c of
        Some t \<Rightarrow>
          (case tk_stage t of
             Sizing ct \<Rightarrow>
               createRequest c t ct
                 (case dim of None \<Rightarrow> None
                  | Some (w, h) \<Rightarrow> if w \<ge> 1 \<and> h \<ge> 1 \<and> w \<le> MAX_IMAGE_SIDE \<and> h \<le> MAX_IMAGE_SIDE then Some (w, h) else None) s
           | _ \<Rightarrow> s)
      | None \<Rightarrow> s)"

definition attachmentCreated :: "nat \<Rightarrow> failure + ident \<Rightarrow> uploader \<Rightarrow> uploader" where
  "attachmentCreated c res s =
     (case tasks s c of
        Some t \<Rightarrow>
          (case tk_stage t of
             Creating ct dims \<Rightarrow>
               (case res of
                  Inl err \<Rightarrow>
                    if isRejectedContentType err \<and> ct \<noteq> OCTET_STREAM then createRequest c t OCTET_STREAM dims s
                    else failTask c t s
                | Inr a \<Rightarrow>
                    if \<not> currentTask c t s then endTask c t s
                    else emit (OutPut c a) (setStage c t (Putting a) s))
           | _ \<Rightarrow> s)
      | None \<Rightarrow> s)"

definition putProgress :: "nat \<Rightarrow> nat \<Rightarrow> uploader \<Rightarrow> uploader" where
  \<comment> \<open>\<open>onProgress\<close>, with \<open>Math.floor(ratio * 100)\<close> of the floating-point ratio\<close>
  "putProgress c percent s =
     (case tasks s c of
        Some t \<Rightarrow>
          (case tk_stage t of
             Putting a \<Rightarrow>
               if currentTask c t s then patchDraft (tk_key t) (\<lambda>d. d\<lparr>dr_progress := min 100 (int percent)\<rparr>) s else s
           | _ \<Rightarrow> s)
      | None \<Rightarrow> s)"

definition putDone :: "nat \<Rightarrow> bool \<Rightarrow> uploader \<Rightarrow> uploader" where
  "putDone c ok s =
     (case tasks s c of
        Some t \<Rightarrow>
          (case tk_stage t of
             Putting a \<Rightarrow>
               if \<not> ok then failTask c t s
               else if \<not> currentTask c t s then endTask c t s
               else emit (OutComplete c a) (setStage c t (Completing a) s)
           | _ \<Rightarrow> s)
      | None \<Rightarrow> s)"

definition attachmentCompleted :: "nat \<Rightarrow> message_attachment option \<Rightarrow> uploader \<Rightarrow> uploader" where
  "attachmentCompleted c res s =
     (case tasks s c of
        Some t \<Rightarrow>
          (case tk_stage t of
             Completing a \<Rightarrow>
               (case res of
                  None \<Rightarrow> failTask c t s
                | Some att \<Rightarrow>
                    endTask c t (if currentTask c t s
                      then patchDraft (tk_key t) (\<lambda>d. d\<lparr>dr_status := Uploaded, dr_progress := 100, dr_attachment := Some att\<rparr>) s
                      else s))
           | _ \<Rightarrow> s)
      | None \<Rightarrow> s)"

section \<open>What the composer calls\<close>

fun new_drafts :: "nat \<Rightarrow> upload_file list \<Rightarrow> attachment_draft list" where
  \<comment> \<open>the drafts of these files, with the keys after this one\<close>
  "new_drafts k [] = []"
| "new_drafts k (f # fs) =
     \<lparr>dr_key = k + 1, dr_file = f, dr_fileName = uploadFileName (fl_name f), dr_status = Uploading,
       dr_progress = 0, dr_attachment = None\<rparr> # new_drafts (k + 1) fs"

definition addFiles :: "upload_file list \<Rightarrow> uploader \<Rightarrow> uploader" where
  "addFiles fs s =
     (if length (drafts s) \<ge> MAX_ATTACHMENTS then s
      else let added = new_drafts (nextKey s) (take (MAX_ATTACHMENTS - length (drafts s)) fs) in
        if added = [] then s
        else fold upload added (s\<lparr>drafts := drafts s @ added, nextKey := nextKey s + length added\<rparr>))"

definition retryUpload :: "nat \<Rightarrow> uploader \<Rightarrow> uploader" where
  "retryUpload k s =
     (case List.find (\<lambda>d. dr_key d = k) (drafts s) of
        None \<Rightarrow> s
      | Some d \<Rightarrow>
          if dr_status d \<noteq> Failed then s
          else let n = d\<lparr>dr_status := Uploading, dr_progress := 0, dr_attachment := None\<rparr> in
            upload n (s\<lparr>drafts := map (\<lambda>x. if dr_key x = k then n else x) (drafts s)\<rparr>))"

definition removeDraft :: "nat \<Rightarrow> uploader \<Rightarrow> uploader" where
  "removeDraft k s =
     (let s1 = (case map_of (running_uploads s) k of None \<Rightarrow> s | Some c \<Rightarrow> emit (OutAbort c) s)
      in s1\<lparr>running_uploads := AList.delete k (running_uploads s), drafts := filter (\<lambda>d. dr_key d \<noteq> k) (drafts s)\<rparr>)"

definition takeAttachments :: "uploader \<Rightarrow> message_attachment list \<times> uploader" where
  "takeAttachments s =
     (concat (map (\<lambda>d. case dr_attachment d of None \<Rightarrow> [] | Some a \<Rightarrow> [a]) (drafts s)), s\<lparr>drafts := []\<rparr>)"

definition abortAll :: "uploader \<Rightarrow> uploader" where
  "abortAll s = (fold (\<lambda>kc. emit (OutAbort (snd kc))) (running_uploads s) s)\<lparr>running_uploads := [], drafts := []\<rparr>"

definition draftsReady :: "attachment_draft list \<Rightarrow> bool" where
  "draftsReady ds = list_all (\<lambda>d. dr_status d = Uploaded) ds"


section \<open>Runs\<close>

inductive upload_step :: "uploader \<Rightarrow> uploader \<Rightarrow> bool" where
  up_add: "upload_step s (addFiles fs s)"
| up_retry: "upload_step s (retryUpload k s)"
| up_remove: "upload_step s (removeDraft k s)"
| up_take: "upload_step s (snd (takeAttachments s))"
| up_abort: "upload_step s (abortAll s)"
| up_size: "upload_step s (sizeRead c dim s)"
| up_created: "upload_step s (attachmentCreated c res s)"
| up_progress: "upload_step s (putProgress c percent s)"
| up_put: "upload_step s (putDone c ok s)"
| up_completed: "upload_step s (attachmentCompleted c att s)"

inductive upload_reachable :: "uploader \<Rightarrow> bool" where
  up_first: "upload_reachable createAttachmentUploader"
| up_next: "upload_reachable s \<Longrightarrow> upload_step s s' \<Longrightarrow> upload_reachable s'"

definition draft_ok :: "attachment_draft \<Rightarrow> bool" where
  "draft_ok d = ((dr_status d = Uploaded \<longleftrightarrow> dr_attachment d \<noteq> None) \<and> 0 \<le> dr_progress d \<and> dr_progress d \<le> 100)"

definition runs_ok :: "uploader \<Rightarrow> bool" where
  "runs_ok s = ((\<forall>k c. map_of (running_uploads s) k = Some c \<longrightarrow>
        k \<le> nextKey s \<and> c < nextController s \<and> (\<exists>t. tasks s c = Some t \<and> tk_key t = k))
     \<and> (\<forall>c t. tasks s c = Some t \<longrightarrow> c < nextController s))"

definition drafts_ok :: "uploader \<Rightarrow> bool" where
  "drafts_ok s = (distinct (map dr_key (drafts s)) \<and> length (drafts s) \<le> MAX_ATTACHMENTS
      \<and> (\<forall>d\<in>set (drafts s). dr_key d \<le> nextKey s \<and> draft_ok d))"

definition linked :: "nat set \<Rightarrow> uploader \<Rightarrow> bool" where
  \<comment> \<open>a draft is uploading exactly when an upload of it runs; the drafts with these keys are still to be started\<close>
  "linked K s = (\<forall>d\<in>set (drafts s). dr_key d \<notin> K \<longrightarrow>
     (dr_status d = Uploading \<longleftrightarrow> map_of (running_uploads s) (dr_key d) \<noteq> None))"

definition up_ok :: "nat set \<Rightarrow> uploader \<Rightarrow> bool" where
  "up_ok K s = (drafts_ok s \<and> linked K s \<and> runs_ok s)"

lemma up_ok_emit [simp]: "up_ok K (emit x s) = up_ok K s"
  by (simp add: up_ok_def runs_ok_def drafts_ok_def linked_def emit_def)

lemma runs_ok_key:
  "runs_ok s \<Longrightarrow> tasks s c = Some t \<Longrightarrow> map_of (running_uploads s) k = Some c \<Longrightarrow> tk_key t = k"
  unfolding runs_ok_def by (metis option.inject)

lemma runs_ok_setStage: "runs_ok s \<Longrightarrow> tasks s c = Some t \<Longrightarrow> runs_ok (setStage c t st s)"
  using runs_ok_key[of s c t] by (auto simp: runs_ok_def setStage_def)

lemma up_ok_setStage: "up_ok K s \<Longrightarrow> tasks s c = Some t \<Longrightarrow> up_ok K (setStage c t st s)"
  using runs_ok_setStage by (simp add: up_ok_def drafts_ok_def linked_def) (simp add: setStage_def)

lemma up_ok_create: "up_ok K s \<Longrightarrow> tasks s c = Some t \<Longrightarrow> up_ok K (createRequest c t ct dims s)"
  by (simp add: createRequest_def up_ok_setStage)

lemma runs_ok_new:
  assumes "runs_ok s" "tk_key t = k" "k \<le> nextKey s"
  shows "runs_ok (setStage (nextController s) t st
    (s\<lparr>running_uploads := AList.update k (nextController s) (running_uploads s), nextController := nextController s + 1\<rparr>))"
  using assms unfolding runs_ok_def by (auto simp: setStage_def update_conv' less_Suc_eq)

lemma up_ok_upload:
  assumes "up_ok (insert (dr_key d) K) s" "dr_key d \<le> nextKey s"
    "\<forall>x\<in>set (drafts s). dr_key x = dr_key d \<longrightarrow> dr_status x = Uploading"
  shows "up_ok K (upload d s)"
proof -
  let ?c = "nextController s" and ?ct = "uploadContentType (dr_file d)"
  let ?t = "\<lparr>tk_key = dr_key d, tk_file = dr_file d, tk_fileName = dr_fileName d, tk_stage = Sizing ?ct\<rparr>"
  let ?s1 = "s\<lparr>running_uploads := AList.update (dr_key d) ?c (running_uploads s), nextController := ?c + 1\<rparr>"
  have "runs_ok (setStage ?c ?t st ?s1)" for st using assms(1,2) by (intro runs_ok_new) (auto simp: up_ok_def)
  moreover have "drafts_ok (setStage ?c ?t st ?s1)" for st using assms(1) by (simp add: up_ok_def drafts_ok_def setStage_def)
  moreover have "linked K (setStage ?c ?t st ?s1)" for st
    using assms(1,3) by (auto simp: up_ok_def linked_def setStage_def update_conv')
  ultimately have "up_ok K (setStage ?c ?t st ?s1)" for st by (simp add: up_ok_def)
  then show ?thesis by (simp add: upload_def createRequest_def Let_def)
qed

lemma drafts_upload [simp]: "drafts (upload d s) = drafts s" "nextKey (upload d s) = nextKey s"
  by (simp_all add: upload_def createRequest_def setStage_def emit_def Let_def)

lemma up_ok_fold_upload:
  assumes "up_ok (dr_key ` set ds) s" "\<forall>d\<in>set ds. dr_key d \<le> nextKey s"
    "\<forall>d\<in>set ds. \<forall>x\<in>set (drafts s). dr_key x = dr_key d \<longrightarrow> dr_status x = Uploading"
  shows "up_ok {} (fold upload ds s)"
  using assms
proof (induction ds arbitrary: s)
  case (Cons d ds)
  have "up_ok (insert (dr_key d) (dr_key ` set ds)) s" "dr_key d \<le> nextKey s"
    "\<forall>x\<in>set (drafts s). dr_key x = dr_key d \<longrightarrow> dr_status x = Uploading"
    using Cons.prems by simp_all
  then have "up_ok (dr_key ` set ds) (upload d s)" by (rule up_ok_upload)
  then have "up_ok {} (fold upload ds (upload d s))" using Cons.prems by (intro Cons.IH) simp_all
  then show ?case by simp
qed simp

lemma new_drafts_each:
  "d \<in> set (new_drafts k fs) \<Longrightarrow> dr_status d = Uploading \<and> draft_ok d \<and> k < dr_key d \<and> dr_key d \<le> k + length fs"
  by (induction k fs rule: new_drafts.induct) (auto simp: draft_ok_def)

lemma new_drafts_length [simp]: "length (new_drafts k fs) = length fs"
  by (induction k fs rule: new_drafts.induct) auto

lemma new_drafts_distinct: "distinct (map dr_key (new_drafts k fs))"
proof (induction k fs rule: new_drafts.induct)
  case (2 k f fs)
  then show ?case using new_drafts_each[of _ "k + 1" fs] by fastforce
qed simp

lemma up_ok_add: "up_ok {} s \<Longrightarrow> up_ok {} (addFiles fs s)"
proof -
  assume s: "up_ok {} s"
  let ?fs = "take (MAX_ATTACHMENTS - length (drafts s)) fs"
  let ?ds = "new_drafts (nextKey s) ?fs"
  let ?s1 = "s\<lparr>drafts := drafts s @ ?ds, nextKey := nextKey s + length ?ds\<rparr>"
  have new: "d \<in> set ?ds \<Longrightarrow> dr_status d = Uploading \<and> draft_ok d \<and> nextKey s < dr_key d \<and> dr_key d \<le> nextKey s + length ?ds" for d
    using new_drafts_each[of d "nextKey s" ?fs] by simp
  have old: "x \<in> set (drafts s) \<Longrightarrow> dr_key x \<le> nextKey s" for x using s by (auto simp: up_ok_def drafts_ok_def)
  have dist: "distinct (map dr_key ?ds)" by (rule new_drafts_distinct)
  have disj: "dr_key ` set (drafts s) \<inter> dr_key ` set ?ds = {}" using new old by fastforce
  have "drafts_ok ?s1" if "length (drafts s) < MAX_ATTACHMENTS"
    unfolding drafts_ok_def
  proof (intro conjI ballI)
    show "distinct (map dr_key (drafts ?s1))" using s dist disj by (simp add: up_ok_def drafts_ok_def)
    show "length (drafts ?s1) \<le> MAX_ATTACHMENTS" using that by simp
    fix d assume "d \<in> set (drafts ?s1)"
    then show "dr_key d \<le> nextKey ?s1" "draft_ok d" using new[of d] old[of d] s by (auto simp: up_ok_def drafts_ok_def)
  qed
  moreover have "linked (dr_key ` set ?ds) ?s1" using s by (auto simp: up_ok_def linked_def)
  moreover have "runs_ok ?s1" using s unfolding up_ok_def runs_ok_def by (auto intro: trans_le_add1)
  moreover have "\<forall>d\<in>set ?ds. \<forall>x\<in>set (drafts ?s1). dr_key x = dr_key d \<longrightarrow> dr_status x = Uploading"
  proof (intro ballI impI)
    fix d x assume "d \<in> set ?ds" "x \<in> set (drafts ?s1)" "dr_key x = dr_key d"
    then show "dr_status x = Uploading" using new old disj by auto
  qed
  moreover have "\<forall>d\<in>set ?ds. dr_key d \<le> nextKey ?s1" using new by simp
  ultimately show ?thesis using up_ok_fold_upload[of ?ds ?s1] s
    by (auto simp: addFiles_def Let_def up_ok_def)
qed


lemma drafts_ok_map:
  assumes "drafts_ok s" "\<And>x. x \<in> set (drafts s) \<Longrightarrow> draft_ok (g x) \<and> dr_key (g x) = dr_key x"
  shows "drafts_ok (s\<lparr>drafts := map g (drafts s)\<rparr>)"
proof -
  have "map dr_key (map g (drafts s)) = map dr_key (drafts s)" using assms(2) by simp
  then have "distinct (map dr_key (map g (drafts s)))" using assms(1) by (simp only: drafts_ok_def)
  then show ?thesis using assms unfolding drafts_ok_def by auto
qed

lemma up_ok_retry: "up_ok {} s \<Longrightarrow> up_ok {} (retryUpload k s)"
proof -
  assume s: "up_ok {} s"
  show ?thesis
  proof (cases "List.find (\<lambda>d. dr_key d = k) (drafts s)")
    case None
    then show ?thesis using s by (simp add: retryUpload_def)
  next
    case (Some d)
    then have d: "d \<in> set (drafts s)" "dr_key d = k" using find_Some_set[OF Some] by auto
    let ?n = "d\<lparr>dr_status := Uploading, dr_progress := 0, dr_attachment := None\<rparr>"
    let ?s1 = "s\<lparr>drafts := map (\<lambda>x. if dr_key x = k then ?n else x) (drafts s)\<rparr>"
    have "drafts_ok ?s1"
      by (rule drafts_ok_map) (use s d in \<open>auto simp: up_ok_def drafts_ok_def draft_ok_def\<close>)
    moreover have "linked {k} ?s1" using s d(2) by (auto simp: up_ok_def linked_def)
    moreover have "runs_ok ?s1" using s by (simp add: up_ok_def runs_ok_def)
    ultimately have "up_ok {dr_key ?n} ?s1" using d(2) by (simp add: up_ok_def)
    moreover have "dr_key ?n \<le> nextKey ?s1" using s d by (auto simp: up_ok_def drafts_ok_def)
    moreover have "\<forall>x\<in>set (drafts ?s1). dr_key x = dr_key ?n \<longrightarrow> dr_status x = Uploading" using d(2) by auto
    ultimately have "up_ok {} (upload ?n ?s1)" by (rule up_ok_upload)
    then show ?thesis using s Some by (simp add: retryUpload_def Let_def)
  qed
qed

lemma up_ok_fewer:
  assumes "up_ok {} s"
  shows "up_ok {} (s\<lparr>running_uploads := AList.delete k (running_uploads s), drafts := filter (\<lambda>d. dr_key d \<noteq> k) (drafts s)\<rparr>)"
proof -
  let ?s = "s\<lparr>running_uploads := AList.delete k (running_uploads s), drafts := filter (\<lambda>d. dr_key d \<noteq> k) (drafts s)\<rparr>"
  have "drafts_ok ?s" using assms(1) by (auto simp: up_ok_def drafts_ok_def distinct_map_filter intro: le_trans[OF length_filter_le])
  moreover have "linked {} ?s" using assms(1) by (auto simp: up_ok_def linked_def delete_conv')
  moreover have "runs_ok ?s" using assms(1) unfolding up_ok_def runs_ok_def by (auto simp: delete_conv' split: if_splits)
  ultimately show ?thesis by (simp add: up_ok_def)
qed

lemma up_ok_remove: "up_ok {} s \<Longrightarrow> up_ok {} (removeDraft k s)"
proof -
  assume s: "up_ok {} s"
  have "up_ok {} (s\<lparr>running_uploads := AList.delete k (running_uploads s), drafts := filter (\<lambda>d. dr_key d \<noteq> k) (drafts s)\<rparr>)"
    by (rule up_ok_fewer[OF s])
  moreover have "(emit x s)\<lparr>running_uploads := r, drafts := ds\<rparr> = emit x (s\<lparr>running_uploads := r, drafts := ds\<rparr>)" for x r ds
    by (simp add: emit_def)
  ultimately show ?thesis by (auto simp: removeDraft_def Let_def split: option.splits)
qed

lemma up_ok_none: "up_ok {} s \<Longrightarrow> up_ok {} (s\<lparr>running_uploads := [], drafts := []\<rparr>)"
  by (auto simp: up_ok_def drafts_ok_def linked_def runs_ok_def)

lemma up_ok_abort: "up_ok {} s \<Longrightarrow> up_ok {} (abortAll s)"
proof -
  assume s: "up_ok {} s"
  have "up_ok {} (fold (\<lambda>kc. emit (OutAbort (snd kc))) kcs s)" for kcs
    using s by (induction kcs arbitrary: s) auto
  then show ?thesis unfolding abortAll_def by (rule up_ok_none)
qed

text \<open>What the end of an upload does: it stops running, and its draft takes a settled status.\<close>

lemma up_ok_end:
  assumes "up_ok {} s" "tasks s c = Some t" "\<And>d. draft_ok d \<Longrightarrow> dr_status d = Uploading \<Longrightarrow> draft_ok (f d) \<and> dr_key (f d) = dr_key d \<and> dr_status (f d) \<noteq> Uploading"
  shows "up_ok {} (endTask c t (if currentTask c t s then patchDraft (tk_key t) f s else s))"
proof (cases "currentTask c t s")
  case False
  have "runs_ok (s\<lparr>tasks := (tasks s)(c := None)\<rparr>)"
    using assms(1,2) False runs_ok_key[of s c t] unfolding up_ok_def currentTask_def
    by (auto simp: runs_ok_def)
  then show ?thesis using False assms(1) by (simp add: endTask_def up_ok_def drafts_ok_def linked_def)
next
  case True
  let ?ds = "map (\<lambda>d. if dr_key d = tk_key t then f d else d) (drafts s)"
  let ?s = "s\<lparr>drafts := ?ds, tasks := (tasks s)(c := None), running_uploads := AList.delete (tk_key t) (running_uploads s)\<rparr>"
  have keys: "x \<in> set (drafts s) \<Longrightarrow> draft_ok x" for x using assms(1) by (auto simp: up_ok_def drafts_ok_def)
  have upl: "x \<in> set (drafts s) \<Longrightarrow> dr_key x = tk_key t \<Longrightarrow> dr_status x = Uploading" for x
    using assms(1) True by (auto simp: up_ok_def linked_def currentTask_def)
  have "drafts_ok (s\<lparr>drafts := ?ds\<rparr>)"
    by (rule drafts_ok_map) (use assms(1,3) keys upl in \<open>auto simp: up_ok_def\<close>)
  then have "drafts_ok ?s" by (simp add: drafts_ok_def)
  moreover have "linked {} ?s"
  proof -
    have l: "dr_status x = Uploading \<longleftrightarrow> map_of (running_uploads s) (dr_key x) \<noteq> None" if "x \<in> set (drafts s)" for x
      using assms(1) that by (simp add: up_ok_def linked_def)
    have f: "dr_key (f x) = tk_key t \<and> dr_status (f x) \<noteq> Uploading" if "x \<in> set (drafts s)" "dr_key x = tk_key t" for x
      using assms(3)[OF keys upl] that by simp
    show ?thesis unfolding linked_def
    proof (intro ballI impI)
      fix d assume "d \<in> set (drafts ?s)"
      then obtain x where x: "x \<in> set (drafts s)" "d = (if dr_key x = tk_key t then f x else x)" by auto
      show "(dr_status d = Uploading) = (map_of (running_uploads ?s) (dr_key d) \<noteq> None)"
        using f[OF x(1)] l[OF x(1)] x(2) by (cases "dr_key x = tk_key t") (simp_all add: delete_conv')
    qed
  qed
  moreover have "runs_ok ?s"
  proof -
    have r: "runs_ok s" using assms(1) by (simp add: up_ok_def)
    have old: "map_of (running_uploads s) k = Some c' \<Longrightarrow>
        k \<le> nextKey s \<and> c' < nextController s \<and> (\<exists>t. tasks s c' = Some t \<and> tk_key t = k)" for k c'
      using r by (simp add: runs_ok_def)
    have new: "map_of (running_uploads ?s) k = Some c' \<Longrightarrow> map_of (running_uploads s) k = Some c' \<and> c' \<noteq> c" for k c'
      using runs_ok_key[OF r assms(2)] by (auto simp: delete_conv' split: if_splits)
    show ?thesis unfolding runs_ok_def
    proof (intro conjI allI impI)
      fix k c' assume m: "map_of (running_uploads ?s) k = Some c'"
      then have m': "map_of (running_uploads s) k = Some c'" "c' \<noteq> c" using new by blast+
      show "k \<le> nextKey ?s" "c' < nextController ?s" "\<exists>t. tasks ?s c' = Some t \<and> tk_key t = k"
        using old[OF m'(1)] m'(2) by simp_all
    next
      fix c' t' assume "tasks ?s c' = Some t'"
      then show "c' < nextController ?s" using r by (simp add: runs_ok_def split: if_splits)
    qed
  qed
  ultimately have "up_ok {} ?s" by (simp add: up_ok_def)
  moreover have "patchDraft (tk_key t) f s = s\<lparr>drafts := ?ds\<rparr>"
  proof (cases "list_ex (\<lambda>d. dr_key d = tk_key t) (drafts s)")
    case False
    then have "?ds = drafts s" by (auto simp: list_ex_iff intro: map_idI)
    then show ?thesis using False by (simp add: patchDraft_def)
  qed (simp add: patchDraft_def)
  ultimately show ?thesis using True by (simp add: endTask_def currentTask_def)
qed

lemma up_ok_fail: "up_ok {} s \<Longrightarrow> tasks s c = Some t \<Longrightarrow> up_ok {} (failTask c t s)"
  unfolding failTask_def by (rule up_ok_end) (auto simp: draft_ok_def)


lemma up_ok_patch:
  assumes "up_ok {} s" "\<And>d. draft_ok d \<Longrightarrow> draft_ok (f d) \<and> dr_key (f d) = dr_key d \<and> dr_status (f d) = dr_status d"
  shows "up_ok {} (patchDraft k f s)"
proof -
  let ?s = "s\<lparr>drafts := map (\<lambda>d. if dr_key d = k then f d else d) (drafts s)\<rparr>"
  have k: "x \<in> set (drafts s) \<Longrightarrow> draft_ok x" for x using assms(1) by (auto simp: up_ok_def drafts_ok_def)
  have "drafts_ok ?s" by (rule drafts_ok_map) (use assms k in \<open>auto simp: up_ok_def\<close>)
  moreover have "linked {} ?s" using assms k by (auto simp: up_ok_def linked_def)
  moreover have "runs_ok ?s" using assms(1) by (simp add: up_ok_def runs_ok_def)
  ultimately show ?thesis using assms(1) by (simp add: patchDraft_def up_ok_def)
qed

lemma up_ok_drop: "up_ok {} s \<Longrightarrow> tasks s c = Some t \<Longrightarrow> \<not> currentTask c t s \<Longrightarrow> up_ok {} (endTask c t s)"
  using up_ok_end[of s c t "\<lambda>d. d\<lparr>dr_status := Failed\<rparr>"] by (auto simp: draft_ok_def)

lemma up_ok_complete:
  "up_ok {} s \<Longrightarrow> tasks s c = Some t \<Longrightarrow>
    up_ok {} (endTask c t (if currentTask c t s
      then patchDraft (tk_key t) (\<lambda>d. d\<lparr>dr_status := Uploaded, dr_progress := 100, dr_attachment := Some att\<rparr>) s else s))"
  by (rule up_ok_end) (auto simp: draft_ok_def)

lemma up_ok_completed:
  assumes "up_ok {} s"
  shows "up_ok {} (attachmentCompleted c res s)"
proof (cases "tasks s c")
  case (Some t)
  show ?thesis
  proof (cases "tk_stage t")
    case (Completing a)
    show ?thesis
    proof (cases res)
      case None
      then show ?thesis using up_ok_fail[OF assms Some] Some Completing by (simp add: attachmentCompleted_def)
    next
      case (Some att)
      show ?thesis using up_ok_complete[OF assms \<open>tasks s c = Some t\<close>, of att] \<open>tasks s c = Some t\<close> Completing Some
        by (simp add: attachmentCompleted_def del: if_split)
    qed
  qed (use Some assms in \<open>simp_all add: attachmentCompleted_def\<close>)
qed (use assms in \<open>simp add: attachmentCompleted_def\<close>)

lemma up_ok_step: "up_ok {} s \<Longrightarrow> upload_step s s' \<Longrightarrow> up_ok {} s'"
proof (erule upload_step.cases)
  show "up_ok {} s \<Longrightarrow> s' = snd (takeAttachments u) \<Longrightarrow> s = u \<Longrightarrow> up_ok {} s'" for u
    by (auto simp: takeAttachments_def up_ok_def drafts_ok_def linked_def runs_ok_def)
  show "up_ok {} s \<Longrightarrow> s = u \<Longrightarrow> s' = sizeRead c dim u \<Longrightarrow> up_ok {} s'" for u c dim
    using up_ok_create by (auto simp: sizeRead_def split: option.splits stage.splits)
  show "up_ok {} s \<Longrightarrow> s = u \<Longrightarrow> s' = attachmentCreated c res u \<Longrightarrow> up_ok {} s'" for u c res
    using up_ok_create up_ok_fail up_ok_drop up_ok_setStage
    by (auto simp: attachmentCreated_def split: option.splits stage.splits sum.splits)
  show "up_ok {} s \<Longrightarrow> s = u \<Longrightarrow> s' = putDone c b u \<Longrightarrow> up_ok {} s'" for u c b
    using up_ok_fail up_ok_drop up_ok_setStage
    by (auto simp: putDone_def split: option.splits stage.splits)
  show "up_ok {} s \<Longrightarrow> s = u \<Longrightarrow> s' = attachmentCompleted c att u \<Longrightarrow> up_ok {} s'" for u c att
    using up_ok_completed by simp
  show "up_ok {} s \<Longrightarrow> s = u \<Longrightarrow> s' = putProgress c n u \<Longrightarrow> up_ok {} s'" for u c n
    using up_ok_patch[of u "\<lambda>d. d\<lparr>dr_progress := min 100 (int n)\<rparr>"]
    by (auto simp: putProgress_def draft_ok_def split: option.splits stage.splits)
qed (auto intro: up_ok_add up_ok_retry up_ok_remove up_ok_abort)

lemma up_ok_first: "up_ok {} createAttachmentUploader"
  by (simp add: up_ok_def drafts_ok_def linked_def runs_ok_def createAttachmentUploader_def)

lemma up_ok_reachable: "upload_reachable s \<Longrightarrow> up_ok {} s"
  by (induction rule: upload_reachable.induct) (auto intro: up_ok_first up_ok_step)

text \<open>C34: the attachments of a composer are never stuck and never more than ten: in every run the drafts
  are at most ten with different keys, a draft is shown as uploading exactly while an upload of it
  runs, it holds an attachment exactly when it is shown as uploaded, and its progress is between 0
  and 100.\<close>

theorem drafts_consistent:
  assumes "upload_reachable s"
  shows "length (drafts s) \<le> 10 \<and> distinct (map dr_key (drafts s))
    \<and> list_all (\<lambda>d. (dr_status d = Uploading \<longleftrightarrow> map_of (running_uploads s) (dr_key d) \<noteq> None)
        \<and> (dr_status d = Uploaded \<longleftrightarrow> dr_attachment d \<noteq> None) \<and> 0 \<le> dr_progress d \<and> dr_progress d \<le> 100) (drafts s)"
  using up_ok_reachable[OF assms]
  by (auto simp: up_ok_def drafts_ok_def linked_def draft_ok_def list_all_iff MAX_ATTACHMENTS_def)

text \<open>a message takes the attachments it shows: when the composer says that its drafts are ready,
  what is taken for the message is one attachment for each draft, in their order.\<close>

theorem ready_takes_all:
  assumes "upload_reachable s" "draftsReady (drafts s)"
  shows "map Some (fst (takeAttachments s)) = map dr_attachment (drafts s)"
proof -
  have "\<forall>d\<in>set (drafts s). dr_attachment d \<noteq> None"
    using up_ok_reachable[OF assms(1)] assms(2)
    by (auto simp: up_ok_def drafts_ok_def draft_ok_def draftsReady_def list_all_iff)
  then have "map Some (concat (map (\<lambda>d. case dr_attachment d of None \<Rightarrow> [] | Some a \<Rightarrow> [a]) ds)) = map dr_attachment ds"
    if "set ds \<subseteq> set (drafts s)" for ds
    using that by (induction ds) auto
  then show ?thesis by (simp add: takeAttachments_def)
qed

text \<open>what was taken off the composer stays off: once a draft is removed, no answer of its upload
  changes the drafts, however far the upload had come.\<close>

theorem cancelled_upload_ignored:
  assumes "tasks s c = Some t" "\<not> currentTask c t s"
  shows "drafts (attachmentCreated c res s) = drafts s \<and> drafts (putProgress c n s) = drafts s
    \<and> drafts (putDone c ok s) = drafts s \<and> drafts (attachmentCompleted c att s) = drafts s"
  using assms
  by (auto simp: attachmentCreated_def putProgress_def putDone_def attachmentCompleted_def createRequest_def
      setStage_def emit_def failTask_def endTask_def split: stage.splits sum.splits option.splits)

definition sample_file :: upload_file where
  "sample_file = \<lparr>fl_name = units ''a/b.txt'', fl_type = units ''text/plain'', fl_size = 3\<rparr>"

definition sample_attachment :: message_attachment where
  "sample_attachment = \<lparr>at_id = ''A'', at_file_name = ''a_b.txt'', at_content_type = ''text/plain'',
     at_size_bytes = 3, at_width = None, at_height = None\<rparr>"

definition sample_upload :: uploader where
  "sample_upload = attachmentCompleted 0 (Some sample_attachment)
     (putDone 0 True (attachmentCreated 0 (Inr ''A'') (addFiles [sample_file] createAttachmentUploader)))"

lemma sample_upload_reachable: "upload_reachable sample_upload"
  unfolding sample_upload_def
  by (intro up_next[OF _ up_completed] up_next[OF _ up_put] up_next[OF _ up_created] up_next[OF _ up_add] up_first)

theorem drafts_consistent_witness: "length (drafts sample_upload) \<le> 10"
  using drafts_consistent[OF sample_upload_reachable] by blast

theorem ready_takes_all_witness:
  "map Some (fst (takeAttachments sample_upload)) = map dr_attachment (drafts sample_upload)"
  by (rule ready_takes_all[OF sample_upload_reachable]) code_simp

theorem cancelled_upload_ignored_witness:
  "drafts (putDone 0 True (removeDraft 1 (addFiles [sample_file] createAttachmentUploader))) = []"
proof -
  let ?s = "removeDraft 1 (addFiles [sample_file] createAttachmentUploader)"
  obtain t where t: "tasks ?s 0 = Some t" "\<not> currentTask 0 t ?s" "drafts ?s = []"
  proof -
    have "tasks ?s 0 \<noteq> None" "\<not> currentTask 0 (the (tasks ?s 0)) ?s" "drafts ?s = []" by code_simp+
    then show ?thesis using that by auto
  qed
  then show ?thesis using cancelled_upload_ignored[OF t(1,2)] by simp
qed

end
