(* ===== verification/HuddleStage.thy ===== *)
theory HuddleStage
  imports Prelude
begin

text \<open>
  \<open>web/lib/chat/huddle/stage.ts\<close>: which videos of a huddle are received. Only the people on the stage
  are; the choice remembers who was on it and who spoke when, so that it does not flicker. The theorems
  bound what is received, show that no place is left empty while someone has a camera, that an enlarged
  person is on the stage, and that speaking alone changes the stage at most once in five seconds.
\<close>

section \<open>Definitions\<close>

datatype huddle_quality = High | Medium | Low

datatype video_kind = VCamera | VScreen

definition STAGE_DESKTOP :: nat where "STAGE_DESKTOP = 9"
definition STAGE_SHARING :: nat where "STAGE_SHARING = 4"
definition STAGE_MOBILE :: nat where "STAGE_MOBILE = 4"

definition STAGE_HOLD_MS :: int where
  "STAGE_HOLD_MS = 5000"

record stage_person =
  so_userId :: ident
  so_camera :: bool
  so_screen :: bool

record stage_input =
  si_selfId :: ident
  si_selfCamera :: bool
  si_others :: "stage_person list"
  si_pinnedId :: "ident option"
  si_speaking :: "ident list"
  si_visible :: bool
  si_mobile :: bool
  si_now :: int

record stage_track =
  tk_userId :: ident
  tk_kind :: video_kind
  tk_quality :: "huddle_quality option"

record stage_memory =
  sm_cameras :: "ident list"
  sm_spokeAt :: "(ident, int) jsrec"
  sm_changedAt :: "int option" \<comment> \<open>\<open>None\<close> is \<open>-Infinity\<close>\<close>

definition EMPTY_STAGE :: stage_memory where
  "EMPTY_STAGE = \<lparr>sm_cameras = [], sm_spokeAt = [], sm_changedAt = None\<rparr>"

definition join_order :: "ident list \<Rightarrow> ident \<Rightarrow> nat option" where
  \<comment> \<open>\<open>new Map(withCamera.map((id, i) => [id, i]))\<close>\<close>
  "join_order ids = map_of (rev (zip ids [0..<length ids]))"

definition order_of :: "ident list \<Rightarrow> ident \<Rightarrow> int" where
  "order_of ids a = (case join_order ids a of None \<Rightarrow> 0 | Some i \<Rightarrow> int i)"

definition rank_compare :: "ident option \<Rightarrow> (ident, int) jsrec \<Rightarrow> ident list \<Rightarrow> ident \<Rightarrow> ident \<Rightarrow> int" where
  \<comment> \<open>the difference of two \<open>-Infinity\<close> is \<open>NaN\<close>, which \<open>sort\<close> takes for 0\<close>
  "rank_compare pinned spokeAt withCamera a b =
     (if Some a = pinned then -1
      else if Some b = pinned then 1
      else case (rget spokeAt b, rget spokeAt a) of
        (None, None) \<Rightarrow> 0
      | (Some _, None) \<Rightarrow> 1
      | (None, Some _) \<Rightarrow> -1
      | (Some x, Some y) \<Rightarrow> if x - y \<noteq> 0 then x - y else order_of withCamera a - order_of withCamera b)"

definition sameSet :: "ident list \<Rightarrow> ident list \<Rightarrow> bool" where
  "sameSet a b = (length a = length b \<and> list_all (\<lambda>x. x \<in> set b) a)"

definition cameraQuality :: "nat \<Rightarrow> ident option \<Rightarrow> bool \<Rightarrow> ident \<Rightarrow> huddle_quality" where
  "cameraQuality n pinned sharing userId =
     (if pinned = Some userId then High
      else if pinned \<noteq> None \<or> sharing then Low
      else if n \<le> 2 then High
      else if n \<le> 4 then Medium
      else Low)"

definition spoken :: "stage_input \<Rightarrow> stage_memory \<Rightarrow> (ident, int) jsrec" where
  "spoken inp m = fold (\<lambda>i r. rput i (si_now inp) r) (si_speaking inp) (sm_spokeAt m)"

definition screens :: "stage_input \<Rightarrow> ident list" where
  "screens inp = map so_userId (filter so_screen (si_others inp))"

definition with_camera :: "stage_input \<Rightarrow> ident list" where
  "with_camera inp = map so_userId (filter so_camera (si_others inp))"

definition sharing :: "stage_input \<Rightarrow> bool" where
  "sharing inp = (screens inp \<noteq> [] \<or>
     (case si_pinnedId inp of None \<Rightarrow> False | Some p \<Rightarrow> take 7 p = ''screen:''))"

definition slots :: "stage_input \<Rightarrow> nat" where
  \<comment> \<open>\<open>Math.max(0, size - (input.selfCamera ? 1 : 0))\<close>\<close>
  "slots inp =
     (if si_mobile inp then STAGE_MOBILE else if sharing inp then STAGE_SHARING else STAGE_DESKTOP)
     - (if si_selfCamera inp then 1 else 0)"

definition pinned_camera :: "stage_input \<Rightarrow> ident option" where
  "pinned_camera inp = List.find (\<lambda>i. Some i = si_pinnedId inp) (with_camera inp)"

definition desired :: "stage_input \<Rightarrow> stage_memory \<Rightarrow> ident list" where
  "desired inp m =
     take (slots inp) (js_sort (rank_compare (pinned_camera inp) (spoken inp m) (with_camera inp)) (with_camera inp))"

definition kept :: "stage_input \<Rightarrow> stage_memory \<Rightarrow> ident list" where
  "kept inp m = filter (\<lambda>i. i \<in> set (with_camera inp)) (sm_cameras m)"

definition forced :: "stage_input \<Rightarrow> stage_memory \<Rightarrow> bool" where
  "forced inp m =
     (if (case pinned_camera inp of None \<Rightarrow> False | Some p \<Rightarrow> p \<notin> set (kept inp m)) then True
      else length (kept inp m) > slots inp \<or> length (sm_cameras m) \<noteq> length (kept inp m))"

definition held :: "stage_input \<Rightarrow> stage_memory \<Rightarrow> bool" where
  \<comment> \<open>the last change was less than \<open>STAGE_HOLD_MS\<close> ago\<close>
  "held inp m = (case sm_changedAt m of None \<Rightarrow> False | Some t \<Rightarrow> si_now inp - t < STAGE_HOLD_MS)"

definition chosen :: "stage_input \<Rightarrow> stage_memory \<Rightarrow> ident list \<times> int option" where
  \<comment> \<open>\<open>cameras\<close> and \<open>changedAt\<close>\<close>
  "chosen inp m =
     (let k = kept inp m; full = min (slots inp) (length (with_camera inp)) in
      if sameSet (desired inp m) k then (k, sm_changedAt m)
      else if forced inp m \<or> \<not> held inp m \<or> length k < full
      then (desired inp m, if \<not> forced inp m \<and> length k \<ge> full then Some (si_now inp) else sm_changedAt m)
      else (k, sm_changedAt m))"

definition chooseStage :: "stage_input \<Rightarrow> stage_memory \<Rightarrow> stage_track list \<times> stage_memory" where
  "chooseStage inp m =
     (if \<not> si_visible inp then ([], m\<lparr>sm_cameras := [], sm_spokeAt := spoken inp m\<rparr>)
      else
        let (cameras, changedAt) = chosen inp m;
            quality = cameraQuality (length (si_others inp) + 1) (pinned_camera inp) (sharing inp)
        in (map (\<lambda>u. \<lparr>tk_userId = u, tk_kind = VCamera, tk_quality = Some (quality u)\<rparr>) cameras
              @ map (\<lambda>u. \<lparr>tk_userId = u, tk_kind = VScreen, tk_quality = None\<rparr>) (screens inp),
            \<lparr>sm_cameras = cameras, sm_spokeAt = spoken inp m, sm_changedAt = changedAt\<rparr>))"

section \<open>What is on the stage\<close>

lemma chosen_sub:
  "set (fst (chosen inp m)) \<subseteq> set (with_camera inp)"
  by (auto simp: chosen_def kept_def desired_def Let_def dest: in_set_takeD)

lemma length_desired: "length (desired inp m) = min (slots inp) (length (with_camera inp))"
proof -
  have "length (js_sort cmp xs) = length xs" for cmp :: "ident \<Rightarrow> ident \<Rightarrow> int" and xs
    using mset_js_sort[of cmp xs] by (metis size_mset)
  then show ?thesis by (simp add: desired_def min.commute)
qed

lemma kept_len:
  assumes "distinct (sm_cameras m)" "distinct (with_camera inp)"
  shows "length (kept inp m) \<le> length (with_camera inp)"
proof -
  have "card (set (kept inp m)) \<le> card (set (with_camera inp))" by (rule card_mono) (auto simp: kept_def)
  moreover have "distinct (kept inp m)" using assms(1) by (simp add: kept_def)
  ultimately show ?thesis using assms(2) by (simp only: distinct_card)
qed

lemma chosen_length:
  assumes "distinct (sm_cameras m)" "distinct (with_camera inp)"
  shows "length (fst (chosen inp m)) = min (slots inp) (length (with_camera inp))"
  using kept_len[OF assms] length_desired[of inp m]
  by (auto simp: chosen_def Let_def sameSet_def forced_def split: if_splits)

lemma chosen_distinct:
  assumes "distinct (sm_cameras m)" "distinct (with_camera inp)"
  shows "distinct (fst (chosen inp m))"
proof -
  have "distinct (js_sort (rank_compare p sp w) (with_camera inp))" for p sp w
    using assms(2) distinct_map_js_sort[of "\<lambda>x::ident. x"] by simp
  then show ?thesis using assms(1) by (auto simp: chosen_def Let_def kept_def desired_def distinct_take)
qed

text \<open>C26: the stage is always as full as it may be, and never fuller: a visible screen receives the
  cameras of different people who are there and have their camera on, exactly as many as there are
  places for (nine at most, one less for the user's own camera) or people with a camera, and every
  shared screen; an invisible one receives nothing. The memory that is handed on keeps its people
  different, so the next choice starts the same way.\<close>

theorem stage_full:
  assumes "distinct (sm_cameras m)" "distinct (map so_userId (si_others inp))"
    "chooseStage inp m = (tracks, m')"
  shows "distinct (sm_cameras m')
    \<and> (si_visible inp \<longrightarrow>
        length (filter (\<lambda>t. tk_kind t = VCamera) tracks) = min (slots inp) (length (with_camera inp))
        \<and> distinct (map tk_userId (filter (\<lambda>t. tk_kind t = VCamera) tracks))
        \<and> set (map tk_userId (filter (\<lambda>t. tk_kind t = VCamera) tracks)) \<subseteq> set (with_camera inp)
        \<and> map tk_userId (filter (\<lambda>t. tk_kind t = VScreen) tracks) = screens inp)
    \<and> (\<not> si_visible inp \<longrightarrow> tracks = []) \<and> slots inp \<le> 9"
proof -
  have d: "distinct (with_camera inp)" using assms(2) unfolding with_camera_def by (rule distinct_map_filter)
  let ?c = "fst (chosen inp m)"
  have fc: "filter (\<lambda>t. tk_kind t = VCamera) (map (\<lambda>u. \<lparr>tk_userId = u, tk_kind = VCamera, tk_quality = q u\<rparr>) us
        @ map (\<lambda>u. \<lparr>tk_userId = u, tk_kind = VScreen, tk_quality = None\<rparr>) vs)
      = map (\<lambda>u. \<lparr>tk_userId = u, tk_kind = VCamera, tk_quality = q u\<rparr>) us"
    "filter (\<lambda>t. tk_kind t = VScreen) (map (\<lambda>u. \<lparr>tk_userId = u, tk_kind = VCamera, tk_quality = q u\<rparr>) us
        @ map (\<lambda>u. \<lparr>tk_userId = u, tk_kind = VScreen, tk_quality = None\<rparr>) vs)
      = map (\<lambda>u. \<lparr>tk_userId = u, tk_kind = VScreen, tk_quality = None\<rparr>) vs" for q us vs
    by (simp_all add: filter_map o_def)
  have "slots inp \<le> 9" by (simp add: slots_def STAGE_DESKTOP_def STAGE_SHARING_def STAGE_MOBILE_def)
  moreover have "\<not> si_visible inp \<longrightarrow> tracks = [] \<and> distinct (sm_cameras m')"
    using assms(3) by (auto simp: chooseStage_def)
  moreover have "si_visible inp \<longrightarrow> sm_cameras m' = ?c
      \<and> map tk_userId (filter (\<lambda>t. tk_kind t = VCamera) tracks) = ?c
      \<and> map tk_userId (filter (\<lambda>t. tk_kind t = VScreen) tracks) = screens inp"
    using assms(3) by (auto simp: chooseStage_def fc o_def split: prod.splits)
  moreover have "length (filter P tracks) = length (map tk_userId (filter P tracks))" for P by simp
  ultimately show ?thesis
    using chosen_length[OF assms(1) d] chosen_distinct[OF assms(1) d] chosen_sub[of inp m] by metis
qed

lemma pinned_first:
  assumes "p \<in> set xs" "distinct xs"
  shows "hd (js_sort (rank_compare (Some p) sp w) xs) = p"
  using assms
proof (induction xs)
  case (Cons x xs)
  let ?s = "js_sort (rank_compare (Some p) sp w)"
  have s: "?s (x # xs) = js_insert (rank_compare (Some p) sp w) x (?s xs)" by (simp add: js_sort_def)
  show ?case
  proof (cases "x = p")
    case True
    then show ?thesis unfolding s by (cases "?s xs") (simp_all add: rank_compare_def)
  next
    case False
    then have "p \<in> set xs" using Cons.prems by simp
    then have "hd (?s xs) = p" "set (?s xs) \<noteq> {}" using Cons by auto
    then obtain ys where "?s xs = p # ys" by (cases "?s xs") auto
    then show ?thesis unfolding s using False by (simp add: rank_compare_def)
  qed
qed simp

text \<open>an enlarged person is on the stage: whoever is enlarged and has a camera on is received at once,
  in the high quality, whatever was shown before and whoever speaks.\<close>

theorem pinned_on_stage:
  assumes "si_visible inp" "si_pinnedId inp = Some p" "p \<in> set (with_camera inp)" "distinct (with_camera inp)"
  shows "\<lparr>tk_userId = p, tk_kind = VCamera, tk_quality = Some High\<rparr> \<in> set (fst (chooseStage inp m))"
proof -
  have pc: "pinned_camera inp = Some p"
  proof (cases "pinned_camera inp")
    case None
    then have False using assms(2,3) by (auto simp: pinned_camera_def find_None_iff)
    then show ?thesis ..
  next
    case (Some q)
    then have "Some q = si_pinnedId inp" unfolding pinned_camera_def using find_Some_set by fast
    then show ?thesis using Some assms(2) by simp
  qed
  let ?s = "js_sort (rank_compare (pinned_camera inp) (spoken inp m) (with_camera inp)) (with_camera inp)"
  have "hd ?s = p" using pinned_first[OF assms(3,4)] pc by simp
  moreover have "p \<in> set ?s" using assms(3) by (simp only: set_js_sort)
  then have "?s \<noteq> []" by (metis empty_iff list.set(1))
  moreover have "slots inp > 0" by (simp add: slots_def STAGE_DESKTOP_def STAGE_SHARING_def STAGE_MOBILE_def)
  moreover have "hd xs \<in> set (take n xs)" if "xs \<noteq> []" "n > 0" for n and xs :: "ident list"
    using that by (cases xs; cases n) auto
  ultimately have "p \<in> set (desired inp m)" unfolding desired_def by metis
  then have "p \<in> set (fst (chosen inp m))"
    using pc by (auto simp: chosen_def Let_def sameSet_def forced_def list_all_iff split: if_splits)
  then show ?thesis using assms(1) pc by (auto simp: chooseStage_def cameraQuality_def split: prod.splits)
qed

text \<open>speaking alone does not make the stage flicker: while nobody on the stage leaves it or turns the
  camera off, its places are taken and no one new is enlarged, it stays as it is for five seconds after
  the last change, whoever speaks; and when it does change then, the five seconds start again.\<close>

theorem stage_does_not_flicker:
  assumes "si_visible inp" "chooseStage inp m = (tracks, m')"
    "set (sm_cameras m) \<subseteq> set (with_camera inp)"
    "length (sm_cameras m) = min (slots inp) (length (with_camera inp))"
    "case pinned_camera inp of None \<Rightarrow> True | Some p \<Rightarrow> p \<in> set (sm_cameras m)"
  shows "(held inp m \<longrightarrow> sm_cameras m' = sm_cameras m)
    \<and> (sm_cameras m' \<noteq> sm_cameras m \<longrightarrow> sm_changedAt m' = Some (si_now inp))"
proof -
  have k: "kept inp m = sm_cameras m" using assms(3) by (auto simp: kept_def filter_id_conv)
  have f: "\<not> forced inp m" using assms(4,5) k by (cases "pinned_camera inp") (simp_all add: forced_def)
  have "(held inp m \<longrightarrow> fst (chosen inp m) = sm_cameras m)
      \<and> (fst (chosen inp m) \<noteq> sm_cameras m \<longrightarrow> snd (chosen inp m) = Some (si_now inp))"
    using k f assms(4) by (cases "sameSet (desired inp m) (sm_cameras m)"; cases "held inp m") (simp_all add: chosen_def Let_def)
  moreover have "sm_cameras m' = fst (chosen inp m)" "sm_changedAt m' = snd (chosen inp m)"
    using assms(1,2) by (cases "chosen inp m"; auto simp: chooseStage_def)+
  ultimately show ?thesis by simp
qed

section \<open>Witnesses\<close>

definition sample_stage :: stage_input where
  "sample_stage = \<lparr>si_selfId = ''me'', si_selfCamera = True,
     si_others = [\<lparr>so_userId = ''a'', so_camera = True, so_screen = False\<rparr>,
       \<lparr>so_userId = ''b'', so_camera = True, so_screen = True\<rparr>],
     si_pinnedId = Some ''b'', si_speaking = [''a''], si_visible = True, si_mobile = False, si_now = 1000\<rparr>"

definition sample_memory :: stage_memory where
  "sample_memory = \<lparr>sm_cameras = [''a'', ''b''], sm_spokeAt = [], sm_changedAt = Some 0\<rparr>"

theorem stage_full_witness:
  "length (filter (\<lambda>t. tk_kind t = VCamera) (fst (chooseStage sample_stage EMPTY_STAGE))) = 2"
proof -
  have "length (filter (\<lambda>t. tk_kind t = VCamera) (fst (chooseStage sample_stage EMPTY_STAGE)))
      = min (slots sample_stage) (length (with_camera sample_stage))"
    using stage_full[of EMPTY_STAGE sample_stage "fst (chooseStage sample_stage EMPTY_STAGE)"
        "snd (chooseStage sample_stage EMPTY_STAGE)"]
    by (simp add: EMPTY_STAGE_def sample_stage_def)
  moreover have "min (slots sample_stage) (length (with_camera sample_stage)) = 2" by code_simp
  ultimately show ?thesis by simp
qed

theorem pinned_on_stage_witness:
  "\<lparr>tk_userId = ''b'', tk_kind = VCamera, tk_quality = Some High\<rparr> \<in> set (fst (chooseStage sample_stage EMPTY_STAGE))"
  by (rule pinned_on_stage) (simp_all add: sample_stage_def with_camera_def)

theorem stage_does_not_flicker_witness:
  "sm_cameras (snd (chooseStage sample_stage sample_memory)) = [''a'', ''b'']"
proof -
  have "held sample_stage sample_memory" by code_simp
  moreover have "length (sm_cameras sample_memory) = min (slots sample_stage) (length (with_camera sample_stage))"
    "set (sm_cameras sample_memory) \<subseteq> set (with_camera sample_stage)"
    "case pinned_camera sample_stage of None \<Rightarrow> True | Some p \<Rightarrow> p \<in> set (sm_cameras sample_memory)"
    by (code_simp, code_simp, code_simp)
  moreover have "si_visible sample_stage" by (simp add: sample_stage_def)
  ultimately show ?thesis
    using stage_does_not_flicker[of sample_stage sample_memory "fst (chooseStage sample_stage sample_memory)"
        "snd (chooseStage sample_stage sample_memory)"]
    by (simp add: sample_memory_def)
qed

end
