(* ===== verification/HuddleCall.thy ===== *)
theory HuddleCall
  imports Session HuddleStage "HOL-Library.List_Lexorder" "HOL-Library.Char_ord"
begin

text \<open>
  A huddle call (\<open>web/lib/chat/huddle/call.ts\<close>). The variables of the closure are one record. Every
  \<open>await\<close> is a continuation in \<open>conts\<close> that an event settles, at any later time and with any answer;
  the work that the code puts in its queue is a job of a chain, and a chain runs its next job when the one
  before it has ended. A teardown starts a new chain. Media streams, peer connections, transceivers and
  the objects of \<open>outgoing\<close> are handles from one counter; \<open>outs\<close> is the heap of those objects, since
  continuations keep references to them. \<open>live\<close> holds the captured streams whose tracks run, that is,
  the microphone, cameras and screens whose use the browser shows. An operation on a peer connection that
  has been closed does not settle (WebRTC leaves its steps), so those continuations stay for ever.
  The session descriptions, ICE servers and the sound itself are not part of the model.
\<close>

section \<open>Types\<close>

definition HUDDLE_HEARTBEAT_INTERVAL_MS :: int where "HUDDLE_HEARTBEAT_INTERVAL_MS = 10000"
definition ICE_REFRESH_BEFORE_MS :: int where "ICE_REFRESH_BEFORE_MS = 10 * 60000"

datatype track_kind = TAudio | TVideo video_kind

datatype device_kind = AudioInput | AudioOutput | VideoInput

datatype device_label = Labelled string | Numbered device_kind nat \<comment> \<open>\<open>`${fallback[kind]} ${i + 1}`\<close>\<close>

record media_device =
  md_id :: ident
  md_label :: device_label

record device_info =
  di_kind :: device_kind
  di_deviceId :: ident
  di_label :: string

datatype mic_problem = MicDenied | NoMic
datatype call_problem = CallFailed | CallFull | CallDisconnected | CallRemoved
datatype camera_problem = CameraDenied | NoCamera
datatype call_notice = CameraNotice camera_problem | ScreenDenied | ScreenShareFull

record preview =
  pv_roomId :: ident
  pv_micOn :: bool
  pv_mics :: "media_device list"
  pv_micId :: "ident option"
  pv_speakers :: "media_device list option"
  pv_speakerId :: "ident option"
  pv_problem :: "mic_problem option"
  pv_cameraOn :: bool
  pv_cameras :: "media_device list"
  pv_cameraId :: "ident option"
  pv_cameraProblem :: "camera_problem option"
  pv_video :: "nat option"

datatype call_connection = CallConnecting | CallConnected | CallReconnecting

record call_view =
  cv_roomId :: ident
  cv_huddleId :: "ident option"
  cv_participantId :: "ident option"
  cv_connection :: call_connection
  cv_muted :: bool
  cv_speaking :: "ident list"
  cv_mics :: "media_device list"
  cv_micId :: "ident option"
  cv_speakers :: "media_device list option"
  cv_speakerId :: "ident option"
  cv_camera :: bool
  cv_video :: "nat option"
  cv_cameras :: "media_device list"
  cv_cameraId :: "ident option"
  cv_sharing :: bool
  cv_screen :: "nat option"
  cv_canShareScreen :: bool
  cv_notice :: "call_notice option"
  cv_remoteVideos :: "((ident \<times> video_kind) \<times> nat) list"

datatype call_state = CallIdle | InPreview preview | InCall call_view | CallProblem ident call_problem

record remote =
  rm_ref :: nat \<comment> \<open>the object\<close>
  rm_userId :: ident
  rm_kind :: track_kind
  rm_mid :: string
  rm_quality :: "huddle_quality option"
  rm_sink :: "nat option" \<comment> \<open>the stream that is played and measured (\<open>sink\<close> and \<open>meter\<close> are made together)\<close>

record outgoing =
  og_stream :: nat
  og_transceiver :: "nat option"

record track_request =
  rq_userId :: ident
  rq_kind :: track_kind
  rq_quality :: "huddle_quality option"

datatype job =
    JPublish nat video_kind
  | JUnpublish video_kind "nat option" "(ident \<times> ident) option"
  | JSync nat "ident list"
  | JVideo nat "stage_track list"

datatype cont =
    KPreviewMic nat ident                 \<comment> \<open>\<open>openPreview\<close>: the microphone; generation and room\<close>
  | KPreviewDevices nat ident
  | KSelectMic ident
  | KReplaceMic ident nat                 \<comment> \<open>\<open>sender.replaceTrack\<close>; the new stream\<close>
  | KCamera nat                           \<comment> \<open>\<open>toggleCamera\<close>\<close>
  | KCameraDevices nat nat
  | KSelectCamera ident nat               \<comment> \<open>the object of \<open>outgoing\<close>\<close>
  | KReplaceCamera ident nat nat
  | KShare nat
  | KOffer nat video_kind nat "ident \<times> ident" \<comment> \<open>\<open>publish\<close>: \<open>createOffer\<close> and \<open>setLocalDescription\<close>\<close>
  | KPublish nat video_kind nat "ident \<times> ident" bool \<comment> \<open>the request; whether it is the second try\<close>
  | KPublishWait nat video_kind nat "ident \<times> ident"
  | KPublishRemote nat video_kind nat
  | KRollback video_kind nat failure
  | KUnpublish
  | KJoinIce nat ident bool bool          \<comment> \<open>\<open>join\<close>: generation, room, \<open>micOn\<close>, \<open>camera\<close>\<close>
  | KJoinOffer nat ident bool bool
  | KJoin nat ident bool bool
  | KJoinRemote nat ident bool bool "ident \<times> ident" "ident list"
  | KIceRefresh nat ident
  | KSyncRelease nat "ident \<times> ident" "track_request list"
  | KVideoRelease nat "ident \<times> ident" "(remote option \<times> stage_track) list" "track_request list"
  | KQuality nat "ident \<times> ident" nat huddle_quality "(remote option \<times> stage_track) list" "track_request list"
  | KSubscribe nat "ident \<times> ident" "track_request list" bool
  | KSubscribeWait nat "ident \<times> ident" "track_request list"
  | KAnswer "ident \<times> ident"              \<comment> \<open>\<open>setRemoteDescription\<close>, \<open>createAnswer\<close> and \<open>setLocalDescription\<close>\<close>
  | KRenegotiate "ident \<times> ident" bool
  | KRenegotiateWait "ident \<times> ident"
  | KBeat nat

record continuation =
  kt_id :: nat
  kt_chain :: "nat option" \<comment> \<open>the chain whose job it is\<close>
  kt_conn :: "(nat \<times> nat) option" \<comment> \<open>the peer connection whose operation it awaits\<close>
  kt_cont :: cont

datatype heartbeat_answer = HbOk | HbGone | HbUnsent

datatype answer =
    AOk
  | AErr failure
  | AGrant "ident option"         \<comment> \<open>a captured stream, with the device of its track\<close>
  | ARefuse string string         \<comment> \<open>a \<open>DOMException\<close>: its name and message\<close>
  | ADevices "device_info list"
  | AIce int                      \<comment> \<open>the ICE servers, with the time they expire\<close>
  | AJoined ident ident "ident list"
  | ASubscribed bool "(ident \<times> track_kind \<times> string) list" \<comment> \<open>whether there is an offer; the tracks\<close>
  | AHeartbeat heartbeat_answer

datatype call_output =
    OSetCallRoom "ident option"
  | OCapture device_kind "ident option"
  | OCaptureScreen
  | OStopTransceiver nat
  | OClose nat
  | OReplaceTrack nat
  | OPlay nat "ident option"
  | ODetach nat
  | OSetSpeaker nat ident
  | OIceServers ident
  | OJoin ident
  | OLeave "ident \<times> ident" bool \<comment> \<open>\<open>keepalive\<close>\<close>
  | OMuted "ident \<times> ident" bool
  | OPublish "ident \<times> ident" video_kind
  | OUnpublish "ident \<times> ident" video_kind
  | OSubscribe "ident \<times> ident" "track_request list"
  | OUnsubscribe "ident \<times> ident" "string list"
  | ORenegotiate "ident \<times> ident"
  | OQuality "ident \<times> ident" string ident huddle_quality
  | OHeartbeat "ident \<times> ident"

record huddle_call =
  hc_state :: call_state
  hc_stream :: "nat option"
  hc_pc :: "(nat \<times> nat) option"            \<comment> \<open>with the generation its handlers were given\<close>
  hc_sender :: bool
  hc_heartbeat :: "nat option"               \<comment> \<open>the generation the interval was given\<close>
  hc_iceTimer :: "(int \<times> ident \<times> nat) option" \<comment> \<open>when it is due, its room and generation\<close>
  hc_speaking :: bool                        \<comment> \<open>\<open>speakingTimer\<close> runs\<close>
  hc_meter :: "nat option"                   \<comment> \<open>the stream that \<open>localMeter\<close> measures\<close>
  remotes :: "(string \<times> remote) list"
  pendingTracks :: "(string \<times> nat) list"
  outs :: "nat \<Rightarrow> outgoing"
  outCamera :: "nat option"
  outScreen :: "nat option"
  chain :: nat
  jobs :: "(nat \<times> job) list"
  generation :: nat
  conts :: "continuation list"
  handles :: nat                             \<comment> \<open>the next handle\<close>
  live :: "nat list"
  mic_enabled :: "nat \<Rightarrow> bool"
  device_of :: "nat \<Rightarrow> ident option"
  pref_mic :: "ident option"
  pref_speaker :: "ident option"
  pref_camera :: "ident option"
  canDisplay :: bool
  canSelectSpeaker :: bool
  me :: ident
  call_out :: "call_output list"

definition createHuddleCall :: "ident \<Rightarrow> bool \<Rightarrow> bool \<Rightarrow> huddle_call" where
  "createHuddleCall userId display speaker = \<lparr>hc_state = CallIdle, hc_stream = None, hc_pc = None, hc_sender = False,
     hc_heartbeat = None, hc_iceTimer = None, hc_speaking = False, hc_meter = None, remotes = [],
     pendingTracks = [], outs = (\<lambda>_. \<lparr>og_stream = 0, og_transceiver = None\<rparr>), outCamera = None, outScreen = None,
     chain = 0, jobs = [], generation = 0, conts = [], handles = 1, live = [], mic_enabled = (\<lambda>_. False),
     device_of = (\<lambda>_. None), pref_mic = None, pref_speaker = None, pref_camera = None,
     canDisplay = display, canSelectSpeaker = speaker, me = userId, call_out = []\<rparr>"

section \<open>Small parts\<close>

definition outp :: "call_output \<Rightarrow> huddle_call \<Rightarrow> huddle_call" where
  "outp x s = s\<lparr>call_out := call_out s @ [x]\<rparr>"

definition await :: "nat option \<Rightarrow> (nat \<times> nat) option \<Rightarrow> cont \<Rightarrow> huddle_call \<Rightarrow> huddle_call" where
  "await ch conn k s =
     s\<lparr>conts := conts s @ [\<lparr>kt_id = handles s, kt_chain = ch, kt_conn = conn, kt_cont = k\<rparr>], handles := handles s + 1\<rparr>"

definition conn_of :: "huddle_call \<Rightarrow> nat option" where
  "conn_of s = map_option fst (hc_pc s)"

definition patchCall :: "(call_view \<Rightarrow> call_view) \<Rightarrow> huddle_call \<Rightarrow> huddle_call" where
  "patchCall f s = (case hc_state s of InCall v \<Rightarrow> s\<lparr>hc_state := InCall (f v)\<rparr> | _ \<Rightarrow> s)"

definition enqueueJob :: "job \<Rightarrow> huddle_call \<Rightarrow> huddle_call" where
  "enqueueJob j s = s\<lparr>jobs := jobs s @ [(chain s, j)]\<rparr>"

definition label_devices :: "device_kind \<Rightarrow> device_info list \<Rightarrow> media_device list" where
  "label_devices k ds =
     (let mine = filter (\<lambda>d. di_kind d = k) ds in
      map (\<lambda>(d, i). \<lparr>md_id = di_deviceId d,
             md_label = (if di_label d = [] then Numbered k (i + 1) else Labelled (di_label d))\<rparr>)
        (zip mine [0..<length mine]))"

definition devices :: "answer \<Rightarrow> device_info list" where
  \<comment> \<open>\<open>enumerateDevices().catch(() => [])\<close>\<close>
  "devices a = (case a of ADevices ds \<Rightarrow> ds | _ \<Rightarrow> [])"

definition speaker_list :: "huddle_call \<Rightarrow> device_info list \<Rightarrow> media_device list option" where
  "speaker_list s ds = (if canSelectSpeaker s then Some (label_devices AudioOutput ds) else None)"

definition js_uniq :: "'a list \<Rightarrow> 'a list" where
  \<comment> \<open>\<open>[...new Set(xs)]\<close>\<close>
  "js_uniq xs = rev (remdups (rev xs))"

definition first_id :: "media_device list \<Rightarrow> ident option" where
  "first_id ds = map_option md_id (at_first ds)"

definition or_else :: "'a option \<Rightarrow> 'a option \<Rightarrow> 'a option" where
  \<comment> \<open>\<open>??\<close>\<close>
  "or_else a b = (case a of None \<Rightarrow> b | Some x \<Rightarrow> Some x)"

definition stopTracks :: "nat \<Rightarrow> huddle_call \<Rightarrow> huddle_call" where
  "stopTracks x s = s\<lparr>live := filter (\<lambda>y. y \<noteq> x) (live s)\<rparr>"

definition stopStream :: "huddle_call \<Rightarrow> huddle_call" where
  "stopStream s = (case hc_stream s of None \<Rightarrow> s | Some x \<Rightarrow> (stopTracks x s)\<lparr>hc_stream := None\<rparr>)"

definition out_of :: "video_kind \<Rightarrow> huddle_call \<Rightarrow> nat option" where
  "out_of k s = (case k of VCamera \<Rightarrow> outCamera s | VScreen \<Rightarrow> outScreen s)"

definition setOut :: "video_kind \<Rightarrow> nat option \<Rightarrow> huddle_call \<Rightarrow> huddle_call" where
  "setOut k o' s = (case k of VCamera \<Rightarrow> s\<lparr>outCamera := o'\<rparr> | VScreen \<Rightarrow> s\<lparr>outScreen := o'\<rparr>)"

definition stopOutgoing :: "video_kind \<Rightarrow> huddle_call \<Rightarrow> huddle_call" where
  "stopOutgoing k s =
     (case out_of k s of None \<Rightarrow> s
      | Some o' \<Rightarrow>
          let s1 = stopTracks (og_stream (outs s o')) s;
              s2 = (case og_transceiver (outs s o') of None \<Rightarrow> s1 | Some t \<Rightarrow> outp (OStopTransceiver t) s1)
          in setOut k None s2)"

definition newOutgoing :: "video_kind \<Rightarrow> nat \<Rightarrow> huddle_call \<Rightarrow> huddle_call" where
  \<comment> \<open>\<open>outgoing[kind] = { stream }\<close>\<close>
  "newOutgoing k x s =
     setOut k (Some (handles s))
       (s\<lparr>outs := (outs s)(handles s := \<lparr>og_stream = x, og_transceiver = None\<rparr>), handles := handles s + 1\<rparr>)"

definition captured :: "ident option \<Rightarrow> huddle_call \<Rightarrow> nat \<times> huddle_call" where
  \<comment> \<open>a stream that the browser has granted\<close>
  "captured dev s =
     (handles s, s\<lparr>handles := handles s + 1, live := live s @ [handles s],
        mic_enabled := (mic_enabled s)(handles s := True), device_of := (device_of s)(handles s := dev)\<rparr>)"

definition active :: "huddle_call \<Rightarrow> bool" where
  \<comment> \<open>\<open>state.phase === "preview" || state.phase === "call"\<close>\<close>
  "active s = (case hc_state s of InPreview _ \<Rightarrow> True | InCall _ \<Rightarrow> True | _ \<Rightarrow> False)"

definition detachRemotes :: "huddle_call \<Rightarrow> call_output list" where
  "detachRemotes s =
     concat (map (\<lambda>(m, r). case rm_sink r of None \<Rightarrow> [] | Some x \<Rightarrow> [ODetach x]) (remotes s))"

definition stopVideo :: "video_kind \<Rightarrow> huddle_call \<Rightarrow> huddle_call" where
  \<comment> \<open>\<open>stopTracks(outgoing[kind]?.stream); delete outgoing[kind]\<close>\<close>
  "stopVideo k s =
     (case out_of k s of None \<Rightarrow> s | Some o' \<Rightarrow> setOut k None (stopTracks (og_stream (outs s o')) s))"

definition teardownCall :: "huddle_call \<Rightarrow> huddle_call" where
  "teardownCall s =
     (let s1 = (case hc_state s of InCall _ \<Rightarrow> outp (OSetCallRoom None) s | _ \<Rightarrow> s);
          s2 = s1\<lparr>hc_iceTimer := None, hc_heartbeat := None, hc_speaking := False, hc_meter := None,
                  call_out := call_out s1 @ detachRemotes s1, remotes := [], pendingTracks := []\<rparr>;
          s3 = stopVideo VScreen (stopVideo VCamera s2);
          s4 = (case hc_pc s3 of None \<Rightarrow> s3 | Some (c, g) \<Rightarrow> outp (OClose c) s3);
          s5 = stopStream (s4\<lparr>hc_pc := None, hc_sender := False\<rparr>)
      in s5\<lparr>chain := chain s5 + 1\<rparr>)"

definition ids_of :: "call_view \<Rightarrow> (ident \<times> ident) option" where
  \<comment> \<open>\<open>huddleId\<close> and \<open>participantId\<close>, when both are there\<close>
  "ids_of v = (case (cv_huddleId v, cv_participantId v) of (Some h, Some p) \<Rightarrow> Some (h, p) | _ \<Rightarrow> None)"

definition endCall :: "call_problem option \<Rightarrow> bool \<Rightarrow> bool \<Rightarrow> huddle_call \<Rightarrow> huddle_call" where
  "endCall problem leave keepalive s =
     (case hc_state s of
        InCall v \<Rightarrow>
          let s1 = teardownCall (s\<lparr>generation := generation s + 1\<rparr>);
              s2 = s1\<lparr>hc_state := (case problem of None \<Rightarrow> CallIdle | Some p \<Rightarrow> CallProblem (cv_roomId v) p)\<rparr>
          in (case ids_of v of Some hp \<Rightarrow> if leave then outp (OLeave hp keepalive) s2 else s2 | None \<Rightarrow> s2)
      | _ \<Rightarrow> s)"

section \<open>Publishing a camera or a screen\<close>

definition unpublish :: "video_kind \<Rightarrow> huddle_call \<Rightarrow> huddle_call" where
  "unpublish k s =
     (case hc_state s of
        InCall v \<Rightarrow>
          let s1 = patchCall (\<lambda>v. case k of VCamera \<Rightarrow> v\<lparr>cv_camera := False, cv_video := None\<rparr>
                                  | VScreen \<Rightarrow> v\<lparr>cv_sharing := False, cv_screen := None\<rparr>) s;
              s2 = (case out_of k s of None \<Rightarrow> s1 | Some o' \<Rightarrow> stopTracks (og_stream (outs s o')) s1)
          in enqueueJob (JUnpublish k (out_of k s) (ids_of v)) s2
      | _ \<Rightarrow> s)"

definition startPublish :: "nat option \<Rightarrow> nat \<Rightarrow> video_kind \<Rightarrow> huddle_call \<Rightarrow> huddle_call" where
  "startPublish ch gen k s =
     (case (hc_state s, hc_pc s, out_of k s) of
        (InCall v, Some (c, g), Some o') \<Rightarrow>
          (case ids_of v of
             Some hp \<Rightarrow>
               if gen \<noteq> generation s then s
               else await ch (Some (c, g)) (KOffer gen k o' hp)
                 (s\<lparr>outs := (outs s)(o' := (outs s o')\<lparr>og_transceiver := Some (handles s)\<rparr>), handles := handles s + 1\<rparr>)
           | None \<Rightarrow> s)
      | _ \<Rightarrow> s)"

definition api_type :: "failure \<Rightarrow> string option" where
  \<comment> \<open>\<open>err instanceof ApiError && err.type\<close>\<close>
  "api_type err = (case err of EApi e \<Rightarrow> ae_type e | _ \<Rightarrow> None)"

definition isConflict :: "failure \<Rightarrow> bool" where
  "isConflict err = (api_type err = Some ''huddle-negotiation-conflict'')"

definition publishUndone :: "video_kind \<Rightarrow> nat \<Rightarrow> failure \<Rightarrow> huddle_call \<Rightarrow> huddle_call" where
  \<comment> \<open>the end of the \<open>catch\<close> of \<open>publish\<close>\<close>
  "publishUndone k o' err s =
     patchCall (\<lambda>v. case k of VCamera \<Rightarrow> v\<lparr>cv_camera := False, cv_video := None\<rparr>
         | VScreen \<Rightarrow> v\<lparr>cv_sharing := False, cv_screen := None,
             cv_notice := (if api_type err = Some ''huddle-screen-share-full'' then Some ScreenShareFull else cv_notice v)\<rparr>)
       (if out_of k s = Some o' then stopOutgoing k s else s)"

definition publishFailed :: "nat option \<Rightarrow> nat \<Rightarrow> video_kind \<Rightarrow> nat \<Rightarrow> failure \<Rightarrow> huddle_call \<Rightarrow> huddle_call" where
  \<comment> \<open>the rollback, of an offer that may be there (one that is not needed settles at once)\<close>
  "publishFailed ch gen k o' err s =
     (if gen \<noteq> generation s then s else await ch (hc_pc s) (KRollback k o' err) s)"

definition publishAnswered ::
    "nat option \<Rightarrow> nat \<Rightarrow> video_kind \<Rightarrow> nat \<Rightarrow> ident \<times> ident \<Rightarrow> bool \<Rightarrow> answer \<Rightarrow> huddle_call \<Rightarrow> huddle_call" where
  \<comment> \<open>the answer of \<open>publishHuddleTrack\<close>, through \<open>withConflictRetry\<close>\<close>
  "publishAnswered ch gen k o' hp retried a s =
     (case a of
        AErr err \<Rightarrow>
          if \<not> retried \<and> isConflict err then await ch None (KPublishWait gen k o' hp) s
          else publishFailed ch gen k o' err s
      | _ \<Rightarrow> if gen \<noteq> generation s then s else await ch (hc_pc s) (KPublishRemote gen k o') s)"

definition startUnpublish :: "nat option \<Rightarrow> video_kind \<Rightarrow> nat option \<Rightarrow> (ident \<times> ident) option \<Rightarrow> huddle_call \<Rightarrow> huddle_call" where
  "startUnpublish ch k o' hp s =
     (let s1 = (if o' \<noteq> None \<and> out_of k s = o' then stopOutgoing k s else s)
      in case hp of None \<Rightarrow> s1 | Some x \<Rightarrow> await ch None KUnpublish (outp (OUnpublish x k) s1))"

section \<open>Before the call\<close>

definition openPreview :: "ident \<Rightarrow> huddle_call \<Rightarrow> huddle_call" where
  "openPreview roomId s =
     (case hc_state s of
        InCall _ \<Rightarrow> s
      | _ \<Rightarrow>
          let s1 = stopOutgoing VCamera (stopStream (s\<lparr>generation := generation s + 1\<rparr>));
              s2 = s1\<lparr>hc_state := InPreview \<lparr>pv_roomId = roomId, pv_micOn = True, pv_mics = [], pv_micId = None,
                pv_speakers = None, pv_speakerId = pref_speaker s, pv_problem = None, pv_cameraOn = False,
                pv_cameras = [], pv_cameraId = None, pv_cameraProblem = None, pv_video = None\<rparr>\<rparr>
          in await None None (KPreviewMic (generation s2) roomId) (outp (OCapture AudioInput (pref_mic s2)) s2))"

definition previewMic :: "nat \<Rightarrow> ident \<Rightarrow> answer \<Rightarrow> huddle_call \<Rightarrow> huddle_call" where
  "previewMic gen roomId a s =
     (case a of
        AGrant dev \<Rightarrow>
          let (x, s1) = captured dev s; s2 = s1\<lparr>hc_stream := Some x\<rparr>
          in if gen \<noteq> generation s then stopStream s2 else await None None (KPreviewDevices gen roomId) s2
      | _ \<Rightarrow>
          if gen \<noteq> generation s then s
          else s\<lparr>hc_state := InPreview \<lparr>pv_roomId = roomId, pv_micOn = False, pv_mics = [], pv_micId = None,
              pv_speakers = None, pv_speakerId = None,
              pv_problem = Some (case a of ARefuse name _ \<Rightarrow> if name = ''NotFoundError'' then NoMic else MicDenied | _ \<Rightarrow> MicDenied),
              pv_cameraOn = False, pv_cameras = [], pv_cameraId = None, pv_cameraProblem = None, pv_video = None\<rparr>\<rparr>)"

definition previewDevices :: "nat \<Rightarrow> ident \<Rightarrow> answer \<Rightarrow> huddle_call \<Rightarrow> huddle_call" where
  "previewDevices gen roomId a s =
     (if gen \<noteq> generation s then s else
      case hc_stream s of None \<Rightarrow> s \<comment> \<open>\<open>stream.getAudioTracks()\<close> throws\<close>
      | Some x \<Rightarrow>
      let ds = devices a; mics = label_devices AudioInput ds; cams = label_devices VideoInput ds;
          spk = speaker_list s ds
      in s\<lparr>hc_state := InPreview \<lparr>pv_roomId = roomId, pv_micOn = True, pv_mics = mics,
           pv_micId = or_else (device_of s x) (first_id mics),
           pv_speakers = spk,
           pv_speakerId = or_else (pref_speaker s) (case spk of None \<Rightarrow> None | Some l \<Rightarrow> first_id l),
           pv_problem = None, pv_cameraOn = False, pv_cameras = cams,
           pv_cameraId = or_else (pref_camera s) (first_id cams), pv_cameraProblem = None, pv_video = None\<rparr>\<rparr>)"

definition cancelPreview :: "huddle_call \<Rightarrow> huddle_call" where
  "cancelPreview s =
     (case hc_state s of
        InPreview _ \<Rightarrow>
          (stopOutgoing VCamera (stopStream (s\<lparr>generation := generation s + 1\<rparr>)))\<lparr>hc_state := CallIdle\<rparr>
      | _ \<Rightarrow> s)"

section \<open>Microphone and speaker\<close>

definition enableMic :: "bool \<Rightarrow> huddle_call \<Rightarrow> huddle_call" where
  "enableMic on s = (case hc_stream s of None \<Rightarrow> s | Some x \<Rightarrow> s\<lparr>mic_enabled := (mic_enabled s)(x := on)\<rparr>)"

definition setMuted :: "bool \<Rightarrow> huddle_call \<Rightarrow> huddle_call" where
  "setMuted m s =
     (case hc_state s of
        InCall v \<Rightarrow>
          let s1 = patchCall (\<lambda>v. v\<lparr>cv_muted := m\<rparr>) (enableMic (\<not> m) s)
          in (case ids_of v of None \<Rightarrow> s1 | Some hp \<Rightarrow> outp (OMuted hp m) s1)
      | _ \<Rightarrow> s)"

definition toggleMic :: "huddle_call \<Rightarrow> huddle_call" where
  "toggleMic s =
     (case hc_state s of
        InPreview p \<Rightarrow>
          if pv_problem p \<noteq> None then s
          else (enableMic (\<not> pv_micOn p) s)\<lparr>hc_state := InPreview (p\<lparr>pv_micOn := \<not> pv_micOn p\<rparr>)\<rparr>
      | InCall v \<Rightarrow> setMuted (\<not> cv_muted v) s
      | _ \<Rightarrow> s)"

definition selectMic :: "ident \<Rightarrow> huddle_call \<Rightarrow> huddle_call" where
  "selectMic i s =
     (if \<not> active s then s
      else await None None (KSelectMic i) (outp (OCapture AudioInput (Some i)) (s\<lparr>pref_mic := Some i\<rparr>)))"

definition micReplaced :: "ident \<Rightarrow> nat \<Rightarrow> huddle_call \<Rightarrow> huddle_call" where
  \<comment> \<open>the rest of \<open>selectMic\<close>; \<open>set({ ...state, micId })\<close> shows in a preview and a call only\<close>
  "micReplaced i x s =
     (let s1 = (stopStream s)\<lparr>hc_stream := Some x\<rparr> in
      case hc_state s of
        InPreview p \<Rightarrow> s1\<lparr>hc_meter := None, hc_state := InPreview (p\<lparr>pv_micId := Some i\<rparr>)\<rparr>
      | InCall v \<Rightarrow> s1\<lparr>hc_meter := Some x, hc_state := InCall (v\<lparr>cv_micId := Some i\<rparr>)\<rparr>
      | _ \<Rightarrow> s1\<lparr>hc_meter := None\<rparr>)"

definition micGranted :: "ident \<Rightarrow> answer \<Rightarrow> huddle_call \<Rightarrow> huddle_call" where
  "micGranted i a s =
     (case a of
        AGrant dev \<Rightarrow>
          let (x, s1) = captured dev s in
          if \<not> active s then s1
          else
            let on = (case hc_state s of InPreview p \<Rightarrow> pv_micOn p | InCall v \<Rightarrow> \<not> cv_muted v | _ \<Rightarrow> True);
                s2 = s1\<lparr>mic_enabled := (mic_enabled s1)(x := on)\<rparr>
            in if hc_sender s then await None (hc_pc s) (KReplaceMic i x) (outp (OReplaceTrack x) s2)
               else micReplaced i x s2
      | _ \<Rightarrow> s)"

definition setSpeakers :: "ident \<Rightarrow> huddle_call \<Rightarrow> call_output list" where
  "setSpeakers i s =
     concat (map (\<lambda>(m, r). case rm_sink r of None \<Rightarrow> [] | Some x \<Rightarrow> [OSetSpeaker x i]) (remotes s))"

definition selectSpeaker :: "ident \<Rightarrow> huddle_call \<Rightarrow> huddle_call" where
  "selectSpeaker i s =
     (if \<not> active s then s
      else s\<lparr>pref_speaker := Some i, call_out := call_out s @ setSpeakers i s,
         hc_state := (case hc_state s of InPreview p \<Rightarrow> InPreview (p\<lparr>pv_speakerId := Some i\<rparr>)
           | InCall v \<Rightarrow> InCall (v\<lparr>cv_speakerId := Some i\<rparr>) | x \<Rightarrow> x)\<rparr>)"

section \<open>Camera\<close>

definition cameraOn :: "huddle_call \<Rightarrow> bool" where
  "cameraOn s = (case hc_state s of InPreview p \<Rightarrow> pv_cameraOn p | InCall v \<Rightarrow> cv_camera v | _ \<Rightarrow> False)"

definition cameraId :: "huddle_call \<Rightarrow> ident option" where
  "cameraId s = (case hc_state s of InPreview p \<Rightarrow> pv_cameraId p | InCall v \<Rightarrow> cv_cameraId v | _ \<Rightarrow> None)"

definition toggleCamera :: "huddle_call \<Rightarrow> huddle_call" where
  "toggleCamera s =
     (if \<not> active s then s
      else if cameraOn s then
        (case hc_state s of
           InPreview p \<Rightarrow> (stopOutgoing VCamera s)\<lparr>hc_state := InPreview (p\<lparr>pv_cameraOn := False, pv_video := None\<rparr>)\<rparr>
         | _ \<Rightarrow> unpublish VCamera s)
      else await None None (KCamera (generation s)) (outp (OCapture VideoInput (cameraId s)) s))"

definition openCamera_problem :: "answer \<Rightarrow> camera_problem" where
  "openCamera_problem a =
     (case a of ARefuse name _ \<Rightarrow> if name = ''NotFoundError'' \<or> name = ''OverconstrainedError'' then NoCamera else CameraDenied
      | _ \<Rightarrow> CameraDenied)"

definition cameraGranted :: "nat \<Rightarrow> answer \<Rightarrow> huddle_call \<Rightarrow> huddle_call" where
  "cameraGranted gen a s =
     (case a of
        AGrant dev \<Rightarrow>
          let (x, s1) = captured dev s in
          if gen \<noteq> generation s \<or> \<not> active s then stopTracks x s1
          else await None None (KCameraDevices gen x) (newOutgoing VCamera x (stopOutgoing VCamera s1))
      | _ \<Rightarrow>
          if gen \<noteq> generation s then s
          else (case hc_state s of
              InPreview p \<Rightarrow> s\<lparr>hc_state := InPreview (p\<lparr>pv_cameraOn := False, pv_cameraProblem := Some (openCamera_problem a)\<rparr>)\<rparr>
            | _ \<Rightarrow> patchCall (\<lambda>v. v\<lparr>cv_notice := Some (CameraNotice (openCamera_problem a))\<rparr>) s))"

definition publish :: "nat \<Rightarrow> video_kind \<Rightarrow> huddle_call \<Rightarrow> huddle_call" where
  "publish gen k s = enqueueJob (JPublish gen k) s"

definition cameraShown :: "nat \<Rightarrow> nat \<Rightarrow> answer \<Rightarrow> huddle_call \<Rightarrow> huddle_call" where
  "cameraShown gen x a s =
     (if gen \<noteq> generation s \<or> (case outCamera s of None \<Rightarrow> True | Some o' \<Rightarrow> og_stream (outs s o') \<noteq> x) then s
      else
        let cams = label_devices VideoInput (devices a); cam = or_else (device_of s x) (cameraId s) in
        case hc_state s of
          InPreview p \<Rightarrow> s\<lparr>hc_state := InPreview (p\<lparr>pv_cameraOn := True, pv_video := Some x, pv_cameras := cams,
            pv_cameraId := cam, pv_cameraProblem := None\<rparr>)\<rparr>
        | _ \<Rightarrow> publish gen VCamera (patchCall (\<lambda>v. v\<lparr>cv_camera := True, cv_video := Some x, cv_cameras := cams,
            cv_cameraId := cam,
            cv_notice := (case cv_notice v of Some (CameraNotice _) \<Rightarrow> None | n \<Rightarrow> n)\<rparr>) s))"

definition setCamera :: "(ident option \<Rightarrow> nat option option \<Rightarrow> call_state \<Rightarrow> call_state)" where
  \<comment> \<open>\<open>set({ ...state, cameraId, video })\<close>, the latter when given\<close>
  "setCamera i vid st =
     (case st of
        InPreview p \<Rightarrow> InPreview (p\<lparr>pv_cameraId := i, pv_video := (case vid of None \<Rightarrow> pv_video p | Some v \<Rightarrow> v)\<rparr>)
      | InCall c \<Rightarrow> InCall (c\<lparr>cv_cameraId := i, cv_video := (case vid of None \<Rightarrow> cv_video c | Some v \<Rightarrow> v)\<rparr>)
      | x \<Rightarrow> x)"

definition selectCamera :: "ident \<Rightarrow> huddle_call \<Rightarrow> huddle_call" where
  "selectCamera i s =
     (if \<not> active s then s
      else
        let s1 = s\<lparr>pref_camera := Some i\<rparr> in
        case outCamera s of
          None \<Rightarrow> s1\<lparr>hc_state := setCamera (Some i) None (hc_state s)\<rparr>
        | Some o' \<Rightarrow> await None None (KSelectCamera i o') (outp (OCapture VideoInput (Some i)) s1))"

definition cameraReplaced :: "ident \<Rightarrow> nat \<Rightarrow> nat \<Rightarrow> huddle_call \<Rightarrow> huddle_call" where
  "cameraReplaced i o' x s =
     (let s1 = stopTracks (og_stream (outs s o')) s
      in s1\<lparr>outs := (outs s1)(o' := (outs s1 o')\<lparr>og_stream := x\<rparr>),
            hc_state := setCamera (Some i) (Some (Some x)) (hc_state s1)\<rparr>)"

definition cameraSelected :: "ident \<Rightarrow> nat \<Rightarrow> answer \<Rightarrow> huddle_call \<Rightarrow> huddle_call" where
  "cameraSelected i o' a s =
     (case a of
        AGrant dev \<Rightarrow>
          let (x, s1) = captured dev s in
          if outCamera s \<noteq> Some o' \<or> \<not> active s then stopTracks x s1
          else if og_transceiver (outs s o') \<noteq> None
          then await None (hc_pc s) (KReplaceCamera i o' x) (outp (OReplaceTrack x) s1)
          else cameraReplaced i o' x s1
      | _ \<Rightarrow> s)"

section \<open>Screen\<close>

definition toggleShare :: "huddle_call \<Rightarrow> huddle_call" where
  "toggleShare s =
     (case hc_state s of
        InCall v \<Rightarrow>
          if cv_sharing v then unpublish VScreen s
          else if \<not> canDisplay s then s
          else await None None (KShare (generation s)) (outp OCaptureScreen s)
      | _ \<Rightarrow> s)"

definition lower_char :: "char \<Rightarrow> char" where
  "lower_char c = (let n = of_char c :: nat in if 65 \<le> n \<and> n \<le> 90 then char_of (n + 32) else c)"

definition mentions_system :: "string \<Rightarrow> bool" where
  \<comment> \<open>\<open>/system/i.test(err.message)\<close>\<close>
  "mentions_system m = list_ex (\<lambda>i. map lower_char (take 6 (drop i m)) = ''system'') [0..<length m]"

definition screenGranted :: "nat \<Rightarrow> answer \<Rightarrow> huddle_call \<Rightarrow> huddle_call" where
  "screenGranted gen a s =
     (case a of
        AGrant dev \<Rightarrow>
          let (x, s1) = captured dev s in
          (case hc_state s of
             InCall v \<Rightarrow>
               if gen \<noteq> generation s \<or> cv_sharing v then stopTracks x s1
               else publish gen VScreen (patchCall (\<lambda>v. v\<lparr>cv_sharing := True, cv_screen := Some x,
                 cv_notice := (if cv_notice v = Some ScreenDenied then None else cv_notice v)\<rparr>) (newOutgoing VScreen x s1))
           | _ \<Rightarrow> stopTracks x s1)
      | ARefuse name message \<Rightarrow>
          if gen \<noteq> generation s then s
          else if name = ''NotAllowedError'' \<and> mentions_system message
          then patchCall (\<lambda>v. v\<lparr>cv_notice := Some ScreenDenied\<rparr>) s
          else s
      | _ \<Rightarrow> s)"

definition screenEnded :: "nat \<Rightarrow> huddle_call \<Rightarrow> huddle_call" where
  \<comment> \<open>the track of the shared screen has ended; the browser's \<open>ended\<close> handler\<close>
  "screenEnded x s =
     (let s1 = stopTracks x s in
      case outScreen s of
        Some o' \<Rightarrow> if og_stream (outs s o') = x then unpublish VScreen s1 else s1
      | None \<Rightarrow> s1)"

definition dismissNotice :: "huddle_call \<Rightarrow> huddle_call" where
  "dismissNotice s = patchCall (\<lambda>v. v\<lparr>cv_notice := None\<rparr>) s"

section \<open>Joining\<close>

definition join :: "huddle_call \<Rightarrow> huddle_call" where
  "join s =
     (case hc_state s of
        InPreview p \<Rightarrow>
          if pv_problem p \<noteq> None \<or> hc_stream s = None then s
          else
            let camera = (pv_cameraOn p \<and> outCamera s \<noteq> None);
                s1 = s\<lparr>generation := generation s + 1,
                  hc_state := InCall \<lparr>cv_roomId = pv_roomId p, cv_huddleId = None, cv_participantId = None,
                    cv_connection = CallConnecting, cv_muted = (\<not> pv_micOn p), cv_speaking = [],
                    cv_mics = pv_mics p, cv_micId = pv_micId p, cv_speakers = pv_speakers p,
                    cv_speakerId = pv_speakerId p, cv_camera = camera,
                    cv_video = (if camera then map_option (\<lambda>o'. og_stream (outs s o')) (outCamera s) else None),
                    cv_cameras = pv_cameras p, cv_cameraId = pv_cameraId p, cv_sharing = False,
                    cv_screen = None, cv_canShareScreen = canDisplay s, cv_notice = None, cv_remoteVideos = []\<rparr>\<rparr>
            in await None None (KJoinIce (generation s1) (pv_roomId p) (pv_micOn p) camera)
                 (outp (OIceServers (pv_roomId p)) (outp (OSetCallRoom (Some (pv_roomId p))) s1))
      | _ \<Rightarrow> s)"

definition joinFailed :: "nat \<Rightarrow> ident \<Rightarrow> failure \<Rightarrow> huddle_call \<Rightarrow> huddle_call" where
  "joinFailed gen roomId err s =
     (if gen \<noteq> generation s then s
      else (teardownCall s)\<lparr>hc_state := CallProblem roomId
             (if api_type err = Some ''huddle-full'' then CallFull else CallFailed)\<rparr>)"

definition failure_of :: "answer \<Rightarrow> failure" where
  "failure_of a = (case a of AErr e \<Rightarrow> e | _ \<Rightarrow> EOther)"

definition scheduleIceRefresh :: "ident \<Rightarrow> int \<Rightarrow> nat \<Rightarrow> int \<Rightarrow> huddle_call \<Rightarrow> huddle_call" where
  "scheduleIceRefresh roomId expiresAt gen now_ms s =
     s\<lparr>hc_iceTimer := Some (now_ms + max (expiresAt - now_ms - ICE_REFRESH_BEFORE_MS) 60000, roomId, gen)\<rparr>"

definition iceKnown :: "nat \<Rightarrow> ident \<Rightarrow> bool \<Rightarrow> bool \<Rightarrow> answer \<Rightarrow> int \<Rightarrow> huddle_call \<Rightarrow> huddle_call" where
  "iceKnown gen roomId micOn camera a now_ms s =
     (case a of
        AIce expiresAt \<Rightarrow>
          if gen \<noteq> generation s then s
          else
            let c = handles s;
                s1 = scheduleIceRefresh roomId expiresAt gen now_ms
                       (s\<lparr>handles := c + 1, hc_pc := Some (c, gen), hc_sender := True\<rparr>)
            in (case hc_stream s of
                  None \<Rightarrow> joinFailed gen roomId EOther s1 \<comment> \<open>\<open>stream.getAudioTracks()\<close> throws; the teardown unsets the sender\<close>
                | Some x \<Rightarrow> await None (Some (c, gen)) (KJoinOffer gen roomId micOn camera) s1)
      | _ \<Rightarrow> joinFailed gen roomId (failure_of a) s)"

definition offerMade :: "nat \<Rightarrow> ident \<Rightarrow> bool \<Rightarrow> bool \<Rightarrow> answer \<Rightarrow> huddle_call \<Rightarrow> huddle_call" where
  \<comment> \<open>\<open>createOffer\<close>, \<open>setLocalDescription\<close> and \<open>iceGathered\<close>\<close>
  "offerMade gen roomId micOn camera a s =
     (case a of
        AErr e \<Rightarrow> joinFailed gen roomId e s
      | _ \<Rightarrow> if gen \<noteq> generation s then s
              else await None None (KJoin gen roomId micOn camera) (outp (OJoin roomId) s))"

definition joined :: "nat \<Rightarrow> ident \<Rightarrow> bool \<Rightarrow> bool \<Rightarrow> answer \<Rightarrow> huddle_call \<Rightarrow> huddle_call" where
  "joined gen roomId micOn camera a s =
     (case a of
        AJoined h p parts \<Rightarrow>
          if gen \<noteq> generation s then outp (OLeave (h, p) False) s
          else await None (hc_pc s) (KJoinRemote gen roomId micOn camera (h, p) parts) s
      | _ \<Rightarrow> joinFailed gen roomId (failure_of a) s)"

definition sync :: "ident list \<Rightarrow> huddle_call \<Rightarrow> huddle_call" where
  "sync participantIds s = enqueueJob (JSync (generation s) participantIds) s"

definition joinConnected ::
    "nat \<Rightarrow> ident \<Rightarrow> bool \<Rightarrow> bool \<Rightarrow> ident \<times> ident \<Rightarrow> ident list \<Rightarrow> answer \<Rightarrow> huddle_call \<Rightarrow> huddle_call" where
  \<comment> \<open>after \<open>setRemoteDescription\<close>: there is no look at the generation here\<close>
  "joinConnected gen roomId micOn camera hp parts a s =
     (case a of
        AErr e \<Rightarrow> joinFailed gen roomId e s
      | _ \<Rightarrow>
          let s1 = patchCall (\<lambda>v. v\<lparr>cv_huddleId := Some (fst hp), cv_participantId := Some (snd hp)\<rparr>) s;
              s2 = (if micOn then s1 else outp (OMuted hp True) s1)
          in (case hc_stream s2 of
                None \<Rightarrow> joinFailed gen roomId EOther s2
              | Some x \<Rightarrow>
                  let s3 = s2\<lparr>hc_meter := Some x, hc_heartbeat := Some gen, hc_speaking := True\<rparr>
                  in sync parts (if camera then publish gen VCamera s3 else s3)))"

section \<open>The connection\<close>

definition fireIceTimer :: "int \<Rightarrow> huddle_call \<Rightarrow> huddle_call" where
  "fireIceTimer now_ms s =
     (case hc_iceTimer s of
        Some (due, roomId, gen) \<Rightarrow>
          if due \<le> now_ms
          then await None None (KIceRefresh gen roomId) (outp (OIceServers roomId) (s\<lparr>hc_iceTimer := None\<rparr>))
          else s
      | None \<Rightarrow> s)"

definition iceRefreshed :: "nat \<Rightarrow> ident \<Rightarrow> answer \<Rightarrow> int \<Rightarrow> huddle_call \<Rightarrow> huddle_call" where
  "iceRefreshed gen roomId a now_ms s =
     (if gen \<noteq> generation s \<or> hc_pc s = None then s
      else scheduleIceRefresh roomId
             (case a of AIce expiresAt \<Rightarrow> expiresAt | _ \<Rightarrow> now_ms + ICE_REFRESH_BEFORE_MS + 60000) gen now_ms s)"

datatype connection_change = BecameConnected | BecameDisconnected | BecameFailed

definition connectionChanged :: "nat \<Rightarrow> connection_change \<Rightarrow> huddle_call \<Rightarrow> huddle_call" where
  \<comment> \<open>\<open>onconnectionstatechange\<close> of a connection that is open; a closed one has no more events\<close>
  "connectionChanged c change s =
     (case hc_pc s of
        Some (c', gen) \<Rightarrow>
          if c' \<noteq> c \<or> gen \<noteq> generation s then s
          else (case change of
              BecameConnected \<Rightarrow> patchCall (\<lambda>v. v\<lparr>cv_connection := CallConnected\<rparr>) s
            | BecameDisconnected \<Rightarrow> patchCall (\<lambda>v. v\<lparr>cv_connection := CallReconnecting\<rparr>) s
            | BecameFailed \<Rightarrow> endCall (Some CallFailed) True False s)
      | None \<Rightarrow> s)"

section \<open>Receiving\<close>

definition put_first :: "'k \<Rightarrow> 'v \<Rightarrow> ('k \<times> 'v) list \<Rightarrow> ('k \<times> 'v) list" where
  \<comment> \<open>\<open>Map.set\<close>: a key keeps its place\<close>
  "put_first k v m = (if k \<in> fst ` set m then map (\<lambda>(k', v'). if k' = k then (k, v) else (k', v')) m else m @ [(k, v)])"

definition attach :: "string \<Rightarrow> nat \<Rightarrow> huddle_call \<Rightarrow> huddle_call" where
  \<comment> \<open>to the remote of this mid\<close>
  "attach m x s =
     (case map_of (remotes s) m of
        None \<Rightarrow> s
      | Some r \<Rightarrow>
          (case rm_kind r of
             TVideo k \<Rightarrow> patchCall (\<lambda>v. v\<lparr>cv_remoteVideos := put_first (rm_userId r, k) x (cv_remoteVideos v)\<rparr>) s
           | TAudio \<Rightarrow>
               if rm_sink r \<noteq> None then s
               else outp (OPlay x (case hc_state s of InCall v \<Rightarrow> cv_speakerId v | _ \<Rightarrow> None))
                 (s\<lparr>remotes := put_first m (r\<lparr>rm_sink := Some x\<rparr>) (remotes s)\<rparr>)))"

definition trackArrived :: "nat \<Rightarrow> string \<Rightarrow> nat \<Rightarrow> huddle_call \<Rightarrow> huddle_call" where
  \<comment> \<open>\<open>ontrack\<close>\<close>
  "trackArrived c m x s =
     (if conn_of s \<noteq> Some c \<or> m = [] then s
      else if map_of (remotes s) m \<noteq> None then attach m x s
      else s\<lparr>pendingTracks := put_first m x (pendingTracks s)\<rparr>)"

definition video_key :: "remote \<Rightarrow> (ident \<times> video_kind) option" where
  "video_key r = (case rm_kind r of TAudio \<Rightarrow> None | TVideo k \<Rightarrow> Some (rm_userId r, k))"

definition release :: "nat option \<Rightarrow> ident \<times> ident \<Rightarrow> remote list \<Rightarrow> cont \<Rightarrow> huddle_call \<Rightarrow> huddle_call" where
  \<comment> \<open>of one remote at least; what comes after its \<open>await\<close>\<close>
  "release ch hp gone k s =
     (let detached = concat (map (\<lambda>r. case rm_sink r of None \<Rightarrow> [] | Some x \<Rightarrow> [ODetach x]) gone);
          s1 = s\<lparr>call_out := call_out s @ detached,
                 remotes := filter (\<lambda>(m, r). m \<notin> rm_mid ` set gone) (remotes s)\<rparr>;
          s2 = patchCall (\<lambda>v. v\<lparr>cv_remoteVideos := filter (\<lambda>(key, x). Some key \<notin> video_key ` set gone) (cv_remoteVideos v)\<rparr>) s1
      in await ch None k (outp (OUnsubscribe hp (map rm_mid gone)) s2))"

definition receive :: "nat option \<Rightarrow> nat \<Rightarrow> ident \<times> ident \<Rightarrow> track_request list \<Rightarrow> huddle_call \<Rightarrow> huddle_call" where
  "receive ch gen hp reqs s =
     (if reqs = [] \<or> hc_pc s = None then s
      else await ch None (KSubscribe gen hp reqs False) (outp (OSubscribe hp reqs) s))"

definition addRemote :: "track_request list \<Rightarrow> ident \<times> track_kind \<times> string \<Rightarrow> huddle_call \<Rightarrow> huddle_call" where
  \<comment> \<open>one turn of the loop over the tracks\<close>
  "addRemote reqs t s =
     (case t of (u, k, m) \<Rightarrow>
        let q = (case List.find (\<lambda>r. rq_userId r = u \<and> rq_kind r = k) reqs of None \<Rightarrow> None | Some r \<Rightarrow> rq_quality r);
            r = \<lparr>rm_ref = handles s, rm_userId = u, rm_kind = k, rm_mid = m, rm_quality = q, rm_sink = None\<rparr>;
            s1 = s\<lparr>handles := handles s + 1, remotes := put_first m r (remotes s)\<rparr>
        in (case map_of (pendingTracks s) m of
              None \<Rightarrow> s1
            | Some x \<Rightarrow> attach m x (s1\<lparr>pendingTracks := filter (\<lambda>(m', y). m' \<noteq> m) (pendingTracks s)\<rparr>)))"

definition subscribed ::
    "nat option \<Rightarrow> nat \<Rightarrow> ident \<times> ident \<Rightarrow> track_request list \<Rightarrow> bool \<Rightarrow> answer \<Rightarrow> huddle_call \<Rightarrow> huddle_call" where
  \<comment> \<open>the answer of \<open>subscribeHuddle\<close>; an exception ends the job\<close>
  "subscribed ch gen hp reqs retried a s =
     (case a of
        ASubscribed offer tracks \<Rightarrow>
          if gen \<noteq> generation s \<or> hc_pc s = None then s
          else
            let s1 = fold (addRemote reqs) tracks s
            in if offer then await ch (hc_pc s1) (KAnswer hp) s1 else s1
      | AErr err \<Rightarrow> if \<not> retried \<and> isConflict err then await ch None (KSubscribeWait gen hp reqs) s else s
      | _ \<Rightarrow> s)"

definition answerMade :: "nat option \<Rightarrow> ident \<times> ident \<Rightarrow> answer \<Rightarrow> huddle_call \<Rightarrow> huddle_call" where
  "answerMade ch hp a s =
     (case a of AErr e \<Rightarrow> s | _ \<Rightarrow> await ch None (KRenegotiate hp False) (outp (ORenegotiate hp) s))"

definition renegotiated :: "nat option \<Rightarrow> ident \<times> ident \<Rightarrow> bool \<Rightarrow> answer \<Rightarrow> huddle_call \<Rightarrow> huddle_call" where
  "renegotiated ch hp retried a s =
     (case a of AErr err \<Rightarrow> if \<not> retried \<and> isConflict err then await ch None (KRenegotiateWait hp) s else s | _ \<Rightarrow> s)"

definition audio_remotes :: "huddle_call \<Rightarrow> remote list" where
  "audio_remotes s = filter (\<lambda>r. rm_kind r = TAudio) (map snd (remotes s))"

definition startSync :: "nat option \<Rightarrow> nat \<Rightarrow> ident list \<Rightarrow> huddle_call \<Rightarrow> huddle_call" where
  "startSync ch gen participantIds s =
     (case hc_state s of
        InCall v \<Rightarrow>
          (case ids_of v of
             Some hp \<Rightarrow>
               if gen \<noteq> generation s \<or> hc_pc s = None then s
               else
                 let others = js_uniq (filter (\<lambda>i. i \<noteq> me s) participantIds);
                     gone = filter (\<lambda>r. rm_userId r \<notin> set others) (audio_remotes s);
                     added = filter (\<lambda>i. i \<notin> rm_userId ` set (audio_remotes s)) others;
                     reqs = map (\<lambda>i. \<lparr>rq_userId = i, rq_kind = TAudio, rq_quality = None\<rparr>) added
                 in if gone = [] then receive ch gen hp reqs s
                    else release ch hp gone (KSyncRelease gen hp reqs) s
           | None \<Rightarrow> s)
      | _ \<Rightarrow> s)"

section \<open>The videos of the stage\<close>

fun qualities ::
    "nat option \<Rightarrow> nat \<Rightarrow> ident \<times> ident \<Rightarrow> (remote option \<times> stage_track) list \<Rightarrow> track_request list \<Rightarrow> huddle_call \<Rightarrow> huddle_call" where
  \<comment> \<open>the loop over the wanted tracks, and \<open>receive\<close> after it\<close>
  "qualities ch gen hp [] reqs s = receive ch gen hp reqs s"
| "qualities ch gen hp ((r, t) # rest) reqs s =
     (case (r, tk_quality t) of
        (Some r', Some q) \<Rightarrow>
          if tk_kind t \<noteq> VCamera \<or> rm_quality r' = Some q then qualities ch gen hp rest reqs s
          else await ch None (KQuality gen hp (rm_ref r') q rest reqs) (outp (OQuality hp (rm_mid r') (tk_userId t) q) s)
      | _ \<Rightarrow> qualities ch gen hp rest reqs s)"

definition wanted_tracks :: "stage_track list \<Rightarrow> ((ident \<times> video_kind) \<times> stage_track) list" where
  \<comment> \<open>\<open>new Map(tracks.map((t) => [videoKey(t.userId, t.kind), t]))\<close>\<close>
  "wanted_tracks ts = fold (\<lambda>t m. put_first (tk_userId t, tk_kind t) t m) ts []"

definition current_videos :: "huddle_call \<Rightarrow> ((ident \<times> video_kind) \<times> remote) list" where
  "current_videos s =
     fold (\<lambda>r m. case video_key r of None \<Rightarrow> m | Some key \<Rightarrow> put_first key r m) (map snd (remotes s)) []"

definition startVideo :: "nat option \<Rightarrow> nat \<Rightarrow> stage_track list \<Rightarrow> huddle_call \<Rightarrow> huddle_call" where
  "startVideo ch gen tracks s =
     (case hc_state s of
        InCall v \<Rightarrow>
          (case ids_of v of
             Some hp \<Rightarrow>
               if gen \<noteq> generation s \<or> hc_pc s = None then s
               else
                 let current = current_videos s; wanted = wanted_tracks tracks;
                     gone = map snd (filter (\<lambda>(key, r). key \<notin> fst ` set wanted) current);
                     pairs = map (\<lambda>(key, t). (map_of current key, t)) wanted;
                     added = filter (\<lambda>(key, t). key \<notin> fst ` set current) wanted;
                     reqs = map (\<lambda>(key, t). \<lparr>rq_userId = tk_userId t, rq_kind = TVideo (tk_kind t), rq_quality = tk_quality t\<rparr>) added
                 in if gone = [] then qualities ch gen hp pairs reqs s
                    else release ch hp gone (KVideoRelease gen hp pairs reqs) s
           | None \<Rightarrow> s)
      | _ \<Rightarrow> s)"

definition qualitySet :: "nat \<Rightarrow> huddle_quality \<Rightarrow> answer \<Rightarrow> huddle_call \<Rightarrow> huddle_call" where
  \<comment> \<open>\<open>r.quality = t.quality\<close>, of the object\<close>
  "qualitySet ref q a s =
     (case a of AErr e \<Rightarrow> s
      | _ \<Rightarrow> s\<lparr>remotes := map (\<lambda>(m, r). (m, if rm_ref r = ref then r\<lparr>rm_quality := Some q\<rparr> else r)) (remotes s)\<rparr>)"

definition syncVideo :: "stage_track list \<Rightarrow> huddle_call \<Rightarrow> huddle_call" where
  "syncVideo tracks s = enqueueJob (JVideo (generation s) tracks) s"

section \<open>Heartbeat, speaking, leaving\<close>

definition fireHeartbeat :: "huddle_call \<Rightarrow> huddle_call" where
  \<comment> \<open>the interval: \<open>beat\<close>\<close>
  "fireHeartbeat s =
     (case (hc_heartbeat s, hc_state s) of
        (Some gen, InCall v) \<Rightarrow>
          (case ids_of v of None \<Rightarrow> s | Some hp \<Rightarrow> await None None (KBeat gen) (outp (OHeartbeat hp) s))
      | _ \<Rightarrow> s)"

definition beatAnswered :: "nat \<Rightarrow> answer \<Rightarrow> huddle_call \<Rightarrow> huddle_call" where
  "beatAnswered gen a s =
     (if a = AHeartbeat HbGone \<and> gen = generation s then endCall (Some CallDisconnected) False False s else s)"

definition measureSpeaking :: "nat list \<Rightarrow> huddle_call \<Rightarrow> huddle_call" where
  \<comment> \<open>the streams whose level is above the threshold\<close>
  "measureSpeaking loud s =
     (case hc_state s of
        InCall v \<Rightarrow>
          let mine = (if \<not> cv_muted v \<and> (case hc_meter s of None \<Rightarrow> False | Some x \<Rightarrow> x \<in> set loud) then [me s] else []);
              others = concat (map (\<lambda>(m, r). case rm_sink r of None \<Rightarrow> [] | Some x \<Rightarrow> if x \<in> set loud then [rm_userId r] else [])
                (remotes s))
          in if hc_speaking s
             then patchCall (\<lambda>v. v\<lparr>cv_speaking := sort (js_uniq (mine @ others))\<rparr>) s
             else s
      | _ \<Rightarrow> s)"

definition leave :: "bool \<Rightarrow> huddle_call \<Rightarrow> huddle_call" where
  "leave keepalive s =
     (case hc_state s of CallProblem _ _ \<Rightarrow> s\<lparr>hc_state := CallIdle\<rparr> | _ \<Rightarrow> endCall None True keepalive s)"

definition receiveLeft :: "ident \<Rightarrow> huddle_left_reason \<Rightarrow> huddle_call \<Rightarrow> huddle_call" where
  "receiveLeft participant reason s =
     (case hc_state s of
        InCall v \<Rightarrow>
          if cv_participantId v \<noteq> Some participant then s
          else endCall (case reason of HlRemoved \<Rightarrow> Some CallRemoved | HlExpired \<Rightarrow> Some CallDisconnected | _ \<Rightarrow> None) False False s
      | _ \<Rightarrow> s)"

definition dismissProblem :: "huddle_call \<Rightarrow> huddle_call" where
  "dismissProblem s = (case hc_state s of CallProblem _ _ \<Rightarrow> s\<lparr>hc_state := CallIdle\<rparr> | _ \<Rightarrow> s)"

definition disposeCall :: "huddle_call \<Rightarrow> huddle_call" where
  "disposeCall s = teardownCall (s\<lparr>generation := generation s + 1\<rparr>)"

section \<open>What happens\<close>

text \<open>The continuation of a settled promise.\<close>

definition resumeCont :: "continuation \<Rightarrow> answer \<Rightarrow> int \<Rightarrow> huddle_call \<Rightarrow> huddle_call" where
  "resumeCont kt a now_ms s =
     (let ch = kt_chain kt in
      case kt_cont kt of
        KPreviewMic gen room \<Rightarrow> previewMic gen room a s
      | KPreviewDevices gen room \<Rightarrow> previewDevices gen room a s
      | KSelectMic i \<Rightarrow> micGranted i a s
      | KReplaceMic i x \<Rightarrow> (case a of AErr e \<Rightarrow> s | _ \<Rightarrow> micReplaced i x s)
      | KCamera gen \<Rightarrow> cameraGranted gen a s
      | KCameraDevices gen x \<Rightarrow> cameraShown gen x a s
      | KSelectCamera i o' \<Rightarrow> cameraSelected i o' a s
      | KReplaceCamera i o' x \<Rightarrow> (case a of AErr e \<Rightarrow> s | _ \<Rightarrow> cameraReplaced i o' x s)
      | KShare gen \<Rightarrow> screenGranted gen a s
      | KOffer gen k o' hp \<Rightarrow>
          (case a of AErr e \<Rightarrow> publishFailed ch gen k o' e s
           | _ \<Rightarrow> await ch None (KPublish gen k o' hp False) (outp (OPublish hp k) s))
      | KPublish gen k o' hp retried \<Rightarrow> publishAnswered ch gen k o' hp retried a s
      | KPublishWait gen k o' hp \<Rightarrow> await ch None (KPublish gen k o' hp True) (outp (OPublish hp k) s)
      | KPublishRemote gen k o' \<Rightarrow> (case a of AErr e \<Rightarrow> publishFailed ch gen k o' e s | _ \<Rightarrow> s)
      | KRollback k o' err \<Rightarrow> publishUndone k o' err s
      | KUnpublish \<Rightarrow> s
      | KJoinIce gen room micOn camera \<Rightarrow> iceKnown gen room micOn camera a now_ms s
      | KJoinOffer gen room micOn camera \<Rightarrow> offerMade gen room micOn camera a s
      | KJoin gen room micOn camera \<Rightarrow> joined gen room micOn camera a s
      | KJoinRemote gen room micOn camera hp parts \<Rightarrow> joinConnected gen room micOn camera hp parts a s
      | KIceRefresh gen room \<Rightarrow> iceRefreshed gen room a now_ms s
      | KSyncRelease gen hp reqs \<Rightarrow> receive ch gen hp reqs s
      | KVideoRelease gen hp pairs reqs \<Rightarrow> qualities ch gen hp pairs reqs s
      | KQuality gen hp ref q rest reqs \<Rightarrow> qualities ch gen hp rest reqs (qualitySet ref q a s)
      | KSubscribe gen hp reqs retried \<Rightarrow> subscribed ch gen hp reqs retried a s
      | KSubscribeWait gen hp reqs \<Rightarrow> await ch None (KSubscribe gen hp reqs True) (outp (OSubscribe hp reqs) s)
      | KAnswer hp \<Rightarrow> answerMade ch hp a s
      | KRenegotiate hp retried \<Rightarrow> renegotiated ch hp retried a s
      | KRenegotiateWait hp \<Rightarrow> await ch None (KRenegotiate hp True) (outp (ORenegotiate hp) s)
      | KBeat gen \<Rightarrow> beatAnswered gen a s)"

definition settle :: "nat \<Rightarrow> answer \<Rightarrow> int \<Rightarrow> huddle_call \<Rightarrow> huddle_call" where
  \<comment> \<open>the promise of this continuation; an operation on a closed connection does not settle\<close>
  "settle i a now_ms s =
     (case List.find (\<lambda>k. kt_id k = i) (conts s) of
        None \<Rightarrow> s
      | Some kt \<Rightarrow>
          if kt_conn kt \<noteq> None \<and> kt_conn kt \<noteq> hc_pc s then s
          else resumeCont kt a now_ms (s\<lparr>conts := filter (\<lambda>k. kt_id k \<noteq> i) (conts s)\<rparr>))"

definition chain_busy :: "nat \<Rightarrow> huddle_call \<Rightarrow> bool" where
  "chain_busy c s = list_ex (\<lambda>k. kt_chain k = Some c) (conts s)"

definition runJob :: "nat \<Rightarrow> huddle_call \<Rightarrow> huddle_call" where
  \<comment> \<open>\<open>queue.then(work)\<close>: the next job of a chain starts when the one before it has ended\<close>
  "runJob c s =
     (if chain_busy c s then s
      else case List.extract (\<lambda>j. fst j = c) (jobs s) of
        None \<Rightarrow> s
      | Some (before, (c', j), rest) \<Rightarrow>
          let s1 = s\<lparr>jobs := before @ rest\<rparr> in
          (case j of
             JPublish gen k \<Rightarrow> startPublish (Some c) gen k s1
           | JUnpublish k o' hp \<Rightarrow> startUnpublish (Some c) k o' hp s1
           | JSync gen parts \<Rightarrow> startSync (Some c) gen parts s1
           | JVideo gen tracks \<Rightarrow> startVideo (Some c) gen tracks s1))"

datatype call_event =
    EvOpenPreview ident | EvCancelPreview | EvToggleMic | EvSelectMic ident | EvSelectSpeaker ident
  | EvToggleCamera | EvSelectCamera ident | EvToggleShare | EvDismissNotice | EvJoin
  | EvSync "ident list" | EvSyncVideo "stage_track list" | EvSetMuted bool | EvLeave bool
  | EvLeft ident huddle_left_reason | EvDismissProblem
  | EvRunJob nat | EvSettle nat answer | EvIceTimer | EvHeartbeat | EvSpeaking "nat list"
  | EvConnection nat connection_change | EvTrack nat string nat | EvScreenEnded nat

definition callStep :: "int \<times> call_event \<Rightarrow> huddle_call \<Rightarrow> huddle_call" where
  "callStep te s =
     (case snd te of
        EvOpenPreview room \<Rightarrow> openPreview room s
      | EvCancelPreview \<Rightarrow> cancelPreview s
      | EvToggleMic \<Rightarrow> toggleMic s
      | EvSelectMic i \<Rightarrow> selectMic i s
      | EvSelectSpeaker i \<Rightarrow> selectSpeaker i s
      | EvToggleCamera \<Rightarrow> toggleCamera s
      | EvSelectCamera i \<Rightarrow> selectCamera i s
      | EvToggleShare \<Rightarrow> toggleShare s
      | EvDismissNotice \<Rightarrow> dismissNotice s
      | EvJoin \<Rightarrow> join s
      | EvSync ids \<Rightarrow> sync ids s
      | EvSyncVideo ts \<Rightarrow> syncVideo ts s
      | EvSetMuted m \<Rightarrow> setMuted m s
      | EvLeave keepalive \<Rightarrow> leave keepalive s
      | EvLeft p reason \<Rightarrow> receiveLeft p reason s
      | EvDismissProblem \<Rightarrow> dismissProblem s
      | EvRunJob c \<Rightarrow> runJob c s
      | EvSettle i a \<Rightarrow> settle i a (fst te) s
      | EvIceTimer \<Rightarrow> fireIceTimer (fst te) s
      | EvHeartbeat \<Rightarrow> fireHeartbeat s
      | EvSpeaking loud \<Rightarrow> measureSpeaking loud s
      | EvConnection c change \<Rightarrow> connectionChanged c change s
      | EvTrack c m x \<Rightarrow> trackArrived c m x s
      | EvScreenEnded x \<Rightarrow> screenEnded x s)"

definition callRun :: "huddle_call \<Rightarrow> (int \<times> call_event) list \<Rightarrow> huddle_call" where
  "callRun s es = fold callStep es s"

end
