(* ===== verification/HuddleRuns.thy ===== *)
theory HuddleRuns
  imports HuddleCall
begin

text \<open>
  Invariants of the runs of a huddle call (\<open>HuddleCall\<close>). \<open>core\<close> is what the control flow depends on: the
  generation, the chains with their jobs, the continuations, the connection and the phase. \<open>skel_ok\<close> says
  how these fit together, and the other invariants rest on it: exchanges of session descriptions never
  overlap, nothing of a call is left when no call is shown, and nobody is received twice.
\<close>

section \<open>The control flow\<close>

datatype phase = PIdle | PProblem | PPreview | PCall "ident option" "ident option"

definition phase :: "call_state \<Rightarrow> phase" where
  "phase st = (case st of CallIdle \<Rightarrow> PIdle | CallProblem _ _ \<Rightarrow> PProblem | InPreview _ \<Rightarrow> PPreview
     | InCall v \<Rightarrow> PCall (cv_huddleId v) (cv_participantId v))"

lemma phase_simps [simp]:
  "phase CallIdle = PIdle" "phase (CallProblem r p) = PProblem" "phase (InPreview q) = PPreview"
  "phase (InCall v) = PCall (cv_huddleId v) (cv_participantId v)"
  by (simp_all add: phase_def)

definition core :: "huddle_call \<Rightarrow> nat \<times> nat \<times> (nat \<times> job) list \<times> continuation list \<times> (nat \<times> nat) option \<times> phase" where
  "core s = (generation s, chain s, jobs s, conts s, hc_pc s, phase (hc_state s))"

datatype join_stage = NoConnection | Connecting | Answering

datatype guard = Unguarded | OfPreview nat | OfJoin nat join_stage | OfJob nat | InChain

fun guard_of :: "cont \<Rightarrow> guard" where
  \<comment> \<open>the generation that a continuation compares with the current one, and whose work it goes on with\<close>
  "guard_of (KPreviewMic g r) = OfPreview g"
| "guard_of (KPreviewDevices g r) = OfPreview g"
| "guard_of (KJoinIce g r m c) = OfJoin g NoConnection"
| "guard_of (KJoinOffer g r m c) = OfJoin g Connecting"
| "guard_of (KJoin g r m c) = OfJoin g Connecting"
| "guard_of (KJoinRemote g r m c hp ps) = OfJoin g Answering"
| "guard_of (KOffer g k o' hp) = OfJob g"
| "guard_of (KPublish g k o' hp b) = OfJob g"
| "guard_of (KPublishWait g k o' hp) = OfJob g"
| "guard_of (KPublishRemote g k o') = OfJob g"
| "guard_of (KSyncRelease g hp reqs) = OfJob g"
| "guard_of (KVideoRelease g hp ps reqs) = OfJob g"
| "guard_of (KQuality g hp r q rest reqs) = OfJob g"
| "guard_of (KSubscribe g hp reqs b) = OfJob g"
| "guard_of (KSubscribeWait g hp reqs) = OfJob g"
| "guard_of (KRollback k o' err) = InChain"
| "guard_of KUnpublish = InChain"
| "guard_of (KAnswer hp) = InChain"
| "guard_of (KRenegotiate hp b) = InChain"
| "guard_of (KRenegotiateWait hp) = InChain"
| "guard_of k = Unguarded"

fun job_generation :: "job \<Rightarrow> nat option" where
  "job_generation (JPublish g k) = Some g"
| "job_generation (JSync g ps) = Some g"
| "job_generation (JVideo g ts) = Some g"
| "job_generation (JUnpublish k o' hp) = None"

definition in_huddle :: "huddle_call \<Rightarrow> bool" where
  "in_huddle s = (\<exists>h p. phase (hc_state s) = PCall (Some h) (Some p))"

definition join_now :: "huddle_call \<Rightarrow> continuation \<Rightarrow> bool" where
  "join_now s k = (\<exists>st. guard_of (kt_cont k) = OfJoin (generation s) st)"

definition of_chain :: "nat \<Rightarrow> continuation \<Rightarrow> bool" where
  "of_chain c k = (kt_chain k = Some c)"

definition guard_ok :: "huddle_call \<Rightarrow> nat option \<Rightarrow> (nat \<times> nat) option \<Rightarrow> guard \<Rightarrow> bool" where
  "guard_ok s ch cn g =
     (case g of
        Unguarded \<Rightarrow> True
      | OfPreview n \<Rightarrow> n < generation s \<or> n = generation s \<and> phase (hc_state s) = PPreview
      | OfJoin n st \<Rightarrow>
          (n < generation s \<or> n = generation s \<and> phase (hc_state s) = PCall None None \<and> (hc_pc s = None \<longleftrightarrow> st = NoConnection))
          \<and> ch = None \<and> (case cn of None \<Rightarrow> st \<noteq> Answering | Some c \<Rightarrow> snd c = n)
      | OfJob n \<Rightarrow> ch \<noteq> None \<and> (n < generation s \<or> n = generation s \<and> ch = Some (chain s))
      | InChain \<Rightarrow> ch \<noteq> None)"

definition cont_ok :: "huddle_call \<Rightarrow> continuation \<Rightarrow> bool" where
  "cont_ok s k =
     (guard_ok s (kt_chain k) (kt_conn k) (guard_of (kt_cont k))
    \<and> (case kt_chain k of None \<Rightarrow> True | Some c \<Rightarrow> c < chain s \<or> c = chain s \<and> in_huddle s))"

definition in_call :: "huddle_call \<Rightarrow> bool" where
  "in_call s = (\<exists>a b. phase (hc_state s) = PCall a b)"

definition job_ok :: "huddle_call \<Rightarrow> nat \<times> job \<Rightarrow> bool" where
  "job_ok s cj =
     (fst cj \<le> chain s
    \<and> (case job_generation (snd cj) of
         Some g \<Rightarrow> g < generation s \<or> g = generation s \<and> (in_call s \<longrightarrow> fst cj = chain s)
       | None \<Rightarrow> fst cj = chain s \<longrightarrow> (\<forall>k o' hp. snd cj = JUnpublish k o' (Some hp) \<longrightarrow> in_huddle s)))"

definition phase_ok :: "huddle_call \<Rightarrow> bool" where
  "phase_ok s =
     ((in_huddle s \<longrightarrow> hc_pc s \<noteq> None)
    \<and> (hc_pc s \<noteq> None \<longrightarrow> in_call s)
    \<and> (\<forall>a b. phase (hc_state s) = PCall a b \<longrightarrow> (a = None \<longleftrightarrow> b = None))
    \<and> (\<forall>c g. hc_pc s = Some (c, g) \<longrightarrow> g = generation s))"

definition skel_ok :: "huddle_call \<Rightarrow> bool" where
  "skel_ok s =
     ((\<forall>k\<in>set (conts s). cont_ok s k) \<and> (\<forall>cj\<in>set (jobs s). job_ok s cj) \<and> phase_ok s
    \<and> length (filter (join_now s) (conts s)) \<le> 1
    \<and> (\<forall>c. length (filter (of_chain c) (conts s)) \<le> 1))"

lemma skel_ok_core: "core s = core s' \<Longrightarrow> skel_ok s = skel_ok s'"
proof -
  assume "core s = core s'"
  then have e: "generation s = generation s'" "chain s = chain s'" "jobs s = jobs s'" "conts s = conts s'"
      "hc_pc s = hc_pc s'" "phase (hc_state s) = phase (hc_state s')" by (simp_all add: core_def)
  have "in_huddle s = in_huddle s'" "in_call s = in_call s'" "join_now s = join_now s'" "guard_ok s = guard_ok s'"
    using e by (simp_all add: in_huddle_def in_call_def join_now_def guard_ok_def fun_eq_iff cong: guard.case_cong)
  moreover from this have "cont_ok s = cont_ok s'" "job_ok s = job_ok s'" "phase_ok s = phase_ok s'"
    using e by (simp_all add: cont_ok_def job_ok_def phase_ok_def fun_eq_iff cong: option.case_cong)
  ultimately show ?thesis using e by (simp add: skel_ok_def)
qed

section \<open>What does not touch the core\<close>

lemma fields_outp [simp]:
  "generation (outp x s) = generation s" "chain (outp x s) = chain s"
  "jobs (outp x s) = jobs s" "conts (outp x s) = conts s"
  "hc_pc (outp x s) = hc_pc s" "hc_state (outp x s) = hc_state s"
  by (simp_all add: outp_def)

lemma fields_stopTracks [simp]:
  "generation (stopTracks x s) = generation s" "chain (stopTracks x s) = chain s"
  "jobs (stopTracks x s) = jobs s" "conts (stopTracks x s) = conts s"
  "hc_pc (stopTracks x s) = hc_pc s" "hc_state (stopTracks x s) = hc_state s"
  by (simp_all add: stopTracks_def)

lemma fields_stopStream [simp]:
  "generation (stopStream s) = generation s" "chain (stopStream s) = chain s"
  "jobs (stopStream s) = jobs s" "conts (stopStream s) = conts s"
  "hc_pc (stopStream s) = hc_pc s" "hc_state (stopStream s) = hc_state s"
  by (simp_all add: stopStream_def split: option.split)

lemma fields_setOut [simp]:
  "generation (setOut k x s) = generation s" "chain (setOut k x s) = chain s"
  "jobs (setOut k x s) = jobs s" "conts (setOut k x s) = conts s"
  "hc_pc (setOut k x s) = hc_pc s" "hc_state (setOut k x s) = hc_state s"
  by (simp_all add: setOut_def split: video_kind.split)

lemma fields_stopOutgoing [simp]:
  "generation (stopOutgoing k s) = generation s" "chain (stopOutgoing k s) = chain s"
  "jobs (stopOutgoing k s) = jobs s" "conts (stopOutgoing k s) = conts s"
  "hc_pc (stopOutgoing k s) = hc_pc s" "hc_state (stopOutgoing k s) = hc_state s"
  by (simp_all add: stopOutgoing_def Let_def split: option.split)

lemma fields_stopVideo [simp]:
  "generation (stopVideo k s) = generation s" "chain (stopVideo k s) = chain s"
  "jobs (stopVideo k s) = jobs s" "conts (stopVideo k s) = conts s"
  "hc_pc (stopVideo k s) = hc_pc s" "hc_state (stopVideo k s) = hc_state s"
  by (simp_all add: stopVideo_def split: option.split)

lemma fields_newOutgoing [simp]:
  "generation (newOutgoing k x s) = generation s" "chain (newOutgoing k x s) = chain s"
  "jobs (newOutgoing k x s) = jobs s" "conts (newOutgoing k x s) = conts s"
  "hc_pc (newOutgoing k x s) = hc_pc s" "hc_state (newOutgoing k x s) = hc_state s"
  by (simp_all add: newOutgoing_def)

lemma fields_captured [simp]:
  "generation (snd (captured d s)) = generation s" "chain (snd (captured d s)) = chain s"
  "jobs (snd (captured d s)) = jobs s" "conts (snd (captured d s)) = conts s"
  "hc_pc (snd (captured d s)) = hc_pc s" "hc_state (snd (captured d s)) = hc_state s"
  by (simp_all add: captured_def)

lemma fields_enableMic [simp]:
  "generation (enableMic b s) = generation s" "chain (enableMic b s) = chain s"
  "jobs (enableMic b s) = jobs s" "conts (enableMic b s) = conts s"
  "hc_pc (enableMic b s) = hc_pc s" "hc_state (enableMic b s) = hc_state s"
  by (simp_all add: enableMic_def split: option.split)

lemma fields_patchCall [simp]:
  "generation (patchCall f s) = generation s" "chain (patchCall f s) = chain s"
  "jobs (patchCall f s) = jobs s" "conts (patchCall f s) = conts s"
  "hc_pc (patchCall f s) = hc_pc s"
  by (simp_all add: patchCall_def split: call_state.split)

lemma fields_attach [simp]:
  "generation (attach m x s) = generation s" "chain (attach m x s) = chain s"
  "jobs (attach m x s) = jobs s" "conts (attach m x s) = conts s"
  "hc_pc (attach m x s) = hc_pc s"
  by (simp_all add: attach_def split: option.split track_kind.split)

lemma fields_addRemote [simp]:
  "generation (addRemote reqs t s) = generation s" "chain (addRemote reqs t s) = chain s"
  "jobs (addRemote reqs t s) = jobs s" "conts (addRemote reqs t s) = conts s"
  "hc_pc (addRemote reqs t s) = hc_pc s"
  by (simp_all add: addRemote_def Let_def split: prod.split option.split)

lemma phase_patchCall:
  "(\<And>v. cv_huddleId (f v) = cv_huddleId v \<and> cv_participantId (f v) = cv_participantId v) \<Longrightarrow>
    phase (hc_state (patchCall f s)) = phase (hc_state s)"
  by (simp add: patchCall_def phase_def split: call_state.split)

lemma phase_attach [simp]: "phase (hc_state (attach m x s)) = phase (hc_state s)"
proof -
  have "phase (hc_state (patchCall (\<lambda>v. v\<lparr>cv_remoteVideos := h v\<rparr>) s)) = phase (hc_state s)" for h
    by (rule phase_patchCall) simp
  then show ?thesis by (simp add: attach_def split: option.split track_kind.split)
qed

lemma phase_addRemote [simp]: "phase (hc_state (addRemote reqs t s)) = phase (hc_state s)"
  by (simp add: addRemote_def Let_def split: prod.split option.split)

lemma core_addRemotes [simp]: "core (fold (addRemote reqs) ts s) = core s"
  by (induction ts arbitrary: s) (simp_all add: core_def)

lemma core_patchCall:
  "(\<And>v. cv_huddleId (f v) = cv_huddleId v \<and> cv_participantId (f v) = cv_participantId v) \<Longrightarrow> core (patchCall f s) = core s"
  using phase_patchCall[of f s] by (simp add: core_def)

lemma fst_captured [simp]: "fst (captured d s) = handles s"
  by (simp add: captured_def)

section \<open>Moves of the control flow\<close>

lemma filter_le: "length (filter (\<lambda>x. Q x \<and> P x) xs) \<le> length (filter P xs)"
  by (induction xs) auto

lemma frame_conts [simp]:
  "in_huddle (s\<lparr>conts := ks\<rparr>) = in_huddle s" "in_call (s\<lparr>conts := ks\<rparr>) = in_call s" "join_now (s\<lparr>conts := ks\<rparr>) = join_now s"
  "guard_ok (s\<lparr>conts := ks\<rparr>) = guard_ok s" "cont_ok (s\<lparr>conts := ks\<rparr>) = cont_ok s"
  "job_ok (s\<lparr>conts := ks\<rparr>) = job_ok s" "phase_ok (s\<lparr>conts := ks\<rparr>) = phase_ok s"
  by (simp_all add: in_huddle_def in_call_def join_now_def guard_ok_def cont_ok_def job_ok_def phase_ok_def fun_eq_iff
      cong: guard.case_cong option.case_cong)

lemma frame_handles [simp]:
  "in_huddle (s\<lparr>handles := n\<rparr>) = in_huddle s" "in_call (s\<lparr>handles := n\<rparr>) = in_call s" "join_now (s\<lparr>handles := n\<rparr>) = join_now s"
  "guard_ok (s\<lparr>handles := n\<rparr>) = guard_ok s" "cont_ok (s\<lparr>handles := n\<rparr>) = cont_ok s"
  "job_ok (s\<lparr>handles := n\<rparr>) = job_ok s" "phase_ok (s\<lparr>handles := n\<rparr>) = phase_ok s"
  by (simp_all add: in_huddle_def in_call_def join_now_def guard_ok_def cont_ok_def job_ok_def phase_ok_def fun_eq_iff
      cong: guard.case_cong option.case_cong)

lemma frame_jobs [simp]:
  "in_huddle (s\<lparr>jobs := js\<rparr>) = in_huddle s" "in_call (s\<lparr>jobs := js\<rparr>) = in_call s" "join_now (s\<lparr>jobs := js\<rparr>) = join_now s"
  "guard_ok (s\<lparr>jobs := js\<rparr>) = guard_ok s" "cont_ok (s\<lparr>jobs := js\<rparr>) = cont_ok s"
  "job_ok (s\<lparr>jobs := js\<rparr>) = job_ok s" "phase_ok (s\<lparr>jobs := js\<rparr>) = phase_ok s"
  by (simp_all add: in_huddle_def in_call_def join_now_def guard_ok_def cont_ok_def job_ok_def phase_ok_def fun_eq_iff
      cong: guard.case_cong option.case_cong)

lemma skel_drop: "skel_ok s \<Longrightarrow> skel_ok (s\<lparr>conts := filter P (conts s)\<rparr>)"
  by (auto simp: skel_ok_def intro: le_trans[OF filter_le])

lemma skel_drop_job: "skel_ok s \<Longrightarrow> set js \<subseteq> set (jobs s) \<Longrightarrow> skel_ok (s\<lparr>jobs := js\<rparr>)"
  by (auto simp add: skel_ok_def)

lemma skel_await:
  assumes "skel_ok s" "cont_ok s \<lparr>kt_id = handles s, kt_chain = ch, kt_conn = cn, kt_cont = k\<rparr>"
    "join_now s \<lparr>kt_id = handles s, kt_chain = ch, kt_conn = cn, kt_cont = k\<rparr> \<Longrightarrow> filter (join_now s) (conts s) = []"
    "\<And>c. ch = Some c \<Longrightarrow> filter (of_chain c) (conts s) = []"
  shows "skel_ok (await ch cn k s)"
proof -
  let ?k = "\<lparr>kt_id = handles s, kt_chain = ch, kt_conn = cn, kt_cont = k\<rparr>"
  have j: "length (filter (join_now s) (conts s @ [?k])) \<le> 1"
    using assms(1,3) by (cases "join_now s ?k") (simp_all add: skel_ok_def)
  have c: "length (filter (of_chain c) (conts s @ [?k])) \<le> 1" for c
    using assms(1) assms(4)[of c] by (cases "of_chain c ?k") (simp_all add: skel_ok_def of_chain_def)
  have "\<forall>k\<in>set (conts s @ [?k]). cont_ok s k" using assms(1,2) by (simp add: skel_ok_def)
  then show ?thesis using assms(1) j c unfolding await_def skel_ok_def by simp
qed

lemma skel_enqueue:
  assumes "skel_ok s" "job_ok s (chain s, j)"
  shows "skel_ok (enqueueJob j s)"
  using assms by (simp add: skel_ok_def enqueueJob_def)

lemma skel_await_free: "skel_ok s \<Longrightarrow> guard_of k = Unguarded \<Longrightarrow> skel_ok (await None cn k s)"
  by (rule skel_await) (simp_all add: cont_ok_def guard_ok_def join_now_def)

text \<open>The next await of a job: its chain has no other continuation, and is the current one if the job is
  guarded by the current generation.\<close>

definition chain_free :: "nat option \<Rightarrow> huddle_call \<Rightarrow> bool" where
  "chain_free ch s =
     (\<exists>c. ch = Some c \<and> filter (of_chain c) (conts s) = [] \<and> (c < chain s \<or> c = chain s \<and> in_huddle s))"

definition job_guard :: "nat option \<Rightarrow> guard \<Rightarrow> huddle_call \<Rightarrow> bool" where
  "job_guard ch g s = (g = InChain \<or> (\<exists>n. g = OfJob n \<and> (n < generation s \<or> n = generation s \<and> ch = Some (chain s))))"

lemma skel_await_job:
  "skel_ok s \<Longrightarrow> chain_free ch s \<Longrightarrow> job_guard ch (guard_of k) s \<Longrightarrow> skel_ok (await ch cn k s)"
  by (rule skel_await) (auto simp: chain_free_def cont_ok_def guard_ok_def job_guard_def join_now_def)

lemma chain_free_core: "core s = core s' \<Longrightarrow> chain_free ch s = chain_free ch s'"
  by (auto simp: chain_free_def core_def in_huddle_def)

lemma job_guard_core: "core s = core s' \<Longrightarrow> job_guard ch g s = job_guard ch g s'"
  by (simp add: job_guard_def core_def)

text \<open>Ending what is shown: a later generation, no connection, and a new chain if there was a huddle.\<close>

lemma skel_reset:
  assumes "skel_ok s" "generation s < generation s'" "chain s \<le> chain s'" "jobs s' = jobs s" "conts s' = conts s"
    "hc_pc s' = None" "\<not> in_huddle s'" "\<And>a b. phase (hc_state s') = PCall a b \<Longrightarrow> a = None \<and> b = None"
    "in_huddle s \<longrightarrow> chain s < chain s'"
  shows "skel_ok s'" "filter (join_now s') (conts s') = []"
proof -
  have "cont_ok s' k" if "cont_ok s k" for k
    using that assms(2,3,9) by (auto simp: cont_ok_def guard_ok_def split: guard.splits option.splits)
  then have c: "\<forall>k\<in>set (conts s'). cont_ok s' k" using assms(1,5) by (simp add: skel_ok_def)
  have "job_ok s' cj" if "job_ok s cj" for cj
    using that assms(2,3,9) by (auto simp: job_ok_def split: option.splits)
  then have j: "\<forall>cj\<in>set (jobs s'). job_ok s' cj" using assms(1,4) by (simp add: skel_ok_def)
  have "\<not> join_now s' k" if "cont_ok s k" for k
    using that assms(2) by (auto simp: join_now_def cont_ok_def guard_ok_def split: guard.splits)
  then show n: "filter (join_now s') (conts s') = []" using assms(1,5) by (simp add: skel_ok_def filter_empty_conv)
  have p: "phase_ok s'" using assms(6,7,8) unfolding phase_ok_def by auto
  have "\<forall>d. length (filter (of_chain d) (conts s')) \<le> 1" using assms(1,5) by (simp add: skel_ok_def)
  then show "skel_ok s'" using c j n p unfolding skel_ok_def by simp
qed

text \<open>A failed join: the same generation, nothing waiting for it.\<close>

lemma skel_fail:
  assumes "skel_ok s" "phase (hc_state s) = PCall None None" "filter (join_now s) (conts s) = []"
    "generation s' = generation s" "chain s' = chain s + 1" "jobs s' = jobs s" "conts s' = conts s"
    "hc_pc s' = None" "phase (hc_state s') = PProblem"
  shows "skel_ok s'"
proof -
  have "\<not> in_huddle s" "in_call s" "\<not> in_huddle s'" "\<not> in_call s'" using assms(2,9) by (simp_all add: in_huddle_def in_call_def)
  moreover have "\<not> join_now s k" if "k \<in> set (conts s)" for k using assms(3) that by (simp add: filter_empty_conv)
  ultimately have "cont_ok s' k" if "k \<in> set (conts s)" "cont_ok s k" for k
    using that assms(2,4,5) by (fastforce simp: cont_ok_def guard_ok_def join_now_def split: guard.splits option.splits)
  then have c: "\<forall>k\<in>set (conts s'). cont_ok s' k" using assms(1,7) by (simp add: skel_ok_def)
  have "job_ok s' cj" if "job_ok s cj" for cj
    using that assms(4,5) \<open>\<not> in_call s'\<close> by (auto simp: job_ok_def split: option.splits)
  then have j: "\<forall>cj\<in>set (jobs s'). job_ok s' cj" using assms(1,6) by (simp add: skel_ok_def)
  have "phase_ok s'" using assms(8,9) \<open>\<not> in_huddle s'\<close> by (simp add: phase_ok_def)
  moreover have "join_now s' = join_now s" using assms(4) by (simp add: join_now_def fun_eq_iff)
  ultimately show ?thesis using c j assms(1,7) unfolding skel_ok_def by simp
qed

section \<open>The operations\<close>

lemma skel_same: "skel_ok s \<Longrightarrow> core s' = core s \<Longrightarrow> skel_ok s'"
  using skel_ok_core by blast

lemma join_now_outp [simp]: "join_now (outp x s) = join_now s"
  by (simp add: join_now_def fun_eq_iff)

lemma skel_outp [simp]: "skel_ok (outp x s) = skel_ok s"
  by (rule skel_ok_core) (simp add: core_def)

lemma fields_teardown [simp]:
  "generation (teardownCall s) = generation s" "chain (teardownCall s) = chain s + 1" "jobs (teardownCall s) = jobs s"
  "conts (teardownCall s) = conts s" "hc_pc (teardownCall s) = None" "hc_state (teardownCall s) = hc_state s"
  by (simp_all add: teardownCall_def Let_def split: call_state.split option.split prod.split)

lemma skel_end: "skel_ok s \<Longrightarrow> skel_ok (endCall p l ka s)"
proof -
  assume s: "skel_ok s"
  show ?thesis
  proof (cases "hc_state s")
    case (InCall v)
    let ?t = "teardownCall (s\<lparr>generation := generation s + 1\<rparr>)"
    have "skel_ok (?t\<lparr>hc_state := st\<rparr>)" if "phase st = PIdle \<or> phase st = PProblem" for st
      by (rule skel_reset(1)[OF s]) (use that in \<open>auto simp: in_huddle_def\<close>)
    then have "skel_ok (?t\<lparr>hc_state := (case p of None \<Rightarrow> CallIdle | Some q \<Rightarrow> CallProblem (cv_roomId v) q)\<rparr>)"
      by (cases p) simp_all
    then show ?thesis using InCall by (simp add: endCall_def Let_def split: option.split)
  qed (use s in \<open>simp_all add: endCall_def\<close>)
qed

lemma skel_state: "skel_ok s \<Longrightarrow> phase st = phase (hc_state s) \<Longrightarrow> skel_ok (s\<lparr>hc_state := st\<rparr>)"
  by (erule skel_same) (simp add: core_def)

lemma skel_patch:
  "skel_ok s \<Longrightarrow> (\<And>v. cv_huddleId (f v) = cv_huddleId v \<and> cv_participantId (f v) = cv_participantId v) \<Longrightarrow> skel_ok (patchCall f s)"
  by (erule skel_same) (rule core_patchCall)

lemma skel_to_idle:
  assumes "skel_ok s" "phase (hc_state s) = PProblem"
  shows "skel_ok (s\<lparr>hc_state := CallIdle\<rparr>)"
proof -
  let ?s = "s\<lparr>hc_state := CallIdle\<rparr>"
  have f: "join_now ?s = join_now s" "\<not> in_huddle s" "\<not> in_huddle ?s" "\<not> in_call s" "\<not> in_call ?s"
    using assms(2) by (simp_all add: join_now_def in_huddle_def in_call_def fun_eq_iff)
  then have "guard_ok ?s ch cn g" if "guard_ok s ch cn g" for ch cn g
    using that assms(2) by (auto simp: guard_ok_def split: guard.splits)
  then have "cont_ok ?s k" if "cont_ok s k" for k
    using that f by (auto simp: cont_ok_def split: option.splits)
  moreover have "job_ok ?s j" if "job_ok s j" for j
    using that f by (auto simp: job_ok_def split: option.splits)
  moreover have "phase_ok ?s" using assms f by (simp add: skel_ok_def phase_ok_def)
  ultimately show ?thesis using assms(1) f unfolding skel_ok_def by simp
qed

lemma not_in_call: "phase (hc_state s) \<in> {PIdle, PProblem, PPreview} \<Longrightarrow> \<not> in_call s \<and> \<not> in_huddle s"
  by (auto simp: in_call_def in_huddle_def)

lemma skel_no_pc: "skel_ok s \<Longrightarrow> \<not> in_call s \<Longrightarrow> hc_pc s = None"
  unfolding skel_ok_def phase_ok_def by blast

lemma skel_publish: "skel_ok s \<Longrightarrow> gen = generation s \<Longrightarrow> skel_ok (publish gen k s)"
  unfolding publish_def by (erule skel_enqueue) (simp add: job_ok_def)

lemma skel_sync: "skel_ok s \<Longrightarrow> skel_ok (sync ids s)"
  unfolding sync_def by (erule skel_enqueue) (simp add: job_ok_def)

lemma skel_syncVideo: "skel_ok s \<Longrightarrow> skel_ok (syncVideo ts s)"
  unfolding syncVideo_def by (erule skel_enqueue) (simp add: job_ok_def)

lemma in_huddle_ids: "hc_state s = InCall v \<Longrightarrow> in_huddle s = (ids_of v \<noteq> None)"
  by (auto simp: in_huddle_def ids_of_def split: option.split)

lemma skel_unpublish:
  assumes "skel_ok s"
  shows "skel_ok (unpublish k s)"
proof (cases "hc_state s")
  case (InCall v)
  let ?s1 = "patchCall (\<lambda>v. case k of VCamera \<Rightarrow> v\<lparr>cv_camera := False, cv_video := None\<rparr>
                                  | VScreen \<Rightarrow> v\<lparr>cv_sharing := False, cv_screen := None\<rparr>) s"
  let ?s2 = "case out_of k s of None \<Rightarrow> ?s1 | Some o' \<Rightarrow> stopTracks (og_stream (outs s o')) ?s1"
  have "core ?s1 = core s" by (rule core_patchCall) (simp split: video_kind.split)
  then have c: "core ?s2 = core s" by (simp add: core_def split: option.split)
  have "in_huddle ?s2 = (ids_of v \<noteq> None)" using in_huddle_ids[OF InCall] c by (simp add: in_huddle_def core_def)
  then have "skel_ok (enqueueJob (JUnpublish k (out_of k s) (ids_of v)) ?s2)"
    by (intro skel_enqueue skel_same[OF assms c]) (simp add: job_ok_def)
  then show ?thesis using InCall by (simp add: unpublish_def Let_def)
qed (use assms in \<open>simp_all add: unpublish_def\<close>)

lemma skel_openPreview:
  assumes "skel_ok s"
  shows "skel_ok (openPreview room s)"
proof (cases "in_call s")
  case True
  then show ?thesis using assms by (auto simp: openPreview_def in_call_def phase_def split: call_state.splits)
next
  case False
  let ?s1 = "stopOutgoing VCamera (stopStream (s\<lparr>generation := generation s + 1\<rparr>))"
  have n: "\<not> in_huddle s" "hc_pc s = None" using False skel_no_pc[OF assms] by (auto simp: in_call_def in_huddle_def)
  have "skel_ok (await None None (KPreviewMic (generation s + 1) r) (outp x (?s1\<lparr>hc_state := InPreview q\<rparr>)))" for r x q
  proof (rule skel_await)
    have "skel_ok (?s1\<lparr>hc_state := InPreview q\<rparr>)"
      by (rule skel_reset(1)[OF assms]) (use n in \<open>simp_all add: in_huddle_def\<close>)
    then show "skel_ok (outp x (?s1\<lparr>hc_state := InPreview q\<rparr>))" by simp
  qed (simp_all add: cont_ok_def guard_ok_def join_now_def)
  then show ?thesis using False by (cases "hc_state s") (simp_all add: openPreview_def Let_def in_call_def)
qed

lemma skel_cancelPreview:
  assumes "skel_ok s"
  shows "skel_ok (cancelPreview s)"
proof (cases "hc_state s")
  case (InPreview p)
  have n: "\<not> in_huddle s" "hc_pc s = None" using not_in_call[of s] skel_no_pc[OF assms] InPreview by auto
  have "skel_ok ((stopOutgoing VCamera (stopStream (s\<lparr>generation := generation s + 1\<rparr>)))\<lparr>hc_state := CallIdle\<rparr>)"
    by (rule skel_reset(1)[OF assms]) (use n in \<open>simp_all add: in_huddle_def\<close>)
  then show ?thesis using InPreview by (simp add: cancelPreview_def)
qed (use assms in \<open>simp_all add: cancelPreview_def\<close>)

lemma skel_setMuted: "skel_ok s \<Longrightarrow> skel_ok (setMuted m s)"
proof -
  assume s: "skel_ok s"
  have "skel_ok (patchCall (\<lambda>v. v\<lparr>cv_muted := m\<rparr>) (enableMic (\<not> m) s))"
    by (rule skel_patch) (use skel_same[OF s] in \<open>simp_all add: core_def\<close>)
  then show ?thesis using s by (simp add: setMuted_def Let_def split: call_state.split option.split)
qed

lemma skel_toggleMic: "skel_ok s \<Longrightarrow> skel_ok (toggleMic s)"
  using skel_setMuted skel_state skel_same[of s "enableMic b s" for b]
  by (auto simp: toggleMic_def core_def split: call_state.split intro!: skel_state skel_setMuted elim: skel_same)

lemma skel_selectMic: "skel_ok s \<Longrightarrow> skel_ok (selectMic i s)"
  by (auto simp: selectMic_def core_def intro!: skel_await_free elim: skel_same)

lemma skel_selectSpeaker: "skel_ok s \<Longrightarrow> skel_ok (selectSpeaker i s)"
  by (auto simp: selectSpeaker_def core_def split: call_state.split elim!: skel_same)

lemma skel_toggleCamera: "skel_ok s \<Longrightarrow> skel_ok (toggleCamera s)"
  by (auto simp: toggleCamera_def core_def split: call_state.split
      intro!: skel_unpublish skel_await_free elim: skel_same)

lemma skel_selectCamera: "skel_ok s \<Longrightarrow> skel_ok (selectCamera i s)"
  by (auto simp: selectCamera_def Let_def core_def setCamera_def split: call_state.split option.split
      intro!: skel_await_free elim: skel_same)

lemma skel_toggleShare: "skel_ok s \<Longrightarrow> skel_ok (toggleShare s)"
  by (auto simp: toggleShare_def split: call_state.split intro!: skel_unpublish skel_await_free)

lemma skel_join:
  assumes "skel_ok s"
  shows "skel_ok (join s)"
proof (cases "hc_state s")
  case (InPreview p)
  have n: "\<not> in_huddle s" "hc_pc s = None" using not_in_call[of s] skel_no_pc[OF assms] InPreview by auto
  have "skel_ok (await None None (KJoinIce (generation s + 1) r m c)
      (outp x (outp y (s\<lparr>generation := generation s + 1, hc_state := InCall v\<rparr>))))"
    if "cv_huddleId v = None" "cv_participantId v = None" for r m c x y v
  proof -
    let ?s = "s\<lparr>generation := generation s + 1, hc_state := InCall v\<rparr>"
    have r: "skel_ok ?s" "filter (join_now ?s) (conts ?s) = []"
      by (rule skel_reset[OF assms]; use n that in \<open>simp add: in_huddle_def\<close>)+
    show ?thesis
      using r that n by (intro skel_await) (simp_all add: cont_ok_def guard_ok_def)
  qed
  then show ?thesis using InPreview assms by (simp add: join_def Let_def)
qed (use assms in \<open>simp_all add: join_def\<close>)

lemma skel_leave: "skel_ok s \<Longrightarrow> skel_ok (leave ka s)"
  by (auto simp: leave_def split: call_state.split intro: skel_end skel_to_idle)

lemma skel_receiveLeft: "skel_ok s \<Longrightarrow> skel_ok (receiveLeft q r s)"
  by (auto simp: receiveLeft_def split: call_state.split intro: skel_end)

lemma skel_dismissProblem: "skel_ok s \<Longrightarrow> skel_ok (dismissProblem s)"
  by (auto simp: dismissProblem_def split: call_state.split intro: skel_to_idle)

lemma skel_connectionChanged: "skel_ok s \<Longrightarrow> skel_ok (connectionChanged c ch s)"
  by (auto simp: connectionChanged_def split: option.split connection_change.split intro!: skel_end skel_patch)

lemma skel_fireIceTimer: "skel_ok s \<Longrightarrow> skel_ok (fireIceTimer t s)"
  by (auto simp: fireIceTimer_def core_def split: option.split intro!: skel_await_free elim: skel_same)

lemma skel_fireHeartbeat: "skel_ok s \<Longrightarrow> skel_ok (fireHeartbeat s)"
  by (auto simp: fireHeartbeat_def split: option.split call_state.split intro!: skel_await_free)

lemma skel_measureSpeaking: "skel_ok s \<Longrightarrow> skel_ok (measureSpeaking l s)"
  by (auto simp: measureSpeaking_def Let_def split: call_state.split intro!: skel_patch)

lemma skel_trackArrived: "skel_ok s \<Longrightarrow> skel_ok (trackArrived c m x s)"
  by (auto simp: trackArrived_def core_def elim: skel_same)

lemma skel_screenEnded: "skel_ok s \<Longrightarrow> skel_ok (screenEnded x s)"
  by (auto simp: screenEnded_def Let_def core_def split: option.split intro!: skel_unpublish elim: skel_same)

section \<open>The jobs\<close>

text \<open>What a job does keeps the invariant and leaves the chain free or waiting. \<open>chain_free\<close> and \<open>job_guard\<close>
  are what the job starts with.\<close>

lemma in_call_pc: "skel_ok s \<Longrightarrow> hc_pc s \<noteq> None \<Longrightarrow> in_call s"
  unfolding skel_ok_def phase_ok_def by blast

lemma pc_gen: "skel_ok s \<Longrightarrow> hc_pc s = Some (c, g) \<Longrightarrow> g = generation s"
  unfolding skel_ok_def phase_ok_def by blast

lemma chain_free_outp [simp]: "chain_free ch (outp x s) = chain_free ch s"
  by (rule chain_free_core) (simp add: core_def)

lemma job_guard_outp [simp]: "job_guard ch g (outp x s) = job_guard ch g s"
  by (rule job_guard_core) (simp add: core_def)

lemma skel_receive:
  "skel_ok s \<Longrightarrow> chain_free ch s \<Longrightarrow> job_guard ch (OfJob gen) s \<Longrightarrow> skel_ok (receive ch gen hp reqs s)"
  by (auto simp: receive_def intro: skel_await_job)

lemma skel_qualities:
  "skel_ok s \<Longrightarrow> chain_free ch s \<Longrightarrow> job_guard ch (OfJob gen) s \<Longrightarrow> skel_ok (qualities ch gen hp ps reqs s)"
  by (induction ch gen hp ps reqs s rule: qualities.induct)
    (auto simp: skel_receive split: option.split intro: skel_await_job)

lemma skel_release:
  assumes "skel_ok s" "chain_free ch s" "job_guard ch (guard_of k) s"
  shows "skel_ok (release ch hp gone k s)"
proof -
  have c: "core (patchCall (\<lambda>v. v\<lparr>cv_remoteVideos := f v\<rparr>) (s\<lparr>call_out := o1, remotes := rs\<rparr>)) = core s" for f o1 rs
    using core_patchCall[of "\<lambda>v. v\<lparr>cv_remoteVideos := f v\<rparr>" "s\<lparr>call_out := o1, remotes := rs\<rparr>"]
    by (simp add: core_def)
  show ?thesis unfolding release_def Let_def
    by (rule skel_await_job)
      (use assms skel_same[OF assms(1) c] chain_free_core[OF c] job_guard_core[OF c] in simp_all)
qed

lemma skel_startPublish:
  assumes "skel_ok s" "chain_free (Some c) s" "gen = generation s \<Longrightarrow> in_call s \<Longrightarrow> c = chain s"
  shows "skel_ok (startPublish (Some c) gen k s)"
proof -
  have "skel_ok (await (Some c) cn (KOffer (generation s) k o' hp) (s\<lparr>outs := f, handles := n\<rparr>))"
    if "gen = generation s" "in_call s" for cn o' hp f n
  proof (rule skel_await_job)
    have c: "core (s\<lparr>outs := f, handles := n\<rparr>) = core s" by (simp add: core_def)
    show "skel_ok (s\<lparr>outs := f, handles := n\<rparr>)" by (rule skel_same[OF assms(1) c])
    show "chain_free (Some c) (s\<lparr>outs := f, handles := n\<rparr>)" using chain_free_core[OF c] assms(2) by simp
    show "job_guard (Some c) (guard_of (KOffer (generation s) k o' hp)) (s\<lparr>outs := f, handles := n\<rparr>)"
      using assms(3)[OF that] by (simp add: job_guard_def)
  qed
  then show ?thesis
    using assms(1) by (cases "hc_state s") (auto simp: startPublish_def in_call_def split: option.split)
qed

lemma skel_startUnpublish:
  assumes "skel_ok s" "hp \<noteq> None \<Longrightarrow> chain_free ch s"
  shows "skel_ok (startUnpublish ch k o' hp s)"
proof -
  let ?s = "if o' \<noteq> None \<and> out_of k s = o' then stopOutgoing k s else s"
  have c: "core ?s = core s" by (simp add: core_def)
  have s: "skel_ok ?s" by (rule skel_same[OF assms(1) c])
  show ?thesis
  proof (cases hp)
    case None
    then show ?thesis using s by (simp add: startUnpublish_def)
  next
    case (Some x)
    then have "chain_free ch ?s" using assms(2) chain_free_core[OF c] by simp
    then have "skel_ok (await ch None KUnpublish (outp (OUnpublish x k) ?s))"
      by (intro skel_await_job) (use s in \<open>simp_all add: job_guard_def\<close>)
    then show ?thesis using Some by (simp add: startUnpublish_def Let_def)
  qed
qed

lemma skel_startSync:
  assumes "skel_ok s" "in_huddle s \<Longrightarrow> chain_free (Some c) s" "gen = generation s \<Longrightarrow> in_call s \<Longrightarrow> c = chain s"
  shows "skel_ok (startSync (Some c) gen ids s)"
proof (cases "in_huddle s \<and> gen = generation s")
  case True
  then have "in_call s" by (auto simp: in_huddle_def in_call_def)
  then have "chain_free (Some c) s" "job_guard (Some c) (OfJob gen) s"
    using True assms(2,3) by (auto simp: job_guard_def)
  then show ?thesis using assms(1)
    by (auto simp: startSync_def Let_def split: call_state.split option.split intro!: skel_receive skel_release)
next
  case False
  then show ?thesis using assms(1) in_huddle_ids[of s]
    by (auto simp: startSync_def Let_def split: call_state.split option.split)
qed

lemma skel_startVideo:
  assumes "skel_ok s" "in_huddle s \<Longrightarrow> chain_free (Some c) s" "gen = generation s \<Longrightarrow> in_call s \<Longrightarrow> c = chain s"
  shows "skel_ok (startVideo (Some c) gen ts s)"
proof (cases "in_huddle s \<and> gen = generation s")
  case True
  then have "in_call s" by (auto simp: in_huddle_def in_call_def)
  then have "chain_free (Some c) s" "job_guard (Some c) (OfJob gen) s"
    using True assms(2,3) by (auto simp: job_guard_def)
  then show ?thesis using assms(1)
    by (auto simp: startVideo_def Let_def split: call_state.split option.split intro!: skel_qualities skel_release)
next
  case False
  then show ?thesis using assms(1) in_huddle_ids[of s]
    by (auto simp: startVideo_def Let_def split: call_state.split option.split)
qed

lemma extract_props:
  assumes "List.extract P xs = Some (b, x, r)"
  shows "P x" "x \<in> set xs" "set (b @ r) \<subseteq> set xs"
proof -
  have "xs = b @ x # r" using extract_SomeE[OF assms] by simp
  then show "x \<in> set xs" "set (b @ r) \<subseteq> set xs" by auto
  show "P x" using extract_SomeE[OF assms] by simp
qed

lemma skel_runJob:
  assumes "skel_ok s"
  shows "skel_ok (runJob c s)"
proof (cases "chain_busy c s")
  case False
  then have free: "filter (of_chain c) (conts s) = []"
    by (auto simp: chain_busy_def list_ex_iff of_chain_def filter_empty_conv)
  show ?thesis
  proof (cases "List.extract (\<lambda>j. fst j = c) (jobs s)")
    case None
    then show ?thesis using assms False by (simp add: runJob_def)
  next
    case (Some t)
    obtain b j r where t: "t = (b, (c, j), r)" using extract_props(1)[of "\<lambda>j. fst j = c" "jobs s"] Some
      by (cases t) fastforce
    note e = extract_props[OF Some[unfolded t]]
    let ?s = "s\<lparr>jobs := b @ r\<rparr>"
    have s: "skel_ok ?s" using skel_drop_job[OF assms e(3)] .
    have jo: "job_ok s (c, j)" using assms e(2) by (simp add: skel_ok_def)
    have in1: "c < chain s \<or> c = chain s" using jo by (auto simp: job_ok_def)
    have cf: "chain_free (Some c) ?s" if "c = chain s \<longrightarrow> in_huddle s" using free in1 that by (auto simp: chain_free_def)
    have g: "c = chain ?s" if "job_generation j = Some (generation s)" "in_call ?s" for gen
      using jo that by (simp add: job_ok_def)
    have cf2: "chain_free (Some c) ?s" if "in_huddle ?s" using cf that by simp
    have "skel_ok (startPublish (Some c) gen k ?s)" if "j = JPublish gen k" for gen k
    proof (cases "in_huddle s")
      case True
      then show ?thesis using g that cf by (intro skel_startPublish[OF s]) auto
    next
      case False
      then have "startPublish (Some c) gen k ?s = ?s"
        using in_huddle_ids[of s] by (auto simp: startPublish_def split: call_state.split option.split)
      then show ?thesis using s by simp
    qed
    moreover have "skel_ok (startUnpublish (Some c) k o' hp ?s)" if "j = JUnpublish k o' hp" for k o' hp
      using jo that cf by (intro skel_startUnpublish[OF s]) (auto simp: job_ok_def)
    moreover have "skel_ok (startSync (Some c) gen ps ?s)" if "j = JSync gen ps" for gen ps
      using g that cf2 by (intro skel_startSync[OF s]) auto
    moreover have "skel_ok (startVideo (Some c) gen ts ?s)" if "j = JVideo gen ts" for gen ts
      using g that cf2 by (intro skel_startVideo[OF s]) auto
    ultimately show ?thesis using False Some t by (simp add: runJob_def Let_def split: job.split)
  qed
qed (use assms in \<open>simp add: runJob_def\<close>)

section \<open>The continuations\<close>

text \<open>What is known of a settled continuation: it has been taken out of the list.\<close>

definition taken :: "huddle_call \<Rightarrow> continuation \<Rightarrow> bool" where
  "taken s kt =
     (cont_ok s kt \<and> (\<forall>c. kt_chain kt = Some c \<longrightarrow> filter (of_chain c) (conts s) = [])
    \<and> (join_now s kt \<longrightarrow> filter (join_now s) (conts s) = [])
    \<and> (kt_conn kt = None \<or> kt_conn kt = hc_pc s))"

lemma taken_core: "core s = core s' \<Longrightarrow> taken s kt = taken s' kt"
proof -
  assume "core s = core s'"
  then have e: "generation s = generation s'" "chain s = chain s'" "conts s = conts s'" "hc_pc s = hc_pc s'"
      "phase (hc_state s) = phase (hc_state s')" by (simp_all add: core_def)
  then have "in_huddle s = in_huddle s'" "join_now s = join_now s'" "guard_ok s = guard_ok s'"
    by (simp_all add: in_huddle_def join_now_def guard_ok_def fun_eq_iff cong: guard.case_cong)
  then have "cont_ok s = cont_ok s'" using e by (simp add: cont_ok_def fun_eq_iff cong: option.case_cong)
  then show ?thesis using e \<open>join_now s = join_now s'\<close> by (simp add: taken_def)
qed

lemma taken_free: "taken s kt \<Longrightarrow> kt_chain kt \<noteq> None \<Longrightarrow> chain_free (kt_chain kt) s"
  by (auto simp: taken_def chain_free_def cont_ok_def split: option.splits)

lemma taken_chain:
  "taken s kt \<Longrightarrow> guard_of (kt_cont kt) = OfJob g \<Longrightarrow> chain_free (kt_chain kt) s \<and> job_guard (kt_chain kt) (OfJob g) s"
  using taken_free[of s kt] by (auto simp: taken_def cont_ok_def guard_ok_def job_guard_def)

lemma taken_in_chain: "taken s kt \<Longrightarrow> guard_of (kt_cont kt) = InChain \<Longrightarrow> chain_free (kt_chain kt) s"
  using taken_free[of s kt] by (auto simp: taken_def cont_ok_def guard_ok_def)

lemma job_guard_in [simp]: "job_guard ch InChain s" by (simp add: job_guard_def)

lemma taken_preview:
  "taken s kt \<Longrightarrow> guard_of (kt_cont kt) = OfPreview (generation s) \<Longrightarrow> phase (hc_state s) = PPreview"
  by (simp add: taken_def cont_ok_def guard_ok_def)

lemma taken_join:
  "taken s kt \<Longrightarrow> guard_of (kt_cont kt) = OfJoin (generation s) st \<Longrightarrow>
    phase (hc_state s) = PCall None None \<and> filter (join_now s) (conts s) = [] \<and> (hc_pc s = None \<longleftrightarrow> st = NoConnection)"
  by (auto simp: taken_def cont_ok_def guard_ok_def join_now_def)

lemma skel_previewMic:
  assumes "skel_ok s" "gen = generation s \<Longrightarrow> phase (hc_state s) = PPreview"
  shows "skel_ok (previewMic gen room a s)"
proof -
  have g: "skel_ok (snd (captured d s)\<lparr>hc_stream := x\<rparr>)" for d x
    by (rule skel_same[OF assms(1)]) (simp add: core_def)
  have "skel_ok (await None None (KPreviewDevices gen room) (snd (captured d s)\<lparr>hc_stream := x\<rparr>))" if "gen = generation s" for d x
    by (rule skel_await[OF g]) (use that assms(2) in \<open>simp_all add: cont_ok_def guard_ok_def join_now_def\<close>)
  moreover have "skel_ok (stopStream (snd (captured d s)\<lparr>hc_stream := x\<rparr>))" for d x
    by (rule skel_same[OF g]) (simp add: core_def)
  moreover have "skel_ok (s\<lparr>hc_state := InPreview q\<rparr>)" if "gen = generation s" for q
    using skel_state[OF assms(1)] assms(2)[OF that] by simp
  ultimately show ?thesis using assms(1)
    by (cases a) (simp_all add: previewMic_def Let_def case_prod_unfold)
qed

lemma skel_previewDevices:
  assumes "skel_ok s" "gen = generation s \<Longrightarrow> phase (hc_state s) = PPreview"
  shows "skel_ok (previewDevices gen room a s)"
  using assms skel_state[OF assms(1)] by (simp add: previewDevices_def Let_def split: option.split)

lemma skel_micReplaced: "skel_ok s \<Longrightarrow> skel_ok (micReplaced i x s)"
  by (erule skel_same) (simp add: micReplaced_def Let_def core_def split: call_state.split)

lemma skel_micGranted:
  assumes "skel_ok s"
  shows "skel_ok (micGranted i a s)"
proof -
  have g: "skel_ok (snd (captured d s)\<lparr>mic_enabled := f\<rparr>)" "skel_ok (snd (captured d s))" for d f
    by (rule skel_same[OF assms]; simp add: core_def)+
  show ?thesis
    using assms g skel_micReplaced[OF g(1)]
    by (cases a) (auto simp: micGranted_def Let_def case_prod_unfold intro!: skel_await_free)
qed

lemma skel_cameraGranted:
  assumes "skel_ok s"
  shows "skel_ok (cameraGranted gen a s)"
proof -
  have g: "skel_ok (newOutgoing VCamera x (stopOutgoing VCamera (snd (captured d s))))" "skel_ok (stopTracks x (snd (captured d s)))" for d x
    by (rule skel_same[OF assms]; simp add: core_def)+
  have r: "skel_ok (case hc_state s of InPreview p \<Rightarrow> s\<lparr>hc_state := InPreview (f p)\<rparr>
      | _ \<Rightarrow> patchCall (\<lambda>v. v\<lparr>cv_notice := n\<rparr>) s)" for f n
    using assms by (auto split: call_state.split intro!: skel_state skel_patch)
  show ?thesis using assms g r
    by (cases a) (auto simp: cameraGranted_def Let_def case_prod_unfold intro!: skel_await_free)
qed

lemma skel_cameraShown: "skel_ok s \<Longrightarrow> skel_ok (cameraShown gen x a s)"
  by (auto simp: cameraShown_def Let_def split: call_state.split option.split
      intro!: skel_publish skel_patch skel_state)

lemma skel_cameraReplaced: "skel_ok s \<Longrightarrow> skel_ok (cameraReplaced i o' x s)"
  by (erule skel_same) (simp add: cameraReplaced_def Let_def core_def setCamera_def split: call_state.split)

lemma skel_cameraSelected:
  assumes "skel_ok s"
  shows "skel_ok (cameraSelected i o' a s)"
proof -
  have g: "skel_ok (snd (captured d s))" "skel_ok (stopTracks x (snd (captured d s)))" for d x
    by (rule skel_same[OF assms]; simp add: core_def)+
  show ?thesis using assms g skel_cameraReplaced[OF g(1)]
    by (cases a) (auto simp: cameraSelected_def Let_def case_prod_unfold intro!: skel_await_free)
qed

lemma skel_screenGranted:
  assumes "skel_ok s"
  shows "skel_ok (screenGranted gen a s)"
proof -
  have g: "skel_ok (stopTracks x (snd (captured d s)))" "skel_ok (newOutgoing VScreen x (snd (captured d s)))" for d x
    by (rule skel_same[OF assms]; simp add: core_def)+
  show ?thesis using assms g
    by (cases a) (auto simp: screenGranted_def Let_def case_prod_unfold split: call_state.split intro!: skel_publish skel_patch)
qed

lemma skel_publishUndone: "skel_ok s \<Longrightarrow> skel_ok (publishUndone k o' err s)"
proof -
  assume s: "skel_ok s"
  have "skel_ok (if out_of k s = Some o' then stopOutgoing k s else s)"
    by (rule skel_same[OF s]) (simp add: core_def)
  then show ?thesis unfolding publishUndone_def by (rule skel_patch) (simp split: video_kind.split)
qed

lemma skel_publishFailed:
  "skel_ok s \<Longrightarrow> chain_free ch s \<Longrightarrow> skel_ok (publishFailed ch gen k o' err s)"
  by (auto simp: publishFailed_def intro: skel_await_job)

lemma skel_publishAnswered:
  "skel_ok s \<Longrightarrow> chain_free ch s \<Longrightarrow> job_guard ch (OfJob gen) s \<Longrightarrow> skel_ok (publishAnswered ch gen k o' hp b a s)"
  by (cases a) (auto simp: publishAnswered_def intro: skel_await_job skel_publishFailed)

lemma skel_joinFailed:
  assumes "skel_ok s" "gen = generation s \<Longrightarrow> phase (hc_state s) = PCall None None \<and> filter (join_now s) (conts s) = []"
  shows "skel_ok (joinFailed gen room err s)"
  unfolding joinFailed_def using assms by (auto intro: skel_fail)

lemma skel_iceKnown:
  assumes "skel_ok s" "gen = generation s \<Longrightarrow> phase (hc_state s) = PCall None None \<and> filter (join_now s) (conts s) = [] \<and> hc_pc s = None"
  shows "skel_ok (iceKnown gen room m c a t s)"
proof -
  have "skel_ok (await None (Some (handles s, gen)) (KJoinOffer gen room m c)
      (scheduleIceRefresh room x gen t (s\<lparr>handles := n, hc_pc := Some (handles s, gen), hc_sender := True\<rparr>)))"
    if "gen = generation s" for x n
  proof -
    let ?s = "scheduleIceRefresh room x gen t (s\<lparr>handles := n, hc_pc := Some (handles s, gen), hc_sender := True\<rparr>)"
    have f: "generation ?s = generation s" "chain ?s = chain s" "jobs ?s = jobs s" "conts ?s = conts s"
        "phase (hc_state ?s) = phase (hc_state s)" "hc_pc ?s = Some (handles s, gen)"
      by (simp_all add: scheduleIceRefresh_def)
    have i: "in_huddle ?s = in_huddle s" "in_call ?s = in_call s" "join_now ?s = join_now s"
      using f by (simp_all add: in_huddle_def in_call_def join_now_def fun_eq_iff)
    have none: "\<not> join_now s k" if "k \<in> set (conts s)" for k
      using assms(2) \<open>gen = generation s\<close> that by (simp add: filter_empty_conv)
    have "cont_ok ?s k" if "k \<in> set (conts s)" "cont_ok s k" for k
      using that none[OF that(1)] f i by (auto simp: cont_ok_def guard_ok_def join_now_def split: guard.splits option.splits)
    moreover have "job_ok ?s = job_ok s" using f i by (simp add: job_ok_def fun_eq_iff cong: option.case_cong)
    moreover have "phase_ok ?s" using assms that f i by (simp add: phase_ok_def in_huddle_def in_call_def)
    ultimately have "skel_ok ?s" using assms(1) f i unfolding skel_ok_def by simp
    then show ?thesis
      using assms(2) that f i by (intro skel_await) (simp_all add: cont_ok_def guard_ok_def)
  qed
  moreover have "skel_ok (joinFailed gen room err s)" for err by (rule skel_joinFailed) (use assms in simp_all)
  moreover have "skel_ok (joinFailed gen room EOther
      (scheduleIceRefresh room x gen t (s\<lparr>handles := n, hc_pc := Some c', hc_sender := True\<rparr>)))" if "gen = generation s" for x n c'
    using skel_fail[OF assms(1)] assms(2)[OF that] that by (simp add: joinFailed_def scheduleIceRefresh_def)
  ultimately show ?thesis using assms(1) by (cases a) (simp_all add: iceKnown_def Let_def split: option.split)
qed

lemma skel_await_joining:
  assumes "skel_ok s" "gen = generation s" "phase (hc_state s) = PCall None None" "filter (join_now s) (conts s) = []"
    "hc_pc s \<noteq> None" "guard_of k = OfJoin gen st" "st \<noteq> NoConnection" "cn = hc_pc s \<or> cn = None \<and> st = Connecting"
  shows "skel_ok (await None cn k s)"
proof (rule skel_await[OF assms(1)])
  have "snd c = generation s" if "hc_pc s = Some c" for c using pc_gen[OF assms(1)] that by (cases c) simp
  then show "cont_ok s \<lparr>kt_id = handles s, kt_chain = None, kt_conn = cn, kt_cont = k\<rparr>"
    using assms by (auto simp: cont_ok_def guard_ok_def split: option.split)
qed (use assms in simp_all)

lemma skel_offerMade:
  assumes "skel_ok s" "gen = generation s \<Longrightarrow> phase (hc_state s) = PCall None None \<and> filter (join_now s) (conts s) = [] \<and> hc_pc s \<noteq> None"
  shows "skel_ok (offerMade gen room m c a s)"
proof -
  have "skel_ok (joinFailed gen room err s)" for err by (rule skel_joinFailed) (use assms in simp_all)
  moreover have "skel_ok (await None None (KJoin gen room m c) (outp x s))" if "gen = generation s" for x
    by (rule skel_await_joining[of _ gen _ Connecting])
      (use assms that in \<open>simp_all add: join_now_def\<close>)
  ultimately show ?thesis using assms(1) by (cases a) (simp_all add: offerMade_def)
qed

lemma skel_joined:
  assumes "skel_ok s" "gen = generation s \<Longrightarrow> phase (hc_state s) = PCall None None \<and> filter (join_now s) (conts s) = [] \<and> hc_pc s \<noteq> None"
  shows "skel_ok (joined gen room m c a s)"
proof -
  have "skel_ok (joinFailed gen room err s)" for err by (rule skel_joinFailed) (use assms in simp_all)
  moreover have "skel_ok (await None (hc_pc s) (KJoinRemote gen room m c hp ps) s)" if "gen = generation s" for hp ps
    by (rule skel_await_joining[of _ gen _ Answering]) (use assms that in simp_all)
  ultimately show ?thesis using assms(1) by (cases a) (simp_all add: joined_def)
qed

text \<open>The participant has been admitted.\<close>

lemma skel_enter:
  assumes "skel_ok s" "phase (hc_state s) = PCall None None" "filter (join_now s) (conts s) = []" "hc_pc s \<noteq> None"
    "generation s' = generation s" "chain s' = chain s" "jobs s' = jobs s" "conts s' = conts s" "hc_pc s' = hc_pc s"
    "phase (hc_state s') = PCall (Some h) (Some p)"
  shows "skel_ok s'"
proof -
  have i: "\<not> in_huddle s" "in_call s" "in_huddle s'" "in_call s'" "join_now s' = join_now s"
    using assms(2,5,10) by (simp_all add: in_huddle_def in_call_def join_now_def fun_eq_iff)
  have none: "\<not> join_now s k" if "k \<in> set (conts s)" for k using assms(3) that by (simp add: filter_empty_conv)
  have "cont_ok s' k" if "k \<in> set (conts s)" "cont_ok s k" for k
    using that none[OF that(1)] i assms(2,5,6)
    by (auto simp: cont_ok_def guard_ok_def join_now_def split: guard.splits option.splits)
  moreover have "job_ok s' j" if "job_ok s j" for j
    using that i assms(5,6) by (auto simp: job_ok_def split: option.splits)
  moreover have "phase_ok s'" using assms(1,4,5,9,10) i by (simp add: skel_ok_def phase_ok_def)
  ultimately show ?thesis using assms(1,7,8) i unfolding skel_ok_def by simp
qed

lemma skel_joinConnected:
  assumes "skel_ok s" "gen = generation s" "phase (hc_state s) = PCall None None" "filter (join_now s) (conts s) = []" "hc_pc s \<noteq> None"
  shows "skel_ok (joinConnected gen room m c hp ps a s)"
proof -
  let ?s1 = "patchCall (\<lambda>v. v\<lparr>cv_huddleId := Some (fst hp), cv_participantId := Some (snd hp)\<rparr>) s"
  let ?s2 = "if m then ?s1 else outp (OMuted hp True) ?s1"
  have p: "phase (hc_state ?s2) = PCall (Some (fst hp)) (Some (snd hp))"
    using assms(3) by (cases "hc_state s") (simp_all add: patchCall_def)
  have f: "generation ?s2 = generation s" "chain ?s2 = chain s" "jobs ?s2 = jobs s" "conts ?s2 = conts s" "hc_pc ?s2 = hc_pc s"
    by simp_all
  have "skel_ok ((teardownCall ?s2)\<lparr>hc_state := CallProblem room err\<rparr>)" for err
    by (rule skel_fail[OF assms(1,3,4)]) (use f in simp_all)
  then have fail: "skel_ok (joinFailed gen room err ?s2)" for err using assms(2) by (simp add: joinFailed_def)
  have "skel_ok ?s2" by (rule skel_enter[OF assms(1,3,4,5) f p])
  then have e: "skel_ok (?s2\<lparr>hc_meter := x, hc_heartbeat := y, hc_speaking := z\<rparr>)" for x y z
    by (rule skel_same) (simp add: core_def)
  have go: "skel_ok (sync ps (if c then publish gen VCamera t else t))" if "skel_ok t" "generation t = gen" for t
    using that by (cases c) (simp_all add: skel_sync skel_publish)
  have "skel_ok (sync ps (if c then publish gen VCamera (?s2\<lparr>hc_meter := x, hc_heartbeat := y, hc_speaking := z\<rparr>)
      else ?s2\<lparr>hc_meter := x, hc_heartbeat := y, hc_speaking := z\<rparr>))" for x y z
    by (rule go[OF e]) (use f assms(2) in simp)
  moreover have "skel_ok (joinFailed gen room err s)" for err by (rule skel_joinFailed) (use assms in simp_all)
  ultimately show ?thesis
    unfolding joinConnected_def Let_def using fail by (simp only: split: answer.split option.split) simp
qed

lemma skel_iceRefreshed: "skel_ok s \<Longrightarrow> skel_ok (iceRefreshed gen room a t s)"
  by (erule skel_same) (simp add: iceRefreshed_def scheduleIceRefresh_def core_def)

lemma skel_subscribed:
  assumes "skel_ok s" "chain_free ch s" "job_guard ch (OfJob gen) s"
  shows "skel_ok (subscribed ch gen hp reqs b a s)"
proof -
  have c: "core (fold (addRemote reqs) ts s) = core s" for ts by simp
  have s: "skel_ok (fold (addRemote reqs) ts s)" for ts by (rule skel_same[OF assms(1) c])
  have "skel_ok (await ch cn (KAnswer hp) (fold (addRemote reqs) ts s))" for cn ts
    by (rule skel_await_job[OF s]) (use chain_free_core[OF c] assms(2) in simp_all)
  then show ?thesis using assms s
    by (cases a) (auto simp: subscribed_def Let_def intro: skel_await_job)
qed

lemma skel_answerMade: "skel_ok s \<Longrightarrow> chain_free ch s \<Longrightarrow> skel_ok (answerMade ch hp a s)"
  by (cases a) (auto simp: answerMade_def intro: skel_await_job)

lemma skel_renegotiated: "skel_ok s \<Longrightarrow> chain_free ch s \<Longrightarrow> skel_ok (renegotiated ch hp b a s)"
  by (cases a) (auto simp: renegotiated_def intro: skel_await_job)

lemma skel_beatAnswered: "skel_ok s \<Longrightarrow> skel_ok (beatAnswered gen a s)"
  by (simp add: beatAnswered_def skel_end)

lemma core_qualitySet: "core (qualitySet ref q a s) = core s"
  by (cases a) (simp_all add: qualitySet_def core_def)

section \<open>Every step\<close>

lemma length_le1_removed:
  "length (filter P xs) \<le> 1 \<Longrightarrow> x \<in> set xs \<Longrightarrow> P x \<Longrightarrow> \<not> Q x \<Longrightarrow> filter P (filter Q xs) = []"
proof (induction xs)
  case (Cons y ys)
  show ?case
  proof (cases "P y")
    case True
    then have "filter P ys = []" using Cons.prems(1) by simp
    moreover from this have "x = y" using Cons.prems(2,3) by (auto simp: filter_empty_conv)
    ultimately show ?thesis using Cons.prems(4) by (simp add: filter_empty_conv)
  next
    case False
    then show ?thesis using Cons by auto
  qed
qed simp

lemma skel_taken:
  assumes "skel_ok s" "kt \<in> set (conts s)" "kt_conn kt = None \<or> kt_conn kt = hc_pc s"
  shows "taken (s\<lparr>conts := filter (\<lambda>k. kt_id k \<noteq> kt_id kt) (conts s)\<rparr>) kt"
proof -
  let ?f = "filter (\<lambda>k. kt_id k \<noteq> kt_id kt) (conts s)"
  have "cont_ok s kt" using assms(1,2) by (simp add: skel_ok_def)
  moreover have "filter (of_chain c) ?f = []" if "kt_chain kt = Some c" for c
    using assms(1,2) that by (intro length_le1_removed[of _ _ kt]) (simp_all add: skel_ok_def of_chain_def)
  moreover have "filter (join_now s) ?f = []" if "join_now s kt"
    using assms(1,2) that by (intro length_le1_removed[of _ _ kt]) (simp_all add: skel_ok_def)
  ultimately show ?thesis using assms(3) unfolding taken_def by simp
qed

lemma skel_resumeCont:
  assumes "skel_ok s" "taken s kt"
  shows "skel_ok (resumeCont kt a t s)"
proof -
  have q: "core (qualitySet r q a s) = core s" for r q by (rule core_qualitySet)
  have ch: "chain_free (kt_chain kt) s \<and> job_guard (kt_chain kt) (OfJob g) s" if "guard_of (kt_cont kt) = OfJob g" for g
    using taken_chain[OF assms(2) that] .
  have ic: "chain_free (kt_chain kt) s" if "guard_of (kt_cont kt) = InChain"
    using taken_in_chain[OF assms(2) that] .
  have pv: "phase (hc_state s) = PPreview" if "guard_of (kt_cont kt) = OfPreview (generation s)"
    using taken_preview[OF assms(2) that] .
  have jn: "phase (hc_state s) = PCall None None \<and> filter (join_now s) (conts s) = [] \<and> (hc_pc s = None \<longleftrightarrow> st = NoConnection)"
    if "guard_of (kt_cont kt) = OfJoin (generation s) st" for st
    using taken_join[OF assms(2) that] .
  show ?thesis
  proof (cases "kt_cont kt")
    case (KPreviewMic g r)
    then show ?thesis using skel_previewMic[OF assms(1)] pv by (simp add: resumeCont_def)
  next
    case (KPreviewDevices g r)
    then show ?thesis using skel_previewDevices[OF assms(1)] pv by (simp add: resumeCont_def)
  next
    case (KJoinIce g r m c)
    then show ?thesis using skel_iceKnown[OF assms(1)] jn[of NoConnection] by (simp add: resumeCont_def)
  next
    case (KJoinOffer g r m c)
    then show ?thesis using skel_offerMade[OF assms(1)] jn[of Connecting] by (simp add: resumeCont_def)
  next
    case (KJoin g r m c)
    then show ?thesis using skel_joined[OF assms(1)] jn[of Connecting] by (simp add: resumeCont_def)
  next
    case (KJoinRemote g r m c hp ps)
    then obtain x where x: "kt_conn kt = Some x" "snd x = g"
      using assms(2) by (cases "kt_conn kt") (simp_all add: taken_def cont_ok_def guard_ok_def)
    then have "hc_pc s = Some (fst x, g)" using assms(2) by (auto simp: taken_def)
    then have "g = generation s" by (rule pc_gen[OF assms(1)])
    then show ?thesis using skel_joinConnected[OF assms(1)] jn[of Answering] KJoinRemote by (simp add: resumeCont_def)
  next
    case (KQuality g hp r q rest reqs)
    then have "skel_ok (qualities (kt_chain kt) g hp rest reqs (qualitySet r q a s))"
      using ch[of g] chain_free_core[OF core_qualitySet] job_guard_core[OF core_qualitySet] skel_same[OF assms(1) core_qualitySet]
      by (intro skel_qualities) simp_all
    then show ?thesis using KQuality by (simp add: resumeCont_def)
  next
    case (KOffer g k o' hp)
    then show ?thesis using assms(1) ch[of g]
      by (auto simp: resumeCont_def Let_def split: answer.split intro!: skel_await_job skel_publishFailed)
  next
    case (KPublish g k o' hp b)
    then show ?thesis using skel_publishAnswered[OF assms(1)] ch[of g] by (simp add: resumeCont_def)
  next
    case (KPublishWait g k o' hp)
    then show ?thesis using assms(1) ch[of g] by (auto simp: resumeCont_def intro!: skel_await_job)
  next
    case (KPublishRemote g k o')
    then show ?thesis using assms(1) ch[of g] by (auto simp: resumeCont_def Let_def split: answer.split intro!: skel_publishFailed)
  next
    case (KSyncRelease g hp reqs)
    then show ?thesis using skel_receive[OF assms(1)] ch[of g] by (simp add: resumeCont_def)
  next
    case (KVideoRelease g hp ps reqs)
    then show ?thesis using skel_qualities[OF assms(1)] ch[of g] by (simp add: resumeCont_def)
  next
    case (KSubscribe g hp reqs b)
    then show ?thesis using skel_subscribed[OF assms(1)] ch[of g] by (simp add: resumeCont_def)
  next
    case (KSubscribeWait g hp reqs)
    then show ?thesis using assms(1) ch[of g] by (auto simp: resumeCont_def intro!: skel_await_job)
  next
    case (KRenegotiateWait hp)
    then show ?thesis using assms(1) ic by (auto simp: resumeCont_def intro!: skel_await_job)
  qed (use assms(1) ic in \<open>simp_all add: resumeCont_def Let_def skel_micGranted skel_micReplaced skel_cameraGranted skel_cameraShown
      skel_cameraSelected skel_cameraReplaced skel_screenGranted skel_publishUndone skel_iceRefreshed skel_answerMade
      skel_renegotiated skel_beatAnswered split: answer.split\<close>)
qed

lemma find_set: "List.find P xs = Some x \<Longrightarrow> x \<in> set xs \<and> P x"
  by (induction xs) (auto split: if_splits)

lemma skel_settle: "skel_ok s \<Longrightarrow> skel_ok (settle i a t s)"
proof -
  assume s: "skel_ok s"
  show ?thesis
  proof (cases "List.find (\<lambda>k. kt_id k = i) (conts s)")
    case (Some kt)
    then have k: "kt \<in> set (conts s)" "kt_id kt = i" using find_set by fastforce+
    show ?thesis
    proof (cases "kt_conn kt = None \<or> kt_conn kt = hc_pc s")
      case True
      then show ?thesis
        using Some s k skel_resumeCont[OF skel_drop[OF s] skel_taken[OF s k(1) True], of a t]
        by (auto simp: settle_def)
    qed (use Some s in \<open>simp add: settle_def\<close>)
  qed (use s in \<open>simp add: settle_def\<close>)
qed

lemmas skel_ops = skel_openPreview skel_cancelPreview skel_toggleMic skel_selectMic skel_selectSpeaker skel_toggleCamera
  skel_selectCamera skel_toggleShare skel_join skel_sync skel_syncVideo skel_setMuted skel_leave skel_receiveLeft
  skel_dismissProblem skel_runJob skel_settle skel_fireIceTimer skel_fireHeartbeat skel_measureSpeaking
  skel_connectionChanged skel_trackArrived skel_screenEnded

lemma skel_step: "skel_ok s \<Longrightarrow> skel_ok (callStep te s)"
  by (cases "snd te") (simp_all add: callStep_def skel_ops dismissNotice_def skel_patch)

lemma skel_start: "skel_ok (createHuddleCall u d sp)"
  by (simp add: createHuddleCall_def skel_ok_def phase_ok_def in_huddle_def)

lemma skel_run: "skel_ok s \<Longrightarrow> skel_ok (callRun s es)"
  unfolding callRun_def by (induction es arbitrary: s) (simp_all add: skel_step)

section \<open>One exchange at a time\<close>

lemma skel_one:
  assumes "skel_ok s"
  shows "length (filter (\<lambda>k. kt_chain k = Some (chain s) \<or> join_now s k) (conts s)) \<le> 1"
proof (cases "filter (join_now s) (conts s) = []")
  case True
  then have "filter (\<lambda>k. kt_chain k = Some (chain s) \<or> join_now s k) (conts s) = filter (of_chain (chain s)) (conts s)"
    by (intro filter_cong) (auto simp: filter_empty_conv of_chain_def)
  then show ?thesis using assms by (simp add: skel_ok_def)
next
  case False
  then obtain k where k: "k \<in> set (conts s)" "join_now s k" by (auto simp: filter_empty_conv)
  then have "\<not> in_huddle s"
    using assms by (auto simp: skel_ok_def cont_ok_def join_now_def guard_ok_def in_huddle_def)
  then have "kt_chain j \<noteq> Some (chain s)" if "j \<in> set (conts s)" for j
    using assms that by (auto simp: skel_ok_def cont_ok_def)
  then have "filter (\<lambda>k. kt_chain k = Some (chain s) \<or> join_now s k) (conts s) = filter (join_now s) (conts s)"
    by (intro filter_cong) auto
  then show ?thesis using assms by (simp add: skel_ok_def)
qed

text \<open>C22: exchanges of session descriptions do not overlap. Whatever the user, the server, the browser and the timers
  do, in any order, at most one promise is pending among the work of the queue of this call (publishing,
  subscribing, answering, leaving a track) and the join under way (\<open>call.ts\<close>, the queue and the generation).\<close>

theorem one_exchange:
  "let s = callRun (createHuddleCall u display speaker) es in
    length (filter (\<lambda>k. kt_chain k = Some (chain s) \<or> join_now s k) (conts s)) \<le> 1"
  unfolding Let_def by (rule skel_one[OF skel_run[OF skel_start]])

end
