(* ===== verification/HuddlePromises.thy ===== *)
theory HuddlePromises
  imports HuddleRuns
begin

text \<open>
  The promises of a huddle call (\<open>HuddleCall\<close>): a step gives new ones new numbers, keeps those that it does not
  settle, and never lowers the generation. So a promise of a connection that has been closed stays for ever.
\<close>

definition grows :: "huddle_call \<Rightarrow> huddle_call \<Rightarrow> bool" where
  "grows s s' \<longleftrightarrow> generation s \<le> generation s' \<and> handles s \<le> handles s' \<and> set (conts s) \<subseteq> set (conts s') \<and>
     (\<forall>k\<in>set (conts s') - set (conts s). handles s \<le> kt_id k \<and> kt_id k < handles s' \<and>
        (\<forall>k'\<in>set (conts s') - set (conts s). kt_id k' = kt_id k \<longrightarrow> k' = k))"

lemma grows_refl: "grows s s"
  by (simp add: grows_def)

lemma grows_trans: "grows a b \<Longrightarrow> grows b c \<Longrightarrow> grows a c"
proof -
  assume g: "grows a b" "grows b c"
  have old: "k \<in> set (conts b) - set (conts a) \<or> k \<in> set (conts c) - set (conts b)" if "k \<in> set (conts c) - set (conts a)" for k
    using that by blast
  have one: "handles a \<le> kt_id k" "kt_id k < handles c" if "k \<in> set (conts c) - set (conts a)" for k
    using old[OF that] g unfolding grows_def by (metis order_trans less_le_trans)+
  have two: "k' = k" if "k \<in> set (conts c) - set (conts a)" "k' \<in> set (conts c) - set (conts a)" "kt_id k' = kt_id k" for k k'
    using old[OF that(1)] old[OF that(2)] that(3) g unfolding grows_def by (metis leD)
  show "grows a c" using g one two unfolding grows_def by (meson order_trans)
qed

section \<open>The parts\<close>

lemma handles_parts [simp]:
  "handles (outp e s) = handles s" "handles (stopTracks x s) = handles s" "handles (setOut k o1 s) = handles s"
  "handles (enqueueJob j s) = handles s" "handles (patchCall pf s) = handles s" "handles (enableMic b s) = handles s"
  by (simp_all add: outp_def stopTracks_def setOut_def enqueueJob_def patchCall_def enableMic_def
      split: option.split video_kind.split call_state.split)

lemma handles_stops [simp]:
  "handles (stopStream s) = handles s" "handles (stopOutgoing k s) = handles s" "handles (stopVideo k s) = handles s"
  by (simp_all add: stopStream_def stopOutgoing_def stopVideo_def Let_def split: option.split)

lemma handles_attach [simp]: "handles (attach m x s) = handles s"
  by (simp add: attach_def split: option.split track_kind.split)

lemma handles_teardown [simp]: "handles (teardownCall s) = handles s"
  by (simp add: teardownCall_def Let_def split: option.split call_state.split prod.split)

lemma fields_enqueue [simp]: "generation (enqueueJob j s) = generation s" "conts (enqueueJob j s) = conts s"
  by (simp_all add: enqueueJob_def)

lemma handles_more [simp]:
  "handles (newOutgoing k x s) = handles s + 1" "handles (snd (captured d s)) = handles s + 1"
  "handles (addRemote reqs t s) = handles s + 1"
  by (simp_all add: newOutgoing_def captured_def addRemote_def Let_def split: video_kind.split prod.split option.split)

lemma fields_await [simp]:
  "generation (await ch cn k s) = generation s" "handles (await ch cn k s) = handles s + 1"
  "conts (await ch cn k s) = conts s @ [\<lparr>kt_id = handles s, kt_chain = ch, kt_conn = cn, kt_cont = k\<rparr>]"
  by (simp_all add: await_def)

lemma grows_await: "grows s (await ch cn k s)"
  by (auto simp: grows_def)

lemma grows_addRemotes: "grows s (fold (addRemote reqs) ts s)"
proof (induction ts arbitrary: s)
  case (Cons t ts)
  have "grows s (addRemote reqs t s)" by (simp add: grows_def)
  then show ?case using grows_trans Cons.IH by fastforce
qed (simp add: grows_refl)

lemma grow_qualities: "grows s (qualities ch gen hp ps reqs s)"
  by (induction ch gen hp ps reqs s rule: qualities.induct) (auto simp: receive_def grows_def split: option.split)

section \<open>The operations\<close>

lemma grow_openPreview: "grows s (openPreview room s)"
  by (auto simp: openPreview_def grows_def Let_def case_prod_unfold
      split: call_state.split option.split answer.split video_kind.split prod.split)

lemma grow_cancelPreview: "grows s (cancelPreview s)"
  by (auto simp: cancelPreview_def grows_def Let_def case_prod_unfold
      split: call_state.split option.split answer.split video_kind.split prod.split)

lemma grow_setMuted: "grows s (setMuted m s)"
  by (auto simp: setMuted_def grows_def Let_def case_prod_unfold
      split: call_state.split option.split answer.split video_kind.split prod.split)

lemma grow_toggleMic: "grows s (toggleMic s)"
  by (auto simp: toggleMic_def grows_def setMuted_def Let_def case_prod_unfold
      split: call_state.split option.split answer.split video_kind.split prod.split)

lemma grow_selectMic: "grows s (selectMic i s)"
  by (auto simp: selectMic_def grows_def Let_def case_prod_unfold
      split: call_state.split option.split answer.split video_kind.split prod.split)

lemma grow_selectSpeaker: "grows s (selectSpeaker i s)"
  by (auto simp: selectSpeaker_def grows_def Let_def case_prod_unfold
      split: call_state.split option.split answer.split video_kind.split prod.split)

lemma grow_unpublish: "grows s (unpublish k s)"
  by (auto simp: unpublish_def grows_def Let_def case_prod_unfold
      split: call_state.split option.split answer.split video_kind.split prod.split)

lemma grow_toggleCamera: "grows s (toggleCamera s)"
  by (auto simp: toggleCamera_def grows_def unpublish_def Let_def case_prod_unfold
      split: call_state.split option.split answer.split video_kind.split prod.split)

lemma grow_selectCamera: "grows s (selectCamera i s)"
  by (auto simp: selectCamera_def grows_def Let_def case_prod_unfold
      split: call_state.split option.split answer.split video_kind.split prod.split)

lemma grow_toggleShare: "grows s (toggleShare s)"
  by (auto simp: toggleShare_def grows_def unpublish_def Let_def case_prod_unfold
      split: call_state.split option.split answer.split video_kind.split prod.split)

lemma grow_dismissNotice: "grows s (dismissNotice s)"
  by (auto simp: dismissNotice_def grows_def Let_def case_prod_unfold
      split: call_state.split option.split answer.split video_kind.split prod.split)

lemma grow_join: "grows s (join s)"
  by (auto simp: join_def grows_def Let_def case_prod_unfold
      split: call_state.split option.split answer.split video_kind.split prod.split)

lemma grow_sync: "grows s (sync ids s)"
  by (auto simp: sync_def grows_def Let_def case_prod_unfold
      split: call_state.split option.split answer.split video_kind.split prod.split)

lemma grow_syncVideo: "grows s (syncVideo ts s)"
  by (auto simp: syncVideo_def grows_def Let_def case_prod_unfold
      split: call_state.split option.split answer.split video_kind.split prod.split)

lemma grow_endCall: "grows s (endCall p l ka s)"
  by (auto simp: endCall_def grows_def Let_def case_prod_unfold
      split: call_state.split option.split answer.split video_kind.split prod.split)

lemma grow_leave: "grows s (leave ka s)"
  by (auto simp: leave_def grows_def endCall_def Let_def case_prod_unfold
      split: call_state.split option.split answer.split video_kind.split prod.split)

lemma grow_receiveLeft: "grows s (receiveLeft q r s)"
  by (auto simp: receiveLeft_def grows_def endCall_def Let_def case_prod_unfold
      split: call_state.split option.split answer.split video_kind.split prod.split)

lemma grow_dismissProblem: "grows s (dismissProblem s)"
  by (auto simp: dismissProblem_def grows_def Let_def case_prod_unfold
      split: call_state.split option.split answer.split video_kind.split prod.split)

lemma grow_fireIceTimer: "grows s (fireIceTimer t s)"
  by (auto simp: fireIceTimer_def grows_def Let_def case_prod_unfold
      split: call_state.split option.split answer.split video_kind.split prod.split)

lemma grow_fireHeartbeat: "grows s (fireHeartbeat s)"
  by (auto simp: fireHeartbeat_def grows_def Let_def case_prod_unfold
      split: call_state.split option.split answer.split video_kind.split prod.split)

lemma grow_measureSpeaking: "grows s (measureSpeaking l s)"
  by (auto simp: measureSpeaking_def grows_def Let_def case_prod_unfold
      split: call_state.split option.split answer.split video_kind.split prod.split)

lemma grow_connectionChanged: "grows s (connectionChanged c ch s)"
  by (auto simp: connectionChanged_def grows_def endCall_def Let_def case_prod_unfold
      split: call_state.split option.split answer.split video_kind.split prod.split connection_change.split)

lemma grow_trackArrived: "grows s (trackArrived c m x s)"
  by (auto simp: trackArrived_def grows_def Let_def case_prod_unfold
      split: call_state.split option.split answer.split video_kind.split prod.split)

lemma grow_screenEnded: "grows s (screenEnded x s)"
  by (auto simp: screenEnded_def grows_def unpublish_def Let_def case_prod_unfold
      split: call_state.split option.split answer.split video_kind.split prod.split)

lemma grow_startPublish: "grows s (startPublish ch gen k s)"
  by (auto simp: startPublish_def grows_def Let_def case_prod_unfold
      split: call_state.split option.split answer.split video_kind.split prod.split)

lemma grow_startUnpublish: "grows s (startUnpublish ch k o1 hp s)"
  by (auto simp: startUnpublish_def grows_def Let_def case_prod_unfold
      split: call_state.split option.split answer.split video_kind.split prod.split)

lemma grow_receive: "grows s (receive ch gen hp reqs s)"
  by (auto simp: receive_def grows_def Let_def case_prod_unfold
      split: call_state.split option.split answer.split video_kind.split prod.split)

lemma grow_release: "grows s (release ch hp gone k s)"
  by (auto simp: release_def grows_def Let_def case_prod_unfold
      split: call_state.split option.split answer.split video_kind.split prod.split)

lemma grow_startSync: "grows s (startSync ch gen ids s)"
  by (auto simp: startSync_def grows_def receive_def release_def Let_def case_prod_unfold
      split: call_state.split option.split answer.split video_kind.split prod.split)

lemma grow_startVideo: "grows s (startVideo ch gen ts s)"
proof -
  have "grows s (release ch hp gone k s)" for hp gone k by (rule grow_release)
  then show ?thesis using grow_qualities by (auto simp: startVideo_def grows_refl Let_def split: call_state.split option.split)
qed

section \<open>The continuations\<close>

lemma grow_previewMic: "grows s (previewMic gen room a s)"
  by (auto simp: previewMic_def grows_def Let_def case_prod_unfold
      split: call_state.split option.split answer.split video_kind.split prod.split)

lemma grow_previewDevices: "grows s (previewDevices gen room a s)"
  by (auto simp: previewDevices_def grows_def Let_def case_prod_unfold
      split: call_state.split option.split answer.split video_kind.split prod.split)

lemma grow_micReplaced: "grows s (micReplaced i x s)"
  by (auto simp: micReplaced_def grows_def Let_def case_prod_unfold
      split: call_state.split option.split answer.split video_kind.split prod.split)

lemma grow_micGranted: "grows s (micGranted i a s)"
  by (auto simp: micGranted_def grows_def micReplaced_def Let_def case_prod_unfold
      split: call_state.split option.split answer.split video_kind.split prod.split)

lemma grow_cameraGranted: "grows s (cameraGranted gen a s)"
  by (auto simp: cameraGranted_def grows_def Let_def case_prod_unfold
      split: call_state.split option.split answer.split video_kind.split prod.split)

lemma grow_cameraShown: "grows s (cameraShown gen x a s)"
  by (auto simp: cameraShown_def grows_def publish_def Let_def case_prod_unfold
      split: call_state.split option.split answer.split video_kind.split prod.split)

lemma grow_cameraReplaced: "grows s (cameraReplaced i o1 x s)"
  by (auto simp: cameraReplaced_def grows_def Let_def case_prod_unfold
      split: call_state.split option.split answer.split video_kind.split prod.split)

lemma grow_cameraSelected: "grows s (cameraSelected i o1 a s)"
  by (auto simp: cameraSelected_def grows_def cameraReplaced_def Let_def case_prod_unfold
      split: call_state.split option.split answer.split video_kind.split prod.split)

lemma grow_screenGranted: "grows s (screenGranted gen a s)"
  by (auto simp: screenGranted_def grows_def publish_def Let_def case_prod_unfold
      split: call_state.split option.split answer.split video_kind.split prod.split)

lemma grow_publishUndone: "grows s (publishUndone k o1 err s)"
  by (auto simp: publishUndone_def grows_def Let_def case_prod_unfold
      split: call_state.split option.split answer.split video_kind.split prod.split)

lemma grow_publishFailed: "grows s (publishFailed ch gen k o1 err s)"
  by (auto simp: publishFailed_def grows_def Let_def case_prod_unfold
      split: call_state.split option.split answer.split video_kind.split prod.split)

lemma grow_publishAnswered: "grows s (publishAnswered ch gen k o1 hp b a s)"
  by (auto simp: publishAnswered_def grows_def publishFailed_def Let_def case_prod_unfold
      split: call_state.split option.split answer.split video_kind.split prod.split)

lemma grow_joinFailed: "grows s (joinFailed gen room err s)"
  by (auto simp: joinFailed_def grows_def Let_def case_prod_unfold
      split: call_state.split option.split answer.split video_kind.split prod.split)

lemma grow_iceKnown: "grows s (iceKnown gen room b c a t s)"
  by (auto simp: iceKnown_def grows_def joinFailed_def scheduleIceRefresh_def Let_def case_prod_unfold
      split: call_state.split option.split answer.split video_kind.split prod.split)

lemma grow_offerMade: "grows s (offerMade gen room b c a s)"
  by (auto simp: offerMade_def grows_def joinFailed_def Let_def case_prod_unfold
      split: call_state.split option.split answer.split video_kind.split prod.split)

lemma grow_joined: "grows s (joined gen room b c a s)"
  by (auto simp: joined_def grows_def joinFailed_def Let_def case_prod_unfold
      split: call_state.split option.split answer.split video_kind.split prod.split)

lemma grow_joinConnected: "grows s (joinConnected gen room b c hp ps a s)"
  by (auto simp: joinConnected_def grows_def joinFailed_def sync_def publish_def Let_def case_prod_unfold
      split: call_state.split option.split answer.split video_kind.split prod.split)

lemma grow_iceRefreshed: "grows s (iceRefreshed gen room a t s)"
  by (auto simp: iceRefreshed_def grows_def scheduleIceRefresh_def Let_def case_prod_unfold
      split: call_state.split option.split answer.split video_kind.split prod.split)

lemma grow_subscribed: "grows s (subscribed ch gen hp reqs b a s)"
proof (cases a)
  case (ASubscribed offer tracks)
  then show ?thesis
    using grows_trans[OF grows_addRemotes grows_await] grows_addRemotes by (auto simp: subscribed_def grows_refl Let_def)
qed (auto simp: subscribed_def grows_def)

lemma grow_answerMade: "grows s (answerMade ch hp a s)"
  by (auto simp: answerMade_def grows_def Let_def case_prod_unfold
      split: call_state.split option.split answer.split video_kind.split prod.split)

lemma grow_renegotiated: "grows s (renegotiated ch hp b a s)"
  by (auto simp: renegotiated_def grows_def Let_def case_prod_unfold
      split: call_state.split option.split answer.split video_kind.split prod.split)

lemma grow_beatAnswered: "grows s (beatAnswered gen a s)"
  by (auto simp: beatAnswered_def grows_def endCall_def Let_def case_prod_unfold
      split: call_state.split option.split answer.split video_kind.split prod.split)

lemma grow_qualitySet: "grows s (qualitySet r q a s)"
  by (auto simp: qualitySet_def grows_def Let_def case_prod_unfold
      split: call_state.split option.split answer.split video_kind.split prod.split)

section \<open>Every step\<close>

lemmas grow_ops = grow_openPreview grow_cancelPreview grow_setMuted grow_toggleMic grow_selectMic grow_selectSpeaker grow_unpublish grow_toggleCamera grow_selectCamera grow_toggleShare grow_dismissNotice grow_join grow_sync grow_syncVideo grow_endCall grow_leave grow_receiveLeft grow_dismissProblem grow_fireIceTimer grow_fireHeartbeat grow_measureSpeaking grow_connectionChanged grow_trackArrived grow_screenEnded grow_startPublish grow_startUnpublish grow_receive grow_release grow_startSync grow_startVideo grow_previewMic grow_previewDevices grow_micReplaced grow_micGranted grow_cameraGranted grow_cameraShown grow_cameraReplaced grow_cameraSelected grow_screenGranted grow_publishUndone grow_publishFailed grow_publishAnswered grow_joinFailed grow_iceKnown grow_offerMade grow_joined grow_joinConnected grow_iceRefreshed grow_subscribed grow_answerMade grow_renegotiated grow_beatAnswered grow_qualitySet grow_qualities

lemma grows_outp: "grows s s' \<Longrightarrow> grows s (outp x s')"
  by (simp add: grows_def)

lemma grow_resumeCont: "grows s (resumeCont kt a t s)"
  by (cases "kt_cont kt")
     (auto simp: resumeCont_def Let_def grow_ops grows_refl intro: grows_trans[OF grows_outp[OF grows_refl] grows_await]
        grows_trans[OF grow_qualitySet grow_qualities] split: answer.split)

definition settles :: "call_event \<Rightarrow> nat option" where
  "settles e = (case e of EvSettle i a \<Rightarrow> Some i | _ \<Rightarrow> None)"

definition numbered :: "huddle_call \<Rightarrow> bool" where
  \<comment> \<open>every promise has its own number, below the next\<close>
  "numbered s \<longleftrightarrow> (\<forall>k\<in>set (conts s). kt_id k < handles s \<and> (\<forall>k'\<in>set (conts s). kt_id k' = kt_id k \<longrightarrow> k' = k))"

lemma grows_jobs: "grows (s\<lparr>jobs := js\<rparr>) s' \<Longrightarrow> grows s s'"
  by (simp add: grows_def)

lemma grow_runJob: "grows s (runJob c s)"
proof (cases "chain_busy c s \<or> List.extract (\<lambda>j. fst j = c) (jobs s) = None")
  case False
  then obtain b c' j r where e: "List.extract (\<lambda>j. fst j = c) (jobs s) = Some (b, (c', j), r)" "\<not> chain_busy c s"
    by (metis not_Some_eq prod.exhaust)
  show ?thesis
    by (rule grows_jobs[where js = "b @ r"]) (simp add: runJob_def e Let_def grow_ops split: job.split)
qed (auto simp: runJob_def grows_refl)

lemma grow_step:
  assumes "settles (snd te) = None"
  shows "grows s (callStep te s)"
  using assms by (cases "snd te") (simp_all add: callStep_def settles_def grow_ops grow_runJob)

lemma numbered_grows:
  assumes "numbered s" "grows s s'"
  shows "numbered s'"
proof -
  have old: "kt_id k < handles s' \<and> (\<forall>k'\<in>set (conts s'). kt_id k' = kt_id k \<longrightarrow> k' = k)" if "k \<in> set (conts s)" for k
    using assms that unfolding numbered_def grows_def by (metis DiffI leD less_le_trans)
  have new: "kt_id k < handles s' \<and> (\<forall>k'\<in>set (conts s'). kt_id k' = kt_id k \<longrightarrow> k' = k)" if "k \<in> set (conts s') - set (conts s)" for k
  proof (intro conjI ballI impI)
    show "kt_id k < handles s'" using assms(2) that unfolding grows_def by blast
    fix k' assume k': "k' \<in> set (conts s')" "kt_id k' = kt_id k"
    show "k' = k"
    proof (cases "k' \<in> set (conts s)")
      case True
      then show ?thesis using old[OF True] that k'(2) by fastforce
    next
      case False
      then show ?thesis using assms(2) that k' unfolding grows_def by blast
    qed
  qed
  show ?thesis using old new unfolding numbered_def by blast
qed

lemma numbered_filter: "numbered s \<Longrightarrow> numbered (s\<lparr>conts := filter P (conts s)\<rparr>)"
  by (simp add: numbered_def)

lemma settle_grows: "\<exists>P. (\<forall>k. kt_id k \<noteq> i \<longrightarrow> P k) \<and> grows (s\<lparr>conts := filter P (conts s)\<rparr>) (settle i a t s)"
proof (cases "settle i a t s = s")
  case True
  then show ?thesis by (intro exI[of _ "\<lambda>_. True"]) (simp add: grows_refl)
next
  case False
  then obtain kt where "settle i a t s = resumeCont kt a t (s\<lparr>conts := filter (\<lambda>k. kt_id k \<noteq> i) (conts s)\<rparr>)"
    by (auto simp: settle_def split: option.splits if_splits)
  then show ?thesis by (intro exI[of _ "\<lambda>k. kt_id k \<noteq> i"]) (simp add: grow_resumeCont)
qed

lemma step_grows:
  \<comment> \<open>A step drops at most the promise it settles.\<close>
  "\<exists>P. (\<forall>k. settles (snd te) \<noteq> Some (kt_id k) \<longrightarrow> P k) \<and> grows (s\<lparr>conts := filter P (conts s)\<rparr>) (callStep te s)"
proof (cases "settles (snd te)")
  case None
  then show ?thesis by (intro exI[of _ "\<lambda>_. True"]) (simp add: grow_step)
next
  case (Some i)
  then obtain a where e: "snd te = EvSettle i a" by (cases "snd te") (simp_all add: settles_def)
  obtain P where "\<forall>k. kt_id k \<noteq> i \<longrightarrow> P k" "grows (s\<lparr>conts := filter P (conts s)\<rparr>) (settle i a (fst te) s)"
    using settle_grows by blast
  then show ?thesis by (intro exI[of _ P]) (auto simp: e callStep_def settles_def)
qed

lemma numbered_step: "numbered s \<Longrightarrow> numbered (callStep te s)"
  using step_grows[of te s] numbered_filter numbered_grows by blast

lemma generation_step: "generation s \<le> generation (callStep te s)"
  using step_grows[of te s] by (auto simp: grows_def)

lemma numbered_run: "numbered s \<Longrightarrow> numbered (callRun s es)"
  unfolding callRun_def by (induction es arbitrary: s) (simp_all add: numbered_step)

lemma numbered_start: "numbered (createHuddleCall u d sp)"
  by (simp add: numbered_def createHuddleCall_def)

section \<open>Promises of a closed connection\<close>

definition stuck :: "continuation \<Rightarrow> huddle_call \<Rightarrow> bool" where
  "stuck k s \<longleftrightarrow> k \<in> set (conts s) \<and> (\<exists>c g. kt_conn k = Some (c, g) \<and> g < generation s)"

lemma stuck_settle:
  assumes "stuck k s" "numbered s" "skel_ok s"
  shows "settle (kt_id k) a t s = s"
proof -
  obtain c g where k: "k \<in> set (conts s)" "kt_conn k = Some (c, g)" "g < generation s" using assms(1) by (auto simp: stuck_def)
  have "hc_pc s \<noteq> kt_conn k" using pc_gen[OF assms(3), of c g] k by auto
  moreover have "k' = k" if "List.find (\<lambda>x. kt_id x = kt_id k) (conts s) = Some k'" for k'
    using find_set[OF that] k(1) assms(2) by (auto simp: numbered_def)
  ultimately show ?thesis using k(2) by (auto simp: settle_def split: option.split)
qed

lemma stuck_step:
  assumes "stuck k s" "numbered s" "skel_ok s"
  shows "stuck k (callStep te s)"
proof (cases "settles (snd te) = Some (kt_id k)")
  case True
  then obtain a where "snd te = EvSettle (kt_id k) a" by (cases "snd te") (simp_all add: settles_def)
  then show ?thesis using stuck_settle[OF assms] assms(1) by (simp add: callStep_def)
next
  case False
  then obtain P where P: "P k" "grows (s\<lparr>conts := filter P (conts s)\<rparr>) (callStep te s)"
    using step_grows[of te s] by blast
  then have "k \<in> set (conts (callStep te s))" using assms(1) by (auto simp: grows_def stuck_def)
  then show ?thesis using assms(1) generation_step[of s te] by (force simp: stuck_def)
qed

lemma stuck_for_ever:
  assumes "stuck k s" "numbered s" "skel_ok s"
  shows "settle (kt_id k) a t (callRun s es) = callRun s es"
proof -
  have "stuck k (callRun s es) \<and> numbered (callRun s es) \<and> skel_ok (callRun s es)"
    using assms unfolding callRun_def by (induction es arbitrary: s) (simp_all add: stuck_step numbered_step skel_step)
  then show ?thesis using stuck_settle by blast
qed

end
