(* ===== verification/HuddleEnds.thy ===== *)
theory HuddleEnds
  imports HuddlePromises
begin

text \<open>
  What a huddle call (\<open>HuddleCall\<close>) leaves behind, and where it goes wrong. \<open>tidy\<close> says what may be held in
  each phase; it is kept by every step from a state where the control flow of \<open>HuddleRuns\<close> holds. The runs at
  the end are interleavings in which the code does not do what it means to.
\<close>

section \<open>What is held in each phase\<close>

definition room_told :: "call_output list \<Rightarrow> ident option" where
  \<comment> \<open>the argument of the last \<open>setCallRoom\<close>\<close>
  "room_told os = fold (\<lambda>x r. case x of OSetCallRoom r' \<Rightarrow> r' | _ \<Rightarrow> r) os None"

definition is_room :: "call_output \<Rightarrow> bool" where
  "is_room x = (case x of OSetCallRoom _ \<Rightarrow> True | _ \<Rightarrow> False)"

lemma room_told_snoc [simp]: "room_told (os @ [x]) = (case x of OSetCallRoom r \<Rightarrow> r | _ \<Rightarrow> room_told os)"
  by (simp add: room_told_def split: call_output.split)

lemma room_told_append: "list_all (\<lambda>x. \<not> is_room x) xs \<Longrightarrow> room_told (os @ xs) = room_told os"
proof (induction xs rule: rev_induct)
  case (snoc x xs)
  then show ?case using room_told_snoc[of "os @ xs" x] by (simp add: is_room_def split: call_output.splits)
qed simp

definition nothing_of_call :: "huddle_call \<Rightarrow> bool" where
  "nothing_of_call s =
     (hc_pc s = None \<and> \<not> hc_sender s \<and> hc_heartbeat s = None \<and> hc_iceTimer s = None \<and> \<not> hc_speaking s
    \<and> hc_meter s = None \<and> remotes s = [] \<and> pendingTracks s = [] \<and> outScreen s = None)"

definition mic_ok :: "continuation \<Rightarrow> bool" where
  "mic_ok k = (\<forall>i x. kt_cont k = KReplaceMic i x \<longrightarrow> kt_conn k \<noteq> None)"

definition held_ok :: "huddle_call \<Rightarrow> bool" where
  "held_ok s =
     (case hc_state s of
        InCall v \<Rightarrow> room_told (call_out s) = Some (cv_roomId v)
      | InPreview p \<Rightarrow> room_told (call_out s) = None \<and> nothing_of_call s
      | _ \<Rightarrow> room_told (call_out s) = None \<and> nothing_of_call s \<and> hc_stream s = None \<and> outCamera s = None)"

definition tidy :: "huddle_call \<Rightarrow> bool" where
  "tidy s = (held_ok s \<and> (hc_sender s \<longleftrightarrow> hc_pc s \<noteq> None) \<and> (\<forall>k\<in>set (conts s). mic_ok k))"

lemmas held_defs = tidy_def held_ok_def nothing_of_call_def

lemma tidy_outp [simp]: "\<not> is_room x \<Longrightarrow> tidy (outp x s) = tidy s"
  by (simp add: held_defs outp_def is_room_def split: call_state.split call_output.splits)

lemma tidy_outs: "list_all (\<lambda>x. \<not> is_room x) xs \<Longrightarrow> tidy (s\<lparr>call_out := call_out s @ xs\<rparr>) = tidy s"
  by (simp add: held_defs room_told_append split: call_state.split)

lemma tidy_await [simp]: "tidy (await ch cn k s) = (tidy s \<and> (\<forall>i x. k = KReplaceMic i x \<longrightarrow> cn \<noteq> None))"
  by (auto simp: held_defs await_def mic_ok_def split: call_state.splits)

lemma tidy_patch: "(\<And>v. cv_roomId (f v) = cv_roomId v) \<Longrightarrow> tidy (patchCall f s) = tidy s"
  by (simp add: held_defs patchCall_def split: call_state.split)

lemma tidy_frame [simp]:
  "tidy (s\<lparr>jobs := js\<rparr>) = tidy s" "tidy (s\<lparr>handles := n\<rparr>) = tidy s" "tidy (s\<lparr>live := l\<rparr>) = tidy s"
  "tidy (s\<lparr>mic_enabled := f\<rparr>) = tidy s" "tidy (s\<lparr>outs := os\<rparr>) = tidy s" "tidy (s\<lparr>generation := g\<rparr>) = tidy s"
  "tidy (s\<lparr>pref_mic := i\<rparr>) = tidy s" "tidy (s\<lparr>pref_speaker := i\<rparr>) = tidy s" "tidy (s\<lparr>pref_camera := i\<rparr>) = tidy s"
  "tidy (s\<lparr>device_of := d\<rparr>) = tidy s"
  by (simp_all add: held_defs cong: call_state.case_cong)

lemma tidy_small [simp]:
  "tidy (enqueueJob j s) = tidy s" "tidy (stopTracks x s) = tidy s" "tidy (enableMic b s) = tidy s"
  "tidy (snd (captured d s)) = tidy s"
  by (simp_all add: enqueueJob_def stopTracks_def enableMic_def captured_def split: option.split)

lemma in_call_state: "in_call s = (\<exists>v. hc_state s = InCall v)"
  by (cases "hc_state s") (simp_all add: in_call_def)

text \<open>What stops something.\<close>

lemma tidy_stopStream [simp]: "tidy s \<Longrightarrow> tidy (stopStream s)"
  by (auto simp: held_defs stopStream_def stopTracks_def split: call_state.splits option.split)

lemma tidy_setOut_None: "tidy s \<Longrightarrow> tidy (setOut k None s)"
  by (auto simp: held_defs setOut_def split: call_state.splits video_kind.split)

lemma tidy_stopOutgoing [simp]: "tidy s \<Longrightarrow> tidy (stopOutgoing k s)"
  by (auto simp: stopOutgoing_def Let_def is_room_def split: option.split intro!: tidy_setOut_None)

lemma tidy_camera:
  assumes "tidy s" "active s"
  shows "tidy (newOutgoing VCamera x s)"
  using assms by (auto simp: held_defs newOutgoing_def setOut_def active_def split: call_state.splits)

lemma tidy_in_call:
  "tidy s \<Longrightarrow> hc_state s = InCall v \<Longrightarrow> hc_state s' = InCall v \<Longrightarrow> room_told (call_out s') = room_told (call_out s) \<Longrightarrow>
    conts s' = conts s \<Longrightarrow> hc_sender s' = hc_sender s \<Longrightarrow> hc_pc s' = hc_pc s \<Longrightarrow> tidy s'"
  by (simp add: held_defs)

lemma detach_not_room [simp]: "list_all (\<lambda>x. \<not> is_room x) (detachRemotes s)"
  by (auto simp: detachRemotes_def list_all_iff is_room_def split: option.splits)

text \<open>Teardown leaves nothing, and says that there is no call room if there was one.\<close>

lemma held_stopVideo [simp]:
  "call_out (stopVideo k s) = call_out s" "hc_iceTimer (stopVideo k s) = hc_iceTimer s"
  "hc_heartbeat (stopVideo k s) = hc_heartbeat s" "hc_speaking (stopVideo k s) = hc_speaking s"
  "hc_meter (stopVideo k s) = hc_meter s" "remotes (stopVideo k s) = remotes s" "pendingTracks (stopVideo k s) = pendingTracks s"
  by (simp_all add: stopVideo_def setOut_def stopTracks_def split: option.split video_kind.split)

lemma stopVideo_stops [simp]:
  "outScreen (stopVideo VScreen s) = None" "outCamera (stopVideo VCamera s) = None"
  "outCamera (stopVideo VScreen s) = outCamera s"
  by (simp_all add: stopVideo_def setOut_def out_of_def stopTracks_def split: option.split)

lemma stopStream_frame:
  "call_out (stopStream s) = call_out s" "hc_iceTimer (stopStream s) = hc_iceTimer s"
  "hc_heartbeat (stopStream s) = hc_heartbeat s" "hc_speaking (stopStream s) = hc_speaking s"
  "hc_meter (stopStream s) = hc_meter s" "remotes (stopStream s) = remotes s" "pendingTracks (stopStream s) = pendingTracks s"
  "outScreen (stopStream s) = outScreen s" "outCamera (stopStream s) = outCamera s" "hc_sender (stopStream s) = hc_sender s"
  "hc_stream (stopStream s) = None"
  by (simp_all add: stopStream_def stopTracks_def split: option.split)

lemma teardown_holds_nothing:
  assumes "tidy s"
  shows "nothing_of_call (teardownCall s) \<and> hc_stream (teardownCall s) = None \<and> outCamera (teardownCall s) = None
    \<and> room_told (call_out (teardownCall s)) = None"
proof -
  define s1 where "s1 = (case hc_state s of InCall _ \<Rightarrow> outp (OSetCallRoom None) s | _ \<Rightarrow> s)"
  have s1: "room_told (call_out s1) = None"
    using assms by (cases "hc_state s") (simp_all add: s1_def held_defs outp_def)
  define s2 where "s2 = s1\<lparr>hc_iceTimer := None, hc_heartbeat := None, hc_speaking := False, hc_meter := None,
      call_out := call_out s1 @ detachRemotes s1, remotes := [], pendingTracks := []\<rparr>"
  define s3 where "s3 = stopVideo VScreen (stopVideo VCamera s2)"
  define s4 where "s4 = (case hc_pc s3 of None \<Rightarrow> s3 | Some (c, g) \<Rightarrow> outp (OClose c) s3)"
  have "room_told (call_out s2) = None" using s1 by (simp add: s2_def room_told_append)
  then have "room_told (call_out s3) = None" by (simp add: s3_def)
  then have o4: "room_told (call_out s4) = None" by (simp add: s4_def outp_def split: option.split prod.split)
  have s4: "outScreen s4 = None" "outCamera s4 = None" "hc_iceTimer s4 = None"
      "hc_heartbeat s4 = None" "\<not> hc_speaking s4" "hc_meter s4 = None" "remotes s4 = []" "pendingTracks s4 = []"
    by (simp_all add: s4_def s3_def outp_def s2_def split: option.split prod.split)
  have "teardownCall s = (stopStream (s4\<lparr>hc_pc := None, hc_sender := False\<rparr>))\<lparr>chain :=
      chain (stopStream (s4\<lparr>hc_pc := None, hc_sender := False\<rparr>)) + 1\<rparr>"
    unfolding teardownCall_def Let_def s1_def[symmetric] s2_def[symmetric] s3_def[symmetric] s4_def[symmetric] ..
  then show ?thesis using s4 o4 by (simp add: nothing_of_call_def stopStream_frame)
qed

lemma tidy_torn:
  assumes "tidy s" "\<forall>v. st \<noteq> InCall v"
  shows "tidy ((teardownCall s)\<lparr>hc_state := st\<rparr>)"
proof -
  have "\<forall>k\<in>set (conts s). mic_ok k" using assms(1) by (simp add: tidy_def)
  then show ?thesis using teardown_holds_nothing[OF assms(1)] assms(2)
    by (auto simp: held_defs split: call_state.split)
qed

lemma tidy_end: "tidy s \<Longrightarrow> tidy (endCall p l ka s)"
proof -
  assume s: "tidy s"
  have "tidy ((teardownCall (s\<lparr>generation := generation s + 1\<rparr>))\<lparr>hc_state := st\<rparr>)" if "\<forall>v. st \<noteq> InCall v" for st
    by (rule tidy_torn) (use s that in simp_all)
  then show ?thesis using s
    by (cases p) (simp_all add: endCall_def Let_def is_room_def split: call_state.split option.split)
qed

section \<open>The operations\<close>

lemma tidy_unpublish: "tidy s \<Longrightarrow> tidy (unpublish k s)"
proof -
  assume s: "tidy s"
  have "tidy (patchCall (\<lambda>v. case k of VCamera \<Rightarrow> v\<lparr>cv_camera := False, cv_video := None\<rparr>
      | VScreen \<Rightarrow> v\<lparr>cv_sharing := False, cv_screen := None\<rparr>) s)"
    by (subst tidy_patch) (simp_all add: s split: video_kind.split)
  then show ?thesis using s by (simp add: unpublish_def Let_def split: call_state.split option.split)
qed

lemma tidy_openPreview:
  assumes "tidy s"
  shows "tidy (openPreview room s)"
proof -
  have "tidy (stopOutgoing VCamera (stopStream (s\<lparr>generation := generation s + 1\<rparr>)))" using assms by simp
  then have "tidy ((stopOutgoing VCamera (stopStream (s\<lparr>generation := generation s + 1\<rparr>)))\<lparr>hc_state := InPreview q\<rparr>)"
    if "\<And>v. hc_state s \<noteq> InCall v" for q
    using that by (auto simp: held_defs split: call_state.splits)
  then show ?thesis using assms by (simp add: openPreview_def Let_def is_room_def split: call_state.split)
qed

lemma stopped_nothing:
  "hc_stream (stopStream s) = None" "outCamera (stopOutgoing VCamera s) = None"
  "hc_stream (stopOutgoing k s) = hc_stream s"
  by (simp_all add: stopStream_def stopOutgoing_def setOut_def stopTracks_def out_of_def outp_def Let_def
      split: option.split video_kind.split)

lemma tidy_cancelPreview: "tidy s \<Longrightarrow> tidy (cancelPreview s)"
proof (cases "hc_state s")
  case (InPreview p)
  let ?s = "stopOutgoing VCamera (stopStream (s\<lparr>generation := generation s + 1\<rparr>))"
  assume "tidy s"
  then have "tidy ?s" by simp
  moreover have "hc_state ?s = InPreview p" using InPreview by simp
  ultimately have "tidy (?s\<lparr>hc_state := CallIdle\<rparr>)" by (simp add: held_defs stopped_nothing)
  then show ?thesis using InPreview by (simp add: cancelPreview_def)
qed (simp_all add: cancelPreview_def)

lemma tidy_preview: "tidy s \<Longrightarrow> phase (hc_state s) = PPreview \<Longrightarrow> tidy (s\<lparr>hc_state := InPreview q\<rparr>)"
  by (cases "hc_state s") (simp_all add: held_defs)

lemma tidy_view: "tidy s \<Longrightarrow> hc_state s = InCall v \<Longrightarrow> cv_roomId w = cv_roomId v \<Longrightarrow> tidy (s\<lparr>hc_state := InCall w\<rparr>)"
  by (simp add: held_defs)

lemma tidy_stream: "tidy s \<Longrightarrow> active s \<Longrightarrow> tidy (s\<lparr>hc_stream := x\<rparr>)"
  by (auto simp: held_defs active_def split: call_state.splits)

lemma tidy_setMuted: "tidy s \<Longrightarrow> tidy (setMuted m s)"
proof -
  assume s: "tidy s"
  have "tidy (patchCall (\<lambda>v. v\<lparr>cv_muted := m\<rparr>) (enableMic (\<not> m) s))"
    by (subst tidy_patch) (simp_all add: s)
  then show ?thesis using s by (simp add: setMuted_def Let_def is_room_def split: call_state.split option.split)
qed

lemma tidy_toggleMic: "tidy s \<Longrightarrow> tidy (toggleMic s)"
  by (auto simp: toggleMic_def split: call_state.split intro!: tidy_setMuted tidy_preview)

lemma tidy_selectMic: "tidy s \<Longrightarrow> tidy (selectMic i s)"
  by (simp add: selectMic_def is_room_def)

lemma tidy_micReplaced:
  assumes "tidy s" "active s"
  shows "tidy (micReplaced i x s)"
proof -
  have t: "tidy (stopStream s)" using assms by simp
  show ?thesis using t assms(2)
    by (auto simp: micReplaced_def Let_def held_defs active_def split: call_state.splits)
qed

lemma active_captured [simp]: "active (snd (captured d s)) = active s" "active (s\<lparr>mic_enabled := f\<rparr>) = active s"
  by (simp_all add: active_def)

lemma tidy_micGranted: "tidy s \<Longrightarrow> tidy (micGranted i a s)"
proof (cases a)
  case (AGrant dev)
  assume s: "tidy s"
  have "hc_sender s \<Longrightarrow> hc_pc s \<noteq> None" using s by (simp add: tidy_def)
  then show ?thesis using s AGrant
    by (auto simp: micGranted_def Let_def case_prod_unfold is_room_def intro!: tidy_micReplaced)
qed (simp_all add: micGranted_def)

lemma tidy_selectSpeaker: "tidy s \<Longrightarrow> tidy (selectSpeaker i s)"
proof -
  assume s: "tidy s"
  have "list_all (\<lambda>x. \<not> is_room x) (setSpeakers i s)"
    by (auto simp: setSpeakers_def list_all_iff is_room_def split: option.splits)
  then show ?thesis using s
    by (simp add: selectSpeaker_def held_defs room_told_append split: call_state.splits)
qed

lemma tidy_toggleCamera: "tidy s \<Longrightarrow> tidy (toggleCamera s)"
  by (auto simp: toggleCamera_def is_room_def active_def split: call_state.split
      intro!: tidy_unpublish tidy_preview)

lemma tidy_cameraGranted: "tidy s \<Longrightarrow> tidy (cameraGranted gen a s)"
proof -
  assume s: "tidy s"
  have p: "tidy (patchCall (\<lambda>v. v\<lparr>cv_notice := n\<rparr>) s)" for n by (subst tidy_patch) (simp_all add: s)
  have "active (stopOutgoing VCamera (snd (captured d s))) = active s" for d by (simp add: active_def)
  then show ?thesis using s p
    by (auto simp: cameraGranted_def Let_def case_prod_unfold split: answer.split call_state.split
        intro!: tidy_camera tidy_preview)
qed

lemma tidy_cameraShown: "tidy s \<Longrightarrow> tidy (cameraShown gen x a s)"
proof -
  assume s: "tidy s"
  have p: "tidy (patchCall (\<lambda>v. v\<lparr>cv_camera := True, cv_video := y, cv_cameras := l, cv_cameraId := i, cv_notice := g v\<rparr>) s)"
    for y l i g by (subst tidy_patch) (simp_all add: s)
  show ?thesis using s p
    by (auto simp: cameraShown_def Let_def publish_def split: call_state.split option.split intro!: tidy_preview)
qed

lemma tidy_setCamera: "tidy s \<Longrightarrow> tidy (s\<lparr>hc_state := setCamera i v (hc_state s)\<rparr>)"
  by (simp add: held_defs setCamera_def split: call_state.splits)

lemma tidy_selectCamera: "tidy s \<Longrightarrow> tidy (selectCamera i s)"
  using tidy_setCamera[of "s\<lparr>pref_camera := Some i\<rparr>" "Some i" None]
  by (simp add: selectCamera_def Let_def is_room_def split: option.split)

lemma tidy_cameraReplaced: "tidy s \<Longrightarrow> tidy (cameraReplaced i o' x s)"
  using tidy_setCamera[of "(stopTracks (og_stream (outs s o')) s)\<lparr>outs := f\<rparr>" "Some i" "Some (Some x)" for f]
  by (simp add: cameraReplaced_def Let_def)

lemma tidy_cameraSelected: "tidy s \<Longrightarrow> tidy (cameraSelected i o' a s)"
  by (cases a) (auto simp: cameraSelected_def Let_def case_prod_unfold is_room_def intro!: tidy_cameraReplaced)

lemma tidy_toggleShare: "tidy s \<Longrightarrow> tidy (toggleShare s)"
  by (auto simp: toggleShare_def is_room_def split: call_state.split intro!: tidy_unpublish)

lemma tidy_screenGranted: "tidy s \<Longrightarrow> tidy (screenGranted gen a s)"
proof -
  assume s: "tidy s"
  have p: "tidy (patchCall (\<lambda>v. v\<lparr>cv_notice := n\<rparr>) s)" for n by (subst tidy_patch) (simp_all add: s)
  have n: "tidy (newOutgoing VScreen x (snd (captured d s)))" if "hc_state s = InCall v" for d x v
    by (rule tidy_in_call[of "snd (captured d s)" v]) (use s that in \<open>simp_all add: newOutgoing_def setOut_def\<close>)
  have "tidy (patchCall (\<lambda>v. v\<lparr>cv_sharing := True, cv_screen := y, cv_notice := g v\<rparr>) (newOutgoing VScreen x (snd (captured d s))))"
    if "hc_state s = InCall v" for y g x d v by (subst tidy_patch) (simp_all add: n[OF that])
  then show ?thesis using s p
    by (auto simp: screenGranted_def Let_def case_prod_unfold publish_def split: answer.split call_state.split)
qed


lemma tidy_dismissNotice: "tidy s \<Longrightarrow> tidy (dismissNotice s)"
  unfolding dismissNotice_def by (subst tidy_patch) simp_all

lemma tidy_join: "tidy s \<Longrightarrow> tidy (join s)"
proof (cases "hc_state s")
  case (InPreview p)
  assume s: "tidy s"
  have "tidy (outp (OSetCallRoom (Some (cv_roomId v))) (s\<lparr>generation := g, hc_state := InCall v\<rparr>))" for g v
    using s InPreview by (simp add: held_defs outp_def)
  from this[where v = "\<lparr>cv_roomId = pv_roomId p, cv_huddleId = h, cv_participantId = i, cv_connection = c, cv_muted = m,
      cv_speaking = sp, cv_mics = mi, cv_micId = mid, cv_speakers = ss, cv_speakerId = si, cv_camera = ca, cv_video = vi,
      cv_cameras = cs, cv_cameraId = ci, cv_sharing = sh, cv_screen = sc, cv_canShareScreen = cc, cv_notice = n,
      cv_remoteVideos = r\<rparr>" for h i c m sp mi mid ss si ca vi cs ci sh sc cc n r]
  show ?thesis using s InPreview by (simp add: join_def Let_def is_room_def)
qed (simp_all add: join_def)

lemma tidy_joinFailed: "tidy s \<Longrightarrow> tidy (joinFailed gen room err s)"
  by (auto simp: joinFailed_def intro!: tidy_torn)

lemma tidy_set_pc:
  "tidy s \<Longrightarrow> in_call s \<Longrightarrow> tidy (scheduleIceRefresh r e g t (s\<lparr>handles := n, hc_pc := Some c, hc_sender := True\<rparr>))"
  by (auto simp: held_defs scheduleIceRefresh_def in_call_state)

lemma tidy_iceKnown:
  assumes "tidy s" "gen = generation s \<Longrightarrow> in_call s"
  shows "tidy (iceKnown gen room m c a t s)"
  using assms by (cases a) (auto simp: iceKnown_def Let_def split: option.split intro!: tidy_joinFailed tidy_set_pc)

lemma tidy_offerMade: "tidy s \<Longrightarrow> tidy (offerMade gen room m c a s)"
  by (cases a) (auto simp: offerMade_def is_room_def intro: tidy_joinFailed)

lemma tidy_joined: "tidy s \<Longrightarrow> tidy (joined gen room m c a s)"
  by (cases a) (auto simp: joined_def is_room_def intro: tidy_joinFailed)

lemma tidy_joinConnected:
  assumes "tidy s" "in_call s"
  shows "tidy (joinConnected gen room m c hp ps a s)"
proof -
  let ?s1 = "patchCall (\<lambda>v. v\<lparr>cv_huddleId := Some (fst hp), cv_participantId := Some (snd hp)\<rparr>) s"
  let ?s2 = "if m then ?s1 else outp (OMuted hp True) ?s1"
  have "tidy ?s1" by (subst tidy_patch) (simp_all add: assms(1))
  then have s2: "tidy ?s2" by (simp add: is_room_def)
  obtain v where "hc_state s = InCall v" using assms(2) in_call_state by blast
  then have "\<exists>v. hc_state ?s2 = InCall v" by (simp add: patchCall_def)
  then have s3: "tidy (?s2\<lparr>hc_meter := x, hc_heartbeat := y, hc_speaking := z\<rparr>)" for x y z
    using s2 by (auto intro: tidy_in_call[OF s2])
  have "tidy (sync ps (if c then publish gen VCamera t else t)) = tidy t" for t
    by (simp add: sync_def publish_def)
  then show ?thesis unfolding joinConnected_def Let_def using s2 s3 tidy_joinFailed[OF s2] tidy_joinFailed[OF assms(1)]
    by (simp only: split: answer.split option.split) simp
qed

lemma tidy_fireIceTimer: "tidy s \<Longrightarrow> tidy (fireIceTimer t s)"
proof -
  assume s: "tidy s"
  then have "tidy (s\<lparr>hc_iceTimer := None\<rparr>)" by (auto simp: held_defs split: call_state.splits)
  then show ?thesis using s by (simp add: fireIceTimer_def is_room_def split: option.split)
qed

lemma tidy_iceRefreshed: "tidy s \<Longrightarrow> tidy (iceRefreshed gen room a t s)"
  by (auto simp: iceRefreshed_def scheduleIceRefresh_def held_defs split: call_state.splits)

lemma tidy_connectionChanged: "tidy s \<Longrightarrow> tidy (connectionChanged c ch s)"
proof -
  assume s: "tidy s"
  have "tidy (patchCall (\<lambda>v. v\<lparr>cv_connection := x\<rparr>) s)" for x by (subst tidy_patch) (simp_all add: s)
  then show ?thesis using s tidy_end[OF s] by (simp add: connectionChanged_def split: option.split connection_change.split)
qed

section \<open>Receiving\<close>

lemma tidy_pc: "tidy s \<Longrightarrow> hc_pc s \<noteq> None \<Longrightarrow> \<exists>v. hc_state s = InCall v"
  by (auto simp: held_defs split: call_state.splits)

lemma tidy_remotes:
  "tidy s \<Longrightarrow> hc_pc s \<noteq> None \<Longrightarrow> tidy (s\<lparr>remotes := rs\<rparr>) \<and> tidy (s\<lparr>pendingTracks := ps\<rparr>)"
  using tidy_pc[of s] by (auto simp: held_defs)

lemma tidy_attach:
  assumes "tidy s" "hc_pc s \<noteq> None"
  shows "tidy (attach m x s)"
proof -
  have "tidy (patchCall (\<lambda>v. v\<lparr>cv_remoteVideos := f v\<rparr>) s)" for f by (subst tidy_patch) (simp_all add: assms(1))
  then show ?thesis using assms tidy_remotes[OF assms]
    by (auto simp: attach_def is_room_def split: option.split track_kind.split)
qed

lemma tidy_trackArrived: "tidy s \<Longrightarrow> tidy (trackArrived c m x s)"
  using tidy_attach[of s] tidy_remotes[of s] by (auto simp: trackArrived_def conn_of_def)

lemma tidy_addRemote:
  assumes "tidy s" "hc_pc s \<noteq> None"
  shows "tidy (addRemote reqs t s)"
proof -
  have r: "tidy (s\<lparr>handles := n, remotes := rs\<rparr>)" for n rs
    using tidy_remotes[of "s\<lparr>handles := n\<rparr>"] assms by simp
  have "tidy (s\<lparr>handles := n, remotes := rs, pendingTracks := ps\<rparr>)" for n rs ps
    using tidy_remotes[OF r] assms by simp
  then show ?thesis using r assms(2)
    by (simp add: addRemote_def Let_def tidy_attach split: prod.split option.split)
qed

lemma tidy_addRemotes: "tidy s \<Longrightarrow> hc_pc s \<noteq> None \<Longrightarrow> tidy (fold (addRemote reqs) ts s)"
  by (induction ts arbitrary: s) (simp_all add: tidy_addRemote)

lemma tidy_subscribed: "tidy s \<Longrightarrow> tidy (subscribed ch gen hp reqs b a s)"
  by (cases a) (auto simp: subscribed_def Let_def intro!: tidy_addRemotes)

lemma tidy_receive: "tidy s \<Longrightarrow> tidy (receive ch gen hp reqs s)"
  by (simp add: receive_def is_room_def)

lemma tidy_qualities: "tidy s \<Longrightarrow> tidy (qualities ch gen hp ps reqs s)"
  by (induction ch gen hp ps reqs s rule: qualities.induct)
    (auto simp: tidy_receive is_room_def split: option.split)

lemma tidy_qualitySet: "tidy s \<Longrightarrow> tidy (qualitySet r q a s)"
  by (cases a) (auto simp: qualitySet_def held_defs split: call_state.splits)

lemma tidy_release:
  assumes "tidy s" "hc_pc s \<noteq> None" "\<forall>i x. k \<noteq> KReplaceMic i x"
  shows "tidy (release ch hp gone k s)"
proof -
  have d: "list_all (\<lambda>x. \<not> is_room x) (concat (map (\<lambda>r. case rm_sink r of None \<Rightarrow> [] | Some x \<Rightarrow> [ODetach x]) gone))"
    by (auto simp: list_all_iff is_room_def split: option.splits)
  have "tidy (s\<lparr>call_out := call_out s @ xs, remotes := rs\<rparr>)" if "list_all (\<lambda>x. \<not> is_room x) xs" for xs rs
    using tidy_remotes[of "s\<lparr>call_out := call_out s @ xs\<rparr>"] tidy_outs[OF that] assms(1,2) by simp
  from this[OF d] have t: "tidy (patchCall (\<lambda>v. v\<lparr>cv_remoteVideos := f v\<rparr>)
      (s\<lparr>call_out := call_out s @ concat (map (\<lambda>r. case rm_sink r of None \<Rightarrow> [] | Some x \<Rightarrow> [ODetach x]) gone), remotes := rs\<rparr>))"
    for f rs by (subst tidy_patch) simp_all
  show ?thesis using t assms(3) unfolding release_def Let_def by (simp add: is_room_def)
qed

lemma tidy_startPublish: "tidy s \<Longrightarrow> tidy (startPublish ch gen k s)"
  by (auto simp: startPublish_def split: call_state.split option.split)

lemma tidy_startUnpublish: "tidy s \<Longrightarrow> tidy (startUnpublish ch k o' hp s)"
  by (simp add: startUnpublish_def Let_def is_room_def split: option.split)

lemma tidy_startSync: "tidy s \<Longrightarrow> tidy (startSync ch gen ids s)"
  by (auto simp: startSync_def Let_def split: call_state.split option.split intro!: tidy_receive tidy_release)

lemma tidy_startVideo: "tidy s \<Longrightarrow> tidy (startVideo ch gen ts s)"
  by (auto simp: startVideo_def Let_def split: call_state.split option.split intro!: tidy_qualities tidy_release)

lemma tidy_runJob: "tidy s \<Longrightarrow> tidy (runJob c s)"
  by (simp add: runJob_def Let_def tidy_startPublish tidy_startUnpublish tidy_startSync tidy_startVideo
      split: option.split prod.split job.split)

lemma tidy_publishUndone: "tidy s \<Longrightarrow> tidy (publishUndone k o' err s)"
  unfolding publishUndone_def by (subst tidy_patch) (auto split: video_kind.split)

lemma tidy_publishAnswered: "tidy s \<Longrightarrow> tidy (publishAnswered ch gen k o' hp b a s)"
  by (cases a) (auto simp: publishAnswered_def publishFailed_def)


section \<open>Every step\<close>

lemma tidy_previewMic:
  assumes "tidy s" "gen = generation s \<Longrightarrow> phase (hc_state s) = PPreview"
  shows "tidy (previewMic gen room a s)"
proof -
  have "active s" if "phase (hc_state s) = PPreview" using that by (cases "hc_state s") (simp_all add: active_def)
  moreover have "tidy (stopStream (s\<lparr>hc_stream := Some x\<rparr>))" if "tidy s" for x s
    using that by (auto simp: held_defs stopStream_def stopTracks_def split: call_state.splits)
  ultimately show ?thesis using assms
    by (cases a) (auto simp: previewMic_def Let_def case_prod_unfold intro!: tidy_stream tidy_preview)
qed

lemma tidy_resumeCont:
  assumes "tidy s" "skel_ok s" "taken s kt" "mic_ok kt"
  shows "tidy (resumeCont kt a t s)"
proof (cases "kt_cont kt")
  case (KPreviewMic g r)
  then show ?thesis using tidy_previewMic[OF assms(1)] taken_preview[OF assms(3)] by (simp add: resumeCont_def)
next
  case (KPreviewDevices g r)
  then show ?thesis using tidy_preview[OF assms(1)] taken_preview[OF assms(3)]
    by (simp add: resumeCont_def previewDevices_def Let_def assms(1) split: option.split)
next
  case (KReplaceMic i x)
  then have "hc_pc s \<noteq> None" using assms(3,4) by (auto simp: taken_def mic_ok_def)
  then have "active s" using tidy_pc[OF assms(1)] by (auto simp: active_def)
  then show ?thesis using KReplaceMic assms(1) tidy_micReplaced
    by (simp add: resumeCont_def Let_def split: answer.split)
next
  case (KJoinIce g r m c)
  then show ?thesis using tidy_iceKnown[OF assms(1)] taken_join[OF assms(3), of NoConnection]
    by (simp add: resumeCont_def in_call_def)
next
  case (KJoinRemote g r m c hp ps)
  then obtain x where "kt_conn kt = Some x"
    using assms(3) by (cases "kt_conn kt") (simp_all add: taken_def cont_ok_def guard_ok_def)
  then have "hc_pc s = Some x" using assms(3) by (auto simp: taken_def)
  then have "in_call s" using in_call_pc[OF assms(2)] by simp
  then show ?thesis using KJoinRemote tidy_joinConnected[OF assms(1)] by (simp add: resumeCont_def)
next
  case (KBeat g)
  then show ?thesis using assms(1) tidy_end by (simp add: resumeCont_def beatAnswered_def)
qed (use assms(1) in \<open>simp_all add: resumeCont_def Let_def is_room_def tidy_micGranted tidy_cameraGranted tidy_cameraShown
    tidy_cameraSelected tidy_cameraReplaced tidy_screenGranted tidy_publishUndone tidy_publishAnswered publishFailed_def
    tidy_offerMade tidy_joined tidy_iceRefreshed tidy_receive tidy_qualities tidy_qualitySet tidy_subscribed answerMade_def
    renegotiated_def split: answer.split\<close>)

lemma tidy_settle:
  assumes "tidy s" "skel_ok s"
  shows "tidy (settle i a t s)"
proof (cases "List.find (\<lambda>k. kt_id k = i) (conts s)")
  case (Some kt)
  then have k: "kt \<in> set (conts s)" "kt_id kt = i" using find_set by fastforce+
  have m: "mic_ok kt" "tidy (s\<lparr>conts := filter P (conts s)\<rparr>)" for P
    using assms(1) k(1) by (auto simp: held_defs split: call_state.splits)
  show ?thesis
  proof (cases "kt_conn kt = None \<or> kt_conn kt = hc_pc s")
    case True
    then show ?thesis
      using Some k assms(1) tidy_resumeCont[OF m(2) skel_drop[OF assms(2)] skel_taken[OF assms(2) k(1) True] m(1), of a t]
      by (auto simp: settle_def)
  qed (use Some assms(1) in \<open>simp add: settle_def\<close>)
qed (use assms(1) in \<open>simp add: settle_def\<close>)

lemma tidy_screenEnded: "tidy s \<Longrightarrow> tidy (screenEnded x s)"
  by (auto simp: screenEnded_def Let_def split: option.split intro!: tidy_unpublish)

lemma tidy_fireHeartbeat: "tidy s \<Longrightarrow> tidy (fireHeartbeat s)"
  by (auto simp: fireHeartbeat_def is_room_def split: option.split call_state.split)

lemma tidy_measureSpeaking: "tidy s \<Longrightarrow> tidy (measureSpeaking l s)"
proof -
  assume s: "tidy s"
  have "tidy (patchCall (\<lambda>v. v\<lparr>cv_speaking := x\<rparr>) s)" for x by (subst tidy_patch) (simp_all add: s)
  then show ?thesis using s by (simp add: measureSpeaking_def Let_def split: call_state.split)
qed

lemma tidy_problem: "tidy s \<Longrightarrow> hc_state s = CallProblem r p \<Longrightarrow> tidy (s\<lparr>hc_state := CallIdle\<rparr>)"
  by (simp add: held_defs)

lemma tidy_leaves: "tidy s \<Longrightarrow> tidy (leave ka s) \<and> tidy (receiveLeft q r s) \<and> tidy (dismissProblem s)"
  using tidy_end by (simp add: leave_def receiveLeft_def dismissProblem_def tidy_problem split: call_state.split)

lemmas tidy_ops = tidy_openPreview tidy_cancelPreview tidy_toggleMic tidy_selectMic tidy_selectSpeaker tidy_toggleCamera
  tidy_selectCamera tidy_toggleShare tidy_dismissNotice tidy_join tidy_setMuted tidy_leaves tidy_runJob tidy_settle
  tidy_fireIceTimer tidy_fireHeartbeat tidy_measureSpeaking tidy_connectionChanged tidy_trackArrived tidy_screenEnded

lemma tidy_step: "tidy s \<Longrightarrow> skel_ok s \<Longrightarrow> tidy (callStep te s)"
  by (cases "snd te") (simp_all add: callStep_def tidy_ops sync_def syncVideo_def)

lemma tidy_run: "tidy s \<Longrightarrow> skel_ok s \<Longrightarrow> tidy (callRun s es)"
  unfolding callRun_def by (induction es arbitrary: s) (simp_all add: tidy_step skel_step)

lemma tidy_start: "tidy (createHuddleCall u d sp)"
  by (simp add: held_defs createHuddleCall_def room_told_def)

lemma tidy_reached: "tidy (callRun (createHuddleCall u d sp) es)"
  by (rule tidy_run[OF tidy_start skel_start])


section \<open>What a call leaves behind\<close>

definition held_streams :: "huddle_call \<Rightarrow> nat set" where
  \<comment> \<open>the captured streams that the variables of the call lead to\<close>
  "held_streams s = set_option (hc_stream s) \<union>
     (\<lambda>o'. og_stream (outs s o')) ` (set_option (outCamera s) \<union> set_option (outScreen s))"

definition ended_out :: "huddle_call \<Rightarrow> call_output list" where
  \<comment> \<open>what a teardown tells the outside\<close>
  "ended_out s = (case hc_state s of InCall _ \<Rightarrow> [OSetCallRoom None] | _ \<Rightarrow> []) @ detachRemotes s @
     (case hc_pc s of None \<Rightarrow> [] | Some (c, g) \<Rightarrow> [OClose c])"

lemma detach_frame: "detachRemotes (outp x s) = detachRemotes s"
  by (simp add: detachRemotes_def outp_def)

lemma stopVideo_live:
  "live (stopVideo k s) = filter (\<lambda>x. x \<notin> (\<lambda>o'. og_stream (outs s o')) ` set_option (out_of k s)) (live s)"
  "outs (stopVideo k s) = outs s" "hc_stream (stopVideo k s) = hc_stream s"
  by (simp_all add: stopVideo_def setOut_def stopTracks_def split: option.split video_kind.split)

lemma stopStream_live: "live (stopStream s) = filter (\<lambda>x. x \<notin> set_option (hc_stream s)) (live s)"
  by (auto simp: stopStream_def stopTracks_def split: option.split intro!: filter_cong)

lemma out_frame [simp]:
  "outCamera (outp e s) = outCamera s" "outScreen (outp e s) = outScreen s" "outs (outp e s) = outs s" "live (outp e s) = live s"
  "hc_stream (outp e s) = hc_stream s" "outScreen (stopVideo VCamera s) = outScreen s" "remotes (outp e s) = remotes s"
  by (simp_all add: outp_def stopVideo_def setOut_def stopTracks_def split: option.split)

lemma teardown_stops:
  "live (teardownCall s) = filter (\<lambda>x. x \<notin> held_streams s) (live s)"
  "call_out (teardownCall s) = call_out s @ ended_out s"
proof -
  define s1 where "s1 = (case hc_state s of InCall _ \<Rightarrow> outp (OSetCallRoom None) s | _ \<Rightarrow> s)"
  define s2 where "s2 = s1\<lparr>hc_iceTimer := None, hc_heartbeat := None, hc_speaking := False, hc_meter := None,
      call_out := call_out s1 @ detachRemotes s1, remotes := [], pendingTracks := []\<rparr>"
  define s3 where "s3 = stopVideo VScreen (stopVideo VCamera s2)"
  define s4 where "s4 = (case hc_pc s3 of None \<Rightarrow> s3 | Some (c, g) \<Rightarrow> outp (OClose c) s3)"
  have td: "teardownCall s = (stopStream (s4\<lparr>hc_pc := None, hc_sender := False\<rparr>))\<lparr>chain :=
      chain (stopStream (s4\<lparr>hc_pc := None, hc_sender := False\<rparr>)) + 1\<rparr>"
    unfolding teardownCall_def Let_def s1_def[symmetric] s2_def[symmetric] s3_def[symmetric] s4_def[symmetric] ..
  have s2: "live s2 = live s" "hc_stream s2 = hc_stream s" "outCamera s2 = outCamera s" "outScreen s2 = outScreen s"
      "outs s2 = outs s" "hc_pc s2 = hc_pc s"
    "call_out s2 = call_out s @ (case hc_state s of InCall _ \<Rightarrow> [OSetCallRoom None] | _ \<Rightarrow> []) @ detachRemotes s"
    by (simp_all add: s2_def s1_def detach_frame split: call_state.split) (simp add: outp_def)
  have s3: "live s3 = filter (\<lambda>x. x \<notin> (\<lambda>o'. og_stream (outs s o')) ` (set_option (outCamera s) \<union> set_option (outScreen s))) (live s)"
      "hc_stream s3 = hc_stream s" "hc_pc s3 = hc_pc s" "call_out s3 = call_out s2"
    by (auto simp: s3_def stopVideo_live s2 out_of_def intro!: filter_cong)
  have s4: "live s4 = live s3" "hc_stream s4 = hc_stream s"
      "call_out s4 = call_out s2 @ (case hc_pc s of None \<Rightarrow> [] | Some (c, g) \<Rightarrow> [OClose c])"
    using s3(2-4) by (simp_all add: s4_def split: option.split prod.split) (simp add: outp_def)
  show "live (teardownCall s) = filter (\<lambda>x. x \<notin> held_streams s) (live s)"
    by (auto simp: td stopStream_live s4 s3 held_streams_def intro!: filter_cong)
  show "call_out (teardownCall s) = call_out s @ ended_out s"
    by (simp add: td stopStream_frame s4 s2(7) ended_out_def)
qed

lemma ended_generation: "held_streams (s\<lparr>generation := g\<rparr>) = held_streams s" "ended_out (s\<lparr>generation := g\<rparr>) = ended_out s"
  by (simp_all add: held_streams_def ended_out_def detachRemotes_def cong: call_state.case_cong)

lemma ended_frame:
  "nothing_of_call (s\<lparr>hc_state := st\<rparr>) = nothing_of_call s" "nothing_of_call (outp x s) = nothing_of_call s"
  by (simp_all add: nothing_of_call_def outp_def)

lemma teardown_clean:
  assumes "tidy s"
  defines "t \<equiv> teardownCall s"
  shows "live t = filter (\<lambda>x. x \<notin> held_streams s) (live s) \<and> call_out t = call_out s @ ended_out s
    \<and> nothing_of_call t \<and> hc_stream t = None \<and> outCamera t = None \<and> room_told (call_out s @ ended_out s) = None"
  using teardown_stops[of s] teardown_holds_nothing[OF assms(1)] by (simp add: t_def teardown_stops)

lemma end_clean:
  assumes "tidy s" "(in_call s \<and> s' = endCall p leaving ka s) \<or> s' = joinFailed (generation s) room err s \<or> s' = disposeCall s"
  shows "live s' = filter (\<lambda>x. x \<notin> held_streams s) (live s) \<and>
    take (length (call_out s @ ended_out s)) (call_out s') = call_out s @ ended_out s \<and>
    nothing_of_call s' \<and> hc_stream s' = None \<and> outCamera s' = None \<and> room_told (call_out s') = None"
  using assms(2)
proof (elim disjE conjE)
  let ?t = "teardownCall (s\<lparr>generation := generation s + 1\<rparr>)"
  assume "in_call s" "s' = endCall p leaving ka s"
  then obtain st hp where "s' = ?t\<lparr>hc_state := st\<rparr> \<or> s' = outp (OLeave hp ka) (?t\<lparr>hc_state := st\<rparr>)"
    by (fastforce simp: in_call_state endCall_def Let_def split: option.splits if_splits)
  then show ?thesis
    using teardown_clean[of "s\<lparr>generation := generation s + 1\<rparr>"] assms(1)
    by (elim disjE) (simp_all add: ended_generation ended_frame, simp_all add: outp_def
        room_told_snoc[of "call_out s @ ended_out s", simplified])
next
  assume "s' = joinFailed (generation s) room err s"
  then show ?thesis using teardown_clean[OF assms(1)] by (simp add: joinFailed_def ended_frame)
next
  assume "s' = disposeCall s"
  then show ?thesis using teardown_clean[of "s\<lparr>generation := generation s + 1\<rparr>"] assms(1)
    by (simp add: disposeCall_def ended_generation)
qed

text \<open>The events of a join up to the answer of the server: the preview with its microphone and devices, \<open>join\<close>, the ICE
  servers and the offer. The numbers are those of the promises, of which \<open>n\<close> is the first.\<close>

definition to_answer :: "nat \<Rightarrow> ident \<Rightarrow> ident \<Rightarrow> ident \<Rightarrow> (int \<times> call_event) list" where
  "to_answer n room h p =
     [(0, EvOpenPreview room), (0, EvSettle n (AGrant None)), (0, EvSettle (n + 2) (ADevices [])), (0, EvJoin),
      (0, EvSettle (n + 3) (AIce 0)), (0, EvSettle (n + 5) AOk), (0, EvSettle (n + 6) (AJoined h p []))]"

text \<open>C23: a call that ends leaves nothing of what it holds. After any events in any order: in a call, the last
  \<open>setCallRoom\<close> names its room; otherwise it says that there is none, and the call has no connection, sender,
  heartbeat, timer, meter, received track or shared screen, and without a preview no microphone or camera. And
  whichever way a call ends from there - \<open>leave\<close>, a problem, being removed, a join that fails, or \<open>dispose\<close>, after
  which the object is not used any more - the tracks of its microphone, camera and screen are stopped and no others,
  every received sound is detached, the connection is closed, and nothing of the call is held afterwards. (Streams
  that the code has lost track of before are not reached; that two paths lose a running microphone is in the findings
  of \<open>call.ts\<close>.)\<close>

theorem call_ends_clean:
  assumes "s = callRun (createHuddleCall u display speaker) es"
    and "(in_call s \<and> s' = endCall p leaving ka s) \<or> s' = joinFailed (generation s) room err s \<or> s' = disposeCall s"
  shows "held_ok s \<and> live s' = filter (\<lambda>x. x \<notin> held_streams s) (live s) \<and>
    take (length (call_out s @ ended_out s)) (call_out s') = call_out s @ ended_out s \<and>
    nothing_of_call s' \<and> hc_stream s' = None \<and> outCamera s' = None \<and> room_told (call_out s') = None"
proof -
  have "tidy s" unfolding assms(1) by (rule tidy_reached)
  then show ?thesis using end_clean[OF _ assms(2)] by (simp add: tidy_def)
qed

definition answered_call :: huddle_call where
  \<comment> \<open>the server has answered the join\<close>
  "answered_call = callRun (createHuddleCall ''u'' True True) (to_answer 1 ''r'' ''h'' ''p'')"

lemma answered_call_facts:
  "hc_stream answered_call = Some 2" "live answered_call = [2]" "hc_pc answered_call = Some (5, 2)" "generation answered_call = 2"
  "phase (hc_state answered_call) = PCall None None" "outCamera answered_call = None" "outScreen answered_call = None"
  by code_simp+

theorem call_ends_clean_witness:
  "live (endCall None True False answered_call) = [] \<and> hc_pc (endCall None True False answered_call) = None \<and>
    OClose 5 \<in> set (call_out (endCall None True False answered_call))"
proof -
  have "in_call answered_call" using answered_call_facts(5) by (simp add: in_call_def)
  then have t: "live (endCall None True False answered_call) = filter (\<lambda>x. x \<notin> held_streams answered_call) (live answered_call)
     \<and> take (length (call_out answered_call @ ended_out answered_call)) (call_out (endCall None True False answered_call)) =
       call_out answered_call @ ended_out answered_call \<and> nothing_of_call (endCall None True False answered_call)"
    using call_ends_clean[OF answered_call_def, of "endCall None True False answered_call" None True False] by blast
  have "OClose 5 \<in> set (call_out answered_call @ ended_out answered_call)"
    by (simp add: ended_out_def answered_call_facts)
  then have "OClose 5 \<in> set (call_out (endCall None True False answered_call))"
    using t by (metis set_take_subset subsetD)
  then show ?thesis using t by (simp add: held_streams_def nothing_of_call_def answered_call_facts)
qed

section \<open>Interleavings that go wrong\<close>

lemma teardown_no_leave: "OLeave hp k \<in> set (call_out (teardownCall s)) \<longleftrightarrow> OLeave hp k \<in> set (call_out s)"
  by (auto simp: teardown_stops ended_out_def detachRemotes_def split: call_state.splits option.splits)

text \<open>C25: one who leaves while the answer of the server is being applied stays in the huddle. Whatever has happened before,
  when the join of the present call waits for \<open>setRemoteDescription\<close>, then \<open>leave\<close> ends the call without telling the
  server, which has admitted the participant; and whatever happens after, that promise does not settle any more, so the
  join never gets to its end, where the ids would come into the state. (\<open>join\<close> looks at the generation before
  \<open>setRemoteDescription\<close> and not after it. The server finds out by the missing heartbeats.)\<close>

theorem leaves_a_ghost:
  assumes "s = callRun (createHuddleCall u display speaker) es" "k \<in> set (conts s)"
    and "kt_cont k = KJoinRemote (generation s) room micOn camera hp parts"
  shows "hc_state (leave keepalive s) = CallIdle \<and>
    (\<forall>x b. OLeave x b \<in> set (call_out (leave keepalive s)) \<longleftrightarrow> OLeave x b \<in> set (call_out s)) \<and>
    settle (kt_id k) a t (callRun (leave keepalive s) later) = callRun (leave keepalive s) later"
proof -
  have sk: "skel_ok s" "numbered s" unfolding assms(1) by (simp_all add: skel_run skel_start numbered_run numbered_start)
  then have "cont_ok s k" using assms(2) by (simp add: skel_ok_def)
  then have k: "phase (hc_state s) = PCall None None" "\<exists>c. kt_conn k = Some (c, generation s)"
    using assms(3) by (auto simp: cont_ok_def guard_ok_def split: option.splits)
  from k(1) obtain v where v: "hc_state s = InCall v" "ids_of v = None"
    by (cases "hc_state s") (auto simp: ids_of_def)
  then have l: "leave keepalive s = (teardownCall (s\<lparr>generation := generation s + 1\<rparr>))\<lparr>hc_state := CallIdle\<rparr>"
    by (simp add: leave_def endCall_def Let_def)
  have "stuck k (leave keepalive s)" using assms(2) k(2) by (auto simp: l stuck_def)
  moreover have "numbered (leave keepalive s)" using sk(2) by (rule numbered_grows) (rule grow_leave)
  ultimately have "settle (kt_id k) a t (callRun (leave keepalive s) later) = callRun (leave keepalive s) later"
    using stuck_for_ever skel_leave[OF sk(1)] by blast
  then show ?thesis by (simp add: l teardown_no_leave)
qed

lemma answered_call_waits: "map kt_cont (conts answered_call) = [KJoinRemote 2 ''r'' True False (''h'', ''p'') []]"
  "list_all (\<lambda>x. case x of OLeave hp k \<Rightarrow> False | _ \<Rightarrow> True) (call_out answered_call)"
  by code_simp+

theorem leaves_a_ghost_witness:
  "hc_state (leave False answered_call) = CallIdle \<and> (\<forall>x b. OLeave x b \<notin> set (call_out (leave False answered_call)))"
proof -
  obtain k where k: "k \<in> set (conts answered_call)"
      "kt_cont k = KJoinRemote (generation answered_call) ''r'' True False (''h'', ''p'') []"
    using answered_call_waits(1) answered_call_facts(4) by (auto simp: map_eq_Cons_conv)
  have "OLeave x b \<notin> set (call_out answered_call)" for x b
    using answered_call_waits(2) by (auto simp: list_all_iff)
  then show ?thesis using leaves_a_ghost[OF answered_call_def k, of False] by simp
qed

text \<open>C24: a microphone that is granted late takes the mute button away. \<open>openPreview\<close> puts the stream of a superseded
  preview into \<open>stream\<close> before it looks at the generation, then stops it and forgets it; the stream that is being
  sent is forgotten with it. Muting then changes nothing but the sign, which says muted while the microphone is on
  and sent; without the late grant the same step mutes it.\<close>

theorem late_grant_defeats_mute:
  assumes "phase (hc_state s) = PCall (Some h) (Some p)" "gen \<noteq> generation s" "hc_stream s = Some x" "x \<in> set (live s)"
    "x < handles s" "mic_enabled s x"
  shows "\<not> mic_enabled (setMuted True s) x
    \<and> (let s' = setMuted True (previewMic gen room (AGrant dev) s) in
        (case hc_state s' of InCall v \<Rightarrow> cv_muted v | _ \<Rightarrow> False) \<and> x \<in> set (live s') \<and> mic_enabled s' x)"
proof -
  obtain v where v: "hc_state s = InCall v" using assms(1) by (cases "hc_state s") simp_all
  show ?thesis using assms(2-6) v
    by (simp add: previewMic_def captured_def stopStream_def stopTracks_def setMuted_def enableMic_def patchCall_def
        outp_def Let_def split: option.split)
qed

definition second_preview :: huddle_call where
  \<comment> \<open>the promise of the first preview, which was cancelled, is still pending\<close>
  "second_preview = callRun (createHuddleCall ''u'' True True)
     ([(0, EvOpenPreview ''q''), (0, EvCancelPreview)] @ to_answer 2 ''r'' ''h'' ''p'' @ [(0, EvSettle 9 AOk)])"

lemma second_preview_facts:
  "phase (hc_state second_preview) = PCall (Some ''h'') (Some ''p'')" "generation second_preview = 4"
  "hc_stream second_preview = Some 3" "3 \<in> set (live second_preview)" "3 < handles second_preview"
  "mic_enabled second_preview 3" "map kt_cont (conts second_preview) = [KPreviewMic 1 ''q'']"
  by code_simp+

theorem late_grant_defeats_mute_witness:
  "let s' = setMuted True (previewMic 1 ''q'' (AGrant None) second_preview) in
    (case hc_state s' of InCall v \<Rightarrow> cv_muted v | _ \<Rightarrow> False) \<and> 3 \<in> set (live s') \<and> mic_enabled s' 3"
  using late_grant_defeats_mute[OF second_preview_facts(1) _ second_preview_facts(3-6), of 1 "''q''" None]
  by (simp add: second_preview_facts(2))

end
