(* ===== verification/HuddleSurface.thy ===== *)
theory HuddleSurface
  imports HuddleEnds
begin

text \<open>
  Where the huddle is shown (\<open>web/lib/chat/huddle/surface.ts\<close>), over the call of \<open>HuddleCall\<close>. Windows are numbered as
  they are opened; \<open>sf_open\<close> are those that are open. Whether the browser opens a window, and whether the screen is
  preferred in the same tab, are given with the event. The listener of the call acts when the call becomes idle, which
  it does from another phase only.
\<close>

section \<open>The surface\<close>

datatype huddle_surface = NoSurface | Popup nat | Overlay

record surface_store =
  sf_surface :: huddle_surface
  sf_call :: huddle_call
  sf_next :: nat
  sf_open :: "nat list"
  sf_focused :: "nat list" \<comment> \<open>\<open>focus()\<close>, in order\<close>

definition createHuddleSurface :: "huddle_call \<Rightarrow> surface_store" where
  "createHuddleSurface call =
     \<lparr>sf_surface = NoSurface, sf_call = call, sf_next = 0, sf_open = [], sf_focused = []\<rparr>"

definition closeWindow :: "nat \<Rightarrow> surface_store \<Rightarrow> surface_store" where
  "closeWindow w s = s\<lparr>sf_open := filter (\<lambda>v. v \<noteq> w) (sf_open s)\<rparr>"

definition hideSurface :: "surface_store \<Rightarrow> surface_store" where
  "hideSurface s =
     (let s1 = s\<lparr>sf_surface := NoSurface\<rparr> in
      case sf_surface s of Popup w \<Rightarrow> closeWindow w s1 | _ \<Rightarrow> s1)"

definition callChanged :: "huddle_call \<Rightarrow> surface_store \<Rightarrow> surface_store" where
  \<comment> \<open>the call has become this one; the listener given to \<open>call.subscribe\<close>\<close>
  "callChanged c s =
     (let s1 = s\<lparr>sf_call := c\<rparr> in
      if hc_state (sf_call s) \<noteq> CallIdle \<and> hc_state c = CallIdle \<and> sf_surface s \<noteq> NoSurface then hideSurface s1 else s1)"

definition windowClosed :: "nat \<Rightarrow> surface_store \<Rightarrow> surface_store" where
  "windowClosed w s =
     (if sf_surface s \<noteq> Popup w then s
      else
        let s1 = s\<lparr>sf_surface := NoSurface\<rparr> in
        case hc_state (sf_call s) of
          InPreview _ \<Rightarrow> callChanged (cancelPreview (sf_call s1)) s1
        | CallProblem _ _ \<Rightarrow> callChanged (dismissProblem (sf_call s1)) s1
        | _ \<Rightarrow> s1)"

definition showSurface :: "bool \<Rightarrow> bool \<Rightarrow> surface_store \<Rightarrow> surface_store" where
  "showSurface preferOverlay opens s =
     (case sf_surface s of
        Popup w \<Rightarrow> s\<lparr>sf_focused := sf_focused s @ [w]\<rparr>
      | Overlay \<Rightarrow> s
      | NoSurface \<Rightarrow>
          if \<not> preferOverlay \<and> opens
          then s\<lparr>sf_surface := Popup (sf_next s), sf_open := sf_open s @ [sf_next s], sf_next := sf_next s + 1\<rparr>
          else s\<lparr>sf_surface := Overlay\<rparr>)"

definition startSurface :: "ident \<Rightarrow> bool \<Rightarrow> bool \<Rightarrow> surface_store \<Rightarrow> surface_store" where
  "startSurface roomId preferOverlay opens s =
     (let s1 = showSurface preferOverlay opens s in
      case hc_state (sf_call s1) of InCall _ \<Rightarrow> s1 | _ \<Rightarrow> callChanged (openPreview roomId (sf_call s1)) s1)"

section \<open>Runs\<close>

datatype surface_event =
    SfShow bool bool | SfHide | SfStart ident bool bool
  | SfWindowClosed nat \<comment> \<open>the user closes this window\<close>
  | SfCall "int \<times> call_event"

definition surfaceStep :: "surface_event \<Rightarrow> surface_store \<Rightarrow> surface_store" where
  "surfaceStep e s =
     (case e of
        SfShow p opens \<Rightarrow> showSurface p opens s
      | SfHide \<Rightarrow> hideSurface s
      | SfStart r p opens \<Rightarrow> startSurface r p opens s
      | SfWindowClosed w \<Rightarrow> if w \<in> set (sf_open s) then windowClosed w (closeWindow w s) else s
      | SfCall te \<Rightarrow> callChanged (callStep te (sf_call s)) s)"

definition surfaceRun :: "surface_store \<Rightarrow> surface_event list \<Rightarrow> surface_store" where
  "surfaceRun s es = fold surfaceStep es s"

section \<open>The window and the call\<close>

definition surface_ok :: "surface_store \<Rightarrow> bool" where
  "surface_ok s =
     (sf_open s = (case sf_surface s of Popup w \<Rightarrow> [w] | _ \<Rightarrow> []) \<and> tidy (sf_call s) \<and> skel_ok (sf_call s))"

lemma surface_ok_hide: "surface_ok s \<Longrightarrow> surface_ok (hideSurface s)"
  by (auto simp: surface_ok_def hideSurface_def closeWindow_def Let_def split: huddle_surface.splits)

lemma surface_ok_call:
  assumes "surface_ok s" "tidy c" "skel_ok c"
  shows "surface_ok (callChanged c s)"
proof -
  have "surface_ok (s\<lparr>sf_call := c\<rparr>)" using assms by (simp add: surface_ok_def)
  then show ?thesis by (simp add: callChanged_def Let_def surface_ok_hide)
qed

lemma surface_ok_closed: "surface_ok s \<Longrightarrow> w \<in> set (sf_open s) \<Longrightarrow> surface_ok (windowClosed w (closeWindow w s))"
  by (auto simp: windowClosed_def closeWindow_def Let_def surface_ok_def tidy_cancelPreview skel_cancelPreview
      tidy_leaves skel_dismissProblem callChanged_def split: call_state.split huddle_surface.splits)

lemma surface_ok_show: "surface_ok s \<Longrightarrow> surface_ok (showSurface p b s)"
  by (simp add: showSurface_def surface_ok_def split: huddle_surface.splits)

lemma surface_ok_start: "surface_ok s \<Longrightarrow> surface_ok (startSurface r p b s)"
proof -
  assume "surface_ok s"
  then have s: "surface_ok (showSurface p b s)" by (rule surface_ok_show)
  then have "tidy (openPreview r (sf_call (showSurface p b s)))" "skel_ok (openPreview r (sf_call (showSurface p b s)))"
    by (simp_all add: surface_ok_def tidy_openPreview skel_openPreview)
  then show ?thesis using s surface_ok_call[OF s] by (simp add: startSurface_def Let_def split: call_state.split)
qed

lemma surface_ok_step: "surface_ok s \<Longrightarrow> surface_ok (surfaceStep e s)"
proof (cases e)
  case (SfCall te)
  assume s: "surface_ok s"
  then show ?thesis using SfCall surface_ok_call[OF s] by (simp add: surfaceStep_def surface_ok_def tidy_step skel_step)
qed (simp_all add: surfaceStep_def surface_ok_show surface_ok_hide surface_ok_start surface_ok_closed)

lemma surface_ok_run: "surface_ok s \<Longrightarrow> surface_ok (surfaceRun s es)"
  unfolding surfaceRun_def by (induction es arbitrary: s) (simp_all add: surface_ok_step)

lemma surface_ok_start_state: "surface_ok (createHuddleSurface (createHuddleCall u d sp))"
  by (simp add: surface_ok_def createHuddleSurface_def tidy_start skel_start)

text \<open>closing the window ends what is only shown there, and nothing else. After any events of the screen and of the call,
  the window that is open is the one the surface knows, and no other. When the user closes it before joining, the
  preview or the problem is gone, no microphone, camera or connection is held, and no window is left; in a call the
  call goes on as it was (\<open>surface.ts\<close>, \<open>windowClosed\<close>, over \<open>call.ts\<close>).\<close>

theorem closing_window_ends_preview:
  assumes "s = surfaceRun (createHuddleSurface (createHuddleCall u display speaker)) es" "sf_surface s = Popup w"
  shows "sf_open s = [w]
    \<and> (let s' = surfaceStep (SfWindowClosed w) s in
        sf_open s' = [] \<and> sf_surface s' = NoSurface
        \<and> (case hc_state (sf_call s) of
             InCall v \<Rightarrow> sf_call s' = sf_call s
           | _ \<Rightarrow> hc_state (sf_call s') = CallIdle \<and> nothing_of_call (sf_call s') \<and> hc_stream (sf_call s') = None
               \<and> outCamera (sf_call s') = None))"
proof -
  have s: "surface_ok s" unfolding assms(1) by (rule surface_ok_run[OF surface_ok_start_state])
  then have o1: "sf_open s = [w]" using assms(2) by (simp add: surface_ok_def)
  have t: "tidy (sf_call s)" using s by (simp add: surface_ok_def)
  then have "tidy (cancelPreview (sf_call s))" "tidy (dismissProblem (sf_call s))" using tidy_cancelPreview tidy_leaves by blast+
  moreover have "hc_state (cancelPreview (sf_call s)) = CallIdle" if "hc_state (sf_call s) = InPreview p" for p
    using that by (simp add: cancelPreview_def)
  moreover have "hc_state (dismissProblem (sf_call s)) = CallIdle" if "hc_state (sf_call s) = CallProblem r p" for r p
    using that by (simp add: dismissProblem_def)
  ultimately have "case hc_state (sf_call s) of
      InCall v \<Rightarrow> True
    | InPreview p \<Rightarrow> hc_state (cancelPreview (sf_call s)) = CallIdle \<and> held_ok (cancelPreview (sf_call s))
    | CallProblem r p \<Rightarrow> hc_state (dismissProblem (sf_call s)) = CallIdle \<and> held_ok (dismissProblem (sf_call s))
    | CallIdle \<Rightarrow> held_ok (sf_call s)"
    using t by (simp add: tidy_def split: call_state.split)
  then show ?thesis using o1 assms(2)
    by (simp add: surfaceStep_def windowClosed_def closeWindow_def callChanged_def hideSurface_def Let_def held_ok_def
        split: call_state.splits)
qed

definition previewed :: surface_store where
  "previewed = surfaceRun (createHuddleSurface (createHuddleCall ''u'' True True))
     [SfStart ''r'' False True, SfCall (0, EvSettle 1 (AGrant None)), SfCall (0, EvSettle 3 (ADevices []))]"

theorem closing_window_ends_preview_witness:
  "hc_state (sf_call (surfaceStep (SfWindowClosed 0) previewed)) = CallIdle"
proof -
  have "sf_surface previewed = Popup 0" by code_simp
  moreover have "(case hc_state (sf_call previewed) of InPreview p \<Rightarrow> True | _ \<Rightarrow> False)" by code_simp
  ultimately show ?thesis using closing_window_ends_preview[OF previewed_def, of 0]
    by (auto simp: Let_def split: call_state.splits)
qed

end
