(* ===== verification/RecentHuddles.thy ===== *)
theory RecentHuddles
  imports Wire
begin

text \<open>
  The recent huddles and the suggestions (\<open>web/lib/chat/huddle/recent.ts\<close>). The closure's \<open>state\<close> and
  \<open>generation\<close> are one record; \<open>rc_asked\<close> are the requests of pages that have not settled, each with what its
  continuation remembers. The suggestions are requests of their own, in \<open>rc_suggesting\<close>.
\<close>

section \<open>Types\<close>

datatype huddle_list_filter = AllHuddles | MissedHuddles

record huddle_place =
  hl_id :: ident
  hl_kind :: room_kind
  hl_name :: "string option"
  hl_dm_peer :: "user_profile option"

record past_huddle =
  ph_id :: ident
  ph_message_id :: ident
  ph_started_by :: ident
  ph_room :: huddle_place
  ph_started_at :: iso
  ph_ended_at :: iso
  ph_participant_ids :: "ident list"
  ph_reply_count :: int
  ph_saved :: bool

record huddle_page =
  hpg_huddles :: "past_huddle list"
  hpg_next_cursor :: "string option"

record huddle_suggestion =
  hs_room :: huddle_place
  hs_count :: int
  hs_participant_ids :: "ident list"

record recent_query =
  rq_filter :: huddle_list_filter
  rq_participantId :: "ident option"
  rq_roomId :: "ident option"

datatype recent_status = RecentIdle | RecentLoading | RecentReady

record recent_state =
  rs_workspaceId :: "ident option"
  rs_query :: "recent_query option"
  rs_status :: recent_status
  rs_items :: "past_huddle list"
  rs_nextCursor :: "string option"
  rs_loadingMore :: bool
  rs_suggestions :: "huddle_suggestion list option"

record recent_call =
  ra_gen :: nat
  ra_workspaceId :: ident
  ra_query :: recent_query
  ra_before :: "string option" \<comment> \<open>\<open>None\<close> for the first page (\<open>fetchFirst\<close>)\<close>

record recent_store =
  rc_state :: recent_state
  rc_generation :: nat
  rc_asked :: "recent_call list"
  rc_suggesting :: "ident list"

definition initialRecent :: recent_state where
  "initialRecent = \<lparr>rs_workspaceId = None, rs_query = None, rs_status = RecentIdle, rs_items = [], rs_nextCursor = None,
     rs_loadingMore = False, rs_suggestions = None\<rparr>"

definition createRecentHuddles :: recent_store where
  "createRecentHuddles = \<lparr>rc_state = initialRecent, rc_generation = 0, rc_asked = [], rc_suggesting = []\<rparr>"

section \<open>Operations\<close>

definition loadRecent :: "ident \<Rightarrow> recent_query \<Rightarrow> recent_store \<Rightarrow> recent_store" where
  "loadRecent workspaceId query s =
     (let gen = rc_generation s + 1; st = rc_state s;
          sameList = (rs_workspaceId st = Some workspaceId \<and> rs_query st = Some query)
      in s\<lparr>rc_generation := gen,
           rc_state := st\<lparr>rs_workspaceId := Some workspaceId, rs_query := Some query, rs_status := RecentLoading,
             rs_items := (if sameList then rs_items st else []),
             rs_nextCursor := (if sameList then rs_nextCursor st else None),
             rs_loadingMore := False,
             rs_suggestions := (if rs_workspaceId st = Some workspaceId then rs_suggestions st else None)\<rparr>,
           rc_asked := rc_asked s @ [\<lparr>ra_gen = gen, ra_workspaceId = workspaceId, ra_query = query, ra_before = None\<rparr>]\<rparr>)"

definition fetchedFirst :: "huddle_page option \<Rightarrow> recent_state \<Rightarrow> recent_state" where
  \<comment> \<open>the rest of \<open>fetchFirst\<close>; \<open>None\<close> is an exception\<close>
  "fetchedFirst res st =
     (case res of
        Some p \<Rightarrow> st\<lparr>rs_status := RecentReady, rs_items := hpg_huddles p, rs_nextCursor := hpg_next_cursor p, rs_loadingMore := False\<rparr>
      | None \<Rightarrow> st\<lparr>rs_status := RecentReady, rs_items := [], rs_nextCursor := None\<rparr>)"

definition loadMoreRecent :: "recent_store \<Rightarrow> recent_store" where
  "loadMoreRecent s =
     (let st = rc_state s in
      case (rs_workspaceId st, rs_query st, rs_nextCursor st) of
        (Some w, Some q, Some c) \<Rightarrow>
          if w = [] \<or> rs_loadingMore st then s
          else s\<lparr>rc_state := st\<lparr>rs_loadingMore := True\<rparr>,
                 rc_asked := rc_asked s @ [\<lparr>ra_gen = rc_generation s, ra_workspaceId = w, ra_query = q, ra_before = Some c\<rparr>]\<rparr>
      | _ \<Rightarrow> s)"

definition fetchedMore :: "huddle_page option \<Rightarrow> recent_state \<Rightarrow> recent_state" where
  "fetchedMore res st =
     (case res of
        Some p \<Rightarrow>
          let known = ph_id ` set (rs_items st) in
          st\<lparr>rs_items := rs_items st @ filter (\<lambda>h. ph_id h \<notin> known) (hpg_huddles p),
             rs_nextCursor := hpg_next_cursor p, rs_loadingMore := False\<rparr>
      | None \<Rightarrow> st\<lparr>rs_loadingMore := False\<rparr>)"

definition settleRecent :: "nat \<Rightarrow> huddle_page option \<Rightarrow> recent_store \<Rightarrow> recent_store" where
  \<comment> \<open>the request at this place of \<open>rc_asked\<close> settles\<close>
  "settleRecent i res s =
     (if i < length (rc_asked s) then
        let c = rc_asked s ! i; s1 = s\<lparr>rc_asked := take i (rc_asked s) @ drop (i + 1) (rc_asked s)\<rparr> in
        if ra_gen c \<noteq> rc_generation s then s1
        else s1\<lparr>rc_state := (if ra_before c = None then fetchedFirst res (rc_state s) else fetchedMore res (rc_state s))\<rparr>
      else s)"

definition loadSuggestions :: "ident \<Rightarrow> recent_store \<Rightarrow> recent_store" where
  "loadSuggestions workspaceId s = s\<lparr>rc_suggesting := rc_suggesting s @ [workspaceId]\<rparr>"

definition settleSuggestions :: "nat \<Rightarrow> huddle_suggestion list option \<Rightarrow> recent_store \<Rightarrow> recent_store" where
  "settleSuggestions i res s =
     (if i < length (rc_suggesting s) then
        let w = rc_suggesting s ! i; s1 = s\<lparr>rc_suggesting := take i (rc_suggesting s) @ drop (i + 1) (rc_suggesting s)\<rparr> in
        case res of
          None \<Rightarrow> s1
        | Some l \<Rightarrow>
            if rs_workspaceId (rc_state s) \<noteq> None \<and> rs_workspaceId (rc_state s) \<noteq> Some w then s1
            else s1\<lparr>rc_state := (rc_state s)\<lparr>rs_suggestions := Some l\<rparr>\<rparr>
      else s)"

definition markSavedRecent :: "ident \<Rightarrow> bool \<Rightarrow> recent_store \<Rightarrow> recent_store" where
  "markSavedRecent huddleId saved s =
     (if \<not> list_ex (\<lambda>h. ph_id h = huddleId \<and> ph_saved h \<noteq> saved) (rs_items (rc_state s)) then s
      else s\<lparr>rc_state := (rc_state s)\<lparr>rs_items :=
        map (\<lambda>h. if ph_id h = huddleId then h\<lparr>ph_saved := saved\<rparr> else h) (rs_items (rc_state s))\<rparr>\<rparr>)"

section \<open>Runs\<close>

text \<open>An answer is a page of different huddles, as the server's list has no huddle twice.\<close>

definition page_ok :: "huddle_page option \<Rightarrow> bool" where
  "page_ok res = (case res of None \<Rightarrow> True | Some p \<Rightarrow> distinct (map ph_id (hpg_huddles p)))"

inductive recent_step :: "recent_store \<Rightarrow> recent_store \<Rightarrow> bool" where
  recent_load: "recent_step s (loadRecent w q s)"
| recent_more: "recent_step s (loadMoreRecent s)"
| recent_settle: "page_ok res \<Longrightarrow> recent_step s (settleRecent i res s)"
| recent_suggest: "recent_step s (loadSuggestions w s)"
| recent_suggested: "recent_step s (settleSuggestions i l s)"
| recent_saved: "recent_step s (markSavedRecent h b s)"

inductive recent_reachable :: "recent_store \<Rightarrow> bool" where
  recent_first: "recent_reachable createRecentHuddles"
| recent_next: "recent_reachable s \<Longrightarrow> recent_step s s' \<Longrightarrow> recent_reachable s'"

definition firsts :: "recent_store \<Rightarrow> recent_call list" where
  \<comment> \<open>the requests of a first page whose answer will be taken\<close>
  "firsts s = filter (\<lambda>c. ra_gen c = rc_generation s \<and> ra_before c = None) (rc_asked s)"

definition recent_ok :: "recent_store \<Rightarrow> bool" where
  "recent_ok s =
     (list_all (\<lambda>c. ra_gen c \<le> rc_generation s) (rc_asked s)
    \<and> list_all (\<lambda>c. ra_gen c = rc_generation s \<longrightarrow>
          rs_workspaceId (rc_state s) = Some (ra_workspaceId c) \<and> rs_query (rc_state s) = Some (ra_query c)) (rc_asked s)
    \<and> length (firsts s) = (if rs_status (rc_state s) = RecentLoading then 1 else 0)
    \<and> (rs_loadingMore (rc_state s) \<longrightarrow> list_ex (\<lambda>c. ra_gen c = rc_generation s \<and> ra_before c \<noteq> None) (rc_asked s))
    \<and> distinct (map ph_id (rs_items (rc_state s))))"

lemma split_at: "i < length xs \<Longrightarrow> xs = take i xs @ xs ! i # drop (i + 1) xs"
  by (simp add: id_take_nth_drop)

lemma list_all_without: "list_all P xs \<Longrightarrow> list_all P (take i xs @ drop j xs)"
  by (auto simp: list_all_iff dest: in_set_takeD in_set_dropD)

lemma list_ex_without:
  "list_ex P xs \<Longrightarrow> i < length xs \<Longrightarrow> \<not> P (xs ! i) \<Longrightarrow> list_ex P (take i xs @ drop (i + 1) xs)"
  by (subst (asm) split_at[of i xs]) simp_all

lemma filter_at:
  "i < length xs \<Longrightarrow> length (filter P xs) = length (filter P (take i xs @ drop (i + 1) xs)) + (if P (xs ! i) then 1 else 0)"
  by (subst split_at[of i xs]) simp_all

lemma firsts_old: "list_all (\<lambda>c. ra_gen c \<le> n) cs \<Longrightarrow> filter (\<lambda>c. ra_gen c = Suc n \<and> ra_before c = None) cs = []"
  by (induction cs) auto

lemma recent_ok_load: "recent_ok s \<Longrightarrow> recent_ok (loadRecent w q s)"
proof -
  assume s: "recent_ok s"
  then have le: "list_all (\<lambda>c. ra_gen c \<le> rc_generation s) (rc_asked s)" by (simp add: recent_ok_def)
  then have "list_all (\<lambda>c. ra_gen c \<le> Suc (rc_generation s) \<and> ra_gen c \<noteq> Suc (rc_generation s)) (rc_asked s)"
    by (auto simp: list_all_iff)
  then show ?thesis using s firsts_old[OF le]
    by (auto simp: recent_ok_def loadRecent_def firsts_def Let_def list_all_iff)
qed

lemma recent_ok_settle:
  assumes "recent_ok s" "page_ok res"
  shows "recent_ok (settleRecent i res s)"
proof (cases "i < length (rc_asked s)")
  case True
  let ?c = "rc_asked s ! i" and ?rest = "take i (rc_asked s) @ drop (i + 1) (rc_asked s)"
  note fa = filter_at[OF True, of "\<lambda>c. ra_gen c = rc_generation s \<and> ra_before c = None"]
  have le: "list_all (\<lambda>c. ra_gen c \<le> rc_generation s) ?rest"
    "list_all (\<lambda>c. ra_gen c = rc_generation s \<longrightarrow>
          rs_workspaceId (rc_state s) = Some (ra_workspaceId c) \<and> rs_query (rc_state s) = Some (ra_query c)) ?rest"
    by (rule list_all_without, use assms(1) in \<open>simp add: recent_ok_def\<close>)+
  have ex: "rs_loadingMore (rc_state s) \<Longrightarrow> \<not> (ra_gen ?c = rc_generation s \<and> ra_before ?c \<noteq> None) \<Longrightarrow>
      list_ex (\<lambda>c. ra_gen c = rc_generation s \<and> ra_before c \<noteq> None) ?rest"
    using assms(1) list_ex_without[OF _ True, of "\<lambda>c. ra_gen c = rc_generation s \<and> ra_before c \<noteq> None"]
    by (simp add: recent_ok_def)
  show ?thesis
  proof (cases "ra_gen ?c = rc_generation s")
    case False
    then have "settleRecent i res s = s\<lparr>rc_asked := ?rest\<rparr>" using True by (simp add: settleRecent_def Let_def)
    then show ?thesis using assms(1) le ex False fa
      by (simp add: recent_ok_def firsts_def del: list_all_append list_ex_append filter_append)
  next
    case cur: True
    show ?thesis
    proof (cases "ra_before ?c")
      case None
      then have st: "rs_status (rc_state s) = RecentLoading" using assms(1) cur fa
        by (auto simp: recent_ok_def firsts_def split: if_splits)
      have "settleRecent i res s = s\<lparr>rc_asked := ?rest, rc_state := fetchedFirst res (rc_state s)\<rparr>"
        using True cur None by (simp add: settleRecent_def Let_def)
      then show ?thesis using assms le ex cur None fa st
        by (simp add: recent_ok_def firsts_def fetchedFirst_def page_ok_def
            del: list_all_append list_ex_append filter_append split: option.splits)
    next
      case (Some b)
      have "settleRecent i res s = s\<lparr>rc_asked := ?rest, rc_state := fetchedMore res (rc_state s)\<rparr>"
        using True cur Some by (simp add: settleRecent_def Let_def)
      moreover have "distinct (map ph_id (filter P (hpg_huddles p)))" if "res = Some p" for P p
        using assms(2) that by (simp add: page_ok_def distinct_map_filter)
      moreover have "ph_id ` set items \<inter> ph_id ` {h \<in> set hs. ph_id h \<notin> ph_id ` set items} = {}" for items hs :: "past_huddle list"
        by (auto simp: image_iff)
      ultimately show ?thesis using assms le cur Some fa
        by (auto simp: recent_ok_def firsts_def fetchedMore_def Let_def
            simp del: list_all_append list_ex_append filter_append split: option.split)
    qed
  qed
qed (use assms in \<open>simp add: settleRecent_def\<close>)

lemma recent_ok_step: "recent_step s s' \<Longrightarrow> recent_ok s \<Longrightarrow> recent_ok s'"
proof (induction rule: recent_step.induct)
  case (recent_more s)
  then show ?case
    by (auto simp: recent_ok_def loadMoreRecent_def firsts_def Let_def split: option.split)
next
  case (recent_suggested s i l)
  then show ?case
    by (auto simp: recent_ok_def settleSuggestions_def firsts_def Let_def split: option.split)
next
  case (recent_saved s h b)
  have "map ph_id (map (\<lambda>x. if ph_id x = h then x\<lparr>ph_saved := b\<rparr> else x) xs) = map ph_id xs" for xs :: "past_huddle list"
    by (induction xs) auto
  then show ?case using recent_saved by (simp add: recent_ok_def markSavedRecent_def firsts_def del: map_map)
qed (auto simp: recent_ok_load recent_ok_settle, simp add: recent_ok_def loadSuggestions_def firsts_def)

lemma recent_ok_reachable: "recent_reachable s \<Longrightarrow> recent_ok s"
  by (induction rule: recent_reachable.induct)
    (simp_all add: recent_ok_step, simp add: recent_ok_def createRecentHuddles_def initialRecent_def firsts_def)

text \<open>C38: the list of recent huddles shows the filter that is chosen, and never stays loading. In every run: while it is
  loading, exactly one request of a first page will still be taken, and otherwise none; the spinner at its end has a
  request behind it; every request whose answer will be taken was made for the workspace and filter that are shown; and
  no huddle stands in it twice (\<open>recent.ts\<close>, the generation and \<open>loadMore\<close>).\<close>

theorem recent_huddles_current:
  assumes "recent_reachable s"
  shows "length (firsts s) = (if rs_status (rc_state s) = RecentLoading then 1 else 0)
    \<and> (rs_loadingMore (rc_state s) \<longrightarrow> list_ex (\<lambda>c. ra_gen c = rc_generation s \<and> ra_before c \<noteq> None) (rc_asked s))
    \<and> list_all (\<lambda>c. ra_gen c = rc_generation s \<longrightarrow>
          rs_workspaceId (rc_state s) = Some (ra_workspaceId c) \<and> rs_query (rc_state s) = Some (ra_query c)) (rc_asked s)
    \<and> distinct (map ph_id (rs_items (rc_state s)))"
  using recent_ok_reachable[OF assms] by (simp add: recent_ok_def)

definition all_recent :: recent_query where
  "all_recent = \<lparr>rq_filter = AllHuddles, rq_participantId = None, rq_roomId = None\<rparr>"

theorem recent_huddles_current_witness:
  "length (firsts (loadRecent ''w'' all_recent createRecentHuddles)) = 1"
proof -
  let ?s = "loadRecent ''w'' all_recent createRecentHuddles"
  have "recent_reachable ?s" by (rule recent_next[OF recent_first recent_load])
  moreover have "rs_status (rc_state ?s) = RecentLoading" by code_simp
  ultimately show ?thesis using recent_huddles_current[of ?s] by simp
qed

section \<open>A page between two lists\<close>

definition huddle_of :: "ident \<Rightarrow> past_huddle" where
  "huddle_of i = \<lparr>ph_id = i, ph_message_id = i, ph_started_by = ''u'',
     ph_room = \<lparr>hl_id = ''r'', hl_kind = Public, hl_name = None, hl_dm_peer = None\<rparr>, ph_started_at = [], ph_ended_at = [],
     ph_participant_ids = [], ph_reply_count = 0, ph_saved = False\<rparr>"

definition serve :: "ident list \<Rightarrow> nat \<Rightarrow> ident option \<Rightarrow> huddle_page" where
  \<comment> \<open>the server: the page of this size after the huddle that the cursor names, of its list, newest first\<close>
  "serve l n before =
     (let rest = (case before of None \<Rightarrow> l | Some b \<Rightarrow> drop 1 (dropWhile (\<lambda>i. i \<noteq> b) l)); page = take n rest
      in \<lparr>hpg_huddles = map huddle_of page, hpg_next_cursor = (if n < length rest then at_last page else None)\<rparr>)"

definition answered_by :: "ident list \<Rightarrow> nat \<Rightarrow> recent_store \<Rightarrow> recent_store" where
  \<comment> \<open>the server answers the request at this place from this list, two huddles for each page\<close>
  "answered_by l i s = settleRecent i (Some (serve l 2 (ra_before (rc_asked s ! i)))) s"

definition reload_while_scrolling :: recent_store where
  "reload_while_scrolling =
     (let l = [''e'', ''d'', ''c'', ''b'', ''a''];
          s1 = answered_by l 0 (loadRecent ''w'' all_recent createRecentHuddles);
          s2 = answered_by l 0 (loadMoreRecent s1);
          s3 = loadMoreRecent (loadRecent ''w'' all_recent s2)
      in answered_by (''f'' # l) 0 (answered_by (''f'' # l) 0 s3))"

lemma reload_reachable: "recent_reachable reload_while_scrolling"
  unfolding reload_while_scrolling_def Let_def answered_by_def
  by (intro recent_next[OF _ recent_settle] recent_next[OF _ recent_more] recent_next[OF _ recent_load] recent_first; code_simp)

text \<open>reading the list again while its end is being read loses the rows between. \<open>load\<close> with the same filter keeps the
  cursor of the old end and leaves \<open>loadMore\<close> open, so a page after the old end is asked for under the new generation
  and appended to the new first page. When the huddle \<open>f\<close> ends here, the list \<open>f e d c b a\<close> of the server is shown as
  \<open>f e a\<close>, as complete, with nothing left to ask.\<close>

theorem reload_loses_rows:
  "recent_reachable reload_while_scrolling
    \<and> map ph_id (rs_items (rc_state reload_while_scrolling)) = [''f'', ''e'', ''a'']
    \<and> rs_status (rc_state reload_while_scrolling) = RecentReady \<and> rs_nextCursor (rc_state reload_while_scrolling) = None
    \<and> rc_asked reload_while_scrolling = []"
proof -
  have "map ph_id (rs_items (rc_state reload_while_scrolling)) = [''f'', ''e'', ''a'']" by code_simp
  moreover have "rs_status (rc_state reload_while_scrolling) = RecentReady" by code_simp
  moreover have "rs_nextCursor (rc_state reload_while_scrolling) = None" by code_simp
  moreover have "rc_asked reload_while_scrolling = []" by code_simp
  ultimately show ?thesis using reload_reachable by simp
qed

end
