(* ===== verification/TimeLabels.thy ===== *)
theory TimeLabels
  imports Prelude
begin

text \<open>
  The labels of times (\<open>web/lib/chat/format/time.ts\<close>). What \<open>Intl.DateTimeFormat\<close> knows of the world's time zones is a
  parameter, \<open>zone\<close>: the offset of local time from UTC at an instant, in milliseconds; the calendar is the Gregorian one. A
  label is a value of \<open>time_text\<close>, with the numbers that stand in the sentence. \<open>formatBytes\<close> gives tenths of a unit.
\<close>

section \<open>The calendar\<close>

definition civil_year :: "int \<Rightarrow> int \<times> int" where
  \<comment> \<open>of a day of a cycle of 400 years that starts in March: the year in the cycle and the day in that year\<close>
  "civil_year doe =
     (let c = min (doe div 36524) 3; r = doe - c * 36524;
          q = r div 1461; r2 = r - q * 1461;
          y = min (r2 div 365) 3
      in (100 * c + 4 * q + y, r2 - 365 * y))"

definition civil_from_days :: "int \<Rightarrow> int \<times> int \<times> int" where
  \<comment> \<open>the date of a day since 1970-01-01\<close>
  "civil_from_days z =
     (let z' = z + 719468; era = z' div 146097; (yoe, doy) = civil_year (z' - era * 146097);
          mp = (5 * doy + 2) div 153; d = doy - (153 * mp + 2) div 5 + 1; m = (if mp < 10 then mp + 3 else mp - 9)
      in ((yoe + era * 400) + (if m \<le> 2 then 1 else 0), m, d))"

lemma civil_year_ok:
  assumes "0 \<le> doe" "doe < 146097" "civil_year doe = (yoe, doy)"
  shows "0 \<le> yoe" "yoe < 400" "0 \<le> doy" "doy \<le> 365" "doe = yoe * 365 + yoe div 4 - yoe div 100 + doy"
proof -
  define c where "c = min (doe div 36524) 3"
  define r where "r = doe - c * 36524"
  define q where "q = r div 1461"
  define r2 where "r2 = r - q * 1461"
  define y where "y = min (r2 div 365) 3"
  have e: "yoe = 100 * c + 4 * q + y" "doy = r2 - 365 * y"
    using assms(3) by (simp_all add: civil_year_def Let_def c_def r_def q_def r2_def y_def)
  have c: "0 \<le> c" "c \<le> 3" using assms(1) by (auto simp: c_def)
  have r: "0 \<le> r" "r \<le> 36524" using assms(1,2) by (auto simp: r_def c_def min_def)
  have q: "0 \<le> q" "q \<le> 24" using r by (auto simp: q_def)
  have r2: "0 \<le> r2" "r2 < 1461" by (auto simp: r2_def q_def minus_div_mult_eq_mod)
  have y: "0 \<le> y" "y \<le> 3" using r2 by (auto simp: y_def)
  show "0 \<le> yoe" "yoe < 400" using c q y e by auto
  show doy: "0 \<le> doy" "doy \<le> 365" using r2 e by (auto simp: y_def min_def)
  have "yoe = y + (25 * c + q) * 4" using e by simp
  then have "yoe div 4 = y div 4 + (25 * c + q)" by simp
  then have d4: "yoe div 4 = 25 * c + q" using y by simp
  have "yoe = (4 * q + y) + c * 100" "0 \<le> 4 * q + y" "4 * q + y < 100" using e q y by auto
  then have "yoe div 100 = (4 * q + y) div 100 + c" by simp
  then have "yoe div 100 = c" using \<open>0 \<le> 4 * q + y\<close> \<open>4 * q + y < 100\<close> by simp
  then show "doe = yoe * 365 + yoe div 4 - yoe div 100 + doy" using d4 e by (simp add: r2_def r_def)
qed

lemma month_ok:
  fixes doy :: int
  assumes "0 \<le> doy" "doy \<le> 365" "mp = (5 * doy + 2) div 153" "m = (if mp < 10 then mp + 3 else mp - 9)"
  shows "1 \<le> m" "m \<le> 12" "(if m > 2 then m - 3 else m + 9) = mp" "0 \<le> mp" "mp \<le> 11"
proof -
  have "0 \<le> mp" "mp \<le> 11" using assms(1-3) by auto
  then show "1 \<le> m" "m \<le> 12" "(if m > 2 then m - 3 else m + 9) = mp" "0 \<le> mp" "mp \<le> 11" using assms(4) by auto
qed

lemma days_civil:
  assumes "civil_from_days z = (y, m, d)"
  shows "days_from_civil y m d = z"
proof -
  define z' where "z' = z + 719468"
  define era where "era = z' div 146097"
  obtain yoe doy where c: "civil_year (z' - era * 146097) = (yoe, doy)" by (cases "civil_year (z' - era * 146097)")
  define mp where "mp = (5 * doy + 2) div 153"
  define m' where "m' = (if mp < 10 then mp + 3 else mp - 9)"
  have "civil_from_days z = (yoe + era * 400 + (if m' \<le> 2 then 1 else 0), m', doy - (153 * mp + 2) div 5 + 1)"
    unfolding civil_from_days_def Let_def z'_def[symmetric] era_def[symmetric] c prod.case mp_def[symmetric] m'_def[symmetric] ..
  then have e: "m = m'" "d = doy - (153 * mp + 2) div 5 + 1" "y = yoe + era * 400 + (if m' \<le> 2 then 1 else 0)"
    using assms by simp_all
  have r: "0 \<le> z' - era * 146097" "z' - era * 146097 < 146097"
    by (simp_all add: era_def minus_div_mult_eq_mod)
  note k = civil_year_ok[OF r c]
  note mk = month_ok[OF k(3,4) mp_def m'_def]
  have y': "(if m \<le> 2 then y - 1 else y) = yoe + era * 400" using e by simp
  have "(yoe + era * 400) div 400 = era" using k(1,2) by simp
  then have "days_from_civil y m d =
      era * 146097 + (yoe * 365 + yoe div 4 - yoe div 100 + ((153 * mp + 2) div 5 + d - 1)) - 719468"
    unfolding days_from_civil_def Let_def y' using mk(3) e(1) by (simp only: add_diff_cancel_right')
  also have "\<dots> = era * 146097 + (z' - era * 146097) - 719468" using e(2) k(5) by simp
  finally show ?thesis by (simp add: z'_def)
qed

lemma civil_inj: "civil_from_days a = civil_from_days b \<longleftrightarrow> a = b"
  by (metis days_civil prod_cases3)

section \<open>Local time\<close>

type_synonym zone = "int \<Rightarrow> int"

record local_parts =
  lp_year :: int
  lp_month :: int
  lp_day :: int
  lp_hour :: int
  lp_minute :: int

definition local_day :: "zone \<Rightarrow> int \<Rightarrow> int" where
  "local_day zone t = (t + zone t) div 86400000"

definition localParts :: "zone \<Rightarrow> int \<Rightarrow> local_parts" where
  "localParts zone t =
     (let (y, m, d) = civil_from_days (local_day zone t); ms = (t + zone t) mod 86400000
      in \<lparr>lp_year = y, lp_month = m, lp_day = d, lp_hour = ms div 3600000, lp_minute = ms div 60000 mod 60\<rparr>)"

definition date_of :: "iso \<Rightarrow> int" where
  \<comment> \<open>\<open>new Date(s)\<close> of a time that the server has written\<close>
  "date_of s = (case date_parse s of None \<Rightarrow> 0 | Some t \<Rightarrow> t)"

datatype time_text =
    Clock int int              \<comment> \<open>\<open>09:41\<close>\<close>
  | MonthDay int int           \<comment> \<open>month and day\<close>
  | YearMonthDay int int int
  | DayClock int int int int
  | Yesterday | Today
  | JustNow | MinutesAgo int | HoursAgo int
  | UntilClock int int         \<comment> \<open>the expiry of a status\<close>
  | UntilDayClock int int int int

section \<open>The labels\<close>

definition dayKey :: "zone \<Rightarrow> int \<Rightarrow> int \<times> int \<times> int" where
  \<comment> \<open>year, month and day, between dashes\<close>
  "dayKey zone t = (let p = localParts zone t in (lp_year p, lp_month p, lp_day p))"

definition formatTime :: "zone \<Rightarrow> int \<Rightarrow> time_text" where
  "formatTime zone t = (let p = localParts zone t in Clock (lp_hour p) (lp_minute p))"

definition formatDate :: "zone \<Rightarrow> int \<Rightarrow> int \<Rightarrow> time_text" where
  "formatDate zone t now_ms =
     (let p = localParts zone t in
      if lp_year p = lp_year (localParts zone now_ms) then MonthDay (lp_month p) (lp_day p)
      else YearMonthDay (lp_year p) (lp_month p) (lp_day p))"

definition formatDayTime :: "zone \<Rightarrow> int \<Rightarrow> time_text" where
  "formatDayTime zone t = (let p = localParts zone t in DayClock (lp_month p) (lp_day p) (lp_hour p) (lp_minute p))"

definition sameDay :: "local_parts \<Rightarrow> int \<times> int \<times> int \<Rightarrow> bool" where
  "sameDay a b = (lp_year a = fst b \<and> lp_month a = fst (snd b) \<and> lp_day a = snd (snd b))"

definition formatListTime :: "zone \<Rightarrow> int \<Rightarrow> int \<Rightarrow> time_text" where
  \<comment> \<open>\<open>Date.UTC\<close> carries over the ends of months and years\<close>
  "formatListTime zone t now_ms =
     (let d = localParts zone t; today = localParts zone now_ms in
      if sameDay d (lp_year today, lp_month today, lp_day today) then formatTime zone t
      else if sameDay d (civil_from_days (days_from_civil (lp_year today) (lp_month today) (lp_day today) - 1)) then Yesterday
      else if lp_year d = lp_year today then MonthDay (lp_month d) (lp_day d)
      else YearMonthDay (lp_year d) (lp_month d) (lp_day d))"

definition formatAgo :: "zone \<Rightarrow> int \<Rightarrow> int \<Rightarrow> time_text" where
  "formatAgo zone t now_ms =
     (let minutes = (now_ms - t) div 60000 in
      if minutes < 1 then JustNow
      else if minutes < 60 then MinutesAgo minutes
      else if minutes < 24 * 60 then HoursAgo (minutes div 60)
      else formatListTime zone t now_ms)"

definition formatDayLabel :: "zone \<Rightarrow> int \<Rightarrow> int \<Rightarrow> time_text" where
  "formatDayLabel zone t now_ms =
     (let p = localParts zone now_ms in
      if sameDay (localParts zone t) (lp_year p, lp_month p, lp_day p) then Today else formatListTime zone t now_ms)"

definition formatStatusExpiry :: "zone \<Rightarrow> int \<Rightarrow> int \<Rightarrow> time_text" where
  "formatStatusExpiry zone t now_ms =
     (let d = localParts zone t; p = localParts zone now_ms in
      if sameDay d (lp_year p, lp_month p, lp_day p) then UntilClock (lp_hour d) (lp_minute d)
      else UntilDayClock (lp_month d) (lp_day d) (lp_hour d) (lp_minute d))"

datatype byte_unit = Bytes | KB | MB | GB

definition formatBytes :: "int \<Rightarrow> int \<times> byte_unit" where
  \<comment> \<open>in tenths; the divisions by 1024 are exact in the sizes a file has\<close>
  "formatBytes bytes =
     (if bytes < 1024 then (bytes * 10, Bytes)
      else
        let (d, u) = (if bytes < 1024 ^ 2 then (1024, KB) else if bytes < 1024 ^ 3 then (1024 ^ 2, MB) else (1024 ^ 3, GB))
        in if bytes \<ge> 10 * d then (bytes div d * 10, u) else (bytes * 10 div d, u))"

section \<open>Labels and days\<close>

lemma local_parts_simps:
  "civil_from_days (local_day zone t) = (lp_year (localParts zone t), lp_month (localParts zone t), lp_day (localParts zone t))"
  by (simp add: localParts_def Let_def split: prod.split)

lemma dayKey_civil: "dayKey zone t = civil_from_days (local_day zone t)"
  by (simp add: dayKey_def Let_def local_parts_simps)

lemma dayKey_eq: "dayKey zone a = dayKey zone b \<longleftrightarrow> local_day zone a = local_day zone b"
  by (simp add: dayKey_civil civil_inj)

lemma sameDay_iff: "sameDay (localParts zone a) (civil_from_days n) \<longleftrightarrow> local_day zone a = n"
proof -
  have "sameDay (localParts zone a) (civil_from_days n) \<longleftrightarrow> dayKey zone a = civil_from_days n"
    by (cases "civil_from_days n") (simp add: sameDay_def dayKey_def Let_def)
  then show ?thesis by (simp add: dayKey_civil civil_inj)
qed

lemma today_days: "days_from_civil (lp_year (localParts zone t)) (lp_month (localParts zone t)) (lp_day (localParts zone t)) = local_day zone t"
  by (rule days_civil) (rule local_parts_simps)

text \<open>C40: the label of a time says the day by the calendar of the reader, in any time zone: the time for today, the word for the
  day before whatever month or year ends between them (and even when a change of the clock makes it shorter or longer
  than 24 hours), and otherwise the date, with the year when it is another (\<open>time.ts\<close>, \<open>formatListTime\<close>).\<close>

theorem list_time_by_calendar:
  "formatListTime zone t now_ms =
     (let p = localParts zone t in
      if local_day zone t = local_day zone now_ms then Clock (lp_hour p) (lp_minute p)
      else if local_day zone t = local_day zone now_ms - 1 then Yesterday
      else if lp_year p = lp_year (localParts zone now_ms) then MonthDay (lp_month p) (lp_day p)
      else YearMonthDay (lp_year p) (lp_month p) (lp_day p))"
proof -
  have "sameDay (localParts zone t)
      (lp_year (localParts zone now_ms), lp_month (localParts zone now_ms), lp_day (localParts zone now_ms))
      \<longleftrightarrow> local_day zone t = local_day zone now_ms"
    using sameDay_iff[of zone t "local_day zone now_ms"] by (simp add: local_parts_simps)
  then show ?thesis
    by (simp add: formatListTime_def Let_def today_days sameDay_iff formatTime_def)
qed

end
