(* ===== verification/HuddleViews.thy ===== *)
theory HuddleViews
  imports RecentHuddles HuddleCall TimeLabels
begin

text \<open>
  What the screens show of huddles (\<open>web/lib/chat/views/huddles.ts\<close>). Japanese sentences are values with the parts that
  stand in them. A stream that is drawn is its handle with the key it is drawn under; whether there is a way to draw
  (\<open>renderVideo\<close>) is a flag. Cards of links are left out.
\<close>

section \<open>People and names\<close>

datatype person_label = Named string | SomeMember | You

record user_ref =
  ur_id :: ident
  ur_name :: person_label
  ur_avatarUrl :: "string option"

type_synonym names = "(ident, string) jsrec"
type_synonym url_table = "(ident, string option) jsrec"

definition url_of :: "url_table \<Rightarrow> ident \<Rightarrow> string option" where
  \<comment> \<open>\<open>urls[id] ?? undefined\<close>\<close>
  "url_of urls i = (case rget urls i of None \<Rightarrow> None | Some u \<Rightarrow> u)"

definition member_label :: "names \<Rightarrow> ident \<Rightarrow> person_label" where
  \<comment> \<open>\<open>names[id]\<close>, or the word for a member\<close>
  "member_label names i = (case rget names i of None \<Rightarrow> SomeMember | Some n \<Rightarrow> Named n)"

definition user_ref_of :: "names \<Rightarrow> url_table \<Rightarrow> ident \<Rightarrow> user_ref" where
  "user_ref_of names urls i = \<lparr>ur_id = i, ur_name = member_label names i, ur_avatarUrl = url_of urls i\<rparr>"

definition me_first :: "ident option \<Rightarrow> ident list \<Rightarrow> ident list" where
  "me_first meId ids =
     (case meId of Some m \<Rightarrow> if m \<in> set ids then m # filter (\<lambda>i. i \<noteq> m) ids else ids | None \<Rightarrow> ids)"

definition huddleParticipantNames :: "ident list \<Rightarrow> ident option \<Rightarrow> names \<Rightarrow> person_label list \<times> nat" where
  \<comment> \<open>the names that are shown, and how many more there are\<close>
  "huddleParticipantNames userIds meId names =
     (let ordered = me_first meId userIds
      in (map (\<lambda>i. if Some i = meId then You else member_label names i) (take 2 ordered), length ordered - 2))"

datatype duration_text = UnderAMinute | Minutes int | Hours int | HoursMinutes int int

definition huddleDurationLabel :: "iso \<Rightarrow> iso \<Rightarrow> duration_text" where
  "huddleDurationLabel startedAt endedAt =
     (let minutes = (date_of endedAt - date_of startedAt) div 60000 in
      if minutes < 1 then UnderAMinute
      else if minutes < 60 then Minutes minutes
      else if minutes mod 60 = 0 then Hours (minutes div 60)
      else HoursMinutes (minutes div 60) (minutes mod 60))"

section \<open>The message of a huddle\<close>

datatype huddle_message_state = HmActive | HmEnded | HmMissed | HmUnanswered

datatype participants_label =
    NoParticipants
  | JustNames "person_label list \<times> nat"     \<comment> \<open>the reader is in it\<close>
  | TakingPart "person_label list \<times> nat"
  | TookPartAlone "person_label list \<times> nat"
  | TookPart "person_label list \<times> nat"

record huddle_message_view =
  hv_key :: ident
  hv_starter :: user_ref
  hv_timeLabel :: time_text
  hv_thread :: "(int \<times> time_text) option"
  hv_state :: huddle_message_state
  hv_participants :: "user_ref list"
  hv_participantsLabel :: "participants_label option"
  hv_durationLabel :: "duration_text option"
  hv_joined :: "bool option"

record huddle_message_options =
  ho_me :: "user_profile option"
  ho_roomKind :: "room_kind option"
  ho_activeHuddle :: "room_huddle option"
  ho_names :: names
  ho_avatarUrls :: url_table
  ho_timeLabel :: time_text
  ho_thread :: "(int \<times> time_text) option"

definition toHuddleMessageView :: "ident \<Rightarrow> user_profile \<Rightarrow> message_huddle \<Rightarrow> huddle_message_options \<Rightarrow> huddle_message_view" where
  "toHuddleMessageView key sender huddle opts =
     (let meId = map_option u_id (ho_me opts);
          withMe = rput (u_id sender) (u_display_name sender)
            (case ho_me opts of None \<Rightarrow> ho_names opts | Some mine \<Rightarrow> rput (u_id mine) (u_display_name mine) (ho_names opts));
          ref = user_ref_of withMe (ho_avatarUrls opts);
          starter = \<lparr>ur_id = u_id sender, ur_name = Named (u_display_name sender), ur_avatarUrl = url_of (ho_avatarUrls opts) (u_id sender)\<rparr>;
          base = \<lparr>hv_key = key, hv_starter = starter, hv_timeLabel = ho_timeLabel opts, hv_thread = ho_thread opts,
            hv_state = HmActive, hv_participants = [], hv_participantsLabel = None, hv_durationLabel = None, hv_joined = None\<rparr>;
          ids = mh_participant_ids huddle
      in case mh_ended_at huddle of
        None \<Rightarrow>
          let current = (case ho_activeHuddle opts of Some h \<Rightarrow> if h_id h = mh_id huddle then map hp_user_id (h_participants h) else ids | None \<Rightarrow> ids);
              joined = (case meId of None \<Rightarrow> False | Some m \<Rightarrow> m \<in> set current);
              label = huddleParticipantNames current meId withMe
          in base\<lparr>hv_participants := map ref current,
               hv_participantsLabel := Some (if current = [] then NoParticipants else if joined then JustNames label else TakingPart label),
               hv_joined := Some joined\<rparr>
      | Some ended \<Rightarrow>
          if ho_roomKind opts = Some Dm \<and> (case meId of None \<Rightarrow> False | Some m \<Rightarrow> m \<notin> set ids)
          then base\<lparr>hv_state := HmMissed, hv_participants := map ref ids\<rparr>
          else if ho_roomKind opts = Some Dm \<and> meId = Some (u_id sender) \<and> length ids = 1
          then base\<lparr>hv_state := HmUnanswered, hv_participants := map ref ids\<rparr>
          else
            let label = huddleParticipantNames ids meId withMe
            in base\<lparr>hv_state := HmEnded, hv_participants := map ref ids,
                 hv_participantsLabel := Some (if length ids = 1 then TookPartAlone label else TookPart label),
                 hv_durationLabel := Some (huddleDurationLabel (mh_started_at huddle) ended)\<rparr>)"

section \<open>Rooms with a huddle\<close>

datatype huddle_header_state = HeaderIdle | HeaderActive "user_ref list" | HeaderJoined

definition live_participants :: "room \<Rightarrow> huddle_participant list" where
  "live_participants room = (case r_huddle room of None \<Rightarrow> [] | Some h \<Rightarrow> h_participants h)"

definition huddleHeaderState :: "room \<Rightarrow> ident \<Rightarrow> names \<Rightarrow> url_table \<Rightarrow> huddle_header_state" where
  "huddleHeaderState room meId names urls =
     (let ps = live_participants room in
      if ps = [] then HeaderIdle
      else if list_ex (\<lambda>p. hp_user_id p = meId) ps then HeaderJoined
      else HeaderActive (map (\<lambda>p. user_ref_of names urls (hp_user_id p)) ps))"

definition roomHuddleBadge :: "room \<Rightarrow> names \<Rightarrow> url_table \<Rightarrow> user_ref list option" where
  "roomHuddleBadge room names urls =
     (let ps = live_participants room in
      if ps = [] then None else Some (map (\<lambda>p. user_ref_of names urls (hp_user_id p)) ps))"

definition screenRoom :: "room \<Rightarrow> room_kind \<times> string" where
  "screenRoom room =
     (r_kind room,
      if r_kind room = Dm then (case r_dm_peer room of None \<Rightarrow> [] | Some p \<Rightarrow> dp_display_name p)
      else (case r_name room of None \<Rightarrow> [] | Some n \<Rightarrow> n))"

datatype link_action = LinkStart | LinkNotMember | LinkArchived | LinkIgnore

definition huddleLinkAction :: "room \<Rightarrow> bool \<Rightarrow> link_action" where
  "huddleLinkAction room canPostHere =
     (if canPostHere then LinkStart
      else if r_archived_at room \<noteq> None then LinkArchived
      else if r_kind room = Public \<and> \<not> r_is_member room then LinkNotMember
      else LinkIgnore)"

section \<open>The screen of a call\<close>

datatype render_key = OwnCamera ident | OfTrack ident video_kind

record participant_view =
  tv_ref :: user_ref
  tv_muted :: bool
  tv_speaking :: bool
  tv_camera :: bool
  tv_shown :: "(nat \<times> render_key) option" \<comment> \<open>the video that is drawn\<close>

record share_view =
  sh_id :: ident
  sh_owner :: user_ref
  sh_video :: "nat \<times> render_key"

record huddle_screen_view =
  hw_room :: "room_kind \<times> string"
  hw_connection :: call_connection
  hw_participants :: "participant_view list"
  hw_joiningSoon :: "user_ref list"
  hw_muted :: bool
  hw_camera :: bool
  hw_sharing :: bool
  hw_canShareScreen :: bool
  hw_screens :: "share_view list"
  hw_pinnedId :: "ident option"
  hw_notice :: "call_notice option"

definition screenPinId :: "ident \<Rightarrow> ident" where
  "screenPinId userId = ''screen:'' @ userId"

definition ref_in_call :: "user_ref \<Rightarrow> names \<Rightarrow> url_table \<Rightarrow> ident \<Rightarrow> user_ref" where
  "ref_in_call mine names urls i = (if i = ur_id mine then mine else user_ref_of names urls i)"

definition huddleScreens ::
    "call_view \<Rightarrow> huddle_participant list \<Rightarrow> (ident \<Rightarrow> user_ref) \<Rightarrow> user_ref \<Rightarrow> share_view list" where
  "huddleScreens call others ref mine =
     (case (cv_sharing call, cv_screen call) of
        (True, Some x) \<Rightarrow> [\<lparr>sh_id = screenPinId (ur_id mine), sh_owner = mine, sh_video = (x, OfTrack (ur_id mine) VScreen)\<rparr>]
      | _ \<Rightarrow> [])
     @ concat (map (\<lambda>p. case (if hp_screen p then map_of (cv_remoteVideos call) (hp_user_id p, VScreen) else None) of
           None \<Rightarrow> []
         | Some x \<Rightarrow> [\<lparr>sh_id = screenPinId (hp_user_id p), sh_owner = ref (hp_user_id p), sh_video = (x, OfTrack (hp_user_id p) VScreen)\<rparr>])
       others)"

definition call_huddle :: "room \<Rightarrow> call_view \<Rightarrow> room_huddle option" where
  "call_huddle room call =
     (case r_huddle room of
        None \<Rightarrow> None
      | Some h \<Rightarrow> if cv_huddleId call = None \<or> cv_huddleId call = Some (h_id h) then Some h else None)"

definition other_participants :: "room \<Rightarrow> call_view \<Rightarrow> ident \<Rightarrow> huddle_participant list" where
  "other_participants room call meId =
     filter (\<lambda>p. hp_user_id p \<noteq> meId) (case call_huddle room call of None \<Rightarrow> [] | Some h \<Rightarrow> h_participants h)"

definition own_tile :: "call_view \<Rightarrow> user_ref \<Rightarrow> bool \<Rightarrow> participant_view" where
  "own_tile call mine render =
     \<lparr>tv_ref = mine, tv_muted = cv_muted call, tv_speaking = (ur_id mine \<in> set (cv_speaking call)), tv_camera = cv_camera call,
      tv_shown = (case cv_video call of Some x \<Rightarrow> if cv_camera call \<and> render then Some (x, OwnCamera (ur_id mine)) else None | None \<Rightarrow> None)\<rparr>"

definition other_tile :: "call_view \<Rightarrow> (ident \<Rightarrow> user_ref) \<Rightarrow> bool \<Rightarrow> huddle_participant \<Rightarrow> participant_view" where
  "other_tile call ref render p =
     \<lparr>tv_ref = ref (hp_user_id p), tv_muted = hp_muted p,
      tv_speaking = (\<not> hp_muted p \<and> hp_user_id p \<in> set (cv_speaking call)), tv_camera = hp_camera p,
      tv_shown = (case (if hp_camera p then map_of (cv_remoteVideos call) (hp_user_id p, VCamera) else None) of
          Some x \<Rightarrow> if render then Some (x, OfTrack (hp_user_id p) VCamera) else None | None \<Rightarrow> None)\<rparr>"

definition toHuddleScreenView ::
    "room \<Rightarrow> call_view \<Rightarrow> user_ref \<Rightarrow> names \<Rightarrow> url_table \<Rightarrow> bool \<Rightarrow> ident option \<Rightarrow> huddle_screen_view" where
  "toHuddleScreenView room call mine names urls render pinnedId =
     (let ref = ref_in_call mine names urls; others = other_participants room call (ur_id mine) in
      \<lparr>hw_room = screenRoom room, hw_connection = cv_connection call,
       hw_participants = own_tile call mine render # map (other_tile call ref render) others,
       hw_joiningSoon = map ref (filter (\<lambda>i. i \<noteq> ur_id mine)
         (case call_huddle room call of None \<Rightarrow> [] | Some h \<Rightarrow> h_joining_soon h)),
       hw_muted = cv_muted call, hw_camera = cv_camera call, hw_sharing = cv_sharing call,
       hw_canShareScreen = cv_canShareScreen call,
       hw_screens = (if render then huddleScreens call others ref mine else []),
       hw_pinnedId = pinnedId, hw_notice = cv_notice call\<rparr>)"

section \<open>The list of huddles\<close>

definition placeView :: "room_kind \<Rightarrow> string option \<Rightarrow> string option \<Rightarrow> room_kind \<times> string" where
  \<comment> \<open>of the kind, the name and the name of the other one\<close>
  "placeView kind name peer =
     (kind, if kind = Dm then (case peer of None \<Rightarrow> [] | Some p \<Rightarrow> p) else (case name of None \<Rightarrow> [] | Some n \<Rightarrow> n))"

definition room_place :: "room \<Rightarrow> room_kind \<times> string" where
  "room_place r = placeView (r_kind r) (r_name r) (map_option dp_display_name (r_dm_peer r))"

definition huddle_place_view :: "huddle_place \<Rightarrow> room_kind \<times> string" where
  "huddle_place_view p = placeView (hl_kind p) (hl_name p) (map_option u_display_name (hl_dm_peer p))"

datatype elapsed_text = Seconds | Elapsed duration_text

definition duration_of :: "int \<Rightarrow> int \<Rightarrow> duration_text" where
  \<comment> \<open>\<open>huddleDurationLabel\<close> of two instants; \<open>now.toISOString()\<close> reads back as \<open>now\<close>\<close>
  "duration_of a b =
     (let minutes = (b - a) div 60000 in
      if minutes < 1 then UnderAMinute
      else if minutes < 60 then Minutes minutes
      else if minutes mod 60 = 0 then Hours (minutes div 60)
      else HoursMinutes (minutes div 60) (minutes mod 60))"

definition huddleElapsedLabel :: "iso \<Rightarrow> int \<Rightarrow> elapsed_text" where
  "huddleElapsedLabel startedAt now_ms =
     (if now_ms - date_of startedAt < 60000 then Seconds else Elapsed (duration_of (date_of startedAt) now_ms))"

record ongoing_card =
  oc_key :: ident
  oc_room :: "room_kind \<times> string"
  oc_elapsedLabel :: elapsed_text
  oc_participants :: "user_ref list"
  oc_joined :: bool

definition started_at :: "room \<Rightarrow> iso" where
  "started_at r = (case r_huddle r of None \<Rightarrow> [] | Some h \<Rightarrow> h_started_at h)"

definition newest_huddle :: "room \<Rightarrow> room \<Rightarrow> int" where
  "newest_huddle a b = localeCompare (started_at b) (started_at a)"

definition toHuddleOngoingCards ::
    "room list \<Rightarrow> ident option \<Rightarrow> names \<Rightarrow> url_table \<Rightarrow> int \<Rightarrow> (room \<Rightarrow> bool) \<Rightarrow> ongoing_card list" where
  "toHuddleOngoingCards rooms meId names urls now_ms canJoin =
     map (\<lambda>r. \<lparr>oc_key = r_id r, oc_room = room_place r, oc_elapsedLabel = huddleElapsedLabel (started_at r) now_ms,
          oc_participants = map (\<lambda>p. user_ref_of names urls (hp_user_id p)) (live_participants r),
          oc_joined = (case meId of None \<Rightarrow> False | Some m \<Rightarrow> list_ex (\<lambda>p. hp_user_id p = m) (live_participants r))\<rparr>)
       (js_sort newest_huddle (filter (\<lambda>r. live_participants r \<noteq> [] \<and> canJoin r) rooms))"

definition huddleNavFaces :: "room list \<Rightarrow> names \<Rightarrow> url_table \<Rightarrow> (room \<Rightarrow> bool) \<Rightarrow> user_ref list" where
  "huddleNavFaces rooms names urls canJoin =
     map (user_ref_of names urls)
       (js_uniq (concat (map (\<lambda>r. map hp_user_id (live_participants r)) (filter (\<lambda>r. r_huddle r \<noteq> None \<and> canJoin r) rooms))))"

record huddle_list_item =
  li_key :: ident
  li_href :: string
  li_threadHref :: string
  li_room :: "room_kind \<times> string"
  li_timeLabel :: time_text
  li_durationLabel :: duration_text
  li_replyCount :: int
  li_participants :: "user_ref list"
  li_saved :: bool

definition toHuddleListItemView ::
    "past_huddle \<Rightarrow> ident \<Rightarrow> ident option \<Rightarrow> names \<Rightarrow> url_table \<Rightarrow> int \<Rightarrow> zone \<Rightarrow> huddle_list_item" where
  "toHuddleListItemView h workspaceId meId names urls now_ms zone =
     (let base = ''/w/'' @ workspaceId @ ''/r/'' @ hl_id (ph_room h) in
      \<lparr>li_key = ph_id h, li_href = base @ ''?m='' @ ph_message_id h, li_threadHref = base @ ''?t='' @ ph_message_id h,
       li_room = huddle_place_view (ph_room h), li_timeLabel = formatAgo zone (date_of (ph_started_at h)) now_ms,
       li_durationLabel = huddleDurationLabel (ph_started_at h) (ph_ended_at h), li_replyCount = ph_reply_count h,
       li_participants = map (\<lambda>i. \<lparr>ur_id = i, ur_name = (if Some i = meId then You else member_label names i), ur_avatarUrl = url_of urls i\<rparr>)
         (me_first meId (ph_participant_ids h)),
       li_saved = ph_saved h\<rparr>)"

record suggestion_view =
  sg_key :: ident
  sg_room :: "room_kind \<times> string"
  sg_count :: int
  sg_participants :: "user_ref list"

definition toHuddleSuggestionView :: "huddle_suggestion \<Rightarrow> names \<Rightarrow> url_table \<Rightarrow> suggestion_view" where
  "toHuddleSuggestionView s names urls =
     \<lparr>sg_key = hl_id (hs_room s), sg_room = huddle_place_view (hs_room s), sg_count = hs_count s,
      sg_participants = map (user_ref_of names urls) (hs_participant_ids s)\<rparr>"

section \<open>What the two of a DM see\<close>

text \<open>of a huddle in a DM that has ended, the two see the same thing. When the other one never came in, the one who
  started it sees that nobody answered, and the other one sees a missed call; when both were in it, both see that it
  has ended, with its duration; and nobody sees a missed call of a huddle they were in (\<open>views/huddles.ts\<close>,
  \<open>toHuddleMessageView\<close>).\<close>

theorem dm_huddle_views_agree:
  assumes "mh_ended_at h = Some e" "u_id sender \<noteq> u_id other" "distinct (mh_participant_ids h)"
    "u_id sender \<in> set (mh_participant_ids h)" "set (mh_participant_ids h) \<subseteq> {u_id sender, u_id other}"
  shows "let view = (\<lambda>mine. toHuddleMessageView key sender h (opts\<lparr>ho_me := Some mine, ho_roomKind := Some Dm\<rparr>)) in
    (if u_id other \<in> set (mh_participant_ids h)
     then hv_state (view sender) = HmEnded \<and> hv_state (view other) = HmEnded
       \<and> hv_durationLabel (view sender) = Some (huddleDurationLabel (mh_started_at h) e)
       \<and> hv_durationLabel (view other) = hv_durationLabel (view sender)
     else hv_state (view sender) = HmUnanswered \<and> hv_state (view other) = HmMissed)"
proof -
  let ?ids = "mh_participant_ids h"
  have "length ?ids = card (set ?ids)" using assms(3) by (simp add: distinct_card)
  moreover have "set ?ids = (if u_id other \<in> set ?ids then {u_id sender, u_id other} else {u_id sender})"
    using assms(4,5) by auto
  ultimately have "length ?ids = (if u_id other \<in> set ?ids then 2 else 1)" using assms(2) by (simp split: if_splits)
  then show ?thesis using assms(1,2,4) by (simp add: toHuddleMessageView_def Let_def)
qed

theorem dm_huddle_views_agree_witness:
  "hv_state (toHuddleMessageView ''m'' \<lparr>u_id = ''a'', u_handle = ''a'', u_display_name = ''A''\<rparr>
      \<lparr>mh_id = ''h'', mh_started_at = [], mh_ended_at = Some [], mh_participant_ids = [''a'']\<rparr>
      \<lparr>ho_me = Some \<lparr>u_id = ''b'', u_handle = ''b'', u_display_name = ''B''\<rparr>, ho_roomKind = Some Dm, ho_activeHuddle = None,
        ho_names = [], ho_avatarUrls = [], ho_timeLabel = Today, ho_thread = None\<rparr>) = HmMissed"
  using dm_huddle_views_agree[of "\<lparr>mh_id = ''h'', mh_started_at = [], mh_ended_at = Some [], mh_participant_ids = [''a'']\<rparr>" "[]"
      "\<lparr>u_id = ''a'', u_handle = ''a'', u_display_name = ''A''\<rparr>" "\<lparr>u_id = ''b'', u_handle = ''b'', u_display_name = ''B''\<rparr>" "''m''"
      "\<lparr>ho_me = None, ho_roomKind = None, ho_activeHuddle = None, ho_names = [], ho_avatarUrls = [], ho_timeLabel = Today, ho_thread = None\<rparr>"]
  by (simp add: Let_def)

end
