(* ===== verification/MediaStore.thy ===== *)
theory MediaStore
  imports Session
begin

text \<open>
  The signed URLs of avatars, attached images and link previews (\<open>web/lib/chat/media/media-store.ts\<close>). The
  closure's \<open>state\<close>, maps and sets are one record; \<open>md_asked\<close> are the requests that have not settled. The
  microtask of \<open>requestAvatars\<close> is the step \<open>flushAvatars\<close>. A value that is absent has not been fetched; \<open>Some None\<close>
  is \<open>null\<close>: there is no image.
\<close>

section \<open>Types\<close>

definition AVATAR_BATCH_SIZE :: nat where "AVATAR_BATCH_SIZE = 200"
definition AVATAR_REFRESH_MARGIN_MS :: int where "AVATAR_REFRESH_MARGIN_MS = 5 * 60 * 1000"
definition AVATAR_NONE_TTL_MS :: int where "AVATAR_NONE_TTL_MS = 60 * 60 * 1000"
definition ATTACHMENT_RETRY_AFTER_MS :: int where "ATTACHMENT_RETRY_AFTER_MS = 60 * 1000"

record signed_url =
  su_url :: string
  su_expires_at :: iso

record preview_urls =
  pu_image :: "string option"
  pu_icon :: "string option"

record preview_ref =
  pr_roomId :: ident
  pr_messageId :: ident
  pr_previewId :: ident

datatype media_call = AskAvatars "ident list" | AskAttachment ident | AskPreview preview_ref

record media_store =
  md_avatars :: "(ident, string option) jsrec"
  md_attachments :: "(ident, string option) jsrec"
  md_previews :: "(ident, preview_urls option) jsrec"
  avatarRefreshAt :: "(ident, int) jsrec"
  avatarQueue :: "ident list"
  avatarInflight :: "ident list"
  avatarFlushScheduled :: bool
  attachmentFetchedAt :: "(ident, int) jsrec"
  attachmentInflight :: "ident list"
  linkPreviewInflight :: "ident list"
  md_asked :: "media_call list"

definition createMediaStore :: media_store where
  "createMediaStore = \<lparr>md_avatars = [], md_attachments = [], md_previews = [], avatarRefreshAt = [], avatarQueue = [],
     avatarInflight = [], avatarFlushScheduled = False, attachmentFetchedAt = [], attachmentInflight = [],
     linkPreviewInflight = [], md_asked = []\<rparr>"

definition set_add :: "'a \<Rightarrow> 'a list \<Rightarrow> 'a list" where
  \<comment> \<open>\<open>Set.add\<close>\<close>
  "set_add x xs = (if x \<in> set xs then xs else xs @ [x])"

definition set_delete :: "'a \<Rightarrow> 'a list \<Rightarrow> 'a list" where
  "set_delete x xs = filter (\<lambda>y. y \<noteq> x) xs"

section \<open>Avatars\<close>

definition fetchAvatars :: "ident list \<Rightarrow> media_store \<Rightarrow> media_store" where
  "fetchAvatars userIds s =
     s\<lparr>avatarInflight := fold set_add userIds (avatarInflight s), md_asked := md_asked s @ [AskAvatars userIds]\<rparr>"

fun batches :: "ident list \<Rightarrow> ident list list" where
  \<comment> \<open>the slices of the loop of \<open>flushAvatars\<close>\<close>
  "batches [] = []"
| "batches (x # xs) =
     take AVATAR_BATCH_SIZE (x # xs) # batches (drop (AVATAR_BATCH_SIZE - 1) xs)"

definition flushAvatars :: "media_store \<Rightarrow> media_store" where
  "flushAvatars s =
     (if \<not> avatarFlushScheduled s then s
      else fold fetchAvatars (batches (avatarQueue s)) (s\<lparr>avatarFlushScheduled := False, avatarQueue := []\<rparr>))"

definition avatarsFetched :: "ident list \<Rightarrow> (ident, signed_url) jsrec option \<Rightarrow> int \<Rightarrow> media_store \<Rightarrow> media_store" where
  \<comment> \<open>the rest of \<open>fetchAvatars\<close>; \<open>None\<close> is an exception. A time that cannot be read (\<open>NaN\<close>) is never in the future.\<close>
  "avatarsFetched userIds res now_ms s =
     (let s1 = (case res of
            None \<Rightarrow> s
          | Some avatars \<Rightarrow>
              s\<lparr>md_avatars := fold (\<lambda>i. rput i (map_option su_url (rget avatars i))) userIds (md_avatars s),
                avatarRefreshAt := fold (\<lambda>i. rset i (map_option (\<lambda>t. t - AVATAR_REFRESH_MARGIN_MS)
                  (case rget avatars i of None \<Rightarrow> Some (now_ms + AVATAR_NONE_TTL_MS) | Some u \<Rightarrow> date_parse (su_expires_at u))))
                  userIds (avatarRefreshAt s)\<rparr>)
      in s1\<lparr>avatarInflight := fold set_delete userIds (avatarInflight s1)\<rparr>)"

definition fresh :: "int \<Rightarrow> ident \<Rightarrow> media_store \<Rightarrow> bool" where
  "fresh now_ms i s =
     (rget (md_avatars s) i \<noteq> None \<and> (case rget (avatarRefreshAt s) i of None \<Rightarrow> False | Some t \<Rightarrow> t > now_ms))"

definition requestAvatars :: "ident list \<Rightarrow> int \<Rightarrow> media_store \<Rightarrow> media_store" where
  "requestAvatars userIds now_ms s =
     (let s1 = fold (\<lambda>i t. if i \<in> set (avatarInflight t) \<or> fresh now_ms i t then t
                  else t\<lparr>avatarQueue := set_add i (avatarQueue t)\<rparr>) userIds s
      in if avatarQueue s1 = [] \<or> avatarFlushScheduled s1 then s1 else s1\<lparr>avatarFlushScheduled := True\<rparr>)"

section \<open>Attachments\<close>

definition fetchAttachmentUrl :: "ident \<Rightarrow> media_store \<Rightarrow> media_store" where
  "fetchAttachmentUrl i s =
     s\<lparr>attachmentInflight := set_add i (attachmentInflight s), md_asked := md_asked s @ [AskAttachment i]\<rparr>"

definition attachmentFetched :: "ident \<Rightarrow> failure + string \<Rightarrow> int \<Rightarrow> media_store \<Rightarrow> media_store" where
  "attachmentFetched i res now_ms s =
     (let s1 = (case res of
            Inr url \<Rightarrow> s\<lparr>attachmentFetchedAt := rput i now_ms (attachmentFetchedAt s),
                        md_attachments := rput i (Some url) (md_attachments s)\<rparr>
          | Inl (EApi e) \<Rightarrow> if ae_status e = 404 then s\<lparr>md_attachments := rput i None (md_attachments s)\<rparr> else s
          | Inl _ \<Rightarrow> s)
      in s1\<lparr>attachmentInflight := set_delete i (attachmentInflight s1)\<rparr>)"

definition requestAttachmentUrls :: "ident list \<Rightarrow> media_store \<Rightarrow> media_store" where
  "requestAttachmentUrls ids s =
     fold (\<lambda>i t. if rget (md_attachments t) i \<noteq> None \<or> i \<in> set (attachmentInflight t) then t else fetchAttachmentUrl i t) ids s"

definition attachmentImageFailed :: "ident \<Rightarrow> string \<Rightarrow> int \<Rightarrow> media_store \<Rightarrow> media_store" where
  "attachmentImageFailed i url now_ms s =
     (if rget (md_attachments s) i \<noteq> Some (Some url) \<or> i \<in> set (attachmentInflight s) then s
      else
        let fetchedAt = (case rget (attachmentFetchedAt s) i of None \<Rightarrow> 0 | Some t \<Rightarrow> t) in
        if now_ms - fetchedAt \<ge> ATTACHMENT_RETRY_AFTER_MS then fetchAttachmentUrl i s
        else s\<lparr>md_attachments := rput i None (md_attachments s)\<rparr>)"

section \<open>Link previews\<close>

definition fetchLinkPreviewUrls :: "preview_ref \<Rightarrow> media_store \<Rightarrow> media_store" where
  "fetchLinkPreviewUrls r s =
     s\<lparr>linkPreviewInflight := set_add (pr_previewId r) (linkPreviewInflight s), md_asked := md_asked s @ [AskPreview r]\<rparr>"

definition linkPreviewFetched :: "preview_ref \<Rightarrow> failure + preview_urls \<Rightarrow> media_store \<Rightarrow> media_store" where
  "linkPreviewFetched r res s =
     (let s1 = (case res of
            Inr urls \<Rightarrow> s\<lparr>md_previews := rput (pr_previewId r) (Some urls) (md_previews s)\<rparr>
          | Inl (EApi e) \<Rightarrow> if ae_status e = 404 then s\<lparr>md_previews := rput (pr_previewId r) None (md_previews s)\<rparr> else s
          | Inl _ \<Rightarrow> s)
      in s1\<lparr>linkPreviewInflight := set_delete (pr_previewId r) (linkPreviewInflight s1)\<rparr>)"

definition requestLinkPreviewUrls :: "preview_ref list \<Rightarrow> media_store \<Rightarrow> media_store" where
  "requestLinkPreviewUrls refs s =
     fold (\<lambda>r t. if rget (md_previews t) (pr_previewId r) \<noteq> None \<or> pr_previewId r \<in> set (linkPreviewInflight t) then t
       else fetchLinkPreviewUrls r t) refs s"

section \<open>Runs\<close>

datatype media_answer =
    AnsAvatars "(ident, signed_url) jsrec option"
  | AnsAttachment "failure + string"
  | AnsPreview "failure + preview_urls"

datatype media_event =
    MdAvatars "ident list" | MdFlush | MdAttachments "ident list" | MdImageFailed ident string
  | MdPreviews "preview_ref list" | MdSettle nat media_answer

definition settleMedia :: "nat \<Rightarrow> media_answer \<Rightarrow> int \<Rightarrow> media_store \<Rightarrow> media_store" where
  \<comment> \<open>the request at this place of \<open>md_asked\<close> settles, with an answer of its kind\<close>
  "settleMedia i a now_ms s =
     (if i < length (md_asked s) then
        let s1 = s\<lparr>md_asked := take i (md_asked s) @ drop (i + 1) (md_asked s)\<rparr> in
        case (md_asked s ! i, a) of
          (AskAvatars ids, AnsAvatars res) \<Rightarrow> avatarsFetched ids res now_ms s1
        | (AskAttachment x, AnsAttachment res) \<Rightarrow> attachmentFetched x res now_ms s1
        | (AskPreview r, AnsPreview res) \<Rightarrow> linkPreviewFetched r res s1
        | _ \<Rightarrow> s
      else s)"

definition mediaStep :: "int \<times> media_event \<Rightarrow> media_store \<Rightarrow> media_store" where
  "mediaStep te s =
     (case snd te of
        MdAvatars ids \<Rightarrow> requestAvatars ids (fst te) s
      | MdFlush \<Rightarrow> flushAvatars s
      | MdAttachments ids \<Rightarrow> requestAttachmentUrls ids s
      | MdImageFailed i url \<Rightarrow> attachmentImageFailed i url (fst te) s
      | MdPreviews refs \<Rightarrow> requestLinkPreviewUrls refs s
      | MdSettle i a \<Rightarrow> settleMedia i a (fst te) s)"

definition mediaRun :: "media_store \<Rightarrow> (int \<times> media_event) list \<Rightarrow> media_store" where
  "mediaRun s es = fold mediaStep es s"

section \<open>Nothing is fetched twice at a time\<close>

fun avatars_of :: "media_call \<Rightarrow> ident list" where
  "avatars_of (AskAvatars ids) = ids" | "avatars_of _ = []"

fun attachments_of :: "media_call \<Rightarrow> ident list" where
  "attachments_of (AskAttachment i) = [i]" | "attachments_of _ = []"

fun previews_of :: "media_call \<Rightarrow> ident list" where
  "previews_of (AskPreview r) = [pr_previewId r]" | "previews_of _ = []"

definition asked_for :: "(media_call \<Rightarrow> ident list) \<Rightarrow> media_store \<Rightarrow> ident list" where
  "asked_for f s = concat (map f (md_asked s))"

definition media_ok :: "media_store \<Rightarrow> bool" where
  "media_ok s =
     (distinct (asked_for avatars_of s) \<and> set (asked_for avatars_of s) = set (avatarInflight s)
    \<and> distinct (asked_for attachments_of s) \<and> set (asked_for attachments_of s) = set (attachmentInflight s)
    \<and> distinct (asked_for previews_of s) \<and> set (asked_for previews_of s) = set (linkPreviewInflight s)
    \<and> distinct (avatarQueue s) \<and> set (avatarQueue s) \<inter> set (avatarInflight s) = {}
    \<and> avatarFlushScheduled s = (avatarQueue s \<noteq> [])
    \<and> list_all (\<lambda>c. length (avatars_of c) \<le> AVATAR_BATCH_SIZE) (md_asked s))"

lemma set_add_simps [simp]: "set (set_add x xs) = insert x (set xs)" "distinct (set_add x xs) = distinct xs"
  by (auto simp: set_add_def)

lemma set_delete_simps [simp]: "set (set_delete x xs) = set xs - {x}"
  by (auto simp: set_delete_def)

lemma set_adds: "set (fold set_add ys xs) = set xs \<union> set ys"
  by (induction ys arbitrary: xs) auto

lemma set_deletes: "set (fold set_delete ys xs) = set xs - set ys"
  by (induction ys arbitrary: xs) auto

lemma concat_batches: "concat (batches xs) = xs"
proof (induction xs rule: batches.induct)
  case (2 x xs)
  have "take AVATAR_BATCH_SIZE (x # xs) = x # take (AVATAR_BATCH_SIZE - 1) xs" by (simp add: AVATAR_BATCH_SIZE_def take_Cons')
  then show ?case using 2 by simp
qed simp

lemma batches_small: "b \<in> set (batches xs) \<Longrightarrow> length b \<le> AVATAR_BATCH_SIZE"
  by (induction xs rule: batches.induct) auto

lemma fetch_all:
  "fold fetchAvatars bs s =
     s\<lparr>avatarInflight := fold set_add (concat bs) (avatarInflight s), md_asked := md_asked s @ map AskAvatars bs\<rparr>"
  by (induction bs arbitrary: s) (simp_all add: fetchAvatars_def)

lemma concat_asks [simp]:
  "concat (map avatars_of (map AskAvatars bs)) = concat bs" "concat (map attachments_of (map AskAvatars bs)) = []"
  "concat (map previews_of (map AskAvatars bs)) = []"
  by (induction bs) simp_all

lemma media_ok_flush: "media_ok s \<Longrightarrow> media_ok (flushAvatars s)"
proof (cases "avatarFlushScheduled s")
  case True
  assume s: "media_ok s"
  have "list_all (\<lambda>c. length (avatars_of c) \<le> AVATAR_BATCH_SIZE) (map AskAvatars (batches (avatarQueue s)))"
    using batches_small by (auto simp: list_all_iff)
  then show ?thesis using s True
    by (auto simp: media_ok_def flushAvatars_def fetch_all asked_for_def concat_batches set_adds simp del: map_map)
qed (simp add: flushAvatars_def)

lemma media_ok_requestAvatars: "media_ok s \<Longrightarrow> media_ok (requestAvatars ids now_ms s)"
proof -
  assume s: "media_ok s"
  let ?f = "\<lambda>i t. if i \<in> set (avatarInflight t) \<or> fresh now_ms i t then t else t\<lparr>avatarQueue := set_add i (avatarQueue t)\<rparr>"
  define ok where "ok t = media_ok (t\<lparr>avatarFlushScheduled := (avatarQueue t \<noteq> [])\<rparr>)" for t
  have step: "ok (?f i t) \<and> avatarFlushScheduled (?f i t) = avatarFlushScheduled t \<and> set (avatarQueue t) \<subseteq> set (avatarQueue (?f i t))"
    if "ok t" for i t
    using that by (auto simp: ok_def media_ok_def asked_for_def)
  have "ok (fold ?f ids t) \<and> avatarFlushScheduled (fold ?f ids t) = avatarFlushScheduled t
      \<and> set (avatarQueue t) \<subseteq> set (avatarQueue (fold ?f ids t))" if "ok t" for t
    using that
  proof (induction ids arbitrary: t)
    case (Cons i ids)
    show ?case using Cons.IH[of "?f i t"] step[OF Cons.prems, of i] by (simp only: fold.simps comp_apply) blast
  qed simp
  moreover have "ok s" using s by (simp add: ok_def media_ok_def asked_for_def)
  ultimately have f: "ok (fold ?f ids s)" "avatarFlushScheduled (fold ?f ids s) = avatarFlushScheduled s"
    "set (avatarQueue s) \<subseteq> set (avatarQueue (fold ?f ids s))" by blast+
  have "media_ok (if avatarQueue t = [] \<or> avatarFlushScheduled t then t else t\<lparr>avatarFlushScheduled := True\<rparr>)"
    if "ok t" "avatarFlushScheduled t = (avatarQueue s \<noteq> [])" "set (avatarQueue s) \<subseteq> set (avatarQueue t)" for t
    using that by (auto simp: ok_def media_ok_def asked_for_def)
  from this[OF f(1) _ f(3)] show ?thesis using f(2) s unfolding requestAvatars_def Let_def by (simp add: media_ok_def)
qed

lemma media_ok_attachments: "media_ok s \<Longrightarrow> media_ok (requestAttachmentUrls ids s)"
  unfolding requestAttachmentUrls_def
  by (induction ids arbitrary: s) (simp_all, auto simp: media_ok_def fetchAttachmentUrl_def asked_for_def)

lemma media_ok_previews: "media_ok s \<Longrightarrow> media_ok (requestLinkPreviewUrls refs s)"
  unfolding requestLinkPreviewUrls_def
  by (induction refs arbitrary: s) (simp_all, auto simp: media_ok_def fetchLinkPreviewUrls_def asked_for_def)

lemma media_ok_failed: "media_ok s \<Longrightarrow> media_ok (attachmentImageFailed i url now_ms s)"
  by (auto simp: attachmentImageFailed_def fetchAttachmentUrl_def media_ok_def asked_for_def Let_def)

lemma asked_without:
  assumes "i < length cs" "distinct (concat (map f cs))"
  shows "distinct (concat (map f (take i cs @ drop (i + 1) cs)))"
    "set (concat (map f (take i cs @ drop (i + 1) cs))) = set (concat (map f cs)) - set (f (cs ! i))"
proof -
  have "concat (map f cs) = concat (map f (take i cs)) @ f (cs ! i) @ concat (map f (drop (i + 1) cs))"
    by (subst id_take_nth_drop[OF assms(1)]) simp
  then show "distinct (concat (map f (take i cs @ drop (i + 1) cs)))"
    "set (concat (map f (take i cs @ drop (i + 1) cs))) = set (concat (map f cs)) - set (f (cs ! i))"
    using assms(2) by auto
qed

lemma settled_fields:
  "avatarInflight (avatarsFetched ids r t s) = fold set_delete ids (avatarInflight s)"
  "attachmentInflight (avatarsFetched ids r t s) = attachmentInflight s" "linkPreviewInflight (avatarsFetched ids r t s) = linkPreviewInflight s"
  "avatarQueue (avatarsFetched ids r t s) = avatarQueue s" "avatarFlushScheduled (avatarsFetched ids r t s) = avatarFlushScheduled s"
  "md_asked (avatarsFetched ids r t s) = md_asked s"
  "avatarInflight (attachmentFetched x a t s) = avatarInflight s"
  "attachmentInflight (attachmentFetched x a t s) = set_delete x (attachmentInflight s)"
  "linkPreviewInflight (attachmentFetched x a t s) = linkPreviewInflight s" "avatarQueue (attachmentFetched x a t s) = avatarQueue s"
  "avatarFlushScheduled (attachmentFetched x a t s) = avatarFlushScheduled s" "md_asked (attachmentFetched x a t s) = md_asked s"
  "avatarInflight (linkPreviewFetched p b s) = avatarInflight s" "attachmentInflight (linkPreviewFetched p b s) = attachmentInflight s"
  "linkPreviewInflight (linkPreviewFetched p b s) = set_delete (pr_previewId p) (linkPreviewInflight s)"
  "avatarQueue (linkPreviewFetched p b s) = avatarQueue s" "avatarFlushScheduled (linkPreviewFetched p b s) = avatarFlushScheduled s"
  "md_asked (linkPreviewFetched p b s) = md_asked s"
  by (simp_all add: avatarsFetched_def attachmentFetched_def linkPreviewFetched_def Let_def
      split: option.split sum.split failure.split)

lemma media_ok_settle:
  assumes "media_ok s"
  shows "media_ok (settleMedia i a t s)"
proof (cases "i < length (md_asked s)")
  case True
  let ?rest = "take i (md_asked s) @ drop (i + 1) (md_asked s)"
  have d: "distinct (concat (map avatars_of (md_asked s)))" "distinct (concat (map attachments_of (md_asked s)))"
    "distinct (concat (map previews_of (md_asked s)))" using assms by (simp_all add: media_ok_def asked_for_def)
  note w = asked_without[OF True d(1)] asked_without[OF True d(2)] asked_without[OF True d(3)]
  have b: "list_all (\<lambda>c. length (avatars_of c) \<le> AVATAR_BATCH_SIZE) ?rest"
    using assms by (auto simp: media_ok_def list_all_iff dest: in_set_takeD in_set_dropD)
  have q: "set (avatarQueue s) \<inter> (set (avatarInflight s) - X) = {}" for X using assms by (auto simp: media_ok_def)
  show ?thesis using assms True w b q
    by (cases "md_asked s ! i"; cases a)
      (simp_all add: settleMedia_def Let_def media_ok_def asked_for_def settled_fields set_deletes
        del: list_all_append map_append concat_append)
qed (use assms in \<open>simp add: settleMedia_def\<close>)

lemma media_ok_step: "media_ok s \<Longrightarrow> media_ok (mediaStep te s)"
  by (cases "snd te") (simp_all add: mediaStep_def media_ok_requestAvatars media_ok_flush media_ok_attachments
      media_ok_failed media_ok_previews media_ok_settle)

lemma media_ok_run: "media_ok s \<Longrightarrow> media_ok (mediaRun s es)"
  unfolding mediaRun_def by (induction es arbitrary: s) (simp_all add: media_ok_step)

lemma media_ok_start: "media_ok createMediaStore"
  by (simp add: media_ok_def createMediaStore_def asked_for_def)

text \<open>C39: no URL is asked for twice at a time, and none is forgotten. After any events in any order: every avatar, image and
  preview stands in at most one request that has not settled, the sets of what is in flight are exactly those, a request
  for avatars has at most as many as the API takes, and what waits for the next request of avatars has its microtask
  (\<open>media-store.ts\<close>).\<close>

theorem media_asked_once:
  "media_ok (mediaRun createMediaStore es)"
  by (rule media_ok_run[OF media_ok_start])

section \<open>What is shown is not loaded again\<close>

definition image_failed :: "ident \<Rightarrow> int \<times> media_event \<Rightarrow> bool" where
  "image_failed i te = (case snd te of MdImageFailed j url \<Rightarrow> j = i | _ \<Rightarrow> False)"

definition settled_image :: "ident \<Rightarrow> string option \<Rightarrow> media_store \<Rightarrow> bool" where
  "settled_image i v s = (rget (md_attachments s) i = Some v \<and> i \<notin> set (attachmentInflight s))"

lemma settled_flush: "settled_image i v s \<Longrightarrow> settled_image i v (flushAvatars s)"
  by (simp add: settled_image_def flushAvatars_def fetch_all)

lemma settled_requestAvatars: "settled_image i v s \<Longrightarrow> settled_image i v (requestAvatars ids t s)"
proof -
  assume s: "settled_image i v s"
  let ?f = "\<lambda>i u. if i \<in> set (avatarInflight u) \<or> fresh t i u then u else u\<lparr>avatarQueue := set_add i (avatarQueue u)\<rparr>"
  have "settled_image i v (fold ?f ids u)" if "settled_image i v u" for u
    using that by (induction ids arbitrary: u) (simp_all add: settled_image_def)
  from this[OF s] show ?thesis unfolding requestAvatars_def Let_def by (simp add: settled_image_def)
qed

lemma settled_fetch:
  "settled_image i v s \<Longrightarrow> rget (md_attachments s) j = None \<Longrightarrow> settled_image i v (fetchAttachmentUrl j s)"
  by (auto simp: settled_image_def fetchAttachmentUrl_def)

lemma settled_attachments: "settled_image i v s \<Longrightarrow> settled_image i v (requestAttachmentUrls ids s)"
  unfolding requestAttachmentUrls_def
  by (induction ids arbitrary: s) (simp_all add: settled_fetch)

lemma settled_preview: "settled_image i v (fetchLinkPreviewUrls r s) = settled_image i v s"
  by (simp add: settled_image_def fetchLinkPreviewUrls_def)

lemma settled_previews: "settled_image i v s \<Longrightarrow> settled_image i v (requestLinkPreviewUrls refs s)"
  unfolding requestLinkPreviewUrls_def
  by (induction refs arbitrary: s) (simp_all add: settled_preview)

lemma settled_failed: "settled_image i v s \<Longrightarrow> j \<noteq> i \<Longrightarrow> settled_image i v (attachmentImageFailed j url t s)"
  by (auto simp: settled_image_def attachmentImageFailed_def fetchAttachmentUrl_def Let_def)

lemma settled_settle:
  assumes "settled_image i v s" "media_ok s"
  shows "settled_image i v (settleMedia k a t s)"
proof (cases "k < length (md_asked s)")
  case True
  have "x \<noteq> i" if "md_asked s ! k = AskAttachment x" for x
  proof -
    have "x \<in> set (asked_for attachments_of s)" using True that nth_mem[OF True] by (force simp: asked_for_def)
    then show ?thesis using assms by (auto simp: settled_image_def media_ok_def)
  qed
  then show ?thesis using True assms(1)
    by (cases "md_asked s ! k"; cases a)
      (auto simp: settleMedia_def Let_def settled_image_def avatarsFetched_def attachmentFetched_def linkPreviewFetched_def
        split: option.split sum.split failure.split)
qed (use assms in \<open>simp add: settleMedia_def\<close>)

lemma settled_step:
  "settled_image i v s \<Longrightarrow> media_ok s \<Longrightarrow> \<not> image_failed i te \<Longrightarrow> settled_image i v (mediaStep te s)"
  by (cases "snd te") (auto simp: mediaStep_def image_failed_def settled_requestAvatars settled_flush settled_attachments
      settled_failed settled_previews settled_settle)

lemma settled_run:
  "settled_image i v s \<Longrightarrow> media_ok s \<Longrightarrow> list_all (\<lambda>te. \<not> image_failed i te) es \<Longrightarrow> settled_image i v (mediaRun s es)"
  unfolding mediaRun_def by (induction es arbitrary: s) (simp_all add: settled_step media_ok_step)

text \<open>an image that is shown keeps its URL. Once an attachment has its URL (or is known to have none) and no request for it
  is under way, nothing but a failure to load this very image changes it: other requests, answers, avatars and previews,
  in any order, leave it as it is, so a large picture is not loaded again.\<close>

theorem shown_image_stays:
  assumes "rget (md_attachments s) i = Some v" "i \<notin> set (attachmentInflight s)" "s = mediaRun createMediaStore es"
    "list_all (\<lambda>te. \<not> image_failed i te) es'"
  shows "rget (md_attachments (mediaRun s es')) i = Some v \<and> i \<notin> set (asked_for attachments_of (mediaRun s es'))"
proof -
  have "settled_image i v s" using assms(1,2) by (simp add: settled_image_def)
  moreover have m: "media_ok s" using media_ok_run[OF media_ok_start] assms(3) by simp
  ultimately have "settled_image i v (mediaRun s es')" using settled_run assms(4) by blast
  then show ?thesis using media_ok_run[OF m, of es'] by (simp add: settled_image_def media_ok_def)
qed

definition one_image :: media_store where
  "one_image = mediaRun createMediaStore [(0, MdAttachments [''a'']), (5, MdSettle 0 (AnsAttachment (Inr ''https://x'')))]"

theorem shown_image_stays_witness:
  "rget (md_attachments (mediaRun one_image [(9, MdAttachments [''a'', ''b'']), (9, MdImageFailed ''b'' [])])) ''a''
    = Some (Some ''https://x'')"
proof -
  have a: "rget (md_attachments one_image) ''a'' = Some (Some ''https://x'')" by code_simp
  have b: "''a'' \<notin> set (attachmentInflight one_image)" by code_simp
  show ?thesis
    using shown_image_stays[OF a b one_image_def, of "[(9, MdAttachments [''a'', ''b'']), (9, MdImageFailed ''b'' [])]"]
    by (simp add: image_failed_def)
qed

end
