(* ===== verification/TimelineView.thy ===== *)
theory TimelineView
  imports HuddleViews MediaStore Messages RoomRules StoreState
begin

text \<open>
  The timeline that the screens show (\<open>web/lib/chat/views/timeline.ts\<close>, with the parts of a message of
  \<open>views/message.ts\<close>): messages and the viewer's outgoing ones, with the dates, the mark of what is unread, and the rows
  that follow another of the same sender. Sentences are values with the parts that stand in them. The cards of
  permalinks and huddle links, and the status beside a name, are left out.
\<close>

section \<open>Parts of a message\<close>

datatype system_text = SystemText string "system_event option" \<comment> \<open>the name of the sender, and the event that picks the sentence\<close>

definition systemMessageText :: "message \<Rightarrow> system_text" where
  "systemMessageText m = SystemText (u_display_name (m_sender m)) (m_system m)"

definition INLINE_IMAGE_TYPES :: "string list" where
  "INLINE_IMAGE_TYPES = [''image/png'', ''image/jpeg'', ''image/gif'', ''image/webp'']"

definition isPreviewImage :: "message_attachment \<Rightarrow> bool" where
  "isPreviewImage a = (at_content_type a \<in> set INLINE_IMAGE_TYPES)"

definition previewImageIds :: "message list \<Rightarrow> ident list" where
  "previewImageIds messages =
     concat (map (\<lambda>m. if m_deleted_at m = None then map at_id (filter isPreviewImage (m_attachments m)) else []) messages)"

definition linkPreviewRefs :: "message list \<Rightarrow> preview_ref list" where
  "linkPreviewRefs messages =
     concat (map (\<lambda>m. if m_deleted_at m = None
       then map (\<lambda>p. \<lparr>pr_roomId = m_room_id m, pr_messageId = m_id m, pr_previewId = lp_id p\<rparr>)
              (filter (\<lambda>p. lp_image p \<noteq> None \<or> lp_has_icon p) (m_link_previews m))
       else []) messages)"

datatype attachment_view =
    ImageView ident string "int option" "int option" "string option" \<comment> \<open>id, file name, width, height, URL\<close>
  | FileView ident string "int \<times> byte_unit"

definition toAttachmentView :: "url_table \<Rightarrow> message_attachment \<Rightarrow> attachment_view" where
  "toAttachmentView urls a =
     (if isPreviewImage a then ImageView (at_id a) (at_file_name a) (at_width a) (at_height a) (url_of urls (at_id a))
      else FileView (at_id a) (at_file_name a) (formatBytes (at_size_bytes a)))"

record reaction_view =
  rv_emoji :: string
  rv_count :: int
  rv_mine :: bool
  rv_names :: "person_label list"

definition toReactionViews :: "message_reaction list \<Rightarrow> names option \<Rightarrow> user_profile option \<Rightarrow> reaction_view list" where
  "toReactionViews reactions memberNames viewer =
     map (\<lambda>r. \<lparr>rv_emoji = re_emoji r, rv_count = re_count r, rv_mine = (re_me r = Some True),
          rv_names = concat (map (\<lambda>i. if map_option u_id viewer = Some i then [You]
              else case memberNames of None \<Rightarrow> []
                | Some t \<Rightarrow> (case rget t i of None \<Rightarrow> [] | Some n \<Rightarrow> [Named n])) (re_users r))\<rparr>) reactions"

record preview_view =
  lv_id :: ident
  lv_url :: string
  lv_siteName :: string
  lv_title :: "string option"
  lv_description :: "string option"
  lv_image :: "((int \<times> int) \<times> string option) option"
  lv_hasIcon :: bool
  lv_iconUrl :: "string option"

definition toLinkPreviewViews :: "link_preview list \<Rightarrow> (ident, preview_urls option) jsrec \<Rightarrow> preview_view list" where
  "toLinkPreviewViews previews urls =
     map (\<lambda>p. let signed = (case rget urls (lp_id p) of None \<Rightarrow> None | Some u \<Rightarrow> u) in
          \<lparr>lv_id = lp_id p, lv_url = lp_url p, lv_siteName = lp_site_name p,
           lv_title = (if lp_title p = [] then None else Some (lp_title p)),
           lv_description = (if lp_description p = [] then None else Some (lp_description p)),
           lv_image = map_option (\<lambda>wh. (wh, Option.bind signed pu_image)) (lp_image p), lv_hasIcon = lp_has_icon p,
           lv_iconUrl = (case Option.bind signed pu_icon of Some u \<Rightarrow> if u = [] then None else Some u | None \<Rightarrow> None)\<rparr>) previews"

section \<open>Entries\<close>

datatype broadcast_view = InChannel | InThread string

datatype entry_status = EntryPending | EntrySent | EntryFailed

record entry =
  en_key :: ident
  en_seq :: "int option"
  en_systemText :: "system_text option"
  en_pinnedBy :: "string option"
  en_sender :: user_profile
  en_createdAt :: int
  en_body :: string
  en_status :: entry_status
  en_deleted :: bool
  en_edited :: bool
  en_thread :: "(int \<times> int) option" \<comment> \<open>the number of replies and the time of the last\<close>
  en_broadcast :: "broadcast_view option"
  en_attachments :: "message_attachment list"
  en_mentions :: "mention list"
  en_reactions :: "message_reaction list"
  en_linkPreviews :: "link_preview list"
  en_huddle :: "message_huddle option"

definition broadcastView :: "bool \<Rightarrow> bool \<Rightarrow> string option \<Rightarrow> broadcast_view option" where
  "broadcastView isBroadcastReply inThread doneLabel =
     (if \<not> isBroadcastReply then None else if \<not> inThread then Some InChannel else map_option InThread doneLabel)"

definition mentionNamesFor :: "entry \<Rightarrow> names option \<Rightarrow> names option" where
  "mentionNamesFor e memberNames =
     (let named = filter (\<lambda>m. mn_user m \<noteq> None) (en_mentions e) in
      if named = [] then memberNames
      else Some (fold (\<lambda>m t. case mn_user m of None \<Rightarrow> t | Some u \<Rightarrow> rput (u_id u) (u_display_name u) t) named
        (case memberNames of None \<Rightarrow> [] | Some t \<Rightarrow> t)))"

definition fromMessage :: "message \<Rightarrow> broadcast_view option \<Rightarrow> entry" where
  "fromMessage m broadcast =
     \<lparr>en_key = m_id m, en_seq = Some (m_seq m),
      en_systemText = (if m_kind m = SystemMessage then Some (systemMessageText m) else None),
      en_pinnedBy = map_option (\<lambda>p. u_display_name (pn_by p)) (m_pinned m), en_sender = m_sender m,
      en_createdAt = date_of (m_created_at m), en_body = m_body m, en_status = EntrySent,
      en_deleted = (m_deleted_at m \<noteq> None), en_edited = (m_edited_at m \<noteq> None),
      en_thread = (case m_thread m of Some t \<Rightarrow> if ts_reply_count t > 0 then Some (ts_reply_count t, date_of (ts_last_reply_at t)) else None
        | None \<Rightarrow> None),
      en_broadcast = broadcast, en_attachments = m_attachments m, en_mentions = m_mentions m, en_reactions = m_reactions m,
      en_linkPreviews = m_link_previews m,
      en_huddle = (if map_option se_type (m_system m) = Some HuddleEvent then m_huddle m else None)\<rparr>"

definition fromOutgoing :: "outgoing_message \<Rightarrow> user_profile \<Rightarrow> broadcast_view option \<Rightarrow> entry" where
  "fromOutgoing m viewer broadcast =
     \<lparr>en_key = og_clientMsgId m, en_seq = None, en_systemText = None, en_pinnedBy = None, en_sender = viewer,
      en_createdAt = og_createdAt m, en_body = og_body m,
      en_status = (case og_status m of Pending \<Rightarrow> EntryPending | Failed \<Rightarrow> EntryFailed),
      en_deleted = False, en_edited = False, en_thread = None, en_broadcast = broadcast, en_attachments = og_attachments m,
      en_mentions = [], en_reactions = [], en_linkPreviews = [], en_huddle = None\<rparr>"

section \<open>The timeline\<close>

definition GROUPING_WINDOW_MS :: int where "GROUPING_WINDOW_MS = 5 * 60 * 1000"

record timeline_options =
  to_unreadAfterSeq :: "int option"
  to_outgoing :: "outgoing_message list"
  to_me :: "user_profile option"
  to_avatarUrls :: url_table
  to_attachmentUrls :: url_table
  to_linkPreviewUrls :: "(ident, preview_urls option) jsrec"
  to_memberNames :: "names option"
  to_workspaceMemberNames :: "names option"
  to_zone :: zone
  to_roomKind :: "room_kind option"
  to_activeHuddle :: "room_huddle option"
  to_now :: int
  to_threadRootId :: "ident option"
  to_broadcastDoneLabel :: "string option"

record message_view =
  mv_key :: ident
  mv_sender :: user_ref
  mv_timeLabel :: time_text
  mv_body :: string
  mv_status :: entry_status
  mv_deleted :: bool
  mv_edited :: bool
  mv_thread :: "(int \<times> time_text) option"
  mv_broadcast :: "broadcast_view option"
  mv_mentionNames :: "names option"
  mv_pinnedBy :: "string option"
  mv_mentionsMe :: bool
  mv_attachments :: "attachment_view list"
  mv_reactions :: "reaction_view list"
  mv_linkPreviews :: "preview_view list option"
  mv_grouped :: bool

datatype timeline_item =
    DateItem "int \<times> int \<times> int" time_text
  | UnreadItem
  | SystemItem ident system_text time_text
  | HuddleItem huddle_message_view
  | MessageItem message_view

definition thread_label :: "timeline_options \<Rightarrow> entry \<Rightarrow> (int \<times> time_text) option" where
  "thread_label opts e = map_option (\<lambda>(n, t). (n, formatListTime (to_zone opts) t (to_now opts))) (en_thread e)"

definition both_names :: "timeline_options \<Rightarrow> names" where
  \<comment> \<open>\<open>{ ...workspaceMemberNames, ...memberNames }\<close>\<close>
  "both_names opts =
     fold (\<lambda>(k, ov). rset k ov) (case to_memberNames opts of None \<Rightarrow> [] | Some t \<Rightarrow> t)
       (case to_workspaceMemberNames opts of None \<Rightarrow> [] | Some t \<Rightarrow> t)"

definition messageView :: "timeline_options \<Rightarrow> entry \<Rightarrow> bool \<Rightarrow> message_view" where
  "messageView opts e grouped =
     \<lparr>mv_key = en_key e,
      mv_sender = \<lparr>ur_id = u_id (en_sender e), ur_name = Named (u_display_name (en_sender e)),
        ur_avatarUrl = url_of (to_avatarUrls opts) (u_id (en_sender e))\<rparr>,
      mv_timeLabel = formatTime (to_zone opts) (en_createdAt e), mv_body = en_body e, mv_status = en_status e,
      mv_deleted = en_deleted e, mv_edited = en_edited e, mv_thread = thread_label opts e, mv_broadcast = en_broadcast e,
      mv_mentionNames = mentionNamesFor e (to_memberNames opts),
      mv_pinnedBy = (if en_deleted e then None else en_pinnedBy e),
      mv_mentionsMe = (case to_me opts of None \<Rightarrow> False
        | Some v \<Rightarrow> u_id (en_sender e) \<noteq> u_id v \<and> mentionsUser (en_mentions e) (u_id v)),
      mv_attachments = map (toAttachmentView (to_attachmentUrls opts)) (en_attachments e),
      mv_reactions = toReactionViews (en_reactions e) (to_memberNames opts) (to_me opts),
      mv_linkPreviews = (if en_deleted e \<or> en_linkPreviews e = [] then None
        else Some (toLinkPreviewViews (en_linkPreviews e) (to_linkPreviewUrls opts))),
      mv_grouped = grouped\<rparr>"

definition huddleItem :: "timeline_options \<Rightarrow> entry \<Rightarrow> message_huddle \<Rightarrow> timeline_item" where
  "huddleItem opts e h =
     HuddleItem (toHuddleMessageView (en_key e) (en_sender e) h
       \<lparr>ho_me = to_me opts, ho_roomKind = to_roomKind opts, ho_activeHuddle = to_activeHuddle opts,
        ho_names = both_names opts, ho_avatarUrls = to_avatarUrls opts,
        ho_timeLabel = formatTime (to_zone opts) (en_createdAt e), ho_thread = thread_label opts e\<rparr>)"

definition shown_messages :: "timeline_options \<Rightarrow> message list \<Rightarrow> message list" where
  "shown_messages opts messages =
     filter (\<lambda>m. (to_threadRootId opts \<noteq> None \<or> inChannel m)
       \<and> (m_deleted_at m = None \<or> Some (m_id m) = to_threadRootId opts
          \<or> (case m_thread m of None \<Rightarrow> False | Some t \<Rightarrow> ts_reply_count t > 0))) messages"

definition shown_outgoing :: "timeline_options \<Rightarrow> outgoing_message list" where
  "shown_outgoing opts =
     (if to_threadRootId opts \<noteq> None then filter (\<lambda>m. og_threadRootId m = to_threadRootId opts) (to_outgoing opts)
      else filter (\<lambda>m. og_threadRootId m = None \<or> og_alsoInChannel m) (to_outgoing opts))"

definition entries :: "timeline_options \<Rightarrow> message list \<Rightarrow> entry list" where
  "entries opts messages =
     (let inThread = (to_threadRootId opts \<noteq> None) in
      map (\<lambda>m. fromMessage m (broadcastView (m_thread_root_id m \<noteq> None \<and> m_also_in_channel m) inThread (to_broadcastDoneLabel opts)))
        (shown_messages opts messages)
      @ (case to_me opts of None \<Rightarrow> []
         | Some v \<Rightarrow> map (\<lambda>m. fromOutgoing m v (broadcastView (og_threadRootId m \<noteq> None \<and> og_alsoInChannel m) inThread
             (to_broadcastDoneLabel opts))) (shown_outgoing opts)))"

definition follows :: "entry option \<Rightarrow> entry \<Rightarrow> bool" where
  \<comment> \<open>\<open>previous\<close> is of the same sender and of the last minutes\<close>
  "follows previous e =
     (case previous of None \<Rightarrow> False
      | Some p \<Rightarrow> u_id (en_sender p) = u_id (en_sender e) \<and> en_createdAt e - en_createdAt p < GROUPING_WINDOW_MS)"

definition counts_unread :: "timeline_options \<Rightarrow> entry \<Rightarrow> bool" where
  "counts_unread opts e =
     (case (en_seq e, to_unreadAfterSeq opts) of
        (Some q, Some r) \<Rightarrow> en_systemText e = None \<and> q > r
      | _ \<Rightarrow> False)"

fun timeline_loop ::
    "timeline_options \<Rightarrow> entry option \<Rightarrow> (int \<times> int \<times> int) option \<Rightarrow> bool \<Rightarrow> entry list \<Rightarrow> timeline_item list" where
  "timeline_loop opts previous previousDay unreadInserted [] = []"
| "timeline_loop opts previous previousDay unreadInserted (e # es) =
     (let day = dayKey (to_zone opts) (en_createdAt e);
          newDay = (previousDay \<noteq> Some day);
          unread = (\<not> unreadInserted \<and> counts_unread opts e);
          breakGroup = (newDay \<or> unread \<or> en_broadcast e = Some InChannel);
          inserted = (unreadInserted \<or> unread)
      in (if newDay then [DateItem day (formatDate (to_zone opts) (en_createdAt e) (to_now opts))] else [])
       @ (if unread then [UnreadItem] else [])
       @ (case (en_huddle e, en_systemText e) of
            (Some h, _) \<Rightarrow> huddleItem opts e h # timeline_loop opts None (Some day) inserted es
          | (None, Some x) \<Rightarrow>
              SystemItem (en_key e) x (formatTime (to_zone opts) (en_createdAt e)) # timeline_loop opts None (Some day) inserted es
          | (None, None) \<Rightarrow>
              MessageItem (messageView opts e (\<not> breakGroup \<and> follows previous e))
              # timeline_loop opts (if en_broadcast e = Some InChannel then None else Some e) (Some day) inserted es))"

definition toTimelineItems :: "message list \<Rightarrow> timeline_options \<Rightarrow> timeline_item list" where
  "toTimelineItems messages opts = timeline_loop opts None None (to_unreadAfterSeq opts = None) (entries opts messages)"

section \<open>Row by row\<close>

text \<open>What stands at each entry, read off the entries alone.\<close>

definition plain :: "entry \<Rightarrow> bool" where
  \<comment> \<open>what somebody has written, and not a reply that is also in the channel\<close>
  "plain e = (en_huddle e = None \<and> en_systemText e = None \<and> en_broadcast e \<noteq> Some InChannel)"

definition starts_day :: "timeline_options \<Rightarrow> entry list \<Rightarrow> nat \<Rightarrow> bool" where
  "starts_day opts es i =
     (i = 0 \<or> local_day (to_zone opts) (en_createdAt (es ! (i - 1))) \<noteq> local_day (to_zone opts) (en_createdAt (es ! i)))"

definition starts_unread :: "timeline_options \<Rightarrow> entry list \<Rightarrow> nat \<Rightarrow> bool" where
  "starts_unread opts es i = (counts_unread opts (es ! i) \<and> list_all (\<lambda>e. \<not> counts_unread opts e) (take i es))"

definition continues :: "timeline_options \<Rightarrow> entry list \<Rightarrow> nat \<Rightarrow> bool" where
  "continues opts es i =
     (i > 0 \<and> \<not> starts_day opts es i \<and> \<not> starts_unread opts es i \<and> plain (es ! (i - 1)) \<and> plain (es ! i)
    \<and> u_id (en_sender (es ! (i - 1))) = u_id (en_sender (es ! i))
    \<and> en_createdAt (es ! i) - en_createdAt (es ! (i - 1)) < GROUPING_WINDOW_MS)"

definition entry_item :: "timeline_options \<Rightarrow> entry \<Rightarrow> bool \<Rightarrow> timeline_item" where
  "entry_item opts e grouped =
     (case (en_huddle e, en_systemText e) of
        (Some h, _) \<Rightarrow> huddleItem opts e h
      | (None, Some x) \<Rightarrow> SystemItem (en_key e) x (formatTime (to_zone opts) (en_createdAt e))
      | (None, None) \<Rightarrow> MessageItem (messageView opts e grouped))"

definition rows_at :: "timeline_options \<Rightarrow> entry list \<Rightarrow> nat \<Rightarrow> timeline_item list" where
  "rows_at opts es i =
     (if starts_day opts es i
      then [DateItem (dayKey (to_zone opts) (en_createdAt (es ! i))) (formatDate (to_zone opts) (en_createdAt (es ! i)) (to_now opts))]
      else [])
     @ (if starts_unread opts es i then [UnreadItem] else [])
     @ [entry_item opts (es ! i) (continues opts es i)]"

definition previous_of :: "entry list \<Rightarrow> entry option" where
  "previous_of es = (if es = [] \<or> \<not> plain (last es) then None else Some (last es))"

definition day_of :: "timeline_options \<Rightarrow> entry list \<Rightarrow> (int \<times> int \<times> int) option" where
  "day_of opts es = (if es = [] then None else Some (dayKey (to_zone opts) (en_createdAt (last es))))"

definition inserted_in :: "timeline_options \<Rightarrow> entry list \<Rightarrow> bool" where
  "inserted_in opts es = (to_unreadAfterSeq opts = None \<or> list_ex (counts_unread opts) es)"

lemma no_unread: "to_unreadAfterSeq opts = None \<Longrightarrow> \<not> counts_unread opts e"
  by (simp add: counts_unread_def split: option.split)

lemma loop_row:
  "timeline_loop opts (previous_of pre) (day_of opts pre) (inserted_in opts pre) (e # es) =
     rows_at opts (pre @ e # es) (length pre)
     @ timeline_loop opts (previous_of (pre @ [e])) (day_of opts (pre @ [e])) (inserted_in opts (pre @ [e])) es"
proof -
  let ?es = "pre @ e # es" and ?i = "length pre"
  have nth: "?es ! ?i = e" "pre \<noteq> [] \<Longrightarrow> ?es ! (?i - 1) = last pre"
    by (simp_all add: nth_append last_conv_nth)
  have d: "(day_of opts pre \<noteq> Some (dayKey (to_zone opts) (en_createdAt e))) = starts_day opts ?es ?i"
    using nth by (cases "pre = []") (simp_all add: day_of_def starts_day_def dayKey_eq)
  have u: "(\<not> inserted_in opts pre \<and> counts_unread opts e) = starts_unread opts ?es ?i"
    using no_unread[of opts] nth(1) by (auto simp: inserted_in_def starts_unread_def list_all_iff list_ex_iff)
  have ui: "(inserted_in opts pre \<or> starts_unread opts ?es ?i) = inserted_in opts (pre @ [e])"
    unfolding u[symmetric] by (auto simp: inserted_in_def)
  have g: "(\<not> (starts_day opts ?es ?i \<or> starts_unread opts ?es ?i \<or> en_broadcast e = Some InChannel) \<and> follows (previous_of pre) e)
      = continues opts ?es ?i" if "en_huddle e = None" "en_systemText e = None"
    using nth that by (cases "pre = []") (auto simp: continues_def follows_def previous_of_def plain_def)
  have p: "previous_of (pre @ [e]) = (if plain e then Some e else None)" "day_of opts (pre @ [e]) = Some (dayKey (to_zone opts) (en_createdAt e))"
    by (simp_all add: previous_of_def day_of_def)
  show ?thesis
  proof (cases "en_huddle e = None \<and> en_systemText e = None")
    case True
    then show ?thesis
      unfolding timeline_loop.simps Let_def d u ui rows_at_def nth(1) entry_item_def p g[OF conjunct1[OF True] conjunct2[OF True]]
      by (simp add: plain_def)
  next
    case False
    then show ?thesis
      unfolding timeline_loop.simps Let_def d u ui rows_at_def nth(1) entry_item_def p
      by (auto simp: plain_def split: option.split)
  qed
qed

lemma loop_rows:
  "timeline_loop opts (previous_of pre) (day_of opts pre) (inserted_in opts pre) es =
     concat (map (rows_at opts (pre @ es)) [length pre..<length (pre @ es)])"
proof (induction es arbitrary: pre)
  case (Cons e es)
  have "[length pre..<length (pre @ e # es)] = length pre # [length (pre @ [e])..<length ((pre @ [e]) @ es)]"
    by (subst upt_conv_Cons) simp_all
  then show ?case using Cons.IH[of "pre @ [e]"] by (simp only: loop_row list.map concat.simps append.assoc append.simps)
qed simp


end
