(* ===== verification/Authz.thy ===== *)
theory Authz
  imports Wire
begin

text \<open>
  The server's rules of who may do what (\<open>internal/chat/authz/authz.go\<close>, Go), which the client repeats to decide what it
  offers. A role and a kind of room are strings, as in the code: the empty string is no member, and any other string is
  refused. The functions are pure in the code too.
\<close>

section \<open>Roles\<close>

type_synonym go_role = string

definition RoleOwner :: go_role where "RoleOwner = ''owner''"
definition RoleAdmin :: go_role where "RoleAdmin = ''admin''"
definition RoleMember :: go_role where "RoleMember = ''member''"

definition rank :: "go_role \<Rightarrow> nat" where
  "rank r = (if r = RoleOwner then 3 else if r = RoleAdmin then 2 else if r = RoleMember then 1 else 0)"

definition ParseRole :: "string \<Rightarrow> go_role \<times> bool" where
  "ParseRole s = (s, rank s > 0)"

definition IsMember :: "go_role \<Rightarrow> bool" where
  "IsMember r = (rank r > 0)"

type_synonym go_invite_policy = string

definition InvitePolicyAdminsOnly :: go_invite_policy where "InvitePolicyAdminsOnly = ''admins_only''"
definition InvitePolicyAllMembers :: go_invite_policy where "InvitePolicyAllMembers = ''all_members''"

definition ParseInvitePolicy :: "string \<Rightarrow> go_invite_policy \<times> bool" where
  "ParseInvitePolicy s = (s, s = InvitePolicyAdminsOnly \<or> s = InvitePolicyAllMembers)"

section \<open>Workspaces and invites\<close>

definition CanManage :: "go_role \<Rightarrow> go_role \<Rightarrow> bool" where
  "CanManage actor target = (IsMember actor \<and> IsMember target \<and> rank actor > rank target)"

definition CanGrant :: "go_role \<Rightarrow> go_role \<Rightarrow> bool" where
  "CanGrant actor role = (IsMember actor \<and> IsMember role \<and> role \<noteq> RoleOwner \<and> rank role \<le> rank actor)"

definition CanChangeRole :: "go_role \<Rightarrow> go_role \<Rightarrow> go_role \<Rightarrow> bool" where
  "CanChangeRole actor target newRole = (CanManage actor target \<and> CanGrant actor newRole)"

definition CanRemoveMember :: "go_role \<Rightarrow> go_role \<Rightarrow> bool" where
  "CanRemoveMember actor target = CanManage actor target"

definition CanLeaveWorkspace :: "go_role \<Rightarrow> bool" where
  "CanLeaveWorkspace actor = (IsMember actor \<and> actor \<noteq> RoleOwner)"

definition CanViewMemberProfile :: "go_role \<Rightarrow> bool" where
  "CanViewMemberProfile actor = IsMember actor"

definition CanUpdateWorkspace :: "go_role \<Rightarrow> bool" where
  "CanUpdateWorkspace actor = (rank actor \<ge> rank RoleAdmin)"

definition CanTransferOwnership :: "go_role \<Rightarrow> bool" where
  "CanTransferOwnership actor = (actor = RoleOwner)"

definition CanCreateInvite :: "go_role \<Rightarrow> go_invite_policy \<Rightarrow> bool" where
  "CanCreateInvite actor policy =
     (if rank actor \<ge> rank RoleAdmin then True else actor = RoleMember \<and> policy = InvitePolicyAllMembers)"

definition CanListInvites :: "go_role \<Rightarrow> bool" where
  "CanListInvites actor = IsMember actor"

definition CanRevokeInvite :: "go_role \<Rightarrow> go_invite_policy \<Rightarrow> bool \<Rightarrow> bool" where
  "CanRevokeInvite actor policy isCreator =
     (if rank actor \<ge> rank RoleAdmin then True else isCreator \<and> CanCreateInvite actor policy)"

section \<open>Rooms\<close>

type_synonym go_room_kind = string

definition RoomPublic :: go_room_kind where "RoomPublic = ''public''"
definition RoomPrivate :: go_room_kind where "RoomPrivate = ''private''"
definition RoomDM :: go_room_kind where "RoomDM = ''dm''"

record authz_room =
  Kind :: go_room_kind
  IsDefault :: bool
  Archived :: bool

record room_actor =
  Role :: go_role
  IsRoomMember :: bool

definition CanCreateRoom :: "go_role \<Rightarrow> bool" where
  "CanCreateRoom actor = IsMember actor"

definition CanReadRoom :: "authz_room \<Rightarrow> room_actor \<Rightarrow> bool" where
  "CanReadRoom r a =
     (if \<not> IsMember (Role a) then False
      else if Kind r = RoomPublic then True
      else if Kind r = RoomPrivate \<or> Kind r = RoomDM then IsRoomMember a
      else False)"

definition CanWriteRoom :: "authz_room \<Rightarrow> room_actor \<Rightarrow> bool" where
  "CanWriteRoom r a = (\<not> Archived r \<and> CanReadRoom r a \<and> IsRoomMember a)"

definition CanPinMessage :: "authz_room \<Rightarrow> room_actor \<Rightarrow> bool" where
  "CanPinMessage r a = CanWriteRoom r a"

definition CanJoinRoom :: "authz_room \<Rightarrow> room_actor \<Rightarrow> bool" where
  "CanJoinRoom r a = (\<not> Archived r \<and> Kind r = RoomPublic \<and> IsMember (Role a))"

definition CanAddRoomMember :: "authz_room \<Rightarrow> room_actor \<Rightarrow> bool" where
  "CanAddRoomMember r a = (\<not> Archived r \<and> Kind r = RoomPrivate \<and> CanReadRoom r a)"

definition CanUpdateRoom :: "authz_room \<Rightarrow> room_actor \<Rightarrow> bool" where
  "CanUpdateRoom r a = (\<not> Archived r \<and> Kind r \<noteq> RoomDM \<and> rank (Role a) \<ge> rank RoleAdmin \<and> CanReadRoom r a)"

definition CanRemoveRoomMember :: "authz_room \<Rightarrow> room_actor \<Rightarrow> go_role \<Rightarrow> bool" where
  "CanRemoveRoomMember r a target = (\<not> Archived r \<and> Kind r \<noteq> RoomDM \<and> CanManage (Role a) target \<and> CanReadRoom r a)"

definition CanLeaveRoom :: "authz_room \<Rightarrow> room_actor \<Rightarrow> bool" where
  "CanLeaveRoom r a = ((Kind r = RoomPublic \<or> Kind r = RoomPrivate) \<and> IsMember (Role a) \<and> IsRoomMember a)"

definition CanMarkRoomRead :: "authz_room \<Rightarrow> room_actor \<Rightarrow> bool" where
  "CanMarkRoomRead r a = (CanReadRoom r a \<and> IsRoomMember a)"

definition CanSetRoomNotifications :: "authz_room \<Rightarrow> room_actor \<Rightarrow> bool" where
  "CanSetRoomNotifications r a = (CanReadRoom r a \<and> IsRoomMember a)"

definition CanFollowThread :: "authz_room \<Rightarrow> room_actor \<Rightarrow> bool" where
  "CanFollowThread r a = (CanReadRoom r a \<and> IsRoomMember a)"

definition canArchiveOrUnarchive :: "authz_room \<Rightarrow> room_actor \<Rightarrow> bool" where
  "canArchiveOrUnarchive r a =
     (if Kind r = RoomDM \<or> IsDefault r \<or> \<not> CanReadRoom r a then False
      else IsRoomMember a \<or> rank (Role a) \<ge> rank RoleAdmin)"

definition CanArchiveRoom :: "authz_room \<Rightarrow> room_actor \<Rightarrow> bool" where
  "CanArchiveRoom r a = (\<not> Archived r \<and> canArchiveOrUnarchive r a)"

definition CanUnarchiveRoom :: "authz_room \<Rightarrow> room_actor \<Rightarrow> bool" where
  "CanUnarchiveRoom r a = (Archived r \<and> canArchiveOrUnarchive r a)"

definition CanDeleteRoom :: "authz_room \<Rightarrow> room_actor \<Rightarrow> bool" where
  "CanDeleteRoom r a = (Kind r \<noteq> RoomDM \<and> \<not> IsDefault r \<and> rank (Role a) \<ge> rank RoleAdmin \<and> CanReadRoom r a)"

section \<open>Messages, attachments, events and huddles\<close>

definition CanEditMessage :: "authz_room \<Rightarrow> room_actor \<Rightarrow> bool \<Rightarrow> bool" where
  "CanEditMessage r a isSender = (isSender \<and> CanWriteRoom r a)"

definition CanDeleteMessage :: "authz_room \<Rightarrow> room_actor \<Rightarrow> bool \<Rightarrow> go_role \<Rightarrow> bool" where
  "CanDeleteMessage r a isSender senderRole =
     (if isSender then CanWriteRoom r a
      else if Archived r \<or> Kind r = RoomDM \<or> rank (Role a) < rank RoleAdmin \<or> \<not> CanReadRoom r a then False
      else \<not> IsMember senderRole \<or> CanManage (Role a) senderRole)"

definition CanUploadAttachment :: "authz_room \<Rightarrow> room_actor \<Rightarrow> bool" where
  "CanUploadAttachment r a = CanWriteRoom r a"

definition CanCompleteAttachment :: "bool \<Rightarrow> bool" where
  "CanCompleteAttachment isUploader = isUploader"

definition CanViewAttachment :: "authz_room \<Rightarrow> room_actor \<Rightarrow> bool" where
  "CanViewAttachment r a = CanReadRoom r a"

definition CanSubscribeWorkspace :: "go_role \<Rightarrow> bool" where
  "CanSubscribeWorkspace actor = IsMember actor"

definition CanSubscribeRoom :: "authz_room \<Rightarrow> room_actor \<Rightarrow> bool" where
  "CanSubscribeRoom r a = CanReadRoom r a"

definition CanSendTyping :: "authz_room \<Rightarrow> room_actor \<Rightarrow> bool" where
  "CanSendTyping r a = CanWriteRoom r a"

definition CanJoinHuddle :: "authz_room \<Rightarrow> room_actor \<Rightarrow> bool" where
  "CanJoinHuddle r a = CanWriteRoom r a"

section \<open>Nobody gains power\<close>

lemmas role_strings = RoleOwner_def RoleAdmin_def RoleMember_def
lemmas kind_strings = RoomPublic_def RoomPrivate_def RoomDM_def

lemma rank_bound: "rank r \<le> 3"
  by (simp add: rank_def)

lemma rank_owner: "rank r = 3 \<longleftrightarrow> r = RoleOwner"
  by (simp add: rank_def)

lemma no_member_refused:
  assumes "\<not> IsMember (Role a)"
  shows "\<not> CanReadRoom r a" "\<not> CanWriteRoom r a" "\<not> CanJoinRoom r a" "\<not> CanUpdateRoom r a" "\<not> CanArchiveRoom r a"
    "\<not> CanUnarchiveRoom r a" "\<not> CanDeleteRoom r a" "\<not> CanLeaveRoom r a" "\<not> CanAddRoomMember r a"
    "\<not> CanDeleteMessage r a s t" "\<not> CanRemoveRoomMember r a t"
  using assms
  by (simp_all add: CanReadRoom_def CanWriteRoom_def CanJoinRoom_def CanUpdateRoom_def CanArchiveRoom_def CanUnarchiveRoom_def
      canArchiveOrUnarchive_def CanDeleteRoom_def CanLeaveRoom_def CanAddRoomMember_def CanDeleteMessage_def CanRemoveRoomMember_def)

text \<open>Changes of roles in one workspace, each allowed by \<open>CanChangeRole\<close> or \<open>CanRemoveMember\<close> on the roles of that moment;
  the empty string is somebody who is no member. A transfer swaps the owner, as \<open>CanTransferOwnership\<close> guards it.\<close>

datatype role_action = ChangeRole nat nat go_role | RemoveMember nat nat | LeaveWorkspace nat

definition role_step :: "role_action \<Rightarrow> (nat \<Rightarrow> go_role) \<Rightarrow> nat \<Rightarrow> go_role" where
  "role_step e roles =
     (case e of
        ChangeRole a t r \<Rightarrow> if CanChangeRole (roles a) (roles t) r then roles(t := r) else roles
      | RemoveMember a t \<Rightarrow> if CanRemoveMember (roles a) (roles t) then roles(t := []) else roles
      | LeaveWorkspace a \<Rightarrow> if CanLeaveWorkspace (roles a) then roles(a := []) else roles)"

definition acts_above :: "role_action \<Rightarrow> (nat \<Rightarrow> go_role) \<Rightarrow> nat \<Rightarrow> bool" where
  \<comment> \<open>the action is by somebody who ranks strictly above this one, or it is this one leaving\<close>
  "acts_above e roles u =
     (case e of ChangeRole a t r \<Rightarrow> t = u \<and> rank (roles u) < rank (roles a)
      | RemoveMember a t \<Rightarrow> t = u \<and> rank (roles u) < rank (roles a)
      | LeaveWorkspace a \<Rightarrow> a = u)"

lemma role_step_changed: "role_step e roles u \<noteq> roles u \<Longrightarrow> acts_above e roles u"
  by (auto simp: role_step_def acts_above_def CanChangeRole_def CanRemoveMember_def CanManage_def split: role_action.splits if_splits)

lemma role_step_owner: "(role_step e roles u = RoleOwner) = (roles u = RoleOwner)"
  by (auto simp: role_step_def CanChangeRole_def CanRemoveMember_def CanManage_def CanGrant_def CanLeaveWorkspace_def IsMember_def rank_def
      role_strings split: role_action.splits if_splits)

text \<open>Power in a workspace comes from above alone. Whatever sequence of role changes, removals and departures the rules let
  through, the owners are the same people as before; and whoever's role a step changes was changed by somebody of strictly
  higher rank, or has left.\<close>

theorem roles_come_from_above:
  "{u. fold role_step es roles u = RoleOwner} = {u. roles u = RoleOwner}
    \<and> (role_step e (fold role_step es roles) u = fold role_step es roles u \<or> acts_above e (fold role_step es roles) u)"
proof -
  have "(fold role_step es roles u = RoleOwner) = (roles u = RoleOwner)" for u
    by (induction es arbitrary: roles) (simp_all add: role_step_owner)
  then show ?thesis using role_step_changed by blast
qed

end
