(* ===== verification/MemberViews.thy ===== *)
theory MemberViews
  imports TimelineView NotifyRules Authz Samples
begin

text \<open>
  Members, rooms and what the viewer is offered to do (\<open>web/lib/chat/views/permissions.ts\<close>, \<open>members.ts\<close>, \<open>rooms.ts\<close>,
  \<open>workspace-views.ts\<close>, \<open>web/lib/chat/presence.ts\<close>, and the conditions of the dialog of a channel's settings). The client
  repeats the server's rules; the theorems compare them with \<open>Authz\<close>. Sentences are values; \<open>toLowerCase\<close> and \<open>trim\<close> are
  parameters.
\<close>

section \<open>Presence and status\<close>

datatype presence_view = Online | Away | Offline

definition displayPresence :: "presence \<Rightarrow> bool \<Rightarrow> presence_view" where
  "displayPresence p away = (if p = PrOffline then Offline else if away \<or> p = PrIdle then Away else Online)"

record status_view =
  sv_emoji :: string
  sv_text :: "string option"
  sv_expiresLabel :: "time_text option"

datatype shown_status = OwnStatus status_view | InHuddle

definition statusView :: "user_status option \<Rightarrow> int \<Rightarrow> zone \<Rightarrow> status_view option" where
  "statusView status now_ms zone =
     map_option (\<lambda>s. \<lparr>sv_emoji = us_emoji s, sv_text = (if us_text s = [] then None else Some (us_text s)),
       sv_expiresLabel = map_option (\<lambda>t. formatStatusExpiry zone (date_of t) now_ms) (us_expires_at s)\<rparr>) status"

definition displayStatus :: "status_view option \<Rightarrow> bool \<Rightarrow> shown_status option" where
  "displayStatus status inHuddle =
     (case status of Some s \<Rightarrow> Some (OwnStatus s) | None \<Rightarrow> if inHuddle then Some InHuddle else None)"

definition memberStatus :: "member \<Rightarrow> int \<Rightarrow> zone \<Rightarrow> shown_status option" where
  "memberStatus m now_ms zone = displayStatus (statusView (mb_status m) now_ms zone) (mb_in_huddle m)"

definition memberPresence :: "member \<Rightarrow> presence_view" where
  "memberPresence m = displayPresence (mb_presence m) (mb_away m)"

definition member_id :: "member \<Rightarrow> ident" where
  "member_id m = u_id (mb_user m)"

definition memberSettings ::
    "member list option \<Rightarrow> int \<Rightarrow> zone \<Rightarrow> (ident, presence_view \<times> shown_status option) jsrec" where
  "memberSettings members now_ms zone =
     fold (\<lambda>m. rput (member_id m) (memberPresence m, memberStatus m now_ms zone)) (case members of None \<Rightarrow> [] | Some l \<Rightarrow> l) []"

section \<open>Lists of members\<close>

record room_member_view =
  rm_id :: ident
  rm_name :: string
  rm_avatarUrl :: "string option"
  rm_presence :: presence_view
  rm_status :: "shown_status option"
  rm_role :: role

definition toRoomMemberView :: "member \<Rightarrow> url_table \<Rightarrow> int \<Rightarrow> zone \<Rightarrow> room_member_view" where
  "toRoomMemberView m urls now_ms zone =
     \<lparr>rm_id = member_id m, rm_name = u_display_name (mb_user m), rm_avatarUrl = url_of urls (member_id m),
      rm_presence = memberPresence m, rm_status = memberStatus m now_ms zone, rm_role = mb_role m\<rparr>"

datatype mention_all = MentionAllChannel | MentionAllHere
datatype mention_choice = ChooseUser user_profile "string option" | ChooseAll mention_all

definition toMentionCandidates :: "member list option \<Rightarrow> room_kind \<Rightarrow> url_table \<Rightarrow> mention_choice list" where
  "toMentionCandidates members kind urls =
     (let users = map (\<lambda>m. ChooseUser (mb_user m) (url_of urls (member_id m))) (case members of None \<Rightarrow> [] | Some l \<Rightarrow> l)
      in if kind = Dm then users else users @ [ChooseAll MentionAllChannel, ChooseAll MentionAllHere])"

definition toMemberNames :: "member list option \<Rightarrow> names" where
  "toMemberNames members = fold (\<lambda>m. rput (member_id m) (u_display_name (mb_user m))) (case members of None \<Rightarrow> [] | Some l \<Rightarrow> l) []"

definition mentionAllRecipients :: "member list option \<Rightarrow> mention_all \<Rightarrow> ident option \<Rightarrow> nat" where
  "mentionAllRecipients members kind meId =
     length (filter (\<lambda>m. Some (member_id m) \<noteq> meId \<and> (kind = MentionAllChannel \<or> mb_presence m = PrActive))
       (case members of None \<Rightarrow> [] | Some l \<Rightarrow> l))"

fun text_includes :: "string \<Rightarrow> string \<Rightarrow> bool" where
  "text_includes p [] = (p = [])"
| "text_includes p (c # cs) = (take (length p) (c # cs) = p \<or> text_includes p cs)"

record dm_candidate =
  dc_id :: ident
  dc_name :: string
  dc_handle :: string
  dc_presence :: presence_view
  dc_status :: "shown_status option"

definition toDmCandidates ::
    "(string \<Rightarrow> string) \<Rightarrow> (string \<Rightarrow> string) \<Rightarrow> member list \<Rightarrow> ident \<Rightarrow> string \<Rightarrow> ident list \<Rightarrow> int \<Rightarrow> zone \<Rightarrow> dm_candidate list" where
  "toDmCandidates lower trim members viewer search exclude now_ms zone =
     (let query = lower (trim search) in
      map (\<lambda>m. \<lparr>dc_id = member_id m, dc_name = u_display_name (mb_user m), dc_handle = u_handle (mb_user m),
          dc_presence = memberPresence m, dc_status = memberStatus m now_ms zone\<rparr>)
        (filter (\<lambda>m. query = [] \<or> text_includes query (lower (u_display_name (mb_user m))) \<or> text_includes query (lower (u_handle (mb_user m))))
          (filter (\<lambda>m. member_id m \<notin> insert viewer (set exclude)) members)))"

section \<open>Rooms\<close>

definition roomName :: "room \<Rightarrow> string" where
  "roomName r =
     (if r_kind r = Dm then (case r_dm_peer r of None \<Rightarrow> [] | Some p \<Rightarrow> dp_display_name p)
      else (case r_name r of None \<Rightarrow> [] | Some n \<Rightarrow> n))"

datatype last_body = DeletedBody | AttachmentOnly | BodyText string
datatype last_line = LogLine system_text | Line last_body | SaidLine string last_body

definition last_message_line :: "room \<Rightarrow> last_line option" where
  "last_message_line r =
     map_option (\<lambda>l.
       if lm_kind l = SystemMessage then LogLine (SystemText (u_display_name (lm_sender l)) (lm_system l))
       else
         let body = (if lm_deleted l then DeletedBody else if lm_body l = [] then AttachmentOnly else BodyText (lm_body l))
         in if r_kind r = Dm then Line body else SaidLine (u_display_name (lm_sender l)) body) (r_last_message r)"

record peer_view =
  pv_id :: ident
  pv_presence :: presence_view
  pv_avatarUrl :: "string option"
  pv_status :: "shown_status option"

record room_summary =
  rsu_id :: ident
  rsu_kind :: room_kind
  rsu_name :: string
  rsu_peer :: "peer_view option"
  rsu_lastMessage :: "last_line option"
  rsu_timeLabel :: "time_text option"
  rsu_huddle :: "user_ref list option"
  rsu_unreadCount :: int
  rsu_mentionCount :: int
  rsu_muted :: bool
  rsu_archived :: bool

definition toRoomSummaryView ::
    "room \<Rightarrow> int \<Rightarrow> zone \<Rightarrow> url_table \<Rightarrow> (ident, presence_view \<times> shown_status option) jsrec \<Rightarrow> names \<Rightarrow> room_summary" where
  "toRoomSummaryView r now_ms zone urls members names =
     \<lparr>rsu_id = r_id r, rsu_kind = r_kind r, rsu_name = roomName r,
      rsu_peer = map_option (\<lambda>p. let known = rget members (dp_id p) in
        \<lparr>pv_id = dp_id p,
         pv_presence = (case known of Some k \<Rightarrow> fst k | None \<Rightarrow> displayPresence (dp_presence p) False),
         pv_avatarUrl = url_of urls (dp_id p),
         pv_status = (case known of Some k \<Rightarrow> snd k | None \<Rightarrow> None)\<rparr>) (r_dm_peer r),
      rsu_lastMessage = last_message_line r,
      rsu_timeLabel = map_option (\<lambda>t. formatListTime zone (date_of t) now_ms) (r_last_message_at r),
      rsu_huddle = roomHuddleBadge r names urls,
      rsu_unreadCount = r_unread_count r, rsu_mentionCount = r_mention_count r,
      rsu_muted = isMuted (r_notifications r) now_ms, rsu_archived = (r_archived_at r \<noteq> None)\<rparr>"

section \<open>What the viewer is offered\<close>

definition roleRanks :: "role \<Rightarrow> nat" where
  "roleRanks r = (case r of Member \<Rightarrow> 1 | Admin \<Rightarrow> 2 | Owner \<Rightarrow> 3)"

record message_actions =
  ma_canEdit :: bool
  ma_canDelete :: bool

definition messageActions :: "message \<Rightarrow> ident \<Rightarrow> room \<Rightarrow> role option \<Rightarrow> role option \<Rightarrow> message_actions" where
  "messageActions m viewer room myRole senderRole =
     (if m_deleted_at m \<noteq> None \<or> r_archived_at room \<noteq> None then \<lparr>ma_canEdit = False, ma_canDelete = False\<rparr>
      else if u_id (m_sender m) = viewer then \<lparr>ma_canEdit = r_is_member room, ma_canDelete = r_is_member room\<rparr>
      else
        \<lparr>ma_canEdit = False,
         ma_canDelete = (r_kind room \<noteq> Dm \<and>
           (case myRole of None \<Rightarrow> False
            | Some mine \<Rightarrow> roleRanks mine \<ge> roleRanks Admin
                \<and> (case senderRole of None \<Rightarrow> True | Some s \<Rightarrow> roleRanks mine > roleRanks s)))\<rparr>)"

definition canPost :: "room \<Rightarrow> bool" where
  "canPost room = (r_archived_at room = None \<and> (r_kind room \<noteq> Public \<or> r_is_member room))"

record archive_actions =
  aa_canArchive :: bool
  aa_canDelete :: bool

definition roomArchiveActions :: "room \<Rightarrow> role option \<Rightarrow> archive_actions" where
  "roomArchiveActions room myRole =
     (case myRole of
        Some mine \<Rightarrow>
          if r_kind room = Dm \<or> r_is_default room then \<lparr>aa_canArchive = False, aa_canDelete = False\<rparr>
          else let adminOrAbove = (roleRanks mine \<ge> roleRanks Admin)
               in \<lparr>aa_canArchive = (r_is_member room \<or> adminOrAbove), aa_canDelete = adminOrAbove\<rparr>
      | None \<Rightarrow> \<lparr>aa_canArchive = False, aa_canDelete = False\<rparr>)"

record room_member_row =
  rr_id :: ident
  rr_name :: string
  rr_avatarUrl :: "string option"
  rr_isSelf :: bool
  rr_canRemove :: bool

definition toRoomMemberRows :: "member list \<Rightarrow> ident \<Rightarrow> role option \<Rightarrow> url_table \<Rightarrow> room_member_row list" where
  "toRoomMemberRows members viewer myRole urls =
     map (\<lambda>m. \<lparr>rr_id = member_id m, rr_name = u_display_name (mb_user m), rr_avatarUrl = url_of urls (member_id m),
       rr_isSelf = (member_id m = viewer),
       rr_canRemove = (member_id m \<noteq> viewer \<and> (case myRole of None \<Rightarrow> False | Some mine \<Rightarrow> roleRanks mine > roleRanks (mb_role m)))\<rparr>)
     members"

text \<open>The dialog of a channel's settings: which of its buttons are there. It is not shown for a DM.\<close>

record settings_offer =
  so_rename :: bool
  so_add :: bool
  so_remove :: "ident list"
  so_leave :: bool
  so_archive :: bool
  so_unarchive :: bool
  so_delete :: bool

definition settings_canEdit :: "role option \<Rightarrow> bool" where
  "settings_canEdit myRole = (case myRole of None \<Rightarrow> False | Some mine \<Rightarrow> mine \<noteq> Member)"

definition dialog_editable :: "bool \<Rightarrow> bool \<Rightarrow> bool" where
  "dialog_editable canEdit archived = (canEdit \<and> \<not> archived)"

definition dialog_members :: "room_kind \<Rightarrow> bool \<Rightarrow> room_member_row list \<Rightarrow> bool \<times> ident list" where
  \<comment> \<open>the section of the members: the button that adds one, and whose rows have the button that removes\<close>
  "dialog_members kind editable rows =
     (if kind = Private then (editable, map rr_id (filter (\<lambda>r. \<not> rr_isSelf r \<and> editable \<and> rr_canRemove r) rows)) else (False, []))"

definition settings_dialog :: "room \<Rightarrow> role option \<Rightarrow> ident \<Rightarrow> member list \<Rightarrow> settings_offer option" where
  "settings_dialog room myRole viewer members =
     (if r_kind room = Dm then None
      else
        let archived = (r_archived_at room \<noteq> None);
            acts = roomArchiveActions room myRole;
            editable = dialog_editable (settings_canEdit myRole) archived;
            ms = dialog_members (r_kind room) editable (toRoomMemberRows members viewer myRole [])
        in Some \<lparr>so_rename = editable, so_add = fst ms, so_remove = snd ms,
             so_leave = r_is_member room, so_archive = (aa_canArchive acts \<and> \<not> archived),
             so_unarchive = (aa_canArchive acts \<and> archived), so_delete = aa_canDelete acts\<rparr>)"

section \<open>The administration of a workspace\<close>

definition canManage :: "role \<Rightarrow> role \<Rightarrow> bool" where
  "canManage actor target = (roleRanks actor > roleRanks target)"

definition grantableRoles :: "role \<Rightarrow> role list" where
  "grantableRoles actor = filter (\<lambda>r. roleRanks r \<le> roleRanks actor) [Admin, Member]"

definition canCreateInvite :: "role \<Rightarrow> invite_policy \<Rightarrow> bool" where
  "canCreateInvite actor policy = (roleRanks actor \<ge> roleRanks Admin \<or> policy = AllMembers)"

definition canRevokeInvite :: "role \<Rightarrow> invite_policy \<Rightarrow> bool \<Rightarrow> bool" where
  "canRevokeInvite actor policy isCreator =
     (roleRanks actor \<ge> roleRanks Admin \<or> isCreator \<and> canCreateInvite actor policy)"

datatype manage_view = ManageMenu (menu_roles: "role list") (menu_canRemove: bool) | ManageLocked

record member_row =
  mr_id :: ident
  mr_name :: string
  mr_handle :: string
  mr_avatarUrl :: "string option"
  mr_presence :: presence_view
  mr_role :: role
  mr_isSelf :: bool
  mr_manage :: manage_view

definition toMemberRowView :: "member \<Rightarrow> ident \<Rightarrow> role \<Rightarrow> url_table \<Rightarrow> member_row" where
  "toMemberRowView m viewer myRole urls =
     (let manageable = (member_id m \<noteq> viewer \<and> canManage myRole (mb_role m)) in
      \<lparr>mr_id = member_id m, mr_name = u_display_name (mb_user m), mr_handle = u_handle (mb_user m),
       mr_avatarUrl = url_of urls (member_id m), mr_presence = memberPresence m, mr_role = mb_role m,
       mr_isSelf = (member_id m = viewer),
       mr_manage = (if manageable then ManageMenu (grantableRoles myRole) True else ManageLocked)\<rparr>)"

datatype email_state = EmailLoading | EmailShown string | EmailFailed

record member_profile =
  mp_user :: user_profile
  mp_avatarUrl :: "string option"
  mp_status :: "status_view option"
  mp_presence :: presence_view
  mp_inHuddle :: bool
  mp_role :: role
  mp_email :: email_state
  mp_isSelf :: bool
  mp_manage :: "(role list \<times> bool) option"

datatype profile_view = MemberProfile member_profile | FormerProfile user_profile "string option" | UnknownProfile

definition toProfileView ::
    "member option \<Rightarrow> ident \<Rightarrow> role option \<Rightarrow> email_state \<Rightarrow> user_profile option \<Rightarrow> url_table \<Rightarrow> int \<Rightarrow> zone \<Rightarrow> profile_view" where
  "toProfileView m viewer myRole email fallback urls now_ms zone =
     (case m of
        Some m \<Rightarrow>
          MemberProfile \<lparr>mp_user = mb_user m, mp_avatarUrl = url_of urls (member_id m), mp_status = statusView (mb_status m) now_ms zone,
            mp_presence = memberPresence m, mp_inHuddle = mb_in_huddle m, mp_role = mb_role m, mp_email = email,
            mp_isSelf = (member_id m = viewer),
            mp_manage = (case map_option (\<lambda>mine. mr_manage (toMemberRowView m viewer mine [])) myRole of
                Some (ManageMenu rs c) \<Rightarrow> Some (rs, c) | _ \<Rightarrow> None)\<rparr>
      | None \<Rightarrow> (case fallback of Some u \<Rightarrow> FormerProfile u (url_of urls (u_id u)) | None \<Rightarrow> UnknownProfile))"

definition toTransferCandidates :: "member list \<Rightarrow> ident \<Rightarrow> url_table \<Rightarrow> (user_profile \<times> string option \<times> role) list" where
  "toTransferCandidates members viewer urls =
     map (\<lambda>m. (mb_user m, url_of urls (member_id m), mb_role m)) (filter (\<lambda>m. member_id m \<noteq> viewer \<and> mb_role m \<noteq> Owner) members)"

record invite_row =
  ir_id :: ident
  ir_status :: invite_status
  ir_createdByName :: string
  ir_uses :: "int \<times> int option"
  ir_expired :: bool \<comment> \<open>which of the two sentences of \<open>expiryLabel\<close>\<close>
  ir_expiryLabel :: time_text
  ir_canRevoke :: bool

definition toInviteRowView :: "invite \<Rightarrow> ident \<Rightarrow> role \<Rightarrow> invite_policy \<Rightarrow> zone \<Rightarrow> invite_row" where
  "toInviteRowView i viewer myRole policy zone =
     \<lparr>ir_id = iv_id i, ir_status = iv_status i, ir_createdByName = u_display_name (iv_created_by i),
      ir_uses = (iv_use_count i, iv_max_uses i), ir_expired = (iv_status i = InvExpired),
      ir_expiryLabel = formatDayTime zone (date_of (iv_expires_at i)),
      ir_canRevoke = canRevokeInvite myRole policy (u_id (iv_created_by i) = viewer)\<rparr>"

section \<open>The same rules on both sides\<close>

definition role_text :: "role \<Rightarrow> go_role" where
  \<comment> \<open>on the wire\<close>
  "role_text r = (case r of Owner \<Rightarrow> RoleOwner | Admin \<Rightarrow> RoleAdmin | Member \<Rightarrow> RoleMember)"

definition kind_text :: "room_kind \<Rightarrow> go_room_kind" where
  "kind_text k = (case k of Public \<Rightarrow> RoomPublic | Private \<Rightarrow> RoomPrivate | Dm \<Rightarrow> RoomDM)"

definition policy_text :: "invite_policy \<Rightarrow> go_invite_policy" where
  "policy_text p = (case p of AdminsOnly \<Rightarrow> InvitePolicyAdminsOnly | AllMembers \<Rightarrow> InvitePolicyAllMembers)"

definition server_room :: "room \<Rightarrow> authz_room" where
  "server_room r = \<lparr>Kind = kind_text (r_kind r), IsDefault = r_is_default r, Archived = (r_archived_at r \<noteq> None)\<rparr>"

definition server_actor :: "room \<Rightarrow> role \<Rightarrow> room_actor" where
  "server_actor r mine = \<lparr>Role = role_text mine, IsRoomMember = r_is_member r\<rparr>"

definition server_sender :: "role option \<Rightarrow> go_role" where
  \<comment> \<open>the sender who is in the list of members, or has left\<close>
  "server_sender s = (case s of None \<Rightarrow> [] | Some r \<Rightarrow> role_text r)"

lemma rank_text [simp]: "rank (role_text r) = roleRanks r"
  by (cases r) (simp_all add: rank_def role_text_def roleRanks_def role_strings)

lemma rank_admin [simp]: "rank RoleAdmin = 2" "roleRanks Admin = 2"
  by (simp_all add: rank_def role_strings roleRanks_def)

lemma member_text [simp]: "IsMember (role_text r)" "\<not> IsMember []"
  by (cases r; simp add: IsMember_def roleRanks_def) (simp add: IsMember_def rank_def role_strings)

lemma role_member: "(r \<noteq> Member) = (2 \<le> roleRanks r)"
  by (cases r) (simp_all add: roleRanks_def)

lemma rank_pos: "roleRanks r < roleRanks m \<Longrightarrow> 2 \<le> roleRanks m"
  by (cases r; cases m) (simp_all add: roleRanks_def)

lemma kind_text_eq [simp]:
  "(kind_text k = RoomPublic) = (k = Public)" "(kind_text k = RoomPrivate) = (k = Private)" "(kind_text k = RoomDM) = (k = Dm)"
  by (cases k; simp add: kind_text_def kind_strings)+

lemma server_fields [simp]:
  "Kind (server_room r) = kind_text (r_kind r)" "IsDefault (server_room r) = r_is_default r"
  "Archived (server_room r) = (r_archived_at r \<noteq> None)" "Role (server_actor r m) = role_text m"
  "IsRoomMember (server_actor r m) = r_is_member r"
  by (simp_all add: server_room_def server_actor_def)

lemma can_read: "CanReadRoom (server_room r) (server_actor r mine) = (r_kind r = Public \<or> r_is_member r)"
  by (cases "r_kind r") (simp_all add: CanReadRoom_def)

lemmas server_rules = CanWriteRoom_def CanEditMessage_def CanDeleteMessage_def CanPinMessage_def CanSendTyping_def CanJoinHuddle_def
  CanUpdateRoom_def CanRemoveRoomMember_def CanLeaveRoom_def CanArchiveRoom_def CanUnarchiveRoom_def canArchiveOrUnarchive_def
  CanDeleteRoom_def CanAddRoomMember_def CanManage_def

text \<open>C13: In a channel or DM the viewer may read, the screens offer exactly what the server will do. The composer, reactions, pins
  and the huddle are there when the server lets the viewer write; edit and delete of a message are there when it lets the
  viewer edit and delete it (the sender's role being known, or the sender having left the workspace); and each button of
  a channel's settings is there when the server accepts it - rename, leave, archive, restore and delete. Two buttons are
  there for fewer people than the server accepts: the one that adds a member is for admins alone, although the server
  lets every member of a private channel add others; and the one that removes a member is there, for each member but the
  viewer whom the server lets the viewer remove, in a private channel only (the settings list the members there only),
  although the server accepts it in a public channel as well.\<close>

theorem offers_what_server_allows:
  assumes "CanReadRoom (server_room room) (server_actor room mine)"
  defines "r \<equiv> server_room room" and "a \<equiv> server_actor room mine"
  shows "canPost room = CanWriteRoom r a
    \<and> (m_deleted_at m = None \<longrightarrow>
        ma_canEdit (messageActions m viewer room (Some mine) sender) = CanEditMessage r a (u_id (m_sender m) = viewer)
      \<and> ma_canDelete (messageActions m viewer room (Some mine) sender)
          = CanDeleteMessage r a (u_id (m_sender m) = viewer) (server_sender sender))
    \<and> (case settings_dialog room (Some mine) viewer members of
         None \<Rightarrow> r_kind room = Dm
       | Some d \<Rightarrow>
           so_rename d = CanUpdateRoom r a \<and> so_leave d = CanLeaveRoom r a \<and> so_archive d = CanArchiveRoom r a
         \<and> so_unarchive d = CanUnarchiveRoom r a \<and> so_delete d = CanDeleteRoom r a
         \<and> so_add d = (CanAddRoomMember r a \<and> CanUpdateRoom r a)
         \<and> so_remove d = (if r_kind room = Private
             then map member_id (filter (\<lambda>t. member_id t \<noteq> viewer \<and> CanRemoveRoomMember r a (role_text (mb_role t))) members)
             else []))"
proof -
  have read: "r_kind room = Public \<or> r_is_member room" using assms(1) by (simp add: can_read)
  have c: "CanReadRoom r a = (r_kind room = Public \<or> r_is_member room)" unfolding r_def a_def by (rule can_read)
  have post: "canPost room = CanWriteRoom r a"
    using read by (auto simp: canPost_def CanWriteRoom_def c) (auto simp: r_def a_def)
  have edit: "ma_canEdit (messageActions m viewer room (Some mine) sender) = CanEditMessage r a (u_id (m_sender m) = viewer)"
    if "m_deleted_at m = None"
    using that read by (auto simp: messageActions_def CanEditMessage_def CanWriteRoom_def c) (auto simp: r_def a_def)
  have del: "ma_canDelete (messageActions m viewer room (Some mine) sender)
      = CanDeleteMessage r a (u_id (m_sender m) = viewer) (server_sender sender)" if "m_deleted_at m = None"
    using that read unfolding r_def a_def
    by (cases sender) (auto simp: messageActions_def CanDeleteMessage_def CanWriteRoom_def CanManage_def can_read server_sender_def)
  have dialog: "case settings_dialog room (Some mine) viewer members of
         None \<Rightarrow> r_kind room = Dm
       | Some d \<Rightarrow>
           so_rename d = CanUpdateRoom r a \<and> so_leave d = CanLeaveRoom r a \<and> so_archive d = CanArchiveRoom r a
         \<and> so_unarchive d = CanUnarchiveRoom r a \<and> so_delete d = CanDeleteRoom r a
         \<and> so_add d = (CanAddRoomMember r a \<and> CanUpdateRoom r a)
         \<and> so_remove d = (if r_kind room = Private
             then map member_id (filter (\<lambda>t. member_id t \<noteq> viewer \<and> CanRemoveRoomMember r a (role_text (mb_role t))) members)
             else [])"
  proof (cases "r_kind room = Dm")
    case False
    have rows: "map rr_id (filter (\<lambda>x. \<not> rr_isSelf x \<and> e \<and> rr_canRemove x) (toRoomMemberRows members viewer (Some mine) []))
        = map member_id (filter (\<lambda>t. e \<and> member_id t \<noteq> viewer \<and> roleRanks mine > roleRanks (mb_role t)) members)" for e
      by (simp add: toRoomMemberRows_def filter_map comp_def conj_ac cong: filter_cong)
    show ?thesis using False read
      by (cases "r_kind room")
        (auto simp: settings_dialog_def settings_canEdit_def dialog_editable_def dialog_members_def Let_def rows server_rules roomArchiveActions_def c role_member r_def a_def can_read
          intro!: arg_cong [of _ _ "map member_id"] filter_cong dest: rank_pos)
  qed (simp add: settings_dialog_def)
  show ?thesis using post edit del dialog by simp
qed

theorem offers_what_server_allows_witness:
  "CanWriteRoom (server_room (sample_room ''r'')) (server_actor (sample_room ''r'') Admin)
    \<and> CanDeleteMessage (server_room (sample_room ''r'')) (server_actor (sample_room ''r'') Admin) False (server_sender (Some Member))"
proof -
  have read: "CanReadRoom (server_room (sample_room ''r'')) (server_actor (sample_room ''r'') Admin)"
    by (simp add: can_read sample_room_def)
  have "m_deleted_at (sample_message ''a'' 1 1) = None" "u_id (m_sender (sample_message ''a'' 1 1)) = ''b''"
    by (simp_all add: sample_message_def sample_user_def)
  moreover have "canPost (sample_room ''r'')"
    "ma_canDelete (messageActions (sample_message ''a'' 1 1) ''me'' (sample_room ''r'') (Some Admin) (Some Member))"
    by (simp_all add: canPost_def messageActions_def sample_room_def sample_message_def sample_user_def roleRanks_def)
  ultimately show ?thesis
    using offers_what_server_allows [OF read, of "sample_message ''a'' 1 1" "''me''" "Some Member"] by simp
qed

text \<open>C37: The administration screen offers exactly what the server will do: the menu of a member is there when the server lets
  the viewer remove and change that member, it lists exactly the roles the server would let the viewer give that member,
  and invites can be made and revoked by the same people on both sides.\<close>

theorem admin_offers_what_server_allows:
  "(mr_manage (toMemberRowView m viewer mine urls) \<noteq> ManageLocked)
     = (member_id m \<noteq> viewer \<and> CanRemoveMember (role_text mine) (role_text (mb_role m)))
   \<and> {x. \<exists>rs c. mr_manage (toMemberRowView m viewer mine urls) = ManageMenu rs c \<and> x \<in> set rs}
     = {x. member_id m \<noteq> viewer \<and> CanChangeRole (role_text mine) (role_text (mb_role m)) (role_text x)}
   \<and> canCreateInvite mine policy = CanCreateInvite (role_text mine) (policy_text policy)
   \<and> ir_canRevoke (toInviteRowView i viewer mine policy zone)
     = CanRevokeInvite (role_text mine) (policy_text policy) (u_id (iv_created_by i) = viewer)"
proof -
  have owner: "(role_text x = RoleOwner) = (x = Owner)" "(role_text x = RoleMember) = (x = Member)" for x
    by (cases x; simp add: role_text_def role_strings)+
  have pol: "(policy_text p = InvitePolicyAllMembers) = (p = AllMembers)" for p
    by (cases p) (simp_all add: policy_text_def InvitePolicyAllMembers_def InvitePolicyAdminsOnly_def)
  have grant: "x \<in> set (grantableRoles mine) \<longleftrightarrow> CanGrant (role_text mine) (role_text x)" for x
    by (cases x; cases mine) (simp_all add: grantableRoles_def CanGrant_def owner roleRanks_def)
  have create: "canCreateInvite mine policy = CanCreateInvite (role_text mine) (policy_text policy)"
    by (cases mine) (simp_all add: canCreateInvite_def CanCreateInvite_def pol owner roleRanks_def)
  then show ?thesis
    by (auto simp: toMemberRowView_def Let_def canManage_def CanRemoveMember_def CanChangeRole_def CanManage_def grant
        toInviteRowView_def canRevokeInvite_def CanRevokeInvite_def split: if_splits)
qed

end
