(* ===== verification/Links.thy ===== *)
theory Links
  imports BodyCode
begin

text \<open>
  Links to messages and to huddles (\<open>web/lib/chat/format/links.ts\<close>): building and reading their URLs, the cards of a body, and
  the body of a card cut short. The \<open>URL\<close> of the browser is a parameter, \<open>url_api\<close>: \<open>parse_url\<close> is \<open>new URL(s)\<close>, with \<open>None\<close>
  when it throws, and \<open>resolve_url\<close> is \<open>new URL(path, base).toString()\<close>.
\<close>

section \<open>URLs\<close>

record parsed_url =
  url_origin :: utext
  url_pathname :: utext
  url_search :: "(utext \<times> utext) list" \<comment> \<open>\<open>searchParams\<close>\<close>

record url_api =
  parse_url :: "utext \<Rightarrow> parsed_url option"
  resolve_url :: "utext \<Rightarrow> utext \<Rightarrow> utext option"

definition param_of :: "utext \<Rightarrow> parsed_url \<Rightarrow> utext option" where
  \<comment> \<open>\<open>searchParams.get(k)\<close>\<close>
  "param_of k u = map_of (url_search u) k"

definition slash :: int where "slash = 47"

fun split_at :: "int \<Rightarrow> utext \<Rightarrow> utext list" where
  \<comment> \<open>\<open>text.split(c)\<close>\<close>
  "split_at c [] = [[]]"
| "split_at c (x # xs) = (if x = c then [] # split_at c xs else (case split_at c xs of [] \<Rightarrow> [[x]] | p # ps \<Rightarrow> (x # p) # ps))"

definition form_unit :: "int \<Rightarrow> utext" where
  \<comment> \<open>how \<open>URLSearchParams\<close> writes a character of ASCII\<close>
  "form_unit c =
     (let hex = (\<lambda>n. if n < 10 then 48 + n else 55 + n) in
      if is_alnum c \<or> c \<in> {42, 45, 46, 95} then [c] else if c = 32 then [43] else [37, hex (c div 16), hex (c mod 16)])"

definition form_encode :: "utext \<Rightarrow> utext" where
  "form_encode t = concat (map form_unit t)"

section \<open>Links to messages\<close>

record permalink =
  pl_workspaceId :: utext
  pl_roomId :: utext
  pl_messageId :: utext
  pl_threadRootId :: "utext option"

definition MAX_LINK_CARDS :: nat where "MAX_LINK_CARDS = 3"

definition ulid_char :: "int \<Rightarrow> bool" where
  \<comment> \<open>\<open>[0-9ABCDEFGHJKMNPQRSTVWXYZ]\<close>\<close>
  "ulid_char c = (is_digit c \<or> (65 \<le> c \<and> c \<le> 90 \<and> c \<notin> {73, 76, 79, 85}))"

definition isUlid :: "utext \<Rightarrow> bool" where
  "isUlid s = (case s of [] \<Rightarrow> False | c # cs \<Rightarrow> 48 \<le> c \<and> c \<le> 55 \<and> length cs = 25 \<and> list_all ulid_char cs)"

definition permalinkPath :: "permalink \<Rightarrow> utext" where
  "permalinkPath l =
     units ''/w/'' @ pl_workspaceId l @ units ''/r/'' @ pl_roomId l @ units ''?m='' @ form_encode (pl_messageId l)
     @ (case pl_threadRootId l of None \<Rightarrow> [] | Some t \<Rightarrow> if t = [] then [] else units ''&t='' @ form_encode t)"

definition buildPermalink :: "url_api \<Rightarrow> utext \<Rightarrow> permalink \<Rightarrow> utext option" where
  "buildPermalink api origin l = resolve_url api (permalinkPath l) origin"

definition room_parts :: "parsed_url \<Rightarrow> (utext \<times> utext) option" where
  \<comment> \<open>the workspace and the room of \<open>/w/.../r/...\<close>\<close>
  "room_parts u =
     (case filter (\<lambda>p. p \<noteq> []) (split_at slash (url_pathname u)) of
        [w, ws, r, room] \<Rightarrow> if w = units ''w'' \<and> r = units ''r'' then Some (ws, room) else None
      | _ \<Rightarrow> None)"

definition parsePermalink :: "url_api \<Rightarrow> utext \<Rightarrow> utext \<Rightarrow> permalink option" where
  "parsePermalink api href origin =
     (case (parse_url api origin, parse_url api href) of
        (Some base, Some url) \<Rightarrow>
          if url_origin url \<noteq> url_origin base then None
          else
            (case (room_parts url, param_of (units ''m'') url) of
               (Some (ws, room), Some m) \<Rightarrow>
                 let t = param_of (units ''t'') url in
                 if isUlid ws \<and> isUlid room \<and> isUlid m \<and> (case t of None \<Rightarrow> True | Some i \<Rightarrow> isUlid i)
                 then Some \<lparr>pl_workspaceId = ws, pl_roomId = room, pl_messageId = m, pl_threadRootId = t\<rparr>
                 else None
             | _ \<Rightarrow> None)
      | _ \<Rightarrow> None)"

definition linkKey :: "utext \<Rightarrow> utext \<Rightarrow> utext" where
  "linkKey roomId messageId = roomId @ [slash] @ messageId"

definition parseLinkKey :: "utext \<Rightarrow> utext \<times> utext" where
  "parseLinkKey key = (case split_at slash key of r # m # _ \<Rightarrow> (r, m) | [r] \<Rightarrow> (r, []) | [] \<Rightarrow> ([], []))"

definition permalink_key :: "permalink \<Rightarrow> utext" where
  "permalink_key l = linkKey (pl_roomId l) (pl_messageId l)"

fun permalinks_loop :: "(utext \<Rightarrow> permalink option) \<Rightarrow> permalink list \<Rightarrow> utext list \<Rightarrow> permalink list" where
  \<comment> \<open>the loop of \<open>findPermalinks\<close>; the keys seen are those of \<open>found\<close>\<close>
  "permalinks_loop parse found [] = found"
| "permalinks_loop parse found (u # us) =
     (case parse u of
        None \<Rightarrow> permalinks_loop parse found us
      | Some l \<Rightarrow>
          if permalink_key l \<in> set (map permalink_key found) then permalinks_loop parse found us
          else if length (found @ [l]) \<ge> MAX_LINK_CARDS then found @ [l]
          else permalinks_loop parse (found @ [l]) us)"

definition findPermalinks :: "url_api \<Rightarrow> utext \<Rightarrow> utext \<Rightarrow> permalink list" where
  "findPermalinks api body origin = permalinks_loop (\<lambda>u. parsePermalink api u origin) [] (findUrls body)"

section \<open>Links to huddles\<close>

record huddle_link =
  hk_workspaceId :: utext
  hk_roomId :: utext

definition HUDDLE_LINK_PARAM :: utext where "HUDDLE_LINK_PARAM = units ''huddle''"

definition huddleLinkPath :: "huddle_link \<Rightarrow> utext" where
  "huddleLinkPath l = units ''/w/'' @ hk_workspaceId l @ units ''/r/'' @ hk_roomId l @ units ''?'' @ HUDDLE_LINK_PARAM @ units ''=1''"

definition buildHuddleLink :: "url_api \<Rightarrow> utext \<Rightarrow> huddle_link \<Rightarrow> utext option" where
  "buildHuddleLink api origin l = resolve_url api (huddleLinkPath l) origin"

definition parseHuddleLink :: "url_api \<Rightarrow> utext \<Rightarrow> utext \<Rightarrow> huddle_link option" where
  "parseHuddleLink api href origin =
     (case (parse_url api origin, parse_url api href) of
        (Some base, Some url) \<Rightarrow>
          if url_origin url \<noteq> url_origin base then None
          else
            (case room_parts url of
               None \<Rightarrow> None
             | Some (ws, room) \<Rightarrow>
                 if \<not> isUlid ws \<or> \<not> isUlid room then None
                 else if param_of HUDDLE_LINK_PARAM url \<noteq> Some (units ''1'') \<or> param_of (units ''m'') url \<noteq> None then None
                 else Some \<lparr>hk_workspaceId = ws, hk_roomId = room\<rparr>)
      | _ \<Rightarrow> None)"

fun huddles_loop :: "nat \<Rightarrow> (utext \<Rightarrow> huddle_link option) \<Rightarrow> huddle_link list \<Rightarrow> utext list \<Rightarrow> huddle_link list" where
  "huddles_loop limit parse found [] = found"
| "huddles_loop limit parse found (u # us) =
     (if length found \<ge> limit then found
      else case parse u of
        None \<Rightarrow> huddles_loop limit parse found us
      | Some l \<Rightarrow>
          if hk_roomId l \<in> set (map hk_roomId found) then huddles_loop limit parse found us
          else huddles_loop limit parse (found @ [l]) us)"

definition findHuddleLinks :: "url_api \<Rightarrow> utext \<Rightarrow> utext \<Rightarrow> huddle_link list" where
  "findHuddleLinks api body origin =
     huddles_loop (MAX_LINK_CARDS - length (findPermalinks api body origin)) (\<lambda>u. parseHuddleLink api u origin) [] (findUrls body)"

section \<open>Previews of other links\<close>

definition MAX_PREVIEW_LINKS :: nat where "MAX_PREVIEW_LINKS = 5"

definition previewCandidates :: "url_api \<Rightarrow> utext \<Rightarrow> utext \<Rightarrow> utext list" where
  \<comment> \<open>\<open>format/link-previews.ts\<close>\<close>
  "previewCandidates api body origin =
     (let all = findUrls body in
      if length all > MAX_PREVIEW_LINKS then []
      else fold (\<lambda>raw out. if raw \<in> set out then out
          else case parse_url api raw of None \<Rightarrow> out | Some u \<Rightarrow> if url_origin u = origin then out else out @ [raw]) all [])"

section \<open>The body of a card\<close>

definition CARD_CLAMP_LINES :: nat where "CARD_CLAMP_LINES = 6"
definition CARD_CLAMP_CHARS :: nat where "CARD_CLAMP_CHARS = 300"

record clamped_body =
  cb_text :: utext
  cb_clamped :: bool

function count_fences :: "utext \<Rightarrow> nat" where
  \<comment> \<open>\<open>text.split("```").length - 1\<close>\<close>
  "count_fences t = (case find_from FENCE t of None \<Rightarrow> 0 | Some i \<Rightarrow> Suc (count_fences (drop (i + length FENCE) t)))"
  by pat_completeness auto
termination
proof (relation "measure length", goal_cases)
  case (2 t i)
  then have "i + length FENCE \<le> length t" using find_from_Some[of FENCE t i] by blast
  then show ?case by (simp add: FENCE_def)
qed simp

declare count_fences.simps [simp del]

definition clampCardBody :: "utext \<Rightarrow> clamped_body" where
  "clampCardBody body =
     (let ls = split_lines body;
          tooManyLines = (length ls > CARD_CLAMP_LINES);
          tooLong = (length body > CARD_CLAMP_CHARS)
      in if \<not> tooManyLines \<and> \<not> tooLong then \<lparr>cb_text = body, cb_clamped = False\<rparr>
         else
           let t1 = (if tooManyLines then join_lines (take CARD_CLAMP_LINES ls) else body);
               t2 = take CARD_CLAMP_CHARS t1;
               t3 = rev (dropWhile is_space (rev t2)) @ [0x2026];
               t4 = (if count_fences t3 mod 2 = 1 then t3 @ newline # FENCE else t3)
           in \<lparr>cb_text = t4, cb_clamped = True\<rparr>)"

section \<open>Cards of a body\<close>

lemma permalinks_mono: "x \<in> set found \<Longrightarrow> x \<in> set (permalinks_loop parse found us)"
  by (induction us arbitrary: found) (auto split: option.split)

lemma permalinks_bound: "length found < MAX_LINK_CARDS \<Longrightarrow> length (permalinks_loop parse found us) \<le> MAX_LINK_CARDS"
  by (induction us arbitrary: found) (auto split: option.split)

lemma permalinks_distinct: "distinct (map permalink_key found) \<Longrightarrow> distinct (map permalink_key (permalinks_loop parse found us))"
  by (induction us arbitrary: found) (auto split: option.split)

lemma permalinks_from: "set (permalinks_loop parse found us) \<subseteq> set found \<union> {l. \<exists>u\<in>set us. parse u = Some l}"
proof (induction us arbitrary: found)
  case (Cons v us)
  show ?case
  proof (cases "parse v")
    case None
    then show ?thesis using Cons[of found] by auto
  next
    case (Some l)
    then show ?thesis using Cons[of found] Cons[of "found @ [l]"] by auto
  qed
qed simp

lemma permalinks_complete:
  "length (permalinks_loop parse found us) < MAX_LINK_CARDS \<Longrightarrow> u \<in> set us \<Longrightarrow> parse u = Some l
    \<Longrightarrow> permalink_key l \<in> permalink_key ` set (permalinks_loop parse found us)"
proof (induction us arbitrary: found)
  case (Cons v us)
  show ?case
  proof (cases "u = v")
    case True
    then show ?thesis using Cons.prems permalinks_mono[of _ found parse us] permalinks_mono[of _ "found @ [l]" parse us]
      by (auto split: if_splits)
  next
    case False
    then show ?thesis using Cons.IH Cons.prems by (auto split: option.splits if_splits)
  qed
qed simp

lemma huddles_mono: "x \<in> set found \<Longrightarrow> x \<in> set (huddles_loop n parse found us)"
  by (induction us arbitrary: found) (auto split: option.split)

lemma huddles_bound: "length found \<le> n \<Longrightarrow> length (huddles_loop n parse found us) \<le> n"
  by (induction us arbitrary: found) (auto split: option.split)

lemma huddles_distinct: "distinct (map hk_roomId found) \<Longrightarrow> distinct (map hk_roomId (huddles_loop n parse found us))"
  by (induction us arbitrary: found) (auto split: option.split)

lemma huddles_from: "set (huddles_loop n parse found us) \<subseteq> set found \<union> {l. \<exists>u\<in>set us. parse u = Some l}"
proof (induction us arbitrary: found)
  case (Cons v us)
  show ?case
  proof (cases "parse v")
    case None
    then show ?thesis using Cons[of found] by auto
  next
    case (Some l)
    then show ?thesis using Cons[of found] Cons[of "found @ [l]"] by auto
  qed
qed simp

lemma huddles_complete:
  "length (huddles_loop n parse found us) < n \<Longrightarrow> u \<in> set us \<Longrightarrow> parse u = Some l
    \<Longrightarrow> hk_roomId l \<in> hk_roomId ` set (huddles_loop n parse found us)"
proof (induction us arbitrary: found)
  case (Cons v us)
  show ?case
  proof (cases "u = v")
    case True
    then show ?thesis using Cons.prems huddles_mono[of _ found n parse us] huddles_mono[of _ "found @ [l]" n parse us]
      by (auto split: if_splits)
  next
    case False
    then show ?thesis using Cons.IH Cons.prems by (auto split: option.splits if_splits)
  qed
qed simp

lemma one_kind: "parsePermalink api u origin = Some l \<Longrightarrow> parseHuddleLink api u origin = None"
  by (auto simp: parsePermalink_def parseHuddleLink_def split: option.splits prod.splits if_splits)

lemma one_other: "parseHuddleLink api u origin = Some l \<Longrightarrow> parsePermalink api u origin = None"
  using one_kind by fastforce

text \<open>C14: A message has at most three cards, whatever stands in its body. The cards of messages and of huddles are together no more
  than three, no two of them are of the same message or of the same room's huddle, and each comes from a URL of the body
  outside code; a URL never gives both kinds; and while fewer than three cards are shown, no link of the body is left
  without its card.\<close>

theorem at_most_three_cards:
  "length (findPermalinks api body origin) + length (findHuddleLinks api body origin) \<le> 3
    \<and> distinct (map permalink_key (findPermalinks api body origin)) \<and> distinct (map hk_roomId (findHuddleLinks api body origin))
    \<and> set (findPermalinks api body origin) \<subseteq> {l. \<exists>u\<in>set (findUrls body). parsePermalink api u origin = Some l \<and> parseHuddleLink api u origin = None}
    \<and> set (findHuddleLinks api body origin) \<subseteq> {l. \<exists>u\<in>set (findUrls body). parseHuddleLink api u origin = Some l \<and> parsePermalink api u origin = None}
    \<and> (length (findPermalinks api body origin) + length (findHuddleLinks api body origin) = 3
       \<or> permalink_key ` {l. \<exists>u\<in>set (findUrls body). parsePermalink api u origin = Some l} = permalink_key ` set (findPermalinks api body origin)
         \<and> hk_roomId ` {l. \<exists>u\<in>set (findUrls body). parseHuddleLink api u origin = Some l} = hk_roomId ` set (findHuddleLinks api body origin))"
proof -
  let ?p = "findPermalinks api body origin" and ?h = "findHuddleLinks api body origin" and ?U = "set (findUrls body)"
  have p: "length ?p \<le> MAX_LINK_CARDS" "distinct (map permalink_key ?p)"
    using permalinks_bound[of "[]"] by (simp_all add: findPermalinks_def permalinks_distinct MAX_LINK_CARDS_def)
  have h: "length ?h \<le> MAX_LINK_CARDS - length ?p" "distinct (map hk_roomId ?h)"
    by (simp_all add: findHuddleLinks_def huddles_bound huddles_distinct)
  have pf: "\<exists>u\<in>?U. parsePermalink api u origin = Some l" if "l \<in> set ?p" for l
    using permalinks_from[of "\<lambda>u. parsePermalink api u origin" "[]" "findUrls body"] that by (auto simp: findPermalinks_def)
  have hf: "\<exists>u\<in>?U. parseHuddleLink api u origin = Some l" if "l \<in> set ?h" for l
    using huddles_from[of "MAX_LINK_CARDS - length ?p" "\<lambda>u. parseHuddleLink api u origin" "[]" "findUrls body"] that
    by (auto simp: findHuddleLinks_def)
  have p2: "set ?p \<subseteq> {l. \<exists>u\<in>?U. parsePermalink api u origin = Some l \<and> parseHuddleLink api u origin = None}"
    using pf one_kind by blast
  have h2: "set ?h \<subseteq> {l. \<exists>u\<in>?U. parseHuddleLink api u origin = Some l \<and> parsePermalink api u origin = None}"
    using hf one_other by blast
  have all: "permalink_key ` {l. \<exists>u\<in>?U. parsePermalink api u origin = Some l} = permalink_key ` set ?p
      \<and> hk_roomId ` {l. \<exists>u\<in>?U. parseHuddleLink api u origin = Some l} = hk_roomId ` set ?h"
    if "length ?p + length ?h < 3"
  proof (intro conjI equalityI)
    have n: "length ?p < MAX_LINK_CARDS" "length ?h < MAX_LINK_CARDS - length ?p" using that by (simp_all add: MAX_LINK_CARDS_def)
    show "permalink_key ` {l. \<exists>u\<in>?U. parsePermalink api u origin = Some l} \<subseteq> permalink_key ` set ?p"
    proof (intro subsetI, elim imageE CollectE bexE)
      fix k l u assume "k = permalink_key l" "u \<in> ?U" "parsePermalink api u origin = Some l"
      then show "k \<in> permalink_key ` set ?p"
        using n(1) permalinks_complete[of "\<lambda>u. parsePermalink api u origin" "[]"] unfolding findPermalinks_def by simp
    qed
    show "hk_roomId ` {l. \<exists>u\<in>?U. parseHuddleLink api u origin = Some l} \<subseteq> hk_roomId ` set ?h"
    proof (intro subsetI, elim imageE CollectE bexE)
      fix k l u assume "k = hk_roomId l" "u \<in> ?U" "parseHuddleLink api u origin = Some l"
      then show "k \<in> hk_roomId ` set ?h"
        using n(2) huddles_complete[of "MAX_LINK_CARDS - length ?p" "\<lambda>u. parseHuddleLink api u origin" "[]"]
        unfolding findHuddleLinks_def by simp
    qed
    show "permalink_key ` set ?p \<subseteq> permalink_key ` {l. \<exists>u\<in>?U. parsePermalink api u origin = Some l}"
      by (rule image_mono) (use pf in blast)
    show "hk_roomId ` set ?h \<subseteq> hk_roomId ` {l. \<exists>u\<in>?U. parseHuddleLink api u origin = Some l}"
      by (rule image_mono) (use hf in blast)
  qed
  have sum: "length ?p + length ?h \<le> 3" using p(1) h(1) by (simp add: MAX_LINK_CARDS_def)
  then have "length ?p + length ?h = 3 \<or> length ?p + length ?h < 3" by linarith
  then show ?thesis using sum p(2) h(2) p2 h2 all by (elim disjE) simp_all
qed

section \<open>Fences of a card\<close>

lemma count_none: "find_from FENCE t = None \<Longrightarrow> count_fences t = 0"
  by (simp add: count_fences.simps)

lemma count_some: "find_from FENCE t = Some i \<Longrightarrow> count_fences t = Suc (count_fences (drop (i + 3) t))"
  by (subst count_fences.simps) (simp add: FENCE_def numeral_3_eq_3)

lemma find_close: "find_from FENCE (newline # FENCE) = Some 1"
  by (simp add: FENCE_def)

lemma find_from_close: "find_from FENCE (t @ newline # FENCE) = (case find_from FENCE t of Some i \<Rightarrow> Some i | None \<Rightarrow> Some (length t + 1))"
proof (induction t)
  case (Cons c t)
  have "prefix_of FENCE ((c # t) @ newline # FENCE) = prefix_of FENCE (c # t)"
    by (cases t; cases "tl t") (auto simp: FENCE_def)
  then show ?case using Cons by (simp split: option.splits)
qed (simp add: FENCE_def)

lemma count_close: "count_fences (t @ newline # FENCE) = Suc (count_fences t)"
proof (induction t rule: count_fences.induct)
  case (1 t)
  show ?case
  proof (cases "find_from FENCE t")
    case None
    then have "find_from FENCE (t @ newline # FENCE) = Some (length t + 1)" by (simp add: find_from_close)
    then show ?thesis using None by (simp add: count_some count_none FENCE_def)
  next
    case (Some i)
    have i: "i + 3 \<le> length t" using find_from_Some[OF Some] by (simp add: FENCE_def)
    have "find_from FENCE (t @ newline # FENCE) = Some i" using Some by (simp add: find_from_close)
    then have "count_fences (t @ newline # FENCE) = Suc (count_fences (drop (i + 3) t @ newline # FENCE))"
      using i by (simp add: count_some)
    then show ?thesis using 1[OF Some] Some by (simp add: count_some FENCE_def numeral_3_eq_3)
  qed
qed

lemma no_fence_sub: "find_from FENCE (xs @ t @ ys) = None \<Longrightarrow> find_from FENCE t = None"
proof (rule ccontr)
  assume n: "find_from FENCE (xs @ t @ ys) = None" and "find_from FENCE t \<noteq> None"
  then obtain i where i: "find_from FENCE t = Some i" by auto
  then have "prefix_of FENCE (drop i t)" "i \<le> length t" using find_from_Some[OF i] by simp_all
  then have "prefix_of FENCE (drop (length xs + i) (xs @ t @ ys))" by (auto simp: prefix_of_append)
  then show False using find_from_None[OF n, of "length xs + i"] \<open>i \<le> length t\<close> by simp
qed

lemma no_fence_before: "find_from FENCE t = Some i \<Longrightarrow> find_from FENCE (take i t) = None"
proof (rule ccontr)
  assume f: "find_from FENCE t = Some i" and "find_from FENCE (take i t) \<noteq> None"
  then obtain j where j: "find_from FENCE (take i t) = Some j" by auto
  then have "prefix_of FENCE (drop j (take i t))" "j + 3 \<le> i" using find_from_Some[OF j] by (simp_all add: FENCE_def)
  then have "prefix_of FENCE (drop j t)" by (metis drop_take prefix_of_append append_assoc append_take_drop_id)
  then show False using find_from_Some[OF f] \<open>j + 3 \<le> i\<close> by simp
qed

lemma strip_trail_no_fence: "find_from FENCE t = None \<Longrightarrow> find_from FENCE (strip_trail t) = None"
  using no_fence_sub[of "[]" "strip_trail t" "if strip_trail t = t then [] else [newline]"]
  by (cases t rule: rev_cases) (auto simp: strip_trail_def split: if_splits)

lemma count_strip_lead: "count_fences (strip_lead t) = count_fences t"
proof (cases "strip_lead t = t")
  case False
  then obtain cs where t: "t = newline # cs" by (auto simp: strip_lead_def split: list.splits if_splits)
  have f: "find_from FENCE t = map_option Suc (find_from FENCE cs)" by (simp add: t FENCE_def)
  show ?thesis
  proof (cases "find_from FENCE cs")
    case None
    then show ?thesis using f by (simp add: t strip_lead_def count_none)
  next
    case (Some i)
    have "count_fences t = Suc (count_fences (drop (Suc i + 3) t))" by (rule count_some) (simp add: f Some)
    then have "count_fences t = Suc (count_fences (drop (i + 3) cs))" unfolding t add_Suc drop_Suc_Cons .
    then show ?thesis using Some by (simp add: t strip_lead_def count_some)
  qed
qed simp

definition no_stray_fence :: "segment list \<Rightarrow> bool" where
  \<comment> \<open>no fence is left as plain text\<close>
  "no_stray_fence segs = list_all (\<lambda>s. case s of TextSeg t \<Rightarrow> find_from FENCE t = None | CodeSeg _ \<Rightarrow> True) segs"

lemma even_fences_closed: "even (count_fences rest) \<Longrightarrow> no_stray_fence out \<Longrightarrow> no_stray_fence (split_loop rest out)"
proof (induction rest out rule: split_loop.induct)
  case (1 rest out)
  show ?case
  proof (cases "find_from FENCE rest")
    case None
    then show ?thesis using 1(3) by (subst split_loop.simps) (simp add: find_fence_def indexOf_def no_stray_fence_def)
  next
    case (Some a)
    have a: "a + 3 \<le> length rest" using find_from_Some[OF Some] by (simp add: FENCE_def)
    obtain j where j: "find_from FENCE (drop (a + 3) rest) = Some j"
      using 1(2) Some by (cases "find_from FENCE (drop (a + 3) rest)") (simp_all add: count_some count_none)
    let ?b = "a + 3 + j"
    have b: "indexOf rest FENCE (a + length FENCE) = Some ?b" using j by (simp add: indexOf_def FENCE_def add_ac numeral_3_eq_3)
    have f: "find_fence rest 0 = Some (a, ?b)" using Some b by (simp add: find_fence_def indexOf_def)
    have "count_fences rest = Suc (Suc (count_fences (drop (?b + 3) rest)))"
      using Some j by (simp add: count_some add_ac)
    then have even: "even (count_fences (strip_lead (drop (?b + length FENCE) rest)))"
      using 1(2) by (simp add: count_strip_lead FENCE_def numeral_3_eq_3)
    have "find_from FENCE (strip_trail (slice rest 0 a)) = None"
      using strip_trail_no_fence no_fence_before[OF Some] by (simp add: slice_def)
    then have "no_stray_fence (out @ (if strip_trail (slice rest 0 a) \<noteq> [] then [TextSeg (strip_trail (slice rest 0 a))] else [])
        @ [CodeSeg (strip_trail (strip_lead (slice rest (a + length FENCE) ?b)))])"
      using 1(3) by (simp add: no_stray_fence_def)
    then show ?thesis using 1(1)[OF f refl refl refl even] f by (subst split_loop.simps) (simp add: Let_def)
  qed
qed

lemma clamped_fences: "cb_clamped (clampCardBody body) \<Longrightarrow> even (count_fences (cb_text (clampCardBody body)))"
  using count_close[of "_ @ [0x2026]"] by (auto simp: clampCardBody_def Let_def odd_iff_mod_2_eq_one split: if_splits)

lemma clamped_length: "length (cb_text (clampCardBody body)) \<le> CARD_CLAMP_CHARS + 5"
proof -
  have "length (dropWhile is_space (rev (take CARD_CLAMP_CHARS t))) \<le> CARD_CLAMP_CHARS" for t :: utext
    by (rule le_trans[OF length_dropWhile_le]) simp
  then have l: "length (rev (dropWhile is_space (rev (take CARD_CLAMP_CHARS t))) @ [0x2026]) \<le> CARD_CLAMP_CHARS + 1" for t :: utext
    by simp
  show ?thesis
  proof (cases "length body \<le> CARD_CLAMP_CHARS \<and> length (split_lines body) \<le> CARD_CLAMP_LINES")
    case False
    then show ?thesis
      using l[of "join_lines (take CARD_CLAMP_LINES (split_lines body))"] l[of body]
      by (auto simp: clampCardBody_def Let_def FENCE_def)
  qed (simp add: clampCardBody_def Let_def)
qed

lemma split_lines_count: "length (split_lines t) = Suc (count_list t newline)"
  by (induction t rule: split_lines.induct) (auto split: list.splits)

lemma join_append: "a \<noteq> [] \<Longrightarrow> b \<noteq> [] \<Longrightarrow> join_lines (a @ b) = join_lines a @ newline # join_lines b"
  by (induction a rule: join_lines.induct) (simp_all add: join_lines_Cons)

lemma join_count: "ls \<noteq> [] \<Longrightarrow> \<forall>l\<in>set ls. newline \<notin> set l \<Longrightarrow> Suc (count_list (join_lines ls) newline) = length ls"
  by (induction ls rule: join_lines.induct) (simp_all add: count_notin)

lemma first_lines:
  assumes "0 < n" "n < length (split_lines t)"
  obtains rest where "t = join_lines (take n (split_lines t)) @ newline # rest"
    "Suc (count_list (join_lines (take n (split_lines t))) newline) = n"
proof -
  have "join_lines (take n (split_lines t) @ drop n (split_lines t)) =
      join_lines (take n (split_lines t)) @ newline # join_lines (drop n (split_lines t))"
    using assms by (intro join_append) auto
  moreover have "Suc (count_list (join_lines (take n (split_lines t))) newline) = length (take n (split_lines t))"
    using assms split_lines_no_newline by (intro join_count) (auto dest: in_set_takeD)
  ultimately show ?thesis using that assms by simp
qed

lemma trailing_space:
  obtains blank where "t = rev (dropWhile is_space (rev t)) @ blank" "list_all is_space blank"
    "dropWhile is_space (rev (rev (dropWhile is_space (rev t)))) = rev (rev (dropWhile is_space (rev t)))"
proof
  show "t = rev (dropWhile is_space (rev t)) @ rev (takeWhile is_space (rev t))"
    by (metis rev_append rev_rev_ident takeWhile_dropWhile_id)
  show "list_all is_space (rev (takeWhile is_space (rev t)))" by (auto simp: list_all_iff dest: set_takeWhileD)
qed simp

lemma count_take: "count_list (take n xs) x \<le> count_list xs x"
  by (metis append_take_drop_id count_list_append le_add1)

text \<open>a fence that the body never closes is plain text there, but is closed in the card: what follows it is read as code.\<close>

lemma unclosed_fence_becomes_code:
  "let body = FENCE @ units '' *a*'' @ replicate 6 newline @ units ''b''
   in splitFences body = [TextSeg body] \<and> splitFences (cb_text (clampCardBody body)) = [CodeSeg (units '' *a*'' @ [0x2026])]"
  by code_simp

text \<open>C36: A body is cut down to its start, and the code of the cut text is closed. A body of at most six lines and 300 units is
  shown as it is. Of any other body, what is shown is its first 300 units or first six lines, whichever is less, without
  the white space at their end, then the sign of omission, and, when the number of code fences so far is odd, one fence
  on a line of its own: the format finds every fence of the shown text closed, and it has 305 units at most. (The
  number of fences is all the code looks at: a fence that the body itself never closes is text in the body and
  code in the card, \<open>unclosed_fence_becomes_code\<close>.)\<close>

theorem clamped_card_closed:
  "if count_list body newline < 6 \<and> length body \<le> 300 then clampCardBody body = \<lparr>cb_text = body, cb_clamped = False\<rparr>
   else \<exists>start blank rest. body = start @ blank @ rest \<and> list_all is_space blank \<and> dropWhile is_space (rev start) = rev start
     \<and> (length (start @ blank) = 300 \<and> count_list (start @ blank) newline < 6
        \<or> length (start @ blank) \<le> 300 \<and> count_list (start @ blank) newline = 5 \<and> take 1 rest = [newline])
     \<and> clampCardBody body = \<lparr>cb_text = start @ [0x2026] @
          (if even (count_fences (start @ [0x2026])) then [] else newline # FENCE), cb_clamped = True\<rparr>
     \<and> no_stray_fence (splitFences (cb_text (clampCardBody body))) \<and> length (cb_text (clampCardBody body)) \<le> 305"
proof (cases "count_list body newline < 6 \<and> length body \<le> 300")
  case True
  then show ?thesis by (simp add: clampCardBody_def Let_def split_lines_count CARD_CLAMP_LINES_def CARD_CLAMP_CHARS_def)
next
  case False
  define lines where "lines = (if 6 < length (split_lines body) then join_lines (take 6 (split_lines body)) else body)"
  define cut where "cut = take 300 lines"
  define start where "start = rev (dropWhile is_space (rev cut))"
  obtain blank where blank: "cut = start @ blank" "list_all is_space blank" "dropWhile is_space (rev start) = rev start"
    unfolding start_def by (rule trailing_space)
  have clamp: "clampCardBody body = \<lparr>cb_text = start @ [0x2026] @
      (if even (count_fences (start @ [0x2026])) then [] else newline # FENCE), cb_clamped = True\<rparr>"
    using False unfolding start_def cut_def lines_def
    by (auto simp: clampCardBody_def Let_def split_lines_count CARD_CLAMP_LINES_def CARD_CLAMP_CHARS_def odd_iff_mod_2_eq_one)
  have "\<exists>rest. body = cut @ rest \<and> (length cut = 300 \<and> count_list cut newline < 6
      \<or> length cut \<le> 300 \<and> count_list cut newline = 5 \<and> take 1 rest = [newline])"
  proof (cases "6 < length (split_lines body)")
    case True
    then obtain rest where r: "body = lines @ newline # rest" "Suc (count_list lines newline) = 6"
      using first_lines[of 6 body] by (auto simp: lines_def)
    show ?thesis
    proof (cases "length lines \<le> 300")
      case True
      then show ?thesis using r by (intro exI[of _ "newline # rest"]) (simp add: cut_def)
    next
      case False
      then have "body = cut @ drop 300 lines @ newline # rest" "length cut = 300" using r(1) by (simp_all add: cut_def)
      then show ?thesis using r(2) count_take[of 300 lines newline] unfolding cut_def by fastforce
    qed
  next
    case few: False
    then have "lines = body" "300 < length body" "count_list body newline < 6"
      using False by (simp_all add: lines_def split_lines_count)
    then show ?thesis
      using count_take[of 300 body newline] by (intro exI[of _ "drop 300 body"]) (simp add: cut_def)
  qed
  then obtain rest where "body = cut @ rest" "length cut = 300 \<and> count_list cut newline < 6
      \<or> length cut \<le> 300 \<and> count_list cut newline = 5 \<and> take 1 rest = [newline]" by blast
  moreover have "no_stray_fence (splitFences (cb_text (clampCardBody body)))"
    unfolding splitFences_def by (intro even_fences_closed clamped_fences) (simp_all add: no_stray_fence_def clamp)
  moreover have "length (cb_text (clampCardBody body)) \<le> 305"
    using clamped_length[of body] by (simp add: CARD_CLAMP_CHARS_def)
  ultimately show ?thesis unfolding if_not_P[OF False]
    using blank clamp by (intro exI[of _ start] exI[of _ blank] exI[of _ rest]) simp
qed

section \<open>Links read back\<close>

fun query_text :: "(utext \<times> utext) list \<Rightarrow> utext" where
  "query_text [] = []"
| "query_text [(k, v)] = k @ units ''='' @ v"
| "query_text ((k, v) # ps) = k @ units ''='' @ v @ units ''&'' @ query_text ps"

definition plain_path :: "utext \<Rightarrow> bool" where
  \<comment> \<open>an absolute path of letters and digits; two slashes at its start would name a host\<close>
  "plain_path p = (case p of a # b # r \<Rightarrow> a = slash \<and> b \<noteq> slash \<and> list_all (\<lambda>c. is_alnum c \<or> c = slash) p | _ \<Rightarrow> False)"

definition plain_pairs :: "(utext \<times> utext) list \<Rightarrow> bool" where
  "plain_pairs ps = (ps \<noteq> [] \<and> list_all (\<lambda>(k, v). list_all is_alnum k \<and> list_all is_alnum v) ps)"

definition url_documented :: "url_api \<Rightarrow> utext \<Rightarrow> bool" where
  \<comment> \<open>the URL standard on the URLs that the client builds: a path and a query of letters and digits, resolved against an
    origin, are a URL of that origin with that path and those parameters\<close>
  "url_documented api origin =
     (case parse_url api origin of
        None \<Rightarrow> False
      | Some base \<Rightarrow>
          \<forall>p ps. plain_path p \<longrightarrow> plain_pairs ps \<longrightarrow>
            (case resolve_url api (p @ units ''?'' @ query_text ps) origin of
               None \<Rightarrow> False
             | Some h \<Rightarrow> parse_url api h = Some \<lparr>url_origin = url_origin base, url_pathname = p, url_search = ps\<rparr>))"

lemma split_at_plain: "c \<notin> set x \<Longrightarrow> split_at c x = [x]"
  by (induction x) auto

lemma split_at_first: "c \<notin> set x \<Longrightarrow> split_at c (x @ c # y) = x # split_at c y"
  by (induction x) auto

lemma ulid_plain: "isUlid s \<Longrightarrow> list_all is_alnum s \<and> s \<noteq> [] \<and> slash \<notin> set s"
proof (cases s)
  case (Cons c cs)
  assume u: "isUlid s"
  then have "is_alnum c" "list_all is_alnum cs"
    by (auto simp: Cons isUlid_def is_alnum_def is_digit_def ulid_char_def list_all_iff)
  then show ?thesis by (auto simp: Cons list_all_iff slash_def is_alnum_def is_digit_def)
qed (simp add: isUlid_def)

lemma form_plain: "list_all is_alnum t \<Longrightarrow> form_encode t = t"
  by (induction t) (simp_all add: form_encode_def form_unit_def)

definition room_path :: "utext \<Rightarrow> utext \<Rightarrow> utext" where
  "room_path ws room = units ''/w/'' @ ws @ units ''/r/'' @ room"

lemma room_path_plain: "isUlid ws \<Longrightarrow> isUlid room \<Longrightarrow> plain_path (room_path ws room)"
  using ulid_plain[of ws] ulid_plain[of room]
  by (auto simp: plain_path_def room_path_def slash_def is_alnum_def is_digit_def list_all_iff)

lemma room_path_parts:
  assumes "isUlid ws" "isUlid room" "url_pathname u = room_path ws room"
  shows "room_parts u = Some (ws, room)"
proof -
  have ws: "ws \<noteq> []" "slash \<notin> set ws" and room: "room \<noteq> []" "slash \<notin> set room" using ulid_plain assms(1,2) by auto
  have "room_path ws room = [] @ slash # (units ''w'' @ slash # (ws @ slash # (units ''r'' @ slash # room)))"
    by (simp add: room_path_def slash_def)
  moreover have "slash \<notin> set (units ''w'')" "slash \<notin> set (units ''r'')" by (simp_all add: slash_def)
  ultimately have "split_at slash (room_path ws room) = [[], units ''w'', ws, units ''r'', room]"
    using ws(2) room(2) by (simp only: split_at_first split_at_plain list.set empty_iff simp_thms)
  then show ?thesis using ws(1) room(1) assms(3) by (simp add: room_parts_def)
qed

lemma documented_link:
  assumes "url_documented api origin" "isUlid ws" "isUlid room" "plain_pairs ps"
  obtains base h where "parse_url api origin = Some base" "resolve_url api (room_path ws room @ units ''?'' @ query_text ps) origin = Some h"
    "parse_url api h = Some \<lparr>url_origin = url_origin base, url_pathname = room_path ws room, url_search = ps\<rparr>"
proof -
  obtain base where b: "parse_url api origin = Some base" using assms(1) by (auto simp: url_documented_def split: option.splits)
  have "case resolve_url api (room_path ws room @ units ''?'' @ query_text ps) origin of None \<Rightarrow> False
    | Some h \<Rightarrow> parse_url api h = Some \<lparr>url_origin = url_origin base, url_pathname = room_path ws room, url_search = ps\<rparr>"
    using assms(1,4) room_path_plain[OF assms(2,3)] b by (simp add: url_documented_def)
  then show ?thesis using that b by (auto split: option.splits)
qed

text \<open>C15: A copied link leads back to what it was copied from. The URL that the client builds for a message, or for a reply with its
  thread, is read back as exactly that message, and the URL of a room's huddle as that room; neither is taken for the
  other.\<close>

theorem links_read_back:
  assumes "url_documented api origin" "isUlid ws" "isUlid room" "isUlid m" "case t of None \<Rightarrow> True | Some i \<Rightarrow> isUlid i"
  defines "l \<equiv> \<lparr>pl_workspaceId = ws, pl_roomId = room, pl_messageId = m, pl_threadRootId = t\<rparr>"
    and "k \<equiv> \<lparr>hk_workspaceId = ws, hk_roomId = room\<rparr>"
  shows "(case buildPermalink api origin l of None \<Rightarrow> False
      | Some h \<Rightarrow> parsePermalink api h origin = Some l \<and> parseHuddleLink api h origin = None)
    \<and> (case buildHuddleLink api origin k of None \<Rightarrow> False
      | Some h \<Rightarrow> parseHuddleLink api h origin = Some k \<and> parsePermalink api h origin = None)"
proof
  let ?ps = "(units ''m'', m) # (case t of None \<Rightarrow> [] | Some i \<Rightarrow> [(units ''t'', i)])"
  have alnum: "is_alnum 109" "is_alnum 116" "is_alnum 104" "is_alnum 117" "is_alnum 100" "is_alnum 108" "is_alnum 101" "is_alnum 49"
    by (simp_all add: is_alnum_def is_digit_def)
  have plain: "plain_pairs ?ps"
    using ulid_plain[OF assms(4)] assms(5) ulid_plain alnum by (auto simp: plain_pairs_def split: option.splits)
  obtain base h where h: "parse_url api origin = Some base" "resolve_url api (room_path ws room @ units ''?'' @ query_text ?ps) origin = Some h"
    "parse_url api h = Some \<lparr>url_origin = url_origin base, url_pathname = room_path ws room, url_search = ?ps\<rparr>"
    using documented_link[OF assms(1-3) plain] by blast
  have "permalinkPath l = room_path ws room @ units ''?'' @ query_text ?ps"
    using assms(4,5) ulid_plain[of m] ulid_plain[of "the t"] by (cases t) (simp_all add: permalinkPath_def l_def room_path_def form_plain)
  then have "buildPermalink api origin l = Some h" using h(2) by (simp add: buildPermalink_def)
  moreover have "parsePermalink api h origin = Some l"
    using h(1,3) assms(2-5)
    by (cases t) (simp_all add: parsePermalink_def room_path_parts param_of_def l_def)
  ultimately show "case buildPermalink api origin l of None \<Rightarrow> False
      | Some h \<Rightarrow> parsePermalink api h origin = Some l \<and> parseHuddleLink api h origin = None"
    using one_kind by simp
  let ?hs = "[(HUDDLE_LINK_PARAM, units ''1'')]"
  have plain': "plain_pairs ?hs" using alnum by (simp add: plain_pairs_def HUDDLE_LINK_PARAM_def)
  obtain base' g where g: "parse_url api origin = Some base'" "resolve_url api (room_path ws room @ units ''?'' @ query_text ?hs) origin = Some g"
    "parse_url api g = Some \<lparr>url_origin = url_origin base', url_pathname = room_path ws room, url_search = ?hs\<rparr>"
    using documented_link[OF assms(1-3) plain'] by blast
  have "buildHuddleLink api origin k = Some g"
    using g(2) by (simp add: buildHuddleLink_def huddleLinkPath_def k_def room_path_def)
  moreover have "parseHuddleLink api g origin = Some k"
    using g(1,3) assms(2,3) by (simp add: parseHuddleLink_def room_path_parts param_of_def k_def HUDDLE_LINK_PARAM_def)
  ultimately show "case buildHuddleLink api origin k of None \<Rightarrow> False
      | Some h \<Rightarrow> parseHuddleLink api h origin = Some k \<and> parsePermalink api h origin = None"
    using one_other by simp
qed

text \<open>One function that does what the standard says on these URLs.\<close>

definition sample_origin :: utext where "sample_origin = units ''https://h''"

definition read_pair :: "utext \<Rightarrow> utext \<times> utext" where
  "read_pair p = (case split_at 61 p of k # v # _ \<Rightarrow> (k, v) | _ \<Rightarrow> (p, []))"

definition sample_api :: url_api where
  "sample_api =
     \<lparr>parse_url = (\<lambda>h.
        if take 9 h \<noteq> sample_origin then None
        else (case split_at 63 (drop 9 h) of
            [p, q] \<Rightarrow> Some \<lparr>url_origin = sample_origin, url_pathname = p, url_search = map read_pair (split_at 38 q)\<rparr>
          | _ \<Rightarrow> Some \<lparr>url_origin = sample_origin, url_pathname = drop 9 h, url_search = []\<rparr>)),
      resolve_url = (\<lambda>p o'. Some (o' @ p))\<rparr>"

lemma alnum_not: "list_all is_alnum t \<Longrightarrow> 38 \<notin> set t \<and> 61 \<notin> set t \<and> 63 \<notin> set t"
  by (auto simp: list_all_iff is_alnum_def is_digit_def)

lemma query_read: "plain_pairs ps \<Longrightarrow> map read_pair (split_at 38 (query_text ps)) = ps \<and> 63 \<notin> set (query_text ps)"
proof (induction ps rule: query_text.induct)
  case (2 k v)
  then have "38 \<notin> set (k @ 61 # v)" "61 \<notin> set k" "61 \<notin> set v" "63 \<notin> set k" "63 \<notin> set v"
    using alnum_not[of k] alnum_not[of v] by (simp_all add: plain_pairs_def)
  then show ?case using split_at_plain[of 38 "k @ 61 # v"] by (simp add: read_pair_def split_at_first split_at_plain)
next
  case (3 k v p ps)
  then have n: "38 \<notin> set (k @ 61 # v)" "61 \<notin> set k" "61 \<notin> set v" "63 \<notin> set k" "63 \<notin> set v"
    using alnum_not[of k] alnum_not[of v] by (simp_all add: plain_pairs_def)
  have "plain_pairs (p # ps)" using 3(2) by (simp add: plain_pairs_def)
  then show ?case
    using 3(1) n split_at_first[OF n(1), of "query_text (p # ps)"] by (simp add: read_pair_def split_at_first split_at_plain)
qed (simp add: plain_pairs_def)

lemma sample_documented: "url_documented sample_api sample_origin"
proof -
  have "parse_url sample_api (sample_origin @ p @ units ''?'' @ query_text ps)
      = Some \<lparr>url_origin = sample_origin, url_pathname = p, url_search = ps\<rparr>" if "plain_path p" "plain_pairs ps" for p ps
  proof -
    have "63 \<notin> set p" using that(1) by (auto simp: plain_path_def list_all_iff is_alnum_def is_digit_def slash_def split: list.splits)
    then have "split_at 63 (p @ 63 # query_text ps) = [p, query_text ps]"
      using query_read[OF that(2)] by (simp add: split_at_first split_at_plain)
    then show ?thesis using query_read[OF that(2)] by (simp add: sample_api_def sample_origin_def)
  qed
  moreover have "parse_url sample_api sample_origin = Some \<lparr>url_origin = sample_origin, url_pathname = [], url_search = []\<rparr>"
    by (simp add: sample_api_def sample_origin_def)
  moreover have "resolve_url sample_api p o' = Some (o' @ p)" for p o' by (simp add: sample_api_def)
  ultimately show ?thesis by (simp add: url_documented_def)
qed

definition sample_ulid :: utext where "sample_ulid = units ''01ARZ3NDEKTSV4RRFFQ69G5FAV''"

theorem links_read_back_witness:
  "parsePermalink sample_api (units ''https://h/w/01ARZ3NDEKTSV4RRFFQ69G5FAV/r/01ARZ3NDEKTSV4RRFFQ69G5FAV?m=01ARZ3NDEKTSV4RRFFQ69G5FAV'') sample_origin
    = Some \<lparr>pl_workspaceId = sample_ulid, pl_roomId = sample_ulid, pl_messageId = sample_ulid, pl_threadRootId = None\<rparr>"
proof -
  have u: "isUlid sample_ulid" by code_simp
  have b: "buildPermalink sample_api sample_origin
      \<lparr>pl_workspaceId = sample_ulid, pl_roomId = sample_ulid, pl_messageId = sample_ulid, pl_threadRootId = None\<rparr>
    = Some (units ''https://h/w/01ARZ3NDEKTSV4RRFFQ69G5FAV/r/01ARZ3NDEKTSV4RRFFQ69G5FAV?m=01ARZ3NDEKTSV4RRFFQ69G5FAV'')"
    by code_simp
  show ?thesis using links_read_back [OF sample_documented u u u, of None] unfolding b by simp
qed

end
