(* ===== verification/NotifierTabs.thy ===== *)
theory NotifierTabs
  imports Prelude
begin

text \<open>
  Who shows a desktop notification (\<open>web/lib/chat/notifications/desktop-notifier.ts\<close>), over all the tabs of a browser. A
  tab's variables are one record; tabs are numbers. The browser's parts are modelled by what the web platform documents: a
  \<open>BroadcastChannel\<close> brings a message to every other open channel, in order and at some later time (\<open>mail\<close>), and a lock is
  granted to the first in the queue when nobody holds it, and held until the promise of its callback is resolved. The
  sound itself and \<open>createChime\<close> are left out; the permission and the sound setting of a tab stay what they are.
\<close>

section \<open>A tab\<close>

datatype visibility_message = Hello nat bool | Visibility nat bool | Bye nat

record notification_content =
  nc_title :: string
  nc_body :: string
  nc_tag :: string
  nc_url :: string

record notifier_tab =
  nt_visible :: bool
  nt_granted :: bool \<comment> \<open>the permission is \<open>granted\<close>\<close>
  nt_sound :: bool
  nt_running :: bool \<comment> \<open>the channel is open exactly then\<close>
  nt_leader :: bool
  nt_releaseLock :: bool \<comment> \<open>\<open>releaseLock\<close> is there\<close>
  nt_others :: "(nat \<times> bool) list"

definition createDesktopNotifier :: "bool \<Rightarrow> bool \<Rightarrow> bool \<Rightarrow> bool \<Rightarrow> notifier_tab" where
  "createDesktopNotifier locks visible granted sound =
     \<lparr>nt_visible = visible, nt_granted = granted, nt_sound = sound, nt_running = False, nt_leader = (\<not> locks),
      nt_releaseLock = False, nt_others = []\<rparr>"

definition anyVisible :: "notifier_tab \<Rightarrow> bool" where
  "anyVisible t = (nt_visible t \<or> list_ex snd (nt_others t))"

section \<open>The browser\<close>

record browser =
  has_locks :: bool
  tabs :: "nat \<Rightarrow> notifier_tab"
  mail :: "nat \<Rightarrow> visibility_message list"
  lock_queue :: "nat list"
  lock_holder :: "(nat \<times> bool) option" \<comment> \<open>the tab, and whether its promise has been resolved\<close>
  shown :: "(nat \<times> notification_content) list"
  sounds :: "nat list"

definition openBrowser :: "bool \<Rightarrow> (nat \<Rightarrow> notifier_tab) \<Rightarrow> browser" where
  "openBrowser locks ts = \<lparr>has_locks = locks, tabs = ts, mail = (\<lambda>_. []), lock_queue = [], lock_holder = None, shown = [], sounds = []\<rparr>"

definition patchTab :: "nat \<Rightarrow> (notifier_tab \<Rightarrow> notifier_tab) \<Rightarrow> browser \<Rightarrow> browser" where
  "patchTab a f w = w\<lparr>tabs := (tabs w)(a := f (tabs w a))\<rparr>"

definition postMessage :: "nat \<Rightarrow> visibility_message \<Rightarrow> browser \<Rightarrow> browser" where
  "postMessage a m w =
     (if nt_running (tabs w a)
      then w\<lparr>mail := (\<lambda>b. if b \<noteq> a \<and> nt_running (tabs w b) then mail w b @ [m] else mail w b)\<rparr>
      else w)"

definition startNotifier :: "nat \<Rightarrow> browser \<Rightarrow> browser" where
  "startNotifier a w =
     (if nt_running (tabs w a) then w
      else
        let w1 = patchTab a (\<lambda>t. t\<lparr>nt_running := True, nt_others := []\<rparr>) (w\<lparr>mail := (mail w)(a := [])\<rparr>);
            w2 = postMessage a (Hello a (nt_visible (tabs w1 a))) w1
        in if has_locks w then w2\<lparr>lock_queue := lock_queue w2 @ [a]\<rparr> else w2)"

definition stopNotifier :: "nat \<Rightarrow> browser \<Rightarrow> browser" where
  "stopNotifier a w =
     (let w1 = postMessage a (Bye a) w;
          w2 = (if nt_releaseLock (tabs w a)
                then w1\<lparr>lock_holder := (case lock_holder w1 of Some (h, r) \<Rightarrow> if h = a then Some (h, True) else Some (h, r) | None \<Rightarrow> None)\<rparr>
                else w1)
      in patchTab a (\<lambda>t. t\<lparr>nt_running := False, nt_leader := \<not> has_locks w, nt_releaseLock := False\<rparr>)
           (w2\<lparr>mail := (mail w2)(a := [])\<rparr>))"

definition visibilityChanged :: "nat \<Rightarrow> bool \<Rightarrow> browser \<Rightarrow> browser" where
  \<comment> \<open>of the tab; its listener\<close>
  "visibilityChanged a v w = postMessage a (Visibility a v) (patchTab a (\<lambda>t. t\<lparr>nt_visible := v\<rparr>) w)"

definition set_other :: "nat \<Rightarrow> bool \<Rightarrow> notifier_tab \<Rightarrow> notifier_tab" where
  "set_other c v t = t\<lparr>nt_others := AList.update c v (nt_others t)\<rparr>"

definition onMessage :: "nat \<Rightarrow> visibility_message \<Rightarrow> browser \<Rightarrow> browser" where
  "onMessage b m w =
     (case m of
        Bye c \<Rightarrow> if c = b then w else patchTab b (\<lambda>t. t\<lparr>nt_others := filter (\<lambda>(c', v). c' \<noteq> c) (nt_others t)\<rparr>) w
      | Visibility c v \<Rightarrow> if c = b then w else patchTab b (set_other c v) w
      | Hello c v \<Rightarrow>
          if c = b then w
          else postMessage b (Visibility b (nt_visible (tabs w b))) (patchTab b (set_other c v) w))"

definition deliver :: "nat \<Rightarrow> browser \<Rightarrow> browser" where
  "deliver b w =
     (case mail w b of [] \<Rightarrow> w
      | m # rest \<Rightarrow> if nt_running (tabs w b) then onMessage b m (w\<lparr>mail := (mail w)(b := rest)\<rparr>) else w)"

definition grantLock :: "browser \<Rightarrow> browser" where
  \<comment> \<open>the callback of the first request; it ends at once in a tab that has stopped\<close>
  "grantLock w =
     (case (lock_holder w, lock_queue w) of
        (None, a # rest) \<Rightarrow>
          if nt_running (tabs w a)
          then patchTab a (\<lambda>t. t\<lparr>nt_leader := True, nt_releaseLock := True\<rparr>) (w\<lparr>lock_queue := rest, lock_holder := Some (a, False)\<rparr>)
          else w\<lparr>lock_queue := rest\<rparr>
      | _ \<Rightarrow> w)"

definition freeLock :: "browser \<Rightarrow> browser" where
  \<comment> \<open>the promise of the holder has been resolved\<close>
  "freeLock w = (case lock_holder w of Some (a, True) \<Rightarrow> w\<lparr>lock_holder := None\<rparr> | _ \<Rightarrow> w)"

definition may_notify :: "notifier_tab \<Rightarrow> bool" where
  "may_notify t = (nt_running t \<and> nt_leader t \<and> nt_granted t \<and> \<not> anyVisible t)"

definition notify :: "nat \<Rightarrow> notification_content \<Rightarrow> browser \<Rightarrow> browser" where
  "notify a c w =
     (if \<not> may_notify (tabs w a) then w
      else w\<lparr>shown := shown w @ [(a, c)], sounds := (if nt_sound (tabs w a) then sounds w @ [a] else sounds w)\<rparr>)"

section \<open>Runs\<close>

datatype browser_event =
    BrStart nat | BrStop nat | BrVisible nat bool | BrDeliver nat | BrGrant | BrFree | BrNotify nat notification_content

definition browserStep :: "browser_event \<Rightarrow> browser \<Rightarrow> browser" where
  "browserStep e w =
     (case e of
        BrStart a \<Rightarrow> startNotifier a w
      | BrStop a \<Rightarrow> stopNotifier a w
      | BrVisible a v \<Rightarrow> visibilityChanged a v w
      | BrDeliver b \<Rightarrow> deliver b w
      | BrGrant \<Rightarrow> grantLock w
      | BrFree \<Rightarrow> freeLock w
      | BrNotify a c \<Rightarrow> notify a c w)"

definition browserRun :: "browser \<Rightarrow> browser_event list \<Rightarrow> browser" where
  "browserRun w es = fold browserStep es w"

definition new_tabs :: "bool \<Rightarrow> (nat \<Rightarrow> notifier_tab) \<Rightarrow> bool" where
  "new_tabs locks ts = (\<forall>a. \<exists>v g snd'. ts a = createDesktopNotifier locks v g snd')"

section \<open>One tab has the lock\<close>

definition lead_ok :: "browser \<Rightarrow> bool" where
  "lead_ok w =
     (has_locks w
    \<and> (\<forall>a. nt_leader (tabs w a) \<longrightarrow> lock_holder w = Some (a, False) \<and> nt_releaseLock (tabs w a) \<and> nt_running (tabs w a)))"

lemma frame_post [simp]:
  "has_locks (postMessage a m w) = has_locks w" "tabs (postMessage a m w) = tabs w" "lock_holder (postMessage a m w) = lock_holder w"
  "lock_queue (postMessage a m w) = lock_queue w"
  by (simp_all add: postMessage_def)

lemma frame_patch [simp]:
  "has_locks (patchTab a f w) = has_locks w" "tabs (patchTab a f w) b = (if b = a then f (tabs w a) else tabs w b)"
  "lock_holder (patchTab a f w) = lock_holder w" "lock_queue (patchTab a f w) = lock_queue w" "mail (patchTab a f w) = mail w"
  by (simp_all add: patchTab_def)

lemma lead_ok_step: "lead_ok w \<Longrightarrow> lead_ok (browserStep e w)"
proof (cases e)
  case (BrStart a)
  assume "lead_ok w"
  then show ?thesis using BrStart by (auto simp: browserStep_def startNotifier_def Let_def lead_ok_def)
next
  case (BrStop a)
  assume l: "lead_ok w"
  have only: "b \<noteq> a \<Longrightarrow> nt_leader (tabs w b) \<Longrightarrow> lock_holder w = Some (b, False)" for b using l by (simp add: lead_ok_def)
  let ?w = "stopNotifier a w"
  have "lock_holder w = Some (b, False) \<Longrightarrow> b \<noteq> a \<Longrightarrow> lock_holder ?w = Some (b, False)" for b
    by (simp add: stopNotifier_def Let_def)
  moreover have "tabs ?w b = (if b = a then (tabs w a)\<lparr>nt_running := False, nt_leader := \<not> has_locks w, nt_releaseLock := False\<rparr> else tabs w b)"
    for b by (simp add: stopNotifier_def Let_def)
  moreover have "has_locks ?w = has_locks w" by (simp add: stopNotifier_def Let_def)
  ultimately show ?thesis using BrStop l only by (simp add: browserStep_def lead_ok_def)
next
  case (BrDeliver b)
  assume "lead_ok w"
  then show ?thesis using BrDeliver
    by (auto simp: browserStep_def deliver_def onMessage_def set_other_def lead_ok_def split: list.split visibility_message.split)
next
  case BrGrant
  assume "lead_ok w"
  then show ?thesis using BrGrant
    by (auto simp: browserStep_def grantLock_def lead_ok_def split: list.split option.split)
next
  case BrFree
  assume "lead_ok w"
  then show ?thesis using BrFree
    by (auto simp: browserStep_def freeLock_def lead_ok_def split: option.split bool.split)
qed (auto simp: browserStep_def visibilityChanged_def notify_def lead_ok_def)

section \<open>What a tab knows of the others\<close>

fun told :: "nat \<Rightarrow> visibility_message list \<Rightarrow> bool option \<Rightarrow> bool option" where
  \<comment> \<open>what is known of a tab after these messages\<close>
  "told a [] r = r"
| "told a (Hello c v # ms) r = told a ms (if c = a then Some v else r)"
| "told a (Visibility c v # ms) r = told a ms (if c = a then Some v else r)"
| "told a (Bye c # ms) r = told a ms (if c = a then None else r)"

definition knows :: "browser \<Rightarrow> nat \<Rightarrow> nat \<Rightarrow> bool option" where
  "knows w b a = told a (mail w b) (map_of (nt_others (tabs w b)) a)"

definition greets :: "browser \<Rightarrow> nat \<Rightarrow> nat \<Rightarrow> bool" where
  \<comment> \<open>a hello of the one is on its way to the other\<close>
  "greets w b a = (\<exists>v. Hello b v \<in> set (mail w a))"

definition pair_ok :: "browser \<Rightarrow> nat \<Rightarrow> nat \<Rightarrow> bool" where
  \<comment> \<open>what the one knows of the other is right, or will be: its hello is on its way\<close>
  "pair_ok w b a =
     (if nt_running (tabs w a) then knows w b a = Some (nt_visible (tabs w a)) \<or> knows w b a = None \<and> greets w b a
      else knows w b a = None)"

definition known_ok :: "browser \<Rightarrow> bool" where
  "known_ok w = (\<forall>a b. a \<noteq> b \<longrightarrow> nt_running (tabs w b) \<longrightarrow> pair_ok w b a)"

fun message_tab :: "visibility_message \<Rightarrow> nat" where
  "message_tab (Hello c v) = c"
| "message_tab (Visibility c v) = c"
| "message_tab (Bye c) = c"

definition mail_ok :: "browser \<Rightarrow> bool" where
  \<comment> \<open>nobody has word of itself\<close>
  "mail_ok w = (\<forall>b. b \<notin> fst ` set (nt_others (tabs w b)) \<and> distinct (map fst (nt_others (tabs w b))) \<and> b \<notin> message_tab ` set (mail w b))"

lemma told_append: "told a (xs @ ys) r = told a ys (told a xs r)"
  by (induction a xs r rule: told.induct) auto

lemma told_snoc [simp]:
  "told a (xs @ [Hello c v]) r = (if c = a then Some v else told a xs r)"
  "told a (xs @ [Visibility c v]) r = (if c = a then Some v else told a xs r)"
  "told a (xs @ [Bye c]) r = (if c = a then None else told a xs r)"
  by (simp_all add: told_append)

lemma mail_post:
  "nt_running (tabs w a) \<Longrightarrow> mail (postMessage a m w) b = (if b \<noteq> a \<and> nt_running (tabs w b) then mail w b @ [m] else mail w b)"
  "\<not> nt_running (tabs w a) \<Longrightarrow> postMessage a m w = w"
  by (simp_all add: postMessage_def)

lemma pair_keep:
  assumes "pair_ok w b x" "knows w' b x = knows w b x" "greets w b x \<Longrightarrow> greets w' b x"
    "nt_running (tabs w' x) = nt_running (tabs w x)" "nt_visible (tabs w' x) = nt_visible (tabs w x)"
  shows "pair_ok w' b x"
  using assms by (auto simp: pair_ok_def split: if_splits)

lemma pair_told: "nt_running (tabs w x) \<Longrightarrow> knows w b x = Some (nt_visible (tabs w x)) \<Longrightarrow> pair_ok w b x"
  by (simp add: pair_ok_def)

lemma start_frame:
  assumes "\<not> nt_running (tabs w a)"
  shows "mail (startNotifier a w) b = (if b = a then [] else if nt_running (tabs w b) then mail w b @ [Hello a (nt_visible (tabs w a))] else mail w b)"
    "tabs (startNotifier a w) b = (if b = a then (tabs w a)\<lparr>nt_running := True, nt_others := []\<rparr> else tabs w b)"
  using assms by (simp_all add: startNotifier_def Let_def mail_post)

lemma known_cong:
  assumes "\<And>b. nt_running (tabs w' b) = nt_running (tabs w b)" "\<And>b. nt_visible (tabs w' b) = nt_visible (tabs w b)"
    "\<And>b. nt_others (tabs w' b) = nt_others (tabs w b)" "mail w' = mail w"
  shows "known_ok w' = known_ok w"
  using assms by (simp add: known_ok_def pair_ok_def knows_def greets_def)

lemma known_start: "known_ok w \<Longrightarrow> known_ok (startNotifier a w)"
proof (cases "nt_running (tabs w a)")
  case False
  assume k: "known_ok w"
  let ?w = "startNotifier a w"
  note m = start_frame(1) [OF False] and t = start_frame(2) [OF False]
  show ?thesis
    unfolding known_ok_def
  proof (intro allI impI)
    fix x b assume x: "x \<noteq> b" and b: "nt_running (tabs ?w b)"
    consider "b = a" | "b \<noteq> a" "x = a" | "b \<noteq> a" "x \<noteq> a" by blast
    then show "pair_ok ?w b x"
    proof cases
      case 1
      then have "knows ?w b x = None" using m t by (simp add: knows_def)
      moreover have "greets ?w b x" if "nt_running (tabs ?w x)" using that 1 x m t by (auto simp: greets_def)
      ultimately show ?thesis by (simp add: pair_ok_def)
    next
      case 2
      then show ?thesis using b m t by (intro pair_told) (simp_all add: knows_def)
    next
      case 3
      then have "pair_ok w b x" using k x b t by (simp add: known_ok_def)
      then show ?thesis by (rule pair_keep) (use 3 b m t in \<open>auto simp: knows_def greets_def\<close>)
    qed
  qed
qed (simp add: startNotifier_def)

lemma known_stop: "known_ok w \<Longrightarrow> known_ok (stopNotifier a w)"
proof -
  assume k: "known_ok w"
  let ?w = "stopNotifier a w"
  have m: "b \<noteq> a \<Longrightarrow> mail ?w b = (if nt_running (tabs w a) \<and> nt_running (tabs w b) then mail w b @ [Bye a] else mail w b)" for b
    by (simp add: stopNotifier_def Let_def postMessage_def)
  have t: "tabs ?w b = (if b = a then (tabs w a)\<lparr>nt_running := False, nt_leader := \<not> has_locks w, nt_releaseLock := False\<rparr> else tabs w b)" for b
    by (simp add: stopNotifier_def Let_def)
  show ?thesis
    unfolding known_ok_def
  proof (intro allI impI)
    fix x b assume x: "x \<noteq> b" and b: "nt_running (tabs ?w b)"
    then have "b \<noteq> a" "nt_running (tabs w b)" using t[of b] by (auto split: if_splits)
    note b = this
    have old: "pair_ok w b x" using k x b by (simp add: known_ok_def)
    show "pair_ok ?w b x"
    proof (cases "x = a")
      case True
      then show ?thesis using old b m[of b] t[of b] t[of a] by (auto simp: pair_ok_def knows_def split: if_splits)
    next
      case False
      show ?thesis using old by (rule pair_keep) (use False b m t in \<open>auto simp: knows_def greets_def\<close>)
    qed
  qed
qed

lemma known_post_visible:
  assumes "\<And>x b. x \<noteq> b \<Longrightarrow> x \<noteq> a \<Longrightarrow> nt_running (tabs w b) \<Longrightarrow> pair_ok w b x" "nt_running (tabs w a)"
  shows "known_ok (postMessage a (Visibility a (nt_visible (tabs w a))) w)"
    (is "known_ok ?w")
  unfolding known_ok_def
proof (intro allI impI)
  have m: "mail ?w b = (if b \<noteq> a \<and> nt_running (tabs w b) then mail w b @ [Visibility a (nt_visible (tabs w a))] else mail w b)" for b
    using assms(2) by (simp add: mail_post)
  fix x b assume x: "x \<noteq> b" and b: "nt_running (tabs ?w b)"
  show "pair_ok ?w b x"
  proof (cases "x = a")
    case True
    then show ?thesis using x b m assms(2) by (intro pair_told) (simp_all add: knows_def)
  next
    case False
    then have "pair_ok w b x" using x b assms(1) by simp
    then show ?thesis by (rule pair_keep) (use False x m in \<open>auto simp: knows_def greets_def\<close>)
  qed
qed

lemma known_visible: "known_ok w \<Longrightarrow> known_ok (visibilityChanged a v w)"
proof (cases "nt_running (tabs w a)")
  case True
  assume k: "known_ok w"
  let ?p = "patchTab a (\<lambda>t. t\<lparr>nt_visible := v\<rparr>) w"
  have "known_ok (postMessage a (Visibility a (nt_visible (tabs ?p a))) ?p)"
  proof (rule known_post_visible)
    fix x b assume x: "x \<noteq> b" "x \<noteq> a" "nt_running (tabs ?p b)"
    then have "pair_ok w b x" using k by (auto simp: known_ok_def split: if_splits)
    then show "pair_ok ?p b x" by (rule pair_keep) (use x in \<open>auto simp: knows_def greets_def\<close>)
  qed (use True in simp)
  then show ?thesis by (simp add: visibilityChanged_def)
next
  case False
  assume k: "known_ok w"
  show ?thesis
    unfolding known_ok_def
  proof (intro allI impI)
    fix x b assume x: "x \<noteq> b" and b: "nt_running (tabs (visibilityChanged a v w) b)"
    then have b: "b \<noteq> a" "nt_running (tabs w b)" using False by (auto simp: visibilityChanged_def split: if_splits)
    then have "pair_ok w b x" using k x by (simp add: known_ok_def)
    then show "pair_ok (visibilityChanged a v w) b x"
      using b False by (auto simp: visibilityChanged_def pair_ok_def knows_def greets_def mail_post(2))
  qed
qed

section \<open>Reading the mail\<close>

lemma map_of_filter_other: "map_of (filter (\<lambda>(k, v). k \<noteq> c) xs) a = (if a = c then None else map_of xs a)"
  by (induction xs) auto

definition readMail :: "nat \<Rightarrow> visibility_message \<Rightarrow> visibility_message list \<Rightarrow> browser \<Rightarrow> browser" where
  \<comment> \<open>the message, without the answer to a hello\<close>
  "readMail b m rest w =
     patchTab b (\<lambda>t. case m of Bye c \<Rightarrow> t\<lparr>nt_others := filter (\<lambda>(c', v). c' \<noteq> c) (nt_others t)\<rparr>
                      | Visibility c v \<Rightarrow> set_other c v t | Hello c v \<Rightarrow> set_other c v t)
       (w\<lparr>mail := (mail w)(b := rest)\<rparr>)"

lemma deliver_read:
  assumes "mail w b = m # rest" "nt_running (tabs w b)" "message_tab m \<noteq> b"
  shows "deliver b w =
    (case m of Hello c v \<Rightarrow> postMessage b (Visibility b (nt_visible (tabs (readMail b m rest w) b))) (readMail b m rest w)
     | _ \<Rightarrow> readMail b m rest w)"
  using assms by (cases m) (simp_all add: deliver_def onMessage_def readMail_def set_other_def [abs_def])

lemma knows_read: "mail w b = m # rest \<Longrightarrow> knows (readMail b m rest w) y x = knows w y x"
  by (cases m) (auto simp: knows_def readMail_def set_other_def update_conv map_of_filter_other)

lemma read_frame [simp]:
  "nt_running (tabs (readMail b m rest w) x) = nt_running (tabs w x)" "nt_visible (tabs (readMail b m rest w) x) = nt_visible (tabs w x)"
  "mail (readMail b m rest w) x = (if x = b then rest else mail w x)"
  by (cases m; simp add: readMail_def set_other_def)+

lemma known_deliver:
  assumes "known_ok w" "mail_ok w"
  shows "known_ok (deliver b w)"
proof (cases "mail w b = [] \<or> \<not> nt_running (tabs w b)")
  case True
  then show ?thesis using assms(1) by (auto simp: deliver_def split: list.split)
next
  case False
  then obtain m rest where m: "mail w b = m # rest" and r: "nt_running (tabs w b)" by (cases "mail w b") auto
  have own: "message_tab m \<noteq> b" using assms(2) m by (auto simp: mail_ok_def dest: spec[of _ b])
  let ?r = "readMail b m rest w"
  have keep: "pair_ok ?r y x" if "x \<noteq> y" "nt_running (tabs w y)" "greets w y x \<Longrightarrow> greets ?r y x" for x y
  proof -
    have "pair_ok w y x" using assms(1) that by (simp add: known_ok_def)
    then show ?thesis by (rule pair_keep) (simp_all add: knows_read [OF m] that(3))
  qed
  show ?thesis
  proof (cases "\<exists>c v. m = Hello c v")
    case True
    have "known_ok (postMessage b (Visibility b (nt_visible (tabs ?r b))) ?r)"
      by (rule known_post_visible) (use keep r in \<open>auto simp: greets_def\<close>)
    then show ?thesis using True by (auto simp: deliver_read[OF m r own] split: visibility_message.split)
  next
    case False
    have "greets ?r y x" if g: "greets w y x" for x y
    proof -
      obtain v where v: "Hello y v \<in> set (mail w x)" using g unfolding greets_def by blast
      have "m \<noteq> Hello y v" using False by blast
      then have "Hello y v \<in> set (mail ?r x)" using v m by (cases "x = b") simp_all
      then show ?thesis unfolding greets_def by blast
    qed
    then have "known_ok ?r" using keep by (simp add: known_ok_def)
    then show ?thesis using False by (auto simp: deliver_read[OF m r own] split: visibility_message.split)
  qed
qed

lemma mail_post_own: "message_tab m = a \<Longrightarrow> mail_ok w \<Longrightarrow> mail_ok (postMessage a m w)"
  by (auto simp: mail_ok_def postMessage_def)

lemma mail_step: "mail_ok w \<Longrightarrow> mail_ok (browserStep e w)"
proof (cases e)
  case (BrStart a)
  assume k: "mail_ok w"
  show ?thesis
  proof (cases "nt_running (tabs w a)")
    case False
    have "mail_ok (startNotifier a w)" using k by (auto simp: mail_ok_def start_frame [OF False])
    then show ?thesis using BrStart by (simp add: browserStep_def)
  qed (use BrStart k in \<open>simp add: browserStep_def startNotifier_def\<close>)
next
  case (BrDeliver b)
  assume k: "mail_ok w"
  show ?thesis
  proof (cases "mail w b = [] \<or> \<not> nt_running (tabs w b)")
    case False
    then obtain m rest where m: "mail w b = m # rest" and r: "nt_running (tabs w b)" by (cases "mail w b") auto
    have "b \<notin> message_tab ` set (mail w b)" using k by (simp add: mail_ok_def)
    then have own: "message_tab m \<noteq> b" and rest: "b \<notin> message_tab ` set rest" using m by auto
    have "mail_ok (readMail b m rest w)"
      using k own rest by (cases m) (auto simp: mail_ok_def readMail_def set_other_def dom_update distinct_update distinct_map_filter)
    then show ?thesis using BrDeliver own by (auto simp: browserStep_def deliver_read[OF m r] mail_post_own split: visibility_message.split)
  qed (use BrDeliver k in \<open>auto simp: browserStep_def deliver_def split: list.split\<close>)
qed (auto simp: browserStep_def stopNotifier_def visibilityChanged_def grantLock_def freeLock_def notify_def Let_def mail_ok_def postMessage_def
      split: list.split option.split bool.split)

lemma known_step: "known_ok w \<Longrightarrow> mail_ok w \<Longrightarrow> known_ok (browserStep e w)"
proof (cases e)
  case BrGrant
  assume "known_ok w"
  moreover have "known_ok (grantLock w) = known_ok w"
    by (rule known_cong) (simp_all add: grantLock_def split: list.split option.split)
  ultimately show ?thesis using BrGrant by (simp add: browserStep_def)
next
  case BrFree
  assume "known_ok w"
  moreover have "known_ok (freeLock w) = known_ok w"
    by (rule known_cong) (simp_all add: freeLock_def split: option.split bool.split)
  ultimately show ?thesis using BrFree by (simp add: browserStep_def)
next
  case (BrNotify a c)
  assume "known_ok w"
  moreover have "known_ok (notify a c w) = known_ok w" by (rule known_cong) (simp_all add: notify_def)
  ultimately show ?thesis using BrNotify by (simp add: browserStep_def)
qed (simp_all add: browserStep_def known_start known_stop known_visible known_deliver)

lemma run_known: "known_ok w \<Longrightarrow> mail_ok w \<Longrightarrow> known_ok (browserRun w es) \<and> mail_ok (browserRun w es)"
  by (induction es arbitrary: w) (simp_all add: browserRun_def known_step mail_step)

lemma run_lead: "lead_ok w \<Longrightarrow> lead_ok (browserRun w es)"
  by (induction es arbitrary: w) (simp_all add: browserRun_def lead_ok_step)

lemma opened_ok:
  assumes "new_tabs locks ts"
  shows "known_ok (openBrowser locks ts)" "mail_ok (openBrowser locks ts)" "locks \<Longrightarrow> lead_ok (openBrowser locks ts)"
proof -
  have t: "\<not> nt_running (ts a)" "nt_leader (ts a) = (\<not> locks)" "nt_others (ts a) = []" for a
    using assms by (metis createDesktopNotifier_def new_tabs_def notifier_tab.select_convs)+
  show "known_ok (openBrowser locks ts)" "mail_ok (openBrowser locks ts)" "locks \<Longrightarrow> lead_ok (openBrowser locks ts)"
    using t by (simp_all add: openBrowser_def known_ok_def mail_ok_def lead_ok_def)
qed

lemma anyVisible_settled:
  assumes "known_ok w" "mail_ok w" "\<forall>x. mail w x = []" "nt_running (tabs w a)"
  shows "anyVisible (tabs w a) \<longleftrightarrow> (\<exists>x. nt_visible (tabs w x) \<and> (x = a \<or> nt_running (tabs w x)))"
proof -
  have o: "map_of (nt_others (tabs w a)) x = (if nt_running (tabs w x) then Some (nt_visible (tabs w x)) else None)" if "x \<noteq> a" for x
  proof -
    have "pair_ok w a x" using assms(1,4) that by (simp add: known_ok_def)
    then show ?thesis using assms(3) by (simp add: pair_ok_def knows_def greets_def split: if_splits)
  qed
  have d: "distinct (map fst (nt_others (tabs w a)))" "a \<notin> fst ` set (nt_others (tabs w a))" using assms(2) by (simp_all add: mail_ok_def)
  have "list_ex snd (nt_others (tabs w a)) \<longleftrightarrow> (\<exists>x. map_of (nt_others (tabs w a)) x = Some True)"
    using d(1) by (force simp: list_ex_iff)
  also have "\<dots> \<longleftrightarrow> (\<exists>x. x \<noteq> a \<and> map_of (nt_others (tabs w a)) x = Some True)"
    using d(2) by (metis image_eqI fst_conv map_of_SomeD)
  also have "\<dots> \<longleftrightarrow> (\<exists>x. x \<noteq> a \<and> nt_running (tabs w x) \<and> nt_visible (tabs w x))"
    using o by (auto split: if_splits)
  finally show ?thesis using assms(4) by (auto simp: anyVisible_def)
qed

text \<open>C12: A notification is shown by one tab, and by it alone. In a browser with locks, whatever the tabs do and however their messages and
  the grants of the lock interleave, at most one tab may show a notification at a time. And once the messages between the tabs have
  arrived, the tab that holds the lock (with the permission) shows it exactly when no running tab is visible.\<close>

theorem one_tab_notifies:
  assumes "new_tabs True ts" "w = browserRun (openBrowser True ts) es"
  shows "(\<forall>a b. may_notify (tabs w a) \<longrightarrow> may_notify (tabs w b) \<longrightarrow> a = b)
    \<and> ((\<forall>x. mail w x = []) \<longrightarrow> nt_leader (tabs w a) \<longrightarrow> nt_granted (tabs w a) \<longrightarrow>
       (shown (notify a c w) = shown w @ [(a, c)] \<longleftrightarrow> (\<forall>x. nt_running (tabs w x) \<longrightarrow> \<not> nt_visible (tabs w x))))"
proof -
  have l: "lead_ok w" using assms opened_ok(3) run_lead by blast
  have k: "known_ok w" "mail_ok w" using assms opened_ok(1,2) run_known by blast+
  have "may_notify (tabs w a) \<Longrightarrow> may_notify (tabs w b) \<Longrightarrow> a = b" for a b
    using l unfolding lead_ok_def may_notify_def by (metis option.inject prod.inject)
  moreover have "shown (notify a c w) = shown w @ [(a, c)] \<longleftrightarrow> (\<forall>x. nt_running (tabs w x) \<longrightarrow> \<not> nt_visible (tabs w x))"
    if "\<forall>x. mail w x = []" "nt_leader (tabs w a)" "nt_granted (tabs w a)"
  proof -
    have r: "nt_running (tabs w a)" using l that(2) by (simp add: lead_ok_def)
    have "shown (notify a c w) = shown w @ [(a, c)] \<longleftrightarrow> may_notify (tabs w a)" by (simp add: notify_def)
    also have "\<dots> \<longleftrightarrow> \<not> anyVisible (tabs w a)" using that r by (simp add: may_notify_def)
    finally show ?thesis using anyVisible_settled[OF k that(1) r] r by auto
  qed
  ultimately show ?thesis by blast
qed

definition sample_tabs :: "nat \<Rightarrow> notifier_tab" where
  "sample_tabs a = createDesktopNotifier True (a = 1) True True"

definition sample_note :: notification_content where
  "sample_note = \<lparr>nc_title = ''General'', nc_body = ''hello'', nc_tag = ''room'', nc_url = ''/w/1''\<rparr>"

definition sample_tab_run :: "browser_event list" where
  "sample_tab_run = [BrStart 0, BrStart 1, BrGrant, BrDeliver 0, BrDeliver 1, BrVisible 1 False, BrDeliver 0]"

theorem one_tab_notifies_witness:
  "shown (notify 0 sample_note (browserRun (openBrowser True sample_tabs) sample_tab_run)) = [(0, sample_note)]"
proof -
  let ?w = "browserRun (openBrowser True sample_tabs) sample_tab_run"
  have n: "new_tabs True sample_tabs" by (auto simp: new_tabs_def sample_tabs_def)
  note run = sample_tab_run_def browserRun_def browserStep_def openBrowser_def sample_tabs_def createDesktopNotifier_def startNotifier_def
    grantLock_def deliver_def onMessage_def visibilityChanged_def patchTab_def postMessage_def set_other_def Let_def
  have "nt_leader (tabs ?w 0)" "nt_granted (tabs ?w 0)" "shown ?w = []" by (simp_all add: run)
  moreover have "\<forall>x. mail ?w x = []" "\<forall>x. nt_running (tabs ?w x) \<longrightarrow> \<not> nt_visible (tabs ?w x)" by (simp_all add: run)
  ultimately show ?thesis using one_tab_notifies[OF n refl, of sample_tab_run 0 sample_note] by simp
qed

end
