(* ===== verification/Spec2Isabelle.thy ===== *)
theory Spec2Isabelle
  imports StoreSteps SendOrder SyncSound SubscriptionRuns Mentions Highlight SessionRuns SessionTabs SearchStore Uploads HuddleSurface MemberViews Links NotifierTabs
begin

text \<open>
  Verification of the chat client of hibari (\<open>web/lib/chat\<close> and \<open>web/lib/auth\<close> of the repository, TypeScript).

  \<^bold>\<open>The program.\<close> hibari is a team chat. The client keeps what the screens show in one store; the server answers REST
  requests and sends events over a WebSocket. Pure rules say how a message, a read position, a reaction, a pin, a saved
  item or an entry of the activity feed changes the lists that are held; the store's slices call them from the actions
  of the user, from the answers of requests, from events and from timers. The connection keeps the WebSocket open, the
  subscriptions above it say what to listen to and when to read again what may have been missed. Beside the store stand
  the session (access token, refresh, sign-in), the format of message bodies, the search screen, the uploads of a
  composer, the images on the screen, the huddle call (voice and video over one WebRTC connection) and the desktop
  notifications. The views turn the state into the rows that the components draw.

  \<^bold>\<open>The theories.\<close>
  \<^item> \<open>Prelude\<close>: the parts of JavaScript used (objects as dictionaries, sort, findIndex, localeCompare, Date.parse) with
    their lemmas, and the interface locales; \<open>Wire\<close>: the payloads (\<open>lib/api/types.gen.ts\<close>); \<open>Samples\<close>: values that the
    witnesses share.
  \<^item> \<open>Messages\<close>, \<open>RoomRules\<close> (\<open>rules/messages.ts\<close>), \<open>Reactions\<close>, \<open>ThreadRules\<close>, \<open>PinRules\<close>, \<open>SavedRules\<close>, \<open>ActivityFeed\<close>
    (\<open>rules/\<close>), \<open>NotifyRules\<close> (\<open>notifications/\<close>): the pure rules, with the names of the code.
  \<^item> \<open>StoreState\<close> (\<open>store/state.ts\<close>, \<open>core.ts\<close>) and one theory for each slice: \<open>TimelineStore\<close>, \<open>HistoryStore\<close>, \<open>SendStore\<close>,
    \<open>ReadStore\<close>, \<open>ThreadStore\<close>, \<open>SavedStore\<close>, \<open>ActivityStore\<close>, \<open>PinStore\<close>, \<open>TypingStore\<close>, \<open>MessageActions\<close>, \<open>RoomStore\<close>,
    \<open>WorkspaceStore\<close> (workspaces, members, my-settings, invites, notifications), \<open>HuddleStore\<close>, \<open>EventStore\<close>; \<open>StoreSteps\<close>
    puts them together (\<open>chat-store.ts\<close>).
  \<^item> \<open>PresenceActivity\<close>, \<open>Connection\<close>, \<open>Subscriptions\<close>: \<open>realtime/activity.ts\<close>, \<open>connection.ts\<close>, \<open>subscriptions.ts\<close>.
  \<^item> \<open>Session\<close> (\<open>auth/session/\<close>, \<open>auth/single-flight.ts\<close>) and \<open>SessionTabs\<close>, the tabs of a browser that share the lock of the
    refresh.
  \<^item> \<open>JsText\<close> (the text operations used), \<open>InlineFormat\<close>, \<open>BodyFormat\<close> (\<open>format/body-format.ts\<close>) with the lemma theories
    \<open>BodyScan\<close> and \<open>BodyCode\<close>; \<open>Mentions\<close>, \<open>Highlight\<close> (\<open>format/\<close>); \<open>SearchQuery\<close>, \<open>SearchStore\<close> (\<open>search/\<close>); \<open>Uploads\<close>,
    \<open>MediaStore\<close> (\<open>media/\<close>).
  \<^item> \<open>HuddleStage\<close>, \<open>HuddleCall\<close>, \<open>HuddleSurface\<close>, \<open>RecentHuddles\<close> (\<open>huddle/\<close>): which videos are received, the call itself, the
    window it is shown in, and the list of past huddles.
  \<^item> \<open>TimeLabels\<close> (\<open>format/time.ts\<close>), \<open>HuddleViews\<close>, \<open>TimelineView\<close> (\<open>views/huddles.ts\<close>, \<open>views/timeline.ts\<close>, \<open>views/message.ts\<close>):
    what the screens show. \<open>NotifierTabs\<close> (\<open>notifications/desktop-notifier.ts\<close>): which tab of the browser notifies.
  \<^item> \<open>Links\<close> (\<open>format/links.ts\<close>, \<open>format/link-previews.ts\<close>): the URLs of messages and huddles and the cards of a body.
    \<open>MemberViews\<close> (\<open>views/members.ts\<close>, \<open>rooms.ts\<close>, \<open>permissions.ts\<close>, \<open>workspace-views.ts\<close>, \<open>presence.ts\<close>): members, rooms and
    what the viewer is offered to do; \<open>Authz\<close> (\<open>internal/chat/authz/authz.go\<close>, Go): the rules of the server.
  \<^item> \<open>StoreInv\<close>, \<open>SendOrder\<close>, \<open>SyncSound\<close>, \<open>ConnectionRuns\<close>, \<open>SubscriptionRuns\<close>, \<open>SessionRuns\<close>, \<open>HuddleRuns\<close>, \<open>HuddlePromises\<close>, \<open>HuddleEnds\<close> hold no code: they are invariants over the
    steps of the others.

  \<^bold>\<open>How code becomes definitions.\<close> A closure's variables are the fields of a record and every function of the code is a
  function of that record with its name. An \<open>async\<close> function is cut at its awaits: the first part adds its request to
  \<open>calls\<close>, and the part after the await is the function that settles that request, which the step relation may run at any
  later time with any answer the types allow; so every interleaving of requests, events, timers and actions is a run. What a
  task of the store awaits of another is a continuation in \<open>waiting\<close>. A timer is its due time or a flag, and its callback
  is a step. Objects shared by reference that the code relies on are kept as such: the send queues live in a heap with
  addresses, the identity of the set of subscriptions is its epoch. \<open>undefined\<close> and \<open>null\<close> are \<open>None\<close>; errors are values
  (\<open>api_error\<close>, \<open>load_status\<close>). Sequence numbers and times are \<open>int\<close>: the code uses numbers below \<open>2^53\<close>.

  \<^bold>\<open>What the lemmas show.\<close>
  \<^item> Rules: merging is independent of order and keeps the newest version, windows have no holes, the cursor stops at the
    first gap, counters and positions keep their invariants, redelivery changes nothing, lists stay sorted (pins and
    the feed by the strings of their times, which is not quite their order in time).
  \<^item> \<open>SyncSound\<close>: against a server whose change log grows, the cursor of a timeline counts no change that the timeline could
    have shown and does not, as long as the pages of the window came in time, and a gap starts a catch-up. The runs hold
    every step of the code, late pages too; a flag of the run tells whether there was one, since the code does not look.
    What a page and a change page hold are hypotheses about the server. Two theorems show how a late page loses a change.
  \<^item> \<open>StoreInv\<close> and \<open>StoreSteps\<close>: every state that actions, answers, events and timers can reach is well formed.
  \<^item> \<open>SendOrder\<close>: a pending message is in flight, queues send their first message, one loop for each room. \<open>ReadStore\<close>: one
    request of a read position for each room, and none is lost.
  \<^item> \<open>ConnectionRuns\<close>: the connection is never stuck or doubled, an open one is watched, every request is settled once.
    \<open>SubscriptionRuns\<close>: the subscriptions over it reach what the store shows, and the banner tells the state.
  \<^item> \<open>SessionRuns\<close>: one refresh is in flight, and every request of the session is settled; \<open>SessionTabs\<close>: with the lock, no
    refresh token is presented twice unless the answer of a refresh was lost, and then it is. A theorem shows the answer that signs in again after a logout.
  \<^item> Format: a parsed body loses no character and is well shaped, lists have the outline of their lines, the code ranges of
    the text are those of the parser, links are safe. A formatted search query reads back, and the answers shown are
    those of the last search. Drafts and their upload tasks stay together.
  \<^item> \<open>HuddleStage\<close>: the stage is as full as it may be and does not flicker. \<open>HuddleRuns\<close>: exchanges of session descriptions
    do not overlap; \<open>HuddlePromises\<close>: a promise of a closed connection stays for ever; \<open>HuddleEnds\<close>: a call that ends leaves
    nothing of what it holds. Two theorems show interleavings that go wrong, for every state in which they can happen. \<open>HuddleSurface\<close>: closing the
    window ends the preview. \<open>RecentHuddles\<close>: what is shown answers the last query; one theorem shows a read that loses rows.
  \<^item> \<open>MediaStore\<close>: nothing is asked for twice at a time, and a shown image keeps its address. \<open>NotifierTabs\<close>: over all tabs
    and every interleaving of their messages, one tab notifies, and it does when no tab is visible.
  \<^item> \<open>TimelineView\<close>: the loop that builds the timeline yields, at each entry, the rows that a description by position
    gives (days, the unread marker, groups). \<open>HuddleViews\<close>: the two readers of a direct message see matching huddles.
    \<open>TimeLabels\<close>: the labels follow the calendar of the reader.
  \<^item> \<open>MemberViews\<close>: what the screens offer in a room and in the administration is what the rules of \<open>Authz\<close> allow. \<open>Authz\<close>:
    power in a workspace comes from above. \<open>Links\<close>: a copied link reads back, a message has at most three cards, and a card
    that is cut shows the start of the body with its fences closed.

  \<^bold>\<open>Interfaces.\<close> Where several components keep the same contract it is a locale of \<open>Prelude\<close> or of the first component,
  interpreted on the definitions of each that provides it: merging by versions (messages, replies), windows, positions
  that only advance, lists kept sorted.

  \<^bold>\<open>Bounds.\<close> No fuel is used: every loop of the code is structural, or has a measure (\<open>advance_loop\<close>); loops that wait for
  answers are steps.

  \<^bold>\<open>Not modelled.\<close> The Go server and the database (another language; what the client relies on is stated as hypotheses);
  React components, screens and stories, browser APIs (notifications, localStorage; of media and WebRTC, what the code
  relies on is an event or an answer of the model), the API client's fetches, texts shown to the user. What the
  cards of links show once they are loaded is left out too. Of the server, \<open>Authz\<close> alone is modelled. The \<open>URL\<close> of the browser and the
  zones of \<open>Intl\<close> are parameters.
\<close>

end
